(* ===== verification/Lwip_Prelude.thy ===== *)
theory Lwip_Prelude
  imports Main "HOL-Library.Word"
begin

text \<open>
  The prelude of the lwIP development: the C integer types as words, the ways a
  call into the C code can fail to return (an assertion that aborts the process,
  an access outside an object, a loop that does not end), the sequencing of
  fallible calls, the error codes of \<^verbatim>\<open>lwip/err.h\<close>, and the facts on
  words, bytes and lists that the component theories share.
\<close>

unbundle bit_operations_syntax

section \<open>C types\<close>

type_synonym u8_t = "8 word"
type_synonym u16_t = "16 word"
type_synonym u32_t = "32 word"
type_synonym byte = "8 word"
type_synonym bytes = "byte list"

section \<open>Outcomes of C code\<close>

text \<open>
  \<open>Abort\<close> is a failed \<^verbatim>\<open>LWIP_ASSERT\<close> or \<^verbatim>\<open>LWIP_ERROR\<close>: the configuration of this
  repository leaves \<^verbatim>\<open>LWIP_NOASSERT\<close> undefined, so both call \<^verbatim>\<open>abort()\<close>
  (\<^verbatim>\<open>lwip/debug.h\<close>, \<^verbatim>\<open>arch/cc_others.h\<close>). \<open>Fault\<close> is a use of a NULL or dangling
  pointer or an access outside the object it points into. \<open>Diverge\<close> is a loop
  over a linked structure that was cut off because it ran longer than the
  number of objects that exist.
\<close>

datatype failure = Abort | Fault | Diverge

type_synonym 'a outcome = "failure + 'a"

definition bnd :: "'a outcome \<Rightarrow> ('a \<Rightarrow> 'b outcome) \<Rightarrow> 'b outcome" where
  "bnd m f = (case m of Inl e \<Rightarrow> Inl e | Inr x \<Rightarrow> f x)"

definition lwip_assert :: "bool \<Rightarrow> 'a outcome \<Rightarrow> 'a outcome" where
  "lwip_assert c k = (if c then k else Inl Abort)"

lemma bnd_Inl [simp]: "bnd (Inl e) f = Inl e"
  by (simp add: bnd_def)

lemma bnd_Inr [simp]: "bnd (Inr x) f = f x"
  by (simp add: bnd_def)

lemma bnd_eq_Inr_iff: "bnd m f = Inr y \<longleftrightarrow> (\<exists>x. m = Inr x \<and> f x = Inr y)"
  by (cases m) auto

lemma bnd_InrE:
  assumes "bnd m f = Inr y"
  obtains x where "m = Inr x" and "f x = Inr y"
  using assms by (auto simp: bnd_eq_Inr_iff)

lemma bnd_assoc: "bnd (bnd m f) g = bnd m (\<lambda>x. bnd (f x) g)"
  by (cases m) auto

lemma lwip_assert_True [simp]: "lwip_assert True k = k"
  by (simp add: lwip_assert_def)

lemma lwip_assert_False [simp]: "lwip_assert False k = Inl Abort"
  by (simp add: lwip_assert_def)

lemma lwip_assert_eq_Inr_iff [simp]: "lwip_assert c k = Inr y \<longleftrightarrow> c \<and> k = Inr y"
  by (simp add: lwip_assert_def)

section \<open>Error codes\<close>

text \<open>\<^verbatim>\<open>err_enum_t\<close> of \<^verbatim>\<open>lwip/err.h\<close>.\<close>

datatype err_t =
    ERR_OK | ERR_MEM | ERR_BUF | ERR_TIMEOUT | ERR_RTE | ERR_INPROGRESS | ERR_VAL
  | ERR_WOULDBLOCK | ERR_USE | ERR_ALREADY | ERR_ISCONN | ERR_CONN | ERR_IF
  | ERR_ABRT | ERR_RST | ERR_CLSD | ERR_ARG

section \<open>Words\<close>

named_theorems word_nat \<open>facts that move word arithmetic to the naturals\<close>

lemma unat_lt_8 [simp]: "unat (x :: u8_t) < 256"
  using unsigned_less [where w = x and 'a = nat] by simp

lemma unat_lt_16 [simp]: "unat (x :: u16_t) < 65536"
  using unsigned_less [where w = x and 'a = nat] by simp

lemma unat_lt_32 [simp]: "unat (x :: u32_t) < 4294967296"
  using unsigned_less [where w = x and 'a = nat] by simp

lemma unat_add_16 [word_nat]: "unat (x + y :: u16_t) = (unat x + unat y) mod 65536"
  by (simp add: unat_word_ariths)

lemma unat_add_32 [word_nat]: "unat (x + y :: u32_t) = (unat x + unat y) mod 4294967296"
  by (simp add: unat_word_ariths)

lemma unat_add_no_wrap_16:
  "unat x + unat y < 65536 \<Longrightarrow> unat (x + y :: u16_t) = unat x + unat y"
  by (simp add: unat_add_16)

lemma unat_add_no_wrap_32:
  "unat x + unat y < 4294967296 \<Longrightarrow> unat (x + y :: u32_t) = unat x + unat y"
  by (simp add: unat_add_32)

lemma unat_Suc_word: "(i :: 'a::len word) < n \<Longrightarrow> unat (i + 1) = Suc (unat i)"
proof -
  assume "i < n"
  then have "Suc (unat i) \<le> unat n" by (simp add: word_less_nat_alt Suc_le_eq)
  also have "unat n < 2 ^ LENGTH('a)" by (rule unsigned_less)
  finally have "Suc (unat i) < 2 ^ LENGTH('a)" .
  moreover have "unat (i + 1) = Suc (unat i) mod 2 ^ LENGTH('a)"
    by (cases "LENGTH('a) = 1") (simp_all add: unat_word_ariths mod_Suc_eq)
  ultimately show ?thesis by simp
qed

lemma unat_sub_word: "y \<le> x \<Longrightarrow> unat (x - y :: 'a::len word) = unat x - unat y"
  by (simp add: unat_sub)

lemma unat_ucast_16_32 [simp]: "unat (ucast (x :: u16_t) :: u32_t) = unat x"
  using unat_lt_16 [of x] by (simp add: unsigned_ucast_eq take_bit_eq_mod del: unat_lt_16)

lemma unat_ucast_8_16 [simp]: "unat (ucast (x :: u8_t) :: u16_t) = unat x"
  using unat_lt_8 [of x] by (simp add: unsigned_ucast_eq take_bit_eq_mod del: unat_lt_8)

lemma unat_ucast_8_32 [simp]: "unat (ucast (x :: u8_t) :: u32_t) = unat x"
  using unat_lt_8 [of x] by (simp add: unsigned_ucast_eq take_bit_eq_mod del: unat_lt_8)

lemma unat_ucast_32_16 [word_nat]: "unat (ucast (x :: u32_t) :: u16_t) = unat x mod 65536"
  by (simp add: unsigned_ucast_eq take_bit_eq_mod)

lemma unat_ucast_32_8 [word_nat]: "unat (ucast (x :: u32_t) :: u8_t) = unat x mod 256"
  by (simp add: unsigned_ucast_eq take_bit_eq_mod)

lemma unat_ucast_16_8 [word_nat]: "unat (ucast (x :: u16_t) :: u8_t) = unat x mod 256"
  by (simp add: unsigned_ucast_eq take_bit_eq_mod)

lemma unat_drop_bit [word_nat]: "unat (drop_bit n (x :: 'a::len word)) = unat x div 2 ^ n"
  by (simp only: unat_drop_bit_eq) (simp add: drop_bit_eq_div)

lemma unat_and_mask [word_nat]: "unat ((x :: 'a::len word) AND mask n) = unat x mod 2 ^ n"
  by (simp only: take_bit_eq_mask [symmetric] unsigned_take_bit_eq)
    (simp add: take_bit_eq_mod)

subsection \<open>Byte fields of a word\<close>

lemma and_field: "x AND push_bit k (mask n) = push_bit k (take_bit n (drop_bit k (x::'a::len word)))"
  by (rule bit_word_eqI) (auto simp: bit_simps)

lemma and_0xff: "(x :: 'a::len word) AND 0xff = take_bit 8 x"
  by (simp add: take_bit_eq_mask mask_numeral)

lemma and_0xff00: "(x :: 'a::len word) AND 0xff00 = push_bit 8 (take_bit 8 (drop_bit 8 x))"
  using and_field [of x 8 8] by (simp add: mask_numeral)

lemma and_0xff0000: "(x :: 'a::len word) AND 0xff0000 = push_bit 16 (take_bit 8 (drop_bit 16 x))"
  using and_field [of x 16 8] by (simp add: mask_numeral)

lemma and_0xff000000: "(x :: 'a::len word) AND 0xff000000 = push_bit 24 (take_bit 8 (drop_bit 24 x))"
  using and_field [of x 24 8] by (simp add: mask_numeral)

lemma and_0xffff: "(x :: 'a::len word) AND 0xffff = take_bit 16 x"
  by (simp add: take_bit_eq_mask mask_numeral)

lemmas and_byte = and_0xff and_0xff00 and_0xff0000 and_0xff000000

lemma unat_take_bit [word_nat]: "unat (take_bit n (x :: 'a::len word)) = unat x mod 2 ^ n"
  by (simp only: unsigned_take_bit_eq) (simp add: take_bit_eq_mod)

lemma unat_push_bit [word_nat]:
  "unat (push_bit n (x :: 'a::len word)) = (unat x * 2 ^ n) mod 2 ^ LENGTH('a)"
  by (simp only: unsigned_push_bit_eq) (simp add: take_bit_eq_mod push_bit_eq_mult)

lemma unat_or_disjoint:
  "x AND y = 0 \<Longrightarrow> unat (x OR y) = (unat x + unat (y :: 'a::len word)) mod 2 ^ LENGTH('a)"
  by (simp add: disjunctive_add_eq_or [symmetric] unat_word_ariths)

section \<open>C strings and buffers\<close>

text \<open>
  A pointer into a character array is the list of the characters from there to the end of
  the array; reading the empty list is outside the object. \<open>cstr\<close> is a literal with its
  terminating zero.
\<close>

definition cstr :: "string \<Rightarrow> bytes" where
  "cstr s = map of_char s @ [0]"

definition deref :: "'a list \<Rightarrow> 'a outcome" where
  "deref xs = (case xs of [] \<Rightarrow> Inl Fault | x # _ \<Rightarrow> Inr x)"

lemma deref_Cons [simp]: "deref (x # xs) = Inr x"
  by (simp add: deref_def)

lemma deref_Nil [simp]: "deref [] = Inl Fault"
  by (simp add: deref_def)

definition buf_set :: "'a list \<Rightarrow> nat \<Rightarrow> 'a \<Rightarrow> 'a list outcome" where
  "buf_set xs i v = (if i < length xs then Inr (xs[i := v]) else Inl Fault)"

definition buf_get :: "'a list \<Rightarrow> nat \<Rightarrow> 'a outcome" where
  "buf_get xs i = (if i < length xs then Inr (xs ! i) else Inl Fault)"

lemma buf_set_Inr [simp]: "i < length xs \<Longrightarrow> buf_set xs i v = Inr (xs[i := v])"
  by (simp add: buf_set_def)

lemma buf_get_Inr [simp]: "i < length xs \<Longrightarrow> buf_get xs i = Inr (xs ! i)"
  by (simp add: buf_get_def)

text \<open>\<^verbatim>\<open>strlen\<close> of the C library; it runs off the object when there is no zero byte.\<close>

fun c_strlen :: "bytes \<Rightarrow> nat outcome" where
  "c_strlen [] = Inl Fault"
| "c_strlen (c # s) = (if c = 0 then Inr 0 else bnd (c_strlen s) (\<lambda>n. Inr (Suc n)))"

text \<open>\<^verbatim>\<open>strncmp(s, t, n) == 0\<close> of the C library.\<close>

fun c_strncmp_eq :: "bytes \<Rightarrow> bytes \<Rightarrow> nat \<Rightarrow> bool outcome" where
  "c_strncmp_eq s t 0 = Inr True"
| "c_strncmp_eq (c # s) (d # t) (Suc n) =
     (if c \<noteq> d then Inr False else if c = 0 then Inr True else c_strncmp_eq s t n)"
| "c_strncmp_eq s t (Suc n) = Inl Fault"

lemma c_strlen_append [simp]: "0 \<notin> set s \<Longrightarrow> c_strlen (s @ 0 # t) = Inr (length s)"
  by (induction s) auto

end
