(* ===== verification/Timeouts_C.thy ===== *)
theory Timeouts_C
  imports Lwip_Prelude "HOL-Library.Multiset"
begin

text \<open>
  \<^verbatim>\<open>core/timeouts.c\<close>: the list of timeouts and its processing. The list \<^verbatim>\<open>next_timeout\<close> is private
  to the module, so it is a list here. What the module calls is a parameter: the state of the rest
  of the stack is the type variable \<open>'w\<close>, the handlers of \<^verbatim>\<open>lwip_cyclic_timers\<close>, \<^verbatim>\<open>tcp_tmr\<close> and the
  release of out-of-sequence pbufs act on it, and successive calls of \<^verbatim>\<open>sys_now\<close> read the field
  \<open>clock\<close>. The handlers of the table do not touch the timeout list.
\<close>

section \<open>State\<close>

text \<open>\<^verbatim>\<open>sys_timeout_handler\<close>: the two handlers of this module, and those of applications.\<close>

datatype sys_timeout_handler = Lwip_cyclic_timer | Tcpip_tcp_timer | App_handler nat

record sys_timeo =
  tm_time :: u32_t
  tm_h :: "sys_timeout_handler option"
  tm_arg :: nat

record 'w timers =
  next_timeout :: "sys_timeo list"
  current_timeout_due_time :: u32_t
  tcpip_tcp_timer_active :: bool
  rest :: 'w
  clock :: "nat \<Rightarrow> u32_t"
  ticks :: nat
  memp_fails :: "nat \<Rightarrow> bool"
  allocs :: nat

text \<open>The functions of other modules: \<open>app h arg\<close> is an application's handler.\<close>

record 'w env =
  cyclic_handler :: "nat \<Rightarrow> 'w \<Rightarrow> 'w"
  tcp_pcbs :: "'w \<Rightarrow> bool"
  check_free_ooseq :: "'w \<Rightarrow> 'w"
  app :: "nat \<Rightarrow> nat \<Rightarrow> 'w \<Rightarrow> 'w"

section \<open>Operations\<close>

definition LWIP_MAX_TIMEOUT :: u32_t where
  "LWIP_MAX_TIMEOUT = 0x7fffffff"

definition TIME_LESS_THAN :: "u32_t \<Rightarrow> u32_t \<Rightarrow> bool" where
  "TIME_LESS_THAN t compare_to \<longleftrightarrow> t - compare_to > LWIP_MAX_TIMEOUT"

text \<open>\<^verbatim>\<open>lwip_cyclic_timers\<close>: the intervals of \<^verbatim>\<open>tcp_tmr\<close>, \<^verbatim>\<open>ip_reass_tmr\<close>, \<^verbatim>\<open>nd6_tmr\<close> and \<^verbatim>\<open>ip6_reass_tmr\<close>.\<close>

definition lwip_cyclic_timers :: "u32_t list" where
  "lwip_cyclic_timers = [250, 1000, 1000, 1000]"

abbreviation (input) TCP_TMR_INTERVAL :: u32_t where "TCP_TMR_INTERVAL \<equiv> 250"

definition sys_now :: "'w timers \<Rightarrow> u32_t \<times> 'w timers" where
  "sys_now s = (clock s (ticks s), s\<lparr>ticks := Suc (ticks s)\<rparr>)"

text \<open>The loop of \<^verbatim>\<open>sys_timeout_abs\<close> over \<open>t\<close> and its successors.\<close>

fun insert_after :: "sys_timeo \<Rightarrow> sys_timeo list \<Rightarrow> sys_timeo list" where
  "insert_after timeout [] = []"
| "insert_after timeout [t] = [t, timeout]"
| "insert_after timeout (t # u # ts) =
     (if TIME_LESS_THAN (tm_time timeout) (tm_time u) then t # timeout # u # ts
      else t # insert_after timeout (u # ts))"

definition sys_timeout_abs :: "u32_t \<Rightarrow> sys_timeout_handler option \<Rightarrow> nat \<Rightarrow> 'w timers \<Rightarrow> 'w timers outcome" where
  "sys_timeout_abs abs_time handler arg s =
     (let failed = memp_fails s (allocs s); s = s\<lparr>allocs := Suc (allocs s)\<rparr>
      in lwip_assert (\<not> failed)
         (let timeout = \<lparr>tm_time = abs_time, tm_h = handler, tm_arg = arg\<rparr>
          in case next_timeout s of
               [] \<Rightarrow> Inr (s\<lparr>next_timeout := [timeout]\<rparr>)
             | t # ts \<Rightarrow>
                 if TIME_LESS_THAN (tm_time timeout) (tm_time t)
                 then Inr (s\<lparr>next_timeout := timeout # t # ts\<rparr>)
                 else Inr (s\<lparr>next_timeout := insert_after timeout (t # ts)\<rparr>)))"

definition sys_timeout :: "u32_t \<Rightarrow> sys_timeout_handler option \<Rightarrow> nat \<Rightarrow> 'w timers \<Rightarrow> 'w timers outcome" where
  "sys_timeout msecs handler arg s =
     lwip_assert (msecs \<le> 0xFFFFFFFF div 4)
      (let (now, s) = sys_now s; next_timeout_time = now + msecs
       in sys_timeout_abs next_timeout_time handler arg s)"

definition tcpip_tcp_timer :: "'w env \<Rightarrow> 'w timers \<Rightarrow> 'w timers outcome" where
  "tcpip_tcp_timer e s =
     (let s = s\<lparr>rest := cyclic_handler e 0 (rest s)\<rparr>
      in if tcp_pcbs e (rest s) then sys_timeout TCP_TMR_INTERVAL (Some Tcpip_tcp_timer) 0 s
         else Inr (s\<lparr>tcpip_tcp_timer_active := False\<rparr>))"

definition tcp_timer_needed :: "'w env \<Rightarrow> 'w timers \<Rightarrow> 'w timers outcome" where
  "tcp_timer_needed e s =
     (if \<not> tcpip_tcp_timer_active s \<and> tcp_pcbs e (rest s)
      then sys_timeout TCP_TMR_INTERVAL (Some Tcpip_tcp_timer) 0 (s\<lparr>tcpip_tcp_timer_active := True\<rparr>)
      else Inr s)"

text \<open>\<open>arg\<close> points to an entry of the table.\<close>

definition lwip_cyclic_timer :: "'w env \<Rightarrow> nat \<Rightarrow> 'w timers \<Rightarrow> 'w timers outcome" where
  "lwip_cyclic_timer e arg s =
     bnd (buf_get lwip_cyclic_timers arg) (\<lambda>interval_ms.
     let s = s\<lparr>rest := cyclic_handler e arg (rest s)\<rparr>;
         (now, s) = sys_now s;
         next_timeout_time = current_timeout_due_time s + interval_ms
     in if TIME_LESS_THAN next_timeout_time now
        then sys_timeout_abs (now + interval_ms) (Some Lwip_cyclic_timer) arg s
        else sys_timeout_abs next_timeout_time (Some Lwip_cyclic_timer) arg s)"

fun timeouts_init_loop :: "nat list \<Rightarrow> 'w timers \<Rightarrow> 'w timers outcome" where
  "timeouts_init_loop [] s = Inr s"
| "timeouts_init_loop (i # is) s =
     bnd (buf_get lwip_cyclic_timers i) (\<lambda>ms.
     bnd (sys_timeout ms (Some Lwip_cyclic_timer) i s) (timeouts_init_loop is))"

definition sys_timeouts_init :: "'w timers \<Rightarrow> 'w timers outcome" where
  "sys_timeouts_init s = timeouts_init_loop [1..<length lwip_cyclic_timers] s"

fun untimeout_loop :: "sys_timeout_handler option \<Rightarrow> nat \<Rightarrow> sys_timeo list \<Rightarrow> sys_timeo list" where
  "untimeout_loop handler arg [] = []"
| "untimeout_loop handler arg (t # ts) =
     (if tm_h t = handler \<and> tm_arg t = arg then ts else t # untimeout_loop handler arg ts)"

definition sys_untimeout :: "sys_timeout_handler option \<Rightarrow> nat \<Rightarrow> 'w timers \<Rightarrow> 'w timers" where
  "sys_untimeout handler arg s = s\<lparr>next_timeout := untimeout_loop handler arg (next_timeout s)\<rparr>"

text \<open>\<^verbatim>\<open>handler(arg)\<close> of \<^verbatim>\<open>sys_check_timeouts\<close>.\<close>

definition call_handler :: "'w env \<Rightarrow> sys_timeout_handler option \<Rightarrow> nat \<Rightarrow> 'w timers \<Rightarrow> 'w timers outcome" where
  "call_handler e handler arg s =
     (case handler of None \<Rightarrow> Inr s
      | Some Lwip_cyclic_timer \<Rightarrow> lwip_cyclic_timer e arg s
      | Some Tcpip_tcp_timer \<Rightarrow> tcpip_tcp_timer e s
      | Some (App_handler k) \<Rightarrow> Inr (s\<lparr>rest := app e k arg (rest s)\<rparr>))"

fun check_timeouts_loop :: "nat \<Rightarrow> 'w env \<Rightarrow> u32_t \<Rightarrow> 'w timers \<Rightarrow> 'w timers outcome" where
  "check_timeouts_loop 0 e now s = Inl Diverge"
| "check_timeouts_loop (Suc n) e now s =
     (let s = s\<lparr>rest := check_free_ooseq e (rest s)\<rparr>
      in case next_timeout s of
           [] \<Rightarrow> Inr s
         | tmptimeout # ts \<Rightarrow>
             if TIME_LESS_THAN now (tm_time tmptimeout) then Inr s
             else bnd (call_handler e (tm_h tmptimeout) (tm_arg tmptimeout)
                        (s\<lparr>next_timeout := ts, current_timeout_due_time := tm_time tmptimeout\<rparr>))
                    (check_timeouts_loop n e now))"

text \<open>
  The loop of \<^verbatim>\<open>sys_check_timeouts\<close> has no bound of its own: \<open>n\<close> is the number of iterations
  it may take.
\<close>

definition sys_check_timeouts :: "nat \<Rightarrow> 'w env \<Rightarrow> 'w timers \<Rightarrow> 'w timers outcome" where
  "sys_check_timeouts n e s = (let (now, s) = sys_now s in check_timeouts_loop n e now s)"

definition sys_restart_timeouts :: "'w timers \<Rightarrow> 'w timers" where
  "sys_restart_timeouts s =
     (case next_timeout s of [] \<Rightarrow> s
      | t0 # _ \<Rightarrow> (let (now, s) = sys_now s; base = tm_time t0
                  in s\<lparr>next_timeout := map (\<lambda>t. t\<lparr>tm_time := (tm_time t - base) + now\<rparr>) (next_timeout s)\<rparr>))"

definition sys_timeouts_sleeptime :: "'w timers \<Rightarrow> (u32_t \<times> 'w timers) outcome" where
  "sys_timeouts_sleeptime s =
     (case next_timeout s of [] \<Rightarrow> Inr (0xFFFFFFFF, s)
      | t # _ \<Rightarrow> (let (now, s) = sys_now s
                 in if TIME_LESS_THAN (tm_time t) now then Inr (0, s)
                    else let ret = tm_time t - now
                         in lwip_assert (ret \<le> LWIP_MAX_TIMEOUT) (Inr (ret, s))))"

section \<open>Time relative to a reference\<close>

text \<open>
  The signed distance of a time from \<open>r\<close>. Within a quarter of the range of the clock around
  \<open>r\<close>, the comparison of the C code is the comparison of distances.
\<close>

definition dist :: "u32_t \<Rightarrow> u32_t \<Rightarrow> int" where
  "dist r t = (if uint (t - r) > 0x7fffffff then uint (t - r) - 4294967296 else uint (t - r))"

definition near :: "u32_t \<Rightarrow> u32_t \<Rightarrow> bool" where
  "near r t \<longleftrightarrow> \<bar>dist r t\<bar> < 1073741824"

lemma word_of_int_dist: "(word_of_int (dist r t) :: u32_t) = t - r"
proof -
  have "(word_of_int (uint (t - r) - 4294967296) :: u32_t) = t - r"
    by simp
  then show ?thesis by (simp add: dist_def)
qed

lemma dist_range: "- 2147483648 \<le> dist r t" "dist r t < 2147483648"
proof -
  have "uint (t - r) < 4294967296" using unsigned_less [where w = "t - r" and 'a = int] by simp
  moreover have "0 \<le> uint (t - r)" by simp
  moreover have "uint (t - r) > 0x7fffffff \<and> dist r t = uint (t - r) - 4294967296
      \<or> uint (t - r) \<le> 0x7fffffff \<and> dist r t = uint (t - r)" by (simp add: dist_def)
  ultimately show "- 2147483648 \<le> dist r t" "dist r t < 2147483648" by linarith+
qed

lemma dist_eqI:
  assumes "(word_of_int k :: u32_t) = t - r" and "- 2147483648 \<le> k" and "k < 2147483648"
  shows "dist r t = k"
proof -
  have u: "uint (t - r) = k mod 4294967296" by (simp add: assms(1) [symmetric] uint_word_of_int_eq take_bit_eq_mod)
  show ?thesis
  proof (cases "k < 0")
    case True
    then have "k mod 4294967296 = k + 4294967296"
      using assms(2) mod_pos_pos_trivial [of "k + 4294967296" 4294967296] by simp
    with u True assms(2) show ?thesis by (simp add: dist_def)
  next
    case False
    with u assms(3) show ?thesis by (simp add: dist_def)
  qed
qed

lemma dist_self [simp]: "dist r r = 0"
  by (simp add: dist_def)

lemma dist_add:
  assumes "\<bar>dist r t\<bar> \<le> 2000000000" and "uint d \<le> 100000000"
  shows "dist r (t + d) = dist r t + uint d"
proof (rule dist_eqI)
  have "(word_of_int (dist r t + uint d) :: u32_t) = word_of_int (dist r t) + word_of_int (uint d)"
    by simp
  then show "(word_of_int (dist r t + uint d) :: u32_t) = t + d - r"
    by (simp add: word_of_int_dist algebra_simps)
qed (use assms uint_ge_0 [of d] in linarith)+

lemma dist_between:
  assumes "near r a" and "near r b"
  shows "dist b a = dist r a - dist r b"
proof (rule dist_eqI)
  have "(word_of_int (dist r a - dist r b) :: u32_t) = word_of_int (dist r a) - word_of_int (dist r b)"
    by simp
  then show "(word_of_int (dist r a - dist r b) :: u32_t) = a - b"
    by (simp add: word_of_int_dist)
qed (use assms in \<open>auto simp: near_def\<close>)

lemma TIME_LESS_THAN_dist: "TIME_LESS_THAN a b \<longleftrightarrow> dist b a < 0"
proof -
  have "uint (a - b) < 4294967296" using unsigned_less [where w = "a - b" and 'a = int] by simp
  then show ?thesis
    by (auto simp: TIME_LESS_THAN_def LWIP_MAX_TIMEOUT_def dist_def word_less_def)
qed

lemma TIME_LESS_THAN_near: "near r a \<Longrightarrow> near r b \<Longrightarrow> TIME_LESS_THAN a b \<longleftrightarrow> dist r a < dist r b"
  by (simp add: TIME_LESS_THAN_dist dist_between)

section \<open>The list\<close>

text \<open>The list is ordered by time, all of it close to the present.\<close>

definition times_ok :: "u32_t \<Rightarrow> sys_timeo list \<Rightarrow> bool" where
  "times_ok r ts \<longleftrightarrow> sorted (map (\<lambda>t. dist r (tm_time t)) ts) \<and> (\<forall>t\<in>set ts. near r (tm_time t))"

text \<open>What \<^verbatim>\<open>sys_timeout_abs\<close> promises: the new timeout goes behind all that are due no later.\<close>

definition insert_spec :: "u32_t \<Rightarrow> sys_timeo \<Rightarrow> sys_timeo list \<Rightarrow> sys_timeo list" where
  "insert_spec r t ts = takeWhile (\<lambda>u. dist r (tm_time u) \<le> dist r (tm_time t)) ts @ t
     # dropWhile (\<lambda>u. dist r (tm_time u) \<le> dist r (tm_time t)) ts"

lemma insert_after_spec:
  assumes "\<forall>u\<in>set (v # ts). near r (tm_time u)" and "near r (tm_time t)"
    and "\<not> TIME_LESS_THAN (tm_time t) (tm_time v)"
  shows "insert_after t (v # ts) = insert_spec r t (v # ts)"
  using assms
proof (induction ts arbitrary: v)
  case Nil
  then show ?case by (simp add: insert_spec_def TIME_LESS_THAN_near [of r])
next
  case (Cons u ts)
  have v: "dist r (tm_time v) \<le> dist r (tm_time t)" using Cons.prems by (simp add: TIME_LESS_THAN_near [of r])
  show ?case
  proof (cases "TIME_LESS_THAN (tm_time t) (tm_time u)")
    case True
    then have "\<not> dist r (tm_time u) \<le> dist r (tm_time t)" using Cons.prems by (simp add: TIME_LESS_THAN_near [of r])
    then show ?thesis using True v by (simp add: insert_spec_def)
  next
    case False
    then have "insert_after t (u # ts) = insert_spec r t (u # ts)" using Cons by simp
    then show ?thesis using False v by (simp add: insert_spec_def)
  qed
qed

lemma sys_timeout_abs_insert:
  assumes "times_ok r (next_timeout s)" and "near r tm" and "\<not> memp_fails s (allocs s)"
  shows "sys_timeout_abs tm h arg s = Inr (s\<lparr>allocs := Suc (allocs s),
    next_timeout := insert_spec r \<lparr>tm_time = tm, tm_h = h, tm_arg = arg\<rparr> (next_timeout s)\<rparr>)"
proof (cases "next_timeout s")
  case Nil
  then show ?thesis using assms(3) by (simp add: sys_timeout_abs_def insert_spec_def)
next
  case (Cons v ts)
  let ?t = "\<lparr>tm_time = tm, tm_h = h, tm_arg = arg\<rparr>"
  have near: "\<forall>u\<in>set (v # ts). near r (tm_time u)" using assms(1) Cons by (simp add: times_ok_def)
  show ?thesis
  proof (cases "TIME_LESS_THAN tm (tm_time v)")
    case True
    then have "insert_spec r ?t (v # ts) = ?t # v # ts"
      using near assms(2) by (simp add: insert_spec_def TIME_LESS_THAN_near [of r])
    then show ?thesis using True Cons assms(3) by (simp add: sys_timeout_abs_def)
  next
    case False
    then have "insert_after ?t (v # ts) = insert_spec r ?t (v # ts)"
      using insert_after_spec [OF near, of ?t] assms(2) by simp
    then show ?thesis using False Cons assms(3) by (simp add: sys_timeout_abs_def)
  qed
qed

lemma insert_spec_times_ok:
  assumes "times_ok r ts" and "near r (tm_time t)"
  shows "times_ok r (insert_spec r t ts)"
proof -
  let ?d = "\<lambda>u. dist r (tm_time u)" and ?P = "\<lambda>u. dist r (tm_time u) \<le> dist r (tm_time t)"
  define us vs where "us = takeWhile ?P ts" and "vs = dropWhile ?P ts"
  have ts: "ts = us @ vs" by (simp add: us_def vs_def)
  have s: "sorted (map ?d (us @ vs))" using assms(1) ts by (simp add: times_ok_def)
  have "?d t \<le> ?d u" if u: "u \<in> set vs" for u
  proof -
    obtain x xs where x: "vs = x # xs" using u by (cases vs) auto
    then have "\<not> ?P x" unfolding vs_def by (metis hd_dropWhile list.distinct(1) list.sel(1))
    moreover have "?d x \<le> ?d u" using s u x by (auto simp: sorted_append)
    ultimately show ?thesis by simp
  qed
  moreover have "?d u \<le> ?d t" if "u \<in> set us" for u using that set_takeWhileD unfolding us_def by fastforce
  ultimately have "sorted (map ?d (us @ t # vs))" using s by (auto simp: sorted_append)
  moreover have "insert_spec r t ts = us @ t # vs" by (simp add: insert_spec_def us_def vs_def)
  ultimately show ?thesis using assms ts by (auto simp: times_ok_def)
qed

lemma mset_insert_spec: "mset (insert_spec r t ts) = add_mset t (mset ts)"
proof -
  have "mset ts = mset (takeWhile P ts) + mset (dropWhile P ts)" for P
    by (metis mset_append takeWhile_dropWhile_id)
  then show ?thesis by (simp add: insert_spec_def)
qed

lemma untimeout_loop_remove: "untimeout_loop h arg ts
    = takeWhile (\<lambda>t. \<not> (tm_h t = h \<and> tm_arg t = arg)) ts @ tl (dropWhile (\<lambda>t. \<not> (tm_h t = h \<and> tm_arg t = arg)) ts)"
  by (induction ts) auto

section \<open>Processing\<close>

text \<open>
  Relative to the time \<open>r\<close> at which \<^verbatim>\<open>sys_check_timeouts\<close> starts: the clock does not go back and
  does not run on for more than an eighth of its range, and there is memory for a timeout.
\<close>

definition runs_ok :: "u32_t \<Rightarrow> 'w timers \<Rightarrow> bool" where
  "runs_ok r s \<longleftrightarrow> times_ok r (next_timeout s)
     \<and> (\<forall>i\<ge>ticks s. 0 \<le> dist r (clock s i) \<and> dist r (clock s i) < 536870912)
     \<and> (\<forall>i. \<not> memp_fails s i)
     \<and> (\<forall>t\<in>set (next_timeout s). tm_h t = Some Lwip_cyclic_timer \<longrightarrow> tm_arg t < length lwip_cyclic_timers)"

text \<open>How often a timeout can still come up in this call.\<close>

definition weight :: "u32_t \<Rightarrow> u32_t \<Rightarrow> nat" where
  "weight r t = (if dist r t < 0 then 2 else if dist r t = 0 then 1 else 0)"

definition total_weight :: "u32_t \<Rightarrow> sys_timeo list \<Rightarrow> nat" where
  "total_weight r ts = sum_mset (image_mset (\<lambda>t. weight r (tm_time t)) (mset ts))"

text \<open>The cyclic timers that are scheduled.\<close>

definition cyclics :: "sys_timeo list \<Rightarrow> nat multiset" where
  "cyclics ts = image_mset tm_arg (filter_mset (\<lambda>t. tm_h t = Some Lwip_cyclic_timer) (mset ts))"

lemma total_weight_Cons [simp]: "total_weight r (t # ts) = weight r (tm_time t) + total_weight r ts"
  by (simp add: total_weight_def)

lemma cyclics_Cons [simp]: "cyclics (t # ts)
    = (if tm_h t = Some Lwip_cyclic_timer then {#tm_arg t#} else {#}) + cyclics ts"
  by (simp add: cyclics_def)

lemma total_weight_insert_spec [simp]: "total_weight r (insert_spec q t ts) = weight r (tm_time t) + total_weight r ts"
  by (simp add: total_weight_def mset_insert_spec)

lemma cyclics_insert_spec [simp]: "cyclics (insert_spec q t ts)
    = (if tm_h t = Some Lwip_cyclic_timer then {#tm_arg t#} else {#}) + cyclics ts"
  by (simp add: cyclics_def mset_insert_spec)

lemma set_insert_spec [simp]: "set (insert_spec r t ts) = insert t (set ts)"
  using arg_cong [OF mset_insert_spec [of r t ts], of set_mset] by simp

lemma abs_runs_ok:
  assumes "runs_ok r s" and "near r tm" and "h = Some Lwip_cyclic_timer \<longrightarrow> arg < length lwip_cyclic_timers"
  shows "\<exists>s'. sys_timeout_abs tm h arg s = Inr s' \<and> runs_ok r s'
    \<and> next_timeout s' = insert_spec r \<lparr>tm_time = tm, tm_h = h, tm_arg = arg\<rparr> (next_timeout s)"
proof -
  have "times_ok r (next_timeout s)" "\<not> memp_fails s (allocs s)" using assms(1) by (auto simp: runs_ok_def)
  from sys_timeout_abs_insert [OF this(1) assms(2) this(2), of h arg]
  show ?thesis using assms insert_spec_times_ok [of r "next_timeout s"] by (auto simp: runs_ok_def)
qed

lemma cyclic_interval: "arg < length lwip_cyclic_timers \<Longrightarrow> 0 < uint (lwip_cyclic_timers ! arg) \<and> uint (lwip_cyclic_timers ! arg) \<le> 1000"
  by (auto simp: lwip_cyclic_timers_def less_Suc_eq)

text \<open>Rescheduling: the next time is not before the present, and after it if the old one was.\<close>

lemma cyclic_timer_step:
  assumes "runs_ok r s" and "near r (current_timeout_due_time s)" and "dist r (current_timeout_due_time s) \<le> 0"
    and "arg < length lwip_cyclic_timers"
  shows "\<exists>s' tm. lwip_cyclic_timer e arg s = Inr s' \<and> runs_ok r s'
    \<and> next_timeout s' = insert_spec r \<lparr>tm_time = tm, tm_h = Some Lwip_cyclic_timer, tm_arg = arg\<rparr> (next_timeout s)
    \<and> weight r tm < weight r (current_timeout_due_time s)"
proof -
  let ?I = "lwip_cyclic_timers ! arg" and ?due = "current_timeout_due_time s" and ?now = "clock s (ticks s)"
  let ?s = "s\<lparr>rest := cyclic_handler e arg (rest s), ticks := Suc (ticks s)\<rparr>"
  have I: "0 < uint ?I" "uint ?I \<le> 1000" using cyclic_interval [OF assms(4)] by auto
  have now: "0 \<le> dist r ?now" "dist r ?now < 536870912" using assms(1) by (auto simp: runs_ok_def)
  have ok: "runs_ok r ?s" using assms(1) by (auto simp: runs_ok_def)
  have d1: "dist r (?due + ?I) = dist r ?due + uint ?I"
    using assms(2) I by (intro dist_add) (auto simp: near_def)
  have d2: "dist r (?now + ?I) = dist r ?now + uint ?I"
    using now I by (intro dist_add) auto
  have n: "near r (?due + ?I)" "near r (?now + ?I)" "near r ?now"
    using d1 d2 I now assms(2,3) by (auto simp: near_def)
  have less: "TIME_LESS_THAN (?due + ?I) ?now \<longleftrightarrow> dist r ?due + uint ?I < dist r ?now"
    using n d1 by (simp add: TIME_LESS_THAN_near [of r])
  define tm where "tm = (if TIME_LESS_THAN (?due + ?I) ?now then ?now + ?I else ?due + ?I)"
  have "lwip_cyclic_timer e arg s = sys_timeout_abs tm (Some Lwip_cyclic_timer) arg ?s"
    using assms(4) by (simp add: lwip_cyclic_timer_def sys_now_def tm_def)
  moreover have "near r tm" using n by (simp add: tm_def)
  moreover have "weight r tm < weight r ?due"
    using less d1 d2 now I assms(3) by (auto simp: tm_def weight_def)
  ultimately show ?thesis
    using abs_runs_ok [OF ok, of tm "Some Lwip_cyclic_timer" arg] assms(4) by auto
qed

lemma tcp_timer_step:
  assumes "runs_ok r s"
  shows "\<exists>s'. tcpip_tcp_timer e s = Inr s' \<and> runs_ok r s'
    \<and> total_weight r (next_timeout s') = total_weight r (next_timeout s)
    \<and> cyclics (next_timeout s') = cyclics (next_timeout s)"
proof (cases "tcp_pcbs e (cyclic_handler e 0 (rest s))")
  case False
  then show ?thesis using assms by (simp add: tcpip_tcp_timer_def runs_ok_def)
next
  case True
  let ?now = "clock s (ticks s)"
  let ?s = "s\<lparr>rest := cyclic_handler e 0 (rest s), ticks := Suc (ticks s)\<rparr>"
  have now: "0 \<le> dist r ?now" "dist r ?now < 536870912" using assms by (auto simp: runs_ok_def)
  have d: "dist r (?now + 250) = dist r ?now + 250"
    using now by (subst dist_add) auto
  have ok: "runs_ok r ?s" using assms by (auto simp: runs_ok_def)
  have run: "tcpip_tcp_timer e s = sys_timeout_abs (?now + 250) (Some Tcpip_tcp_timer) 0 ?s"
    using True by (simp add: tcpip_tcp_timer_def sys_timeout_def sys_now_def)
  have "near r (?now + 250)" using d now by (simp add: near_def)
  moreover have "weight r (?now + 250) = 0" using d now by (simp add: weight_def)
  ultimately show ?thesis
    using abs_runs_ok [OF ok, of "?now + 250" "Some Tcpip_tcp_timer" 0] run by auto
qed

lemma call_handler_step:
  assumes "runs_ok r s" and "near r (current_timeout_due_time s)" and "dist r (current_timeout_due_time s) \<le> 0"
    and "h = Some Lwip_cyclic_timer \<longrightarrow> arg < length lwip_cyclic_timers"
  shows "\<exists>s'. call_handler e h arg s = Inr s' \<and> runs_ok r s'
    \<and> total_weight r (next_timeout s') < weight r (current_timeout_due_time s) + total_weight r (next_timeout s)
    \<and> cyclics (next_timeout s') = (if h = Some Lwip_cyclic_timer then {#arg#} else {#}) + cyclics (next_timeout s)"
proof -
  have w: "0 < weight r (current_timeout_due_time s)" using assms(3) by (simp add: weight_def)
  show ?thesis
  proof (cases h)
    case None
    then show ?thesis using assms(1) w by (simp add: call_handler_def)
  next
    case (Some k)
    then show ?thesis
    proof (cases k)
      case Lwip_cyclic_timer
      then show ?thesis using Some cyclic_timer_step [OF assms(1-3), of arg e] assms(4)
        by (auto simp: call_handler_def)
    next
      case Tcpip_tcp_timer
      then show ?thesis using Some tcp_timer_step [OF assms(1), of e] w by (auto simp: call_handler_def)
    next
      case (App_handler i)
      then show ?thesis using Some assms(1) w by (simp add: call_handler_def runs_ok_def)
    qed
  qed
qed

lemma check_loop_correct:
  assumes "runs_ok r s" and "total_weight r (next_timeout s) < n"
  shows "\<exists>s'. check_timeouts_loop n e r s = Inr s' \<and> runs_ok r s'
    \<and> (\<forall>t\<in>set (next_timeout s'). TIME_LESS_THAN r (tm_time t))
    \<and> cyclics (next_timeout s') = cyclics (next_timeout s)"
  using assms
proof (induction n arbitrary: s)
  case (Suc n)
  let ?s = "s\<lparr>rest := check_free_ooseq e (rest s)\<rparr>"
  have ok: "runs_ok r ?s" using Suc.prems(1) by (simp add: runs_ok_def)
  have r: "near r r" by (simp add: near_def)
  show ?case
  proof (cases "next_timeout s")
    case Nil
    then show ?thesis using ok by simp
  next
    case (Cons t ts)
    have t: "times_ok r (t # ts)" "near r (tm_time t)"
      "tm_h t = Some Lwip_cyclic_timer \<longrightarrow> tm_arg t < length lwip_cyclic_timers"
      using Suc.prems(1) Cons by (auto simp: runs_ok_def times_ok_def)
    have less: "TIME_LESS_THAN r (tm_time u) \<longleftrightarrow> 0 < dist r (tm_time u)" if "u \<in> set (t # ts)" for u
    proof -
      have "near r (tm_time u)" using that t by (auto simp: times_ok_def)
      then show ?thesis using TIME_LESS_THAN_near [OF r] by simp
    qed
    show ?thesis
    proof (cases "TIME_LESS_THAN r (tm_time t)")
      case True
      have "\<forall>u\<in>set (t # ts). TIME_LESS_THAN r (tm_time u)"
      proof
        fix u assume u: "u \<in> set (t # ts)"
        then have "dist r (tm_time t) \<le> dist r (tm_time u)" using t(1) by (auto simp: times_ok_def)
        then show "TIME_LESS_THAN r (tm_time u)" using less [OF u] less [of t] True by simp
      qed
      then show ?thesis using True Cons ok by (simp add: Let_def)
    next
      case False
      let ?s1 = "?s\<lparr>next_timeout := ts, current_timeout_due_time := tm_time t\<rparr>"
      have "runs_ok r ?s1" using ok Cons by (simp add: runs_ok_def times_ok_def)
      moreover have "dist r (tm_time t) \<le> 0" using False less [of t] by simp
      ultimately obtain s2 where s2: "call_handler e (tm_h t) (tm_arg t) ?s1 = Inr s2" "runs_ok r s2"
        "total_weight r (next_timeout s2) < weight r (tm_time t) + total_weight r ts"
        "cyclics (next_timeout s2) = cyclics (t # ts)"
        using call_handler_step [of r ?s1 "tm_h t" "tm_arg t" e] t by auto
      have "total_weight r (next_timeout s2) < n" using s2(3) Suc.prems(2) Cons by simp
      from Suc.IH [OF s2(2) this] show ?thesis
        using False Cons s2(1,4) by (simp add: Let_def)
    qed
  qed
qed simp

lemma total_weight_le: "total_weight r ts \<le> 2 * length ts"
  by (induction ts) (auto simp: weight_def total_weight_def)

text \<open>
  C13: \<^verbatim>\<open>sys_check_timeouts\<close> terminates: with no more iterations than twice the number of scheduled timeouts (plus
  the final look at the list) it returns, nothing is then due at the time it started, the list is in order,
  and each cyclic timer is scheduled as often as before: none is lost and none doubled.
\<close>

theorem sys_check_timeouts_done:
  assumes "runs_ok (clock s (ticks s)) s" and "2 * length (next_timeout s) < n"
  shows "\<exists>s'. sys_check_timeouts n e s = Inr s'
    \<and> (\<forall>t\<in>set (next_timeout s'). TIME_LESS_THAN (clock s (ticks s)) (tm_time t))
    \<and> times_ok (clock s (ticks s)) (next_timeout s')
    \<and> cyclics (next_timeout s') = cyclics (next_timeout s)"
proof -
  let ?r = "clock s (ticks s)" and ?s = "s\<lparr>ticks := Suc (ticks s)\<rparr>"
  have "runs_ok ?r ?s" using assms(1) by (simp add: runs_ok_def)
  moreover have "total_weight ?r (next_timeout ?s) < n"
    using total_weight_le [of ?r "next_timeout s"] assms(2) by simp
  ultimately show ?thesis
    using check_loop_correct [of ?r ?s n e] by (auto simp: sys_check_timeouts_def sys_now_def runs_ok_def)
qed

section \<open>Sleeping and restarting\<close>

text \<open>
  \<^verbatim>\<open>sys_timeouts_sleeptime\<close> returns the time from now to the first timeout, 0 if that is in the past, also
  when the 32 bit clock wraps around in between.
\<close>

theorem sleeptime_correct:
  assumes "times_ok (clock s (ticks s)) (next_timeout s)" and "next_timeout s \<noteq> []"
  shows "\<exists>ms s'. sys_timeouts_sleeptime s = Inr (ms, s') \<and> next_timeout s' = next_timeout s
    \<and> uint ms = max 0 (dist (clock s (ticks s)) (tm_time (hd (next_timeout s))))"
proof -
  let ?r = "clock s (ticks s)"
  obtain t ts where ts: "next_timeout s = t # ts" using assms(2) by (cases "next_timeout s") auto
  show ?thesis
  proof (cases "TIME_LESS_THAN (tm_time t) ?r")
    case True
    then show ?thesis using ts by (simp add: sys_timeouts_sleeptime_def sys_now_def TIME_LESS_THAN_dist)
  next
    case False
    then have d: "0 \<le> dist ?r (tm_time t)" by (simp add: TIME_LESS_THAN_dist)
    then have "dist ?r (tm_time t) = uint (tm_time t - ?r)" "uint (tm_time t - ?r) \<le> 0x7fffffff"
      using dist_range [of ?r "tm_time t"] unsigned_less [where w = "tm_time t - ?r" and 'a = int]
      by (auto simp: dist_def split: if_splits)
    then show ?thesis using False ts d
      by (simp add: sys_timeouts_sleeptime_def sys_now_def LWIP_MAX_TIMEOUT_def word_le_def)
  qed
qed

lemma restart_shifts:
  assumes "next_timeout s = t0 # ts"
  shows "next_timeout (sys_restart_timeouts s)
      = map (\<lambda>t. t\<lparr>tm_time := tm_time t + (clock s (ticks s) - tm_time t0)\<rparr>) (next_timeout s)"
  using assms by (simp add: sys_restart_timeouts_def sys_now_def algebra_simps)

lemma dist_shift: "dist (r + d) (t + d) = dist r t"
  by (simp add: dist_def)

text \<open>
  \<^verbatim>\<open>sys_restart_timeouts\<close> moves all timeouts by the same amount so that the first is due now, and keeps the
  list in order, across a wrap-around of the clock.
\<close>

theorem restart_correct:
  assumes "next_timeout s = t0 # ts" and "times_ok (tm_time t0) (next_timeout s)"
  shows "times_ok (clock s (ticks s)) (next_timeout (sys_restart_timeouts s))
    \<and> tm_time (hd (next_timeout (sys_restart_timeouts s))) = clock s (ticks s)"
proof -
  let ?d = "clock s (ticks s) - tm_time t0"
  have "dist (clock s (ticks s)) (a + ?d) = dist (tm_time t0) a" for a
    using dist_shift [of "tm_time t0" ?d a] by simp
  then show ?thesis using assms restart_shifts [OF assms(1)]
    by (auto simp: times_ok_def near_def o_def)
qed

text \<open>
  \<^verbatim>\<open>sys_timeout_abs\<close> puts the new timeout in its place in the time order, with all others kept, and
  \<^verbatim>\<open>sys_untimeout\<close> takes exactly that timeout out again.
\<close>

theorem timeout_untimeout:
  assumes "times_ok r (next_timeout s)" and "near r tm" and "\<not> memp_fails s (allocs s)"
    and "\<forall>t\<in>set (next_timeout s). \<not> (tm_h t = h \<and> tm_arg t = arg)"
  shows "\<exists>s'. sys_timeout_abs tm h arg s = Inr s' \<and> times_ok r (next_timeout s')
    \<and> mset (next_timeout s') = add_mset \<lparr>tm_time = tm, tm_h = h, tm_arg = arg\<rparr> (mset (next_timeout s))
    \<and> next_timeout (sys_untimeout h arg s') = next_timeout s"
proof -
  let ?t = "\<lparr>tm_time = tm, tm_h = h, tm_arg = arg\<rparr>"
  let ?P = "\<lambda>u. dist r (tm_time u) \<le> dist r (tm_time ?t)" and ?Q = "\<lambda>t. \<not> (tm_h t = h \<and> tm_arg t = arg)"
  have "untimeout_loop h arg (us @ ?t # vs) = us @ vs" if "\<forall>t\<in>set us. ?Q t" for us vs
    using that by (simp add: untimeout_loop_remove takeWhile_append2 dropWhile_append2)
  moreover have "\<forall>t\<in>set (takeWhile ?P (next_timeout s)). ?Q t" using assms(4) by (auto dest: set_takeWhileD)
  ultimately have "untimeout_loop h arg (insert_spec r ?t (next_timeout s)) = next_timeout s"
    by (simp add: insert_spec_def)
  then show ?thesis using sys_timeout_abs_insert [OF assms(1-3), of h arg] insert_spec_times_ok [OF assms(1), of ?t] assms(2)
    by (simp add: mset_insert_spec sys_untimeout_def)
qed

section \<open>Instances\<close>

text \<open>A list of two cyclic timers, one of them overdue, on a clock that is about to wrap around.\<close>

definition sample_timers :: "nat timers" where
  "sample_timers = \<lparr>next_timeout = [\<lparr>tm_time = 0xfffffe00, tm_h = Some Lwip_cyclic_timer, tm_arg = 0\<rparr>,
       \<lparr>tm_time = 0x10, tm_h = Some Lwip_cyclic_timer, tm_arg = 1\<rparr>],
     current_timeout_due_time = 0, tcpip_tcp_timer_active = False, rest = 0,
     clock = (\<lambda>_. 0xffffff00), ticks = 0, memp_fails = (\<lambda>_. False), allocs = 2\<rparr>"

definition sample_env :: "nat env" where
  "sample_env = \<lparr>cyclic_handler = (\<lambda>_ n. Suc n), tcp_pcbs = (\<lambda>_. False), check_free_ooseq = id, app = (\<lambda>_ _ n. n)\<rparr>"

lemma sample_times_ok: "times_ok 0xffffff00 (next_timeout sample_timers)"
  by (simp add: times_ok_def sample_timers_def near_def dist_def)

lemma sample_runs_ok: "runs_ok 0xffffff00 sample_timers"
  using sample_times_ok by (simp add: runs_ok_def sample_timers_def lwip_cyclic_timers_def)

theorem sys_check_timeouts_done_witness:
  "\<exists>s'. sys_check_timeouts 5 sample_env sample_timers = Inr s'
    \<and> (\<forall>t\<in>set (next_timeout s'). TIME_LESS_THAN 0xffffff00 (tm_time t))
    \<and> cyclics (next_timeout s') = {#0, 1#}"
proof -
  have "clock sample_timers (ticks sample_timers) = 0xffffff00" "length (next_timeout sample_timers) = 2"
    "cyclics (next_timeout sample_timers) = {#0, 1#}" by (simp_all add: sample_timers_def cyclics_def)
  then show ?thesis using sys_check_timeouts_done [of sample_timers 5 sample_env] sample_runs_ok by auto
qed

theorem sleeptime_correct_witness:
  "\<exists>ms s'. sys_timeouts_sleeptime sample_timers = Inr (ms, s') \<and> uint ms = 0"
  using sleeptime_correct [of sample_timers] sample_times_ok by (simp add: sample_timers_def dist_def) blast

theorem restart_correct_witness:
  "times_ok 0xffffff00 (next_timeout (sys_restart_timeouts sample_timers))"
proof -
  have "times_ok 0xfffffe00 (next_timeout sample_timers)"
    by (simp add: times_ok_def sample_timers_def near_def dist_def)
  then show ?thesis using restart_correct [of sample_timers] by (simp add: sample_timers_def)
qed

theorem timeout_untimeout_witness:
  "\<exists>s'. sys_timeout_abs 5 (Some (App_handler 7)) 3 sample_timers = Inr s' \<and> times_ok 0xffffff00 (next_timeout s')
    \<and> next_timeout (sys_untimeout (Some (App_handler 7)) 3 s') = next_timeout sample_timers"
  using timeout_untimeout [OF sample_times_ok, of 5 "Some (App_handler 7)" 3]
  by (auto simp: sample_timers_def near_def dist_def)

end
