(* ===== verification/Def_C.thy ===== *)
theory Def_C
  imports Lwip_Prelude
begin

text \<open>
  \<^verbatim>\<open>core/def.c\<close>: byte order conversion (on a little-endian host, as
  \<^verbatim>\<open>arch/cc_others.h\<close> configures), and the string helpers. A \<^verbatim>\<open>char *\<close> is the list of
  bytes from the pointer to the end of its array.
\<close>

section \<open>Byte order\<close>

definition lwip_htons :: "u16_t \<Rightarrow> u16_t" where
  "lwip_htons n = push_bit 8 (n AND 0x00ff) OR drop_bit 8 (n AND 0xff00)"

definition lwip_htonl :: "u32_t \<Rightarrow> u32_t" where
  "lwip_htonl n = push_bit 24 (n AND 0x000000ff) OR push_bit 8 (n AND 0x0000ff00)
     OR drop_bit 8 (n AND 0x00ff0000) OR drop_bit 24 (n AND 0xff000000)"

text \<open>The macros \<^verbatim>\<open>lwip_ntohs\<close> and \<^verbatim>\<open>lwip_ntohl\<close> are the same functions.\<close>

abbreviation lwip_ntohs :: "u16_t \<Rightarrow> u16_t" where
  "lwip_ntohs \<equiv> lwip_htons"

abbreviation lwip_ntohl :: "u32_t \<Rightarrow> u32_t" where
  "lwip_ntohl \<equiv> lwip_htonl"

lemma lwip_htons_eq: "lwip_htons n = push_bit 8 (take_bit 8 n) OR drop_bit 8 n"
  by (rule bit_word_eqI) (auto simp: lwip_htons_def and_byte bit_simps dest: bit_imp_le_length)

lemma unat_htons [word_nat]: "unat (lwip_htons n) = 256 * (unat n mod 256) + unat n div 256"
proof -
  have "push_bit 8 (take_bit 8 n) AND drop_bit 8 n = 0"
    by (rule bit_word_eqI) (auto simp: bit_simps dest: bit_imp_le_length)
  then have "unat (lwip_htons n) = (256 * (unat n mod 256) + unat n div 256) mod 65536"
    by (simp add: lwip_htons_eq unat_or_disjoint word_nat mod_simps mult.commute)
  moreover have "256 * (unat n mod 256) + unat n div 256 < 65536"
    using unat_lt_16 [of n] by linarith
  ultimately show ?thesis by simp
qed

lemma lwip_htons_htons [simp]: "lwip_htons (lwip_htons n) = n"
  by (rule bit_word_eqI) (auto simp: lwip_htons_def and_byte bit_simps)

lemma bit_lwip_htonl:
  "bit (lwip_htonl n) i \<longleftrightarrow> i < 32 \<and> bit n (8 * (3 - i div 8) + i mod 8)"
proof -
  consider "i < 8" | "8 \<le> i" "i < 16" | "16 \<le> i" "i < 24" | "24 \<le> i" "i < 32" | "32 \<le> i"
    by linarith
  then show ?thesis
  proof cases
    case 1
    then have "i div 8 = 0" "i mod 8 = i" by presburger+
    with 1 show ?thesis by (simp add: lwip_htonl_def and_byte bit_simps)
  next
    case 2
    then have "i div 8 = 1" "i mod 8 = i - 8" "i - 8 < 8" by presburger+
    with 2 show ?thesis by (simp add: lwip_htonl_def and_byte bit_simps)
  next
    case 3
    then have "i div 8 = 2" "i mod 8 = i - 16" "i - 16 < 8" "\<not> i - 8 < 8" by presburger+
    with 3 show ?thesis by (simp add: lwip_htonl_def and_byte bit_simps)
  next
    case 4
    then have "i div 8 = 3" "i mod 8 = i - 24" "i - 24 < 8" "\<not> i - 8 < 8" "\<not> i - 16 < 8" by presburger+
    with 4 show ?thesis by (simp add: lwip_htonl_def and_byte bit_simps)
  next
    case 5
    then show ?thesis by (auto dest: bit_imp_le_length)
  qed
qed

lemma lwip_htonl_htonl [simp]: "lwip_htonl (lwip_htonl n) = n"
proof (rule bit_word_eqI)
  fix i
  assume "i < LENGTH(32)"
  then have i: "i < 32" by simp
  then have "8 * (3 - (8 * (3 - i div 8) + i mod 8) div 8) + (8 * (3 - i div 8) + i mod 8) mod 8 = i"
    by simp
  moreover from i have "8 * (3 - i div 8) + i mod 8 < 32" by linarith
  ultimately show "bit (lwip_htonl (lwip_htonl n)) i = bit n i"
    using i by (simp add: bit_lwip_htonl)
qed

section \<open>Strings\<close>

text \<open>
  The loop of \<^verbatim>\<open>lwip_strnstr\<close>: \<open>i\<close> is \<^verbatim>\<open>p - buffer\<close>. The result is the offset of the
  match in \<^verbatim>\<open>buffer\<close>, \<open>None\<close> for NULL.
\<close>

fun lwip_strnstr_loop :: "bytes \<Rightarrow> bytes \<Rightarrow> nat \<Rightarrow> nat \<Rightarrow> nat \<Rightarrow> nat option outcome" where
  "lwip_strnstr_loop [] token tokenlen n i = Inl Fault"
| "lwip_strnstr_loop (c # s) token tokenlen n i =
     (if c \<noteq> 0 \<and> i + tokenlen \<le> n then
        bnd (deref token) (\<lambda>t0.
        bnd (if c = t0 then c_strncmp_eq (c # s) token tokenlen else Inr False) (\<lambda>eq.
        if eq then Inr (Some i) else lwip_strnstr_loop s token tokenlen n (i + 1)))
      else Inr None)"

definition lwip_strnstr :: "bytes \<Rightarrow> bytes \<Rightarrow> nat \<Rightarrow> nat option outcome" where
  "lwip_strnstr buffer token n =
     bnd (c_strlen token) (\<lambda>tokenlen.
     if tokenlen = 0 then Inr (Some 0) else lwip_strnstr_loop buffer token tokenlen n 0)"

text \<open>The comparison of one pair of characters in \<^verbatim>\<open>lwip_stricmp\<close> and \<^verbatim>\<open>lwip_strnicmp\<close>.\<close>

definition icmp_char_eq :: "byte \<Rightarrow> byte \<Rightarrow> bool" where
  "icmp_char_eq c1 c2 =
     (c1 = c2 \<or>
      (let c1_upc = c1 OR 0x20 in
       0x61 \<le> c1_upc \<and> c1_upc \<le> 0x7a \<and> c1_upc = c2 OR 0x20))"

fun lwip_stricmp :: "bytes \<Rightarrow> bytes \<Rightarrow> nat outcome" where
  "lwip_stricmp (c1 # str1) (c2 # str2) =
     (if \<not> icmp_char_eq c1 c2 then Inr 1
      else if c1 \<noteq> 0 then lwip_stricmp str1 str2 else Inr 0)"
| "lwip_stricmp str1 str2 = Inl Fault"

text \<open>\<^verbatim>\<open>size_t len\<close> is decremented before it is tested, so a call with 0 wraps around.\<close>

fun lwip_strnicmp :: "bytes \<Rightarrow> bytes \<Rightarrow> 64 word \<Rightarrow> nat outcome" where
  "lwip_strnicmp (c1 # str1) (c2 # str2) len =
     (if \<not> icmp_char_eq c1 c2 then Inr 1
      else let len = len - 1 in
        if len \<noteq> 0 \<and> c1 \<noteq> 0 then lwip_strnicmp str1 str2 len else Inr 0)"
| "lwip_strnicmp str1 str2 len = Inl Fault"

text \<open>
  \<^verbatim>\<open>lwip_itoa\<close>: positions in the buffer are offsets from \<^verbatim>\<open>result\<close>. \<^verbatim>\<open>-number\<close> overflows
  for the smallest \<^verbatim>\<open>int\<close>.
\<close>

function itoa_loop :: "bytes \<Rightarrow> nat \<Rightarrow> nat \<Rightarrow> nat \<Rightarrow> (bytes \<times> nat \<times> nat) outcome" where
  "itoa_loop buf tmp res n =
     (if n \<noteq> 0 \<and> tmp > res then
        bnd (buf_set buf (tmp - 1) (of_nat (48 + n mod 10))) (\<lambda>buf.
        itoa_loop buf (tmp - 1) res (n div 10))
      else Inr (buf, tmp, n))"
  by pat_completeness auto
termination
  by (relation "measure (\<lambda>(buf, tmp, res, n). n)") auto

declare itoa_loop.simps [simp del]

definition itoa_finish :: "nat \<Rightarrow> nat \<Rightarrow> bytes \<times> nat \<times> nat \<Rightarrow> bytes outcome" where
  "itoa_finish bufsize res = (\<lambda>(buf, tmp, n).
     if n \<noteq> 0 then buf_set buf 0 0
     else bnd (buf_get buf tmp) (\<lambda>c.
     if c = 0 then bnd (buf_set buf res 0x30) (\<lambda>buf. buf_set buf (res + 1) 0)
     else Inr (take res buf @ take (bufsize - tmp) (drop tmp buf)
                @ drop (res + (bufsize - tmp)) buf)))"

definition lwip_itoa :: "bytes \<Rightarrow> nat \<Rightarrow> int \<Rightarrow> bytes outcome" where
  "lwip_itoa result bufsize number =
     (if number = - (2 ^ 31) then Inl Fault
      else let n = nat \<bar>number\<bar> in
      if bufsize < 2 then (if bufsize = 1 then buf_set result 0 0 else Inr result)
      else
        bnd (if number < 0 then buf_set result 0 0x2d else Inr result) (\<lambda>buf.
        let res = (if number < 0 then 1 else 0) in
        bnd (buf_set buf (bufsize - 1) 0) (\<lambda>buf.
        bnd (itoa_loop buf (bufsize - 1) res n) (itoa_finish bufsize res))))"

section \<open>Correctness of the string helpers\<close>

definition ascii_letter :: "byte \<Rightarrow> bool" where
  "ascii_letter c \<longleftrightarrow> (0x41 \<le> c \<and> c \<le> 0x5a) \<or> (0x61 \<le> c \<and> c \<le> 0x7a)"

definition ascii_lower :: "byte \<Rightarrow> byte" where
  "ascii_lower c = (if 0x41 \<le> c \<and> c \<le> 0x5a then c + 0x20 else c)"

lemma byte_exhaust: "list_all P (map of_nat [0..<256]) \<Longrightarrow> P (c :: byte)"
  using unat_lt_8 [of c] by (auto simp: list_all_iff dest!: bspec [of _ _ "unat c"])

lemma or_0x20_letter:
  "(0x61 \<le> c OR 0x20 \<and> c OR 0x20 \<le> 0x7a) = ascii_letter c \<and>
   (ascii_letter c \<longrightarrow> c OR 0x20 = ascii_lower c)"
  by (rule byte_exhaust) code_simp
lemma lower_letter:
  "ascii_letter (ascii_lower c) = ascii_letter c"
  by (rule byte_exhaust) code_simp

lemma icmp_char_eq_iff: "icmp_char_eq c1 c2 \<longleftrightarrow> ascii_lower c1 = ascii_lower c2"
proof (cases "ascii_letter c1")
  case True
  then show ?thesis using or_0x20_letter [of c1] or_0x20_letter [of c2] lower_letter [of c1] lower_letter [of c2]
    by (auto simp: icmp_char_eq_def)
next
  case False
  then have "ascii_lower c1 = c1" by (auto simp: ascii_lower_def ascii_letter_def)
  moreover have "\<not> ascii_letter c2 \<Longrightarrow> ascii_lower c2 = c2" by (auto simp: ascii_lower_def ascii_letter_def)
  ultimately show ?thesis using False or_0x20_letter [of c1] lower_letter [of c2]
    by (auto simp: icmp_char_eq_def)
qed

lemma ascii_lower_0 [simp]: "ascii_lower c = 0 \<longleftrightarrow> c = 0"
  by (rule byte_exhaust) code_simp

lemma ascii_lower_zero [simp]: "ascii_lower 0 = 0"
  by (simp add: ascii_lower_def)

text \<open>
  \<^verbatim>\<open>lwip_stricmp\<close> compares two strings without regard to the case of ASCII letters: 0 exactly when the strings
  are equal after lower-casing, and it never reads behind the terminating zero of either.
\<close>

theorem lwip_stricmp_correct:
  assumes "0 \<notin> set s" and "0 \<notin> set t"
  shows "lwip_stricmp (s @ [0]) (t @ [0]) =
           Inr (if map ascii_lower s = map ascii_lower t then 0 else 1)"
  using assms
proof (induction s arbitrary: t)
  case Nil
  then show ?case by (cases t) (auto simp: icmp_char_eq_iff eq_commute [of 0])
next
  case (Cons c s)
  then show ?case by (cases t) (auto simp: icmp_char_eq_iff)
qed

lemma of_nat_64_0: "k < 2 ^ 64 \<Longrightarrow> (of_nat k :: 64 word) = 0 \<longleftrightarrow> k = 0"
  by (auto simp: word_of_nat_eq_0_iff dest: nat_dvd_not_less)

lemma lwip_strnicmp_correct:
  assumes "0 \<notin> set s" and "0 \<notin> set t" and "0 < len" and "len < 2 ^ 64"
  shows "lwip_strnicmp (s @ [0]) (t @ [0]) (of_nat len) =
           Inr (if map ascii_lower (take len s) = map ascii_lower (take len t) then 0 else 1)"
  using assms
proof (induction s arbitrary: t len)
  case Nil
  then show ?case by (cases t; cases len) (auto simp: icmp_char_eq_iff eq_commute [of 0])
next
  case (Cons c s)
  obtain k where k: "len = Suc k" using Cons.prems by (cases len) auto
  then have k0: "(of_nat k :: 64 word) = 0 \<longleftrightarrow> k = 0"
    using Cons.prems by (intro of_nat_64_0) simp
  show ?case
  proof (cases t)
    case Nil
    with k Cons.prems show ?thesis by (simp add: icmp_char_eq_iff)
  next
    case (Cons d t')
    with k k0 Cons.prems Cons.IH [of t' k] show ?thesis
      by (auto simp: icmp_char_eq_iff)
  qed
qed

lemma c_strncmp_eq_prefix:
  "0 \<notin> set t \<Longrightarrow> 0 \<notin> set s \<Longrightarrow> n \<le> length t \<Longrightarrow>
   c_strncmp_eq (s @ [0]) (t @ [0]) n = Inr (take n s = take n t)"
proof (induction t arbitrary: s n)
  case Nil
  then show ?case by simp
next
  case (Cons d t)
  then show ?case by (cases n; cases s) auto
qed

definition str_at :: "bytes \<Rightarrow> bytes \<Rightarrow> nat \<Rightarrow> nat \<Rightarrow> bool" where
  "str_at s t n j \<longleftrightarrow> j + length t \<le> n \<and> take (length t) (drop j s) = t"

lemma strnstr_loop_correct:
  assumes "0 \<notin> set s" and "0 \<notin> set t" and "t \<noteq> []"
  shows "\<exists>r. lwip_strnstr_loop (s @ [0]) (t @ [0]) (length t) n i = Inr r \<and>
     (case r of None \<Rightarrow> \<forall>j. \<not> (i + j + length t \<le> n \<and> take (length t) (drop j s) = t)
      | Some k \<Rightarrow> i \<le> k \<and> k + length t \<le> n \<and> take (length t) (drop (k - i) s) = t
          \<and> (\<forall>j < k - i. \<not> take (length t) (drop j s) = t))"
  using assms
proof (induction s arbitrary: i)
  case Nil
  then show ?case by simp
next
  case (Cons c s)
  obtain d t' where t: "t = d # t'" using Cons.prems by (cases t) auto
  have match: "(if c = d then c_strncmp_eq (c # s @ [0]) (t @ [0]) (length t) else Inr False)
      = Inr (take (length t) (c # s) = t)"
    using c_strncmp_eq_prefix [of t "c # s" "length t"] Cons.prems t by auto
  have "deref (t @ [0]) = Inr d" using t by simp
  then have step: "lwip_strnstr_loop ((c # s) @ [0]) (t @ [0]) (length t) n i =
      (if i + length t \<le> n then if take (length t) (c # s) = t then Inr (Some i)
        else lwip_strnstr_loop (s @ [0]) (t @ [0]) (length t) n (i + 1) else Inr None)"
    using Cons.prems by (simp only: append_Cons lwip_strnstr_loop.simps bnd_Inr match) auto
  show ?case
  proof (cases "i + length t \<le> n \<and> take (length t) (c # s) \<noteq> t")
    case True
    obtain r where r: "lwip_strnstr_loop (s @ [0]) (t @ [0]) (length t) n (i + 1) = Inr r"
      "case r of None \<Rightarrow> \<forall>j. \<not> (i + 1 + j + length t \<le> n \<and> take (length t) (drop j s) = t)
      | Some k \<Rightarrow> i + 1 \<le> k \<and> k + length t \<le> n \<and> take (length t) (drop (k - (i + 1)) s) = t
          \<and> (\<forall>j < k - (i + 1). \<not> take (length t) (drop j s) = t)"
      using Cons.IH [of "i + 1"] Cons.prems by auto
    have "lwip_strnstr_loop ((c # s) @ [0]) (t @ [0]) (length t) n i = Inr r"
      using True r(1) by (simp only: step) simp
    moreover have "\<not> take (length t) (drop j (c # s)) = t" if "j < k - i" "r = Some k" for j k
      using r(2) that True by (cases j) auto
    moreover have "\<not> (i + j + length t \<le> n \<and> take (length t) (drop j (c # s)) = t)" if "r = None" for j
      using r(2) that True by (cases j) auto
    moreover have "drop (k - i) (c # s) = drop (k - (i + 1)) s" if "i + 1 \<le> k" for k
    proof -
      from that have "k - i = Suc (k - (i + 1))" by simp
      then show ?thesis by (simp only: drop_Suc_Cons)
    qed
    ultimately show ?thesis using r(2) by (auto split: option.splits)
  next
    case False
    then have "lwip_strnstr_loop ((c # s) @ [0]) (t @ [0]) (length t) n i
        = Inr (if i + length t \<le> n then Some i else None)"
      by (simp only: step) auto
    then show ?thesis using False by auto
  qed
qed

text \<open>
  \<^verbatim>\<open>lwip_strnstr\<close> finds the first occurrence of the token within the first \<^verbatim>\<open>n\<close> bytes of the buffer, and
  \<^verbatim>\<open>NULL\<close> when there is none; an empty token is found at the start.
\<close>

theorem lwip_strnstr_correct:
  assumes "0 \<notin> set s" and "0 \<notin> set t" 
  shows "\<exists>r. lwip_strnstr (s @ [0]) (t @ [0]) n = Inr r \<and>
     (case r of None \<Rightarrow> \<forall>j. \<not> str_at s t n j
      | Some k \<Rightarrow> (t \<noteq> [] \<longrightarrow> str_at s t n k) \<and> (\<forall>j < k. \<not> str_at s t n j))"
proof (cases "t = []")
  case True
  then show ?thesis by (simp add: lwip_strnstr_def)
next
  case False
  with strnstr_loop_correct [OF assms False, of n 0] assms show ?thesis
    by (auto simp: lwip_strnstr_def str_at_def split: option.splits)
qed

fun dec_digits :: "nat \<Rightarrow> bytes" where
  "dec_digits n = (if n = 0 then [] else dec_digits (n div 10) @ [of_nat (48 + n mod 10)])"

declare dec_digits.simps [simp del]

lemma dec_digits_0 [simp]: "dec_digits 0 = []"
  by (simp add: dec_digits.simps)

lemma dec_digits_pos: "n \<noteq> 0 \<Longrightarrow> dec_digits n = dec_digits (n div 10) @ [of_nat (48 + n mod 10)]"
  by (subst dec_digits.simps) simp

lemma digit_nonzero: "of_nat (48 + n mod 10) \<noteq> (0 :: byte)"
proof -
  have "unat (of_nat (48 + n mod 10) :: byte) = 48 + n mod 10"
    by (simp only: unat_of_nat) simp
  then show ?thesis by (metis add_is_0 unat_0 zero_neq_numeral)
qed

lemma dec_digits_nonzero: "0 \<notin> set (dec_digits n)"
proof (induction n rule: dec_digits.induct)
  case (1 n)
  then show ?case by (cases "n = 0") (auto simp: dec_digits_pos digit_nonzero [symmetric] simp del: of_nat_add)
qed

lemma itoa_loop_fits:
  "length (dec_digits n) \<le> tmp - res \<Longrightarrow> tmp < length buf \<Longrightarrow>
   itoa_loop buf tmp res n =
     Inr (take (tmp - length (dec_digits n)) buf @ dec_digits n @ drop tmp buf,
          tmp - length (dec_digits n), 0)"
proof (induction buf tmp res n rule: itoa_loop.induct)
  case (1 buf tmp res n)
  show ?case
  proof (cases "n = 0")
    case True
    then show ?thesis by (subst itoa_loop.simps) simp
  next
    case False
    let ?b = "buf[tmp - 1 := of_nat (48 + n mod 10)]"
    from False 1 have tmp: "res < tmp" and len: "length (dec_digits (n div 10)) \<le> tmp - 1 - res"
      by (auto simp: dec_digits_pos)
    from False tmp have "itoa_loop buf tmp res n = itoa_loop ?b (tmp - 1) res (n div 10)"
      using 1 by (subst itoa_loop.simps) simp
    also have "\<dots> = Inr (take (tmp - 1 - length (dec_digits (n div 10))) ?b @ dec_digits (n div 10)
                         @ drop (tmp - 1) ?b, tmp - 1 - length (dec_digits (n div 10)), 0)"
      using 1 False tmp len by simp
    also have "drop (tmp - 1) ?b = of_nat (48 + n mod 10) # drop tmp buf"
      using tmp 1(3) by (simp add: drop_update_cancel Cons_nth_drop_Suc [symmetric])
    finally show ?thesis using False tmp
      by (simp add: dec_digits_pos take_update_cancel)
  qed
qed

lemma itoa_loop_full:
  "tmp - res < length (dec_digits n) \<Longrightarrow> res \<le> tmp \<Longrightarrow> tmp < length buf \<Longrightarrow>
   \<exists>buf' n'. itoa_loop buf tmp res n = Inr (buf', res, n') \<and> n' \<noteq> 0 \<and> length buf' = length buf"
proof (induction buf tmp res n rule: itoa_loop.induct)
  case (1 buf tmp res n)
  from 1(2) have n: "n \<noteq> 0" by (cases "n = 0") auto
  show ?case
  proof (cases "res < tmp")
    case False
    with 1 n show ?thesis by (subst itoa_loop.simps) simp
  next
    case True
    with 1 n have "itoa_loop buf tmp res n
        = itoa_loop (buf[tmp - 1 := of_nat (48 + n mod 10)]) (tmp - 1) res (n div 10)"
      by (subst itoa_loop.simps) simp
    moreover from 1(2) n True have "tmp - 1 - res < length (dec_digits (n div 10))"
      by (auto simp: dec_digits_pos)
    moreover have "tmp - 1 < length (buf[tmp - 1 := of_nat (48 + n mod 10)])" "res \<le> tmp - 1"
      using 1 True by auto
    ultimately show ?thesis using 1(1) [of "buf[tmp - 1 := of_nat (48 + n mod 10)]"] n True by simp
  qed
qed

definition itoa_text :: "int \<Rightarrow> bytes" where
  "itoa_text i = (if i = 0 then [0x30] else (if i < 0 then [0x2d] else []) @ dec_digits (nat \<bar>i\<bar>))"


lemma itoa_finish_fits:
  assumes "d \<noteq> []" and "0 \<notin> set d" and "length d + res < bufsize" and "bufsize \<le> length b"
    and "b ! (bufsize - 1) = 0"
  defines "t \<equiv> bufsize - 1 - length d"
  shows "\<exists>rest. itoa_finish bufsize res (take t b @ d @ drop (bufsize - 1) b, t, 0)
           = Inr (take res b @ d @ 0 # rest) \<and> length (take res b @ d @ 0 # rest) = length b"
proof -
  let ?c = "take t b @ d @ drop (bufsize - 1) b"
  have t: "t + length d = bufsize - 1" "t < length b" using assms by auto
  obtain x xs where d: "d = x # xs" "x \<noteq> 0" using assms(1,2) by (cases d) auto
  have "bufsize - t = Suc (length d)" using assms(3) t by linarith
  moreover have "drop (bufsize - 1) b = 0 # drop bufsize b"
    using assms(3-5) by (cases bufsize) (auto simp: Cons_nth_drop_Suc [symmetric])
  ultimately have "itoa_finish bufsize res (?c, t, 0) = Inr (take res b @ d @ 0 # drop (res + Suc (length d)) ?c)"
    using d t assms(3) by (simp add: itoa_finish_def nth_append)
  moreover have "length ?c = length b" using t assms(3,4) by simp
  ultimately show ?thesis using t assms(3,4) by auto
qed

text \<open>
  \<^verbatim>\<open>lwip_itoa\<close> writes the decimal text of the number and a terminating zero when they fit into \<^verbatim>\<open>bufsize\<close>, and an
  empty string otherwise; it never writes outside the buffer.
\<close>

theorem lwip_itoa_correct:
  assumes "- (2 ^ 31) < number" and "2 \<le> bufsize" and "bufsize \<le> length result"
  shows "if length (itoa_text number) < bufsize
         then \<exists>rest. lwip_itoa result bufsize number = Inr (itoa_text number @ 0 # rest)
                \<and> length (itoa_text number @ 0 # rest) = length result
         else \<exists>buf. lwip_itoa result bufsize number = Inr buf \<and> buf ! 0 = 0 \<and> length buf = length result"
proof (cases "number = 0")
  case True
  obtain x y xs where "result = x # y # xs"
    using assms by (cases result rule: remdups_adj.cases) auto
  with True assms show ?thesis
    by (simp add: lwip_itoa_def itoa_finish_def itoa_text_def itoa_loop.simps nth_Cons' split: nat.splits)
next
  case False
  define n where "n = nat \<bar>number\<bar>"
  define res where "res = (if number < 0 then 1 else 0 :: nat)"
  define b where "b = (if number < 0 then result[0 := 0x2d] else result)[bufsize - 1 := 0]"
  have b: "length b = length result" "b ! (bufsize - 1) = 0" using assms by (auto simp: b_def)
  have res: "res \<le> 1" by (simp add: res_def)
  from False have d: "dec_digits n \<noteq> []" by (subst dec_digits.simps) (auto simp: n_def)
  have tx: "itoa_text number = take res b @ dec_digits n"
    using False assms by (cases result; cases "bufsize - 1") (auto simp: itoa_text_def n_def res_def b_def)
  have len: "length (itoa_text number) = res + length (dec_digits n)"
    using tx b assms res by simp
  have start: "lwip_itoa result bufsize number =
        bnd (itoa_loop b (bufsize - 1) res n) (itoa_finish bufsize res)"
    unfolding n_def res_def b_def
    using assms by (cases "number < 0"; cases result) (auto simp: lwip_itoa_def Let_def)
  show ?thesis
  proof (cases "length (dec_digits n) + res < bufsize")
    case True
    then have "lwip_itoa result bufsize number = itoa_finish bufsize res
        (take (bufsize - 1 - length (dec_digits n)) b @ dec_digits n @ drop (bufsize - 1) b,
         bufsize - 1 - length (dec_digits n), 0)"
      using itoa_loop_fits [of n "bufsize - 1" res b] b assms by (simp add: start)
    with itoa_finish_fits [OF d dec_digits_nonzero True _ b(2)] b assms
    show ?thesis using True by (simp add: tx len [unfolded tx])
  next
    case F: False
    then have "bufsize - 1 - res < length (dec_digits n)" "res \<le> bufsize - 1" "bufsize - 1 < length b"
      using assms b res by auto
    with itoa_loop_full b obtain buf' n' where
      "itoa_loop b (bufsize - 1) res n = Inr (buf', res, n')" "n' \<noteq> 0" "length buf' = length result"
      by metis
    with assms F show ?thesis
      by (cases buf') (auto simp: start len itoa_finish_def buf_set_def)
  qed
qed


theorem lwip_stricmp_correct_witness:
  "lwip_stricmp [0x48, 0x69, 0] [0x68, 0x49, 0] = Inr 0 \<and> lwip_stricmp [0x48, 0x69, 0] [0x68, 0x6a, 0] = Inr 1"
  using lwip_stricmp_correct [of "[0x48, 0x69]" "[0x68, 0x49]"] lwip_stricmp_correct [of "[0x48, 0x69]" "[0x68, 0x6a]"]
  by (simp add: ascii_lower_def)

theorem lwip_strnstr_correct_witness: "lwip_strnstr [1, 2, 3, 0] [2, 3, 0] 9 = Inr (Some 1)"
proof -
  have at: "str_at [1, 2, 3] [2, 3] 9 1" "\<not> str_at [1, 2, 3] [2, 3] 9 0" by (simp_all add: str_at_def)
  obtain r where r: "lwip_strnstr [1, 2, 3, 0] [2, 3, 0] 9 = Inr r"
    "case r of None \<Rightarrow> \<forall>j. \<not> str_at [1, 2, 3] [2, 3] 9 j
      | Some k \<Rightarrow> ([2, 3 :: byte] \<noteq> [] \<longrightarrow> str_at [1, 2, 3] [2, 3] 9 k) \<and> (\<forall>j < k. \<not> str_at [1, 2, 3] [2, 3] 9 j)"
    using lwip_strnstr_correct [of "[1, 2, 3]" "[2, 3]" 9] by auto
  then obtain k where k: "r = Some k" "str_at [1, 2, 3] [2, 3] 9 k" "\<forall>j < k. \<not> str_at [1, 2, 3] [2, 3] 9 j"
    using at(1) by (cases r) auto
  moreover have "k \<noteq> 0" "\<not> 1 < k" using k at by (metis, blast)
  ultimately have "k = 1" by simp
  then show ?thesis using r(1) k(1) by simp
qed

theorem lwip_itoa_correct_witness:
  "\<exists>rest. lwip_itoa (replicate 8 0) 8 (- 42) = Inr ([0x2d, 0x34, 0x32, 0] @ rest) \<and> length rest = 4"
proof -
  have "itoa_text (- 42) = [0x2d, 0x34, 0x32]" by (simp add: itoa_text_def dec_digits_pos)
  then show ?thesis using lwip_itoa_correct [of "- 42" 8 "replicate 8 0"] by simp
qed

end
