(* ===== verification/Pbuf_Heap.thy ===== *)
theory Pbuf_Heap
  imports Def_C
begin

text \<open>
  The memory the packet buffers live in. An object is named by a number (its address); a
  \<^verbatim>\<open>struct pbuf\<close> and the bytes that were allocated behind it share that number, and other
  byte arrays (the payload of \<^verbatim>\<open>PBUF_REF\<close> buffers) have numbers of their own. A payload
  pointer is a pair of such a number and an offset; in the object of a pbuf the offset counts
  from the end of the \<^verbatim>\<open>struct pbuf\<close>. Allocation (\<^verbatim>\<open>core/mem.c\<close>, \<^verbatim>\<open>core/memp.c\<close>, which
  this configuration maps to the C library's \<^verbatim>\<open>malloc\<close>) names the objects in increasing
  order and never uses a number twice, so that a use of a freed object is a \<open>Fault\<close>; which
  requests fail is given by the field \<open>oom\<close>, and the contents of fresh memory by \<open>junk\<close>.
\<close>

section \<open>Objects\<close>

type_synonym pptr = "nat option"
type_synonym ptr = "(nat \<times> int) option"

record pbuf =
  p_next :: pptr
  p_payload :: ptr
  p_tot_len :: u16_t
  p_len :: u16_t
  p_type_internal :: u8_t
  p_flags :: u8_t
  p_ref :: u8_t
  p_if_idx :: u8_t

text \<open>
  The part of a \<^verbatim>\<open>struct pbuf_custom_ref\<close> behind the pbuf: the free function (the only one the
  compiled code installs is \<^verbatim>\<open>ipfrag_free_pbuf_custom\<close>) and the referenced pbuf.
\<close>

datatype pbuf_free_custom_fn = Ipfrag_free_pbuf_custom

record pbuf_custom_ref =
  custom_free_function :: "pbuf_free_custom_fn option"
  original :: pptr

text \<open>
  The variables of the IP layer that operations on packets change: the identification of the next datagram (\<^verbatim>\<open>ip_id\<close>
  of \<^verbatim>\<open>ip4.c\<close>), the packets that loop back to an interface, by its number (\<^verbatim>\<open>loop_first\<close> and \<^verbatim>\<open>loop_last\<close> of
  \<^verbatim>\<open>struct netif\<close>), and the packets that went out, in the order of the calls of \<^verbatim>\<open>OutputFn\<close>.
\<close>

record net_state =
  ip_id :: u16_t
  loop_first :: "u8_t \<Rightarrow> pptr"
  loop_last :: "u8_t \<Rightarrow> pptr"
  sent :: "bytes list"

record heap =
  pbufs :: "nat \<Rightarrow> pbuf option"
  mem :: "nat \<Rightarrow> bytes option"
  customs :: "nat \<Rightarrow> pbuf_custom_ref option"
  nextid :: nat
  oom :: "nat \<Rightarrow> bool"
  junk :: "nat \<Rightarrow> byte"
  pbuf_free_ooseq_pending :: u8_t
  net :: net_state

section \<open>Access\<close>

definition pget :: "heap \<Rightarrow> pptr \<Rightarrow> pbuf outcome" where
  "pget h p = (case p of None \<Rightarrow> Inl Fault
     | Some a \<Rightarrow> (case pbufs h a of None \<Rightarrow> Inl Fault | Some b \<Rightarrow> Inr b))"

definition pset :: "heap \<Rightarrow> pptr \<Rightarrow> pbuf \<Rightarrow> heap" where
  "pset h p b = (case p of None \<Rightarrow> h | Some a \<Rightarrow> h\<lparr>pbufs := (pbufs h)(a \<mapsto> b)\<rparr>)"

text \<open>\<open>pupd h p f\<close> is a write to fields of \<open>*p\<close>.\<close>

definition pupd :: "heap \<Rightarrow> pptr \<Rightarrow> (pbuf \<Rightarrow> pbuf) \<Rightarrow> heap outcome" where
  "pupd h p f = bnd (pget h p) (\<lambda>b. Inr (pset h p (f b)))"

text \<open>\<open>n\<close> bytes from the address \<open>d + off\<close>; a transfer of no bytes accesses nothing.\<close>

definition mem_read :: "heap \<Rightarrow> ptr \<Rightarrow> nat \<Rightarrow> nat \<Rightarrow> bytes outcome" where
  "mem_read h d off n = (if n = 0 then Inr [] else
     case d of None \<Rightarrow> Inl Fault
     | Some (k, i) \<Rightarrow> (case mem h k of None \<Rightarrow> Inl Fault
         | Some bs \<Rightarrow> if 0 \<le> i + int off \<and> nat (i + int off) + n \<le> length bs
                     then Inr (take n (drop (nat (i + int off)) bs)) else Inl Fault))"

definition patch :: "'a list \<Rightarrow> nat \<Rightarrow> 'a list \<Rightarrow> 'a list" where
  "patch bs i xs = take i bs @ xs @ drop (i + length xs) bs"

definition mem_write :: "heap \<Rightarrow> ptr \<Rightarrow> nat \<Rightarrow> bytes \<Rightarrow> heap outcome" where
  "mem_write h d off xs = (if xs = [] then Inr h else
     case d of None \<Rightarrow> Inl Fault
     | Some (k, i) \<Rightarrow> (case mem h k of None \<Rightarrow> Inl Fault
         | Some bs \<Rightarrow> if 0 \<le> i + int off \<and> nat (i + int off) + length xs \<le> length bs
                     then Inr (h\<lparr>mem := (mem h)(k \<mapsto> patch bs (nat (i + int off)) xs)\<rparr>)
                     else Inl Fault))"

definition ptr_add :: "ptr \<Rightarrow> int \<Rightarrow> ptr" where
  "ptr_add d n = (case d of None \<Rightarrow> None | Some (k, i) \<Rightarrow> Some (k, i + n))"

text \<open>The loops over chains are cut off after more steps than there are objects.\<close>

definition fuel :: "heap \<Rightarrow> nat" where
  "fuel h = Suc (nextid h)"

section \<open>Allocation\<close>

definition SIZEOF_STRUCT_PBUF :: nat where
  "SIZEOF_STRUCT_PBUF = 24"

definition PBUF_POOL_BUFSIZE :: u32_t where
  "PBUF_POOL_BUFSIZE = 1514"

text \<open>\<^verbatim>\<open>mem_malloc\<close> of an object that starts with a \<^verbatim>\<open>struct pbuf\<close>.\<close>

definition mem_malloc :: "heap \<Rightarrow> nat \<Rightarrow> pptr \<times> heap" where
  "mem_malloc h sz =
     (let a = nextid h; h = h\<lparr>nextid := Suc a\<rparr>
      in if oom h a then (None, h)
         else (Some a, h\<lparr>mem := (mem h)(a \<mapsto> map (junk h) [0..<sz - SIZEOF_STRUCT_PBUF])\<rparr>))"

text \<open>\<^verbatim>\<open>free\<close> of the C library; freeing what is not allocated is undefined.\<close>

definition mem_free :: "heap \<Rightarrow> pptr \<Rightarrow> heap outcome" where
  "mem_free h p = lwip_assert (p \<noteq> None)
     (case p of None \<Rightarrow> Inl Fault
      | Some a \<Rightarrow> (case mem h a of None \<Rightarrow> Inl Fault
          | Some _ \<Rightarrow> Inr (h\<lparr>pbufs := (pbufs h)(a := None), mem := (mem h)(a := None),
                             customs := (customs h)(a := None)\<rparr>)))"

text \<open>
  The pools (\<^verbatim>\<open>lwip/priv/memp_std.h\<close>) that hold pbufs; with \<^verbatim>\<open>MEMP_MEM_MALLOC\<close> an element of
  any pool is an allocation of the pool's element size.
\<close>

datatype memp_t = MEMP_PBUF | MEMP_PBUF_POOL | MEMP_FRAG_PBUF

fun memp_size :: "memp_t \<Rightarrow> nat" where
  "memp_size MEMP_PBUF = SIZEOF_STRUCT_PBUF"
| "memp_size MEMP_PBUF_POOL = SIZEOF_STRUCT_PBUF + unat PBUF_POOL_BUFSIZE"
| "memp_size MEMP_FRAG_PBUF = SIZEOF_STRUCT_PBUF + 16"

definition memp_malloc :: "heap \<Rightarrow> memp_t \<Rightarrow> pptr \<times> heap" where
  "memp_malloc h ty = mem_malloc h (memp_size ty)"

definition memp_free :: "heap \<Rightarrow> memp_t \<Rightarrow> pptr \<Rightarrow> heap outcome" where
  "memp_free h ty p = (if p = None then Inr h else mem_free h p)"

section \<open>Chains\<close>

text \<open>\<open>path h p qs\<close>: following \<^verbatim>\<open>next\<close> from \<open>p\<close> visits the pbufs \<open>qs\<close> and ends with \<^verbatim>\<open>NULL\<close>.\<close>

fun path :: "heap \<Rightarrow> pptr \<Rightarrow> nat list \<Rightarrow> bool" where
  "path h p [] \<longleftrightarrow> p = None"
| "path h p (a # qs) \<longleftrightarrow> p = Some a \<and> (case pbufs h a of None \<Rightarrow> False | Some b \<Rightarrow> path h (p_next b) qs)"

definition pb :: "heap \<Rightarrow> nat \<Rightarrow> pbuf" where
  "pb h a = the (pbufs h a)"

text \<open>The bytes a pbuf's \<^verbatim>\<open>payload\<close> and \<^verbatim>\<open>len\<close> describe, and that these bytes exist.\<close>

definition payload_ok :: "heap \<Rightarrow> nat \<Rightarrow> bool" where
  "payload_ok h a \<longleftrightarrow> p_len (pb h a) = 0 \<or>
     (case p_payload (pb h a) of None \<Rightarrow> False
      | Some (k, i) \<Rightarrow> (case mem h k of None \<Rightarrow> False
          | Some bs \<Rightarrow> 0 \<le> i \<and> nat i + unat (p_len (pb h a)) \<le> length bs))"

definition seg :: "heap \<Rightarrow> nat \<Rightarrow> bytes" where
  "seg h a = (if p_len (pb h a) = 0 then [] else
     case p_payload (pb h a) of None \<Rightarrow> []
      | Some (k, i) \<Rightarrow> (case mem h k of None \<Rightarrow> []
          | Some bs \<Rightarrow> take (unat (p_len (pb h a))) (drop (nat i) bs)))"

definition chain_data :: "heap \<Rightarrow> nat list \<Rightarrow> bytes" where
  "chain_data h qs = concat (map (seg h) qs)"

text \<open>The invariant of \<^verbatim>\<open>struct pbuf\<close>: \<^verbatim>\<open>tot_len\<close> is the length of this and all following pbufs.\<close>

fun tots :: "heap \<Rightarrow> nat list \<Rightarrow> bool" where
  "tots h [] \<longleftrightarrow> True"
| "tots h (a # qs) \<longleftrightarrow> unat (p_tot_len (pb h a)) = sum_list (map (\<lambda>q. unat (p_len (pb h q))) (a # qs)) \<and> tots h qs"

definition heap_ok :: "heap \<Rightarrow> bool" where
  "heap_ok h \<longleftrightarrow> (\<forall>a. pbufs h a \<noteq> None \<or> mem h a \<noteq> None \<longrightarrow> a < nextid h)
     \<and> (\<forall>a. pbufs h a \<noteq> None \<longrightarrow> mem h a \<noteq> None)"

definition chain_ok :: "heap \<Rightarrow> pptr \<Rightarrow> nat list \<Rightarrow> bool" where
  "chain_ok h p qs \<longleftrightarrow> path h p qs \<and> tots h qs \<and> (\<forall>a\<in>set qs. payload_ok h a)"

subsection \<open>Paths\<close>

lemma pget_Some [simp]: "pbufs h a = Some b \<Longrightarrow> pget h (Some a) = Inr b"
  by (simp add: pget_def)

lemma pget_None [simp]: "pget h None = Inl Fault"
  by (simp add: pget_def)

lemma pb_Some [simp]: "pbufs h a = Some b \<Longrightarrow> pb h a = b"
  by (simp add: pb_def)

lemma path_NoneD [simp]: "path h None qs \<longleftrightarrow> qs = []"
  by (cases qs) auto

lemma path_Some: "path h (Some a) qs \<longleftrightarrow>
    (\<exists>b rs. qs = a # rs \<and> pbufs h a = Some b \<and> path h (p_next b) rs)"
  by (cases qs) (auto split: option.splits)

lemma path_SomeE:
  assumes "path h (Some a) qs"
  obtains b rs where "qs = a # rs" and "pbufs h a = Some b" and "path h (p_next b) rs"
  using assms by (auto simp: path_Some)

lemma path_unique: "path h p qs \<Longrightarrow> path h p rs \<Longrightarrow> qs = rs"
proof (induction qs arbitrary: p rs)
  case (Cons a qs)
  then show ?case by (cases rs) (auto split: option.splits)
qed simp

lemma path_append: "path h p (qs @ a # rs) \<Longrightarrow> path h (Some a) (a # rs)"
proof (induction qs arbitrary: p)
  case (Cons b qs)
  then show ?case by (auto split: option.splits simp del: path.simps simp: path.simps(2) [of h p b])
qed simp

lemma path_alloced: "path h p qs \<Longrightarrow> a \<in> set qs \<Longrightarrow> \<exists>b. pbufs h a = Some b"
  by (induction qs arbitrary: p) (auto split: option.splits)

lemma path_distinct: "path h p qs \<Longrightarrow> distinct qs"
proof (induction qs arbitrary: p)
  case (Cons a qs)
  then obtain b where b: "pbufs h a = Some b" "path h (p_next b) qs" "p = Some a"
    by (auto split: option.splits)
  have "a \<notin> set qs"
  proof
    assume "a \<in> set qs"
    then obtain us vs where "qs = us @ a # vs" by (meson split_list)
    with b have "path h (Some a) (a # vs)" using path_append by metis
    moreover have "path h (Some a) (a # qs)" using b by simp
    ultimately have "vs = qs" using path_unique by blast
    with \<open>qs = us @ a # vs\<close> show False by simp
  qed
  with Cons.IH b show ?case by simp
qed simp

lemma path_cong:
  assumes "\<And>a. a \<in> set qs \<Longrightarrow> map_option p_next (pbufs h' a) = map_option p_next (pbufs h a)"
  shows "path h' p qs = path h p qs"
  using assms
proof (induction qs arbitrary: p)
  case (Cons a qs)
  then have "map_option p_next (pbufs h' a) = map_option p_next (pbufs h a)" by simp
  with Cons show ?case by (cases "pbufs h a"; cases "pbufs h' a") auto
qed simp

lemma path_length:
  assumes "path h p qs" and "heap_ok h"
  shows "length qs < fuel h"
proof -
  have "set qs \<subseteq> {0..<nextid h}"
    using assms path_alloced [OF assms(1)] by (fastforce simp: heap_ok_def)
  then have "card (set qs) \<le> nextid h"
    using card_mono [of "{0..<nextid h}" "set qs"] by simp
  then show ?thesis
    using path_distinct [OF assms(1)] by (simp add: distinct_card fuel_def)
qed

subsection \<open>Data\<close>

lemma length_seg: "payload_ok h a \<Longrightarrow> length (seg h a) = unat (p_len (pb h a))"
  by (auto simp: payload_ok_def seg_def unat_eq_zero split: option.splits)

lemma chain_data_Nil [simp]: "chain_data h [] = []"
  by (simp add: chain_data_def)

lemma chain_data_Cons [simp]: "chain_data h (a # qs) = seg h a @ chain_data h qs"
  by (simp add: chain_data_def)

lemma chain_data_append [simp]: "chain_data h (qs @ rs) = chain_data h qs @ chain_data h rs"
  by (simp add: chain_data_def)

lemma length_chain_data:
  "(\<forall>a\<in>set qs. payload_ok h a) \<Longrightarrow> length (chain_data h qs) = sum_list (map (\<lambda>q. unat (p_len (pb h q))) qs)"
  by (induction qs) (auto simp: length_seg)

lemma chain_ok_Cons:
  "chain_ok h p (a # qs) \<longleftrightarrow> p = Some a \<and> (\<exists>b. pbufs h a = Some b \<and> payload_ok h a
     \<and> unat (p_tot_len b) = unat (p_len b) + length (chain_data h qs) \<and> chain_ok h (p_next b) qs)"
  by (auto simp: chain_ok_def length_chain_data split: option.splits)

lemma chain_ok_Nil [simp]: "chain_ok h p [] \<longleftrightarrow> p = None"
  by (simp add: chain_ok_def)

lemma chain_ok_None [simp]: "chain_ok h None qs \<longleftrightarrow> qs = []"
  by (auto simp: chain_ok_def)

lemma chain_ok_Some: "chain_ok h (Some a) qs \<longleftrightarrow> (\<exists>b rs. qs = a # rs \<and> pbufs h a = Some b \<and> payload_ok h a
     \<and> unat (p_tot_len b) = unat (p_len b) + length (chain_data h rs) \<and> chain_ok h (p_next b) rs)"
  by (cases qs) (auto simp: chain_ok_Cons)

lemma chain_ok_tot_len:
  "chain_ok h (Some a) qs \<Longrightarrow> unat (p_tot_len (pb h a)) = length (chain_data h qs)"
  by (auto simp: chain_ok_Some length_seg)

lemma chain_ok_path: "chain_ok h p qs \<Longrightarrow> path h p qs"
  by (simp add: chain_ok_def)

lemma chain_ok_length: "chain_ok h p qs \<Longrightarrow> heap_ok h \<Longrightarrow> length qs < fuel h"
  using path_length chain_ok_path by blast

lemma nat_offset: "0 \<le> i \<Longrightarrow> nat (i + int off) = nat i + off"
  by (simp add: nat_add_distrib)

lemma take_drop_drop_take:
  "off + n \<le> m \<Longrightarrow> take n (drop off (take m (drop i bs))) = take n (drop (i + off) bs)"
  by (simp add: drop_take min_def add.commute)

lemma mem_read_seg:
  assumes "payload_ok h a" and "off + n \<le> unat (p_len (pb h a))"
  shows "mem_read h (p_payload (pb h a)) off n = Inr (take n (drop off (seg h a)))"
proof (cases "n = 0")
  case False
  with assms(2) have l: "p_len (pb h a) \<noteq> 0" by auto
  with assms(1) obtain k i bs where "p_payload (pb h a) = Some (k, i)" "mem h k = Some bs"
    "0 \<le> i" "nat i + unat (p_len (pb h a)) \<le> length bs"
    by (auto simp: payload_ok_def split: option.splits)
  with assms False l show ?thesis
    by (simp add: mem_read_def seg_def nat_offset take_drop_drop_take)
qed (simp add: mem_read_def)

end
