(* ===== verification/Inet_Chksum.thy ===== *)
theory Inet_Chksum
  imports Def_C
begin

text \<open>
  \<^verbatim>\<open>core/inet_chksum.c\<close>: the Internet checksum routines on bytes in memory. The three
  versions of \<^verbatim>\<open>lwip_standard_chksum\<close> (\<^verbatim>\<open>LWIP_CHKSUM_ALGORITHM\<close> 1, 2 and 3; the
  configuration selects 2) are modelled, with the address alignment they test as an
  argument. The arithmetic is that of one's complement sums: \<open>ocnorm n\<close> is the 16-bit
  one's complement value of the sum \<open>n\<close>.
\<close>

section \<open>Macros\<close>

definition FOLD_U32T :: "u32_t \<Rightarrow> u32_t" where
  "FOLD_U32T u = drop_bit 16 u + (u AND 0x0000ffff)"

definition SWAP_BYTES_IN_WORD :: "u32_t \<Rightarrow> u32_t" where
  "SWAP_BYTES_IN_WORD w = push_bit 8 (w AND 0xff) OR drop_bit 8 (w AND 0xff00)"

text \<open>Loads of 16 and 32 bits from memory on a little-endian host.\<close>

definition le16 :: "byte \<Rightarrow> byte \<Rightarrow> u16_t" where
  "le16 lo hi = ucast lo OR push_bit 8 (ucast hi)"

definition le32 :: "byte \<Rightarrow> byte \<Rightarrow> byte \<Rightarrow> byte \<Rightarrow> u32_t" where
  "le32 a b c d = ucast a OR push_bit 8 (ucast b) OR push_bit 16 (ucast c) OR push_bit 24 (ucast d)"

section \<open>The checksum routines\<close>

subsection \<open>Version 1\<close>

fun chksum1_loop :: "u32_t \<Rightarrow> bytes \<Rightarrow> u32_t \<times> bytes" where
  "chksum1_loop acc (a # b # data) =
     (let src = push_bit 8 (ucast a) OR ucast b :: u16_t
      in chksum1_loop (acc + ucast src) data)"
| "chksum1_loop acc data = (acc, data)"

definition lwip_standard_chksum_1 :: "bytes \<Rightarrow> u16_t" where
  "lwip_standard_chksum_1 data =
     (let (acc, rest) = chksum1_loop 0 data;
          acc = (case rest of [] \<Rightarrow> acc | a # _ \<Rightarrow> acc + ucast (push_bit 8 (ucast a) :: u16_t));
          acc = drop_bit 16 acc + (acc AND 0x0000ffff);
          acc = (if acc AND 0xffff0000 \<noteq> 0 then drop_bit 16 acc + (acc AND 0x0000ffff) else acc)
      in lwip_htons (ucast acc))"

subsection \<open>Version 2, the configured one\<close>

fun chksum2_loop :: "u32_t \<Rightarrow> bytes \<Rightarrow> u32_t \<times> bytes" where
  "chksum2_loop sm (a # b # data) = chksum2_loop (sm + ucast (le16 a b)) data"
| "chksum2_loop sm data = (sm, data)"

definition lwip_standard_chksum_2 :: "bool \<Rightarrow> bytes \<Rightarrow> u16_t" where
  "lwip_standard_chksum_2 od data =
     (let (t1, pb) = (if od \<and> data \<noteq> [] then (hd data, tl data) else (0, data));
          (sm, ps) = chksum2_loop 0 pb;
          t0 = (case ps of [] \<Rightarrow> 0 | a # _ \<Rightarrow> a);
          sm = sm + ucast (le16 t0 t1);
          sm = FOLD_U32T sm;
          sm = FOLD_U32T sm;
          sm = (if od then SWAP_BYTES_IN_WORD sm else sm)
      in ucast sm)"

subsection \<open>Version 3\<close>

text \<open>One addition with the carry added back ("ping" and "pong" of the C code).\<close>

definition add_carry_back :: "u32_t \<Rightarrow> u32_t \<Rightarrow> u32_t" where
  "add_carry_back sm x = (let tmp = sm + x in if tmp < sm then tmp + 1 else tmp)"

fun chksum3_loop :: "u32_t \<Rightarrow> bytes \<Rightarrow> u32_t \<times> bytes" where
  "chksum3_loop sm (a # b # c # d # e # f # g # h # data) =
     chksum3_loop (add_carry_back (add_carry_back sm (le32 a b c d)) (le32 e f g h)) data"
| "chksum3_loop sm data = (sm, data)"

definition lwip_standard_chksum_3 :: "nat \<Rightarrow> bytes \<Rightarrow> u16_t" where
  "lwip_standard_chksum_3 addr data =
     (let od = (addr mod 2 = 1);
          (t1, addr, pb) = (if od \<and> data \<noteq> [] then (hd data, addr + 1, tl data) else (0, addr, data));
          (sm, ps) = (case pb of
              a # b # r \<Rightarrow> if addr mod 4 \<noteq> 0 then (ucast (le16 a b), r) else (0, pb)
            | _ \<Rightarrow> (0, pb));
          (sm, pl) = chksum3_loop sm ps;
          sm = FOLD_U32T sm;
          (sm, ps) = chksum2_loop sm pl;
          t0 = (case ps of [] \<Rightarrow> 0 | a # _ \<Rightarrow> a);
          sm = sm + ucast (le16 t0 t1);
          sm = FOLD_U32T sm;
          sm = FOLD_U32T sm;
          sm = (if od then SWAP_BYTES_IN_WORD sm else sm)
      in ucast sm)"

section \<open>One's complement arithmetic\<close>

text \<open>
  \<open>lsum\<close> is the sum of a byte sequence read as little-endian 16-bit words, padded with
  a zero byte; \<open>hsum\<close> is the same with the two bytes of each word exchanged.
\<close>

fun lsum :: "bytes \<Rightarrow> nat" and hsum :: "bytes \<Rightarrow> nat" where
  "lsum [] = 0"
| "lsum (a # r) = unat a + hsum r"
| "hsum [] = 0"
| "hsum (a # r) = 256 * unat a + lsum r"

definition ocnorm :: "nat \<Rightarrow> nat" where
  "ocnorm n = (if n = 0 then 0 else (n - 1) mod 65535 + 1)"

lemma ocnorm_le [simp]: "ocnorm n \<le> 65535"
  using mod_less_divisor [of 65535 "n - 1"] by (simp add: ocnorm_def del: mod_less_divisor)

lemma ocnorm_mod_65536 [simp]: "ocnorm n mod 65536 = ocnorm n"
  by (rule mod_less) (use ocnorm_le [of n] in linarith)

lemma ocnorm_small: "n \<le> 65535 \<Longrightarrow> ocnorm n = n"
  by (simp add: ocnorm_def)

lemma ocnorm_0_iff [simp]: "ocnorm n = 0 \<longleftrightarrow> n = 0"
  by (simp add: ocnorm_def)

lemma ocnorm_mod: "ocnorm n mod 65535 = n mod 65535"
  by (cases n) (simp_all add: ocnorm_def mod_Suc_eq)

text \<open>Two sums have the same one's complement value when they agree modulo 65535 and on being 0.\<close>

lemma ocnorm_eqI:
  assumes "a mod 65535 = b mod 65535" and "a = 0 \<longleftrightarrow> b = 0"
  shows "ocnorm a = ocnorm b"
proof (cases "a = 0")
  case False
  have *: "ocnorm n = (if n mod 65535 = 0 then 65535 else n mod 65535)" if "n \<noteq> 0" for n
    using that by (cases n) (auto simp: ocnorm_def mod_Suc)
  from False assms show ?thesis by (simp add: *)
qed (use assms in simp)

lemma ocnorm_iff: "ocnorm a = ocnorm b \<longleftrightarrow> a mod 65535 = b mod 65535 \<and> (a = 0 \<longleftrightarrow> b = 0)"
  using ocnorm_eqI ocnorm_mod ocnorm_0_iff by metis

lemma ocnorm_idem [simp]: "ocnorm (ocnorm n) = ocnorm n"
  by (simp add: ocnorm_small)

lemma ocnorm_add_left [simp]: "ocnorm (ocnorm a + b) = ocnorm (a + b)"
  by (rule ocnorm_eqI) (simp_all add: mod_add_cong [OF ocnorm_mod refl])

lemma ocnorm_add_right [simp]: "ocnorm (a + ocnorm b) = ocnorm (a + b)"
  using ocnorm_add_left [of b a] by (simp add: add.commute)

lemma ocnorm_mult [simp]: "ocnorm (k * ocnorm a) = ocnorm (k * a)"
  by (rule ocnorm_eqI) (simp_all add: mod_mult_cong [OF refl ocnorm_mod])

lemma div_mod_65536: "n = 65536 * (n div 65536) + n mod 65536" "n mod 65536 < (65536 :: nat)"
  by simp_all

lemma ocnorm_fold: "ocnorm (n div 65536 + n mod 65536) = ocnorm n"
proof (rule ocnorm_eqI)
  have "n = 65535 * (n div 65536) + (n div 65536 + n mod 65536)"
    using div_mod_65536(1) [of n] by linarith
  then have "n mod 65535 = (65535 * (n div 65536) + (n div 65536 + n mod 65536)) mod 65535"
    by simp
  also have "\<dots> = (n div 65536 + n mod 65536) mod 65535"
    by (simp only: mod_mult_self4)
  finally show "(n div 65536 + n mod 65536) mod 65535 = n mod 65535" ..
  show "n div 65536 + n mod 65536 = 0 \<longleftrightarrow> n = 0"
    using div_mod_65536(1) [of n] by (metis add_is_0 div_0 mod_0 mult_0_right)
qed

lemma ocnorm_65536: "ocnorm (65536 * n) = ocnorm n"
  using ocnorm_fold [of "65536 * n"] by simp

lemma ocnorm_65536_distrib: "ocnorm (65536 * a + 65536 * b) = ocnorm (a + b)"
  using ocnorm_65536 [of "a + b"] by (simp only: distrib_left)

lemma ocnorm_add_65536: "ocnorm (65536 * a + b) = ocnorm (a + b)"
  using ocnorm_add_left [of "65536 * a" b] ocnorm_add_left [of a b] by (simp add: ocnorm_65536)

lemma fold_once_le:
  assumes "n \<le> 131070"
  shows "n div 65536 + n mod 65536 \<le> (65535 :: nat)"
proof (cases "n < 65536")
  case False
  then have "n div 65536 = 1" and "n mod 65536 = n - 65536"
    using assms by (auto simp: div_if le_mod_geq)
  with assms show ?thesis by simp
qed simp

lemma fold_le: "n < 4294967296 \<Longrightarrow> n div 65536 + n mod 65536 \<le> (131070 :: nat)"
  using div_mod_65536 [of n] by linarith

lemma hsum_lsum: "ocnorm (c + hsum xs) = ocnorm (c + 256 * lsum xs)"
  and lsum_hsum: "ocnorm (c + lsum xs) = ocnorm (c + 256 * hsum xs)"
proof (induction xs arbitrary: c)
  case (Cons a xs)
  {
    case 1
    show ?case using Cons(2) [of "c + 256 * unat a"] by (simp add: algebra_simps)
  next
    case 2
    have "ocnorm (c + 256 * hsum (a # xs)) = ocnorm (65536 * unat a + (c + 256 * lsum xs))"
      by (simp add: algebra_simps)
    also have "\<dots> = ocnorm (unat a + (c + 256 * lsum xs))"
      by (rule ocnorm_add_65536)
    also have "\<dots> = ocnorm (c + lsum (a # xs))"
      using Cons(1) [of "c + unat a"] by (simp add: algebra_simps)
    finally show ?case by simp
  }
qed simp_all

lemma lsum_append: "lsum (xs @ ys) = lsum xs + (if even (length xs) then lsum ys else hsum ys)"
  and hsum_append: "hsum (xs @ ys) = hsum xs + (if even (length xs) then hsum ys else lsum ys)"
  by (induction xs) auto

lemma lsum_le: "lsum xs \<le> 65535 * ((length xs + 1) div 2)"
proof (induction xs rule: induct_list012)
  case (3 a b xs)
  have "unat a \<le> 255" "unat b \<le> 255" using unat_lt_8 [of a] unat_lt_8 [of b] by linarith+
  with 3 show ?case by simp
next
  case (2 a)
  have "unat a \<le> 255" using unat_lt_8 [of a] by linarith
  then show ?case by simp
qed simp

section \<open>The word operations as natural number arithmetic\<close>

lemma unat_FOLD_U32T: "unat (FOLD_U32T u) = unat u div 65536 + unat u mod 65536"
proof -
  have "unat u div 65536 + unat u mod 65536 < 4294967296"
    using fold_le [of "unat u"] by simp
  then show ?thesis
    by (simp add: FOLD_U32T_def and_0xffff word_nat)
qed

lemma ocnorm_FOLD [simp]: "ocnorm (unat (FOLD_U32T u)) = ocnorm (unat u)"
  by (simp add: unat_FOLD_U32T ocnorm_fold)

lemma unat_FOLD_small: "unat u \<le> 131070 \<Longrightarrow> unat (FOLD_U32T u) = ocnorm (unat u)"
  using fold_once_le [of "unat u"] ocnorm_fold [of "unat u"]
  by (simp add: unat_FOLD_U32T ocnorm_small)

lemma unat_FOLD_FOLD: "unat (FOLD_U32T (FOLD_U32T u)) = ocnorm (unat u)"
  using unat_FOLD_small [of "FOLD_U32T u"] fold_le [of "unat u"]
  by (simp add: unat_FOLD_U32T ocnorm_fold)

lemma unat_SWAP: "unat (SWAP_BYTES_IN_WORD w) = 256 * (unat w mod 256) + unat w div 256 mod 256"
proof -
  have eq: "SWAP_BYTES_IN_WORD w = push_bit 8 (take_bit 8 w) OR take_bit 8 (drop_bit 8 w)"
    by (rule bit_word_eqI) (auto simp: SWAP_BYTES_IN_WORD_def and_byte bit_simps)
  have "push_bit 8 (take_bit 8 w) AND take_bit 8 (drop_bit 8 w) = 0"
    by (rule bit_word_eqI) (auto simp: bit_simps)
  then have "unat (SWAP_BYTES_IN_WORD w) = (256 * (unat w mod 256) + unat w div 256 mod 256) mod 4294967296"
    by (simp add: eq unat_or_disjoint word_nat mod_simps mult.commute)
  moreover have "256 * (unat w mod 256) + unat w div 256 mod 256 < 4294967296"
    using mod_less_divisor [of 256 "unat w"] mod_less_divisor [of 256 "unat w div 256"] by linarith
  ultimately show ?thesis by simp
qed

lemma swap_ocnorm:
  assumes "n \<le> 65535"
  shows "256 * (n mod 256) + n div 256 = ocnorm (256 * n)"
proof -
  have n: "n = 256 * (n div 256) + n mod 256" by simp
  have "256 * (n mod 256) + n div 256 \<le> 65535" using assms by linarith
  then have "256 * (n mod 256) + n div 256 = ocnorm (n div 256 + 256 * (n mod 256))"
    by (simp add: ocnorm_small)
  also have "\<dots> = ocnorm (65536 * (n div 256) + 256 * (n mod 256))"
    by (simp add: ocnorm_add_65536)
  also have "65536 * (n div 256) + 256 * (n mod 256) = 256 * n" using n by linarith
  finally show ?thesis .
qed

lemma unat_SWAP_ocnorm: "unat w \<le> 65535 \<Longrightarrow> unat (SWAP_BYTES_IN_WORD w) = ocnorm (256 * unat w)"
proof -
  assume w: "unat w \<le> 65535"
  then have "unat w div 256 mod 256 = unat w div 256" by simp
  then show ?thesis using w by (simp add: unat_SWAP swap_ocnorm)
qed

lemma unat_htons_ocnorm: "unat (lwip_htons n) = ocnorm (256 * unat n)"
  using unat_lt_16 [of n] by (simp add: unat_htons swap_ocnorm del: unat_lt_16)

lemma unat_le16: "unat (le16 lo hi) = unat lo + 256 * unat hi"
proof -
  have "(ucast lo :: u16_t) AND push_bit 8 (ucast hi) = 0"
    by (rule bit_word_eqI) (auto simp: bit_simps dest: bit_imp_le_length)
  moreover have "unat lo + 256 * unat hi < 65536"
    using unat_lt_8 [of lo] unat_lt_8 [of hi] by linarith
  ultimately show ?thesis
    by (simp add: le16_def unat_or_disjoint word_nat mod_simps mult.commute)
qed

lemma unat_be16: "unat (push_bit 8 (ucast a) OR ucast b :: u16_t) = 256 * unat (a :: byte) + unat (b :: byte)"
  using unat_le16 [of b a] by (simp add: le16_def or.commute add.commute)

lemma unat_le32: "unat (le32 a b c d) = unat (le16 a b) + 65536 * unat (le16 c d)"
proof -
  let ?l = "ucast a OR push_bit 8 (ucast b) :: u32_t"
  let ?h = "ucast c OR push_bit 8 (ucast d) :: u32_t"
  have eq: "?l = ucast (le16 a b)" "?h = ucast (le16 c d)"
    by (rule bit_word_eqI, auto simp: le16_def bit_simps dest: bit_imp_le_length)+
  have "le32 a b c d = ?l OR push_bit 16 ?h"
    by (rule bit_word_eqI) (auto simp: le32_def bit_simps)
  moreover have "(ucast (le16 a b) :: u32_t) AND push_bit 16 (ucast (le16 c d)) = 0"
    by (rule bit_word_eqI) (auto simp: bit_simps dest: bit_imp_le_length)
  ultimately have "unat (le32 a b c d) = (unat (le16 a b) + unat (le16 c d) * 65536) mod 4294967296"
    by (simp add: eq unat_or_disjoint word_nat mod_simps)
  moreover have "unat (le16 a b) + unat (le16 c d) * 65536 < 4294967296"
    using unat_lt_16 [of "le16 a b"] unat_lt_16 [of "le16 c d"] by linarith
  ultimately show ?thesis by simp
qed

section \<open>Correctness of the three routines\<close>

lemma chksum2_loop_sum:
  assumes "unat sm + lsum data < 4294967296"
  shows "\<exists>sm' ps. chksum2_loop sm data = (sm', ps) \<and> length ps < 2
           \<and> unat sm' + lsum ps = unat sm + lsum data"
  using assms
proof (induction sm data rule: chksum2_loop.induct)
  case (1 sm a b data)
  have "unat (sm + ucast (le16 a b)) = unat sm + (unat a + 256 * unat b)"
    using 1(2) by (subst unat_add_no_wrap_32) (auto simp: unat_le16)
  with 1 show ?case by (simp add: add.assoc)
qed simp_all

lemma chksum2_tail:
  assumes "length ps < 2"
  shows "unat (case ps of [] \<Rightarrow> 0 | a # _ \<Rightarrow> a) = lsum ps"
  using assms by (cases ps; cases "tl ps") auto

text \<open>The common end of versions 2 and 3: two folds, and the exchange of bytes for an odd start.\<close>

lemma chksum_finish:
  assumes "ocnorm (unat s) = ocnorm (if od then hsum data else lsum data)"
  shows "unat (ucast (let s2 = FOLD_U32T (FOLD_U32T s) in if od then SWAP_BYTES_IN_WORD s2 else s2) :: u16_t)
       = ocnorm (lsum data)"
proof -
  have f: "unat (FOLD_U32T (FOLD_U32T s)) = ocnorm (if od then hsum data else lsum data)"
    using assms by (simp add: unat_FOLD_FOLD)
  show ?thesis
  proof (cases od)
    case True
    then have "unat (SWAP_BYTES_IN_WORD (FOLD_U32T (FOLD_U32T s))) = ocnorm (256 * hsum data)"
      using f by (simp add: unat_SWAP_ocnorm)
    also have "\<dots> = ocnorm (lsum data)" using lsum_hsum [of 0 data] by simp
    finally show ?thesis using True by (simp add: Let_def unat_ucast_32_16)
  next
    case False
    then show ?thesis using f by (simp add: Let_def unat_ucast_32_16)
  qed
qed

lemma lsum_short: "length xs \<le> 65535 \<Longrightarrow> lsum xs \<le> 65535 * 32768"
proof -
  assume "length xs \<le> 65535"
  then have "65535 * ((length xs + 1) div 2) \<le> (65535 :: nat) * 32768" by simp
  then show ?thesis using lsum_le [of xs] by (rule order_trans [rotated])
qed

lemma odd_start:
  "256 * unat (if od \<and> data \<noteq> [] then hd data else 0) + lsum (if od \<and> data \<noteq> [] then tl data else data)
   = (if od then hsum data else lsum data)"
  by (cases data) auto

lemma lwip_standard_chksum_2_sum:
  assumes "length data \<le> 65535"
  shows "unat (lwip_standard_chksum_2 od data) = ocnorm (lsum data)"
proof -
  define t1 where "t1 = (if od \<and> data \<noteq> [] then hd data else 0)"
  define pb where "pb = (if od \<and> data \<noteq> [] then tl data else data)"
  have t1: "256 * unat t1 \<le> 65280" using unat_lt_8 [of t1] by linarith
  have pb: "lsum pb \<le> 65535 * 32768"
    by (rule lsum_short) (use assms in \<open>auto simp: pb_def\<close>)
  then obtain sm ps where loop: "chksum2_loop 0 pb = (sm, ps)" "length ps < 2"
    "unat sm + lsum ps = lsum pb"
    using chksum2_loop_sum [of 0 pb] by auto
  define s where "s = sm + ucast (le16 (case ps of [] \<Rightarrow> 0 | a # _ \<Rightarrow> a) t1)"
  have "unat s = 256 * unat t1 + lsum pb"
    unfolding s_def using loop t1 pb
    by (subst unat_add_no_wrap_32) (auto simp: unat_le16 chksum2_tail)
  then have "ocnorm (unat s) = ocnorm (if od then hsum data else lsum data)"
    by (simp only: t1_def pb_def odd_start)
  moreover have "lwip_standard_chksum_2 od data
      = ucast (let s2 = FOLD_U32T (FOLD_U32T s) in if od then SWAP_BYTES_IN_WORD s2 else s2)"
    using loop by (auto simp: lwip_standard_chksum_2_def s_def t1_def pb_def Let_def)
  ultimately show ?thesis by (simp only: chksum_finish)
qed

lemma chksum1_loop_sum:
  assumes "unat acc + hsum data < 4294967296"
  shows "\<exists>acc' r. chksum1_loop acc data = (acc', r) \<and> length r < 2
           \<and> unat acc' + hsum r = unat acc + hsum data"
  using assms
proof (induction acc data rule: chksum1_loop.induct)
  case (1 acc a b data)
  have "unat (acc + ucast (push_bit 8 (ucast a) OR ucast b :: u16_t)) = unat acc + (256 * unat a + unat b)"
    using 1(2) by (subst unat_add_no_wrap_32) (auto simp: unat_be16)
  with 1 show ?case by (simp add: add.assoc)
qed simp_all

lemma and_high_half: "(u :: u32_t) AND 0xffff0000 = 0 \<longleftrightarrow> unat u < 65536"
proof -
  have "u AND 0xffff0000 = push_bit 16 (take_bit 16 (drop_bit 16 u))"
    using and_field [of u 16 16] by (simp add: mask_numeral)
  also have "\<dots> = push_bit 16 (drop_bit 16 u)"
    by (rule bit_word_eqI) (auto simp: bit_simps)
  finally have "unat (u AND 0xffff0000) = unat u div 65536 * 65536 mod 4294967296"
    by (simp add: word_nat)
  also have "\<dots> = unat u div 65536 * 65536"
    by (rule mod_less) (use div_mod_65536 [of "unat u"] unat_lt_32 [of u] in linarith)
  finally have "u AND 0xffff0000 = 0 \<longleftrightarrow> unat u div 65536 = 0"
    by (metis mult_eq_0_iff unat_eq_zero zero_neq_numeral)
  then show ?thesis by (simp add: div_eq_0_iff)
qed

lemma hsum_short: "length xs \<le> 65535 \<Longrightarrow> hsum xs \<le> 65535 * 32768 + 65280"
proof (cases xs)
  case (Cons a r)
  moreover assume "length xs \<le> 65535"
  ultimately show ?thesis
    using lsum_short [of r] unat_lt_8 [of a] by (simp del: unat_lt_8)
qed simp

lemma lwip_standard_chksum_1_sum:
  assumes "length data \<le> 65535"
  shows "unat (lwip_standard_chksum_1 data) = ocnorm (lsum data)"
proof -
  have b: "hsum data \<le> 65535 * 32768 + 65280" using assms by (rule hsum_short)
  obtain acc r where loop: "chksum1_loop 0 data = (acc, r)" "length r < 2" "unat acc + hsum r = hsum data"
    using chksum1_loop_sum [of 0 data] b by auto
  define s where "s = (case r of [] \<Rightarrow> acc | a # _ \<Rightarrow> acc + ucast (push_bit 8 (ucast a) :: u16_t))"
  have s: "unat s = hsum data"
  proof (cases r)
    case (Cons a r')
    have a: "unat (push_bit 8 (ucast a) :: u16_t) = 256 * unat a"
      using unat_be16 [of a 0] by simp
    have "unat (acc + ucast (push_bit 8 (ucast a) :: u16_t)) = unat acc + 256 * unat a"
      using loop b Cons a by (subst unat_add_no_wrap_32) auto
    with Cons loop show ?thesis by (auto simp: s_def)
  qed (use loop in \<open>simp add: s_def\<close>)
  define f where "f = FOLD_U32T s"
  have f: "unat f \<le> 131070" using fold_le [of "unat s"] by (simp add: f_def unat_FOLD_U32T)
  define g where "g = (if f AND 0xffff0000 \<noteq> 0 then drop_bit 16 f + (f AND 0x0000ffff) else f)"
  have "unat g = ocnorm (unat f)"
    using f by (auto simp: g_def and_high_half ocnorm_small unat_FOLD_small simp flip: FOLD_U32T_def)
  then have g: "unat g = ocnorm (hsum data)" by (simp add: f_def s)
  have "lwip_standard_chksum_1 data = lwip_htons (ucast g)"
    using loop by (simp add: lwip_standard_chksum_1_def g_def f_def s_def FOLD_U32T_def Let_def)
  then show ?thesis
    using g lsum_hsum [of 0 data] by (simp add: unat_htons_ocnorm unat_ucast_32_16)
qed

lemma ocnorm_add_carry_back: "ocnorm (unat (add_carry_back sm x)) = ocnorm (unat sm + unat x)"
proof (cases "unat sm + unat x < 4294967296")
  case True
  then show ?thesis
    by (simp add: add_carry_back_def Let_def word_less_nat_alt unat_add_no_wrap_32)
next
  case False
  let ?n = "unat sm + unat x - 4294967296"
  have t: "unat (sm + x) = ?n"
    using False unat_lt_32 [of sm] unat_lt_32 [of x]
    by (simp add: unat_add_32 le_mod_geq del: unat_lt_32)
  have lt: "?n < unat sm" using False unat_lt_32 [of x] by linarith
  have "unat (sm + x + 1) = ?n + 1"
    using t lt unat_lt_32 [of sm] by (subst unat_add_no_wrap_32) (auto simp del: unat_lt_32)
  then have "unat (add_carry_back sm x) = ?n + 1"
    using t lt by (simp add: add_carry_back_def Let_def word_less_nat_alt)
  moreover have "ocnorm (?n + 1) = ocnorm (unat sm + unat x)"
  proof (rule ocnorm_eqI)
    have "unat sm + unat x = 65535 * 65537 + (?n + 1)" using False by simp
    then show "(?n + 1) mod 65535 = (unat sm + unat x) mod 65535"
      by (metis mod_mult_self4)
  qed (use False in auto)
  ultimately show ?thesis by simp
qed

lemma ocnorm_le32: "ocnorm (c + unat (le32 a b d e)) = ocnorm (c + lsum [a, b, d, e])"
proof -
  have "ocnorm (c + unat (le32 a b d e)) = ocnorm (65536 * unat (le16 d e) + (c + unat (le16 a b)))"
    by (simp add: unat_le32 algebra_simps)
  also have "\<dots> = ocnorm (c + lsum [a, b, d, e])"
    by (simp only: ocnorm_add_65536) (simp add: unat_le16 ac_simps)
  finally show ?thesis .
qed

lemma ocnorm_add_cong: "ocnorm a = ocnorm b \<Longrightarrow> ocnorm (a + c) = ocnorm (b + c)"
  by (metis ocnorm_add_left)

lemma chksum3_loop_sum:
  "\<exists>sm' r. chksum3_loop sm data = (sm', r) \<and> length r < 8
     \<and> ocnorm (unat sm' + lsum r) = ocnorm (unat sm + lsum data)"
proof (induction sm data rule: chksum3_loop.induct)
  case (1 sm a b c d e f g h data)
  let ?s1 = "add_carry_back sm (le32 a b c d)"
  let ?s2 = "add_carry_back ?s1 (le32 e f g h)"
  have s1: "ocnorm (unat ?s1) = ocnorm (unat sm + lsum [a, b, c, d])"
    by (simp only: ocnorm_add_carry_back ocnorm_le32)
  have s2: "ocnorm (unat ?s2) = ocnorm (unat ?s1 + lsum [e, f, g, h])"
    by (simp only: ocnorm_add_carry_back ocnorm_le32)
  have "ocnorm (unat ?s2 + lsum data) = ocnorm (unat ?s1 + (lsum [e, f, g, h] + lsum data))"
    using ocnorm_add_cong [OF s2] by (simp only: add.assoc)
  also have "\<dots> = ocnorm (unat sm + lsum (a # b # c # d # e # f # g # h # data))"
    using ocnorm_add_cong [OF s1] by (simp add: add.assoc)
  finally show ?case using 1 by simp
qed simp_all

lemma lwip_standard_chksum_3_sum: "unat (lwip_standard_chksum_3 addr data) = ocnorm (lsum data)"
proof -
  define od where "od = (addr mod 2 = 1)"
  define t1 where "t1 = (if od \<and> data \<noteq> [] then hd data else 0)"
  define pb where "pb = (if od \<and> data \<noteq> [] then tl data else data)"
  define addr' where "addr' = (if od \<and> data \<noteq> [] then addr + 1 else addr)"
  obtain s0 ps0 where s0: "(case pb of a # b # r \<Rightarrow> if addr' mod 4 \<noteq> 0 then (ucast (le16 a b), r) else (0, pb)
            | _ \<Rightarrow> (0, pb)) = (s0 :: u32_t, ps0)" by fastforce
  have sum0: "unat s0 + lsum ps0 = lsum pb"
    using s0 by (auto simp: unat_le16 split: list.splits if_splits)
  obtain s1 r1 where s1: "chksum3_loop s0 ps0 = (s1, r1)" "length r1 < 8"
    "ocnorm (unat s1 + lsum r1) = ocnorm (lsum pb)"
    using chksum3_loop_sum [of s0 ps0] sum0 by auto
  have t1: "256 * unat t1 \<le> 65280" using unat_lt_8 [of t1] by linarith
  have r1: "lsum r1 \<le> 65535 * 4"
    using lsum_le [of r1] s1(2) by (intro order_trans [OF lsum_le]) simp
  define s2 where "s2 = FOLD_U32T s1"
  have s2: "unat s2 \<le> 131070" using fold_le [of "unat s1"] by (simp add: s2_def unat_FOLD_U32T)
  obtain s3 ps where s3: "chksum2_loop s2 r1 = (s3, ps)" "length ps < 2" "unat s3 + lsum ps = unat s2 + lsum r1"
    using chksum2_loop_sum [of s2 r1] s2 r1 by auto
  define s where "s = s3 + ucast (le16 (case ps of [] \<Rightarrow> 0 | a # _ \<Rightarrow> a) t1)"
  have us: "unat s = unat s2 + (256 * unat t1 + lsum r1)"
    unfolding s_def using s3 t1 r1 s2
    by (subst unat_add_no_wrap_32) (auto simp: unat_le16 chksum2_tail)
  have "ocnorm (unat s) = ocnorm ((unat s1 + lsum r1) + 256 * unat t1)"
    using ocnorm_add_cong [of "unat s2" "unat s1" "256 * unat t1 + lsum r1"]
    by (simp add: us s2_def ac_simps)
  also have "\<dots> = ocnorm (256 * unat t1 + lsum pb)"
    using ocnorm_add_cong [OF s1(3), of "256 * unat t1"] by (simp add: ac_simps)
  finally have "ocnorm (unat s) = ocnorm (if od then hsum data else lsum data)"
    by (simp only: t1_def pb_def odd_start)
  moreover have "lwip_standard_chksum_3 addr data
      = ucast (let s2 = FOLD_U32T (FOLD_U32T s) in if od then SWAP_BYTES_IN_WORD s2 else s2)"
  proof -
    have h: "(if od \<and> data \<noteq> [] then (hd data, addr + 1, tl data) else (0, addr, data)) = (t1, addr', pb)"
      by (simp add: t1_def addr'_def pb_def)
    show ?thesis
      by (simp only: lwip_standard_chksum_3_def Let_def od_def [symmetric] h prod.case s0 s1(1)
          s2_def [symmetric] s3(1) s_def)
  qed
  ultimately show ?thesis by (simp only: chksum_finish)
qed

section \<open>Callers of the checksum routine\<close>

text \<open>
  \<^verbatim>\<open>LWIP_CHKSUM\<close> is \<^verbatim>\<open>lwip_standard_chksum\<close>, of which the configuration compiles version 2.
  The first argument is the parity of the address of the data.
\<close>

definition LWIP_CHKSUM :: "bool \<Rightarrow> bytes \<Rightarrow> u16_t" where
  "LWIP_CHKSUM = lwip_standard_chksum_2"

definition inet_chksum :: "bool \<Rightarrow> bytes \<Rightarrow> u16_t" where
  "inet_chksum od data = NOT (LWIP_CHKSUM od data)"

text \<open>\<open>lwip_chksum_copy od dst src\<close> returns the destination area after the copy and the checksum.\<close>

definition lwip_chksum_copy :: "bool \<Rightarrow> bytes \<Rightarrow> bytes \<Rightarrow> (bytes \<times> u16_t) outcome" where
  "lwip_chksum_copy od dst src =
     (if length src \<le> length dst
      then let dst = src @ drop (length src) dst
           in Inr (dst, LWIP_CHKSUM od (take (length src) dst))
      else Inl Fault)"

text \<open>One iteration of the loops over a pbuf chain, and what follows the loop.\<close>

definition chksum_step :: "u16_t \<Rightarrow> nat \<Rightarrow> u32_t \<times> bool \<Rightarrow> u32_t \<times> bool" where
  "chksum_step chk len = (\<lambda>(acc, swapped).
     let acc = FOLD_U32T (acc + ucast chk)
     in if len mod 2 \<noteq> 0 then (SWAP_BYTES_IN_WORD acc, \<not> swapped) else (acc, swapped))"

definition chksum_unswap :: "u32_t \<times> bool \<Rightarrow> u32_t" where
  "chksum_unswap = (\<lambda>(acc, swapped). if swapped then SWAP_BYTES_IN_WORD acc else acc)"

definition chksum_pseudo_end :: "u8_t \<Rightarrow> u16_t \<Rightarrow> u32_t \<Rightarrow> u16_t" where
  "chksum_pseudo_end proto proto_len acc =
     (let acc = acc + ucast (lwip_htons (ucast proto));
          acc = acc + ucast (lwip_htons proto_len);
          acc = FOLD_U32T acc;
          acc = FOLD_U32T acc
      in ucast (NOT (acc AND 0xffff)))"

text \<open>The sums of the addresses of the pseudo header.\<close>

definition chksum_add_addr :: "u32_t \<Rightarrow> u32_t \<Rightarrow> u32_t" where
  "chksum_add_addr acc addr =
     (let acc = acc + (addr AND 0xffff) in acc + (drop_bit 16 addr AND 0xffff))"

definition chksum_addrs :: "u32_t list \<Rightarrow> u32_t" where
  "chksum_addrs addrs = FOLD_U32T (FOLD_U32T (foldl chksum_add_addr 0 addrs))"

subsection \<open>Chains of buffers\<close>

text \<open>
  What the callers rely on: the routine returns the one's complement sum of the data,
  wherever the data starts.
\<close>

locale inet_checksum =
  fixes chk :: "'a \<Rightarrow> bytes \<Rightarrow> u16_t"
  assumes chk_sum: "length bs \<le> 65535 \<Longrightarrow> unat (chk od bs) = ocnorm (lsum bs)"
begin

definition chain_state :: "nat \<Rightarrow> bytes \<Rightarrow> u32_t \<times> bool \<Rightarrow> bool" where
  "chain_state c ds st \<longleftrightarrow> snd st = odd (length ds)
     \<and> unat (fst st) = ocnorm (if odd (length ds) then 256 * (c + lsum ds) else c + lsum ds)"

lemma chain_state_init: "unat acc = ocnorm c \<Longrightarrow> chain_state c [] (acc, False)"
  by (simp add: chain_state_def)

lemma chain_state_step:
  assumes st: "chain_state c ds st" and len: "length bs \<le> 65535"
  shows "chain_state c (ds @ bs) (chksum_step (chk od bs) (length bs) st)"
proof -
  obtain acc sw where st_eq: "st = (acc, sw)" by fastforce
  let ?x = "if odd (length ds) then 256 * (c + lsum ds) else c + lsum ds"
  let ?acc = "FOLD_U32T (acc + ucast (chk od bs))"
  have acc: "unat acc = ocnorm ?x" and sw: "sw = odd (length ds)"
    using st by (auto simp: chain_state_def st_eq)
  have le: "unat acc + unat (chk od bs) \<le> 131070"
    using ocnorm_le [of ?x] ocnorm_le [of "lsum bs"] chk_sum [OF len, of od] acc by linarith
  have "unat (acc + ucast (chk od bs)) = unat acc + unat (chk od bs)"
    using le by (subst unat_add_no_wrap_32) auto
  then have "unat ?acc = ocnorm (unat acc + unat (chk od bs))"
    using le by (simp add: unat_FOLD_small)
  also have "\<dots> = ocnorm (?x + lsum bs)"
    by (simp add: acc chk_sum [OF len])
  also have "\<dots> = ocnorm (if odd (length ds) then 256 * (c + lsum (ds @ bs)) else c + lsum (ds @ bs))"
    using lsum_hsum [of "256 * (c + lsum ds)" bs] by (simp add: lsum_append algebra_simps)
  finally have new: "unat ?acc = \<dots>" .
  then have "unat ?acc \<le> 65535" by simp
  then have swap: "unat (SWAP_BYTES_IN_WORD ?acc) = ocnorm (256 * unat ?acc)"
    by (rule unat_SWAP_ocnorm)
  show ?thesis
  proof (cases "even (length bs)")
    case True
    then show ?thesis using new sw
      by (simp add: chain_state_def chksum_step_def st_eq Let_def even_iff_mod_2_eq_zero [symmetric])
  next
    case False
    then show ?thesis using new sw swap
      by (auto simp: ocnorm_65536_distrib chain_state_def chksum_step_def st_eq Let_def even_iff_mod_2_eq_zero [symmetric])
  qed
qed

lemma chain_state_unswap:
  assumes "chain_state c ds st"
  shows "unat (chksum_unswap st) = ocnorm (c + lsum ds)"
proof -
  obtain acc sw where st_eq: "st = (acc, sw)" by fastforce
  then show ?thesis
    using assms by (auto simp: ocnorm_65536_distrib chain_state_def chksum_unswap_def st_eq unat_SWAP_ocnorm)
qed

end

interpretation v1: inet_checksum "\<lambda>_ :: unit. lwip_standard_chksum_1"
  by unfold_locales (rule lwip_standard_chksum_1_sum)

interpretation v3: inet_checksum lwip_standard_chksum_3
  by unfold_locales (rule lwip_standard_chksum_3_sum)

interpretation chksum: inet_checksum LWIP_CHKSUM
  by unfold_locales (simp add: LWIP_CHKSUM_def lwip_standard_chksum_2_sum)

subsection \<open>The pseudo header\<close>

text \<open>The bytes of a 32-bit word in the memory of a little-endian host.\<close>

definition u32_bytes :: "u32_t \<Rightarrow> bytes" where
  "u32_bytes w = [ucast w, ucast (drop_bit 8 w), ucast (drop_bit 16 w), ucast (drop_bit 24 w)]"

definition be16 :: "u16_t \<Rightarrow> bytes" where
  "be16 x = [ucast (drop_bit 8 x), ucast x]"

lemma lsum_u32_bytes: "lsum (u32_bytes w) = unat w mod 65536 + unat w div 65536"
proof -
  have 1: "256 * (unat w div 256 mod 256) + unat w mod 256 = unat w mod 65536"
    using mod_mult2_eq [of "unat w" 256 256] by simp
  have 2: "256 * (unat w div 16777216 mod 256) + unat w div 65536 mod 256 = unat w div 65536 mod 65536"
    using mod_mult2_eq [of "unat w div 65536" 256 256] by (simp add: div_mult2_eq [symmetric])
  have 3: "unat w div 65536 mod 65536 = unat w div 65536"
    using unat_lt_32 [of w] by (simp add: less_mult_imp_div_less del: unat_lt_32)
  have "lsum (u32_bytes w) = unat w mod 256 + 256 * (unat w div 256 mod 256)
      + (unat w div 65536 mod 256 + 256 * (unat w div 16777216 mod 256))"
    by (simp add: u32_bytes_def word_nat del: mod_less)
  then show ?thesis using 1 2 3 by (simp only: add.commute)
qed

lemma lsum_be16: "lsum (be16 x) = unat (lwip_htons x)"
proof -
  have "unat x div 256 mod 256 = unat x div 256"
    using unat_lt_16 [of x] by (simp add: less_mult_imp_div_less del: unat_lt_16)
  then show ?thesis by (simp add: be16_def unat_htons word_nat)
qed

lemma chksum_addrs_sum:
  assumes "length addrs \<le> 8"
  shows "unat (chksum_addrs addrs) = ocnorm (lsum (concat (map u32_bytes addrs)))"
proof -
  have step: "unat (chksum_add_addr acc a) = unat acc + lsum (u32_bytes a)"
    if "unat acc + 131070 < 4294967296" for acc a
  proof -
    have 1: "unat a mod 65536 \<le> 65535" "unat a div 65536 \<le> 65535"
      using unat_lt_32 [of a] div_mod_65536 [of "unat a"] by linarith+
    have 2: "unat (acc + (a AND 0xffff)) = unat acc + unat a mod 65536"
      using that 1 by (subst unat_add_no_wrap_32) (auto simp: and_0xffff word_nat)
    have "unat (acc + (a AND 0xffff) + (drop_bit 16 a AND 0xffff)) = unat acc + unat a mod 65536 + unat a div 65536"
      using that 1 2 by (subst unat_add_no_wrap_32) (auto simp: and_0xffff word_nat)
    then show ?thesis by (simp add: chksum_add_addr_def Let_def lsum_u32_bytes)
  qed
  have le: "lsum (u32_bytes a) \<le> 131070" for a
    using lsum_le [of "u32_bytes a"] by (simp add: u32_bytes_def)
  have ev: "even (length (u32_bytes a))" for a by (simp add: u32_bytes_def)
  have "unat (foldl chksum_add_addr acc as) = unat acc + lsum (concat (map u32_bytes as))"
    if "unat acc + 131070 * length as < 4294967296" for acc as
    using that
  proof (induction "as" arbitrary: acc)
    case (Cons a "as")
    then have s: "unat (chksum_add_addr acc a) = unat acc + lsum (u32_bytes a)"
      by (intro step) simp
    have "unat (chksum_add_addr acc a) + 131070 * length as < 4294967296"
      using Cons.prems le [of a] unfolding s by simp
    then show ?case using Cons.IH s ev by (simp add: lsum_append)
  qed simp
  from this [of 0 addrs] assms show ?thesis
    by (simp add: chksum_addrs_def unat_FOLD_FOLD)
qed

lemma unat_not_16: "unat (NOT x :: u16_t) = 65535 - unat x"
proof -
  have "NOT x = -1 - x" by (simp add: not_eq_complement)
  also have "unat \<dots> = unat (-1 :: u16_t) - unat x" by (rule unat_sub) simp
  also have "unat (-1 :: u16_t) = 65535" by (simp add: unsigned_minus_1_eq_mask mask_eq_exp_minus_1)
  finally show ?thesis .
qed

lemma chksum_pseudo_end_sum:
  assumes "unat acc = ocnorm n"
  shows "unat (chksum_pseudo_end proto proto_len acc)
       = 65535 - ocnorm (n + lsum (0 # proto # be16 proto_len))"
proof -
  have p: "unat (lwip_htons (ucast proto)) = 256 * unat proto"
    by (simp add: unat_htons)
  define a1 where "a1 = acc + ucast (lwip_htons (ucast proto))"
  define a2 where "a2 = a1 + ucast (lwip_htons proto_len)"
  have 0: "unat acc \<le> 65535" "256 * unat proto \<le> 65280" "unat (lwip_htons proto_len) \<le> 65535"
    using assms unat_lt_8 [of proto] unat_lt_16 [of "lwip_htons proto_len"] by (simp, linarith+)
  have 1: "unat a1 = ocnorm n + 256 * unat proto"
    unfolding a1_def using 0 assms p
    by (subst unat_add_no_wrap_32) (use ocnorm_le [of n] in \<open>simp_all del: ocnorm_le\<close>)
  have 2: "unat a2 = ocnorm n + (256 * unat proto + unat (lwip_htons proto_len))"
    unfolding a2_def using 0 assms 1
    by (subst unat_add_no_wrap_32) (use ocnorm_le [of n] in \<open>simp_all del: ocnorm_le\<close>)
  have 3: "unat (FOLD_U32T (FOLD_U32T a2)) = ocnorm (n + lsum (0 # proto # be16 proto_len))"
    by (simp add: unat_FOLD_FOLD 2 lsum_be16)
  have "ucast (NOT (u AND 0xffff)) = (NOT (ucast u) :: u16_t)" for u :: u32_t
    by (rule bit_word_eqI) (auto simp: and_0xffff bit_simps)
  then show ?thesis
    by (simp add: chksum_pseudo_end_def Let_def a1_def [symmetric] a2_def [symmetric]
        unat_not_16 unat_ucast_32_16 3)
qed

subsection \<open>Checksums that verify\<close>

text \<open>The two bytes that storing a 16-bit value writes on a little-endian host.\<close>

definition u16_bytes :: "u16_t \<Rightarrow> bytes" where
  "u16_bytes w = [ucast w, ucast (drop_bit 8 w)]"

lemma lsum_u16_bytes: "lsum (u16_bytes w) = unat w"
proof -
  have "unat w div 256 mod 256 = unat w div 256"
    using unat_lt_16 [of w] by (simp add: less_mult_imp_div_less del: unat_lt_16)
  then show ?thesis by (simp add: u16_bytes_def word_nat)
qed

lemma inet_chksum_sum:
  "length data \<le> 65535 \<Longrightarrow> unat (inet_chksum od data) = 65535 - ocnorm (lsum data)"
  by (simp add: inet_chksum_def unat_not_16 chksum.chk_sum)

text \<open>The Internet checksum of RFC 1071: the complement of the one's complement sum.\<close>

definition internet_checksum :: "bytes \<Rightarrow> u16_t" where
  "internet_checksum d = of_nat (65535 - ocnorm (lsum d))"

lemma unat_internet_checksum: "unat (internet_checksum d) = 65535 - ocnorm (lsum d)"
  unfolding internet_checksum_def by (subst unat_of_nat) simp

lemma internet_checksum_eqI: "unat c = 65535 - ocnorm (lsum d) \<Longrightarrow> c = internet_checksum d"
  by (simp add: word_unat_eq_iff unat_internet_checksum)

text \<open>
  C32: The three implementations of \<^verbatim>\<open>lwip_standard_chksum\<close> in the file (bytes in network order, 16 bit words, 32 bit words
  with the carry added back) return the same sum for any data of up to 65535 bytes at even or odd addresses,
  and \<^verbatim>\<open>inet_chksum\<close> is the Internet checksum of RFC 1071.
\<close>

theorem chksum_algorithms_agree:
  assumes "length data \<le> 65535"
  shows "lwip_standard_chksum_1 data = lwip_standard_chksum_2 od data
    \<and> lwip_standard_chksum_3 addr data = lwip_standard_chksum_2 od data
    \<and> inet_chksum od data = internet_checksum data"
  using assms by (simp add: word_unat_eq_iff unat_internet_checksum inet_chksum_sum
    lwip_standard_chksum_1_sum lwip_standard_chksum_2_sum lwip_standard_chksum_3_sum)

theorem chksum_algorithms_agree_witness:
  "lwip_standard_chksum_1 [1, 2, 3] = lwip_standard_chksum_2 True [1, 2, 3]
    \<and> lwip_standard_chksum_3 7 [1, 2, 3] = lwip_standard_chksum_2 True [1, 2, 3]
    \<and> inet_chksum True [1, 2, 3] = internet_checksum [1, 2, 3]"
  using chksum_algorithms_agree [of "[1, 2, 3]" True 7] by simp

lemma ocnorm_complement: "ocnorm (n + (65535 - ocnorm n)) = 65535"
proof -
  have "ocnorm (n + (65535 - ocnorm n)) = ocnorm (ocnorm n + (65535 - ocnorm n))"
    by (simp only: ocnorm_add_left)
  also have "\<dots> = 65535" by (simp add: ocnorm_small)
  finally show ?thesis .
qed

lemma inet_chksum_stored:
  assumes "even (length pre)" and "length pre + length post \<le> 65533"
  shows "inet_chksum od2 (pre @ u16_bytes (inet_chksum od (pre @ 0 # 0 # post)) @ post) = 0"
proof -
  let ?c = "inet_chksum od (pre @ 0 # 0 # post)"
  have c: "unat ?c = 65535 - ocnorm (lsum pre + lsum post)"
    using assms by (simp add: inet_chksum_sum lsum_append)
  have "lsum (pre @ u16_bytes ?c @ post) = (lsum pre + lsum post) + unat ?c"
    using assms(1) by (simp add: lsum_append lsum_u16_bytes) (simp add: u16_bytes_def)
  then have "ocnorm (lsum (pre @ u16_bytes ?c @ post)) = 65535"
    by (simp only: c ocnorm_complement)
  then have "unat (inet_chksum od2 (pre @ u16_bytes ?c @ post)) = 0"
    using assms(2) by (subst inet_chksum_sum) (simp_all add: u16_bytes_def)
  then show ?thesis by (simp only: unat_eq_zero)
qed

text \<open>
  C35: A receiver that runs \<^verbatim>\<open>inet_chksum\<close> over data in which the sender stored \<^verbatim>\<open>inet_chksum\<close> of the data with
  a zero checksum field gets 0, for any even position of the field and any alignment on either side.
\<close>

theorem inet_chksum_verifies:
  assumes "even (length pre)" and "length pre + length post \<le> 65533"
  shows "inet_chksum od2 (pre @ u16_bytes (inet_chksum od (pre @ 0 # 0 # post)) @ post) = 0"
  using assms by (rule inet_chksum_stored)

theorem inet_chksum_verifies_witness:
  "inet_chksum True ([69, 0] @ u16_bytes (inet_chksum False [69, 0, 0, 0, 7, 8, 9]) @ [7, 8, 9]) = 0"
  using inet_chksum_verifies [of "[69, 0]" "[7, 8, 9]" True False] by simp

end
