(* ===== verification/Pbuf_C.thy ===== *)
theory Pbuf_C
  imports Pbuf_Heap Inet_Chksum
begin

text \<open>
  \<^verbatim>\<open>core/pbuf.c\<close>: allocation, reference counting, headers, chaining and access to the data of
  packet buffers. Every function takes the heap and returns it when it may change it.
  Buffers of the application (\<^verbatim>\<open>dataptr\<close>, \<^verbatim>\<open>s2\<close>, \<^verbatim>\<open>mem\<close>) are byte lists of their own, \<open>None\<close>
  being \<^verbatim>\<open>NULL\<close>: they do not overlap the payload of a pbuf.
\<close>

section \<open>Constants\<close>

text \<open>\<^verbatim>\<open>pbuf_layer\<close> and \<^verbatim>\<open>pbuf_type\<close> are integers in C.\<close>

type_synonym pbuf_layer = u16_t
type_synonym pbuf_type = u16_t

abbreviation (input) PBUF_TRANSPORT :: pbuf_layer where "PBUF_TRANSPORT \<equiv> 74"
abbreviation (input) PBUF_IP :: pbuf_layer where "PBUF_IP \<equiv> 54"
abbreviation (input) PBUF_LINK :: pbuf_layer where "PBUF_LINK \<equiv> 14"
abbreviation (input) PBUF_RAW_TX :: pbuf_layer where "PBUF_RAW_TX \<equiv> 0"
abbreviation (input) PBUF_RAW :: pbuf_layer where "PBUF_RAW \<equiv> 0"

abbreviation (input) PBUF_RAM :: pbuf_type where "PBUF_RAM \<equiv> 0x280"
abbreviation (input) PBUF_ROM :: pbuf_type where "PBUF_ROM \<equiv> 0x01"
abbreviation (input) PBUF_REF :: pbuf_type where "PBUF_REF \<equiv> 0x41"
abbreviation (input) PBUF_POOL :: pbuf_type where "PBUF_POOL \<equiv> 0x182"

abbreviation (input) PBUF_TYPE_FLAG_STRUCT_DATA_CONTIGUOUS :: u8_t where
  "PBUF_TYPE_FLAG_STRUCT_DATA_CONTIGUOUS \<equiv> 0x80"
abbreviation (input) PBUF_TYPE_FLAG_DATA_VOLATILE :: u8_t where
  "PBUF_TYPE_FLAG_DATA_VOLATILE \<equiv> 0x40"
abbreviation (input) PBUF_FLAG_IS_CUSTOM :: u8_t where "PBUF_FLAG_IS_CUSTOM \<equiv> 0x02"

definition pbuf_get_allocsrc :: "pbuf \<Rightarrow> u8_t" where
  "pbuf_get_allocsrc b = p_type_internal b AND 0x0F"

definition pbuf_match_allocsrc :: "pbuf \<Rightarrow> u16_t \<Rightarrow> bool" where
  "pbuf_match_allocsrc b ty \<longleftrightarrow> ucast (pbuf_get_allocsrc b) = ty AND 0x0F"

section \<open>Reference counting\<close>

fun pbuf_free_loop :: "nat \<Rightarrow> heap \<Rightarrow> pptr \<Rightarrow> u8_t \<Rightarrow> (u8_t \<times> heap) outcome" where
  "pbuf_free_loop n h None count = Inr (count, h)"
| "pbuf_free_loop 0 h (Some a) count = Inl Diverge"
| "pbuf_free_loop (Suc n) h (Some a) count =
     bnd (pget h (Some a)) (\<lambda>b.
       lwip_assert (p_ref b > 0)
        (let b = b\<lparr>p_ref := p_ref b - 1\<rparr>; h = pset h (Some a) b
         in if p_ref b = 0
            then let q = p_next b; alloc_src = pbuf_get_allocsrc b
                 in bnd (if p_flags b AND PBUF_FLAG_IS_CUSTOM \<noteq> 0
                         then (case customs h a of None \<Rightarrow> Inl Fault
                           | Some pc \<Rightarrow> lwip_assert (custom_free_function pc \<noteq> None)
                              \<comment> \<open>\<^verbatim>\<open>ipfrag_free_pbuf_custom\<close>\<close>
                              (bnd (if original pc \<noteq> None then pbuf_free_loop n h (original pc) 0
                                    else Inr (0, h))
                                (\<lambda>(_, h). memp_free h MEMP_FRAG_PBUF (Some a))))
                         else if alloc_src = 2 then memp_free h MEMP_PBUF_POOL (Some a)
                         else if alloc_src = 1 then memp_free h MEMP_PBUF (Some a)
                         else if alloc_src = 0 then mem_free h (Some a)
                         else Inl Abort)
                     (\<lambda>h. pbuf_free_loop n h q (count + 1))
            else Inr (count, h)))"

definition pbuf_free :: "heap \<Rightarrow> pptr \<Rightarrow> (u8_t \<times> heap) outcome" where
  "pbuf_free h p = lwip_assert (p \<noteq> None) (pbuf_free_loop (fuel h) h p 0)"

definition pbuf_ref :: "heap \<Rightarrow> pptr \<Rightarrow> heap outcome" where
  "pbuf_ref h p = (if p \<noteq> None
     then bnd (pget h p) (\<lambda>b. let b = b\<lparr>p_ref := p_ref b + 1\<rparr>
            in lwip_assert (p_ref b > 0) (Inr (pset h p b)))
     else Inr h)"

section \<open>Allocation\<close>

definition pbuf_pool_is_empty :: "heap \<Rightarrow> heap" where
  "pbuf_pool_is_empty h = h\<lparr>pbuf_free_ooseq_pending := 1\<rparr>"

definition pbuf_init_alloced_pbuf ::
  "heap \<Rightarrow> pptr \<Rightarrow> ptr \<Rightarrow> u16_t \<Rightarrow> u16_t \<Rightarrow> pbuf_type \<Rightarrow> u8_t \<Rightarrow> heap" where
  "pbuf_init_alloced_pbuf h p payload tot_len len ty flags =
     pset h p \<lparr>p_next = None, p_payload = payload, p_tot_len = tot_len, p_len = len,
               p_type_internal = ucast ty, p_flags = flags, p_ref = 1, p_if_idx = 0\<rparr>"

definition pbuf_alloc_reference :: "heap \<Rightarrow> ptr \<Rightarrow> u16_t \<Rightarrow> pbuf_type \<Rightarrow> (pptr \<times> heap) outcome" where
  "pbuf_alloc_reference h payload len0 ty =
     lwip_assert (ty = PBUF_REF \<or> ty = PBUF_ROM)
      (let (p, h) = memp_malloc h MEMP_PBUF
       in if p = None then Inr (None, h)
          else Inr (p, pbuf_init_alloced_pbuf h p payload len0 len0 ty 0))"

fun pbuf_alloc_pool_loop :: "nat \<Rightarrow> heap \<Rightarrow> pptr \<Rightarrow> pptr \<Rightarrow> u16_t \<Rightarrow> u16_t \<Rightarrow> (pptr \<times> heap) outcome" where
  "pbuf_alloc_pool_loop 0 h p lst rem_len offset = Inl Diverge"
| "pbuf_alloc_pool_loop (Suc n) h p lst rem_len offset =
     (let (q, h) = memp_malloc h MEMP_PBUF_POOL
      in case q of
         None \<Rightarrow> (let h = pbuf_pool_is_empty h
                  in if p \<noteq> None then bnd (pbuf_free h p) (\<lambda>(_, h). Inr (None, h)) else Inr (None, h))
       | Some qa \<Rightarrow>
           (let qlen = min rem_len (ucast (PBUF_POOL_BUFSIZE - ucast offset));
                h = pbuf_init_alloced_pbuf h q (Some (qa, uint offset)) rem_len qlen PBUF_POOL 0
            in lwip_assert (PBUF_POOL_BUFSIZE - ucast offset > 0)
               (bnd (if p = None then Inr (q, h)
                     else bnd (pupd h lst (\<lambda>b. b\<lparr>p_next := q\<rparr>)) (\<lambda>h. Inr (p, h)))
                 (\<lambda>(p, h). let rem_len = rem_len - qlen
                    in if rem_len > 0 then pbuf_alloc_pool_loop n h p q rem_len 0 else Inr (p, h)))))"

definition pbuf_alloc :: "heap \<Rightarrow> pbuf_layer \<Rightarrow> u16_t \<Rightarrow> pbuf_type \<Rightarrow> (pptr \<times> heap) outcome" where
  "pbuf_alloc h layer len0 ty =
     (let offset = layer
      in if ty = PBUF_REF \<or> ty = PBUF_ROM then pbuf_alloc_reference h None len0 ty
         else if ty = PBUF_POOL then pbuf_alloc_pool_loop (Suc (unat len0)) h None None len0 offset
         else if ty = PBUF_RAM then
           (let payload_len = offset + len0;
                alloc_len = SIZEOF_STRUCT_PBUF + unat payload_len
            in if payload_len < len0 \<or> alloc_len < unat len0 then Inr (None, h)
               else let (p, h) = mem_malloc h alloc_len
                    in case p of None \<Rightarrow> Inr (None, h)
                       | Some a \<Rightarrow> Inr (p, pbuf_init_alloced_pbuf h p (Some (a, uint offset)) len0 len0 ty 0))
         else Inl Abort)"

text \<open>
  \<^verbatim>\<open>pbuf_alloced_custom\<close>: the result of the addition is an \<^verbatim>\<open>unsigned int\<close>, it does not wrap. The
  custom pbuf \<open>p\<close> was allocated by the caller.
\<close>

definition pbuf_alloced_custom ::
  "heap \<Rightarrow> pbuf_layer \<Rightarrow> u16_t \<Rightarrow> pbuf_type \<Rightarrow> nat \<Rightarrow> ptr \<Rightarrow> u16_t \<Rightarrow> pptr \<times> heap" where
  "pbuf_alloced_custom h l len0 ty p payload_mem payload_mem_len =
     (if unat l + unat len0 > unat payload_mem_len then (None, h)
      else let payload = (if payload_mem \<noteq> None then ptr_add payload_mem (uint l) else None)
           in (Some p, pbuf_init_alloced_pbuf h (Some p) payload len0 len0 ty PBUF_FLAG_IS_CUSTOM))"

section \<open>Headers\<close>

definition pbuf_add_header_impl :: "heap \<Rightarrow> pptr \<Rightarrow> nat \<Rightarrow> bool \<Rightarrow> (u8_t \<times> heap) outcome" where
  "pbuf_add_header_impl h p header_size_increment force =
     lwip_assert (p \<noteq> None)
      (if header_size_increment > 0xFFFF then Inr (1, h)
       else if header_size_increment = 0 then Inr (0, h)
       else let increment_magnitude = of_nat header_size_increment :: u16_t in
         bnd (pget h p) (\<lambda>b.
           if increment_magnitude + p_tot_len b < increment_magnitude then Inr (1, h)
           else let payload = ptr_add (p_payload b) (- int header_size_increment);
                    commit = Inr (0, pset h p (b\<lparr>p_payload := payload,
                        p_len := p_len b + increment_magnitude,
                        p_tot_len := p_tot_len b + increment_magnitude\<rparr>))
                in if p_type_internal b AND PBUF_TYPE_FLAG_STRUCT_DATA_CONTIGUOUS \<noteq> 0
                   then (case payload of None \<Rightarrow> Inl Fault
                     | Some (k, i) \<Rightarrow>
                         if p \<noteq> Some k then Inl Fault \<comment> \<open>a comparison of pointers to different objects\<close>
                         else if i < 0 then Inr (1, h) else commit)
                   else if force then commit else Inr (1, h)))"

definition pbuf_add_header :: "heap \<Rightarrow> pptr \<Rightarrow> nat \<Rightarrow> (u8_t \<times> heap) outcome" where
  "pbuf_add_header h p header_size_increment = pbuf_add_header_impl h p header_size_increment False"

definition pbuf_add_header_force :: "heap \<Rightarrow> pptr \<Rightarrow> nat \<Rightarrow> (u8_t \<times> heap) outcome" where
  "pbuf_add_header_force h p header_size_increment = pbuf_add_header_impl h p header_size_increment True"

definition pbuf_remove_header :: "heap \<Rightarrow> pptr \<Rightarrow> nat \<Rightarrow> (u8_t \<times> heap) outcome" where
  "pbuf_remove_header h p header_size_decrement =
     lwip_assert (p \<noteq> None)
      (if header_size_decrement > 0xFFFF then Inr (1, h)
       else if header_size_decrement = 0 then Inr (0, h)
       else let increment_magnitude = of_nat header_size_decrement :: u16_t in
         bnd (pget h p) (\<lambda>b.
           lwip_assert (increment_magnitude \<le> p_len b)
             (Inr (0, pset h p (b\<lparr>p_payload := ptr_add (p_payload b) (int header_size_decrement),
                p_len := p_len b - increment_magnitude,
                p_tot_len := p_tot_len b - increment_magnitude\<rparr>)))))"

text \<open>The \<^verbatim>\<open>s16_t\<close> argument is the signed value of the word.\<close>

definition pbuf_header_impl :: "heap \<Rightarrow> pptr \<Rightarrow> 16 word \<Rightarrow> bool \<Rightarrow> (u8_t \<times> heap) outcome" where
  "pbuf_header_impl h p header_size_increment force =
     (if sint header_size_increment < 0
      then pbuf_remove_header h p (nat (- sint header_size_increment))
      else pbuf_add_header_impl h p (nat (sint header_size_increment)) force)"

definition pbuf_header :: "heap \<Rightarrow> pptr \<Rightarrow> 16 word \<Rightarrow> (u8_t \<times> heap) outcome" where
  "pbuf_header h p header_size_increment = pbuf_header_impl h p header_size_increment False"

definition pbuf_header_force :: "heap \<Rightarrow> pptr \<Rightarrow> 16 word \<Rightarrow> (u8_t \<times> heap) outcome" where
  "pbuf_header_force h p header_size_increment = pbuf_header_impl h p header_size_increment True"

fun pbuf_free_header_loop :: "nat \<Rightarrow> heap \<Rightarrow> pptr \<Rightarrow> u16_t \<Rightarrow> (pptr \<times> heap) outcome" where
  "pbuf_free_header_loop 0 h p free_left = (if free_left \<noteq> 0 \<and> p \<noteq> None then Inl Diverge else Inr (p, h))"
| "pbuf_free_header_loop (Suc n) h p free_left =
     (if free_left \<noteq> 0 \<and> p \<noteq> None
      then bnd (pget h p) (\<lambda>b.
        if free_left \<ge> p_len b
        then let f = p; free_left = free_left - p_len b; p = p_next b
             in bnd (pupd h f (\<lambda>b. b\<lparr>p_next := None\<rparr>)) (\<lambda>h.
                bnd (pbuf_free h f) (\<lambda>(_, h). pbuf_free_header_loop n h p free_left))
        else bnd (pbuf_remove_header h p (unat free_left)) (\<lambda>(_, h). pbuf_free_header_loop n h p 0))
      else Inr (p, h))"

definition pbuf_free_header :: "heap \<Rightarrow> pptr \<Rightarrow> u16_t \<Rightarrow> (pptr \<times> heap) outcome" where
  "pbuf_free_header h q sz = pbuf_free_header_loop (fuel h) h q sz"

section \<open>Chains\<close>

fun pbuf_realloc_loop :: "nat \<Rightarrow> heap \<Rightarrow> pptr \<Rightarrow> u16_t \<Rightarrow> u16_t \<Rightarrow> (pptr \<times> u16_t \<times> heap) outcome" where
  "pbuf_realloc_loop 0 h q rem_len shrink = Inl Diverge"
| "pbuf_realloc_loop (Suc n) h q rem_len shrink =
     bnd (pget h q) (\<lambda>b.
       if rem_len > p_len b
       then let rem_len = rem_len - p_len b;
                h = pset h q (b\<lparr>p_tot_len := p_tot_len b - shrink\<rparr>);
                q = p_next b
            in lwip_assert (q \<noteq> None) (pbuf_realloc_loop n h q rem_len shrink)
       else Inr (q, rem_len, h))"

definition mem_trim :: "pptr \<Rightarrow> pptr" where
  "mem_trim q = q"

definition pbuf_realloc :: "heap \<Rightarrow> pptr \<Rightarrow> u16_t \<Rightarrow> heap outcome" where
  "pbuf_realloc h p new_len =
     lwip_assert (p \<noteq> None)
      (bnd (pget h p) (\<lambda>b.
        if new_len \<ge> p_tot_len b then Inr h
        else let shrink = p_tot_len b - new_len in
          bnd (pbuf_realloc_loop (fuel h) h p new_len shrink) (\<lambda>(q, rem_len, h).
          bnd (pget h q) (\<lambda>c.
          let q = (if pbuf_match_allocsrc c 0 \<and> rem_len \<noteq> p_len c
                        \<and> p_flags c AND PBUF_FLAG_IS_CUSTOM = 0
                   then mem_trim q else q) in
          lwip_assert (q \<noteq> None)
          (bnd (pupd h q (\<lambda>c. c\<lparr>p_len := rem_len, p_tot_len := rem_len\<rparr>)) (\<lambda>h.
          bnd (if p_next c \<noteq> None then pbuf_free h (p_next c) else Inr (0, h)) (\<lambda>(_, h).
          pupd h q (\<lambda>c. c\<lparr>p_next := None\<rparr>))))))))"

fun pbuf_clen_loop :: "nat \<Rightarrow> heap \<Rightarrow> pptr \<Rightarrow> u16_t \<Rightarrow> u16_t outcome" where
  "pbuf_clen_loop n h None len = Inr len"
| "pbuf_clen_loop 0 h (Some a) len = Inl Diverge"
| "pbuf_clen_loop (Suc n) h (Some a) len = bnd (pget h (Some a)) (\<lambda>b. pbuf_clen_loop n h (p_next b) (len + 1))"

definition pbuf_clen :: "heap \<Rightarrow> pptr \<Rightarrow> u16_t outcome" where
  "pbuf_clen h p = pbuf_clen_loop (fuel h) h p 0"

text \<open>The loop of \<^verbatim>\<open>pbuf_cat\<close>; it returns the last pbuf of the first chain.\<close>

fun pbuf_cat_loop :: "nat \<Rightarrow> heap \<Rightarrow> pptr \<Rightarrow> pptr \<Rightarrow> (pptr \<times> heap) outcome" where
  "pbuf_cat_loop 0 h p t = Inl Diverge"
| "pbuf_cat_loop (Suc n) h p t =
     bnd (pget h p) (\<lambda>b.
       if p_next b \<noteq> None
       then bnd (pget h t) (\<lambda>c.
            pbuf_cat_loop n (pset h p (b\<lparr>p_tot_len := p_tot_len b + p_tot_len c\<rparr>)) (p_next b) t)
       else Inr (p, h))"

definition pbuf_cat :: "heap \<Rightarrow> pptr \<Rightarrow> pptr \<Rightarrow> heap outcome" where
  "pbuf_cat h hp t =
     lwip_assert (hp \<noteq> None \<and> t \<noteq> None)
      (bnd (pbuf_cat_loop (fuel h) h hp t) (\<lambda>(p, h).
       bnd (pget h p) (\<lambda>b.
       lwip_assert (p_tot_len b = p_len b)
       (lwip_assert (p_next b = None)
       (bnd (pget h t) (\<lambda>c.
       bnd (pupd h p (\<lambda>b. b\<lparr>p_tot_len := p_tot_len b + p_tot_len c\<rparr>)) (\<lambda>h.
       pupd h p (\<lambda>b. b\<lparr>p_next := t\<rparr>))))))))"

definition pbuf_chain :: "heap \<Rightarrow> pptr \<Rightarrow> pptr \<Rightarrow> heap outcome" where
  "pbuf_chain h hp t = bnd (pbuf_cat h hp t) (\<lambda>h. pbuf_ref h t)"

definition pbuf_dechain :: "heap \<Rightarrow> pptr \<Rightarrow> (pptr \<times> heap) outcome" where
  "pbuf_dechain h p =
     bnd (pget h p) (\<lambda>b.
     let q = p_next b in
     bnd (if q \<noteq> None
          then bnd (pget h q) (\<lambda>c.
               lwip_assert (int (unat (p_tot_len c)) = int (unat (p_tot_len b)) - int (unat (p_len b)))
               (bnd (pupd h q (\<lambda>c. c\<lparr>p_tot_len := p_tot_len b - p_len b\<rparr>)) (\<lambda>h.
                bnd (pupd h p (\<lambda>b. b\<lparr>p_next := None\<rparr>)) (\<lambda>h.
                bnd (pupd h p (\<lambda>b. b\<lparr>p_tot_len := p_len b\<rparr>)) (\<lambda>h.
                pbuf_free h q)))))
          else Inr (1, h)) (\<lambda>(tail_gone, h).
     bnd (pget h p) (\<lambda>b.
     lwip_assert (p_tot_len b = p_len b)
       (Inr (if tail_gone > 0 then None else q, h)))))"

section \<open>Access to the data\<close>

text \<open>
  One iteration of the loop of \<^verbatim>\<open>pbuf_copy\<close>. The offsets are of type \<^verbatim>\<open>size_t\<close> and stay below
  the lengths; a \<^verbatim>\<open>LWIP_ERROR\<close> whose condition fails aborts.
\<close>

definition pbuf_copy_no_queue :: "heap \<Rightarrow> pptr \<Rightarrow> unit outcome" where
  "pbuf_copy_no_queue h p =
     (if p \<noteq> None
      then bnd (pget h p) (\<lambda>b. if p_len b = p_tot_len b then lwip_assert (p_next b = None) (Inr ()) else Inr ())
      else Inr ())"

definition pbuf_copy_step ::
  "heap \<Rightarrow> pptr \<Rightarrow> pptr \<Rightarrow> nat \<Rightarrow> nat \<Rightarrow> (pptr \<times> pptr \<times> nat \<times> nat \<times> heap) outcome" where
  "pbuf_copy_step h p_to p_from offset_to offset_from =
     bnd (pget h p_to) (\<lambda>bt.
     bnd (pget h p_from) (\<lambda>bf.
     let len = (if unat (p_len bt) - offset_to \<ge> unat (p_len bf) - offset_from
                then unat (p_len bf) - offset_from else unat (p_len bt) - offset_to) in
     bnd (mem_read h (p_payload bf) offset_from len) (\<lambda>bs.
     bnd (mem_write h (p_payload bt) offset_to bs) (\<lambda>h.
     let offset_to = offset_to + len; offset_from = offset_from + len in
     lwip_assert (offset_to \<le> unat (p_len bt))
     (lwip_assert (offset_from \<le> unat (p_len bf))
     (let (p_from, offset_from) = (if offset_from \<ge> unat (p_len bf) then (p_next bf, 0) else (p_from, offset_from));
          to_done = (offset_to = unat (p_len bt));
          (p_to, offset_to) = (if to_done then (p_next bt, 0) else (p_to, offset_to)) in
      lwip_assert (to_done \<longrightarrow> p_to \<noteq> None \<or> p_from = None)
      (bnd (pbuf_copy_no_queue h p_from) (\<lambda>_.
       bnd (pbuf_copy_no_queue h p_to) (\<lambda>_.
       Inr (p_to, p_from, offset_to, offset_from, h))))))))))"

fun pbuf_copy_loop :: "nat \<Rightarrow> heap \<Rightarrow> pptr \<Rightarrow> pptr \<Rightarrow> nat \<Rightarrow> nat \<Rightarrow> (err_t \<times> heap) outcome" where
  "pbuf_copy_loop 0 h p_to p_from offset_to offset_from = Inl Diverge"
| "pbuf_copy_loop (Suc n) h p_to p_from offset_to offset_from =
     bnd (pbuf_copy_step h p_to p_from offset_to offset_from) (\<lambda>(p_to, p_from, offset_to, offset_from, h).
       if p_from \<noteq> None then pbuf_copy_loop n h p_to p_from offset_to offset_from
       else Inr (ERR_OK, h))"

text \<open>Every iteration moves on in one of the two chains.\<close>

definition pbuf_copy :: "heap \<Rightarrow> pptr \<Rightarrow> pptr \<Rightarrow> (err_t \<times> heap) outcome" where
  "pbuf_copy h p_to p_from =
     lwip_assert (p_to \<noteq> None \<and> p_from \<noteq> None)
      (bnd (pget h p_to) (\<lambda>bt.
       bnd (pget h p_from) (\<lambda>bf.
       lwip_assert (p_tot_len bt \<ge> p_tot_len bf)
         (pbuf_copy_loop (2 * fuel h) h p_to p_from 0 0))))"

text \<open>The loop of \<^verbatim>\<open>pbuf_copy_partial\<close> with the contents of the application's buffer.\<close>

fun pbuf_copy_partial_loop ::
  "nat \<Rightarrow> heap \<Rightarrow> pptr \<Rightarrow> bytes \<Rightarrow> u16_t \<Rightarrow> u16_t \<Rightarrow> u16_t \<Rightarrow> u16_t \<Rightarrow> (u16_t \<times> bytes) outcome" where
  "pbuf_copy_partial_loop n h None buf len offset left copied_total = Inr (copied_total, buf)"
| "pbuf_copy_partial_loop 0 h (Some a) buf len offset left copied_total =
     (if len \<noteq> 0 then Inl Diverge else Inr (copied_total, buf))"
| "pbuf_copy_partial_loop (Suc n) h (Some a) buf len offset left copied_total =
     (if len \<noteq> 0
      then bnd (pget h (Some a)) (\<lambda>b.
        if offset \<noteq> 0 \<and> offset \<ge> p_len b
        then pbuf_copy_partial_loop n h (p_next b) buf len (offset - p_len b) left copied_total
        else let buf_copy_len = p_len b - offset;
                 buf_copy_len = (if buf_copy_len > len then len else buf_copy_len) in
             bnd (mem_read h (p_payload b) (unat offset) (unat buf_copy_len)) (\<lambda>bs.
             if unat left + unat buf_copy_len \<le> length buf
             then pbuf_copy_partial_loop n h (p_next b) (patch buf (unat left) bs)
                    (len - buf_copy_len) 0 (left + buf_copy_len) (copied_total + buf_copy_len)
             else Inl Fault))
      else Inr (copied_total, buf))"

definition pbuf_copy_partial ::
  "heap \<Rightarrow> pptr \<Rightarrow> bytes option \<Rightarrow> u16_t \<Rightarrow> u16_t \<Rightarrow> (u16_t \<times> bytes) outcome" where
  "pbuf_copy_partial h buf dataptr len offset =
     lwip_assert (buf \<noteq> None)
      (case dataptr of None \<Rightarrow> Inl Abort
       | Some d \<Rightarrow> pbuf_copy_partial_loop (fuel h) h buf d len offset 0 0)"

fun pbuf_skip_loop :: "nat \<Rightarrow> heap \<Rightarrow> pptr \<Rightarrow> u16_t \<Rightarrow> (pptr \<times> u16_t) outcome" where
  "pbuf_skip_loop n h None offset_left = Inr (None, offset_left)"
| "pbuf_skip_loop 0 h (Some a) offset_left = Inl Diverge"
| "pbuf_skip_loop (Suc n) h (Some a) offset_left =
     bnd (pget h (Some a)) (\<lambda>b.
       if p_len b \<le> offset_left then pbuf_skip_loop n h (p_next b) (offset_left - p_len b)
       else Inr (Some a, offset_left))"

definition pbuf_skip_const :: "heap \<Rightarrow> pptr \<Rightarrow> u16_t \<Rightarrow> (pptr \<times> u16_t) outcome" where
  "pbuf_skip_const h q in_offset = pbuf_skip_loop (fuel h) h q in_offset"

definition pbuf_skip :: "heap \<Rightarrow> pptr \<Rightarrow> u16_t \<Rightarrow> (pptr \<times> u16_t) outcome" where
  "pbuf_skip h q in_offset = pbuf_skip_const h q in_offset"

text \<open>The result of \<^verbatim>\<open>pbuf_get_contiguous\<close>: a pointer into a pbuf, or the filled buffer, or \<^verbatim>\<open>NULL\<close>.\<close>

datatype contiguous = In_Pbuf ptr | In_Buffer bytes | Too_Short

definition pbuf_get_contiguous ::
  "heap \<Rightarrow> pptr \<Rightarrow> bytes option \<Rightarrow> nat \<Rightarrow> u16_t \<Rightarrow> u16_t \<Rightarrow> contiguous outcome" where
  "pbuf_get_contiguous h p buffer bufsize len offset =
     lwip_assert (p \<noteq> None)
      (lwip_assert (buffer \<noteq> None)
       (lwip_assert (bufsize \<ge> unat len)
        (bnd (pbuf_skip_const h p offset) (\<lambda>(q, out_offset).
         if q \<noteq> None
         then bnd (pget h q) (\<lambda>b.
           if unat (p_len b) \<ge> unat out_offset + unat len
           then Inr (In_Pbuf (ptr_add (p_payload b) (uint out_offset)))
           else bnd (pbuf_copy_partial h q buffer len out_offset) (\<lambda>(n, buf).
                if n \<noteq> len then Inr Too_Short else Inr (In_Buffer buf)))
         else Inr Too_Short))))"

fun pbuf_take_loop :: "nat \<Rightarrow> heap \<Rightarrow> pptr \<Rightarrow> bytes \<Rightarrow> nat \<Rightarrow> nat \<Rightarrow> (nat \<times> nat \<times> heap) outcome" where
  "pbuf_take_loop 0 h p dataptr total_copy_len copied_total =
     (if total_copy_len \<noteq> 0 then Inl Diverge else Inr (total_copy_len, copied_total, h))"
| "pbuf_take_loop (Suc n) h p dataptr total_copy_len copied_total =
     (if total_copy_len \<noteq> 0
      then lwip_assert (p \<noteq> None)
        (bnd (pget h p) (\<lambda>b.
         let buf_copy_len = (if total_copy_len > unat (p_len b) then unat (p_len b) else total_copy_len) in
         if copied_total + buf_copy_len \<le> length dataptr
         then bnd (mem_write h (p_payload b) 0 (take buf_copy_len (drop copied_total dataptr))) (\<lambda>h.
              pbuf_take_loop n h (p_next b) dataptr (total_copy_len - buf_copy_len) (copied_total + buf_copy_len))
         else Inl Fault))
      else Inr (total_copy_len, copied_total, h))"

definition pbuf_take :: "heap \<Rightarrow> pptr \<Rightarrow> bytes option \<Rightarrow> u16_t \<Rightarrow> (err_t \<times> heap) outcome" where
  "pbuf_take h buf dataptr len =
     lwip_assert (buf \<noteq> None)
      (case dataptr of None \<Rightarrow> Inl Abort
       | Some d \<Rightarrow> bnd (pget h buf) (\<lambda>b.
           lwip_assert (p_tot_len b \<ge> len)
            (bnd (pbuf_take_loop (fuel h) h buf d (unat len) 0) (\<lambda>(total_copy_len, copied_total, h).
             lwip_assert (total_copy_len = 0 \<and> copied_total = unat len) (Inr (ERR_OK, h))))))"

definition pbuf_take_at :: "heap \<Rightarrow> pptr \<Rightarrow> bytes option \<Rightarrow> u16_t \<Rightarrow> u16_t \<Rightarrow> (err_t \<times> heap) outcome" where
  "pbuf_take_at h buf dataptr len offset =
     bnd (pbuf_skip h buf offset) (\<lambda>(q, target_offset).
       case q of None \<Rightarrow> Inr (ERR_MEM, h)
       | Some _ \<Rightarrow> bnd (pget h q) (\<lambda>b.
         if unat (p_tot_len b) \<ge> unat target_offset + unat len
         then lwip_assert (target_offset < p_len b)
           (let first_copy_len = min (p_len b - target_offset) len in
            case dataptr of
              None \<Rightarrow> if first_copy_len = 0 then Inr (ERR_OK, h) else Inl Fault
            | Some d \<Rightarrow>
                if unat first_copy_len \<le> length d
                then bnd (mem_write h (p_payload b) (unat target_offset) (take (unat first_copy_len) d)) (\<lambda>h.
                     let remaining_len = len - first_copy_len; src_ptr = drop (unat first_copy_len) d in
                     if remaining_len > 0 then pbuf_take h (p_next b) (Some src_ptr) remaining_len
                     else Inr (ERR_OK, h))
                else Inl Fault)
         else Inr (ERR_MEM, h)))"

definition pbuf_clone :: "heap \<Rightarrow> pbuf_layer \<Rightarrow> pbuf_type \<Rightarrow> pptr \<Rightarrow> (pptr \<times> heap) outcome" where
  "pbuf_clone h layer ty p =
     bnd (pget h p) (\<lambda>b.
     bnd (pbuf_alloc h layer (p_tot_len b) ty) (\<lambda>(q, h).
       if q = None then Inr (None, h)
       else bnd (pbuf_copy h q p) (\<lambda>(err, h). lwip_assert (err = ERR_OK) (Inr (q, h)))))"

definition pbuf_coalesce :: "heap \<Rightarrow> pptr \<Rightarrow> pbuf_layer \<Rightarrow> (pptr \<times> heap) outcome" where
  "pbuf_coalesce h p layer =
     bnd (pget h p) (\<lambda>b.
       if p_next b = None then Inr (p, h)
       else bnd (pbuf_clone h layer PBUF_RAM p) (\<lambda>(q, h).
            if q = None then Inr (p, h)
            else bnd (pbuf_free h p) (\<lambda>(_, h). Inr (q, h))))"

definition pbuf_try_get_at :: "heap \<Rightarrow> pptr \<Rightarrow> u16_t \<Rightarrow> int outcome" where
  "pbuf_try_get_at h p offset =
     bnd (pbuf_skip_const h p offset) (\<lambda>(q, q_idx).
       case q of None \<Rightarrow> Inr (-1)
       | Some _ \<Rightarrow> bnd (pget h q) (\<lambda>b.
           if p_len b > q_idx
           then bnd (mem_read h (p_payload b) (unat q_idx) 1) (\<lambda>bs. bnd (deref bs) (\<lambda>x. Inr (uint x)))
           else Inr (-1)))"

definition pbuf_get_at :: "heap \<Rightarrow> pptr \<Rightarrow> u16_t \<Rightarrow> u8_t outcome" where
  "pbuf_get_at h p offset =
     bnd (pbuf_try_get_at h p offset) (\<lambda>ret. Inr (if ret \<ge> 0 then word_of_int ret else 0))"

definition pbuf_put_at :: "heap \<Rightarrow> pptr \<Rightarrow> u16_t \<Rightarrow> u8_t \<Rightarrow> heap outcome" where
  "pbuf_put_at h p offset data =
     bnd (pbuf_skip h p offset) (\<lambda>(q, q_idx).
       case q of None \<Rightarrow> Inr h
       | Some _ \<Rightarrow> bnd (pget h q) (\<lambda>b.
           if p_len b > q_idx then mem_write h (p_payload b) (unat q_idx) [data] else Inr h))"

text \<open>The comparison loop of \<^verbatim>\<open>pbuf_memcmp\<close>, for \<open>i\<close> up to \<open>n\<close>.\<close>

function pbuf_memcmp_loop :: "heap \<Rightarrow> pptr \<Rightarrow> u16_t \<Rightarrow> bytes \<Rightarrow> u16_t \<Rightarrow> u16_t \<Rightarrow> u16_t outcome" where
  "pbuf_memcmp_loop h q start s2 n i =
     (if i < n
      then (case pbuf_get_at h q (start + i) of Inl e \<Rightarrow> Inl e
        | Inr a \<Rightarrow> (case buf_get s2 (unat i) of Inl e \<Rightarrow> Inl e
          | Inr b \<Rightarrow> if a \<noteq> b then Inr (of_nat (min (unat i + 1) 0xFFFF))
                     else pbuf_memcmp_loop h q start s2 n (i + 1)))
      else Inr 0)"
  by auto

termination
  by (relation "measure (\<lambda>(h, q, start, s2, n, i). unat n - unat i)")
    (auto simp: unat_Suc_word word_less_nat_alt)

declare pbuf_memcmp_loop.simps [simp del]

definition pbuf_memcmp :: "heap \<Rightarrow> pptr \<Rightarrow> u16_t \<Rightarrow> bytes \<Rightarrow> u16_t \<Rightarrow> u16_t outcome" where
  "pbuf_memcmp h p offset s2 n =
     bnd (pget h p) (\<lambda>b.
       if unat (p_tot_len b) < unat offset + unat n then Inr 0xffff
       else bnd (pbuf_skip_loop (fuel h) h p offset) (\<lambda>(q, start). pbuf_memcmp_loop h q start s2 n 0))"

text \<open>
  The search loop of \<^verbatim>\<open>pbuf_memfind\<close>: \<open>i\<close> is a \<^verbatim>\<open>u16_t\<close>, and \<^verbatim>\<open>i++\<close> wraps after 0xFFFF. The
  fuel allows for every value of \<open>i\<close> once.
\<close>

fun pbuf_memfind_loop :: "nat \<Rightarrow> heap \<Rightarrow> pptr \<Rightarrow> bytes \<Rightarrow> u16_t \<Rightarrow> u16_t \<Rightarrow> u16_t \<Rightarrow> u16_t outcome" where
  "pbuf_memfind_loop 0 h p mm mem_len max_cmp_start i = Inl Diverge"
| "pbuf_memfind_loop (Suc k) h p mm mem_len max_cmp_start i =
     (if i \<le> max_cmp_start
      then bnd (pbuf_memcmp h p i mm mem_len) (\<lambda>plus.
           if plus = 0 then Inr i else pbuf_memfind_loop k h p mm mem_len max_cmp_start (i + 1))
      else Inr 0xFFFF)"

definition pbuf_memfind :: "heap \<Rightarrow> pptr \<Rightarrow> bytes \<Rightarrow> u16_t \<Rightarrow> u16_t \<Rightarrow> u16_t outcome" where
  "pbuf_memfind h p mm mem_len start_offset =
     bnd (pget h p) (\<lambda>b.
       let max_cmp_start = p_tot_len b - mem_len in
       if unat (p_tot_len b) \<ge> unat mem_len + unat start_offset
       then pbuf_memfind_loop 0x10001 h p mm mem_len max_cmp_start start_offset
       else Inr 0xFFFF)"

definition pbuf_strstr :: "heap \<Rightarrow> pptr \<Rightarrow> bytes option \<Rightarrow> u16_t outcome" where
  "pbuf_strstr h p substr =
     (case substr of None \<Rightarrow> Inr 0xFFFF
      | Some s \<Rightarrow> bnd (deref s) (\<lambda>c.
          if c = 0 then Inr 0xFFFF
          else bnd (pget h p) (\<lambda>b.
            if p_tot_len b = 0xFFFF then Inr 0xFFFF
            else bnd (c_strlen s) (\<lambda>substr_len.
              if substr_len \<ge> 0xFFFF then Inr 0xFFFF
              else pbuf_memfind h p s (of_nat substr_len) 0))))"

text \<open>
  \<^verbatim>\<open>pbuf_fill_chksum\<close>: \<open>addr_odd\<close> tells which addresses are odd; the last component of the
  arguments and of the result is \<^verbatim>\<open>*chksum\<close>.
\<close>

definition pbuf_fill_chksum ::
  "(ptr \<Rightarrow> bool) \<Rightarrow> heap \<Rightarrow> pptr \<Rightarrow> u16_t \<Rightarrow> bytes option \<Rightarrow> u16_t \<Rightarrow> u16_t \<Rightarrow> (err_t \<times> u16_t \<times> heap) outcome" where
  "pbuf_fill_chksum addr_odd h p start_offset dataptr len chksum =
     lwip_assert (p \<noteq> None)
      (case dataptr of None \<Rightarrow> Inl Abort
       | Some d \<Rightarrow> lwip_assert (len \<noteq> 0)
          (bnd (pget h p) (\<lambda>b.
           if start_offset \<ge> p_len b \<or> unat start_offset + unat len > unat (p_len b)
           then Inr (ERR_ARG, chksum, h)
           else if unat len \<le> length d
           then bnd (mem_read h (p_payload b) (unat start_offset) (unat len)) (\<lambda>dst.
                bnd (lwip_chksum_copy (addr_odd (ptr_add (p_payload b) (uint start_offset))) dst (take (unat len) d))
                  (\<lambda>(dst, copy_chksum).
                bnd (mem_write h (p_payload b) (unat start_offset) dst) (\<lambda>h.
                let copy_chksum = (if start_offset AND 1 \<noteq> 0
                                   then ucast (SWAP_BYTES_IN_WORD (ucast copy_chksum)) else copy_chksum);
                    acc = ucast chksum :: u32_t;
                    acc = acc + ucast copy_chksum
                in Inr (ERR_OK, ucast (FOLD_U32T acc), h))))
           else Inl Fault)))"

end
