(* ===== verification/Pbuf_Data.thy ===== *)
theory Pbuf_Data
  imports Pbuf_C
begin

text \<open>
  The data a chain of pbufs carries: reading (\<^verbatim>\<open>pbuf_skip\<close>, \<^verbatim>\<open>pbuf_copy_partial\<close>,
  \<^verbatim>\<open>pbuf_get_at\<close>, \<^verbatim>\<open>pbuf_memcmp\<close>, \<^verbatim>\<open>pbuf_memfind\<close>) and writing (\<^verbatim>\<open>pbuf_take\<close>, \<^verbatim>\<open>pbuf_take_at\<close>,
  \<^verbatim>\<open>pbuf_put_at\<close>) act on the concatenation \<open>chain_data\<close> of the payloads.
\<close>

section \<open>Reading\<close>

lemma pbuf_skip_loop_correct:
  assumes "chain_ok h p qs" and "length qs < n"
  shows "if unat off < length (chain_data h qs)
         then \<exists>us a vs k. qs = us @ a # vs \<and> pbuf_skip_loop n h p off = Inr (Some a, k)
                \<and> length (chain_data h us) + unat k = unat off \<and> unat k < unat (p_len (pb h a))
                \<and> chain_ok h (Some a) (a # vs)
         else pbuf_skip_loop n h p off = Inr (None, off - of_nat (length (chain_data h qs)))"
  using assms
proof (induction qs arbitrary: p n off)
  case Nil
  then show ?case by simp
next
  case (Cons a qs)
  then obtain b n' where b: "p = Some a" "pbufs h a = Some b" "payload_ok h a" "chain_ok h (p_next b) qs"
    and n: "n = Suc n'" "length qs < n'" by (cases n) (auto simp: chain_ok_Cons)
  have l: "length (seg h a) = unat (p_len b)" using b by (simp add: length_seg)
  show ?case
  proof (cases "p_len b \<le> off")
    case False
    then have "unat off < length (chain_data h (a # qs))" by (simp add: l word_le_nat_alt)
    moreover have "\<exists>us a' vs k. a # qs = us @ a' # vs \<and> pbuf_skip_loop n h p off = Inr (Some a', k)
                \<and> length (chain_data h us) + unat k = unat off \<and> unat k < unat (p_len (pb h a'))
                \<and> chain_ok h (Some a') (a' # vs)"
      using False b n Cons.prems(1)
      by (intro exI [of _ "[]"] exI [of _ a] exI [of _ qs] exI [of _ off]) (simp add: word_le_nat_alt)
    ultimately show ?thesis by simp
  next
    case True
    then have off: "unat (off - p_len b) = unat off - unat (p_len b)" "unat (p_len b) \<le> unat off"
      by (simp_all add: unat_sub_word word_le_nat_alt)
    have step: "pbuf_skip_loop n h p off = pbuf_skip_loop n' h (p_next b) (off - p_len b)"
      using True b n by simp
    note IH = Cons.IH [OF b(4) n(2), of "off - p_len b"]
    show ?thesis
    proof (cases "unat off < length (chain_data h (a # qs))")
      case lt: True
      then have "unat (off - p_len b) < length (chain_data h qs)" using off by (simp add: l)
      with IH obtain us a' vs k where *: "qs = us @ a' # vs"
        "pbuf_skip_loop n' h (p_next b) (off - p_len b) = Inr (Some a', k)"
        "length (chain_data h us) + unat k = unat (off - p_len b)" "unat k < unat (p_len (pb h a'))"
        "chain_ok h (Some a') (a' # vs)"
        by auto
      then have "\<exists>us a' vs k. a # qs = us @ a' # vs \<and> pbuf_skip_loop n h p off = Inr (Some a', k)
                \<and> length (chain_data h us) + unat k = unat off \<and> unat k < unat (p_len (pb h a'))
                \<and> chain_ok h (Some a') (a' # vs)"
        using off by (intro exI [of _ "a # us"] exI [of _ a'] exI [of _ vs] exI [of _ k]) (simp add: step l)
      with lt show ?thesis by simp
    next
      case False
      then have "\<not> unat (off - p_len b) < length (chain_data h qs)" using off by (simp add: l)
      with IH False show ?thesis by (simp add: step l algebra_simps)
    qed
  qed
qed

lemma pbuf_skip_correct:
  assumes "heap_ok h" and "chain_ok h p qs"
  shows "if unat off < length (chain_data h qs)
         then \<exists>us a vs k. qs = us @ a # vs \<and> pbuf_skip h p off = Inr (Some a, k)
                \<and> length (chain_data h us) + unat k = unat off \<and> unat k < unat (p_len (pb h a))
                \<and> chain_ok h (Some a) (a # vs)
         else pbuf_skip h p off = Inr (None, off - of_nat (length (chain_data h qs)))"
  unfolding pbuf_skip_def pbuf_skip_const_def
  by (rule pbuf_skip_loop_correct [OF assms(2) chain_ok_length [OF assms(2,1)]])

lemma chain_ok_payload: "chain_ok h p qs \<Longrightarrow> a \<in> set qs \<Longrightarrow> payload_ok h a"
  by (simp add: chain_ok_def)

lemma chain_ok_pbufsE:
  assumes "chain_ok h p qs" and "a \<in> set qs"
  obtains b where "pbufs h a = Some b" and "payload_ok h a" and "length (seg h a) = unat (p_len b)"
proof -
  obtain b where b: "pbufs h a = Some b"
    using path_alloced [OF chain_ok_path [OF assms(1)] assms(2)] by blast
  with chain_ok_payload [OF assms] show ?thesis by (intro that) (simp_all add: length_seg)
qed

lemma pbuf_try_get_at_correct:
  assumes "heap_ok h" and "chain_ok h p qs"
  shows "pbuf_try_get_at h p off = Inr (if unat off < length (chain_data h qs)
           then uint (chain_data h qs ! unat off) else -1)"
proof (cases "unat off < length (chain_data h qs)")
  case True
  with pbuf_skip_correct [OF assms, of off] obtain us a vs k where *: "qs = us @ a # vs"
    "pbuf_skip h p off = Inr (Some a, k)" "length (chain_data h us) + unat k = unat off"
    "unat k < unat (p_len (pb h a))" by auto
  from *(1) have "a \<in> set qs" by simp
  with assms(2) obtain b where b: "pbufs h a = Some b" "payload_ok h a" "length (seg h a) = unat (p_len b)"
    by (rule chain_ok_pbufsE)
  have k: "unat k < length (seg h a)" using *(4) b by simp
  have "chain_data h qs ! unat off = seg h a ! unat k"
    using *(1) k unfolding *(3) [symmetric] by (simp add: nth_append)
  moreover have "mem_read h (p_payload b) (unat k) 1 = Inr [seg h a ! unat k]"
    using mem_read_seg [OF b(2), of "unat k" 1] k b by (simp add: take_Suc hd_drop_conv_nth)
  moreover have "k < p_len b" using k b by (simp add: word_less_nat_alt)
  ultimately show ?thesis
    using *(2) b(1) True by (simp add: pbuf_try_get_at_def pbuf_skip_def)
next
  case False
  then show ?thesis using pbuf_skip_correct [OF assms, of off]
    by (simp add: pbuf_try_get_at_def pbuf_skip_def)
qed

lemma pbuf_get_at_correct:
  assumes "heap_ok h" and "chain_ok h p qs"
  shows "pbuf_get_at h p off
    = Inr (if unat off < length (chain_data h qs) then chain_data h qs ! unat off else 0)"
  by (simp add: pbuf_get_at_def pbuf_try_get_at_correct [OF assms])

subsection \<open>Copying out\<close>

lemma patch_append:
  assumes "i + length xs + length ys \<le> length bs"
  shows "patch (patch bs i xs) (i + length xs) ys = patch bs i (xs @ ys)"
  using assms by (cases xs) (auto simp: patch_def min_def add.commute add.left_commute)

lemma length_patch: "i + length xs \<le> length bs \<Longrightarrow> length (patch bs i xs) = length bs"
  by (simp add: patch_def)

lemma patch_Nil [simp]: "patch bs i [] = bs"
  by (simp add: patch_def)

lemma pbuf_copy_partial_loop_correct:
  assumes "chain_ok h p qs" and "length qs < n"
    and "ds = take (unat len) (drop (unat offset) (chain_data h qs))"
    and "unat left + length ds \<le> length buf" and "unat left + length ds < 65536"
  shows "pbuf_copy_partial_loop n h p buf len offset left left
    = Inr (left + of_nat (length ds), patch buf (unat left) ds)"
  using assms
proof (induction qs arbitrary: p n ds len offset left buf)
  case Nil
  then show ?case by simp
next
  case (Cons a qs)
  then obtain b n' where b: "p = Some a" "pbufs h a = Some b" "payload_ok h a" "chain_ok h (p_next b) qs"
    and n: "n = Suc n'" "length qs < n'" by (cases n) (auto simp: chain_ok_Cons)
  have l: "length (seg h a) = unat (p_len b)" using b by (simp add: length_seg)
  consider "len = 0" | "len \<noteq> 0" "offset \<noteq> 0" "p_len b \<le> offset"
    | "len \<noteq> 0" "offset = 0 \<or> offset < p_len b" by fastforce
  then show ?case
  proof cases
    case 1
    then show ?thesis using Cons.prems b n by simp
  next
    case 2
    then have off: "unat (offset - p_len b) = unat offset - unat (p_len b)" "unat (p_len b) \<le> unat offset"
      by (simp_all add: unat_sub_word word_le_nat_alt)
    then have "ds = take (unat len) (drop (unat (offset - p_len b)) (chain_data h qs))"
      using Cons.prems(3) by (simp add: l)
    then have "pbuf_copy_partial_loop n' h (p_next b) buf len (offset - p_len b) left left
        = Inr (left + of_nat (length ds), patch buf (unat left) ds)"
      using Cons.IH b n Cons.prems by blast
    with 2 b n show ?thesis by simp
  next
    case 3
    then have le: "unat offset \<le> unat (p_len b)" by (auto simp: word_less_nat_alt)
    define c where "c = (if p_len b - offset > len then len else p_len b - offset)"
    have c: "unat c = min (unat len) (unat (p_len b) - unat offset)"
      using le by (auto simp: c_def unat_sub_word word_less_nat_alt word_le_nat_alt)
    have cl: "unat (len - c) = unat len - unat c"
      using c by (simp add: unat_sub_word word_le_nat_alt)
    define xs where "xs = take (unat c) (drop (unat offset) (seg h a))"
    define ys where "ys = take (unat (len - c)) (chain_data h qs)"
    have xs: "length xs = unat c" using c le l by (simp add: xs_def)
    have ds: "ds = xs @ ys"
    proof -
      have "drop (unat offset) (chain_data h (a # qs)) = drop (unat offset) (seg h a) @ chain_data h qs"
        using le by (simp add: l)
      then have "ds = take (unat len) (drop (unat offset) (seg h a)) @ take (unat len - (unat (p_len b) - unat offset)) (chain_data h qs)"
        using Cons.prems(3) by (simp add: l)
      moreover have "take (unat len) (drop (unat offset) (seg h a)) = xs"
        using c by (auto simp: xs_def l min_def)
      moreover have "unat len - (unat (p_len b) - unat offset) = unat (len - c)"
        using c cl by (simp add: min_def)
      ultimately show ?thesis by (simp add: ys_def)
    qed
    have lc: "unat (left + c) = unat left + unat c"
      using Cons.prems(5) ds xs by (intro unat_add_no_wrap_16) simp
    have "pbuf_copy_partial_loop n' h (p_next b) (patch buf (unat left) xs) (len - c) 0 (left + c) (left + c)
        = Inr (left + c + of_nat (length ys), patch (patch buf (unat left) xs) (unat (left + c)) ys)"
    proof (rule Cons.IH [OF b(4) n(2)])
      show "ys = take (unat (len - c)) (drop (unat 0) (chain_data h qs))" by (simp add: ys_def)
      have "length ds = unat c + length ys" using ds xs by simp
      then show "unat (left + c) + length ys \<le> length (patch buf (unat left) xs)"
        "unat (left + c) + length ys < 65536"
        using Cons.prems(4,5) by (simp_all add: lc xs length_patch)
    qed
    moreover have "patch (patch buf (unat left) xs) (unat (left + c)) ys = patch buf (unat left) ds"
      using patch_append [of "unat left" xs ys buf] Cons.prems(4) ds xs lc by (simp add: add.assoc)
    moreover have "c + of_nat (length ys) = (of_nat (length ds) :: u16_t)"
      using xs by (simp add: ds)
    moreover have "mem_read h (p_payload b) (unat offset) (unat c) = Inr xs"
      using mem_read_seg [OF b(3), of "unat offset" "unat c"] b c le by (simp add: xs_def)
    moreover have "unat left + unat c \<le> length buf" using Cons.prems(4) ds xs by simp
    moreover have "\<not> (offset \<noteq> 0 \<and> p_len b \<le> offset)" using 3 by (auto simp: not_le)
    ultimately show ?thesis
      using 3 b n by (auto simp: c_def [symmetric] Let_def add.assoc)
  qed
qed

lemma pbuf_copy_partial_data:
  assumes "heap_ok h" and "chain_ok h (Some a) qs"
    and "ds = take (unat len) (drop (unat offset) (chain_data h qs))" and "length ds \<le> length buf"
  shows "pbuf_copy_partial h (Some a) (Some buf) len offset = Inr (of_nat (length ds), ds @ drop (length ds) buf)"
proof -
  have "length ds \<le> unat len" using assms(3) by simp
  then have "length ds < 65536" using unat_lt_16 [of len] by linarith
  then show ?thesis
    using pbuf_copy_partial_loop_correct [OF assms(2) chain_ok_length [OF assms(2,1)] assms(3), of 0 buf] assms(4)
    by (simp add: pbuf_copy_partial_def patch_def)
qed

subsection \<open>Comparing and searching\<close>

text \<open>The result \<^verbatim>\<open>pbuf_memcmp\<close> promises: 0, or one more than the index of the first difference.\<close>

fun first_diff :: "bytes \<Rightarrow> bytes \<Rightarrow> nat option" where
  "first_diff (x # xs) (y # ys) = (if x = y then map_option Suc (first_diff xs ys) else Some 0)"
| "first_diff _ _ = None"

lemma first_diff_None_iff: "length xs = length ys \<Longrightarrow> first_diff xs ys = None \<longleftrightarrow> xs = ys"
  by (induction xs ys rule: first_diff.induct) auto

lemma first_diff_less: "first_diff xs ys = Some j \<Longrightarrow> j < length ys"
  by (induction xs ys arbitrary: j rule: first_diff.induct) (auto split: if_splits)

lemma pbuf_memcmp_loop_correct:
  assumes "heap_ok h" and "chain_ok h q qs" and "length s2 = unat n"
    and "unat start + unat n \<le> length (chain_data h qs)" and "length (chain_data h qs) < 65536" and "i \<le> n"
  shows "pbuf_memcmp_loop h q start s2 n i
    = Inr (case first_diff (drop (unat i) (take (unat n) (drop (unat start) (chain_data h qs)))) (drop (unat i) s2) of
             None \<Rightarrow> 0 | Some j \<Rightarrow> of_nat (min (unat i + j + 1) 0xFFFF))"
  using assms(6)
proof (induction "unat n - unat i" arbitrary: i)
  case 0
  then have "i = n" by (simp add: word_le_nat_alt word_unat_eq_iff)
  then show ?case by (subst pbuf_memcmp_loop.simps) (simp add: assms(3))
next
  case (Suc m)
  let ?xs = "take (unat n) (drop (unat start) (chain_data h qs))"
  have lt: "unat i < unat n" using Suc(2) by simp
  then have i1: "unat (i + 1) = Suc (unat i)" by (intro unat_Suc_word) (simp add: word_less_nat_alt)
  have xs: "drop (unat i) ?xs = ?xs ! unat i # drop (Suc (unat i)) ?xs"
    using lt assms(4) by (intro Cons_nth_drop_Suc [symmetric]) simp
  have ys: "drop (unat i) s2 = s2 ! unat i # drop (Suc (unat i)) s2"
    using lt assms(3) by (intro Cons_nth_drop_Suc [symmetric]) simp
  have si: "unat (start + i) = unat start + unat i"
    using lt assms(4,5) by (intro unat_add_no_wrap_16) simp
  have get: "pbuf_get_at h q (start + i) = Inr (?xs ! unat i)"
    using lt assms(4) by (simp add: pbuf_get_at_correct [OF assms(1,2)] si)
  have IH: "pbuf_memcmp_loop h q start s2 n (i + 1)
      = Inr (case first_diff (drop (Suc (unat i)) ?xs) (drop (Suc (unat i)) s2) of
             None \<Rightarrow> 0 | Some j \<Rightarrow> of_nat (min (Suc (unat i) + j + 1) 0xFFFF))"
    using Suc(1) [of "i + 1"] Suc(2) lt i1 by (simp add: word_le_nat_alt split: option.split)
  show ?case
  proof (cases "?xs ! unat i = s2 ! unat i")
    case True
    have "pbuf_memcmp_loop h q start s2 n i = pbuf_memcmp_loop h q start s2 n (i + 1)"
      using lt assms(3) True get by (subst pbuf_memcmp_loop.simps) (simp add: word_less_nat_alt)
    also note IH
    also have "(case first_diff (drop (Suc (unat i)) ?xs) (drop (Suc (unat i)) s2) of
             None \<Rightarrow> 0 | Some j \<Rightarrow> of_nat (min (Suc (unat i) + j + 1) 0xFFFF))
        = (case first_diff (drop (unat i) ?xs) (drop (unat i) s2) of
             None \<Rightarrow> (0 :: u16_t) | Some j \<Rightarrow> of_nat (min (unat i + j + 1) 0xFFFF))"
      unfolding xs ys using True by (simp split: option.split)
    finally show ?thesis .
  next
    case False
    have "pbuf_memcmp_loop h q start s2 n i = Inr (of_nat (min (unat i + 1) 0xFFFF))"
      using lt assms(3) False get by (subst pbuf_memcmp_loop.simps) (simp add: word_less_nat_alt)
    then show ?thesis unfolding xs ys using False by simp
  qed
qed

lemma pbuf_memcmp_loop_0:
  assumes "heap_ok h" and "chain_ok h q qs" and "length s2 = unat n"
    and "unat start + unat n \<le> length (chain_data h qs)" and "length (chain_data h qs) < 65536"
  shows "pbuf_memcmp_loop h q start s2 n 0
    = Inr (case first_diff (take (unat n) (drop (unat start) (chain_data h qs))) s2 of
             None \<Rightarrow> 0 | Some j \<Rightarrow> of_nat (min (j + 1) 0xFFFF))"
  using pbuf_memcmp_loop_correct [OF assms, of 0] by (simp split: option.split)

lemma chain_ok_suffix:
  assumes "chain_ok h p (us @ qs)" and "qs \<noteq> []"
  shows "chain_ok h (Some (hd qs)) qs"
  using assms by (induction us arbitrary: p) (auto simp: chain_ok_Cons neq_Nil_conv)

lemma chain_ok_data_lt: "chain_ok h p qs \<Longrightarrow> length (chain_data h qs) < 65536"
proof (cases qs)
  case (Cons a rs)
  moreover assume ok: "chain_ok h p qs"
  ultimately have "p = Some a" by (simp add: chain_ok_Cons)
  with ok chain_ok_tot_len [of h a qs] show ?thesis
    using unat_lt_16 [of "p_tot_len (pb h a)"] by metis
qed simp

lemma pbuf_memcmp_correct:
  assumes "heap_ok h" and "chain_ok h (Some a) qs" and "length s2 = unat n"
  shows "pbuf_memcmp h (Some a) offset s2 n
    = Inr (if length (chain_data h qs) < unat offset + unat n then 0xffff
           else case first_diff (take (unat n) (drop (unat offset) (chain_data h qs))) s2 of
                  None \<Rightarrow> 0 | Some j \<Rightarrow> of_nat (min (j + 1) 0xFFFF))"
proof (cases "length (chain_data h qs) < unat offset + unat n")
  case True
  then show ?thesis using assms(2) chain_ok_tot_len [OF assms(2)]
    by (auto simp: pbuf_memcmp_def chain_ok_Some)
next
  case False
  let ?d = "chain_data h qs"
  note lt = chain_ok_data_lt [OF assms(2)]
  have tot: "\<exists>b. pbufs h a = Some b \<and> unat (p_tot_len b) = length ?d"
    using assms(2) chain_ok_tot_len [OF assms(2)] by (auto simp: chain_ok_Some)
  note skip = pbuf_skip_loop_correct [OF assms(2) chain_ok_length [OF assms(2,1)], of offset]
  show ?thesis
  proof (cases "unat offset < length ?d")
    case True
    with skip obtain us c vs k where *: "qs = us @ c # vs" "pbuf_skip_loop (fuel h) h (Some a) offset = Inr (Some c, k)"
      "length (chain_data h us) + unat k = unat offset" "chain_ok h (Some c) (c # vs)" by auto
    have d: "drop (unat offset) ?d = drop (unat k) (chain_data h (c # vs))"
      using *(1) unfolding *(3) [symmetric] by simp
    have "length ?d = length (chain_data h us) + length (chain_data h (c # vs))"
      using *(1) by simp
    then have le: "unat k + unat n \<le> length (chain_data h (c # vs))"
      using False *(3) by linarith
    show ?thesis
      using tot False *(2) pbuf_memcmp_loop_0 [OF assms(1) *(4) assms(3) le chain_ok_data_lt [OF *(4)]]
      by (auto simp: pbuf_memcmp_def d)
  next
    case no: False
    then have "unat n = 0" using False by linarith
    then have n0: "n = 0" "s2 = []" using assms(3) by (simp_all add: unat_eq_zero)
    from no skip have "pbuf_skip_loop (fuel h) h (Some a) offset = Inr (None, offset - of_nat (length ?d))" by simp
    moreover have "pbuf_memcmp_loop h None s [] 0 0 = Inr 0" for s
      by (subst pbuf_memcmp_loop.simps) simp
    ultimately show ?thesis using tot False n0 by (auto simp: pbuf_memcmp_def)
  qed
qed

text \<open>\<open>occurs d m i\<close>: the bytes \<open>m\<close> stand in \<open>d\<close> at index \<open>i\<close>.\<close>

definition occurs :: "bytes \<Rightarrow> bytes \<Rightarrow> nat \<Rightarrow> bool" where
  "occurs d m i \<longleftrightarrow> i + length m \<le> length d \<and> take (length m) (drop i d) = m"

lemma pbuf_memcmp_0_iff:
  assumes "heap_ok h" and "chain_ok h (Some a) qs" and "length s2 = unat n"
  shows "\<exists>r. pbuf_memcmp h (Some a) i s2 n = Inr r \<and> (r = 0 \<longleftrightarrow> occurs (chain_data h qs) s2 (unat i))"
proof (cases "length (chain_data h qs) < unat i + unat n")
  case True
  then show ?thesis using assms(3) by (simp add: pbuf_memcmp_correct [OF assms] occurs_def)
next
  case False
  let ?xs = "take (unat n) (drop (unat i) (chain_data h qs))"
  have len: "length ?xs = length s2" using False assms(3) by simp
  show ?thesis
  proof (cases "first_diff ?xs s2")
    case None
    with len have "?xs = s2" by (simp only: first_diff_None_iff)
    with None False assms(3) show ?thesis by (simp add: pbuf_memcmp_correct [OF assms] occurs_def)
  next
    case (Some j)
    with first_diff_None_iff [OF len] have "?xs \<noteq> s2" by simp
    moreover have "(of_nat (min (j + 1) 0xFFFF) :: u16_t) \<noteq> 0"
    proof -
      have "unat (of_nat (min (j + 1) 0xFFFF) :: u16_t) = min (j + 1) 0xFFFF"
        by (subst unat_of_nat) simp
      then show ?thesis by fastforce
    qed
    ultimately show ?thesis using Some False assms(3) by (simp add: pbuf_memcmp_correct [OF assms] occurs_def)
  qed
qed

lemma pbuf_memfind_loop_correct:
  assumes "heap_ok h" and "chain_ok h (Some a) qs" and "length m = unat mem_len"
    and "unat mem_len \<le> length (chain_data h qs)" and "unat mx = length (chain_data h qs) - unat mem_len"
    and "unat i + k > unat mx + 1" and "unat i \<le> unat mx + 1"
  shows "(\<exists>r. pbuf_memfind_loop k h (Some a) m mem_len mx i = Inr r \<and> unat i \<le> unat r
            \<and> occurs (chain_data h qs) m (unat r) \<and> (\<forall>j\<in>{unat i..<unat r}. \<not> occurs (chain_data h qs) m j))
       \<or> pbuf_memfind_loop k h (Some a) m mem_len mx i = Inr 0xFFFF
            \<and> (\<forall>j\<ge>unat i. \<not> occurs (chain_data h qs) m j)"
  using assms(6,7)
proof (induction k arbitrary: i)
  case (Suc k)
  let ?o = "occurs (chain_data h qs) m"
  have bound: "j \<le> unat mx" if "?o j" for j
    using that assms(3,4,5) unfolding occurs_def by linarith
  show ?case
  proof (cases "i \<le> mx")
    case False
    then have "\<forall>j\<ge>unat i. \<not> ?o j" using bound by (force simp: word_le_nat_alt)
    with False show ?thesis by simp
  next
    case True
    obtain r where r: "pbuf_memcmp h (Some a) i m mem_len = Inr r" "r = 0 \<longleftrightarrow> ?o (unat i)"
      using pbuf_memcmp_0_iff [OF assms(1-3)] by blast
    show ?thesis
    proof (cases "?o (unat i)")
      case yes: True
      with r True show ?thesis by simp
    next
      case no: False
      then have "mem_len \<noteq> 0" using True assms(3-5) by (auto simp: occurs_def word_le_nat_alt)
      then have "unat mem_len > 0" by (simp add: unat_gt_0)
      then have i1: "unat (i + 1) = Suc (unat i)"
        using True assms(4,5) chain_ok_data_lt [OF assms(2)]
        by (simp add: unat_add_16 word_le_nat_alt)
      have rest: "\<forall>j\<ge>unat i. P j" if "P (unat i)" "\<forall>j\<ge>unat (i + 1). P j" for P
        using that i1 by (metis Suc_leI le_neq_implies_less)
      have step: "pbuf_memfind_loop (Suc k) h (Some a) m mem_len mx i
          = pbuf_memfind_loop k h (Some a) m mem_len mx (i + 1)"
        using True r no by simp
      have "unat (i + 1) + k > unat mx + 1" "unat (i + 1) \<le> unat mx + 1"
        using Suc.prems True i1 by (simp_all add: word_le_nat_alt)
      from Suc.IH [OF this] show ?thesis
      proof
        assume "\<exists>r. pbuf_memfind_loop k h (Some a) m mem_len mx (i + 1) = Inr r \<and> unat (i + 1) \<le> unat r
            \<and> ?o (unat r) \<and> (\<forall>j\<in>{unat (i + 1)..<unat r}. \<not> ?o j)"
        then obtain r where "pbuf_memfind_loop k h (Some a) m mem_len mx (i + 1) = Inr r" "unat (i + 1) \<le> unat r"
          "?o (unat r)" and *: "\<forall>j\<in>{unat (i + 1)..<unat r}. \<not> ?o j" by blast
        moreover have "\<forall>j\<in>{unat i..<unat r}. \<not> ?o j"
          using * no i1 by (metis Suc_leI atLeastLessThan_iff le_neq_implies_less)
        ultimately show ?thesis using step i1 by auto
      next
        assume "pbuf_memfind_loop k h (Some a) m mem_len mx (i + 1) = Inr 0xFFFF
            \<and> (\<forall>j\<ge>unat (i + 1). \<not> ?o j)"
        then show ?thesis using step rest [of "\<lambda>j. \<not> ?o j"] no by simp
      qed
    qed
  qed
qed simp

text \<open>
  \<^verbatim>\<open>pbuf_memfind\<close> returns the first position from \<open>start\<close> on at which the packet contains the
  searched bytes, and 0xFFFF exactly when there is none.
\<close>

theorem pbuf_memfind_correct:
  assumes "heap_ok h" and "chain_ok h (Some a) qs" and "length m = unat mem_len"
  shows "\<exists>r. pbuf_memfind h (Some a) m mem_len start = Inr r
      \<and> (if \<exists>j\<ge>unat start. occurs (chain_data h qs) m j
         then unat r = (LEAST j. unat start \<le> j \<and> occurs (chain_data h qs) m j)
         else r = 0xFFFF)"
proof -
  let ?o = "occurs (chain_data h qs) m"
  obtain b where b: "pbufs h a = Some b" "unat (p_tot_len b) = length (chain_data h qs)"
    using assms(2) chain_ok_tot_len [OF assms(2)] by (auto simp: chain_ok_Some)
  show ?thesis
  proof (cases "length (chain_data h qs) \<ge> unat mem_len + unat start")
    case False
    then have "\<not> (\<exists>j\<ge>unat start. ?o j)" using assms(3) by (auto simp: occurs_def)
    with False b show ?thesis by (auto simp: pbuf_memfind_def)
  next
    case True
    let ?mx = "p_tot_len b - mem_len"
    have mx: "unat ?mx = length (chain_data h qs) - unat mem_len"
      using True b by (simp add: unat_sub_word word_le_nat_alt)
    have eq: "pbuf_memfind h (Some a) m mem_len start = pbuf_memfind_loop 65537 h (Some a) m mem_len ?mx start"
      using True b by (simp add: pbuf_memfind_def)
    have "unat start + 65537 > unat ?mx + 1" using unat_lt_16 [of ?mx] by linarith
    moreover have "unat start \<le> unat ?mx + 1" using True mx by simp
    ultimately consider r where "pbuf_memfind_loop 65537 h (Some a) m mem_len ?mx start = Inr r" "unat start \<le> unat r"
        "?o (unat r)" "\<forall>j\<in>{unat start..<unat r}. \<not> ?o j"
      | "pbuf_memfind_loop 65537 h (Some a) m mem_len ?mx start = Inr 0xFFFF" "\<forall>j\<ge>unat start. \<not> ?o j"
      using pbuf_memfind_loop_correct [OF assms _ mx, of start 65537] True by fastforce
    then show ?thesis
    proof cases
      case (1 r)
      then have "(LEAST j. unat start \<le> j \<and> ?o j) = unat r"
        by (intro Least_equality) (auto simp: not_less [symmetric])
      with 1 eq show ?thesis by auto
    next
      case 2
      then show ?thesis using eq by auto
    qed
  qed
qed

section \<open>Writing\<close>

text \<open>The object a pbuf's data lies in; the payloads of a chain to be written are in distinct objects.\<close>

definition block :: "heap \<Rightarrow> nat \<Rightarrow> nat option" where
  "block h a = (if p_len (pb h a) = 0 then None else map_option fst (p_payload (pb h a)))"

definition separate :: "heap \<Rightarrow> nat list \<Rightarrow> bool" where
  "separate h qs \<longleftrightarrow> distinct (filter (\<lambda>k. k \<noteq> None) (map (block h) qs))"

lemma separate_Cons: "separate h (a # qs) \<longleftrightarrow>
    (block h a \<noteq> None \<longrightarrow> block h a \<notin> block h ` set qs) \<and> separate h qs"
  by (auto simp: separate_def)

lemma mem_upd_simps [simp]:
  "pget (h\<lparr>mem := m\<rparr>) p = pget h p" "pb (h\<lparr>mem := m\<rparr>) a = pb h a" "fuel (h\<lparr>mem := m\<rparr>) = fuel h"
  by (simp_all add: pget_def pb_def fuel_def split: option.splits)

lemma block_mem_upd [simp]: "block (h\<lparr>mem := m\<rparr>) = block h"
  by (rule ext) (simp add: block_def)

lemma separate_mem_upd [simp]: "separate (h\<lparr>mem := m\<rparr>) qs = separate h qs"
  by (simp add: separate_def)

lemma path_mem_upd [simp]: "path (h\<lparr>mem := m\<rparr>) p qs = path h p qs"
  by (rule path_cong) simp

lemma tots_mem_upd [simp]: "tots (h\<lparr>mem := m\<rparr>) qs = tots h qs"
  by (induction qs) simp_all

text \<open>Two memories with the same objects of the same sizes.\<close>

definition same_shape :: "(nat \<Rightarrow> bytes option) \<Rightarrow> (nat \<Rightarrow> bytes option) \<Rightarrow> bool" where
  "same_shape m m' \<longleftrightarrow> (\<forall>k. map_option length (m' k) = map_option length (m k))"

lemma same_shape_refl [simp]: "same_shape m m"
  by (simp add: same_shape_def)

lemma same_shape_trans [trans]: "same_shape m m1 \<Longrightarrow> same_shape m1 m2 \<Longrightarrow> same_shape m m2"
  by (simp add: same_shape_def)

lemma same_shape_upd: "m k = Some bs \<Longrightarrow> length bs' = length bs \<Longrightarrow> same_shape m (m(k \<mapsto> bs'))"
  by (simp add: same_shape_def)

lemma same_shape_cases:
  assumes "same_shape m m'"
  obtains "m k = None" "m' k = None"
    | bs bs' where "m k = Some bs" "m' k = Some bs'" "length bs' = length bs"
  using assms unfolding same_shape_def by (cases "m k"; cases "m' k") (force dest: spec [of _ k])+

lemma payload_ok_shape [simp]:
  assumes "same_shape (mem h) m"
  shows "payload_ok (h\<lparr>mem := m\<rparr>) a = payload_ok h a"
proof (cases "p_payload (pb h a)")
  case (Some d)
  obtain k i where "d = (k, i)" by fastforce
  with Some show ?thesis
    by (cases rule: same_shape_cases [OF assms, of k]) (simp_all add: payload_ok_def)
qed (simp add: payload_ok_def)

lemma same_shape_None: "same_shape m m' \<Longrightarrow> m' k = None \<longleftrightarrow> m k = None"
  by (erule same_shape_cases [of _ _ k]) auto

lemma chain_ok_shape [simp]: "same_shape (mem h) m \<Longrightarrow> chain_ok (h\<lparr>mem := m\<rparr>) p qs = chain_ok h p qs"
  by (simp add: chain_ok_def)

lemma heap_ok_shape [simp]: "same_shape (mem h) m \<Longrightarrow> heap_ok (h\<lparr>mem := m\<rparr>) = heap_ok h"
  by (simp add: heap_ok_def same_shape_None del: not_None_eq)

lemma patch_take_drop:
  assumes "off + length xs \<le> n" and "i + n \<le> length bs"
  shows "take n (drop i (patch bs (i + off) xs)) = patch (take n (drop i bs)) off xs"
proof -
  have "take n (drop i (patch bs (i + off) xs))
      = take off (drop i bs) @ xs @ take (n - (off + length xs)) (drop (i + off + length xs) bs)"
    using assms by (simp add: patch_def drop_take)
  also have "\<dots> = patch (take n (drop i bs)) off xs"
    using assms by (simp add: patch_def drop_take add.assoc add.commute add.left_commute)
  finally show ?thesis .
qed

lemma mem_write_seg:
  assumes "payload_ok h a" and "off + length xs \<le> unat (p_len (pb h a))"
  shows "\<exists>m. mem_write h (p_payload (pb h a)) off xs = Inr (h\<lparr>mem := m\<rparr>) \<and> same_shape (mem h) m
     \<and> seg (h\<lparr>mem := m\<rparr>) a = patch (seg h a) off xs
     \<and> (\<forall>c. block h c \<noteq> block h a \<or> block h c = None \<longrightarrow> seg (h\<lparr>mem := m\<rparr>) c = seg h c)"
proof (cases "xs = []")
  case True
  then show ?thesis by (intro exI [of _ "mem h"]) (simp add: mem_write_def)
next
  case False
  with assms(2) have l: "p_len (pb h a) \<noteq> 0" by auto
  with assms(1) obtain k i bs where d: "p_payload (pb h a) = Some (k, i)" "mem h k = Some bs"
    "0 \<le> i" "nat i + unat (p_len (pb h a)) \<le> length bs"
    by (auto simp: payload_ok_def split: option.splits)
  let ?m = "(mem h)(k \<mapsto> patch bs (nat i + off) xs)"
  have "mem_write h (p_payload (pb h a)) off xs = Inr (h\<lparr>mem := ?m\<rparr>)"
    using False d assms(2) by (simp add: mem_write_def nat_offset)
  moreover have "same_shape (mem h) ?m"
    using d assms(2) by (intro same_shape_upd) (auto simp: length_patch)
  moreover have "seg (h\<lparr>mem := ?m\<rparr>) a = patch (seg h a) off xs"
    using d l assms(2) by (simp add: seg_def patch_take_drop)
  moreover have "seg (h\<lparr>mem := ?m\<rparr>) c = seg h c" if "block h c \<noteq> block h a \<or> block h c = None" for c
    using that d l by (auto simp: seg_def block_def split: option.splits if_splits)
  ultimately show ?thesis by blast
qed

lemma chain_data_cong: "(\<And>a. a \<in> set qs \<Longrightarrow> seg h' a = seg h a) \<Longrightarrow> chain_data h' qs = chain_data h qs"
  by (induction qs) auto

lemma patch_0: "length xs \<le> length bs \<Longrightarrow> patch bs 0 xs = xs @ drop (length xs) bs"
  by (simp add: patch_def)

lemma pbuf_take_loop_correct:
  assumes "chain_ok h p qs" and "separate h qs" and "length qs < n"
    and "ttl \<le> length (chain_data h qs)" and "copied + ttl \<le> length d"
  shows "\<exists>m. pbuf_take_loop n h p d ttl copied = Inr (0, copied + ttl, h\<lparr>mem := m\<rparr>)
     \<and> same_shape (mem h) m
     \<and> chain_data (h\<lparr>mem := m\<rparr>) qs = take ttl (drop copied d) @ drop ttl (chain_data h qs)
     \<and> (\<forall>c. block h c \<notin> block h ` set qs \<or> block h c = None \<longrightarrow> seg (h\<lparr>mem := m\<rparr>) c = seg h c)"
  using assms
proof (induction qs arbitrary: h p n ttl copied)
  case Nil
  then show ?case by (cases n) (auto intro!: exI [of _ "mem h"])
next
  case (Cons a qs)
  then obtain b n' where b: "p = Some a" "pbufs h a = Some b" "payload_ok h a" "chain_ok h (p_next b) qs"
    and n: "n = Suc n'" "length qs < n'" by (cases n) (auto simp: chain_ok_Cons)
  have l: "length (seg h a) = unat (p_len b)" using b by (simp add: length_seg)
  show ?case
  proof (cases "ttl = 0")
    case True
    then show ?thesis using n by (auto intro!: exI [of _ "mem h"])
  next
    case False
    define c where "c = min ttl (unat (p_len b))"
    let ?xs = "take c (drop copied d)"
    have xs: "length ?xs = c" using Cons.prems(5) by (simp add: c_def)
    obtain m1 where m1: "mem_write h (p_payload b) 0 ?xs = Inr (h\<lparr>mem := m1\<rparr>)" "same_shape (mem h) m1"
      "seg (h\<lparr>mem := m1\<rparr>) a = patch (seg h a) 0 ?xs"
      "\<forall>c. block h c \<noteq> block h a \<or> block h c = None \<longrightarrow> seg (h\<lparr>mem := m1\<rparr>) c = seg h c"
      using mem_write_seg [OF b(3), of 0 ?xs] b(2) xs by (auto simp: c_def)
    let ?h1 = "h\<lparr>mem := m1\<rparr>"
    have sep: "block h q \<noteq> block h a \<or> block h q = None" if "q \<in> set qs" for q
      using Cons.prems(2) that unfolding separate_Cons by (metis image_eqI)
    then have rest: "chain_data ?h1 qs = chain_data h qs"
      using m1(4) by (intro chain_data_cong) blast
    have "\<exists>m. pbuf_take_loop n' ?h1 (p_next b) d (ttl - c) (copied + c) = Inr (0, copied + c + (ttl - c), ?h1\<lparr>mem := m\<rparr>)
     \<and> same_shape (mem ?h1) m
     \<and> chain_data (?h1\<lparr>mem := m\<rparr>) qs = take (ttl - c) (drop (copied + c) d) @ drop (ttl - c) (chain_data ?h1 qs)
     \<and> (\<forall>c. block ?h1 c \<notin> block ?h1 ` set qs \<or> block ?h1 c = None \<longrightarrow> seg (?h1\<lparr>mem := m\<rparr>) c = seg ?h1 c)"
    proof (rule Cons.IH)
      show "chain_ok ?h1 (p_next b) qs" using b m1 by simp
      show "separate ?h1 qs" using Cons.prems(2) by (simp add: separate_Cons)
      show "ttl - c \<le> length (chain_data ?h1 qs)"
        using Cons.prems(4) l rest by (simp add: c_def)
      show "copied + c + (ttl - c) \<le> length d" using Cons.prems(5) by (simp add: c_def)
    qed (rule n)
    then obtain m where m: "pbuf_take_loop n' ?h1 (p_next b) d (ttl - c) (copied + c) = Inr (0, copied + ttl, h\<lparr>mem := m\<rparr>)"
      "same_shape m1 m"
      "chain_data (h\<lparr>mem := m\<rparr>) qs = take (ttl - c) (drop (copied + c) d) @ drop (ttl - c) (chain_data h qs)"
      "\<forall>c. block h c \<notin> block h ` set qs \<or> block h c = None \<longrightarrow> seg (h\<lparr>mem := m\<rparr>) c = seg ?h1 c"
      using rest by (auto simp: c_def)
    have "pbuf_take_loop n h p d ttl copied = Inr (0, copied + ttl, h\<lparr>mem := m\<rparr>)"
      using False b n m1(1) m(1) Cons.prems(5)
      by (auto simp: c_def min_def Let_def not_less split: if_splits)
    moreover have "same_shape (mem h) m" using m1(2) m(2) by (rule same_shape_trans)
    moreover have "chain_data (h\<lparr>mem := m\<rparr>) (a # qs) = take ttl (drop copied d) @ drop ttl (chain_data h (a # qs))"
    proof -
      have "block h a \<notin> block h ` set qs \<or> block h a = None"
        using Cons.prems(2) by (auto simp: separate_Cons)
      then have "seg (h\<lparr>mem := m\<rparr>) a = ?xs @ drop c (seg h a)"
        using m(4) m1(3) xs l by (simp add: patch_0 c_def)
      moreover have "take ttl (drop copied d) = ?xs @ take (ttl - c) (drop (copied + c) d)"
        using take_add [of c "ttl - c" "drop copied d"] by (simp add: c_def add.commute)
      ultimately show ?thesis using m(3) l by (auto simp: c_def min_def)
    qed
    moreover have "seg (h\<lparr>mem := m\<rparr>) c = seg h c" if "block h c \<notin> block h ` set (a # qs) \<or> block h c = None" for c
      using that m(4) m1(4) by auto
    ultimately show ?thesis by blast
  qed
qed

lemma pbuf_take_data:
  assumes "heap_ok h" and "chain_ok h (Some a) qs" and "separate h qs"
    and "unat len \<le> length (chain_data h qs)" and "unat len \<le> length d"
  shows "\<exists>m. pbuf_take h (Some a) (Some d) len = Inr (ERR_OK, h\<lparr>mem := m\<rparr>) \<and> same_shape (mem h) m
     \<and> chain_data (h\<lparr>mem := m\<rparr>) qs = take (unat len) d @ drop (unat len) (chain_data h qs)
     \<and> (\<forall>c. block h c \<notin> block h ` set qs \<or> block h c = None \<longrightarrow> seg (h\<lparr>mem := m\<rparr>) c = seg h c)"
proof -
  obtain b where b: "pbufs h a = Some b" "unat (p_tot_len b) = length (chain_data h qs)"
    using assms(2) chain_ok_tot_len [OF assms(2)] by (auto simp: chain_ok_Some)
  then show ?thesis
    using pbuf_take_loop_correct [OF assms(2,3) chain_ok_length [OF assms(2,1)] assms(4), of 0 d] assms(4,5)
    by (auto simp: pbuf_take_def word_le_nat_alt)
qed

lemma pbuf_take_too_long:
  assumes "pbufs h a = Some b" and "unat (p_tot_len b) < unat len"
  shows "pbuf_take h (Some a) (Some d) len = Inl Abort"
  using assms by (simp add: pbuf_take_def word_le_nat_alt lwip_assert_def)

lemma separate_append: "separate h (us @ vs) \<longleftrightarrow> separate h us \<and> separate h vs
    \<and> (\<forall>u\<in>set us. \<forall>v\<in>set vs. block h u \<noteq> None \<longrightarrow> block h u \<noteq> block h v)"
  by (induction us) (auto simp: separate_Cons separate_def image_iff)

lemma separate_append_Cons:
  assumes "separate h (us @ a # vs)" and "q \<in> set (us @ vs)"
  shows "block h q \<noteq> block h a \<or> block h q = None"
  using assms unfolding separate_append separate_Cons by (auto simp: image_iff)

lemma pbuf_put_at_correct:
  assumes "heap_ok h" and "chain_ok h p qs" and "separate h qs"
  shows "\<exists>m. pbuf_put_at h p off x = Inr (h\<lparr>mem := m\<rparr>) \<and> same_shape (mem h) m
     \<and> chain_data (h\<lparr>mem := m\<rparr>) qs = (chain_data h qs)[unat off := x]"
proof (cases "unat off < length (chain_data h qs)")
  case False
  then show ?thesis using pbuf_skip_correct [OF assms(1,2), of off]
    by (intro exI [of _ "mem h"]) (simp add: pbuf_put_at_def list_update_beyond)
next
  case True
  with pbuf_skip_correct [OF assms(1,2), of off] obtain us a vs k where *: "qs = us @ a # vs"
    "pbuf_skip h p off = Inr (Some a, k)" "length (chain_data h us) + unat k = unat off"
    "unat k < unat (p_len (pb h a))" by auto
  from *(1) have "a \<in> set qs" by simp
  with assms(2) obtain b where b: "pbufs h a = Some b" "payload_ok h a" "length (seg h a) = unat (p_len b)"
    by (rule chain_ok_pbufsE)
  obtain m where m: "mem_write h (p_payload b) (unat k) [x] = Inr (h\<lparr>mem := m\<rparr>)" "same_shape (mem h) m"
    "seg (h\<lparr>mem := m\<rparr>) a = patch (seg h a) (unat k) [x]"
    "\<forall>c. block h c \<noteq> block h a \<or> block h c = None \<longrightarrow> seg (h\<lparr>mem := m\<rparr>) c = seg h c"
    using mem_write_seg [OF b(2), of "unat k" "[x]"] b(1) *(4) by auto
  have "chain_data (h\<lparr>mem := m\<rparr>) us = chain_data h us" "chain_data (h\<lparr>mem := m\<rparr>) vs = chain_data h vs"
    using m(4) separate_append_Cons [of h us a vs] assms(3) *(1) by (auto intro!: chain_data_cong)
  moreover have "patch (seg h a) (unat k) [x] = (seg h a)[unat k := x]"
    using b *(4) by (simp add: patch_def upd_conv_take_nth_drop)
  ultimately have "chain_data (h\<lparr>mem := m\<rparr>) qs = (chain_data h qs)[unat off := x]"
    using *(1,4) b m(3) unfolding *(3) [symmetric] by (simp add: list_update_append)
  then show ?thesis
    using *(2,4) b m(1,2) by (auto simp: pbuf_put_at_def word_less_nat_alt intro!: exI [of _ m])
qed

lemma take_drop_append: "take n d @ drop n d @ xs = d @ xs"
  by (simp flip: append_assoc)

lemma pbuf_take_at_correct:
  assumes "heap_ok h" and "chain_ok h p qs" and "separate h qs"
    and "unat offset < length (chain_data h qs)" and "unat offset + unat len \<le> length (chain_data h qs)"
    and "length d = unat len"
  shows "\<exists>m. pbuf_take_at h p (Some d) len offset = Inr (ERR_OK, h\<lparr>mem := m\<rparr>) \<and> same_shape (mem h) m
     \<and> chain_data (h\<lparr>mem := m\<rparr>) qs = patch (chain_data h qs) (unat offset) d"
proof -
  from pbuf_skip_correct [OF assms(1,2), of offset] assms(4) obtain us a vs k where *: "qs = us @ a # vs"
    "pbuf_skip h p offset = Inr (Some a, k)" "length (chain_data h us) + unat k = unat offset"
    "unat k < unat (p_len (pb h a))" "chain_ok h (Some a) (a # vs)" by auto
  then obtain b where b: "pbufs h a = Some b" "payload_ok h a" "length (seg h a) = unat (p_len b)"
    "chain_ok h (p_next b) vs"
    by (auto simp: chain_ok_Cons length_seg)
  have tot: "unat (p_tot_len b) = unat (p_len b) + length (chain_data h vs)"
    using *(5) b by (simp add: chain_ok_Cons)
  define f where "f = min (p_len b - k) len"
  have uf: "unat f = min (unat (p_len b) - unat k) (unat len)"
    using *(4) b(1) by (auto simp: f_def min_def word_le_nat_alt unat_sub_word)
  have ok: "unat k + unat len \<le> unat (p_tot_len b)"
    using assms(5) *(1,3) b(3) by (simp add: tot)
  let ?x = "take (unat f) d"
  have x: "unat k + length ?x \<le> unat (p_len (pb h a))"
    using uf *(4) b(1) assms(6) by (simp add: min_def split: if_splits)
  obtain m1 where m1: "mem_write h (p_payload b) (unat k) ?x = Inr (h\<lparr>mem := m1\<rparr>)" "same_shape (mem h) m1"
    "seg (h\<lparr>mem := m1\<rparr>) a = patch (seg h a) (unat k) ?x"
    "\<forall>c. block h c \<noteq> block h a \<or> block h c = None \<longrightarrow> seg (h\<lparr>mem := m1\<rparr>) c = seg h c"
    using mem_write_seg [OF b(2) x] b(1) by auto
  let ?h1 = "h\<lparr>mem := m1\<rparr>"
  have sep: "block h q \<noteq> block h a \<or> block h q = None" if "q \<in> set (us @ vs)" for q
    using separate_append_Cons [of h us a vs q] assms(3) *(1) that by simp
  have us: "chain_data ?h1 us = chain_data h us" and vs: "chain_data ?h1 vs = chain_data h vs"
    using m1(4) sep by (auto intro!: chain_data_cong)
  have rl: "unat (len - f) = unat len - unat f" using uf by (simp add: unat_sub_word word_le_nat_alt)
  have start: "pbuf_take_at h p (Some d) len offset
      = (if len - f > 0 then pbuf_take ?h1 (p_next b) (Some (drop (unat f) d)) (len - f) else Inr (ERR_OK, ?h1))"
    using *(2,4) b(1) ok m1(1) assms(6) uf
    by (simp add: pbuf_take_at_def f_def [symmetric] word_less_nat_alt Let_def)
  show ?thesis
  proof (cases "len - f > 0")
    case False
    then have "unat len = unat f" using rl uf by (simp add: word_less_nat_alt)
    then have "?x = d" using assms(6) by simp
    moreover have "unat k + length d \<le> length (seg h a)" using uf \<open>unat len = unat f\<close> *(4) b assms(6) by simp
    ultimately have "chain_data ?h1 qs = patch (chain_data h qs) (unat offset) d"
      using *(1) us vs m1(3) unfolding *(3) [symmetric] by (simp add: patch_def)
    with start False m1(2) show ?thesis by (intro exI [of _ m1]) simp
  next
    case True
    then have fl: "unat f = unat (p_len b) - unat k" using rl uf by (simp add: word_less_nat_alt)
    have "unat (len - f) \<le> length (chain_data ?h1 vs)" using ok fl rl tot vs *(4) b(1) by simp
    moreover have "unat (len - f) > 0" using True by (simp add: word_less_nat_alt)
    ultimately have "vs \<noteq> []" by auto
    then obtain v where v: "p_next b = Some v"
      using b(4) by (cases vs) (auto simp: chain_ok_Cons)
    have "separate ?h1 vs" using assms(3) *(1) by (simp add: separate_append separate_Cons)
    moreover have "heap_ok ?h1" "chain_ok ?h1 (Some v) vs" using assms(1) b(4) v m1(2) by simp_all
    ultimately obtain m where m: "pbuf_take ?h1 (Some v) (Some (drop (unat f) d)) (len - f) = Inr (ERR_OK, ?h1\<lparr>mem := m\<rparr>)"
      "same_shape m1 m"
      "chain_data (?h1\<lparr>mem := m\<rparr>) vs = drop (unat f) d @ drop (unat (len - f)) (chain_data h vs)"
      "\<forall>c. block h c \<notin> block h ` set vs \<or> block h c = None \<longrightarrow> seg (?h1\<lparr>mem := m\<rparr>) c = seg ?h1 c"
      using pbuf_take_data [of ?h1 v vs "len - f" "drop (unat f) d"] assms(6) rl
        \<open>unat (len - f) \<le> length (chain_data ?h1 vs)\<close> vs by auto
    have out: "block h c \<notin> block h ` set vs \<or> block h c = None" if "c \<in> set (us @ [a])" for c
      using assms(3) that unfolding *(1) separate_append separate_Cons by (auto simp: image_iff)
    then have "chain_data (h\<lparr>mem := m\<rparr>) us = chain_data h us" "seg (h\<lparr>mem := m\<rparr>) a = patch (seg h a) (unat k) ?x"
      using m(4) us m1(3) chain_data_cong [of us "h\<lparr>mem := m\<rparr>" ?h1] by auto
    moreover have "patch (seg h a) (unat k) ?x = take (unat k) (seg h a) @ ?x"
      using fl b(3) *(4) assms(6) uf by (simp add: patch_def)
    ultimately have "chain_data (h\<lparr>mem := m\<rparr>) qs = patch (chain_data h qs) (unat offset) d"
      using *(1,4) m(3) fl rl b(1,3) assms(6) unfolding *(3) [symmetric]
      by (simp add: patch_def take_drop_append add.commute)
    moreover have "same_shape (mem h) m" using m1(2) m(2) by (rule same_shape_trans)
    ultimately show ?thesis using start True v m(1) by (intro exI [of _ m]) simp
  qed
qed

end
