(* ===== verification/Pbuf_Life.thy ===== *)
theory Pbuf_Life
  imports Pbuf_Data
begin

text \<open>
  The life of pbufs: reference counting and freeing, allocation of each type, and the
  operations that change headers.
\<close>

section \<open>Heap updates\<close>

lemma pset_Some [simp]: "pset h (Some a) b = h\<lparr>pbufs := (pbufs h)(a \<mapsto> b)\<rparr>"
  by (simp add: pset_def)

lemma pupd_Some: "pbufs h a = Some b \<Longrightarrow> pupd h (Some a) f = Inr (h\<lparr>pbufs := (pbufs h)(a \<mapsto> f b)\<rparr>)"
  by (simp add: pupd_def)

lemma pget_upd [simp]: "pget (h\<lparr>pbufs := (pbufs h)(a \<mapsto> b)\<rparr>) (Some c) = (if c = a then Inr b else pget h (Some c))"
  by (simp add: pget_def)

lemma pb_upd [simp]: "pb (h\<lparr>pbufs := (pbufs h)(a \<mapsto> b)\<rparr>) c = (if c = a then b else pb h c)"
  by (simp add: pb_def)

text \<open>What a chain shows depends only on its pbufs and the objects they point into.\<close>

lemma seg_cong:
  assumes "p_len (pb h' a) = p_len (pb h a)" and "p_payload (pb h' a) = p_payload (pb h a)"
    and "\<And>k. block h a = Some k \<Longrightarrow> mem h' k = mem h k"
  shows "seg h' a = seg h a" and "payload_ok h' a = payload_ok h a" and "block h' a = block h a"
proof -
  have m: "mem h' k = mem h k" if "p_payload (pb h a) = Some (k, i)" "p_len (pb h a) \<noteq> 0" for k i
    using that by (intro assms(3)) (simp add: block_def)
  have "seg h' a = seg h a \<and> payload_ok h' a = payload_ok h a"
  proof (cases "p_len (pb h a) = 0")
    case True
    then show ?thesis using assms(1) by (simp add: seg_def payload_ok_def)
  next
    case False
    show ?thesis
    proof (cases "p_payload (pb h a)")
      case (Some d)
      obtain k i where "d = (k, i)" by fastforce
      with Some False m [of k i] show ?thesis
        by (cases "mem h k") (simp_all add: seg_def payload_ok_def assms(1,2))
    qed (simp add: seg_def payload_ok_def assms(1,2))
  qed
  then show "seg h' a = seg h a" "payload_ok h' a = payload_ok h a" by simp_all
  show "block h' a = block h a" using assms(1,2) by (simp add: block_def)
qed

lemma tots_cong:
  assumes "\<And>a. a \<in> set qs \<Longrightarrow> pb h' a = pb h a"
  shows "tots h' qs = tots h qs"
  using assms by (induction qs) (simp_all cong: map_cong)

lemma chain_cong:
  assumes "\<And>a. a \<in> set qs \<Longrightarrow> pbufs h' a = pbufs h a"
    and "\<And>a k. a \<in> set qs \<Longrightarrow> block h a = Some k \<Longrightarrow> mem h' k = mem h k"
  shows "chain_ok h' p qs = chain_ok h p qs" and "chain_data h' qs = chain_data h qs"
proof -
  have pb: "pb h' a = pb h a" if "a \<in> set qs" for a using assms(1) that by (simp add: pb_def)
  have "path h' p qs = path h p qs" by (rule path_cong) (simp add: assms(1))
  moreover have "tots h' qs = tots h qs" by (rule tots_cong) (rule pb)
  moreover have "payload_ok h' a = payload_ok h a" if "a \<in> set qs" for a
    using that pb assms(2) by (intro seg_cong(2)) auto
  ultimately show "chain_ok h' p qs = chain_ok h p qs" by (simp add: chain_ok_def)
  show "chain_data h' qs = chain_data h qs"
    using pb assms(2) by (intro chain_data_cong seg_cong(1)) auto
qed

lemma heap_ok_upd:
  assumes "heap_ok h" and "pbufs h a = Some b"
  shows "heap_ok (h\<lparr>pbufs := (pbufs h)(a \<mapsto> c)\<rparr>)"
  using assms unfolding heap_ok_def by (simp del: not_None_eq)

section \<open>Freeing\<close>

text \<open>The heap without the objects \<open>S\<close>.\<close>

definition drop_objs :: "nat set \<Rightarrow> heap \<Rightarrow> heap" where
  "drop_objs S h = h\<lparr>pbufs := pbufs h |` (- S), mem := mem h |` (- S), customs := customs h |` (- S)\<rparr>"

lemma drop_objs_empty [simp]: "drop_objs {} h = h"
  by (simp add: drop_objs_def restrict_map_def)

lemma drop_objs_drop_objs [simp]: "drop_objs S (drop_objs T h) = drop_objs (S \<union> T) h"
  by (simp add: drop_objs_def Int_commute)

lemma drop_objs_simps [simp]:
  "pbufs (drop_objs S h) = pbufs h |` (- S)" "mem (drop_objs S h) = mem h |` (- S)"
  "nextid (drop_objs S h) = nextid h" "oom (drop_objs S h) = oom h" "junk (drop_objs S h) = junk h"
  by (simp_all add: drop_objs_def)

lemma upd_None_restrict: "m(a := None) = m |` (- {a})"
  by (auto simp: restrict_map_def)

lemma mem_free_Some:
  assumes "mem h a \<noteq> None"
  shows "mem_free h (Some a) = Inr (drop_objs {a} h)"
  using assms by (auto simp: mem_free_def drop_objs_def upd_None_restrict)

text \<open>A pbuf that \<^verbatim>\<open>pbuf_free\<close> can release: referenced, not custom, of a known allocation source.\<close>

definition freeable :: "heap \<Rightarrow> nat \<Rightarrow> bool" where
  "freeable h a \<longleftrightarrow> (case pbufs h a of None \<Rightarrow> False
     | Some b \<Rightarrow> p_ref b > 0 \<and> p_flags b AND PBUF_FLAG_IS_CUSTOM = 0
         \<and> pbuf_get_allocsrc b \<in> {0, 1, 2} \<and> mem h a \<noteq> None)"

lemma freeable_cong: "pbufs h' a = pbufs h a \<Longrightarrow> mem h' a = mem h a \<Longrightarrow> freeable h' a = freeable h a"
  by (simp only: freeable_def)

lemma freeable_iff: "freeable h a \<longleftrightarrow> (\<exists>b. pbufs h a = Some b \<and> p_ref b > 0
    \<and> p_flags b AND PBUF_FLAG_IS_CUSTOM = 0 \<and> pbuf_get_allocsrc b \<in> {0, 1, 2} \<and> mem h a \<noteq> None)"
  by (simp add: freeable_def split: option.split)

text \<open>
  What \<^verbatim>\<open>pbuf_free\<close> does to a chain: it releases the leading pbufs that are referenced once
  and takes one reference from the first of the others.
\<close>

definition once :: "heap \<Rightarrow> nat \<Rightarrow> bool" where
  "once h a \<longleftrightarrow> p_ref (pb h a) = 1"

definition unref :: "nat \<Rightarrow> heap \<Rightarrow> heap" where
  "unref a h = pset h (Some a) ((pb h a)\<lparr>p_ref := p_ref (pb h a) - 1\<rparr>)"

definition free_spec :: "heap \<Rightarrow> nat list \<Rightarrow> heap" where
  "free_spec h qs =
     (let h' = drop_objs (set (takeWhile (once h) qs)) h
      in case dropWhile (once h) qs of [] \<Rightarrow> h' | c # _ \<Rightarrow> unref c h')"

lemma free_step_once:
  assumes "freeable h a" and "pbufs h a = Some b" and "p_ref b = 1"
  shows "pbuf_free_loop (Suc n) h (Some a) count = pbuf_free_loop n (drop_objs {a} h) (p_next b) (count + 1)"
proof -
  let ?b = "b\<lparr>p_ref := 0\<rparr>" and ?h = "h\<lparr>pbufs := (pbufs h)(a \<mapsto> b\<lparr>p_ref := 0\<rparr>)\<rparr>"
  have m: "mem ?h a \<noteq> None" using assms by (auto simp: freeable_def)
  have d: "drop_objs {a} ?h = drop_objs {a} h"
    by (simp add: drop_objs_def restrict_map_def cong: if_cong)
  have src: "pbuf_get_allocsrc ?b = pbuf_get_allocsrc b" by (simp add: pbuf_get_allocsrc_def)
  have "pbuf_get_allocsrc b = 0 \<or> pbuf_get_allocsrc b = 1 \<or> pbuf_get_allocsrc b = 2"
    "p_flags b AND PBUF_FLAG_IS_CUSTOM = 0"
    using assms by (auto simp: freeable_def)
  then show ?thesis
    using assms mem_free_Some [OF m] by (auto simp: Let_def memp_free_def d src)
qed

lemma free_step_more:
  assumes "freeable h a" and "pbufs h a = Some b" and "p_ref b \<noteq> 1"
  shows "pbuf_free_loop (Suc n) h (Some a) count = Inr (count, unref a h)"
proof -
  have "p_ref b - 1 \<noteq> 0" using assms(3) by simp
  then show ?thesis using assms by (auto simp: Let_def unref_def freeable_def)
qed

lemma pbuf_free_loop_correct:
  assumes "path h p qs" and "\<forall>a\<in>set qs. freeable h a" and "length qs < n"
  shows "pbuf_free_loop n h p count = Inr (count + of_nat (length (takeWhile (once h) qs)), free_spec h qs)"
  using assms
proof (induction qs arbitrary: h p n count)
  case Nil
  then show ?case by (simp add: free_spec_def)
next
  case (Cons a qs)
  then obtain b n' where b: "p = Some a" "pbufs h a = Some b" "path h (p_next b) qs"
    and n: "n = Suc n'" "length qs < n'" by (cases n) (auto split: option.splits)
  have fr: "freeable h a" using Cons.prems by simp
  show ?case
  proof (cases "p_ref b = 1")
    case False
    then show ?thesis
      using free_step_more [OF fr b(2)] b n by (simp add: free_spec_def once_def)
  next
    case True
    let ?h1 = "drop_objs {a} h"
    have a: "a \<notin> set qs" using path_distinct [OF Cons.prems(1)] by simp
    then have eq: "pbufs ?h1 c = pbufs h c" "mem ?h1 c = mem h c" if "c \<in> set qs" for c
      using that by (auto simp: restrict_map_def)
    have once: "once ?h1 c = once h c" if "c \<in> set qs" for c
      using eq(1) [OF that] by (simp add: once_def pb_def)
    have tw: "takeWhile (once ?h1) qs = takeWhile (once h) qs" "dropWhile (once ?h1) qs = dropWhile (once h) qs"
      using once by (auto intro: takeWhile_cong dropWhile_cong)
    have "path ?h1 (p_next b) qs" using b(3) path_cong [of qs ?h1 h] eq(1) by simp
    moreover have "\<forall>c\<in>set qs. freeable ?h1 c"
    proof
      fix c assume c: "c \<in> set qs"
      with Cons.prems(2) have "freeable h c" by simp
      then show "freeable ?h1 c" by (simp only: freeable_def eq [OF c])
    qed
    ultimately have "pbuf_free_loop n' ?h1 (p_next b) (count + 1)
        = Inr (count + 1 + of_nat (length (takeWhile (once ?h1) qs)), free_spec ?h1 qs)"
      by (rule Cons.IH) (rule n(2))
    moreover have "free_spec ?h1 qs = free_spec h (a # qs)"
      using b True by (auto simp: free_spec_def tw once_def [of h a] Let_def)
    ultimately show ?thesis
      using free_step_once [OF fr b(2) True, of n'] b n True by (simp add: tw once_def [of h a])
  qed
qed

lemma pbuf_free_correct:
  assumes "heap_ok h" and "path h (Some a) qs" and "\<forall>q\<in>set qs. freeable h q"
  shows "pbuf_free h (Some a) = Inr (of_nat (length (takeWhile (once h) qs)), free_spec h qs)"
  using pbuf_free_loop_correct [OF assms(2,3) path_length [OF assms(2,1)], of 0]
  by (simp add: pbuf_free_def)

lemma pbuf_free_all:
  assumes "heap_ok h" and "path h (Some a) qs" and "\<forall>q\<in>set qs. freeable h q" and "\<forall>q\<in>set qs. once h q"
  shows "pbuf_free h (Some a) = Inr (of_nat (length qs), drop_objs (set qs) h)"
proof -
  have "takeWhile (once h) qs = qs" "dropWhile (once h) qs = []"
    using assms(4) by (simp_all only: takeWhile_eq_all_conv dropWhile_eq_Nil_conv)
  then show ?thesis using pbuf_free_correct [OF assms(1-3)] by (simp only: free_spec_def Let_def list.case)
qed

lemma heap_ok_drop [simp]: "heap_ok h \<Longrightarrow> heap_ok (drop_objs S h)"
  by (auto simp: heap_ok_def restrict_map_def split: if_splits)

subsection \<open>Referencing\<close>

lemma pbuf_ref_correct:
  assumes "pbufs h a = Some b"
  shows "pbuf_ref h (Some a) = (if p_ref b = 255 then Inl Abort
           else Inr (h\<lparr>pbufs := (pbufs h)(a \<mapsto> b\<lparr>p_ref := p_ref b + 1\<rparr>)\<rparr>))"
proof -
  have "p_ref b + 1 = 0 \<longleftrightarrow> p_ref b = 255"
  proof -
    have "(255 :: u8_t) = - 1" by simp
    then show ?thesis using eq_neg_iff_add_eq_0 [of "p_ref b" 1] by metis
  qed
  then show ?thesis using assms
    by (auto simp: pbuf_ref_def Let_def lwip_assert_def word_neq_0_conv [symmetric])
qed

section \<open>Headers\<close>

definition add_hdr :: "nat \<Rightarrow> pbuf \<Rightarrow> pbuf" where
  "add_hdr n b = b\<lparr>p_payload := ptr_add (p_payload b) (- int n),
      p_len := p_len b + of_nat n, p_tot_len := p_tot_len b + of_nat n\<rparr>"

definition remove_hdr :: "nat \<Rightarrow> pbuf \<Rightarrow> pbuf" where
  "remove_hdr n b = b\<lparr>p_payload := ptr_add (p_payload b) (int n),
      p_len := p_len b - of_nat n, p_tot_len := p_tot_len b - of_nat n\<rparr>"

lemma add_remove_hdr [simp]: "add_hdr n (remove_hdr n b) = b" "remove_hdr n (add_hdr n b) = b"
  by (simp_all add: add_hdr_def remove_hdr_def ptr_add_def split: option.split)

lemma ptr_add_0 [simp]: "ptr_add d 0 = d"
  by (cases d) (auto simp: ptr_add_def)

lemma hdr_0 [simp]: "add_hdr 0 b = b" "remove_hdr 0 b = b"
  by (simp_all add: add_hdr_def remove_hdr_def)

text \<open>
  A pbuf of a type with the data behind the struct, its payload pointer at an offset into that data.
\<close>

definition contiguous_at :: "heap \<Rightarrow> nat \<Rightarrow> pbuf \<Rightarrow> nat \<Rightarrow> bool" where
  "contiguous_at h a b room \<longleftrightarrow> pbufs h a = Some b \<and> p_payload b = Some (a, int room)
     \<and> p_type_internal b AND PBUF_TYPE_FLAG_STRUCT_DATA_CONTIGUOUS \<noteq> 0"

lemma unat_of_nat_16: "n \<le> 65535 \<Longrightarrow> unat (of_nat n :: u16_t) = n"
  by (simp add: unat_of_nat)

lemma wraps_16:
  assumes "n \<le> 65535"
  shows "(of_nat n + x :: u16_t) < of_nat n \<longleftrightarrow> n + unat x > 65535"
proof (cases "n + unat x > 65535")
  case True
  then have "(n + unat x) mod 65536 = n + unat x - 65536"
    using assms unat_lt_16 [of x] by (simp add: le_mod_geq del: unat_lt_16)
  then show ?thesis using True assms unat_lt_16 [of x]
    by (simp add: word_less_nat_alt unat_add_16 unat_of_nat_16 del: unat_lt_16)
next
  case False
  then show ?thesis using assms
    by (simp add: word_less_nat_alt unat_add_16 unat_of_nat_16)
qed

lemma pbuf_add_header_contiguous:
  assumes "contiguous_at h a b room"
  shows "pbuf_add_header h (Some a) n
    = Inr (if n \<le> room \<and> n + unat (p_tot_len b) \<le> 65535
           then (0, h\<lparr>pbufs := (pbufs h)(a \<mapsto> add_hdr n b)\<rparr>) else (1, h))"
proof -
  have b: "pbufs h a = Some b" "p_payload b = Some (a, int room)"
    "p_type_internal b AND PBUF_TYPE_FLAG_STRUCT_DATA_CONTIGUOUS \<noteq> 0"
    using assms by (auto simp: contiguous_at_def)
  have self: "h\<lparr>pbufs := (pbufs h)(a \<mapsto> b)\<rparr> = h" using b(1) by (simp add: fun_upd_idem)
  show ?thesis
  proof (cases "n = 0")
    case True
    then show ?thesis using unat_lt_16 [of "p_tot_len b"]
      by (simp add: pbuf_add_header_def pbuf_add_header_impl_def self less_Suc_eq_le del: unat_lt_16)
  next
    case False
    have "n \<le> 65535" if "n + unat (p_tot_len b) \<le> 65535" using that by simp
    then show ?thesis
      using False b wraps_16 [of n "p_tot_len b"]
      by (auto simp: pbuf_add_header_def pbuf_add_header_impl_def Let_def ptr_add_def add_hdr_def)
  qed
qed

lemma pbuf_add_header_ref:
  assumes "pbufs h a = Some b" and "p_type_internal b AND PBUF_TYPE_FLAG_STRUCT_DATA_CONTIGUOUS = 0" and "0 < n"
  shows "pbuf_add_header h (Some a) n = Inr (1, h)"
  using assms by (simp add: pbuf_add_header_def pbuf_add_header_impl_def Let_def)

lemma pbuf_remove_header_correct:
  assumes "pbufs h a = Some b"
  shows "pbuf_remove_header h (Some a) n
    = (if n > 65535 then Inr (1, h) else if n \<le> unat (p_len b)
       then Inr (0, h\<lparr>pbufs := (pbufs h)(a \<mapsto> remove_hdr n b)\<rparr>) else Inl Abort)"
proof -
  have self: "h\<lparr>pbufs := (pbufs h)(a \<mapsto> b)\<rparr> = h" using assms by (simp add: fun_upd_idem)
  show ?thesis
    using assms unat_of_nat_16 [of n]
    by (auto simp: pbuf_remove_header_def remove_hdr_def Let_def lwip_assert_def word_le_nat_alt self)
qed

text \<open>The data: removing a header drops bytes from the front of the chain, adding one reveals them.\<close>

lemma seg_remove_hdr:
  assumes "pbufs h a = Some b" and "payload_ok h a" and "n \<le> unat (p_len b)"
  defines "h' \<equiv> h\<lparr>pbufs := (pbufs h)(a \<mapsto> remove_hdr n b)\<rparr>"
  shows "payload_ok h' a" and "seg h' a = drop n (seg h a)" and "unat (p_len (pb h' a)) = unat (p_len b) - n"
proof -
  have n: "n \<le> 65535" using assms(3) unat_lt_16 [of "p_len b"] by linarith
  show l: "unat (p_len (pb h' a)) = unat (p_len b) - n"
    using assms(3) unat_of_nat_16 [OF n]
    by (simp add: h'_def remove_hdr_def unat_sub_word word_le_nat_alt)
  have "payload_ok h' a \<and> seg h' a = drop n (seg h a)"
  proof (cases "p_len (pb h' a) = 0")
    case True
    then have "unat (p_len b) = n" using l assms(3) by simp
    moreover have "length (seg h a) = unat (p_len b)" using assms(1,2) by (simp add: length_seg)
    ultimately show ?thesis using True by (simp add: payload_ok_def seg_def)
  next
    case False
    then have "p_len b \<noteq> 0" using l by (auto simp: unat_eq_zero [symmetric])
    then obtain k i bs where d: "p_payload b = Some (k, i)" "mem h k = Some bs" "0 \<le> i"
      "nat i + unat (p_len b) \<le> length bs"
      using assms(1,2) by (auto simp: payload_ok_def split: option.splits)
    have "p_payload (pb h' a) = Some (k, i + int n)" "mem h' = mem h"
      using d(1) by (simp_all add: h'_def remove_hdr_def ptr_add_def)
    with d l False assms(1,3) \<open>p_len b \<noteq> 0\<close> show ?thesis
      by (auto simp: payload_ok_def seg_def nat_offset drop_take add.commute)
  qed
  then show "payload_ok h' a" "seg h' a = drop n (seg h a)" by simp_all
qed

lemma chain_remove_hdr:
  assumes "chain_ok h (Some a) (a # qs)" and "pbufs h a = Some b" and "n \<le> unat (p_len b)"
    and "h' = h\<lparr>pbufs := (pbufs h)(a \<mapsto> remove_hdr n b)\<rparr>"
  shows "chain_ok h' (Some a) (a # qs)" and "chain_data h' (a # qs) = drop n (chain_data h (a # qs))"
proof -
  have ok: "payload_ok h a" "unat (p_tot_len b) = unat (p_len b) + length (chain_data h qs)"
    "chain_ok h (p_next b) qs" using assms(1,2) by (auto simp: chain_ok_Cons)
  have a: "a \<notin> set qs" using path_distinct [OF chain_ok_path [OF assms(1)]] by simp
  note s = seg_remove_hdr [OF assms(2) ok(1) assms(3), folded assms(4)]
  have rest: "chain_ok h' p qs = chain_ok h p qs" "chain_data h' qs = chain_data h qs" for p
    using a by (auto intro!: chain_cong simp: assms(4))
  have n: "n \<le> 65535" using assms(3) unat_lt_16 [of "p_len b"] by linarith
  have "unat (p_tot_len (remove_hdr n b)) = unat (p_tot_len b) - n"
    using ok(2) assms(3) unat_of_nat_16 [OF n]
    by (simp add: remove_hdr_def unat_sub_word word_le_nat_alt)
  moreover have "pbufs h' a = Some (remove_hdr n b)" "p_next (remove_hdr n b) = p_next b"
    by (simp_all add: assms(4) remove_hdr_def)
  moreover have "unat (p_len (remove_hdr n b)) = unat (p_len b) - n"
    using s(3) by (simp add: assms(4))
  ultimately show "chain_ok h' (Some a) (a # qs)"
    using s ok assms(3) rest by (simp add: chain_ok_Cons)
  have "length (seg h a) = unat (p_len b)" using ok(1) assms(2) by (simp add: length_seg)
  then show "chain_data h' (a # qs) = drop n (chain_data h (a # qs))"
    using s(2) rest assms(3) by simp
qed

end
