(* ===== verification/Pbuf_Alloc.thy ===== *)
theory Pbuf_Alloc
  imports Pbuf_Life
begin

text \<open>
  \<^verbatim>\<open>pbuf_alloc\<close>: a \<^verbatim>\<open>PBUF_RAM\<close> buffer with room for the headers, the chain of pool buffers of
  \<^verbatim>\<open>PBUF_POOL\<close>, and that nothing stays allocated when memory runs out on the way.
\<close>

section \<open>One buffer\<close>

lemma mem_malloc_eq: "mem_malloc h sz =
    (if oom h (nextid h) then (None, h\<lparr>nextid := Suc (nextid h)\<rparr>)
     else (Some (nextid h), h\<lparr>nextid := Suc (nextid h),
             mem := (mem h)(nextid h \<mapsto> map (junk h) [0..<sz - SIZEOF_STRUCT_PBUF])\<rparr>))"
  by (simp add: mem_malloc_def Let_def)

lemma fresh [simp]:
  assumes "heap_ok h"
  shows "pbufs h (nextid h) = None" and "mem h (nextid h) = None"
  using assms by (force simp: heap_ok_def)+

lemma heap_ok_less: "heap_ok h \<Longrightarrow> pbufs h a = Some b \<Longrightarrow> a < nextid h"
  by (force simp: heap_ok_def)

text \<open>The heap after a successful allocation of a pbuf \<open>b\<close> with \<open>n\<close> bytes behind it.\<close>

definition with_pbuf :: "heap \<Rightarrow> nat \<Rightarrow> pbuf \<Rightarrow> heap" where
  "with_pbuf h n b = h\<lparr>nextid := Suc (nextid h), mem := (mem h)(nextid h \<mapsto> map (junk h) [0..<n]),
      pbufs := (pbufs h)(nextid h \<mapsto> b)\<rparr>"

lemma with_pbuf_simps [simp]:
  "nextid (with_pbuf h n b) = Suc (nextid h)" "oom (with_pbuf h n b) = oom h"
  "pbufs (with_pbuf h n b) = (pbufs h)(nextid h \<mapsto> b)"
  "mem (with_pbuf h n b) = (mem h)(nextid h \<mapsto> map (junk h) [0..<n])"
  by (simp_all add: with_pbuf_def)

lemma heap_ok_with_pbuf [simp]: "heap_ok h \<Longrightarrow> heap_ok (with_pbuf h n b)"
  by (auto simp: heap_ok_def less_Suc_eq)

definition ram_pbuf :: "nat \<Rightarrow> u16_t \<Rightarrow> u16_t \<Rightarrow> pbuf" where
  "ram_pbuf a layer len = \<lparr>p_next = None, p_payload = Some (a, uint layer), p_tot_len = len, p_len = len,
     p_type_internal = 0x80, p_flags = 0, p_ref = 1, p_if_idx = 0\<rparr>"

lemma type_internal_bytes: "(640 :: u8_t) = 0x80" "(386 :: u8_t) = 0x82"
  by simp_all

lemma pbuf_alloc_ram_eq:
  "pbuf_alloc h layer len PBUF_RAM = Inr
     (if unat layer + unat len > 65535 then (None, h)
      else if oom h (nextid h) then (None, h\<lparr>nextid := Suc (nextid h)\<rparr>)
      else (Some (nextid h), with_pbuf h (unat layer + unat len) (ram_pbuf (nextid h) layer len)))"
proof -
  have w: "layer + len < len \<longleftrightarrow> unat layer + unat len > 65535"
    using wraps_16 [of "unat len" layer] unat_lt_16 [of len]
    by (simp add: add.commute less_Suc_eq_le del: unat_lt_16)
  have u: "unat (layer + len) = unat layer + unat len" if "\<not> unat layer + unat len > 65535"
    using that by (intro unat_add_no_wrap_16) simp
  show ?thesis
  proof (cases "unat layer + unat len > 65535")
    case True
    then show ?thesis using w by (simp add: pbuf_alloc_def Let_def)
  next
    case False
    then show ?thesis using w u
      by (simp add: pbuf_alloc_def Let_def mem_malloc_eq pbuf_init_alloced_pbuf_def with_pbuf_def ram_pbuf_def
          type_internal_bytes)
  qed
qed

lemma ram_pbuf_ok:
  fixes layer len :: u16_t
  assumes "heap_ok h"
  defines "a \<equiv> nextid h" and "h' \<equiv> with_pbuf h (unat layer + unat len) (ram_pbuf (nextid h) layer len)"
  shows "chain_ok h' (Some a) [a]" and "length (chain_data h' [a]) = unat len"
    and "freeable h' a" and "once h' a" and "contiguous_at h' a (ram_pbuf a layer len) (unat layer)"
proof -
  have b: "pbufs h' a = Some (ram_pbuf a layer len)" by (simp add: h'_def a_def)
  have ok: "payload_ok h' a"
    by (simp add: payload_ok_def b h'_def a_def ram_pbuf_def)
  then show "chain_ok h' (Some a) [a]" by (simp add: chain_ok_Cons b) (simp add: ram_pbuf_def)
  show "length (chain_data h' [a]) = unat len" using length_seg [OF ok] b by (simp add: ram_pbuf_def)
  show "freeable h' a" "once h' a"
    using b by (simp_all add: freeable_def once_def)
      (simp_all add: h'_def a_def ram_pbuf_def pbuf_get_allocsrc_def)
  show "contiguous_at h' a (ram_pbuf a layer len) (unat layer)"
    using b by (simp add: contiguous_at_def ram_pbuf_def)
qed

section \<open>Pool chains\<close>

fun pool_chain :: "heap \<Rightarrow> nat \<Rightarrow> nat \<Rightarrow> nat list \<Rightarrow> bool" where
  "pool_chain h off rm [] \<longleftrightarrow> False"
| "pool_chain h off rm (a # rs) \<longleftrightarrow> (\<exists>b bs. pbufs h a = Some b \<and> mem h a = Some bs \<and> length bs = 1514
     \<and> p_payload b = Some (a, int off) \<and> unat (p_len b) = min rm (1514 - off) \<and> unat (p_tot_len b) = rm
     \<and> p_type_internal b = 0x82 \<and> p_flags b = 0 \<and> p_ref b = 1
     \<and> (if rm \<le> 1514 - off then rs = [] \<and> p_next b = None
        else rs \<noteq> [] \<and> p_next b = Some (hd rs) \<and> pool_chain h 0 (rm - (1514 - off)) rs))"

lemma pool_chain_ok:
  assumes "pool_chain h off rm rs" and "off < 1514"
  shows "chain_ok h (Some (hd rs)) rs \<and> length (chain_data h rs) = rm
    \<and> (\<forall>a\<in>set rs. freeable h a \<and> once h a \<and> block h a \<in> {None, Some a})"
  using assms
proof (induction rs arbitrary: off rm)
  case (Cons a rs)
  then obtain b bs where b: "pbufs h a = Some b" "mem h a = Some bs" "length bs = 1514"
    "p_payload b = Some (a, int off)" "unat (p_len b) = min rm (1514 - off)" "unat (p_tot_len b) = rm"
    "p_type_internal b = 0x82" "p_flags b = 0" "p_ref b = 1"
    "if rm \<le> 1514 - off then rs = [] \<and> p_next b = None
        else rs \<noteq> [] \<and> p_next b = Some (hd rs) \<and> pool_chain h 0 (rm - (1514 - off)) rs"
    by auto
  have ok: "payload_ok h a" using b(1-5) Cons.prems(2) by (auto simp: payload_ok_def min_def)
  have l: "length (seg h a) = min rm (1514 - off)" using length_seg [OF ok] b by simp
  have a: "freeable h a \<and> once h a \<and> block h a \<in> {None, Some a}"
    using b by (simp add: freeable_def once_def block_def pbuf_get_allocsrc_def)
  show ?case
  proof (cases "rm \<le> 1514 - off")
    case True
    then show ?thesis using b a ok l by (simp add: chain_ok_Cons)
  next
    case False
    then have "rs \<noteq> []" "p_next b = Some (hd rs)" "pool_chain h 0 (rm - (1514 - off)) rs" using b(10) by simp_all
    with Cons.IH [of 0 "rm - (1514 - off)"] False a ok l b show ?thesis
      by (simp add: chain_ok_Cons)
  qed
qed simp

lemma path_join:
  assumes "path h p qs" and "qs \<noteq> []" and "pbufs h (last qs) = Some b" and "path h (Some t) rs"
    and "last qs \<notin> set rs"
  shows "path (h\<lparr>pbufs := (pbufs h)(last qs \<mapsto> b\<lparr>p_next := Some t\<rparr>)\<rparr>) p (qs @ rs)"
  using assms(1,2,3,5)
proof (induction qs arbitrary: p)
  case (Cons a qs)
  let ?h = "h\<lparr>pbufs := (pbufs h)(last (a # qs) \<mapsto> b\<lparr>p_next := Some t\<rparr>)\<rparr>"
  show ?case
  proof (cases "qs = []")
    case True
    have "path ?h (Some t) rs = path h (Some t) rs"
      using Cons.prems(4) True by (intro path_cong) auto
    with True assms(4) Cons.prems show ?thesis by (simp add: fun_upd_def)
  next
    case False
    then obtain c where c: "pbufs h a = Some c" "path h (p_next c) qs" "p = Some a"
      using Cons.prems(1) by (auto split: option.splits)
    moreover have "a \<noteq> last qs" using path_distinct [OF Cons.prems(1)] False by auto
    ultimately show ?thesis using Cons False by simp
  qed
qed simp

definition pool_pbuf :: "nat \<Rightarrow> u16_t \<Rightarrow> u16_t \<Rightarrow> u16_t \<Rightarrow> pbuf" where
  "pool_pbuf a off rm qlen = \<lparr>p_next = None, p_payload = Some (a, uint off), p_tot_len = rm, p_len = qlen,
     p_type_internal = 0x82, p_flags = 0, p_ref = 1, p_if_idx = 0\<rparr>"

text \<open>Linking the new buffer to the chain built so far.\<close>

definition link_last :: "nat list \<Rightarrow> nat \<Rightarrow> heap \<Rightarrow> heap" where
  "link_last qs a h = (if qs = [] then h
     else pset h (Some (last qs)) ((pb h (last qs))\<lparr>p_next := Some a\<rparr>))"

lemma pool_room:
  fixes off :: u16_t
  assumes "off < 1514"
  shows "(1514 - ucast off :: u32_t) > 0" and "ucast (1514 - ucast off :: u32_t) = 1514 - off"
proof -
  have lt: "unat off < 1514" using assms by (simp add: word_less_nat_alt)
  then have u: "unat (1514 - ucast off :: u32_t) = 1514 - unat off"
    by (subst unat_sub_word) (simp_all add: word_le_nat_alt)
  with lt show "(1514 - ucast off :: u32_t) > 0" by (simp add: word_less_nat_alt)
  have "unat (1514 - off) = 1514 - unat off"
    using lt by (subst unat_sub_word) (simp_all add: word_le_nat_alt)
  with u lt show "ucast (1514 - ucast off :: u32_t) = 1514 - off"
    by (simp add: word_unat_eq_iff unat_ucast_32_16)
qed

lemma pool_step:
  fixes rm off :: u16_t
  assumes "\<not> oom h (nextid h)" and "off < 1514" and "path h p qs" and "qs \<noteq> [] \<Longrightarrow> lst = Some (last qs)"
    and "heap_ok h"
  defines "qlen \<equiv> min rm (1514 - off)"
  defines "a \<equiv> nextid h"
  defines "h1 \<equiv> link_last qs a (with_pbuf h 1514 (pool_pbuf a off rm qlen))"
  shows "pbuf_alloc_pool_loop (Suc n) h p lst rm off
    = (if rm - qlen > 0 then pbuf_alloc_pool_loop n h1 (Some (hd (qs @ [a]))) (Some a) (rm - qlen) 0
       else Inr (Some (hd (qs @ [a])), h1))"
proof -
  have sub: "PBUF_POOL_BUFSIZE - ucast off > (0 :: u32_t)" "ucast (PBUF_POOL_BUFSIZE - ucast off :: u32_t) = 1514 - off"
    using assms(2) by (simp_all add: PBUF_POOL_BUFSIZE_def pool_room)
  show ?thesis
  proof (cases "qs = []")
    case True
    then show ?thesis using assms(1,3) sub
      by (simp add: memp_malloc_def mem_malloc_eq pbuf_init_alloced_pbuf_def PBUF_POOL_BUFSIZE_def
          with_pbuf_def pool_pbuf_def type_internal_bytes h1_def a_def qlen_def link_last_def Let_def)
  next
    case False
    then obtain b where b: "pbufs h (last qs) = Some b"
      using path_alloced [OF assms(3) last_in_set] by blast
    have p: "p = Some (hd qs)" using False assms(3) by (cases qs) auto
    have ne: "last qs \<noteq> nextid h" using heap_ok_less [OF assms(5) b] by simp
    show ?thesis using False assms(1,4) sub b p ne
      by (simp add: memp_malloc_def mem_malloc_eq pbuf_init_alloced_pbuf_def PBUF_POOL_BUFSIZE_def
          with_pbuf_def pool_pbuf_def type_internal_bytes h1_def a_def qlen_def link_last_def Let_def pupd_def)
  qed
qed

lemma link_last_simps [simp]:
  "mem (link_last qs a h) = mem h" "nextid (link_last qs a h) = nextid h" "oom (link_last qs a h) = oom h"
  by (simp_all add: link_last_def)

lemma pbufs_link_last: "pbufs (link_last qs a h) c
    = (if qs \<noteq> [] \<and> c = last qs then Some ((pb h c)\<lparr>p_next := Some a\<rparr>) else pbufs h c)"
  by (simp add: link_last_def)

lemma heap_ok_link_last:
  assumes "heap_ok h" and "qs \<noteq> [] \<Longrightarrow> pbufs h (last qs) \<noteq> None"
  shows "heap_ok (link_last qs a h)"
  using assms heap_ok_upd by (auto simp: link_last_def)

lemma path_link_last:
  assumes "heap_ok h" and "path h p qs" and "p_next b = None"
  shows "path (link_last qs (nextid h) (with_pbuf h n b)) (Some (hd (qs @ [nextid h]))) (qs @ [nextid h])"
proof (cases "qs = []")
  case True
  then show ?thesis using assms(3) by (simp add: link_last_def)
next
  case False
  let ?h = "with_pbuf h n b" and ?a = "nextid h"
  obtain c where c: "pbufs h (last qs) = Some c"
    using path_alloced [OF assms(2) last_in_set [OF False]] by blast
  have ne: "last qs \<noteq> ?a" using heap_ok_less [OF assms(1) c] by simp
  have new: "a \<noteq> ?a" if "a \<in> set qs" for a
    using path_alloced [OF assms(2) that] heap_ok_less [OF assms(1)] by fastforce
  have "path ?h p qs = path h p qs" using new by (intro path_cong) auto
  with assms have "path (?h\<lparr>pbufs := (pbufs ?h)(last qs \<mapsto> c\<lparr>p_next := Some ?a\<rparr>)\<rparr>) p (qs @ [?a])"
    using False c ne by (intro path_join) auto
  moreover have "p = Some (hd qs)" using False assms(2) by (cases qs) auto
  moreover have "pb ?h (last qs) = c" using c ne by (simp add: pb_def)
  ultimately show ?thesis using False by (simp add: link_last_def)
qed

lemma pool_loop_oom:
  assumes "heap_ok h" and "path h p qs" and "\<forall>q\<in>set qs. freeable h q \<and> once h q" and "oom h (nextid h)"
  shows "\<exists>h'. pbuf_alloc_pool_loop (Suc n) h p lst rm off = Inr (None, h')
    \<and> pbufs h' = pbufs h |` (- set qs) \<and> mem h' = mem h |` (- set qs) \<and> heap_ok h'"
proof -
  let ?h = "h\<lparr>nextid := Suc (nextid h), pbuf_free_ooseq_pending := 1\<rparr>"
  have ok: "heap_ok ?h" using assms(1) by (auto simp: heap_ok_def less_Suc_eq)
  have pth: "path ?h p qs" using assms(2) path_cong [of qs ?h h p] by simp
  have fr: "\<forall>q\<in>set qs. freeable ?h q" "\<forall>q\<in>set qs. once ?h q"
    using assms(3) by (simp_all add: freeable_iff once_def pb_def)
  have "pbuf_alloc_pool_loop (Suc n) h p lst rm off = Inr (None, drop_objs (set qs) ?h)"
  proof (cases p)
    case None
    then show ?thesis using assms(2,4)
      by (simp add: memp_malloc_def mem_malloc_eq pbuf_pool_is_empty_def)
  next
    case (Some c)
    then show ?thesis using assms(4) pbuf_free_all [of ?h c qs] ok pth fr
      by (simp add: memp_malloc_def mem_malloc_eq pbuf_pool_is_empty_def)
  qed
  with ok show ?thesis by simp
qed

lemma pool_loop_correct:
  assumes "heap_ok h" and "off < 1514" and "unat rm < n" and "path h p qs"
    and "qs \<noteq> [] \<Longrightarrow> lst = Some (last qs)" and "\<forall>q\<in>set qs. freeable h q \<and> once h q"
  shows "(\<exists>h'. pbuf_alloc_pool_loop n h p lst rm off = Inr (None, h') \<and> (\<exists>i\<ge>nextid h. oom h i)
            \<and> pbufs h' = pbufs h |` (- set qs) \<and> mem h' = mem h |` (- set qs) \<and> heap_ok h')
       \<or> (\<exists>rs h'. pbuf_alloc_pool_loop n h p lst rm off = Inr (Some (hd (qs @ rs)), h')
            \<and> pool_chain h' (unat off) (unat rm) rs \<and> (\<forall>a\<in>set rs. nextid h \<le> a) \<and> heap_ok h'
            \<and> (\<forall>a<nextid h. mem h' a = mem h a \<and> pbufs h' a = pbufs (link_last qs (hd rs) h) a))"
  using assms
proof (induction n arbitrary: h p lst rm off qs)
  case (Suc n)
  show ?case
  proof (cases "oom h (nextid h)")
    case True
    with pool_loop_oom Suc.prems show ?thesis by blast
  next
    case False
    let ?a = "nextid h"
    define qlen where "qlen = min rm (1514 - off)"
    define b where "b = pool_pbuf ?a off rm qlen"
    define h1 where "h1 = link_last qs ?a (with_pbuf h 1514 b)"
    note step = pool_step [OF False Suc.prems(2,4,5,1), where rm = rm and n = n, folded qlen_def, folded b_def, folded h1_def]
    have off: "unat off < 1514" "unat (1514 - off) = 1514 - unat off"
      using Suc.prems(2) by (simp_all add: word_less_nat_alt unat_sub_word word_le_nat_alt)
    have ql: "unat qlen = min (unat rm) (1514 - unat off)"
      using off by (simp add: qlen_def min_def word_le_nat_alt)
    have old: "c \<noteq> ?a" if "c \<in> set qs" for c
      using path_alloced [OF Suc.prems(4) that] heap_ok_less [OF Suc.prems(1)] by fastforce
    have last: "qs \<noteq> [] \<longrightarrow> last qs \<noteq> ?a" using old by simp
    have h1: "pbufs h1 ?a = Some b" "mem h1 ?a = Some (map (junk h) [0..<1514])" "nextid h1 = Suc ?a"
      using last by (auto simp: h1_def pbufs_link_last)
    have frame: "c < ?a \<Longrightarrow> mem h1 c = mem h c" "c < ?a \<Longrightarrow> pbufs h1 c = pbufs (link_last qs ?a h) c" for c
      by (auto simp: h1_def pbufs_link_last pb_def)
    have ok1: "heap_ok h1"
      unfolding h1_def
      by (rule heap_ok_link_last) (use Suc.prems(1) path_alloced [OF Suc.prems(4) last_in_set] last in auto)
    have rl: "unat (rm - qlen) = unat rm - unat qlen" using ql by (simp add: unat_sub_word word_le_nat_alt)
    show ?thesis
    proof (cases "rm - qlen > 0")
      case no: False
      then have "unat rm \<le> 1514 - unat off" using rl ql by (simp add: word_less_nat_alt)
      then have "pool_chain h1 (unat off) (unat rm) [?a]"
        using h1 ql by (simp add: b_def pool_pbuf_def)
      then show ?thesis using step no frame ok1
        by (intro disjI2 exI [of _ "[?a]"] exI [of _ h1]) simp
    next
      case more: True
      then have rm: "unat rm > 1514 - unat off" "unat qlen = 1514 - unat off"
        using rl ql by (auto simp: word_less_nat_alt)
      have pth: "path h1 (Some (hd (qs @ [?a]))) (qs @ [?a])"
        unfolding h1_def by (rule path_link_last [OF Suc.prems(1,4)]) (simp add: b_def pool_pbuf_def)
      have fr: "\<forall>q\<in>set (qs @ [?a]). freeable h1 q \<and> once h1 q"
      proof
        fix q assume q: "q \<in> set (qs @ [?a])"
        show "freeable h1 q \<and> once h1 q"
        proof (cases "q = ?a")
          case True
          then show ?thesis using h1
            by (simp add: freeable_iff once_def b_def pool_pbuf_def pbuf_get_allocsrc_def)
        next
          case no: False
          with q Suc.prems(6) have "freeable h q" "once h q" by auto
          with no show ?thesis
            by (auto simp: freeable_iff once_def h1_def pbufs_link_last pb_def pbuf_get_allocsrc_def)
        qed
      qed
      have "unat (rm - qlen) < n" using rl rm off Suc.prems(3) by simp
      note IH = Suc.IH [OF ok1 _ this pth _ fr, of 0 "Some ?a"]
      have eq: "pbuf_alloc_pool_loop (Suc n) h p lst rm off
          = pbuf_alloc_pool_loop n h1 (Some (hd (qs @ [?a]))) (Some ?a) (rm - qlen) 0"
        using step more by simp
      consider h' where "pbuf_alloc_pool_loop (Suc n) h p lst rm off = Inr (None, h')"
          "pbufs h' = pbufs h1 |` (- set (qs @ [?a]))" "mem h' = mem h1 |` (- set (qs @ [?a]))" "heap_ok h'"
          "\<exists>i\<ge>nextid h1. oom h1 i"
        | rs h' where "pbuf_alloc_pool_loop (Suc n) h p lst rm off = Inr (Some (hd ((qs @ [?a]) @ rs)), h')"
          "pool_chain h' 0 (unat (rm - qlen)) rs" "\<forall>a\<in>set rs. nextid h1 \<le> a" "heap_ok h'"
          "\<forall>a<nextid h1. mem h' a = mem h1 a \<and> pbufs h' a = pbufs (link_last (qs @ [?a]) (hd rs) h1) a"
        unfolding eq using IH by auto
      then show ?thesis
      proof cases
        case (1 h')
        have "pbufs h1 |` (- set (qs @ [?a])) = pbufs h |` (- set qs)"
          "mem h1 |` (- set (qs @ [?a])) = mem h |` (- set qs)"
          using fresh [OF Suc.prems(1)] by (auto simp: fun_eq_iff restrict_map_def h1_def pbufs_link_last)
        moreover have "\<exists>i\<ge>?a. oom h i" using 1(5) h1(3) Suc_leD by (fastforce simp: h1_def)
        ultimately show ?thesis using 1 by auto
      next
        case (2 rs h')
        have rs: "rs \<noteq> []" using 2(2) by (cases rs) auto
        have a: "pbufs h' ?a = Some (b\<lparr>p_next := Some (hd rs)\<rparr>)" "mem h' ?a = mem h1 ?a"
          using 2(5) h1 by (simp_all add: pbufs_link_last)
        have "pool_chain h' (unat off) (unat rm) (?a # rs)"
          using a h1 rm rl rs 2(2) by (simp add: b_def pool_pbuf_def)
        moreover have "mem h' c = mem h c \<and> pbufs h' c = pbufs (link_last qs ?a h) c" if "c < ?a" for c
          using that 2(5) frame [OF that] h1(3) by (simp add: pbufs_link_last)
        moreover have "\<forall>c\<in>set (?a # rs). ?a \<le> c" using 2(3) h1(3) by auto
        ultimately show ?thesis using 2(1,4)
          by (intro disjI2 exI [of _ "?a # rs"] exI [of _ h']) simp
      qed
    qed
  qed
qed simp

lemma pupd_net: "pupd h p f = Inr h' \<Longrightarrow> net h' = net h \<and> oom h' = oom h"
  by (auto simp: pupd_def pget_def pset_def split: option.splits)

lemma pool_loop_net:
  "pbuf_alloc_pool_loop n h p lst rm off = Inr (Some q, h') \<Longrightarrow> net h' = net h \<and> oom h' = oom h"
proof (induction n arbitrary: h p lst rm off)
  case (Suc n)
  obtain r h1 where m: "memp_malloc h MEMP_PBUF_POOL = (r, h1)" by (cases "memp_malloc h MEMP_PBUF_POOL")
  then have h1: "net h1 = net h" "oom h1 = oom h" by (auto simp: memp_malloc_def mem_malloc_eq split: if_splits)
  show ?case
  proof (cases r)
    case None
    then show ?thesis using Suc.prems m by (auto simp: Let_def split: if_splits elim!: bnd_InrE)
  next
    case (Some x)
    have "net (pbuf_init_alloced_pbuf h1 r pl tl l ty fl) = net h1" "oom (pbuf_init_alloced_pbuf h1 r pl tl l ty fl) = oom h1" for pl tl l ty fl
      using Some by (simp_all add: pbuf_init_alloced_pbuf_def)
    then show ?thesis using Suc.prems m Some h1
      by (auto simp: Let_def lwip_assert_def split: if_splits elim!: bnd_InrE dest!: Suc.IH pupd_net)
  qed
qed simp

lemma pbuf_alloc_pool_cases:
  assumes "heap_ok h" and "layer < 1514"
  obtains (failed) h' where "pbuf_alloc h layer len PBUF_POOL = Inr (None, h')"
      "pbufs h' = pbufs h" "mem h' = mem h" "heap_ok h'" "\<exists>i\<ge>nextid h. oom h i"
    | (allocated) rs h' where "pbuf_alloc h layer len PBUF_POOL = Inr (Some (hd rs), h')"
      "pool_chain h' (unat layer) (unat len) rs" "\<forall>a\<in>set rs. nextid h \<le> a" "heap_ok h'"
      "\<forall>a<nextid h. mem h' a = mem h a \<and> pbufs h' a = pbufs h a" "net h' = net h" "oom h' = oom h"
proof -
  let ?l = "pbuf_alloc_pool_loop (Suc (unat len)) h None None len layer"
  have eq: "pbuf_alloc h layer len PBUF_POOL = ?l" by (simp add: pbuf_alloc_def)
  consider h' where "?l = Inr (None, h')" "pbufs h' = pbufs h" "mem h' = mem h" "heap_ok h'" "\<exists>i\<ge>nextid h. oom h i"
    | rs h' where "?l = Inr (Some (hd rs), h')" "pool_chain h' (unat layer) (unat len) rs" "\<forall>a\<in>set rs. nextid h \<le> a" "heap_ok h'"
      "\<forall>a<nextid h. mem h' a = mem h a \<and> pbufs h' a = pbufs h a"
    using pool_loop_correct [OF assms, of len "Suc (unat len)" None "[]" None]
    by (auto simp: link_last_def restrict_map_def simp del: pbuf_alloc_pool_loop.simps)
  then show ?thesis
  proof cases
    case 1
    then show ?thesis using that(1) eq by simp
  next
    case (2 rs h')
    then show ?thesis using that(2) [of rs h'] eq pool_loop_net [OF 2(1)] by simp
  qed
qed

end
