(* ===== verification/Pbuf_Chain.thy ===== *)
theory Pbuf_Chain
  imports Pbuf_Alloc
begin

text \<open>
  Operations on chains: shrinking (\<^verbatim>\<open>pbuf_realloc\<close>), concatenation (\<^verbatim>\<open>pbuf_cat\<close>, \<^verbatim>\<open>pbuf_chain\<close>),
  splitting off the first pbuf (\<^verbatim>\<open>pbuf_dechain\<close>), dropping data from the front
  (\<^verbatim>\<open>pbuf_free_header\<close>) and counting (\<^verbatim>\<open>pbuf_clen\<close>).
\<close>

section \<open>Updates that keep the data\<close>

text \<open>\<open>retot f h\<close> changes only \<^verbatim>\<open>tot_len\<close>, \<^verbatim>\<open>next\<close> or \<^verbatim>\<open>ref\<close> fields.\<close>

definition same_payloads :: "heap \<Rightarrow> heap \<Rightarrow> nat set \<Rightarrow> bool" where
  "same_payloads h h' S \<longleftrightarrow> (\<forall>a\<in>S. p_len (pb h' a) = p_len (pb h a) \<and> p_payload (pb h' a) = p_payload (pb h a)
     \<and> (\<forall>k. block h a = Some k \<longrightarrow> mem h' k = mem h k))"

lemma same_payloadsD:
  assumes "same_payloads h h' S" and "a \<in> S"
  shows "p_len (pb h' a) = p_len (pb h a)" and "seg h' a = seg h a" and "payload_ok h' a = payload_ok h a"
    and "block h' a = block h a"
  using assms seg_cong [of h' a h] by (auto simp: same_payloads_def)

lemma same_payloads_data: "same_payloads h h' (set qs) \<Longrightarrow> chain_data h' qs = chain_data h qs"
  by (rule chain_data_cong) (rule same_payloadsD(2))

lemma clen_loop_correct:
  assumes "path h p qs" and "length qs < n"
  shows "pbuf_clen_loop n h p len = Inr (len + of_nat (length qs))"
  using assms
proof (induction qs arbitrary: p n len)
  case (Cons a qs)
  then obtain b n' where "p = Some a" "pbufs h a = Some b" "path h (p_next b) qs" "n = Suc n'" "length qs < n'"
    by (cases n) (auto split: option.splits)
  with Cons.IH show ?case by (simp add: add.assoc)
qed simp

lemma pbuf_clen_correct: "heap_ok h \<Longrightarrow> path h p qs \<Longrightarrow> pbuf_clen h p = Inr (of_nat (length qs))"
  using clen_loop_correct [OF _ path_length] by (simp add: pbuf_clen_def)

lemma chain_upd_other [simp]:
  assumes "a \<notin> set qs"
  shows "chain_ok (h\<lparr>pbufs := (pbufs h)(a \<mapsto> c)\<rparr>) p qs = chain_ok h p qs"
    and "chain_data (h\<lparr>pbufs := (pbufs h)(a \<mapsto> c)\<rparr>) qs = chain_data h qs"
  using assms by (auto intro!: chain_cong)

section \<open>Concatenation\<close>

text \<open>Every pbuf of the first chain but the last has the length of the second added to \<^verbatim>\<open>tot_len\<close>.\<close>

definition add_tots :: "u16_t \<Rightarrow> nat set \<Rightarrow> heap \<Rightarrow> heap" where
  "add_tots t S h = h\<lparr>pbufs := (\<lambda>a. if a \<in> S then map_option (\<lambda>b. b\<lparr>p_tot_len := p_tot_len b + t\<rparr>) (pbufs h a)
      else pbufs h a)\<rparr>"

lemma add_tots_empty [simp]: "add_tots t {} h = h"
  by (simp add: add_tots_def)

lemma pbufs_add_tots: "pbufs (add_tots t S h) a = (if a \<in> S
    then map_option (\<lambda>b. b\<lparr>p_tot_len := p_tot_len b + t\<rparr>) (pbufs h a) else pbufs h a)"
  by (simp add: add_tots_def)

lemma add_tots_simps [simp]: "mem (add_tots t S h) = mem h" "nextid (add_tots t S h) = nextid h"
  by (simp_all add: add_tots_def)

lemma heap_ok_add_tots [simp]: "heap_ok (add_tots t S h) = heap_ok h"
  by (simp add: heap_ok_def pbufs_add_tots)

lemma add_tots_insert:
  assumes "pbufs h a = Some b" and "a \<notin> S"
  shows "add_tots t S (h\<lparr>pbufs := (pbufs h)(a \<mapsto> b\<lparr>p_tot_len := p_tot_len b + t\<rparr>)\<rparr>) = add_tots t (insert a S) h"
  using assms by (auto simp: add_tots_def fun_eq_iff intro!: heap.equality)

lemma add_tots_upd:
  "(add_tots t S (h\<lparr>pbufs := (pbufs h)(x \<mapsto> y)\<rparr>))\<lparr>pbufs := (pbufs (add_tots t S (h\<lparr>pbufs := (pbufs h)(x \<mapsto> y)\<rparr>)))(x \<mapsto> z)\<rparr>
   = (add_tots t S h)\<lparr>pbufs := (pbufs (add_tots t S h))(x \<mapsto> z)\<rparr>"
  by (auto simp: add_tots_def fun_eq_iff intro!: heap.equality)

lemma cat_loop_correct:
  assumes "path h p qs" and "qs \<noteq> []" and "length qs < n" and "pbufs h t = Some c" and "t \<notin> set qs"
  shows "pbuf_cat_loop n h p (Some t) = Inr (Some (last qs), add_tots (p_tot_len c) (set (butlast qs)) h)"
  using assms
proof (induction qs arbitrary: h p n)
  case (Cons a qs)
  then obtain b n' where b: "p = Some a" "pbufs h a = Some b" "path h (p_next b) qs"
    and n: "n = Suc n'" "length qs < n'" by (cases n) (auto split: option.splits)
  show ?case
  proof (cases "qs = []")
    case True
    then show ?thesis using b n by simp
  next
    case False
    let ?h = "h\<lparr>pbufs := (pbufs h)(a \<mapsto> b\<lparr>p_tot_len := p_tot_len b + p_tot_len c\<rparr>)\<rparr>"
    have nxt: "p_next b \<noteq> None" using b(3) False by (cases "p_next b") auto
    have a: "a \<notin> set qs" using path_distinct [OF Cons.prems(1)] by simp
    have "path ?h (p_next b) qs" using b a path_cong [of qs ?h h] by simp
    moreover have "pbufs ?h t = Some c" using Cons.prems(4,5) by simp
    ultimately have "pbuf_cat_loop n' ?h (p_next b) (Some t)
        = Inr (Some (last qs), add_tots (p_tot_len c) (set (butlast qs)) ?h)"
      using Cons.IH False n Cons.prems(5) by simp
    moreover have "a \<notin> set (butlast qs)" using a in_set_butlastD by fast
    ultimately show ?thesis
      using b n False nxt Cons.prems(4) add_tots_insert [OF b(2)] by simp
  qed
qed simp

lemma chain_ok_last:
  assumes "chain_ok h p qs" and "qs \<noteq> []"
  obtains b where "pbufs h (last qs) = Some b" and "p_next b = None" and "p_tot_len b = p_len b"
  using assms
proof (induction qs arbitrary: p thesis)
  case (Cons a qs)
  then obtain b where b: "pbufs h a = Some b" "chain_ok h (p_next b) qs"
    "unat (p_tot_len b) = unat (p_len b) + length (chain_data h qs)" by (auto simp: chain_ok_Cons)
  show ?case
  proof (cases "qs = []")
    case True
    then show ?thesis using Cons.prems(1) b by (simp add: word_unat_eq_iff)
  next
    case False
    then show ?thesis using Cons.IH [OF _ b(2)] Cons.prems(1) by auto
  qed
qed simp

text \<open>The heap after \<^verbatim>\<open>pbuf_cat\<close>.\<close>

definition cat_heap :: "nat list \<Rightarrow> nat \<Rightarrow> heap \<Rightarrow> heap" where
  "cat_heap qs t h = link_last qs t (add_tots (p_tot_len (pb h t)) (set qs) h)"

lemma pbuf_cat_eq:
  assumes "heap_ok h" and "chain_ok h (Some a) qs" and "pbufs h t = Some c" and "t \<notin> set qs"
  shows "pbuf_cat h (Some a) (Some t) = Inr (cat_heap qs t h)"
proof -
  have ne: "qs \<noteq> []" using assms(2) by auto
  obtain b where b: "pbufs h (last qs) = Some b" "p_next b = None" "p_tot_len b = p_len b"
    using chain_ok_last [OF assms(2) ne] .
  let ?S = "set (butlast qs)" and ?T = "p_tot_len c"
  have qs: "butlast qs @ [last qs] = qs" using ne by simp
  have dist: "last qs \<notin> ?S" using path_distinct [OF chain_ok_path [OF assms(2)]]
    by (metis qs distinct_append disjoint_iff list.set_intros(1))
  have "set qs = insert (last qs) ?S" using qs by (metis Un_insert_right empty_set list.simps(15) set_append sup_bot.right_neutral)
  then have fin: "add_tots ?T (set qs) h = add_tots ?T ?S (h\<lparr>pbufs := (pbufs h)(last qs \<mapsto> b\<lparr>p_tot_len := p_tot_len b + ?T\<rparr>)\<rparr>)"
    using add_tots_insert [OF b(1) dist] by simp
  have tne: "t \<notin> ?S" "t \<noteq> last qs" using assms(4) in_set_butlastD ne by (fastforce, force)
  show ?thesis
    using cat_loop_correct [OF chain_ok_path [OF assms(2)] ne chain_ok_length [OF assms(2,1)] assms(3,4)]
      b dist tne assms(3) ne fin
    by (simp add: pbuf_cat_def pget_def pbufs_add_tots pupd_def cat_heap_def link_last_def add_tots_upd)
qed

lemma pbufs_cat_heap:
  assumes "path h p qs"
  shows "pbufs (cat_heap qs t h) x
    = (if x \<in> set qs then map_option (\<lambda>b. b\<lparr>p_tot_len := p_tot_len b + p_tot_len (pb h t),
           p_next := (if x = last qs then Some t else p_next b)\<rparr>) (pbufs h x)
       else pbufs h x)"
proof (cases "x \<in> set qs")
  case True
  then obtain b where "pbufs h x = Some b" using path_alloced [OF assms] by blast
  with True show ?thesis
    by (auto simp: cat_heap_def pbufs_link_last pbufs_add_tots pb_def)
next
  case False
  then have "\<not> (qs \<noteq> [] \<and> x = last qs)" by auto
  with False show ?thesis by (auto simp: cat_heap_def pbufs_link_last pbufs_add_tots)
qed

lemma cat_heap_simps [simp]: "mem (cat_heap qs t h) = mem h" "nextid (cat_heap qs t h) = nextid h"
  by (simp_all add: cat_heap_def)

lemma cat_chain_ok:
  assumes "chain_ok h p us" and "chain_ok h' (Some t) rs" and "set us \<inter> set rs = {}"
    and "\<And>x. x \<in> set us \<Longrightarrow> pbufs h' x = map_option (\<lambda>b. b\<lparr>p_tot_len := p_tot_len b + tt,
           p_next := (if x = last us then Some t else p_next b)\<rparr>) (pbufs h x)"
    and "mem h' = mem h" and "unat tt = length (chain_data h' rs)"
    and "length (chain_data h us) + length (chain_data h' rs) < 65536" and "us \<noteq> []"
  shows "chain_ok h' p (us @ rs) \<and> chain_data h' us = chain_data h us"
  using assms
proof (induction us arbitrary: p)
  case (Cons a us)
  obtain b where b: "p = Some a" "pbufs h a = Some b" "payload_ok h a" "chain_ok h (p_next b) us"
    "unat (p_tot_len b) = unat (p_len b) + length (chain_data h us)"
    using Cons.prems(1) by (auto simp: chain_ok_Cons)
  have a: "a \<notin> set us" using path_distinct [OF chain_ok_path [OF Cons.prems(1)]] by simp
  let ?b = "b\<lparr>p_tot_len := p_tot_len b + tt, p_next := (if us = [] then Some t else p_next b)\<rparr>"
  have a': "pbufs h' a = Some ?b"
    using Cons.prems(4) [of a] b(2) a by (auto simp: last_in_set split: if_splits)
  have s: "seg h' a = seg h a" "payload_ok h' a" "length (seg h a) = unat (p_len b)"
    using seg_cong [of h' a h] a' b(2,3) Cons.prems(5) length_seg [OF b(3)] by simp_all
  have tot: "unat (p_tot_len b + tt) = unat (p_tot_len b) + unat tt"
    using Cons.prems(6,7) b(5) s(3) by (intro unat_add_no_wrap_16) simp
  show ?case
  proof (cases "us = []")
    case True
    then show ?thesis using a' s b tot Cons.prems(2,6) by (simp add: chain_ok_Cons)
  next
    case False
    have "chain_ok h' (p_next b) (us @ rs) \<and> chain_data h' us = chain_data h us"
    proof (rule Cons.IH [OF b(4) Cons.prems(2)])
      show "pbufs h' x = map_option (\<lambda>b. b\<lparr>p_tot_len := p_tot_len b + tt,
           p_next := (if x = last us then Some t else p_next b)\<rparr>) (pbufs h x)" if "x \<in> set us" for x
        using Cons.prems(4) [of x] that False by simp
    qed (use Cons.prems False in auto)
    with False a' s b tot Cons.prems(6) show ?thesis by (simp add: chain_ok_Cons)
  qed
qed simp

lemma chain_ok_cat_heap:
  assumes "heap_ok h" and "chain_ok h (Some a) qs" and "chain_ok h (Some t) rs" and "set qs \<inter> set rs = {}"
    and "length (chain_data h qs) + length (chain_data h rs) \<le> 65535"
  shows "chain_ok (cat_heap qs t h) (Some a) (qs @ rs)"
    and "chain_data (cat_heap qs t h) (qs @ rs) = chain_data h qs @ chain_data h rs"
proof -
  let ?h = "cat_heap qs t h"
  have ne: "qs \<noteq> []" using assms(2) by auto
  note pb = pbufs_cat_heap [OF chain_ok_path [OF assms(2)], of t]
  have rs: "chain_ok ?h (Some t) rs = chain_ok h (Some t) rs" "chain_data ?h rs = chain_data h rs"
    using assms(4) by (auto intro!: chain_cong simp: pb)
  have tt: "unat (p_tot_len (pb h t)) = length (chain_data ?h rs)"
    using chain_ok_tot_len [OF assms(3)] rs(2) by simp
  have "chain_ok ?h (Some a) (qs @ rs) \<and> chain_data ?h qs = chain_data h qs"
    by (rule cat_chain_ok [OF assms(2), where tt = "p_tot_len (pb h t)" and t = t])
      (use assms rs tt ne pb in auto)
  then show "chain_ok ?h (Some a) (qs @ rs)" "chain_data ?h (qs @ rs) = chain_data h qs @ chain_data h rs"
    using rs by simp_all
qed

section \<open>Shrinking\<close>

text \<open>
  The payload of a pbuf that stays must not lie in an object that is released with the rest of
  the chain: true of every pbuf whose data follows the struct, and of references to other memory.
\<close>

definition independent :: "heap \<Rightarrow> nat list \<Rightarrow> bool" where
  "independent h qs \<longleftrightarrow> (\<forall>u\<in>set qs. \<forall>v\<in>set qs. block h u = Some v \<longrightarrow> u = v)"

text \<open>The pbufs of a chain that \<^verbatim>\<open>pbuf_realloc\<close> keeps.\<close>

fun realloc_keep :: "heap \<Rightarrow> nat list \<Rightarrow> nat \<Rightarrow> nat list" where
  "realloc_keep h [] n = []"
| "realloc_keep h (a # qs) n = (if n > unat (p_len (pb h a)) then a # realloc_keep h qs (n - unat (p_len (pb h a)))
     else [a])"

lemma realloc_keep_cong: "(\<And>a. a \<in> set qs \<Longrightarrow> p_len (pb h' a) = p_len (pb h a)) \<Longrightarrow> realloc_keep h' qs n = realloc_keep h qs n"
  by (induction qs arbitrary: n) auto

lemma realloc_keep_prefix: "\<exists>vs. qs = realloc_keep h qs n @ vs"
  by (induction qs arbitrary: n) auto

lemma realloc_keep_ne: "qs \<noteq> [] \<Longrightarrow> realloc_keep h qs n \<noteq> []"
  by (cases qs) auto

text \<open>The loop: it subtracts \<open>shrink\<close> from the kept pbufs but the last, and stops at the last.\<close>

lemma realloc_loop_correct:
  assumes "chain_ok h p qs" and "length qs < n" and "unat rm < length (chain_data h qs)"
  shows "\<exists>us x. realloc_keep h qs (unat rm) = us @ [x]
     \<and> pbuf_realloc_loop n h p rm shrink
       = Inr (Some x, of_nat (unat rm - length (chain_data h us)), add_tots (- shrink) (set us) h)
     \<and> length (chain_data h us) \<le> unat rm \<and> unat rm - length (chain_data h us) \<le> unat (p_len (pb h x))"
  using assms
proof (induction qs arbitrary: h p n rm)
  case (Cons a qs)
  then obtain b n' where b: "p = Some a" "pbufs h a = Some b" "payload_ok h a" "chain_ok h (p_next b) qs"
    and n: "n = Suc n'" "length qs < n'" by (cases n) (auto simp: chain_ok_Cons)
  have l: "length (seg h a) = unat (p_len b)" using b by (simp add: length_seg)
  show ?case
  proof (cases "rm > p_len b")
    case False
    then show ?thesis using b n
      by (intro exI [of _ "[]"] exI [of _ a]) (simp add: word_less_nat_alt)
  next
    case True
    let ?h = "h\<lparr>pbufs := (pbufs h)(a \<mapsto> b\<lparr>p_tot_len := p_tot_len b - shrink\<rparr>)\<rparr>"
    have a: "a \<notin> set qs" using path_distinct [OF chain_ok_path [OF Cons.prems(1)]] by simp
    have rm: "unat (rm - p_len b) = unat rm - unat (p_len b)" "unat (p_len b) < unat rm"
      using True by (simp_all add: unat_sub_word word_less_nat_alt word_le_nat_alt)
    have qs: "chain_ok ?h (p_next b) qs" "chain_data ?h qs = chain_data h qs"
      using a b(4) by simp_all
    have lt: "unat (rm - p_len b) < length (chain_data h qs)" using Cons.prems(3) rm l by simp
    then have "qs \<noteq> []" by auto
    then have nxt: "p_next b \<noteq> None" using b(4) by (cases "p_next b") auto
    obtain us x where IH: "realloc_keep ?h qs (unat (rm - p_len b)) = us @ [x]"
      "pbuf_realloc_loop n' ?h (p_next b) (rm - p_len b) shrink
       = Inr (Some x, of_nat (unat (rm - p_len b) - length (chain_data ?h us)), add_tots (- shrink) (set us) ?h)"
      "length (chain_data ?h us) \<le> unat (rm - p_len b)"
      "unat (rm - p_len b) - length (chain_data ?h us) \<le> unat (p_len (pb ?h x))"
      using Cons.IH [OF qs(1) n(2), of "rm - p_len b"] lt qs(2) by auto
    have keep: "realloc_keep ?h qs m = realloc_keep h qs m" for m
      using a by (intro realloc_keep_cong) auto
    obtain vs where "qs = (us @ [x]) @ vs" using realloc_keep_prefix [of qs h] IH(1) keep by metis
    then have us: "set us \<subseteq> set qs" "x \<in> set qs" "x \<noteq> a" using a by auto
    have dus: "chain_data ?h us = chain_data h us"
      using a us by (intro chain_upd_other(2)) auto
    have fin: "add_tots (- shrink) (set us) ?h = add_tots (- shrink) (set (a # us)) h"
      using add_tots_insert [OF b(2), of "set us" "- shrink"] a us by auto
    show ?thesis
      using IH b n nxt True rm keep fin dus l us a
      by (intro exI [of _ "a # us"] exI [of _ x]) (auto simp: Let_def)
  qed
qed simp

lemma seg_shorter:
  assumes "payload_ok h x" and "p_payload (pb h' x) = p_payload (pb h x)" and "mem h' = mem h"
    and "unat (p_len (pb h' x)) \<le> unat (p_len (pb h x))"
  shows "payload_ok h' x" and "seg h' x = take (unat (p_len (pb h' x))) (seg h x)"
proof -
  have "payload_ok h' x \<and> seg h' x = take (unat (p_len (pb h' x))) (seg h x)"
  proof (cases "p_len (pb h' x) = 0")
    case True
    then show ?thesis by (simp add: payload_ok_def seg_def)
  next
    case False
    then have "p_len (pb h x) \<noteq> 0" using assms(4) by (auto simp: unat_eq_zero)
    with assms(1) obtain k i bs where "p_payload (pb h x) = Some (k, i)" "mem h k = Some bs"
      "0 \<le> i" "nat i + unat (p_len (pb h x)) \<le> length bs"
      by (auto simp: payload_ok_def split: option.splits)
    with assms(2-4) False \<open>p_len (pb h x) \<noteq> 0\<close> show ?thesis
      by (simp add: payload_ok_def seg_def min_absorb1)
  qed
  then show "payload_ok h' x" "seg h' x = take (unat (p_len (pb h' x))) (seg h x)" by simp_all
qed

lemma shrink_chain_ok:
  assumes "chain_ok h p (us @ x # vs)"
    and "\<And>u. u \<in> set us \<Longrightarrow> pbufs h' u = map_option (\<lambda>b. b\<lparr>p_tot_len := p_tot_len b - shrink\<rparr>) (pbufs h u)"
    and "pbufs h' x = Some ((pb h x)\<lparr>p_len := rm, p_tot_len := rm, p_next := None\<rparr>)"
    and "mem h' = mem h" and "unat rm \<le> unat (p_len (pb h x))"
    and "unat shrink + unat rm = length (chain_data h (x # vs))"
  shows "chain_ok h' p (us @ [x]) \<and> chain_data h' (us @ [x]) = chain_data h us @ take (unat rm) (seg h x)"
  using assms(1,2)
proof (induction us arbitrary: p)
  case Nil
  then obtain c where c: "p = Some x" "pbufs h x = Some c" "payload_ok h x" by (auto simp: chain_ok_Cons)
  have "p_payload (pb h' x) = p_payload (pb h x)" "p_len (pb h' x) = rm"
    using assms(3) by simp_all
  with seg_shorter [OF c(3) _ assms(4), of] assms(5) have "payload_ok h' x" "seg h' x = take (unat rm) (seg h x)"
    by simp_all
  with c(1) assms(3) show ?case by (simp add: chain_ok_Cons)
next
  case (Cons u us)
  obtain b where b: "p = Some u" "pbufs h u = Some b" "payload_ok h u" "chain_ok h (p_next b) (us @ x # vs)"
    "unat (p_tot_len b) = unat (p_len b) + length (chain_data h (us @ x # vs))"
    using Cons.prems(1) by (auto simp: chain_ok_Cons)
  have IH: "chain_ok h' (p_next b) (us @ [x])" "chain_data h' (us @ [x]) = chain_data h us @ take (unat rm) (seg h x)"
    using Cons.IH [OF b(4)] Cons.prems(2) by simp_all
  have u': "pbufs h' u = Some (b\<lparr>p_tot_len := p_tot_len b - shrink\<rparr>)" using Cons.prems(2) b(2) by simp
  have s: "seg h' u = seg h u" "payload_ok h' u" "length (seg h u) = unat (p_len b)"
    using seg_cong [of h' u h] u' b(2,3) assms(4) length_seg [OF b(3)] by simp_all
  have x: "payload_ok h x" using chain_ok_payload [OF Cons.prems(1)] by simp
  have "unat shrink \<le> unat (p_tot_len b)" using b(5) assms(6) by simp
  then have "unat (p_tot_len b - shrink) = unat (p_tot_len b) - unat shrink"
    by (simp add: unat_sub_word word_le_nat_alt)
  also have "\<dots> = unat (p_len b) + length (chain_data h' (us @ [x]))"
    using b(5) assms(5,6) IH(2) length_seg [OF x] by simp
  finally have tot: "unat (p_tot_len b - shrink) = unat (p_len b) + length (chain_data h' (us @ [x]))" .
  have "length (chain_data h' us) + length (seg h' x) = length (chain_data h us) + min (length (seg h x)) (unat rm)"
    using arg_cong [OF IH(2), of length] by simp
  with tot IH u' s b show ?case by (simp add: chain_ok_Cons)
qed

lemma free_spec_frame:
  assumes "path h p vs" and "a \<notin> set vs"
  shows "pbufs (free_spec h vs) a = pbufs h a" and "mem (free_spec h vs) a = mem h a"
proof -
  have tw: "a \<notin> set (takeWhile (once h) vs)" using assms(2) set_takeWhileD by fast
  have "c \<in> set vs" if "dropWhile (once h) vs = c # cs" for c cs
    using that by (metis list.set_intros(1) set_dropWhileD)
  then have "dropWhile (once h) vs = c # cs \<Longrightarrow> c \<noteq> a" for c cs using assms(2) by blast
  with tw show "pbufs (free_spec h vs) a = pbufs h a" "mem (free_spec h vs) a = mem h a"
    by (auto simp: free_spec_def Let_def unref_def restrict_map_def split: list.split)
qed

lemma free_spec_cong:
  assumes "\<And>v. v \<in> set vs \<Longrightarrow> pbufs h' v = pbufs h v" and "q \<in> set vs"
  shows "pbufs (free_spec h' vs) q = pbufs (free_spec h vs) q"
proof -
  have once: "once h' v = once h v" if "v \<in> set vs" for v using assms(1) [OF that] by (simp add: once_def pb_def)
  have tw: "takeWhile (once h') vs = takeWhile (once h) vs" "dropWhile (once h') vs = dropWhile (once h) vs"
    using once by (auto intro: takeWhile_cong dropWhile_cong)
  have "c \<in> set vs" if "dropWhile (once h) vs = c # cs" for c cs
    using that by (metis list.set_intros(1) set_dropWhileD)
  note c = this
  show ?thesis
  proof (cases "dropWhile (once h) vs")
    case Nil
    then show ?thesis using assms by (simp add: free_spec_def tw restrict_map_def del: dropWhile_eq_Nil_conv)
  next
    case (Cons x xs)
    then show ?thesis using assms c
      by (simp add: free_spec_def tw unref_def restrict_map_def pb_def del: dropWhile_eq_Nil_conv)
  qed
qed

lemma path_suffix: "path h p (us @ x # vs) \<Longrightarrow> pbufs h x = Some c \<Longrightarrow> path h (p_next c) vs"
  using path_append [of h p us x vs] by simp

text \<open>
  The heap after \<^verbatim>\<open>pbuf_realloc\<close>: \<open>us\<close> are the pbufs that stay whole, \<open>x\<close> (the pbuf \<open>c\<close>) is the one that is cut to \<open>rm\<close>
  bytes, \<open>vs\<close> are freed.
\<close>

definition realloc_cut :: "heap \<Rightarrow> nat list \<Rightarrow> nat \<Rightarrow> pbuf \<Rightarrow> u16_t \<Rightarrow> u16_t \<Rightarrow> heap" where
  "realloc_cut h us x c rm shrink =
     (let h1 = add_tots (- shrink) (set us) h in h1\<lparr>pbufs := (pbufs h1)(x \<mapsto> c\<lparr>p_len := rm, p_tot_len := rm\<rparr>)\<rparr>)"

definition realloc_heap :: "heap \<Rightarrow> nat list \<Rightarrow> nat \<Rightarrow> nat list \<Rightarrow> pbuf \<Rightarrow> u16_t \<Rightarrow> u16_t \<Rightarrow> heap" where
  "realloc_heap h us x vs c rm shrink =
     (let h3 = free_spec (realloc_cut h us x c rm shrink) vs
      in h3\<lparr>pbufs := (pbufs h3)(x \<mapsto> c\<lparr>p_len := rm, p_tot_len := rm, p_next := None\<rparr>)\<rparr>)"

lemma realloc_cut_other:
  assumes "v \<notin> set us" and "v \<noteq> x"
  shows "pbufs (realloc_cut h us x c rm shrink) v = pbufs h v"
  using assms by (simp add: realloc_cut_def pbufs_add_tots Let_def)

lemma realloc_cut_simps [simp]:
  "mem (realloc_cut h us x c rm shrink) = mem h" "nextid (realloc_cut h us x c rm shrink) = nextid h"
  by (simp_all add: realloc_cut_def Let_def)

lemma realloc_run:
  assumes "heap_ok h" and "chain_ok h (Some a) qs" and "\<forall>q\<in>set qs. freeable h q" and "unat new_len < length (chain_data h qs)"
  obtains us x vs c rm shrink where "qs = us @ x # vs" and "realloc_keep h qs (unat new_len) = us @ [x]" and "pbufs h x = Some c"
    and "length (chain_data h us) \<le> unat new_len" and "unat rm = unat new_len - length (chain_data h us)" and "unat rm \<le> unat (p_len c)"
    and "unat shrink + unat rm = length (chain_data h (x # vs))" and "path (realloc_cut h us x c rm shrink) (p_next c) vs"
    and "pbuf_realloc h (Some a) new_len = Inr (realloc_heap h us x vs c rm shrink)" and "heap_ok (realloc_cut h us x c rm shrink)"
proof -
  obtain b where b: "pbufs h a = Some b" "unat (p_tot_len b) = length (chain_data h qs)"
    using assms(2) chain_ok_tot_len [OF assms(2)] by (auto simp: chain_ok_Some)
  define shrink where "shrink = p_tot_len b - new_len"
  have sh: "unat shrink = length (chain_data h qs) - unat new_len"
    using b(2) assms(4) by (simp add: shrink_def unat_sub_word word_le_nat_alt)
  obtain us x where l: "realloc_keep h qs (unat new_len) = us @ [x]"
     "pbuf_realloc_loop (fuel h) h (Some a) new_len shrink
       = Inr (Some x, of_nat (unat new_len - length (chain_data h us)), add_tots (- shrink) (set us) h)"
     "length (chain_data h us) \<le> unat new_len" "unat new_len - length (chain_data h us) \<le> unat (p_len (pb h x))"
    using realloc_loop_correct [OF assms(2) chain_ok_length [OF assms(2,1)] assms(4)] by blast
  obtain vs where "qs = realloc_keep h qs (unat new_len) @ vs" using realloc_keep_prefix by blast
  then have qs: "qs = us @ x # vs" using l(1) by simp
  define rm :: u16_t where "rm = of_nat (unat new_len - length (chain_data h us))"
  have rm: "unat rm = unat new_len - length (chain_data h us)"
    unfolding rm_def using unat_lt_16 [of new_len] by (intro unat_of_nat_16) linarith
  have dist: "distinct (us @ x # vs)" using path_distinct [OF chain_ok_path [OF assms(2)]] qs by simp
  obtain c where c: "pbufs h x = Some c" using chain_ok_pbufsE [OF assms(2), of x] qs by auto
  let ?h2 = "realloc_cut h us x c rm shrink"
  have x1: "pbufs (add_tots (- shrink) (set us) h) x = Some c" using c dist by (simp add: pbufs_add_tots)
  have vs2: "pbufs ?h2 v = pbufs h v" if "v \<in> set vs" for v using dist that by (intro realloc_cut_other) auto
  have ok2: "heap_ok ?h2" unfolding realloc_cut_def Let_def by (rule heap_ok_upd [OF _ x1]) (simp add: assms(1))
  have pth: "path ?h2 (p_next c) vs"
    using path_suffix [OF chain_ok_path [OF assms(2), unfolded qs] c] path_cong [of vs ?h2 h] vs2 by simp
  have fr2: "\<forall>v\<in>set vs. freeable ?h2 v" using assms(3) vs2 by (simp add: qs freeable_iff)
  have h3: "(if p_next c \<noteq> None then pbuf_free ?h2 (p_next c) else Inr (0, ?h2))
      = Inr (of_nat (length (takeWhile (once ?h2) vs)), free_spec ?h2 vs)"
    using pth pbuf_free_correct [OF ok2 _ fr2] by (cases "p_next c") (auto simp: free_spec_def)
  have x3: "pbufs (free_spec ?h2 vs) x = Some (c\<lparr>p_len := rm, p_tot_len := rm\<rparr>)"
    using free_spec_frame(1) [OF pth, of x] dist by (simp add: realloc_cut_def Let_def)
  have "new_len < p_tot_len b" using b(2) assms(4) by (simp add: word_less_nat_alt)
  then have "pbuf_realloc h (Some a) new_len = Inr (realloc_heap h us x vs c rm shrink)"
    using b(1) l(2) x1 h3 x3
    by (auto simp: pbuf_realloc_def shrink_def [symmetric] rm_def [symmetric] Let_def mem_trim_def pupd_def not_le realloc_heap_def
        realloc_cut_def)
  moreover have "unat shrink + unat rm = length (chain_data h (x # vs))" using sh rm l(3) assms(4) qs by simp
  ultimately show thesis using that [OF qs l(1) c l(3) rm _ _ pth] rm l(4) c ok2 by simp
qed

lemma realloc_keeps:
  assumes "chain_ok h (Some a) (us @ x # vs)" and "pbufs h x = Some c" and "path (realloc_cut h us x c rm shrink) (p_next c) vs"
  shows "q \<notin> set vs \<Longrightarrow> mem (realloc_heap h us x vs c rm shrink) q = mem h q"
    and "q \<in> set us \<Longrightarrow> pbufs (realloc_heap h us x vs c rm shrink) q
      = map_option (\<lambda>b. b\<lparr>p_tot_len := p_tot_len b - shrink\<rparr>) (pbufs h q)"
    and "pbufs (realloc_heap h us x vs c rm shrink) x = Some (c\<lparr>p_len := rm, p_tot_len := rm, p_next := None\<rparr>)"
    and "q \<notin> set (us @ x # vs) \<Longrightarrow> pbufs (realloc_heap h us x vs c rm shrink) q = pbufs h q"
proof -
  note frame = free_spec_frame [OF assms(3)]
  have dist: "distinct (us @ x # vs)" using path_distinct [OF chain_ok_path [OF assms(1)]] by simp
  show "q \<notin> set vs \<Longrightarrow> mem (realloc_heap h us x vs c rm shrink) q = mem h q"
    using frame(2) [of q] by (simp add: realloc_heap_def Let_def)
  show "pbufs (realloc_heap h us x vs c rm shrink) q
      = map_option (\<lambda>b. b\<lparr>p_tot_len := p_tot_len b - shrink\<rparr>) (pbufs h q)" if q: "q \<in> set us"
  proof -
    have "q \<notin> set vs" "q \<noteq> x" using q dist by auto
    then show ?thesis using frame(1) [of q] q by (simp add: realloc_heap_def realloc_cut_def Let_def pbufs_add_tots)
  qed
  show "pbufs (realloc_heap h us x vs c rm shrink) x = Some (c\<lparr>p_len := rm, p_tot_len := rm, p_next := None\<rparr>)"
    by (simp add: realloc_heap_def Let_def)
  show "q \<notin> set (us @ x # vs) \<Longrightarrow> pbufs (realloc_heap h us x vs c rm shrink) q = pbufs h q"
    using frame(1) [of q] realloc_cut_other [of q us x h] by (simp add: realloc_heap_def Let_def)
qed

lemma realloc_block:
  assumes "chain_ok h (Some a) (us @ x # vs)" and "pbufs h x = Some c" and "path (realloc_cut h us x c rm shrink) (p_next c) vs"
    and "unat rm \<le> unat (p_len c)" and "u \<in> set (us @ [x])" and "block (realloc_heap h us x vs c rm shrink) u = Some k"
  shows "block h u = Some k"
proof (cases "u = x")
  case True
  have "p_len c \<noteq> 0" if "rm \<noteq> 0" using that assms(4) by (auto simp: unat_eq_zero [symmetric])
  then show ?thesis using True assms(2,6) realloc_keeps(3) [OF assms(1-3)] by (auto simp: block_def split: if_splits)
next
  case False
  then have u: "u \<in> set us" using assms(5) by simp
  then obtain d where "pbufs h u = Some d" using chain_ok_pbufsE [OF assms(1), of u] by auto
  then show ?thesis using assms(6) realloc_keeps(2) [OF assms(1-3) u] by (simp add: block_def split: if_splits)
qed

lemma realloc_chain:
  assumes "chain_ok h (Some a) (us @ x # vs)" and "pbufs h x = Some c" and "path (realloc_cut h us x c rm shrink) (p_next c) vs"
    and "unat rm \<le> unat (p_len c)" and "unat shrink + unat rm = length (chain_data h (x # vs))" and "independent h (us @ x # vs)"
    and "h' = realloc_heap h us x vs c rm shrink"
  shows "chain_ok h' (Some a) (us @ [x])" and "chain_data h' (us @ [x]) = chain_data h us @ take (unat rm) (seg h x)"
proof -
  note keeps = realloc_keeps [OF assms(1-3), folded assms(7)]
  let ?g = "h'\<lparr>mem := mem h\<rparr>"
  have dist: "distinct (us @ x # vs)" using path_distinct [OF chain_ok_path [OF assms(1)]] by simp
  have k: "chain_ok ?g (Some a) (us @ [x]) \<and> chain_data ?g (us @ [x]) = chain_data h us @ take (unat rm) (seg h x)"
    by (rule shrink_chain_ok [OF assms(1), of _ shrink]) (use keeps(2,3) assms(2,4,5) in auto)
  have "mem h' j = mem ?g j" if "u \<in> set (us @ [x])" "block ?g u = Some j" for u j
  proof -
    have "block h u = Some j" using realloc_block [OF assms(1-4) that(1)] that(2) assms(7) by (simp add: block_def pb_def)
    then have "j \<notin> set vs" using assms(6) that(1) dist by (auto simp: independent_def)
    then show ?thesis using keeps(1) by simp
  qed
  then show "chain_ok h' (Some a) (us @ [x])" "chain_data h' (us @ [x]) = chain_data h us @ take (unat rm) (seg h x)"
    using chain_cong [of "us @ [x]" h' ?g] k by simp_all
qed

lemma realloc_data:
  assumes "chain_ok h (Some a) qs" and "qs = us @ x # vs" and "pbufs h x = Some c" and "length (chain_data h us) \<le> n"
    and "unat rm = n - length (chain_data h us)" and "unat rm \<le> unat (p_len c)"
  shows "take n (chain_data h qs) = chain_data h us @ take (unat rm) (seg h x)"
proof -
  have "payload_ok h x" using chain_ok_payload [OF assms(1)] assms(2) by simp
  then have "unat rm \<le> length (seg h x)" using assms(3,6) by (simp add: length_seg)
  then show ?thesis using assms(2,4,5) by simp
qed

text \<open>
  C34: \<^verbatim>\<open>pbuf_realloc\<close> to a smaller size keeps exactly the first \<open>new_len\<close> bytes, in the pbufs that are
  needed for them, and frees the rest of the chain.
\<close>

theorem pbuf_realloc_correct:
  assumes "heap_ok h" and "chain_ok h (Some a) qs" and "\<forall>q\<in>set qs. freeable h q" and "independent h qs"
    and "unat new_len < length (chain_data h qs)"
  shows "\<exists>h' us vs. qs = us @ vs \<and> us = realloc_keep h qs (unat new_len)
     \<and> pbuf_realloc h (Some a) new_len = Inr h' \<and> chain_ok h' (Some a) us
     \<and> chain_data h' us = take (unat new_len) (chain_data h qs)
     \<and> (\<forall>q\<in>set vs. pbufs h' q = pbufs (free_spec h vs) q)"
proof -
  obtain us x vs c rm shrink where r: "qs = us @ x # vs" "realloc_keep h qs (unat new_len) = us @ [x]" "pbufs h x = Some c"
    "length (chain_data h us) \<le> unat new_len" "unat rm = unat new_len - length (chain_data h us)" "unat rm \<le> unat (p_len c)"
    "unat shrink + unat rm = length (chain_data h (x # vs))" "path (realloc_cut h us x c rm shrink) (p_next c) vs"
    "pbuf_realloc h (Some a) new_len = Inr (realloc_heap h us x vs c rm shrink)"
    by (rule realloc_run [OF assms(1-3,5)])
  have dist: "distinct (us @ x # vs)" using path_distinct [OF chain_ok_path [OF assms(2)]] r(1) by simp
  have "pbufs (realloc_cut h us x c rm shrink) v = pbufs h v" if "v \<in> set vs" for v using dist that by (intro realloc_cut_other) auto
  then have "\<forall>q\<in>set vs. pbufs (realloc_heap h us x vs c rm shrink) q = pbufs (free_spec h vs) q"
    using free_spec_cong [of vs "realloc_cut h us x c rm shrink" h] dist by (auto simp: realloc_heap_def Let_def)
  then show ?thesis
    using realloc_chain [OF assms(2) [unfolded r(1)] r(3,8,6,7) assms(4) [unfolded r(1)] refl] realloc_data [OF assms(2) r(1,3-6)] r
    by (intro exI [of _ "realloc_heap h us x vs c rm shrink"] exI [of _ "us @ [x]"] exI [of _ vs]) simp
qed

text \<open>The case of a packet nothing else refers to.\<close>

lemma pbuf_realloc_packet:
  assumes "heap_ok h" and "chain_ok h (Some a) qs" and "\<forall>q\<in>set qs. freeable h q \<and> once h q" and "independent h qs"
    and "unat new_len < length (chain_data h qs)"
  shows "\<exists>h' us vs. qs = us @ vs \<and> us \<noteq> [] \<and> pbuf_realloc h (Some a) new_len = Inr h' \<and> heap_ok h' \<and> chain_ok h' (Some a) us
     \<and> chain_data h' us = take (unat new_len) (chain_data h qs) \<and> net h' = net h \<and> nextid h' = nextid h \<and> oom h' = oom h
     \<and> (\<forall>q. q \<notin> set vs \<longrightarrow> mem h' q = mem h q) \<and> (\<forall>q. q \<notin> set qs \<longrightarrow> pbufs h' q = pbufs h q)
     \<and> (\<forall>q\<in>set vs. pbufs h' q = None \<and> mem h' q = None)
     \<and> (\<forall>q\<in>set us. \<exists>b b'. pbufs h q = Some b \<and> pbufs h' q = Some b' \<and> p_payload b' = p_payload b \<and> p_ref b' = p_ref b
          \<and> p_type_internal b' = p_type_internal b \<and> p_flags b' = p_flags b \<and> p_len b' \<le> p_len b)"
proof -
  have "\<forall>q\<in>set qs. freeable h q" using assms(3) by simp
  from realloc_run [OF assms(1,2) this assms(5)] obtain us x vs c rm shrink where r: "qs = us @ x # vs" "pbufs h x = Some c"
    "length (chain_data h us) \<le> unat new_len" "unat rm = unat new_len - length (chain_data h us)" "unat rm \<le> unat (p_len c)"
    "unat shrink + unat rm = length (chain_data h (x # vs))" "path (realloc_cut h us x c rm shrink) (p_next c) vs"
    "pbuf_realloc h (Some a) new_len = Inr (realloc_heap h us x vs c rm shrink)" "heap_ok (realloc_cut h us x c rm shrink)"
    by metis
  let ?cut = "realloc_cut h us x c rm shrink" and ?h = "realloc_heap h us x vs c rm shrink"
  have dist: "distinct (us @ x # vs)" using path_distinct [OF chain_ok_path [OF assms(2)]] r(1) by simp
  note keeps = realloc_keeps [OF assms(2) [unfolded r(1)] r(2,7)]
  have "once ?cut v" if "v \<in> set vs" for v
  proof -
    have "v \<notin> set us" "v \<noteq> x" "once h v" using assms(3) r(1) that dist by auto
    then show ?thesis using realloc_cut_other [of v us x h c rm shrink] by (simp add: once_def pb_def)
  qed
  then have "takeWhile (once ?cut) vs = vs" "dropWhile (once ?cut) vs = []" by (simp_all add: takeWhile_eq_all_conv dropWhile_eq_Nil_conv)
  then have fs: "free_spec ?cut vs = drop_objs (set vs) ?cut" by (simp only: free_spec_def Let_def list.case)
  have "pbufs (drop_objs (set vs) ?cut) x = Some (c\<lparr>p_len := rm, p_tot_len := rm\<rparr>)"
    using dist by (simp add: realloc_cut_def restrict_map_def Let_def)
  then have ok: "heap_ok ?h" unfolding realloc_heap_def Let_def fs using heap_ok_upd [OF heap_ok_drop [OF r(9)]] by blast
  have gone: "\<forall>q\<in>set vs. pbufs ?h q = None \<and> mem ?h q = None"
    using dist by (auto simp: realloc_heap_def fs restrict_map_def Let_def)
  have same: "net ?h = net h" "nextid ?h = nextid h" "oom ?h = oom h"
    by (simp_all add: realloc_heap_def fs Let_def) (simp_all add: realloc_cut_def add_tots_def drop_objs_def Let_def)
  have kept: "\<exists>b b'. pbufs h q = Some b \<and> pbufs ?h q = Some b' \<and> p_payload b' = p_payload b \<and> p_ref b' = p_ref b
      \<and> p_type_internal b' = p_type_internal b \<and> p_flags b' = p_flags b \<and> p_len b' \<le> p_len b" if "q \<in> set (us @ [x])" for q
  proof (cases "q = x")
    case True
    then show ?thesis using keeps(3) r(2,5) by (simp add: word_le_nat_alt)
  next
    case False
    then have q: "q \<in> set us" using that by simp
    then obtain b where "pbufs h q = Some b" using chain_ok_pbufsE [OF assms(2), of q] r(1) by auto
    then show ?thesis using keeps(2) [OF q] by simp
  qed
  show ?thesis
    using realloc_chain [OF assms(2) [unfolded r(1)] r(2,7,5,6) assms(4) [unfolded r(1)] refl] realloc_data [OF assms(2) r(1-5)] r ok gone same kept keeps
    by (intro exI [of _ ?h] exI [of _ "us @ [x]"] exI [of _ vs]) simp
qed

section \<open>Splitting off the first pbuf\<close>

text \<open>
  \<^verbatim>\<open>pbuf_dechain\<close> cuts the first pbuf off: it stays as a packet of its own, the tail loses one
  reference, and the result is the tail unless it was released with that reference. (The tail has
  fewer than 256 pbufs: the count of released pbufs is an 8 bit number.)
\<close>

theorem pbuf_dechain_correct:
  assumes "heap_ok h" and "chain_ok h (Some a) (a # q # qs)" and "\<forall>v\<in>set (q # qs). freeable h v"
    and "pbufs h a = Some b" and "length (q # qs) < 256"
  shows "\<exists>h'. pbuf_dechain h (Some a) = Inr (if once h q then None else Some q, h')
     \<and> pbufs h' a = Some (b\<lparr>p_next := None, p_tot_len := p_len b\<rparr>)
     \<and> (\<forall>v\<in>set (q # qs). pbufs h' v = pbufs (free_spec h (q # qs)) v)"
proof -
  obtain c where c: "pbufs h q = Some c" "p_next b = Some q" "path h (Some q) (q # qs)"
    "unat (p_tot_len b) = unat (p_len b) + unat (p_tot_len c)"
    using assms(2,4) chain_ok_tot_len [of h q "q # qs"] chain_ok_path [of h "Some q" "q # qs"]
    by (auto simp: chain_ok_Cons)
  have dist: "a \<notin> set (q # qs)" using path_distinct [OF chain_ok_path [OF assms(2)]] by simp
  have sub: "p_tot_len b - p_len b = p_tot_len c"
    using c(4) by (simp add: word_unat_eq_iff unat_sub_word word_le_nat_alt)
  define b' where "b' = b\<lparr>p_next := None, p_tot_len := p_len b\<rparr>"
  define h1 where "h1 = h\<lparr>pbufs := (pbufs h)(a \<mapsto> b')\<rparr>"
  have ok1: "heap_ok h1" unfolding h1_def by (rule heap_ok_upd [OF assms(1,4)])
  have eq: "pbufs h1 v = pbufs h v" "mem h1 = mem h" if "v \<in> set (q # qs)" for v
    using that dist by (auto simp: h1_def)
  have pth: "path h1 (Some q) (q # qs)" using c(3) path_cong [of "q # qs" h1 h] eq by metis
  have fr: "\<forall>v\<in>set (q # qs). freeable h1 v"
    using assms(3) eq by (simp add: freeable_iff)
  have free: "pbuf_free h1 (Some q) = Inr (of_nat (length (takeWhile (once h1) (q # qs))), free_spec h1 (q # qs))"
    by (rule pbuf_free_correct [OF ok1 pth fr])
  have self: "(pbufs h)(q \<mapsto> c) = pbufs h" using c(1) by (simp add: fun_upd_idem)
  have a1: "pbufs (free_spec h1 (q # qs)) a = Some b'"
    using free_spec_frame(1) [OF pth dist] by (simp add: h1_def)
  have once: "once h1 q = once h q" using eq(1) [of q] by (simp add: once_def pb_def)
  have "length (takeWhile (once h1) (q # qs)) \<le> length (q # qs)" by (rule length_takeWhile_le)
  then have "unat (of_nat (length (takeWhile (once h1) (q # qs))) :: u8_t) = length (takeWhile (once h1) (q # qs))"
    using assms(5) by (subst unat_of_nat) (simp del: takeWhile.simps)
  then have cnt: "(of_nat (length (takeWhile (once h1) (q # qs))) :: u8_t) > 0 \<longleftrightarrow> once h q"
    using once by (simp add: word_less_nat_alt del: takeWhile.simps) simp
  have h1: "h1 = h\<lparr>pbufs := ((pbufs h)(q \<mapsto> c\<lparr>p_tot_len := p_tot_len c\<rparr>))(a \<mapsto> b')\<rparr>"
    using self by (simp add: h1_def)
  have "pbuf_dechain h (Some a) = Inr (if once h q then None else Some q, free_spec h1 (q # qs))"
    using assms(4) c(1,2,4) dist sub free cnt a1
    by (simp add: pbuf_dechain_def pupd_def self h1_def b'_def)
  moreover have "pbufs (free_spec h1 (q # qs)) v = pbufs (free_spec h (q # qs)) v" if "v \<in> set (q # qs)" for v
    by (rule free_spec_cong [OF eq(1) that])
  ultimately show ?thesis using a1 b'_def by blast
qed

section \<open>Dropping data from the front\<close>

lemma heap_ok_free_spec:
  assumes "heap_ok h" and "path h p vs"
  shows "heap_ok (free_spec h vs)"
proof (cases "dropWhile (once h) vs")
  case (Cons x xs)
  let ?h = "drop_objs (set (takeWhile (once h) vs)) h"
  have vs: "vs = takeWhile (once h) vs @ x # xs" using Cons by (metis takeWhile_dropWhile_id)
  then have "x \<in> set vs" by (metis in_set_conv_decomp)
  then obtain b where b: "pbufs h x = Some b" using path_alloced [OF assms(2)] by blast
  have "x \<notin> set (takeWhile (once h) vs)"
    using path_distinct [OF assms(2)] vs by (metis distinct_append disjoint_iff list.set_intros(1))
  then have "pbufs ?h x = Some b" using b by simp
  then have "heap_ok (unref x ?h)" using heap_ok_upd [OF heap_ok_drop [OF assms(1)]] by (simp add: unref_def)
  then show ?thesis using Cons by (simp add: free_spec_def)
next
  case Nil
  then show ?thesis using assms(1) by (simp add: free_spec_def del: dropWhile_eq_Nil_conv)
qed

lemma block_cong: "pbufs h' a = pbufs h a \<Longrightarrow> block h' a = block h a"
  by (simp add: block_def pb_def)

text \<open>Cutting the first pbuf off and freeing it leaves the rest of the chain as it was.\<close>

lemma cut_first:
  assumes "heap_ok h" and "chain_ok h (Some a) (a # qs)" and "\<forall>q\<in>set (a # qs). freeable h q"
    and "independent h (a # qs)" and "pbufs h a = Some b"
  defines "h1 \<equiv> h\<lparr>pbufs := (pbufs h)(a \<mapsto> b\<lparr>p_next := None\<rparr>)\<rparr>"
  shows "\<exists>h2 c. pbuf_free h1 (Some a) = Inr (c, h2) \<and> heap_ok h2 \<and> chain_ok h2 (p_next b) qs
    \<and> chain_data h2 qs = chain_data h qs \<and> (\<forall>q\<in>set qs. freeable h2 q) \<and> independent h2 qs
    \<and> (\<forall>q. q \<noteq> a \<longrightarrow> pbufs h2 q = pbufs h q) \<and> (once h a \<longrightarrow> pbufs h2 a = None) \<and> nextid h2 = nextid h"
proof -
  have a: "a \<notin> set qs" using path_distinct [OF chain_ok_path [OF assms(2)]] by simp
  have ok1: "heap_ok h1" unfolding h1_def by (rule heap_ok_upd [OF assms(1,5)])
  have pth: "path h1 (Some a) [a]" by (simp add: h1_def)
  have fr: "\<forall>q\<in>set [a]. freeable h1 q"
    using assms(3,5) by (auto simp: freeable_iff h1_def pbuf_get_allocsrc_def)
  let ?h2 = "free_spec h1 [a]"
  have q2: "pbufs ?h2 q = pbufs h q" "mem ?h2 q = mem h q" if "q \<noteq> a" for q
    using free_spec_frame [OF pth, of q] that by (simp_all add: h1_def)
  have blk: "block ?h2 q = block h q" if "q \<in> set qs" for q
    using that a by (intro block_cong q2) auto
  have ind: "k \<noteq> a" if "q \<in> set qs" "block h q = Some k" for q k
    using assms(4) that a by (auto simp: independent_def)
  have "chain_ok h (p_next b) qs" using assms(2,5) by (simp add: chain_ok_Cons)
  then have "chain_ok ?h2 (p_next b) qs" "chain_data ?h2 qs = chain_data h qs"
    using chain_cong [of qs ?h2 h] a ind q2 by (metis)+
  moreover have "\<forall>q\<in>set qs. freeable ?h2 q"
    using assms(3) a q2 by (metis freeable_cong list.set_intros(2))
  moreover have "independent ?h2 qs"
    using assms(4) blk by (simp add: independent_def)
  moreover have "\<forall>q. q \<noteq> a \<longrightarrow> pbufs ?h2 q = pbufs h q" using q2 by blast
  moreover have "once h a \<longrightarrow> pbufs ?h2 a = None"
    using assms(5) by (simp add: free_spec_def once_def h1_def)
  moreover have "nextid ?h2 = nextid h"
    by (simp add: free_spec_def unref_def h1_def Let_def split: list.split)
  ultimately show ?thesis
    using pbuf_free_correct [OF ok1 pth fr] heap_ok_free_spec [OF ok1 pth] by blast
qed

lemma free_header_loop_correct:
  assumes "heap_ok h" and "chain_ok h p qs" and "\<forall>q\<in>set qs. freeable h q" and "independent h qs"
    and "length qs < n"
  shows "\<exists>h' us vs. qs = us @ vs
     \<and> pbuf_free_header_loop n h p fl = Inr (if vs = [] then None else Some (hd vs), h')
     \<and> chain_ok h' (if vs = [] then None else Some (hd vs)) vs
     \<and> chain_data h' vs = drop (unat fl) (chain_data h qs)
     \<and> (\<forall>u\<in>set us. once h u \<longrightarrow> pbufs h' u = None) \<and> (\<forall>x. x \<notin> set qs \<longrightarrow> pbufs h' x = pbufs h x)"
  using assms
proof (induction qs arbitrary: h p n fl)
  case Nil
  then show ?case by (cases n) (auto intro!: exI [of _ h])
next
  case (Cons a qs)
  then obtain b n' where b: "p = Some a" "pbufs h a = Some b" "payload_ok h a" "chain_ok h (p_next b) qs"
    and n: "n = Suc n'" "length qs < n'" by (cases n) (auto simp: chain_ok_Cons)
  have l: "length (seg h a) = unat (p_len b)" using b by (simp add: length_seg)
  consider "fl = 0" | "fl \<noteq> 0" "p_len b \<le> fl" | "fl \<noteq> 0" "fl < p_len b" by fastforce
  then show ?case
  proof cases
    case 1
    then show ?thesis using Cons.prems(2) b n
      by (intro exI [of _ h] exI [of _ "[]"] exI [of _ "a # qs"]) simp
  next
    case 3
    let ?h = "h\<lparr>pbufs := (pbufs h)(a \<mapsto> remove_hdr (unat fl) b)\<rparr>"
    have le: "unat fl \<le> unat (p_len b)" using 3 by (simp add: word_less_nat_alt)
    note ch = chain_remove_hdr [OF Cons.prems(2) [unfolded b(1)] b(2) le refl]
    have "pbuf_remove_header h (Some a) (unat fl) = Inr (0, ?h)"
      using pbuf_remove_header_correct [OF b(2), of "unat fl"] le unat_lt_16 [of fl] by simp
    then have "pbuf_free_header_loop n h p fl = Inr (Some a, ?h)"
      using 3 b n by (cases n') (auto simp: not_le)
    with ch show ?thesis by (intro exI [of _ ?h] exI [of _ "[]"] exI [of _ "a # qs"]) simp
  next
    case 2
    let ?h1 = "h\<lparr>pbufs := (pbufs h)(a \<mapsto> b\<lparr>p_next := None\<rparr>)\<rparr>"
    obtain h2 c where h2: "pbuf_free ?h1 (Some a) = Inr (c, h2)" "heap_ok h2" "chain_ok h2 (p_next b) qs"
      "chain_data h2 qs = chain_data h qs" "\<forall>q\<in>set qs. freeable h2 q" "independent h2 qs"
      "\<forall>q. q \<noteq> a \<longrightarrow> pbufs h2 q = pbufs h q" "once h a \<longrightarrow> pbufs h2 a = None"
      using cut_first [OF Cons.prems(1) Cons.prems(2) [unfolded b(1)] Cons.prems(3,4) b(2)] by blast
    have a: "a \<notin> set qs" using path_distinct [OF chain_ok_path [OF Cons.prems(2)]] by simp
    have fl: "unat (fl - p_len b) = unat fl - unat (p_len b)" using 2 by (simp add: unat_sub_word)
    obtain h' us vs where IH: "qs = us @ vs"
      "pbuf_free_header_loop n' h2 (p_next b) (fl - p_len b) = Inr (if vs = [] then None else Some (hd vs), h')"
      "chain_ok h' (if vs = [] then None else Some (hd vs)) vs"
      "chain_data h' vs = drop (unat (fl - p_len b)) (chain_data h2 qs)"
      "\<forall>u\<in>set us. once h2 u \<longrightarrow> pbufs h' u = None" "\<forall>x. x \<notin> set qs \<longrightarrow> pbufs h' x = pbufs h2 x"
      using Cons.IH [OF h2(2,3,5,6) n(2)] by blast
    have "pbuf_free_header_loop n h p fl = Inr (if vs = [] then None else Some (hd vs), h')"
      using 2 b n h2(1) IH(2) by (simp add: pupd_def)
    moreover have "chain_data h' vs = drop (unat fl) (chain_data h (a # qs))"
      using IH(4) h2(4) fl l 2 by (simp add: word_le_nat_alt)
    moreover have "\<forall>u\<in>set us. once h u \<longrightarrow> pbufs h' u = None"
      using IH(1,5) h2(7) a by (auto simp: once_def pb_def)
    moreover have "once h a \<longrightarrow> pbufs h' a = None" using IH(6) h2(8) a by simp
    moreover have "\<forall>x. x \<notin> set (a # qs) \<longrightarrow> pbufs h' x = pbufs h x" using IH(6) h2(7) by simp
    ultimately show ?thesis using IH(1,3)
      by (intro exI [of _ h'] exI [of _ "a # us"] exI [of _ vs]) simp
  qed
qed

text \<open>
  \<^verbatim>\<open>pbuf_free_header\<close> removes a header that may span several pbufs: the remaining packet holds the
  bytes behind it, the pbufs that lie wholly in the header are released, other objects are untouched.
\<close>

theorem pbuf_free_header_drop:
  assumes "heap_ok h" and "chain_ok h p qs" and "\<forall>q\<in>set qs. freeable h q" and "independent h qs"
  shows "\<exists>h' us vs. qs = us @ vs
     \<and> pbuf_free_header h p n = Inr (if vs = [] then None else Some (hd vs), h')
     \<and> chain_ok h' (if vs = [] then None else Some (hd vs)) vs
     \<and> chain_data h' vs = drop (unat n) (chain_data h qs)
     \<and> (\<forall>u\<in>set us. once h u \<longrightarrow> pbufs h' u = None) \<and> (\<forall>x. x \<notin> set qs \<longrightarrow> pbufs h' x = pbufs h x)"
  unfolding pbuf_free_header_def
  by (rule free_header_loop_correct [OF assms chain_ok_length [OF assms(2,1)]])

end
