(* ===== verification/Pbuf_Copy.thy ===== *)
theory Pbuf_Copy
  imports Pbuf_Chain
begin

text \<open>
  \<^verbatim>\<open>pbuf_copy\<close>, \<^verbatim>\<open>pbuf_clone\<close> and \<^verbatim>\<open>pbuf_coalesce\<close>: copying from one chain to another.
\<close>

text \<open>
  A chain of one packet without empty pbufs behind the first: the loop of \<^verbatim>\<open>pbuf_copy\<close> takes a
  pbuf with \<^verbatim>\<open>len == tot_len\<close> that has a successor for the end of a packet in a queue.
\<close>

definition solid :: "heap \<Rightarrow> nat list \<Rightarrow> bool" where
  "solid h qs \<longleftrightarrow> (\<forall>q\<in>set (tl qs). p_len (pb h q) \<noteq> 0)"

definition apart :: "heap \<Rightarrow> nat list \<Rightarrow> nat list \<Rightarrow> bool" where
  "apart h ts fs \<longleftrightarrow> (\<forall>t\<in>set ts. \<forall>f\<in>set fs. block h t \<noteq> None \<longrightarrow> block h t \<noteq> block h f)"

lemma solid_mem_upd [simp]: "solid (h\<lparr>mem := m\<rparr>) qs = solid h qs"
  by (simp add: solid_def)

lemma apart_mem_upd [simp]: "apart (h\<lparr>mem := m\<rparr>) ts fs = apart h ts fs"
  by (simp add: apart_def)

lemma solid_Cons_tl: "solid h (a # qs) \<Longrightarrow> solid h qs"
  by (cases qs) (auto simp: solid_def)

lemma solid_data:
  assumes "chain_ok h p (a # qs)" and "solid h (a # qs)" and "qs \<noteq> []"
  shows "chain_data h qs \<noteq> []"
proof -
  obtain c rs where qs: "qs = c # rs" using assms(3) by (cases qs) auto
  then have "payload_ok h c" "p_len (pb h c) \<noteq> 0"
    using chain_ok_payload [OF assms(1)] assms(2) by (auto simp: solid_def)
  then have "length (seg h c) > 0" by (simp add: length_seg unat_gt_0)
  then show ?thesis using qs by auto
qed

lemma no_queue_ok:
  assumes "chain_ok h p qs" and "solid h qs"
  shows "pbuf_copy_no_queue h p = Inr ()"
proof (cases qs)
  case Nil
  then show ?thesis using assms by (simp add: pbuf_copy_no_queue_def)
next
  case (Cons a rs)
  then obtain b where b: "p = Some a" "pbufs h a = Some b" "chain_ok h (p_next b) rs"
    "unat (p_tot_len b) = unat (p_len b) + length (chain_data h rs)"
    using assms(1) by (auto simp: chain_ok_Cons)
  show ?thesis
  proof (cases "rs = []")
    case True
    then show ?thesis using b by (simp add: pbuf_copy_no_queue_def)
  next
    case False
    then have "p_len b \<noteq> p_tot_len b" using solid_data assms Cons b(4) by auto
    then show ?thesis using b by (simp add: pbuf_copy_no_queue_def)
  qed
qed

text \<open>One iteration: \<open>k\<close> bytes go over, and each side that is used up moves to its next pbuf.\<close>

lemma copy_step_correct:
  assumes t: "chain_ok h (Some t) (t # ts)" "pbufs h t = Some bt" "solid h (t # ts)" "ot \<le> unat (p_len bt)"
    and f: "chain_ok h (Some f) (f # fs)" "pbufs h f = Some bf" "solid h (f # fs)" "ofs \<le> unat (p_len bf)"
    and room: "length (chain_data h (f # fs)) - ofs \<le> length (chain_data h (t # ts)) - ot"
  defines "k \<equiv> min (unat (p_len bt) - ot) (unat (p_len bf) - ofs)"
  shows "\<exists>m. pbuf_copy_step h (Some t) (Some f) ot ofs
      = Inr (if ot + k = unat (p_len bt) then p_next bt else Some t,
             if ofs + k = unat (p_len bf) then p_next bf else Some f,
             if ot + k = unat (p_len bt) then 0 else ot + k,
             if ofs + k = unat (p_len bf) then 0 else ofs + k, h\<lparr>mem := m\<rparr>)
    \<and> same_shape (mem h) m
    \<and> seg (h\<lparr>mem := m\<rparr>) t = patch (seg h t) ot (take k (drop ofs (seg h f)))
    \<and> (\<forall>c. block h c \<noteq> block h t \<or> block h c = None \<longrightarrow> seg (h\<lparr>mem := m\<rparr>) c = seg h c)"
proof -
  have pt: "payload_ok h t" "chain_ok h (p_next bt) ts" using t by (auto simp: chain_ok_Cons)
  have pf: "payload_ok h f" "chain_ok h (p_next bf) fs" using f by (auto simp: chain_ok_Cons)
  have lt: "length (seg h t) = unat (p_len bt)" and lf: "length (seg h f) = unat (p_len bf)"
    using pt pf t(2) f(2) by (simp_all add: length_seg)
  let ?x = "take k (drop ofs (seg h f))"
  have kt: "ot + k \<le> unat (p_len bt)" and kf: "ofs + k \<le> unat (p_len bf)"
    using t(4) f(4) by (auto simp: k_def min_def)
  have x: "length ?x = k" using kf lf by simp
  have rd: "mem_read h (p_payload bf) ofs k = Inr ?x"
    using mem_read_seg [OF pf(1), of ofs k] f(2) kf by simp
  obtain m where m: "mem_write h (p_payload bt) ot ?x = Inr (h\<lparr>mem := m\<rparr>)" "same_shape (mem h) m"
    "seg (h\<lparr>mem := m\<rparr>) t = patch (seg h t) ot ?x"
    "\<forall>c. block h c \<noteq> block h t \<or> block h c = None \<longrightarrow> seg (h\<lparr>mem := m\<rparr>) c = seg h c"
    using mem_write_seg [OF pt(1), of ot ?x] t(2) kt x by auto
  let ?h = "h\<lparr>mem := m\<rparr>"
  let ?pt = "if ot + k = unat (p_len bt) then p_next bt else Some t"
  let ?pf = "if ofs + k = unat (p_len bf) then p_next bf else Some f"
  have "pbuf_copy_no_queue ?h ?pt = Inr ()"
    using no_queue_ok [of ?h _ "if ot + k = unat (p_len bt) then ts else t # ts"] pt t m(2) solid_Cons_tl by auto
  moreover have "pbuf_copy_no_queue ?h ?pf = Inr ()"
    using no_queue_ok [of ?h _ "if ofs + k = unat (p_len bf) then fs else f # fs"] pf f m(2) solid_Cons_tl by auto
  moreover have "ot + k = unat (p_len bt) \<longrightarrow> ?pt \<noteq> None \<or> ?pf = None"
  proof (rule impI, rule ccontr)
    assume e: "ot + k = unat (p_len bt)" and c: "\<not> (?pt \<noteq> None \<or> ?pf = None)"
    then have "p_next bt = None" by simp
    then have "ts = []" using pt(2) by simp
    then have r: "length (chain_data h (f # fs)) - ofs \<le> unat (p_len bt) - ot" using room lt by simp
    show False
    proof (cases "ofs + k = unat (p_len bf)")
      case True
      then have "fs \<noteq> []" using c pf(2) by auto
      then have "length (chain_data h fs) > 0" using solid_data [OF f(1,3)] by simp
      moreover have "length (chain_data h (f # fs)) = unat (p_len bf) + length (chain_data h fs)" using lf by simp
      ultimately show False using r e True by linarith
    next
      case False
      moreover have "length (chain_data h (f # fs)) \<ge> unat (p_len bf)" using lf by simp
      ultimately show False using r e kf by linarith
    qed
  qed
  moreover have "(if unat (p_len bt) - ot \<ge> unat (p_len bf) - ofs
      then unat (p_len bf) - ofs else unat (p_len bt) - ot) = k" by (simp add: k_def min_def)
  moreover have "(ofs + k \<ge> unat (p_len bf)) = (ofs + k = unat (p_len bf))" using kf by auto
  ultimately have "pbuf_copy_step h (Some t) (Some f) ot ofs
      = Inr (?pt, ?pf, if ot + k = unat (p_len bt) then 0 else ot + k,
             if ofs + k = unat (p_len bf) then 0 else ofs + k, ?h)"
    using t(2) f(2) rd m(1) kt kf
    by (cases "ot + k = unat (p_len bt)"; cases "ofs + k = unat (p_len bf)") (simp_all add: pbuf_copy_step_def)
  with m show ?thesis by blast
qed

lemma patch_across: "length xs = i + length us \<Longrightarrow> patch xs i us @ patch ys 0 vs = patch (xs @ ys) i (us @ vs)"
  by (simp add: patch_def add.assoc)

lemma copy_loop_correct:
  assumes "chain_ok h (Some t) (t # ts)" and "solid h (t # ts)" and "ot \<le> unat (p_len (pb h t))"
    and "chain_ok h (Some f) (f # fs)" and "solid h (f # fs)" and "ofs \<le> unat (p_len (pb h f))"
    and "separate h (t # ts)" and "apart h (t # ts) (f # fs)"
    and "length (chain_data h (f # fs)) - ofs \<le> length (chain_data h (t # ts)) - ot"
    and "length (t # ts) + length (f # fs) \<le> n"
  shows "\<exists>m. pbuf_copy_loop n h (Some t) (Some f) ot ofs = Inr (ERR_OK, h\<lparr>mem := m\<rparr>)
    \<and> same_shape (mem h) m
    \<and> chain_data (h\<lparr>mem := m\<rparr>) (t # ts) = patch (chain_data h (t # ts)) ot (drop ofs (chain_data h (f # fs)))
    \<and> (\<forall>c. block h c \<notin> block h ` set (t # ts) \<or> block h c = None \<longrightarrow> seg (h\<lparr>mem := m\<rparr>) c = seg h c)"
  using assms
proof (induction n arbitrary: h t ts ot f fs ofs)
  case (Suc n)
  obtain bt where bt: "pbufs h t = Some bt" "chain_ok h (p_next bt) ts" "length (seg h t) = unat (p_len bt)"
    using Suc.prems(1) by (auto simp: chain_ok_Cons length_seg)
  obtain bf where bf: "pbufs h f = Some bf" "chain_ok h (p_next bf) fs" "length (seg h f) = unat (p_len bf)"
    using Suc.prems(4) by (auto simp: chain_ok_Cons length_seg)
  have ot: "ot \<le> unat (p_len bt)" and ofs: "ofs \<le> unat (p_len bf)" using Suc.prems(3,6) bt bf by simp_all
  define k where "k = min (unat (p_len bt) - ot) (unat (p_len bf) - ofs)"
  obtain m1 where m1: "pbuf_copy_step h (Some t) (Some f) ot ofs
      = Inr (if ot + k = unat (p_len bt) then p_next bt else Some t,
             if ofs + k = unat (p_len bf) then p_next bf else Some f,
             if ot + k = unat (p_len bt) then 0 else ot + k,
             if ofs + k = unat (p_len bf) then 0 else ofs + k, h\<lparr>mem := m1\<rparr>)"
    "same_shape (mem h) m1" "seg (h\<lparr>mem := m1\<rparr>) t = patch (seg h t) ot (take k (drop ofs (seg h f)))"
    "\<forall>c. block h c \<noteq> block h t \<or> block h c = None \<longrightarrow> seg (h\<lparr>mem := m1\<rparr>) c = seg h c"
    using copy_step_correct [OF Suc.prems(1) bt(1) Suc.prems(2) ot Suc.prems(4) bf(1) Suc.prems(5) ofs Suc.prems(9)]
    unfolding k_def by blast
  let ?h = "h\<lparr>mem := m1\<rparr>" and ?x = "take k (drop ofs (seg h f))"
  have k: "ot + k \<le> unat (p_len bt)" "ofs + k \<le> unat (p_len bf)" using ot ofs by (auto simp: k_def min_def)
  have x: "length ?x = k" using k bf(3) by simp
  have fseg: "seg ?h q = seg h q" if "q \<in> set (f # fs)" for q
    using m1(4) Suc.prems(8) that by (auto simp: apart_def)
  have tsdata: "chain_data ?h ts = chain_data h ts"
    using m1(4) Suc.prems(7) by (intro chain_data_cong) (auto simp: separate_Cons image_iff)
  let ?T = "chain_data h (t # ts)" and ?F' = "drop (ofs + k) (chain_data h (f # fs))"
  have F: "drop ofs (chain_data h (f # fs)) = ?x @ ?F'"
  proof -
    have "take k (drop ofs (chain_data h (f # fs))) = ?x" using k bf(3) by simp
    then show ?thesis using append_take_drop_id [of k "drop ofs (chain_data h (f # fs))"]
      by (simp only: drop_drop add.commute)
  qed
  have T1: "chain_data ?h (t # ts) = patch ?T ot ?x"
    using m1(3) tsdata x k bt(3) by (simp add: patch_def)
  have lT: "length (chain_data ?h (t # ts)) = length ?T"
    unfolding T1 using x k bt(3) by (intro length_patch) simp
  have fit: "k + length ?F' \<le> length ?T - ot"
  proof -
    have "length ?F' = length (chain_data h (f # fs)) - (ofs + k)" by (rule length_drop)
    moreover have "ofs + k \<le> length (chain_data h (f # fs))" using k bf(3) by simp
    ultimately show ?thesis using Suc.prems(9) by linarith
  qed
  show ?case
  proof (cases "ofs + k = unat (p_len bf) \<and> fs = []")
    case True
    then have "p_next bf = None" "?F' = []" using bf by auto
    then show ?thesis using m1 True T1 F by (intro exI [of _ m1]) (auto simp: image_iff)
  next
    case False
    then obtain f' fs' ofs' where f': "(if ofs + k = unat (p_len bf) then p_next bf else Some f) = Some f'"
      "(if ofs + k = unat (p_len bf) then 0 else ofs + k) = ofs'"
      "chain_ok h (Some f') (f' # fs')" "solid h (f' # fs')" "ofs' \<le> unat (p_len (pb h f'))"
      "drop ofs' (chain_data h (f' # fs')) = ?F'" "set (f' # fs') \<subseteq> set (f # fs)"
      "length (f' # fs') + (if ofs + k = unat (p_len bf) then 1 else 0) \<le> length (f # fs)"
    proof (cases "ofs + k = unat (p_len bf)")
      case True
      then obtain f' fs' where fs: "fs = f' # fs'" using False by (cases fs) auto
      then have "chain_ok h (Some f') (f' # fs')" "p_next bf = Some f'" using bf(2) by (auto simp: chain_ok_Cons)
      then show ?thesis
        using True fs Suc.prems(5) solid_Cons_tl [of h f fs] bf(3)
        by (intro that [of f' 0 fs']) (auto simp del: chain_data_Cons simp: chain_data_Cons [of h f])
    next
      case no: False
      then show ?thesis using Suc.prems(4,5) k bf(1) by (intro that [of f "ofs + k" fs]) simp_all
    qed
    have fd: "chain_data ?h (f' # fs') = chain_data h (f' # fs')"
      using f'(7) by (intro chain_data_cong fseg) (rule subsetD)
    have F'len: "length (chain_data h (f' # fs')) - ofs' = length ?F'"
      using arg_cong [OF f'(6), of length] by (simp only: length_drop)
    show ?thesis
    proof (cases "ot + k = unat (p_len bt)")
      case no: False
      then have fdone: "ofs + k = unat (p_len bf)" using k by (auto simp: k_def min_def split: if_splits)
      have "\<exists>m. pbuf_copy_loop n ?h (Some t) (Some f') (ot + k) ofs' = Inr (ERR_OK, ?h\<lparr>mem := m\<rparr>)
        \<and> same_shape (mem ?h) m
        \<and> chain_data (?h\<lparr>mem := m\<rparr>) (t # ts) = patch (chain_data ?h (t # ts)) (ot + k) (drop ofs' (chain_data ?h (f' # fs')))
        \<and> (\<forall>c. block ?h c \<notin> block ?h ` set (t # ts) \<or> block ?h c = None \<longrightarrow> seg (?h\<lparr>mem := m\<rparr>) c = seg ?h c)"
      proof (rule Suc.IH)
        show "length (chain_data ?h (f' # fs')) - ofs' \<le> length (chain_data ?h (t # ts)) - (ot + k)"
          unfolding fd lT F'len using fit by linarith
        show "length (t # ts) + length (f' # fs') \<le> n" using Suc.prems(10) f'(8) fdone by simp
        show "apart ?h (t # ts) (f' # fs')" using Suc.prems(8) f'(7) by (auto simp: apart_def)
        show "ot + k \<le> unat (p_len (pb ?h t))" using k bt(1) by simp
      qed (use Suc.prems m1(2) f' in simp_all)
      then obtain m where m: "pbuf_copy_loop n ?h (Some t) (Some f') (ot + k) ofs' = Inr (ERR_OK, h\<lparr>mem := m\<rparr>)"
        "same_shape m1 m" "chain_data (h\<lparr>mem := m\<rparr>) (t # ts) = patch (patch ?T ot ?x) (ot + k) ?F'"
        "\<forall>c. block h c \<notin> block h ` set (t # ts) \<or> block h c = None \<longrightarrow> seg (h\<lparr>mem := m\<rparr>) c = seg ?h c"
        unfolding fd f'(6) T1 by (auto simp del: chain_data_Cons)
      have "patch (patch ?T ot ?x) (ot + k) ?F' = patch ?T ot (?x @ ?F')"
        using patch_append [of ot ?x ?F' ?T] fit x ot bt(3) by simp
      moreover have "pbuf_copy_loop (Suc n) h (Some t) (Some f) ot ofs = Inr (ERR_OK, h\<lparr>mem := m\<rparr>)"
        using m1(1) f'(1,2) no m(1) by simp
      moreover have "same_shape (mem h) m" using m1(2) m(2) by (rule same_shape_trans)
      ultimately show ?thesis using m(3,4) m1(4) F by (intro exI [of _ m]) (auto simp: image_iff)
    next
      case yes: True
      have "length (chain_data h ts) = length ?T - (ot + k)" using yes bt(3) by simp
      then have fit': "length ?F' \<le> length (chain_data h ts)" using fit by linarith
      have "ts \<noteq> []"
      proof
        assume "ts = []"
        then have F0: "?F' = []" using fit' by simp
        have "\<not> ofs + k < unat (p_len bf)" using F0 bf(3) by auto
        then have "fs \<noteq> []" using False k by auto
        with solid_data [OF Suc.prems(4,5)] F0 bf(3) k show False by auto
      qed
      then obtain t' ts' where ts: "ts = t' # ts'" by (cases ts) auto
      then have t': "chain_ok h (Some t') (t' # ts')" "p_next bt = Some t'" using bt(2) by (auto simp: chain_ok_Cons)
      have "\<exists>m. pbuf_copy_loop n ?h (Some t') (Some f') 0 ofs' = Inr (ERR_OK, ?h\<lparr>mem := m\<rparr>)
        \<and> same_shape (mem ?h) m
        \<and> chain_data (?h\<lparr>mem := m\<rparr>) (t' # ts') = patch (chain_data ?h (t' # ts')) 0 (drop ofs' (chain_data ?h (f' # fs')))
        \<and> (\<forall>c. block ?h c \<notin> block ?h ` set (t' # ts') \<or> block ?h c = None \<longrightarrow> seg (?h\<lparr>mem := m\<rparr>) c = seg ?h c)"
      proof (rule Suc.IH)
        show "length (chain_data ?h (f' # fs')) - ofs' \<le> length (chain_data ?h (t' # ts')) - 0"
          unfolding fd ts [symmetric] tsdata F'len using fit' by simp
        show "length (t' # ts') + length (f' # fs') \<le> n" using Suc.prems(10) f'(8) ts by (simp split: if_splits)
        show "apart ?h (t' # ts') (f' # fs')" using Suc.prems(8) f'(7) ts by (auto simp: apart_def)
        show "separate ?h (t' # ts')" "solid ?h (t' # ts')"
          using Suc.prems(2,7) ts solid_Cons_tl by (auto simp: separate_Cons)
      qed (use t' m1(2) f' in simp_all)
      then obtain m where m: "pbuf_copy_loop n ?h (Some t') (Some f') 0 ofs' = Inr (ERR_OK, h\<lparr>mem := m\<rparr>)"
        "same_shape m1 m" "chain_data (h\<lparr>mem := m\<rparr>) ts = patch (chain_data h ts) 0 ?F'"
        "\<forall>c. block h c \<notin> block h ` set ts \<or> block h c = None \<longrightarrow> seg (h\<lparr>mem := m\<rparr>) c = seg ?h c"
        unfolding fd f'(6) ts [symmetric] tsdata by (auto simp del: chain_data_Cons)
      have "block h t \<notin> block h ` set ts \<or> block h t = None" using Suc.prems(7) by (auto simp: separate_Cons)
      then have "seg (h\<lparr>mem := m\<rparr>) t = patch (seg h t) ot ?x" using m(4) m1(3) by simp
      then have "chain_data (h\<lparr>mem := m\<rparr>) (t # ts) = patch ?T ot (?x @ ?F')"
        using m(3) patch_across [of "seg h t" ot ?x "chain_data h ts" ?F'] yes x bt(3) by simp
      moreover have "pbuf_copy_loop (Suc n) h (Some t) (Some f) ot ofs = Inr (ERR_OK, h\<lparr>mem := m\<rparr>)"
        using m1(1) f'(1,2) yes t'(2) m(1) by simp
      moreover have "same_shape (mem h) m" using m1(2) m(2) by (rule same_shape_trans)
      ultimately show ?thesis using m(4) m1(4) F by (intro exI [of _ m]) (auto simp: image_iff)
    qed
  qed
qed simp

lemma pbuf_copy_correct:
  assumes "heap_ok h" and "chain_ok h (Some t) ts" and "chain_ok h (Some f) fs"
    and "solid h ts" and "solid h fs" and "separate h ts" and "apart h ts fs"
    and "length (chain_data h fs) \<le> length (chain_data h ts)"
  shows "\<exists>m. pbuf_copy h (Some t) (Some f) = Inr (ERR_OK, h\<lparr>mem := m\<rparr>) \<and> same_shape (mem h) m
    \<and> chain_data (h\<lparr>mem := m\<rparr>) ts = chain_data h fs @ drop (length (chain_data h fs)) (chain_data h ts)
    \<and> chain_data (h\<lparr>mem := m\<rparr>) fs = chain_data h fs"
proof -
  obtain bt ts' where bt: "ts = t # ts'" "pbufs h t = Some bt" using assms(2) by (auto simp: chain_ok_Some)
  obtain bf fs' where bf: "fs = f # fs'" "pbufs h f = Some bf" using assms(3) by (auto simp: chain_ok_Some)
  have n: "length ts + length fs \<le> 2 * fuel h"
    using chain_ok_length [OF assms(2,1)] chain_ok_length [OF assms(3,1)] by simp
  obtain m where m: "pbuf_copy_loop (2 * fuel h) h (Some t) (Some f) 0 0 = Inr (ERR_OK, h\<lparr>mem := m\<rparr>)"
    "same_shape (mem h) m" "chain_data (h\<lparr>mem := m\<rparr>) ts = patch (chain_data h ts) 0 (drop 0 (chain_data h fs))"
    "\<forall>c. block h c \<notin> block h ` set ts \<or> block h c = None \<longrightarrow> seg (h\<lparr>mem := m\<rparr>) c = seg h c"
    using copy_loop_correct [of h t ts' 0 f fs' 0 "2 * fuel h"] assms(2-8) n
    unfolding bt(1) [symmetric] bf(1) [symmetric] by auto
  have "p_tot_len bf \<le> p_tot_len bt"
    using chain_ok_tot_len [OF assms(2)] chain_ok_tot_len [OF assms(3)] bt(2) bf(2) assms(8)
    by (simp add: word_le_nat_alt)
  then have "pbuf_copy h (Some t) (Some f) = Inr (ERR_OK, h\<lparr>mem := m\<rparr>)"
    using bt(2) bf(2) m(1) by (simp add: pbuf_copy_def)
  moreover have "chain_data (h\<lparr>mem := m\<rparr>) fs = chain_data h fs"
  proof (rule chain_data_cong)
    fix q assume q: "q \<in> set fs"
    have "block h q \<notin> block h ` set ts \<or> block h q = None"
      using assms(7) q unfolding apart_def image_iff by metis
    then show "seg (h\<lparr>mem := m\<rparr>) q = seg h q" using m(4) by blast
  qed
  ultimately show ?thesis using m(2,3) assms(8) by (auto simp: patch_0)
qed

section \<open>Cloning\<close>

lemma word_of_nat_inverse_16: "of_nat (unat x) = (x :: u16_t)"
  by simp

text \<open>
  Copying a chain into one \<^verbatim>\<open>PBUF_RAM\<close> buffer. The new buffer is an object of its own, so the
  chain's payload, which lies in objects that exist already, is apart from it.
\<close>

lemma block_less:
  assumes "heap_ok h" and "payload_ok h a" and "block h a = Some k"
  shows "k < nextid h"
proof -
  have "mem h k \<noteq> None" using assms(2,3)
    by (auto simp: payload_ok_def block_def split: option.splits if_splits)
  then show ?thesis using assms(1) by (simp add: heap_ok_def)
qed

lemma chain_with_pbuf:
  assumes "heap_ok h" and "chain_ok h p qs"
  shows "chain_ok (with_pbuf h n b) p qs" and "chain_data (with_pbuf h n b) qs = chain_data h qs"
    and "q \<in> set qs \<Longrightarrow> pb (with_pbuf h n b) q = pb h q"
proof -
  have new: "q \<noteq> nextid h" if "q \<in> set qs" for q
    using path_alloced [OF chain_ok_path [OF assms(2)] that] heap_ok_less [OF assms(1)] by fastforce
  have "k \<noteq> nextid h" if "q \<in> set qs" "block h q = Some k" for q k
    using block_less [OF assms(1) chain_ok_payload [OF assms(2) that(1)] that(2)] by simp
  with new show "chain_ok (with_pbuf h n b) p qs" "chain_data (with_pbuf h n b) qs = chain_data h qs"
    using assms(2) chain_cong [of qs "with_pbuf h n b" h] by auto
  show "q \<in> set qs \<Longrightarrow> pb (with_pbuf h n b) q = pb h q" using new by (simp add: pb_def)
qed

lemma pbuf_clone_ram:
  assumes "heap_ok h" and "chain_ok h (Some f) fs" and "solid h fs"
    and "unat layer + length (chain_data h fs) \<le> 65535"
  shows "if oom h (nextid h) then pbuf_clone h layer PBUF_RAM (Some f) = Inr (None, h\<lparr>nextid := Suc (nextid h)\<rparr>)
    else \<exists>h'. pbuf_clone h layer PBUF_RAM (Some f) = Inr (Some (nextid h), h') \<and> heap_ok h'
      \<and> chain_ok h' (Some (nextid h)) [nextid h] \<and> chain_data h' [nextid h] = chain_data h fs
      \<and> chain_ok h' (Some f) fs \<and> chain_data h' fs = chain_data h fs
      \<and> pbufs h' = (pbufs h)(nextid h \<mapsto> ram_pbuf (nextid h) layer (of_nat (length (chain_data h fs))))"
proof -
  obtain bf where bf: "pbufs h f = Some bf" "unat (p_tot_len bf) = length (chain_data h fs)"
    using assms(2) chain_ok_tot_len [OF assms(2)] by (auto simp: chain_ok_Some)
  let ?a = "nextid h" and ?n = "p_tot_len bf"
  have n: "of_nat (length (chain_data h fs)) = ?n" using bf(2) by (metis word_of_nat_inverse_16)
  let ?h = "with_pbuf h (unat layer + unat ?n) (ram_pbuf ?a layer ?n)"
  have alloc: "pbuf_alloc h layer ?n PBUF_RAM = Inr (if oom h ?a then (None, h\<lparr>nextid := Suc ?a\<rparr>) else (Some ?a, ?h))"
    using pbuf_alloc_ram_eq [of h layer ?n] assms(4) bf(2) by simp
  note new = ram_pbuf_ok [OF assms(1), of layer ?n]
  note old = chain_with_pbuf [OF assms(1,2), where n = "unat layer + unat ?n" and b = "ram_pbuf ?a layer ?n"]
  have lt: "q \<in> set fs \<Longrightarrow> block h q = Some k \<Longrightarrow> k < ?a" for q k
    using block_less [OF assms(1)] chain_ok_payload [OF assms(2)] by blast
  have blk: "block ?h q = block h q" if "q \<in> set fs" for q using old(3) [OF that] by (simp add: block_def)
  have "block ?h ?a \<in> {None, Some ?a}" by (simp add: block_def ram_pbuf_def)
  then have apart: "apart ?h [?a] fs"
    using lt blk unfolding apart_def by (metis empty_iff insert_iff less_irrefl list.set(1,2))
  have sol: "solid ?h fs" using assms(3) old(3) by (cases fs) (auto simp: solid_def)
  have "\<exists>m. pbuf_copy ?h (Some ?a) (Some f) = Inr (ERR_OK, ?h\<lparr>mem := m\<rparr>) \<and> same_shape (mem ?h) m
    \<and> chain_data (?h\<lparr>mem := m\<rparr>) [?a] = chain_data ?h fs @ drop (length (chain_data ?h fs)) (chain_data ?h [?a])
    \<and> chain_data (?h\<lparr>mem := m\<rparr>) fs = chain_data ?h fs"
    using new(1,2) old(1,2) sol apart assms(1) bf(2)
    by (intro pbuf_copy_correct) (auto simp: solid_def separate_def)
  then obtain m where m: "pbuf_copy ?h (Some ?a) (Some f) = Inr (ERR_OK, ?h\<lparr>mem := m\<rparr>)" "same_shape (mem ?h) m"
    "chain_data (?h\<lparr>mem := m\<rparr>) [?a] = chain_data h fs" "chain_data (?h\<lparr>mem := m\<rparr>) fs = chain_data h fs"
    using new(2) old(2) bf(2) by (auto simp del: chain_data_Cons)
  have "chain_ok (?h\<lparr>mem := m\<rparr>) (Some ?a) [?a]" "chain_ok (?h\<lparr>mem := m\<rparr>) (Some f) fs" "heap_ok (?h\<lparr>mem := m\<rparr>)"
    using new(1) old(1) m(2) assms(1) by simp_all
  then show ?thesis using alloc m bf(1) n
    by (auto simp: pbuf_clone_def simp del: chain_data_Cons intro!: exI [of _ "?h\<lparr>mem := m\<rparr>"])
qed

lemma chain_ok_drop_objs:
  assumes "chain_ok h p qs" and "set qs \<inter> S = {}" and "\<And>q k. q \<in> set qs \<Longrightarrow> block h q = Some k \<Longrightarrow> k \<notin> S"
  shows "chain_ok (drop_objs S h) p qs" and "chain_data (drop_objs S h) qs = chain_data h qs"
  using assms chain_cong [of qs "drop_objs S h" h] by (auto simp: disjoint_iff)

lemma heap_ok_freeable:
  assumes "heap_ok h'" and "pbufs h' q = pbufs h q" and "freeable h q"
  shows "freeable h' q"
  using assms unfolding heap_ok_def freeable_iff by auto

text \<open>
  \<^verbatim>\<open>pbuf_coalesce\<close> replaces a chain by one pbuf with the same bytes and releases the chain.
\<close>

theorem pbuf_coalesce_correct:
  assumes "heap_ok h" and "chain_ok h (Some f) (f # g # fs)" and "solid h (f # g # fs)"
    and "unat layer + length (chain_data h (f # g # fs)) \<le> 65535"
    and "\<forall>q\<in>set (f # g # fs). freeable h q \<and> once h q" and "\<not> oom h (nextid h)"
  shows "\<exists>h'. pbuf_coalesce h (Some f) layer = Inr (Some (nextid h), h')
      \<and> chain_ok h' (Some (nextid h)) [nextid h] \<and> chain_data h' [nextid h] = chain_data h (f # g # fs)
      \<and> (\<forall>q\<in>set (f # g # fs). pbufs h' q = None \<and> mem h' q = None)"
proof -
  let ?qs = "f # g # fs" and ?a = "nextid h"
  let ?b = "ram_pbuf ?a layer (of_nat (length (chain_data h ?qs)))"
  obtain h1 where h1: "pbuf_clone h layer PBUF_RAM (Some f) = Inr (Some ?a, h1)" "heap_ok h1"
    "chain_ok h1 (Some ?a) [?a]" "chain_data h1 [?a] = chain_data h ?qs" "chain_ok h1 (Some f) ?qs"
    "pbufs h1 = (pbufs h)(?a \<mapsto> ?b)"
    using pbuf_clone_ram [OF assms(1-4)] assms(6) by auto
  obtain b where b: "pbufs h f = Some b" "p_next b = Some g" using assms(2) by (auto simp: chain_ok_Cons)
  have new: "?a \<notin> set ?qs"
    using path_alloced [OF chain_ok_path [OF assms(2)]] heap_ok_less [OF assms(1)] by fastforce
  then have same: "pbufs h1 q = pbufs h q" if "q \<in> set ?qs" for q using h1(6) that by auto
  then have fr: "\<forall>q\<in>set ?qs. freeable h1 q" "\<forall>q\<in>set ?qs. once h1 q"
    using assms(5) heap_ok_freeable [OF h1(2)] by (blast, simp add: once_def pb_def)
  have free: "pbuf_free h1 (Some f) = Inr (of_nat (length ?qs), drop_objs (set ?qs) h1)"
    by (rule pbuf_free_all [OF h1(2) chain_ok_path [OF h1(5)] fr])
  have "k \<notin> set ?qs" if "block h1 ?a = Some k" for k
    using that new h1(6) by (auto simp: block_def ram_pbuf_def split: if_splits)
  then have "chain_ok (drop_objs (set ?qs) h1) (Some ?a) [?a]"
    "chain_data (drop_objs (set ?qs) h1) [?a] = chain_data h1 [?a]"
    using new by (intro chain_ok_drop_objs [OF h1(3)]; auto)+
  then show ?thesis using h1(1,4) free b
    by (intro exI [of _ "drop_objs (set ?qs) h1"]) (simp add: pbuf_coalesce_def)
qed

end
