(* ===== verification/Pbuf_Contract.thy ===== *)
theory Pbuf_Contract
  imports Pbuf_Copy
begin

text \<open>
  What the packet buffers promise, over the byte sequence a chain holds: the statements the rest of
  the stack builds on, each at the level of a whole call. A sample heap with two chains shows that
  the conditions of the statements can be met.
\<close>

section \<open>A sample heap\<close>

text \<open>
  A chain of two pbufs (0, with room for a header, and 1) that holds the bytes 10 to 50, and a
  single pbuf 2 with eight bytes; all three of type \<^verbatim>\<open>PBUF_RAM\<close> and referenced once.
\<close>

definition sample_pbuf :: "pptr \<Rightarrow> nat \<Rightarrow> int \<Rightarrow> u16_t \<Rightarrow> u16_t \<Rightarrow> pbuf" where
  "sample_pbuf nxt a off tot n = \<lparr>p_next = nxt, p_payload = Some (a, off), p_tot_len = tot, p_len = n,
     p_type_internal = 0x80, p_flags = 0, p_ref = 1, p_if_idx = 0\<rparr>"

definition init_net :: net_state where
  "init_net = \<lparr>ip_id = 0, loop_first = Map.empty, loop_last = Map.empty, sent = []\<rparr>"

definition sample :: heap where
  "sample = \<lparr>
     pbufs = (\<lambda>_. None)(0 \<mapsto> sample_pbuf (Some 1) 0 4 5 3, 1 \<mapsto> sample_pbuf None 1 0 2 2,
                        2 \<mapsto> sample_pbuf None 2 0 8 8),
     mem = (\<lambda>_. None)(0 \<mapsto> [0, 0, 0, 0, 10, 20, 30], 1 \<mapsto> [40, 50, 60],
                      2 \<mapsto> [1, 2, 3, 4, 5, 6, 7, 8]),
     customs = (\<lambda>_. None), nextid = 3, oom = (\<lambda>_. False), junk = (\<lambda>_. 0), pbuf_free_ooseq_pending = 0, net = init_net\<rparr>"

lemma sample_pbufs [simp]:
  "pbufs sample 0 = Some (sample_pbuf (Some 1) 0 4 5 3)"
  "pbufs sample (Suc 0) = Some (sample_pbuf None 1 0 2 2)"
  "pbufs sample 2 = Some (sample_pbuf None 2 0 8 8)"
  by (simp_all add: sample_def)

lemma sample_mem [simp]:
  "mem sample 0 = Some [0, 0, 0, 0, 10, 20, 30]" "mem sample (Suc 0) = Some [40, 50, 60]"
  "mem sample 2 = Some [1, 2, 3, 4, 5, 6, 7, 8]" "oom sample = (\<lambda>_. False)" "nextid sample = 3"
  by (simp_all add: sample_def)

lemma sample_pbuf_sel [simp]:
  "p_next (sample_pbuf nxt a off tot n) = nxt" "p_payload (sample_pbuf nxt a off tot n) = Some (a, off)"
  "p_tot_len (sample_pbuf nxt a off tot n) = tot" "p_len (sample_pbuf nxt a off tot n) = n"
  "p_ref (sample_pbuf nxt a off tot n) = 1" "p_flags (sample_pbuf nxt a off tot n) = 0"
  "p_type_internal (sample_pbuf nxt a off tot n) = 0x80"
  by (simp_all add: sample_pbuf_def)

lemma sample_heap_ok [simp]: "heap_ok sample"
  unfolding heap_ok_def by (auto simp: sample_def)

lemma sample_chain [simp]: "chain_ok sample (Some 0) [0, 1]" "chain_ok sample (Some 2) [2]"
  by (simp_all add: chain_ok_def payload_ok_def)

lemma sample_seg [simp]:
  "seg sample 0 = [10, 20, 30]" "seg sample (Suc 0) = [40, 50]" "seg sample 2 = [1, 2, 3, 4, 5, 6, 7, 8]"
  by (simp_all add: seg_def)

lemma sample_data: "chain_data sample [0, 1] = [10, 20, 30, 40, 50]"
  by simp

lemma sample_separate [simp]: "separate sample [0, 1]" "separate sample [2]"
  by (simp_all add: separate_def block_def)

lemma sample_independent [simp]: "independent sample [0, 1]"
  by (simp add: independent_def block_def)

lemma sample_solid [simp]: "solid sample [0, 1]" "solid sample [2]"
  by (simp_all add: solid_def)

lemma sample_apart [simp]: "apart sample [2] [0, 1]"
  by (simp add: apart_def block_def)

lemma sample_freeable [simp]: "freeable sample 0" "freeable sample (Suc 0)" "freeable sample 2"
  by (simp_all add: freeable_def pbuf_get_allocsrc_def)

lemma sample_once [simp]: "once sample 0" "once sample (Suc 0)" "once sample 2"
  by (simp_all add: once_def)

lemma sample_contiguous: "contiguous_at sample 0 (sample_pbuf (Some 1) 0 4 5 3) 4"
  by (simp add: contiguous_at_def)


section \<open>The byte view\<close>

text \<open>
  What a client of packet buffers relies on: a packet is a sequence of bytes; reading a byte
  returns it, or 0 behind the end; writing a byte changes that byte, and nothing behind the end.
\<close>

locale packet_view =
  fixes inv :: "'s \<Rightarrow> bool" and bytes_of :: "'s \<Rightarrow> bytes"
    and get_at :: "'s \<Rightarrow> u16_t \<Rightarrow> u8_t outcome" and put_at :: "'s \<Rightarrow> u16_t \<Rightarrow> u8_t \<Rightarrow> 's outcome"
  assumes get_at: "inv s \<Longrightarrow> get_at s i
      = Inr (if unat i < length (bytes_of s) then bytes_of s ! unat i else 0)"
    and put_at: "inv s \<Longrightarrow> \<exists>s'. put_at s i x = Inr s' \<and> inv s' \<and> bytes_of s' = (bytes_of s)[unat i := x]"
begin

lemma get_put:
  assumes "inv s"
  shows "\<exists>s'. put_at s i x = Inr s' \<and> inv s' \<and> get_at s' j
    = (if i = j \<and> unat i < length (bytes_of s) then Inr x else get_at s j)"
proof -
  obtain s' where s': "put_at s i x = Inr s'" "inv s'" "bytes_of s' = (bytes_of s)[unat i := x]"
    using put_at [OF assms] by blast
  show ?thesis using s' assms
    by (auto simp: get_at nth_list_update word_unat_eq_iff)
qed

lemma put_put:
  assumes "inv s"
  shows "\<exists>s1 s2. put_at s i x = Inr s1 \<and> put_at s1 j y = Inr s2 \<and> inv s2
    \<and> bytes_of s2 = (bytes_of s)[unat i := x, unat j := y]"
  using put_at [OF assms, of i x] put_at by metis

end

definition writable :: "pptr \<Rightarrow> nat list \<Rightarrow> heap \<Rightarrow> bool" where
  "writable p qs h \<longleftrightarrow> heap_ok h \<and> chain_ok h p qs \<and> separate h qs"

lemma writable_mem: "writable p qs h \<Longrightarrow> same_shape (mem h) m \<Longrightarrow> writable p qs (h\<lparr>mem := m\<rparr>)"
  by (simp add: writable_def)

interpretation pbuf_view: packet_view "writable p qs" "\<lambda>h. chain_data h qs"
  "\<lambda>h. pbuf_get_at h p" "\<lambda>h. pbuf_put_at h p" for p qs
proof unfold_locales
  fix h i x
  assume h: "writable p qs h"
  show "pbuf_get_at h p i = Inr (if unat i < length (chain_data h qs) then chain_data h qs ! unat i else 0)"
    using h pbuf_get_at_correct by (simp add: writable_def)
  obtain m where "pbuf_put_at h p i x = Inr (h\<lparr>mem := m\<rparr>)" "same_shape (mem h) m"
    "chain_data (h\<lparr>mem := m\<rparr>) qs = (chain_data h qs)[unat i := x]"
    using h pbuf_put_at_correct [of h p qs i x] by (auto simp: writable_def)
  with writable_mem [OF h] show "\<exists>h'. pbuf_put_at h p i x = Inr h' \<and> writable p qs h'
      \<and> chain_data h' qs = (chain_data h qs)[unat i := x]" by blast
qed

text \<open>
  Writing a byte of a packet with \<^verbatim>\<open>pbuf_put_at\<close> and reading it with \<^verbatim>\<open>pbuf_get_at\<close>: the byte
  written comes back, every other position reads as before, a write behind the end changes nothing.
\<close>

theorem pbuf_get_after_put:
  assumes "writable p qs h"
  shows "\<exists>h'. pbuf_put_at h p i x = Inr h' \<and> writable p qs h' \<and> pbuf_get_at h' p j
    = (if i = j \<and> unat i < length (chain_data h qs) then Inr x else pbuf_get_at h p j)"
  using assms by (rule pbuf_view.get_put)

lemma sample_writable [simp]: "writable (Some 0) [0, 1] sample"
  using sample_chain sample_separate by (simp add: writable_def)

theorem pbuf_get_after_put_witness:
  "\<exists>h'. pbuf_put_at sample (Some 0) 3 99 = Inr h' \<and> pbuf_get_at h' (Some 0) 3 = Inr 99"
  using pbuf_get_after_put [OF sample_writable, of 3 99 3] by auto

section \<open>Reading and writing\<close>

text \<open>
  C11: A buffer stored into a packet with \<^verbatim>\<open>pbuf_take\<close> is what \<^verbatim>\<open>pbuf_copy_partial\<close> reads back, from
  any offset and for any length: the bytes behind the stored ones are the old bytes of the packet, the
  count returned is what the packet still had, and nothing else of the target buffer changes.
\<close>

theorem pbuf_take_copy_partial:
  assumes "writable (Some a) qs h" and "unat len \<le> length (chain_data h qs)" and "length d = unat len"
    and "bs = take (unat n) (drop (unat offset) (d @ drop (unat len) (chain_data h qs)))" and "length bs \<le> length buf"
  shows "\<exists>h'. pbuf_take h (Some a) (Some d) len = Inr (ERR_OK, h')
     \<and> pbuf_copy_partial h' (Some a) (Some buf) n offset = Inr (of_nat (length bs), bs @ drop (length bs) buf)"
proof -
  obtain m where m: "pbuf_take h (Some a) (Some d) len = Inr (ERR_OK, h\<lparr>mem := m\<rparr>)" "same_shape (mem h) m"
    "chain_data (h\<lparr>mem := m\<rparr>) qs = d @ drop (unat len) (chain_data h qs)"
    using pbuf_take_data [of h a qs len d] assms(1-3) by (auto simp: writable_def)
  have "pbuf_copy_partial (h\<lparr>mem := m\<rparr>) (Some a) (Some buf) n offset = Inr (of_nat (length bs), bs @ drop (length bs) buf)"
    using assms m by (intro pbuf_copy_partial_data) (auto simp: writable_def)
  with m(1) show ?thesis by blast
qed

theorem pbuf_take_copy_partial_witness:
  "\<exists>h'. pbuf_take sample (Some 0) (Some [1, 2, 3, 4]) 4 = Inr (ERR_OK, h')
     \<and> pbuf_copy_partial h' (Some 0) (Some [0, 0, 0, 0, 0]) 9 2 = Inr (3, [3, 4, 50, 0, 0])"
  using pbuf_take_copy_partial [OF sample_writable, of 4 "[1, 2, 3, 4]" "[3, 4, 50]" 9 2 "[0, 0, 0, 0, 0]"]
  by simp

text \<open>
  \<^verbatim>\<open>pbuf_take_at\<close> overwrites exactly the bytes from the offset on, wherever the offset falls in the
  chain, and \<^verbatim>\<open>pbuf_memcmp\<close> at that offset then finds no difference to the buffer.
\<close>

theorem pbuf_take_at_memcmp:
  assumes "writable (Some a) qs h" and "unat offset < length (chain_data h qs)"
    and "unat offset + unat len \<le> length (chain_data h qs)" and "length d = unat len"
  shows "\<exists>h'. pbuf_take_at h (Some a) (Some d) len offset = Inr (ERR_OK, h') \<and> writable (Some a) qs h'
     \<and> chain_data h' qs = take (unat offset) (chain_data h qs) @ d @ drop (unat offset + unat len) (chain_data h qs)
     \<and> pbuf_memcmp h' (Some a) offset d len = Inr 0"
proof -
  obtain m where m: "pbuf_take_at h (Some a) (Some d) len offset = Inr (ERR_OK, h\<lparr>mem := m\<rparr>)" "same_shape (mem h) m"
    "chain_data (h\<lparr>mem := m\<rparr>) qs = patch (chain_data h qs) (unat offset) d"
    using pbuf_take_at_correct [of h "Some a" qs offset len d] assms by (auto simp: writable_def)
  let ?h = "h\<lparr>mem := m\<rparr>"
  have w: "writable (Some a) qs ?h" by (rule writable_mem [OF assms(1) m(2)])
  have d: "chain_data ?h qs = take (unat offset) (chain_data h qs) @ d @ drop (unat offset + unat len) (chain_data h qs)"
    using m(3) assms(4) by (simp add: patch_def)
  then have "take (unat len) (drop (unat offset) (chain_data ?h qs)) = d"
    "\<not> length (chain_data ?h qs) < unat offset + unat len"
    using assms(2,3,4) by simp_all
  moreover have "first_diff d d = None" by (induction d) simp_all
  ultimately have "pbuf_memcmp ?h (Some a) offset d len = Inr 0"
    using pbuf_memcmp_correct [of ?h a qs d len offset] w assms(4) by (simp add: writable_def)
  with m(1) w d show ?thesis by blast
qed

theorem pbuf_take_at_memcmp_witness:
  "\<exists>h'. pbuf_take_at sample (Some 0) (Some [7, 8, 9]) 3 2 = Inr (ERR_OK, h')
     \<and> chain_data h' [0, 1] = [10, 20, 7, 8, 9] \<and> pbuf_memcmp h' (Some 0) 2 [7, 8, 9] 3 = Inr 0"
  using pbuf_take_at_memcmp [OF sample_writable, of 2 3 "[7, 8, 9]"] by auto

lemma occurs_sample: "occurs (chain_data sample [0, 1]) [30, 40] j \<longleftrightarrow> j = 2"
proof -
  have "occurs [10, 20, 30, 40, 50 :: byte] [30, 40] j \<longleftrightarrow> j = 2" if "j < 4"
  proof -
    from that consider "j = 0" | "j = 1" | "j = 2" | "j = 3" by linarith
    then show ?thesis by cases (simp_all add: occurs_def)
  qed
  moreover have "\<not> occurs [10, 20, 30, 40, 50 :: byte] [30, 40] j" if "\<not> j < 4"
    using that by (simp add: occurs_def)
  ultimately show ?thesis unfolding sample_data by (cases "j < 4") auto
qed

theorem pbuf_memfind_correct_witness: "pbuf_memfind sample (Some 0) [30, 40] 2 1 = Inr 2"
proof -
  have "(LEAST j. unat (1 :: u16_t) \<le> j \<and> occurs (chain_data sample [0, 1]) [30, 40] j) = 2"
    unfolding occurs_sample by (rule Least_equality) simp_all
  moreover have "\<exists>j\<ge>unat (1 :: u16_t). occurs (chain_data sample [0, 1]) [30, 40] j"
    unfolding occurs_sample by simp
  moreover obtain r where "pbuf_memfind sample (Some 0) [30, 40] 2 1 = Inr r"
    "if \<exists>j\<ge>unat (1 :: u16_t). occurs (chain_data sample [0, 1]) [30, 40] j
     then unat r = (LEAST j. unat (1 :: u16_t) \<le> j \<and> occurs (chain_data sample [0, 1]) [30, 40] j)
     else r = 0xFFFF"
    using pbuf_memfind_correct [OF sample_heap_ok sample_chain(1), of "[30, 40]" 2 1] by auto
  ultimately show ?thesis by (simp add: word_unat_eq_iff)
qed

section \<open>Reference counting\<close>

text \<open>
  C12: \<^verbatim>\<open>pbuf_free\<close> releases the leading pbufs of the chain that are referenced once, returns their
  number, takes one reference from the first pbuf referenced more often, and leaves all others alone.
\<close>

theorem pbuf_free_releases:
  assumes "heap_ok h" and "path h (Some a) (us @ vs)" and "\<forall>q\<in>set (us @ vs). freeable h q"
    and "\<forall>u\<in>set us. once h u" and "vs \<noteq> [] \<longrightarrow> \<not> once h (hd vs)"
  shows "\<exists>h'. pbuf_free h (Some a) = Inr (of_nat (length us), h') \<and> heap_ok h'
     \<and> (\<forall>u\<in>set us. pbufs h' u = None \<and> mem h' u = None)
     \<and> (vs \<noteq> [] \<longrightarrow> pbufs h' (hd vs) = Some ((pb h (hd vs))\<lparr>p_ref := p_ref (pb h (hd vs)) - 1\<rparr>))
     \<and> (\<forall>q. q \<notin> set us \<longrightarrow> mem h' q = mem h q \<and> (vs = [] \<or> q \<noteq> hd vs \<longrightarrow> pbufs h' q = pbufs h q))"
proof -
  have tw: "takeWhile (once h) (us @ vs) = us" "dropWhile (once h) (us @ vs) = vs"
    using assms(4,5) by (cases vs; simp add: takeWhile_append2 dropWhile_append2)+
  have disj: "set us \<inter> set vs = {}" using path_distinct [OF assms(2)] by auto
  define h' where "h' = free_spec h (us @ vs)"
  have eq: "h' = (case vs of [] \<Rightarrow> drop_objs (set us) h | c # _ \<Rightarrow> unref c (drop_objs (set us) h))"
    by (simp add: h'_def free_spec_def tw Let_def)
  have f: "pbuf_free h (Some a) = Inr (of_nat (length us), h')"
    using pbuf_free_correct [OF assms(1-3)] by (simp add: tw h'_def)
  show ?thesis
  proof (cases vs)
    case Nil
    then show ?thesis using f eq assms(1) by (auto simp: restrict_map_def)
  next
    case (Cons c cs)
    have c: "c \<notin> set us" using disj Cons by auto
    obtain b where b: "pbufs h c = Some b" using path_alloced [OF assms(2), of c] Cons by auto
    have "pbufs (drop_objs (set us) h) c = Some b" using b c by (simp add: restrict_map_def)
    then have "heap_ok h'" using eq Cons heap_ok_upd [OF heap_ok_drop [OF assms(1)]] by (simp add: unref_def)
    moreover have "pb (drop_objs (set us) h) c = pb h c" using c by (simp add: pb_def restrict_map_def)
    ultimately show ?thesis using f eq Cons c by (auto simp: unref_def restrict_map_def)
  qed
qed

theorem pbuf_free_releases_witness:
  "\<exists>h'. pbuf_free sample (Some 0) = Inr (2, h') \<and> heap_ok h' \<and> pbufs h' 0 = None \<and> pbufs h' 1 = None"
proof -
  have "path sample (Some 0) ([0, 1] @ [])" using chain_ok_path [OF sample_chain(1)] by simp
  then show ?thesis using pbuf_free_releases [of sample 0 "[0, 1]" "[]"] by auto
qed

text \<open>
  A reference taken with \<^verbatim>\<open>pbuf_ref\<close> and given back with \<^verbatim>\<open>pbuf_free\<close> leaves the heap as it was,
  and nothing is released; \<^verbatim>\<open>pbuf_ref\<close> fails only when the 8 bit counter would wrap around.
\<close>

theorem pbuf_ref_free:
  assumes "heap_ok h" and "path h (Some a) qs" and "\<forall>q\<in>set qs. freeable h q"
  shows "if p_ref (pb h a) = 255 then pbuf_ref h (Some a) = Inl Abort
    else \<exists>h'. pbuf_ref h (Some a) = Inr h' \<and> pbuf_free h' (Some a) = Inr (0, h)"
proof (cases "p_ref (pb h a) = 255")
  case True
  then show ?thesis using assms(2) pbuf_ref_correct by (auto elim: path_SomeE)
next
  case False
  obtain b rs where b: "qs = a # rs" "pbufs h a = Some b" "path h (p_next b) rs"
    using assms(2) by (rule path_SomeE)
  let ?b = "b\<lparr>p_ref := p_ref b + 1\<rparr>"
  let ?h = "h\<lparr>pbufs := (pbufs h)(a \<mapsto> ?b)\<rparr>"
  have r: "pbuf_ref h (Some a) = Inr ?h" using pbuf_ref_correct [OF b(2)] False b(2) by simp
  have "(255 :: u8_t) = - 1" by simp
  then have "p_ref b + 1 \<noteq> 0" using False b(2) eq_neg_iff_add_eq_0 [of "p_ref b" 1] by (metis pb_Some)
  moreover have "freeable h a" using assms(3) b(1) by simp
  ultimately have fr: "freeable ?h a" using b(2)
    by (auto simp: freeable_iff pbuf_get_allocsrc_def word_neq_0_conv [symmetric])
  have "p_ref b \<noteq> 0" using \<open>freeable h a\<close> b(2) by (auto simp: freeable_iff)
  then have "p_ref ?b \<noteq> 1" by simp
  then have "pbuf_free ?h (Some a) = Inr (0, unref a ?h)"
    using free_step_more [OF fr, of ?b] by (simp add: pbuf_free_def fuel_def del: pbuf_free_loop.simps)
  moreover have "unref a ?h = h" using b(2) by (simp add: unref_def fun_upd_idem)
  ultimately show ?thesis using r False by simp
qed

theorem pbuf_ref_free_witness:
  "\<exists>h'. pbuf_ref sample (Some 0) = Inr h' \<and> pbuf_free h' (Some 0) = Inr (0, sample)"
  using pbuf_ref_free [OF sample_heap_ok chain_ok_path [OF sample_chain(1)]] by simp

section \<open>Headers\<close>

lemma chain_add_hdr:
  assumes "chain_ok h (Some a) (a # qs)" and "contiguous_at h a b room"
    and "mem h a = Some bs" and "room + unat (p_len b) \<le> length bs"
    and "n \<le> room" and "n + length (chain_data h (a # qs)) \<le> 65535"
    and "h' = h\<lparr>pbufs := (pbufs h)(a \<mapsto> add_hdr n b)\<rparr>"
  shows "chain_ok h' (Some a) (a # qs)"
    and "chain_data h' (a # qs) = take n (drop (room - n) bs) @ chain_data h (a # qs)"
    and "unat (p_len (add_hdr n b)) = n + unat (p_len b)"
proof -
  have b: "pbufs h a = Some b" "p_payload b = Some (a, int room)" using assms(2) by (auto simp: contiguous_at_def)
  let ?b = "add_hdr n b"
  have b': "pbufs h' a = Some ?b" "mem h' = mem h" by (simp_all add: assms(7))
  have tl: "unat (p_tot_len b) = unat (p_len b) + length (chain_data h qs)" "chain_ok h (p_next b) qs"
    "unat (p_tot_len b) = length (chain_data h (a # qs))"
    using assms(1) b(1) chain_ok_tot_len [OF assms(1)] by (auto simp: chain_ok_Cons)
  have lens: "unat (p_len ?b) = n + unat (p_len b)" "unat (p_tot_len ?b) = n + unat (p_tot_len b)"
    using assms(6) tl by (auto simp: add_hdr_def unat_add_16 unat_of_nat)
  have pay: "p_payload ?b = Some (a, int (room - n))" "p_next ?b = p_next b"
    using b(2) assms(5) by (simp_all add: add_hdr_def ptr_add_def of_nat_diff)
  have ok: "payload_ok h' a" using b' pay lens assms(3,4,5) by (auto simp: payload_ok_def)
  have "a \<notin> set qs" using path_distinct [OF chain_ok_path [OF assms(1)]] by simp
  then have rest: "chain_ok h' p qs = chain_ok h p qs" "chain_data h' qs = chain_data h qs" for p
    by (auto intro!: chain_cong simp: assms(7))
  show "chain_ok h' (Some a) (a # qs)" using ok lens tl pay rest b' by (simp add: chain_ok_Cons)
  have "seg h' a = take (n + unat (p_len b)) (drop (room - n) bs)"
    using pay lens assms(3) b' by (auto simp: seg_def unat_eq_zero)
  moreover have "seg h a = take (unat (p_len b)) (drop room bs)"
    using b assms(3) by (auto simp: seg_def)
  ultimately show "chain_data h' (a # qs) = take n (drop (room - n) bs) @ chain_data h (a # qs)"
    using rest assms(5) by (simp add: take_add)
  show "unat (p_len (add_hdr n b)) = n + unat (p_len b)" by (rule lens(1))
qed

text \<open>
  C33: \<^verbatim>\<open>pbuf_add_header\<close> succeeds exactly when the bytes in front of the payload suffice and the
  packet's length stays below \<^verbatim>\<open>2^16\<close>; then the packet has the bytes of the header in front of the old
  ones, and \<^verbatim>\<open>pbuf_remove_header\<close> of the same size restores the heap. Otherwise nothing changes.
\<close>

theorem pbuf_add_remove_header:
  assumes "chain_ok h (Some a) (a # qs)" and "contiguous_at h a b room"
    and "mem h a = Some bs" and "room + unat (p_len b) \<le> length bs"
  shows "if n \<le> room \<and> n + length (chain_data h (a # qs)) \<le> 65535
    then \<exists>h'. pbuf_add_header h (Some a) n = Inr (0, h') \<and> chain_ok h' (Some a) (a # qs)
      \<and> chain_data h' (a # qs) = take n (drop (room - n) bs) @ chain_data h (a # qs)
      \<and> pbuf_remove_header h' (Some a) n = Inr (0, h)
    else pbuf_add_header h (Some a) n = Inr (1, h)"
proof -
  have b: "pbufs h a = Some b" using assms(2) by (simp add: contiguous_at_def)
  have tot: "unat (p_tot_len b) = length (chain_data h (a # qs))"
    using chain_ok_tot_len [OF assms(1)] b by simp
  note add = pbuf_add_header_contiguous [OF assms(2), of n]
  show ?thesis
  proof (cases "n \<le> room \<and> n + length (chain_data h (a # qs)) \<le> 65535")
    case True
    let ?h = "h\<lparr>pbufs := (pbufs h)(a \<mapsto> add_hdr n b)\<rparr>"
    note c = chain_add_hdr [OF assms True [THEN conjunct1] True [THEN conjunct2] refl]
    have "pbuf_remove_header ?h (Some a) n = Inr (0, h)"
      using pbuf_remove_header_correct [of ?h a "add_hdr n b" n] c(3) True b
      by (simp add: fun_upd_idem)
    then show ?thesis using True add tot c by auto
  qed (use add tot in auto)
qed

theorem pbuf_add_remove_header_witness:
  "\<exists>h'. pbuf_add_header sample (Some 0) 2 = Inr (0, h') \<and> chain_data h' [0, 1] = [0, 0, 10, 20, 30, 40, 50]
      \<and> pbuf_remove_header h' (Some 0) 2 = Inr (0, sample)"
  using pbuf_add_remove_header [OF sample_chain(1) sample_contiguous, of "[0, 0, 0, 0, 10, 20, 30]" 2]
  by auto

theorem pbuf_free_header_drop_witness:
  "\<exists>h' p' vs. pbuf_free_header sample (Some 0) 4 = Inr (p', h') \<and> chain_ok h' p' vs \<and> chain_data h' vs = [50]"
  using pbuf_free_header_drop [OF sample_heap_ok sample_chain(1) _ sample_independent, of 4] by auto

section \<open>Allocation\<close>

text \<open>
  \<^verbatim>\<open>pbuf_alloc\<close> of type \<^verbatim>\<open>PBUF_RAM\<close>: when header space and length fit into 16 bits and memory is
  available, the result is a fresh packet of the requested length with the header space in front of
  it that \<^verbatim>\<open>pbuf_free\<close> can release; otherwise it is \<^verbatim>\<open>NULL\<close>. No existing object changes.
\<close>

theorem pbuf_alloc_ram:
  assumes "heap_ok h"
  shows "\<exists>r h'. pbuf_alloc h layer len PBUF_RAM = Inr (r, h') \<and> heap_ok h'
     \<and> (\<forall>a<nextid h. pbufs h' a = pbufs h a \<and> mem h' a = mem h a)
     \<and> (if unat layer + unat len > 65535 \<or> oom h (nextid h) then r = None
        else r = Some (nextid h) \<and> chain_ok h' r [nextid h] \<and> length (chain_data h' [nextid h]) = unat len
          \<and> freeable h' (nextid h) \<and> once h' (nextid h)
          \<and> (\<exists>b. contiguous_at h' (nextid h) b (unat layer)))"
proof -
  have "heap_ok (h\<lparr>nextid := Suc (nextid h)\<rparr>)" using assms by (auto simp: heap_ok_def less_Suc_eq)
  then show ?thesis using pbuf_alloc_ram_eq [of h layer len] ram_pbuf_ok [OF assms, of layer len] assms
    by (auto simp: with_pbuf_def [symmetric])
qed

theorem pbuf_alloc_ram_witness:
  "\<exists>h'. pbuf_alloc sample PBUF_TRANSPORT 1000 PBUF_RAM = Inr (Some 3, h')
     \<and> heap_ok h' \<and> length (chain_data h' [3]) = 1000"
  using pbuf_alloc_ram [OF sample_heap_ok, of PBUF_TRANSPORT 1000] by auto

text \<open>
  \<^verbatim>\<open>pbuf_alloc\<close> of type \<^verbatim>\<open>PBUF_POOL\<close>: the result is \<^verbatim>\<open>NULL\<close> only when the pool ran out of
  memory, with every pbuf it had already taken given back; otherwise it is a chain of fresh pool buffers that together hold exactly the
  requested length.
\<close>

theorem pbuf_alloc_pool:
  assumes "heap_ok h" and "layer < 1514"
  shows "\<exists>r h'. pbuf_alloc h layer len PBUF_POOL = Inr (r, h') \<and> heap_ok h'
     \<and> (case r of None \<Rightarrow> pbufs h' = pbufs h \<and> mem h' = mem h \<and> (\<exists>i\<ge>nextid h. oom h i)
        | Some a \<Rightarrow> \<exists>qs. chain_ok h' r qs \<and> length (chain_data h' qs) = unat len
            \<and> (\<forall>q\<in>set qs. nextid h \<le> q \<and> freeable h' q \<and> once h' q)
            \<and> (\<forall>q<nextid h. pbufs h' q = pbufs h q \<and> mem h' q = mem h q))"
proof -
  have l: "unat layer < 1514" using assms(2) by (simp add: word_less_nat_alt)
  from assms show ?thesis
  proof (cases rule: pbuf_alloc_pool_cases [where len = len])
    case (allocated rs h')
    then show ?thesis using pool_chain_ok [OF allocated(2) l] by auto
  qed auto
qed

theorem pbuf_alloc_pool_witness:
  "\<exists>a h' qs. pbuf_alloc sample PBUF_RAW 4000 PBUF_POOL = Inr (Some a, h')
     \<and> chain_ok h' (Some a) qs \<and> length (chain_data h' qs) = 4000"
  using pbuf_alloc_pool [OF sample_heap_ok, of PBUF_RAW 4000] by (auto split: option.splits)

section \<open>Chains\<close>

text \<open>
  \<^verbatim>\<open>pbuf_cat\<close> of two packets that together stay below \<^verbatim>\<open>2^16\<close> bytes is one packet with the bytes of
  the first followed by those of the second, and every \<^verbatim>\<open>tot_len\<close> is right again.
\<close>

theorem pbuf_cat_concatenates:
  assumes "heap_ok h" and "chain_ok h (Some a) qs" and "chain_ok h (Some t) rs" and "set qs \<inter> set rs = {}"
    and "length (chain_data h qs) + length (chain_data h rs) \<le> 65535"
  shows "\<exists>h'. pbuf_cat h (Some a) (Some t) = Inr h' \<and> chain_ok h' (Some a) (qs @ rs)
     \<and> chain_data h' (qs @ rs) = chain_data h qs @ chain_data h rs"
proof -
  obtain c cs where "rs = t # cs" "pbufs h t = Some c" using assms(3) by (auto simp: chain_ok_Some)
  with pbuf_cat_eq [OF assms(1,2), of t c] chain_ok_cat_heap [OF assms] assms(4) show ?thesis by auto
qed

theorem pbuf_cat_concatenates_witness:
  "\<exists>h'. pbuf_cat sample (Some 0) (Some 2) = Inr h' \<and> chain_ok h' (Some 0) [0, 1, 2]
     \<and> chain_data h' [0, 1, 2] = [10, 20, 30, 40, 50, 1, 2, 3, 4, 5, 6, 7, 8]"
  using pbuf_cat_concatenates [OF sample_heap_ok sample_chain] by auto

theorem pbuf_realloc_correct_witness:
  "\<exists>h'. pbuf_realloc sample (Some 0) 2 = Inr h' \<and> chain_ok h' (Some 0) [0] \<and> chain_data h' [0] = [10, 20]"
  using pbuf_realloc_correct [OF sample_heap_ok sample_chain(1) _ sample_independent, of 2] by auto

theorem pbuf_dechain_correct_witness:
  "\<exists>h'. pbuf_dechain sample (Some 0) = Inr (None, h') \<and> pbufs h' 1 = None
     \<and> pbufs h' 0 = Some (sample_pbuf None 0 4 3 3)"
  using pbuf_dechain_correct [OF sample_heap_ok sample_chain(1) _ sample_pbufs(1)]
  by (auto simp: free_spec_def restrict_map_def sample_pbuf_def)

section \<open>Copies\<close>

text \<open>
  \<^verbatim>\<open>pbuf_copy\<close> stores the bytes of the source packet into the target packet, however the two are
  cut into pbufs, and changes neither the rest of the target nor the source.
\<close>

theorem pbuf_copy_copies:
  assumes "heap_ok h" and "chain_ok h (Some t) ts" and "chain_ok h (Some f) fs"
    and "solid h ts" and "solid h fs" and "separate h ts" and "apart h ts fs"
    and "length (chain_data h fs) \<le> length (chain_data h ts)"
  shows "\<exists>m. pbuf_copy h (Some t) (Some f) = Inr (ERR_OK, h\<lparr>mem := m\<rparr>) \<and> same_shape (mem h) m
    \<and> chain_data (h\<lparr>mem := m\<rparr>) ts = chain_data h fs @ drop (length (chain_data h fs)) (chain_data h ts)
    \<and> chain_data (h\<lparr>mem := m\<rparr>) fs = chain_data h fs"
  using assms by (rule pbuf_copy_correct)

theorem pbuf_copy_copies_witness:
  "\<exists>m. pbuf_copy sample (Some 2) (Some 0) = Inr (ERR_OK, sample\<lparr>mem := m\<rparr>)
    \<and> chain_data (sample\<lparr>mem := m\<rparr>) [2] = [10, 20, 30, 40, 50, 6, 7, 8]"
  using pbuf_copy_copies [OF sample_heap_ok sample_chain(2,1) sample_solid(2,1) sample_separate(2) sample_apart]
  by auto

theorem pbuf_coalesce_correct_witness:
  "\<exists>h'. pbuf_coalesce sample (Some 0) PBUF_TRANSPORT = Inr (Some 3, h')
      \<and> chain_data h' [3] = [10, 20, 30, 40, 50] \<and> pbufs h' 0 = None \<and> pbufs h' 1 = None"
  using pbuf_coalesce_correct [OF sample_heap_ok sample_chain(1) sample_solid(1), of PBUF_TRANSPORT] by auto

end
