(* ===== verification/Netif_H.thy ===== *)
theory Netif_H
  imports Lwip_Prelude
begin

text \<open>
  The data of \<^verbatim>\<open>lwip/ip_addr.h\<close> and \<^verbatim>\<open>lwip/netif.h\<close> that the modules share: addresses of either
  version, and the part of a network interface that addressing depends on.
\<close>

section \<open>Addresses\<close>

text \<open>
  \<^verbatim>\<open>ip_addr_t\<close>: the words of the union (an IPv4 address is its first word), the IPv6 zone and the
  type. All words are in network byte order, that is, as they lie in memory.
\<close>

record ip_addr_t =
  u_addr :: "u32_t list"
  ip_zone :: u8_t
  ip_type :: u8_t

definition IPADDR_TYPE_V4 :: u8_t where "IPADDR_TYPE_V4 = 0"
definition IPADDR_TYPE_V6 :: u8_t where "IPADDR_TYPE_V6 = 6"
definition IPADDR_TYPE_ANY :: u8_t where "IPADDR_TYPE_ANY = 46"

definition IP_IS_V6 :: "ip_addr_t \<Rightarrow> bool" where
  "IP_IS_V6 a \<longleftrightarrow> ip_type a = IPADDR_TYPE_V6"

definition ip_2_ip4 :: "ip_addr_t \<Rightarrow> u32_t" where
  "ip_2_ip4 a = u_addr a ! 0"

abbreviation (input) IPADDR_ANY :: u32_t where "IPADDR_ANY \<equiv> 0"
abbreviation (input) IPADDR_NONE :: u32_t where "IPADDR_NONE \<equiv> 0xffffffff"
abbreviation (input) IPADDR_BROADCAST :: u32_t where "IPADDR_BROADCAST \<equiv> 0xffffffff"

section \<open>Interfaces\<close>

text \<open>
  The fields of \<^verbatim>\<open>struct netif\<close> the modelled modules read; \<open>n_ip_addr\<close> and \<open>n_netmask\<close> are IPv4 addresses.
\<close>

record netif =
  n_ip_addr :: u32_t
  n_netmask :: u32_t
  n_gw :: u32_t
  n_ip6_addr :: "ip_addr_t list"
  n_ip6_addr_state :: "u8_t list"
  n_mtu :: u16_t
  n_flags :: u8_t
  n_num :: u8_t

abbreviation (input) NETIF_FLAG_UP :: u8_t where "NETIF_FLAG_UP \<equiv> 0x01"
abbreviation (input) NETIF_FLAG_BROADCAST :: u8_t where "NETIF_FLAG_BROADCAST \<equiv> 0x02"
abbreviation (input) NETIF_FLAG_LINK_UP :: u8_t where "NETIF_FLAG_LINK_UP \<equiv> 0x04"

end
