(* ===== verification/Chksum_Pbuf.thy ===== *)
theory Chksum_Pbuf
  imports Pbuf_Contract Netif_H
begin

text \<open>
  The checksums of \<^verbatim>\<open>core/inet_chksum.c\<close> that run over a chain of pbufs, with and without the
  pseudo header of IPv4 and IPv6. A chain's checksum is the checksum of the concatenation of its
  payloads, wherever the payloads start and however the data is cut. \<open>addr_odd\<close> tells which
  addresses are odd.
\<close>

section \<open>Operations\<close>

fun chksum_pbuf_loop :: "nat \<Rightarrow> (ptr \<Rightarrow> bool) \<Rightarrow> heap \<Rightarrow> pptr \<Rightarrow> u32_t \<times> bool \<Rightarrow> (u32_t \<times> bool) outcome" where
  "chksum_pbuf_loop n addr_odd h None st = Inr st"
| "chksum_pbuf_loop 0 addr_odd h (Some a) st = Inl Diverge"
| "chksum_pbuf_loop (Suc n) addr_odd h (Some a) st =
     bnd (pget h (Some a)) (\<lambda>b.
     bnd (mem_read h (p_payload b) 0 (unat (p_len b))) (\<lambda>bs.
       chksum_pbuf_loop n addr_odd h (p_next b)
         (chksum_step (LWIP_CHKSUM (addr_odd (p_payload b)) bs) (unat (p_len b)) st)))"

definition inet_chksum_pbuf :: "(ptr \<Rightarrow> bool) \<Rightarrow> heap \<Rightarrow> pptr \<Rightarrow> u16_t outcome" where
  "inet_chksum_pbuf addr_odd h p =
     bnd (chksum_pbuf_loop (fuel h) addr_odd h p (0, False)) (\<lambda>st.
       Inr (ucast (NOT (chksum_unswap st AND 0xffff))))"

definition inet_cksum_pseudo_base ::
  "(ptr \<Rightarrow> bool) \<Rightarrow> heap \<Rightarrow> pptr \<Rightarrow> u8_t \<Rightarrow> u16_t \<Rightarrow> u32_t \<Rightarrow> u16_t outcome" where
  "inet_cksum_pseudo_base addr_odd h p proto proto_len acc =
     bnd (chksum_pbuf_loop (fuel h) addr_odd h p (acc, False)) (\<lambda>st.
       Inr (chksum_pseudo_end proto proto_len (chksum_unswap st)))"

definition inet_chksum_pseudo ::
  "(ptr \<Rightarrow> bool) \<Rightarrow> heap \<Rightarrow> pptr \<Rightarrow> u8_t \<Rightarrow> u16_t \<Rightarrow> u32_t \<Rightarrow> u32_t \<Rightarrow> u16_t outcome" where
  "inet_chksum_pseudo addr_odd h p proto proto_len src dest =
     inet_cksum_pseudo_base addr_odd h p proto proto_len (chksum_addrs [src, dest])"

text \<open>The loop of the IPv6 version takes the words of source and destination in turn.\<close>

definition ip6_addr_words :: "u32_t list \<Rightarrow> u32_t list \<Rightarrow> u32_t list" where
  "ip6_addr_words src dest = concat (map (\<lambda>i. [src ! i, dest ! i]) [0..<4])"

definition ip6_chksum_pseudo ::
  "(ptr \<Rightarrow> bool) \<Rightarrow> heap \<Rightarrow> pptr \<Rightarrow> u8_t \<Rightarrow> u16_t \<Rightarrow> u32_t list \<Rightarrow> u32_t list \<Rightarrow> u16_t outcome" where
  "ip6_chksum_pseudo addr_odd h p proto proto_len src dest =
     inet_cksum_pseudo_base addr_odd h p proto proto_len (chksum_addrs (ip6_addr_words src dest))"

definition ip_chksum_pseudo ::
  "(ptr \<Rightarrow> bool) \<Rightarrow> heap \<Rightarrow> pptr \<Rightarrow> u8_t \<Rightarrow> u16_t \<Rightarrow> ip_addr_t \<Rightarrow> ip_addr_t \<Rightarrow> u16_t outcome" where
  "ip_chksum_pseudo addr_odd h p proto proto_len src dest =
     (if IP_IS_V6 dest then ip6_chksum_pseudo addr_odd h p proto proto_len (u_addr src) (u_addr dest)
      else inet_chksum_pseudo addr_odd h p proto proto_len (ip_2_ip4 src) (ip_2_ip4 dest))"

text \<open>
  The versions that cover only the first \<open>chksum_len\<close> bytes. The assertion in the loop aborts when
  more than 32766 bytes remain after a pbuf.
\<close>

fun chksum_partial_loop ::
  "nat \<Rightarrow> (ptr \<Rightarrow> bool) \<Rightarrow> heap \<Rightarrow> pptr \<Rightarrow> u16_t \<Rightarrow> u32_t \<times> bool \<Rightarrow> (u32_t \<times> bool) outcome" where
  "chksum_partial_loop n addr_odd h None chksum_len st = Inr st"
| "chksum_partial_loop 0 addr_odd h (Some a) chksum_len st =
     (if chksum_len > 0 then Inl Diverge else Inr st)"
| "chksum_partial_loop (Suc n) addr_odd h (Some a) chksum_len st =
     (if chksum_len > 0
      then bnd (pget h (Some a)) (\<lambda>b.
        let chklen = (if p_len b > chksum_len then chksum_len else p_len b) in
        bnd (mem_read h (p_payload b) 0 (unat chklen)) (\<lambda>bs.
        let chk = LWIP_CHKSUM (addr_odd (p_payload b)) bs; chksum_len = chksum_len - chklen in
        lwip_assert (chksum_len < 0x7fff)
          (chksum_partial_loop n addr_odd h (p_next b) chksum_len (chksum_step chk (unat (p_len b)) st))))
      else Inr st)"

definition inet_cksum_pseudo_partial_base ::
  "(ptr \<Rightarrow> bool) \<Rightarrow> heap \<Rightarrow> pptr \<Rightarrow> u8_t \<Rightarrow> u16_t \<Rightarrow> u16_t \<Rightarrow> u32_t \<Rightarrow> u16_t outcome" where
  "inet_cksum_pseudo_partial_base addr_odd h p proto proto_len chksum_len acc =
     bnd (chksum_partial_loop (fuel h) addr_odd h p chksum_len (acc, False)) (\<lambda>st.
       Inr (chksum_pseudo_end proto proto_len (chksum_unswap st)))"

definition inet_chksum_pseudo_partial ::
  "(ptr \<Rightarrow> bool) \<Rightarrow> heap \<Rightarrow> pptr \<Rightarrow> u8_t \<Rightarrow> u16_t \<Rightarrow> u16_t \<Rightarrow> u32_t \<Rightarrow> u32_t \<Rightarrow> u16_t outcome" where
  "inet_chksum_pseudo_partial addr_odd h p proto proto_len chksum_len src dest =
     inet_cksum_pseudo_partial_base addr_odd h p proto proto_len chksum_len (chksum_addrs [src, dest])"

definition ip6_chksum_pseudo_partial ::
  "(ptr \<Rightarrow> bool) \<Rightarrow> heap \<Rightarrow> pptr \<Rightarrow> u8_t \<Rightarrow> u16_t \<Rightarrow> u16_t \<Rightarrow> u32_t list \<Rightarrow> u32_t list \<Rightarrow> u16_t outcome" where
  "ip6_chksum_pseudo_partial addr_odd h p proto proto_len chksum_len src dest =
     inet_cksum_pseudo_partial_base addr_odd h p proto proto_len chksum_len
       (chksum_addrs (ip6_addr_words src dest))"

definition ip_chksum_pseudo_partial ::
  "(ptr \<Rightarrow> bool) \<Rightarrow> heap \<Rightarrow> pptr \<Rightarrow> u8_t \<Rightarrow> u16_t \<Rightarrow> u16_t \<Rightarrow> ip_addr_t \<Rightarrow> ip_addr_t \<Rightarrow> u16_t outcome" where
  "ip_chksum_pseudo_partial addr_odd h p proto proto_len chksum_len src dest =
     (if IP_IS_V6 dest
      then ip6_chksum_pseudo_partial addr_odd h p proto proto_len chksum_len (u_addr src) (u_addr dest)
      else inet_chksum_pseudo_partial addr_odd h p proto proto_len chksum_len (ip_2_ip4 src) (ip_2_ip4 dest))"

section \<open>The checksum of a chain\<close>

lemma chksum_pbuf_loop_correct:
  assumes "chain_ok h p qs" and "length qs < n" and "chksum.chain_state c ds st"
  shows "\<exists>st'. chksum_pbuf_loop n addr_odd h p st = Inr st' \<and> chksum.chain_state c (ds @ chain_data h qs) st'"
  using assms
proof (induction qs arbitrary: p n ds st)
  case (Cons a qs)
  then obtain b n' where b: "p = Some a" "pbufs h a = Some b" "payload_ok h a" "chain_ok h (p_next b) qs"
    and n: "n = Suc n'" "length qs < n'" by (cases n) (auto simp: chain_ok_Cons)
  have l: "length (seg h a) = unat (p_len b)" using b by (simp add: length_seg)
  have rd: "mem_read h (p_payload b) 0 (unat (p_len b)) = Inr (seg h a)"
    using mem_read_seg [OF b(3), of 0 "unat (p_len b)"] b(2) l by simp
  have le: "length (seg h a) \<le> 65535" using l unat_lt_16 [of "p_len b"] by linarith
  note step = chksum.chain_state_step [OF Cons.prems(3) le, of "addr_odd (p_payload b)", unfolded l]
  from Cons.IH [OF b(4) n(2) step] show ?case
    using b n rd by simp
qed simp

text \<open>
  \<^verbatim>\<open>inet_chksum_pbuf\<close> of a chain is the Internet checksum of the bytes of the packet, however they are
  distributed over pbufs of even or odd length at even or odd addresses.
\<close>

theorem inet_chksum_pbuf_data:
  assumes "heap_ok h" and "chain_ok h p qs"
  shows "inet_chksum_pbuf addr_odd h p = Inr (internet_checksum (chain_data h qs))"
proof -
  have "chksum.chain_state 0 [] (0, False)" by (rule chksum.chain_state_init) simp
  from chksum_pbuf_loop_correct [OF assms(2) chain_ok_length [OF assms(2,1)] this, of addr_odd]
  obtain st where st: "chksum_pbuf_loop (fuel h) addr_odd h p (0, False) = Inr st"
    "chksum.chain_state 0 (chain_data h qs) st" by auto
  then have u: "unat (chksum_unswap st) = ocnorm (lsum (chain_data h qs))"
    using chksum.chain_state_unswap by fastforce
  have "ucast (NOT (u AND 0xffff)) = (NOT (ucast u) :: u16_t)" for u :: u32_t
    by (rule bit_word_eqI) (auto simp: and_0xffff bit_simps)
  then have "ucast (NOT (chksum_unswap st AND 0xffff)) = internet_checksum (chain_data h qs)"
    by (intro internet_checksum_eqI) (simp add: unat_not_16 unat_ucast_32_16 u)
  then show ?thesis using st(1) by (simp add: inet_chksum_pbuf_def)
qed

text \<open>
  The pseudo headers of IPv4 (RFC 793) and IPv6 (RFC 2460). The order of the fields does not matter
  for the sum, so the code adds them as it likes.
\<close>

definition pseudo_header :: "u32_t list \<Rightarrow> u8_t \<Rightarrow> u16_t \<Rightarrow> bytes" where
  "pseudo_header addrs proto proto_len = concat (map u32_bytes addrs) @ [0, proto] @ be16 proto_len"

definition pseudo_header6 :: "u32_t list \<Rightarrow> u8_t \<Rightarrow> u16_t \<Rightarrow> bytes" where
  "pseudo_header6 addrs proto proto_len = concat (map u32_bytes addrs) @ [0, 0] @ be16 proto_len @ [0, 0, 0, proto]"

lemma even_length_u32_bytes: "even (length (concat (map u32_bytes addrs)))"
  by (induction addrs) (simp_all add: u32_bytes_def)

lemma lsum_pseudo:
  "lsum (pseudo_header addrs proto proto_len @ d)
   = lsum (concat (map u32_bytes addrs)) + lsum d + lsum (0 # proto # be16 proto_len)"
  "lsum (pseudo_header6 addrs proto proto_len @ d)
   = lsum (concat (map u32_bytes addrs)) + lsum d + lsum (0 # proto # be16 proto_len)"
  using even_length_u32_bytes [of addrs]
  by (simp_all add: pseudo_header_def pseudo_header6_def lsum_append be16_def)

lemma lsum_addrs_append:
  "lsum (concat (map u32_bytes (xs @ ys))) = lsum (concat (map u32_bytes xs)) + lsum (concat (map u32_bytes ys))"
  using even_length_u32_bytes [of xs] by (simp add: lsum_append)

lemma lsum_ip6_addr_words:
  assumes "length s = 4" and "length d = 4"
  shows "lsum (concat (map u32_bytes (ip6_addr_words s d))) = lsum (concat (map u32_bytes (s @ d)))"
proof -
  obtain s0 s1 s2 s3 where s: "s = [s0, s1, s2, s3]"
    using assms(1) by (auto simp: numeral_eq_Suc length_Suc_conv)
  obtain d0 d1 d2 d3 where d: "d = [d0, d1, d2, d3]"
    using assms(2) by (auto simp: numeral_eq_Suc length_Suc_conv)
  have w: "ip6_addr_words s d = [s0, d0, s1, d1, s2, d2, s3, d3]"
    by (simp add: ip6_addr_words_def s d upt_rec numeral_eq_Suc)
  have ev: "even (length (u32_bytes a))" for a by (simp add: u32_bytes_def)
  have "lsum (concat (map u32_bytes [s0, d0, s1, d1, s2, d2, s3, d3])) = lsum (concat (map u32_bytes (s @ d)))"
    by (simp add: s d lsum_append ev)
  then show ?thesis by (simp only: w)
qed

lemma pseudo_base_sum:
  assumes "heap_ok h" and "chain_ok h p qs" and "length addrs \<le> 8"
  shows "\<exists>r. inet_cksum_pseudo_base addr_odd h p proto proto_len (chksum_addrs addrs) = Inr r
    \<and> unat r = 65535 - ocnorm (lsum (concat (map u32_bytes addrs)) + lsum (chain_data h qs)
                  + lsum (0 # proto # be16 proto_len))"
proof -
  let ?c = "lsum (concat (map u32_bytes addrs))"
  have "chksum.chain_state ?c [] (chksum_addrs addrs, False)"
    by (rule chksum.chain_state_init) (rule chksum_addrs_sum [OF assms(3)])
  from chksum_pbuf_loop_correct [OF assms(2) chain_ok_length [OF assms(2,1)] this, of addr_odd]
  obtain st where st: "chksum_pbuf_loop (fuel h) addr_odd h p (chksum_addrs addrs, False) = Inr st"
    "chksum.chain_state ?c (chain_data h qs) st" by auto
  then show ?thesis
    using chksum_pseudo_end_sum [OF chksum.chain_state_unswap [OF st(2)]]
    by (simp add: inet_cksum_pseudo_base_def)
qed

text \<open>
  C18: \<^verbatim>\<open>inet_chksum_pseudo\<close> is the Internet checksum of the IPv4 pseudo header followed by the packet.
\<close>

theorem inet_chksum_pseudo_data:
  assumes "heap_ok h" and "chain_ok h p qs"
  shows "inet_chksum_pseudo addr_odd h p proto proto_len src dest
    = Inr (internet_checksum (pseudo_header [src, dest] proto proto_len @ chain_data h qs))"
  using pseudo_base_sum [OF assms, of "[src, dest]" addr_odd proto proto_len]
  by (auto simp: inet_chksum_pseudo_def lsum_pseudo intro!: internet_checksum_eqI)

text \<open>
  \<^verbatim>\<open>ip6_chksum_pseudo\<close> is the Internet checksum of the IPv6 pseudo header followed by the packet.
\<close>

theorem ip6_chksum_pseudo_data:
  assumes "heap_ok h" and "chain_ok h p qs" and "length src = 4" and "length dest = 4"
  shows "ip6_chksum_pseudo addr_odd h p proto proto_len src dest
    = Inr (internet_checksum (pseudo_header6 (src @ dest) proto proto_len @ chain_data h qs))"
proof -
  have "length (ip6_addr_words src dest) \<le> 8" by (simp add: ip6_addr_words_def length_concat o_def sum_list_triv)
  from pseudo_base_sum [OF assms(1,2) this, of addr_odd proto proto_len]
  obtain r where "ip6_chksum_pseudo addr_odd h p proto proto_len src dest = Inr r"
    "unat r = 65535 - ocnorm (lsum (concat (map u32_bytes (ip6_addr_words src dest))) + lsum (chain_data h qs)
                  + lsum (0 # proto # be16 proto_len))"
    by (auto simp: ip6_chksum_pseudo_def)
  then show ?thesis
    using internet_checksum_eqI [of r "pseudo_header6 (src @ dest) proto proto_len @ chain_data h qs"]
    by (simp only: lsum_pseudo lsum_ip6_addr_words [OF assms(3,4)])
qed

section \<open>Checksum while copying\<close>

lemma fill_chksum_step:
  fixes chk cp :: u16_t
  assumes "unat chk = ocnorm (lsum xs)" and "unat cp = ocnorm (lsum ds)"
  shows "unat (ucast (FOLD_U32T (ucast chk + ucast (if odd (length xs)
             then ucast (SWAP_BYTES_IN_WORD (ucast cp)) else cp :: u16_t) :: u32_t)) :: u16_t)
       = ocnorm (lsum (xs @ ds))"
proof -
  define c :: u16_t where "c = (if odd (length xs) then ucast (SWAP_BYTES_IN_WORD (ucast cp)) else cp)"
  have c: "unat c = ocnorm (if odd (length xs) then hsum ds else lsum ds)"
  proof (cases "odd (length xs)")
    case True
    have "unat (SWAP_BYTES_IN_WORD (ucast cp)) = ocnorm (256 * lsum ds)"
      using assms(2) by (subst unat_SWAP_ocnorm) simp_all
    also have "\<dots> = ocnorm (hsum ds)" using hsum_lsum [of 0 ds] by simp
    finally show ?thesis using True by (simp add: c_def unat_ucast_32_16)
  qed (simp add: c_def assms(2))
  have le: "unat chk + unat c \<le> 131070"
    unfolding c assms(1) using ocnorm_le [of "lsum xs"] ocnorm_le [of "if odd (length xs) then hsum ds else lsum ds"]
    by linarith
  have "unat (ucast chk + ucast c :: u32_t) = unat chk + unat c"
    using le by (subst unat_add_no_wrap_32) auto
  then have "unat (FOLD_U32T (ucast chk + ucast c)) = ocnorm (unat chk + unat c)"
    using le by (simp add: unat_FOLD_small)
  also have "\<dots> = ocnorm (lsum (xs @ ds))" by (simp add: c assms(1) lsum_append)
  finally show ?thesis by (simp add: c_def [symmetric] unat_ucast_32_16)
qed

lemma and_1_odd: "(x :: u16_t) AND 1 \<noteq> 0 \<longleftrightarrow> odd (unat x)"
proof -
  have "unat (x AND 1) = unat x mod 2" by (simp add: and_one_eq unat_word_ariths)
  then show ?thesis by (metis odd_iff_mod_2_eq_one unat_eq_zero not_mod_2_eq_1_eq_0 zero_neq_one)
qed

text \<open>
  \<^verbatim>\<open>pbuf_fill_chksum\<close> copies the data into the pbuf and continues a checksum of the bytes in front of it
  to one of the bytes up to the end of the copied data, at even and odd positions.
\<close>

theorem pbuf_fill_chksum_data:
  assumes "pbufs h a = Some b" and "payload_ok h a" and "0 < len"
    and "unat start + unat len \<le> unat (p_len b)" and "length d = unat len"
    and "unat chksum = ocnorm (lsum (take (unat start) (seg h a)))"
  shows "\<exists>m chksum'. pbuf_fill_chksum addr_odd h (Some a) start (Some d) len chksum
       = Inr (ERR_OK, chksum', h\<lparr>mem := m\<rparr>)
    \<and> seg (h\<lparr>mem := m\<rparr>) a = patch (seg h a) (unat start) d
    \<and> unat chksum' = ocnorm (lsum (take (unat start + unat len) (seg (h\<lparr>mem := m\<rparr>) a)))"
proof -
  have l: "length (seg h a) = unat (p_len b)" using assms(1,2) by (simp add: length_seg)
  have n: "0 < unat len" using assms(3) by (simp add: word_less_nat_alt)
  obtain m where m: "mem_write h (p_payload b) (unat start) d = Inr (h\<lparr>mem := m\<rparr>)"
    "seg (h\<lparr>mem := m\<rparr>) a = patch (seg h a) (unat start) d"
    using mem_write_seg [OF assms(2), of "unat start" d] assms(1,4,5) by auto
  have rd: "mem_read h (p_payload b) (unat start) (unat len) = Inr (take (unat len) (drop (unat start) (seg h a)))"
    using mem_read_seg [OF assms(2), of "unat start" "unat len"] assms(1,4) by simp
  have cp: "lwip_chksum_copy od (take (unat len) (drop (unat start) (seg h a))) d = Inr (d, LWIP_CHKSUM od d)" for od
    using assms(4,5) l by (simp add: lwip_chksum_copy_def Let_def)
  have sum: "unat (LWIP_CHKSUM od d) = ocnorm (lsum d)" for od
    using assms(5) unat_lt_16 [of len] by (intro chksum.chk_sum) linarith
  have st: "start < p_len b" using assms(4) n by (simp add: word_less_nat_alt)
  let ?xs = "take (unat start) (seg h a)"
  have od: "start AND 1 \<noteq> 0 \<longleftrightarrow> odd (length ?xs)" using and_1_odd [of start] assms(4) l by simp
  have "take (unat start + unat len) (seg (h\<lparr>mem := m\<rparr>) a) = ?xs @ d"
    using m(2) assms(4,5) l by (simp add: patch_def)
  then show ?thesis
    using fill_chksum_step [OF assms(6) sum] assms(1,3,4,5) m rd cp st
    by (auto simp: pbuf_fill_chksum_def od Let_def not_le)
qed

section \<open>Partial checksums\<close>

text \<open>
  The pbuf in which \<open>chksum_len\<close> ends is summed in part, but the loop exchanges the bytes by the
  parity of its whole length; the exchange after the loop undoes that.
\<close>

context inet_checksum
begin

lemma chain_state_unswap_step:
  assumes "chain_state c ds st" and "length bs \<le> 65535"
  shows "unat (chksum_unswap (chksum_step (chk od bs) len st)) = ocnorm (c + lsum (ds @ bs))"
proof -
  obtain acc sw where st: "st = (acc, sw)" by fastforce
  let ?acc = "FOLD_U32T (acc + ucast (chk od bs))"
  have a: "unat acc \<le> 65535" using assms(1) by (simp add: chain_state_def st)
  have "unat (acc + ucast (chk od bs)) = unat acc + unat (chk od bs)" "unat (chk od bs) \<le> 65535"
    using a chk_sum [OF assms(2), of od] unat_lt_16 [of "chk od bs"]
    by (auto intro!: unat_add_no_wrap_32 [THEN trans])
  then have le: "unat ?acc \<le> 65535" using a by (simp add: unat_FOLD_small)
  have sw2: "SWAP_BYTES_IN_WORD (SWAP_BYTES_IN_WORD w) = w" if "unat w \<le> 65535" for w
  proof -
    have "unat (SWAP_BYTES_IN_WORD (SWAP_BYTES_IN_WORD w)) = ocnorm (256 * ocnorm (256 * unat w))"
      using that by (simp add: unat_SWAP_ocnorm)
    also have "\<dots> = unat w" using that ocnorm_65536 [of "unat w"] by (simp add: ocnorm_small)
    finally show ?thesis by (simp only: word_unat_eq_iff)
  qed
  have par: "chksum_unswap (chksum_step (chk od bs) l1 st) = chksum_unswap (chksum_step (chk od bs) l2 st)" for l1 l2
    using sw2 [OF le] by (simp add: chksum_step_def chksum_unswap_def st Let_def)
  show ?thesis
    using chain_state_unswap [OF chain_state_step [OF assms, of od]] par [of len "length bs"] by simp
qed

end

lemma chksum_partial_loop_correct:
  assumes "chain_ok h p qs" and "length qs < n" and "chksum.chain_state c ds st" and "clen < 0x7fff"
  shows "\<exists>st'. chksum_partial_loop n addr_odd h p clen st = Inr st'
    \<and> unat (chksum_unswap st') = ocnorm (c + lsum (ds @ take (unat clen) (chain_data h qs)))"
  using assms
proof (induction qs arbitrary: p n ds st clen)
  case Nil
  then show ?case using chksum.chain_state_unswap by fastforce
next
  case (Cons a qs)
  then obtain b n' where b: "p = Some a" "pbufs h a = Some b" "payload_ok h a" "chain_ok h (p_next b) qs"
    and n: "n = Suc n'" "length qs < n'" by (cases n) (auto simp: chain_ok_Cons)
  have l: "length (seg h a) = unat (p_len b)" using b by (simp add: length_seg)
  have le: "length (take k (seg h a)) \<le> 65535" for k
    using l unat_lt_16 [of "p_len b"] by (simp add: min_def less_Suc_eq_le del: unat_lt_16)
  define k where "k = (if p_len b > clen then clen else p_len b)"
  have k: "unat k = min (unat clen) (unat (p_len b))" by (auto simp: k_def word_less_nat_alt)
  have rd: "mem_read h (p_payload b) 0 (unat k) = Inr (take (unat k) (seg h a))"
    using mem_read_seg [OF b(3), of 0 "unat k"] b(2) k by simp
  have cl: "unat (clen - k) = unat clen - unat k" using k by (simp add: unat_sub_word word_le_nat_alt)
  let ?st = "chksum_step (LWIP_CHKSUM (addr_odd (p_payload b)) (take (unat k) (seg h a))) (unat (p_len b)) st"
  have lt: "clen - k < 0x7fff" using Cons.prems(4) cl by (simp add: word_less_nat_alt)
  show ?case
  proof (cases "clen = 0")
    case True
    then show ?thesis using b n chksum.chain_state_unswap [OF Cons.prems(3)] by simp
  next
    case False
    then have step: "chksum_partial_loop n addr_odd h p clen st
        = chksum_partial_loop n' addr_odd h (p_next b) (clen - k) ?st"
      using b n rd lt by (simp add: k_def [symmetric] Let_def word_neq_0_conv)
    show ?thesis
    proof (cases "clen < p_len b")
      case True
      then have "clen - k = 0" "unat k = unat clen" by (simp_all add: k_def)
      then have "chksum_partial_loop n addr_odd h p clen st = Inr ?st"
        unfolding step using n(2) b(4) by (cases "p_next b"; cases n') auto
      moreover have "take (unat clen) (chain_data h (a # qs)) = take (unat k) (seg h a)"
        using True \<open>unat k = unat clen\<close> l by (simp add: word_less_nat_alt)
      ultimately show ?thesis using chksum.chain_state_unswap_step [OF Cons.prems(3) le] by simp
    next
      case no: False
      then have kb: "k = p_len b" "take (unat k) (seg h a) = seg h a" using l by (simp_all add: k_def)
      have "chksum.chain_state c (ds @ seg h a) ?st"
        using chksum.chain_state_step [OF Cons.prems(3) le [of "unat k"]] l kb by simp
      from Cons.IH [OF b(4) n(2) this lt] show ?thesis
        unfolding step using cl kb l no by (simp add: word_less_nat_alt)
    qed
  qed
qed

text \<open>
  \<^verbatim>\<open>inet_chksum_pseudo_partial\<close> is the checksum over the pseudo header and the first \<^verbatim>\<open>chksum_len\<close> bytes of
  the packet.
\<close>

theorem inet_chksum_pseudo_partial_data:
  assumes "heap_ok h" and "chain_ok h p qs" and "chksum_len < 0x7fff"
  shows "inet_chksum_pseudo_partial addr_odd h p proto proto_len chksum_len src dest
    = Inr (internet_checksum (pseudo_header [src, dest] proto proto_len @ take (unat chksum_len) (chain_data h qs)))"
proof -
  let ?c = "lsum (concat (map u32_bytes [src, dest]))"
  have "chksum.chain_state ?c [] (chksum_addrs [src, dest], False)"
    by (rule chksum.chain_state_init, rule chksum_addrs_sum) simp
  from chksum_partial_loop_correct [OF assms(2) chain_ok_length [OF assms(2,1)] this assms(3), of addr_odd]
  obtain st where st: "chksum_partial_loop (fuel h) addr_odd h p chksum_len (chksum_addrs [src, dest], False) = Inr st"
    "unat (chksum_unswap st) = ocnorm (?c + lsum (take (unat chksum_len) (chain_data h qs)))" by auto
  have "chksum_pseudo_end proto proto_len (chksum_unswap st)
      = internet_checksum (pseudo_header [src, dest] proto proto_len @ take (unat chksum_len) (chain_data h qs))"
    using chksum_pseudo_end_sum [OF st(2)] by (intro internet_checksum_eqI) (simp only: lsum_pseudo)
  then show ?thesis using st(1) by (simp add: inet_chksum_pseudo_partial_def inet_cksum_pseudo_partial_base_def)
qed

section \<open>Instances\<close>

theorem inet_chksum_pbuf_data_witness:
  "inet_chksum_pbuf (\<lambda>_. False) sample (Some 0) = Inr (internet_checksum [10, 20, 30, 40, 50])"
  using inet_chksum_pbuf_data [OF sample_heap_ok sample_chain(1), of "\<lambda>_. False"] by simp

theorem inet_chksum_pseudo_data_witness:
  "inet_chksum_pseudo (\<lambda>_. True) sample (Some 0) 17 5 0x0100007f 0x0200000a
     = Inr (internet_checksum ([0x7f, 0, 0, 1, 10, 0, 0, 2, 0, 17, 0, 5] @ [10, 20, 30, 40, 50]))"
proof -
  have "pseudo_header [0x0100007f, 0x0200000a] 17 5 = [0x7f, 0, 0, 1, 10, 0, 0, 2, 0, 17, 0, 5]"
    by (simp add: pseudo_header_def u32_bytes_def be16_def)
  then show ?thesis
    using inet_chksum_pseudo_data [OF sample_heap_ok sample_chain(1), of "\<lambda>_. True" 17 5 "0x0100007f" "0x0200000a"] by simp
qed

theorem ip6_chksum_pseudo_data_witness:
  "ip6_chksum_pseudo (\<lambda>_. True) sample (Some 0) 17 5 [0, 0, 0, 0x01000000] [0, 0, 0, 0x02000000]
     = Inr (internet_checksum (pseudo_header6 [0, 0, 0, 0x01000000, 0, 0, 0, 0x02000000] 17 5 @ [10, 20, 30, 40, 50]))"
  using ip6_chksum_pseudo_data [OF sample_heap_ok sample_chain(1), of "[0, 0, 0, 0x01000000]" "[0, 0, 0, 0x02000000]"]
  by simp

theorem pbuf_fill_chksum_data_witness:
  "\<exists>m chksum'. pbuf_fill_chksum (\<lambda>_. False) sample (Some 2) 0 (Some [9, 9, 9]) 3 0
       = Inr (ERR_OK, chksum', sample\<lparr>mem := m\<rparr>) \<and> seg (sample\<lparr>mem := m\<rparr>) 2 = [9, 9, 9, 4, 5, 6, 7, 8]"
  using pbuf_fill_chksum_data [OF sample_pbufs(3), of 3 0 "[9, 9, 9]" 0 "\<lambda>_. False"]
  by (auto simp: payload_ok_def patch_def ocnorm_def)

theorem inet_chksum_pseudo_partial_data_witness:
  "inet_chksum_pseudo_partial (\<lambda>_. False) sample (Some 0) 17 5 4 1 2
     = Inr (internet_checksum (pseudo_header [1, 2] 17 5 @ [10, 20, 30, 40]))"
  using inet_chksum_pseudo_partial_data [OF sample_heap_ok sample_chain(1), of 4 "\<lambda>_. False" 17 5 1 2] by simp

end
