(* ===== verification/Wire.thy ===== *)
theory Wire
  imports Chksum_Pbuf
begin

text \<open>
  Protocol headers at the front of a packet: 16 bit fields are read and written through pointers into the
  payload of the first pbuf, in the byte order of a little-endian host.
\<close>

section \<open>Access\<close>

definition load16 :: "heap \<Rightarrow> ptr \<Rightarrow> nat \<Rightarrow> u16_t outcome" where
  "load16 h d off = bnd (mem_read h d off 2) (\<lambda>bs. Inr (le16 (bs ! 0) (bs ! 1)))"

definition store16 :: "heap \<Rightarrow> ptr \<Rightarrow> nat \<Rightarrow> u16_t \<Rightarrow> heap outcome" where
  "store16 h d off w = mem_write h d off (u16_bytes w)"

section \<open>Bytes of fields\<close>

lemma le16_u16_bytes [simp]: "le16 (ucast w) (ucast (drop_bit 8 w)) = w"
  by (rule bit_word_eqI) (auto simp: le16_def bit_simps dest: bit_imp_le_length)

lemma length_u16_bytes [simp]: "length (u16_bytes w) = 2"
  by (simp add: u16_bytes_def)

lemma unat_htons_le16: "unat (lwip_htons (le16 x y)) = 256 * unat x + unat y"
  using unat_lt_8 [of x] unat_lt_8 [of y]
  by (simp add: unat_htons unat_le16 del: unat_lt_8)

text \<open>A field stored with \<^verbatim>\<open>lwip_htons\<close> lies in memory in network byte order.\<close>

lemma u16_bytes_htons: "u16_bytes (lwip_htons w) = be16 w"
proof -
  have "ucast (lwip_htons w) = (ucast (drop_bit 8 w) :: byte)"
    by (rule bit_word_eqI) (auto simp: lwip_htons_def and_byte bit_simps)
  moreover have "ucast (drop_bit 8 (lwip_htons w)) = (ucast w :: byte)"
    by (rule bit_word_eqI) (auto simp: lwip_htons_def and_byte bit_simps)
  ultimately show ?thesis by (simp add: u16_bytes_def be16_def)
qed

lemma nth_patch:
  assumes "off + length xs \<le> length bs" and "i < length bs"
  shows "patch bs off xs ! i = (if off \<le> i \<and> i < off + length xs then xs ! (i - off) else bs ! i)"
  using assms by (auto simp: patch_def nth_append)

lemma drop_patch: "off + length xs \<le> n \<Longrightarrow> off + length xs \<le> length bs \<Longrightarrow> drop n (patch bs off xs) = drop n bs"
  by (simp add: patch_def drop_append)

section \<open>The header interface\<close>

text \<open>
  What a protocol relies on when it reads and fills its header: fields within the first \<open>room\<close> bytes of the packet
  can be read and written, and a write changes exactly the bytes of the field.
\<close>

locale header_view =
  fixes inv :: "'s \<Rightarrow> bool" and bytes_of :: "'s \<Rightarrow> bytes" and room :: nat
    and load :: "'s \<Rightarrow> nat \<Rightarrow> u16_t outcome" and store :: "'s \<Rightarrow> nat \<Rightarrow> u16_t \<Rightarrow> 's outcome"
  assumes room: "inv s \<Longrightarrow> room \<le> length (bytes_of s)"
    and load: "inv s \<Longrightarrow> off + 2 \<le> room \<Longrightarrow> load s off = Inr (le16 (bytes_of s ! off) (bytes_of s ! (off + 1)))"
    and store: "inv s \<Longrightarrow> off + 2 \<le> room \<Longrightarrow>
      \<exists>s'. store s off w = Inr s' \<and> inv s' \<and> bytes_of s' = patch (bytes_of s) off (u16_bytes w)"
begin

lemma load_store:
  assumes "inv s" and "off + 2 \<le> room" and "off2 + 2 \<le> room" and "off = off2 \<or> off + 2 \<le> off2 \<or> off2 + 2 \<le> off"
  shows "\<exists>s'. store s off w = Inr s' \<and> inv s' \<and> load s' off2 = (if off = off2 then Inr w else load s off2)"
proof -
  obtain s' where s': "store s off w = Inr s'" "inv s'" "bytes_of s' = patch (bytes_of s) off (u16_bytes w)"
    using store [OF assms(1,2)] by blast
  have "load s' off2 = (if off = off2 then Inr w else load s off2)"
    using assms room [OF assms(1)] s' by (auto simp: load nth_patch u16_bytes_def)
  with s' show ?thesis by blast
qed

text \<open>A run of fields from the start of the packet.\<close>

lemma store_field:
  assumes "inv s" and "bytes_of s = xs @ ys" and "2 \<le> length ys" and "length xs + 2 \<le> room"
  shows "\<exists>s'. store s (length xs) w = Inr s' \<and> inv s' \<and> bytes_of s' = xs @ u16_bytes w @ drop 2 ys"
  using store [OF assms(1,4), of w] assms(2) by (auto simp: patch_def)

end

section \<open>Headers of packets\<close>

text \<open>The heap holds the chain \<open>a # qs\<close>, with the pbufs \<open>P\<close>; only bytes change.\<close>

definition hdr_inv :: "(nat \<Rightarrow> pbuf option) \<Rightarrow> nat \<Rightarrow> nat list \<Rightarrow> heap \<Rightarrow> bool" where
  "hdr_inv P a qs h \<longleftrightarrow> writable (Some a) (a # qs) h \<and> pbufs h = P"

lemma hdr_inv_pb:
  assumes "hdr_inv P a qs h"
  shows "pb h a = the (P a)" and "payload_ok h a" and "length (seg h a) = unat (p_len (the (P a)))"
proof -
  show pb: "pb h a = the (P a)" using assms by (auto simp: hdr_inv_def pb_def)
  show ok: "payload_ok h a" using assms by (auto simp: hdr_inv_def writable_def chain_ok_def)
  show "length (seg h a) = unat (p_len (the (P a)))" using length_seg [OF ok] pb by simp
qed

interpretation pbuf_header: header_view "hdr_inv P a qs" "\<lambda>h. chain_data h (a # qs)" "unat (p_len (the (P a)))"
  "\<lambda>h off. load16 h (p_payload (the (P a))) off" "\<lambda>h off w. store16 h (p_payload (the (P a))) off w" for P a qs
proof unfold_locales
  fix h off w
  assume h: "hdr_inv P a qs h"
  note b = hdr_inv_pb [OF h]
  show "unat (p_len (the (P a))) \<le> length (chain_data h (a # qs))" using b(3) by simp
  assume off: "off + 2 \<le> unat (p_len (the (P a)))"
  have r: "mem_read h (p_payload (the (P a))) off 2 = Inr (take 2 (drop off (seg h a)))"
    using mem_read_seg [OF b(2), of off 2] off b(1) by simp
  show "load16 h (p_payload (the (P a))) off
      = Inr (le16 (chain_data h (a # qs) ! off) (chain_data h (a # qs) ! (off + 1)))"
    using off b(3) r by (simp add: load16_def nth_append)
  obtain m where m: "mem_write h (p_payload (the (P a))) off (u16_bytes w) = Inr (h\<lparr>mem := m\<rparr>)" "same_shape (mem h) m"
    "seg (h\<lparr>mem := m\<rparr>) a = patch (seg h a) off (u16_bytes w)"
    "\<forall>c. block h c \<noteq> block h a \<or> block h c = None \<longrightarrow> seg (h\<lparr>mem := m\<rparr>) c = seg h c"
    using mem_write_seg [OF b(2), of off "u16_bytes w"] off b(1) by auto
  have sep: "separate h (a # qs)" using h by (simp add: hdr_inv_def writable_def)
  have "seg (h\<lparr>mem := m\<rparr>) c = seg h c" if "c \<in> set qs" for c
    using m(4) sep that by (metis image_eqI separate_Cons)
  then have "chain_data (h\<lparr>mem := m\<rparr>) qs = chain_data h qs" by (intro chain_data_cong)
  then have "chain_data (h\<lparr>mem := m\<rparr>) (a # qs) = patch (chain_data h (a # qs)) off (u16_bytes w)"
    using m(3) off b(3) by (simp add: patch_def)
  moreover have "hdr_inv P a qs (h\<lparr>mem := m\<rparr>)"
    using h writable_mem [of "Some a" "a # qs" h m] m(2) by (simp add: hdr_inv_def)
  ultimately show "\<exists>h'. store16 h (p_payload (the (P a))) off w = Inr h' \<and> hdr_inv P a qs h'
      \<and> chain_data h' (a # qs) = patch (chain_data h (a # qs)) off (u16_bytes w)"
    using m(1) unfolding store16_def by blast
qed

end
