(* ===== verification/Ip4_Addr.thy ===== *)
theory Ip4_Addr
  imports Def_C Netif_H
begin

text \<open>
  \<^verbatim>\<open>core/ipv4/ip4_addr.c\<close>: tests on IPv4 addresses, and their textual form. A \<^verbatim>\<open>const char *\<close> is the
  list of the bytes from the pointer to the end of its array.
\<close>

section \<open>Tests\<close>

definition ip4_addr_netcmp :: "u32_t \<Rightarrow> u32_t \<Rightarrow> u32_t \<Rightarrow> bool" where
  "ip4_addr_netcmp addr1 addr2 msk \<longleftrightarrow> addr1 AND msk = addr2 AND msk"

definition ip4_addr_isbroadcast_u32 :: "u32_t \<Rightarrow> netif \<Rightarrow> bool" where
  "ip4_addr_isbroadcast_u32 addr nif =
     (if NOT addr = IPADDR_ANY \<or> addr = IPADDR_ANY then True
      else if n_flags nif AND NETIF_FLAG_BROADCAST = 0 then False
      else if addr = n_ip_addr nif then False
      else if ip4_addr_netcmp addr (n_ip_addr nif) (n_netmask nif)
              \<and> addr AND NOT (n_netmask nif) = IPADDR_BROADCAST AND NOT (n_netmask nif) then True
      else False)"

text \<open>The two loops of \<^verbatim>\<open>ip4_addr_netmask_valid\<close> over the bit \<^verbatim>\<open>mask\<close>; the first stops at the first zero.\<close>

function netmask_first_zero :: "u32_t \<Rightarrow> u32_t \<Rightarrow> u32_t" where
  "netmask_first_zero nm msk = (if msk = 0 then 0 else if nm AND msk = 0 then msk
     else netmask_first_zero nm (drop_bit 1 msk))"
  by auto
termination by (relation "measure (\<lambda>(nm, msk). unat msk)") (auto simp: unat_drop_bit unat_gt_0)

function netmask_rest_zero :: "u32_t \<Rightarrow> u32_t \<Rightarrow> bool" where
  "netmask_rest_zero nm msk = (if msk = 0 then True else if nm AND msk \<noteq> 0 then False
     else netmask_rest_zero nm (drop_bit 1 msk))"
  by auto
termination by (relation "measure (\<lambda>(nm, msk). unat msk)") (auto simp: unat_drop_bit unat_gt_0)

declare netmask_first_zero.simps [simp del] netmask_rest_zero.simps [simp del]

definition ip4_addr_netmask_valid :: "u32_t \<Rightarrow> bool" where
  "ip4_addr_netmask_valid netmask =
     (let nm_hostorder = lwip_htonl netmask
      in netmask_rest_zero nm_hostorder (netmask_first_zero nm_hostorder (push_bit 31 1)))"

section \<open>Parsing\<close>

text \<open>The classification macros of \<^verbatim>\<open>lwip/arch.h\<close>, which map to \<^verbatim>\<open>ctype.h\<close> in the C locale.\<close>

definition lwip_isdigit :: "byte \<Rightarrow> bool" where
  "lwip_isdigit c \<longleftrightarrow> 0x30 \<le> c \<and> c \<le> 0x39"

definition lwip_islower :: "byte \<Rightarrow> bool" where
  "lwip_islower c \<longleftrightarrow> 0x61 \<le> c \<and> c \<le> 0x7a"

definition lwip_isxdigit :: "byte \<Rightarrow> bool" where
  "lwip_isxdigit c \<longleftrightarrow> lwip_isdigit c \<or> (0x61 \<le> c \<and> c \<le> 0x66) \<or> (0x41 \<le> c \<and> c \<le> 0x46)"

definition lwip_isspace :: "byte \<Rightarrow> bool" where
  "lwip_isspace c \<longleftrightarrow> c = 0x20 \<or> (0x09 \<le> c \<and> c \<le> 0x0d)"

text \<open>The inner loop of \<^verbatim>\<open>ip4addr_aton\<close>: one number in the given base.\<close>

fun aton_digits :: "u32_t \<Rightarrow> u32_t \<Rightarrow> bytes \<Rightarrow> (u32_t \<times> bytes) outcome" where
  "aton_digits base val [] = Inl Fault"
| "aton_digits base val (c # cp) =
     (if lwip_isdigit c then aton_digits base (val * base + ucast (c - 0x30)) cp
      else if base = 16 \<and> lwip_isxdigit c
        then aton_digits base (push_bit 4 val OR ucast (c + 10 - (if lwip_islower c then 0x61 else 0x41))) cp
      else Inr (val, c # cp))"

text \<open>The prefix that selects the base, at a digit.\<close>

definition aton_base :: "bytes \<Rightarrow> (u32_t \<times> bytes) outcome" where
  "aton_base cp = bnd (deref cp) (\<lambda>c.
     if c = 0x30 then
       bnd (deref (tl cp)) (\<lambda>c. if c = 0x78 \<or> c = 0x58 then Inr (16, tl (tl cp)) else Inr (8, tl cp))
     else Inr (10, cp))"

lemma aton_digits_length: "aton_digits base val cp = Inr (v, r) \<Longrightarrow> length r \<le> length cp \<and> r \<noteq> []"
  by (induction base val cp rule: aton_digits.induct) (auto split: if_splits)

lemma aton_base_length: "aton_base cp = Inr (b, r) \<Longrightarrow> length r \<le> length cp"
  by (cases cp) (auto simp: aton_base_def bnd_eq_Inr_iff split: if_splits)

lemma aton_number_length:
  assumes "aton_base cp = Inr (b, r)" and "aton_digits b 0 r = Inr (v, r')"
  shows "length (tl r') < length cp"
  using aton_base_length [OF assms(1)] aton_digits_length [OF assms(2)] by (cases r') auto

text \<open>
  The outer loop: \<open>parts\<close> are the numbers stored so far. \<open>None\<close> is the return of 0, otherwise the result
  is the parts, the last number and the rest of the text.
\<close>

function aton_parts :: "u32_t list \<Rightarrow> bytes \<Rightarrow> (u32_t list \<times> u32_t \<times> bytes) option outcome" where
  "aton_parts parts cp =
     bnd (deref cp) (\<lambda>c. if \<not> lwip_isdigit c then Inr None else
     case aton_base cp of Inl e \<Rightarrow> Inl e | Inr (base, cp1) \<Rightarrow>
     (case aton_digits base 0 cp1 of Inl e \<Rightarrow> Inl e | Inr (val, cp2) \<Rightarrow>
      if hd cp2 = 0x2e then
        if length parts \<ge> 3 then Inr None else aton_parts (parts @ [val]) (tl cp2)
      else Inr (Some (parts, val, cp2))))"
  by auto
termination by (relation "measure (\<lambda>(parts, cp). length cp)") (auto dest: aton_number_length)

declare aton_parts.simps [simp del]

text \<open>\<^verbatim>\<open>switch (pp - parts + 1)\<close>: the address in host byte order.\<close>

definition aton_concoct :: "u32_t list \<Rightarrow> u32_t \<Rightarrow> u32_t option" where
  "aton_concoct parts val =
     (case parts of
        [] \<Rightarrow> Some val
      | [p0] \<Rightarrow> if val > 0xffffff then None else if p0 > 0xff then None else Some (val OR push_bit 24 p0)
      | [p0, p1] \<Rightarrow> if val > 0xffff then None else if p0 > 0xff \<or> p1 > 0xff then None
          else Some (val OR (push_bit 24 p0 OR push_bit 16 p1))
      | [p0, p1, p2] \<Rightarrow> if val > 0xff then None else if p0 > 0xff \<or> p1 > 0xff \<or> p2 > 0xff then None
          else Some (val OR (push_bit 24 p0 OR push_bit 16 p1 OR push_bit 8 p2))
      | _ \<Rightarrow> None)"

text \<open>The result is \<open>Some\<close> of the address stored when the function returns 1, and \<open>None\<close> when it returns 0.\<close>

definition ip4addr_aton :: "bytes \<Rightarrow> u32_t option outcome" where
  "ip4addr_aton cp = bnd (aton_parts [] cp) (\<lambda>r. case r of None \<Rightarrow> Inr None
     | Some (parts, val, cp) \<Rightarrow>
         bnd (deref cp) (\<lambda>c. if c \<noteq> 0 \<and> \<not> lwip_isspace c then Inr None
           else Inr (map_option lwip_htonl (aton_concoct parts val))))"

definition ipaddr_addr :: "bytes \<Rightarrow> u32_t outcome" where
  "ipaddr_addr cp = bnd (ip4addr_aton cp) (\<lambda>r. case r of Some val \<Rightarrow> Inr val | None \<Rightarrow> Inr IPADDR_NONE)"

section \<open>Printing\<close>

text \<open>The digits of one byte, last digit first, into \<^verbatim>\<open>inv[3]\<close>.\<close>

function ntoa_inv :: "bytes \<Rightarrow> nat \<Rightarrow> u8_t \<Rightarrow> (bytes \<times> nat) outcome" where
  "ntoa_inv ds i ap =
     (if i < length ds then
        (let ds = ds[i := 0x30 + ap mod 10]
         in if ap div 10 \<noteq> 0 then ntoa_inv ds (i + 1) (ap div 10) else Inr (ds, i + 1))
      else Inl Fault)"
  by auto
termination by (relation "measure (\<lambda>(ds, i, ap). length ds - i)") auto

declare ntoa_inv.simps [simp del]

text \<open>
  \<^verbatim>\<open>if (len++ >= buflen) return NULL; *rp++ = c;\<close> where \<^verbatim>\<open>rp - buf\<close> is always \<^verbatim>\<open>len\<close>. The flag of the result is
  false when the function returns \<^verbatim>\<open>NULL\<close>.
\<close>

definition ntoa_put :: "int \<Rightarrow> byte \<Rightarrow> bytes \<times> nat \<Rightarrow> (bool \<times> bytes \<times> nat) outcome" where
  "ntoa_put buflen c = (\<lambda>(buf, len). if int len \<ge> buflen then Inr (False, buf, len)
     else bnd (buf_set buf len c) (\<lambda>buf. Inr (True, buf, len + 1)))"

fun ntoa_emit :: "int \<Rightarrow> bytes \<Rightarrow> nat \<Rightarrow> bytes \<times> nat \<Rightarrow> (bool \<times> bytes \<times> nat) outcome" where
  "ntoa_emit buflen ds 0 st = Inr (True, st)"
| "ntoa_emit buflen ds (Suc i) st =
     bnd (buf_get ds i) (\<lambda>c. bnd (ntoa_put buflen c st) (\<lambda>(ok, st).
     if \<not> ok then Inr (False, st) else ntoa_emit buflen ds i st))"

fun ntoa_bytes :: "int \<Rightarrow> bytes \<Rightarrow> bytes \<times> nat \<Rightarrow> (bool \<times> bytes \<times> nat) outcome" where
  "ntoa_bytes buflen [] st = Inr (True, st)"
| "ntoa_bytes buflen (ap # aps) st =
     bnd (ntoa_inv [0, 0, 0] 0 ap) (\<lambda>(ds, i).
     bnd (ntoa_emit buflen ds i st) (\<lambda>(ok, st).
     if \<not> ok then Inr (False, st) else
     bnd (ntoa_put buflen 0x2e st) (\<lambda>(ok, st).
     if \<not> ok then Inr (False, st) else ntoa_bytes buflen aps st)))"

text \<open>The bytes of the address as they lie in the memory of a little-endian host.\<close>

definition ip4_bytes :: "u32_t \<Rightarrow> bytes" where
  "ip4_bytes a = [ucast a, ucast (drop_bit 8 a), ucast (drop_bit 16 a), ucast (drop_bit 24 a)]"

definition ip4addr_ntoa_r :: "u32_t \<Rightarrow> bytes \<Rightarrow> int \<Rightarrow> (bool \<times> bytes) outcome" where
  "ip4addr_ntoa_r addr buf buflen =
     bnd (ntoa_bytes buflen (ip4_bytes addr) (buf, 0)) (\<lambda>(ok, buf, len).
     if \<not> ok then Inr (False, buf)
     else bnd (buf_set buf (len - 1) 0) (\<lambda>buf. Inr (True, buf)))"

abbreviation (input) IP4ADDR_STRLEN_MAX :: nat where "IP4ADDR_STRLEN_MAX \<equiv> 16"

text \<open>\<^verbatim>\<open>str\<close> is the static buffer.\<close>

definition ip4addr_ntoa :: "u32_t \<Rightarrow> bytes \<Rightarrow> (bool \<times> bytes) outcome" where
  "ip4addr_ntoa addr str = ip4addr_ntoa_r addr str (int IP4ADDR_STRLEN_MAX)"

section \<open>Netmasks\<close>

lemma and_bit: "(nm :: u32_t) AND push_bit i 1 = 0 \<longleftrightarrow> \<not> bit nm i" if "i < 32"
proof
  assume "nm AND push_bit i 1 = 0"
  then have "bit (nm AND push_bit i 1) i = bit (0 :: u32_t) i" by simp
  then show "\<not> bit nm i" using that by (simp add: bit_simps)
next
  assume "\<not> bit nm i"
  then show "nm AND push_bit i 1 = 0" by (intro bit_word_eqI) (auto simp: bit_simps)
qed

lemma push_bit_ne_0: "i < 32 \<Longrightarrow> push_bit i 1 \<noteq> (0 :: u32_t)"
  using and_bit [of i "push_bit i 1"] by (auto simp: bit_simps)

lemma drop_push_bit: "drop_bit 1 (push_bit (Suc i) 1 :: u32_t) = push_bit i 1" if "Suc i < 32"
  using that by (intro bit_word_eqI) (auto simp: bit_simps)

lemma first_zero_step:
  assumes "Suc i < 32"
  shows "netmask_first_zero nm (push_bit (Suc i) 1)
    = (if bit nm (Suc i) then netmask_first_zero nm (push_bit i 1) else push_bit (Suc i) 1)"
  using assms and_bit [OF assms, of nm] push_bit_ne_0 [OF assms] drop_push_bit [OF assms]
  by (subst netmask_first_zero.simps) simp

lemma rest_zero_step:
  assumes "Suc i < 32"
  shows "netmask_rest_zero nm (push_bit (Suc i) 1) = (\<not> bit nm (Suc i) \<and> netmask_rest_zero nm (push_bit i 1))"
  using assms and_bit [OF assms, of nm] push_bit_ne_0 [OF assms] drop_push_bit [OF assms]
  by (subst netmask_rest_zero.simps) simp

lemma netmask_0: "netmask_first_zero nm 0 = 0" "netmask_rest_zero nm 0"
  by (simp_all add: netmask_first_zero.simps netmask_rest_zero.simps)

lemma first_zero_1: "netmask_first_zero nm 1 = (if bit nm 0 then 0 else 1)"
proof -
  have "drop_bit 1 (1 :: u32_t) = 0" by (intro bit_word_eqI) (auto simp: bit_simps)
  then show ?thesis using and_bit [of 0 nm] by (subst netmask_first_zero.simps) (simp add: netmask_0)
qed

lemma rest_zero_1: "netmask_rest_zero nm 1 = (\<not> bit nm 0)"
proof -
  have "drop_bit 1 (1 :: u32_t) = 0" by (intro bit_word_eqI) (auto simp: bit_simps)
  then show ?thesis using and_bit [of 0 nm] by (subst netmask_rest_zero.simps) (simp add: netmask_0)
qed

lemma rest_zero_iff: "i < 32 \<Longrightarrow> netmask_rest_zero nm (push_bit i 1) \<longleftrightarrow> (\<forall>j\<le>i. \<not> bit nm j)"
proof (induction i)
  case (Suc i)
  then show ?case using rest_zero_step [of i nm] by (auto simp: le_Suc_eq)
qed (simp add: rest_zero_1)

lemma first_zero_rest_iff:
  "i < 32 \<Longrightarrow> netmask_rest_zero nm (netmask_first_zero nm (push_bit i 1))
     \<longleftrightarrow> (\<exists>k\<le>Suc i. \<forall>j\<le>i. bit nm j \<longleftrightarrow> k \<le> j)"
proof (induction i)
  case 0
  show ?case by (auto simp: first_zero_1 netmask_0 rest_zero_1 le_Suc_eq intro: exI [of _ 0] exI [of _ "Suc 0"])
next
  case (Suc i)
  show ?case
  proof (cases "bit nm (Suc i)")
    case True
    have "(\<exists>k\<le>Suc i. \<forall>j\<le>i. bit nm j \<longleftrightarrow> k \<le> j) \<longleftrightarrow> (\<exists>k\<le>Suc (Suc i). \<forall>j\<le>Suc i. bit nm j \<longleftrightarrow> k \<le> j)"
      using True by (auto simp: le_Suc_eq)
    then show ?thesis using Suc first_zero_step [of i nm] True by simp
  next
    case False
    then have "netmask_rest_zero nm (netmask_first_zero nm (push_bit (Suc i) 1)) \<longleftrightarrow> (\<forall>j\<le>Suc i. \<not> bit nm j)"
      using first_zero_step [of i nm] rest_zero_iff [of "Suc i" nm] Suc.prems by simp
    also have "\<dots> \<longleftrightarrow> (\<exists>k\<le>Suc (Suc i). \<forall>j\<le>Suc i. bit nm j \<longleftrightarrow> k \<le> j)"
      using False by (auto simp: not_le)
    finally show ?thesis .
  qed
qed

text \<open>
  \<^verbatim>\<open>ip4_addr_netmask_valid\<close> accepts exactly the netmasks whose bits, from the most significant bit of the first
  byte on, are a run of ones followed by zeros.
\<close>

theorem netmask_valid_iff:
  "ip4_addr_netmask_valid netmask
     \<longleftrightarrow> (\<exists>k\<le>32. \<forall>j<32. bit (lwip_htonl netmask) j \<longleftrightarrow> k \<le> j)"
proof -
  have "ip4_addr_netmask_valid netmask \<longleftrightarrow> (\<exists>k\<le>Suc 31. \<forall>j\<le>31. bit (lwip_htonl netmask) j \<longleftrightarrow> k \<le> j)"
    using first_zero_rest_iff [of 31 "lwip_htonl netmask"] by (simp add: ip4_addr_netmask_valid_def)
  moreover have "(j \<le> 31) = (j < 32)" for j :: nat by linarith
  ultimately show ?thesis by simp
qed

theorem netmask_valid_iff_witness: "ip4_addr_netmask_valid 0x000000ff"
proof -
  have "lwip_htonl 0x000000ff = push_bit 24 (mask 8)" by (simp add: lwip_htonl_def mask_eq_exp_minus_1)
  then have "\<exists>k\<le>32. \<forall>j<32. bit (lwip_htonl 0x000000ff) j \<longleftrightarrow> k \<le> j"
    by (intro exI [of _ 24]) (auto simp: bit_push_bit_iff bit_mask_iff)
  then show ?thesis using netmask_valid_iff [of "0x000000ff"] by blast
qed
section \<open>Text\<close>

text \<open>The usual notation of an address: its four bytes in decimal, with dots between.\<close>

definition dec_byte :: "u8_t \<Rightarrow> bytes" where
  "dec_byte b = (if b = 0 then [0x30] else dec_digits (unat b))"

definition ip4_text :: "u32_t \<Rightarrow> bytes" where
  "ip4_text a = dec_byte (ucast a) @ 0x2e # dec_byte (ucast (drop_bit 8 a)) @ 0x2e
     # dec_byte (ucast (drop_bit 16 a)) @ 0x2e # dec_byte (ucast (drop_bit 24 a))"

lemma unat_div_10: "unat ((b :: u8_t) div 10) = unat b div 10"
  by (simp add: unat_div)

lemma digit_word: "of_nat (48 + unat b mod 10) = 0x30 + (b :: u8_t) mod 10"
proof -
  have "unat b mod 10 < 256" using unat_lt_8 [of b] by linarith
  then have "of_nat (unat b mod 10) = b mod 10" by (simp add: word_unat_eq_iff unat_of_nat unat_mod)
  then show ?thesis by simp
qed

lemma dec_byte_step: "dec_byte b = (if b div 10 = 0 then [] else dec_byte (b div 10)) @ [0x30 + b mod 10]"
proof (cases "b = 0")
  case True
  then show ?thesis by (simp add: dec_byte_def)
next
  case False
  then have n: "unat b \<noteq> 0" by (simp add: unat_eq_zero)
  have z: "b div 10 = 0 \<longleftrightarrow> unat b div 10 = 0" by (metis unat_div_10 unat_eq_zero)
  show ?thesis using False dec_digits_pos [OF n] z
    by (auto simp: dec_byte_def unat_div_10 digit_word simp del: of_nat_add)
qed

lemma dec_byte_length: "length (dec_byte b) \<le> 3" "dec_byte b \<noteq> []"
proof -
  have "b div 10 div 10 div 10 = 0" using unat_lt_8 [of b]
    by (simp add: word_unat_eq_iff unat_div_10 del: unat_lt_8)
  then show "length (dec_byte b) \<le> 3"
    using dec_byte_step [of b] dec_byte_step [of "b div 10"] dec_byte_step [of "b div 10 div 10"] by simp
  show "dec_byte b \<noteq> []" by (subst dec_byte_step) simp
qed

section \<open>Printing\<close>

lemma ntoa_inv_correct:
  "i + length (dec_byte ap) \<le> length ds \<Longrightarrow> \<exists>ds'. ntoa_inv ds i ap = Inr (ds', i + length (dec_byte ap))
     \<and> length ds' = length ds \<and> take (i + length (dec_byte ap)) ds' = take i ds @ rev (dec_byte ap)"
proof (induction ds i ap rule: ntoa_inv.induct)
  case (1 ds i ap)
  let ?ds = "ds[i := 0x30 + ap mod 10]"
  have i: "i < length ds" using "1.prems" dec_byte_length(2) [of ap] by (cases "dec_byte ap") auto
  have t: "take (Suc i) ?ds = take i ds @ [0x30 + ap mod 10]" using i by (simp add: take_Suc_conv_app_nth)
  show ?case
  proof (cases "ap div 10 = 0")
    case True
    then show ?thesis using i t dec_byte_step [of ap] by (subst ntoa_inv.simps) simp
  next
    case False
    have l: "length (dec_byte ap) = Suc (length (dec_byte (ap div 10)))" using dec_byte_step [of ap] False by simp
    obtain ds' where "ntoa_inv ?ds (i + 1) (ap div 10) = Inr (ds', i + 1 + length (dec_byte (ap div 10)))"
      "length ds' = length ds" "take (i + 1 + length (dec_byte (ap div 10))) ds' = take (i + 1) ?ds @ rev (dec_byte (ap div 10))"
      using "1.IH" [OF i refl False] "1.prems" l by auto
    then show ?thesis using i t l dec_byte_step [of ap] False by (subst ntoa_inv.simps) (simp add: Let_def)
  qed
qed

text \<open>
  What an output step does: append \<open>t\<close> at \<open>len\<close> if it fits and \<open>room\<close> bytes are left behind it, and report it otherwise.
\<close>

definition emits :: "int \<Rightarrow> (bytes \<times> nat \<Rightarrow> (bool \<times> bytes \<times> nat) outcome) \<Rightarrow> int \<Rightarrow> bytes \<Rightarrow> bool" where
  "emits room f buflen t \<longleftrightarrow> (\<forall>buf len. buflen \<le> int (length buf) \<longrightarrow> 0 \<le> buflen \<longrightarrow> int len + room \<le> buflen \<longrightarrow>
     (if int (len + length t) + room \<le> buflen
      then f (buf, len) = Inr (True, take len buf @ t @ drop (len + length t) buf, len + length t)
      else \<exists>buf' len'. f (buf, len) = Inr (False, buf', len') \<and> length buf' = length buf))"

lemma emits_put: "emits 0 (ntoa_put buflen c) buflen [c]"
  by (auto simp: emits_def ntoa_put_def upd_conv_take_nth_drop)

lemma emits_seq:
  assumes "emits room f buflen t" and "emits room g buflen u" and "0 \<le> room"
  shows "emits room (\<lambda>st. bnd (f st) (\<lambda>(ok, st). if \<not> ok then Inr (False, st) else g st)) buflen (t @ u)"
  unfolding emits_def
proof (intro allI impI)
  fix buf :: bytes and len
  assume len: "buflen \<le> int (length buf)" "0 \<le> buflen" "int len + room \<le> buflen"
  define b where "b = take len buf @ t @ drop (len + length t) buf"
  define n where "n = len + length t"
  define h where "h = (\<lambda>st. bnd (f st) (\<lambda>(ok, st). if \<not> ok then Inr (False, st) else g st))"
  note f = assms(1) [unfolded emits_def, rule_format, OF len, folded b_def n_def]
  have "if int (n + length u) + room \<le> buflen
    then h (buf, len) = Inr (True, take len buf @ (t @ u) @ drop (n + length u) buf, n + length u)
    else \<exists>buf' len'. h (buf, len) = Inr (False, buf', len') \<and> length buf' = length buf"
  proof (cases "int n + room \<le> buflen")
    case True
    then have n: "n \<le> length buf" using len assms(3) by linarith
    have b: "length b = length buf" "take n b = take len buf @ t" "drop (n + length u) b = drop (n + length u) buf"
      using n by (simp_all add: b_def n_def ac_simps)
    have "if int (n + length u) + room \<le> buflen
        then g (b, n) = Inr (True, take n b @ u @ drop (n + length u) b, n + length u)
        else \<exists>buf' len'. g (b, n) = Inr (False, buf', len') \<and> length buf' = length b"
      by (rule assms(2) [unfolded emits_def, rule_format]) (use len True b(1) in auto)
    moreover have "h (buf, len) = g (b, n)" using f True by (simp add: h_def)
    ultimately show ?thesis by (simp only: b append_assoc)
  next
    case False
    then show ?thesis using f by (auto simp: h_def)
  qed
  then show "if int (len + length (t @ u)) + room \<le> buflen
    then bnd (f (buf, len)) (\<lambda>(ok, st). if \<not> ok then Inr (False, st) else g st)
      = Inr (True, take len buf @ (t @ u) @ drop (len + length (t @ u)) buf, len + length (t @ u))
    else \<exists>buf' len'. bnd (f (buf, len)) (\<lambda>(ok, st). if \<not> ok then Inr (False, st) else g st)
      = Inr (False, buf', len') \<and> length buf' = length buf"
    by (simp only: h_def n_def length_append add.assoc)
qed

lemma emits_emit: "i \<le> length ds \<Longrightarrow> emits 0 (ntoa_emit buflen ds i) buflen (rev (take i ds))"
proof (induction i)
  case 0
  show ?case by (simp add: emits_def)
next
  case (Suc i)
  then have i: "i < length ds" by simp
  have "emits 0 (\<lambda>st. bnd (ntoa_put buflen (ds ! i) st) (\<lambda>(ok, st). if \<not> ok then Inr (False, st) else ntoa_emit buflen ds i st))
      buflen ([ds ! i] @ rev (take i ds))"
    using Suc by (intro emits_seq emits_put) simp_all
  then show ?case using i by (simp add: take_Suc_conv_app_nth emits_def)
qed

lemma emits_bytes: "emits 0 (ntoa_bytes buflen aps) buflen (concat (map (\<lambda>b. dec_byte b @ [0x2e]) aps))"
proof (induction aps)
  case Nil
  show ?case by (simp add: emits_def)
next
  case (Cons ap aps)
  obtain ds where ds: "ntoa_inv [0, 0, 0] 0 ap = Inr (ds, length (dec_byte ap))" "length ds = 3"
    "take (length (dec_byte ap)) ds = rev (dec_byte ap)"
    using ntoa_inv_correct [of 0 ap "[0, 0, 0]"] dec_byte_length [of ap] by auto
  have "emits 0 (ntoa_emit buflen ds (length (dec_byte ap))) buflen (dec_byte ap)"
    using emits_emit [of "length (dec_byte ap)" ds buflen] ds dec_byte_length [of ap] by simp
  from emits_seq [OF this emits_seq [OF emits_put [of buflen "0x2e"] Cons.IH]]
  show ?case using ds by (simp add: emits_def)
qed

text \<open>
  \<^verbatim>\<open>ip4addr_ntoa_r\<close> writes the dotted decimal form of the address with its terminating zero and leaves the rest of
  the buffer alone; it returns \<^verbatim>\<open>NULL\<close> exactly when this does not fit, and never writes outside the buffer.
\<close>

theorem ip4addr_ntoa_r_correct:
  assumes "0 \<le> buflen" and "buflen \<le> int (length buf)"
  shows "if int (length (ip4_text addr)) < buflen
    then ip4addr_ntoa_r addr buf buflen
      = Inr (True, ip4_text addr @ 0 # drop (Suc (length (ip4_text addr))) buf)
    else \<exists>buf'. ip4addr_ntoa_r addr buf buflen = Inr (False, buf') \<and> length buf' = length buf"
proof -
  let ?t = "ip4_text addr @ [0x2e]"
  have t: "concat (map (\<lambda>b. dec_byte b @ [0x2e]) (ip4_bytes addr)) = ?t"
    by (simp add: ip4_bytes_def ip4_text_def)
  note e = emits_bytes [of buflen "ip4_bytes addr", unfolded emits_def t, rule_format, of buf 0]
  show ?thesis
  proof (cases "int (length (ip4_text addr)) < buflen")
    case True
    then have "ntoa_bytes buflen (ip4_bytes addr) (buf, 0)
        = Inr (True, ?t @ drop (Suc (length (ip4_text addr))) buf, Suc (length (ip4_text addr)))"
      using e assms by simp
    then show ?thesis using True by (simp add: ip4addr_ntoa_r_def list_update_append)
  next
    case False
    then show ?thesis using e assms by (auto simp: ip4addr_ntoa_r_def)
  qed
qed

theorem ip4addr_ntoa_r_correct_witness:
  "ip4addr_ntoa_r 0x0100007f (replicate 12 7) 12
     = Inr (True, [0x31, 0x32, 0x37, 0x2e, 0x30, 0x2e, 0x30, 0x2e, 0x31, 0, 7, 7])"
proof -
  have "ip4_text 0x0100007f = [0x31, 0x32, 0x37, 0x2e, 0x30, 0x2e, 0x30, 0x2e, 0x31]"
    by (simp add: ip4_text_def dec_byte_def dec_digits_pos)
  then show ?thesis using ip4addr_ntoa_r_correct [of 12 "replicate 12 7" "0x0100007f"] by (simp add: eval_nat_numeral)
qed

section \<open>Parsing what was printed\<close>

definition decimal :: "u32_t \<Rightarrow> bytes \<Rightarrow> u32_t" where
  "decimal v ds = foldl (\<lambda>v c. v * 10 + ucast (c - 0x30)) v ds"

lemma aton_digits_append:
  "\<forall>c\<in>set ds. lwip_isdigit c \<Longrightarrow> aton_digits 10 v (ds @ cp) = aton_digits 10 (decimal v ds) cp"
  by (induction ds arbitrary: v) (auto simp: decimal_def)

lemma unat_digit: "unat (of_nat (48 + n mod 10) :: byte) = 48 + n mod 10"
  by (simp only: unat_of_nat) simp

lemma digit_isdigit: "lwip_isdigit (of_nat (48 + n mod 10))"
proof -
  have "n mod 10 \<le> 9" by linarith
  then show ?thesis using unat_digit [of n]
    by (simp add: lwip_isdigit_def word_le_nat_alt del: of_nat_add)
qed

lemma dec_digits_isdigit: "\<forall>c\<in>set (dec_digits n). lwip_isdigit c"
proof (induction n rule: dec_digits.induct)
  case (1 n)
  then show ?case using digit_isdigit [of n]
    by (cases "n = 0") (simp_all add: dec_digits_pos del: of_nat_add)
qed

lemma digit_value: "(ucast (of_nat (48 + n mod 10) - 0x30 :: byte) :: u32_t) = of_nat (n mod 10)"
proof -
  have "(of_nat (48 + n mod 10) - 0x30 :: byte) = of_nat (n mod 10)" by simp
  moreover have "unat (of_nat (n mod 10) :: byte) = n mod 10" "unat (of_nat (n mod 10) :: u32_t) = n mod 10"
    by (simp_all only: unat_of_nat) simp_all
  ultimately show ?thesis by (simp add: word_unat_eq_iff)
qed

lemma decimal_dec_digits: "decimal 0 (dec_digits n) = of_nat n"
proof (induction n rule: dec_digits.induct)
  case (1 n)
  show ?case
  proof (cases "n = 0")
    case False
    have "decimal 0 (dec_digits n) = of_nat (n div 10) * 10 + of_nat (n mod 10)"
      using 1 False dec_digits_pos [OF False] digit_value [of n] by (simp add: decimal_def del: of_nat_add)
    also have "\<dots> = of_nat (n div 10 * 10 + n mod 10)" by (simp only: of_nat_add of_nat_mult of_nat_numeral)
    finally show ?thesis by (simp only: div_mult_mod_eq)
  qed (simp add: decimal_def)
qed

lemma dec_digits_first:
  assumes "n \<noteq> 0"
  obtains c ds where "dec_digits n = c # ds" "c \<noteq> 0x30"
proof -
  have "\<exists>c ds. dec_digits n = c # ds \<and> c \<noteq> 0x30" using assms
  proof (induction n rule: dec_digits.induct)
    case (1 n)
    show ?case
    proof (cases "n div 10 = 0")
      case True
      then have "n < 10" by auto
      then have "unat (of_nat (48 + n mod 10) :: byte) \<noteq> unat (0x30 :: byte)" using "1.prems" unat_digit [of n] by simp
      then show ?thesis using True dec_digits_pos [OF "1.prems"] by (auto simp del: of_nat_add)
    next
      case False
      then show ?thesis using 1 dec_digits_pos [OF "1.prems"] by auto
    qed
  qed
  then show thesis using that by blast
qed

lemma aton_number:
  assumes "c = 0x2e \<or> c = 0"
  shows "\<exists>base cp1. aton_base (dec_byte b @ c # cp) = Inr (base, cp1)
      \<and> aton_digits base 0 cp1 = Inr (ucast b, c # cp) \<and> lwip_isdigit (hd (dec_byte b))"
proof -
  have c: "\<not> lwip_isdigit c" "c \<noteq> 0x78" "c \<noteq> 0x58" using assms by (auto simp: lwip_isdigit_def)
  show ?thesis
  proof (cases "b = 0")
    case True
    then show ?thesis using c by (simp add: dec_byte_def aton_base_def lwip_isdigit_def [of "0x30"])
  next
    case False
    then have n: "unat b \<noteq> 0" by (simp add: unat_eq_zero)
    obtain d ds where d: "dec_digits (unat b) = d # ds" "d \<noteq> 0x30" using dec_digits_first [OF n] .
    have "(of_nat (unat b) :: u32_t) = ucast b" by simp
    then have "aton_digits 10 0 (dec_digits (unat b) @ c # cp) = Inr (ucast b, c # cp)"
      using aton_digits_append [OF dec_digits_isdigit, of 0 "unat b" "c # cp"] c(1) decimal_dec_digits [of "unat b"] by simp
    moreover have "lwip_isdigit d" using dec_digits_isdigit [of "unat b"] d(1) by simp
    ultimately show ?thesis using False d by (simp add: dec_byte_def aton_base_def)
  qed
qed

lemma aton_parts_byte:
  assumes "c = 0x2e \<or> c = 0"
  shows "aton_parts parts (dec_byte b @ c # cp)
    = (if c = 0x2e then if length parts \<ge> 3 then Inr None else aton_parts (parts @ [ucast b]) cp
       else Inr (Some (parts, ucast b, c # cp)))"
proof -
  obtain base cp1 where n: "aton_base (dec_byte b @ c # cp) = Inr (base, cp1)"
    "aton_digits base 0 cp1 = Inr (ucast b, c # cp)" "lwip_isdigit (hd (dec_byte b))"
    using aton_number [OF assms] by blast
  obtain d ds where "dec_byte b = d # ds" using dec_byte_length(2) [of b] by (cases "dec_byte b") auto
  then show ?thesis using n by (subst aton_parts.simps) simp
qed

lemma concoct_bytes:
  "aton_concoct [ucast (ucast a :: byte), ucast (ucast (drop_bit 8 a) :: byte), ucast (ucast (drop_bit 16 a) :: byte)]
     (ucast (ucast (drop_bit 24 a) :: byte)) = Some (lwip_htonl a)"
proof -
  have le: "\<not> (0xff :: u32_t) < ucast (b :: byte)" for b
    using unat_lt_8 [of b] by (simp add: word_less_nat_alt del: unat_lt_8)
  have "ucast (ucast (drop_bit 24 a) :: byte) OR (push_bit 24 (ucast (ucast a :: byte))
      OR push_bit 16 (ucast (ucast (drop_bit 8 a) :: byte)) OR push_bit 8 (ucast (ucast (drop_bit 16 a) :: byte)))
      = lwip_htonl a"
    by (rule bit_word_eqI) (auto simp: lwip_htonl_def and_byte bit_simps)
  then show ?thesis using le by (simp add: aton_concoct_def)
qed

text \<open>
  C37: Parsing the text that \<^verbatim>\<open>ip4addr_ntoa_r\<close> prints gives the address back, for every address: \<^verbatim>\<open>ip4addr_aton\<close> inverts
  the dotted decimal notation.
\<close>

theorem ip4addr_aton_text: "ip4addr_aton (ip4_text addr @ 0 # cp) = Inr (Some addr)"
proof -
  have "aton_parts [] (ip4_text addr @ 0 # cp)
      = Inr (Some ([ucast (ucast addr :: byte), ucast (ucast (drop_bit 8 addr) :: byte),
          ucast (ucast (drop_bit 16 addr) :: byte)], ucast (ucast (drop_bit 24 addr) :: byte), 0 # cp))"
    by (simp add: ip4_text_def aton_parts_byte)
  then show ?thesis using concoct_bytes [of addr] by (simp add: ip4addr_aton_def)
qed

end
