(* ===== verification/Ip_Addr.thy ===== *)
theory Ip_Addr
  imports Ip4_Addr
begin

text \<open>
  The address macros of \<^verbatim>\<open>lwip/ip_addr.h\<close>, \<^verbatim>\<open>lwip/ip4_addr.h\<close>, \<^verbatim>\<open>lwip/ip6_addr.h\<close> and \<^verbatim>\<open>lwip/ip6_zone.h\<close> for a
  stack with both versions of IP and with IPv6 zones, and the lookups of \<^verbatim>\<open>core/netif.c\<close> by index and by
  address.
\<close>

section \<open>Addresses of either version\<close>

definition IP_IS_ANY_TYPE_VAL :: "ip_addr_t \<Rightarrow> bool" where
  "IP_IS_ANY_TYPE_VAL a \<longleftrightarrow> ip_type a = IPADDR_TYPE_ANY"

definition ip6_addr_cmp_zoneless :: "ip_addr_t \<Rightarrow> ip_addr_t \<Rightarrow> bool" where
  "ip6_addr_cmp_zoneless a b \<longleftrightarrow> u_addr a ! 0 = u_addr b ! 0 \<and> u_addr a ! 1 = u_addr b ! 1
     \<and> u_addr a ! 2 = u_addr b ! 2 \<and> u_addr a ! 3 = u_addr b ! 3"

definition ip6_addr_cmp :: "ip_addr_t \<Rightarrow> ip_addr_t \<Rightarrow> bool" where
  "ip6_addr_cmp a b \<longleftrightarrow> ip6_addr_cmp_zoneless a b \<and> ip_zone a = ip_zone b"

definition ip6_addr_isany :: "ip_addr_t \<Rightarrow> bool" where
  "ip6_addr_isany a \<longleftrightarrow> u_addr a ! 0 = 0 \<and> u_addr a ! 1 = 0 \<and> u_addr a ! 2 = 0 \<and> u_addr a ! 3 = 0"

definition ip_addr_cmp :: "ip_addr_t \<Rightarrow> ip_addr_t \<Rightarrow> bool" where
  "ip_addr_cmp a b = (if ip_type a \<noteq> ip_type b then False
     else if IP_IS_V6 a then ip6_addr_cmp a b else ip_2_ip4 a = ip_2_ip4 b)"

definition ip_addr_isany :: "ip_addr_t \<Rightarrow> bool" where
  "ip_addr_isany a = (if IP_IS_V6 a then ip6_addr_isany a else ip_2_ip4 a = IPADDR_ANY)"

definition ip_addr_isbroadcast :: "ip_addr_t \<Rightarrow> netif \<Rightarrow> bool" where
  "ip_addr_isbroadcast a nif = (if IP_IS_V6 a then False else ip4_addr_isbroadcast_u32 (ip_2_ip4 a) nif)"

definition ip4_addr_ismulticast :: "u32_t \<Rightarrow> bool" where
  "ip4_addr_ismulticast a \<longleftrightarrow> a AND lwip_htonl 0xf0000000 = lwip_htonl 0xe0000000"

definition ip6_addr_ismulticast :: "ip_addr_t \<Rightarrow> bool" where
  "ip6_addr_ismulticast a \<longleftrightarrow> u_addr a ! 0 AND lwip_htonl 0xff000000 = lwip_htonl 0xff000000"

definition ip_addr_ismulticast :: "ip_addr_t \<Rightarrow> bool" where
  "ip_addr_ismulticast a = (if IP_IS_V6 a then ip6_addr_ismulticast a else ip4_addr_ismulticast (ip_2_ip4 a))"

text \<open>\<^verbatim>\<open>ip_addr_set\<close>, \<^verbatim>\<open>ip_addr_copy\<close>: the unused words of an address that is not IPv6 are cleared.\<close>

definition ip_addr_set :: "ip_addr_t \<Rightarrow> ip_addr_t" where
  "ip_addr_set src = (if IP_IS_V6 src
     then \<lparr>u_addr = [u_addr src ! 0, u_addr src ! 1, u_addr src ! 2, u_addr src ! 3],
           ip_zone = ip_zone src, ip_type = ip_type src\<rparr>
     else \<lparr>u_addr = [ip_2_ip4 src, 0, 0, 0], ip_zone = 0, ip_type = ip_type src\<rparr>)"

definition ip_addr_set_any :: "bool \<Rightarrow> ip_addr_t" where
  "ip_addr_set_any is_ipv6 = \<lparr>u_addr = [0, 0, 0, 0], ip_zone = 0,
     ip_type = (if is_ipv6 then IPADDR_TYPE_V6 else IPADDR_TYPE_V4)\<rparr>"

definition ip_any_type :: ip_addr_t where
  "ip_any_type = \<lparr>u_addr = [0, 0, 0, 0], ip_zone = 0, ip_type = IPADDR_TYPE_ANY\<rparr>"

abbreviation (input) IP4_ADDR_ANY :: ip_addr_t where
  "IP4_ADDR_ANY \<equiv> \<lparr>u_addr = [0, 0, 0, 0], ip_zone = 0, ip_type = IPADDR_TYPE_V4\<rparr>"

section \<open>Zones and interfaces\<close>

definition netif_get_index :: "netif \<Rightarrow> u8_t" where
  "netif_get_index nif = n_num nif + 1"

abbreviation (input) NETIF_NO_INDEX :: u8_t where "NETIF_NO_INDEX \<equiv> 0"

text \<open>\<^verbatim>\<open>ip6_addr_has_scope(a, IP6_UNKNOWN)\<close>.\<close>

definition ip6_addr_has_scope :: "ip_addr_t \<Rightarrow> bool" where
  "ip6_addr_has_scope a \<longleftrightarrow>
     u_addr a ! 0 AND lwip_htonl 0xffc00000 = lwip_htonl 0xfe800000
     \<or> u_addr a ! 0 AND lwip_htonl 0xff8f0000 = lwip_htonl 0xff010000
     \<or> u_addr a ! 0 AND lwip_htonl 0xff8f0000 = lwip_htonl 0xff020000"

definition ip6_addr_lacks_zone :: "ip_addr_t \<Rightarrow> bool" where
  "ip6_addr_lacks_zone a \<longleftrightarrow> ip_zone a = 0 \<and> ip6_addr_has_scope a"

text \<open>\<open>route\<close> is \<^verbatim>\<open>ip6_route\<close>.\<close>

definition ip6_addr_select_zone ::
  "(ip_addr_t \<Rightarrow> ip_addr_t \<Rightarrow> netif option) \<Rightarrow> ip_addr_t \<Rightarrow> ip_addr_t \<Rightarrow> ip_addr_t" where
  "ip6_addr_select_zone route dest src = (case route src dest of None \<Rightarrow> dest
     | Some nif \<Rightarrow> dest\<lparr>ip_zone := (if ip6_addr_has_scope dest then netif_get_index nif else 0)\<rparr>)"

definition netif_get_by_index :: "netif list \<Rightarrow> u8_t \<Rightarrow> netif option" where
  "netif_get_by_index nifs idx = (if idx \<noteq> NETIF_NO_INDEX
     then find (\<lambda>nif. idx = netif_get_index nif) nifs else None)"

fun ip6_addr_match_loop :: "ip_addr_t \<Rightarrow> (ip_addr_t \<times> u8_t) list \<Rightarrow> int \<Rightarrow> int" where
  "ip6_addr_match_loop a [] i = -1"
| "ip6_addr_match_loop a ((b, st) # xs) i =
     (if st \<noteq> 0 \<and> ip6_addr_cmp_zoneless b a then i else ip6_addr_match_loop a xs (i + 1))"

text \<open>\<^verbatim>\<open>LWIP_IPV6_NUM_ADDRESSES\<close> is 3.\<close>

definition netif_get_ip6_addr_match :: "netif \<Rightarrow> ip_addr_t \<Rightarrow> int" where
  "netif_get_ip6_addr_match nif a =
     (if ip_zone a \<noteq> 0 \<and> ip_zone a \<noteq> netif_get_index nif then -1
      else ip6_addr_match_loop a (take 3 (zip (n_ip6_addr nif) (n_ip6_addr_state nif))) 0)"

end
