(* ===== verification/Port_Search.thy ===== *)
theory Port_Search
  imports Lwip_Prelude
begin

text \<open>
  The search for a free local port, which UDP and TCP do in the same way: from the port of the last search on, once round a
  range of \<open>sz\<close> ports that starts at 0xc000. \<open>next_port sz p\<close> is the port after \<open>p\<close>.
\<close>

definition port_at :: "nat \<Rightarrow> nat \<Rightarrow> u16_t" where
  "port_at sz k = of_nat (0xc000 + k mod sz)"

definition in_range :: "nat \<Rightarrow> u16_t \<Rightarrow> bool" where
  "in_range sz p \<longleftrightarrow> 0xc000 \<le> unat p \<and> unat p < 0xc000 + sz"

definition next_port :: "nat \<Rightarrow> u16_t \<Rightarrow> u16_t" where
  "next_port sz p = (if unat p + 1 = 0xc000 + sz then 0xc000 else p + 1)"

locale port_search =
  fixes sz :: nat and loop :: "'s \<Rightarrow> nat \<Rightarrow> u16_t \<times> 's" and port :: "'s \<Rightarrow> u16_t" and set_port :: "u16_t \<Rightarrow> 's \<Rightarrow> 's"
    and used :: "'s \<Rightarrow> u16_t \<Rightarrow> bool"
  assumes sz: "0 < sz" "sz \<le> 0x4000"
    and port_set: "port (set_port p s) = p" "set_port p (set_port q s) = set_port p s" "used (set_port p s) q = used s q"
    and loop: "loop s n = (let p = next_port sz (port s); s' = set_port p s
      in if used s p then if n + 1 > 0x3fff then (0, s') else loop s' (n + 1) else (p, s'))"
begin

lemma unat_port_at: "unat (port_at sz k) = 0xc000 + k mod sz"
proof -
  have "k mod sz < 0x4000" using sz by (meson mod_less_divisor order_less_le_trans)
  then have "0xc000 + k mod sz < (65536 :: nat)" by linarith
  then show ?thesis unfolding port_at_def by (simp only: unat_of_nat) simp
qed

lemma port_at_range: "in_range sz (port_at sz k)"
  using sz by (simp add: in_range_def unat_port_at)

lemma port_at_surj:
  assumes "in_range sz p"
  obtains k where "k < sz" and "p = port_at sz k"
proof -
  have l: "unat p - 0xc000 < sz" using assms by (auto simp: in_range_def)
  then have "unat (port_at sz (unat p - 0xc000)) = unat p" using assms unfolding unat_port_at by (simp add: in_range_def)
  then show thesis using that [OF l] by (simp add: word_unat_eq_iff)
qed

lemma next_port_at: "next_port sz (port_at sz k) = port_at sz (Suc k)"
proof (cases "Suc (k mod sz) = sz")
  case True
  then have "Suc k mod sz = 0" by (simp add: mod_Suc)
  then show ?thesis using True unat_port_at [of k] by (simp add: next_port_def port_at_def)
next
  case False
  then have "Suc k mod sz = Suc (k mod sz)" by (simp add: mod_Suc)
  then show ?thesis using False unat_port_at [of k] by (simp add: next_port_def port_at_def)
qed

lemma loop_correct:
  assumes "port s = port_at sz k" and "n < 0x4000"
  shows "\<exists>p j. loop s n = (p, set_port (port_at sz (k + j)) s)
    \<and> (if p = 0 then \<forall>i\<in>{1..0x4000 - n}. used s (port_at sz (k + i)) else p = port_at sz (k + j) \<and> \<not> used s p)"
  using assms
proof (induction "0x4000 - n" arbitrary: s k n)
  case (Suc d)
  let ?p = "port_at sz (Suc k)" and ?s = "set_port (port_at sz (Suc k)) s"
  have step: "loop s n = (if used s ?p then if n + 1 > 0x3fff then (0, ?s) else loop ?s (n + 1) else (?p, ?s))"
    using Suc.prems(1) by (subst loop) (simp add: next_port_at Let_def)
  have ne: "?p \<noteq> 0" using unat_port_at [of "Suc k"] by auto
  show ?case
  proof (cases "used s ?p \<and> \<not> n + 1 > 0x3fff")
    case False
    show ?thesis
    proof (cases "used s ?p")
      case True
      then have "0x4000 - n = 1" using False Suc.prems(2) by simp
      then show ?thesis using step True False by (intro exI [of _ 0] exI [of _ 1]) simp
    next
      case no: False
      then show ?thesis using step ne by (intro exI [of _ ?p] exI [of _ 1]) simp
    qed
  next
    case True
    have d: "d = 0x4000 - (n + 1)" using Suc.hyps(2) by simp
    have n: "n + 1 < 0x4000" using True by simp
    obtain p j where IH: "loop ?s (n + 1) = (p, set_port (port_at sz (Suc k + j)) ?s)"
      "if p = 0 then \<forall>i\<in>{1..0x4000 - (n + 1)}. used s (port_at sz (Suc k + i)) else p = port_at sz (Suc k + j) \<and> \<not> used s p"
      using Suc.hyps(1) [OF d _ n, of ?s "Suc k"] unfolding port_set by blast
    have "used s (port_at sz (k + i))" if "p = 0" "i \<in> {1..0x4000 - n}" for i
    proof (cases "i = 1")
      case one: False
      then have "i - 1 \<in> {1..0x4000 - (n + 1)}" using that(2) by auto
      then have "used s (port_at sz (Suc k + (i - 1)))" using IH(2) that(1) by simp
      then show ?thesis using that(2) by simp
    qed (use True in simp)
    then show ?thesis using step True IH by (intro exI [of _ p] exI [of _ "Suc j"]) (auto simp: port_set)
  qed
qed simp

text \<open>The search finds a port of the range that is not used; it fails only if all are used.\<close>

lemma search:
  assumes "in_range sz (port s)"
  shows "\<exists>p x. loop s 0 = (p, set_port x s) \<and> in_range sz x
    \<and> (if \<forall>q. in_range sz q \<longrightarrow> used s q then p = 0 else p = x \<and> \<not> used s p)"
proof -
  obtain k where k: "port s = port_at sz k" using port_at_surj [OF assms] by blast
  obtain p j where l: "loop s 0 = (p, set_port (port_at sz (k + j)) s)"
    "if p = 0 then \<forall>i\<in>{1..0x4000}. used s (port_at sz (k + i)) else p = port_at sz (k + j) \<and> \<not> used s p"
    using loop_correct [OF k, of 0] by auto
  have "used s q" if none: "p = 0" and q: "in_range sz q" for q
  proof -
    obtain c where c: "c < sz" "q = port_at sz c" using port_at_surj [OF q] by blast
    obtain m where m: "k mod sz = m" "m < sz" using sz by simp
    define i where "i = (if m < c then c - m else sz + c - m)"
    have i: "i \<in> {1..0x4000}" using c m(2) sz by (auto simp: i_def)
    have "(k + i) mod sz = (k mod sz + i) mod sz" by (simp add: mod_add_left_eq)
    also have "\<dots> = c" using c m by (auto simp: i_def)
    finally have "port_at sz (k + i) = q" using c by (simp add: port_at_def)
    moreover have "used s (port_at sz (k + i))" using l(2) none i by simp
    ultimately show ?thesis by simp
  qed
  moreover have "\<not> (\<forall>q. in_range sz q \<longrightarrow> used s q)" if "p \<noteq> 0" using l(2) that port_at_range by auto
  ultimately show ?thesis using l port_at_range by (cases "p = 0") auto
qed

end

end
