(* ===== verification/Udp_C.thy ===== *)
theory Udp_C
  imports Wire Ip_Addr Port_Search
begin

text \<open>
  \<^verbatim>\<open>core/udp.c\<close> in the configuration of this repository (\<^verbatim>\<open>TUN2SOCKS\<close>, \<^verbatim>\<open>LWIP_CHECKSUM_ON_COPY\<close>, no
  UDP-Lite, no incoming checksum test, no \<^verbatim>\<open>SO_REUSE\<close>): the pcb list, binding, and the way of a datagram from IP
  to the application and back. Pcbs are named by numbers; the list \<^verbatim>\<open>udp_pcbs\<close>, whose links no other module
  touches, is the list of the names. What the module calls outside of the modelled files is a parameter.
\<close>

section \<open>State\<close>

text \<open>\<^verbatim>\<open>recv\<close> is the name of a callback, \<open>None\<close> for \<^verbatim>\<open>NULL\<close>.\<close>

record udp_pcb =
  local_ip :: ip_addr_t
  remote_ip :: ip_addr_t
  netif_idx :: u8_t
  so_options :: u8_t
  tos :: u8_t
  ttl :: u8_t
  uflags :: u8_t
  local_port :: u16_t
  remote_port :: u16_t
  recv :: "nat option"
  recv_arg :: nat

record udp_globals =
  uheap :: heap
  pcb_at :: "nat \<Rightarrow> udp_pcb option"
  udp_pcbs :: "nat list"
  udp_port :: u16_t
  netif_list :: "netif list"
  next_pcb :: nat
  pcb_oom :: "nat \<Rightarrow> bool"

text \<open>The part of \<^verbatim>\<open>ip_data\<close> that describes the packet being processed.\<close>

record ip_globals =
  current_netif :: netif
  current_is_v6 :: bool
  current_ip_header_tot_len :: u16_t
  current_iphdr_src :: ip_addr_t
  current_iphdr_dest :: ip_addr_t

text \<open>
  Other modules: routing, output and the ICMP error of IP, the callbacks of the application, and which
  addresses are odd.
\<close>

record udp_env =
  ip4_route_src :: "u32_t \<Rightarrow> u32_t \<Rightarrow> netif option"
  ip6_route :: "ip_addr_t \<Rightarrow> ip_addr_t \<Rightarrow> netif option"
  ip_output_if_src :: "heap \<Rightarrow> pptr \<Rightarrow> ip_addr_t \<Rightarrow> ip_addr_t \<Rightarrow> u8_t \<Rightarrow> u8_t \<Rightarrow> u8_t \<Rightarrow> netif \<Rightarrow> (err_t \<times> heap) outcome"
  icmp_port_unreach :: "bool \<Rightarrow> heap \<Rightarrow> pptr \<Rightarrow> heap outcome"
  recv_fn :: "nat \<Rightarrow> nat \<Rightarrow> nat \<Rightarrow> pptr \<Rightarrow> ip_addr_t \<Rightarrow> u16_t \<Rightarrow> ip_addr_t \<Rightarrow> u16_t \<Rightarrow> udp_globals \<Rightarrow> udp_globals outcome"
  addr_odd :: "ptr \<Rightarrow> bool"

abbreviation (input) UDP_HLEN :: nat where "UDP_HLEN \<equiv> 8"
abbreviation (input) IP_PROTO_UDP :: u8_t where "IP_PROTO_UDP \<equiv> 17"
abbreviation (input) UDP_TTL :: u8_t where "UDP_TTL \<equiv> 64"
abbreviation (input) UDP_FLAGS_NOCHKSUM :: u8_t where "UDP_FLAGS_NOCHKSUM \<equiv> 0x01"
abbreviation (input) UDP_FLAGS_CONNECTED :: u8_t where "UDP_FLAGS_CONNECTED \<equiv> 0x04"
abbreviation (input) UDP_LOCAL_PORT_RANGE_START :: u16_t where "UDP_LOCAL_PORT_RANGE_START \<equiv> 0xc000"
abbreviation (input) UDP_LOCAL_PORT_RANGE_END :: u16_t where "UDP_LOCAL_PORT_RANGE_END \<equiv> 0xffff"

definition get_pcb :: "udp_globals \<Rightarrow> nat \<Rightarrow> udp_pcb outcome" where
  "get_pcb s i = (case pcb_at s i of None \<Rightarrow> Inl Fault | Some c \<Rightarrow> Inr c)"

definition set_pcb :: "udp_globals \<Rightarrow> nat \<Rightarrow> udp_pcb \<Rightarrow> udp_globals" where
  "set_pcb s i c = s\<lparr>pcb_at := (pcb_at s)(i \<mapsto> c)\<rparr>"

definition upcb :: "udp_globals \<Rightarrow> nat \<Rightarrow> udp_pcb" where
  "upcb s i = the (pcb_at s i)"

section \<open>Ports and binding\<close>

text \<open>\<^verbatim>\<open>udp_init\<close>: \<open>rand\<close> is the value of \<^verbatim>\<open>LWIP_RAND()\<close>, if the platform defines it.\<close>

definition udp_init :: "u32_t option \<Rightarrow> udp_globals \<Rightarrow> udp_globals" where
  "udp_init rand s = (case rand of None \<Rightarrow> s
     | Some r \<Rightarrow> s\<lparr>udp_port := (ucast (r AND ucast (NOT UDP_LOCAL_PORT_RANGE_START :: u16_t)) + UDP_LOCAL_PORT_RANGE_START)\<rparr>)"

definition udp_next_port :: "u16_t \<Rightarrow> u16_t" where
  "udp_next_port port = (if port = UDP_LOCAL_PORT_RANGE_END then UDP_LOCAL_PORT_RANGE_START else port + 1)"

definition port_used :: "udp_globals \<Rightarrow> u16_t \<Rightarrow> bool" where
  "port_used s port = list_ex (\<lambda>i. local_port (upcb s i) = port) (udp_pcbs s)"

text \<open>The loop at \<^verbatim>\<open>again\<close>; \<open>n\<close> counts the ports that are in use. The result 0 stands for no port.\<close>

function udp_new_port_loop :: "udp_globals \<Rightarrow> nat \<Rightarrow> u16_t \<times> udp_globals" where
  "udp_new_port_loop s n =
     (let s' = s\<lparr>udp_port := udp_next_port (udp_port s)\<rparr>
      in if port_used s' (udp_port s') then
           if n + 1 > unat (UDP_LOCAL_PORT_RANGE_END - UDP_LOCAL_PORT_RANGE_START) then (0, s')
           else udp_new_port_loop s' (n + 1)
         else (udp_port s', s'))"
  by auto
termination by (relation "measure (\<lambda>(s, n). 0x4000 - n)") auto

declare udp_new_port_loop.simps [simp del]

definition udp_new_port :: "udp_globals \<Rightarrow> u16_t \<times> udp_globals" where
  "udp_new_port s = udp_new_port_loop s 0"

text \<open>The test of \<^verbatim>\<open>udp_bind\<close> against the other pcb \<open>c\<close>.\<close>

definition bind_conflict :: "ip_addr_t \<Rightarrow> u16_t \<Rightarrow> udp_pcb \<Rightarrow> bool" where
  "bind_conflict ipaddr port c \<longleftrightarrow> local_port c = port
     \<and> (ip_addr_cmp (local_ip c) ipaddr \<or> ip_addr_isany ipaddr \<or> ip_addr_isany (local_ip c))"

text \<open>The address with a zone, if it needs one and has none.\<close>

definition udp_zoned_addr :: "udp_env \<Rightarrow> ip_addr_t \<Rightarrow> ip_addr_t" where
  "udp_zoned_addr e ipaddr = (if IP_IS_V6 ipaddr \<and> ip6_addr_lacks_zone ipaddr
     then ip6_addr_select_zone (ip6_route e) (ip_addr_set ipaddr) (ip_addr_set ipaddr) else ipaddr)"

definition udp_bind :: "udp_env \<Rightarrow> udp_globals \<Rightarrow> nat option \<Rightarrow> ip_addr_t option \<Rightarrow> u16_t \<Rightarrow> (err_t \<times> udp_globals) outcome" where
  "udp_bind e s pcb ipaddr port =
     (let ipaddr = (case ipaddr of None \<Rightarrow> IP4_ADDR_ANY | Some a \<Rightarrow> a)
      in case pcb of None \<Rightarrow> Inl Abort
         | Some i \<Rightarrow>
             (let rebind = (i \<in> set (udp_pcbs s));
                  ipaddr = udp_zoned_addr e ipaddr;
                  (port', s') = (if port = 0 then udp_new_port s else (port, s))
              in if port = 0 \<and> port' = 0 then Inr (ERR_USE, s')
                 else if port \<noteq> 0 \<and> list_ex (\<lambda>j. i \<noteq> j \<and> bind_conflict ipaddr port (upcb s j)) (udp_pcbs s)
                   then Inr (ERR_USE, s')
                 else bnd (get_pcb s' i) (\<lambda>c.
                   let s' = set_pcb s' i (c\<lparr>local_ip := ip_addr_set ipaddr, local_port := port'\<rparr>)
                   in Inr (ERR_OK, if rebind then s' else s'\<lparr>udp_pcbs := i # udp_pcbs s'\<rparr>))))"

definition udp_bind_netif :: "udp_globals \<Rightarrow> nat \<Rightarrow> netif option \<Rightarrow> udp_globals outcome" where
  "udp_bind_netif s i nif = bnd (get_pcb s i) (\<lambda>c.
     Inr (set_pcb s i (c\<lparr>netif_idx := (case nif of Some n \<Rightarrow> netif_get_index n | None \<Rightarrow> NETIF_NO_INDEX)\<rparr>)))"

definition udp_connect :: "udp_env \<Rightarrow> udp_globals \<Rightarrow> nat option \<Rightarrow> ip_addr_t option \<Rightarrow> u16_t \<Rightarrow> (err_t \<times> udp_globals) outcome" where
  "udp_connect e s pcb ipaddr port = (case (pcb, ipaddr) of
     (Some i, Some a) \<Rightarrow>
       bnd (get_pcb s i) (\<lambda>c.
       bnd (if local_port c = 0 then udp_bind e s pcb (Some (local_ip c)) (local_port c) else Inr (ERR_OK, s)) (\<lambda>(err, s).
       if err \<noteq> ERR_OK then Inr (err, s) else
       bnd (get_pcb s i) (\<lambda>c.
       let r = ip_addr_set a;
           r = (if IP_IS_V6 r \<and> ip6_addr_lacks_zone r then ip6_addr_select_zone (ip6_route e) r (local_ip c) else r);
           s = set_pcb s i (c\<lparr>remote_ip := r, remote_port := port, uflags := uflags c OR UDP_FLAGS_CONNECTED\<rparr>)
       in Inr (ERR_OK, if i \<in> set (udp_pcbs s) then s else s\<lparr>udp_pcbs := i # udp_pcbs s\<rparr>))))
   | _ \<Rightarrow> Inl Abort)"

definition udp_disconnect :: "udp_globals \<Rightarrow> nat option \<Rightarrow> udp_globals outcome" where
  "udp_disconnect s pcb = (case pcb of None \<Rightarrow> Inl Abort | Some i \<Rightarrow>
     bnd (get_pcb s i) (\<lambda>c. Inr (set_pcb s i (c\<lparr>
       remote_ip := (if IP_IS_ANY_TYPE_VAL (local_ip c) then ip_any_type else ip_addr_set_any (IP_IS_V6 (remote_ip c))),
       remote_port := 0, netif_idx := NETIF_NO_INDEX, uflags := uflags c AND NOT UDP_FLAGS_CONNECTED\<rparr>))))"

definition udp_recv :: "udp_globals \<Rightarrow> nat option \<Rightarrow> nat option \<Rightarrow> nat \<Rightarrow> udp_globals outcome" where
  "udp_recv s pcb fn arg = (case pcb of None \<Rightarrow> Inl Abort | Some i \<Rightarrow>
     bnd (get_pcb s i) (\<lambda>c. Inr (set_pcb s i (c\<lparr>recv := fn, recv_arg := arg\<rparr>))))"

text \<open>Taking a pcb out of the list: the head, or the first successor that is the pcb.\<close>

fun udp_unlink_next :: "nat \<Rightarrow> nat list \<Rightarrow> nat list" where
  "udp_unlink_next i [] = []"
| "udp_unlink_next i [a] = [a]"
| "udp_unlink_next i (a # b # xs) = (if b = i then a # xs else a # udp_unlink_next i (b # xs))"

definition udp_unlink :: "nat \<Rightarrow> nat list \<Rightarrow> nat list" where
  "udp_unlink i xs = (case xs of [] \<Rightarrow> [] | a # ys \<Rightarrow> if a = i then ys else udp_unlink_next i xs)"

definition udp_remove :: "udp_globals \<Rightarrow> nat option \<Rightarrow> udp_globals outcome" where
  "udp_remove s pcb = (case pcb of None \<Rightarrow> Inl Abort | Some i \<Rightarrow>
     bnd (get_pcb s i) (\<lambda>_.
     Inr (s\<lparr>udp_pcbs := udp_unlink i (udp_pcbs s), pcb_at := (pcb_at s)(i := None)\<rparr>)))"

definition udp_new :: "udp_globals \<Rightarrow> nat option \<times> udp_globals" where
  "udp_new s =
     (let i = next_pcb s; s = s\<lparr>next_pcb := Suc i\<rparr>
      in if pcb_oom s i then (None, s)
         else (Some i, set_pcb s i \<lparr>local_ip = IP4_ADDR_ANY, remote_ip = IP4_ADDR_ANY, netif_idx = 0, so_options = 0,
                 tos = 0, ttl = UDP_TTL, uflags = 0, local_port = 0, remote_port = 0, recv = None, recv_arg = 0\<rparr>))"

definition udp_new_ip_type :: "udp_globals \<Rightarrow> u8_t \<Rightarrow> nat option \<times> udp_globals" where
  "udp_new_ip_type s ty = (case udp_new s of (None, s) \<Rightarrow> (None, s)
     | (Some i, s) \<Rightarrow> (let c = upcb s i
         in (Some i, set_pcb s i (c\<lparr>local_ip := (local_ip c)\<lparr>ip_type := ty\<rparr>, remote_ip := (remote_ip c)\<lparr>ip_type := ty\<rparr>\<rparr>))))"

definition udp_netif_ip_addr_changed :: "udp_globals \<Rightarrow> ip_addr_t \<Rightarrow> ip_addr_t \<Rightarrow> udp_globals" where
  "udp_netif_ip_addr_changed s old_addr new_addr =
     (if \<not> ip_addr_isany old_addr \<and> \<not> ip_addr_isany new_addr
      then s\<lparr>pcb_at := (\<lambda>i. case pcb_at s i of None \<Rightarrow> None | Some c \<Rightarrow>
             Some (if i \<in> set (udp_pcbs s) \<and> ip_addr_cmp (local_ip c) old_addr
                   then c\<lparr>local_ip := ip_addr_set new_addr\<rparr> else c))\<rparr>
      else s)"

section \<open>Input\<close>

text \<open>
  The search loop of \<^verbatim>\<open>udp_input\<close> ends in its first iteration (\<^verbatim>\<open>TUN2SOCKS\<close>): the first pcb of the list takes every
  datagram.
\<close>

definition udp_input_pcb :: "udp_globals \<Rightarrow> nat option" where
  "udp_input_pcb s = (case udp_pcbs s of [] \<Rightarrow> None | i # _ \<Rightarrow> Some i)"

definition udp_free :: "udp_globals \<Rightarrow> pptr \<Rightarrow> udp_globals outcome" where
  "udp_free s p = bnd (pbuf_free (uheap s) p) (\<lambda>(_, h). Inr (s\<lparr>uheap := h\<rparr>))"

text \<open>The part of \<^verbatim>\<open>udp_input\<close> behind the removal of the header.\<close>

definition udp_deliver :: "udp_env \<Rightarrow> ip_globals \<Rightarrow> udp_globals \<Rightarrow> pptr \<Rightarrow> bool \<Rightarrow> u16_t \<Rightarrow> u16_t \<Rightarrow> nat option \<Rightarrow> udp_globals outcome" where
  "udp_deliver e g s p broadcast src dest pcb =
     (case pcb of
        Some i \<Rightarrow> bnd (get_pcb s i) (\<lambda>c. case recv c of
            Some f \<Rightarrow> recv_fn e f (recv_arg c) i p (current_iphdr_src g) src (current_iphdr_dest g) dest s
          | None \<Rightarrow> udp_free s p)
      | None \<Rightarrow>
          bnd (if \<not> broadcast \<and> \<not> ip_addr_ismulticast (current_iphdr_dest g)
               then bnd (pbuf_header_force (uheap s) p (current_ip_header_tot_len g + of_nat UDP_HLEN)) (\<lambda>(_, h).
                    icmp_port_unreach e (current_is_v6 g) h p)
               else Inr (uheap s)) (\<lambda>h.
          udp_free (s\<lparr>uheap := h\<rparr>) p))"

definition udp_input :: "udp_env \<Rightarrow> ip_globals \<Rightarrow> udp_globals \<Rightarrow> pptr \<Rightarrow> netif option \<Rightarrow> udp_globals outcome" where
  "udp_input e g s p inp = lwip_assert (p \<noteq> None) (case inp of None \<Rightarrow> Inl Abort | Some nif \<Rightarrow>
     bnd (pget (uheap s) p) (\<lambda>b.
     if unat (p_len b) < UDP_HLEN then udp_free s p
     else
       let broadcast = ip_addr_isbroadcast (current_iphdr_dest g) (current_netif g)
       in bnd (load16 (uheap s) (p_payload b) 0) (\<lambda>src.
          bnd (load16 (uheap s) (p_payload b) 2) (\<lambda>dest.
          let src = lwip_ntohs src; dest = lwip_ntohs dest; pcb = udp_input_pcb s;
              for_us = (if pcb \<noteq> None then True
                else if current_is_v6 g then netif_get_ip6_addr_match nif (current_iphdr_dest g) \<ge> 0
                else n_ip_addr nif = ip_2_ip4 (current_iphdr_dest g))
          in if for_us then
               bnd (pbuf_remove_header (uheap s) p UDP_HLEN) (\<lambda>(r, h).
               lwip_assert (r = 0) (udp_deliver e g (s\<lparr>uheap := h\<rparr>) p broadcast src dest pcb))
             else udp_free s p))))"

section \<open>Output\<close>

definition IP_ADDR_PCB_VERSION_MATCH :: "udp_pcb \<Rightarrow> ip_addr_t \<Rightarrow> bool" where
  "IP_ADDR_PCB_VERSION_MATCH c a \<longleftrightarrow> IP_IS_ANY_TYPE_VAL (local_ip c) \<or> ip_type (local_ip c) = ip_type a"

text \<open>The checksum of the datagram \<open>q\<close>, whose checksum field is zero.\<close>

definition udp_chksum :: "udp_env \<Rightarrow> heap \<Rightarrow> pptr \<Rightarrow> u16_t \<Rightarrow> (bool \<times> u16_t) \<Rightarrow> ip_addr_t \<Rightarrow> ip_addr_t \<Rightarrow> u16_t outcome" where
  "udp_chksum e h q tot = (\<lambda>(have_chksum, chksum) src_ip dst_ip.
     bnd (if have_chksum then
            bnd (ip_chksum_pseudo_partial (addr_odd e) h q IP_PROTO_UDP tot (of_nat UDP_HLEN) src_ip dst_ip) (\<lambda>udpchksum.
            Inr (ucast (FOLD_U32T (ucast udpchksum + ucast (NOT chksum)))))
          else ip_chksum_pseudo (addr_odd e) h q IP_PROTO_UDP tot src_ip dst_ip) (\<lambda>udpchksum.
     Inr (if udpchksum = 0 then 0xffff else udpchksum)))"

text \<open>Filling in the header at the front of \<open>q\<close>.\<close>

definition udp_fill_header ::
  "udp_env \<Rightarrow> heap \<Rightarrow> pptr \<Rightarrow> udp_pcb \<Rightarrow> (bool \<times> u16_t) \<Rightarrow> ip_addr_t \<Rightarrow> u16_t \<Rightarrow> ip_addr_t \<Rightarrow> u16_t \<Rightarrow> heap outcome" where
  "udp_fill_header e h q c ck src_ip src_port dst_ip dst_port =
     bnd (pget h q) (\<lambda>b. lwip_assert (unat (p_len b) \<ge> UDP_HLEN) (
     let udphdr = p_payload b in
     bnd (store16 h udphdr 0 (lwip_htons src_port)) (\<lambda>h.
     bnd (store16 h udphdr 2 (lwip_htons dst_port)) (\<lambda>h.
     bnd (store16 h udphdr 6 0) (\<lambda>h.
     bnd (store16 h udphdr 4 (lwip_htons (p_tot_len b))) (\<lambda>h.
     if IP_IS_V6 dst_ip \<or> uflags c AND UDP_FLAGS_NOCHKSUM = 0 then
       bnd (udp_chksum e h q (p_tot_len b) ck src_ip dst_ip) (\<lambda>udpchksum. store16 h udphdr 6 udpchksum)
     else Inr h))))))"

text \<open>Room for the header in \<open>p\<close>, or a pbuf in front of it; \<open>None\<close> when there is no memory for one.\<close>

definition udp_add_header :: "heap \<Rightarrow> pptr \<Rightarrow> (pptr \<times> heap) outcome" where
  "udp_add_header h p =
     bnd (pbuf_add_header h p UDP_HLEN) (\<lambda>(r, h).
     if r \<noteq> 0 then
       bnd (pbuf_alloc h PBUF_IP (of_nat UDP_HLEN) PBUF_RAM) (\<lambda>(q, h).
       if q = None then Inr (None, h) else
       bnd (pget h p) (\<lambda>b.
       bnd (if p_tot_len b \<noteq> 0 then pbuf_chain h q p else Inr h) (\<lambda>h. Inr (q, h))))
     else Inr (p, h))"

definition udp_sendto_if_src_chksum ::
  "udp_env \<Rightarrow> udp_globals \<Rightarrow> nat option \<Rightarrow> pptr \<Rightarrow> ip_addr_t option \<Rightarrow> u16_t \<Rightarrow> netif option \<Rightarrow> (bool \<times> u16_t)
     \<Rightarrow> ip_addr_t option \<Rightarrow> u16_t \<Rightarrow> (err_t \<times> udp_globals) outcome" where
  "udp_sendto_if_src_chksum e s pcb p dst_ip dst_port nif ck src_ip src_port =
     (case (pcb, dst_ip, src_ip, nif) of
        (Some i, Some dst, Some src, Some n) \<Rightarrow> lwip_assert (p \<noteq> None) (
          bnd (get_pcb s i) (\<lambda>c.
          if \<not> IP_ADDR_PCB_VERSION_MATCH c src \<or> \<not> IP_ADDR_PCB_VERSION_MATCH c dst then Inr (ERR_VAL, s) else
          bnd (if local_port c = 0 then udp_bind e s pcb (Some (local_ip c)) (local_port c) else Inr (ERR_OK, s)) (\<lambda>(err, s).
          if err \<noteq> ERR_OK then Inr (err, s) else
          bnd (get_pcb s i) (\<lambda>c.
          bnd (pget (uheap s) p) (\<lambda>b.
          if p_tot_len b + of_nat UDP_HLEN < p_tot_len b then Inr (ERR_MEM, s) else
          bnd (udp_add_header (uheap s) p) (\<lambda>(q, h).
          if q = None then Inr (ERR_MEM, s\<lparr>uheap := h\<rparr>) else
          bnd (udp_fill_header e h q c ck src src_port dst dst_port) (\<lambda>h.
          bnd (ip_output_if_src e h q src dst (ttl c) (tos c) IP_PROTO_UDP n) (\<lambda>(err, h).
          bnd (if q \<noteq> p then bnd (pbuf_free h q) (\<lambda>(_, h). Inr h) else Inr h) (\<lambda>h.
          Inr (err, s\<lparr>uheap := h\<rparr>))))))))))
      | _ \<Rightarrow> Inl Abort)"

definition udp_sendto_if_src ::
  "udp_env \<Rightarrow> udp_globals \<Rightarrow> nat option \<Rightarrow> pptr \<Rightarrow> ip_addr_t option \<Rightarrow> u16_t \<Rightarrow> netif option
     \<Rightarrow> ip_addr_t option \<Rightarrow> u16_t \<Rightarrow> (err_t \<times> udp_globals) outcome" where
  "udp_sendto_if_src e s pcb p dst_ip dst_port nif src_ip src_port =
     udp_sendto_if_src_chksum e s pcb p dst_ip dst_port nif (False, 0) src_ip src_port"

definition udp_sendto_if_chksum ::
  "udp_env \<Rightarrow> udp_globals \<Rightarrow> nat option \<Rightarrow> pptr \<Rightarrow> ip_addr_t option \<Rightarrow> u16_t \<Rightarrow> netif option \<Rightarrow> (bool \<times> u16_t)
     \<Rightarrow> ip_addr_t option \<Rightarrow> u16_t \<Rightarrow> (err_t \<times> udp_globals) outcome" where
  "udp_sendto_if_chksum e s pcb p dst_ip dst_port nif ck src_ip src_port =
     (case (pcb, dst_ip, nif) of
        (Some i, Some dst, Some n) \<Rightarrow> lwip_assert (p \<noteq> None) (
          bnd (get_pcb s i) (\<lambda>c.
          if \<not> IP_ADDR_PCB_VERSION_MATCH c dst then Inr (ERR_VAL, s)
          else udp_sendto_if_src_chksum e s pcb p dst_ip dst_port nif ck src_ip src_port))
      | _ \<Rightarrow> Inl Abort)"

definition udp_sendto_if ::
  "udp_env \<Rightarrow> udp_globals \<Rightarrow> nat option \<Rightarrow> pptr \<Rightarrow> ip_addr_t option \<Rightarrow> u16_t \<Rightarrow> netif option
     \<Rightarrow> ip_addr_t option \<Rightarrow> u16_t \<Rightarrow> (err_t \<times> udp_globals) outcome" where
  "udp_sendto_if e s pcb p dst_ip dst_port nif src_ip src_port =
     udp_sendto_if_chksum e s pcb p dst_ip dst_port nif (False, 0) src_ip src_port"

definition ip_route :: "udp_env \<Rightarrow> ip_addr_t \<Rightarrow> ip_addr_t \<Rightarrow> netif option" where
  "ip_route e src dest = (if IP_IS_V6 dest then ip6_route e src dest else ip4_route_src e (ip_2_ip4 src) (ip_2_ip4 dest))"

definition udp_sendto_chksum ::
  "udp_env \<Rightarrow> udp_globals \<Rightarrow> nat option \<Rightarrow> pptr \<Rightarrow> ip_addr_t option \<Rightarrow> u16_t \<Rightarrow> (bool \<times> u16_t)
     \<Rightarrow> ip_addr_t option \<Rightarrow> u16_t \<Rightarrow> (err_t \<times> udp_globals) outcome" where
  "udp_sendto_chksum e s pcb p dst_ip dst_port ck src_ip src_port =
     (case (pcb, dst_ip) of
        (Some i, Some dst) \<Rightarrow> lwip_assert (p \<noteq> None) (
          bnd (get_pcb s i) (\<lambda>c.
          if \<not> IP_ADDR_PCB_VERSION_MATCH c dst then Inr (ERR_VAL, s) else
          case (if netif_idx c \<noteq> NETIF_NO_INDEX then netif_get_by_index (netif_list s) (netif_idx c)
                else ip_route e (local_ip c) dst) of
            None \<Rightarrow> Inr (ERR_RTE, s)
          | Some n \<Rightarrow> udp_sendto_if_chksum e s pcb p dst_ip dst_port (Some n) ck src_ip src_port))
      | _ \<Rightarrow> Inl Abort)"

definition udp_sendto ::
  "udp_env \<Rightarrow> udp_globals \<Rightarrow> nat option \<Rightarrow> pptr \<Rightarrow> ip_addr_t option \<Rightarrow> u16_t
     \<Rightarrow> ip_addr_t option \<Rightarrow> u16_t \<Rightarrow> (err_t \<times> udp_globals) outcome" where
  "udp_sendto e s pcb p dst_ip dst_port src_ip src_port =
     udp_sendto_chksum e s pcb p dst_ip dst_port (False, 0) src_ip src_port"

text \<open>\<^verbatim>\<open>udp_send\<close> and \<^verbatim>\<open>udp_send_chksum\<close> send nothing in this configuration.\<close>

definition udp_send :: "udp_globals \<Rightarrow> nat option \<Rightarrow> pptr \<Rightarrow> err_t outcome" where
  "udp_send s pcb p = (case pcb of None \<Rightarrow> Inl Abort | Some i \<Rightarrow> lwip_assert (p \<noteq> None) (
     bnd (get_pcb s i) (\<lambda>c. if IP_IS_ANY_TYPE_VAL (remote_ip c) then Inr ERR_VAL else Inr ERR_OK)))"

definition udp_send_chksum :: "udp_globals \<Rightarrow> nat option \<Rightarrow> pptr \<Rightarrow> bool \<Rightarrow> u16_t \<Rightarrow> err_t outcome" where
  "udp_send_chksum s pcb p have_chksum chksum = udp_send s pcb p"

section \<open>Ports\<close>

lemma udp_next_port_eq: "udp_next_port p = next_port 0x4000 p"
  by (auto simp: udp_next_port_def next_port_def word_unat_eq_iff)

lemma dynamic_range: "in_range 0x4000 p \<longleftrightarrow> 0xc000 \<le> p"
  using unat_lt_16 [of p] by (auto simp: in_range_def word_le_nat_alt simp del: unat_lt_16)

lemma port_used_upd [simp]: "port_used (s\<lparr>udp_port := x\<rparr>) = port_used s"
  by (simp add: port_used_def upcb_def fun_eq_iff)

interpretation udp_ports: port_search "0x4000" udp_new_port_loop udp_port "\<lambda>p s. s\<lparr>udp_port := p\<rparr>" port_used
  by unfold_locales (simp_all add: udp_new_port_loop.simps udp_next_port_eq Let_def)

lemma new_port_free:
  assumes "0xc000 \<le> udp_port s"
  shows "\<exists>port x. udp_new_port s = (port, s\<lparr>udp_port := x\<rparr>) \<and> 0xc000 \<le> x
    \<and> (if \<forall>q\<ge>0xc000. port_used s q then port = 0 else port = x \<and> \<not> port_used s port)"
  using udp_ports.search [of s] assms by (simp add: udp_new_port_def dynamic_range)

section \<open>Bindings\<close>

text \<open>
  The invariant of the pcb list: no pcb twice, exactly the bound pcbs, and, if all has been calm, no two pcbs in conflict
  for a port.
\<close>

definition clash :: "udp_pcb \<Rightarrow> udp_pcb \<Rightarrow> bool" where
  "clash c d \<longleftrightarrow> local_port c = local_port d \<and> (ip_addr_cmp (local_ip c) (local_ip d)
     \<or> ip_addr_isany (local_ip c) \<or> ip_addr_isany (local_ip d))"

definition bindings_ok :: "bool \<Rightarrow> udp_globals \<Rightarrow> bool" where
  "bindings_ok calm s \<longleftrightarrow> distinct (udp_pcbs s) \<and> 0xc000 \<le> udp_port s
     \<and> (\<forall>i. i \<in> set (udp_pcbs s) \<longleftrightarrow> pcb_at s i \<noteq> None \<and> local_port (upcb s i) \<noteq> 0)
     \<and> (\<forall>i. pcb_at s i \<noteq> None \<longrightarrow> i < next_pcb s)
     \<and> (calm \<longrightarrow> (\<forall>i\<in>set (udp_pcbs s). \<forall>j\<in>set (udp_pcbs s). i \<noteq> j \<longrightarrow> \<not> clash (upcb s i) (upcb s j)))"

lemma ip_addr_cmp_sym: "ip_addr_cmp a b = ip_addr_cmp b a"
  by (auto simp: ip_addr_cmp_def ip6_addr_cmp_def ip6_addr_cmp_zoneless_def IP_IS_V6_def)

lemma ip_addr_set_same [simp]:
  "ip_addr_cmp (ip_addr_set a) b = ip_addr_cmp a b" "ip_addr_cmp b (ip_addr_set a) = ip_addr_cmp b a"
  "ip_addr_isany (ip_addr_set a) = ip_addr_isany a"
  by (auto simp: ip_addr_cmp_def ip6_addr_cmp_def ip6_addr_cmp_zoneless_def ip_addr_set_def ip_addr_isany_def
      ip6_addr_isany_def IP_IS_V6_def ip_2_ip4_def)

lemma clash_sym: "clash c d = clash d c"
  using ip_addr_cmp_sym by (auto simp: clash_def)

lemma upcb_set [simp]: "upcb (set_pcb s i c) j = (if j = i then c else upcb s j)"
  by (simp add: upcb_def set_pcb_def)

lemma set_pcb_simps [simp]: "udp_pcbs (set_pcb s i c) = udp_pcbs s" "udp_port (set_pcb s i c) = udp_port s"
  "uheap (set_pcb s i c) = uheap s" "pcb_at (set_pcb s i c) = (pcb_at s)(i \<mapsto> c)" "netif_list (set_pcb s i c) = netif_list s"
  "next_pcb (set_pcb s i c) = next_pcb s"
  by (simp_all add: set_pcb_def)

lemma upcb_upd [simp]: "upcb (s\<lparr>udp_pcbs := xs\<rparr>) = upcb s" "upcb (s\<lparr>udp_port := x\<rparr>) = upcb s"
  "upcb (s\<lparr>uheap := h\<rparr>) = upcb s"
  by (simp_all add: upcb_def fun_eq_iff)

lemma bindings_ok_port: "bindings_ok calm s \<Longrightarrow> 0xc000 \<le> x \<Longrightarrow> bindings_ok calm (s\<lparr>udp_port := x\<rparr>)"
  by (simp add: bindings_ok_def)

text \<open>Binding a pcb without a clash keeps the invariant, whether or not it was on the list.\<close>

definition put_bound :: "udp_globals \<Rightarrow> nat \<Rightarrow> udp_pcb \<Rightarrow> udp_globals" where
  "put_bound s i c = (let s' = set_pcb s i c in if i \<in> set (udp_pcbs s) then s' else s'\<lparr>udp_pcbs := i # udp_pcbs s'\<rparr>)"

lemma put_bound_simps [simp]:
  "pcb_at (put_bound s i c) = (pcb_at s)(i \<mapsto> c)" "udp_pcbs (put_bound s i c) = (if i \<in> set (udp_pcbs s) then udp_pcbs s else i # udp_pcbs s)"
  by (simp_all add: put_bound_def Let_def)

lemma bindings_ok_bound:
  assumes "bindings_ok calm s" and "local_port c \<noteq> 0" and "0xc000 \<le> port" and "pcb_at s i \<noteq> None"
    and "\<forall>j\<in>set (udp_pcbs s). j \<noteq> i \<longrightarrow> \<not> clash c (upcb s j)"
  shows "bindings_ok calm (put_bound (s\<lparr>udp_port := port\<rparr>) i c)"
  using assms clash_sym by (auto simp: bindings_ok_def put_bound_def Let_def)

text \<open>The pcbs on the list, and the ports in use, said of the pcbs.\<close>

lemma bound_pcbs: "bindings_ok calm s \<Longrightarrow> i \<in> set (udp_pcbs s) \<longleftrightarrow> (\<exists>c. pcb_at s i = Some c \<and> local_port c \<noteq> 0)"
  by (auto simp: bindings_ok_def upcb_def)

lemma port_used_iff:
  assumes "bindings_ok calm s" and "q \<noteq> 0"
  shows "port_used s q \<longleftrightarrow> (\<exists>j d. pcb_at s j = Some d \<and> local_port d = q)"
  unfolding port_used_def list_ex_iff Bex_def bound_pcbs [OF assms(1)] upcb_def using assms(2) by force

lemma ex_bound:
  assumes "bindings_ok calm s"
  shows "(\<exists>i\<in>set (udp_pcbs s). Q i (upcb s i)) \<longleftrightarrow> (\<exists>i c. pcb_at s i = Some c \<and> local_port c \<noteq> 0 \<and> Q i c)"
  unfolding Bex_def bound_pcbs [OF assms] upcb_def by force

lemma ex_two_bound:
  assumes "bindings_ok calm s"
  shows "(\<exists>i\<in>set (udp_pcbs s). \<exists>j\<in>set (udp_pcbs s). Q i (upcb s i) j (upcb s j))
    \<longleftrightarrow> (\<exists>i c j d. pcb_at s i = Some c \<and> local_port c \<noteq> 0 \<and> pcb_at s j = Some d \<and> local_port d \<noteq> 0 \<and> Q i c j d)"
  unfolding ex_bound [OF assms, of "\<lambda>i c. \<exists>j\<in>set (udp_pcbs s). Q i c j (upcb s j)"]
  by (rule ex_cong1, rule ex_cong1, simp only: ex_bound [OF assms]) blast

lemma dynamic_nonzero: "0xc000 \<le> (q :: u16_t) \<Longrightarrow> q \<noteq> 0"
  by (auto simp: word_le_nat_alt)

lemma udp_bind_port_0:
  assumes "bindings_ok calm s" and "pcb_at s i = Some c" and "a = udp_zoned_addr e ipaddr"
  obtains (full) x where "0xc000 \<le> x" and "\<forall>q\<ge>0xc000. \<exists>j d. pcb_at s j = Some d \<and> local_port d = q"
      and "udp_bind e s (Some i) (Some ipaddr) 0 = Inr (ERR_USE, s\<lparr>udp_port := x\<rparr>)"
    | (free) x where "0xc000 \<le> x" and "\<forall>j d. pcb_at s j = Some d \<longrightarrow> local_port d \<noteq> x"
      and "udp_bind e s (Some i) (Some ipaddr) 0 = Inr (ERR_OK, put_bound (s\<lparr>udp_port := x\<rparr>) i (c\<lparr>local_ip := ip_addr_set a, local_port := x\<rparr>))"
proof -
  have u: "port_used s q \<longleftrightarrow> (\<exists>j d. pcb_at s j = Some d \<and> local_port d = q)" if "0xc000 \<le> q" for q
    using port_used_iff [OF assms(1) dynamic_nonzero [OF that]] .
  have "0xc000 \<le> udp_port s" using assms(1) by (simp add: bindings_ok_def)
  from new_port_free [OF this] obtain p x where x: "udp_new_port s = (p, s\<lparr>udp_port := x\<rparr>)" "0xc000 \<le> x"
    "if \<forall>q\<ge>0xc000. port_used s q then p = 0 else p = x \<and> \<not> port_used s p" by blast
  show thesis
  proof (cases "\<forall>q\<ge>0xc000. port_used s q")
    case True
    then have "udp_new_port s = (0, s\<lparr>udp_port := x\<rparr>)" using x(1,3) by simp
    then have "udp_bind e s (Some i) (Some ipaddr) 0 = Inr (ERR_USE, s\<lparr>udp_port := x\<rparr>)" by (simp add: udp_bind_def Let_def)
    then show thesis using full [OF x(2)] True u by blast
  next
    case False
    then have p: "udp_new_port s = (x, s\<lparr>udp_port := x\<rparr>)" "\<not> port_used s x" using x(1,3) unfolding if_not_P [OF False] by auto
    have "udp_bind e s (Some i) (Some ipaddr) 0 = Inr (ERR_OK, put_bound (s\<lparr>udp_port := x\<rparr>) i (c\<lparr>local_ip := ip_addr_set a, local_port := x\<rparr>))"
      using p(1) dynamic_nonzero [OF x(2)] assms(2,3) by (simp add: udp_bind_def Let_def get_pcb_def put_bound_def)
    then show thesis using free [OF x(2)] p(2) u [OF x(2)] by blast
  qed
qed

lemma udp_bind_port:
  assumes "bindings_ok calm s" and "pcb_at s i = Some c" and "port \<noteq> 0" and "a = udp_zoned_addr e ipaddr"
  shows "udp_bind e s (Some i) (Some ipaddr) port = Inr (
    if \<exists>j d. j \<noteq> i \<and> pcb_at s j = Some d \<and> local_port d = port \<and> (ip_addr_cmp (local_ip d) a \<or> ip_addr_isany a \<or> ip_addr_isany (local_ip d))
    then (ERR_USE, s) else (ERR_OK, put_bound s i (c\<lparr>local_ip := ip_addr_set a, local_port := port\<rparr>)))"
    (is "_ = Inr (if ?P then _ else _)")
proof -
  have l: "list_ex (\<lambda>j. i \<noteq> j \<and> bind_conflict a port (upcb s j)) (udp_pcbs s) \<longleftrightarrow> ?P"
    unfolding list_ex_iff Bex_def bound_pcbs [OF assms(1)] upcb_def bind_conflict_def using assms(3) by force
  show ?thesis using assms(2,3) unfolding l [symmetric] unfolding assms(4) by (simp add: udp_bind_def Let_def get_pcb_def put_bound_def)
qed

lemma udp_bind_cases:
  assumes ok: "bindings_ok calm s" and c: "pcb_at s i = Some c"
  shows "\<exists>err s'. udp_bind e s (Some i) (Some ipaddr) port = Inr (err, s') \<and> bindings_ok calm s' \<and> (err = ERR_OK \<longrightarrow> i \<in> set (udp_pcbs s'))"
proof -
  define a where "a = udp_zoned_addr e ipaddr"
  let ?c = "\<lambda>p. c\<lparr>local_ip := ip_addr_set a, local_port := p\<rparr>"
  have cl: "clash (?c p) d \<longleftrightarrow> local_port d = p \<and> (ip_addr_cmp (local_ip d) a \<or> ip_addr_isany a \<or> ip_addr_isany (local_ip d))" for p d
    using ip_addr_cmp_sym by (auto simp: clash_def)
  have pcb: "\<exists>d. pcb_at s j = Some d \<and> upcb s j = d" if "j \<in> set (udp_pcbs s)" for j
    using ok that by (auto simp: bindings_ok_def upcb_def)
  have bound: "bindings_ok calm (put_bound (s\<lparr>udp_port := x\<rparr>) i (?c p))"
    if "p \<noteq> 0" "0xc000 \<le> x" "\<And>j d. j \<noteq> i \<Longrightarrow> pcb_at s j = Some d \<Longrightarrow> \<not> clash (?c p) d" for p x
    using that pcb by (intro bindings_ok_bound ok) (auto simp: c)
  show ?thesis
  proof (cases "port = 0")
    case True
    from ok c a_def show ?thesis
    proof (cases rule: udp_bind_port_0)
      case (full x)
      then show ?thesis using bindings_ok_port [OF ok full(1)] True by simp
    next
      case (free x)
      then show ?thesis using bound [OF dynamic_nonzero [OF free(1)] free(1)] cl True by simp
    qed
  next
    case False
    have "0xc000 \<le> udp_port s" using ok by (simp add: bindings_ok_def)
    then show ?thesis using udp_bind_port [OF ok c False a_def] bound [OF False, of "udp_port s"] ok cl by auto
  qed
qed

section \<open>Reachable states\<close>

text \<open>
  \<^verbatim>\<open>netif.c\<close> changes the address of an interface: is there a pcb bound to the old address and another one with the same
  port bound to the new address?
\<close>

definition change_merges :: "udp_globals \<Rightarrow> ip_addr_t \<Rightarrow> ip_addr_t \<Rightarrow> bool" where
  "change_merges s old_addr new_addr \<longleftrightarrow> \<not> ip_addr_isany old_addr \<and> \<not> ip_addr_isany new_addr
     \<and> (\<exists>i\<in>set (udp_pcbs s). \<exists>j\<in>set (udp_pcbs s). i \<noteq> j \<and> local_port (upcb s i) = local_port (upcb s j)
          \<and> ip_addr_cmp (local_ip (upcb s i)) old_addr \<and> ip_addr_cmp (local_ip (upcb s j)) new_addr)"

text \<open>
  The life of the pcb list: it starts empty, and applications create, bind, connect, use and remove pcbs in any
  order; other modules change the heap and the addresses of the interfaces in between. The flag \<open>calm\<close> says that no change of
  an address has been of the kind above.
\<close>

inductive udp_reachable :: "udp_env \<Rightarrow> bool \<Rightarrow> udp_globals \<Rightarrow> bool" for e where
  init: "udp_pcbs s = [] \<Longrightarrow> pcb_at s = (\<lambda>_. None) \<Longrightarrow> udp_port s = UDP_LOCAL_PORT_RANGE_START \<Longrightarrow>
    udp_reachable e True (udp_init rand s)"
| heap: "udp_reachable e calm s \<Longrightarrow> udp_reachable e calm (s\<lparr>uheap := h\<rparr>)"
| new: "udp_reachable e calm s \<Longrightarrow> udp_new_ip_type s ty = (r, s') \<Longrightarrow> udp_reachable e calm s'"
| bind: "udp_reachable e calm s \<Longrightarrow> udp_bind e s pcb ipaddr port = Inr (err, s') \<Longrightarrow> udp_reachable e calm s'"
| bind_netif: "udp_reachable e calm s \<Longrightarrow> udp_bind_netif s i nif = Inr s' \<Longrightarrow> udp_reachable e calm s'"
| connect: "udp_reachable e calm s \<Longrightarrow> udp_connect e s pcb ipaddr port = Inr (err, s') \<Longrightarrow> udp_reachable e calm s'"
| disconnect: "udp_reachable e calm s \<Longrightarrow> udp_disconnect s pcb = Inr s' \<Longrightarrow> udp_reachable e calm s'"
| recv: "udp_reachable e calm s \<Longrightarrow> udp_recv s pcb fn arg = Inr s' \<Longrightarrow> udp_reachable e calm s'"
| remove: "udp_reachable e calm s \<Longrightarrow> udp_remove s pcb = Inr s' \<Longrightarrow> udp_reachable e calm s'"
| addr_changed: "udp_reachable e calm s \<Longrightarrow>
    udp_reachable e (calm \<and> \<not> change_merges s old_addr new_addr) (udp_netif_ip_addr_changed s old_addr new_addr)"

lemma get_pcb_Inr: "get_pcb s i = Inr c \<longleftrightarrow> pcb_at s i = Some c"
  by (simp add: get_pcb_def split: option.splits)

lemma bindings_ok_heap [simp]: "bindings_ok calm (s\<lparr>uheap := h\<rparr>) = bindings_ok calm s"
  by (simp add: bindings_ok_def)

text \<open>Changes of a pcb that leave its local end alone.\<close>

lemma bindings_ok_remote:
  assumes "bindings_ok calm s" and "pcb_at s i = Some c" and "local_ip d = local_ip c" and "local_port d = local_port c"
  shows "bindings_ok calm (set_pcb s i d)"
proof -
  have "upcb s i = c" using assms(2) by (simp add: upcb_def)
  then show ?thesis using assms unfolding bindings_ok_def by (simp add: clash_def) blast
qed

lemma udp_bind_ok:
  assumes "bindings_ok calm s" and "udp_bind e s pcb ipaddr port = Inr (err, s')"
  shows "bindings_ok calm s'"
proof -
  obtain i where i: "pcb = Some i" using assms(2) by (cases pcb) (auto simp: udp_bind_def)
  show ?thesis
  proof (cases "pcb_at s i")
    case None
    obtain q x where q: "udp_new_port s = (q, s\<lparr>udp_port := x\<rparr>)" "0xc000 \<le> x"
      using new_port_free [of s] assms(1) by (auto simp: bindings_ok_def)
    then have "get_pcb s i = Inl Fault" "get_pcb (s\<lparr>udp_port := x\<rparr>) i = Inl Fault" using None by (simp_all add: get_pcb_def)
    then show ?thesis using assms i q bindings_ok_port [OF assms(1) q(2)]
      by (auto simp: udp_bind_def Let_def split: if_splits)
  next
    case (Some c)
    have "udp_bind e s (Some i) ipaddr port
        = udp_bind e s (Some i) (Some (case ipaddr of None \<Rightarrow> IP4_ADDR_ANY | Some a \<Rightarrow> a)) port"
      by (simp add: udp_bind_def)
    moreover obtain err2 s2 where "udp_bind e s (Some i) (Some (case ipaddr of None \<Rightarrow> IP4_ADDR_ANY | Some a \<Rightarrow> a)) port
        = Inr (err2, s2)" "bindings_ok calm s2"
      using udp_bind_cases [OF assms(1) Some] by blast
    ultimately show ?thesis using assms(2) i by simp
  qed
qed

lemma udp_unlink_next_remove: "distinct xs \<Longrightarrow> xs = [] \<or> hd xs \<noteq> i \<Longrightarrow> udp_unlink_next i xs = filter (\<lambda>j. j \<noteq> i) xs"
proof (induction i xs rule: udp_unlink_next.induct)
  case (3 i a b xs)
  show ?case
  proof (cases "b = i")
    case True
    then have "filter (\<lambda>j. j \<noteq> i) xs = xs" using 3 by (intro filter_True) auto
    then show ?thesis using 3 True by simp
  qed (use 3 in simp)
qed auto

lemma udp_unlink_remove: "distinct xs \<Longrightarrow> udp_unlink i xs = filter (\<lambda>j. j \<noteq> i) xs"
proof (cases xs)
  case (Cons a ys)
  assume d: "distinct xs"
  show ?thesis
  proof (cases "a = i")
    case True
    then have "filter (\<lambda>j. j \<noteq> i) ys = ys" using d Cons by (intro filter_True) auto
    then show ?thesis using True Cons by (simp add: udp_unlink_def)
  next
    case False
    then show ?thesis using d Cons udp_unlink_next_remove [of xs i] by (simp add: udp_unlink_def)
  qed
qed (simp add: udp_unlink_def)

lemma udp_connect_ok:
  assumes "bindings_ok calm s" and "udp_connect e s pcb ipaddr port = Inr (err, s')"
  shows "bindings_ok calm s'"
proof -
  obtain i a where ia: "pcb = Some i" "ipaddr = Some a"
    using assms(2) by (auto simp: udp_connect_def split: option.splits)
  obtain c where c: "pcb_at s i = Some c"
    using assms(2) ia by (auto simp: udp_connect_def bnd_eq_Inr_iff get_pcb_Inr)
  obtain err1 s1 where b: "(if local_port c = 0 then udp_bind e s (Some i) (Some (local_ip c)) (local_port c) else Inr (ERR_OK, s))
      = Inr (err1, s1)"
    using assms(2) ia c by (cases "if local_port c = 0 then udp_bind e s (Some i) (Some (local_ip c)) (local_port c) else Inr (ERR_OK, s)")
      (auto simp: udp_connect_def get_pcb_def)
  have r: "s' = s1" if "err1 \<noteq> ERR_OK"
    using assms(2) ia c b that by (simp add: udp_connect_def get_pcb_def)
  have k: "\<exists>d r f. pcb_at s1 i = Some d \<and> (let s2 = set_pcb s1 i (d\<lparr>remote_ip := r, remote_port := port, uflags := f\<rparr>)
        in s' = (if i \<in> set (udp_pcbs s2) then s2 else s2\<lparr>udp_pcbs := i # udp_pcbs s2\<rparr>))" if "err1 = ERR_OK"
  proof (cases "pcb_at s1 i")
    case None
    then show ?thesis using assms(2) ia c b that by (simp add: udp_connect_def get_pcb_def)
  next
    case (Some d)
    define r where "r = (if IP_IS_V6 (ip_addr_set a) \<and> ip6_addr_lacks_zone (ip_addr_set a)
      then ip6_addr_select_zone (ip6_route e) (ip_addr_set a) (local_ip d) else ip_addr_set a)"
    show ?thesis using assms(2) ia c b that Some
      by (intro exI [of _ d] exI [of _ r] exI [of _ "uflags d OR UDP_FLAGS_CONNECTED"])
        (simp add: udp_connect_def get_pcb_def Let_def r_def)
  qed
  have ok: "bindings_ok calm s1" using b assms(1) udp_bind_ok by (auto split: if_splits)
  show ?thesis
  proof (cases "err1 = ERR_OK")
    case True
    have "i \<in> set (udp_pcbs s1)"
    proof (cases "local_port c = 0")
      case zero: True
      then show ?thesis using b True udp_bind_cases [OF assms(1) c, of e "local_ip c" 0] ia by auto
    next
      case False
      then show ?thesis using b assms(1) c by (auto simp: bindings_ok_def upcb_def)
    qed
    then show ?thesis using k True ok by (auto simp: Let_def intro: bindings_ok_remote)
  qed (use r ok in simp)
qed

lemma udp_remove_ok:
  assumes "bindings_ok calm s" and "udp_remove s pcb = Inr s'"
  shows "bindings_ok calm s'"
proof -
  have d: "distinct (udp_pcbs s)" using assms(1) by (simp add: bindings_ok_def)
  obtain i where "s' = s\<lparr>udp_pcbs := filter (\<lambda>j. j \<noteq> i) (udp_pcbs s), pcb_at := (pcb_at s)(i := None)\<rparr>"
    using assms(2) udp_unlink_remove [OF d] by (auto simp: udp_remove_def bnd_eq_Inr_iff split: option.splits)
  then show ?thesis using assms(1) d by (auto simp: bindings_ok_def upcb_def)
qed

lemma dyn_port_range: "0xc000 \<le> (ucast ((r :: u32_t) AND 0x3fff) :: u16_t) + 0xc000"
proof -
  have "(r AND 0x3fff) = take_bit 14 r" by (simp add: take_bit_eq_mask mask_eq_exp_minus_1)
  then have "unat (ucast (r AND 0x3fff) :: u16_t) = take_bit 16 (take_bit 14 (unat r))"
    by (simp add: unsigned_ucast_eq unsigned_take_bit_eq)
  then have "unat (ucast (r AND 0x3fff) :: u16_t) < 0x4000" by (simp add: take_bit_eq_mod)
  then show ?thesis by (simp add: word_le_nat_alt unat_word_ariths)
qed

lemma bindings_ok_next: "bindings_ok calm s \<Longrightarrow> bindings_ok calm (s\<lparr>next_pcb := Suc (next_pcb s)\<rparr>)"
  by (auto simp: bindings_ok_def upcb_def less_SucI)

lemma bindings_ok_fresh:
  assumes "bindings_ok calm s" and "local_port c = 0"
  shows "bindings_ok calm (s\<lparr>next_pcb := Suc (next_pcb s), pcb_at := (pcb_at s)(next_pcb s \<mapsto> c)\<rparr>)"
proof -
  have u: "upcb (s\<lparr>next_pcb := Suc (next_pcb s), pcb_at := (pcb_at s)(next_pcb s \<mapsto> c)\<rparr>) i
      = (if i = next_pcb s then c else upcb s i)" for i
    by (simp add: upcb_def)
  have n: "pcb_at s (next_pcb s) = None" using assms(1) by (auto simp: bindings_ok_def)
  then have "next_pcb s \<notin> set (udp_pcbs s)" using assms(1) by (simp add: bindings_ok_def)
  then show ?thesis using assms n unfolding bindings_ok_def u by (auto simp: less_SucI)
qed

text \<open>The pcbs after a change of an address, and when they are in conflict.\<close>

lemma ip_addr_cmp_trans: "ip_addr_cmp a b \<Longrightarrow> ip_addr_cmp b c \<Longrightarrow> ip_addr_cmp a c"
  by (auto simp: ip_addr_cmp_def ip6_addr_cmp_def ip6_addr_cmp_zoneless_def IP_IS_V6_def split: if_splits)

lemma ip_addr_cmp_refl [simp]: "ip_addr_cmp a a"
  by (auto simp: ip_addr_cmp_def ip6_addr_cmp_def ip6_addr_cmp_zoneless_def)

lemma addr_changed_simps [simp]:
  "udp_pcbs (udp_netif_ip_addr_changed s old new) = udp_pcbs s" "udp_port (udp_netif_ip_addr_changed s old new) = udp_port s"
  "next_pcb (udp_netif_ip_addr_changed s old new) = next_pcb s"
  "pcb_at (udp_netif_ip_addr_changed s old new) i = None \<longleftrightarrow> pcb_at s i = None"
  by (auto simp: udp_netif_ip_addr_changed_def split: option.splits)

lemma addr_changed_upcb:
  "pcb_at s i \<noteq> None \<Longrightarrow> upcb (udp_netif_ip_addr_changed s old new) i =
     (if \<not> ip_addr_isany old \<and> \<not> ip_addr_isany new \<and> i \<in> set (udp_pcbs s) \<and> ip_addr_cmp (local_ip (upcb s i)) old
      then (upcb s i)\<lparr>local_ip := ip_addr_set new\<rparr> else upcb s i)"
  by (auto simp: udp_netif_ip_addr_changed_def upcb_def)

lemma addr_changed_clash:
  fixes s :: udp_globals and old new :: ip_addr_t
  assumes ok: "bindings_ok True s" and ij: "i \<in> set (udp_pcbs s)" "j \<in> set (udp_pcbs s)" "i \<noteq> j"
  defines "u \<equiv> upcb (udp_netif_ip_addr_changed s old new)"
    and "m \<equiv> \<lambda>i j. \<not> ip_addr_isany old \<and> \<not> ip_addr_isany new \<and> local_port (upcb s i) = local_port (upcb s j)
      \<and> ip_addr_cmp (local_ip (upcb s i)) old \<and> ip_addr_cmp (local_ip (upcb s j)) new"
  shows "clash (u i) (u j) \<longleftrightarrow> m i j \<or> m j i"
proof -
  have no: "\<not> clash (upcb s i) (upcb s j)" and at: "pcb_at s i \<noteq> None" "pcb_at s j \<noteq> None"
    using ok ij by (auto simp: bindings_ok_def)
  have two: "\<not> (ip_addr_cmp (local_ip (upcb s i)) old \<and> ip_addr_cmp (local_ip (upcb s j)) old)"
    if "local_port (upcb s i) = local_port (upcb s j)"
    using no that ip_addr_cmp_trans ip_addr_cmp_sym unfolding clash_def by blast
  show ?thesis using no two ij(1,2) ip_addr_cmp_sym unfolding u_def m_def clash_def addr_changed_upcb [OF at(1)] addr_changed_upcb [OF at(2)]
    by auto
qed

lemma addr_changed_merges:
  fixes s :: udp_globals and old new :: ip_addr_t
  assumes "bindings_ok True s"
  defines "u \<equiv> upcb (udp_netif_ip_addr_changed s old new)"
  shows "(\<exists>i\<in>set (udp_pcbs s). \<exists>j\<in>set (udp_pcbs s). i \<noteq> j \<and> clash (u i) (u j)) \<longleftrightarrow> change_merges s old new"
  using addr_changed_clash [OF assms(1)] unfolding u_def change_merges_def by metis

lemma addr_changed_ok:
  assumes ok: "bindings_ok calm s"
  shows "bindings_ok (calm \<and> \<not> change_merges s old new) (udp_netif_ip_addr_changed s old new)"
proof -
  have p: "local_port (upcb (udp_netif_ip_addr_changed s old new) i) = local_port (upcb s i)" if "pcb_at s i \<noteq> None" for i
    by (simp add: addr_changed_upcb [OF that])
  have "\<not> clash (upcb (udp_netif_ip_addr_changed s old new) i) (upcb (udp_netif_ip_addr_changed s old new) j)"
    if "calm" "\<not> change_merges s old new" "i \<in> set (udp_pcbs s)" "j \<in> set (udp_pcbs s)" "i \<noteq> j" for i j
    using addr_changed_merges [of s old new] ok that by auto
  then show ?thesis using ok p by (auto simp: bindings_ok_def)
qed

lemma reachable_bindings_ok: "udp_reachable e calm s \<Longrightarrow> bindings_ok calm s"
proof (induction rule: udp_reachable.induct)
  case (init s rand)
  show ?case using init dyn_port_range by (auto simp: bindings_ok_def udp_init_def split: option.split)
next
  case (new calm s ty r s')
  show ?case
  proof (cases "pcb_oom s (next_pcb s)")
    case True
    then show ?thesis using new by (auto simp: udp_new_ip_type_def udp_new_def Let_def bindings_ok_next)
  next
    case False
    then show ?thesis using new bindings_ok_fresh [OF new.IH]
      by (auto simp: udp_new_ip_type_def udp_new_def Let_def set_pcb_def upcb_def)
  qed
next
  case (connect calm s pcb ipaddr port err s')
  then show ?case by (blast intro: udp_connect_ok)
next
  case (remove calm s pcb s')
  then show ?case by (blast intro: udp_remove_ok)
next
  case (addr_changed calm s old_addr new_addr)
  then show ?case by (blast intro: addr_changed_ok)
qed (auto simp: udp_bind_ok udp_bind_netif_def udp_disconnect_def udp_recv_def bnd_eq_Inr_iff get_pcb_Inr
  split: option.splits intro: bindings_ok_remote)

text \<open>The conflicts among the pcbs, said of the pcbs and not of the list.\<close>

lemma pcbs_clash:
  assumes "bindings_ok calm s"
  shows "(\<exists>i\<in>set (udp_pcbs s). \<exists>j\<in>set (udp_pcbs s). i \<noteq> j \<and> clash (upcb s i) (upcb s j))
    \<longleftrightarrow> (\<exists>i j c d. i \<noteq> j \<and> pcb_at s i = Some c \<and> pcb_at s j = Some d \<and> local_port c \<noteq> 0 \<and> clash c d)"
proof -
  have "clash c d \<Longrightarrow> local_port d = local_port c" for c d by (simp add: clash_def)
  then have "(pcb_at s i = Some c \<and> local_port c \<noteq> 0 \<and> pcb_at s j = Some d \<and> local_port d \<noteq> 0 \<and> i \<noteq> j \<and> clash c d)
    = (i \<noteq> j \<and> pcb_at s i = Some c \<and> pcb_at s j = Some d \<and> local_port c \<noteq> 0 \<and> clash c d)" for i c j d by auto
  then show ?thesis unfolding ex_two_bound [OF assms, of "\<lambda>i c j d. i \<noteq> j \<and> clash c d"] by blast
qed

text \<open>
  C17: In every state that the UDP module can reach, the list \<^verbatim>\<open>udp_pcbs\<close> holds exactly the bound pcbs, each once, however
  creating, binding, connecting, disconnecting, removing and changes of the addresses of interfaces are interleaved. No two pcbs
  are bound to the same port with the same or an unspecified address, unless the address of an interface has been changed while a
  pcb was bound to the old address and another one with the same port to the new address.
\<close>

theorem udp_reachable_bindings:
  assumes "udp_reachable e calm s"
  shows "distinct (udp_pcbs s) \<and> (\<forall>i. i \<in> set (udp_pcbs s) \<longleftrightarrow> (\<exists>c. pcb_at s i = Some c \<and> local_port c \<noteq> 0))
    \<and> (calm \<longrightarrow> (\<forall>i j c d. i \<noteq> j \<and> pcb_at s i = Some c \<and> pcb_at s j = Some d \<and> local_port c \<noteq> 0 \<and> local_port c = local_port d \<longrightarrow>
         \<not> ip_addr_isany (local_ip c) \<and> \<not> ip_addr_isany (local_ip d) \<and> \<not> ip_addr_cmp (local_ip c) (local_ip d)))"
proof (intro conjI impI)
  note ok = reachable_bindings_ok [OF assms]
  show "distinct (udp_pcbs s)" using ok by (simp add: bindings_ok_def)
  show "\<forall>i. i \<in> set (udp_pcbs s) \<longleftrightarrow> (\<exists>c. pcb_at s i = Some c \<and> local_port c \<noteq> 0)" using bound_pcbs [OF ok] by blast
  assume calm
  then have "\<not> (\<exists>i\<in>set (udp_pcbs s). \<exists>j\<in>set (udp_pcbs s). i \<noteq> j \<and> clash (upcb s i) (upcb s j))" using ok by (auto simp: bindings_ok_def)
  then have "\<not> clash c d" if "i \<noteq> j" "pcb_at s i = Some c" "pcb_at s j = Some d" "local_port c \<noteq> 0" for i j c d
    unfolding pcbs_clash [OF ok] using that by blast
  then show "\<forall>i j c d. i \<noteq> j \<and> pcb_at s i = Some c \<and> pcb_at s j = Some d \<and> local_port c \<noteq> 0 \<and> local_port c = local_port d \<longrightarrow>
         \<not> ip_addr_isany (local_ip c) \<and> \<not> ip_addr_isany (local_ip d) \<and> \<not> ip_addr_cmp (local_ip c) (local_ip d)"
    unfolding clash_def by blast
qed

text \<open>
  C30: \<^verbatim>\<open>udp_bind\<close> of a pcb in a reachable state never aborts. It answers \<^verbatim>\<open>ERR_USE\<close> exactly if another pcb has the port with the
  same address or if one of the two addresses is unspecified; for port 0, exactly if all 16384 ports of the dynamic range are
  taken. Then the pcbs and the list are as before. Otherwise it succeeds: the pcb is on the list and has the address (completed by
  a zone) and the port asked for, or for port 0 a port of the dynamic range that no pcb has, and every other pcb is as before.
\<close>

theorem udp_bind_result:
  assumes "udp_reachable e calm s" and "pcb_at s i = Some c" and "a = udp_zoned_addr e ipaddr"
  shows "\<exists>err s'. udp_bind e s (Some i) (Some ipaddr) port = Inr (err, s') \<and> udp_reachable e calm s'
    \<and> (err = ERR_USE \<longleftrightarrow> (if port \<noteq> 0
         then \<exists>j d. j \<noteq> i \<and> pcb_at s j = Some d \<and> local_port d = port
                \<and> (ip_addr_cmp (local_ip d) a \<or> ip_addr_isany a \<or> ip_addr_isany (local_ip d))
         else \<forall>q\<ge>0xc000. \<exists>j d. pcb_at s j = Some d \<and> local_port d = q))
    \<and> (if err = ERR_USE then pcb_at s' = pcb_at s \<and> udp_pcbs s' = udp_pcbs s
       else err = ERR_OK \<and> (\<exists>p. pcb_at s' = (pcb_at s)(i \<mapsto> c\<lparr>local_ip := ip_addr_set a, local_port := p\<rparr>)
              \<and> udp_pcbs s' = (if i \<in> set (udp_pcbs s) then udp_pcbs s else i # udp_pcbs s)
              \<and> (if port \<noteq> 0 then p = port else 0xc000 \<le> p \<and> (\<forall>j d. pcb_at s j = Some d \<longrightarrow> local_port d \<noteq> p))))"
proof -
  note ok = reachable_bindings_ok [OF assms(1)]
  obtain err s' where b: "udp_bind e s (Some i) (Some ipaddr) port = Inr (err, s')"
    using udp_bind_cases [OF ok assms(2)] by blast
  note r = udp_reachable.bind [OF assms(1) b]
  show ?thesis
  proof (cases "port = 0")
    case True
    from ok assms(2,3) show ?thesis
    proof (cases rule: udp_bind_port_0)
      case (full x)
      then show ?thesis using b r True by (intro exI [of _ err] exI [of _ s']) auto
    next
      case (free x)
      then have "err = ERR_OK" "s' = put_bound (s\<lparr>udp_port := x\<rparr>) i (c\<lparr>local_ip := ip_addr_set a, local_port := x\<rparr>)" using b True by auto
      moreover have "\<not> (\<forall>q\<ge>0xc000. \<exists>j d. pcb_at s j = Some d \<and> local_port d = q)" using free(1,2) by blast
      ultimately show ?thesis using b r True free(1,2) by (intro exI [of _ err] exI [of _ s']) auto
    qed
  next
    case False
    then show ?thesis using b r udp_bind_port [OF ok assms(2) False assms(3)]
      by (intro exI [of _ err] exI [of _ s']) (auto split: if_splits)
  qed
qed

text \<open>
  C31: A change of the address of an interface brings two pcbs into conflict for a port, which \<^verbatim>\<open>udp_bind\<close> refuses, exactly if both
  addresses are specified and one pcb is bound to the old address and another one to the new address with the same port:
  \<^verbatim>\<open>udp_netif_ip_addr_changed\<close> does not look for the conflict.
\<close>

theorem udp_addr_change_conflict:
  assumes "udp_reachable e True s" and "s' = udp_netif_ip_addr_changed s old_addr new_addr"
  shows "(\<exists>i j c d. i \<noteq> j \<and> pcb_at s' i = Some c \<and> pcb_at s' j = Some d \<and> local_port c \<noteq> 0 \<and> local_port c = local_port d
      \<and> (ip_addr_cmp (local_ip c) (local_ip d) \<or> ip_addr_isany (local_ip c) \<or> ip_addr_isany (local_ip d)))
    \<longleftrightarrow> \<not> ip_addr_isany old_addr \<and> \<not> ip_addr_isany new_addr
      \<and> (\<exists>i j c d. i \<noteq> j \<and> pcb_at s i = Some c \<and> pcb_at s j = Some d \<and> local_port c \<noteq> 0 \<and> local_port c = local_port d
           \<and> ip_addr_cmp (local_ip c) old_addr \<and> ip_addr_cmp (local_ip d) new_addr)"
    (is "?l \<longleftrightarrow> ?r")
proof -
  note ok = reachable_bindings_ok [OF assms(1)]
  have ok': "bindings_ok (\<not> change_merges s old_addr new_addr) s'" using addr_changed_ok [OF ok] assms(2) by simp
  have "?l \<longleftrightarrow> change_merges s old_addr new_addr"
    using addr_changed_merges [OF ok, of old_addr new_addr] pcbs_clash [OF ok'] assms(2) by (simp add: clash_def)
  also have "\<dots> \<longleftrightarrow> ?r"
    unfolding change_merges_def
      ex_two_bound [OF ok, of "\<lambda>i c j d. i \<noteq> j \<and> local_port c = local_port d \<and> ip_addr_cmp (local_ip c) old_addr \<and> ip_addr_cmp (local_ip d) new_addr"]
    by metis
  finally show ?thesis .
qed

section \<open>A sample run\<close>

text \<open>One interface, every packet routed to it, and output that always succeeds.\<close>

definition sample_netif :: netif where
  "sample_netif = \<lparr>n_ip_addr = 0x0100000a, n_netmask = 0x00ffffff, n_gw = 0, n_ip6_addr = [], n_ip6_addr_state = [],
     n_mtu = 1500, n_flags = 5, n_num = 0\<rparr>"

definition sample_udp_env :: udp_env where
  "sample_udp_env = \<lparr>ip4_route_src = \<lambda>_ _. Some sample_netif, ip6_route = \<lambda>_ _. None,
     ip_output_if_src = \<lambda>h _ _ _ _ _ _ _. Inr (ERR_OK, h), icmp_port_unreach = \<lambda>_ h _. Inr h,
     recv_fn = \<lambda>_ _ _ _ _ _ _ _ s. Inr s, addr_odd = \<lambda>_. False\<rparr>"

definition sample_udp0 :: udp_globals where
  "sample_udp0 = \<lparr>uheap = sample, pcb_at = \<lambda>_. None, udp_pcbs = [], udp_port = 0xc000, netif_list = [sample_netif],
     next_pcb = 0, pcb_oom = \<lambda>_. False\<rparr>"

text \<open>A pcb for both versions of IP is created.\<close>

definition sample_udp1 :: udp_globals where
  "sample_udp1 = snd (udp_new_ip_type sample_udp0 IPADDR_TYPE_ANY)"

lemma sample_udp1_eq: "sample_udp1 = sample_udp0\<lparr>next_pcb := 1, pcb_at := [0 \<mapsto> \<lparr>local_ip = ip_any_type, remote_ip = ip_any_type,
    netif_idx = 0, so_options = 0, tos = 0, ttl = 64, uflags = 0, local_port = 0, remote_port = 0, recv = None, recv_arg = 0\<rparr>]\<rparr>"
  by (simp add: sample_udp1_def udp_new_ip_type_def udp_new_def sample_udp0_def set_pcb_def upcb_def ip_any_type_def)

lemma sample_udp1_reachable: "udp_reachable sample_udp_env True sample_udp1"
proof -
  have "udp_reachable sample_udp_env True (udp_init None sample_udp0)"
    by (rule udp_reachable.init) (simp_all add: sample_udp0_def)
  then show ?thesis unfolding sample_udp1_def
    by (auto simp: udp_init_def intro: udp_reachable.new [of _ _ _ IPADDR_TYPE_ANY "fst (udp_new_ip_type sample_udp0 IPADDR_TYPE_ANY)"])
qed

definition sample_udp :: udp_globals where
  "sample_udp = sample_udp1\<lparr>udp_pcbs := [0], pcb_at := [0 \<mapsto> (upcb sample_udp1 0)\<lparr>local_port := 53\<rparr>]\<rparr>"

lemma sample_udp_reachable: "udp_reachable sample_udp_env True sample_udp"
proof (rule udp_reachable.bind [OF sample_udp1_reachable])
  have v6: "\<not> IP_IS_V6 ip_any_type" by (simp add: IP_IS_V6_def ip_any_type_def IPADDR_TYPE_ANY_def IPADDR_TYPE_V6_def)
  then have z: "udp_zoned_addr sample_udp_env ip_any_type = ip_any_type" by (simp add: udp_zoned_addr_def)
  have "ip_addr_set ip_any_type = ip_any_type" using v6 by (simp add: ip_addr_set_def) (simp add: ip_any_type_def ip_2_ip4_def)
  with z show "udp_bind sample_udp_env sample_udp1 (Some 0) (Some ip_any_type) 53 = Inr (ERR_OK, sample_udp)"
    by (simp add: udp_bind_def sample_udp_def sample_udp1_eq get_pcb_def upcb_def sample_udp0_def set_pcb_def)
qed

theorem udp_reachable_bindings_witness:
  "udp_reachable sample_udp_env True sample_udp \<and> udp_pcbs sample_udp = [0] \<and> distinct (udp_pcbs sample_udp)"
  using udp_reachable_bindings [OF sample_udp_reachable] sample_udp_reachable by (simp add: sample_udp_def)

text \<open>Port 53 is free for the first pcb, and then taken for a second one.\<close>

lemma sample_udp1_pcb: "pcb_at sample_udp1 0 = Some (upcb sample_udp1 0)" "next_pcb sample_udp1 = 1" "local_port (upcb sample_udp1 0) = 0"
  by (simp_all add: sample_udp1_eq upcb_def)

theorem udp_bind_result_witness:
  "\<exists>err s'. udp_bind sample_udp_env sample_udp1 (Some 0) (Some ip_any_type) 53 = Inr (err, s')
     \<and> err = ERR_OK \<and> udp_reachable sample_udp_env True s' \<and> local_port (upcb s' 0) = 53"
proof -
  have no: "pcb_at sample_udp1 j = Some d \<Longrightarrow> j = 0" for j d by (simp add: sample_udp1_eq split: if_splits)
  from udp_bind_result [OF sample_udp1_reachable sample_udp1_pcb(1) refl, of ip_any_type 53] show ?thesis
    by (auto simp: upcb_def split: if_splits dest: no)
qed

text \<open>Two pcbs with port 53, bound to 10.0.0.1 and 10.0.0.2; then the address of the interface changes from the one to the other.\<close>

definition sample_udp_addr :: "u32_t \<Rightarrow> ip_addr_t" where
  "sample_udp_addr a = \<lparr>u_addr = [a, 0, 0, 0], ip_zone = 0, ip_type = IPADDR_TYPE_V4\<rparr>"

definition sample_udp_two :: "udp_globals outcome" where
  "sample_udp_two =
     (let s = snd (udp_new_ip_type sample_udp1 IPADDR_TYPE_V4)
      in bnd (udp_bind sample_udp_env s (Some 0) (Some (sample_udp_addr 0x0100000a)) 53) (\<lambda>(_, s).
         bnd (udp_bind sample_udp_env s (Some 1) (Some (sample_udp_addr 0x0200000a)) 53) (\<lambda>(_, s). Inr s)))"

theorem udp_addr_change_conflict_witness:
  "\<exists>s s'. sample_udp_two = Inr s \<and> udp_reachable sample_udp_env True s
     \<and> s' = udp_netif_ip_addr_changed s (sample_udp_addr 0x0100000a) (sample_udp_addr 0x0200000a)
     \<and> (\<exists>i j c d. i \<noteq> j \<and> pcb_at s' i = Some c \<and> pcb_at s' j = Some d \<and> local_port c \<noteq> 0 \<and> local_port c = local_port d
      \<and> (ip_addr_cmp (local_ip c) (local_ip d) \<or> ip_addr_isany (local_ip c) \<or> ip_addr_isany (local_ip d)))"
proof -
  have new: "udp_reachable sample_udp_env True (snd (udp_new_ip_type sample_udp1 IPADDR_TYPE_V4))"
    by (rule udp_reachable.new [OF sample_udp1_reachable]) (rule prod.collapse [symmetric])
  have run: "bnd sample_udp_two (\<lambda>s. Inr (map (\<lambda>i. map_option (\<lambda>c. (local_ip c, local_port c)) (pcb_at s i)) [0, 1]))
      = Inr [Some (sample_udp_addr 0x0100000a, 53), Some (sample_udp_addr 0x0200000a, 53)]"
    by code_simp
  obtain s where s: "sample_udp_two = Inr s" using run by (auto simp only: bnd_eq_Inr_iff)
  then have r: "udp_reachable sample_udp_env True s"
    using new by (auto simp: sample_udp_two_def Let_def bnd_eq_Inr_iff intro: udp_reachable.bind)
  obtain c d where cd: "pcb_at s 0 = Some c" "local_ip c = sample_udp_addr 0x0100000a" "local_port c = 53"
    "pcb_at s 1 = Some d" "local_ip d = sample_udp_addr 0x0200000a" "local_port d = 53" using run unfolding s by auto
  have a: "\<not> ip_addr_isany (sample_udp_addr 0x0100000a)" "\<not> ip_addr_isany (sample_udp_addr 0x0200000a)" by code_simp+
  have m: "\<exists>i j c d. i \<noteq> j \<and> pcb_at s i = Some c \<and> pcb_at s j = Some d \<and> local_port c \<noteq> 0 \<and> local_port c = local_port d
      \<and> ip_addr_cmp (local_ip c) (sample_udp_addr 0x0100000a) \<and> ip_addr_cmp (local_ip d) (sample_udp_addr 0x0200000a)"
    using cd by (intro exI [of _ 0] exI [of _ 1] exI [of _ c] exI [of _ d]) simp
  note c = udp_addr_change_conflict [OF r refl, of "sample_udp_addr 0x0100000a" "sample_udp_addr 0x0200000a", THEN iffD2, OF conjI [OF a(1) conjI [OF a(2) m]]]
  show ?thesis by (rule exI [of _ s], rule exI, rule conjI [OF s conjI [OF r conjI [OF refl c]]])
qed

end
