(* ===== verification/Udp_Packets.thy ===== *)
theory Udp_Packets
  imports Udp_C
begin

text \<open>
  The way of a datagram through \<^verbatim>\<open>core/udp.c\<close>: what \<^verbatim>\<open>udp_input\<close> hands to the application, which packets it drops, and
  which bytes \<^verbatim>\<open>udp_sendto\<close> hands to IP.
\<close>

section \<open>Specification of a datagram\<close>

definition udp_header :: "u16_t \<Rightarrow> u16_t \<Rightarrow> u16_t \<Rightarrow> u16_t \<Rightarrow> bytes" where
  "udp_header src dest len chksum = be16 src @ be16 dest @ be16 len @ u16_bytes chksum"

definition pseudo_of :: "ip_addr_t \<Rightarrow> ip_addr_t \<Rightarrow> u8_t \<Rightarrow> u16_t \<Rightarrow> bytes" where
  "pseudo_of src dest proto len = (if IP_IS_V6 dest then pseudo_header6 (u_addr src @ u_addr dest) proto len
     else pseudo_header [ip_2_ip4 src, ip_2_ip4 dest] proto len)"

lemma length_be16 [simp]: "length (be16 w) = 2"
  by (simp add: be16_def)

lemma length_udp_header [simp]: "length (udp_header src dest len chksum) = 8"
  by (simp add: udp_header_def be16_def u16_bytes_def)

lemma even_pseudo [simp]: "even (length (pseudo_of src dest proto len))"
  using even_length_u32_bytes by (auto simp: pseudo_of_def pseudo_header_def pseudo_header6_def be16_def u32_bytes_def)

text \<open>\<^verbatim>\<open>ip_chksum_pseudo\<close>, for both versions of IP.\<close>

lemma ip_chksum_pseudo_of:
  assumes "heap_ok h" and "chain_ok h p qs" and "length (u_addr src) = 4" and "length (u_addr dest) = 4"
  shows "ip_chksum_pseudo od h p proto len src dest
    = Inr (internet_checksum (pseudo_of src dest proto len @ chain_data h qs))"
proof (cases "IP_IS_V6 dest")
  case True
  have l: "length (ip6_addr_words (u_addr src) (u_addr dest)) \<le> 8"
    by (simp add: ip6_addr_words_def length_concat o_def sum_list_triv)
  show ?thesis using True pseudo_base_sum [OF assms(1,2) l, of od proto len] lsum_ip6_addr_words [OF assms(3,4)]
    by (auto simp: ip_chksum_pseudo_def ip6_chksum_pseudo_def pseudo_of_def lsum_pseudo intro!: internet_checksum_eqI)
next
  case False
  show ?thesis using False pseudo_base_sum [OF assms(1,2), of "[ip_2_ip4 src, ip_2_ip4 dest]" od proto len]
    by (auto simp: ip_chksum_pseudo_def inet_chksum_pseudo_def pseudo_of_def lsum_pseudo intro!: internet_checksum_eqI)
qed

text \<open>A checksum field filled with the checksum, or with all ones in place of 0, makes the whole sum up to nothing.\<close>

lemma internet_checksum_verifies:
  assumes "even (length pre)" and "c = internet_checksum (pre @ 0 # 0 # post)"
  shows "internet_checksum (pre @ u16_bytes (if c = 0 then 0xffff else c) @ post) = 0"
proof -
  let ?n = "lsum pre + lsum post"
  have n: "lsum (pre @ 0 # 0 # post) = ?n" using assms(1) by (simp add: lsum_append)
  have c: "unat c = 65535 - ocnorm ?n" unfolding assms(2) unat_internet_checksum n ..
  have w: "lsum (pre @ u16_bytes w @ post) = ?n + unat w" for w
    using assms(1) by (simp add: lsum_append lsum_u16_bytes)
  have "ocnorm (?n + unat (if c = 0 then 0xffff else c)) = 65535"
  proof (cases "c = 0")
    case True
    then have "ocnorm ?n = 65535" using c ocnorm_le [of ?n] by simp
    then show ?thesis using True ocnorm_iff [of "?n + 65535" ?n] by (auto simp: ocnorm_def)
  next
    case False
    then show ?thesis using c ocnorm_complement [of ?n] by simp
  qed
  then have "unat (internet_checksum (pre @ u16_bytes (if c = 0 then 0xffff else c) @ post)) = 0"
    unfolding unat_internet_checksum w by simp
  then show ?thesis by (simp only: unat_eq_zero)
qed

section \<open>Receiving\<close>

lemma ntohs_be16: "lwip_ntohs (le16 (be16 w ! 0) (be16 w ! Suc 0)) = w"
  unfolding u16_bytes_htons [symmetric] by (simp add: u16_bytes_def)

text \<open>The ports in front of a packet.\<close>

lemma load_ports:
  assumes "chain_ok h (Some a) (a # qs)" and "pbufs h a = Some b" and "8 \<le> unat (p_len b)"
    and "chain_data h (a # qs) = be16 sport @ be16 dport @ ds"
  shows "load16 h (p_payload b) 0 = Inr (lwip_htons sport)" and "load16 h (p_payload b) 2 = Inr (lwip_htons dport)"
proof -
  have ok: "payload_ok h a" using assms(1) by (auto simp: chain_ok_Cons)
  have l: "length (seg h a) = unat (p_len b)" using length_seg [OF ok] assms(2) by simp
  have hd: "take 4 (seg h a) = be16 sport @ be16 dport"
  proof -
    have "take 4 (seg h a) = take 4 (chain_data h (a # qs))" using l assms(3) by simp
    also have "\<dots> = be16 sport @ be16 dport" unfolding assms(4) by (simp add: be16_def)
    finally show ?thesis .
  qed
  have r: "load16 h (p_payload b) off = Inr (le16 (seg h a ! off) (seg h a ! Suc off))" if "off + 2 \<le> 8" for off
    using mem_read_seg [OF ok, of off 2] that assms(2,3) l by (simp add: load16_def)
  have n: "seg h a ! i = (be16 sport @ be16 dport) ! i" if "i < 4" for i
    using that by (simp add: hd [symmetric])
  have "seg h a ! 0 = be16 sport ! 0" "seg h a ! Suc 0 = be16 sport ! Suc 0"
    "seg h a ! 2 = be16 dport ! 0" "seg h a ! Suc 2 = be16 dport ! Suc 0"
    using n [of 0] n [of 1] n [of 2] n [of 3] by (simp_all add: be16_def nth_append numeral_eq_Suc)
  then have e: "le16 (seg h a ! 0) (seg h a ! Suc 0) = lwip_htons sport" "le16 (seg h a ! 2) (seg h a ! Suc 2) = lwip_htons dport"
    using ntohs_be16 [of sport] ntohs_be16 [of dport] by (metis lwip_htons_htons)+
  show "load16 h (p_payload b) 0 = Inr (lwip_htons sport)" "load16 h (p_payload b) 2 = Inr (lwip_htons dport)"
    using r [of 0] r [of 2] e by simp_all
qed

lemma udp_input_first:
  assumes "chain_ok (uheap s) (Some a) (a # qs)" and "pbufs (uheap s) a = Some b" and "8 \<le> unat (p_len b)"
    and "chain_data (uheap s) (a # qs) = be16 sport @ be16 dport @ ds" and "udp_pcbs s = i # js"
  shows "udp_input e g s (Some a) (Some nif)
    = udp_deliver e g (s\<lparr>uheap := (uheap s)\<lparr>pbufs := (pbufs (uheap s))(a \<mapsto> remove_hdr 8 b)\<rparr>\<rparr>) (Some a)
        (ip_addr_isbroadcast (current_iphdr_dest g) (current_netif g)) sport dport (Some i)"
  using assms load_ports [OF assms(1-4)] pbuf_remove_header_correct [OF assms(2), of 8]
  by (simp add: udp_input_def udp_input_pcb_def Let_def)

lemma udp_input_delivered:
  assumes "chain_ok (uheap s) (Some a) (a # qs)" and "8 \<le> unat (p_len (pb (uheap s) a))"
    and "chain_data (uheap s) (a # qs) = be16 sport @ be16 dport @ ds"
    and "udp_pcbs s = i # js" and "pcb_at s i = Some c" and "recv c = Some f"
  shows "\<exists>h'. udp_input e g s (Some a) (Some nif)
      = recv_fn e f (recv_arg c) i (Some a) (current_iphdr_src g) sport (current_iphdr_dest g) dport (s\<lparr>uheap := h'\<rparr>)
    \<and> chain_ok h' (Some a) (a # qs) \<and> chain_data h' (a # qs) = drop 4 ds"
proof -
  obtain b where b: "pbufs (uheap s) a = Some b" "8 \<le> unat (p_len b)"
    using assms(1,2) by (auto simp: chain_ok_Cons)
  let ?h = "(uheap s)\<lparr>pbufs := (pbufs (uheap s))(a \<mapsto> remove_hdr 8 b)\<rparr>"
  note c = chain_remove_hdr [OF assms(1) b refl]
  have "drop 8 (chain_data (uheap s) (a # qs)) = drop 4 ds"
    unfolding assms(3) by (simp add: be16_def)
  moreover have "udp_input e g s (Some a) (Some nif)
      = recv_fn e f (recv_arg c) i (Some a) (current_iphdr_src g) sport (current_iphdr_dest g) dport (s\<lparr>uheap := ?h\<rparr>)"
    using udp_input_first [OF assms(1) b assms(3,4)] assms(5,6) by (simp add: udp_deliver_def get_pcb_def)
  ultimately show ?thesis using c by auto
qed

text \<open>
  A datagram of at least 8 bytes in its first pbuf is delivered, whatever its ports and addresses are, to the callback of the
  first pcb on the list: with the bytes behind the header, the two ports of the header and the two addresses of the IP
  header.
\<close>

theorem udp_input_delivers:
  assumes "chain_ok (uheap s) (Some a) (a # qs)" and "8 \<le> unat (p_len (pb (uheap s) a))"
    and "chain_data (uheap s) (a # qs) = be16 sport @ be16 dport @ ds"
    and "udp_pcbs s = i # js" and "pcb_at s i = Some c" and "recv c = Some f"
  shows "\<exists>h'. udp_input e g s (Some a) (Some nif)
      = recv_fn e f (recv_arg c) i (Some a) (current_iphdr_src g) sport (current_iphdr_dest g) dport (s\<lparr>uheap := h'\<rparr>)
    \<and> chain_ok h' (Some a) (a # qs) \<and> chain_data h' (a # qs) = drop 4 ds"
  using assms by (rule udp_input_delivered)

lemma u16_bytes_le16 [simp]: "u16_bytes (le16 x y) = [x, y]"
proof -
  have "ucast (le16 x y) = x" "ucast (drop_bit 8 (le16 x y)) = y"
    by (rule bit_word_eqI, auto simp: le16_def bit_simps dest: bit_imp_le_length)+
  then show ?thesis by (simp add: u16_bytes_def)
qed

lemma be16_cases:
  assumes "2 \<le> length bs"
  obtains w ds where "bs = be16 w @ ds"
proof -
  obtain x y ds where "bs = x # y # ds" using assms by (auto simp: numeral_2_eq_2 Suc_le_length_iff)
  then have "bs = be16 (lwip_htons (le16 x y)) @ ds" by (simp flip: u16_bytes_htons)
  then show thesis by (rule that)
qed

lemma ports_cases:
  assumes "4 \<le> length bs"
  obtains sport dport ds where "bs = be16 sport @ be16 dport @ ds"
proof -
  obtain sport es where e: "bs = be16 sport @ es" using assms be16_cases [of bs] by auto
  then have "2 \<le> length es" using assms by (simp add: be16_def)
  then obtain dport ds where "es = be16 dport @ ds" using be16_cases [of es] by auto
  with e show thesis using that by simp
qed

lemma udp_free_all:
  assumes "heap_ok (uheap s)" and "path (uheap s) (Some a) qs" and "\<forall>q\<in>set qs. freeable (uheap s) q \<and> once (uheap s) q"
  shows "udp_free s (Some a) = Inr (s\<lparr>uheap := drop_objs (set qs) (uheap s)\<rparr>)"
  using assms pbuf_free_all [OF assms(1,2)] by (simp add: udp_free_def)

lemma freeable_remove_hdr:
  assumes "pbufs h a = Some b" and "freeable h q" and "once h q"
  shows "freeable (h\<lparr>pbufs := (pbufs h)(a \<mapsto> remove_hdr n b)\<rparr>) q \<and> once (h\<lparr>pbufs := (pbufs h)(a \<mapsto> remove_hdr n b)\<rparr>) q"
  using assms by (cases "q = a") (auto simp: freeable_def once_def pb_def remove_hdr_def pbuf_get_allocsrc_def split: option.splits)

lemma drop_objs_upd: "a \<in> S \<Longrightarrow> drop_objs S (h\<lparr>pbufs := (pbufs h)(a \<mapsto> b)\<rparr>) = drop_objs S h"
  by (auto simp: drop_objs_def restrict_map_def fun_eq_iff)

text \<open>The datagram with its header removed is freed like the datagram itself.\<close>

lemma udp_free_stripped:
  assumes "heap_ok (uheap s)" and "chain_ok (uheap s) (Some a) (a # qs)" and "\<forall>q\<in>set (a # qs). freeable (uheap s) q \<and> once (uheap s) q"
    and "pbufs (uheap s) a = Some b" and "8 \<le> unat (p_len b)"
  shows "udp_free (s\<lparr>uheap := (uheap s)\<lparr>pbufs := (pbufs (uheap s))(a \<mapsto> remove_hdr 8 b)\<rparr>\<rparr>) (Some a)
    = Inr (s\<lparr>uheap := drop_objs (set (a # qs)) (uheap s)\<rparr>)"
proof -
  let ?s = "s\<lparr>uheap := (uheap s)\<lparr>pbufs := (pbufs (uheap s))(a \<mapsto> remove_hdr 8 b)\<rparr>\<rparr>"
  have "\<forall>q\<in>set (a # qs). freeable (uheap ?s) q \<and> once (uheap ?s) q"
    using assms(3) freeable_remove_hdr [OF assms(4)] by simp
  moreover have "path (uheap ?s) (Some a) (a # qs)"
    using chain_ok_path [OF chain_remove_hdr(1) [OF assms(2,4,5) refl]] by simp
  moreover have "heap_ok (uheap ?s)" using heap_ok_upd [OF assms(1,4)] by simp
  ultimately show ?thesis using udp_free_all [of ?s a "a # qs"] by (simp add: drop_objs_upd)
qed

text \<open>Is the destination an address of the interface?\<close>

definition dest_is_netif :: "ip_globals \<Rightarrow> netif \<Rightarrow> bool" where
  "dest_is_netif g nif \<longleftrightarrow> (if current_is_v6 g then 0 \<le> netif_get_ip6_addr_match nif (current_iphdr_dest g)
     else n_ip_addr nif = ip_2_ip4 (current_iphdr_dest g))"

text \<open>
  C36: A datagram that is neither delivered nor reported is not leaked. It is freed with all its pbufs, nothing is sent and nothing else of
  the state changes, if it is too short for a header, if its pcb has no callback, and if there is no pcb and it is not for an
  address of the interface or for a broadcast or multicast address. (The remaining datagrams have a callback, or are for the unicast
  address of an interface without a pcb: those are reported by ICMP.)
\<close>

theorem udp_input_drops:
  assumes "heap_ok (uheap s)" and "chain_ok (uheap s) (Some a) (a # qs)"
    and "\<forall>q\<in>set (a # qs). freeable (uheap s) q \<and> once (uheap s) q"
    and "unat (p_len (pb (uheap s) a)) < 8
      \<or> udp_pcbs s = [] \<and> (\<not> dest_is_netif g nif \<or> ip_addr_isbroadcast (current_iphdr_dest g) (current_netif g)
          \<or> ip_addr_ismulticast (current_iphdr_dest g))
      \<or> udp_pcbs s = i # js \<and> pcb_at s i = Some c \<and> recv c = None"
  shows "udp_input e g s (Some a) (Some nif) = Inr (s\<lparr>uheap := (uheap s)\<lparr>pbufs := pbufs (uheap s) |` (- set (a # qs)),
      mem := mem (uheap s) |` (- set (a # qs)), customs := customs (uheap s) |` (- set (a # qs))\<rparr>\<rparr>)"
proof -
  obtain b where b: "pbufs (uheap s) a = Some b" "payload_ok (uheap s) a" using assms(2) by (auto simp: chain_ok_Cons)
  note free = udp_free_all [OF assms(1) chain_ok_path [OF assms(2)] assms(3)]
  have "udp_input e g s (Some a) (Some nif) = Inr (s\<lparr>uheap := drop_objs (set (a # qs)) (uheap s)\<rparr>)"
  proof (cases "unat (p_len b) < 8")
    case True
    then show ?thesis using b free by (simp add: udp_input_def)
  next
    case False
    then have b8: "8 \<le> unat (p_len b)" by simp
    then have "4 \<le> length (chain_data (uheap s) (a # qs))" using b length_seg [OF b(2)] by simp
    then obtain sport dport ds where d: "chain_data (uheap s) (a # qs) = be16 sport @ be16 dport @ ds"
      by (rule ports_cases)
    note stripped = udp_free_stripped [OF assms(1-3) b(1) b8]
    show ?thesis
    proof (cases "udp_pcbs s = []")
      case True
      then show ?thesis using assms(4) False b free stripped load_ports [OF assms(2) b(1) b8 d] pbuf_remove_header_correct [OF b(1), of 8] b8
        by (auto simp: udp_input_def udp_input_pcb_def Let_def dest_is_netif_def udp_deliver_def)
    next
      case pcbs: False
      then have i: "udp_pcbs s = i # js" "pcb_at s i = Some c" "recv c = None" using assms(4) False b by auto
      then show ?thesis using stripped udp_input_first [OF assms(2) b(1) b8 d i(1)] by (simp add: udp_deliver_def get_pcb_def)
    qed
  qed
  then show ?thesis by (simp add: drop_objs_def)
qed

section \<open>Sending\<close>

text \<open>
  A packet as applications build it: the first pbuf either has its data behind the struct, where a header may fit in front
  of it, or only refers to data elsewhere, as the pbufs made by \<^verbatim>\<open>pbuf_alloc_reference\<close> do.
\<close>

definition sendable :: "heap \<Rightarrow> nat \<Rightarrow> nat list \<Rightarrow> bool" where
  "sendable h a qs \<longleftrightarrow> writable (Some a) (a # qs) h \<and> p_ref (pb h a) \<noteq> 255 \<and>
     (p_type_internal (pb h a) AND PBUF_TYPE_FLAG_STRUCT_DATA_CONTIGUOUS = 0
      \<or> (\<exists>room bs. contiguous_at h a (pb h a) room \<and> mem h a = Some bs \<and> room + unat (p_len (pb h a)) \<le> length bs
           \<and> (\<forall>q\<in>set qs. block h q \<noteq> Some a)))"

lemma separate_cong: "(\<And>q. q \<in> set qs \<Longrightarrow> block h' q = block h q) \<Longrightarrow> separate h' qs = separate h qs"
  by (simp add: separate_def cong: map_cong)

text \<open>Reference counts do not matter to the contents of a chain.\<close>

lemma chain_ref_upd:
  assumes "pbufs h x = Some b" and "h' = h\<lparr>pbufs := (pbufs h)(x \<mapsto> b\<lparr>p_ref := r\<rparr>)\<rparr>"
  shows "chain_ok h' p qs = chain_ok h p qs" and "chain_data h' qs = chain_data h qs" and "separate h' qs = separate h qs"
    and "pb h' y = (if y = x then b\<lparr>p_ref := r\<rparr> else pb h y)"
proof -
  show pb: "pb h' y = (if y = x then b\<lparr>p_ref := r\<rparr> else pb h y)" for y by (simp add: assms(2) pb_def)
  have m: "mem h' = mem h" by (simp add: assms(2))
  have c: "seg h' y = seg h y" "payload_ok h' y = payload_ok h y" "block h' y = block h y" for y
    by (rule seg_cong; use pb assms(1) m in simp)+
  show "chain_data h' qs = chain_data h qs" using c by (intro chain_data_cong)
  show "separate h' qs = separate h qs" using c by (intro separate_cong)
  have "path h' p qs = path h p qs" using assms by (intro path_cong) auto
  moreover have "tots h' qs = tots h qs"
  proof -
    have "p_len (pb h' y) = p_len (pb h y)" "p_tot_len (pb h' y) = p_tot_len (pb h y)" for y using pb assms(1) by auto
    then show ?thesis by (induction qs) auto
  qed
  ultimately show "chain_ok h' p qs = chain_ok h p qs" using c by (simp add: chain_ok_def)
qed

lemma add_header_new:
  assumes "sendable h a qs" and "8 + length (chain_data h (a # qs)) \<le> 65535"
    and "pbuf_add_header h (Some a) 8 = Inr (1, h)"
  shows "\<exists>r h1. udp_add_header h (Some a) = Inr (r, h1) \<and> (case r of
      None \<Rightarrow> oom h (nextid h) \<and> pbufs h1 = pbufs h \<and> mem h1 = mem h
    | Some q \<Rightarrow> \<exists>rs bs. writable (Some q) (q # rs) h1 \<and> length bs = 8 \<and> chain_data h1 (q # rs) = bs @ chain_data h (a # qs)
        \<and> 8 \<le> unat (p_len (pb h1 q)))"
proof -
  have w: "heap_ok h" "chain_ok h (Some a) (a # qs)" "separate h (a # qs)" "p_ref (pb h a) \<noteq> 255"
    using assms(1) by (auto simp: sendable_def writable_def)
  define q where "q = nextid h"
  define h1 where "h1 = with_pbuf h 62 (ram_pbuf q 54 8)"
  have al: "pbuf_alloc h PBUF_IP (of_nat UDP_HLEN) PBUF_RAM
      = Inr (if oom h q then (None, h\<lparr>nextid := Suc q\<rparr>) else (Some q, h1))"
    using pbuf_alloc_ram_eq [of h 54 8] by (simp add: h1_def q_def)
  show ?thesis
  proof (cases "oom h q")
    case True
    then show ?thesis using assms(3) al by (simp add: udp_add_header_def q_def)
  next
    case False
    have new: "chain_ok h1 (Some q) [q]" "length (chain_data h1 [q]) = 8"
      using ram_pbuf_ok [OF w(1), of 54 8] by (simp_all add: h1_def q_def)
    have hq: "pbufs h1 q = Some (ram_pbuf q 54 8)" "heap_ok h1" using w(1) by (simp_all add: h1_def q_def)
    note old = chain_with_pbuf [OF w(1,2), where n = 62 and b = "ram_pbuf q 54 8", folded h1_def]
    obtain b where b: "pbufs h a = Some b" using w(2) by (auto simp: chain_ok_Cons)
    have aq: "x \<noteq> q" if "x \<in> set (a # qs)" for x
      using path_alloced [OF chain_ok_path [OF w(2)] that] heap_ok_less [OF w(1)] by (fastforce simp: q_def)
    have b1: "pbufs h1 a = Some b" using b aq by (simp add: h1_def q_def)
    have tot: "unat (p_tot_len b) = length (chain_data h (a # qs))" using chain_ok_tot_len [OF w(2)] b by simp
    have bq: "block h1 q = Some q" using hq(1) by (simp add: block_def ram_pbuf_def)
    have bx: "block h1 x = block h x" "block h x \<noteq> Some q" if "x \<in> set (a # qs)" for x
    proof -
      have "payload_ok h x" using w(2) that unfolding chain_ok_def by blast
      then show "block h x \<noteq> Some q" using block_less [OF w(1)] by (fastforce simp: q_def)
      show "block h1 x = block h x" using aq [OF that] by (intro block_cong) (simp add: h1_def q_def)
    qed
    have sep: "separate h1 (q # a # qs)"
    proof -
      have "separate h1 (a # qs)" using w(3) bx(1) separate_cong [of "a # qs" h1 h] by blast
      moreover have "Some q \<notin> block h1 ` set (a # qs)" using bx by (metis image_iff)
      ultimately show ?thesis using bq by (subst separate_Cons) simp
    qed
    show ?thesis
    proof (cases "p_tot_len b = 0")
      case True
      then have "udp_add_header h (Some a) = Inr (Some q, h1)"
        using assms(3) al False b1 by (simp add: udp_add_header_def)
      moreover have "chain_data h (a # qs) = []" using tot True by (metis length_0_conv unat_0)
      moreover have "writable (Some q) [q] h1"
        using new hq(2) bq by (simp add: writable_def separate_def)
      moreover have "8 \<le> unat (p_len (pb h1 q))" using hq(1) by (simp add: ram_pbuf_def)
      ultimately show ?thesis using new(2) by (intro exI [of _ "Some q"] exI [of _ h1]) (auto intro!: exI [of _ "[]"])
    next
      case nonempty: False
      have disj: "set [q] \<inter> set (a # qs) = {}" using aq by auto
      have len: "length (chain_data h1 [q]) + length (chain_data h1 (a # qs)) \<le> 65535" using new old(2) assms(2) by simp
      let ?h2 = "cat_heap [q] a h1"
      note cat = chain_ok_cat_heap [OF hq(2) new(1) old(1) disj len]
      have pb2: "pbufs ?h2 x = (if x = q then Some ((ram_pbuf q 54 8)\<lparr>p_tot_len := 8 + p_tot_len (pb h1 a), p_next := Some a\<rparr>)
          else pbufs h1 x)" for x
        using pbufs_cat_heap [OF chain_ok_path [OF new(1)], of a x] hq(1) by (simp add: ram_pbuf_def)
      have ok2: "heap_ok ?h2" using hq(2) pb2 hq(1) unfolding heap_ok_def by auto
      have sep2: "separate ?h2 (q # a # qs)"
        using sep by (subst separate_cong [of _ _ h1]) (auto simp: block_def pb_def pb2 hq(1) ram_pbuf_def)
      have ba: "pbufs ?h2 a = Some b" using pb2 aq b1 by simp
      let ?h3 = "?h2\<lparr>pbufs := (pbufs ?h2)(a \<mapsto> b\<lparr>p_ref := p_ref b + 1\<rparr>)\<rparr>"
      note r = chain_ref_upd [OF ba, of ?h3 "p_ref b + 1", OF refl]
      have "pbuf_chain h1 (Some q) (Some a) = Inr ?h3"
        using pbuf_cat_eq [OF hq(2) new(1) b1] aq pbuf_ref_correct [OF ba] w(4) b by (simp add: pbuf_chain_def)
      then have "udp_add_header h (Some a) = Inr (Some q, ?h3)"
        using assms(3) al False b1 nonempty by (simp add: udp_add_header_def)
      moreover have "writable (Some q) (q # a # qs) ?h3"
        unfolding writable_def r(1,3) using cat(1) sep2 heap_ok_upd [OF ok2 ba] by simp
      moreover have "chain_data ?h3 (q # a # qs) = chain_data h1 [q] @ chain_data h (a # qs)"
        unfolding r(2) using cat(2) old(2) by simp
      moreover have "8 \<le> unat (p_len (pb ?h3 q))" using aq [of a] r(4) [of q] pb2 by (auto simp: ram_pbuf_def)
      ultimately show ?thesis using new(2)
        by (intro exI [of _ "Some q"] exI [of _ ?h3]) (auto intro!: exI [of _ "a # qs"] exI [of _ "chain_data h1 [q]"])
    qed
  qed
qed

lemma add_header_room:
  assumes "writable (Some a) (a # qs) h" and "contiguous_at h a b room" and "mem h a = Some bs" and "room + unat (p_len b) \<le> length bs"
    and "\<forall>q\<in>set qs. block h q \<noteq> Some a" and "8 \<le> room" and "8 + length (chain_data h (a # qs)) \<le> 65535"
  shows "\<exists>h1 bs. udp_add_header h (Some a) = Inr (Some a, h1) \<and> writable (Some a) (a # qs) h1 \<and> length bs = 8
    \<and> chain_data h1 (a # qs) = bs @ chain_data h (a # qs) \<and> 8 \<le> unat (p_len (pb h1 a))"
proof -
  let ?h = "h\<lparr>pbufs := (pbufs h)(a \<mapsto> add_hdr 8 b)\<rparr>"
  have w: "heap_ok h" "chain_ok h (Some a) (a # qs)" "separate h (a # qs)" using assms(1) by (simp_all add: writable_def)
  have b: "pbufs h a = Some b" "p_payload b = Some (a, int room)" using assms(2) by (auto simp: contiguous_at_def)
  note c = chain_add_hdr [OF w(2) assms(2-4,6,7) refl]
  have tot: "unat (p_tot_len b) = length (chain_data h (a # qs))" using chain_ok_tot_len [OF w(2)] b by simp
  have "udp_add_header h (Some a) = Inr (Some a, ?h)"
    using pbuf_add_header_contiguous [OF assms(2), of 8] assms(6,7) tot by (simp add: udp_add_header_def)
  moreover have "separate ?h (a # qs)"
  proof -
    have a: "a \<notin> set qs" using path_distinct [OF chain_ok_path [OF w(2)]] by simp
    then have q: "block ?h q = block h q" if "q \<in> set qs" for q using that by (intro block_cong) auto
    then have "separate ?h qs" using w(3) separate_cong [of qs ?h h] by (simp add: separate_Cons)
    moreover have "block ?h a \<in> {None, Some a}" using b(2) by (simp add: block_def add_hdr_def ptr_add_def)
    then have "block ?h a \<notin> block ?h ` set qs" if "block ?h a \<noteq> None"
      using that q assms(5) by (auto simp: image_iff)
    ultimately show ?thesis by (simp add: separate_Cons)
  qed
  moreover have "heap_ok ?h" by (rule heap_ok_upd [OF w(1) b(1)])
  moreover have "length (take 8 (drop (room - 8) bs)) = 8" using assms(4,6) by simp
  moreover have "8 \<le> unat (p_len (pb ?h a))" using c(3) by simp
  ultimately show ?thesis using c unfolding writable_def by blast
qed

text \<open>Room for the header, in either way.\<close>

lemma udp_add_header_ok:
  assumes "sendable h a qs" and "8 + length (chain_data h (a # qs)) \<le> 65535"
  shows "\<exists>r h1. udp_add_header h (Some a) = Inr (r, h1) \<and> (case r of
      None \<Rightarrow> oom h (nextid h) \<and> pbufs h1 = pbufs h \<and> mem h1 = mem h
    | Some q \<Rightarrow> \<exists>rs bs. writable (Some q) (q # rs) h1 \<and> length bs = 8 \<and> chain_data h1 (q # rs) = bs @ chain_data h (a # qs)
        \<and> 8 \<le> unat (p_len (pb h1 q)))"
proof -
  have w: "writable (Some a) (a # qs) h" using assms(1) by (simp add: sendable_def)
  then obtain b where b: "pbufs h a = Some b" by (auto simp: writable_def chain_ok_Cons)
  consider "p_type_internal b AND PBUF_TYPE_FLAG_STRUCT_DATA_CONTIGUOUS = 0"
    | room bs where "contiguous_at h a b room" "mem h a = Some bs" "room + unat (p_len b) \<le> length bs" "\<forall>q\<in>set qs. block h q \<noteq> Some a"
    using assms(1) b by (auto simp: sendable_def)
  then show ?thesis
  proof cases
    case 1
    then show ?thesis using pbuf_add_header_ref [OF b _, of 8] by (intro add_header_new [OF assms]) simp
  next
    case 2
    show ?thesis
    proof (cases "8 \<le> room")
      case True
      show ?thesis using add_header_room [OF w 2 True assms(2)] by fastforce
    next
      case False
      then show ?thesis using pbuf_add_header_contiguous [OF 2(1), of 8] by (intro add_header_new [OF assms]) simp
    qed
  qed
qed

text \<open>The checksum field: 0 when the pcb has checksums switched off, and else what makes the datagram verify.\<close>

definition chksum_spec :: "udp_pcb \<Rightarrow> ip_addr_t \<Rightarrow> ip_addr_t \<Rightarrow> u16_t \<Rightarrow> bytes \<Rightarrow> bytes \<Rightarrow> u16_t" where
  "chksum_spec c src dst len pre ds = (if IP_IS_V6 dst \<or> uflags c AND UDP_FLAGS_NOCHKSUM = 0
     then let k = internet_checksum (pseudo_of src dst IP_PROTO_UDP len @ pre @ 0 # 0 # ds) in if k = 0 then 0xffff else k
     else 0)"

lemma chksum_spec_verifies:
  assumes "ck = chksum_spec c src dst len (be16 sport @ be16 dport @ be16 len) ds"
  shows "if IP_IS_V6 dst \<or> uflags c AND 1 = 0
    then ck \<noteq> 0 \<and> internet_checksum (pseudo_of src dst 17 len @ udp_header sport dport len (ck) @ ds) = 0 else ck = 0"
proof -
  define pre where "pre = pseudo_of src dst 17 len @ be16 sport @ be16 dport @ be16 len"
  define k where "k = internet_checksum (pre @ 0 # 0 # ds)"
  have "even (length pre)" by (simp add: pre_def)
  then have "internet_checksum (pre @ u16_bytes (if k = 0 then 0xffff else k) @ ds) = 0"
    unfolding k_def by (rule internet_checksum_verifies [OF _ refl])
  moreover have "ck = (if k = 0 then 0xffff else k)" if "IP_IS_V6 dst \<or> uflags c AND 1 = 0"
    using that by (auto simp: assms chksum_spec_def k_def pre_def Let_def)
  moreover have "pre @ u16_bytes x @ ds = pseudo_of src dst 17 len @ udp_header sport dport len x @ ds" for x
    by (simp add: pre_def udp_header_def)
  moreover have "ck = 0" if "\<not> (IP_IS_V6 dst \<or> uflags c AND 1 = 0)"
    using that unfolding assms chksum_spec_def by (simp only: if_False)
  ultimately show ?thesis by auto
qed

lemma udp_fill_header_ok:
  assumes "writable (Some q) (q # rs) h" and "chain_data h (q # rs) = bs @ ds" and "length bs = 8"
    and "8 \<le> unat (p_len (pb h q))" and "length (u_addr src) = 4" and "length (u_addr dst) = 4"
  defines "len \<equiv> of_nat (8 + length ds) :: u16_t"
  shows "\<exists>h'. udp_fill_header e h (Some q) c (False, 0) src sport dst dport = Inr h' \<and> writable (Some q) (q # rs) h' \<and> pbufs h' = pbufs h
    \<and> chain_data h' (q # rs) = udp_header sport dport len
        (chksum_spec c src dst len (be16 sport @ be16 dport @ be16 len) ds) @ ds"
proof -
  obtain b where b: "pbufs h q = Some b" using assms(1) by (auto simp: writable_def chain_ok_Cons)
  have tot: "p_tot_len b = len"
  proof -
    have "unat (p_tot_len b) = 8 + length ds"
      using chain_ok_tot_len [of h q "q # rs", unfolded assms(2)] assms(1,3) b by (simp add: writable_def)
    then show ?thesis unfolding len_def by (metis word_of_nat_inverse_16)
  qed
  let ?P = "pbufs h"
  have room: "8 \<le> unat (p_len (the (?P q)))" "the (?P q) = b" using assms(4) b by simp_all
  have i: "hdr_inv ?P q rs h" using assms(1) by (simp add: hdr_inv_def)
  note field = pbuf_header.store_field [where P = ?P and a = q and qs = rs, unfolded room(2)]
  have bs: "bs = take 2 bs @ take 2 (drop 2 bs) @ take 2 (drop 4 bs) @ drop 6 bs"
    by (simp add: append_assoc [symmetric] take_add [symmetric] del: append_assoc)
  obtain h1 where h1: "store16 h (p_payload b) 0 (lwip_htons sport) = Inr h1" "hdr_inv ?P q rs h1"
    "chain_data h1 (q # rs) = be16 sport @ drop 2 (bs @ ds)"
    using field [OF i, of "[]" "bs @ ds" "lwip_htons sport"] assms(2,3) room by (auto simp: u16_bytes_htons)
  obtain h2 where h2: "store16 h1 (p_payload b) 2 (lwip_htons dport) = Inr h2" "hdr_inv ?P q rs h2"
    "chain_data h2 (q # rs) = (be16 sport @ be16 dport) @ drop 4 (bs @ ds)"
    using field [OF h1(2,3), of "lwip_htons dport"] assms(3) room by (auto simp: u16_bytes_htons)
  obtain h3 where h3: "store16 h2 (p_payload b) 6 0 = Inr h3" "hdr_inv ?P q rs h3"
    "chain_data h3 (q # rs) = be16 sport @ be16 dport @ take 2 (drop 4 bs) @ [0, 0] @ ds"
    using pbuf_header.store [OF h2(2), of 6 0] assms(3) room unfolding h2(3)
    by (auto simp: patch_def u16_bytes_def be16_def)
  obtain h4 where h4: "store16 h3 (p_payload b) 4 (lwip_htons len) = Inr h4" "hdr_inv ?P q rs h4"
    "chain_data h4 (q # rs) = (be16 sport @ be16 dport @ be16 len) @ 0 # 0 # ds"
    using pbuf_header.store [OF h3(2), of 4 "lwip_htons len"] assms(3) room unfolding h3(3)
    by (auto simp: patch_def u16_bytes_htons be16_def)
  define k where "k = (let k = internet_checksum (pseudo_of src dst IP_PROTO_UDP len @ be16 sport @ be16 dport @ be16 len @ 0 # 0 # ds)
    in if k = 0 then 0xffff else k)"
  have ck: "udp_chksum e h4 (Some q) len (False, 0) src dst = Inr k"
  proof -
    have "heap_ok h4" "chain_ok h4 (Some q) (q # rs)" using h4(2) by (simp_all add: hdr_inv_def writable_def)
    from ip_chksum_pseudo_of [OF this assms(5,6)] show ?thesis
      unfolding h4(3) by (simp add: udp_chksum_def k_def Let_def)
  qed
  obtain h5 where h5: "store16 h4 (p_payload b) 6 k = Inr h5" "hdr_inv ?P q rs h5"
    "chain_data h5 (q # rs) = be16 sport @ be16 dport @ be16 len @ u16_bytes k @ ds"
    using field [OF h4(2,3), of k] assms(3) room by auto
  have fill: "udp_fill_header e h (Some q) c (False, 0) src sport dst dport
      = (if IP_IS_V6 dst \<or> uflags c AND UDP_FLAGS_NOCHKSUM = 0 then Inr h5 else Inr h4)"
    using b room h1 h2 h3 h4 h5 ck tot by (simp add: udp_fill_header_def lwip_assert_def Let_def)
  show ?thesis
  proof (cases "IP_IS_V6 dst \<or> uflags c AND UDP_FLAGS_NOCHKSUM = 0")
    case True
    then show ?thesis using fill h5(2,3)
      by (auto simp: chksum_spec_def udp_header_def hdr_inv_def k_def)
  next
    case False
    then show ?thesis using fill h4(2,3)
      by (auto simp: chksum_spec_def udp_header_def hdr_inv_def u16_bytes_def)
  qed
qed

text \<open>A bound pcb needs no further port, and what it sends leaves through the interface it is bound to or the route.\<close>

definition udp_route :: "udp_env \<Rightarrow> udp_globals \<Rightarrow> udp_pcb \<Rightarrow> ip_addr_t \<Rightarrow> netif option" where
  "udp_route e s c dst = (if netif_idx c \<noteq> NETIF_NO_INDEX then netif_get_by_index (netif_list s) (netif_idx c)
     else ip_route e (local_ip c) dst)"

lemma udp_overflow: "(x :: u16_t) + 8 < x \<longleftrightarrow> 65535 < 8 + unat x"
  using wraps_16 [of "unat x" 8] unat_lt_16 [of x] by (simp add: less_Suc_eq_le del: unat_lt_16)

lemma udp_sendto_bound:
  assumes "pcb_at s i = Some c" and "local_port c \<noteq> 0"
    and "IP_ADDR_PCB_VERSION_MATCH c src" and "IP_ADDR_PCB_VERSION_MATCH c dst" and "udp_route e s c dst = Some n"
    and "pbufs (uheap s) a = Some b"
  shows "udp_sendto e s (Some i) (Some a) (Some dst) dport (Some src) sport
    = (if 65535 < 8 + unat (p_tot_len b) then Inr (ERR_MEM, s) else
       bnd (udp_add_header (uheap s) (Some a)) (\<lambda>(q, h).
          if q = None then Inr (ERR_MEM, s\<lparr>uheap := h\<rparr>) else
          bnd (udp_fill_header e h q c (False, 0) src sport dst dport) (\<lambda>h.
          bnd (ip_output_if_src e h q src dst (ttl c) (tos c) IP_PROTO_UDP n) (\<lambda>(err, h).
          bnd (if q \<noteq> Some a then bnd (pbuf_free h q) (\<lambda>(_, h). Inr h) else Inr h) (\<lambda>h.
          Inr (err, s\<lparr>uheap := h\<rparr>))))))"
  using assms
  by (simp add: udp_sendto_def udp_sendto_chksum_def udp_sendto_if_chksum_def udp_sendto_if_src_chksum_def get_pcb_def
      udp_route_def udp_overflow)

lemma udp_sendto_ok:
  assumes "sendable (uheap s) a qs" and "8 + length (chain_data (uheap s) (a # qs)) \<le> 65535"
    and "pcb_at s i = Some c" and "local_port c \<noteq> 0"
    and "IP_ADDR_PCB_VERSION_MATCH c src" and "IP_ADDR_PCB_VERSION_MATCH c dst" and "udp_route e s c dst = Some n"
    and "length (u_addr src) = 4" and "length (u_addr dst) = 4"
    and "d = chain_data (uheap s) (a # qs)" and "len = of_nat (8 + length d)"
    and "ck = chksum_spec c src dst len (be16 sport @ be16 dport @ be16 len) d"
  shows "(\<exists>h1. udp_sendto e s (Some i) (Some a) (Some dst) dport (Some src) sport = Inr (ERR_MEM, s\<lparr>uheap := h1\<rparr>)
       \<and> oom (uheap s) (nextid (uheap s)) \<and> pbufs h1 = pbufs (uheap s) \<and> mem h1 = mem (uheap s))
    \<or> (\<exists>q rs h'. udp_sendto e s (Some i) (Some a) (Some dst) dport (Some src) sport
         = bnd (ip_output_if_src e h' (Some q) src dst (ttl c) (tos c) 17 n) (\<lambda>(err, h).
           bnd (if q \<noteq> a then bnd (pbuf_free h (Some q)) (\<lambda>(_, h). Inr h) else Inr h) (\<lambda>h. Inr (err, s\<lparr>uheap := h\<rparr>)))
       \<and> chain_ok h' (Some q) (q # rs) \<and> 8 \<le> unat (p_len (pb h' q))
       \<and> chain_data h' (q # rs) = udp_header sport dport len ck @ d)"
proof -
  obtain b where b: "pbufs (uheap s) a = Some b" "unat (p_tot_len b) = length d"
    using assms(1,10) chain_ok_tot_len [of "uheap s" a "a # qs"] by (auto simp: sendable_def writable_def chain_ok_Cons)
  have l: "8 + length d \<le> 65535" using assms(2,10) by simp
  note send = udp_sendto_bound [OF assms(3-7) b(1), of dport sport]
  obtain r h1 where r: "udp_add_header (uheap s) (Some a) = Inr (r, h1)" "case r of
      None \<Rightarrow> oom (uheap s) (nextid (uheap s)) \<and> pbufs h1 = pbufs (uheap s) \<and> mem h1 = mem (uheap s)
    | Some q \<Rightarrow> \<exists>rs bs. writable (Some q) (q # rs) h1 \<and> length bs = 8 \<and> chain_data h1 (q # rs) = bs @ d
        \<and> 8 \<le> unat (p_len (pb h1 q))"
    using udp_add_header_ok [OF assms(1,2)] assms(10) by blast
  show ?thesis
  proof (cases r)
    case None
    then show ?thesis using send r b(2) l by (intro disjI1 exI [of _ h1]) simp
  next
    case (Some q)
    then obtain rs bs where q: "writable (Some q) (q # rs) h1" "chain_data h1 (q # rs) = bs @ d" "length bs = 8"
      "8 \<le> unat (p_len (pb h1 q))" using r(2) by auto
    obtain h' where h': "udp_fill_header e h1 (Some q) c (False, 0) src sport dst dport = Inr h'" "writable (Some q) (q # rs) h'"
      "chain_data h' (q # rs) = udp_header sport dport len ck @ d" "pbufs h' = pbufs h1"
      using udp_fill_header_ok [OF q assms(8,9), of e c sport dport] unfolding assms(11,12) by blast
    have l8: "8 \<le> unat (p_len (pb h' q))" using q(4) h'(4) by (simp add: pb_def)
    have "udp_sendto e s (Some i) (Some a) (Some dst) dport (Some src) sport
         = bnd (ip_output_if_src e h' (Some q) src dst (ttl c) (tos c) 17 n) (\<lambda>(err, h).
           bnd (if q \<noteq> a then bnd (pbuf_free h (Some q)) (\<lambda>(_, h). Inr h) else Inr h) (\<lambda>h. Inr (err, s\<lparr>uheap := h\<rparr>)))"
      using send r(1) Some h'(1) b(2) l by simp
    then show ?thesis using h'(2,3) l8 unfolding writable_def by blast
  qed
qed

text \<open>
  C10: \<^verbatim>\<open>udp_sendto\<close> on a bound pcb hands IP one datagram: the two ports, the length and the checksum in network byte order, then
  the unchanged bytes of the application's packet, with the protocol number, TTL and TOS of the pcb. The
  checksum makes the datagram with its pseudo header verify and is never the 0 that means \<open>no checksum\<close>, unless
  checksums are switched off for an IPv4 pcb. The header is put in front of the data when there is room, and into a pbuf of its
  own, freed after the output, when there is not; only then can the call fail, with \<^verbatim>\<open>ERR_MEM\<close> and nothing sent.
\<close>

theorem udp_sendto_datagram:
  assumes "sendable (uheap s) a qs" and "8 + length (chain_data (uheap s) (a # qs)) \<le> 65535"
    and "pcb_at s i = Some c" and "local_port c \<noteq> 0"
    and "IP_ADDR_PCB_VERSION_MATCH c src" and "IP_ADDR_PCB_VERSION_MATCH c dst" and "udp_route e s c dst = Some n"
    and "length (u_addr src) = 4" and "length (u_addr dst) = 4"
  shows "(\<exists>h1. udp_sendto e s (Some i) (Some a) (Some dst) dport (Some src) sport = Inr (ERR_MEM, s\<lparr>uheap := h1\<rparr>)
       \<and> oom (uheap s) (nextid (uheap s)) \<and> pbufs h1 = pbufs (uheap s) \<and> mem h1 = mem (uheap s))
    \<or> (\<exists>q rs h' ck. udp_sendto e s (Some i) (Some a) (Some dst) dport (Some src) sport
         = bnd (ip_output_if_src e h' (Some q) src dst (ttl c) (tos c) 17 n) (\<lambda>(err, h).
           bnd (if q \<noteq> a then bnd (pbuf_free h (Some q)) (\<lambda>(_, h). Inr h) else Inr h) (\<lambda>h. Inr (err, s\<lparr>uheap := h\<rparr>)))
       \<and> chain_ok h' (Some q) (q # rs) \<and> 8 \<le> unat (p_len (pb h' q))
       \<and> (let d = chain_data (uheap s) (a # qs); len = of_nat (8 + length d)
          in chain_data h' (q # rs) = udp_header sport dport len ck @ d
           \<and> (if IP_IS_V6 dst \<or> uflags c AND 1 = 0
              then ck \<noteq> 0 \<and> internet_checksum (pseudo_of src dst 17 len @ udp_header sport dport len ck @ d) = 0
              else ck = 0)))"
  unfolding Let_def
  using udp_sendto_ok [OF assms refl refl refl, of dport sport] chksum_spec_verifies [OF refl, of dst c src _ sport dport]
  by blast

text \<open>
  The datagrams that \<^verbatim>\<open>udp_sendto\<close> refuses: \<^verbatim>\<open>ERR_VAL\<close> for an address of the wrong version, \<^verbatim>\<open>ERR_RTE\<close> without an interface to
  send through, \<^verbatim>\<open>ERR_MEM\<close> when data and header exceed 65535 bytes. In each case the state, the heap included, is as before.
\<close>

theorem udp_sendto_refuses:
  assumes "pcb_at s i = Some c" and "local_port c \<noteq> 0" and "chain_ok (uheap s) (Some a) (a # qs)"
    and "\<not> IP_ADDR_PCB_VERSION_MATCH c dst \<or> udp_route e s c dst = None \<or> \<not> IP_ADDR_PCB_VERSION_MATCH c src
      \<or> 65535 < 8 + length (chain_data (uheap s) (a # qs))"
  shows "udp_sendto e s (Some i) (Some a) (Some dst) dport (Some src) sport
    = Inr (if \<not> IP_ADDR_PCB_VERSION_MATCH c dst then ERR_VAL else if udp_route e s c dst = None then ERR_RTE
           else if \<not> IP_ADDR_PCB_VERSION_MATCH c src then ERR_VAL else ERR_MEM, s)"
proof -
  obtain b where b: "pbufs (uheap s) a = Some b" using assms(3) by (auto simp: chain_ok_Cons)
  have t: "unat (p_tot_len b) = length (chain_data (uheap s) (a # qs))" using chain_ok_tot_len [OF assms(3)] b by simp
  show ?thesis
  proof (cases "IP_ADDR_PCB_VERSION_MATCH c dst")
    case False
    then show ?thesis using assms(1) by (simp add: udp_sendto_def udp_sendto_chksum_def get_pcb_def)
  next
    case dst: True
    show ?thesis
    proof (cases "udp_route e s c dst")
      case None
      then show ?thesis using dst assms(1) by (simp add: udp_sendto_def udp_sendto_chksum_def get_pcb_def udp_route_def)
    next
      case (Some n)
      show ?thesis
      proof (cases "IP_ADDR_PCB_VERSION_MATCH c src")
        case True
        then have "65535 < 8 + unat (p_tot_len b)" using assms(4) dst Some t by simp
        then show ?thesis using udp_sendto_bound [OF assms(1,2) True dst Some b] dst True Some by simp
      next
        case False
        have "(if netif_idx c \<noteq> NETIF_NO_INDEX then netif_get_by_index (netif_list s) (netif_idx c)
          else ip_route e (local_ip c) dst) = Some n" using Some by (simp only: udp_route_def)
        then show ?thesis using False dst Some assms(1)
          by (simp add: udp_sendto_def udp_sendto_chksum_def udp_sendto_if_chksum_def udp_sendto_if_src_chksum_def get_pcb_def)
      qed
    qed
  qed
qed

section \<open>Samples\<close>

definition sample_addr :: "u32_t \<Rightarrow> ip_addr_t" where
  "sample_addr w = \<lparr>u_addr = [w, 0, 0, 0], ip_zone = 0, ip_type = IPADDR_TYPE_V4\<rparr>"

definition sample_ip :: "u32_t \<Rightarrow> u32_t \<Rightarrow> ip_globals" where
  "sample_ip src dst = \<lparr>current_netif = sample_netif, current_is_v6 = False, current_ip_header_tot_len = 20,
     current_iphdr_src = sample_addr src, current_iphdr_dest = sample_addr dst\<rparr>"

lemma sample_addr_sel [simp]: "length (u_addr (sample_addr w)) = 4" "ip_2_ip4 (sample_addr w) = w" "\<not> IP_IS_V6 (sample_addr w)"
  by (simp_all add: sample_addr_def ip_2_ip4_def IP_IS_V6_def IPADDR_TYPE_V4_def IPADDR_TYPE_V6_def)

lemma sample_ip_sel [simp]: "current_iphdr_src (sample_ip src dst) = sample_addr src" "current_iphdr_dest (sample_ip src dst) = sample_addr dst"
  by (simp_all add: sample_ip_def)

lemma sample_udp_sel [simp]: "uheap sample_udp = sample" "udp_pcbs sample_udp = [0]" "netif_list sample_udp = [sample_netif]"
  by (simp_all add: sample_udp_def sample_udp1_eq sample_udp0_def)

lemma sample_udp_pcb [simp]: "pcb_at sample_udp 0 = Some \<lparr>local_ip = ip_any_type, remote_ip = ip_any_type,
    netif_idx = 0, so_options = 0, tos = 0, ttl = 64, uflags = 0, local_port = 53, remote_port = 0, recv = None, recv_arg = 0\<rparr>"
  by (simp add: sample_udp_def sample_udp1_eq upcb_def)

lemma sample_sendable [simp]: "sendable sample 0 [Suc 0]"
proof -
  have "\<exists>room bs. contiguous_at sample 0 (pb sample 0) room \<and> mem sample 0 = Some bs \<and> room + unat (p_len (pb sample 0)) \<le> length bs
      \<and> (\<forall>q\<in>set [Suc 0]. block sample q \<noteq> Some 0)"
    using sample_contiguous by (intro exI [of _ 4] exI [of _ "[0, 0, 0, 0, 10, 20, 30]"]) (simp add: block_def)
  moreover have "p_ref (pb sample 0) \<noteq> 255" by simp
  ultimately show ?thesis using sample_writable unfolding sendable_def One_nat_def by blast
qed

lemma sample_any_match [simp]: "local_ip c = ip_any_type \<Longrightarrow> IP_ADDR_PCB_VERSION_MATCH c a"
  by (simp add: IP_ADDR_PCB_VERSION_MATCH_def IP_IS_ANY_TYPE_VAL_def ip_any_type_def)

lemma sample_route [simp]: "netif_idx c = 0 \<Longrightarrow> udp_route sample_udp_env s c (sample_addr w) = Some sample_netif"
  by (simp add: udp_route_def ip_route_def sample_udp_env_def)

theorem udp_input_delivers_witness:
  "\<exists>h'. udp_input sample_udp_env (sample_ip 1 2)
      (set_pcb sample_udp 0 ((upcb sample_udp 0)\<lparr>recv := Some 7\<rparr>)) (Some 2) (Some sample_netif)
    = Inr (set_pcb sample_udp 0 ((upcb sample_udp 0)\<lparr>recv := Some 7\<rparr>)\<lparr>uheap := h'\<rparr>) \<and> chain_data h' [2] = []"
proof -
  let ?s = "set_pcb sample_udp 0 ((upcb sample_udp 0)\<lparr>recv := Some 7\<rparr>)"
  have "be16 0x0102 = [1, 2]" "be16 0x0304 = [3, 4]" by (simp_all add: be16_def)
  then have "chain_data (uheap ?s) [2] = be16 0x0102 @ be16 0x0304 @ [5, 6, 7, 8]" by simp
  with udp_input_delivers [of ?s 2 "[]" "0x0102" "0x0304" "[5, 6, 7, 8]" 0 "[]" "(upcb sample_udp 0)\<lparr>recv := Some 7\<rparr>" 7
      sample_udp_env "sample_ip 1 2" sample_netif]
  show ?thesis by (auto simp: sample_udp_env_def)
qed

theorem udp_input_drops_witness:
  "\<exists>h'. udp_input sample_udp_env (sample_ip 1 2) sample_udp (Some 2) (Some sample_netif) = Inr (sample_udp\<lparr>uheap := h'\<rparr>)
     \<and> pbufs h' 2 = None \<and> pbufs h' 1 = pbufs sample 1 \<and> net h' = net sample"
proof -
  have "udp_input sample_udp_env (sample_ip 1 2) sample_udp (Some 2) (Some sample_netif)
    = Inr (sample_udp\<lparr>uheap := (uheap sample_udp)\<lparr>pbufs := pbufs (uheap sample_udp) |` (- set [2]),
      mem := mem (uheap sample_udp) |` (- set [2]), customs := customs (uheap sample_udp) |` (- set [2])\<rparr>\<rparr>)"
    by (rule udp_input_drops [of _ _ _ _ _ 0 "[]" "upcb sample_udp 0"]) (simp_all add: upcb_def)
  then show ?thesis by (intro exI conjI, assumption) simp_all
qed

theorem udp_sendto_datagram_witness:
  "\<exists>q rs h' ck. udp_sendto sample_udp_env sample_udp (Some 0) (Some 0) (Some (sample_addr 2)) 99 (Some (sample_addr 1)) 53
      = bnd (if q \<noteq> 0 then bnd (pbuf_free h' (Some q)) (\<lambda>(_, h). Inr h) else Inr h') (\<lambda>h. Inr (ERR_OK, sample_udp\<lparr>uheap := h\<rparr>))
     \<and> chain_data h' (q # rs) = udp_header 53 99 13 ck @ [10, 20, 30, 40, 50] \<and> ck \<noteq> 0"
proof -
  have out: "ip_output_if_src sample_udp_env = (\<lambda>h _ _ _ _ _ _ _. Inr (ERR_OK, h))" by (simp add: sample_udp_env_def)
  show ?thesis
    using udp_sendto_datagram [OF _ _ sample_udp_pcb, of 0 "[Suc 0]" "sample_addr 1" "sample_addr 2" sample_udp_env sample_netif 99 53]
    by (simp add: out Let_def split del: if_split) blast
qed

theorem udp_sendto_refuses_witness:
  "udp_sendto (sample_udp_env\<lparr>ip4_route_src := \<lambda>_ _. None\<rparr>) sample_udp (Some 0) (Some 0) (Some (sample_addr 2)) 99 (Some (sample_addr 1)) 53
    = Inr (ERR_RTE, sample_udp)"
proof -
  have "udp_route (sample_udp_env\<lparr>ip4_route_src := \<lambda>_ _. None\<rparr>) sample_udp c (sample_addr 2) = None" if "netif_idx c = 0" for c
    using that by (simp add: udp_route_def ip_route_def)
  moreover have "chain_ok sample (Some 0) [0, Suc 0]" using sample_chain by simp
  ultimately show ?thesis
    using udp_sendto_refuses [OF sample_udp_pcb, of 0 "[Suc 0]" "sample_addr 2" "sample_udp_env\<lparr>ip4_route_src := \<lambda>_ _. None\<rparr>" "sample_addr 1" 99 53]
    by simp
qed

end
