(* ===== verification/Ip4_Frag.thy ===== *)
theory Ip4_Frag
  imports Udp_C
begin

text \<open>
  \<^verbatim>\<open>core/ipv4/ip4_frag.c\<close>: reassembly of incoming fragments and fragmentation of outgoing datagrams. Structs
  \<^verbatim>\<open>ip_reassdata\<close> are named by numbers. While a fragment is queued its IP header is overwritten by a
  \<^verbatim>\<open>struct ip_reass_helper\<close>; the field \<open>helper\<close> of the state is this typed view of the first bytes of the payload, by
  the name of the pbuf, and it ends where the header is written back.
\<close>

section \<open>The IPv4 header\<close>

text \<open>A \<^verbatim>\<open>struct ip_hdr\<close> is the list of its 20 bytes.\<close>

abbreviation (input) IP_HLEN :: nat where "IP_HLEN \<equiv> 20"
abbreviation (input) IP_MF :: u16_t where "IP_MF \<equiv> 0x2000"
abbreviation (input) IP_OFFMASK :: u16_t where "IP_OFFMASK \<equiv> 0x1fff"

definition IPH_HL_BYTES :: "bytes \<Rightarrow> u8_t" where
  "IPH_HL_BYTES hdr = (hdr ! 0 AND 0x0f) * 4"

definition IPH_LEN :: "bytes \<Rightarrow> u16_t" where
  "IPH_LEN hdr = le16 (hdr ! 2) (hdr ! 3)"

definition IPH_ID :: "bytes \<Rightarrow> u16_t" where
  "IPH_ID hdr = le16 (hdr ! 4) (hdr ! 5)"

definition IPH_OFFSET :: "bytes \<Rightarrow> u16_t" where
  "IPH_OFFSET hdr = le16 (hdr ! 6) (hdr ! 7)"

definition IPH_OFFSET_BYTES :: "bytes \<Rightarrow> u16_t" where
  "IPH_OFFSET_BYTES hdr = (lwip_ntohs (IPH_OFFSET hdr) AND IP_OFFMASK) * 8"

definition IP_ADDRESSES_AND_ID_MATCH :: "bytes \<Rightarrow> bytes \<Rightarrow> bool" where
  "IP_ADDRESSES_AND_ID_MATCH a b \<longleftrightarrow> take 4 (drop 12 a) = take 4 (drop 12 b)
     \<and> take 4 (drop 16 a) = take 4 (drop 16 b) \<and> IPH_ID a = IPH_ID b"

definition read_iphdr :: "heap \<Rightarrow> pptr \<Rightarrow> bytes outcome" where
  "read_iphdr h p = bnd (pget h p) (\<lambda>b. mem_read h (p_payload b) 0 IP_HLEN)"

definition write_iphdr :: "heap \<Rightarrow> pptr \<Rightarrow> bytes \<Rightarrow> heap outcome" where
  "write_iphdr h p hdr = bnd (pget h p) (\<lambda>b. mem_write h (p_payload b) 0 hdr)"

section \<open>Reassembly state\<close>

record ip_reass_helper =
  next_pbuf :: pptr
  frag_start :: u16_t
  frag_end :: u16_t

record ip_reassdata =
  ipr_p :: pptr
  iphdr :: bytes
  datagram_len :: u16_t
  ipr_flags :: u8_t
  ipr_timer :: u8_t

record reass =
  rheap :: heap
  helper :: "nat \<Rightarrow> ip_reass_helper option"
  ipr_at :: "nat \<Rightarrow> ip_reassdata option"
  reassdatagrams :: "nat list"
  ip_reass_pbufcount :: u16_t
  next_ipr :: nat
  ipr_oom :: "nat \<Rightarrow> bool"

text \<open>\<^verbatim>\<open>icmp_time_exceeded\<close> and which addresses are odd.\<close>

record reass_env =
  time_exceeded :: "heap \<Rightarrow> pptr \<Rightarrow> heap outcome"
  hdr_odd :: "ptr \<Rightarrow> bool"

abbreviation (input) IP_REASS_MAXAGE :: u8_t where "IP_REASS_MAXAGE \<equiv> 15"
abbreviation (input) IP_REASS_MAX_PBUFS :: nat where "IP_REASS_MAX_PBUFS \<equiv> 10"
abbreviation (input) IP_REASS_FLAG_LASTFRAG :: u8_t where "IP_REASS_FLAG_LASTFRAG \<equiv> 0x01"

datatype reass_valid = TELEGRAM_FINISHED | PBUF_QUEUED | PBUF_DROPPED

definition get_ipr :: "reass \<Rightarrow> nat \<Rightarrow> ip_reassdata outcome" where
  "get_ipr s i = (case ipr_at s i of None \<Rightarrow> Inl Fault | Some r \<Rightarrow> Inr r)"

definition set_ipr :: "reass \<Rightarrow> nat \<Rightarrow> ip_reassdata \<Rightarrow> reass" where
  "set_ipr s i r = s\<lparr>ipr_at := (ipr_at s)(i \<mapsto> r)\<rparr>"

text \<open>The helper of \<open>*p\<close>; a helper of a freed pbuf cannot be reached.\<close>

definition get_helper :: "reass \<Rightarrow> pptr \<Rightarrow> ip_reass_helper outcome" where
  "get_helper s p = bnd (pget (rheap s) p) (\<lambda>_. case p of None \<Rightarrow> Inl Fault
     | Some a \<Rightarrow> (case helper s a of None \<Rightarrow> Inl Fault | Some i \<Rightarrow> Inr i))"

definition set_helper :: "reass \<Rightarrow> nat \<Rightarrow> ip_reass_helper \<Rightarrow> reass" where
  "set_helper s a i = s\<lparr>helper := (helper s)(a \<mapsto> i)\<rparr>"

definition reass_free :: "reass \<Rightarrow> pptr \<Rightarrow> reass outcome" where
  "reass_free s p = bnd (pbuf_free (rheap s) p) (\<lambda>(_, h). Inr (s\<lparr>rheap := h\<rparr>))"

section \<open>The list of datagrams\<close>

definition list_next :: "nat list \<Rightarrow> nat \<Rightarrow> nat option" where
  "list_next xs a = (case dropWhile (\<lambda>x. x \<noteq> a) xs of _ # y # _ \<Rightarrow> Some y | _ \<Rightarrow> None)"

text \<open>\<^verbatim>\<open>prev->next = ipr->next\<close>.\<close>

definition list_unlink :: "nat list \<Rightarrow> nat \<Rightarrow> nat \<Rightarrow> nat list" where
  "list_unlink xs ipr prev = takeWhile (\<lambda>x. x \<noteq> prev) xs @ prev # tl (dropWhile (\<lambda>x. x \<noteq> ipr) xs)"

definition ip_reass_dequeue_datagram :: "reass \<Rightarrow> nat \<Rightarrow> nat option \<Rightarrow> reass outcome" where
  "ip_reass_dequeue_datagram s ipr prev =
     bnd (if reassdatagrams s \<noteq> [] \<and> hd (reassdatagrams s) = ipr then Inr (tl (reassdatagrams s))
          else case prev of None \<Rightarrow> Inl Abort | Some q \<Rightarrow> Inr (list_unlink (reassdatagrams s) ipr q)) (\<lambda>xs.
     Inr (s\<lparr>reassdatagrams := xs, ipr_at := (ipr_at s)(ipr := None)\<rparr>))"

fun reass_free_loop :: "nat \<Rightarrow> reass \<Rightarrow> pptr \<Rightarrow> u16_t \<Rightarrow> (u16_t \<times> reass) outcome" where
  "reass_free_loop n s None pbufs_freed = Inr (pbufs_freed, s)"
| "reass_free_loop 0 s (Some a) pbufs_freed = Inl Diverge"
| "reass_free_loop (Suc n) s (Some a) pbufs_freed =
     bnd (get_helper s (Some a)) (\<lambda>iprh.
     bnd (pbuf_clen (rheap s) (Some a)) (\<lambda>clen.
     lwip_assert (unat pbufs_freed + unat clen \<le> 0xffff) (
     bnd (reass_free s (Some a)) (\<lambda>s.
     reass_free_loop n s (next_pbuf iprh) (pbufs_freed + clen)))))"

text \<open>
  The first part of \<^verbatim>\<open>ip_reass_free_complete_datagram\<close>: a fragment with the offset 0 gets its header back, goes into an ICMP
  message and is freed; \<open>nxt\<close> is the fragment behind it.
\<close>

definition reass_free_first :: "reass_env \<Rightarrow> reass \<Rightarrow> nat \<Rightarrow> ip_reassdata \<Rightarrow> pptr \<Rightarrow> (u16_t \<times> reass) outcome" where
  "reass_free_first e s ipr r nxt =
     (let p = ipr_p r; s = set_ipr s ipr (r\<lparr>ipr_p := nxt\<rparr>) in
      bnd (write_iphdr (rheap s) p (iphdr r)) (\<lambda>h.
      let s = s\<lparr>rheap := h, helper := (helper s)(the p := None)\<rparr> in
      bnd (time_exceeded e (rheap s) p) (\<lambda>h.
      let s = s\<lparr>rheap := h\<rparr> in
      bnd (pbuf_clen (rheap s) p) (\<lambda>clen.
      lwip_assert (unat clen \<le> 0xffff) (
      bnd (reass_free s p) (\<lambda>s. Inr (clen, s)))))))"

definition ip_reass_free_complete_datagram ::
  "reass_env \<Rightarrow> reass \<Rightarrow> nat \<Rightarrow> nat option \<Rightarrow> (u16_t \<times> reass) outcome" where
  "ip_reass_free_complete_datagram e s ipr prev =
     lwip_assert (prev \<noteq> Some ipr) (
     lwip_assert (case prev of None \<Rightarrow> True | Some q \<Rightarrow> list_next (reassdatagrams s) q = Some ipr) (
     bnd (get_ipr s ipr) (\<lambda>r.
     bnd (get_helper s (ipr_p r)) (\<lambda>iprh.
     bnd (if frag_start iprh = 0 then reass_free_first e s ipr r (next_pbuf iprh) else Inr (0, s)) (\<lambda>(pbufs_freed, s).
     bnd (get_ipr s ipr) (\<lambda>r.
     bnd (reass_free_loop (fuel (rheap s)) s (ipr_p r) pbufs_freed) (\<lambda>(pbufs_freed, s).
     bnd (ip_reass_dequeue_datagram s ipr prev) (\<lambda>s.
     lwip_assert (ip_reass_pbufcount s \<ge> pbufs_freed) (
     Inr (pbufs_freed, s\<lparr>ip_reass_pbufcount := ip_reass_pbufcount s - pbufs_freed\<rparr>))))))))))"

text \<open>The loop of \<^verbatim>\<open>ip_reass_tmr\<close>; the link to the next datagram is read before a datagram is freed.\<close>

fun reass_tmr_loop :: "reass_env \<Rightarrow> reass \<Rightarrow> nat option \<Rightarrow> nat list \<Rightarrow> reass outcome" where
  "reass_tmr_loop e s prev [] = Inr s"
| "reass_tmr_loop e s prev (i # is) =
     bnd (get_ipr s i) (\<lambda>r.
     if ipr_timer r > 0 then reass_tmr_loop e (set_ipr s i (r\<lparr>ipr_timer := ipr_timer r - 1\<rparr>)) (Some i) is
     else bnd (ip_reass_free_complete_datagram e s i prev) (\<lambda>(_, s). reass_tmr_loop e s prev is))"

definition ip_reass_tmr :: "reass_env \<Rightarrow> reass \<Rightarrow> reass outcome" where
  "ip_reass_tmr e s = reass_tmr_loop e s None (reassdatagrams s)"

text \<open>The oldest datagram other than that of the fragment, its predecessor and the number of other datagrams.\<close>

fun oldest_scan :: "reass \<Rightarrow> bytes \<Rightarrow> nat option \<Rightarrow> nat list \<Rightarrow> nat option \<times> nat option \<times> nat
    \<Rightarrow> (nat option \<times> nat option \<times> nat) outcome" where
  "oldest_scan s fraghdr prev [] acc = Inr acc"
| "oldest_scan s fraghdr prev (i # is) (oldest, oldest_prev, other) =
     bnd (get_ipr s i) (\<lambda>r.
     bnd (if \<not> IP_ADDRESSES_AND_ID_MATCH (iphdr r) fraghdr then
            (case oldest of None \<Rightarrow> Inr (Some i, prev, other + 1)
             | Some q \<Rightarrow> bnd (get_ipr s q) (\<lambda>rq.
                 Inr (if ipr_timer r \<le> ipr_timer rq then (Some i, prev, other + 1) else (oldest, oldest_prev, other + 1))))
          else Inr (oldest, oldest_prev, other))
       (\<lambda>acc. oldest_scan s fraghdr (Some i) is acc))"

fun remove_oldest_loop :: "nat \<Rightarrow> reass_env \<Rightarrow> reass \<Rightarrow> bytes \<Rightarrow> nat \<Rightarrow> nat \<Rightarrow> (nat \<times> reass) outcome" where
  "remove_oldest_loop 0 e s fraghdr pbufs_needed pbufs_freed = Inl Diverge"
| "remove_oldest_loop (Suc n) e s fraghdr pbufs_needed pbufs_freed =
     bnd (oldest_scan s fraghdr None (reassdatagrams s) (None, None, 0)) (\<lambda>(oldest, oldest_prev, other_datagrams).
     bnd (case oldest of None \<Rightarrow> Inr (pbufs_freed, s)
          | Some i \<Rightarrow> bnd (ip_reass_free_complete_datagram e s i oldest_prev) (\<lambda>(c, s). Inr (pbufs_freed + unat c, s)))
       (\<lambda>(pbufs_freed, s).
     if pbufs_freed < pbufs_needed \<and> other_datagrams > 1 then remove_oldest_loop n e s fraghdr pbufs_needed pbufs_freed
     else Inr (pbufs_freed, s)))"

definition ip_reass_remove_oldest_datagram :: "reass_env \<Rightarrow> reass \<Rightarrow> bytes \<Rightarrow> nat \<Rightarrow> (nat \<times> reass) outcome" where
  "ip_reass_remove_oldest_datagram e s fraghdr pbufs_needed =
     remove_oldest_loop (Suc (length (reassdatagrams s))) e s fraghdr pbufs_needed 0"

text \<open>\<^verbatim>\<open>memp_malloc(MEMP_REASSDATA)\<close>.\<close>

definition reassdata_malloc :: "reass \<Rightarrow> nat option \<times> reass" where
  "reassdata_malloc s = (let i = next_ipr s; s = s\<lparr>next_ipr := Suc i\<rparr> in if ipr_oom s i then (None, s) else (Some i, s))"

definition ip_reass_enqueue_new_datagram :: "reass_env \<Rightarrow> reass \<Rightarrow> bytes \<Rightarrow> nat \<Rightarrow> (nat option \<times> reass) outcome" where
  "ip_reass_enqueue_new_datagram e s fraghdr clen =
     (let (ipr, s) = reassdata_malloc s in
      bnd (if ipr = None then
             bnd (ip_reass_remove_oldest_datagram e s fraghdr clen) (\<lambda>(freed, s).
             Inr (if freed \<ge> clen then reassdata_malloc s else (None, s)))
           else Inr (ipr, s)) (\<lambda>(ipr, s).
      case ipr of None \<Rightarrow> Inr (None, s)
      | Some i \<Rightarrow> Inr (Some i, (set_ipr s i \<lparr>ipr_p = None, iphdr = fraghdr, datagram_len = 0, ipr_flags = 0, ipr_timer = IP_REASS_MAXAGE\<rparr>)
                        \<lparr>reassdatagrams := i # reassdatagrams s\<rparr>)))"

section \<open>Queueing a fragment\<close>

text \<open>
  The search for the place of the new fragment \<open>a\<close> with the helper \<open>iprh\<close>, from the fragment \<open>q\<close> with predecessor \<open>prev\<close>. The
  result is the new state, where the search stopped, the predecessor there and \<^verbatim>\<open>valid\<close>, or \<open>None\<close> for a fragment to drop.
\<close>

fun chain_frag_loop :: "nat \<Rightarrow> reass \<Rightarrow> nat \<Rightarrow> nat \<Rightarrow> ip_reass_helper \<Rightarrow> pptr \<Rightarrow> nat option \<Rightarrow> bool
    \<Rightarrow> (reass \<times> pptr \<times> nat option \<times> bool) option outcome" where
  "chain_frag_loop n s ipr a iprh None prev valid = Inr (Some (s, None, prev, valid))"
| "chain_frag_loop 0 s ipr a iprh (Some q) prev valid = Inl Diverge"
| "chain_frag_loop (Suc n) s ipr a iprh (Some q) prev valid =
     bnd (get_helper s (Some q)) (\<lambda>tmp.
     if frag_start iprh < frag_start tmp then
       (let iprh = iprh\<lparr>next_pbuf := Some q\<rparr>; s = set_helper s a iprh in
        case prev of
          Some b \<Rightarrow> bnd (get_helper s prev) (\<lambda>prv.
            if frag_start iprh < frag_end prv \<or> frag_end iprh > frag_start tmp then Inr None
            else Inr (Some (set_helper s b (prv\<lparr>next_pbuf := Some a\<rparr>), Some q, prev,
                            valid \<and> frag_end prv = frag_start iprh)))
        | None \<Rightarrow>
            if frag_end iprh > frag_start tmp then Inr None
            else bnd (get_ipr s ipr) (\<lambda>r. Inr (Some (set_ipr s ipr (r\<lparr>ipr_p := Some a\<rparr>), Some q, prev, valid))))
     else if frag_start iprh = frag_start tmp then Inr None
     else if frag_start iprh < frag_end tmp then Inr None
     else
       bnd (case prev of None \<Rightarrow> Inr valid
            | Some b \<Rightarrow> bnd (get_helper s prev) (\<lambda>prv. Inr (valid \<and> frag_end prv = frag_start tmp))) (\<lambda>valid.
       chain_frag_loop n s ipr a iprh (next_pbuf tmp) (Some q) valid))"

text \<open>The search for holes behind the new fragment; the second component is the last fragment that was looked at.\<close>

fun chain_holes :: "nat \<Rightarrow> reass \<Rightarrow> nat \<Rightarrow> pptr \<Rightarrow> (bool \<times> nat) outcome" where
  "chain_holes n s prev None = Inr (True, prev)"
| "chain_holes 0 s prev (Some q) = Inl Diverge"
| "chain_holes (Suc n) s prev (Some q) =
     bnd (get_helper s (Some prev)) (\<lambda>prv.
     bnd (get_helper s (Some q)) (\<lambda>iprh.
     if frag_end prv \<noteq> frag_start iprh then Inr (False, q) else chain_holes n s q (next_pbuf iprh)))"

text \<open>The part behind the search: a fragment that comes last is linked to its predecessor \<open>prev\<close>, or is the first of its datagram.\<close>

definition chain_append :: "reass \<Rightarrow> nat \<Rightarrow> nat \<Rightarrow> u16_t \<Rightarrow> nat option \<Rightarrow> bool \<Rightarrow> (bool \<times> reass) outcome" where
  "chain_append s ipr new_p start prev valid =
     (case prev of
        Some b \<Rightarrow> bnd (get_helper s prev) (\<lambda>prv. lwip_assert (frag_end prv \<le> start)
          (Inr (valid \<and> frag_end prv = start, set_helper s b (prv\<lparr>next_pbuf := Some new_p\<rparr>))))
      | None \<Rightarrow> bnd (get_ipr s ipr) (\<lambda>r. lwip_assert (ipr_p r = None)
          (Inr (valid, set_ipr s ipr (r\<lparr>ipr_p := Some new_p\<rparr>)))))"

text \<open>Once the last fragment is known: whether the datagram is complete.\<close>

definition chain_validate :: "reass \<Rightarrow> ip_reassdata \<Rightarrow> nat \<Rightarrow> bool \<Rightarrow> bool outcome" where
  "chain_validate s r new_p valid =
     (if valid then
        (case ipr_p r of None \<Rightarrow> Inr False
         | Some f \<Rightarrow> bnd (get_helper s (Some f)) (\<lambda>first.
             if frag_start first \<noteq> 0 then Inr False
             else bnd (get_helper s (Some new_p)) (\<lambda>iprh.
               bnd (chain_holes (fuel (rheap s)) s new_p (next_pbuf iprh)) (\<lambda>(valid, lst).
               if valid then lwip_assert (f \<noteq> lst) (
                 bnd (get_helper s (Some lst)) (\<lambda>l. lwip_assert (next_pbuf l = None) (Inr True)))
               else Inr False))))
      else Inr False)"

definition ip_reass_chain_frag_into_datagram_and_validate ::
  "reass \<Rightarrow> nat \<Rightarrow> nat \<Rightarrow> bool \<Rightarrow> (reass_valid \<times> reass) outcome" where
  "ip_reass_chain_frag_into_datagram_and_validate s ipr new_p is_last =
     bnd (read_iphdr (rheap s) (Some new_p)) (\<lambda>fraghdr.
     let len = lwip_ntohs (IPH_LEN fraghdr); hlen = IPH_HL_BYTES fraghdr in
     if unat hlen > unat len then Inr (PBUF_DROPPED, s)
     else
       let len = len - ucast hlen; offset = IPH_OFFSET_BYTES fraghdr;
           iprh = \<lparr>next_pbuf = None, frag_start = offset, frag_end = offset + len\<rparr>;
           s = set_helper s new_p iprh
       in if frag_end iprh < offset then Inr (PBUF_DROPPED, s)
       else
         bnd (get_ipr s ipr) (\<lambda>r.
         bnd (chain_frag_loop (fuel (rheap s)) s ipr new_p iprh (ipr_p r) None True) (\<lambda>res.
         case res of None \<Rightarrow> Inr (PBUF_DROPPED, s)
         | Some (s, q, prev, valid) \<Rightarrow>
             bnd (if q \<noteq> None then Inr (valid, s) else chain_append s ipr new_p (frag_start iprh) prev valid) (\<lambda>(valid, s).
             bnd (get_ipr s ipr) (\<lambda>r.
             if is_last \<or> ipr_flags r AND IP_REASS_FLAG_LASTFRAG \<noteq> 0 then
               bnd (chain_validate s r new_p valid) (\<lambda>valid. Inr (if valid then TELEGRAM_FINISHED else PBUF_QUEUED, s))
             else Inr (PBUF_QUEUED, s))))))"

section \<open>Reassembly\<close>

text \<open>The header of the reassembled datagram: the saved header with the new length, no fragment offset and a new checksum.\<close>

definition reass_iphdr :: "bool \<Rightarrow> bytes \<Rightarrow> u16_t \<Rightarrow> bytes" where
  "reass_iphdr od hdr len =
     (let hdr = patch hdr 2 (u16_bytes (lwip_htons len)); hdr = patch hdr 6 [0, 0]; hdr = patch hdr 10 [0, 0]
      in patch hdr 10 (u16_bytes (inet_chksum od hdr)))"

text \<open>Chaining the fragments behind the first.\<close>

fun reass_cat_loop :: "nat \<Rightarrow> reass \<Rightarrow> pptr \<Rightarrow> pptr \<Rightarrow> reass outcome" where
  "reass_cat_loop n s p None = Inr s"
| "reass_cat_loop 0 s p (Some r) = Inl Diverge"
| "reass_cat_loop (Suc n) s p (Some r) =
     bnd (get_helper s (Some r)) (\<lambda>iprh.
     bnd (pbuf_remove_header (rheap s) (Some r) IP_HLEN) (\<lambda>(_, h).
     bnd (pbuf_cat h p (Some r)) (\<lambda>h.
     reass_cat_loop n (s\<lparr>rheap := h, helper := (helper s)(r := None)\<rparr>) p (next_pbuf iprh))))"

definition list_prev :: "nat list \<Rightarrow> nat \<Rightarrow> nat option" where
  "list_prev xs a = (if xs \<noteq> [] \<and> hd xs = a then None else find (\<lambda>x. list_next xs x = Some a) xs)"

definition reass_finish :: "reass_env \<Rightarrow> reass \<Rightarrow> nat \<Rightarrow> (pptr \<times> reass) outcome" where
  "reass_finish e s ipr =
     bnd (get_ipr s ipr) (\<lambda>d.
     let dlen = datagram_len d + of_nat IP_HLEN; p = ipr_p d in
     bnd (get_helper s p) (\<lambda>iprh.
     let r = next_pbuf iprh in
     bnd (pget (rheap s) p) (\<lambda>b.
     bnd (write_iphdr (rheap s) p (reass_iphdr (hdr_odd e (p_payload b)) (iphdr d) dlen)) (\<lambda>h.
     let s = s\<lparr>rheap := h, helper := (helper s)(the p := None)\<rparr> in
     bnd (reass_cat_loop (fuel (rheap s)) s p r) (\<lambda>s.
     bnd (ip_reass_dequeue_datagram s ipr (list_prev (reassdatagrams s) ipr)) (\<lambda>s.
     bnd (pbuf_clen (rheap s) p) (\<lambda>clen.
     lwip_assert (ip_reass_pbufcount s \<ge> clen) (
     Inr (p, s\<lparr>ip_reass_pbufcount := ip_reass_pbufcount s - clen\<rparr>)))))))))"

text \<open>The labels \<^verbatim>\<open>nullreturn\<close> and \<^verbatim>\<open>nullreturn_ipr\<close>.\<close>

definition reass_null :: "reass \<Rightarrow> pptr \<Rightarrow> (pptr \<times> reass) outcome" where
  "reass_null s p = bnd (reass_free s p) (\<lambda>s. Inr (None, s))"

definition reass_null_ipr :: "reass \<Rightarrow> nat \<Rightarrow> pptr \<Rightarrow> (pptr \<times> reass) outcome" where
  "reass_null_ipr s ipr p =
     bnd (get_ipr s ipr) (\<lambda>r.
     bnd (if ipr_p r = None then
            lwip_assert (reassdatagrams s \<noteq> [] \<and> hd (reassdatagrams s) = ipr) (ip_reass_dequeue_datagram s ipr None)
          else Inr s) (\<lambda>s. reass_null s p))"

text \<open>The datagram a fragment belongs to.\<close>

definition find_ipr :: "reass \<Rightarrow> bytes \<Rightarrow> nat option" where
  "find_ipr s fraghdr = find (\<lambda>i. case ipr_at s i of None \<Rightarrow> False | Some r \<Rightarrow> IP_ADDRESSES_AND_ID_MATCH (iphdr r) fraghdr)
     (reassdatagrams s)"

text \<open>The part of \<^verbatim>\<open>ip4_reass\<close> behind the search for the datagram.\<close>

definition reass_queue :: "reass_env \<Rightarrow> reass \<Rightarrow> nat \<Rightarrow> nat \<Rightarrow> bytes \<Rightarrow> u16_t \<Rightarrow> (pptr \<times> reass) outcome" where
  "reass_queue e s ipr p fraghdr clen =
     (let offset = IPH_OFFSET_BYTES fraghdr; len = lwip_ntohs (IPH_LEN fraghdr) - ucast (IPH_HL_BYTES fraghdr);
          is_last = (IPH_OFFSET fraghdr AND lwip_htons IP_MF = 0); dlen = offset + len
      in if is_last \<and> (dlen < offset \<or> unat dlen > 0xffff - IP_HLEN) then reass_null_ipr s ipr (Some p)
      else
        bnd (ip_reass_chain_frag_into_datagram_and_validate s ipr p is_last) (\<lambda>(valid, s).
        if valid = PBUF_DROPPED then reass_null_ipr s ipr (Some p)
        else
          let s = s\<lparr>ip_reass_pbufcount := ip_reass_pbufcount s + clen\<rparr> in
          bnd (get_ipr s ipr) (\<lambda>r.
          let s = (if is_last then set_ipr s ipr (r\<lparr>datagram_len := dlen, ipr_flags := ipr_flags r OR IP_REASS_FLAG_LASTFRAG\<rparr>) else s)
          in if valid = TELEGRAM_FINISHED then reass_finish e s ipr else Inr (None, s))))"

definition ip4_reass :: "reass_env \<Rightarrow> reass \<Rightarrow> nat \<Rightarrow> (pptr \<times> reass) outcome" where
  "ip4_reass e s p =
     bnd (read_iphdr (rheap s) (Some p)) (\<lambda>fraghdr.
     if unat (IPH_HL_BYTES fraghdr) \<noteq> IP_HLEN then reass_null s (Some p)
     else if unat (IPH_HL_BYTES fraghdr) > unat (lwip_ntohs (IPH_LEN fraghdr)) then reass_null s (Some p)
     else
       bnd (pbuf_clen (rheap s) (Some p)) (\<lambda>clen.
       bnd (if unat (ip_reass_pbufcount s) + unat clen > IP_REASS_MAX_PBUFS then
              bnd (ip_reass_remove_oldest_datagram e s fraghdr (unat clen)) (\<lambda>(freed, s).
              Inr (freed = 0 \<or> unat (ip_reass_pbufcount s) + unat clen > IP_REASS_MAX_PBUFS, s))
            else Inr (False, s)) (\<lambda>(full, s).
       if full then reass_null s (Some p)
       else
         bnd (case find_ipr s fraghdr of
                None \<Rightarrow> ip_reass_enqueue_new_datagram e s fraghdr (unat clen)
              | Some i \<Rightarrow> bnd (get_ipr s i) (\<lambda>r.
                  Inr (Some i, if lwip_ntohs (IPH_OFFSET fraghdr) AND IP_OFFMASK = 0 \<and> lwip_ntohs (IPH_OFFSET (iphdr r)) AND IP_OFFMASK \<noteq> 0
                               then set_ipr s i (r\<lparr>iphdr := fraghdr\<rparr>) else s))) (\<lambda>(ipr, s).
         case ipr of None \<Rightarrow> reass_null s (Some p) | Some i \<Rightarrow> reass_queue e s i p fraghdr clen))))"

section \<open>Fragmentation\<close>

definition ip_frag_alloc_pbuf_custom_ref :: "heap \<Rightarrow> pptr \<times> heap" where
  "ip_frag_alloc_pbuf_custom_ref h = memp_malloc h MEMP_FRAG_PBUF"

definition ip_frag_free_pbuf_custom_ref :: "heap \<Rightarrow> pptr \<Rightarrow> heap outcome" where
  "ip_frag_free_pbuf_custom_ref h p = lwip_assert (p \<noteq> None) (memp_free h MEMP_FRAG_PBUF p)"

text \<open>
  The inner loop of \<^verbatim>\<open>ip4_frag\<close>: references to the next \<open>left_to_copy\<close> bytes of \<open>p\<close> are chained behind \<open>rambuf\<close>. The result
  is \<open>None\<close> for lack of memory (\<open>rambuf\<close> is then freed), or the position reached and the last \<^verbatim>\<open>newpbuflen\<close>.
\<close>

fun frag_fill_loop :: "nat \<Rightarrow> heap \<Rightarrow> nat \<Rightarrow> pptr \<Rightarrow> u16_t \<Rightarrow> u16_t \<Rightarrow> u16_t
    \<Rightarrow> ((pptr \<times> u16_t \<times> u16_t) option \<times> heap) outcome" where
  "frag_fill_loop 0 h rambuf p poff left_to_copy newpbuflen = Inl Diverge"
| "frag_fill_loop (Suc n) h rambuf p poff left_to_copy newpbuflen =
     (if left_to_copy = 0 then Inr (Some (p, poff, newpbuflen), h)
      else bnd (pget h p) (\<lambda>b.
        let plen = p_len b - poff in
        lwip_assert (p_len b \<ge> poff) (
        let newpbuflen = min left_to_copy plen in
        if newpbuflen = 0 then frag_fill_loop n h rambuf (p_next b) 0 left_to_copy newpbuflen
        else
          let (pcr, h) = ip_frag_alloc_pbuf_custom_ref h in
          case pcr of None \<Rightarrow> bnd (pbuf_free h (Some rambuf)) (\<lambda>(_, h). Inr (None, h))
          | Some c \<Rightarrow>
              let (newpbuf, h) = pbuf_alloced_custom h PBUF_RAW newpbuflen PBUF_REF c (ptr_add (p_payload b) (uint poff)) newpbuflen in
              if newpbuf = None then
                bnd (ip_frag_free_pbuf_custom_ref h pcr) (\<lambda>h.
                bnd (pbuf_free h (Some rambuf)) (\<lambda>(_, h). Inr (None, h)))
              else
                bnd (pbuf_ref h p) (\<lambda>h.
                let h = h\<lparr>customs := (customs h)(c \<mapsto> \<lparr>custom_free_function = Some Ipfrag_free_pbuf_custom, original = p\<rparr>)\<rparr> in
                bnd (pbuf_cat h (Some rambuf) newpbuf) (\<lambda>h.
                let left_to_copy = left_to_copy - newpbuflen in
                bnd (if left_to_copy \<noteq> 0 then bnd (pget h p) (\<lambda>b. Inr (p_next b, 0)) else Inr (p, poff)) (\<lambda>(p, poff).
                frag_fill_loop n h rambuf p poff left_to_copy newpbuflen))))))"

text \<open>The header of a fragment at the offset \<open>ofo\<close> (in units of 8 bytes) with \<open>fragsize\<close> bytes.\<close>

definition frag_iphdr :: "bool \<Rightarrow> bytes \<Rightarrow> u16_t \<Rightarrow> u16_t \<Rightarrow> bool \<Rightarrow> bytes" where
  "frag_iphdr od hdr ofo fragsize mf =
     (let tmp = IP_OFFMASK AND ofo; tmp = (if mf then tmp OR IP_MF else tmp);
          hdr = patch hdr 6 (u16_bytes (lwip_htons tmp)); hdr = patch hdr 2 (u16_bytes (lwip_htons (fragsize + of_nat IP_HLEN)));
          hdr = patch hdr 10 [0, 0]
      in patch hdr 10 (u16_bytes (inet_chksum od hdr)))"

text \<open>The number of 8 byte blocks that fit; C division rounds towards zero.\<close>

definition frag_nfb :: "u16_t \<Rightarrow> u16_t" where
  "frag_nfb mtu = (if unat mtu \<ge> IP_HLEN then of_nat ((unat mtu - IP_HLEN) div 8) else - of_nat ((IP_HLEN - unat mtu) div 8))"

text \<open>The outer loop; \<open>output\<close> is \<^verbatim>\<open>netif->output\<close>, which acts on the world \<open>w\<close> and may take references of the packet.\<close>

fun frag_loop :: "nat \<Rightarrow> ('w \<Rightarrow> heap \<Rightarrow> pptr \<Rightarrow> ('w \<times> heap) outcome) \<Rightarrow> (ptr \<Rightarrow> bool) \<Rightarrow> 'w \<Rightarrow> heap \<Rightarrow> pptr \<Rightarrow> u16_t
    \<Rightarrow> bool \<Rightarrow> pptr \<Rightarrow> u16_t \<Rightarrow> u16_t \<Rightarrow> u16_t \<Rightarrow> (err_t \<times> 'w \<times> heap) outcome" where
  "frag_loop 0 output od w h orig mtu mf_set p poff left ofo = Inl Diverge"
| "frag_loop (Suc n) output od w h orig mtu mf_set p poff left ofo =
     (if left = 0 then Inr (ERR_OK, w, h)
      else
        let fragsize = min left (frag_nfb mtu * 8) in
        bnd (pbuf_alloc h PBUF_LINK (of_nat IP_HLEN) PBUF_RAM) (\<lambda>(rambuf, h).
        case rambuf of None \<Rightarrow> Inr (ERR_MEM, w, h)
        | Some q \<Rightarrow>
            bnd (pget h rambuf) (\<lambda>rb.
            lwip_assert (unat (p_len rb) \<ge> IP_HLEN) (
            bnd (read_iphdr h orig) (\<lambda>hdr.
            bnd (frag_fill_loop (Suc (unat fragsize) + fuel h) h q p poff fragsize 0) (\<lambda>(res, h).
            case res of None \<Rightarrow> Inr (ERR_MEM, w, h)
            | Some (p, poff, newpbuflen) \<Rightarrow>
                let poff = poff + newpbuflen; lst = (int (unat left) \<le> int (unat mtu) - int IP_HLEN) in
                bnd (write_iphdr h rambuf (frag_iphdr (od (p_payload rb)) hdr ofo fragsize (\<not> lst \<or> mf_set))) (\<lambda>h.
                bnd (output w h rambuf) (\<lambda>(w, h).
                bnd (pbuf_free h rambuf) (\<lambda>(_, h).
                frag_loop n output od w h orig mtu mf_set p poff (left - fragsize) (ofo + frag_nfb mtu))))))))))"

definition ip4_frag :: "('w \<Rightarrow> heap \<Rightarrow> pptr \<Rightarrow> ('w \<times> heap) outcome) \<Rightarrow> (ptr \<Rightarrow> bool) \<Rightarrow> 'w \<Rightarrow> heap \<Rightarrow> pptr \<Rightarrow> netif
    \<Rightarrow> (err_t \<times> 'w \<times> heap) outcome" where
  "ip4_frag output od w h p nif =
     bnd (read_iphdr h p) (\<lambda>hdr.
     if unat (IPH_HL_BYTES hdr) \<noteq> IP_HLEN then Inr (ERR_VAL, w, h)
     else
       bnd (pget h p) (\<lambda>b.
       lwip_assert (unat (p_len b) \<ge> IP_HLEN) (
       let tmp = lwip_ntohs (IPH_OFFSET hdr); ofo = tmp AND IP_OFFMASK; left = p_tot_len b - of_nat IP_HLEN in
       frag_loop (Suc (unat left)) output od w h p (n_mtu nif) (tmp AND IP_MF \<noteq> 0) p (of_nat IP_HLEN) left ofo)))"

end
