(* ===== verification/Pbuf_Ram.thy ===== *)
theory Pbuf_Ram
  imports Pbuf_Contract
begin

text \<open>
  A packet in one \<^verbatim>\<open>PBUF_RAM\<close> pbuf of its own, as the stack builds its answers. The operations of \<^verbatim>\<open>core/pbuf.c\<close> on such a
  packet are equations between heaps.
\<close>

text \<open>
  The heap in which the object \<open>a\<close> is a pbuf as \<^verbatim>\<open>pbuf_alloc\<close> makes it for \<^verbatim>\<open>PBUF_RAM\<close>, with the bytes \<open>pre\<close> in front of its data.
  Operations on such a pbuf rewrite to such heaps again.
\<close>

definition with_ram :: "heap \<Rightarrow> nat \<Rightarrow> bytes \<Rightarrow> bytes \<Rightarrow> heap" where
  "with_ram h a pre data = h\<lparr>pbufs := (pbufs h)(a \<mapsto> ram_pbuf a (of_nat (length pre)) (of_nat (length data))),
     mem := (mem h)(a \<mapsto> pre @ data)\<rparr>"

lemma with_ram_simps [simp]:
  "net (with_ram h a pre data) = net h" "nextid (with_ram h a pre data) = nextid h" "oom (with_ram h a pre data) = oom h"
  "junk (with_ram h a pre data) = junk h" "fuel (with_ram h a pre data) = fuel h"
  "pbufs (with_ram h a pre data) = (pbufs h)(a \<mapsto> ram_pbuf a (of_nat (length pre)) (of_nat (length data)))"
  "mem (with_ram h a pre data) = (mem h)(a \<mapsto> pre @ data)"
  "with_ram (with_ram h a pre data) a pre2 data2 = with_ram h a pre2 data2"
  "(with_ram h a pre data)\<lparr>net := n\<rparr> = with_ram (h\<lparr>net := n\<rparr>) a pre data"
  "pget (with_ram h a pre data) (Some a) = Inr (ram_pbuf a (of_nat (length pre)) (of_nat (length data)))"
  by (simp_all add: with_ram_def fuel_def pget_def)

lemma uint_of_nat_16: "n \<le> 65535 \<Longrightarrow> uint (of_nat n :: u16_t) = int n"
  by (simp add: uint_nat unat_of_nat_16)

lemma ram_alloc:
  fixes layer len :: u16_t
  assumes "unat layer + unat len \<le> 65535" and "\<not> oom h (nextid h)"
  shows "pbuf_alloc h layer len PBUF_RAM = Inr (Some (nextid h), with_ram (h\<lparr>nextid := Suc (nextid h)\<rparr>) (nextid h)
    (map (junk h) [0..<unat layer]) (map (junk h) [unat layer..<unat layer + unat len]))"
proof -
  have "[0..<unat layer + unat len] = [0..<unat layer] @ [unat layer..<unat layer + unat len]"
    by (rule upt_add_eq_append) simp
  then have "map (junk h) [0..<unat layer + unat len] = map (junk h) [0..<unat layer] @ map (junk h) [unat layer..<unat layer + unat len]"
    by simp
  then show ?thesis using assms by (simp add: pbuf_alloc_ram_eq with_pbuf_def with_ram_def)
qed

lemma ram_write:
  assumes "length pre + length data \<le> 65535" and "off + length xs \<le> length data"
  shows "mem_write (with_ram h a pre data) (Some (a, uint (of_nat (length pre) :: u16_t))) off xs = Inr (with_ram h a pre (patch data off xs))"
proof (cases "xs = []")
  case True
  then show ?thesis using assms by (simp add: mem_write_def patch_def)
next
  case False
  have l: "length (patch data off xs) = length data" using assms(2) by (simp add: patch_def)
  have "patch (pre @ data) (length pre + off) xs = pre @ patch data off xs" by (simp add: patch_def)
  then show ?thesis using False assms l
    by (simp add: mem_write_def uint_of_nat_16 nat_int_add) (simp add: with_ram_def l)
qed

lemma ram_read:
  assumes "length pre + length data \<le> 65535" and "off + n \<le> length data"
  shows "mem_read (with_ram h a pre data) (Some (a, uint (of_nat (length pre) :: u16_t))) off n = Inr (take n (drop off data))"
  using assms by (simp add: mem_read_def uint_of_nat_16 nat_int_add)

lemma ram_add_header:
  assumes "length pre + length hdr + length data \<le> 65535"
  shows "pbuf_add_header (with_ram h a (pre @ hdr) data) (Some a) (length hdr) = Inr (0, with_ram h a pre (hdr @ data))"
proof -
  let ?h = "with_ram h a (pre @ hdr) data" and ?b = "ram_pbuf a (of_nat (length (pre @ hdr))) (of_nat (length data))"
  have "contiguous_at ?h a ?b (length (pre @ hdr))"
    using assms uint_of_nat_16 [of "length (pre @ hdr)"] by (simp add: contiguous_at_def ram_pbuf_def)
  note this [THEN pbuf_add_header_contiguous, of "length hdr"]
  moreover have "unat (p_tot_len ?b) = length data" using assms by (simp add: ram_pbuf_def unat_of_nat_16)
  moreover have "add_hdr (length hdr) ?b = ram_pbuf a (of_nat (length pre)) (of_nat (length (hdr @ data)))"
    using assms uint_of_nat_16 [of "length (pre @ hdr)"] uint_of_nat_16 [of "length pre"]
    by (simp add: add_hdr_def ram_pbuf_def ptr_add_def add.commute)
  ultimately show ?thesis using assms by (simp add: with_ram_def)
qed

lemma ram_remove_header:
  assumes "length pre + length hdr + length data \<le> 65535"
  shows "pbuf_remove_header (with_ram h a pre (hdr @ data)) (Some a) (length hdr) = Inr (0, with_ram h a (pre @ hdr) data)"
proof -
  let ?h = "with_ram h a pre (hdr @ data)" and ?b = "ram_pbuf a (of_nat (length pre)) (of_nat (length (hdr @ data)))"
  have "pbufs ?h a = Some ?b" by simp
  note this [THEN pbuf_remove_header_correct, of "length hdr"]
  moreover have "unat (p_len ?b) = length (hdr @ data)" using assms by (subst unat_of_nat_16 [symmetric]) (simp_all add: ram_pbuf_def)
  moreover have "remove_hdr (length hdr) ?b = ram_pbuf a (of_nat (length (pre @ hdr))) (of_nat (length data))"
    using assms uint_of_nat_16 [of "length (pre @ hdr)"] uint_of_nat_16 [of "length pre"]
    by (simp add: remove_hdr_def ram_pbuf_def ptr_add_def add.commute)
  ultimately show ?thesis using assms by (simp add: with_ram_def)
qed

lemma ram_chain:
  assumes "length pre + length data \<le> 65535"
  shows "chain_ok (with_ram h a pre data) (Some a) [a]" and "chain_data (with_ram h a pre data) [a] = data"
    and "block (with_ram h a pre data) a \<in> {None, Some a}"
proof -
  let ?h = "with_ram h a pre data" and ?b = "ram_pbuf a (of_nat (length pre)) (of_nat (length data))"
  have b: "pb ?h a = ?b" "pbufs ?h a = Some ?b" by (simp_all add: pb_def)
  have l: "unat (p_len ?b) = length data" "p_payload ?b = Some (a, int (length pre))" "p_next ?b = None" "p_tot_len ?b = p_len ?b"
    using assms by (simp_all add: ram_pbuf_def unat_of_nat_16 uint_of_nat_16)
  have "payload_ok ?h a" using b l by (simp add: payload_ok_def)
  then show "chain_ok ?h (Some a) [a]" using b l by (simp add: chain_ok_Cons)
  show "chain_data ?h [a] = data" using b l by (auto simp: seg_def unat_eq_zero)
  show "block ?h a \<in> {None, Some a}" using b l by (auto simp: block_def)
qed

lemma ram_heap_ok: "heap_ok h \<Longrightarrow> a < nextid h \<Longrightarrow> heap_ok (with_ram h a pre data)"
  by (auto simp: heap_ok_def)

lemma ram_freeable: "freeable (with_ram h a pre data) a" "once (with_ram h a pre data) a"
proof -
  have "pbuf_get_allocsrc (ram_pbuf a (of_nat (length pre)) (of_nat (length data))) = 0"
    by (simp add: pbuf_get_allocsrc_def ram_pbuf_def)
  then show "freeable (with_ram h a pre data) a" by (simp add: freeable_def) (simp add: ram_pbuf_def)
  show "once (with_ram h a pre data) a" by (simp add: once_def pb_def ram_pbuf_def)
qed

lemma ram_free:
  assumes "heap_ok h" and "a < nextid h"
  shows "pbuf_free (with_ram h a pre data) (Some a) = Inr (1, drop_objs {a} h)"
proof -
  have "path (with_ram h a pre data) (Some a) [a]" by (simp add: ram_pbuf_def)
  then have "pbuf_free (with_ram h a pre data) (Some a) = Inr (1, drop_objs {a} (with_ram h a pre data))"
    using pbuf_free_all [OF ram_heap_ok [OF assms, of pre data], of a "[a]"] by (simp add: ram_freeable del: path.simps)
  moreover have "drop_objs {a} (with_ram h a pre data) = drop_objs {a} h"
    by (simp add: drop_objs_def with_ram_def)
  ultimately show ?thesis by simp
qed

section \<open>Copying into the pbuf\<close>

text \<open>Chains that do not touch the object.\<close>

definition clear_of :: "heap \<Rightarrow> nat \<Rightarrow> nat list \<Rightarrow> bool" where
  "clear_of h a qs \<longleftrightarrow> a \<notin> set qs \<and> (\<forall>q\<in>set qs. block h q \<noteq> Some a)"

lemma clear_of_Cons: "clear_of h a (q # qs) \<longleftrightarrow> q \<noteq> a \<and> block h q \<noteq> Some a \<and> clear_of h a qs"
  by (auto simp: clear_of_def)

lemma ram_other:
  assumes "clear_of h a qs"
  shows "chain_ok (with_ram h a pre data) p qs = chain_ok h p qs" and "chain_data (with_ram h a pre data) qs = chain_data h qs"
  by (rule chain_cong; use assms in \<open>auto simp: clear_of_def\<close>)+

lemma ram_other_pb:
  assumes "q \<noteq> a"
  shows "pb (with_ram h a pre data) q = pb h q" and "pget (with_ram h a pre data) (Some q) = pget h (Some q)"
  using assms by (simp_all add: pb_def pget_def)

lemma ram_read_other:
  assumes "payload_ok h f" and "clear_of h a [f]" and "off + n \<le> unat (p_len (pb h f))"
  shows "mem_read (with_ram h a pre data) (p_payload (pb h f)) off n = Inr (take n (drop off (seg h f)))"
proof -
  let ?h = "with_ram h a pre data"
  have pb: "pb ?h f = pb h f" using assms(2) by (simp add: ram_other_pb clear_of_def)
  have s: "seg ?h f = seg h f" "payload_ok ?h f = payload_ok h f"
    by (rule seg_cong; use pb assms(2) in \<open>simp add: clear_of_def\<close>)+
  show ?thesis using mem_read_seg [of ?h f off n] assms(1,3) pb s by simp
qed

lemma clear_of_fresh:
  assumes "heap_ok h" and "chain_ok h p qs"
  shows "clear_of h (nextid h) qs"
proof -
  have "q < nextid h" if "q \<in> set qs" for q
    using path_alloced [OF chain_ok_path [OF assms(2)] that] heap_ok_less [OF assms(1)] by blast
  moreover have "block h q \<noteq> Some (nextid h)" if "q \<in> set qs" for q
    using block_less [OF assms(1)] assms(2) that unfolding chain_ok_def by (metis less_irrefl)
  ultimately show ?thesis by (auto simp: clear_of_def)
qed

lemma ram_copy_step:
  assumes "chain_ok h (Some f) (f # fs)" and "solid h (f # fs)" and "clear_of h a (f # fs)" and "pbufs h f = Some bf"
    and "length pre + length x + length y \<le> 65535" and "length y = length (chain_data h (f # fs))"
  shows "pbuf_copy_step (with_ram h a pre (x @ y)) (Some a) (Some f) (length x) 0
    = Inr (if fs = [] then None else Some a, p_next bf, if fs = [] then 0 else length x + unat (p_len bf), 0,
           with_ram h a pre (x @ seg h f @ drop (unat (p_len bf)) y))"
proof -
  have f: "payload_ok h f" "chain_ok h (p_next bf) fs" "length (seg h f) = unat (p_len bf)" "pb h f = bf"
    using assms(1,4) by (auto simp: chain_ok_Cons length_seg)
  let ?b = "ram_pbuf a (of_nat (length pre)) (of_nat (length (x @ y)))"
  have b: "unat (p_len ?b) = length x + length y" "p_next ?b = None" "p_payload ?b = Some (a, uint (of_nat (length pre) :: u16_t))"
    using assms(5) unat_of_nat_16 [of "length (x @ y)"] by (simp_all add: ram_pbuf_def)
  have y: "length y = unat (p_len bf) + length (chain_data h fs)" using assms(6) f(3) by simp
  have pf: "f \<noteq> a" "clear_of h a [f]" using assms(3) by (simp_all add: clear_of_def)
  have rd: "mem_read (with_ram h a pre (x @ y)) (p_payload bf) 0 (unat (p_len bf)) = Inr (seg h f)"
    using ram_read_other [OF f(1) pf(2), of 0 "unat (p_len bf)"] f(3,4) by simp
  have wr: "mem_write (with_ram h a pre (x @ y)) (p_payload ?b) (length x) (seg h f) = Inr (with_ram h a pre (x @ seg h f @ drop (unat (p_len bf)) y))"
    using ram_write [of pre "x @ y" "length x" "seg h f" h a] assms(5) f(3) y b(3) by (simp add: patch_def)
  have ne: "length (chain_data h fs) = 0 \<longleftrightarrow> fs = []" using solid_data [OF assms(1,2)] by auto
  have s: "solid (with_ram h a pre z) fs" for z
  proof -
    have "q \<noteq> a \<and> p_len (pb h q) \<noteq> 0" if "q \<in> set (tl fs)" for q
      using assms(2,3) list.set_sel(2) [of fs q] that by (cases fs) (auto simp: solid_def clear_of_def)
    then show ?thesis by (simp add: solid_def ram_other_pb)
  qed
  have q1: "pbuf_copy_no_queue (with_ram h a pre z) (p_next bf) = Inr ()" for z
    using no_queue_ok [OF _ s] ram_other(1) [of h a fs] assms(3) f(2) by (simp add: clear_of_Cons)
  have q2: "pbuf_copy_no_queue (with_ram h a pre z) (Some a) = Inr ()" for z
    by (simp add: pbuf_copy_no_queue_def) (simp add: ram_pbuf_def)
  have "fs \<noteq> [] \<Longrightarrow> p_next bf \<noteq> None" using f(2) by (cases fs) (auto simp: chain_ok_Cons)
  then show ?thesis using assms(4) pf(1) rd wr b(1,2) y ne q1 q2 f(2)
    by (cases "fs = []") (auto simp: pbuf_copy_step_def Let_def ram_other_pb)
qed

lemma ram_copy_loop:
  assumes "chain_ok h (Some f) (f # fs)" and "solid h (f # fs)" and "clear_of h a (f # fs)"
    and "length pre + length x + length y \<le> 65535" and "length y = length (chain_data h (f # fs))" and "length (f # fs) \<le> n"
  shows "pbuf_copy_loop n (with_ram h a pre (x @ y)) (Some a) (Some f) (length x) 0
    = Inr (ERR_OK, with_ram h a pre (x @ chain_data h (f # fs)))"
  using assms
proof (induction fs arbitrary: n f x y)
  case Nil
  obtain bf where bf: "pbufs h f = Some bf" "p_next bf = None" "length (seg h f) = unat (p_len bf)"
    using Nil.prems(1) by (auto simp: chain_ok_Cons length_seg)
  obtain k where n: "n = Suc k" using Nil.prems(6) by (cases n) auto
  show ?case using ram_copy_step [OF Nil.prems(1-3) bf(1) Nil.prems(4,5)] Nil.prems(5) bf by (simp add: n)
next
  case (Cons g gs)
  obtain bf where bf: "pbufs h f = Some bf" "chain_ok h (p_next bf) (g # gs)" "length (seg h f) = unat (p_len bf)"
    using Cons.prems(1) by (auto simp: chain_ok_Cons length_seg)
  then have nx: "p_next bf = Some g" by (simp add: chain_ok_Cons)
  obtain k where n: "n = Suc k" using Cons.prems(6) by (cases n) auto
  have "pbuf_copy_loop k (with_ram h a pre ((x @ seg h f) @ drop (unat (p_len bf)) y)) (Some a) (Some g) (length (x @ seg h f)) 0
      = Inr (ERR_OK, with_ram h a pre ((x @ seg h f) @ chain_data h (g # gs)))"
  proof (rule Cons.IH)
    show "chain_ok h (Some g) (g # gs)" using bf(2) nx by simp
    show "solid h (g # gs)" using Cons.prems(2) by (rule solid_Cons_tl)
    show "clear_of h a (g # gs)" using Cons.prems(3) by (simp add: clear_of_Cons)
    show "length pre + length (x @ seg h f) + length (drop (unat (p_len bf)) y) \<le> 65535"
      using Cons.prems(4,5) bf(3) by simp
    show "length (drop (unat (p_len bf)) y) = length (chain_data h (g # gs))" using Cons.prems(5) bf(3) by simp
    show "length (g # gs) \<le> k" using Cons.prems(6) n by simp
  qed
  then show ?case using ram_copy_step [OF Cons.prems(1-3) bf(1) Cons.prems(4,5)] nx bf(3) by (simp add: n)
qed

text \<open>\<^verbatim>\<open>pbuf_copy\<close> into a pbuf of exactly the length of the packet.\<close>

lemma ram_copy:
  assumes "heap_ok h" and "a < nextid h" and "chain_ok h (Some f) fs" and "solid h fs" and "clear_of h a fs"
    and "length pre + length data \<le> 65535" and "length data = length (chain_data h fs)"
  shows "pbuf_copy (with_ram h a pre data) (Some a) (Some f) = Inr (ERR_OK, with_ram h a pre (chain_data h fs))"
proof -
  obtain bf gs where bf: "fs = f # gs" "pbufs h f = Some bf" "f \<noteq> a"
    using assms(3,5) by (cases fs) (auto simp: chain_ok_Cons clear_of_def)
  have "length (f # gs) \<le> 2 * fuel h" using chain_ok_length [OF assms(3,1)] bf(1) by simp
  then have loop: "pbuf_copy_loop (2 * fuel h) (with_ram h a pre data) (Some a) (Some f) 0 0
      = Inr (ERR_OK, with_ram h a pre (chain_data h fs))"
    using ram_copy_loop [of h f gs a pre "[]" data "2 * fuel h"] assms bf(1) by simp
  have "unat (p_tot_len bf) = length data" using chain_ok_tot_len [OF assms(3)] bf(2) assms(7) by simp
  then have "p_tot_len bf = of_nat (length data)" by (metis of_nat_unat ucast_id)
  then show ?thesis using loop bf(2,3) by (simp add: pbuf_copy_def ram_other_pb) (simp add: ram_pbuf_def)
qed

end
