(* ===== verification/Ip4_Out.thy ===== *)
theory Ip4_Out
  imports Ip4_Frag Udp_Packets Pbuf_Ram
begin

text \<open>
  The way of a packet out of the stack: \<^verbatim>\<open>netif_loop_output\<close> of \<^verbatim>\<open>core/netif.c\<close>, the function that \<^verbatim>\<open>core/output.go\<close> installs as
  \<^verbatim>\<open>netif->output\<close>, and the routing and output functions of \<^verbatim>\<open>core/ipv4/ip4.c\<close>. The network interfaces are the list
  \<^verbatim>\<open>netif_list\<close>; \<open>od\<close> says which addresses are odd.
\<close>

section \<open>Handing a packet to the application\<close>

text \<open>
  \<^verbatim>\<open>output_ip4\<close> and the Go function \<^verbatim>\<open>output\<close> it calls: the bytes of the packet, copied to a buffer when they lie in several
  pbufs, are passed to \<^verbatim>\<open>OutputFn\<close>, whose result is ignored. \<^verbatim>\<open>NewBytes\<close> returns a buffer of at least the wanted size.
\<close>

abbreviation (input) BufSize :: nat where "BufSize \<equiv> 2048"

definition NewBytes :: "nat \<Rightarrow> bytes" where
  "NewBytes n = (if n \<le> BufSize then replicate BufSize 0 else replicate n 0)"

definition OutputFn :: "heap \<Rightarrow> bytes \<Rightarrow> heap" where
  "OutputFn h data = h\<lparr>net := (net h)\<lparr>sent := sent (net h) @ [data]\<rparr>\<rparr>"

definition output_ip4 :: "heap \<Rightarrow> pptr \<Rightarrow> (err_t \<times> heap) outcome" where
  "output_ip4 h p = bnd (pget h p) (\<lambda>b.
     let totlen = unat (p_tot_len b) in
     if p_tot_len b = p_len b then bnd (mem_read h (p_payload b) 0 totlen) (\<lambda>buf. Inr (ERR_OK, OutputFn h buf))
     else bnd (pbuf_copy_partial h p (Some (NewBytes totlen)) (p_tot_len b) 0) (\<lambda>(_, buf).
          Inr (ERR_OK, OutputFn h (take totlen buf))))"

section \<open>Loopback\<close>

fun loop_tail :: "nat \<Rightarrow> heap \<Rightarrow> pptr \<Rightarrow> pptr outcome" where
  "loop_tail 0 h lst = Inl Diverge"
| "loop_tail (Suc n) h lst = bnd (pget h lst) (\<lambda>b. if p_next b \<noteq> None then loop_tail n h (p_next b) else Inr lst)"

definition netif_loop_output :: "heap \<Rightarrow> netif \<Rightarrow> pptr \<Rightarrow> (err_t \<times> heap) outcome" where
  "netif_loop_output h nif p = lwip_assert (p \<noteq> None) (
     bnd (pget h p) (\<lambda>b.
     bnd (pbuf_alloc h PBUF_LINK (p_tot_len b) PBUF_RAM) (\<lambda>(r, h).
     if r = None then Inr (ERR_MEM, h)
     else
       bnd (pbuf_copy h r p) (\<lambda>(err, h).
       if err \<noteq> ERR_OK then bnd (pbuf_free h r) (\<lambda>(_, h). Inr (err, h))
       else
         bnd (loop_tail (fuel h) h r) (\<lambda>lst.
         let k = n_num nif in
         if loop_first (net h) k \<noteq> None then
           lwip_assert (loop_last (net h) k \<noteq> None) (
           bnd (pupd h (loop_last (net h) k) (\<lambda>c. c\<lparr>p_next := r\<rparr>)) (\<lambda>h.
           Inr (ERR_OK, h\<lparr>net := (net h)\<lparr>loop_last := (loop_last (net h))(k := lst)\<rparr>\<rparr>)))
         else Inr (ERR_OK, h\<lparr>net := (net h)\<lparr>loop_first := (loop_first (net h))(k := r),
                                            loop_last := (loop_last (net h))(k := lst)\<rparr>\<rparr>))))))"

section \<open>Routing\<close>

text \<open>With \<^verbatim>\<open>TUN2SOCKS\<close> every packet goes to the first interface; there is no hook for routing by source.\<close>

definition ip4_route :: "netif list \<Rightarrow> u32_t \<Rightarrow> netif option" where
  "ip4_route netifs dest = (case netifs of [] \<Rightarrow> None | n # _ \<Rightarrow> Some n)"

section \<open>The header\<close>

abbreviation (input) ICMP_TTL :: u8_t where "ICMP_TTL \<equiv> 64"
abbreviation (input) IP_PROTO_ICMP :: u8_t where "IP_PROTO_ICMP \<equiv> 1"

text \<open>A \<^verbatim>\<open>struct ip_hdr\<close> without options from its fields, which are in network byte order.\<close>

definition mk_iphdr :: "u8_t \<Rightarrow> u16_t \<Rightarrow> u16_t \<Rightarrow> u16_t \<Rightarrow> u8_t \<Rightarrow> u8_t \<Rightarrow> u16_t \<Rightarrow> u32_t \<Rightarrow> u32_t \<Rightarrow> bytes" where
  "mk_iphdr tos' len ident offset ttl' proto chksum src dest =
     [0x45, tos'] @ u16_bytes len @ u16_bytes ident @ u16_bytes offset @ [ttl', proto] @ u16_bytes chksum @ u32_bytes src @ u32_bytes dest"

text \<open>
  The sum that \<^verbatim>\<open>ip4_output_if_src\<close> keeps while it fills in the header (\<^verbatim>\<open>CHECKSUM_GEN_IP_INLINE\<close>), and its complement as stored.
\<close>

definition ip4_inline_chksum :: "u8_t \<Rightarrow> u16_t \<Rightarrow> u16_t \<Rightarrow> u8_t \<Rightarrow> u8_t \<Rightarrow> u32_t \<Rightarrow> u32_t \<Rightarrow> u16_t" where
  "ip4_inline_chksum tos' len ident ttl' proto src dest =
     (let chk_sum = (0 :: u32_t);
          chk_sum = chk_sum + ucast (lwip_htons (ucast proto OR push_bit 8 (ucast ttl')));
          chk_sum = chk_sum + (dest AND 0xFFFF);
          chk_sum = chk_sum + drop_bit 16 dest;
          chk_sum = chk_sum + ucast (lwip_htons (ucast tos' OR push_bit 8 0x45));
          chk_sum = chk_sum + ucast len;
          chk_sum = chk_sum + ucast ident;
          chk_sum = chk_sum + (src AND 0xFFFF);
          chk_sum = chk_sum + drop_bit 16 src;
          chk_sum = drop_bit 16 chk_sum + (chk_sum AND 0xFFFF);
          chk_sum = drop_bit 16 chk_sum + chk_sum
      in ucast (NOT chk_sum))"

section \<open>Output\<close>

text \<open>The part behind the header: loopback, fragmentation or the interface.\<close>

definition ip4_transmit :: "(ptr \<Rightarrow> bool) \<Rightarrow> heap \<Rightarrow> pptr \<Rightarrow> u32_t \<Rightarrow> netif \<Rightarrow> (err_t \<times> heap) outcome" where
  "ip4_transmit od h p dest nif =
     (if dest = n_ip_addr nif then netif_loop_output h nif p
      else bnd (pget h p) (\<lambda>b.
        if n_mtu nif \<noteq> 0 \<and> p_tot_len b > n_mtu nif then
          bnd (ip4_frag (\<lambda>_ h q. bnd (output_ip4 h q) (\<lambda>(_, h). Inr ((), h))) od () h p nif) (\<lambda>(err, _, h). Inr (err, h))
        else output_ip4 h p))"

text \<open>\<open>dest\<close> is \<open>None\<close> for \<^verbatim>\<open>LWIP_IP_HDRINCL\<close>, \<open>src\<close> is \<open>None\<close> for \<^verbatim>\<open>NULL\<close>.\<close>

definition ip4_output_if_src ::
  "(ptr \<Rightarrow> bool) \<Rightarrow> heap \<Rightarrow> pptr \<Rightarrow> u32_t option \<Rightarrow> u32_t option \<Rightarrow> u8_t \<Rightarrow> u8_t \<Rightarrow> u8_t \<Rightarrow> netif \<Rightarrow> (err_t \<times> heap) outcome" where
  "ip4_output_if_src od h p src dest ttl' tos' proto nif =
     bnd (pget h p) (\<lambda>b. lwip_assert (p_ref b = 1) (
     case dest of
       Some d \<Rightarrow>
         bnd (pbuf_add_header h p IP_HLEN) (\<lambda>(r, h).
         if r \<noteq> 0 then Inr (ERR_BUF, h)
         else
           bnd (pget h p) (\<lambda>b. lwip_assert (unat (p_len b) \<ge> IP_HLEN) (
           let len = lwip_htons (p_tot_len b); ident = lwip_htons (ip_id (net h));
               h = h\<lparr>net := (net h)\<lparr>ip_id := ip_id (net h) + 1\<rparr>\<rparr>;
               s = (case src of None \<Rightarrow> IPADDR_ANY | Some s \<Rightarrow> s)
           in bnd (write_iphdr h p (mk_iphdr tos' len ident 0 ttl' proto (ip4_inline_chksum tos' len ident ttl' proto s d) s d)) (\<lambda>h.
              ip4_transmit od h p d nif))))
     | None \<Rightarrow>
         if unat (p_len b) < IP_HLEN then Inr (ERR_BUF, h)
         else bnd (mem_read h (p_payload b) 16 4) (\<lambda>bs. ip4_transmit od h p (le32 (bs ! 0) (bs ! 1) (bs ! 2) (bs ! 3)) nif)))"

definition ip4_output_if ::
  "(ptr \<Rightarrow> bool) \<Rightarrow> heap \<Rightarrow> pptr \<Rightarrow> u32_t option \<Rightarrow> u32_t option \<Rightarrow> u8_t \<Rightarrow> u8_t \<Rightarrow> u8_t \<Rightarrow> netif \<Rightarrow> (err_t \<times> heap) outcome" where
  "ip4_output_if od h p src dest ttl' tos' proto nif =
     (let src_used = (if dest \<noteq> None \<and> (src = None \<or> src = Some IPADDR_ANY) then Some (n_ip_addr nif) else src)
      in ip4_output_if_src od h p src_used dest ttl' tos' proto nif)"

definition ip4_output ::
  "(ptr \<Rightarrow> bool) \<Rightarrow> netif list \<Rightarrow> heap \<Rightarrow> pptr \<Rightarrow> u32_t option \<Rightarrow> u32_t option \<Rightarrow> u8_t \<Rightarrow> u8_t \<Rightarrow> u8_t \<Rightarrow> (err_t \<times> heap) outcome" where
  "ip4_output od netifs h p src dest ttl' tos' proto =
     bnd (pget h p) (\<lambda>b. lwip_assert (p_ref b = 1) (
     case ip4_route netifs (case dest of None \<Rightarrow> 0 | Some d \<Rightarrow> d) of
       None \<Rightarrow> Inr (ERR_RTE, h)
     | Some nif \<Rightarrow> ip4_output_if od h p src dest ttl' tos' proto nif))"

section \<open>The header that goes out\<close>

lemma length_u32_bytes [simp]: "length (u32_bytes w) = 4"
  by (simp add: u32_bytes_def)

lemma length_mk_iphdr [simp]: "length (mk_iphdr tos' len ident offset ttl' proto chksum src dest) = 20"
  by (simp add: mk_iphdr_def)

lemma lsum_mk_iphdr: "lsum (mk_iphdr tos' len ident offset ttl' proto chksum src dest)
  = unat (lwip_htons (ucast tos' OR push_bit 8 0x45)) + unat len + unat ident + unat offset
    + unat (lwip_htons (ucast proto OR push_bit 8 (ucast ttl'))) + unat chksum + lsum (u32_bytes src) + lsum (u32_bytes dest)"
proof -
  have s: "unat (lwip_htons (ucast lo OR push_bit 8 (ucast hi))) = unat (hi :: byte) + 256 * unat (lo :: byte)" for lo hi
    using unat_htons_le16 [of lo hi] by (simp add: le16_def add.commute)
  have "unat (lwip_htons (ucast tos' OR push_bit 8 0x45)) = 0x45 + 256 * unat tos'"
    using s [of tos' "0x45"] by simp
  then show ?thesis using s [of proto ttl']
    by (simp add: mk_iphdr_def lsum_append lsum_u16_bytes)
qed

lemma inline_fold:
  fixes x :: u32_t
  assumes "unat x \<le> 1000000"
  defines "y \<equiv> drop_bit 16 x + (x AND 0xFFFF)"
  shows "unat (ucast (NOT (drop_bit 16 y + y)) :: u16_t) = 65535 - ocnorm (unat x)"
proof -
  have y: "unat y = unat x div 65536 + unat x mod 65536"
    using unat_FOLD_U32T [of x] by (simp add: FOLD_U32T_def y_def)
  have ly: "unat y < 131072" using y assms(1) by linarith
  have z: "unat (drop_bit 16 y + y) = unat y div 65536 + unat y"
    using ly by (subst unat_add_lem [THEN iffD1]) (auto simp: word_nat)
  have "ucast (NOT (drop_bit 16 y + y)) = (NOT (ucast (drop_bit 16 y + y)) :: u16_t)"
    by (rule bit_word_eqI) (auto simp: bit_simps)
  then have "unat (ucast (NOT (drop_bit 16 y + y)) :: u16_t) = 65535 - (unat y div 65536 + unat y) mod 65536"
    by (simp add: unat_not_16 unat_ucast_32_16 z)
  moreover have "(unat y div 65536 + unat y) mod 65536 = unat y div 65536 + unat y mod 65536"
  proof (cases "unat y < 65536")
    case False
    have "unat y \<le> 65550" using y assms(1) by linarith
    then have "unat y div 65536 = 1" "unat y mod 65536 = unat y - 65536" "(1 + unat y) mod 65536 = 1 + unat y - 65536"
      using False by (auto simp: div_if le_mod_geq)
    then show ?thesis using False by simp
  qed simp
  moreover have "\<dots> = ocnorm (unat y)"
    using fold_once_le [of "unat y"] ocnorm_fold [of "unat y"] ly y assms(1) by (simp add: ocnorm_small)
  moreover have "ocnorm (unat y) = ocnorm (unat x)" by (simp add: y ocnorm_fold)
  ultimately show ?thesis by simp
qed

text \<open>The checksum kept while the header is filled in is the checksum of the header.\<close>

lemma ip4_inline_chksum_eq:
  "ip4_inline_chksum tos' len ident ttl' proto src dest = internet_checksum (mk_iphdr tos' len ident 0 ttl' proto 0 src dest)"
proof -
  let ?hdr = "mk_iphdr tos' len ident 0 ttl' proto 0 src dest"
  define x :: u32_t where "x = ucast (lwip_htons (ucast proto OR push_bit 8 (ucast ttl'))) + (dest AND 0xFFFF) + drop_bit 16 dest
    + ucast (lwip_htons (ucast tos' OR push_bit 8 0x45)) + ucast len + ucast ident + (src AND 0xFFFF) + drop_bit 16 src"
  have "unat v div 65536 < 4294967296" for v :: u32_t using div_le_dividend [of "unat v" 65536] unat_lt_32 [of v] by linarith
  then have c: "ucast (w :: u16_t) = (of_nat (unat w) :: u32_t)" "v AND 0xFFFF = (of_nat (unat v mod 65536) :: u32_t)"
    "drop_bit 16 v = (of_nat (unat v div 65536) :: u32_t)" for w and v :: u32_t
    by (simp_all add: word_unat_eq_iff word_nat and_0xffff unat_of_nat)
  have "x = of_nat (lsum ?hdr)"
    unfolding x_def c lsum_mk_iphdr lsum_u32_bytes by simp
  moreover have "lsum ?hdr \<le> 655350" using lsum_le [of ?hdr] by simp
  ultimately have x: "unat x = lsum ?hdr" "unat x \<le> 1000000" by (simp_all add: unat_of_nat)
  have "ip4_inline_chksum tos' len ident ttl' proto src dest
      = ucast (NOT (drop_bit 16 (drop_bit 16 x + (x AND 0xFFFF)) + (drop_bit 16 x + (x AND 0xFFFF))))"
    by (simp add: ip4_inline_chksum_def x_def Let_def)
  then show ?thesis using inline_fold [OF x(2)] x(1) by (intro internet_checksum_eqI) simp
qed

section \<open>Sending a chain\<close>

lemma net_upd_simps [simp]:
  "pget (h\<lparr>net := n\<rparr>) p = pget h p" "pb (h\<lparr>net := n\<rparr>) a = pb h a" "fuel (h\<lparr>net := n\<rparr>) = fuel h"
  "seg (h\<lparr>net := n\<rparr>) = seg h" "payload_ok (h\<lparr>net := n\<rparr>) a = payload_ok h a" "block (h\<lparr>net := n\<rparr>) = block h"
  "heap_ok (h\<lparr>net := n\<rparr>) = heap_ok h" "mem_read (h\<lparr>net := n\<rparr>) d off k = mem_read h d off k"
  by (simp_all add: pget_def pb_def fuel_def seg_def payload_ok_def block_def heap_ok_def mem_read_def fun_eq_iff split: option.splits)

lemma chain_net_upd [simp]:
  "path (h\<lparr>net := n\<rparr>) p qs = path h p qs" "tots (h\<lparr>net := n\<rparr>) qs = tots h qs" "chain_data (h\<lparr>net := n\<rparr>) qs = chain_data h qs"
  "chain_ok (h\<lparr>net := n\<rparr>) p qs = chain_ok h p qs" "separate (h\<lparr>net := n\<rparr>) qs = separate h qs"
proof -
  show p: "path (h\<lparr>net := n\<rparr>) p qs = path h p qs" for p by (rule path_cong) simp
  show t: "tots (h\<lparr>net := n\<rparr>) qs = tots h qs" by (rule tots_cong) simp
  show "chain_data (h\<lparr>net := n\<rparr>) qs = chain_data h qs" by (rule chain_data_cong) simp
  show "chain_ok (h\<lparr>net := n\<rparr>) p qs = chain_ok h p qs" using p t by (simp add: chain_ok_def)
  show "separate (h\<lparr>net := n\<rparr>) qs = separate h qs" by (simp add: separate_def)
qed

lemma output_ip4_chain:
  assumes "heap_ok h" and "chain_ok h (Some a) qs"
  shows "output_ip4 h (Some a) = Inr (ERR_OK, OutputFn h (chain_data h qs))"
proof -
  obtain rs b where qs: "qs = a # rs" "pbufs h a = Some b" "payload_ok h a" "unat (p_tot_len b) = length (seg h a) + length (chain_data h rs)"
    using assms(2) by (cases qs) (auto simp: chain_ok_Cons length_seg)
  show ?thesis
  proof (cases "p_tot_len b = p_len b")
    case True
    then have "chain_data h rs = []" using qs length_seg [OF qs(3)] by simp
    then show ?thesis using True qs mem_read_seg [OF qs(3), of 0 "unat (p_len b)"] length_seg [OF qs(3)]
      by (simp add: output_ip4_def)
  next
    case False
    let ?d = "chain_data h qs"
    have l: "unat (p_tot_len b) = length ?d" using qs by simp
    have "length ?d \<le> length (NewBytes (unat (p_tot_len b)))" by (simp add: NewBytes_def l)
    then show ?thesis using False qs(2) l pbuf_copy_partial_data [OF assms, of ?d "p_tot_len b" 0 "NewBytes (unat (p_tot_len b))"]
      by (simp add: output_ip4_def)
  qed
qed

lemma write_iphdr_chain:
  assumes "chain_ok h (Some a) (a # qs)" and "separate h (a # qs)" and "20 \<le> unat (p_len (pb h a))" and "length hdr = 20"
  shows "\<exists>m. write_iphdr h (Some a) hdr = Inr (h\<lparr>mem := m\<rparr>) \<and> same_shape (mem h) m
    \<and> chain_data (h\<lparr>mem := m\<rparr>) (a # qs) = hdr @ drop 20 (chain_data h (a # qs))"
proof -
  obtain b where b: "pbufs h a = Some b" "payload_ok h a" using assms(1) by (auto simp: chain_ok_Cons)
  obtain m where m: "mem_write h (p_payload (pb h a)) 0 hdr = Inr (h\<lparr>mem := m\<rparr>)" "same_shape (mem h) m"
    "seg (h\<lparr>mem := m\<rparr>) a = patch (seg h a) 0 hdr"
    "\<forall>c. block h c \<noteq> block h a \<or> block h c = None \<longrightarrow> seg (h\<lparr>mem := m\<rparr>) c = seg h c"
    using mem_write_seg [OF b(2), of 0 hdr] assms(3,4) by auto
  have "seg (h\<lparr>mem := m\<rparr>) c = seg h c" if "c \<in> set qs" for c
    using m(4) assms(2) that by (metis image_eqI separate_Cons)
  then have "chain_data (h\<lparr>mem := m\<rparr>) qs = chain_data h qs" by (rule chain_data_cong)
  then show ?thesis using m b assms(3,4) length_seg [OF b(2)]
    by (intro exI [of _ m]) (simp add: write_iphdr_def patch_0)
qed

text \<open>A packet whose first pbuf has room for more headers in front of its data.\<close>

definition roomy :: "heap \<Rightarrow> nat \<Rightarrow> nat list \<Rightarrow> nat \<Rightarrow> bool" where
  "roomy h a qs room \<longleftrightarrow> writable (Some a) (a # qs) h \<and> contiguous_at h a (pb h a) room \<and> p_ref (pb h a) = 1
     \<and> (case mem h a of None \<Rightarrow> False | Some bs \<Rightarrow> room + unat (p_len (pb h a)) \<le> length bs) \<and> (\<forall>q\<in>set qs. block h q \<noteq> Some a)"

lemma roomyE:
  assumes "roomy h a qs room"
  obtains b bs where "heap_ok h" "chain_ok h (Some a) (a # qs)" "separate h (a # qs)" "contiguous_at h a b room" "p_ref b = 1"
    "mem h a = Some bs" "room + unat (p_len b) \<le> length bs" "\<forall>q\<in>set qs. block h q \<noteq> Some a" "pb h a = b" "pbufs h a = Some b"
  using assms unfolding roomy_def writable_def contiguous_at_def by (metis (no_types, lifting) option.case_eq_if option.collapse)

lemma roomyI:
  assumes "writable (Some a) (a # qs) h" "contiguous_at h a b room" "p_ref b = 1" "mem h a = Some bs"
    "room + unat (p_len b) \<le> length bs" "\<forall>q\<in>set qs. block h q \<noteq> Some a"
  shows "roomy h a qs room"
proof -
  have "pb h a = b" using assms(2) by (simp add: contiguous_at_def)
  then show ?thesis using assms unfolding roomy_def by simp
qed

lemma contiguous_at_upd [simp]:
  "contiguous_at (h\<lparr>mem := m\<rparr>) a b room = contiguous_at h a b room" "contiguous_at (h\<lparr>net := n\<rparr>) a b room = contiguous_at h a b room"
  by (simp_all add: contiguous_at_def)

lemma roomy_net [simp]: "roomy (h\<lparr>net := n\<rparr>) a qs room = roomy h a qs room"
  unfolding roomy_def writable_def by (simp split: option.split)

lemma roomy_mem:
  assumes "roomy h a qs room" and "same_shape (mem h) m"
  shows "roomy (h\<lparr>mem := m\<rparr>) a qs room"
  using assms same_shape_cases [OF assms(2), of a] unfolding roomy_def writable_def by (fastforce split: option.splits)

lemma roomy_add_header:
  assumes "roomy h a qs room" and "n \<le> room" and "n + length (chain_data h (a # qs)) \<le> 65535"
  shows "\<exists>h' bs. pbuf_add_header h (Some a) n = Inr (0, h') \<and> roomy h' a qs (room - n) \<and> net h' = net h
    \<and> chain_data h' (a # qs) = bs @ chain_data h (a # qs) \<and> length bs = n \<and> n \<le> unat (p_len (pb h' a))"
proof -
  obtain b bs where r: "heap_ok h" "chain_ok h (Some a) (a # qs)" "separate h (a # qs)" "contiguous_at h a b room" "p_ref b = 1"
    "mem h a = Some bs" "room + unat (p_len b) \<le> length bs" "\<forall>q\<in>set qs. block h q \<noteq> Some a" "pb h a = b"
    and pa: "pbufs h a = Some b" by (rule roomyE [OF assms(1)])
  let ?h = "h\<lparr>pbufs := (pbufs h)(a \<mapsto> add_hdr n b)\<rparr>"
  note c = chain_add_hdr [OF r(2,4,6,7) assms(2,3) refl]
  have tot: "n + unat (p_tot_len b) \<le> 65535" using chain_ok_tot_len [OF r(2)] assms(3) r(9) by simp
  have a: "a \<notin> set qs" using path_distinct [OF chain_ok_path [OF r(2)]] by simp
  have bq: "block ?h q = block h q" if "q \<in> set qs" for q using that a by (intro block_cong) auto
  have "block ?h a \<in> {None, Some a}" using r(4) by (auto simp: block_def contiguous_at_def add_hdr_def ptr_add_def)
  moreover have "block ?h ` set qs = block h ` set qs" using bq by (rule image_cong [OF refl])
  moreover have "separate ?h qs = separate h qs" using bq by (rule separate_cong)
  ultimately have sep: "separate ?h (a # qs)" using r(3,8) by (auto simp: separate_Cons)
  have "roomy ?h a qs (room - n)" unfolding roomy_def writable_def
  proof (intro conjI)
    show "heap_ok ?h" by (rule heap_ok_upd [OF r(1) pa])
    show "chain_ok ?h (Some a) (a # qs)" by (rule c(1))
    show "contiguous_at ?h a (pb ?h a) (room - n)"
      using r(4) assms(2) by (simp add: contiguous_at_def add_hdr_def ptr_add_def of_nat_diff)
    show "p_ref (pb ?h a) = 1" using r(5) by (simp add: add_hdr_def)
    show "case mem ?h a of None \<Rightarrow> False | Some bs \<Rightarrow> room - n + unat (p_len (pb ?h a)) \<le> length bs"
      using r(6,7) c(3) assms(2) by simp
    show "\<forall>q\<in>set qs. block ?h q \<noteq> Some a" using bq r(8) by simp
  qed (rule sep)
  moreover have "pbuf_add_header h (Some a) n = Inr (0, ?h)"
    using pbuf_add_header_contiguous [OF r(4), of n] assms(2) tot by simp
  moreover have "length (take n (drop (room - n) bs)) = n" using r(7) assms(2) by simp
  ultimately show ?thesis using c(2,3) by (intro exI [of _ ?h] exI [of _ "take n (drop (room - n) bs)"]) simp
qed

text \<open>The packet that \<^verbatim>\<open>ip4_output_if\<close> makes of some data.\<close>

definition ip4_packet :: "u8_t \<Rightarrow> u16_t \<Rightarrow> u8_t \<Rightarrow> u8_t \<Rightarrow> u32_t \<Rightarrow> u32_t \<Rightarrow> bytes \<Rightarrow> bytes" where
  "ip4_packet tos' ident ttl' proto src dest data =
     (let len = lwip_htons (of_nat (20 + length data)); c = internet_checksum (mk_iphdr tos' len (lwip_htons ident) 0 ttl' proto 0 src dest)
      in mk_iphdr tos' len (lwip_htons ident) 0 ttl' proto c src dest @ data)"

lemma mk_iphdr_verifies:
  assumes "c = internet_checksum (mk_iphdr tos' len ident offset ttl' proto 0 src dest)"
  shows "inet_chksum od (mk_iphdr tos' len ident offset ttl' proto c src dest) = 0"
proof -
  let ?pre = "[0x45, tos'] @ u16_bytes len @ u16_bytes ident @ u16_bytes offset @ [ttl', proto]" and ?post = "u32_bytes src @ u32_bytes dest"
  have e: "mk_iphdr tos' len ident offset ttl' proto w src dest = ?pre @ u16_bytes w @ ?post" for w by (simp add: mk_iphdr_def)
  have z: "u16_bytes 0 = [0, 0]" by (simp add: u16_bytes_def)
  have "c = inet_chksum od (?pre @ 0 # 0 # ?post)"
    using assms unfolding e z by (simp add: word_unat_eq_iff unat_internet_checksum inet_chksum_sum)
  then show ?thesis unfolding e using inet_chksum_stored [of ?pre ?post od od] by simp
qed

lemma ip4_packet_fields:
  assumes "20 + length data \<le> 65535" and "pkt = ip4_packet tos' ident ttl' proto src dest data"
  shows "drop 20 pkt = data" "inet_chksum od (take 20 pkt) = 0" "unat (lwip_ntohs (IPH_LEN pkt)) = length pkt"
    "take 4 (drop 12 pkt) = u32_bytes src" "take 4 (drop 16 pkt) = u32_bytes dest" "length pkt = 20 + length data"
proof -
  let ?len = "lwip_htons (of_nat (20 + length data))"
  obtain c where p: "pkt = mk_iphdr tos' ?len (lwip_htons ident) 0 ttl' proto c src dest @ data"
    and c: "c = internet_checksum (mk_iphdr tos' ?len (lwip_htons ident) 0 ttl' proto 0 src dest)"
    using assms(2) by (simp add: ip4_packet_def Let_def)
  show "drop 20 pkt = data" "length pkt = 20 + length data" "inet_chksum od (take 20 pkt) = 0"
    using p mk_iphdr_verifies [OF c] by simp_all
  have "IPH_LEN pkt = ?len" unfolding p by (simp add: IPH_LEN_def mk_iphdr_def u16_bytes_def)
  moreover have "unat (of_nat (20 + length data) :: u16_t) = 20 + length data" by (rule unat_of_nat_16 [OF assms(1)])
  ultimately show "unat (lwip_ntohs (IPH_LEN pkt)) = length pkt" using p by simp
  show "take 4 (drop 12 pkt) = u32_bytes src" "take 4 (drop 16 pkt) = u32_bytes dest"
    unfolding p by (simp_all add: mk_iphdr_def u16_bytes_def u32_bytes_def)
qed

lemma ip4_transmit_out:
  assumes "heap_ok h" and "chain_ok h (Some a) (a # qs)" and "dest \<noteq> n_ip_addr nif"
    and "n_mtu nif = 0 \<or> length (chain_data h (a # qs)) \<le> unat (n_mtu nif)"
  shows "ip4_transmit od h (Some a) dest nif = Inr (ERR_OK, OutputFn h (chain_data h (a # qs)))"
proof -
  obtain b where b: "pbufs h a = Some b" using assms(2) by (auto simp: chain_ok_Cons)
  have "\<not> (n_mtu nif \<noteq> 0 \<and> p_tot_len b > n_mtu nif)"
    using assms(4) chain_ok_tot_len [OF assms(2)] b by (auto simp: word_less_nat_alt)
  then show ?thesis using b assms(3) output_ip4_chain [OF assms(1,2)] by (auto simp: ip4_transmit_def)
qed

lemma ip4_output_if_src_out:
  assumes "roomy h a qs room" and "20 \<le> room" and "20 + length (chain_data h (a # qs)) \<le> 65535" and "dest \<noteq> n_ip_addr nif"
    and "n_mtu nif = 0 \<or> 20 + length (chain_data h (a # qs)) \<le> unat (n_mtu nif)"
  shows "\<exists>h'. ip4_output_if_src od h (Some a) (Some src) (Some dest) ttl' tos' proto nif = Inr (ERR_OK, h')
    \<and> net h' = (net h)\<lparr>ip_id := ip_id (net h) + 1,
        sent := sent (net h) @ [ip4_packet tos' (ip_id (net h)) ttl' proto src dest (chain_data h (a # qs))]\<rparr>
    \<and> roomy h' a qs (room - 20)"
proof -
  let ?d = "chain_data h (a # qs)"
  obtain b where b: "pbufs h a = Some b" "p_ref b = 1" by (rule roomyE [OF assms(1)])
  obtain h1 bs where h1: "pbuf_add_header h (Some a) 20 = Inr (0, h1)" "roomy h1 a qs (room - 20)" "net h1 = net h"
    "chain_data h1 (a # qs) = bs @ ?d" "length bs = 20" "20 \<le> unat (p_len (pb h1 a))"
    using roomy_add_header [OF assms(1,2)] assms(3) by auto
  have w1: "heap_ok h1" "chain_ok h1 (Some a) (a # qs)" "separate h1 (a # qs)" using h1(2) by (auto simp: roomy_def writable_def)
  obtain b1 where b1: "pbufs h1 a = Some b1" "20 \<le> unat (p_len b1)" using w1(2) h1(6) by (auto simp: chain_ok_Cons)
  have "unat (p_tot_len b1) = 20 + length ?d" using chain_ok_tot_len [OF w1(2)] h1(4,5) b1(1) by (simp del: chain_data_Cons)
  then have tot: "p_tot_len b1 = of_nat (20 + length ?d)" by (metis of_nat_unat ucast_id)
  let ?h2 = "h1\<lparr>net := (net h1)\<lparr>ip_id := ip_id (net h1) + 1\<rparr>\<rparr>"
  let ?len = "lwip_htons (p_tot_len b1)" and ?ident = "lwip_htons (ip_id (net h))"
  let ?hdr = "mk_iphdr tos' ?len ?ident 0 ttl' proto (ip4_inline_chksum tos' ?len ?ident ttl' proto src dest) src dest"
  obtain m where m: "write_iphdr ?h2 (Some a) ?hdr = Inr (?h2\<lparr>mem := m\<rparr>)" "same_shape (mem ?h2) m"
    "chain_data (?h2\<lparr>mem := m\<rparr>) (a # qs) = ?hdr @ drop 20 (chain_data ?h2 (a # qs))"
    using write_iphdr_chain [of ?h2 a qs ?hdr] w1 h1(6) by auto
  let ?h3 = "?h2\<lparr>mem := m\<rparr>"
  have d3: "chain_data ?h3 (a # qs) = ip4_packet tos' (ip_id (net h)) ttl' proto src dest ?d"
    unfolding m(3) by (simp add: ip4_packet_def Let_def ip4_inline_chksum_eq tot h1(4,5) del: chain_data_Cons)
  have ok3: "heap_ok ?h3" "chain_ok ?h3 (Some a) (a # qs)" using w1 m(2) by simp_all
  have "length (chain_data ?h3 (a # qs)) = 20 + length ?d" unfolding d3 by (simp add: ip4_packet_def Let_def)
  then have t: "ip4_transmit od ?h3 (Some a) dest nif = Inr (ERR_OK, OutputFn ?h3 (chain_data ?h3 (a # qs)))"
    using ip4_transmit_out [OF ok3 assms(4)] assms(5) by simp
  have "ip4_output_if_src od h (Some a) (Some src) (Some dest) ttl' tos' proto nif = Inr (ERR_OK, OutputFn ?h3 (chain_data ?h3 (a # qs)))"
    using b h1(1) b1 m(1) t h1(3) by (simp add: ip4_output_if_src_def del: chain_data_Cons)
  moreover have "roomy (OutputFn ?h3 x) a qs (room - 20)" for x
    using roomy_mem [of h1 a qs "room - 20" m] h1(2) m(2) by (simp add: OutputFn_def)
  ultimately show ?thesis using h1(3) d3 by (simp add: OutputFn_def del: chain_data_Cons)
qed

text \<open>
  C23: \<^verbatim>\<open>ip4_output_if\<close> given a packet with room for the header, which does not go to the interface itself and fits its MTU: the
  application's output function gets exactly one packet, a 20 byte header with the given fields, the next identification,
  the length and, when no source is given, the address of the interface, followed by the data; the checksum that the
  code sums up while it writes the fields is one that a receiver accepts.
\<close>

theorem ip4_output_if_sends:
  assumes "roomy h a qs room" and "20 \<le> room" and "20 + length (chain_data h (a # qs)) \<le> 65535" and "dest \<noteq> n_ip_addr nif"
    and "n_mtu nif = 0 \<or> 20 + length (chain_data h (a # qs)) \<le> unat (n_mtu nif)"
    and "s = (if src = None \<or> src = Some 0 then n_ip_addr nif else the src)"
    and "pkt = ip4_packet tos' (ip_id (net h)) ttl' proto s dest (chain_data h (a # qs))"
  shows "\<exists>h'. ip4_output_if od h (Some a) src (Some dest) ttl' tos' proto nif = Inr (ERR_OK, h')
    \<and> sent (net h') = sent (net h) @ [pkt] \<and> ip_id (net h') = ip_id (net h) + 1
    \<and> drop 20 pkt = chain_data h (a # qs) \<and> inet_chksum x (take 20 pkt) = 0
    \<and> unat (lwip_ntohs (IPH_LEN pkt)) = length pkt \<and> take 4 (drop 12 pkt) = u32_bytes s \<and> take 4 (drop 16 pkt) = u32_bytes dest"
proof -
  have "Some s = (if src = None \<or> src = Some 0 then Some (n_ip_addr nif) else src)" using assms(6) by auto
  then have "ip4_output_if od h (Some a) src (Some dest) ttl' tos' proto nif
      = ip4_output_if_src od h (Some a) (Some s) (Some dest) ttl' tos' proto nif" by (simp add: ip4_output_if_def)
  then obtain h' where h': "ip4_output_if od h (Some a) src (Some dest) ttl' tos' proto nif = Inr (ERR_OK, h')"
    "sent (net h') = sent (net h) @ [pkt]" "ip_id (net h') = ip_id (net h) + 1"
    using ip4_output_if_src_out [OF assms(1-5), of od s ttl' tos' proto] unfolding assms(7) by auto
  show ?thesis using h' assms(3) ip4_packet_fields [OF assms(3,7)]
    by auto
qed

section \<open>Packets in one pbuf\<close>

lemma ram_roomy:
  assumes "heap_ok h" and "a < nextid h" and "length pre + length data \<le> 65535"
  shows "roomy (with_ram h a pre data) a [] (length pre)"
proof -
  let ?h = "with_ram h a pre data" and ?b = "ram_pbuf a (of_nat (length pre)) (of_nat (length data))"
  have "contiguous_at ?h a ?b (length pre)" using assms(3) by (simp add: contiguous_at_def ram_pbuf_def uint_of_nat_16)
  moreover have "writable (Some a) [a] ?h"
    unfolding writable_def by (intro conjI ram_chain(1) ram_heap_ok assms) (simp add: separate_def)
  moreover have "p_ref ?b = 1" "length pre + unat (p_len ?b) \<le> length (pre @ data)"
    using assms(3) by (simp_all add: ram_pbuf_def unat_of_nat_16)
  moreover have "mem ?h a = Some (pre @ data)" by simp
  ultimately show ?thesis by (intro roomyI) auto
qed

lemma ram_transmit:
  assumes "length pre + length data \<le> 65535" and "dest \<noteq> n_ip_addr nif" and "n_mtu nif = 0 \<or> length data \<le> unat (n_mtu nif)"
  shows "ip4_transmit od (with_ram h a pre data) (Some a) dest nif = Inr (ERR_OK, with_ram (OutputFn h data) a pre data)"
proof -
  let ?b = "ram_pbuf a (of_nat (length pre)) (of_nat (length data))"
  have b: "unat (p_tot_len ?b) = length data" "p_len ?b = p_tot_len ?b" "p_payload ?b = Some (a, uint (of_nat (length pre) :: u16_t))"
    using assms(1) by (simp_all add: ram_pbuf_def unat_of_nat_16)
  have "output_ip4 (with_ram h a pre data) (Some a) = Inr (ERR_OK, with_ram (OutputFn h data) a pre data)"
    using ram_read [OF assms(1), of 0 "length data" h a] b by (simp add: output_ip4_def OutputFn_def)
  moreover have "\<not> (n_mtu nif \<noteq> 0 \<and> p_tot_len ?b > n_mtu nif)"
    using assms(3) b(1) by (auto simp: word_less_nat_alt)
  ultimately show ?thesis using assms(2) by (auto simp: ip4_transmit_def)
qed

lemma ram_pbuf_sel [simp]:
  "p_payload (ram_pbuf a layer len) = Some (a, uint layer)" "p_len (ram_pbuf a layer len) = len" "p_tot_len (ram_pbuf a layer len) = len"
  "p_ref (ram_pbuf a layer len) = 1" "p_next (ram_pbuf a layer len) = None"
  by (simp_all add: ram_pbuf_def)

lemma ram_output:
  assumes "length pre + 20 + length data \<le> 65535" and "length hdr = 20" and "dest \<noteq> n_ip_addr nif"
    and "n_mtu nif = 0 \<or> 20 + length data \<le> unat (n_mtu nif)"
  shows "ip4_output_if_src od (with_ram h a (pre @ hdr) data) (Some a) (Some src) (Some dest) ttl' tos' proto nif
    = Inr (ERR_OK, with_ram (h\<lparr>net := (net h)\<lparr>ip_id := ip_id (net h) + 1,
        sent := sent (net h) @ [ip4_packet tos' (ip_id (net h)) ttl' proto src dest data]\<rparr>\<rparr>) a pre
        (ip4_packet tos' (ip_id (net h)) ttl' proto src dest data))"
proof -
  let ?pkt = "ip4_packet tos' (ip_id (net h)) ttl' proto src dest data"
  let ?h = "h\<lparr>net := (net h)\<lparr>ip_id := ip_id (net h) + 1\<rparr>\<rparr>"
  have l: "length ?pkt = 20 + length data" by (simp add: ip4_packet_def Let_def)
  have a: "pbuf_add_header (with_ram h a (pre @ hdr) data) (Some a) 20 = Inr (0, with_ram h a pre (hdr @ data))"
    using ram_add_header [of pre hdr data h a] assms(1,2) by simp
  have len: "unat (of_nat (length (hdr @ data)) :: u16_t) = 20 + length data"
    using assms(1,2) unat_of_nat_16 [of "length (hdr @ data)"] by simp
  have "write_iphdr (with_ram ?h a pre (hdr @ data)) (Some a) x = Inr (with_ram ?h a pre (x @ data))" if "length x = 20" for x
    using ram_write [of pre "hdr @ data" 0 x ?h a] assms(1,2) that by (simp add: write_iphdr_def patch_def)
  then have w: "write_iphdr (with_ram ?h a pre (hdr @ data)) (Some a) (mk_iphdr tos' (lwip_htons (of_nat (length (hdr @ data))))
      (lwip_htons (ip_id (net h))) 0 ttl' proto (ip4_inline_chksum tos' (lwip_htons (of_nat (length (hdr @ data)))) (lwip_htons (ip_id (net h))) ttl' proto src dest) src dest)
      = Inr (with_ram ?h a pre ?pkt)"
    using assms(2) by (simp add: ip4_packet_def Let_def ip4_inline_chksum_eq)
  have t: "ip4_transmit od (with_ram ?h a pre ?pkt) (Some a) dest nif = Inr (ERR_OK, with_ram (OutputFn ?h ?pkt) a pre ?pkt)"
    by (rule ram_transmit) (use assms l in auto)
  show ?thesis using a w t len by (simp add: ip4_output_if_src_def Let_def OutputFn_def)
qed

text \<open>A heap with one packet of four bytes, and an interface for which it is meant.\<close>

definition sample_out :: heap where
  "sample_out = with_ram (sample\<lparr>pbufs := Map.empty, mem := Map.empty\<rparr>) 0 (replicate 54 0) [1, 2, 3, 4]"

definition sample_out_netif :: netif where
  "sample_out_netif = \<lparr>n_ip_addr = 0x0100007f, n_netmask = 0xff, n_gw = 0x0100007f, n_ip6_addr = [], n_ip6_addr_state = [],
     n_mtu = 1500, n_flags = 5, n_num = 0\<rparr>"

lemma sample_out_roomy: "roomy sample_out 0 [] 54" "chain_data sample_out [0] = [1, 2, 3, 4]" "net sample_out = init_net"
proof -
  have "heap_ok (sample\<lparr>pbufs := Map.empty, mem := Map.empty\<rparr>)" "(0 :: nat) < nextid (sample\<lparr>pbufs := Map.empty, mem := Map.empty\<rparr>)"
    by (simp_all add: heap_ok_def sample_def)
  note r = ram_roomy [OF this, of "replicate 54 0" "[1, 2, 3, 4]"]
  show "roomy sample_out 0 [] 54" using r unfolding sample_out_def by (simp only: length_replicate) simp
  show "chain_data sample_out [0] = [1, 2, 3, 4]" unfolding sample_out_def by (rule ram_chain(2)) simp
  show "net sample_out = init_net" by (simp add: sample_out_def sample_def)
qed

theorem ip4_output_if_sends_witness:
  "\<exists>h'. ip4_output_if (\<lambda>_. False) sample_out (Some 0) None (Some 0x0200000a) 64 0 17 sample_out_netif = Inr (ERR_OK, h')
    \<and> sent (net h') = [ip4_packet 0 0 64 17 0x0100007f 0x0200000a [1, 2, 3, 4]] \<and> ip_id (net h') = 1"
  using ip4_output_if_sends [OF sample_out_roomy(1), where od = "\<lambda>_. False" and dest = "0x0200000a" and nif = sample_out_netif and src = None
    and tos' = 0 and ttl' = 64 and proto = 17 and x = False, OF _ _ _ _ refl refl]
  by (simp add: sample_out_roomy(2,3) sample_out_netif_def init_net_def del: chain_data_Cons) blast

end
