(* ===== verification/Raw_C.thy ===== *)
theory Raw_C
  imports Ip4_Out
begin

text \<open>
  \<^verbatim>\<open>core/raw.c\<close>: raw pcbs see every packet before the transport protocols do. The functions of \<^verbatim>\<open>ip6.c\<close> and the
  callbacks are parameters; a callback works on the packet and does not add or remove raw pcbs. \<open>od\<close> says which addresses
  are odd.
\<close>

section \<open>State\<close>

record raw_pcb =
  rp_local_ip :: ip_addr_t
  rp_remote_ip :: ip_addr_t
  rp_netif_idx :: u8_t
  rp_so_options :: u8_t
  rp_tos :: u8_t
  rp_ttl :: u8_t
  rp_protocol :: u8_t
  rp_flags :: u8_t
  rp_recv :: "nat option"
  rp_recv_arg :: nat
  rp_chksum_offset :: u16_t
  rp_chksum_reqd :: u8_t

record raw_globals =
  raw_at :: "nat \<Rightarrow> raw_pcb option"
  raw_pcbs :: "nat list"
  next_raw :: nat
  raw_oom :: "nat \<Rightarrow> bool"

record raw_env =
  raw_fn :: "nat \<Rightarrow> nat \<Rightarrow> nat \<Rightarrow> pptr \<Rightarrow> ip_addr_t \<Rightarrow> heap \<Rightarrow> (u8_t \<times> heap) outcome"
  raw_route6 :: "ip_addr_t \<Rightarrow> ip_addr_t \<Rightarrow> netif option"
  raw_local_ip6 :: "netif \<Rightarrow> ip_addr_t \<Rightarrow> ip_addr_t option"
  raw_output6 :: "heap \<Rightarrow> pptr \<Rightarrow> ip_addr_t \<Rightarrow> ip_addr_t option \<Rightarrow> u8_t \<Rightarrow> u8_t \<Rightarrow> u8_t \<Rightarrow> netif \<Rightarrow> (err_t \<times> heap) outcome"

datatype raw_input_state = RAW_INPUT_NONE | RAW_INPUT_EATEN | RAW_INPUT_DELIVERED

abbreviation (input) RAW_FLAGS_CONNECTED :: u8_t where "RAW_FLAGS_CONNECTED \<equiv> 0x01"
abbreviation (input) RAW_FLAGS_HDRINCL :: u8_t where "RAW_FLAGS_HDRINCL \<equiv> 0x02"
abbreviation (input) RAW_TTL :: u8_t where "RAW_TTL \<equiv> 64"
abbreviation (input) IP6_HLEN :: nat where "IP6_HLEN \<equiv> 40"

definition get_raw :: "raw_globals \<Rightarrow> nat \<Rightarrow> raw_pcb outcome" where
  "get_raw r i = (case raw_at r i of None \<Rightarrow> Inl Fault | Some c \<Rightarrow> Inr c)"

definition set_raw :: "raw_globals \<Rightarrow> nat \<Rightarrow> raw_pcb \<Rightarrow> raw_globals" where
  "set_raw r i c = r\<lparr>raw_at := (raw_at r)(i \<mapsto> c)\<rparr>"

section \<open>Input\<close>

text \<open>\<open>inp\<close> is \<^verbatim>\<open>ip_data.current_input_netif\<close>.\<close>

definition raw_input_local_match :: "ip_globals \<Rightarrow> netif \<Rightarrow> raw_pcb \<Rightarrow> bool \<Rightarrow> bool" where
  "raw_input_local_match g inp c broadcast =
     (if rp_netif_idx c \<noteq> NETIF_NO_INDEX \<and> rp_netif_idx c \<noteq> netif_get_index inp then False
      else if IP_IS_ANY_TYPE_VAL (rp_local_ip c) then True
      else if ip_type (rp_local_ip c) = ip_type (current_iphdr_dest g) then
        (if broadcast then ip_2_ip4 (rp_local_ip c) = IPADDR_ANY
         else ip_addr_isany (rp_local_ip c) \<or> ip_addr_cmp (rp_local_ip c) (current_iphdr_dest g))
      else False)"

definition raw_match :: "ip_globals \<Rightarrow> netif \<Rightarrow> u8_t \<Rightarrow> bool \<Rightarrow> raw_pcb \<Rightarrow> bool" where
  "raw_match g inp proto broadcast c \<longleftrightarrow> rp_protocol c = proto \<and> raw_input_local_match g inp c broadcast
     \<and> (rp_flags c AND RAW_FLAGS_CONNECTED = 0 \<or> ip_addr_cmp (rp_remote_ip c) (current_iphdr_src g))"

text \<open>The loop over the pcbs; \<open>xs\<close> are those from \<^verbatim>\<open>pcb\<close> on. The pcb that ate the packet moves to the front.\<close>

fun raw_input_loop ::
  "raw_env \<Rightarrow> ip_globals \<Rightarrow> netif \<Rightarrow> u8_t \<Rightarrow> bool \<Rightarrow> raw_globals \<Rightarrow> heap \<Rightarrow> pptr \<Rightarrow> nat list \<Rightarrow> raw_input_state
     \<Rightarrow> (raw_input_state \<times> raw_globals \<times> heap) outcome" where
  "raw_input_loop e g inp proto broadcast r h p [] ret = Inr (ret, r, h)"
| "raw_input_loop e g inp proto broadcast r h p (i # xs) ret =
     bnd (get_raw r i) (\<lambda>c.
     if raw_match g inp proto broadcast c then
       (case rp_recv c of
          None \<Rightarrow> raw_input_loop e g inp proto broadcast r h p xs ret
        | Some f \<Rightarrow>
            bnd (pget h p) (\<lambda>b.
            bnd (raw_fn e f (rp_recv_arg c) i p (current_iphdr_src g) h) (\<lambda>(eaten, h).
            if eaten \<noteq> 0 then Inr (RAW_INPUT_EATEN, r\<lparr>raw_pcbs := i # remove1 i (raw_pcbs r)\<rparr>, h)
            else bnd (pget h p) (\<lambda>b'. lwip_assert (p_payload b' = p_payload b)
                   (raw_input_loop e g inp proto broadcast r h p xs RAW_INPUT_DELIVERED)))))
     else raw_input_loop e g inp proto broadcast r h p xs ret)"

definition raw_input ::
  "raw_env \<Rightarrow> ip_globals \<Rightarrow> netif \<Rightarrow> raw_globals \<Rightarrow> heap \<Rightarrow> pptr \<Rightarrow> (raw_input_state \<times> raw_globals \<times> heap) outcome" where
  "raw_input e g inp r h p =
     (let broadcast = ip_addr_isbroadcast (current_iphdr_dest g) (current_netif g)
      in bnd (pget h p) (\<lambda>b.
         bnd (mem_read h (p_payload b) 0 1) (\<lambda>v.
         bnd (if drop_bit 4 (v ! 0) = 6 then mem_read h (p_payload b) 6 1 else mem_read h (p_payload b) 9 1) (\<lambda>proto.
         raw_input_loop e g inp (proto ! 0) broadcast r h p (raw_pcbs r) RAW_INPUT_NONE))))"

section \<open>Pcbs\<close>

definition raw_bind :: "raw_env \<Rightarrow> raw_globals \<Rightarrow> nat option \<Rightarrow> ip_addr_t option \<Rightarrow> (err_t \<times> raw_globals) outcome" where
  "raw_bind e r pcb ipaddr = (case (pcb, ipaddr) of
     (Some i, Some a) \<Rightarrow> bnd (get_raw r i) (\<lambda>c.
       let l = ip_addr_set a;
           l = (if IP_IS_V6 l \<and> ip6_addr_lacks_zone l then ip6_addr_select_zone (raw_route6 e) l l else l)
       in Inr (ERR_OK, set_raw r i (c\<lparr>rp_local_ip := l\<rparr>)))
   | _ \<Rightarrow> Inr (ERR_VAL, r))"

definition raw_bind_netif :: "raw_globals \<Rightarrow> nat \<Rightarrow> netif option \<Rightarrow> raw_globals outcome" where
  "raw_bind_netif r i nif = bnd (get_raw r i) (\<lambda>c.
     Inr (set_raw r i (c\<lparr>rp_netif_idx := (case nif of Some n \<Rightarrow> netif_get_index n | None \<Rightarrow> NETIF_NO_INDEX)\<rparr>)))"

definition raw_connect :: "raw_env \<Rightarrow> raw_globals \<Rightarrow> nat option \<Rightarrow> ip_addr_t option \<Rightarrow> (err_t \<times> raw_globals) outcome" where
  "raw_connect e r pcb ipaddr = (case (pcb, ipaddr) of
     (Some i, Some a) \<Rightarrow> bnd (get_raw r i) (\<lambda>c.
       let d = ip_addr_set a;
           d = (if IP_IS_V6 d \<and> ip6_addr_lacks_zone d then ip6_addr_select_zone (raw_route6 e) d (rp_local_ip c) else d)
       in Inr (ERR_OK, set_raw r i (c\<lparr>rp_remote_ip := d, rp_flags := rp_flags c OR RAW_FLAGS_CONNECTED\<rparr>)))
   | _ \<Rightarrow> Inr (ERR_VAL, r))"

definition raw_disconnect :: "raw_globals \<Rightarrow> nat \<Rightarrow> raw_globals outcome" where
  "raw_disconnect r i = bnd (get_raw r i) (\<lambda>c. Inr (set_raw r i (c\<lparr>
     rp_remote_ip := (if IP_IS_ANY_TYPE_VAL (rp_local_ip c) then ip_any_type else ip_addr_set_any (IP_IS_V6 (rp_remote_ip c))),
     rp_netif_idx := NETIF_NO_INDEX, rp_flags := rp_flags c AND NOT RAW_FLAGS_CONNECTED\<rparr>)))"

definition raw_recv :: "raw_globals \<Rightarrow> nat \<Rightarrow> nat option \<Rightarrow> nat \<Rightarrow> raw_globals outcome" where
  "raw_recv r i fn arg = bnd (get_raw r i) (\<lambda>c. Inr (set_raw r i (c\<lparr>rp_recv := fn, rp_recv_arg := arg\<rparr>)))"

text \<open>Taking a pcb out of the list is the loop of \<^verbatim>\<open>udp_remove\<close>.\<close>

definition raw_remove :: "raw_globals \<Rightarrow> nat \<Rightarrow> raw_globals outcome" where
  "raw_remove r i = bnd (get_raw r i) (\<lambda>_. Inr (r\<lparr>raw_pcbs := udp_unlink i (raw_pcbs r), raw_at := (raw_at r)(i := None)\<rparr>))"

definition raw_new :: "raw_globals \<Rightarrow> u8_t \<Rightarrow> nat option \<times> raw_globals" where
  "raw_new r proto =
     (let i = next_raw r; r = r\<lparr>next_raw := Suc i\<rparr>
      in if raw_oom r i then (None, r)
         else (Some i, (set_raw r i \<lparr>rp_local_ip = IP4_ADDR_ANY, rp_remote_ip = IP4_ADDR_ANY, rp_netif_idx = 0, rp_so_options = 0,
                 rp_tos = 0, rp_ttl = RAW_TTL, rp_protocol = proto, rp_flags = 0, rp_recv = None, rp_recv_arg = 0,
                 rp_chksum_offset = 0, rp_chksum_reqd = 0\<rparr>)\<lparr>raw_pcbs := i # raw_pcbs r\<rparr>))"

definition raw_new_ip_type :: "raw_globals \<Rightarrow> u8_t \<Rightarrow> u8_t \<Rightarrow> nat option \<times> raw_globals" where
  "raw_new_ip_type r ty proto = (case raw_new r proto of (None, r) \<Rightarrow> (None, r)
     | (Some i, r) \<Rightarrow> (let c = the (raw_at r i)
         in (Some i, set_raw r i (c\<lparr>rp_local_ip := (rp_local_ip c)\<lparr>ip_type := ty\<rparr>, rp_remote_ip := (rp_remote_ip c)\<lparr>ip_type := ty\<rparr>\<rparr>))))"

definition raw_netif_ip_addr_changed :: "raw_globals \<Rightarrow> ip_addr_t \<Rightarrow> ip_addr_t \<Rightarrow> raw_globals" where
  "raw_netif_ip_addr_changed r old_addr new_addr =
     (if \<not> ip_addr_isany old_addr \<and> \<not> ip_addr_isany new_addr
      then r\<lparr>raw_at := (\<lambda>i. case raw_at r i of None \<Rightarrow> None | Some c \<Rightarrow>
             Some (if i \<in> set (raw_pcbs r) \<and> ip_addr_cmp (rp_local_ip c) old_addr
                   then c\<lparr>rp_local_ip := ip_addr_set new_addr\<rparr> else c))\<rparr>
      else r)"

section \<open>Output\<close>

definition raw_version_match :: "raw_pcb \<Rightarrow> ip_addr_t \<Rightarrow> bool" where
  "raw_version_match c a \<longleftrightarrow> IP_IS_ANY_TYPE_VAL (rp_local_ip c) \<or> ip_type (rp_local_ip c) = ip_type a"

text \<open>Room for the IP header: checked in \<open>p\<close>, or an empty pbuf with room in front of it.\<close>

definition raw_header_room :: "heap \<Rightarrow> pptr \<Rightarrow> nat \<Rightarrow> (pptr \<times> heap) outcome" where
  "raw_header_room h p header_size =
     bnd (pbuf_add_header h p header_size) (\<lambda>(e, h).
     if e \<noteq> 0 then
       bnd (pbuf_alloc h PBUF_IP 0 PBUF_RAM) (\<lambda>(q, h).
       if q = None then Inr (None, h)
       else bnd (pget h p) (\<lambda>b. bnd (if p_tot_len b \<noteq> 0 then pbuf_chain h q p else Inr h) (\<lambda>h. Inr (q, h))))
     else bnd (pbuf_remove_header h p header_size) (\<lambda>(e, h). lwip_assert (e = 0) (Inr (p, h))))"

definition raw_chksum :: "(ptr \<Rightarrow> bool) \<Rightarrow> heap \<Rightarrow> pptr \<Rightarrow> raw_pcb \<Rightarrow> ip_addr_t \<Rightarrow> ip_addr_t \<Rightarrow> heap outcome" where
  "raw_chksum od h p c src_ip dst_ip =
     (if IP_IS_V6 dst_ip \<and> rp_chksum_reqd c \<noteq> 0 then
        bnd (pget h p) (\<lambda>b.
        bnd (ip6_chksum_pseudo od h p (rp_protocol c) (p_tot_len b) (u_addr src_ip) (u_addr dst_ip)) (\<lambda>chksum.
        lwip_assert (unat (p_len b) \<ge> unat (rp_chksum_offset c) + 2)
          (store16 h (p_payload b) (unat (rp_chksum_offset c)) chksum)))
      else Inr h)"

definition raw_sendto_if_src ::
  "(ptr \<Rightarrow> bool) \<Rightarrow> raw_env \<Rightarrow> raw_globals \<Rightarrow> heap \<Rightarrow> nat option \<Rightarrow> pptr \<Rightarrow> ip_addr_t option \<Rightarrow> netif option \<Rightarrow> ip_addr_t option
     \<Rightarrow> (err_t \<times> heap) outcome" where
  "raw_sendto_if_src od e r h pcb p dst_ip nif src_ip =
     (case (pcb, dst_ip, nif, src_ip) of
        (Some i, Some dst, Some n, Some src) \<Rightarrow>
          bnd (get_raw r i) (\<lambda>c.
          if \<not> raw_version_match c src \<or> \<not> raw_version_match c dst then Inr (ERR_VAL, h) else
          let header_size = (if IP_IS_V6 dst then IP6_HLEN else IP_HLEN) in
          bnd (pget h p) (\<lambda>b.
          if rp_flags c AND RAW_FLAGS_HDRINCL \<noteq> 0 then
            (if unat (p_len b) < header_size then Inr (ERR_VAL, h)
             else if IP_IS_V6 dst then raw_output6 e h p src None 0 0 0 n
             else ip4_output_if od h p (Some (ip_2_ip4 src)) None 0 0 0 n)
          else if p_tot_len b + of_nat header_size < p_tot_len b then Inr (ERR_MEM, h)
          else
            bnd (raw_header_room h p header_size) (\<lambda>(q, h).
            if q = None then Inr (ERR_MEM, h)
            else
              bnd (raw_chksum od h p c src dst) (\<lambda>h.
              bnd (if IP_IS_V6 dst then raw_output6 e h q src (Some dst) (rp_ttl c) (rp_tos c) (rp_protocol c) n
                   else ip4_output_if od h q (Some (ip_2_ip4 src)) (Some (ip_2_ip4 dst)) (rp_ttl c) (rp_tos c) (rp_protocol c) n) (\<lambda>(err, h).
              bnd (if q \<noteq> p then bnd (pbuf_free h q) (\<lambda>(_, h). Inr h) else Inr h) (\<lambda>h. Inr (err, h)))))))
      | _ \<Rightarrow> Inr (ERR_VAL, h))"

text \<open>The address of an interface as an \<^verbatim>\<open>ip_addr_t\<close>.\<close>

definition ip4_netif_get_local_ip :: "netif \<Rightarrow> ip_addr_t" where
  "ip4_netif_get_local_ip nif = \<lparr>u_addr = [n_ip_addr nif, 0, 0, 0], ip_zone = 0, ip_type = IPADDR_TYPE_V4\<rparr>"

definition raw_sendto ::
  "(ptr \<Rightarrow> bool) \<Rightarrow> raw_env \<Rightarrow> netif list \<Rightarrow> raw_globals \<Rightarrow> heap \<Rightarrow> nat option \<Rightarrow> pptr \<Rightarrow> ip_addr_t option \<Rightarrow> (err_t \<times> heap) outcome" where
  "raw_sendto od e netifs r h pcb p ipaddr =
     (case (pcb, ipaddr) of
        (Some i, Some dst) \<Rightarrow>
          bnd (get_raw r i) (\<lambda>c.
          if \<not> raw_version_match c dst then Inr (ERR_VAL, h) else
          case (if rp_netif_idx c \<noteq> NETIF_NO_INDEX then netif_get_by_index netifs (rp_netif_idx c)
                else if IP_IS_V6 dst then raw_route6 e (rp_local_ip c) dst else ip4_route netifs (ip_2_ip4 dst)) of
            None \<Rightarrow> Inr (ERR_RTE, h)
          | Some n \<Rightarrow>
              (case (if ip_addr_isany (rp_local_ip c) \<or> ip_addr_ismulticast (rp_local_ip c)
                     then if IP_IS_V6 dst then raw_local_ip6 e n dst else Some (ip4_netif_get_local_ip n)
                     else Some (rp_local_ip c)) of
                 None \<Rightarrow> Inr (ERR_RTE, h)
               | Some src \<Rightarrow> raw_sendto_if_src od e r h pcb p (Some dst) (Some n) (Some src)))
      | _ \<Rightarrow> Inr (ERR_VAL, h))"

definition raw_send ::
  "(ptr \<Rightarrow> bool) \<Rightarrow> raw_env \<Rightarrow> netif list \<Rightarrow> raw_globals \<Rightarrow> heap \<Rightarrow> nat \<Rightarrow> pptr \<Rightarrow> (err_t \<times> heap) outcome" where
  "raw_send od e netifs r h i p = bnd (get_raw r i) (\<lambda>c. raw_sendto od e netifs r h (Some i) p (Some (rp_remote_ip c)))"

section \<open>The list of pcbs\<close>

text \<open>Every pcb of the list is allocated and in it once.\<close>

definition raw_ok :: "raw_globals \<Rightarrow> bool" where
  "raw_ok r \<longleftrightarrow> distinct (raw_pcbs r) \<and> (\<forall>i. i \<in> set (raw_pcbs r) \<longleftrightarrow> raw_at r i \<noteq> None) \<and> (\<forall>i\<ge>next_raw r. raw_at r i = None)"

text \<open>The calls that change the module's state.\<close>

inductive raw_step :: "raw_globals \<Rightarrow> raw_globals \<Rightarrow> bool" where
  new: "raw_new_ip_type r ty proto = (pcb, r') \<Longrightarrow> raw_step r r'"
| bind: "raw_bind e r pcb a = Inr (err, r') \<Longrightarrow> raw_step r r'"
| bind_netif: "raw_bind_netif r i nif = Inr r' \<Longrightarrow> raw_step r r'"
| connect: "raw_connect e r pcb a = Inr (err, r') \<Longrightarrow> raw_step r r'"
| disconnect: "raw_disconnect r i = Inr r' \<Longrightarrow> raw_step r r'"
| recv: "raw_recv r i fn arg = Inr r' \<Longrightarrow> raw_step r r'"
| remove: "raw_remove r i = Inr r' \<Longrightarrow> raw_step r r'"
| addr_changed: "raw_step r (raw_netif_ip_addr_changed r old new)"
| input: "raw_input e g inp r h p = Inr (st, r', h') \<Longrightarrow> raw_step r r'"

inductive raw_reachable :: "raw_globals \<Rightarrow> bool" where
  init: "raw_at r = Map.empty \<Longrightarrow> raw_pcbs r = [] \<Longrightarrow> raw_reachable r"
| step: "raw_reachable r \<Longrightarrow> raw_step r r' \<Longrightarrow> raw_reachable r'"

lemma raw_ok_set:
  assumes "raw_ok r" and "raw_at r i \<noteq> None"
  shows "raw_ok (set_raw r i c)"
  using assms by (auto simp: raw_ok_def set_raw_def)

lemma get_raw_Inr: "get_raw r i = Inr c \<longleftrightarrow> raw_at r i = Some c"
  by (auto simp: get_raw_def split: option.splits)

lemma set_udp_unlink: "distinct xs \<Longrightarrow> set (udp_unlink i xs) = set xs - {i} \<and> distinct (udp_unlink i xs)"
proof -
  have *: "distinct (a # xs) \<Longrightarrow> a \<noteq> i \<Longrightarrow> udp_unlink_next i (a # xs) = a # remove1 i xs" for a and xs
    by (induction i "a # xs" arbitrary: a xs rule: udp_unlink_next.induct) auto
  show "distinct xs \<Longrightarrow> ?thesis" using * by (cases xs) (auto simp: udp_unlink_def)
qed

lemma raw_input_loop_pcbs:
  "raw_input_loop e g inp proto bc r h p xs ret = Inr (st, r', h')
    \<Longrightarrow> r' = r \<or> (\<exists>i\<in>set xs. r' = r\<lparr>raw_pcbs := i # remove1 i (raw_pcbs r)\<rparr>)"
proof (induction xs arbitrary: h ret)
  case (Cons i xs)
  show ?case using Cons.prems Cons.IH
    by (auto elim!: bnd_InrE split: if_splits option.splits prod.splits simp: lwip_assert_def) blast+
qed simp

lemma raw_step_ok: "raw_step r r' \<Longrightarrow> raw_ok r \<Longrightarrow> raw_ok r'"
proof (induction rule: raw_step.induct)
  case (new r ty proto pcb r')
  then show ?case
    by (auto simp: raw_new_ip_type_def raw_new_def raw_ok_def set_raw_def Let_def split: if_splits)
next
  case (input e g inp r h p st r' h')
  then have "r' = r \<or> (\<exists>i\<in>set (raw_pcbs r). r' = r\<lparr>raw_pcbs := i # remove1 i (raw_pcbs r)\<rparr>)"
    by (auto simp: raw_input_def Let_def elim!: bnd_InrE dest!: raw_input_loop_pcbs)
  then show ?case using input.prems by (auto simp: raw_ok_def)
next
  case (remove r i r')
  then show ?case using set_udp_unlink [of "raw_pcbs r" i] by (auto simp: raw_remove_def raw_ok_def get_raw_Inr elim!: bnd_InrE split: if_splits)
next
  case (addr_changed r old new)
  then show ?case by (auto simp: raw_netif_ip_addr_changed_def raw_ok_def split: option.splits)
qed (auto simp: raw_bind_def raw_bind_netif_def raw_connect_def raw_disconnect_def raw_recv_def get_raw_Inr Let_def
    elim!: bnd_InrE intro!: raw_ok_set split: option.splits)

lemma raw_reachable_ok: "raw_reachable r \<Longrightarrow> raw_ok r"
proof (induction rule: raw_reachable.induct)
  case (init r)
  then show ?case by (simp add: raw_ok_def)
qed (rule raw_step_ok)

text \<open>
  C24: Whatever sequence of calls the application and the stack make, the list of raw pcbs holds every allocated pcb once and
  no freed one, so that no call walks into freed memory.
\<close>

theorem raw_pcbs_invariant:
  assumes "raw_reachable r"
  shows "distinct (raw_pcbs r) \<and> (\<forall>i. i \<in> set (raw_pcbs r) \<longleftrightarrow> raw_at r i \<noteq> None)"
  using raw_reachable_ok [OF assms] by (simp add: raw_ok_def)

definition sample_raw0 :: raw_globals where
  "sample_raw0 = \<lparr>raw_at = Map.empty, raw_pcbs = [], next_raw = 0, raw_oom = (\<lambda>_. False)\<rparr>"

definition sample_raw1 :: raw_globals where
  "sample_raw1 = snd (raw_new_ip_type (snd (raw_new_ip_type sample_raw0 0 17)) 46 17)"

definition sample_raw :: raw_globals where
  "sample_raw = (case raw_recv sample_raw1 0 (Some 5) 7 of Inl _ \<Rightarrow> sample_raw1 | Inr r \<Rightarrow> r)"

lemma sample_raw1_eq: "raw_pcbs sample_raw1 = [1, 0]" "raw_recv sample_raw1 0 (Some 5) 7 = Inr sample_raw"
  by (simp_all add: sample_raw_def sample_raw1_def sample_raw0_def raw_new_ip_type_def raw_new_def set_raw_def raw_recv_def get_raw_def Let_def)

lemma sample_raw_reachable: "raw_reachable sample_raw"
proof -
  have "raw_reachable sample_raw0" by (rule raw_reachable.init) (simp_all add: sample_raw0_def)
  then have "raw_reachable (snd (raw_new_ip_type sample_raw0 0 17))" by (rule raw_reachable.step) (rule raw_step.new, rule prod.collapse [symmetric])
  then have "raw_reachable sample_raw1" unfolding sample_raw1_def by (rule raw_reachable.step) (rule raw_step.new, rule prod.collapse [symmetric])
  then show ?thesis using raw_step.recv [OF sample_raw1_eq(2)] by (rule raw_reachable.step)
qed

lemma sample_raw_pcbs: "raw_pcbs sample_raw = [1, 0]"
  by (simp add: sample_raw_def sample_raw1_def sample_raw0_def raw_new_ip_type_def raw_new_def set_raw_def raw_recv_def get_raw_def Let_def)

theorem raw_pcbs_invariant_witness: "distinct (raw_pcbs sample_raw) \<and> raw_pcbs sample_raw = [1, 0] \<and> raw_at sample_raw 0 \<noteq> None"
  using raw_pcbs_invariant [OF sample_raw_reachable] unfolding sample_raw_pcbs by (metis list.set_intros(1,2))

section \<open>Delivery\<close>

text \<open>The pcbs a packet is shown to, in the order of the list.\<close>

definition raw_hits :: "ip_globals \<Rightarrow> netif \<Rightarrow> u8_t \<Rightarrow> raw_globals \<Rightarrow> nat list \<Rightarrow> nat list" where
  "raw_hits g inp proto r xs = filter (\<lambda>i. case raw_at r i of None \<Rightarrow> False
     | Some c \<Rightarrow> raw_match g inp proto (ip_addr_isbroadcast (current_iphdr_dest g) (current_netif g)) c \<and> rp_recv c \<noteq> None) xs"

text \<open>What is assumed of the callbacks: they return; one that does not eat the packet leaves memory as it was.\<close>

definition raw_fn_ok :: "raw_env \<Rightarrow> ip_addr_t \<Rightarrow> raw_globals \<Rightarrow> heap \<Rightarrow> pptr \<Rightarrow> (nat \<Rightarrow> bool) \<Rightarrow> (nat \<Rightarrow> heap) \<Rightarrow> nat \<Rightarrow> bool" where
  "raw_fn_ok e src r h p eats after i \<longleftrightarrow> (case raw_at r i of None \<Rightarrow> False | Some c \<Rightarrow> (case rp_recv c of None \<Rightarrow> False
     | Some f \<Rightarrow> raw_fn e f (rp_recv_arg c) i p src h = Inr (if eats i then (1, after i) else (0, h))))"

lemma raw_input_loop_spec:
  assumes "\<forall>i\<in>set xs. raw_at r i \<noteq> None" and "pget h p = Inr b"
    and "\<forall>i\<in>set (raw_hits g inp proto r xs). raw_fn_ok e (current_iphdr_src g) r h p eats after i"
    and "bc = ip_addr_isbroadcast (current_iphdr_dest g) (current_netif g)"
  shows "raw_input_loop e g inp proto bc r h p xs ret = Inr (case find eats (raw_hits g inp proto r xs) of
       Some i \<Rightarrow> (RAW_INPUT_EATEN, r\<lparr>raw_pcbs := i # remove1 i (raw_pcbs r)\<rparr>, after i)
     | None \<Rightarrow> (if raw_hits g inp proto r xs = [] then ret else RAW_INPUT_DELIVERED, r, h))"
  using assms(1,3)
proof (induction xs arbitrary: ret)
  case (Cons i xs)
  obtain c where c: "raw_at r i = Some c" using Cons.prems(1) by auto
  have IH: "raw_input_loop e g inp proto bc r h p xs ret' = Inr (case find eats (raw_hits g inp proto r xs) of
       Some i \<Rightarrow> (RAW_INPUT_EATEN, r\<lparr>raw_pcbs := i # remove1 i (raw_pcbs r)\<rparr>, after i)
     | None \<Rightarrow> (if raw_hits g inp proto r xs = [] then ret' else RAW_INPUT_DELIVERED, r, h))" for ret'
    using Cons.prems by (intro Cons.IH) (auto simp: raw_hits_def)
  show ?case
  proof (cases "raw_match g inp proto bc c \<and> rp_recv c \<noteq> None")
    case True
    then have hits: "raw_hits g inp proto r (i # xs) = i # raw_hits g inp proto r xs" using c assms(4) by (simp add: raw_hits_def)
    then have "raw_fn_ok e (current_iphdr_src g) r h p eats after i" using Cons.prems(2) by simp
    then show ?thesis using True c assms(2) IH unfolding hits
      by (auto simp: raw_fn_ok_def get_raw_def split: option.splits if_splits)
  next
    case False
    then have "raw_hits g inp proto r (i # xs) = raw_hits g inp proto r xs" using c assms(4) by (simp add: raw_hits_def)
    then show ?thesis using False c IH by (auto simp: get_raw_def split: option.splits)
  qed
qed (simp add: raw_hits_def)

text \<open>
  C29: A packet is shown to the matching raw pcbs in the order of the list, up to the first that eats it; that one moves to the
  front of the list. If none eats it the list and the packet stay as they are, and the result says whether it was
  shown to one.
\<close>

theorem raw_input_delivers:
  assumes "raw_reachable r" and "chain_ok h (Some a) (a # qs)" and "20 \<le> unat (p_len (pb h a))" and "drop_bit 4 (chain_data h (a # qs) ! 0) = 4"
    and "hits = raw_hits g inp (chain_data h (a # qs) ! 9) r (raw_pcbs r)"
    and "\<forall>i\<in>set hits. raw_fn_ok e (current_iphdr_src g) r h (Some a) eats after i"
  shows "raw_input e g inp r h (Some a) = Inr (case find eats hits of
       Some i \<Rightarrow> (RAW_INPUT_EATEN, r\<lparr>raw_pcbs := i # remove1 i (raw_pcbs r)\<rparr>, after i)
     | None \<Rightarrow> (if hits = [] then RAW_INPUT_NONE else RAW_INPUT_DELIVERED, r, h))"
proof -
  have pcbs: "\<forall>i\<in>set (raw_pcbs r). raw_at r i \<noteq> None" using raw_reachable_ok [OF assms(1)] by (simp add: raw_ok_def)
  obtain b where b: "pbufs h a = Some b" "payload_ok h a" "pb h a = b" using assms(2) by (auto simp: chain_ok_Cons)
  have l: "20 \<le> length (seg h a)" using length_seg [OF b(2)] assms(3) by simp
  have v: "mem_read h (p_payload b) k 1 = Inr [chain_data h (a # qs) ! k]" if "k < 20" for k
  proof -
    have "take 1 (drop k (seg h a)) = [seg h a ! k]" using l that by (simp add: take_Suc_conv_app_nth)
    then show ?thesis using mem_read_seg [OF b(2), of k 1] assms(3) b(3) l that by (simp add: nth_append)
  qed
  have "raw_input e g inp r h (Some a) = raw_input_loop e g inp (chain_data h (a # qs) ! 9)
      (ip_addr_isbroadcast (current_iphdr_dest g) (current_netif g)) r h (Some a) (raw_pcbs r) RAW_INPUT_NONE"
    using v [of 0] v [of 9] assms(4) b(1) by (simp add: raw_input_def Let_def)
  also have "\<dots> = Inr (case find eats hits of
       Some i \<Rightarrow> (RAW_INPUT_EATEN, r\<lparr>raw_pcbs := i # remove1 i (raw_pcbs r)\<rparr>, after i)
     | None \<Rightarrow> (if hits = [] then RAW_INPUT_NONE else RAW_INPUT_DELIVERED, r, h))"
    unfolding assms(5) by (rule raw_input_loop_spec [OF pcbs _ _ refl]) (use assms(5,6) b(1) in auto)
  finally show ?thesis .
qed

text \<open>A UDP packet, and an application whose callback eats everything.\<close>

definition sample_raw_heap :: heap where
  "sample_raw_heap = sample\<lparr>pbufs := Map.empty(0 \<mapsto> sample_pbuf None 0 0 20 20),
     mem := Map.empty(0 \<mapsto> [0x45, 0, 0, 20, 0, 7, 0, 0, 64, 17, 0, 0, 10, 0, 0, 1, 10, 0, 0, 2])\<rparr>"

definition sample_raw_env :: raw_env where
  "sample_raw_env = \<lparr>raw_fn = \<lambda>f arg i p a h. bnd (pbuf_free h p) (\<lambda>(_, h). Inr (1, h)), raw_route6 = \<lambda>_ _. None,
     raw_local_ip6 = \<lambda>_ _. None, raw_output6 = \<lambda>h _ _ _ _ _ _ _. Inr (ERR_OK, h)\<rparr>"

theorem raw_input_delivers_witness:
  "\<exists>h'. raw_input sample_raw_env (sample_ip 0x0100000a 0x0200000a) sample_out_netif sample_raw sample_raw_heap (Some 0)
     = Inr (RAW_INPUT_EATEN, sample_raw\<lparr>raw_pcbs := [0, 1]\<rparr>, h')"
proof -
  let ?g = "sample_ip 0x0100000a 0x0200000a" and ?h = "sample_raw_heap"
  have ok: "chain_ok ?h (Some 0) [0]" "20 \<le> unat (p_len (pb ?h 0))" "drop_bit 4 (chain_data ?h [0] ! 0) = 4" "chain_data ?h [0] ! 9 = 17"
    by (simp_all add: chain_ok_Cons payload_ok_def sample_raw_heap_def seg_def)
  have hits: "raw_hits ?g sample_out_netif 17 sample_raw (raw_pcbs sample_raw) = [0]"
    unfolding sample_raw_pcbs by (simp add: raw_hits_def sample_raw_def sample_raw1_def sample_raw0_def raw_new_ip_type_def raw_new_def set_raw_def
        raw_recv_def get_raw_def Let_def raw_match_def raw_input_local_match_def sample_ip_def sample_addr_def
        IPADDR_TYPE_V4_def ip_2_ip4_def ip_addr_isany_def IP_IS_V6_def IPADDR_TYPE_V6_def)
  obtain h' where "pbuf_free ?h (Some 0) = Inr (1, h')"
    using pbuf_free_all [of ?h 0 "[0]"] chain_ok_path [OF ok(1)] by (auto simp: sample_raw_heap_def heap_ok_def freeable_def once_def pbuf_get_allocsrc_def)
  then have "raw_fn_ok sample_raw_env (current_iphdr_src ?g) sample_raw ?h (Some 0) (\<lambda>_. True) (\<lambda>_. h') 0"
    by (simp add: raw_fn_ok_def sample_raw_env_def sample_raw_def sample_raw1_def sample_raw0_def raw_new_ip_type_def raw_new_def set_raw_def
        raw_recv_def get_raw_def Let_def)
  then show ?thesis using raw_input_delivers [OF sample_raw_reachable ok(1-3) refl, of ?g sample_out_netif sample_raw_env "\<lambda>_. True" "\<lambda>_. h'"]
    unfolding ok(4) hits by (simp add: sample_raw_pcbs)
qed

end
