(* ===== verification/Reass_Queue.thy ===== *)
theory Reass_Queue
  imports Ip4_Frag
begin

text \<open>
  The queue of the fragments of one datagram, as an abstract list of intervals: where the new fragment goes, which fragments
  are dropped, and when the datagram is complete.
\<close>

section \<open>Abstract queues\<close>

text \<open>A fragment: its pbuf, the offset of its first byte and the offset behind its last.\<close>

type_synonym frag = "nat \<times> u16_t \<times> u16_t"

definition frags_ok :: "frag list \<Rightarrow> bool" where
  "frags_ok fs \<longleftrightarrow> sorted_wrt (\<lambda>(_, _, e) (_, s', _). e \<le> s') fs \<and> sorted_wrt (\<lambda>(_, s, _) (_, s', _). s < s') fs
     \<and> (\<forall>(_, s, e)\<in>set fs. s \<le> e)"

definition fits :: "u16_t \<Rightarrow> u16_t \<Rightarrow> frag list \<Rightarrow> bool" where
  "fits s e fs \<longleftrightarrow> (\<forall>(_, s', e')\<in>set fs. s < s' \<and> e \<le> s' \<or> s' < s \<and> e' \<le> s)"

definition insert_frag :: "frag \<Rightarrow> frag list \<Rightarrow> frag list" where
  "insert_frag f fs = (let before = (\<lambda>g. fst (snd g) < fst (snd f)) in takeWhile before fs @ f # dropWhile before fs)"

text \<open>Every fragment ends where the next one starts.\<close>

definition adjacent :: "frag list \<Rightarrow> bool" where
  "adjacent fs = successively (\<lambda>f g. snd (snd f) = fst (snd g)) fs"

definition complete :: "frag list \<Rightarrow> bool" where
  "complete fs \<longleftrightarrow> fs \<noteq> [] \<and> fst (snd (hd fs)) = 0 \<and> adjacent fs"

lemma adjacent_simps [simp]: "adjacent []" "adjacent [f]"
  "adjacent (f # g # fs) \<longleftrightarrow> snd (snd f) = fst (snd g) \<and> adjacent (g # fs)"
  by (simp_all add: adjacent_def)

lemma adjacent_split: "adjacent (us @ f # vs) \<longleftrightarrow> adjacent (us @ [f]) \<and> adjacent (f # vs)"
  by (auto simp: adjacent_def successively_append_iff)

lemma adjacent_snoc: "adjacent (us @ [f]) \<longleftrightarrow> adjacent us \<and> (us = [] \<or> snd (snd (last us)) = fst (snd f))"
  by (auto simp: adjacent_def successively_append_iff)

lemma frags_ok_insert:
  assumes "frags_ok fs" and "fits s e fs" and "s \<le> e"
  shows "frags_ok (insert_frag (a, s, e) fs)"
proof -
  let ?P = "\<lambda>g :: frag. fst (snd g) < s"
  have u: "\<forall>(_, s', e')\<in>set (takeWhile ?P fs). s' < s \<and> e' \<le> s"
    using assms(2) by (fastforce simp: fits_def dest: set_takeWhileD)
  have "sorted_wrt (\<lambda>(_, s, _) (_, s', _). s < s') fs" using assms(1) by (simp add: frags_ok_def)
  then have "\<forall>(_, s', e')\<in>set (dropWhile ?P fs). \<not> s' < s"
  proof (induction fs)
    case (Cons f fs)
    then show ?case by (auto split: prod.splits)
  qed simp
  then have v: "\<forall>(_, s', e')\<in>set (dropWhile ?P fs). s < s' \<and> e \<le> s'"
    using assms(2) by (fastforce simp: fits_def dest: set_dropWhileD)
  define T where "T = takeWhile ?P fs"
  define D where "D = dropWhile ?P fs"
  have ok: "frags_ok (T @ D)" using assms(1) by (simp add: T_def D_def)
  have u': "s' < s" "e' \<le> s" if "(b, s', e') \<in> set T" for b s' e' using u that by (auto simp: T_def)
  have v': "s < s'" "e \<le> s'" if "(b, s', e') \<in> set D" for b s' e' using v that by (auto simp: D_def)
  have "sorted_wrt (\<lambda>(_, _, e) (_, s', _). e \<le> s') (T @ (a, s, e) # D)"
    using ok u' v' by (auto simp: frags_ok_def sorted_wrt_append)
  moreover have "sorted_wrt (\<lambda>(_, s, _) (_, s', _). s < s') (T @ (a, s, e) # D)"
    using ok u' v' by (auto simp: frags_ok_def sorted_wrt_append)
  moreover have "\<forall>(_, s, e)\<in>set (T @ (a, s, e) # D). s \<le> e"
    using ok assms(3) by (auto simp: frags_ok_def)
  ultimately show ?thesis by (simp add: frags_ok_def insert_frag_def T_def D_def Let_def)
qed

section \<open>Linked queues\<close>

text \<open>\<open>frag_seg s p us q\<close>: following the helpers from \<open>p\<close> one meets the fragments \<open>us\<close> and then \<open>q\<close>.\<close>

fun frag_seg :: "reass \<Rightarrow> pptr \<Rightarrow> frag list \<Rightarrow> pptr \<Rightarrow> bool" where
  "frag_seg s p [] q \<longleftrightarrow> p = q"
| "frag_seg s p (f # fs) q \<longleftrightarrow> p = Some (fst f) \<and> pbufs (rheap s) (fst f) \<noteq> None
     \<and> (\<exists>nx. helper s (fst f) = Some \<lparr>next_pbuf = nx, frag_start = fst (snd f), frag_end = snd (snd f)\<rparr> \<and> frag_seg s nx fs q)"

lemma frag_seg_append: "frag_seg s p (us @ vs) q \<longleftrightarrow> (\<exists>m. frag_seg s p us m \<and> frag_seg s m vs q)"
  by (induction us arbitrary: p) auto

lemma frag_seg_cong:
  assumes "\<And>f. f \<in> set us \<Longrightarrow> helper s' (fst f) = helper s (fst f)"
    and "\<And>f. f \<in> set us \<Longrightarrow> (pbufs (rheap s') (fst f) = None) = (pbufs (rheap s) (fst f) = None)"
  shows "frag_seg s' p us q = frag_seg s p us q"
  using assms by (induction us arbitrary: p) auto

lemma get_helper_eq: "pbufs (rheap s) a \<noteq> None \<Longrightarrow> helper s a = Some i \<Longrightarrow> get_helper s (Some a) = Inr i"
  by (auto simp: get_helper_def)

lemma set_helper_simps [simp]: "rheap (set_helper s a i) = rheap s" "helper (set_helper s a i) = (helper s)(a \<mapsto> i)"
  "ipr_at (set_helper s a i) = ipr_at s" "get_ipr (set_helper s a i) = get_ipr s" "reassdatagrams (set_helper s a i) = reassdatagrams s"
  by (simp_all add: set_helper_def get_ipr_def fun_eq_iff)

lemma set_ipr_simps [simp]: "rheap (set_ipr s k r) = rheap s" "helper (set_ipr s k r) = helper s"
  "ipr_at (set_ipr s k r) = (ipr_at s)(k \<mapsto> r)" "get_helper (set_ipr s k r) = get_helper s"
  "reassdatagrams (set_ipr s k r) = reassdatagrams s"
  by (simp_all add: set_ipr_def get_helper_def fun_eq_iff split: option.split)

lemma frag_seg_last:
  assumes "frag_seg s p us q" and "us \<noteq> []"
  shows "pbufs (rheap s) (fst (last us)) \<noteq> None"
    and "helper s (fst (last us)) = Some \<lparr>next_pbuf = q, frag_start = fst (snd (last us)), frag_end = snd (snd (last us))\<rparr>"
  using assms by (induction us arbitrary: p) (auto split: if_splits)

lemma frag_seg_relink:
  assumes "frag_seg s p us q" and "us \<noteq> []" and "distinct (map fst us)"
    and "i = \<lparr>next_pbuf = m, frag_start = fst (snd (last us)), frag_end = snd (snd (last us))\<rparr>"
  shows "frag_seg (set_helper s (fst (last us)) i) p us m"
proof -
  let ?s = "set_helper s (fst (last us)) i"
  have us: "us = butlast us @ [last us]" using assms(2) by simp
  obtain k where k: "frag_seg s p (butlast us) k" "frag_seg s k [last us] q"
    using assms(1) us frag_seg_append [of s p "butlast us" "[last us]" q] by auto
  have "fst (last us) \<notin> fst ` set (butlast us)"
    using assms(3) by (subst (asm) us) auto
  then have "frag_seg ?s p (butlast us) k" using k(1) by (subst frag_seg_cong [of _ _ s]) (auto simp: image_iff)
  moreover have "frag_seg ?s k [last us] m" using k(2) assms(4) by simp
  ultimately show ?thesis using us frag_seg_append [of ?s p "butlast us" "[last us]" m] by metis
qed

section \<open>The search\<close>

definition lastopt :: "frag list \<Rightarrow> nat option" where
  "lastopt us = (if us = [] then None else Some (fst (last us)))"

text \<open>The state after the new fragment \<open>a\<close> has been put between \<open>us\<close> and \<open>q\<close>.\<close>

definition linked :: "reass \<Rightarrow> nat \<Rightarrow> ip_reassdata \<Rightarrow> frag \<Rightarrow> frag list \<Rightarrow> pptr \<Rightarrow> reass" where
  "linked s ipr r f us q = (let s = set_helper s (fst f) \<lparr>next_pbuf = q, frag_start = fst (snd f), frag_end = snd (snd f)\<rparr>
     in if us = [] then set_ipr s ipr (r\<lparr>ipr_p := Some (fst f)\<rparr>)
        else set_helper s (fst (last us)) \<lparr>next_pbuf = Some (fst f), frag_start = fst (snd (last us)), frag_end = snd (snd (last us))\<rparr>)"

lemma chain_frag_loop_correct:
  assumes "frag_seg s p us q" and "frag_seg s q vs None"
    and "frags_ok (us @ vs)" and "a \<notin> fst ` set (us @ vs)" and "distinct (map fst (us @ vs))"
    and "ipr_at s ipr = Some r" and "length vs \<le> n"
    and "\<forall>(_, s', e')\<in>set us. s' < st \<and> e' \<le> st" and "st \<le> en"
    and "i = \<lparr>next_pbuf = None, frag_start = st, frag_end = en\<rparr>"
    and "ws = takeWhile (\<lambda>g. fst (snd g) < st) vs" and "xs = dropWhile (\<lambda>g. fst (snd g) < st) vs"
  shows "chain_frag_loop n s ipr a i q (lastopt us) (adjacent us)
    = Inr (if fits st en vs then Some (if xs = [] then (s, None, lastopt (us @ ws), adjacent (us @ ws))
        else (linked s ipr r (a, st, en) (us @ ws) (Some (fst (hd xs))), Some (fst (hd xs)), lastopt (us @ ws), adjacent (us @ ws @ [(a, st, en)])))
      else None)"
  using assms
proof (induction vs arbitrary: us q n ws xs)
  case Nil
  then show ?case by (simp add: fits_def)
next
  case (Cons v vs)
  obtain b s' e' where v: "v = (b, s', e')" by (cases v) auto
  obtain n' where n: "n = Suc n'" "length vs \<le> n'" using Cons.prems(7) by (cases n) auto
  obtain nx where q: "q = Some b" and hb: "pbufs (rheap s) b \<noteq> None" "helper s b = Some \<lparr>next_pbuf = nx, frag_start = s', frag_end = e'\<rparr>"
    "frag_seg s nx vs None" using Cons.prems(2) v by auto
  have gb: "get_helper s (Some b) = Inr \<lparr>next_pbuf = nx, frag_start = s', frag_end = e'\<rparr>" using hb by (simp add: get_helper_eq)
  have later: "s' < s''" "e' \<le> s''" if "(c, s'', e'') \<in> set vs" for c s'' e''
    using Cons.prems(3) that v by (auto simp: frags_ok_def sorted_wrt_append)
  have se: "s' \<le> e'" using Cons.prems(3) v by (auto simp: frags_ok_def)
  have prv: "get_helper s' (lastopt us) = Inr \<lparr>next_pbuf = q, frag_start = fst (snd (last us)), frag_end = snd (snd (last us))\<rparr>"
    if "us \<noteq> []" "\<And>c. c \<in> fst ` set us \<Longrightarrow> helper s' c = helper s c" "rheap s' = rheap s" for s'
    using frag_seg_last [OF Cons.prems(1) that(1)] that by (simp add: lastopt_def get_helper_eq)
  consider (before) "st < s'" | (same) "st = s'" | (after) "s' < st" by (rule linorder_cases)
  then show ?case
  proof cases
    case before
    then have wx: "ws = []" "xs = v # vs" using Cons.prems(11,12) v by simp_all
    have fits: "fits st en (v # vs) \<longleftrightarrow> en \<le> s'"
      using before later v by (auto simp: fits_def intro: less_trans order_trans [OF _ less_imp_le])
    let ?s = "set_helper s a \<lparr>next_pbuf = Some b, frag_start = st, frag_end = en\<rparr>"
    show ?thesis
    proof (cases "us = []")
      case True
      then show ?thesis using before wx fits n gb q v Cons.prems(6,10)
        by (simp add: lastopt_def get_ipr_def linked_def not_less Let_def)
    next
      case False
      have "get_helper ?s (lastopt us) = Inr \<lparr>next_pbuf = q, frag_start = fst (snd (last us)), frag_end = snd (snd (last us))\<rparr>"
        using Cons.prems(4) by (intro prv [OF False]) auto
      moreover have "snd (snd (last us)) \<le> st" using Cons.prems(8) False by (metis (no_types, lifting) case_prodD last_in_set prod.collapse)
      ultimately show ?thesis using False before wx fits n gb q v Cons.prems(10)
        by (auto simp: lastopt_def linked_def Let_def not_less adjacent_snoc)
    qed
  next
    case same
    then show ?thesis using n gb q v Cons.prems(10) by (auto simp: fits_def)
  next
    case after
    then have nb: "\<not> st < s'" "st \<noteq> s'" by auto
    show ?thesis
    proof (cases "st < e'")
      case True
      then have "\<not> fits st en (v # vs)" using after v by (auto simp: fits_def)
      then show ?thesis using True nb n gb q v Cons.prems(10) by simp
    next
      case False
      define ws' where "ws' = takeWhile (\<lambda>g. fst (snd g) < st) vs"
      have w: "ws = v # ws'" using Cons.prems(11) after v by (simp add: ws'_def)
      have xs: "xs = dropWhile (\<lambda>g. fst (snd g) < st) vs" using Cons.prems(12) after v by simp
      have seg: "frag_seg s p (us @ [v]) nx" using Cons.prems(1) hb q v by (auto simp: frag_seg_append)
      have adj: "adjacent (us @ [v]) \<longleftrightarrow> adjacent us \<and> (us = [] \<or> snd (snd (last us)) = s')" using v by (simp add: adjacent_snoc)
      have fits: "fits st en (v # vs) \<longleftrightarrow> fits st en vs" using False after v by (auto simp: fits_def not_less)
      have "chain_frag_loop n s ipr a i q (lastopt us) (adjacent us)
          = chain_frag_loop n' s ipr a i nx (lastopt (us @ [v])) (adjacent (us @ [v]))"
        using False nb n gb q v Cons.prems(10) adj prv [of s] by (cases "us = []") (auto simp: lastopt_def)
      also have "\<dots> = Inr (if fits st en vs then Some (if xs = [] then (s, None, lastopt ((us @ [v]) @ ws'), adjacent ((us @ [v]) @ ws'))
        else (linked s ipr r (a, st, en) ((us @ [v]) @ ws') (Some (fst (hd xs))), Some (fst (hd xs)), lastopt ((us @ [v]) @ ws'),
              adjacent ((us @ [v]) @ ws' @ [(a, st, en)])))
        else None)"
        using Cons.prems(3-6,8-10) False after v n(2)
        by (intro Cons.IH [OF seg hb(3)] ws'_def xs) (auto simp: not_less)
      finally show ?thesis using w fits by simp
    qed
  qed
qed

lemma linked_simps [simp]: "rheap (linked s ipr r f us q) = rheap s" "reassdatagrams (linked s ipr r f us q) = reassdatagrams s"
  "ip_reass_pbufcount (linked s ipr r f us q) = ip_reass_pbufcount s"
  "ipr_at (linked s ipr r f us q) = (if us = [] then (ipr_at s)(ipr \<mapsto> r\<lparr>ipr_p := Some (fst f)\<rparr>) else ipr_at s)"
  by (simp_all add: linked_def Let_def set_helper_def set_ipr_def)

lemma linked_other:
  assumes "c \<noteq> fst f" and "c \<notin> fst ` set us"
  shows "helper (linked s ipr r f us q) c = helper s c"
  using assms last_in_set [of us] by (auto simp: linked_def Let_def image_iff)

lemma linked_seg:
  assumes "frag_seg s p us m" and "frag_seg s q xs None" and "distinct (map fst (us @ xs))" and "fst f \<notin> fst ` set (us @ xs)"
    and "pbufs (rheap s) (fst f) \<noteq> None"
  shows "frag_seg (linked s ipr r f us q) (if us = [] then Some (fst f) else p) (us @ f # xs) None"
proof -
  let ?i = "\<lparr>next_pbuf = q, frag_start = fst (snd f), frag_end = snd (snd f)\<rparr>"
  let ?s = "set_helper s (fst f) ?i"
  let ?t = "linked s ipr r f us q"
  have "helper ?t c = helper s c" if "c \<in> fst ` set xs" for c
  proof (rule linked_other)
    show "c \<noteq> fst f" using that assms(4) by (metis UnI2 image_Un set_append)
    show "c \<notin> fst ` set us" using that assms(3) by (auto simp: disjoint_iff)
  qed
  then have xs: "frag_seg ?t q xs None" using assms(2) by (subst frag_seg_cong [of _ _ s]) auto
  have f: "helper ?t (fst f) = Some ?i"
    using assms(4) last_in_set [of us] by (auto simp: linked_def Let_def image_iff)
  have new: "frag_seg ?t (Some (fst f)) (f # xs) None" using xs f assms(5) by simp
  show ?thesis
  proof (cases "us = []")
    case False
    have "fst g \<noteq> fst f" if "g \<in> set us" for g using assms(4) that by (metis UnI1 image_eqI set_append)
    then have "frag_seg ?s p us m" using assms(1) by (subst frag_seg_cong [of _ _ s]) auto
    then have "frag_seg ?t p us (Some (fst f))"
      using frag_seg_relink [of ?s p us m _ "Some (fst f)", OF _ False _ refl] assms(3) False by (simp add: linked_def Let_def)
    then show ?thesis using new False by (auto simp: frag_seg_append simp del: frag_seg.simps)
  qed (use new in simp)
qed

lemma chain_holes_correct:
  assumes "frag_seg s (Some (fst f)) (f # xs) None" and "length xs \<le> n"
  shows "\<exists>l. chain_holes n s (fst f) (case xs of [] \<Rightarrow> None | g # _ \<Rightarrow> Some (fst g)) = Inr (adjacent (f # xs), l)
    \<and> (adjacent (f # xs) \<longrightarrow> l = fst (last (f # xs)))"
  using assms
proof (induction xs arbitrary: f n)
  case (Cons g xs)
  obtain n' where n: "n = Suc n'" "length xs \<le> n'" using Cons.prems(2) by (cases n) auto
  obtain nx where h: "get_helper s (Some (fst f)) = Inr \<lparr>next_pbuf = Some (fst g), frag_start = fst (snd f), frag_end = snd (snd f)\<rparr>"
    "get_helper s (Some (fst g)) = Inr \<lparr>next_pbuf = nx, frag_start = fst (snd g), frag_end = snd (snd g)\<rparr>"
    "frag_seg s (Some (fst g)) (g # xs) None" "frag_seg s nx xs None"
    using Cons.prems(1) by (auto simp: get_helper_eq)
  have "nx = (case xs of [] \<Rightarrow> None | g # _ \<Rightarrow> Some (fst g))" using h(4) by (cases xs) auto
  then show ?case using h n Cons.IH [OF h(3) n(2)] by (auto simp del: frag_seg.simps)
qed simp

section \<open>Queueing\<close>

lemma frag_seg_length:
  assumes "frag_seg s p fs None" and "distinct (map fst fs)" and "heap_ok (rheap s)"
  shows "length fs \<le> nextid (rheap s)"
proof -
  have "pbufs (rheap s) (fst f) \<noteq> None" if "f \<in> set fs" for f
    using assms(1) that by (induction fs arbitrary: p) auto
  then have "fst ` set fs \<subseteq> {0..<nextid (rheap s)}" using assms(3) unfolding heap_ok_def by auto
  then have "card (fst ` set fs) \<le> nextid (rheap s)" using card_mono [of "{0..<nextid (rheap s)}"] by simp
  then show ?thesis using distinct_card [OF assms(2)] by simp
qed

lemma seg_next: "frag_seg s p fs None \<Longrightarrow> p = (case fs of [] \<Rightarrow> None | g # _ \<Rightarrow> Some (fst g))"
  by (cases fs) auto

text \<open>The end of the search: in both ways the fragment is now between its neighbours.\<close>

lemma chain_place:
  assumes "ipr_at s ipr = Some r" and "frag_seg s (ipr_p r) fs None" and "frags_ok fs" and "distinct (map fst fs)"
    and "a \<notin> fst ` set fs" and "length fs \<le> n" and "st \<le> en"
    and "i = \<lparr>next_pbuf = None, frag_start = st, frag_end = en\<rparr>" and "helper s a = Some i" and "pbufs (rheap s) a \<noteq> None"
    and "ws = takeWhile (\<lambda>g. fst (snd g) < st) fs" and "xs = dropWhile (\<lambda>g. fst (snd g) < st) fs"
  shows "chain_frag_loop n s ipr a i (ipr_p r) None True = Inr (if fits st en fs
      then Some (if xs = [] then (s, None, lastopt ws, adjacent ws)
        else (linked s ipr r (a, st, en) ws (Some (fst (hd xs))), Some (fst (hd xs)), lastopt ws, adjacent (ws @ [(a, st, en)])))
      else None)"
    and "fits st en fs \<Longrightarrow> xs = [] \<Longrightarrow> chain_append s ipr a st (lastopt ws) (adjacent ws)
      = Inr (adjacent (ws @ [(a, st, en)]), linked s ipr r (a, st, en) ws None)"
proof -
  show "chain_frag_loop n s ipr a i (ipr_p r) None True = Inr (if fits st en fs
      then Some (if xs = [] then (s, None, lastopt ws, adjacent ws)
        else (linked s ipr r (a, st, en) ws (Some (fst (hd xs))), Some (fst (hd xs)), lastopt ws, adjacent (ws @ [(a, st, en)])))
      else None)"
    using chain_frag_loop_correct [of s "ipr_p r" "[]" "ipr_p r" fs a ipr r n st en i ws xs] assms by (simp add: lastopt_def)
  assume fit: "fits st en fs" and none: "xs = []"
  have fs: "fs = ws" using none takeWhile_dropWhile_id [of "\<lambda>g. fst (snd g) < st" fs] assms(11,12) by (metis append_Nil2)
  have same: "set_helper s a i = s" using assms(9) by (simp add: set_helper_def fun_upd_idem)
  show "chain_append s ipr a st (lastopt ws) (adjacent ws)
      = Inr (adjacent (ws @ [(a, st, en)]), linked s ipr r (a, st, en) ws None)"
  proof (cases "ws = []")
    case True
    then show ?thesis using assms(1,2,8) fs same by (simp add: chain_append_def lastopt_def get_ipr_def linked_def)
  next
    case False
    have l: "last ws \<in> set fs" using False fs by simp
    have "fst (snd (last ws)) < st" using False assms(11) last_in_set [of ws] by (metis set_takeWhileD)
    moreover have "st < fst (snd (last ws)) \<and> en \<le> fst (snd (last ws)) \<or> fst (snd (last ws)) < st \<and> snd (snd (last ws)) \<le> st"
      using fit l unfolding fits_def by (metis (no_types, lifting) case_prodD prod.collapse)
    ultimately have "snd (snd (last ws)) \<le> st" by auto
    then show ?thesis using False frag_seg_last [OF assms(2)] fs same assms(8)
      by (simp add: chain_append_def lastopt_def get_helper_eq linked_def adjacent_snoc)
  qed
qed

text \<open>Completeness is decided by the check behind the search.\<close>

lemma chain_complete:
  assumes "frag_seg s (ipr_p r) (us @ f # xs) None" and "length xs \<le> fuel (rheap s)" and "us @ xs \<noteq> [] \<or> fst (snd f) \<noteq> 0"
    and "distinct (map fst (us @ f # xs))"
  shows "chain_validate s r (fst f) (adjacent (us @ [f])) = Inr (complete (us @ f # xs))"
proof (cases "adjacent (us @ [f])")
  case False
  then show ?thesis using adjacent_split [of us f xs] by (simp add: complete_def chain_validate_def)
next
  case adj: True
  define g where "g = hd (us @ f # xs)"
  obtain nx where g: "ipr_p r = Some (fst g)" "get_helper s (Some (fst g)) = Inr \<lparr>next_pbuf = nx, frag_start = fst (snd g), frag_end = snd (snd g)\<rparr>"
    using assms(1) by (cases us) (auto simp: g_def get_helper_eq)
  obtain m where m: "frag_seg s (ipr_p r) us m" "frag_seg s m (f # xs) None" using assms(1) frag_seg_append by blast
  obtain nf where nf: "get_helper s (Some (fst f)) = Inr \<lparr>next_pbuf = nf, frag_start = fst (snd f), frag_end = snd (snd f)\<rparr>"
    "nf = (case xs of [] \<Rightarrow> None | g # _ \<Rightarrow> Some (fst g))" using m(2) seg_next by (auto simp: get_helper_eq)
  have mf: "frag_seg s (Some (fst f)) (f # xs) None" using m(2) by simp
  obtain l where l: "chain_holes (fuel (rheap s)) s (fst f) nf = Inr (adjacent (f # xs), l)" "adjacent (f # xs) \<longrightarrow> l = fst (last (f # xs))"
    using chain_holes_correct [OF mf assms(2)] nf(2) by auto
  have lst: "get_helper s (Some (fst (last (f # xs)))) = Inr \<lparr>next_pbuf = None, frag_start = fst (snd (last (f # xs))), frag_end = snd (snd (last (f # xs)))\<rparr>"
    using frag_seg_last [OF mf] by (intro get_helper_eq) simp_all
  have c: "complete (us @ f # xs) \<longleftrightarrow> fst (snd g) = 0 \<and> adjacent (f # xs)"
    using adj adjacent_split [of us f xs] by (simp add: complete_def g_def)
  have "fst g \<noteq> fst (last (f # xs))" if "fst (snd g) = 0"
  proof (cases us)
    case Nil
    then have "xs \<noteq> []" "g = f" using assms(3) that by (auto simp: g_def)
    then show ?thesis using assms(4) Nil last_in_set [of xs] by (auto simp: image_iff)
  next
    case (Cons u us')
    then have "fst g \<notin> fst ` set (f # xs)" using assms(4) by (auto simp: g_def)
    then show ?thesis using last_in_set [of "f # xs"] by (metis image_eqI list.distinct(1))
  qed
  then show ?thesis using adj g nf l lst c by (auto simp: chain_validate_def split del: if_split split: if_splits)
qed

text \<open>The state in which the fragment has got its helper, and the one in which it is linked.\<close>

definition with_helper :: "reass \<Rightarrow> frag \<Rightarrow> reass" where
  "with_helper s f = set_helper s (fst f) \<lparr>next_pbuf = None, frag_start = fst (snd f), frag_end = snd (snd f)\<rparr>"

definition queued :: "reass \<Rightarrow> nat \<Rightarrow> ip_reassdata \<Rightarrow> frag \<Rightarrow> frag list \<Rightarrow> reass" where
  "queued s ipr r f fs = (let before = (\<lambda>g. fst (snd g) < fst (snd f)) in
     linked (with_helper s f) ipr r f (takeWhile before fs)
       (case dropWhile before fs of [] \<Rightarrow> None | g # _ \<Rightarrow> Some (fst g)))"

definition head_of :: "frag list \<Rightarrow> pptr" where
  "head_of fs = (case fs of [] \<Rightarrow> None | f # _ \<Rightarrow> Some (fst f))"

lemma with_helper_seg:
  assumes "frag_seg s p fs q" and "fst f \<notin> fst ` set fs"
  shows "frag_seg (with_helper s f) p fs q"
proof -
  have "fst g \<noteq> fst f" if "g \<in> set fs" for g using assms(2) that by (metis image_eqI)
  then show ?thesis using assms(1) by (subst frag_seg_cong [of _ _ s]) (auto simp: with_helper_def)
qed

lemma queued_simps [simp]: "rheap (queued s ipr r f fs) = rheap s" "reassdatagrams (queued s ipr r f fs) = reassdatagrams s"
  "ip_reass_pbufcount (queued s ipr r f fs) = ip_reass_pbufcount s"
  by (simp_all add: queued_def with_helper_def Let_def set_helper_def)

text \<open>The queue after linking.\<close>

lemma queued_seg:
  assumes "ipr_at s ipr = Some r" and "frag_seg s (ipr_p r) fs None" and "distinct (map fst fs)" and "fst f \<notin> fst ` set fs"
    and "pbufs (rheap s) (fst f) \<noteq> None"
  obtains r' where "ipr_at (queued s ipr r f fs) = (ipr_at s)(ipr \<mapsto> r')" and "r' = r\<lparr>ipr_p := head_of (insert_frag f fs)\<rparr>"
    and "frag_seg (queued s ipr r f fs) (ipr_p r') (insert_frag f fs) None"
proof -
  define ws where "ws = takeWhile (\<lambda>g. fst (snd g) < fst (snd f)) fs"
  define xs where "xs = dropWhile (\<lambda>g. fst (snd g) < fst (snd f)) fs"
  let ?q = "case xs of [] \<Rightarrow> None | g # _ \<Rightarrow> Some (fst g)" and ?s = "with_helper s f"
  have fs: "fs = ws @ xs" by (simp add: ws_def xs_def)
  have ins: "insert_frag f fs = ws @ f # xs" by (simp add: insert_frag_def ws_def xs_def Let_def)
  obtain m where m: "frag_seg ?s (ipr_p r) ws m" "frag_seg ?s m xs None"
    using with_helper_seg [OF assms(2,4)] fs frag_seg_append by metis
  have mx: "frag_seg ?s ?q xs None" using m(2) seg_next [OF m(2)] by simp
  have q: "queued s ipr r f fs = linked ?s ipr r f ws ?q" by (simp add: queued_def ws_def xs_def Let_def)
  have hd: "head_of (insert_frag f fs) = (if ws = [] then Some (fst f) else ipr_p r)"
    using m(1) by (cases ws) (auto simp: head_of_def ins)
  have dw: "distinct (map fst (ws @ xs))" "fst f \<notin> fst ` set (ws @ xs)" "pbufs (rheap ?s) (fst f) \<noteq> None"
    using assms(3-5) fs by (simp_all add: with_helper_def)
  show thesis
  proof
    show "ipr_at (queued s ipr r f fs) = (ipr_at s)(ipr \<mapsto> r\<lparr>ipr_p := head_of (insert_frag f fs)\<rparr>)"
      using assms(1) hd by (auto simp: q with_helper_def)
    show "frag_seg (queued s ipr r f fs) (ipr_p (r\<lparr>ipr_p := head_of (insert_frag f fs)\<rparr>)) (insert_frag f fs) None"
      using linked_seg [OF m(1) mx dw, of ipr r] by (simp add: q hd [unfolded ins] ins del: frag_seg.simps)
  qed simp
qed

text \<open>The whole function.\<close>

lemma chain_frag_result:
  assumes "read_iphdr (rheap s) (Some a) = Inr hdr" and "unat (IPH_HL_BYTES hdr) \<le> unat (lwip_ntohs (IPH_LEN hdr))"
    and "st = IPH_OFFSET_BYTES hdr" and "en = st + (lwip_ntohs (IPH_LEN hdr) - ucast (IPH_HL_BYTES hdr))"
    and "heap_ok (rheap s)" and "ipr_at s ipr = Some r" and "frag_seg s (ipr_p r) fs None" and "frags_ok fs"
    and "distinct (map fst fs)" and "a \<notin> fst ` set fs"
    and "is_last \<or> ipr_flags r AND 1 \<noteq> 0 \<Longrightarrow> fs \<noteq> [] \<or> st \<noteq> 0"
  shows "ip_reass_chain_frag_into_datagram_and_validate s ipr a is_last
    = Inr (if st \<le> en \<and> fits st en fs
        then (if (is_last \<or> ipr_flags r AND 1 \<noteq> 0) \<and> complete (insert_frag (a, st, en) fs) then TELEGRAM_FINISHED else PBUF_QUEUED,
              queued s ipr r (a, st, en) fs)
        else (PBUF_DROPPED, with_helper s (a, st, en)))"
proof -
  define ws where "ws = takeWhile (\<lambda>g. fst (snd g) < st) fs"
  define xs where "xs = dropWhile (\<lambda>g. fst (snd g) < st) fs"
  define s1 where "s1 = with_helper s (a, st, en)"
  let ?t = "queued s ipr r (a, st, en) fs"
  have s1: "set_helper s a \<lparr>next_pbuf = None, frag_start = st, frag_end = en\<rparr> = s1" by (simp add: s1_def with_helper_def)
  have t: "?t = linked s1 ipr r (a, st, en) ws (case xs of [] \<Rightarrow> None | g # _ \<Rightarrow> Some (fst g))"
    by (simp add: queued_def ws_def xs_def s1_def Let_def)
  have ins: "insert_frag (a, st, en) fs = ws @ (a, st, en) # xs" by (simp add: insert_frag_def ws_def xs_def Let_def)
  have fs: "fs = ws @ xs" by (simp add: ws_def xs_def)
  have pa: "pbufs (rheap s) (fst (a, st, en)) \<noteq> None" using assms(1) by (auto simp: read_iphdr_def pget_def split: option.splits)
  have na: "fst (a, st, en) \<notin> fst ` set fs" using assms(10) by simp
  have len: "length fs \<le> fuel (rheap s)" using frag_seg_length [OF assms(7,9,5)] by (simp add: fuel_def)
  obtain r' where r': "ipr_at ?t = (ipr_at s)(ipr \<mapsto> r')" "r' = r\<lparr>ipr_p := head_of (insert_frag (a, st, en) fs)\<rparr>"
    "frag_seg ?t (ipr_p r') (insert_frag (a, st, en) fs) None" using queued_seg [OF assms(6,7,9) na pa] by blast
  have at: "ipr_at s1 ipr = Some r" "rheap s1 = rheap s" "get_ipr s1 ipr = Inr r" "get_ipr ?t ipr = Inr r'" "ipr_flags r' = ipr_flags r"
    using assms(6) r'(1,2) by (simp_all add: s1_def with_helper_def get_ipr_def)
  have cmp: "chain_validate ?t r' a (adjacent (ws @ [(a, st, en)])) = Inr (complete (insert_frag (a, st, en) fs))"
    if "is_last \<or> ipr_flags r AND 1 \<noteq> 0"
  proof -
    have "length xs \<le> fuel (rheap ?t)" "ws @ xs \<noteq> [] \<or> fst (snd (a, st, en)) \<noteq> 0" "distinct (map fst (ws @ (a, st, en) # xs))"
      using len assms(9,10) assms(11) [OF that] fs by auto
    from chain_complete [OF r'(3) [unfolded ins] this] show ?thesis by (simp only: ins fst_conv)
  qed
  show ?thesis
  proof (cases "st \<le> en")
    case False
    then have "en < st" by simp
    then show ?thesis
      using assms(2) False
      by (simp add: ip_reass_chain_frag_into_datagram_and_validate_def assms(1) Let_def not_less s1 s1_def [symmetric] flip: assms(3,4))
  next
    case le: True
    have nle: "\<not> en < st" "\<not> unat (lwip_ntohs (IPH_LEN hdr)) < unat (IPH_HL_BYTES hdr)" using le assms(2) by simp_all
    note unf = ip_reass_chain_frag_into_datagram_and_validate_def assms(1) Let_def bnd_Inr if_not_P [OF nle(2)] if_not_P [OF nle(1)]
      at(3) ip_reass_helper.simps s1
    have h: "helper s1 a = Some \<lparr>next_pbuf = None, frag_start = st, frag_end = en\<rparr>" "pbufs (rheap s1) a \<noteq> None"
      using pa by (simp_all flip: s1)
    have seg1: "frag_seg s1 (ipr_p r) fs None" unfolding s1_def by (rule with_helper_seg [OF assms(7) na])
    note pl = chain_place [OF at(1) seg1 assms(8,9,10) len [folded at(2)] le refl h ws_def xs_def]
    show ?thesis
    proof (cases "fits st en fs")
      case False
      then show ?thesis using pl(1) le by (simp add: unf s1_def [symmetric] flip: assms(3,4))
    next
      case fit: True
      let ?L = "is_last \<or> ipr_flags r AND 1 \<noteq> 0"
      show ?thesis
      proof (cases xs)
        case Nil
        then show ?thesis using pl(1) pl(2) [OF fit Nil] le at(4,5) fit cmp t by (cases ?L) (simp_all add: unf flip: assms(3,4))
      next
        case (Cons x xs')
        then show ?thesis using pl(1) le at(4,5) fit cmp t by (cases ?L) (simp_all add: unf flip: assms(3,4))
      qed
    qed
  qed
qed

section \<open>The contract of the queue\<close>

text \<open>The entry \<open>ipr\<close> holds the fragments \<open>fs\<close>, in order and without overlaps.\<close>

definition frag_queue :: "reass \<Rightarrow> nat \<Rightarrow> frag list \<Rightarrow> bool" where
  "frag_queue s ipr fs \<longleftrightarrow> heap_ok (rheap s) \<and> frags_ok fs \<and> distinct (map fst fs)
     \<and> (case ipr_at s ipr of None \<Rightarrow> False | Some r \<Rightarrow> frag_seg s (ipr_p r) fs None)"

definition last_seen :: "reass \<Rightarrow> nat \<Rightarrow> bool" where
  "last_seen s ipr \<longleftrightarrow> (case ipr_at s ipr of None \<Rightarrow> False | Some r \<Rightarrow> ipr_flags r AND 1 \<noteq> 0)"

lemma set_insert_frag [simp]: "set (insert_frag f fs) = insert f (set fs)"
proof -
  have "set fs = set (takeWhile P fs) \<union> set (dropWhile P fs)" for P :: "frag \<Rightarrow> bool"
    by (metis set_append takeWhile_dropWhile_id)
  then show ?thesis by (auto simp: insert_frag_def Let_def)
qed

lemma distinct_insert_frag:
  assumes "distinct (map fst fs)" and "fst f \<notin> fst ` set fs"
  shows "distinct (map fst (insert_frag f fs))"
proof -
  let ?P = "\<lambda>g :: frag. fst (snd g) < fst (snd f)"
  have "map fst (insert_frag f fs) = map fst (takeWhile ?P fs) @ fst f # map fst (dropWhile ?P fs)"
    by (simp add: insert_frag_def Let_def)
  moreover have "distinct (map fst (takeWhile ?P fs) @ map fst (dropWhile ?P fs))" using assms(1) by (simp flip: map_append)
  moreover have "fst f \<notin> set (map fst (takeWhile ?P fs) @ map fst (dropWhile ?P fs))" using assms(2) by (simp flip: map_append)
  moreover have "distinct (xs @ x # ys)" if "distinct (xs @ ys)" "x \<notin> set (xs @ ys)" for xs ys and x :: nat using that by auto
  ultimately show ?thesis by simp
qed

text \<open>
  C8: The queue of a datagram implements an ordered list of disjoint intervals. A fragment whose end does not wrap around and
  that overlaps no queued one is inserted at its place; any other is refused and the queue stays as it was. The answer is
  \<^verbatim>\<open>IP_REASS_VALIDATE_TELEGRAM_FINISHED\<close> exactly when the last fragment has been seen and the intervals reach from 0 to
  the end without a hole. The search and the checks always end and no assertion fails; the packet buffers are left alone.
\<close>

theorem reass_chain_frag:
  assumes "frag_queue s ipr fs" and "a \<notin> fst ` set fs"
    and "read_iphdr (rheap s) (Some a) = Inr hdr" and "unat (IPH_HL_BYTES hdr) \<le> unat (lwip_ntohs (IPH_LEN hdr))"
    and "st = IPH_OFFSET_BYTES hdr" and "en = st + (lwip_ntohs (IPH_LEN hdr) - ucast (IPH_HL_BYTES hdr))"
    and "is_last \<or> last_seen s ipr \<Longrightarrow> fs \<noteq> [] \<or> st \<noteq> 0"
  shows "\<exists>v s'. ip_reass_chain_frag_into_datagram_and_validate s ipr a is_last = Inr (v, s')
    \<and> frag_queue s' ipr (if v = PBUF_DROPPED then fs else insert_frag (a, st, en) fs)
    \<and> (v = PBUF_DROPPED \<longleftrightarrow> \<not> (st \<le> en \<and> fits st en fs))
    \<and> (v = TELEGRAM_FINISHED \<longleftrightarrow> st \<le> en \<and> fits st en fs \<and> (is_last \<or> last_seen s ipr) \<and> complete (insert_frag (a, st, en) fs))
    \<and> rheap s' = rheap s \<and> last_seen s' ipr = last_seen s ipr"
proof -
  obtain r where r: "ipr_at s ipr = Some r" "frag_seg s (ipr_p r) fs None" and ok: "heap_ok (rheap s)" "frags_ok fs" "distinct (map fst fs)"
    using assms(1) by (auto simp: frag_queue_def split: option.splits)
  have seen: "last_seen s ipr \<longleftrightarrow> ipr_flags r AND 1 \<noteq> 0" using r by (simp add: last_seen_def)
  let ?f = "(a, st, en)"
  have na: "fst ?f \<notin> fst ` set fs" using assms(2) by simp
  have pa: "pbufs (rheap s) (fst ?f) \<noteq> None" using assms(3) by (auto simp: read_iphdr_def pget_def split: option.splits)
  note res = chain_frag_result [where is_last = is_last, OF assms(3-6) ok(1) r ok(2,3) assms(2) assms(7) [unfolded seen]]
  show ?thesis
  proof (cases "st \<le> en \<and> fits st en fs")
    case True
    obtain r' where r': "ipr_at (queued s ipr r ?f fs) = (ipr_at s)(ipr \<mapsto> r')" "r' = r\<lparr>ipr_p := head_of (insert_frag ?f fs)\<rparr>"
      "frag_seg (queued s ipr r ?f fs) (ipr_p r') (insert_frag ?f fs) None" using queued_seg [OF r ok(3) na pa] by blast
    have "frag_queue (queued s ipr r ?f fs) ipr (insert_frag ?f fs)"
      using ok r' True frags_ok_insert [OF ok(2)] distinct_insert_frag [OF ok(3) na] by (simp add: frag_queue_def)
    moreover have "last_seen (queued s ipr r ?f fs) ipr = last_seen s ipr" using r' seen by (simp add: last_seen_def)
    ultimately show ?thesis using True res seen by simp
  next
    case False
    have "frag_queue (with_helper s ?f) ipr fs"
      using ok r with_helper_seg [OF r(2) na] by (simp add: frag_queue_def with_helper_def)
    moreover have "last_seen (with_helper s ?f) ipr = last_seen s ipr" by (simp add: last_seen_def with_helper_def)
    moreover have "rheap (with_helper s ?f) = rheap s" by (simp add: with_helper_def)
    ultimately show ?thesis using False res by auto
  qed
qed

text \<open>
  Two fragments of a datagram of 16 bytes, the pbufs 0 and 1: the first is queued and the second, with the last eight bytes,
  arrives.
\<close>

definition sample_frag_hdr :: "byte \<Rightarrow> byte \<Rightarrow> bytes" where
  "sample_frag_hdr mf off = [0x45, 0, 0, 28, 0, 7, mf, off, 64, 17, 0, 0, 10, 0, 0, 1, 10, 0, 0, 2]"

definition sample_frags :: heap where
  "sample_frags = \<lparr>pbufs = (\<lambda>_. None)(0 \<mapsto> sample_pbuf None 0 0 28 28, 1 \<mapsto> sample_pbuf None 1 0 28 28),
     mem = (\<lambda>_. None)(0 \<mapsto> sample_frag_hdr 0x20 0 @ [1, 2, 3, 4, 5, 6, 7, 8], 1 \<mapsto> sample_frag_hdr 0 1 @ [9, 10, 11, 12, 13, 14, 15, 16]),
     customs = (\<lambda>_. None), nextid = 2, oom = (\<lambda>_. False), junk = (\<lambda>_. 0), pbuf_free_ooseq_pending = 0, net = init_net\<rparr>"

definition sample_reass :: reass where
  "sample_reass = \<lparr>rheap = sample_frags,
     helper = (\<lambda>_. None)(0 \<mapsto> \<lparr>next_pbuf = None, frag_start = 0, frag_end = 8\<rparr>),
     ipr_at = (\<lambda>_. None)(0 \<mapsto> \<lparr>ipr_p = Some 0, iphdr = sample_frag_hdr 0x20 0, datagram_len = 0, ipr_flags = 0, ipr_timer = 15\<rparr>),
     reassdatagrams = [0], ip_reass_pbufcount = 1, next_ipr = 1, ipr_oom = (\<lambda>_. False)\<rparr>"

lemma sample_frag_queue: "frag_queue sample_reass 0 [(0, 0, 8)]"
proof -
  have "heap_ok (rheap sample_reass)" unfolding heap_ok_def by (auto simp: sample_reass_def sample_frags_def)
  then show ?thesis by (simp add: frag_queue_def frags_ok_def sample_reass_def sample_frags_def)
qed

lemma sample_frag_read: "read_iphdr (rheap sample_reass) (Some (Suc 0)) = Inr (sample_frag_hdr 0 1)"
  by (simp add: read_iphdr_def sample_reass_def sample_frags_def mem_read_def sample_frag_hdr_def)

theorem reass_chain_frag_witness:
  "\<exists>s'. ip_reass_chain_frag_into_datagram_and_validate sample_reass 0 (Suc 0) True = Inr (TELEGRAM_FINISHED, s')
    \<and> frag_queue s' 0 [(0, 0, 8), (Suc 0, 8, 16)]"
proof -
  have "IPH_HL_BYTES (sample_frag_hdr 0 1) = 20" "lwip_ntohs (IPH_LEN (sample_frag_hdr 0 1)) = 28"
    "IPH_OFFSET_BYTES (sample_frag_hdr 0 1) = 8"
    unfolding IPH_HL_BYTES_def IPH_LEN_def IPH_OFFSET_BYTES_def IPH_OFFSET_def sample_frag_hdr_def by code_simp+
  moreover have "insert_frag (Suc 0, 8, 16) [(0, 0, 8)] = [(0, 0, 8), (Suc 0, 8, 16)]" "fits 8 16 [(0, 0, 8)]"
    by (simp_all add: insert_frag_def fits_def)
  moreover obtain v s' where "ip_reass_chain_frag_into_datagram_and_validate sample_reass 0 (Suc 0) True = Inr (v, s')"
    "frag_queue s' 0 (if v = PBUF_DROPPED then [(0, 0, 8)] else insert_frag (Suc 0, 8, 16) [(0, 0, 8)])"
    "v = TELEGRAM_FINISHED \<longleftrightarrow> fits 8 16 [(0, 0, 8)] \<and> complete (insert_frag (Suc 0, 8, 16) [(0, 0, 8)])"
    using reass_chain_frag [where st = 8 and en = 16 and is_last = True, OF sample_frag_queue _ sample_frag_read] calculation(1-3)
    by fastforce
  ultimately show ?thesis by (auto simp: complete_def)
qed

end
