(* ===== verification/Reass_Datagram.thy ===== *)
theory Reass_Datagram
  imports Reass_Queue "HOL-Library.Multiset"
begin

text \<open>
  From the queue of fragments to the datagram: the header of the first fragment is put back with the new length, and the
  bytes of all fragments follow it in order.
\<close>

section \<open>Chaining the fragments\<close>

text \<open>The pbufs of a fragment: its first one, which holds the IP header, and those behind it (given by \<open>tl\<close>).\<close>

definition frag_chain :: "(nat \<Rightarrow> nat list) \<Rightarrow> frag \<Rightarrow> nat list" where
  "frag_chain tls f = fst f # tls (fst f)"

definition frag_packet :: "heap \<Rightarrow> (nat \<Rightarrow> nat list) \<Rightarrow> frag \<Rightarrow> bool" where
  "frag_packet h tls f \<longleftrightarrow> chain_ok h (Some (fst f)) (frag_chain tls f) \<and> 20 \<le> unat (p_len (pb h (fst f)))"

definition frag_payload :: "heap \<Rightarrow> (nat \<Rightarrow> nat list) \<Rightarrow> frag \<Rightarrow> bytes" where
  "frag_payload h tls f = drop 20 (chain_data h (frag_chain tls f))"

lemma frag_packet_cong:
  assumes "\<And>x. x \<in> set (frag_chain tls f) \<Longrightarrow> pbufs h' x = pbufs h x" and "mem h' = mem h"
  shows "frag_packet h' tls f = frag_packet h tls f" and "frag_payload h' tls f = frag_payload h tls f"
proof -
  have "pb h' (fst f) = pb h (fst f)" using assms(1) [of "fst f"] by (simp add: frag_chain_def pb_def)
  then show "frag_packet h' tls f = frag_packet h tls f" "frag_payload h' tls f = frag_payload h tls f"
    using chain_cong [of "frag_chain tls f" h' h] assms by (simp_all add: frag_packet_def frag_payload_def)
qed

text \<open>One round of the loop: the header of the fragment is hidden and the fragment is put behind the packet.\<close>

lemma cat_fragment:
  assumes "heap_ok h" and "chain_ok h (Some p) ps" and "frag_packet h tls f" and "set ps \<inter> set (frag_chain tls f) = {}"
    and "length (chain_data h ps) + length (frag_payload h tls f) \<le> 65535"
  shows "\<exists>h1 h2. pbuf_remove_header h (Some (fst f)) 20 = Inr (0, h1) \<and> pbuf_cat h1 (Some p) (Some (fst f)) = Inr h2
    \<and> heap_ok h2 \<and> chain_ok h2 (Some p) (ps @ frag_chain tls f)
    \<and> chain_data h2 (ps @ frag_chain tls f) = chain_data h ps @ frag_payload h tls f
    \<and> mem h2 = mem h \<and> (\<forall>x. x \<notin> set ps \<union> {fst f} \<longrightarrow> pbufs h2 x = pbufs h x) \<and> (\<forall>x. (pbufs h2 x = None) = (pbufs h x = None))"
proof -
  let ?a = "fst f"
  have ch: "chain_ok h (Some ?a) (?a # tls ?a)" "20 \<le> unat (p_len (pb h ?a))"
    using assms(3) by (simp_all add: frag_packet_def frag_chain_def)
  obtain b where b: "pbufs h ?a = Some b" using ch(1) by (auto simp: chain_ok_Cons)
  let ?h1 = "h\<lparr>pbufs := (pbufs h)(?a \<mapsto> remove_hdr 20 b)\<rparr>"
  note c = chain_remove_hdr [OF ch(1) b, of 20, OF _ refl]
  have r: "pbuf_remove_header h (Some ?a) 20 = Inr (0, ?h1)" using pbuf_remove_header_correct [OF b, of 20] ch(2) b by simp
  have na: "?a \<notin> set ps" using assms(4) by (auto simp: frag_chain_def)
  have ps: "chain_ok ?h1 (Some p) ps" "chain_data ?h1 ps = chain_data h ps" using assms(2) na by simp_all
  have ok1: "heap_ok ?h1" using heap_ok_upd [OF assms(1) b] by simp
  have c1: "chain_ok ?h1 (Some ?a) (frag_chain tls f)" "chain_data ?h1 (frag_chain tls f) = frag_payload h tls f"
    using c ch(2) b by (simp_all add: frag_chain_def frag_payload_def)
  have cat: "pbuf_cat ?h1 (Some p) (Some ?a) = Inr (cat_heap ps ?a ?h1)" using pbuf_cat_eq [OF ok1 ps(1) _ na] by simp
  note ck = chain_ok_cat_heap [OF ok1 ps(1) c1(1) assms(4)]
  note pc = pbufs_cat_heap [OF chain_ok_path [OF ps(1)], of ?a]
  have dom: "(pbufs (cat_heap ps ?a ?h1) x = None) = (pbufs h x = None)" for x using b by (simp add: pc)
  have "heap_ok (cat_heap ps ?a ?h1)" using assms(1) dom unfolding heap_ok_def by simp
  then show ?thesis using r cat ck ps c1 assms(5) pc dom by (intro exI [of _ ?h1] exI [of _ "cat_heap ps ?a ?h1"]) auto
qed

lemma frag_seg_heap:
  assumes "frag_seg s p fs q" and "\<And>f. f \<in> set fs \<Longrightarrow> helper s' (fst f) = helper s (fst f)"
    and "\<And>x. (pbufs (rheap s') x = None) = (pbufs (rheap s) x = None)"
  shows "frag_seg s' p fs q"
  using assms by (subst frag_seg_cong [of _ _ s]) auto

lemma reass_cat_loop_correct:
  assumes "frag_seg s r fs None" and "length fs \<le> n" and "heap_ok (rheap s)" and "chain_ok (rheap s) (Some p) ps"
    and "\<forall>f\<in>set fs. frag_packet (rheap s) tls f" and "distinct (ps @ concat (map (frag_chain tls) fs))"
    and "length (chain_data (rheap s) ps) + length (concat (map (frag_payload (rheap s) tls) fs)) \<le> 65535"
  shows "\<exists>h. reass_cat_loop n s (Some p) r = Inr (s\<lparr>rheap := h, helper := (helper s) |` (- fst ` set fs)\<rparr>)
    \<and> heap_ok h \<and> chain_ok h (Some p) (ps @ concat (map (frag_chain tls) fs))
    \<and> chain_data h (ps @ concat (map (frag_chain tls) fs)) = chain_data (rheap s) ps @ concat (map (frag_payload (rheap s) tls) fs)
    \<and> mem h = mem (rheap s) \<and> (\<forall>x. x \<notin> set (ps @ concat (map (frag_chain tls) fs)) \<longrightarrow> pbufs h x = pbufs (rheap s) x)"
  using assms
proof (induction fs arbitrary: s r n ps)
  case Nil
  then show ?case by (intro exI [of _ "rheap s"]) simp
next
  case (Cons f fs)
  let ?a = "fst f" and ?h = "rheap s"
  obtain n' where n: "n = Suc n'" "length fs \<le> n'" using Cons.prems(2) by (cases n) auto
  obtain nx where r: "r = Some ?a" "get_helper s (Some ?a) = Inr \<lparr>next_pbuf = nx, frag_start = fst (snd f), frag_end = snd (snd f)\<rparr>"
    "frag_seg s nx fs None" using Cons.prems(1) by (auto simp: get_helper_eq)
  have fp: "frag_packet ?h tls f" and disj: "set ps \<inter> set (frag_chain tls f) = {}" using Cons.prems(5,6) by auto
  obtain h1 h2 where h: "pbuf_remove_header ?h (Some ?a) 20 = Inr (0, h1)" "pbuf_cat h1 (Some p) (Some ?a) = Inr h2" "heap_ok h2"
    "chain_ok h2 (Some p) (ps @ frag_chain tls f)" "chain_data h2 (ps @ frag_chain tls f) = chain_data ?h ps @ frag_payload ?h tls f"
    "mem h2 = mem ?h" "\<forall>x. x \<notin> set ps \<union> {?a} \<longrightarrow> pbufs h2 x = pbufs ?h x" "\<forall>x. (pbufs h2 x = None) = (pbufs ?h x = None)"
    using cat_fragment [OF Cons.prems(3,4) fp disj] Cons.prems(7) by auto
  define s2 where "s2 = s\<lparr>rheap := h2, helper := (helper s)(?a := None)\<rparr>"
  have out: "x \<notin> set ps \<union> {?a}" if "g \<in> set fs" "x \<in> set (frag_chain tls g)" for g x
    using Cons.prems(6) that by (auto simp: frag_chain_def)
  have same: "frag_packet h2 tls g = frag_packet ?h tls g" "frag_payload h2 tls g = frag_payload ?h tls g" if "g \<in> set fs" for g
    using frag_packet_cong [of tls g h2 ?h] out [OF that] h(6,7) by auto
  have pay: "map (frag_payload h2 tls) fs = map (frag_payload ?h tls) fs" using same by auto
  have seg2: "frag_seg s2 nx fs None"
  proof (rule frag_seg_heap [OF r(3)])
    show "helper s2 (fst g) = helper s (fst g)" if "g \<in> set fs" for g
      using out [OF that, of "fst g"] by (auto simp: s2_def frag_chain_def)
  qed (use h(8) in \<open>simp add: s2_def\<close>)
  have "\<exists>h'. reass_cat_loop n' s2 (Some p) nx = Inr (s2\<lparr>rheap := h', helper := (helper s2) |` (- fst ` set fs)\<rparr>)
    \<and> heap_ok h' \<and> chain_ok h' (Some p) ((ps @ frag_chain tls f) @ concat (map (frag_chain tls) fs))
    \<and> chain_data h' ((ps @ frag_chain tls f) @ concat (map (frag_chain tls) fs))
      = chain_data (rheap s2) (ps @ frag_chain tls f) @ concat (map (frag_payload (rheap s2) tls) fs)
    \<and> mem h' = mem (rheap s2) \<and> (\<forall>x. x \<notin> set ((ps @ frag_chain tls f) @ concat (map (frag_chain tls) fs)) \<longrightarrow> pbufs h' x = pbufs (rheap s2) x)"
  proof (rule Cons.IH [OF seg2 n(2)])
    show "heap_ok (rheap s2)" "chain_ok (rheap s2) (Some p) (ps @ frag_chain tls f)" using h(3,4) by (simp_all add: s2_def)
    show "\<forall>g\<in>set fs. frag_packet (rheap s2) tls g" using same(1) Cons.prems(5) by (simp add: s2_def)
    show "distinct ((ps @ frag_chain tls f) @ concat (map (frag_chain tls) fs))" using Cons.prems(6) by simp
    show "length (chain_data (rheap s2) (ps @ frag_chain tls f)) + length (concat (map (frag_payload (rheap s2) tls) fs)) \<le> 65535"
      using Cons.prems(7) h(5) by (simp add: s2_def pay del: chain_data_append map_eq_conv)
  qed
  moreover have "reass_cat_loop n s (Some p) r = reass_cat_loop n' s2 (Some p) nx"
    using n r(1,2) h(1,2) by (simp add: s2_def)
  moreover have "(helper s2) |` (- fst ` set fs) = (helper s) |` (- fst ` set (f # fs))"
    by (rule ext) (simp add: s2_def restrict_map_def)
  moreover have "rheap s2 = h2" "\<And>h e. s2\<lparr>rheap := h, helper := e\<rparr> = s\<lparr>rheap := h, helper := e\<rparr>" by (simp_all add: s2_def)
  moreover have "x \<notin> set ps \<union> {?a}" if "x \<notin> set ((ps @ frag_chain tls f) @ concat (map (frag_chain tls) fs))" for x
    using that by (auto simp: frag_chain_def)
  ultimately show ?case using h(5-7) by (simp add: pay del: chain_data_append map_eq_conv)
qed

section \<open>The header\<close>

lemma length_20E:
  assumes "length xs = 20"
  obtains x0 x1 x2 x3 x4 x5 x6 x7 x8 x9 x10 x11 ys
  where "xs = [x0, x1, x2, x3, x4, x5, x6, x7, x8, x9, x10, x11] @ ys" and "length ys = 8"
proof -
  have "xs = map ((!) xs) [0..<12] @ drop 12 xs"
    using assms by (intro nth_equalityI) (auto simp: nth_append)
  moreover have "[0..<12] = [0, 1, 2, 3, 4, 5, 6, 7, 8, 9, 10, 11]" by (simp add: upt_rec)
  ultimately show ?thesis using that [of "xs ! 0" "xs ! 1" "xs ! 2" "xs ! 3" "xs ! 4" "xs ! 5" "xs ! 6" "xs ! 7" "xs ! 8" "xs ! 9" "xs ! 10" "xs ! 11" "drop 12 xs"]
    assms by simp
qed

text \<open>The fields of a header up to the checksum, and the addresses behind it.\<close>

lemma reass_iphdr_fields:
  assumes "length hdr = 20"
  shows "\<exists>ck. reass_iphdr od hdr len = take 2 hdr @ be16 len @ take 2 (drop 4 hdr) @ [0, 0] @ take 2 (drop 8 hdr) @ u16_bytes ck @ drop 12 hdr"
    and "inet_chksum od' (reass_iphdr od hdr len) = 0" and "length (reass_iphdr od hdr len) = 20"
proof -
  obtain x0 x1 x2 x3 x4 x5 x6 x7 x8 x9 x10 x11 ys
    where hdr: "hdr = [x0, x1, x2, x3, x4, x5, x6, x7, x8, x9, x10, x11] @ ys" and ys: "length ys = 8"
    using assms by (rule length_20E)
  define pre where "pre = [x0, x1] @ be16 len @ [x4, x5, 0, 0, x8, x9]"
  have pre: "length pre = 10" by (simp add: pre_def be16_def)
  have eq: "reass_iphdr od hdr len = pre @ u16_bytes (inet_chksum od (pre @ 0 # 0 # ys)) @ ys"
  proof -
    have "patch (patch (patch hdr 2 (be16 len)) 6 [0, 0]) 10 [0, 0] = pre @ 0 # 0 # ys" by (simp add: hdr patch_def pre_def be16_def)
    moreover have "patch (pre @ 0 # 0 # ys) 10 (u16_bytes w) = pre @ u16_bytes w @ ys" for w using pre by (simp add: patch_def)
    ultimately show ?thesis by (simp only: reass_iphdr_def u16_bytes_htons Let_def)
  qed
  show "inet_chksum od' (reass_iphdr od hdr len) = 0" unfolding eq by (rule inet_chksum_stored) (simp_all add: pre ys)
  show "\<exists>ck. reass_iphdr od hdr len = take 2 hdr @ be16 len @ take 2 (drop 4 hdr) @ [0, 0] @ take 2 (drop 8 hdr) @ u16_bytes ck @ drop 12 hdr"
    unfolding eq by (simp add: hdr pre_def ys) blast
  show "length (reass_iphdr od hdr len) = 20" unfolding eq by (simp add: pre ys)
qed

section \<open>The list of datagrams\<close>

lemma while_split:
  assumes "x \<notin> set us"
  shows "dropWhile (\<lambda>y. y \<noteq> x) (us @ x # vs) = x # vs" and "takeWhile (\<lambda>y. y \<noteq> x) (us @ x # vs) = us"
  using assms by (induction us) auto

lemma find_split: "\<forall>u\<in>set us. \<not> P u \<Longrightarrow> P p \<Longrightarrow> find P (us @ p # vs) = Some p"
  by (induction us) auto

lemma list_next_split: "distinct (us @ x # vs) \<Longrightarrow> list_next (us @ x # vs) x = (case vs of [] \<Rightarrow> None | y # _ \<Rightarrow> Some y)"
  by (simp add: list_next_def while_split split: list.split)

lemma list_unlink_prev:
  assumes "distinct (us @ p # x # vs)"
  shows "list_unlink (us @ p # x # vs) x p = us @ p # vs"
  using assms while_split(1) [of x "us @ [p]" vs] by (simp add: list_unlink_def while_split(2))

lemma list_prev_split:
  assumes "distinct (us @ p # x # vs)"
  shows "list_prev (us @ p # x # vs) x = Some p"
proof -
  have "list_next (us @ p # x # vs) u \<noteq> Some x" if u: "u \<in> set us" for u
  proof -
    obtain as bs where us: "us = as @ u # bs" using split_list [OF u] by blast
    have "list_next (as @ u # bs @ p # x # vs) u = (case bs @ p # x # vs of [] \<Rightarrow> None | y # _ \<Rightarrow> Some y)"
      using assms us by (intro list_next_split) simp
    then show ?thesis using assms us by (cases bs) auto
  qed
  moreover have "list_next (us @ p # x # vs) p = Some x" using list_next_split [OF assms] by simp
  moreover have "hd (us @ p # x # vs) \<noteq> x" using assms by (cases us) auto
  ultimately show ?thesis by (simp add: list_prev_def find_split)
qed

lemma dequeue_prev:
  assumes "distinct (reassdatagrams s)" and "i \<in> set (reassdatagrams s)"
  shows "ip_reass_dequeue_datagram s i (list_prev (reassdatagrams s) i)
    = Inr (s\<lparr>reassdatagrams := remove1 i (reassdatagrams s), ipr_at := (ipr_at s)(i := None)\<rparr>)"
proof -
  obtain us vs where xs: "reassdatagrams s = us @ i # vs" using assms(2) by (meson split_list)
  have rem: "remove1 i (us @ i # vs) = us @ vs" using assms(1) xs by (simp add: remove1_append)
  show ?thesis
  proof (cases us rule: rev_cases)
    case Nil
    then show ?thesis using xs by (simp add: ip_reass_dequeue_datagram_def)
  next
    case (snoc ws p)
    have d: "distinct (ws @ p # i # vs)" using assms(1) xs snoc by simp
    have "hd (ws @ p # i # vs) \<noteq> i" using d by (cases ws) auto
    then show ?thesis using xs snoc rem list_prev_split [OF d] list_unlink_prev [OF d] by (simp add: ip_reass_dequeue_datagram_def)
  qed
qed

section \<open>The datagram\<close>

text \<open>The packets of a queue: each a chain with the IP header in its first pbuf, all of them disjoint in pbufs and memory.\<close>

definition queue_pbufs :: "(nat \<Rightarrow> nat list) \<Rightarrow> frag list \<Rightarrow> nat list" where
  "queue_pbufs tls fs = concat (map (frag_chain tls) fs)"

definition packets_ok :: "heap \<Rightarrow> (nat \<Rightarrow> nat list) \<Rightarrow> frag list \<Rightarrow> bool" where
  "packets_ok h tls fs \<longleftrightarrow> (\<forall>f\<in>set fs. frag_packet h tls f) \<and> distinct (queue_pbufs tls fs) \<and> separate h (queue_pbufs tls fs)"

lemma write_first:
  assumes "packets_ok h tls (f # fs)" and "length hdr = 20"
  shows "\<exists>m. write_iphdr h (Some (fst f)) hdr = Inr (h\<lparr>mem := m\<rparr>) \<and> same_shape (mem h) m
    \<and> chain_data (h\<lparr>mem := m\<rparr>) (frag_chain tls f) = hdr @ frag_payload h tls f
    \<and> (\<forall>g\<in>set fs. frag_payload (h\<lparr>mem := m\<rparr>) tls g = frag_payload h tls g)"
proof -
  let ?a = "fst f"
  have p: "payload_ok h ?a" "20 \<le> unat (p_len (pb h ?a))" "pbufs h ?a \<noteq> None"
    using assms(1) by (auto simp: packets_ok_def frag_packet_def frag_chain_def chain_ok_Cons)
  obtain m where m: "mem_write h (p_payload (pb h ?a)) 0 hdr = Inr (h\<lparr>mem := m\<rparr>)" "same_shape (mem h) m"
    "seg (h\<lparr>mem := m\<rparr>) ?a = patch (seg h ?a) 0 hdr"
    "\<forall>c. block h c \<noteq> block h ?a \<or> block h c = None \<longrightarrow> seg (h\<lparr>mem := m\<rparr>) c = seg h c"
    using mem_write_seg [OF p(1), of 0 hdr] p(2) assms(2) by auto
  have "separate h (?a # tls ?a @ queue_pbufs tls fs)" using assms(1) by (simp add: packets_ok_def queue_pbufs_def frag_chain_def)
  then have "block h x \<noteq> block h ?a \<or> block h x = None" if "x \<in> set (tls ?a) \<union> set (queue_pbufs tls fs)" for x
    using that unfolding separate_Cons by (metis Un_iff image_eqI set_append)
  then have seg: "seg (h\<lparr>mem := m\<rparr>) x = seg h x" if "x \<in> set (tls ?a) \<union> set (queue_pbufs tls fs)" for x using m(4) that by blast
  have len: "20 \<le> length (seg h ?a)" using length_seg [OF p(1)] p(2) by simp
  have "chain_data (h\<lparr>mem := m\<rparr>) (tls ?a) = chain_data h (tls ?a)" using seg by (intro chain_data_cong) simp
  then have "chain_data (h\<lparr>mem := m\<rparr>) (frag_chain tls f) = hdr @ frag_payload h tls f"
    using m(3) len assms(2) by (simp add: frag_chain_def frag_payload_def patch_0)
  moreover have "frag_payload (h\<lparr>mem := m\<rparr>) tls g = frag_payload h tls g" if "g \<in> set fs" for g
    unfolding frag_payload_def using seg that by (intro arg_cong [of _ _ "drop 20"] chain_data_cong) (auto simp: queue_pbufs_def)
  moreover have "write_iphdr h (Some ?a) hdr = Inr (h\<lparr>mem := m\<rparr>)" using m(1) p(3) by (auto simp: write_iphdr_def pb_def)
  ultimately show ?thesis using m(2) by blast
qed

lemma finish_chain:
  assumes "heap_ok (rheap s)" and "distinct (map fst (f # fs))" and "frag_seg s nx fs None" and "packets_ok (rheap s) tls (f # fs)"
    and "length hdr = 20" and "20 + length (concat (map (frag_payload (rheap s) tls) (f # fs))) \<le> 65535"
  shows "\<exists>m h. write_iphdr (rheap s) (Some (fst f)) hdr = Inr ((rheap s)\<lparr>mem := m\<rparr>)
    \<and> reass_cat_loop (fuel (rheap s)) (s\<lparr>rheap := (rheap s)\<lparr>mem := m\<rparr>, helper := (helper s)(fst f := None)\<rparr>) (Some (fst f)) nx
      = Inr (s\<lparr>rheap := h, helper := (helper s) |` (- fst ` set (f # fs))\<rparr>)
    \<and> heap_ok h \<and> chain_ok h (Some (fst f)) (queue_pbufs tls (f # fs))
    \<and> chain_data h (queue_pbufs tls (f # fs)) = hdr @ concat (map (frag_payload (rheap s) tls) (f # fs))
    \<and> (\<forall>x. x \<notin> set (queue_pbufs tls (f # fs)) \<longrightarrow> pbufs h x = pbufs (rheap s) x)"
proof -
  let ?a = "fst f" and ?h = "rheap s"
  obtain m where m: "write_iphdr ?h (Some ?a) hdr = Inr (?h\<lparr>mem := m\<rparr>)" "same_shape (mem ?h) m"
    "chain_data (?h\<lparr>mem := m\<rparr>) (frag_chain tls f) = hdr @ frag_payload ?h tls f"
    "\<forall>g\<in>set fs. frag_payload (?h\<lparr>mem := m\<rparr>) tls g = frag_payload ?h tls g" using write_first [OF assms(4,5)] by blast
  define s1 where "s1 = s\<lparr>rheap := ?h\<lparr>mem := m\<rparr>, helper := (helper s)(?a := None)\<rparr>"
  have s1: "rheap s1 = ?h\<lparr>mem := m\<rparr>" "helper s1 = (helper s)(?a := None)" by (simp_all add: s1_def)
  have "fst g \<noteq> ?a" if "g \<in> set fs" for g using assms(2) that by (metis distinct.simps(2) image_eqI list.set_map list.simps(9))
  then have seg1: "frag_seg s1 nx fs None" using assms(3) by (intro frag_seg_heap [OF assms(3)]) (simp_all add: s1)
  have pk: "frag_packet (rheap s1) tls g = frag_packet ?h tls g" for g using m(2) by (simp add: s1 frag_packet_def)
  have pay: "map (frag_payload (rheap s1) tls) fs = map (frag_payload ?h tls) fs" using m(4) by (simp add: s1)
  have ok1: "heap_ok (rheap s1)" using assms(1) m(2) by (simp add: s1)
  have len: "length fs \<le> fuel ?h" using frag_seg_length [OF assms(3) _ assms(1)] assms(2) by (simp add: fuel_def)
  have qp: "queue_pbufs tls (f # fs) = frag_chain tls f @ concat (map (frag_chain tls) fs)" by (simp add: queue_pbufs_def)
  have hp: "(helper s1) |` (- fst ` set fs) = (helper s) |` (- fst ` set (f # fs))" by (rule ext) (simp add: s1 restrict_map_def)
  have "length (chain_data (rheap s1) (frag_chain tls f)) + length (concat (map (frag_payload (rheap s1) tls) fs)) \<le> 65535"
    unfolding pay using assms(5,6) m(3) by (simp add: s1)
  moreover have "frag_packet (rheap s1) tls f" and "\<forall>g\<in>set fs. frag_packet (rheap s1) tls g"
    using assms(4) pk by (simp_all add: packets_ok_def)
  moreover have "chain_ok (rheap s1) (Some ?a) (frag_chain tls f)" using calculation(2) by (simp add: frag_packet_def)
  moreover have "distinct (frag_chain tls f @ concat (map (frag_chain tls) fs))" using assms(4) by (simp add: packets_ok_def qp)
  ultimately obtain h where h: "reass_cat_loop (fuel ?h) s1 (Some ?a) nx = Inr (s1\<lparr>rheap := h, helper := (helper s1) |` (- fst ` set fs)\<rparr>)"
    "heap_ok h" "chain_ok h (Some ?a) (queue_pbufs tls (f # fs))"
    "chain_data h (queue_pbufs tls (f # fs)) = chain_data (rheap s1) (frag_chain tls f) @ concat (map (frag_payload (rheap s1) tls) fs)"
    "\<forall>x. x \<notin> set (queue_pbufs tls (f # fs)) \<longrightarrow> pbufs h x = pbufs (rheap s1) x"
    unfolding qp using reass_cat_loop_correct [OF seg1 len ok1] by blast
  have "s1\<lparr>rheap := h, helper := (helper s1) |` (- fst ` set fs)\<rparr> = s\<lparr>rheap := h, helper := (helper s) |` (- fst ` set (f # fs))\<rparr>"
    unfolding hp by (simp add: s1_def)
  then show ?thesis using m(1,3) h(1) [unfolded s1_def] h(2,3,5) h(4) [unfolded pay] by (intro exI [of _ m] exI [of _ h]) (simp add: s1_def)
qed

lemma reass_finish_correct:
  assumes "frag_queue s i (f # fs)" and "ipr_at s i = Some d" and "length (iphdr d) = 20" and "packets_ok (rheap s) tls (f # fs)"
    and "20 + length (concat (map (frag_payload (rheap s) tls) (f # fs))) \<le> 65535"
    and "distinct (reassdatagrams s)" and "i \<in> set (reassdatagrams s)"
    and "length (queue_pbufs tls (f # fs)) \<le> unat (ip_reass_pbufcount s)"
  shows "\<exists>od h. reass_finish e s i = Inr (Some (fst f), s\<lparr>rheap := h, helper := (helper s) |` (- fst ` set (f # fs)),
       reassdatagrams := remove1 i (reassdatagrams s), ipr_at := (ipr_at s)(i := None),
       ip_reass_pbufcount := ip_reass_pbufcount s - of_nat (length (queue_pbufs tls (f # fs)))\<rparr>)
    \<and> heap_ok h \<and> chain_ok h (Some (fst f)) (queue_pbufs tls (f # fs))
    \<and> chain_data h (queue_pbufs tls (f # fs))
      = reass_iphdr od (iphdr d) (datagram_len d + 20) @ concat (map (frag_payload (rheap s) tls) (f # fs))
    \<and> (\<forall>x. x \<notin> set (queue_pbufs tls (f # fs)) \<longrightarrow> pbufs h x = pbufs (rheap s) x)"
proof -
  let ?a = "fst f" and ?h = "rheap s" and ?qs = "queue_pbufs tls (f # fs)"
  have q: "heap_ok ?h" "distinct (map fst (f # fs))" "frag_seg s (ipr_p d) (f # fs) None"
    using assms(1,2) by (auto simp: frag_queue_def)
  obtain nx where p: "ipr_p d = Some ?a" "get_helper s (Some ?a) = Inr \<lparr>next_pbuf = nx, frag_start = fst (snd f), frag_end = snd (snd f)\<rparr>"
    "frag_seg s nx fs None" using q(3) by (auto simp: get_helper_eq)
  obtain b where b: "pbufs ?h ?a = Some b" using q(3) by auto
  define od where "od = hdr_odd e (p_payload b)"
  let ?hdr = "reass_iphdr od (iphdr d) (datagram_len d + 20)"
  obtain m h where h: "write_iphdr ?h (Some ?a) ?hdr = Inr (?h\<lparr>mem := m\<rparr>)"
    "reass_cat_loop (fuel ?h) (s\<lparr>rheap := ?h\<lparr>mem := m\<rparr>, helper := (helper s)(?a := None)\<rparr>) (Some ?a) nx
      = Inr (s\<lparr>rheap := h, helper := (helper s) |` (- fst ` set (f # fs))\<rparr>)"
    "heap_ok h" "chain_ok h (Some ?a) ?qs" "chain_data h ?qs = ?hdr @ concat (map (frag_payload ?h tls) (f # fs))"
    "\<forall>x. x \<notin> set ?qs \<longrightarrow> pbufs h x = pbufs ?h x"
    using finish_chain [OF q(1,2) p(3) assms(4) reass_iphdr_fields(3) [OF assms(3)] assms(5)] by blast
  define t where "t = s\<lparr>rheap := h, helper := (helper s) |` (- fst ` set (f # fs))\<rparr>"
  have deq: "ip_reass_dequeue_datagram t i (list_prev (reassdatagrams t) i)
      = Inr (t\<lparr>reassdatagrams := remove1 i (reassdatagrams t), ipr_at := (ipr_at t)(i := None)\<rparr>)"
    using assms(6,7) by (intro dequeue_prev) (simp_all add: t_def)
  have clen: "pbuf_clen h (Some ?a) = Inr (of_nat (length ?qs))" using pbuf_clen_correct [OF h(3) chain_ok_path [OF h(4)]] .
  have cnt: "of_nat (length ?qs) \<le> ip_reass_pbufcount s"
    using assms(8) unat_lt_16 [of "ip_reass_pbufcount s"] by (simp add: word_le_nat_alt unat_of_nat del: unat_lt_16)
  have fin: "reass_finish e s i = Inr (Some ?a, s\<lparr>rheap := h, helper := (helper s) |` (- fst ` set (f # fs)),
       reassdatagrams := remove1 i (reassdatagrams s), ipr_at := (ipr_at s)(i := None),
       ip_reass_pbufcount := ip_reass_pbufcount s - of_nat (length ?qs)\<rparr>)"
    using assms(2) p(1,2) b h(1,2) deq clen cnt by (simp add: reass_finish_def get_ipr_def od_def t_def)
  show ?thesis using fin h(3-6) by blast
qed

section \<open>A fragment that completes its datagram\<close>

lemma frag_queue_cong:
  assumes "rheap s' = rheap s" and "helper s' = helper s" and "map_option ipr_p (ipr_at s' i) = map_option ipr_p (ipr_at s i)"
  shows "frag_queue s' i fs = frag_queue s i fs"
proof -
  have seg: "frag_seg s' p fs None = frag_seg s p fs None" for p using assms(1,2) by (intro frag_seg_cong) simp_all
  show ?thesis using assms(1,3) by (auto simp: frag_queue_def seg split: option.splits)
qed

lemma queue_pbufs_perm: "mset fs = mset gs \<Longrightarrow> mset (queue_pbufs tls fs) = mset (queue_pbufs tls gs)"
  by (simp add: queue_pbufs_def mset_concat flip: mset_map) (metis mset_map sum_mset_sum_list)

lemma packets_ok_perm:
  assumes "mset fs = mset gs"
  shows "packets_ok h tls fs = packets_ok h tls gs"
proof -
  have "mset (queue_pbufs tls fs) = mset (queue_pbufs tls gs)" using assms by (rule queue_pbufs_perm)
  then have "distinct (queue_pbufs tls fs) = distinct (queue_pbufs tls gs)" "separate h (queue_pbufs tls fs) = separate h (queue_pbufs tls gs)"
    unfolding separate_def by (metis mset_eq_imp_distinct_iff, metis mset_eq_imp_distinct_iff mset_filter mset_map)
  then show ?thesis using mset_eq_setD [OF assms] by (simp add: packets_ok_def)
qed

lemma mset_insert_frag: "mset (insert_frag f fs) = add_mset f (mset fs)"
  by (simp add: insert_frag_def Let_def) (metis mset_append takeWhile_dropWhile_id union_code)

text \<open>The bytes of a complete datagram, when each fragment has as many as its interval says.\<close>

definition sizes_ok :: "heap \<Rightarrow> (nat \<Rightarrow> nat list) \<Rightarrow> frag list \<Rightarrow> bool" where
  "sizes_ok h tls fs \<longleftrightarrow> (\<forall>f\<in>set fs. unat (fst (snd f)) + length (frag_payload h tls f) = unat (snd (snd f)))"

lemma adjacent_length:
  assumes "adjacent (f # fs)" and "sizes_ok h tls (f # fs)"
  shows "unat (fst (snd f)) + length (concat (map (frag_payload h tls) (f # fs))) = unat (snd (snd (last (f # fs))))"
  using assms
proof (induction fs arbitrary: f)
  case (Cons g fs)
  then have "unat (fst (snd g)) + length (concat (map (frag_payload h tls) (g # fs))) = unat (snd (snd (last (g # fs))))"
    by (intro Cons.IH) (simp_all add: sizes_ok_def)
  then show ?case using Cons.prems by (simp add: sizes_ok_def)
qed (simp add: sizes_ok_def)

lemma complete_length:
  assumes "complete fs" and "sizes_ok h tls fs"
  shows "length (concat (map (frag_payload h tls) fs)) = unat (snd (snd (last fs)))"
  using assms adjacent_length [of "hd fs" "tl fs" h tls] by (cases fs) (auto simp: complete_def)

text \<open>The entry of the datagram when its last fragment is known.\<close>

definition marked :: "bool \<Rightarrow> u16_t \<Rightarrow> ip_reassdata \<Rightarrow> ip_reassdata" where
  "marked is_last en r = (if is_last then r\<lparr>datagram_len := en, ipr_flags := ipr_flags r OR 1\<rparr> else r)"

lemma marked_simps [simp]: "ipr_p (marked l en r) = ipr_p r" "iphdr (marked l en r) = iphdr r"
  "datagram_len (marked l en r) = (if l then en else datagram_len r)"
  by (simp_all add: marked_def)

lemma reass_queue_finish:
  assumes "frag_queue s i fs" and "ipr_at s i = Some r" and "length (iphdr r) = 20" and "fs \<noteq> []"
    and "packets_ok (rheap s) tls ((a, st, en) # fs)" and "read_iphdr (rheap s) (Some a) = Inr hdr"
    and "unat (IPH_HL_BYTES hdr) = 20" and "20 \<le> unat (lwip_ntohs (IPH_LEN hdr))"
    and "st = IPH_OFFSET_BYTES hdr" and "en = st + (lwip_ntohs (IPH_LEN hdr) - ucast (IPH_HL_BYTES hdr))"
    and "is_last = (IPH_OFFSET hdr AND lwip_htons 0x2000 = 0)" and "is_last \<or> ipr_flags r AND 1 \<noteq> 0"
    and "st \<le> en" and "fits st en fs" and "gs = insert_frag (a, st, en) fs" and "complete gs" and "sizes_ok (rheap s) tls gs"
    and "snd (snd (last gs)) = dl" and "dl = (if is_last then en else datagram_len r)" and "unat dl \<le> 65515"
    and "distinct (reassdatagrams s)" and "i \<in> set (reassdatagrams s)"
    and "length (queue_pbufs tls gs) \<le> unat (ip_reass_pbufcount s + clen)"
  shows "\<exists>od s'. reass_queue e s i a hdr clen = Inr (Some (fst (hd gs)), s')
    \<and> heap_ok (rheap s') \<and> chain_ok (rheap s') (Some (fst (hd gs))) (queue_pbufs tls gs)
    \<and> chain_data (rheap s') (queue_pbufs tls gs) = reass_iphdr od (iphdr r) (dl + 20) @ concat (map (frag_payload (rheap s) tls) gs)
    \<and> reassdatagrams s' = remove1 i (reassdatagrams s)
    \<and> ip_reass_pbufcount s' = ip_reass_pbufcount s + clen - of_nat (length (queue_pbufs tls gs))
    \<and> (\<forall>x. x \<notin> set (queue_pbufs tls gs) \<longrightarrow> pbufs (rheap s') x = pbufs (rheap s) x)"
proof -
  let ?f = "(a, st, en)" and ?h = "rheap s"
  have ok: "heap_ok ?h" "frags_ok fs" "distinct (map fst fs)" "frag_seg s (ipr_p r) fs None"
    using assms(1,2) by (auto simp: frag_queue_def)
  have na: "a \<notin> fst ` set fs" using assms(5) by (auto simp: packets_ok_def queue_pbufs_def frag_chain_def)
  have pa: "pbufs ?h a \<noteq> None" using assms(6) by (auto simp: read_iphdr_def pget_def split: option.splits)
  have hl: "unat (IPH_HL_BYTES hdr) \<le> unat (lwip_ntohs (IPH_LEN hdr))" using assms(7,8) by simp
  define t where "t = queued s i r ?f fs"
  have res: "ip_reass_chain_frag_into_datagram_and_validate s i a is_last = Inr (TELEGRAM_FINISHED, t)"
    using chain_frag_result [OF assms(6) hl assms(9,10) ok(1) assms(2) ok(4,2,3) na, of is_last] assms(4,12-16) by (simp add: t_def)
  obtain r' where r': "ipr_at t = (ipr_at s)(i \<mapsto> r')" "r' = r\<lparr>ipr_p := head_of gs\<rparr>" "frag_seg t (ipr_p r') gs None"
    using queued_seg [OF assms(2) ok(4,3), of ?f] na pa unfolding t_def assms(15) by auto
  have t: "rheap t = ?h" "reassdatagrams t = reassdatagrams s" "ip_reass_pbufcount t = ip_reass_pbufcount s" by (simp_all add: t_def)
  have "frag_queue t i gs"
    using r' t ok frags_ok_insert [OF ok(2) assms(14,13)] distinct_insert_frag [OF ok(3), of ?f] na by (simp add: frag_queue_def assms(15))
  define u where "u = (t\<lparr>ip_reass_pbufcount := ip_reass_pbufcount t + clen\<rparr>)\<lparr>ipr_at := (ipr_at t)(i \<mapsto> marked is_last en r')\<rparr>"
  have u: "rheap u = ?h" "ipr_at u i = Some (marked is_last en r')" "reassdatagrams u = reassdatagrams s"
    "ip_reass_pbufcount u = ip_reass_pbufcount s + clen" by (simp_all add: u_def t)
  have qu: "frag_queue u i gs" using \<open>frag_queue t i gs\<close> r'(1) by (subst frag_queue_cong [of _ t]) (simp_all add: u_def)
  obtain g gs' where gs: "gs = g # gs'" using assms(16) by (cases gs) (auto simp: complete_def)
  have pk: "packets_ok ?h tls gs" using assms(5) packets_ok_perm [of gs "?f # fs"] mset_insert_frag [of ?f fs] assms(15) by simp
  have total: "20 + length (concat (map (frag_payload ?h tls) gs)) \<le> 65535" using complete_length [OF assms(16,17)] assms(18,20) by simp
  have d: "iphdr (marked is_last en r') = iphdr r" "datagram_len (marked is_last en r') = dl" using r'(2) assms(19) by simp_all
  obtain od h where fin: "reass_finish e u i = Inr (Some (fst g), u\<lparr>rheap := h, helper := (helper u) |` (- fst ` set gs),
       reassdatagrams := remove1 i (reassdatagrams u), ipr_at := (ipr_at u)(i := None),
       ip_reass_pbufcount := ip_reass_pbufcount u - of_nat (length (queue_pbufs tls gs))\<rparr>)"
    "heap_ok h" "chain_ok h (Some (fst g)) (queue_pbufs tls gs)"
    "chain_data h (queue_pbufs tls gs) = reass_iphdr od (iphdr r) (dl + 20) @ concat (map (frag_payload ?h tls) gs)"
    "\<forall>x. x \<notin> set (queue_pbufs tls gs) \<longrightarrow> pbufs h x = pbufs ?h x"
    using reass_finish_correct [of u i g gs' "marked is_last en r'" tls e, folded gs, unfolded d u(1,3,4),
        OF qu u(2) assms(3) pk total assms(21-23)] unfolding u(3,4) by blast
  have "reass_queue e s i a hdr clen = reass_finish e u i"
  proof -
    have "get_ipr (t\<lparr>ip_reass_pbufcount := ip_reass_pbufcount t + clen\<rparr>) i = Inr r'" using r'(1) by (simp add: get_ipr_def)
    moreover have "\<not> (is_last \<and> (en < st \<or> 65515 < unat en))" using assms(13,19,20) by auto
    moreover have "u = (let w = t\<lparr>ip_reass_pbufcount := ip_reass_pbufcount t + clen\<rparr> in
        if is_last then set_ipr w i (r'\<lparr>datagram_len := en, ipr_flags := ipr_flags r' OR 1\<rparr>) else w)"
      using r'(1) by (simp add: u_def marked_def set_ipr_def fun_upd_idem)
    ultimately show ?thesis using res by (simp add: reass_queue_def Let_def flip: assms(9-11))
  qed
  then show ?thesis using fin u gs by auto
qed

lemma IPH_OFFSET_BYTES_0: "IPH_OFFSET_BYTES hdr = 0 \<longleftrightarrow> lwip_ntohs (IPH_OFFSET hdr) AND 0x1fff = 0"
proof -
  define w where "w = lwip_ntohs (IPH_OFFSET hdr) AND (0x1fff :: u16_t)"
  have "w \<le> 0x1fff" unfolding w_def by (rule word_and_le1)
  then have "unat (w * 8) = unat w * 8" by (simp add: word_le_nat_alt unat_mult_lem [THEN iffD1])
  then show ?thesis unfolding IPH_OFFSET_BYTES_def w_def [symmetric] by (simp add: word_unat_eq_iff)
qed

lemma read_first:
  assumes "frag_packet h tls f"
  shows "read_iphdr h (Some (fst f)) = Inr (take 20 (chain_data h (frag_chain tls f)))"
proof -
  obtain b where b: "pbufs h (fst f) = Some b" "payload_ok h (fst f)" "20 \<le> unat (p_len b)"
    using assms by (auto simp: frag_packet_def frag_chain_def chain_ok_Cons)
  have "mem_read h (p_payload b) 0 20 = Inr (take 20 (seg h (fst f)))" using mem_read_seg [OF b(2), of 0 20] b(1,3) by simp
  moreover have "20 \<le> length (seg h (fst f))" using length_seg [OF b(2)] b(1,3) by simp
  ultimately show ?thesis using b(1) by (simp add: read_iphdr_def frag_chain_def)
qed

lemma find_iprE:
  assumes "find_ipr s hdr = Some i"
  obtains r where "ipr_at s i = Some r" and "i \<in> set (reassdatagrams s)"
  using assms by (auto simp: find_ipr_def find_Some_iff split: option.splits)

text \<open>
  C7: The fragment that completes a datagram makes \<^verbatim>\<open>ip4_reass\<close> return the datagram: a header with the saved fields, the length
  of the whole, no fragment offset and a checksum that verifies, followed by the bytes of all fragments in the order of their
  offsets, whatever the order they came in. The length in the header is that of the packet. The entry leaves the list and its
  pbufs are no longer counted; nothing else in the heap changes.
\<close>

theorem ip4_reass_datagram:
  assumes "frag_queue s i fs" and "fs \<noteq> []" and "packets_ok (rheap s) tls ((a, st, en) # fs)"
    and "find_ipr s hdr = Some i" and "ipr_at s i = Some r" and "length (iphdr r) = 20"
    and "hdr = take 20 (chain_data (rheap s) (frag_chain tls (a, st, en)))"
    and "unat (IPH_HL_BYTES hdr) = 20" and "20 \<le> unat (lwip_ntohs (IPH_LEN hdr))"
    and "st = IPH_OFFSET_BYTES hdr" and "en = st + (lwip_ntohs (IPH_LEN hdr) - 20)"
    and "is_last \<longleftrightarrow> IPH_OFFSET hdr AND lwip_htons 0x2000 = 0" and "is_last \<or> last_seen s i"
    and "st \<le> en" and "fits st en fs" and "gs = insert_frag (a, st, en) fs" and "complete gs" and "sizes_ok (rheap s) tls gs"
    and "snd (snd (last gs)) = (if is_last then en else datagram_len r)" and "unat (snd (snd (last gs))) \<le> 65515"
    and "distinct (reassdatagrams s)" and "length (queue_pbufs tls fs) \<le> unat (ip_reass_pbufcount s)"
    and "unat (ip_reass_pbufcount s) + length (frag_chain tls (a, st, en)) \<le> 10"
  shows "\<exists>q s' saved. ip4_reass e s a = Inr (Some q, s') \<and> chain_ok (rheap s') (Some q) (queue_pbufs tls gs)
    \<and> saved = (if st = 0 \<and> lwip_ntohs (IPH_OFFSET (iphdr r)) AND 0x1fff \<noteq> 0 then hdr else iphdr r)
    \<and> (\<exists>ck h20. chain_data (rheap s') (queue_pbufs tls gs) = h20 @ concat (map (frag_payload (rheap s) tls) gs)
        \<and> h20 = take 2 saved @ be16 (of_nat (length (chain_data (rheap s') (queue_pbufs tls gs)))) @ take 2 (drop 4 saved) @ [0, 0]
                @ take 2 (drop 8 saved) @ u16_bytes ck @ drop 12 saved
        \<and> (\<forall>od. inet_chksum od h20 = 0))
    \<and> reassdatagrams s' = remove1 i (reassdatagrams s) 
    \<and> ip_reass_pbufcount s' = ip_reass_pbufcount s - of_nat (length (queue_pbufs tls fs))
    \<and> (\<forall>x. x \<notin> set (queue_pbufs tls gs) \<longrightarrow> pbufs (rheap s') x = pbufs (rheap s) x)"
proof -
  let ?f = "(a, st, en)" and ?h = "rheap s" and ?clen = "of_nat (length (frag_chain tls (a, st, en))) :: u16_t"
  define saved where "saved = (if st = 0 \<and> lwip_ntohs (IPH_OFFSET (iphdr r)) AND 0x1fff \<noteq> 0 then hdr else iphdr r)"
  define s0 where "s0 = set_ipr s i (r\<lparr>iphdr := saved\<rparr>)"
  have fp: "frag_packet ?h tls ?f" using assms(3) by (simp add: packets_ok_def)
  have rd: "read_iphdr ?h (Some a) = Inr hdr" using read_first [OF fp] assms(7) by simp
  have hl: "length hdr = 20" "length saved = 20"
    using fp assms(6,7) by (auto simp: saved_def frag_packet_def frag_chain_def chain_ok_Cons length_seg)
  have i: "i \<in> set (reassdatagrams s)" using assms(4) by (auto elim: find_iprE)
  have s0: "rheap s0 = ?h" "ipr_at s0 i = Some (r\<lparr>iphdr := saved\<rparr>)" "reassdatagrams s0 = reassdatagrams s"
    "ip_reass_pbufcount s0 = ip_reass_pbufcount s" by (simp_all add: s0_def) (simp add: set_ipr_def)
  have q0: "frag_queue s0 i fs" using assms(1,5) by (subst frag_queue_cong [of _ s]) (simp_all add: s0_def)
  have "IPH_HL_BYTES hdr = 20" using assms(8) by (simp add: word_unat_eq_iff)
  then have en: "en = st + (lwip_ntohs (IPH_LEN hdr) - ucast (IPH_HL_BYTES hdr))" using assms(11) by simp
  have len: "length (queue_pbufs tls gs) = length (frag_chain tls ?f) + length (queue_pbufs tls fs)"
    using arg_cong [OF queue_pbufs_perm [of gs "?f # fs" tls], of size] mset_insert_frag [of ?f fs] assms(16)
    by (simp add: queue_pbufs_def)
  have clen: "unat ?clen = length (frag_chain tls ?f)" using assms(23) by (simp add: unat_of_nat)
  have cl: "pbuf_clen ?h (Some a) = Inr ?clen"
    using pbuf_clen_correct [of ?h "Some a" "frag_chain tls ?f"] assms(1) fp chain_ok_path by (auto simp: frag_queue_def frag_packet_def)
  have count: "unat (ip_reass_pbufcount s + ?clen) = unat (ip_reass_pbufcount s) + length (frag_chain tls ?f)"
    using clen assms(23) by (simp add: unat_add_16)
  have eq: "ip4_reass e s a = reass_queue e s0 i a hdr ?clen"
  proof -
    have "(if lwip_ntohs (IPH_OFFSET hdr) AND 0x1fff = 0 \<and> lwip_ntohs (IPH_OFFSET (iphdr r)) AND 0x1fff \<noteq> 0
        then set_ipr s i (r\<lparr>iphdr := hdr\<rparr>) else s) = s0"
      using assms(5,10) by (simp add: s0_def saved_def IPH_OFFSET_BYTES_0 set_ipr_def fun_upd_idem)
    then show ?thesis using rd assms(4,5,8,9,23) cl clen by (simp add: ip4_reass_def get_ipr_def)
  qed
  let ?dl = "snd (snd (last gs))"
  obtain od s' where fin: "ip4_reass e s a = Inr (Some (fst (hd gs)), s')" "chain_ok (rheap s') (Some (fst (hd gs))) (queue_pbufs tls gs)"
    "chain_data (rheap s') (queue_pbufs tls gs) = reass_iphdr od saved (?dl + 20) @ concat (map (frag_payload ?h tls) gs)"
    "reassdatagrams s' = remove1 i (reassdatagrams s)"
    "ip_reass_pbufcount s' = ip_reass_pbufcount s + ?clen - of_nat (length (queue_pbufs tls gs))"
    "\<forall>x. x \<notin> set (queue_pbufs tls gs) \<longrightarrow> pbufs (rheap s') x = pbufs ?h x"
    using reass_queue_finish [of s0 i fs "r\<lparr>iphdr := saved\<rparr>" tls a st en hdr is_last gs ?dl ?clen e] eq q0 s0 hl(2) assms(2,3) rd assms(8-10,12-21)
      en i len count assms(22) by (auto simp: last_seen_def assms(5))
  obtain ck where ck: "reass_iphdr od saved (?dl + 20)
      = take 2 saved @ be16 (?dl + 20) @ take 2 (drop 4 saved) @ [0, 0] @ take 2 (drop 8 saved) @ u16_bytes ck @ drop 12 saved"
    using reass_iphdr_fields(1) [OF hl(2)] by blast
  have "length (chain_data (rheap s') (queue_pbufs tls gs)) = 20 + unat ?dl"
    unfolding fin(3) using reass_iphdr_fields(3) [OF hl(2)] complete_length [OF assms(17,18)] by simp
  then have dl: "?dl + 20 = of_nat (length (chain_data (rheap s') (queue_pbufs tls gs)))" by simp
  have cnt: "ip_reass_pbufcount s' = ip_reass_pbufcount s - of_nat (length (queue_pbufs tls fs))" using fin(5) len by simp
  define h20 where "h20 = reass_iphdr od saved (?dl + 20)"
  have "\<exists>ck h20. chain_data (rheap s') (queue_pbufs tls gs) = h20 @ concat (map (frag_payload ?h tls) gs)
      \<and> h20 = take 2 saved @ be16 (of_nat (length (chain_data (rheap s') (queue_pbufs tls gs)))) @ take 2 (drop 4 saved) @ [0, 0]
        @ take 2 (drop 8 saved) @ u16_bytes ck @ drop 12 saved \<and> (\<forall>od. inet_chksum od h20 = 0)"
    unfolding dl [symmetric] using fin(3) ck reass_iphdr_fields(2) [OF hl(2), of _ od "?dl + 20"] unfolding h20_def [symmetric] by blast
  then show ?thesis
    using fin(1,2,4,6) cnt saved_def by (intro exI [of _ "fst (hd gs)"] exI [of _ s'] exI [of _ saved] conjI)
qed

definition sample_reass_env :: reass_env where
  "sample_reass_env = \<lparr>time_exceeded = (\<lambda>h _. Inr h), hdr_odd = (\<lambda>_. False)\<rparr>"

lemma sample_frags_chain:
  "chain_data sample_frags (frag_chain (\<lambda>_. []) (0, st, en)) = sample_frag_hdr 0x20 0 @ [1, 2, 3, 4, 5, 6, 7, 8]"
  "chain_data sample_frags (frag_chain (\<lambda>_. []) (Suc 0, st, en)) = sample_frag_hdr 0 1 @ [9, 10, 11, 12, 13, 14, 15, 16]"
  by (simp_all add: frag_chain_def seg_def sample_frags_def sample_frag_hdr_def)

lemma sample_packets: "packets_ok sample_frags (\<lambda>_. []) [(Suc 0, 8, 16), (0, 0, 8)]"
  by (simp add: packets_ok_def frag_packet_def frag_chain_def chain_ok_Cons payload_ok_def queue_pbufs_def separate_def block_def
      sample_frags_def sample_frag_hdr_def)

lemma sample_payload:
  "frag_payload sample_frags (\<lambda>_. []) (0, st, en) = [1, 2, 3, 4, 5, 6, 7, 8]"
  "frag_payload sample_frags (\<lambda>_. []) (Suc 0, st, en) = [9, 10, 11, 12, 13, 14, 15, 16]"
  by (simp_all add: frag_payload_def sample_frags_chain sample_frag_hdr_def)

lemma sample_frag_fields:
  "IPH_HL_BYTES (sample_frag_hdr 0 1) = 20" "lwip_ntohs (IPH_LEN (sample_frag_hdr 0 1)) = 28"
  "IPH_OFFSET_BYTES (sample_frag_hdr 0 1) = 8" "IPH_OFFSET (sample_frag_hdr 0 1) AND lwip_htons 0x2000 = 0"
  unfolding IPH_HL_BYTES_def IPH_LEN_def IPH_OFFSET_BYTES_def IPH_OFFSET_def sample_frag_hdr_def by code_simp+

theorem ip4_reass_datagram_witness:
  "\<exists>s' ck. ip4_reass sample_reass_env sample_reass (Suc 0) = Inr (Some 0, s') \<and> reassdatagrams s' = []
    \<and> chain_data (rheap s') [0, Suc 0] = [0x45, 0, 0, 36, 0, 7, 0, 0, 64, 17] @ u16_bytes ck @ [10, 0, 0, 1, 10, 0, 0, 2]
        @ [1, 2, 3, 4, 5, 6, 7, 8, 9, 10, 11, 12, 13, 14, 15, 16]"
proof -
  let ?r = "\<lparr>ipr_p = Some 0, iphdr = sample_frag_hdr 0x20 0, datagram_len = 0, ipr_flags = 0, ipr_timer = 15\<rparr>"
  have s: "rheap sample_reass = sample_frags" "ipr_at sample_reass 0 = Some ?r" "reassdatagrams sample_reass = [0]"
    "ip_reass_pbufcount sample_reass = 1" by (simp_all add: sample_reass_def)
  have gs: "insert_frag (Suc 0, 8, 16) [(0, 0, 8)] = [(0, 0, 8), (Suc 0, 8, 16)]" "fits 8 16 [(0, 0, 8)]"
    "complete [(0, 0, 8), (Suc 0, 8, 16)]" "queue_pbufs (\<lambda>_. []) [(0, 0, 8), (Suc 0, 8, 16)] = [0, Suc 0]"
    by (simp_all add: insert_frag_def fits_def complete_def queue_pbufs_def frag_chain_def)
  have f: "find_ipr sample_reass (sample_frag_hdr 0 1) = Some 0"
    by (simp add: find_ipr_def s IP_ADDRESSES_AND_ID_MATCH_def IPH_ID_def sample_frag_hdr_def)
  have sz: "sizes_ok sample_frags (\<lambda>_. []) [(0, 0, 8), (Suc 0, 8, 16)]" by (simp add: sizes_ok_def sample_payload)
  have hdr: "sample_frag_hdr 0 1 = take 20 (chain_data sample_frags (frag_chain (\<lambda>_. []) (Suc 0, 8, 16)))"
    by (simp add: sample_frags_chain sample_frag_hdr_def)
  have pk: "packets_ok (rheap sample_reass) (\<lambda>_. []) [(Suc 0, 8, 16), (0, 0, 8)]" using sample_packets by (simp add: s)
  have P: "length (iphdr ?r) = 20" "unat (IPH_HL_BYTES (sample_frag_hdr 0 1)) = 20" "20 \<le> unat (lwip_ntohs (IPH_LEN (sample_frag_hdr 0 1)))"
    "8 = IPH_OFFSET_BYTES (sample_frag_hdr 0 1)" "16 = 8 + (lwip_ntohs (IPH_LEN (sample_frag_hdr 0 1)) - 20)"
    "True \<longleftrightarrow> IPH_OFFSET (sample_frag_hdr 0 1) AND lwip_htons 0x2000 = 0" "True \<or> last_seen sample_reass 0"
    by (simp_all only: sample_frag_fields) (simp_all add: sample_frag_hdr_def)
  have Q: "snd (snd (last [(0, 0, 8), (Suc 0, 8, 16 :: u16_t)])) = (if True then 16 else datagram_len ?r)"
    "unat (snd (snd (last [(0, 0, 8 :: u16_t), (Suc 0, 8, 16 :: u16_t)]))) \<le> 65515"
    "length (queue_pbufs (\<lambda>_. []) [(0, 0, 8)]) \<le> unat (ip_reass_pbufcount sample_reass)"
    "unat (ip_reass_pbufcount sample_reass) + length (frag_chain (\<lambda>_. []) (Suc 0, 8, 16)) \<le> 10"
    by (simp_all add: s queue_pbufs_def frag_chain_def)
  have le: "(8 :: u16_t) \<le> 16" and dist: "distinct (reassdatagrams sample_reass)" by (simp_all add: s)
  obtain q s' saved ck h20 where res: "ip4_reass sample_reass_env sample_reass (Suc 0) = Inr (Some q, s')"
    "chain_ok (rheap s') (Some q) [0, Suc 0]"
    "saved = (if (8 :: u16_t) = 0 \<and> lwip_ntohs (IPH_OFFSET (iphdr ?r)) AND 0x1fff \<noteq> 0 then sample_frag_hdr 0 1 else iphdr ?r)"
    "chain_data (rheap s') [0, Suc 0] = h20 @ concat (map (frag_payload sample_frags (\<lambda>_. [])) [(0, 0, 8), (Suc 0, 8, 16)])"
    "h20 = take 2 saved @ be16 (of_nat (length (chain_data (rheap s') [0, Suc 0]))) @ take 2 (drop 4 saved) @ [0, 0]
        @ take 2 (drop 8 saved) @ u16_bytes ck @ drop 12 saved" "reassdatagrams s' = remove1 0 (reassdatagrams sample_reass)"
    using ip4_reass_datagram [OF sample_frag_queue list.distinct(2) pk f s(2) P(1) hdr [folded s(1)] P(2-7) le gs(2) gs(1) [symmetric] gs(3)
        sz [folded s(1)] Q(1,2) dist Q(3,4), of sample_reass_env] unfolding gs(4) s(1) by blast
  have "length (chain_data (rheap s') [0, Suc 0]) = 36"
    using arg_cong [OF res(4), of length] res(3,5) by (simp add: sample_payload sample_frag_hdr_def be16_def del: chain_data_Cons)
  then have "h20 = [0x45, 0, 0, 36, 0, 7, 0, 0, 64, 17] @ u16_bytes ck @ [10, 0, 0, 1, 10, 0, 0, 2]"
    using res(3,5) by (simp add: sample_frag_hdr_def be16_def del: chain_data_Cons)
  moreover have "q = 0" using res(2) by (simp add: chain_ok_Cons)
  ultimately show ?thesis using res(1,4,6) by (simp add: sample_payload s del: chain_data_Cons) blast
qed

end
