(* ===== verification/Reass_Timer.thy ===== *)
theory Reass_Timer
  imports Reass_Datagram
begin

text \<open>
  The list of datagrams over time: which states the module can be in, the limit on queued pbufs, and what the timer does.
\<close>

section \<open>What each operation does to the list\<close>

text \<open>The part of the state that the list, the counter and the timers make up.\<close>

definition entry_ok :: "reass \<Rightarrow> nat \<Rightarrow> bool" where
  "entry_ok s i \<longleftrightarrow> i < next_ipr s \<and> (case ipr_at s i of None \<Rightarrow> False | Some r \<Rightarrow> ipr_timer r \<le> 15)"

definition reass_inv :: "reass \<Rightarrow> bool" where
  "reass_inv s \<longleftrightarrow> ip_reass_pbufcount s \<le> 10 \<and> distinct (reassdatagrams s) \<and> (\<forall>i\<in>set (reassdatagrams s). entry_ok s i)"

text \<open>States that agree on the list, the counter and all timers; what fragments are queued may differ.\<close>

definition timer_at :: "reass \<Rightarrow> nat \<Rightarrow> u8_t option" where
  "timer_at s i = map_option ipr_timer (ipr_at s i)"

definition same_list :: "reass \<Rightarrow> reass \<Rightarrow> bool" where
  "same_list s s' \<longleftrightarrow> reassdatagrams s' = reassdatagrams s \<and> ip_reass_pbufcount s' = ip_reass_pbufcount s
     \<and> timer_at s' = timer_at s \<and> next_ipr s' = next_ipr s"

lemma same_list_refl [simp]: "same_list s s" by (simp add: same_list_def)

lemma same_list_trans: "same_list s t \<Longrightarrow> same_list t u \<Longrightarrow> same_list s u" by (simp add: same_list_def)

lemma entry_ok_timer: "entry_ok s i \<longleftrightarrow> i < next_ipr s \<and> (\<exists>n. timer_at s i = Some n \<and> n \<le> 15)"
  by (auto simp: entry_ok_def timer_at_def split: option.splits)

lemma same_list_inv: "same_list s s' \<Longrightarrow> reass_inv s' = reass_inv s"
  by (simp add: reass_inv_def entry_ok_timer same_list_def)

lemma same_list_upd [simp]:
  "same_list s (t\<lparr>rheap := h\<rparr>) = same_list s t" "same_list (s\<lparr>rheap := h\<rparr>) t = same_list s t"
  "same_list s (t\<lparr>helper := e\<rparr>) = same_list s t" "same_list (s\<lparr>helper := e\<rparr>) t = same_list s t"
  "same_list s (set_helper t a i) = same_list s t" "same_list (set_helper s a i) t = same_list s t"
  by (simp_all add: same_list_def timer_at_def set_helper_def fun_eq_iff)

lemma same_list_set_ipr [simp]:
  assumes "ipr_at t i = Some r" and "ipr_timer r' = ipr_timer r"
  shows "same_list s (set_ipr t i r') = same_list s t" and "same_list (set_ipr t i r') s = same_list t s"
proof -
  have "timer_at (set_ipr t i r') = timer_at t" using assms by (auto simp: timer_at_def set_ipr_def fun_eq_iff)
  then show "same_list s (set_ipr t i r') = same_list s t" "same_list (set_ipr t i r') s = same_list t s"
    by (simp_all add: same_list_def) (simp_all add: set_ipr_def)
qed

text \<open>What holds of every result of a computation.\<close>

definition returns :: "'a outcome \<Rightarrow> ('a \<Rightarrow> bool) \<Rightarrow> bool" where
  "returns m P \<longleftrightarrow> (\<forall>x. m = Inr x \<longrightarrow> P x)"

lemma returnsD: "returns m P \<Longrightarrow> m = Inr x \<Longrightarrow> P x"
  by (simp add: returns_def)

lemma returns_intros:
  "P x \<Longrightarrow> returns (Inr x) P" "returns (Inl e) P" "(\<And>x. m = Inr x \<Longrightarrow> returns (f x) P) \<Longrightarrow> returns (bnd m f) P"
  "(c \<Longrightarrow> returns k P) \<Longrightarrow> returns (lwip_assert c k) P"
  "(c \<Longrightarrow> returns k P) \<Longrightarrow> (\<not> c \<Longrightarrow> returns l P) \<Longrightarrow> returns (if c then k else l) P"
  "(\<And>x y. z = (x, y) \<Longrightarrow> returns (g x y) P) \<Longrightarrow> returns (case z of (x, y) \<Rightarrow> g x y) P"
  "(o' = None \<Longrightarrow> returns k P) \<Longrightarrow> (\<And>x. o' = Some x \<Longrightarrow> returns (q x) P) \<Longrightarrow> returns (case o' of None \<Rightarrow> k | Some x \<Rightarrow> q x) P"
  by (auto simp: returns_def bnd_eq_Inr_iff split: option.splits prod.splits)

lemma get_iprE: "get_ipr s i = Inr r \<longleftrightarrow> ipr_at s i = Some r"
  by (auto simp: get_ipr_def split: option.splits)

lemma reass_free_list: "reass_free s p = Inr s' \<Longrightarrow> same_list s s'"
  by (auto simp: reass_free_def bnd_eq_Inr_iff)

lemma reass_free_loop_list: "reass_free_loop n s p c = Inr (c', s') \<Longrightarrow> same_list s s'"
proof (induction n s p c rule: reass_free_loop.induct)
  case (3 n s a c)
  then show ?case by (auto simp: bnd_eq_Inr_iff dest: reass_free_list intro: same_list_trans)
qed simp_all

text \<open>\<^verbatim>\<open>ip_reass_dequeue_datagram\<close> with a predecessor that the assertions accept takes exactly the one entry out of the list.\<close>

lemma list_next_SomeE:
  assumes "list_next xs q = Some i"
  obtains us vs where "xs = us @ q # i # vs"
proof -
  obtain y vs where d: "dropWhile (\<lambda>x. x \<noteq> q) xs = y # i # vs" using assms by (auto simp: list_next_def split: list.splits)
  then have "y = q" using hd_dropWhile [of "\<lambda>x. x \<noteq> q" xs] by auto
  then show ?thesis using that d takeWhile_dropWhile_id [of "\<lambda>x. x \<noteq> q" xs] by metis
qed

lemma dequeue_list:
  assumes "ip_reass_dequeue_datagram s i prev = Inr s'" and "distinct (reassdatagrams s)"
    and "case prev of None \<Rightarrow> True | Some q \<Rightarrow> list_next (reassdatagrams s) q = Some i"
  shows "s' = s\<lparr>reassdatagrams := remove1 i (reassdatagrams s), ipr_at := (ipr_at s)(i := None)\<rparr>"
proof (cases prev)
  case None
  then show ?thesis using assms(1) by (cases "reassdatagrams s") (auto simp: ip_reass_dequeue_datagram_def split: if_splits)
next
  case (Some q)
  then obtain us vs where xs: "reassdatagrams s = us @ q # i # vs" using assms(3) by (auto elim: list_next_SomeE)
  then have d: "distinct (us @ q # i # vs)" using assms(2) by simp
  have "hd (us @ q # i # vs) \<noteq> i" using d by (cases us) auto
  moreover have "remove1 i (us @ q # i # vs) = us @ q # vs" using d by (simp add: remove1_append)
  ultimately show ?thesis using assms(1) xs Some list_unlink_prev [OF d] by (simp add: ip_reass_dequeue_datagram_def)
qed

text \<open>The first fragment, which goes back to its sender with an ICMP message.\<close>

lemma free_first_list:
  assumes "reass_free_first e s i r nxt = Inr (c, s')" and "ipr_at s i = Some r"
  shows "same_list s s'"
  using assms by (auto simp: reass_free_first_def bnd_eq_Inr_iff Let_def dest!: reass_free_list)

lemma free_complete_steps:
  assumes "ip_reass_free_complete_datagram e s i prev = Inr (c, s')"
  obtains r c1 s1 and r1 :: ip_reassdata and s2 s3 where "ipr_at s i = Some r" and "case prev of None \<Rightarrow> True | Some q \<Rightarrow> list_next (reassdatagrams s) q = Some i"
    and "same_list s s1" and "reass_free_loop (fuel (rheap s1)) s1 (ipr_p r1) c1 = Inr (c, s2)"
    and "ip_reass_dequeue_datagram s2 i prev = Inr s3" and "c \<le> ip_reass_pbufcount s3" and "s' = s3\<lparr>ip_reass_pbufcount := ip_reass_pbufcount s3 - c\<rparr>"
proof -
  obtain r c1 s1 s2 s3 and iprh :: ip_reass_helper and r1 :: ip_reassdata where *: "ipr_at s i = Some r" "case prev of None \<Rightarrow> True | Some q \<Rightarrow> list_next (reassdatagrams s) q = Some i"
    "(if frag_start iprh = 0 then reass_free_first e s i r (next_pbuf iprh) else Inr (0, s)) = Inr (c1, s1)"
    "reass_free_loop (fuel (rheap s1)) s1 (ipr_p r1) c1 = Inr (c, s2)" "ip_reass_dequeue_datagram s2 i prev = Inr s3"
    "c \<le> ip_reass_pbufcount s3" "s' = s3\<lparr>ip_reass_pbufcount := ip_reass_pbufcount s3 - c\<rparr>"
    using assms unfolding ip_reass_free_complete_datagram_def lwip_assert_eq_Inr_iff bnd_eq_Inr_iff get_iprE
    by (clarsimp split del: if_split simp: bnd_eq_Inr_iff get_iprE)
  have "same_list s s1" using *(1,3) free_first_list by (auto split: if_splits)
  then show thesis using that * by blast
qed

lemma free_complete_list:
  assumes "ip_reass_free_complete_datagram e s i prev = Inr (c, s')" and "distinct (reassdatagrams s)"
  shows "reassdatagrams s' = remove1 i (reassdatagrams s) \<and> ip_reass_pbufcount s' \<le> ip_reass_pbufcount s
    \<and> timer_at s' = (timer_at s)(i := None) \<and> next_ipr s' = next_ipr s"
proof -
  obtain r c1 s1 s2 s3 and r1 :: ip_reassdata where *: "case prev of None \<Rightarrow> True | Some q \<Rightarrow> list_next (reassdatagrams s) q = Some i"
    "same_list s s1" "reass_free_loop (fuel (rheap s1)) s1 (ipr_p r1) c1 = Inr (c, s2)" "ip_reass_dequeue_datagram s2 i prev = Inr s3"
    "c \<le> ip_reass_pbufcount s3" "s' = s3\<lparr>ip_reass_pbufcount := ip_reass_pbufcount s3 - c\<rparr>"
    using free_complete_steps [OF assms(1)] by metis
  have "same_list s s2" using *(2,3) reass_free_loop_list same_list_trans by blast
  then have l: "reassdatagrams s2 = reassdatagrams s" "ip_reass_pbufcount s2 = ip_reass_pbufcount s" "timer_at s2 = timer_at s"
    "next_ipr s2 = next_ipr s" by (simp_all add: same_list_def)
  have s3: "s3 = s2\<lparr>reassdatagrams := remove1 i (reassdatagrams s), ipr_at := (ipr_at s2)(i := None)\<rparr>"
    using dequeue_list [OF *(4), unfolded l, OF assms(2) *(1)] .
  have "ip_reass_pbufcount s - c \<le> ip_reass_pbufcount s" using *(5) s3 l by (simp add: word_sub_le)
  then show ?thesis using *(6) s3 l by (auto simp: timer_at_def fun_eq_iff)
qed

section \<open>The timer\<close>

definition tick :: "u8_t option \<Rightarrow> u8_t option" where
  "tick n = (case n of None \<Rightarrow> None | Some n \<Rightarrow> if n = 0 then None else Some (n - 1))"

lemma timer_set_ipr: "timer_at (set_ipr s i r) = (timer_at s)(i \<mapsto> ipr_timer r)"
  by (auto simp: timer_at_def set_ipr_def)

lemma set_ipr_list [simp]: "next_ipr (set_ipr s i r) = next_ipr s" "ip_reass_pbufcount (set_ipr s i r) = ip_reass_pbufcount s"
  by (simp_all add: set_ipr_def)

lemma reass_tmr_loop_list:
  assumes "reass_tmr_loop e s prev xs = Inr s'" and "distinct (reassdatagrams s)" and "distinct xs" and "set xs \<subseteq> set (reassdatagrams s)"
  shows "reassdatagrams s' = filter (\<lambda>i. i \<in> set xs \<longrightarrow> timer_at s i \<noteq> Some 0) (reassdatagrams s)
    \<and> ip_reass_pbufcount s' \<le> ip_reass_pbufcount s \<and> next_ipr s' = next_ipr s
    \<and> (\<forall>i. timer_at s' i = (if i \<in> set xs then tick (timer_at s i) else timer_at s i))"
  using assms
proof (induction xs arbitrary: s prev)
  case (Cons x xs)
  obtain r where r: "ipr_at s x = Some r" using Cons.prems(1) by (auto simp: bnd_eq_Inr_iff get_iprE)
  have tx: "timer_at s x = Some (ipr_timer r)" using r by (simp add: timer_at_def)
  have xs: "x \<notin> set xs" "distinct xs" "set xs \<subseteq> set (reassdatagrams s)" using Cons.prems(3,4) by auto
  show ?case
  proof (cases "ipr_timer r = 0")
    case False
    let ?s = "set_ipr s x (r\<lparr>ipr_timer := ipr_timer r - 1\<rparr>)"
    have "reass_tmr_loop e ?s (Some x) xs = Inr s'" using Cons.prems(1) r False by (simp add: get_ipr_def word_neq_0_conv)
    then have IH: "reassdatagrams s' = filter (\<lambda>i. i \<in> set xs \<longrightarrow> timer_at ?s i \<noteq> Some 0) (reassdatagrams ?s)
      \<and> ip_reass_pbufcount s' \<le> ip_reass_pbufcount ?s \<and> next_ipr s' = next_ipr ?s
      \<and> (\<forall>i. timer_at s' i = (if i \<in> set xs then tick (timer_at ?s i) else timer_at ?s i))"
      using Cons.prems(2) xs by (intro Cons.IH) simp_all
    moreover have "filter (\<lambda>i. i \<in> set xs \<longrightarrow> timer_at ?s i \<noteq> Some 0) (reassdatagrams s)
        = filter (\<lambda>i. i \<in> set (x # xs) \<longrightarrow> timer_at s i \<noteq> Some 0) (reassdatagrams s)"
      using xs(1) tx False by (intro filter_cong refl) (auto simp: timer_set_ipr)
    ultimately show ?thesis using xs(1) tx False by (auto simp: timer_set_ipr tick_def)
  next
    case True
    obtain c s1 where f: "ip_reass_free_complete_datagram e s x prev = Inr (c, s1)" "reass_tmr_loop e s1 prev xs = Inr s'"
      using Cons.prems(1) r True by (auto simp: get_ipr_def bnd_eq_Inr_iff)
    have l: "reassdatagrams s1 = remove1 x (reassdatagrams s)" "ip_reass_pbufcount s1 \<le> ip_reass_pbufcount s"
      "timer_at s1 = (timer_at s)(x := None)" "next_ipr s1 = next_ipr s" using free_complete_list [OF f(1) Cons.prems(2)] by simp_all
    have rm: "remove1 x (reassdatagrams s) = filter (\<lambda>i. i \<noteq> x) (reassdatagrams s)" 
      using distinct_remove1_removeAll [OF Cons.prems(2), of x] by (simp add: removeAll_filter_not_eq eq_commute)
    have "reassdatagrams s' = filter (\<lambda>i. i \<in> set xs \<longrightarrow> timer_at s1 i \<noteq> Some 0) (reassdatagrams s1)
      \<and> ip_reass_pbufcount s' \<le> ip_reass_pbufcount s1 \<and> next_ipr s' = next_ipr s1
      \<and> (\<forall>i. timer_at s' i = (if i \<in> set xs then tick (timer_at s1 i) else timer_at s1 i))"
      using Cons.prems(2) xs l(1) by (intro Cons.IH [OF f(2)]) (auto simp: rm)
    moreover have "filter (\<lambda>i. i \<in> set xs \<longrightarrow> timer_at s1 i \<noteq> Some 0) (filter (\<lambda>i. i \<noteq> x) (reassdatagrams s))
        = filter (\<lambda>i. i \<in> set (x # xs) \<longrightarrow> timer_at s i \<noteq> Some 0) (reassdatagrams s)"
      unfolding filter_filter using xs(1) tx True by (intro filter_cong refl) (auto simp: l(3))
    ultimately show ?thesis using xs(1) tx True l(2,4) by (auto simp: l(1,3) rm tick_def)
  qed
qed simp

lemma ip_reass_tmr_list:
  assumes "ip_reass_tmr e s = Inr s'" and "distinct (reassdatagrams s)"
  shows "reassdatagrams s' = filter (\<lambda>i. timer_at s i \<noteq> Some 0) (reassdatagrams s)"
    and "ip_reass_pbufcount s' \<le> ip_reass_pbufcount s" and "next_ipr s' = next_ipr s"
    and "i \<in> set (reassdatagrams s) \<Longrightarrow> timer_at s' i = tick (timer_at s i)"
  using reass_tmr_loop_list [OF assms(1) [unfolded ip_reass_tmr_def] assms(2,2)] by (auto intro: filter_cong)

section \<open>Making room\<close>

text \<open>The entries of a state with a given list of removed ones.\<close>

definition shrunk :: "reass \<Rightarrow> reass \<Rightarrow> bool" where
  "shrunk s s' \<longleftrightarrow> (\<exists>S. reassdatagrams s' = filter (\<lambda>i. i \<notin> S) (reassdatagrams s) \<and> (\<forall>i. i \<notin> S \<longrightarrow> timer_at s' i = timer_at s i))
     \<and> ip_reass_pbufcount s' \<le> ip_reass_pbufcount s \<and> next_ipr s \<le> next_ipr s'"

lemma shrunk_refl [simp]: "shrunk s s"
  by (auto simp: shrunk_def intro: exI [of _ "{}"])

lemma shrunk_trans:
  assumes "shrunk s t" and "shrunk t u"
  shows "shrunk s u"
proof -
  obtain S T where "reassdatagrams t = filter (\<lambda>i. i \<notin> S) (reassdatagrams s)" "\<forall>i. i \<notin> S \<longrightarrow> timer_at t i = timer_at s i"
    "reassdatagrams u = filter (\<lambda>i. i \<notin> T) (reassdatagrams t)" "\<forall>i. i \<notin> T \<longrightarrow> timer_at u i = timer_at t i"
    using assms unfolding shrunk_def by blast
  then have "reassdatagrams u = filter (\<lambda>i. i \<notin> S \<union> T) (reassdatagrams s) \<and> (\<forall>i. i \<notin> S \<union> T \<longrightarrow> timer_at u i = timer_at s i)"
    by (auto simp: conj_commute)
  then show ?thesis using assms unfolding shrunk_def by (meson order_trans)
qed

lemma shrunk_inv:
  assumes "shrunk s s'" and "reass_inv s"
  shows "reass_inv s'"
proof -
  obtain S where S: "reassdatagrams s' = filter (\<lambda>i. i \<notin> S) (reassdatagrams s)" "\<forall>i. i \<notin> S \<longrightarrow> timer_at s' i = timer_at s i"
    using assms(1) unfolding shrunk_def by blast
  then have "entry_ok s' i" if "i \<in> set (reassdatagrams s')" for i
    using that assms by (fastforce simp: reass_inv_def entry_ok_timer shrunk_def)
  then show ?thesis using S(1) assms by (auto simp: reass_inv_def shrunk_def)
qed

lemma same_list_shrunk: "same_list s s' \<Longrightarrow> shrunk s s'"
  by (auto simp: shrunk_def same_list_def intro: exI [of _ "{}"])

lemma free_complete_shrunk:
  assumes "ip_reass_free_complete_datagram e s i prev = Inr (c, s')" and "distinct (reassdatagrams s)"
  shows "shrunk s s'"
proof -
  have "remove1 i (reassdatagrams s) = filter (\<lambda>j. j \<notin> {i}) (reassdatagrams s)"
    using distinct_remove1_removeAll [OF assms(2), of i] by (simp add: removeAll_filter_not_eq eq_commute)
  then show ?thesis using free_complete_list [OF assms] unfolding shrunk_def by (auto intro!: exI [of _ "{i}"])
qed

lemma shrunk_distinct: "shrunk s s' \<Longrightarrow> distinct (reassdatagrams s) \<Longrightarrow> distinct (reassdatagrams s')"
  by (auto simp: shrunk_def)

lemma remove_oldest_shrunk:
  assumes "remove_oldest_loop n e s hdr need c = Inr (c', s')" and "distinct (reassdatagrams s)"
  shows "shrunk s s'"
  using assms
proof (induction n arbitrary: s c)
  case (Suc n)
  obtain oldest pv others c1 s1 where *: "(case oldest of None \<Rightarrow> Inr (c, s)
      | Some i \<Rightarrow> bnd (ip_reass_free_complete_datagram e s i pv) (\<lambda>(k, s). Inr (c + unat k, s))) = Inr (c1, s1)"
    "(if c1 < need \<and> (1 :: nat) < others then remove_oldest_loop n e s1 hdr need c1 else Inr (c1, s1)) = Inr (c', s')"
    using Suc.prems(1) by (auto simp: bnd_eq_Inr_iff)
  have s1: "shrunk s s1" using *(1) free_complete_shrunk [OF _ Suc.prems(2)] by (auto simp: bnd_eq_Inr_iff split: option.splits)
  then have "distinct (reassdatagrams s1)" using Suc.prems(2) shrunk_distinct by blast
  then show ?case using *(2) Suc.IH [of s1 c1] s1 by (auto split: if_splits intro: shrunk_trans)
qed simp

lemma remove_oldest_datagram_shrunk:
  "ip_reass_remove_oldest_datagram e s hdr n = Inr (c, s') \<Longrightarrow> distinct (reassdatagrams s) \<Longrightarrow> shrunk s s'"
  unfolding ip_reass_remove_oldest_datagram_def by (rule remove_oldest_shrunk)

section \<open>Queueing\<close>

lemma chain_frag_loop_list: "chain_frag_loop n s i a iprh q prev v = Inr (Some (s', q', prev', v')) \<Longrightarrow> same_list s s'"
proof (induction n s i a iprh q prev v rule: chain_frag_loop.induct)
  case (3 n s ipr a iprh q prev valid)
  obtain i where i: "get_helper s (Some q) = Inr i" using "3.prems" by (auto simp: bnd_eq_Inr_iff)
  show ?case
  proof (cases "frag_start iprh < frag_start i")
    case True
    then show ?thesis using "3.prems" i by (auto simp: bnd_eq_Inr_iff get_iprE Let_def split: if_splits option.splits)
  next
    case False
    then show ?thesis using "3.prems" "3.IH" i by (auto simp: bnd_eq_Inr_iff split: if_splits)
  qed
qed simp_all

lemma chain_append_list: "chain_append s i a st prev v = Inr (v', s') \<Longrightarrow> same_list s s'"
  by (auto simp: chain_append_def bnd_eq_Inr_iff get_iprE split: option.splits)

lemma chain_frag_list:
  assumes "ip_reass_chain_frag_into_datagram_and_validate s i a l = Inr (v, s')"
  shows "same_list s s'"
proof -
  have "returns (ip_reass_chain_frag_into_datagram_and_validate s i a l) (\<lambda>(v, s'). same_list s s')"
    unfolding ip_reass_chain_frag_into_datagram_and_validate_def Let_def
    by (intro returns_intros) (auto dest!: chain_frag_loop_list chain_append_list intro: same_list_trans split: if_splits)
  then show ?thesis using assms by (auto dest: returnsD)
qed

lemma reass_cat_loop_list: "reass_cat_loop n s p r = Inr s' \<Longrightarrow> same_list s s'"
proof (induction n s p r rule: reass_cat_loop.induct)
  case (3 n s p r)
  then show ?case by (auto simp: bnd_eq_Inr_iff intro: same_list_trans)
qed simp_all

lemma reass_finish_list:
  assumes "reass_finish e s i = Inr (q, s')" and "distinct (reassdatagrams s)" and "i \<in> set (reassdatagrams s)"
  shows "shrunk s s'"
proof -
  obtain s1 s2 clen where *: "same_list s s1" "ip_reass_dequeue_datagram s1 i (list_prev (reassdatagrams s1) i) = Inr s2"
    "clen \<le> ip_reass_pbufcount s2" "s' = s2\<lparr>ip_reass_pbufcount := ip_reass_pbufcount s2 - clen\<rparr>"
    using assms(1) by (auto simp: reass_finish_def bnd_eq_Inr_iff Let_def dest!: reass_cat_loop_list)
  have l: "reassdatagrams s1 = reassdatagrams s" using *(1) by (simp add: same_list_def)
  have "s2 = s1\<lparr>reassdatagrams := remove1 i (reassdatagrams s), ipr_at := (ipr_at s1)(i := None)\<rparr>"
    using dequeue_prev [of s1 i] *(2) assms(2,3) l by simp
  moreover have "remove1 i (reassdatagrams s) = filter (\<lambda>j. j \<notin> {i}) (reassdatagrams s)"
    using distinct_remove1_removeAll [OF assms(2), of i] by (simp add: removeAll_filter_not_eq eq_commute)
  ultimately show ?thesis using *(1,3,4) unfolding shrunk_def same_list_def
    by (auto simp: timer_at_def word_sub_le fun_eq_iff intro!: exI [of _ "{i}"])
qed

lemma reass_null_list: "reass_null s p = Inr (q, s') \<Longrightarrow> same_list s s'"
  by (auto simp: reass_null_def bnd_eq_Inr_iff dest: reass_free_list)

lemma reass_null_ipr_list:
  assumes "reass_null_ipr s i p = Inr (q, s')" and "distinct (reassdatagrams s)"
  shows "shrunk s s'"
proof -
  obtain s1 where s1: "s1 = s \<or> ip_reass_dequeue_datagram s i None = Inr s1" "reass_null s1 p = Inr (q, s')"
    using assms(1) by (auto simp: reass_null_ipr_def bnd_eq_Inr_iff split: if_splits)
  have "remove1 i (reassdatagrams s) = filter (\<lambda>j. j \<notin> {i}) (reassdatagrams s)"
    using distinct_remove1_removeAll [OF assms(2), of i] by (simp add: removeAll_filter_not_eq eq_commute)
  then have "shrunk s (s\<lparr>reassdatagrams := remove1 i (reassdatagrams s), ipr_at := (ipr_at s)(i := None)\<rparr>)"
    unfolding shrunk_def by (auto simp: timer_at_def intro!: exI [of _ "{i}"])
  then have "shrunk s s1" using s1(1) dequeue_list [of s i None s1] assms(2) by auto
  then show ?thesis using same_list_shrunk [OF reass_null_list [OF s1(2)]] shrunk_trans by blast
qed

text \<open>A fragment is queued only where there is room for its pbufs.\<close>

lemma reass_queue_inv:
  assumes "reass_queue e s i p hdr clen = Inr (q, s')" and "reass_inv s" and "i \<in> set (reassdatagrams s)"
    and "unat (ip_reass_pbufcount s) + unat clen \<le> 10"
  shows "reass_inv s'"
proof -
  have d: "distinct (reassdatagrams s)" using assms(2) by (simp add: reass_inv_def)
  have add: "reass_inv (t\<lparr>ip_reass_pbufcount := ip_reass_pbufcount t + clen\<rparr>)" if "same_list s t" for t
  proof -
    have "reass_inv t" "ip_reass_pbufcount t = ip_reass_pbufcount s" using same_list_inv [OF that] assms(2) that by (simp_all add: same_list_def)
    moreover have "ip_reass_pbufcount s + clen \<le> 10" using assms(4) by (simp add: word_le_nat_alt unat_add_16)
    ultimately show ?thesis by (simp add: reass_inv_def entry_ok_def)
  qed
  let ?t = "\<lambda>t r. set_ipr (t\<lparr>ip_reass_pbufcount := ip_reass_pbufcount t + clen\<rparr>) i r"
  have mark: "reass_inv (?t t (r\<lparr>datagram_len := n, ipr_flags := f\<rparr>))"
    if "same_list s t" "ipr_at t i = Some r" for t r n f
    using add [OF that(1)] same_list_inv [of "t\<lparr>ip_reass_pbufcount := ip_reass_pbufcount t + clen\<rparr>"
        "?t t (r\<lparr>datagram_len := n, ipr_flags := f\<rparr>)"] that(2) by simp
  have fin: "returns (reass_finish e t i) (\<lambda>(q, s'). reass_inv s')" if "reass_inv t" "reassdatagrams t = reassdatagrams s" for t
    using reass_finish_list [of e t i] shrunk_inv [OF _ that(1)] that(2) d assms(3) by (auto simp: returns_def)
  have null: "returns (reass_null_ipr t i (Some p)) (\<lambda>(q, s'). reass_inv s')" if "same_list s t" for t
    using reass_null_ipr_list [of t i "Some p"] shrunk_inv [of t] same_list_inv [OF that] that assms(2) d by (auto simp: returns_def same_list_def)
  have "returns (reass_queue e s i p hdr clen) (\<lambda>(q, s'). reass_inv s')"
    unfolding reass_queue_def Let_def
    by (intro returns_intros null fin) (auto dest!: chain_frag_list intro: add mark simp: get_iprE same_list_def)
  then show ?thesis using assms(1) by (auto dest: returnsD)
qed

lemma malloc_list:
  assumes "reassdata_malloc s = (k, s')" and "reass_inv s"
  shows "shrunk s s'" and "k = Some i \<Longrightarrow> i < next_ipr s' \<and> i \<notin> set (reassdatagrams s')"
proof -
  show "shrunk s s'" using assms(1)
    by (auto simp: reassdata_malloc_def shrunk_def timer_at_def Let_def split: if_splits intro: exI [of _ "{}"])
  have "next_ipr s \<notin> set (reassdatagrams s)" using assms(2) by (auto simp: reass_inv_def entry_ok_def)
  then show "k = Some i \<Longrightarrow> i < next_ipr s' \<and> i \<notin> set (reassdatagrams s')"
    using assms(1) by (auto simp: reassdata_malloc_def Let_def split: if_splits)
qed

lemma enqueue_alloc:
  assumes "ip_reass_enqueue_new_datagram e s hdr n = Inr (k, s')" and "reass_inv s"
  obtains s2 where "shrunk s s2" and "k = None \<and> s' = s2 \<or> (\<exists>i. k = Some i \<and> i < next_ipr s2 \<and> i \<notin> set (reassdatagrams s2)
      \<and> s' = (set_ipr s2 i \<lparr>ipr_p = None, iphdr = hdr, datagram_len = 0, ipr_flags = 0, ipr_timer = 15\<rparr>)\<lparr>reassdatagrams := i # reassdatagrams s2\<rparr>)"
proof -
  obtain s1 k1 where m: "reassdata_malloc s = (k1, s1)" by force
  note m1 = malloc_list [OF m assms(2)]
  have inv1: "reass_inv s1" using shrunk_inv [OF m1(1) assms(2)] .
  obtain k2 s2 where *: "(if k1 = None then bnd (ip_reass_remove_oldest_datagram e s1 hdr n) (\<lambda>(freed, s).
       Inr (if n \<le> freed then reassdata_malloc s else (None, s))) else Inr (k1, s1)) = Inr (k2, s2)"
    "(case k2 of None \<Rightarrow> Inr (None, s2) | Some i \<Rightarrow> Inr (Some i, (set_ipr s2 i \<lparr>ipr_p = None, iphdr = hdr, datagram_len = 0, ipr_flags = 0,
        ipr_timer = 15\<rparr>)\<lparr>reassdatagrams := i # reassdatagrams s2\<rparr>)) = (Inr (k, s') :: (nat option \<times> reass) outcome)"
    using assms(1) by (auto simp: ip_reass_enqueue_new_datagram_def m bnd_eq_Inr_iff split del: if_split)
  have "shrunk s s2 \<and> (\<forall>i. k2 = Some i \<longrightarrow> i < next_ipr s2 \<and> i \<notin> set (reassdatagrams s2))"
  proof (cases "k1 = None")
    case False
    then show ?thesis using * m1 by auto
  next
    case True
    then obtain c s3 where c: "ip_reass_remove_oldest_datagram e s1 hdr n = Inr (c, s3)"
      "(if n \<le> c then reassdata_malloc s3 else (None, s3)) = (k2, s2)" using *(1) by (auto simp: bnd_eq_Inr_iff)
    have s3: "shrunk s s3" using remove_oldest_datagram_shrunk [OF c(1)] inv1 m1(1) shrunk_trans by (auto simp: reass_inv_def)
    show ?thesis using c(2) malloc_list [OF _ shrunk_inv [OF s3 assms(2)]] s3 shrunk_trans by (auto split: if_splits)
  qed
  then show thesis using *(2) by (intro that [of s2]) (auto split: option.splits)
qed

lemma enqueue_inv:
  assumes "ip_reass_enqueue_new_datagram e s hdr n = Inr (k, s')" and "reass_inv s"
  shows "reass_inv s' \<and> ip_reass_pbufcount s' \<le> ip_reass_pbufcount s \<and> (\<forall>i. k = Some i \<longrightarrow> i \<in> set (reassdatagrams s'))"
proof -
  obtain s2 where s2: "shrunk s s2" "k = None \<and> s' = s2 \<or> (\<exists>i. k = Some i \<and> i < next_ipr s2 \<and> i \<notin> set (reassdatagrams s2)
      \<and> s' = (set_ipr s2 i \<lparr>ipr_p = None, iphdr = hdr, datagram_len = 0, ipr_flags = 0, ipr_timer = 15\<rparr>)\<lparr>reassdatagrams := i # reassdatagrams s2\<rparr>)"
    using enqueue_alloc [OF assms] by blast
  have inv: "reass_inv s2" "ip_reass_pbufcount s2 \<le> ip_reass_pbufcount s" using shrunk_inv [OF s2(1) assms(2)] s2(1) by (auto simp: shrunk_def)
  show ?thesis
  proof (cases k)
    case None
    then show ?thesis using s2(2) inv by simp
  next
    case (Some i)
    then have s': "i < next_ipr s2" "i \<notin> set (reassdatagrams s2)"
      "s' = (set_ipr s2 i \<lparr>ipr_p = None, iphdr = hdr, datagram_len = 0, ipr_flags = 0, ipr_timer = 15\<rparr>)\<lparr>reassdatagrams := i # reassdatagrams s2\<rparr>"
      using s2(2) by auto
    have "entry_ok s' j" if "j \<in> set (reassdatagrams s')" for j
      using that inv(1) s' by (auto simp: reass_inv_def entry_ok_def set_ipr_def)
    then show ?thesis using inv s' Some by (auto simp: reass_inv_def)
  qed
qed

text \<open>The entry a fragment goes to.\<close>

lemma find_or_enqueue_inv:
  assumes "(case find_ipr s hdr of
                None \<Rightarrow> ip_reass_enqueue_new_datagram e s hdr n
              | Some i \<Rightarrow> bnd (get_ipr s i) (\<lambda>r. Inr (Some i, if c r then set_ipr s i (r\<lparr>iphdr := hdr\<rparr>) else s))) = Inr (k, s')"
    and "reass_inv s"
  shows "reass_inv s' \<and> ip_reass_pbufcount s' \<le> ip_reass_pbufcount s \<and> (\<forall>i. k = Some i \<longrightarrow> i \<in> set (reassdatagrams s'))"
proof (cases "find_ipr s hdr")
  case None
  then show ?thesis using assms enqueue_inv by simp
next
  case (Some i)
  then obtain r where r: "ipr_at s i = Some r" "k = Some i" "s' = (if c r then set_ipr s i (r\<lparr>iphdr := hdr\<rparr>) else s)"
    using assms(1) by (auto simp: bnd_eq_Inr_iff get_iprE)
  have "same_list s s'" using r by simp
  moreover have "i \<in> set (reassdatagrams s)" using Some by (auto elim: find_iprE)
  ultimately show ?thesis using same_list_inv [of s s'] assms(2) r(2) by (simp add: same_list_def)
qed

lemma ip4_reass_inv:
  assumes "ip4_reass e s p = Inr (q, s')" and "reass_inv s"
  shows "reass_inv s'"
proof -
  have null: "returns (reass_null t (Some p)) (\<lambda>(q, s'). reass_inv s')" if "reass_inv t" for t
    using reass_null_list [of t "Some p"] same_list_inv [of t] that by (auto simp: returns_def)
  have queue: "returns (reass_queue e t i p hdr clen) (\<lambda>(q, s'). reass_inv s')"
    if "reass_inv t" "i \<in> set (reassdatagrams t)" "unat (ip_reass_pbufcount t) + unat clen \<le> 10" for t i hdr clen
    using reass_queue_inv [OF _ that] by (auto simp: returns_def)
  have room: "reass_inv t \<and> (\<not> full \<longrightarrow> unat (ip_reass_pbufcount t) + unat clen \<le> 10)"
    if "(if unat (ip_reass_pbufcount s) + unat clen > 10 then bnd (ip_reass_remove_oldest_datagram e s hdr (unat clen)) (\<lambda>(freed, s).
         Inr (freed = 0 \<or> unat (ip_reass_pbufcount s) + unat clen > 10, s)) else Inr (False, s)) = Inr (full, t)" for full t clen hdr
  proof -
    have "distinct (reassdatagrams s)" using assms(2) by (simp add: reass_inv_def)
    then have "reass_inv t" if "ip_reass_remove_oldest_datagram e s hdr n = Inr (c, t)" for c t n
      using remove_oldest_datagram_shrunk [OF that] shrunk_inv assms(2) by blast
    then show ?thesis using that assms(2) by (auto simp: bnd_eq_Inr_iff split: if_splits)
  qed
  have "returns (ip4_reass e s p) (\<lambda>(q, s'). reass_inv s')"
    unfolding ip4_reass_def
    by (intro returns_intros null queue) (auto dest!: room find_or_enqueue_inv simp: assms(2) word_le_nat_alt split del: if_split)
  then show ?thesis using assms(1) by (auto dest: returnsD)
qed

section \<open>Reachable states\<close>

text \<open>
  The module starts with an empty list. Then fragments arrive and the timer ticks, in any order, while the rest of the stack
  uses the heap.
\<close>

inductive reass_reachable :: "reass_env \<Rightarrow> reass \<Rightarrow> bool" for e where
  init: "reassdatagrams s = [] \<Longrightarrow> ip_reass_pbufcount s = 0 \<Longrightarrow> reass_reachable e s"
| recv: "reass_reachable e s \<Longrightarrow> ip4_reass e s p = Inr (q, s') \<Longrightarrow> reass_reachable e s'"
| tick: "reass_reachable e s \<Longrightarrow> ip_reass_tmr e s = Inr s' \<Longrightarrow> reass_reachable e s'"
| rest: "reass_reachable e s \<Longrightarrow> reass_reachable e (s\<lparr>rheap := h\<rparr>)"

lemma ip_reass_tmr_inv:
  assumes "ip_reass_tmr e s = Inr s'" and "reass_inv s"
  shows "reass_inv s'"
proof -
  have d: "distinct (reassdatagrams s)" using assms(2) by (simp add: reass_inv_def)
  note l = ip_reass_tmr_list [OF assms(1) d]
  have "entry_ok s' i" if "i \<in> set (reassdatagrams s')" for i
  proof -
    have "i \<in> set (reassdatagrams s)" "timer_at s i \<noteq> Some 0" using that l(1) by auto
    moreover obtain n where "timer_at s i = Some n" "n \<le> 15" "i < next_ipr s" using assms(2) calculation(1) by (auto simp: reass_inv_def entry_ok_timer)
    moreover have "n - 1 \<le> 15" if "n \<noteq> 0" "n \<le> 15" for n :: u8_t using that by (simp add: word_le_nat_alt unat_minus_one)
    ultimately show ?thesis using l(3) l(4) [of i] by (simp add: entry_ok_timer tick_def)
  qed
  then show ?thesis using l(1,2) assms(2) by (auto simp: reass_inv_def)
qed

text \<open>
  C19: However fragments and timer ticks are interleaved, the module never holds more than \<^verbatim>\<open>IP_REASS_MAX_PBUFS\<close> pbufs by
  its own count, the list of datagrams has no entry twice, and every entry on it is allocated and has a timer of at most
  \<^verbatim>\<open>IP_REASS_MAXAGE\<close>.
\<close>

theorem reass_reachable_bounds:
  assumes "reass_reachable e s"
  shows "ip_reass_pbufcount s \<le> 10 \<and> distinct (reassdatagrams s)
    \<and> (\<forall>i\<in>set (reassdatagrams s). \<exists>r. ipr_at s i = Some r \<and> ipr_timer r \<le> 15)"
proof -
  have "reass_inv s" using assms
  proof induction
    case (init s)
    then show ?case by (simp add: reass_inv_def)
  next
    case (rest s h)
    then show ?case by (simp add: same_list_inv [of s "s\<lparr>rheap := h\<rparr>"])
  qed (auto intro: ip4_reass_inv ip_reass_tmr_inv)
  then show ?thesis by (auto simp: reass_inv_def entry_ok_def split: option.splits)
qed

definition sample_reass0 :: reass where
  "sample_reass0 = sample_reass\<lparr>helper := (\<lambda>_. None), ipr_at := (\<lambda>_. None), reassdatagrams := [], ip_reass_pbufcount := 0, next_ipr := 0\<rparr>"

lemma sample_recv: "ip4_reass sample_reass_env sample_reass0 0 = Inr (None, sample_reass)"
proof -
  have r: "read_iphdr sample_frags (Some 0) = Inr (sample_frag_hdr 0x20 0)"
    by (simp add: read_iphdr_def sample_frags_def mem_read_def sample_frag_hdr_def)
  have f: "IPH_HL_BYTES (sample_frag_hdr 0x20 0) = 20" "lwip_ntohs (IPH_LEN (sample_frag_hdr 0x20 0)) = 28"
    "IPH_OFFSET_BYTES (sample_frag_hdr 0x20 0) = 0" "IPH_OFFSET (sample_frag_hdr 0x20 0) AND lwip_htons 0x2000 \<noteq> 0"
    unfolding IPH_HL_BYTES_def IPH_LEN_def IPH_OFFSET_BYTES_def IPH_OFFSET_def sample_frag_hdr_def by code_simp+
  have "heap_ok sample_frags" using sample_frag_queue by (simp add: frag_queue_def sample_reass_def)
  then have c: "pbuf_clen sample_frags (Some 0) = Inr 1" using pbuf_clen_correct [of sample_frags "Some 0" "[0]"] by (simp add: sample_frags_def)
  show ?thesis
    by (simp add: ip4_reass_def sample_reass0_def sample_reass_def r f c find_ipr_def ip_reass_enqueue_new_datagram_def reassdata_malloc_def
        reass_queue_def ip_reass_chain_frag_into_datagram_and_validate_def get_ipr_def set_ipr_def set_helper_def chain_append_def)
qed

theorem reass_reachable_bounds_witness: "reass_reachable sample_reass_env sample_reass \<and> ip_reass_pbufcount sample_reass \<le> 10
    \<and> distinct (reassdatagrams sample_reass)"
proof -
  have "reass_reachable sample_reass_env sample_reass0" by (rule init) (simp_all add: sample_reass0_def)
  then have "reass_reachable sample_reass_env sample_reass" using sample_recv by (rule recv)
  then show ?thesis using reass_reachable_bounds by blast
qed

section \<open>Releasing a datagram\<close>

text \<open>The pbufs of the fragments can be freed: each chain is linked, referenced once and shares no pbuf with the others.\<close>

definition frags_freeable :: "heap \<Rightarrow> (nat \<Rightarrow> nat list) \<Rightarrow> frag list \<Rightarrow> bool" where
  "frags_freeable h tls fs \<longleftrightarrow> (\<forall>f\<in>set fs. path h (Some (fst f)) (frag_chain tls f))
     \<and> (\<forall>x\<in>set (queue_pbufs tls fs). freeable h x \<and> once h x) \<and> distinct (queue_pbufs tls fs)"

lemma frags_freeable_cong:
  assumes "frags_freeable h tls fs" and "\<And>x. x \<in> set (queue_pbufs tls fs) \<Longrightarrow> pbufs h' x = pbufs h x \<and> (mem h x \<noteq> None \<longrightarrow> mem h' x \<noteq> None)"
  shows "frags_freeable h' tls fs"
proof -
  have "path h' (Some (fst f)) (frag_chain tls f)" if "f \<in> set fs" for f
  proof -
    have "pbufs h' x = pbufs h x" if "x \<in> set (frag_chain tls f)" for x
      using assms(2) [of x] that \<open>f \<in> set fs\<close> by (auto simp: queue_pbufs_def)
    then show ?thesis using assms(1) that by (subst path_cong [of _ _ h]) (auto simp: frags_freeable_def)
  qed
  moreover have "freeable h' x \<and> once h' x" if "x \<in> set (queue_pbufs tls fs)" for x
    using assms that by (auto simp: frags_freeable_def freeable_iff once_def pb_def)
  ultimately show ?thesis using assms(1) by (simp add: frags_freeable_def)
qed

lemma free_chain:
  assumes "heap_ok (rheap s)" and "frags_freeable (rheap s) tls (f # fs)"
  shows "reass_free s (Some (fst f)) = Inr (s\<lparr>rheap := drop_objs (set (frag_chain tls f)) (rheap s)\<rparr>)"
    and "pbuf_clen (rheap s) (Some (fst f)) = Inr (of_nat (length (frag_chain tls f)))"
    and "frags_freeable (drop_objs (set (frag_chain tls f)) (rheap s)) tls fs"
proof -
  have p: "path (rheap s) (Some (fst f)) (frag_chain tls f)" "\<forall>x\<in>set (frag_chain tls f). freeable (rheap s) x"
    "\<forall>x\<in>set (frag_chain tls f). once (rheap s) x" using assms(2) by (auto simp: frags_freeable_def queue_pbufs_def)
  show "reass_free s (Some (fst f)) = Inr (s\<lparr>rheap := drop_objs (set (frag_chain tls f)) (rheap s)\<rparr>)"
    using pbuf_free_all [OF assms(1) p] by (simp add: reass_free_def)
  show "pbuf_clen (rheap s) (Some (fst f)) = Inr (of_nat (length (frag_chain tls f)))" using pbuf_clen_correct [OF assms(1) p(1)] .
  have fr: "frags_freeable (rheap s) tls fs" using assms(2) by (auto simp: frags_freeable_def queue_pbufs_def)
  have "x \<notin> set (frag_chain tls f)" if "x \<in> set (queue_pbufs tls fs)" for x
    using assms(2) that by (auto simp: frags_freeable_def queue_pbufs_def)
  then show "frags_freeable (drop_objs (set (frag_chain tls f)) (rheap s)) tls fs"
    by (intro frags_freeable_cong [OF fr]) (simp add: restrict_map_def)
qed

lemma reass_free_loop_correct:
  assumes "frag_seg s p fs None" and "length fs \<le> n" and "heap_ok (rheap s)" and "frags_freeable (rheap s) tls fs"
    and "unat c + length (queue_pbufs tls fs) \<le> 65535"
  shows "reass_free_loop n s p c = Inr (c + of_nat (length (queue_pbufs tls fs)), s\<lparr>rheap := drop_objs (set (queue_pbufs tls fs)) (rheap s)\<rparr>)"
  using assms
proof (induction fs arbitrary: s p n c)
  case Nil
  then show ?case by (simp add: queue_pbufs_def)
next
  case (Cons f fs)
  obtain n' where n: "n = Suc n'" "length fs \<le> n'" using Cons.prems(2) by (cases n) auto
  obtain nx where p: "p = Some (fst f)" "get_helper s (Some (fst f)) = Inr \<lparr>next_pbuf = nx, frag_start = fst (snd f), frag_end = snd (snd f)\<rparr>"
    "frag_seg s nx fs None" using Cons.prems(1) by (auto simp: get_helper_eq)
  let ?s = "s\<lparr>rheap := drop_objs (set (frag_chain tls f)) (rheap s)\<rparr>" and ?l = "of_nat (length (frag_chain tls f)) :: u16_t"
  note fr = free_chain [OF Cons.prems(3,4)]
  have q: "queue_pbufs tls (f # fs) = frag_chain tls f @ queue_pbufs tls fs" by (simp add: queue_pbufs_def)
  have len: "unat ?l = length (frag_chain tls f)" "unat (c + ?l) = unat c + length (frag_chain tls f)"
    using Cons.prems(5) by (simp_all add: q unat_of_nat unat_add_16)
  have "fst g \<notin> set (frag_chain tls f)" if "g \<in> set fs" for g
    using Cons.prems(4) that by (fastforce simp: frags_freeable_def queue_pbufs_def frag_chain_def)
  then have "frag_seg ?s nx fs None" using p(3) by (subst frag_seg_cong [of _ _ s]) (auto simp: restrict_map_def)
  then have "reass_free_loop n' ?s nx (c + ?l) = Inr (c + ?l + of_nat (length (queue_pbufs tls fs)),
      ?s\<lparr>rheap := drop_objs (set (queue_pbufs tls fs)) (rheap ?s)\<rparr>)"
    using n(2) fr(3) heap_ok_drop [OF Cons.prems(3)] Cons.prems(5) len(2) by (intro Cons.IH) (simp_all add: q)
  moreover have "reass_free_loop n s p c = reass_free_loop n' ?s nx (c + ?l)"
    using n(1) p(1,2) fr(1,2) len Cons.prems(5) by (simp add: q)
  ultimately show ?case by (simp add: q Un_commute algebra_simps)
qed

end
