(* ===== verification/Icmp_C.thy ===== *)
theory Icmp_C
  imports Ip4_Out
begin

text \<open>
  \<^verbatim>\<open>core/ipv4/icmp.c\<close>: echo replies and error messages. \<open>od\<close> says which addresses are odd, \<open>iphdr_in\<close> is
  \<^verbatim>\<open>ip4_current_header()\<close>.
\<close>

section \<open>Constants\<close>

abbreviation (input) ICMP_ER :: u8_t where "ICMP_ER \<equiv> 0"
abbreviation (input) ICMP_DUR :: u8_t where "ICMP_DUR \<equiv> 3"
abbreviation (input) ICMP_ECHO :: u8_t where "ICMP_ECHO \<equiv> 8"
abbreviation (input) ICMP_TE :: u8_t where "ICMP_TE \<equiv> 11"

datatype icmp_dur_type = ICMP_DUR_NET | ICMP_DUR_HOST | ICMP_DUR_PROTO | ICMP_DUR_PORT | ICMP_DUR_FRAG | ICMP_DUR_SR

datatype icmp_te_type = ICMP_TE_TTL | ICMP_TE_FRAG

fun dur_code :: "icmp_dur_type \<Rightarrow> u8_t" where
  "dur_code ICMP_DUR_NET = 0"
| "dur_code ICMP_DUR_HOST = 1"
| "dur_code ICMP_DUR_PROTO = 2"
| "dur_code ICMP_DUR_PORT = 3"
| "dur_code ICMP_DUR_FRAG = 4"
| "dur_code ICMP_DUR_SR = 5"

fun te_code :: "icmp_te_type \<Rightarrow> u8_t" where
  "te_code ICMP_TE_TTL = 0"
| "te_code ICMP_TE_FRAG = 1"

abbreviation (input) SIZEOF_ICMP_ECHO_HDR :: nat where "SIZEOF_ICMP_ECHO_HDR \<equiv> 8"
abbreviation (input) ICMP_DEST_UNREACH_DATASIZE :: nat where "ICMP_DEST_UNREACH_DATASIZE \<equiv> 8"
abbreviation (input) PBUF_LINK_HLEN :: nat where "PBUF_LINK_HLEN \<equiv> 14"

section \<open>Error messages\<close>

definition read_addr :: "heap \<Rightarrow> ptr \<Rightarrow> nat \<Rightarrow> u32_t outcome" where
  "read_addr h d off = bnd (mem_read h d off 4) (\<lambda>bs. Inr (le32 (bs ! 0) (bs ! 1) (bs ! 2) (bs ! 3)))"

text \<open>The part of \<^verbatim>\<open>icmp_send_response\<close> for a route: the checksum, and output.\<close>

definition icmp_response_out :: "(ptr \<Rightarrow> bool) \<Rightarrow> heap \<Rightarrow> pptr \<Rightarrow> u32_t \<Rightarrow> netif \<Rightarrow> heap outcome" where
  "icmp_response_out od h q iphdr_src nif =
     bnd (pget h q) (\<lambda>qb.
     let icmphdr = p_payload qb in
     bnd (store16 h icmphdr 2 0) (\<lambda>h.
     bnd (mem_read h icmphdr 0 (unat (p_len qb))) (\<lambda>bs.
     bnd (store16 h icmphdr 2 (inet_chksum (od icmphdr) bs)) (\<lambda>h.
     bnd (ip4_output_if od h q None (Some iphdr_src) ICMP_TTL 0 IP_PROTO_ICMP nif) (\<lambda>(_, h). Inr h)))))"

definition icmp_send_response :: "(ptr \<Rightarrow> bool) \<Rightarrow> netif list \<Rightarrow> heap \<Rightarrow> pptr \<Rightarrow> u8_t \<Rightarrow> u8_t \<Rightarrow> heap outcome" where
  "icmp_send_response od netifs h p ty code =
     bnd (pbuf_alloc h PBUF_IP (of_nat (SIZEOF_ICMP_ECHO_HDR + IP_HLEN + ICMP_DEST_UNREACH_DATASIZE)) PBUF_RAM) (\<lambda>(q, h).
     if q = None then Inr h
     else
       bnd (pget h q) (\<lambda>qb.
       lwip_assert (unat (p_len qb) \<ge> SIZEOF_ICMP_ECHO_HDR + IP_HLEN + ICMP_DEST_UNREACH_DATASIZE) (
       bnd (pget h p) (\<lambda>b.
       bnd (mem_write h (p_payload qb) 0 [ty, code]) (\<lambda>h.
       bnd (mem_write h (p_payload qb) 4 [0, 0, 0, 0]) (\<lambda>h.
       bnd (mem_read h (p_payload b) 0 (IP_HLEN + ICMP_DEST_UNREACH_DATASIZE)) (\<lambda>bs.
       bnd (mem_write h (p_payload qb) SIZEOF_ICMP_ECHO_HDR bs) (\<lambda>h.
       bnd (read_addr h (p_payload b) 12) (\<lambda>iphdr_src.
       bnd (case ip4_route netifs iphdr_src of
              None \<Rightarrow> Inr h
            | Some nif \<Rightarrow> icmp_response_out od h q iphdr_src nif) (\<lambda>h.
       bnd (pbuf_free h q) (\<lambda>(_, h). Inr h)))))))))))"

definition icmp_dest_unreach :: "(ptr \<Rightarrow> bool) \<Rightarrow> netif list \<Rightarrow> heap \<Rightarrow> pptr \<Rightarrow> icmp_dur_type \<Rightarrow> heap outcome" where
  "icmp_dest_unreach od netifs h p t = icmp_send_response od netifs h p ICMP_DUR (dur_code t)"

definition icmp_time_exceeded :: "(ptr \<Rightarrow> bool) \<Rightarrow> netif list \<Rightarrow> heap \<Rightarrow> pptr \<Rightarrow> icmp_te_type \<Rightarrow> heap outcome" where
  "icmp_time_exceeded od netifs h p t = icmp_send_response od netifs h p ICMP_TE (te_code t)"

section \<open>Echo\<close>

definition icmp_free :: "heap \<Rightarrow> pptr \<Rightarrow> heap outcome" where
  "icmp_free h p = bnd (pbuf_free h p) (\<lambda>(_, h). Inr h)"

text \<open>
  Room for the link header in front of the reply: a packet without it is copied to a new pbuf. The result is \<open>None\<close> when the
  request has been dropped (label \<^verbatim>\<open>icmperr\<close>).
\<close>

definition icmp_echo_copy :: "heap \<Rightarrow> pptr \<Rightarrow> ptr \<Rightarrow> nat \<Rightarrow> (pptr \<times> heap) outcome" where
  "icmp_echo_copy h p iphdr_in hlen =
     bnd (pget h p) (\<lambda>b.
     let alloc_len = p_tot_len b + of_nat hlen; icmperr = (\<lambda>h. bnd (icmp_free h p) (\<lambda>h. Inr (None, h))) in
     if alloc_len < p_tot_len b then icmperr h
     else
       bnd (pbuf_alloc h PBUF_LINK alloc_len PBUF_RAM) (\<lambda>(r, h).
       if r = None then icmperr h
       else
         bnd (pget h r) (\<lambda>rb.
         if unat (p_len rb) < hlen + SIZEOF_ICMP_ECHO_HDR then bnd (pbuf_free h r) (\<lambda>(_, h). icmperr h)
         else
           bnd (mem_read h iphdr_in 0 hlen) (\<lambda>hdr.
           bnd (mem_write h (p_payload rb) 0 hdr) (\<lambda>h.
           bnd (pbuf_remove_header h r hlen) (\<lambda>(e, h).
           lwip_assert (e = 0) (
           bnd (pbuf_copy h r p) (\<lambda>(err, h).
           if err \<noteq> ERR_OK then bnd (pbuf_free h r) (\<lambda>(_, h). icmperr h)
           else bnd (pbuf_free h p) (\<lambda>(_, h). Inr (r, h))))))))))"

definition icmp_echo_room :: "heap \<Rightarrow> pptr \<Rightarrow> ptr \<Rightarrow> nat \<Rightarrow> (pptr \<times> heap) outcome" where
  "icmp_echo_room h p iphdr_in hlen =
     bnd (pbuf_add_header h p (hlen + PBUF_LINK_HLEN)) (\<lambda>(e, h).
     if e \<noteq> 0 then icmp_echo_copy h p iphdr_in hlen
     else bnd (pbuf_remove_header h p (hlen + PBUF_LINK_HLEN)) (\<lambda>(e, h). lwip_assert (e = 0) (Inr (p, h))))"

text \<open>The checksum of the reply from that of the request: one's complement addition of the type that is gone.\<close>

definition icmp_echo_chksum :: "u16_t \<Rightarrow> u16_t" where
  "icmp_echo_chksum chksum = (if chksum > lwip_htons (0xffff - push_bit 8 (ucast ICMP_ECHO))
     then chksum + lwip_htons (push_bit 8 (ucast ICMP_ECHO)) + 1 else chksum + lwip_htons (push_bit 8 (ucast ICMP_ECHO)))"

definition icmp_echo_reply :: "(ptr \<Rightarrow> bool) \<Rightarrow> heap \<Rightarrow> pptr \<Rightarrow> nat \<Rightarrow> u32_t \<Rightarrow> u32_t \<Rightarrow> netif \<Rightarrow> heap outcome" where
  "icmp_echo_reply od h p hlen src dest inp =
     bnd (pget h p) (\<lambda>b.
     let iecho = p_payload b in
     bnd (pbuf_add_header h p hlen) (\<lambda>(e, h).
     if e \<noteq> 0 then Inr h
     else
       bnd (pget h p) (\<lambda>b.
       let iphdr' = p_payload b in
       bnd (mem_write h iphdr' 12 (u32_bytes src)) (\<lambda>h.
       bnd (mem_write h iphdr' 16 (u32_bytes dest)) (\<lambda>h.
       bnd (mem_write h iecho 0 [ICMP_ER]) (\<lambda>h.
       bnd (load16 h iecho 2) (\<lambda>chksum.
       bnd (store16 h iecho 2 (icmp_echo_chksum chksum)) (\<lambda>h.
       bnd (mem_write h iphdr' 8 [ICMP_TTL]) (\<lambda>h.
       bnd (store16 h iphdr' 10 0) (\<lambda>h.
       bnd (mem_read h iphdr' 0 hlen) (\<lambda>bs.
       bnd (store16 h iphdr' 10 (inet_chksum (od iphdr') bs)) (\<lambda>h.
       bnd (ip4_output_if od h p (Some src) None ICMP_TTL 0 IP_PROTO_ICMP inp) (\<lambda>(_, h). Inr h)))))))))))))"

definition icmp_input :: "(ptr \<Rightarrow> bool) \<Rightarrow> ip_globals \<Rightarrow> ptr \<Rightarrow> heap \<Rightarrow> pptr \<Rightarrow> netif \<Rightarrow> heap outcome" where
  "icmp_input od g iphdr_in h p inp =
     bnd (mem_read h iphdr_in 0 1) (\<lambda>v_hl.
     let hlen = unat (IPH_HL_BYTES v_hl) in
     if hlen < IP_HLEN then icmp_free h p
     else
       bnd (pget h p) (\<lambda>b.
       if unat (p_len b) < 4 then icmp_free h p
       else
         bnd (mem_read h (p_payload b) 0 1) (\<lambda>ty.
         if ty ! 0 = ICMP_ECHO then
           let src = ip_2_ip4 (current_iphdr_dest g) in
           if ip4_addr_ismulticast src then icmp_free h p
           else if ip4_addr_isbroadcast_u32 src (current_netif g) then icmp_free h p
           else if unat (p_tot_len b) < SIZEOF_ICMP_ECHO_HDR then icmp_free h p
           else
             bnd (icmp_echo_room h p iphdr_in hlen) (\<lambda>(q, h).
             if q = None then Inr h
             else bnd (icmp_echo_reply od h q hlen src (ip_2_ip4 (current_iphdr_src g)) inp) (\<lambda>h. icmp_free h q))
         else icmp_free h p)))"

section \<open>What an error message contains\<close>

definition icmp_error :: "u8_t \<Rightarrow> u8_t \<Rightarrow> bytes \<Rightarrow> bytes" where
  "icmp_error ty code data = (let msg = [ty, code, 0, 0, 0, 0, 0, 0] @ data in patch msg 2 (u16_bytes (internet_checksum msg)))"

lemma length_icmp_error [simp]: "length (icmp_error ty code data) = 8 + length data"
  by (simp add: icmp_error_def Let_def patch_def u16_bytes_def)

lemma icmp_error_verifies:
  assumes "length data \<le> 65527"
  shows "inet_chksum x (icmp_error ty code data) = 0"
proof -
  let ?msg = "[ty, code] @ 0 # 0 # ([0, 0, 0, 0] @ data)"
  have e: "internet_checksum ?msg = inet_chksum x ?msg"
    using assms by (simp add: word_unat_eq_iff unat_internet_checksum inet_chksum_sum)
  have "icmp_error ty code data = [ty, code] @ u16_bytes (inet_chksum x ?msg) @ [0, 0, 0, 0] @ data"
    unfolding e [symmetric] by (simp add: icmp_error_def Let_def patch_def u16_bytes_def)
  then show ?thesis using inet_chksum_stored [of "[ty, code]" "[0, 0, 0, 0] @ data" x x] assms by simp
qed

lemma nextid_upd_simps [simp]:
  "pget (h\<lparr>nextid := n\<rparr>) p = pget h p" "pb (h\<lparr>nextid := n\<rparr>) a = pb h a" "seg (h\<lparr>nextid := n\<rparr>) = seg h"
  "payload_ok (h\<lparr>nextid := n\<rparr>) a = payload_ok h a" "block (h\<lparr>nextid := n\<rparr>) = block h" "clear_of (h\<lparr>nextid := n\<rparr>) = clear_of h"
  by (simp_all add: pget_def pb_def seg_def payload_ok_def block_def clear_of_def fun_eq_iff split: option.splits)

lemma freeable_nextid [simp]: "freeable (h\<lparr>nextid := n\<rparr>) q = freeable h q" "once (h\<lparr>nextid := n\<rparr>) q = once h q"
  by (rule freeable_cong, simp_all add: once_def)

lemma heap_ok_Suc: "heap_ok h \<Longrightarrow> heap_ok (h\<lparr>nextid := Suc (nextid h)\<rparr>)"
  by (auto simp: heap_ok_def less_Suc_eq)

lemma ram_response_out:
  assumes "length pre = 34" and "length hdr = 20" and "length data \<le> 1000" and "8 \<le> length data" and "dest \<noteq> n_ip_addr nif"
    and "n_mtu nif = 0 \<or> 20 + length data \<le> unat (n_mtu nif)"
    and "msg = patch data 2 (u16_bytes (internet_checksum (patch data 2 [0, 0])))"
    and "pkt = ip4_packet 0 (ip_id (net h)) 64 1 (n_ip_addr nif) dest msg"
  shows "icmp_response_out od (with_ram h a (pre @ hdr) data) (Some a) dest nif
    = Inr (with_ram (h\<lparr>net := (net h)\<lparr>ip_id := ip_id (net h) + 1, sent := sent (net h) @ [pkt]\<rparr>\<rparr>) a pre pkt)"
proof -
  have z: "u16_bytes 0 = [0, 0]" by (simp add: u16_bytes_def)
  have l: "length (patch data 2 (u16_bytes w)) = length data" for w using assms(4) by (simp add: patch_def)
  let ?d = "Some (a, uint (of_nat (length (pre @ hdr)) :: u16_t))"
  have st: "store16 (with_ram h a (pre @ hdr) ds) ?d 2 w = Inr (with_ram h a (pre @ hdr) (patch ds 2 (u16_bytes w)))"
    if "length ds = length data" for ds w
    using ram_write [of "pre @ hdr" ds 2 "u16_bytes w" h a] that assms(1-4) by (simp add: store16_def)
  have rd: "mem_read (with_ram h a (pre @ hdr) ds) ?d 0 (length data) = Inr ds" if "length ds = length data" for ds
    using ram_read [of "pre @ hdr" ds 0 "length data" h a] that assms(1-4) by simp
  have len: "unat (of_nat (length data) :: u16_t) = length data" using assms(3) by (intro unat_of_nat_16) simp
  have c: "inet_chksum x (patch data 2 [0, 0]) = internet_checksum (patch data 2 [0, 0])" for x
    using l [of 0] assms(3) by (simp add: z word_unat_eq_iff unat_internet_checksum inet_chksum_sum)
  have p: "patch (patch data 2 [0, 0]) 2 (u16_bytes w) = patch data 2 (u16_bytes w)" for w
    using assms(4) by (simp add: patch_def)
  have out: "ip4_output_if od (with_ram h a (pre @ hdr) msg) (Some a) None (Some dest) 64 0 1 nif
      = Inr (ERR_OK, with_ram (h\<lparr>net := (net h)\<lparr>ip_id := ip_id (net h) + 1, sent := sent (net h) @ [pkt]\<rparr>\<rparr>) a pre pkt)"
    using ram_output [of pre msg hdr dest nif od h a "n_ip_addr nif" 64 0 1] assms l by (simp add: ip4_output_if_def)
  show ?thesis using st [of data 0] rd [of "patch data 2 [0, 0]"] st [of "patch data 2 [0, 0]"] l [of 0] len out assms(7)
    by (simp add: icmp_response_out_def Let_def z c p)
qed

text \<open>The source address of an IP header.\<close>

definition hdr_src :: "bytes \<Rightarrow> u32_t" where
  "hdr_src bs = le32 (bs ! 12) (bs ! 13) (bs ! 14) (bs ! 15)"

lemma patch_nil [simp]: "patch bs 0 [] = bs" by (simp add: patch_def)

lemma icmp_send_response_eq:
  assumes "heap_ok h" and "chain_ok h (Some f) (f # fs)" and "28 \<le> unat (p_len (pb h f))"
    and "hdr_src (seg h f) \<noteq> n_ip_addr nif" and "n_mtu nif = 0 \<or> 56 \<le> unat (n_mtu nif)" and "\<not> oom h (nextid h)"
    and "pkt = ip4_packet 0 (ip_id (net h)) 64 1 (n_ip_addr nif) (hdr_src (seg h f)) (icmp_error ty code (take 28 (seg h f)))"
  shows "icmp_send_response od (nif # ns) h (Some f) ty code = Inr (drop_objs {nextid h}
    (h\<lparr>nextid := Suc (nextid h), net := (net h)\<lparr>ip_id := ip_id (net h) + 1, sent := sent (net h) @ [pkt]\<rparr>\<rparr>))"
proof -
  let ?a = "nextid h" and ?h = "h\<lparr>nextid := Suc (nextid h)\<rparr>"
  obtain pre hdr d where al: "pbuf_alloc h PBUF_IP 36 PBUF_RAM = Inr (Some ?a, with_ram ?h ?a (pre @ hdr) d)"
    "length pre = 34" "length hdr = 20" "length d = 36"
  proof
    show "pbuf_alloc h PBUF_IP 36 PBUF_RAM = Inr (Some ?a, with_ram ?h ?a (take 34 (map (junk h) [0..<54]) @ drop 34 (map (junk h) [0..<54]))
      (map (junk h) [54..<90]))" using ram_alloc [of 54 36 h] assms(6) by simp
  qed simp_all
  obtain b where f: "pbufs h f = Some b" "payload_ok h f" "pb h f = b" "length (seg h f) = unat (p_len b)"
    using assms(2) by (auto simp: chain_ok_Cons length_seg)
  have clear: "clear_of ?h ?a [f]" "f \<noteq> ?a" using clear_of_fresh [OF assms(1,2)] by (auto simp: clear_of_def)
  let ?d = "Some (?a, uint (of_nat (length (pre @ hdr)) :: u16_t))"
  have w: "mem_write (with_ram ?h ?a (pre @ hdr) ds) ?d off xs = Inr (with_ram ?h ?a (pre @ hdr) (patch ds off xs))"
    if "length ds = 36" "off + length xs \<le> 36" for ds off xs
    using ram_write [of "pre @ hdr" ds off xs ?h ?a] that al(2,3) by simp
  have r: "mem_read (with_ram ?h ?a (pre @ hdr) ds) (p_payload b) off n = Inr (take n (drop off (seg h f)))" if "off + n \<le> 28" for ds off n
    using ram_read_other [of ?h f ?a off n] clear f(2,3) that assms(3) by simp
  have src: "read_addr (with_ram ?h ?a (pre @ hdr) ds) (p_payload b) 12 = Inr (hdr_src (seg h f))" for ds
    using r [of 12 4] f(3,4) assms(3) by (simp add: read_addr_def hdr_src_def)
  let ?m = "patch (patch (patch d 0 [ty, code]) 4 [0, 0, 0, 0]) 8 (take 28 (seg h f))"
  have m: "?m = [ty, code, d ! 2, d ! 3, 0, 0, 0, 0] @ take 28 (seg h f)"
  proof -
    obtain x0 x1 x2 x3 x4 x5 x6 x7 ds where "d = x0 # x1 # x2 # x3 # x4 # x5 # x6 # x7 # ds" "length ds = 28"
      using al(4) by (auto simp: numeral_eq_Suc length_Suc_conv)
    then show ?thesis using f(3,4) assms(3) by (simp add: patch_def)
  qed
  have lm: "length ?m = 36" unfolding m using f(3,4) assms(3) by simp
  have "patch ?m 2 (u16_bytes (internet_checksum (patch ?m 2 [0, 0]))) = icmp_error ty code (take 28 (seg h f))"
    unfolding m by (simp add: icmp_error_def patch_def Let_def)
  then have out: "icmp_response_out od (with_ram ?h ?a (pre @ hdr) ?m) (Some ?a) (hdr_src (seg h f)) nif
      = Inr (with_ram (?h\<lparr>net := (net h)\<lparr>ip_id := ip_id (net h) + 1, sent := sent (net h) @ [pkt]\<rparr>\<rparr>) ?a pre pkt)"
    using ram_response_out [of pre hdr ?m _ nif _ pkt ?h od ?a] al(2,3) lm assms(4,5,7) by simp
  have free: "pbuf_free (with_ram (?h\<lparr>net := n\<rparr>) ?a pre pkt) (Some ?a) = Inr (1, drop_objs {?a} (?h\<lparr>net := n\<rparr>))" for n
    using ram_free [of "?h\<lparr>net := n\<rparr>" ?a pre pkt] heap_ok_Suc [OF assms(1)] by simp
  have len: "unat (of_nat (length d) :: u16_t) = 36" by (simp add: al(4))
  let ?d1 = "patch d 0 [ty, code]" and ?d2 = "patch (patch d 0 [ty, code]) 4 [0, 0, 0, 0]"
  have ls: "length ?d1 = 36" "length ?d2 = 36" "length (take 28 (seg h f)) = 28" using al(4) f(3,4) assms(3) by (simp_all add: patch_def)
  have ws: "mem_write (with_ram ?h ?a (pre @ hdr) d) ?d 0 [ty, code] = Inr (with_ram ?h ?a (pre @ hdr) ?d1)"
    "mem_write (with_ram ?h ?a (pre @ hdr) ?d1) ?d 4 [0, 0, 0, 0] = Inr (with_ram ?h ?a (pre @ hdr) ?d2)"
    "mem_write (with_ram ?h ?a (pre @ hdr) ?d2) ?d 8 (take 28 (seg h f)) = Inr (with_ram ?h ?a (pre @ hdr) ?m)"
    by (rule w; use ls al(4) in simp)+
  have b: "pget (with_ram ?h ?a (pre @ hdr) d) (Some f) = Inr b" using ram_other_pb(2) [OF clear(2), of ?h] f(1) by simp
  show ?thesis using al(1) ws r [of 0 28] src out free b len
    by (simp add: icmp_send_response_def ip4_route_def)
qed

section \<open>What an echo reply contains\<close>

definition echo_hdr :: "bytes \<Rightarrow> u32_t \<Rightarrow> u32_t \<Rightarrow> bytes" where
  "echo_hdr hdr src dest = (let hdr = patch (patch (patch hdr 12 (u32_bytes src)) 16 (u32_bytes dest)) 8 [64]; hdr = patch hdr 10 [0, 0]
     in patch hdr 10 (u16_bytes (internet_checksum hdr)))"

definition echo_msg :: "bytes \<Rightarrow> bytes" where
  "echo_msg msg = patch (patch msg 0 [0]) 2 (u16_bytes (icmp_echo_chksum (le16 (msg ! 2) (msg ! 3))))"

lemma length_echo_hdr: "20 \<le> length hdr \<Longrightarrow> length (echo_hdr hdr src dest) = length hdr"
  by (simp add: echo_hdr_def Let_def patch_def)

lemma length_echo_msg: "4 \<le> length msg \<Longrightarrow> length (echo_msg msg) = length msg"
  by (simp add: echo_msg_def patch_def)

lemma list4E:
  assumes "4 \<le> length bs"
  obtains x0 x1 x2 x3 ds where "bs = x0 # x1 # x2 # x3 # ds"
  using assms by (auto simp: numeral_eq_Suc Suc_le_length_iff)

text \<open>The new type is 8 less than the old one; the checksum takes that up, so that the reply's checksum is right if the request's was.\<close>

lemma icmp_echo_chksum_cases:
  "unat (icmp_echo_chksum c) = (if unat c > 0xfff7 then unat c + 9 - 65536 else unat c + 8)"
proof -
  have k: "lwip_htons 0xf7ff = 0xfff7" "lwip_htons 0x800 = 8" by (simp_all add: lwip_htons_def)
  have lt: "unat c < 65536" by simp
  show ?thesis
  proof (cases "unat c > 0xfff7")
    case True
    have "(unat c + 9) mod 65536 = (unat c + 9 - 65536) mod 65536" using True by (subst le_mod_geq) simp_all
    also have "\<dots> = unat c + 9 - 65536" using lt by (intro mod_less) linarith
    finally have "(unat c + 9) mod 65536 = unat c + 9 - 65536" .
    moreover have "unat (c + 9) = (unat c + 9) mod 65536" by (simp add: unat_word_ariths)
    ultimately show ?thesis using True by (simp add: icmp_echo_chksum_def k word_less_nat_alt add.assoc)
  next
    case False
    moreover have "unat (c + 8) = (unat c + 8) mod 65536" by (simp add: unat_word_ariths)
    ultimately show ?thesis by (simp add: icmp_echo_chksum_def k word_less_nat_alt)
  qed
qed

lemma echo_msg_verifies:
  assumes "8 \<le> length msg" and "msg ! 0 = 8" and "length msg \<le> 65535" and "inet_chksum x msg = 0"
  shows "inet_chksum x (echo_msg msg) = 0"
proof -
  have "4 \<le> length msg" using assms(1) by simp
  then obtain t code x2 x3 ds where msg: "msg = t # code # x2 # x3 # ds" by (rule list4E)
  then have t: "t = 8" using assms(2) by simp
  let ?c = "le16 x2 x3"
  have e: "echo_msg msg = [0, code] @ u16_bytes (icmp_echo_chksum ?c) @ ds" by (simp add: msg echo_msg_def patch_def)
  have l1: "lsum msg = 8 + 256 * unat code + unat ?c + lsum ds" by (simp add: msg t unat_le16)
  have l2: "lsum (echo_msg msg) = 256 * unat code + unat (icmp_echo_chksum ?c) + lsum ds"
    unfolding e by (simp add: lsum_append lsum_u16_bytes)
  have n1: "ocnorm (lsum msg) = 65535" using assms(3,4) inet_chksum_sum [of msg x] ocnorm_le [of "lsum msg"] by simp
  have "ocnorm (lsum (echo_msg msg)) = 65535"
  proof (cases "unat ?c > 0xfff7")
    case False
    then have "lsum (echo_msg msg) = lsum msg" using l1 l2 by (simp add: icmp_echo_chksum_cases)
    then show ?thesis using n1 by simp
  next
    case True
    then have "lsum msg = lsum (echo_msg msg) + 65535" "lsum (echo_msg msg) \<noteq> 0"
      using l1 l2 by (auto simp: icmp_echo_chksum_cases)
    then have "ocnorm (lsum (echo_msg msg)) = ocnorm (lsum msg)" by (auto simp: ocnorm_iff)
    then show ?thesis using n1 by simp
  qed
  then show ?thesis using inet_chksum_sum [of "echo_msg msg" x] length_echo_msg [of msg] assms(1,3) by (simp add: unat_eq_zero)
qed

lemma echo_hdr_verifies:
  assumes "20 \<le> length hdr" and "length hdr \<le> 60"
  shows "inet_chksum x (echo_hdr hdr src dest) = 0"
proof -
  let ?h = "patch (patch (patch hdr 12 (u32_bytes src)) 16 (u32_bytes dest)) 8 [64]"
  have l: "length ?h = length hdr" using assms(1) by (simp add: patch_def)
  have z: "patch ?h 10 [0, 0] = take 10 ?h @ 0 # 0 # drop 12 ?h" by (simp add: patch_def)
  have c: "internet_checksum (patch ?h 10 [0, 0]) = inet_chksum x (patch ?h 10 [0, 0])"
    unfolding z using assms l by (simp add: word_unat_eq_iff unat_internet_checksum inet_chksum_sum)
  have "echo_hdr hdr src dest = take 10 ?h @ u16_bytes (inet_chksum x (take 10 ?h @ 0 # 0 # drop 12 ?h)) @ drop 12 ?h"
    unfolding c [symmetric] z [symmetric] using l assms(1) by (simp add: echo_hdr_def Let_def c) (simp add: patch_def)
  then show ?thesis using inet_chksum_stored [of "take 10 ?h" "drop 12 ?h" x x] l assms by simp
qed

section \<open>Answering\<close>

text \<open>Pointers to a header behind the start of the data.\<close>

lemma ram_inner:
  fixes k :: u16_t
  assumes "length pre + length hdr + length data \<le> 65535" and "k = of_nat (length (pre @ hdr))"
  shows "off + length xs \<le> length data \<Longrightarrow>
      mem_write (with_ram h a pre (hdr @ data)) (Some (a, uint k)) off xs = Inr (with_ram h a pre (hdr @ patch data off xs))"
    and "off + n \<le> length data \<Longrightarrow> mem_read (with_ram h a pre (hdr @ data)) (Some (a, uint k)) off n = Inr (take n (drop off data))"
proof -
  have "uint k = int (length pre + length hdr)" using assms uint_of_nat_16 [of "length (pre @ hdr)"] by simp
  then have u: "0 \<le> uint k + int off" "nat (uint k + int off) = length pre + length hdr + off" by simp_all
  show "mem_read (with_ram h a pre (hdr @ data)) (Some (a, uint k)) off n = Inr (take n (drop off data))" if "off + n \<le> length data"
    using that by (simp add: mem_read_def u)
  show "mem_write (with_ram h a pre (hdr @ data)) (Some (a, uint k)) off xs = Inr (with_ram h a pre (hdr @ patch data off xs))"
    if "off + length xs \<le> length data"
  proof (cases "xs = []")
    case True
    then show ?thesis using that by (simp add: mem_write_def patch_def)
  next
    case False
    have "patch (pre @ hdr @ data) (length pre + length hdr + off) xs = pre @ hdr @ patch data off xs" by (simp add: patch_def)
    moreover have "length (patch data off xs) = length data" using that by (simp add: patch_def)
    ultimately show ?thesis using False that
      by (simp add: mem_write_def u) (simp add: with_ram_def)
  qed
qed

lemma le32_u32_bytes [simp]: "le32 (ucast w) (ucast (drop_bit 8 w)) (ucast (drop_bit 16 w)) (ucast (drop_bit 24 w)) = w"
proof (rule bit_word_eqI)
  fix n assume n: "n < LENGTH(32)"
  consider "n < 8" | "8 \<le> n" "n < 16" | "16 \<le> n" "n < 24" | "24 \<le> n" by linarith
  then show "bit (le32 (ucast w) (ucast (drop_bit 8 w)) (ucast (drop_bit 16 w)) (ucast (drop_bit 24 w))) n = bit w n"
    using n by cases (auto simp: le32_def bit_simps)
qed

lemma echo_hdr_dest:
  assumes "20 \<le> length hdr"
  shows "take 4 (drop 16 (echo_hdr hdr src dest @ msg)) = u32_bytes dest"
  using assms by (simp add: echo_hdr_def Let_def patch_def)

lemma patch_front: "off + length xs \<le> length hdr \<Longrightarrow> patch (hdr @ msg) off xs = patch hdr off xs @ msg"
  by (simp add: patch_def)

lemma ram_echo_reply:
  assumes "20 \<le> length hdr" and "length hdr \<le> 60" and "8 \<le> length msg" and "length pre + length hdr + length msg \<le> 65535"
    and "dest \<noteq> n_ip_addr inp" and "n_mtu inp = 0 \<or> length hdr + length msg \<le> unat (n_mtu inp)"
    and "pkt = echo_hdr hdr src dest @ echo_msg msg"
  shows "icmp_echo_reply od (with_ram h a (pre @ hdr) msg) (Some a) (length hdr) src dest inp = Inr (with_ram (OutputFn h pkt) a pre pkt)"
proof -
  let ?k = "of_nat (length (pre @ hdr)) :: u16_t" and ?d = "Some (a, uint (of_nat (length pre) :: u16_t))"
  let ?e = "Some (a, uint (of_nat (length (pre @ hdr)) :: u16_t))"
  have add: "pbuf_add_header (with_ram h a (pre @ hdr) msg) (Some a) (length hdr) = Inr (0, with_ram h a pre (hdr @ msg))"
    using ram_add_header assms(4) by simp
  have wh: "mem_write (with_ram h a pre (hd' @ m)) ?d off xs = Inr (with_ram h a pre (patch hd' off xs @ m))"
    if "length hd' = length hdr" "length m = length msg" "off + length xs \<le> 20" for hd' m off xs
    using ram_write [of pre "hd' @ m" off xs h a] that assms(1,4) by (simp add: patch_front)
  have we: "mem_write (with_ram h a pre (hd' @ m)) ?e off xs = Inr (with_ram h a pre (hd' @ patch m off xs))"
    if "length hd' = length hdr" "length m = length msg" "off + length xs \<le> 4" for hd' m off xs
    by (rule ram_inner(1)) (use that assms(3,4) in simp_all)
  have re: "mem_read (with_ram h a pre (hd' @ m)) ?e 2 2 = Inr [m ! 2, m ! 3]"
    if "length hd' = length hdr" "length m = length msg" for hd' m
  proof -
    have "4 \<le> length m" using that assms(3) by simp
    then obtain x0 x1 x2 x3 ds where "m = x0 # x1 # x2 # x3 # ds" by (rule list4E)
    then show ?thesis using ram_inner(2) [of pre hd' m ?k 2 2 h a] that assms(3,4) by simp
  qed
  have rh: "mem_read (with_ram h a pre (hd' @ m)) ?d 0 (length hdr) = Inr hd'" if "length hd' = length hdr" "length m = length msg" for hd' m
    using ram_read [of pre "hd' @ m" 0 "length hdr" h a] that assms(4) by simp
  define h1 where "h1 = patch hdr 12 (u32_bytes src)"
  define h2 where "h2 = patch h1 16 (u32_bytes dest)"
  define h3 where "h3 = patch h2 8 [64]"
  define h4 where "h4 = patch h3 10 [0, 0]"
  define m1 where "m1 = patch msg 0 [0]"
  have l: "length h1 = length hdr" "length h2 = length hdr" "length h3 = length hdr" "length h4 = length hdr" "length m1 = length msg"
    "length (echo_msg msg) = length msg"
    using assms(1,3) by (simp_all add: h1_def h2_def h3_def h4_def m1_def patch_def echo_msg_def)
  have m: "m1 ! 2 = msg ! 2" "m1 ! 3 = msg ! 3" using assms(3) by (simp_all add: m1_def patch_def nth_append eval_nat_numeral)
  have em: "patch m1 2 (u16_bytes (icmp_echo_chksum (le16 (msg ! 2) (msg ! 3)))) = echo_msg msg" by (simp add: m1_def echo_msg_def)
  have "inet_chksum x h4 = internet_checksum h4" for x
    using l(4) assms(2) by (simp add: word_unat_eq_iff unat_internet_checksum inet_chksum_sum)
  then have eh: "patch h4 10 (u16_bytes (inet_chksum x h4)) = echo_hdr hdr src dest" for x
    by (simp add: echo_hdr_def Let_def h4_def h3_def h2_def h1_def)
  have z: "u16_bytes 0 = [0, 0]" by (simp add: u16_bytes_def)
  have lp: "length pkt = length hdr + length msg" using length_echo_hdr [OF assms(1)] l(6) by (simp add: assms(7))
  have rd: "mem_read (with_ram h a pre pkt) ?d 16 4 = Inr (u32_bytes dest)"
    using ram_read [of pre pkt 16 4 h a] echo_hdr_dest [OF assms(1), of src dest "echo_msg msg"] lp assms(1,4) by (simp add: assms(7))
  have tr: "ip4_transmit od (with_ram h a pre pkt) (Some a) dest inp = Inr (ERR_OK, with_ram (OutputFn h pkt) a pre pkt)"
    using ram_transmit [of pre pkt dest inp od h a] assms(4-6) lp by simp
  have "unat (of_nat (length pkt) :: u16_t) = length pkt" using lp assms(4) by (intro unat_of_nat_16) simp
  then have out: "ip4_output_if od (with_ram h a pre pkt) (Some a) (Some src) None 64 0 1 inp
      = Inr (ERR_OK, with_ram (OutputFn h pkt) a pre pkt)"
    using rd tr lp assms(1) by (simp add: ip4_output_if_def ip4_output_if_src_def u32_bytes_def)
  note steps = wh [of hdr msg 12 "u32_bytes src", folded h1_def] wh [of h1 msg 16 "u32_bytes dest", folded h2_def]
    we [of h2 msg 0 "[0]", folded m1_def] re [of h2 m1]
    we [of h2 m1 2 "u16_bytes (icmp_echo_chksum (le16 (msg ! 2) (msg ! 3)))", unfolded em]
    wh [of h2 "echo_msg msg" 8 "[64]", folded h3_def] wh [of h3 "echo_msg msg" 10 "[0, 0]", folded h4_def] rh [of h4 "echo_msg msg"]
    wh [of h4 "echo_msg msg" 10 "u16_bytes (inet_chksum (od ?d) h4)", unfolded eh, folded assms(7)]
  show ?thesis using add steps out l m
    by (simp add: icmp_echo_reply_def load16_def store16_def z)
qed

lemma drop_objs_ram: "a \<notin> S \<Longrightarrow> drop_objs S (with_ram h a pre data) = with_ram (drop_objs S h) a pre data"
  by (auto simp: drop_objs_def with_ram_def fun_eq_iff restrict_map_def)

lemma ram_free_other:
  assumes "heap_ok h" and "a < nextid h" and "chain_ok h (Some f) fs" and "clear_of h a fs"
    and "\<forall>q\<in>set fs. freeable h q \<and> once h q"
  shows "pbuf_free (with_ram h a pre data) (Some f) = Inr (of_nat (length fs), with_ram (drop_objs (set fs) h) a pre data)"
proof -
  let ?h = "with_ram h a pre data"
  have a: "a \<notin> set fs" using assms(4) by (simp add: clear_of_def)
  have "path ?h (Some f) fs" using ram_other(1) [OF assms(4)] assms(3) by (simp add: chain_ok_path)
  moreover have "freeable ?h q \<and> once ?h q" if "q \<in> set fs" for q
  proof -
    have "q \<noteq> a" using a that by auto
    then show ?thesis using assms(5) that freeable_cong [of ?h q h] by (simp add: once_def ram_other_pb)
  qed
  ultimately show ?thesis using pbuf_free_all [OF ram_heap_ok [OF assms(1,2), of pre data], of f fs] drop_objs_ram [OF a] by simp
qed

lemma mem_read_fresh:
  assumes "heap_ok h" and "mem_read h d off n = Inr xs"
  shows "mem_read (with_ram (h\<lparr>nextid := m\<rparr>) (nextid h) pre data) d off n = Inr xs"
  using assms fresh(2) [OF assms(1)] by (auto simp: mem_read_def split: if_splits option.splits)

text \<open>A request as it arrives: in pbufs of its own, behind an IP header and without room for a link header.\<close>

definition request :: "heap \<Rightarrow> nat list \<Rightarrow> ptr \<Rightarrow> bytes \<Rightarrow> bool" where
  "request h fs iphdr_in hdr \<longleftrightarrow> heap_ok h \<and> fs \<noteq> [] \<and> chain_ok h (Some (hd fs)) fs \<and> solid h fs \<and> (\<forall>q\<in>set fs. freeable h q \<and> once h q)
     \<and> mem_read h iphdr_in 0 (length hdr) = Inr hdr \<and> length hdr = unat (IPH_HL_BYTES hdr) \<and> 20 \<le> length hdr
     \<and> pbuf_add_header h (Some (hd fs)) (length hdr + 14) = Inr (1, h)"

lemma icmp_echo_copy_eq:
  assumes "request h fs iphdr_in hdr" and "8 \<le> length (chain_data h fs)" and "14 + length hdr + length (chain_data h fs) \<le> 65535"
    and "\<not> oom h (nextid h)"
  shows "\<exists>pre. length pre = 14 \<and> icmp_echo_copy h (Some (hd fs)) iphdr_in (length hdr) = Inr (Some (nextid h),
    with_ram (drop_objs (set fs) (h\<lparr>nextid := Suc (nextid h)\<rparr>)) (nextid h) (pre @ hdr) (chain_data h fs))"
proof -
  let ?a = "nextid h" and ?h = "h\<lparr>nextid := Suc (nextid h)\<rparr>" and ?d = "chain_data h fs" and ?f = "hd fs"
  note r = assms(1) [unfolded request_def]
  have ok: "heap_ok h" "chain_ok h (Some ?f) fs" "heap_ok ?h" using r heap_ok_Suc by auto
  have "chain_ok ?h (Some ?f) fs = chain_ok h (Some ?f) fs" "chain_data ?h fs = ?d"
    by (rule chain_cong; simp)+
  then have ok': "chain_ok ?h (Some ?f) fs" "chain_data ?h fs = ?d" using ok(2) by simp_all
  have clear: "clear_of ?h ?a fs" using clear_of_fresh [OF ok(1,2)] by simp
  obtain b where b: "pbufs h ?f = Some b" "?f \<noteq> ?a" using r ok(2) clear by (cases fs) (auto simp: chain_ok_Cons clear_of_def)
  have tot: "unat (p_tot_len b) = length ?d" using chain_ok_tot_len [OF ok(2)] b(1) by simp
  let ?n = "p_tot_len b + of_nat (length hdr)"
  have un: "unat ?n = length hdr + length ?d"
    using assms(3) tot by (subst unat_add_lem [THEN iffD1]) (simp_all add: unat_of_nat_16)
  obtain pre junk1 junk2 where al: "pbuf_alloc h PBUF_LINK ?n PBUF_RAM = Inr (Some ?a, with_ram ?h ?a pre (junk1 @ junk2))"
    "length pre = 14" "length junk1 = length hdr" "length junk2 = length ?d"
  proof
    let ?j = "map (junk h) [14..<14 + (length hdr + length ?d)]"
    show "pbuf_alloc h PBUF_LINK ?n PBUF_RAM = Inr (Some ?a, with_ram ?h ?a (map (junk h) [0..<14]) (take (length hdr) ?j @ drop (length hdr) ?j))"
      using ram_alloc [of 14 ?n h] assms(3,4) un by simp
  qed simp_all
  have w: "mem_write (with_ram ?h ?a pre (junk1 @ junk2)) (Some (?a, uint (of_nat (length pre) :: u16_t))) 0 hdr
      = Inr (with_ram ?h ?a pre (hdr @ junk2))"
    using ram_write [of pre "junk1 @ junk2" 0 hdr ?h ?a] al assms(3) by (simp add: patch_0)
  have rm: "pbuf_remove_header (with_ram ?h ?a pre (hdr @ junk2)) (Some ?a) (length hdr) = Inr (0, with_ram ?h ?a (pre @ hdr) junk2)"
    using ram_remove_header al assms(3) by simp
  have cp: "pbuf_copy (with_ram ?h ?a (pre @ hdr) junk2) (Some ?a) (Some ?f) = Inr (ERR_OK, with_ram ?h ?a (pre @ hdr) ?d)"
    using ram_copy [OF ok(3) _ ok'(1) _ clear, of "pre @ hdr" junk2] r al assms(3) ok'(2) by (simp add: solid_def)
  have fr: "pbuf_free (with_ram ?h ?a (pre @ hdr) ?d) (Some ?f) = Inr (of_nat (length fs), with_ram (drop_objs (set fs) ?h) ?a (pre @ hdr) ?d)"
    using ram_free_other [OF ok(3) _ ok'(1) clear] r by simp
  have ln: "\<not> ?n < p_tot_len b" "\<not> unat (of_nat (length (junk1 @ junk2)) :: u16_t) < length hdr + 8"
    using un tot al(3,4) assms(2,3) unat_of_nat_16 [of "length (junk1 @ junk2)"] by (simp_all add: word_less_nat_alt)
  have rd: "mem_read (with_ram ?h ?a pre (junk1 @ junk2)) iphdr_in 0 (length hdr) = Inr hdr"
    by (rule mem_read_fresh [OF ok(1)]) (use r in blast)
  have "icmp_echo_copy h (Some ?f) iphdr_in (length hdr) = Inr (Some ?a, with_ram (drop_objs (set fs) ?h) ?a (pre @ hdr) ?d)"
    using b(1) al(1) w rm cp fr ln rd by (simp add: icmp_echo_copy_def Let_def)
  then show ?thesis using al(2) by blast
qed

lemma unat_IPH_HL_BYTES: "unat (IPH_HL_BYTES hdr) \<le> 60"
proof -
  have m: "(15 :: u8_t) = mask 4" by (simp add: mask_eq_exp_minus_1)
  have "unat (hdr ! 0 AND 15) \<le> 15" unfolding m using unat_and_mask [of "hdr ! 0" 4] by simp
  then show ?thesis by (simp add: IPH_HL_BYTES_def unat_word_ariths)
qed

lemma mem_read_prefix:
  assumes "mem_read h d off n = Inr xs" and "k \<le> n"
  shows "mem_read h d off k = Inr (take k xs)"
  using assms by (cases "k = 0") (auto simp: mem_read_def min_def split: if_splits option.splits)

lemma free_all_request:
  assumes "request h fs iphdr_in hdr" and "h' = h\<lparr>nextid := n\<rparr>" and "nextid h \<le> n"
  shows "icmp_free h' (Some (hd fs)) = Inr (drop_objs (set fs) h')"
proof -
  have r: "heap_ok h" "path h (Some (hd fs)) fs" "\<forall>q\<in>set fs. freeable h q \<and> once h q"
    using assms(1) chain_ok_path unfolding request_def by auto
  have "heap_ok h'" using r(1) assms(2,3) by (auto simp: heap_ok_def)
  moreover have "path h' (Some (hd fs)) fs" using r(2) path_cong [of fs h' h] assms(2) by simp
  ultimately show ?thesis using pbuf_free_all [of h' "hd fs" fs] r(3) assms(2) by (simp add: icmp_free_def)
qed

text \<open>An echo request for an address that is neither a broadcast nor a multicast address.\<close>

definition echo_request :: "ip_globals \<Rightarrow> bytes \<Rightarrow> bool" where
  "echo_request g msg \<longleftrightarrow> 8 \<le> length msg \<and> msg ! 0 = 8 \<and> \<not> ip4_addr_ismulticast (ip_2_ip4 (current_iphdr_dest g))
     \<and> \<not> ip4_addr_isbroadcast_u32 (ip_2_ip4 (current_iphdr_dest g)) (current_netif g)"

lemma icmp_input_echo:
  assumes "request h fs iphdr_in hdr" and "4 \<le> unat (p_len (pb h (hd fs)))" and "echo_request g (chain_data h fs)"
  shows "icmp_input od g iphdr_in h (Some (hd fs)) inp = bnd (icmp_echo_copy h (Some (hd fs)) iphdr_in (length hdr)) (\<lambda>(q, h).
     if q = None then Inr h else bnd (icmp_echo_reply od h q (length hdr) (ip_2_ip4 (current_iphdr_dest g))
       (ip_2_ip4 (current_iphdr_src g)) inp) (\<lambda>h. icmp_free h q))"
proof -
  note r = assms(1) [unfolded request_def]
  obtain f gs where fs: "fs = f # gs" using r by (cases fs) auto
  have ok: "chain_ok h (Some f) (f # gs)" using r fs by simp
  obtain b where b: "pbufs h f = Some b" "payload_ok h f" "pb h f = b" "length (seg h f) = unat (p_len b)"
    using ok by (auto simp: chain_ok_Cons length_seg)
  have "mem_read h iphdr_in 0 1 = Inr (take 1 hdr)" by (rule mem_read_prefix) (use r in auto)
  moreover have "IPH_HL_BYTES (take 1 hdr) = IPH_HL_BYTES hdr" by (simp add: IPH_HL_BYTES_def)
  moreover have "mem_read h (p_payload b) 0 1 = Inr (take 1 (seg h f))" using mem_read_seg [OF b(2), of 0 1] assms(2) b(3) fs by simp
  moreover have "take 1 (seg h f) ! 0 = 8"
  proof -
    have "seg h f ! 0 = chain_data h fs ! 0" using b(3,4) assms(2) fs by (simp add: nth_append)
    then show ?thesis using assms(3) by (simp add: echo_request_def)
  qed
  moreover have "unat (p_tot_len b) = length (chain_data h fs)" using chain_ok_tot_len [OF ok] b(3) fs by simp
  moreover have "unat (IPH_HL_BYTES hdr) = length hdr" "20 \<le> length hdr" "pbuf_add_header h (Some f) (length hdr + 14) = Inr (1, h)"
    using r fs by auto
  ultimately show ?thesis using fs b(1,3) assms(2,3)
    by (cases "icmp_echo_copy h (Some f) iphdr_in (length hdr)") (simp_all add: icmp_input_def echo_request_def icmp_echo_room_def Let_def split: prod.split)
qed

lemma icmp_echo_copy_oom:
  assumes "request h fs iphdr_in hdr" and "14 + length hdr + length (chain_data h fs) \<le> 65535" and "oom h (nextid h)"
  shows "icmp_echo_copy h (Some (hd fs)) iphdr_in (length hdr) = Inr (None, drop_objs (set fs) (h\<lparr>nextid := Suc (nextid h)\<rparr>))"
proof -
  note r = assms(1) [unfolded request_def]
  obtain f gs where fs: "fs = f # gs" using r by (cases fs) auto
  have ok: "chain_ok h (Some f) (f # gs)" using r fs by simp
  obtain b where b: "pbufs h f = Some b" using ok by (auto simp: chain_ok_Cons)
  have tot: "unat (p_tot_len b) = length (chain_data h fs)" using chain_ok_tot_len [OF ok] b fs by simp
  then have un: "unat (p_tot_len b + of_nat (length hdr)) = length hdr + length (chain_data h fs)"
    using assms(2) by (subst unat_add_lem [THEN iffD1]) (simp_all add: unat_of_nat_16)
  then have n: "\<not> p_tot_len b + of_nat (length hdr) < p_tot_len b" using tot by (simp add: word_less_nat_alt)
  have a: "pbuf_alloc h PBUF_LINK (p_tot_len b + of_nat (length hdr)) PBUF_RAM = Inr (None, h\<lparr>nextid := Suc (nextid h)\<rparr>)"
    using un assms(2,3) pbuf_alloc_ram_eq [of h 14 "p_tot_len b + of_nat (length hdr)"] by simp
  show ?thesis using b fs n a free_all_request [OF assms(1) refl, of "Suc (nextid h)"] by (simp add: icmp_echo_copy_def Let_def)
qed

lemma icmp_echo_answered:
  assumes "request h fs iphdr_in hdr" and "4 \<le> unat (p_len (pb h (hd fs)))" and "echo_request g (chain_data h fs)"
    and "ip_2_ip4 (current_iphdr_src g) \<noteq> n_ip_addr inp" and "14 + length hdr + length (chain_data h fs) \<le> 65535"
    and "n_mtu inp = 0 \<or> length hdr + length (chain_data h fs) \<le> unat (n_mtu inp)"
    and "rhdr = echo_hdr hdr (ip_2_ip4 (current_iphdr_dest g)) (ip_2_ip4 (current_iphdr_src g))" and "rmsg = echo_msg (chain_data h fs)"
  shows "\<exists>h'. icmp_input od g iphdr_in h (Some (hd fs)) inp = Inr h'
    \<and> net h' = (if oom h (nextid h) then net h else (net h)\<lparr>sent := sent (net h) @ [rhdr @ rmsg]\<rparr>)
    \<and> (\<forall>q. if q \<in> set fs \<or> nextid h \<le> q then pbufs h' q = None \<and> mem h' q = None else pbufs h' q = pbufs h q \<and> mem h' q = mem h q)
    \<and> rmsg ! 0 = 0 \<and> drop 4 rmsg = drop 4 (chain_data h fs) \<and> inet_chksum x rhdr = 0
    \<and> (inet_chksum x (chain_data h fs) = 0 \<longrightarrow> inet_chksum x rmsg = 0)"
proof -
  let ?d = "chain_data h fs" and ?a = "nextid h" and ?h = "h\<lparr>nextid := Suc (nextid h)\<rparr>"
  note r = assms(1) [unfolded request_def]
  have hl: "20 \<le> length hdr" "length hdr \<le> 60" using r unat_IPH_HL_BYTES [of hdr] by auto
  have e: "8 \<le> length ?d" "?d ! 0 = 8" using assms(3) by (auto simp: echo_request_def)
  have msg: "rmsg ! 0 = 0" "drop 4 rmsg = drop 4 ?d"
  proof -
    have "4 \<le> length ?d" using e(1) by simp
    then obtain x0 x1 x2 x3 ds where "?d = x0 # x1 # x2 # x3 # ds" by (rule list4E)
    then show "rmsg ! 0 = 0" "drop 4 rmsg = drop 4 ?d" by (simp_all add: assms(8) echo_msg_def patch_def)
  qed
  have ck: "inet_chksum x rhdr = 0" "inet_chksum x ?d = 0 \<longrightarrow> inet_chksum x rmsg = 0"
    using echo_hdr_verifies [OF hl] echo_msg_verifies [OF e] assms(5) by (auto simp: assms(7,8))
  have old: "pbufs h q = None" "mem h q = None" if "nextid h \<le> q" for q
    using r that by (auto simp: heap_ok_def)
  show ?thesis
  proof (cases "oom h ?a")
    case True
    have "icmp_input od g iphdr_in h (Some (hd fs)) inp = Inr (drop_objs (set fs) ?h)"
      using icmp_input_echo [OF assms(1-3)] icmp_echo_copy_oom [OF assms(1,5) True] by simp
    then show ?thesis using True msg ck old by (simp add: drop_objs_def restrict_map_def)
  next
    case False
    obtain pre where pre: "length pre = 14" "icmp_echo_copy h (Some (hd fs)) iphdr_in (length hdr)
      = Inr (Some ?a, with_ram (drop_objs (set fs) ?h) ?a (pre @ hdr) ?d)"
      using icmp_echo_copy_eq [OF assms(1) e(1) assms(5) False] by blast
    let ?h1 = "drop_objs (set fs) ?h"
    have rep: "icmp_echo_reply od (with_ram ?h1 ?a (pre @ hdr) ?d) (Some ?a) (length hdr) (ip_2_ip4 (current_iphdr_dest g))
        (ip_2_ip4 (current_iphdr_src g)) inp = Inr (with_ram (OutputFn ?h1 (rhdr @ rmsg)) ?a pre (rhdr @ rmsg))"
      by (rule ram_echo_reply) (use hl e pre assms in auto)
    have ok1: "heap_ok (OutputFn ?h1 y)" for y using heap_ok_drop [OF heap_ok_Suc] r by (simp add: OutputFn_def)
    have "icmp_input od g iphdr_in h (Some (hd fs)) inp = Inr (drop_objs {?a} (OutputFn ?h1 (rhdr @ rmsg)))"
      using icmp_input_echo [OF assms(1-3)] pre(2) rep ram_free [OF ok1, of ?a] by (simp add: icmp_free_def OutputFn_def)
    then show ?thesis using False msg ck old by (simp add: OutputFn_def drop_objs_def restrict_map_def)
  qed
qed

text \<open>
  An echo request in any number of pbufs, for an address that is no broadcast or multicast address, is answered: one packet
  goes out, the request with source and destination exchanged, a fresh TTL, the type of a reply and both checksums
  right (that of the message if the request's was); all pbufs of the request and of the reply are freed and nothing
  else in memory changes. Out of memory the request is freed and nothing is sent.
\<close>

theorem icmp_input_answers:
  assumes "request h fs iphdr_in hdr" and "4 \<le> unat (p_len (pb h (hd fs)))" and "echo_request g (chain_data h fs)"
    and "ip_2_ip4 (current_iphdr_src g) \<noteq> n_ip_addr inp" and "14 + length hdr + length (chain_data h fs) \<le> 65535"
    and "n_mtu inp = 0 \<or> length hdr + length (chain_data h fs) \<le> unat (n_mtu inp)"
    and "rhdr = echo_hdr hdr (ip_2_ip4 (current_iphdr_dest g)) (ip_2_ip4 (current_iphdr_src g))" and "rmsg = echo_msg (chain_data h fs)"
  shows "\<exists>h'. icmp_input od g iphdr_in h (Some (hd fs)) inp = Inr h'
    \<and> net h' = (if oom h (nextid h) then net h else (net h)\<lparr>sent := sent (net h) @ [rhdr @ rmsg]\<rparr>)
    \<and> (\<forall>q. if q \<in> set fs \<or> nextid h \<le> q then pbufs h' q = None \<and> mem h' q = None else pbufs h' q = pbufs h q \<and> mem h' q = mem h q)
    \<and> rmsg ! 0 = 0 \<and> drop 4 rmsg = drop 4 (chain_data h fs) \<and> inet_chksum x rhdr = 0
    \<and> (inet_chksum x (chain_data h fs) = 0 \<longrightarrow> inet_chksum x rmsg = 0)"
  by (rule icmp_echo_answered [OF assms])

lemma icmp_send_response_oom: "oom h (nextid h) \<Longrightarrow> icmp_send_response od netifs h p ty code = Inr (h\<lparr>nextid := Suc (nextid h)\<rparr>)"
  using pbuf_alloc_ram_eq [of h 54 36] by (simp add: icmp_send_response_def)

lemma icmp_error_result:
  assumes "heap_ok h" and "chain_ok h (Some f) (f # fs)" and "28 \<le> unat (p_len (pb h f))"
    and "hdr_src (chain_data h (f # fs)) \<noteq> n_ip_addr nif" and "n_mtu nif = 0 \<or> 56 \<le> unat (n_mtu nif)"
    and "msg = icmp_error ty code (take 28 (chain_data h (f # fs)))"
    and "pkt = ip4_packet 0 (ip_id (net h)) 64 1 (n_ip_addr nif) (hdr_src (chain_data h (f # fs))) msg"
  shows "\<exists>h'. icmp_send_response od (nif # ns) h (Some f) ty code = Inr h' \<and> heap_ok h' \<and> nextid h' = Suc (nextid h)
    \<and> pbufs h' = pbufs h \<and> mem h' = mem h
    \<and> net h' = (if oom h (nextid h) then net h else (net h)\<lparr>ip_id := ip_id (net h) + 1, sent := sent (net h) @ [pkt]\<rparr>)
    \<and> take 2 msg = [ty, code] \<and> drop 8 msg = take 28 (chain_data h (f # fs)) \<and> inet_chksum x msg = 0
    \<and> inet_chksum x (take 20 pkt) = 0 \<and> drop 20 pkt = msg \<and> take 4 (drop 16 pkt) = u32_bytes (hdr_src (chain_data h (f # fs)))"
proof -
  let ?h = "h\<lparr>nextid := Suc (nextid h)\<rparr>"
  have "payload_ok h f" using assms(2) by (auto simp: chain_ok_Cons)
  then have l: "28 \<le> length (seg h f)" using length_seg assms(3) by simp
  have s: "hdr_src (chain_data h (f # fs)) = hdr_src (seg h f)" "take 28 (chain_data h (f # fs)) = take 28 (seg h f)"
    using l by (simp_all add: hdr_src_def nth_append)
  have f: "take 2 msg = [ty, code]" "drop 8 msg = take 28 (chain_data h (f # fs))" "length msg = 36"
    unfolding s using l by (simp_all add: assms(6) s icmp_error_def Let_def patch_def u16_bytes_def)
  have c: "inet_chksum x msg = 0" unfolding assms(6) by (rule icmp_error_verifies) simp
  have "20 + length msg \<le> 65535" using f(3) by simp
  note p = ip4_packet_fields [OF this assms(7)]
  have old: "pbufs h (nextid h) = None" "mem h (nextid h) = None" using fresh [OF assms(1)] by auto
  show ?thesis
  proof (cases "oom h (nextid h)")
    case True
    then show ?thesis using icmp_send_response_oom [OF True] heap_ok_Suc [OF assms(1)] f(1,2) c p by simp
  next
    case False
    have r: "pbufs h |` (- {nextid h}) = pbufs h" "mem h |` (- {nextid h}) = mem h"
      using old by (auto simp: restrict_map_def fun_eq_iff)
    let ?h2 = "drop_objs {nextid h} (?h\<lparr>net := (net h)\<lparr>ip_id := ip_id (net h) + 1, sent := sent (net h) @ [pkt]\<rparr>\<rparr>)"
    have "icmp_send_response od (nif # ns) h (Some f) ty code = Inr ?h2"
      using icmp_send_response_eq [OF assms(1-3) _ assms(5) False] assms(4,6,7) unfolding s by simp
    moreover have "heap_ok ?h2" using heap_ok_drop heap_ok_Suc [OF assms(1)] by simp
    moreover have "net ?h2 = (net h)\<lparr>ip_id := ip_id (net h) + 1, sent := sent (net h) @ [pkt]\<rparr>" by (simp add: drop_objs_def)
    moreover have "pbufs ?h2 = pbufs h" "mem ?h2 = mem h" "nextid ?h2 = Suc (nextid h)" using r by simp_all
    ultimately show ?thesis using False f(1,2) c p by auto
  qed
qed

text \<open>
  An ICMP error about a packet with at least eight bytes behind its IP header: one message of the given type and code goes out
  to the sender of the packet, with the packet's header and first eight bytes and with right checksums; it is freed
  again, and memory that existed before is as it was. Out of memory nothing is sent.
\<close>

theorem icmp_error_sent:
  assumes "heap_ok h" and "chain_ok h (Some f) (f # fs)" and "28 \<le> unat (p_len (pb h f))"
    and "hdr_src (chain_data h (f # fs)) \<noteq> n_ip_addr nif" and "n_mtu nif = 0 \<or> 56 \<le> unat (n_mtu nif)"
    and "msg = icmp_error ty code (take 28 (chain_data h (f # fs)))"
    and "pkt = ip4_packet 0 (ip_id (net h)) 64 1 (n_ip_addr nif) (hdr_src (chain_data h (f # fs))) msg"
  shows "\<exists>h'. icmp_send_response od (nif # ns) h (Some f) ty code = Inr h' \<and> heap_ok h' \<and> nextid h' = Suc (nextid h)
    \<and> pbufs h' = pbufs h \<and> mem h' = mem h
    \<and> net h' = (if oom h (nextid h) then net h else (net h)\<lparr>ip_id := ip_id (net h) + 1, sent := sent (net h) @ [pkt]\<rparr>)
    \<and> take 2 msg = [ty, code] \<and> drop 8 msg = take 28 (chain_data h (f # fs)) \<and> inet_chksum x msg = 0
    \<and> inet_chksum x (take 20 pkt) = 0 \<and> drop 20 pkt = msg \<and> take 4 (drop 16 pkt) = u32_bytes (hdr_src (chain_data h (f # fs)))"
  using icmp_error_result [OF assms, of od ns x] .

section \<open>Samples\<close>

text \<open>An echo request from 10.0.0.1 to 10.0.0.2, in one pbuf and with the IP header removed.\<close>

definition sample_echo_hdr :: bytes where
  "sample_echo_hdr = [0x45, 0, 0, 28, 0, 7, 0, 0, 64, 1, 0, 0, 10, 0, 0, 1, 10, 0, 0, 2]"

definition sample_echo :: bytes where
  "sample_echo = [8, 0, 0xf7, 0xfc, 0, 1, 0, 2]"

definition sample_request :: heap where
  "sample_request = with_ram (sample\<lparr>pbufs := Map.empty, mem := Map.empty\<rparr>) 0 sample_echo_hdr sample_echo"

definition sample_ip_globals :: ip_globals where
  "sample_ip_globals = \<lparr>current_netif = sample_out_netif, current_is_v6 = False, current_ip_header_tot_len = 20,
     current_iphdr_src = \<lparr>u_addr = [0x0100000a], ip_zone = 0, ip_type = 0\<rparr>, current_iphdr_dest = \<lparr>u_addr = [0x0200000a], ip_zone = 0, ip_type = 0\<rparr>\<rparr>"

lemma sample_request_ok: "request sample_request [0] (Some (0, 0)) sample_echo_hdr" "chain_data sample_request [0] = sample_echo"
  "net sample_request = init_net" "unat (p_len (pb sample_request 0)) = 8"
proof -
  let ?h = "sample\<lparr>pbufs := Map.empty, mem := Map.empty\<rparr>"
  have l: "length sample_echo_hdr + length sample_echo \<le> 65535" by (simp add: sample_echo_hdr_def sample_echo_def)
  have h: "heap_ok ?h" "(0 :: nat) < nextid ?h" by (simp_all add: heap_ok_def sample_def)
  show d: "chain_data sample_request [0] = sample_echo" unfolding sample_request_def by (rule ram_chain(2) [OF l])
  show "net sample_request = init_net" by (simp add: sample_request_def sample_def)
  show "unat (p_len (pb sample_request 0)) = 8" by (simp add: sample_request_def pb_def ram_pbuf_def sample_echo_def)
  have "pbuf_add_header sample_request (Some 0) 34 = Inr (1, sample_request)"
  proof -
    have "contiguous_at sample_request 0 (ram_pbuf 0 20 8) 20"
      by (simp add: contiguous_at_def sample_request_def sample_echo_hdr_def sample_echo_def ram_pbuf_def)
    then show ?thesis using pbuf_add_header_contiguous by fastforce
  qed
  moreover have "mem_read sample_request (Some (0, 0)) 0 (length sample_echo_hdr) = Inr sample_echo_hdr"
    by (simp add: mem_read_def sample_request_def)
  moreover have "heap_ok sample_request" "chain_ok sample_request (Some 0) [0]"
    unfolding sample_request_def by (rule ram_heap_ok [OF h], rule ram_chain(1) [OF l])
  moreover have "length sample_echo_hdr = 20" "unat (IPH_HL_BYTES sample_echo_hdr) = 20"
    by (simp_all add: sample_echo_hdr_def IPH_HL_BYTES_def)
  moreover have "freeable sample_request 0" "once sample_request 0" unfolding sample_request_def by (rule ram_freeable)+
  ultimately show "request sample_request [0] (Some (0, 0)) sample_echo_hdr"
    by (simp add: request_def solid_def)
qed

lemma sample_echo_reply:
  "echo_hdr sample_echo_hdr 0x0200000a 0x0100000a @ echo_msg sample_echo
   = [0x45, 0, 0, 28, 0, 7, 0, 0, 64, 1, 0x66, 0xd8, 10, 0, 0, 2, 10, 0, 0, 1, 0, 0, 0xff, 0xfc, 0, 1, 0, 2]"
proof -
  have "echo_hdr sample_echo_hdr 0x0200000a 0x0100000a = [0x45, 0, 0, 28, 0, 7, 0, 0, 64, 1, 0x66, 0xd8, 10, 0, 0, 2, 10, 0, 0, 1]"
    by (simp add: echo_hdr_def sample_echo_hdr_def patch_def u32_bytes_def u16_bytes_def internet_checksum_def ocnorm_def)
  moreover have "echo_msg sample_echo = [0, 0, 0xff, 0xfc, 0, 1, 0, 2]"
    by (simp add: echo_msg_def sample_echo_def patch_def u16_bytes_def icmp_echo_chksum_def le16_def lwip_htons_def)
  ultimately show ?thesis by simp
qed

theorem icmp_input_answers_witness:
  "\<exists>h'. icmp_input (\<lambda>_. False) sample_ip_globals (Some (0, 0)) sample_request (Some 0) sample_out_netif = Inr h'
    \<and> sent (net h') = [[0x45, 0, 0, 28, 0, 7, 0, 0, 64, 1, 0x66, 0xd8, 10, 0, 0, 2, 10, 0, 0, 1, 0, 0, 0xff, 0xfc, 0, 1, 0, 2]]
    \<and> pbufs h' 0 = None"
proof -
  have g: "ip_2_ip4 (current_iphdr_dest sample_ip_globals) = 0x0200000a" "ip_2_ip4 (current_iphdr_src sample_ip_globals) = 0x0100000a"
    by (simp_all add: sample_ip_globals_def ip_2_ip4_def)
  have e: "echo_request sample_ip_globals sample_echo"
    unfolding echo_request_def g by (simp add: sample_echo_def sample_ip_globals_def ip4_addr_ismulticast_def ip4_addr_isbroadcast_u32_def sample_out_netif_def lwip_htonl_def)
  have l: "length sample_echo_hdr = 20" "length sample_echo = 8" by (simp_all add: sample_echo_hdr_def sample_echo_def)
  have o: "\<not> oom sample_request (nextid sample_request)" by (simp add: sample_request_def sample_def)
  note w = icmp_input_answers [OF sample_request_ok(1), where g = sample_ip_globals and inp = sample_out_netif and od = "\<lambda>_. False" and x = False,
    unfolded g sample_request_ok(2,3) list.sel sample_echo_reply, OF _ e _ _ _ refl refl]
  show ?thesis using w sample_request_ok(4) l o by (auto simp: sample_out_netif_def init_net_def sample_echo_reply)
qed

text \<open>The same packet with its header in front.\<close>

definition sample_packet :: heap where
  "sample_packet = with_ram (sample\<lparr>pbufs := Map.empty, mem := Map.empty\<rparr>) 0 [] (sample_echo_hdr @ sample_echo)"

theorem icmp_error_sent_witness:
  "\<exists>h'. icmp_send_response (\<lambda>_. False) [sample_out_netif] sample_packet (Some 0) 11 1 = Inr h' \<and> pbufs h' = pbufs sample_packet
    \<and> sent (net h') = [ip4_packet 0 0 64 1 0x0100007f 0x0100000a (icmp_error 11 1 (sample_echo_hdr @ sample_echo))]"
proof -
  let ?d = "sample_echo_hdr @ sample_echo"
  have l: "length ?d = 28" "length ([] :: bytes) + length ?d \<le> 65535" by (simp_all add: sample_echo_hdr_def sample_echo_def)
  have ok: "heap_ok sample_packet" unfolding sample_packet_def by (rule ram_heap_ok) (simp_all add: heap_ok_def sample_def)
  have d: "chain_data sample_packet [0] = ?d" "chain_ok sample_packet (Some 0) [0]"
    unfolding sample_packet_def by (rule ram_chain [OF l(2)])+
  have s: "hdr_src ?d = 0x0100000a" by (simp add: hdr_src_def sample_echo_hdr_def sample_echo_def le32_def)
  have t: "take 28 ?d = ?d" using l by simp
  have "28 \<le> unat (p_len (pb sample_packet 0))" using l by (simp add: sample_packet_def pb_def ram_pbuf_def)
  moreover have "net sample_packet = init_net" "\<not> oom sample_packet (nextid sample_packet)" by (simp_all add: sample_packet_def sample_def)
  ultimately show ?thesis using icmp_error_sent [OF ok d(2), where nif = sample_out_netif and ty = 11 and code = 1 and od = "\<lambda>_. False" and ns = "[]" and x = False,
      unfolded d(1) s t, OF _ _ _ refl refl]
    by (auto simp: sample_out_netif_def init_net_def)
qed

end
