(* ===== verification/Reass_Timeout.thy ===== *)
theory Reass_Timeout
  imports Reass_Timer Icmp_C
begin

text \<open>
  A datagram whose fragments stop coming: the timer releases it, with all its pbufs, and does so without a fault.
\<close>

section \<open>Releasing one datagram\<close>

text \<open>
  What \<^verbatim>\<open>icmp_time_exceeded\<close> does: given a packet with the IP header and eight bytes behind it in its first pbuf it sends a
  message of its own and leaves everything alone that existed before.
\<close>

definition icmp_ok :: "(bytes \<Rightarrow> bool) \<Rightarrow> reass_env \<Rightarrow> bool" where
  "icmp_ok P e \<longleftrightarrow> (\<forall>h a qs. heap_ok h \<and> chain_ok h (Some a) (a # qs) \<and> 28 \<le> unat (p_len (pb h a)) \<and> P (take 20 (chain_data h (a # qs))) \<longrightarrow>
     (\<exists>h'. time_exceeded e h (Some a) = Inr h' \<and> heap_ok h' \<and> nextid h \<le> nextid h'
        \<and> (\<forall>x<nextid h. pbufs h' x = pbufs h x \<and> mem h' x = mem h x)))"

text \<open>The fragments of a queue: chains of their own data, and the first one long enough for the message.\<close>

definition frag_held :: "heap \<Rightarrow> (nat \<Rightarrow> nat list) \<Rightarrow> frag \<Rightarrow> bool" where
  "frag_held h tls f \<longleftrightarrow> chain_ok h (Some (fst f)) (frag_chain tls f) \<and> 20 \<le> unat (p_len (pb h (fst f)))
     \<and> (fst (snd f) = 0 \<longrightarrow> 28 \<le> unat (p_len (pb h (fst f)))) \<and> (\<forall>x\<in>set (frag_chain tls f). block h x = None \<or> block h x = Some x)"

definition frags_held :: "heap \<Rightarrow> (nat \<Rightarrow> nat list) \<Rightarrow> frag list \<Rightarrow> bool" where
  "frags_held h tls fs \<longleftrightarrow> frags_freeable h tls fs \<and> (\<forall>f\<in>set fs. frag_held h tls f)"

text \<open>Heaps that agree on some pbufs, up to the contents of memory.\<close>

definition keeps :: "heap \<Rightarrow> heap \<Rightarrow> nat set \<Rightarrow> bool" where
  "keeps h h' S \<longleftrightarrow> (\<forall>x\<in>S. pbufs h' x = pbufs h x \<and> map_option length (mem h' x) = map_option length (mem h x))"

lemma frags_held_keeps:
  assumes "frags_held h tls fs" and "keeps h h' (set (queue_pbufs tls fs))"
  shows "frags_held h' tls fs"
proof -
  have pb: "pbufs h' x = pbufs h x" "(mem h' x = None) = (mem h x = None)" "map_option length (mem h' x) = map_option length (mem h x)"
    if "x \<in> set (queue_pbufs tls fs)" for x
    using assms(2) that unfolding keeps_def by (metis map_option_is_None)+
  have fr: "frags_freeable h tls fs" using assms(1) by (simp add: frags_held_def)
  have "frags_freeable h' tls fs" by (rule frags_freeable_cong [OF fr]) (simp add: pb(1,2) del: not_None_eq)
  moreover have "frag_held h' tls f" if f: "f \<in> set fs" for f
  proof -
    have q: "x \<in> set (queue_pbufs tls fs)" if "x \<in> set (frag_chain tls f)" for x using that f by (auto simp: queue_pbufs_def)
    have held: "frag_held h tls f" using assms(1) f by (simp add: frags_held_def)
    have pbeq: "pb h' x = pb h x" "block h' x = block h x" if "x \<in> set (frag_chain tls f)" for x
      using pb(1) [OF q [OF that]] by (simp_all add: pb_def block_def)
    have po: "payload_ok h' x = payload_ok h x" if x: "x \<in> set (frag_chain tls f)" for x
    proof (cases "block h x")
      case None
      then show ?thesis using pbeq [OF x] by (auto simp: payload_ok_def block_def split: if_splits option.splits)
    next
      case (Some y)
      then have "y = x" using held x by (auto simp: frag_held_def)
      then show ?thesis using Some pbeq [OF x] pb(3) [OF q [OF x]]
        by (auto simp: payload_ok_def block_def split: option.splits if_splits)
    qed
    have "path h' (Some (fst f)) (frag_chain tls f) = path h (Some (fst f)) (frag_chain tls f)" using pb(1) q by (intro path_cong) simp
    moreover have "tots h' (frag_chain tls f) = tots h (frag_chain tls f)" using pbeq by (intro tots_cong) simp
    ultimately have "chain_ok h' (Some (fst f)) (frag_chain tls f)" using held po by (simp add: frag_held_def chain_ok_def)
    moreover have "fst f \<in> set (frag_chain tls f)" by (simp add: frag_chain_def)
    ultimately show ?thesis using held pbeq by (simp add: frag_held_def)
  qed
  ultimately show ?thesis by (simp add: frags_held_def)
qed

lemma keeps_mono: "keeps h h' S \<Longrightarrow> T \<subseteq> S \<Longrightarrow> keeps h h' T" by (auto simp: keeps_def)

lemma keeps_trans: "keeps h h1 S \<Longrightarrow> keeps h1 h2 S \<Longrightarrow> keeps h h2 S" by (simp add: keeps_def)

text \<open>The first fragment: its header is written back, the message is sent, and its pbufs are freed.\<close>

lemma free_first_correct:
  assumes "icmp_ok P e" and "heap_ok (rheap s)" and "frags_held (rheap s) tls (f # fs)" and "fst (snd f) = 0"
    and "ipr_p r = Some (fst f)" and "length (iphdr r) = 20 \<and> P (iphdr r)"
  shows "\<exists>h'. reass_free_first e s i r nxt = Inr (of_nat (length (frag_chain tls f)),
        (set_ipr s i (r\<lparr>ipr_p := nxt\<rparr>))\<lparr>rheap := h', helper := (helper s)(fst f := None)\<rparr>)
    \<and> heap_ok h' \<and> (\<forall>x\<in>set (frag_chain tls f). pbufs h' x = None)
    \<and> keeps (rheap s) h' ({..<nextid (rheap s)} - set (frag_chain tls f)) \<and> nextid (rheap s) \<le> nextid h'"
proof -
  let ?h = "rheap s" and ?a = "fst f"
  have held: "frag_held ?h tls f" using assms(3) by (simp add: frags_held_def)
  then have ok: "payload_ok ?h ?a" "28 \<le> unat (p_len (pb ?h ?a))" "pbufs ?h ?a \<noteq> None"
    using assms(4) by (auto simp: frag_held_def frag_chain_def chain_ok_Cons)
  obtain m where m: "mem_write ?h (p_payload (pb ?h ?a)) 0 (iphdr r) = Inr (?h\<lparr>mem := m\<rparr>)" "same_shape (mem ?h) m"
    "seg (?h\<lparr>mem := m\<rparr>) ?a = patch (seg ?h ?a) 0 (iphdr r)"
    using mem_write_seg [OF ok(1), of 0 "iphdr r"] ok(2) assms(6) by auto
  have w: "write_iphdr ?h (Some ?a) (iphdr r) = Inr (?h\<lparr>mem := m\<rparr>)" using m(1) ok(3) by (auto simp: write_iphdr_def pb_def)
  let ?h1 = "?h\<lparr>mem := m\<rparr>"
  have k1: "keeps ?h ?h1 S" for S using m(2) by (simp add: keeps_def same_shape_def)
  have h1: "heap_ok ?h1" "frags_held ?h1 tls (f # fs)" using assms(2) m(2) frags_held_keeps [OF assms(3) k1] by simp_all
  have "chain_ok ?h1 (Some ?a) (?a # tls ?a) \<and> 28 \<le> unat (p_len (pb ?h1 ?a))"
    using h1(2) assms(4) by (auto simp: frags_held_def frag_held_def frag_chain_def)
  moreover have "P (take 20 (chain_data ?h1 (?a # tls ?a)))" using m(3) assms(6) by (simp add: patch_def)
  ultimately obtain h2 where h2: "time_exceeded e ?h1 (Some ?a) = Inr h2" "heap_ok h2" "nextid ?h1 \<le> nextid h2"
    "\<forall>x<nextid ?h1. pbufs h2 x = pbufs ?h1 x \<and> mem h2 x = mem ?h1 x" using assms(1) h1(1) unfolding icmp_ok_def by blast
  have lt: "x < nextid ?h" if "x \<in> set (queue_pbufs tls (f # fs))" for x
    using assms(2,3) that by (auto simp: heap_ok_def frags_held_def frags_freeable_def freeable_iff)
  have k2: "keeps ?h h2 {..<nextid ?h}" using k1 [of "{..<nextid ?h}"] h2(4) by (simp add: keeps_def)
  have "frags_held h2 tls (f # fs)" using assms(3) k2 lt by (intro frags_held_keeps [OF assms(3)] keeps_mono [OF k2]) auto
  then have fr: "frags_freeable h2 tls (f # fs)" by (simp add: frags_held_def)
  let ?s = "(set_ipr s i (r\<lparr>ipr_p := nxt\<rparr>))\<lparr>helper := (helper s)(?a := None), rheap := h2\<rparr>"
  note fc = free_chain [of ?s tls f fs, simplified, OF h2(2) fr]
  let ?h' = "drop_objs (set (frag_chain tls f)) h2"
  have "reass_free_first e s i r nxt = Inr (of_nat (length (frag_chain tls f)), ?s\<lparr>rheap := ?h'\<rparr>)"
    using w h2(1) fc(1,2) unat_lt_16 [of "of_nat (length (frag_chain tls f))"]
    by (simp add: reass_free_first_def assms(5) less_Suc_eq_le del: unat_lt_16)
  moreover have "keeps ?h ?h' ({..<nextid ?h} - set (frag_chain tls f))" using k2 by (simp add: keeps_def restrict_map_def)
  moreover have "heap_ok ?h'" using h2(2) by (rule heap_ok_drop)
  ultimately show ?thesis using h2(3) by (intro exI [of _ ?h']) (simp add: restrict_map_def)
qed

text \<open>An entry behind the entries \<open>us\<close>.\<close>

definition pred_of :: "nat list \<Rightarrow> nat option" where
  "pred_of us = (if us = [] then None else Some (last us))"

lemma dequeue_pred:
  assumes "reassdatagrams s = us @ i # vs" and "distinct (reassdatagrams s)"
  shows "ip_reass_dequeue_datagram s i (pred_of us) = Inr (s\<lparr>reassdatagrams := us @ vs, ipr_at := (ipr_at s)(i := None)\<rparr>)"
    and "case pred_of us of None \<Rightarrow> True | Some q \<Rightarrow> list_next (reassdatagrams s) q = Some i" and "pred_of us \<noteq> Some i"
proof -
  consider "us = []" | ws p where "us = ws @ [p]" by (cases us rule: rev_cases)
  then have "ip_reass_dequeue_datagram s i (pred_of us) = Inr (s\<lparr>reassdatagrams := us @ vs, ipr_at := (ipr_at s)(i := None)\<rparr>)
    \<and> (case pred_of us of None \<Rightarrow> True | Some q \<Rightarrow> list_next (reassdatagrams s) q = Some i) \<and> pred_of us \<noteq> Some i"
  proof cases
    case 1
    then show ?thesis using assms(1) by (simp add: ip_reass_dequeue_datagram_def pred_of_def)
  next
    case (2 ws p)
    have d: "distinct (ws @ p # i # vs)" using assms 2 by simp
    have "hd (ws @ p # i # vs) \<noteq> i" using d by (cases ws) auto
    then show ?thesis using assms(1) 2 d list_unlink_prev [OF d] list_next_split [of ws p "i # vs"]
      by (simp add: ip_reass_dequeue_datagram_def pred_of_def)
  qed
  then show "ip_reass_dequeue_datagram s i (pred_of us) = Inr (s\<lparr>reassdatagrams := us @ vs, ipr_at := (ipr_at s)(i := None)\<rparr>)"
    "case pred_of us of None \<Rightarrow> True | Some q \<Rightarrow> list_next (reassdatagrams s) q = Some i" "pred_of us \<noteq> Some i" by auto
qed

text \<open>The pbufs, first with and then without the message for the first fragment.\<close>

definition released :: "heap \<Rightarrow> heap \<Rightarrow> nat list \<Rightarrow> bool" where
  "released h h' qs \<longleftrightarrow> heap_ok h' \<and> (\<forall>x\<in>set qs. pbufs h' x = None) \<and> keeps h h' ({..<nextid h} - set qs) \<and> nextid h \<le> nextid h'"

lemma frags_held_lt: "heap_ok h \<Longrightarrow> frags_held h tls fs \<Longrightarrow> x \<in> set (queue_pbufs tls fs) \<Longrightarrow> x < nextid h"
  by (auto simp: heap_ok_def frags_held_def frags_freeable_def freeable_iff)

lemma frags_held_Cons:
  assumes "frags_held h tls (f # fs)"
  shows "frags_held h tls fs" and "set (queue_pbufs tls fs) \<inter> set (frag_chain tls f) = {}"
  using assms by (auto simp: frags_held_def frags_freeable_def queue_pbufs_def)

lemma queue_pbufs_Cons [simp]: "queue_pbufs tls (f # fs) = frag_chain tls f @ queue_pbufs tls fs"
  by (simp add: queue_pbufs_def)

lemma release_all:
  assumes "icmp_ok P e" and "heap_ok (rheap s)" and "frags_held (rheap s) tls (f # fs)" and "frag_seg s (ipr_p r) (f # fs) None"
    and "length (iphdr r) = 20 \<and> P (iphdr r)" and "ipr_at s i = Some r" and "length (queue_pbufs tls (f # fs)) \<le> 65535" and "distinct (map fst (f # fs))"
  shows "\<exists>c1 s1 r1 h' hs. (\<exists>iprh. get_helper s (ipr_p r) = Inr iprh
        \<and> (if frag_start iprh = 0 then reass_free_first e s i r (next_pbuf iprh) else Inr (0, s)) = Inr (c1, s1)) \<and> ipr_at s1 i = Some r1
    \<and> reass_free_loop (fuel (rheap s1)) s1 (ipr_p r1) c1
        = Inr (of_nat (length (queue_pbufs tls (f # fs))), s\<lparr>rheap := h', helper := hs, ipr_at := (ipr_at s)(i \<mapsto> r1)\<rparr>)
    \<and> released (rheap s) h' (queue_pbufs tls (f # fs)) \<and> (\<forall>x. x \<notin> fst ` set (f # fs) \<longrightarrow> hs x = helper s x)"
proof -
  let ?h = "rheap s"
  obtain nx where p: "ipr_p r = Some (fst f)" "get_helper s (Some (fst f)) = Inr \<lparr>next_pbuf = nx, frag_start = fst (snd f), frag_end = snd (snd f)\<rparr>"
    "frag_seg s nx fs None" using assms(4) by (auto simp: get_helper_eq)
  have fr: "frags_freeable ?h tls (f # fs)" using assms(3) by (simp add: frags_held_def)
  show ?thesis
  proof (cases "fst (snd f) = 0")
    case False
    have "length (f # fs) \<le> fuel ?h" using frag_seg_length [OF assms(4,8,2)] by (simp add: fuel_def)
    note l = reass_free_loop_correct [OF assms(4) this assms(2) fr, of 0]
    have "released ?h (drop_objs (set (queue_pbufs tls (f # fs))) ?h) (queue_pbufs tls (f # fs))"
      using heap_ok_drop [OF assms(2)] by (auto simp: released_def keeps_def restrict_map_def)
    then show ?thesis using False p(1,2) l assms(6,7)
      by (intro exI [of _ 0] exI [of _ s] exI [of _ r] exI [of _ "drop_objs (set (queue_pbufs tls (f # fs))) ?h"] exI [of _ "helper s"])
        (simp add: fun_upd_idem)
  next
    case True
    obtain h1 where h1: "reass_free_first e s i r nx = Inr (of_nat (length (frag_chain tls f)),
        (set_ipr s i (r\<lparr>ipr_p := nx\<rparr>))\<lparr>rheap := h1, helper := (helper s)(fst f := None)\<rparr>)"
      "heap_ok h1" "\<forall>x\<in>set (frag_chain tls f). pbufs h1 x = None" "keeps ?h h1 ({..<nextid ?h} - set (frag_chain tls f))" "nextid ?h \<le> nextid h1"
      using free_first_correct [OF assms(1,2,3) True p(1) assms(5)] by blast
    let ?r1 = "r\<lparr>ipr_p := nx\<rparr>" and ?c = "of_nat (length (frag_chain tls f)) :: u16_t"
    define s1 where "s1 = (set_ipr s i ?r1)\<lparr>rheap := h1, helper := (helper s)(fst f := None)\<rparr>"
    have s1: "rheap s1 = h1" "helper s1 = (helper s)(fst f := None)" "ipr_at s1 = (ipr_at s)(i \<mapsto> ?r1)" by (simp_all add: s1_def)
    have lt: "set (queue_pbufs tls (f # fs)) \<subseteq> {..<nextid ?h}" using frags_held_lt [OF assms(2,3)] by auto
    note fh = frags_held_Cons [OF assms(3)]
    have k: "keeps ?h h1 (set (queue_pbufs tls fs))" using h1(4) by (rule keeps_mono) (use lt fh(2) in auto)
    have fr1: "frags_freeable h1 tls fs" using frags_held_keeps [OF fh(1) k] by (simp add: frags_held_def)
    have "fst g \<in> set (queue_pbufs tls fs)" if "g \<in> set fs" for g using that by (auto simp: queue_pbufs_def frag_chain_def)
    then have "pbufs h1 (fst g) = pbufs ?h (fst g)" if "g \<in> set fs" for g using k that unfolding keeps_def by blast
    moreover have "fst g \<noteq> fst f" if "g \<in> set fs" for g using assms(8) that by (metis distinct.simps(2) image_eqI list.set_map list.simps(9))
    ultimately have seg1: "frag_seg s1 nx fs None" using p(3) by (subst frag_seg_cong [of _ _ s]) (simp_all add: s1)
    have len: "length fs \<le> fuel (rheap s1)" using frag_seg_length [OF seg1] assms(8) h1(2) by (simp add: fuel_def s1)
    let ?h' = "drop_objs (set (queue_pbufs tls fs)) h1"
    have "unat ?c + length (queue_pbufs tls fs) \<le> 65535" using assms(7) by (simp add: unat_of_nat)
    then have loop: "reass_free_loop (fuel (rheap s1)) s1 nx ?c
        = Inr (of_nat (length (queue_pbufs tls (f # fs))), s1\<lparr>rheap := ?h'\<rparr>)"
      using reass_free_loop_correct [OF seg1 len, of tls ?c] h1(2) fr1 by (simp add: s1)
    have "released ?h ?h' (queue_pbufs tls (f # fs))"
      using h1(2-5) heap_ok_drop [OF h1(2)] by (auto simp: released_def keeps_def restrict_map_def)
    then show ?thesis using True p(1,2) h1(1) [folded s1_def] loop s1
      by (intro exI [of _ ?c] exI [of _ s1] exI [of _ ?r1] exI [of _ ?h'] exI [of _ "(helper s)(fst f := None)"])
        (simp add: s1_def set_ipr_def)
  qed
qed

lemma free_complete_correct:
  assumes "icmp_ok P e" and "frag_queue s i (f # fs)" and "frags_held (rheap s) tls (f # fs)"
    and "ipr_at s i = Some r" and "length (iphdr r) = 20 \<and> P (iphdr r)" and "reassdatagrams s = us @ i # vs" and "distinct (reassdatagrams s)"
    and "length (queue_pbufs tls (f # fs)) \<le> unat (ip_reass_pbufcount s)"
  shows "\<exists>h' hs. ip_reass_free_complete_datagram e s i (pred_of us) = Inr (of_nat (length (queue_pbufs tls (f # fs))),
        s\<lparr>rheap := h', helper := hs, ipr_at := (ipr_at s)(i := None), reassdatagrams := us @ vs,
          ip_reass_pbufcount := ip_reass_pbufcount s - of_nat (length (queue_pbufs tls (f # fs)))\<rparr>)
    \<and> released (rheap s) h' (queue_pbufs tls (f # fs)) \<and> (\<forall>x. x \<notin> fst ` set (f # fs) \<longrightarrow> hs x = helper s x)"
proof -
  let ?n = "of_nat (length (queue_pbufs tls (f # fs))) :: u16_t"
  have q: "heap_ok (rheap s)" "frag_seg s (ipr_p r) (f # fs) None" "distinct (map fst (f # fs))"
    using assms(2,4) by (simp_all add: frag_queue_def)
  have n: "length (queue_pbufs tls (f # fs)) \<le> 65535" "?n \<le> ip_reass_pbufcount s"
    using assms(8) unat_lt_16 [of "ip_reass_pbufcount s"] by (simp_all add: word_le_nat_alt unat_of_nat del: unat_lt_16 queue_pbufs_Cons)
  obtain c1 s1 r1 h' hs iprh where r: "get_helper s (ipr_p r) = Inr iprh"
    "(if frag_start iprh = 0 then reass_free_first e s i r (next_pbuf iprh) else Inr (0, s)) = Inr (c1, s1)" "ipr_at s1 i = Some r1"
    "reass_free_loop (fuel (rheap s1)) s1 (ipr_p r1) c1 = Inr (?n, s\<lparr>rheap := h', helper := hs, ipr_at := (ipr_at s)(i \<mapsto> r1)\<rparr>)"
    "released (rheap s) h' (queue_pbufs tls (f # fs))" "\<forall>x. x \<notin> fst ` set (f # fs) \<longrightarrow> hs x = helper s x"
    using release_all [OF assms(1) q(1) assms(3) q(2) assms(5,4) n(1) q(3)] by blast
  let ?t = "s\<lparr>rheap := h', helper := hs, ipr_at := (ipr_at s)(i \<mapsto> r1)\<rparr>"
  have "ip_reass_dequeue_datagram ?t i (pred_of us) = Inr (?t\<lparr>reassdatagrams := us @ vs, ipr_at := (ipr_at ?t)(i := None)\<rparr>)"
    using dequeue_pred(1) [of ?t us i vs] assms(6,7) by simp
  then have "ip_reass_free_complete_datagram e s i (pred_of us) = Inr (?n, s\<lparr>rheap := h', helper := hs, ipr_at := (ipr_at s)(i := None),
      reassdatagrams := us @ vs, ip_reass_pbufcount := ip_reass_pbufcount s - ?n\<rparr>)"
    using r(1-4) n(2) dequeue_pred(2,3) [OF assms(6,7)] assms(4)
    by (simp add: ip_reass_free_complete_datagram_def get_ipr_def del: queue_pbufs_Cons split del: if_split)
  then show ?thesis using r(5,6) by blast
qed

section \<open>All datagrams\<close>

text \<open>
  The whole module: every entry has a queue \<open>Q i\<close> that is not empty, the pbufs of all queues can be freed, and the counter is
  their number.
\<close>

definition held :: "(bytes \<Rightarrow> bool) \<Rightarrow> (nat \<Rightarrow> frag list) \<Rightarrow> (nat \<Rightarrow> nat list) \<Rightarrow> reass \<Rightarrow> bool" where
  "held P Q tls s \<longleftrightarrow> heap_ok (rheap s) \<and> distinct (reassdatagrams s)
     \<and> (\<forall>i\<in>set (reassdatagrams s). frag_queue s i (Q i) \<and> Q i \<noteq> [] \<and> (case ipr_at s i of None \<Rightarrow> False | Some r \<Rightarrow> length (iphdr r) = 20 \<and> P (iphdr r)))
     \<and> frags_held (rheap s) tls (concat (map Q (reassdatagrams s)))
     \<and> unat (ip_reass_pbufcount s) = length (queue_pbufs tls (concat (map Q (reassdatagrams s))))"

lemma queue_pbufs_append [simp]: "queue_pbufs tls (fs @ gs) = queue_pbufs tls fs @ queue_pbufs tls gs" "queue_pbufs tls [] = []"
  by (simp_all add: queue_pbufs_def)

lemma frags_held_append:
  "frags_held h tls (fs @ gs) \<longleftrightarrow> frags_held h tls fs \<and> frags_held h tls gs \<and> set (queue_pbufs tls fs) \<inter> set (queue_pbufs tls gs) = {}"
  by (auto simp: frags_held_def frags_freeable_def)

lemma head_in_pbufs: "f \<in> set fs \<Longrightarrow> fst f \<in> set (queue_pbufs tls fs)"
  by (auto simp: queue_pbufs_def frag_chain_def)

lemma free_complete_held:
  assumes "icmp_ok P e" and "held P Q tls s" and "reassdatagrams s = us @ i # vs"
  shows "\<exists>c s'. ip_reass_free_complete_datagram e s i (pred_of us) = Inr (c, s') \<and> held P Q tls s' \<and> reassdatagrams s' = us @ vs
    \<and> (\<forall>x\<in>set (queue_pbufs tls (Q i)). pbufs (rheap s') x = None)
    \<and> (\<forall>x<nextid (rheap s). pbufs (rheap s) x = None \<longrightarrow> pbufs (rheap s') x = None) \<and> nextid (rheap s) \<le> nextid (rheap s')"
proof -
  let ?h = "rheap s" and ?A = "concat (map Q us)" and ?B = "concat (map Q vs)"
  have inv: "heap_ok ?h" "distinct (us @ i # vs)" "frags_held ?h tls (?A @ Q i @ ?B)"
    "unat (ip_reass_pbufcount s) = length (queue_pbufs tls (?A @ Q i @ ?B))" using assms(2,3) by (simp_all add: held_def)
  have qi: "frag_queue s i (Q i)" "Q i \<noteq> []" using assms(2,3) by (auto simp: held_def)
  then obtain f fs r where f: "Q i = f # fs" "ipr_at s i = Some r" "length (iphdr r) = 20 \<and> P (iphdr r)"
    using assms(2,3) by (cases "Q i") (auto simp: held_def split: option.splits)
  have fh: "frags_held ?h tls (Q i)" "frags_held ?h tls (?A @ ?B)"
    "set (queue_pbufs tls (?A @ ?B)) \<inter> set (queue_pbufs tls (Q i)) = {}" using inv(3) by (auto simp: frags_held_append)
  obtain h' hs where fc: "ip_reass_free_complete_datagram e s i (pred_of us) = Inr (of_nat (length (queue_pbufs tls (Q i))),
        s\<lparr>rheap := h', helper := hs, ipr_at := (ipr_at s)(i := None), reassdatagrams := us @ vs,
          ip_reass_pbufcount := ip_reass_pbufcount s - of_nat (length (queue_pbufs tls (Q i)))\<rparr>)"
    "released ?h h' (queue_pbufs tls (Q i))" "\<forall>x. x \<notin> fst ` set (Q i) \<longrightarrow> hs x = helper s x"
  proof -
    have "distinct (reassdatagrams s)" "length (queue_pbufs tls (f # fs)) \<le> unat (ip_reass_pbufcount s)"
      using inv(2,4) assms(3) by (simp_all add: f(1))
    from free_complete_correct [OF assms(1) qi(1) [unfolded f(1)] fh(1) [unfolded f(1)] f(2,3) assms(3) this, folded f(1)]
    show ?thesis using that by blast
  qed
  define s' where "s' = s\<lparr>rheap := h', helper := hs, ipr_at := (ipr_at s)(i := None), reassdatagrams := us @ vs,
          ip_reass_pbufcount := ip_reass_pbufcount s - of_nat (length (queue_pbufs tls (Q i)))\<rparr>"
  have k: "keeps ?h h' (set (queue_pbufs tls (?A @ ?B)))"
  proof (rule keeps_mono)
    show "keeps ?h h' ({..<nextid ?h} - set (queue_pbufs tls (Q i)))" using fc(2) by (simp only: released_def)
    show "set (queue_pbufs tls (?A @ ?B)) \<subseteq> {..<nextid ?h} - set (queue_pbufs tls (Q i))"
      using frags_held_lt [OF inv(1) fh(2)] fh(3) unfolding lessThan_def by blast
  qed
  have seg: "frag_queue s' j (Q j)" if j: "j \<in> set (us @ vs)" for j
  proof -
    have "helper s' (fst g) = helper s (fst g) \<and> pbufs h' (fst g) = pbufs ?h (fst g)" if "g \<in> set (Q j)" for g
    proof -
      have in_q: "fst g \<in> set (queue_pbufs tls (?A @ ?B))" using that j by (intro head_in_pbufs) auto
      have "fst g \<notin> fst ` set (Q i)"
      proof
        assume "fst g \<in> fst ` set (Q i)"
        then obtain g' where "g' \<in> set (Q i)" "fst g = fst g'" by (rule imageE)
        then have "fst g \<in> set (queue_pbufs tls (Q i))" using head_in_pbufs [of g' "Q i" tls] by simp
        with in_q fh(3) show False by blast
      qed
      moreover have "pbufs h' (fst g) = pbufs ?h (fst g)" using in_q k unfolding keeps_def by blast
      ultimately show ?thesis using fc(3) by (simp add: s'_def)
    qed
    then have "frag_seg s' p (Q j) None = frag_seg s p (Q j) None" for p by (intro frag_seg_cong) (simp_all add: s'_def)
    moreover have "frag_queue s j (Q j)" "j \<noteq> i" using assms(2,3) j inv(2) by (auto simp: held_def)
    ultimately show ?thesis using fc(2) by (auto simp: frag_queue_def s'_def released_def split: option.splits)
  qed
  have "unat (ip_reass_pbufcount s') = length (queue_pbufs tls (?A @ ?B))"
    using inv(4) unat_lt_16 [of "ip_reass_pbufcount s"] by (simp add: s'_def unat_sub word_le_nat_alt unat_of_nat del: unat_lt_16)
  then have "held P Q tls s'"
    using fc(2) inv(2) seg assms(2,3) frags_held_keeps [OF fh(2) k] by (auto simp: held_def s'_def released_def)
  then show ?thesis using fc(1,2) by (auto simp: s'_def released_def keeps_def intro!: exI)
qed

lemma held_set_timer:
  assumes "held P Q tls s" and "ipr_at s i = Some r"
  shows "held P Q tls (set_ipr s i (r\<lparr>ipr_timer := n\<rparr>))"
proof -
  have "frag_queue (set_ipr s i (r\<lparr>ipr_timer := n\<rparr>)) j fs = frag_queue s j fs" for j fs
    using assms(2) by (intro frag_queue_cong) simp_all
  then show ?thesis using assms by (auto simp: held_def split: option.splits)
qed

text \<open>Objects that are gone stay gone.\<close>

definition gone :: "reass \<Rightarrow> reass \<Rightarrow> bool" where
  "gone s s' \<longleftrightarrow> nextid (rheap s) \<le> nextid (rheap s') \<and> (\<forall>x<nextid (rheap s). pbufs (rheap s) x = None \<longrightarrow> pbufs (rheap s') x = None)"

lemma gone_refl [simp]: "gone s s" and gone_trans: "gone s t \<Longrightarrow> gone t u \<Longrightarrow> gone s u"
  by (simp_all add: gone_def)

lemma held_entry:
  assumes "held P Q tls s" and "i \<in> set (reassdatagrams s)"
  obtains r where "ipr_at s i = Some r" and "\<And>x. x \<in> set (queue_pbufs tls (Q i)) \<Longrightarrow> x < nextid (rheap s)"
proof -
  obtain us vs where "reassdatagrams s = us @ i # vs" using split_list [OF assms(2)] by blast
  then have "heap_ok (rheap s)" "frags_held (rheap s) tls (Q i)" using assms(1) by (auto simp: held_def frags_held_append)
  then show ?thesis using that assms frags_held_lt [of "rheap s" tls "Q i"] by (auto simp: held_def split: option.splits)
qed

lemma reass_tmr_loop_held:
  assumes "icmp_ok P e" and "held P Q tls s" and "reassdatagrams s = us @ xs"
  shows "\<exists>s'. reass_tmr_loop e s (pred_of us) xs = Inr s' \<and> held P Q tls s' \<and> gone s s'
    \<and> (\<forall>i\<in>set xs. timer_at s i = Some 0 \<longrightarrow> (\<forall>x\<in>set (queue_pbufs tls (Q i)). pbufs (rheap s') x = None))"
  using assms(2,3)
proof (induction xs arbitrary: s us)
  case (Cons i xs)
  obtain r where r: "ipr_at s i = Some r" using Cons.prems by (auto elim: held_entry)
  have ti: "timer_at s i = Some (ipr_timer r)" using r by (simp add: timer_at_def)
  have ni: "i \<notin> set xs" using Cons.prems by (auto simp: held_def)
  show ?case
  proof (cases "ipr_timer r = 0")
    case False
    let ?s = "set_ipr s i (r\<lparr>ipr_timer := ipr_timer r - 1\<rparr>)"
    have "held P Q tls ?s" using held_set_timer [OF Cons.prems(1) r] .
    moreover have "reassdatagrams ?s = (us @ [i]) @ xs" using Cons.prems(2) by simp
    ultimately obtain s' where s': "reass_tmr_loop e ?s (pred_of (us @ [i])) xs = Inr s'" "held P Q tls s'" "gone ?s s'"
      "\<forall>j\<in>set xs. timer_at ?s j = Some 0 \<longrightarrow> (\<forall>x\<in>set (queue_pbufs tls (Q j)). pbufs (rheap s') x = None)"
      using Cons.IH by blast
    have "timer_at ?s j = timer_at s j" if "j \<in> set xs" for j using that ni by (auto simp: timer_set_ipr)
    then show ?thesis using s' r False ti by (intro exI [of _ s']) (auto simp: get_ipr_def pred_of_def word_neq_0_conv gone_def)
  next
    case True
    obtain c s1 where s1: "ip_reass_free_complete_datagram e s i (pred_of us) = Inr (c, s1)" "held P Q tls s1" "reassdatagrams s1 = us @ xs"
      "\<forall>x\<in>set (queue_pbufs tls (Q i)). pbufs (rheap s1) x = None" "gone s s1"
      using free_complete_held [OF assms(1) Cons.prems] unfolding gone_def by blast
    obtain s' where s': "reass_tmr_loop e s1 (pred_of us) xs = Inr s'" "held P Q tls s'" "gone s1 s'"
      "\<forall>j\<in>set xs. timer_at s1 j = Some 0 \<longrightarrow> (\<forall>x\<in>set (queue_pbufs tls (Q j)). pbufs (rheap s') x = None)"
      using Cons.IH [OF s1(2,3)] by blast
    have t1: "timer_at s1 j = timer_at s j" if "j \<in> set xs" for j
      using free_complete_list [OF s1(1)] Cons.prems(1) that ni by (auto simp: held_def)
    have "pbufs (rheap s') x = None" if "x \<in> set (queue_pbufs tls (Q i))" for x
    proof -
      have "x < nextid (rheap s)" using Cons.prems that by (auto elim: held_entry)
      then show ?thesis using s1(4,5) s'(3) that by (auto simp: gone_def)
    qed
    then show ?thesis using s1(1,5) s' t1 r True gone_trans by (intro exI [of _ s']) (auto simp: get_ipr_def)
  qed
qed (simp add: held_def)

text \<open>A tick: it returns, keeps the module in shape, and frees the pbufs of every entry whose time is over.\<close>

lemma ip_reass_tmr_held:
  assumes "icmp_ok P e" and "held P Q tls s"
  shows "\<exists>s'. ip_reass_tmr e s = Inr s' \<and> held P Q tls s' \<and> gone s s'
    \<and> reassdatagrams s' = filter (\<lambda>i. timer_at s i \<noteq> Some 0) (reassdatagrams s)
    \<and> (\<forall>i\<in>set (reassdatagrams s). timer_at s' i = tick (timer_at s i)
        \<and> (timer_at s i = Some 0 \<longrightarrow> (\<forall>x\<in>set (queue_pbufs tls (Q i)). pbufs (rheap s') x = None)))"
proof -
  obtain s' where s': "ip_reass_tmr e s = Inr s'" "held P Q tls s'" "gone s s'"
    "\<forall>i\<in>set (reassdatagrams s). timer_at s i = Some 0 \<longrightarrow> (\<forall>x\<in>set (queue_pbufs tls (Q i)). pbufs (rheap s') x = None)"
    using reass_tmr_loop_held [OF assms, of "[]"] by (auto simp: ip_reass_tmr_def pred_of_def)
  have "distinct (reassdatagrams s)" using assms(2) by (simp add: held_def)
  note l = ip_reass_tmr_list [OF s'(1) this]
  show ?thesis using s' l(1,4) by blast
qed

fun reass_ticks :: "reass_env \<Rightarrow> nat \<Rightarrow> reass \<Rightarrow> reass outcome" where
  "reass_ticks e 0 s = Inr s"
| "reass_ticks e (Suc n) s = bnd (ip_reass_tmr e s) (reass_ticks e n)"

lemma reass_ticks_held:
  assumes "icmp_ok P e" and "held P Q tls s" and "\<forall>i\<in>set (reassdatagrams s). \<exists>k. timer_at s i = Some k \<and> unat k < n"
  shows "\<exists>s'. reass_ticks e n s = Inr s' \<and> held P Q tls s' \<and> gone s s' \<and> reassdatagrams s' = []
    \<and> (\<forall>i\<in>set (reassdatagrams s). \<forall>x\<in>set (queue_pbufs tls (Q i)). pbufs (rheap s') x = None)"
  using assms(2,3)
proof (induction n arbitrary: s)
  case 0
  then have "reassdatagrams s = []" by (cases "reassdatagrams s") auto
  then show ?case using 0 by simp
next
  case (Suc n)
  obtain s1 where s1: "ip_reass_tmr e s = Inr s1" "held P Q tls s1" "gone s s1"
    "reassdatagrams s1 = filter (\<lambda>i. timer_at s i \<noteq> Some 0) (reassdatagrams s)"
    "\<forall>i\<in>set (reassdatagrams s). timer_at s1 i = tick (timer_at s i)
        \<and> (timer_at s i = Some 0 \<longrightarrow> (\<forall>x\<in>set (queue_pbufs tls (Q i)). pbufs (rheap s1) x = None))"
    using ip_reass_tmr_held [OF assms(1) Suc.prems(1)] by blast
  have "\<exists>k. timer_at s1 i = Some k \<and> unat k < n" if i: "i \<in> set (reassdatagrams s1)" for i
  proof -
    obtain k where k: "timer_at s i = Some k" "k \<noteq> 0" "unat k < Suc n" using i s1(4) Suc.prems(2) by auto
    then have "timer_at s1 i = Some (k - 1)" using s1(4,5) i by (auto simp: tick_def)
    moreover have "unat (k - 1) < n" using k(2,3) unat_eq_zero [of k] by (simp add: unat_minus_one)
    ultimately show ?thesis by blast
  qed
  then obtain s' where s': "reass_ticks e n s1 = Inr s'" "held P Q tls s'" "gone s1 s'" "reassdatagrams s' = []"
    "\<forall>i\<in>set (reassdatagrams s1). \<forall>x\<in>set (queue_pbufs tls (Q i)). pbufs (rheap s') x = None" using Suc.IH [OF s1(2)] by blast
  have "pbufs (rheap s') x = None" if i: "i \<in> set (reassdatagrams s)" and x: "x \<in> set (queue_pbufs tls (Q i))" for i x
  proof (cases "timer_at s i = Some 0")
    case True
    have "x < nextid (rheap s)" using Suc.prems(1) i x by (auto elim: held_entry)
    then have "x < nextid (rheap s1)" "pbufs (rheap s1) x = None" using s1(3,5) i x True by (auto simp: gone_def)
    then show ?thesis using s'(3) by (auto simp: gone_def)
  next
    case False
    then show ?thesis using s'(5) s1(4) i x by auto
  qed
  then show ?case using s1(1,3) s' gone_trans by (intro exI [of _ s']) auto
qed

text \<open>The environment the module runs in: its messages are sent by \<^verbatim>\<open>icmp_time_exceeded\<close>.\<close>

definition lwip_env :: "(ptr \<Rightarrow> bool) \<Rightarrow> netif list \<Rightarrow> reass_env" where
  "lwip_env od netifs = \<lparr>time_exceeded = \<lambda>h p. icmp_time_exceeded od netifs h p ICMP_TE_FRAG, hdr_odd = od\<rparr>"

lemma lwip_env_ok:
  assumes "n_mtu nif = 0 \<or> 56 \<le> unat (n_mtu nif)"
  shows "icmp_ok (\<lambda>hdr. hdr_src hdr \<noteq> n_ip_addr nif) (lwip_env od (nif # ns))"
proof -
  have "\<exists>h'. icmp_send_response od (nif # ns) h (Some a) 11 1 = Inr h' \<and> heap_ok h' \<and> nextid h' = Suc (nextid h)
      \<and> pbufs h' = pbufs h \<and> mem h' = mem h"
    if "heap_ok h" "chain_ok h (Some a) (a # qs)" "28 \<le> unat (p_len (pb h a))"
      "hdr_src (take 20 (chain_data h (a # qs))) \<noteq> n_ip_addr nif" for h a qs
  proof -
    have "hdr_src (chain_data h (a # qs)) \<noteq> n_ip_addr nif"
      using that(4) length_seg [of h a] that(2,3) by (auto simp: hdr_src_def nth_append chain_ok_Cons)
    from icmp_error_result [OF that(1-3) this assms refl refl] show ?thesis by blast
  qed
  then show ?thesis by (fastforce simp: icmp_ok_def lwip_env_def icmp_time_exceeded_def)
qed

text \<open>
  C14: No fragment is kept forever. If nothing more arrives, then after \<^verbatim>\<open>IP_REASS_MAXAGE\<close> and one more ticks of the timer the
  list of datagrams is empty, the counter is zero and every pbuf that was queued has been freed. On the way no assertion fails
  and no freed memory is used, also where \<^verbatim>\<open>icmp_time_exceeded\<close> is called for a first fragment and sends its message or runs
  out of memory.
\<close>

theorem reass_times_out:
  assumes "n_mtu nif = 0 \<or> 56 \<le> unat (n_mtu nif)" and "held (\<lambda>hdr. hdr_src hdr \<noteq> n_ip_addr nif) Q tls s"
    and "\<forall>i\<in>set (reassdatagrams s). \<exists>r. ipr_at s i = Some r \<and> ipr_timer r \<le> 15"
  shows "\<exists>s'. reass_ticks (lwip_env od (nif # ns)) 16 s = Inr s' \<and> reassdatagrams s' = [] \<and> ip_reass_pbufcount s' = 0
    \<and> (\<forall>i\<in>set (reassdatagrams s). \<forall>x\<in>set (queue_pbufs tls (Q i)). pbufs (rheap s') x = None)"
proof -
  let ?e = "lwip_env od (nif # ns)" and ?P = "\<lambda>hdr. hdr_src hdr \<noteq> n_ip_addr nif"
  have "\<exists>k. timer_at s i = Some k \<and> unat k < 16" if "i \<in> set (reassdatagrams s)" for i
    using assms(3) that by (fastforce simp: timer_at_def word_le_nat_alt)
  then obtain s' where s': "reass_ticks ?e 16 s = Inr s'" "held ?P Q tls s'" "reassdatagrams s' = []"
    "\<forall>i\<in>set (reassdatagrams s). \<forall>x\<in>set (queue_pbufs tls (Q i)). pbufs (rheap s') x = None"
    using reass_ticks_held [OF lwip_env_ok [OF assms(1)] assms(2), of 16] by blast
  have "ip_reass_pbufcount s' = 0" using s'(2,3) by (simp add: held_def unat_eq_zero)
  then show ?thesis using s' by blast
qed

lemma sample_held: "held (\<lambda>hdr. hdr_src hdr \<noteq> n_ip_addr sample_out_netif) (\<lambda>_. [(0, 0, 8)]) (\<lambda>_. []) sample_reass"
proof -
  have "heap_ok (rheap sample_reass)" using sample_frag_queue by (simp add: frag_queue_def)
  moreover have "frags_held sample_frags (\<lambda>_. []) [(0, 0, 8)]"
    by (simp add: frags_held_def frags_freeable_def frag_held_def frag_chain_def chain_ok_Cons payload_ok_def freeable_def once_def block_def
        pbuf_get_allocsrc_def sample_frags_def sample_frag_hdr_def)
  moreover have "hdr_src (sample_frag_hdr 0x20 0) \<noteq> n_ip_addr sample_out_netif"
    by (simp add: hdr_src_def sample_frag_hdr_def sample_out_netif_def le32_def) 
  ultimately show ?thesis using sample_frag_queue by (simp add: held_def sample_reass_def frag_chain_def sample_frag_hdr_def)
qed

theorem reass_times_out_witness:
  "\<exists>s'. reass_ticks (lwip_env (\<lambda>_. False) [sample_out_netif]) 16 sample_reass = Inr s' \<and> reassdatagrams s' = []
    \<and> ip_reass_pbufcount s' = 0 \<and> pbufs (rheap s') 0 = None"
  using reass_times_out [OF _ sample_held, of "\<lambda>_. False" "[]"] by (auto simp: sample_reass_def frag_chain_def sample_out_netif_def)

end
