(* ===== verification/Tcp_Pcb.thy ===== *)
theory Tcp_Pcb
  imports Raw_C Timeouts_C
begin

text \<open>
  TCP, first part: the data of \<^verbatim>\<open>lwip/tcp.h\<close> and \<^verbatim>\<open>lwip/priv/tcp_priv.h\<close>, comparison of sequence numbers, and the functions of
  \<^verbatim>\<open>core/tcp.c\<close> that create, bind and configure pcbs. The configuration has no timestamps, window scaling, SACK, backlog, \<^verbatim>\<open>SO_REUSE\<close>
  or keepalive settings; \<^verbatim>\<open>LWIP_DEBUG\<close> is defined, so the extra checks of \<^verbatim>\<open>TCP_OVERSIZE_DBGCHECK\<close> are compiled.
\<close>

section \<open>Sequence numbers\<close>

definition TCP_SEQ_LT :: "u32_t \<Rightarrow> u32_t \<Rightarrow> bool" where
  "TCP_SEQ_LT a b \<longleftrightarrow> sint (a - b) < 0"

definition TCP_SEQ_LEQ :: "u32_t \<Rightarrow> u32_t \<Rightarrow> bool" where
  "TCP_SEQ_LEQ a b \<longleftrightarrow> sint (a - b) \<le> 0"

definition TCP_SEQ_GT :: "u32_t \<Rightarrow> u32_t \<Rightarrow> bool" where
  "TCP_SEQ_GT a b \<longleftrightarrow> sint (a - b) > 0"

definition TCP_SEQ_GEQ :: "u32_t \<Rightarrow> u32_t \<Rightarrow> bool" where
  "TCP_SEQ_GEQ a b \<longleftrightarrow> sint (a - b) \<ge> 0"

definition TCP_SEQ_BETWEEN :: "u32_t \<Rightarrow> u32_t \<Rightarrow> u32_t \<Rightarrow> bool" where
  "TCP_SEQ_BETWEEN a b c \<longleftrightarrow> TCP_SEQ_GEQ a b \<and> TCP_SEQ_LEQ a c"

section \<open>Data\<close>

datatype tcp_state =
  CLOSED | LISTEN | SYN_SENT | SYN_RCVD | ESTABLISHED | FIN_WAIT_1 | FIN_WAIT_2 | CLOSE_WAIT | CLOSING | LAST_ACK | TIME_WAIT

fun state_num :: "tcp_state \<Rightarrow> nat" where
  "state_num CLOSED = 0" | "state_num LISTEN = 1" | "state_num SYN_SENT = 2" | "state_num SYN_RCVD = 3"
| "state_num ESTABLISHED = 4" | "state_num FIN_WAIT_1 = 5" | "state_num FIN_WAIT_2 = 6" | "state_num CLOSE_WAIT = 7"
| "state_num CLOSING = 8" | "state_num LAST_ACK = 9" | "state_num TIME_WAIT = 10"

lemma state_num_inject: "state_num s = state_num t \<longleftrightarrow> s = t"
  by (cases s; cases t) simp_all

text \<open>The code compares states as numbers.\<close>

instantiation tcp_state :: linorder
begin

definition less_eq_tcp_state :: "tcp_state \<Rightarrow> tcp_state \<Rightarrow> bool" where
  "s \<le> t \<longleftrightarrow> state_num s \<le> state_num t"

definition less_tcp_state :: "tcp_state \<Rightarrow> tcp_state \<Rightarrow> bool" where
  "s < t \<longleftrightarrow> state_num s < state_num t"

instance
  by standard (auto simp: less_eq_tcp_state_def less_tcp_state_def state_num_inject)

end

text \<open>A segment on a queue; the queue is the list of its segments.\<close>

record tcp_seg =
  seg_p :: pptr
  seg_len :: u16_t
  oversize_left :: u16_t
  seg_chksum :: u16_t
  chksum_swapped :: bool
  seg_flags :: u8_t
  tcphdr :: ptr

text \<open>Callbacks: the two functions the stack installs itself, or the name of a function of the application.\<close>

datatype tcp_recv_fn = Tcp_recv_null | App_recv nat

datatype tcp_accept_fn = Tcp_accept_null | App_accept nat

record tcp_pcb_listen =
  l_local_ip :: ip_addr_t
  l_remote_type :: u8_t
  l_netif_idx :: u8_t
  l_so_options :: u8_t
  l_tos :: u8_t
  l_ttl :: u8_t
  l_callback_arg :: nat
  l_state :: tcp_state
  l_prio :: u8_t
  l_local_port :: u16_t
  l_accept :: "tcp_accept_fn option"

text \<open>The signed 16 bit fields (\<open>rtime\<close>, \<open>sa\<close>, \<open>sv\<close>, \<open>rto\<close>) are words that are read with \<open>sint\<close>.\<close>

type_synonym s16_t = "16 word"

record tcp_pcb =
  t_local_ip :: ip_addr_t
  t_remote_ip :: ip_addr_t
  t_netif_idx :: u8_t
  t_so_options :: u8_t
  t_tos :: u8_t
  t_ttl :: u8_t
  t_callback_arg :: nat
  t_state :: tcp_state
  t_prio :: u8_t
  t_local_port :: u16_t
  t_remote_port :: u16_t
  t_flags :: u16_t
  polltmr :: u8_t
  pollinterval :: u8_t
  last_timer :: u8_t
  tmr :: u32_t
  rcv_nxt :: u32_t
  rcv_wnd :: u16_t
  rcv_ann_wnd :: u16_t
  rcv_ann_right_edge :: u32_t
  rtime :: s16_t
  mss :: u16_t
  rttest :: u32_t
  rtseq :: u32_t
  sa :: s16_t
  sv :: s16_t
  rto :: s16_t
  nrtx :: u8_t
  dupacks :: u8_t
  lastack :: u32_t
  cwnd :: u16_t
  ssthresh :: u16_t
  rto_end :: u32_t
  snd_nxt :: u32_t
  snd_wl1 :: u32_t
  snd_wl2 :: u32_t
  snd_lbb :: u32_t
  snd_wnd :: u16_t
  snd_wnd_max :: u16_t
  snd_buf :: u16_t
  snd_queuelen :: u16_t
  unsent_oversize :: u16_t
  bytes_acked :: u16_t
  unsent :: "tcp_seg list"
  unacked :: "tcp_seg list"
  ooseq :: "tcp_seg list"
  refused_data :: pptr
  listener :: "nat option"
  t_sent :: "nat option"
  t_recv :: "tcp_recv_fn option"
  t_connected :: "nat option"
  t_poll :: "nat option"
  t_errf :: "nat option"
  keep_idle :: u32_t
  persist_cnt :: u8_t
  persist_backoff :: u8_t
  persist_probe :: u8_t
  keep_cnt_sent :: u8_t


abbreviation (input) TF_ACK_DELAY :: u16_t where "TF_ACK_DELAY \<equiv> 0x01"
abbreviation (input) TF_ACK_NOW :: u16_t where "TF_ACK_NOW \<equiv> 0x02"
abbreviation (input) TF_INFR :: u16_t where "TF_INFR \<equiv> 0x04"
abbreviation (input) TF_CLOSEPEND :: u16_t where "TF_CLOSEPEND \<equiv> 0x08"
abbreviation (input) TF_RXCLOSED :: u16_t where "TF_RXCLOSED \<equiv> 0x10"
abbreviation (input) TF_FIN :: u16_t where "TF_FIN \<equiv> 0x20"
abbreviation (input) TF_NODELAY :: u16_t where "TF_NODELAY \<equiv> 0x40"
abbreviation (input) TF_NAGLEMEMERR :: u16_t where "TF_NAGLEMEMERR \<equiv> 0x80"
abbreviation (input) TF_RTO :: u16_t where "TF_RTO \<equiv> 0x0800"

abbreviation (input) TCP_WND :: u16_t where "TCP_WND \<equiv> 0x8000"
abbreviation (input) TCP_SND_BUF :: u16_t where "TCP_SND_BUF \<equiv> 0x8000"
abbreviation (input) TCP_MSS :: u16_t where "TCP_MSS \<equiv> 1460"
abbreviation (input) INITIAL_MSS :: u16_t where "INITIAL_MSS \<equiv> 536"
abbreviation (input) TCP_SND_QUEUELEN :: u16_t where "TCP_SND_QUEUELEN \<equiv> 90"
abbreviation (input) TCP_WND_UPDATE_THRESHOLD :: u32_t where "TCP_WND_UPDATE_THRESHOLD \<equiv> 5840"
abbreviation (input) TCP_TTL :: u8_t where "TCP_TTL \<equiv> 64"
abbreviation (input) TCP_HLEN :: nat where "TCP_HLEN \<equiv> 20"
abbreviation (input) TCP_PRIO_NORMAL :: u8_t where "TCP_PRIO_NORMAL \<equiv> 64"
abbreviation (input) TCP_PRIO_MAX :: u8_t where "TCP_PRIO_MAX \<equiv> 127"
abbreviation (input) TCP_SLOW_INTERVAL :: u32_t where "TCP_SLOW_INTERVAL \<equiv> 500"
abbreviation (input) TCP_LOCAL_PORT_RANGE_START :: u16_t where "TCP_LOCAL_PORT_RANGE_START \<equiv> 0xc000"
abbreviation (input) TCP_LOCAL_PORT_RANGE_END :: u16_t where "TCP_LOCAL_PORT_RANGE_END \<equiv> 0xffff"

text \<open>The variables of \<^verbatim>\<open>tcp_in.c\<close>, valid while a segment is processed; \<open>i_tcphdr\<close> is \<^verbatim>\<open>tcphdr\<close>, \<open>i_flags\<close> is \<^verbatim>\<open>flags\<close>.\<close>

record tcp_in =
  inseg :: tcp_seg
  i_tcphdr :: ptr
  tcphdr_optlen :: u16_t
  tcphdr_opt1len :: u16_t
  tcphdr_opt2 :: ptr
  seqno :: u32_t
  ackno :: u32_t
  recv_acked :: u16_t
  tcplen :: u16_t
  i_flags :: u8_t
  recv_flags :: u8_t
  recv_data :: pptr

record tcp_globals =
  theap :: heap
  t_netifs :: "netif list"
  t_timers :: "unit timers"
  tcp_at :: "nat \<Rightarrow> tcp_pcb option"
  lpcb_at :: "nat \<Rightarrow> tcp_pcb_listen option"
  tcp_listen_pcbs :: "nat list"
  tcp_bound_pcbs :: "nat list"
  tcp_active_pcbs :: "nat list"
  tcp_tw_pcbs :: "nat list"
  next_tcp :: nat
  tcp_oom :: "nat \<Rightarrow> bool"
  tcp_port :: u16_t
  tcp_ticks :: u32_t
  tcp_timer :: u8_t
  tcp_timer_ctr :: u8_t
  tcp_active_pcbs_changed :: bool
  tcp_iss :: u32_t
  tcp_input_pcb :: "nat option"
  t_in :: tcp_in

text \<open>
  What TCP calls outside of the development: which addresses are odd, the functions of IPv6, and the callbacks of the
  application, by their names. The reachability hint that TCP gives to neighbour discovery changes nothing here.
\<close>

record tcp_env =
  t_odd :: "ptr \<Rightarrow> bool"
  t_route6 :: "ip_addr_t \<Rightarrow> ip_addr_t \<Rightarrow> netif option"
  t_local_ip6 :: "netif \<Rightarrow> ip_addr_t \<Rightarrow> ip_addr_t option"
  t_output6 :: "heap \<Rightarrow> pptr \<Rightarrow> ip_addr_t \<Rightarrow> ip_addr_t \<Rightarrow> u8_t \<Rightarrow> u8_t \<Rightarrow> u8_t \<Rightarrow> netif \<Rightarrow> (err_t \<times> heap) outcome"
  t_mtu6 :: "ip_addr_t \<Rightarrow> netif option \<Rightarrow> u16_t"
  app_accept :: "nat \<Rightarrow> nat \<Rightarrow> nat option \<Rightarrow> err_t \<Rightarrow> tcp_globals \<Rightarrow> (err_t \<times> tcp_globals) outcome"
  app_recv :: "nat \<Rightarrow> nat \<Rightarrow> nat \<Rightarrow> pptr \<Rightarrow> err_t \<Rightarrow> tcp_globals \<Rightarrow> (err_t \<times> tcp_globals) outcome"
  app_sent :: "nat \<Rightarrow> nat \<Rightarrow> nat \<Rightarrow> u16_t \<Rightarrow> tcp_globals \<Rightarrow> (err_t \<times> tcp_globals) outcome"
  app_connected :: "nat \<Rightarrow> nat \<Rightarrow> nat \<Rightarrow> err_t \<Rightarrow> tcp_globals \<Rightarrow> (err_t \<times> tcp_globals) outcome"
  app_poll :: "nat \<Rightarrow> nat \<Rightarrow> nat \<Rightarrow> tcp_globals \<Rightarrow> (err_t \<times> tcp_globals) outcome"
  app_err :: "nat \<Rightarrow> nat \<Rightarrow> err_t \<Rightarrow> tcp_globals \<Rightarrow> tcp_globals outcome"

definition get_tcp :: "tcp_globals \<Rightarrow> nat \<Rightarrow> tcp_pcb outcome" where
  "get_tcp s i = (case tcp_at s i of None \<Rightarrow> Inl Fault | Some c \<Rightarrow> Inr c)"

definition set_tcp :: "tcp_globals \<Rightarrow> nat \<Rightarrow> tcp_pcb \<Rightarrow> tcp_globals" where
  "set_tcp s i c = s\<lparr>tcp_at := (tcp_at s)(i \<mapsto> c)\<rparr>"

definition get_lpcb :: "tcp_globals \<Rightarrow> nat \<Rightarrow> tcp_pcb_listen outcome" where
  "get_lpcb s i = (case lpcb_at s i of None \<Rightarrow> Inl Fault | Some l \<Rightarrow> Inr l)"

definition set_lpcb :: "tcp_globals \<Rightarrow> nat \<Rightarrow> tcp_pcb_listen \<Rightarrow> tcp_globals" where
  "set_lpcb s i l = s\<lparr>lpcb_at := (lpcb_at s)(i \<mapsto> l)\<rparr>"

text \<open>The fields that both kinds of pcb start with.\<close>

definition pcb_state :: "tcp_globals \<Rightarrow> nat \<Rightarrow> tcp_state outcome" where
  "pcb_state s i = (case tcp_at s i of Some c \<Rightarrow> Inr (t_state c)
     | None \<Rightarrow> (case lpcb_at s i of Some l \<Rightarrow> Inr (l_state l) | None \<Rightarrow> Inl Fault))"

definition pcb_local :: "tcp_globals \<Rightarrow> nat \<Rightarrow> ip_addr_t \<times> u16_t" where
  "pcb_local s i = (case tcp_at s i of Some c \<Rightarrow> (t_local_ip c, t_local_port c)
     | None \<Rightarrow> (l_local_ip (the (lpcb_at s i)), l_local_port (the (lpcb_at s i))))"

definition tcp_set_flags :: "tcp_pcb \<Rightarrow> u16_t \<Rightarrow> tcp_pcb" where
  "tcp_set_flags c f = c\<lparr>t_flags := t_flags c OR f\<rparr>"

definition tcp_clear_flags :: "tcp_pcb \<Rightarrow> u16_t \<Rightarrow> tcp_pcb" where
  "tcp_clear_flags c f = c\<lparr>t_flags := t_flags c AND NOT f\<rparr>"

definition tcp_ack_now :: "tcp_pcb \<Rightarrow> tcp_pcb" where
  "tcp_ack_now c = tcp_set_flags c TF_ACK_NOW"

definition tcp_ack :: "tcp_pcb \<Rightarrow> tcp_pcb" where
  "tcp_ack c = (if t_flags c AND TF_ACK_DELAY \<noteq> 0 then tcp_ack_now (tcp_clear_flags c TF_ACK_DELAY) else tcp_set_flags c TF_ACK_DELAY)"

section \<open>Lists of pcbs\<close>

text \<open>\<^verbatim>\<open>tcp_timer_needed\<close> as the module \<^verbatim>\<open>timeouts.c\<close> sees it.\<close>

definition tcp_timers_env :: "tcp_globals \<Rightarrow> unit env" where
  "tcp_timers_env s = \<lparr>cyclic_handler = \<lambda>_ w. w, tcp_pcbs = \<lambda>_. tcp_active_pcbs s \<noteq> [] \<or> tcp_tw_pcbs s \<noteq> [],
     check_free_ooseq = \<lambda>w. w, app = \<lambda>_ _ w. w\<rparr>"

definition need_timer :: "tcp_globals \<Rightarrow> tcp_globals outcome" where
  "need_timer s = bnd (tcp_timer_needed (tcp_timers_env s) (t_timers s)) (\<lambda>t. Inr (s\<lparr>t_timers := t\<rparr>))"

text \<open>The four lists; \<^verbatim>\<open>TCP_RMV\<close> is a loop that unlinks the pcb where it stands first.\<close>

datatype tcp_list = L_listen | L_bound | L_active | L_tw

fun pcb_list :: "tcp_list \<Rightarrow> tcp_globals \<Rightarrow> nat list" where
  "pcb_list L_listen s = tcp_listen_pcbs s"
| "pcb_list L_bound s = tcp_bound_pcbs s"
| "pcb_list L_active s = tcp_active_pcbs s"
| "pcb_list L_tw s = tcp_tw_pcbs s"

fun set_pcb_list :: "tcp_list \<Rightarrow> nat list \<Rightarrow> tcp_globals \<Rightarrow> tcp_globals" where
  "set_pcb_list L_listen xs s = s\<lparr>tcp_listen_pcbs := xs\<rparr>"
| "set_pcb_list L_bound xs s = s\<lparr>tcp_bound_pcbs := xs\<rparr>"
| "set_pcb_list L_active xs s = s\<lparr>tcp_active_pcbs := xs\<rparr>"
| "set_pcb_list L_tw xs s = s\<lparr>tcp_tw_pcbs := xs\<rparr>"

text \<open>
  \<^verbatim>\<open>TCP_REG\<close> overwrites the link of the pcb. For a pcb that is on the list already this closes a ring, and what stood behind the pcb is
  lost; there is no such list in the model, and the failure \<open>Diverge\<close> stands for the loops over the ring.
\<close>

definition TCP_REG :: "tcp_list \<Rightarrow> tcp_globals \<Rightarrow> nat \<Rightarrow> tcp_globals outcome" where
  "TCP_REG l s i = (if i \<in> set (pcb_list l s) then Inl Diverge else need_timer (set_pcb_list l (i # pcb_list l s) s))"

definition TCP_RMV :: "tcp_list \<Rightarrow> tcp_globals \<Rightarrow> nat \<Rightarrow> tcp_globals" where
  "TCP_RMV l s i = set_pcb_list l (remove1 i (pcb_list l s)) s"

definition TCP_REG_ACTIVE :: "tcp_globals \<Rightarrow> nat \<Rightarrow> tcp_globals outcome" where
  "TCP_REG_ACTIVE s i = bnd (TCP_REG L_active s i) (\<lambda>s. Inr (s\<lparr>tcp_active_pcbs_changed := True\<rparr>))"

definition TCP_RMV_ACTIVE :: "tcp_globals \<Rightarrow> nat \<Rightarrow> tcp_globals" where
  "TCP_RMV_ACTIVE s i = (TCP_RMV L_active s i)\<lparr>tcp_active_pcbs_changed := True\<rparr>"

definition tcp_pcb_lists :: "tcp_globals \<Rightarrow> nat list list" where
  "tcp_pcb_lists s = map (\<lambda>l. pcb_list l s) [L_listen, L_bound, L_active, L_tw]"

definition tcp_pcbs_sane :: "tcp_globals \<Rightarrow> bool" where
  "tcp_pcbs_sane s \<longleftrightarrow>
     list_all (\<lambda>i. case tcp_at s i of None \<Rightarrow> False | Some c \<Rightarrow> t_state c \<notin> {CLOSED, LISTEN, TIME_WAIT}) (tcp_active_pcbs s)
   \<and> list_all (\<lambda>i. case tcp_at s i of None \<Rightarrow> False | Some c \<Rightarrow> t_state c = TIME_WAIT) (tcp_tw_pcbs s)"

section \<open>Ports and binding\<close>

definition tcp_port_used :: "tcp_globals \<Rightarrow> u16_t \<Rightarrow> bool" where
  "tcp_port_used s port = list_ex (list_ex (\<lambda>i. snd (pcb_local s i) = port)) (tcp_pcb_lists s)"

definition tcp_next_port :: "u16_t \<Rightarrow> u16_t" where
  "tcp_next_port port = (if port + 1 = TCP_LOCAL_PORT_RANGE_END then TCP_LOCAL_PORT_RANGE_START else port + 1)"

text \<open>The loop at \<^verbatim>\<open>again\<close>; the result 0 stands for no port.\<close>

function tcp_new_port_loop :: "tcp_globals \<Rightarrow> nat \<Rightarrow> u16_t \<times> tcp_globals" where
  "tcp_new_port_loop s n =
     (let s = s\<lparr>tcp_port := tcp_next_port (tcp_port s)\<rparr>
      in if tcp_port_used s (tcp_port s) then
           if n + 1 > unat (TCP_LOCAL_PORT_RANGE_END - TCP_LOCAL_PORT_RANGE_START) then (0, s)
           else tcp_new_port_loop s (n + 1)
         else (tcp_port s, s))"
  by auto
termination by (relation "measure (\<lambda>(s, n). 0x4000 - n)") auto

declare tcp_new_port_loop.simps [simp del]

definition tcp_new_port :: "tcp_globals \<Rightarrow> u16_t \<times> tcp_globals" where
  "tcp_new_port s = tcp_new_port_loop s 0"

definition tcp_bind_conflict :: "tcp_globals \<Rightarrow> ip_addr_t \<Rightarrow> u16_t \<Rightarrow> nat \<Rightarrow> bool" where
  "tcp_bind_conflict s ipaddr port j \<longleftrightarrow> (case pcb_local s j of (ip, p) \<Rightarrow>
     p = port \<and> IP_IS_V6 ipaddr = IP_IS_V6 ip \<and> (ip_addr_isany ip \<or> ip_addr_isany ipaddr \<or> ip_addr_cmp ip ipaddr))"

definition tcp_bind :: "tcp_env \<Rightarrow> tcp_globals \<Rightarrow> nat option \<Rightarrow> ip_addr_t option \<Rightarrow> u16_t \<Rightarrow> (err_t \<times> tcp_globals) outcome" where
  "tcp_bind e s pcb ipaddr port =
     (let ipaddr = (case ipaddr of None \<Rightarrow> IP4_ADDR_ANY | Some a \<Rightarrow> a)
      in case pcb of None \<Rightarrow> Inl Abort
      | Some i \<Rightarrow>
          bnd (pcb_state s i) (\<lambda>st. lwip_assert (st = CLOSED) (
          let ipaddr = (if IP_IS_V6 ipaddr \<and> ip6_addr_lacks_zone ipaddr
                then ip6_addr_select_zone (t_route6 e) (ip_addr_set ipaddr) (ip_addr_set ipaddr) else ipaddr);
              (port', s) = (if port = 0 then tcp_new_port s else (port, s))
          in if port = 0 \<and> port' = 0 then Inr (ERR_BUF, s)
             else if port \<noteq> 0 \<and> list_ex (list_ex (tcp_bind_conflict s ipaddr port)) (tcp_pcb_lists s) then Inr (ERR_USE, s)
             else bnd (get_tcp s i) (\<lambda>c.
               let ip = (if \<not> ip_addr_isany ipaddr \<or> ip_type ipaddr \<noteq> ip_type (t_local_ip c) then ip_addr_set ipaddr else t_local_ip c);
                   s = set_tcp s i (c\<lparr>t_local_ip := ip, t_local_port := port'\<rparr>)
               in bnd (TCP_REG L_bound s i) (\<lambda>s. Inr (ERR_OK, s))))))"

definition tcp_bind_netif :: "tcp_globals \<Rightarrow> nat \<Rightarrow> netif option \<Rightarrow> tcp_globals outcome" where
  "tcp_bind_netif s i nif =
     (let idx = (case nif of Some n \<Rightarrow> netif_get_index n | None \<Rightarrow> NETIF_NO_INDEX)
      in case tcp_at s i of Some c \<Rightarrow> Inr (set_tcp s i (c\<lparr>t_netif_idx := idx\<rparr>))
         | None \<Rightarrow> bnd (get_lpcb s i) (\<lambda>l. Inr (set_lpcb s i (l\<lparr>l_netif_idx := idx\<rparr>))))"


section \<open>Creating and configuring pcbs\<close>

definition tcp_init :: "u32_t option \<Rightarrow> tcp_globals \<Rightarrow> tcp_globals" where
  "tcp_init rand s = (case rand of None \<Rightarrow> s
     | Some r \<Rightarrow> s\<lparr>tcp_port := (ucast (r AND ucast (NOT TCP_LOCAL_PORT_RANGE_START :: u16_t)) + TCP_LOCAL_PORT_RANGE_START)\<rparr>)"

definition tcp_free :: "tcp_globals \<Rightarrow> nat \<Rightarrow> tcp_globals outcome" where
  "tcp_free s i = bnd (get_tcp s i) (\<lambda>c. lwip_assert (t_state c \<noteq> LISTEN) (Inr (s\<lparr>tcp_at := (tcp_at s)(i := None)\<rparr>)))"

definition tcp_free_listen :: "tcp_globals \<Rightarrow> nat \<Rightarrow> tcp_globals outcome" where
  "tcp_free_listen s i = bnd (get_lpcb s i) (\<lambda>l. lwip_assert (l_state l \<noteq> LISTEN) (Inr (s\<lparr>lpcb_at := (lpcb_at s)(i := None)\<rparr>)))"

text \<open>\<^verbatim>\<open>memp_malloc\<close> of a pcb of either kind.\<close>

definition tcp_pcb_malloc :: "tcp_globals \<Rightarrow> nat option \<times> tcp_globals" where
  "tcp_pcb_malloc s = (let i = next_tcp s in (if tcp_oom s i then None else Some i, s\<lparr>next_tcp := Suc i\<rparr>))"

definition tcp_listen_with_backlog_and_err :: "tcp_globals \<Rightarrow> nat option \<Rightarrow> (err_t \<times> nat option \<times> tcp_globals) outcome" where
  "tcp_listen_with_backlog_and_err s pcb = (case pcb of None \<Rightarrow> Inl Abort
     | Some i \<Rightarrow>
         bnd (pcb_state s i) (\<lambda>st. lwip_assert (st = CLOSED) (
         bnd (get_tcp s i) (\<lambda>c.
         case tcp_pcb_malloc s of (None, s) \<Rightarrow> Inr (ERR_MEM, None, s)
         | (Some l, s) \<Rightarrow>
             bnd (tcp_free (if t_local_port c \<noteq> 0 then TCP_RMV L_bound s i else s) i) (\<lambda>s.
             bnd (TCP_REG L_listen (set_lpcb s l \<lparr>l_local_ip = ip_addr_set (t_local_ip c), l_remote_type = ip_type (t_local_ip c),
                    l_netif_idx = NETIF_NO_INDEX, l_so_options = t_so_options c, l_tos = t_tos c, l_ttl = t_ttl c,
                    l_callback_arg = t_callback_arg c, l_state = LISTEN, l_prio = t_prio c, l_local_port = t_local_port c,
                    l_accept = Some Tcp_accept_null\<rparr>) l) (\<lambda>s.
             Inr (ERR_OK, Some l, s)))))))"

definition tcp_listen_with_backlog :: "tcp_globals \<Rightarrow> nat option \<Rightarrow> (nat option \<times> tcp_globals) outcome" where
  "tcp_listen_with_backlog s pcb = bnd (tcp_listen_with_backlog_and_err s pcb) (\<lambda>(_, l, s). Inr (l, s))"

text \<open>A function that writes fields of a pcb which must not listen.\<close>

definition tcp_configure :: "(tcp_pcb \<Rightarrow> tcp_pcb) \<Rightarrow> tcp_globals \<Rightarrow> nat option \<Rightarrow> tcp_globals outcome" where
  "tcp_configure f s pcb = (case pcb of None \<Rightarrow> Inr s
     | Some i \<Rightarrow> bnd (pcb_state s i) (\<lambda>st. lwip_assert (st \<noteq> LISTEN) (bnd (get_tcp s i) (\<lambda>c. Inr (set_tcp s i (f c))))))"

definition tcp_recv :: "tcp_globals \<Rightarrow> nat option \<Rightarrow> tcp_recv_fn option \<Rightarrow> tcp_globals outcome" where
  "tcp_recv s pcb fn = tcp_configure (\<lambda>c. c\<lparr>t_recv := fn\<rparr>) s pcb"

definition tcp_sent :: "tcp_globals \<Rightarrow> nat option \<Rightarrow> nat option \<Rightarrow> tcp_globals outcome" where
  "tcp_sent s pcb fn = tcp_configure (\<lambda>c. c\<lparr>t_sent := fn\<rparr>) s pcb"

definition tcp_err :: "tcp_globals \<Rightarrow> nat option \<Rightarrow> nat option \<Rightarrow> tcp_globals outcome" where
  "tcp_err s pcb fn = tcp_configure (\<lambda>c. c\<lparr>t_errf := fn\<rparr>) s pcb"

definition tcp_poll :: "tcp_globals \<Rightarrow> nat option \<Rightarrow> nat option \<Rightarrow> u8_t \<Rightarrow> tcp_globals outcome" where
  "tcp_poll s pcb fn interval = lwip_assert (pcb \<noteq> None) (tcp_configure (\<lambda>c. c\<lparr>t_poll := fn, pollinterval := interval\<rparr>) s pcb)"

definition tcp_accept :: "tcp_globals \<Rightarrow> nat option \<Rightarrow> tcp_accept_fn option \<Rightarrow> tcp_globals outcome" where
  "tcp_accept s pcb fn = (case pcb of None \<Rightarrow> Inr s
     | Some i \<Rightarrow> bnd (pcb_state s i) (\<lambda>st. if st = LISTEN then bnd (get_lpcb s i) (\<lambda>l. Inr (set_lpcb s i (l\<lparr>l_accept := fn\<rparr>))) else Inr s))"

definition tcp_arg :: "tcp_globals \<Rightarrow> nat option \<Rightarrow> nat \<Rightarrow> tcp_globals outcome" where
  "tcp_arg s pcb arg = (case pcb of None \<Rightarrow> Inr s
     | Some i \<Rightarrow> (case tcp_at s i of Some c \<Rightarrow> Inr (set_tcp s i (c\<lparr>t_callback_arg := arg\<rparr>))
         | None \<Rightarrow> bnd (get_lpcb s i) (\<lambda>l. Inr (set_lpcb s i (l\<lparr>l_callback_arg := arg\<rparr>)))))"

definition tcp_setprio :: "tcp_globals \<Rightarrow> nat option \<Rightarrow> u8_t \<Rightarrow> tcp_globals outcome" where
  "tcp_setprio s pcb prio = (case pcb of None \<Rightarrow> Inl Abort
     | Some i \<Rightarrow> (case tcp_at s i of Some c \<Rightarrow> Inr (set_tcp s i (c\<lparr>t_prio := prio\<rparr>))
         | None \<Rightarrow> bnd (get_lpcb s i) (\<lambda>l. Inr (set_lpcb s i (l\<lparr>l_prio := prio\<rparr>)))))"

text \<open>The addresses and ports of a pcb; \<open>None\<close> for \<^verbatim>\<open>ERR_VAL\<close>.\<close>

definition tcp_tcp_get_tcp_addrinfo :: "tcp_globals \<Rightarrow> nat option \<Rightarrow> bool \<Rightarrow> (ip_addr_t \<times> u16_t) option outcome" where
  "tcp_tcp_get_tcp_addrinfo s pcb loc = (case pcb of None \<Rightarrow> Inr None
     | Some i \<Rightarrow> bnd (get_tcp s i) (\<lambda>c. Inr (Some (if loc then (t_local_ip c, t_local_port c) else (t_remote_ip c, t_remote_port c)))))"

definition tcp_next_iss :: "tcp_globals \<Rightarrow> u32_t \<times> tcp_globals" where
  "tcp_next_iss s = (let iss = tcp_iss s + tcp_ticks s in (iss, s\<lparr>tcp_iss := iss\<rparr>))"

definition tcp_eff_send_mss_netif :: "tcp_env \<Rightarrow> u16_t \<Rightarrow> netif option \<Rightarrow> ip_addr_t \<Rightarrow> u16_t" where
  "tcp_eff_send_mss_netif e sendmss outif dest =
     (let mtu = (if IP_IS_V6 dest then Some (t_mtu6 e dest outif) else (case outif of None \<Rightarrow> None | Some n \<Rightarrow> Some (n_mtu n)));
          offset = (if IP_IS_V6 dest then 60 else 40)
      in case mtu of None \<Rightarrow> sendmss
         | Some mtu \<Rightarrow> if mtu \<noteq> 0 then min sendmss (if mtu > offset then mtu - offset else 0) else sendmss)"

section \<open>The receive window\<close>

definition tcp_update_rcv_ann_wnd :: "tcp_pcb \<Rightarrow> (u32_t \<times> tcp_pcb) outcome" where
  "tcp_update_rcv_ann_wnd c =
     (let new_right_edge = rcv_nxt c + ucast (rcv_wnd c)
      in if TCP_SEQ_GEQ new_right_edge (rcv_ann_right_edge c + ucast (min (TCP_WND div 2) (mss c)))
         then Inr (new_right_edge - rcv_ann_right_edge c, c\<lparr>rcv_ann_wnd := rcv_wnd c\<rparr>)
         else if TCP_SEQ_GT (rcv_nxt c) (rcv_ann_right_edge c) then Inr (0, c\<lparr>rcv_ann_wnd := 0\<rparr>)
         else let new_rcv_ann_wnd = rcv_ann_right_edge c - rcv_nxt c
              in lwip_assert (new_rcv_ann_wnd \<le> 0xffff) (Inr (0, c\<lparr>rcv_ann_wnd := ucast new_rcv_ann_wnd\<rparr>)))"

section \<open>The search for a port\<close>

lemma tcp_next_port_eq: "tcp_next_port p = next_port 0x3fff p"
proof -
  have "p + 1 = 0xffff \<longleftrightarrow> p = 0xfffe" using add_right_cancel [of p 1 "0xfffe"] by simp
  then show ?thesis by (auto simp: tcp_next_port_def next_port_def word_unat_eq_iff)
qed

lemma tcp_port_upd [simp]:
  "pcb_local (s\<lparr>tcp_port := x\<rparr>) = pcb_local s" "tcp_pcb_lists (s\<lparr>tcp_port := x\<rparr>) = tcp_pcb_lists s"
  by (simp_all add: pcb_local_def tcp_pcb_lists_def fun_eq_iff split: option.split)

lemma tcp_port_used_upd [simp]: "tcp_port_used (s\<lparr>tcp_port := x\<rparr>) = tcp_port_used s"
  by (simp add: tcp_port_used_def fun_eq_iff)

interpretation tcp_ports: port_search "0x3fff" tcp_new_port_loop tcp_port "\<lambda>p s. s\<lparr>tcp_port := p\<rparr>" tcp_port_used
  by unfold_locales (simp_all add: tcp_new_port_loop.simps tcp_next_port_eq Let_def)

end
