(* ===== verification/Tcp_Out.thy ===== *)
theory Tcp_Out
  imports Tcp_Pcb
begin

text \<open>
  \<^verbatim>\<open>core/tcp_out.c\<close>: building segments, sending and retransmitting them. The functions work on one pcb, which they get and return
  as a value, and on the heap.
\<close>

section \<open>Headers\<close>

definition load32 :: "heap \<Rightarrow> ptr \<Rightarrow> nat \<Rightarrow> u32_t outcome" where
  "load32 h d off = bnd (mem_read h d off 4) (\<lambda>bs. Inr (le32 (bs ! 0) (bs ! 1) (bs ! 2) (bs ! 3)))"

definition store32 :: "heap \<Rightarrow> ptr \<Rightarrow> nat \<Rightarrow> u32_t \<Rightarrow> heap outcome" where
  "store32 h d off w = mem_write h d off (u32_bytes w)"

abbreviation (input) TCP_FIN :: u8_t where "TCP_FIN \<equiv> 0x01"
abbreviation (input) TCP_SYN :: u8_t where "TCP_SYN \<equiv> 0x02"
abbreviation (input) TCP_RST :: u8_t where "TCP_RST \<equiv> 0x04"
abbreviation (input) TCP_PSH :: u8_t where "TCP_PSH \<equiv> 0x08"
abbreviation (input) TCP_ACK :: u8_t where "TCP_ACK \<equiv> 0x10"
abbreviation (input) TCP_FLAGS :: u16_t where "TCP_FLAGS \<equiv> 0x3f"

abbreviation (input) TF_SEG_OPTS_MSS :: u8_t where "TF_SEG_OPTS_MSS \<equiv> 0x01"
abbreviation (input) TF_SEG_DATA_CHECKSUMMED :: u8_t where "TF_SEG_DATA_CHECKSUMMED \<equiv> 0x04"

abbreviation (input) IP_PROTO_TCP :: u8_t where "IP_PROTO_TCP \<equiv> 6"

definition TCPH_HDRLEN_BYTES :: "u16_t \<Rightarrow> u8_t" where
  "TCPH_HDRLEN_BYTES w = ucast (push_bit 2 (drop_bit 12 (lwip_ntohs w)))"

definition TCPH_FLAGS :: "u16_t \<Rightarrow> u8_t" where
  "TCPH_FLAGS w = ucast (lwip_ntohs w AND TCP_FLAGS)"

definition tcph_flags :: "heap \<Rightarrow> ptr \<Rightarrow> u8_t outcome" where
  "tcph_flags h hdr = bnd (load16 h hdr 12) (\<lambda>w. Inr (TCPH_FLAGS w))"

definition TCPH_SET_FLAG :: "heap \<Rightarrow> ptr \<Rightarrow> u8_t \<Rightarrow> heap outcome" where
  "TCPH_SET_FLAG h hdr f = bnd (load16 h hdr 12) (\<lambda>w. store16 h hdr 12 (w OR lwip_htons (ucast f)))"

definition TCPH_FLAGS_SET :: "heap \<Rightarrow> ptr \<Rightarrow> u8_t \<Rightarrow> heap outcome" where
  "TCPH_FLAGS_SET h hdr f = bnd (load16 h hdr 12) (\<lambda>w. store16 h hdr 12 ((w AND lwip_htons (NOT TCP_FLAGS)) OR lwip_htons (ucast f)))"

definition TCPH_HDRLEN_FLAGS_SET :: "heap \<Rightarrow> ptr \<Rightarrow> u16_t \<Rightarrow> u8_t \<Rightarrow> heap outcome" where
  "TCPH_HDRLEN_FLAGS_SET h hdr len f = store16 h hdr 12 (lwip_htons (push_bit 12 len OR ucast f))"

definition TCP_TCPLEN :: "heap \<Rightarrow> tcp_seg \<Rightarrow> u32_t outcome" where
  "TCP_TCPLEN h sg = bnd (tcph_flags h (tcphdr sg)) (\<lambda>f. Inr (ucast (seg_len sg) + (if f AND (TCP_FIN OR TCP_SYN) \<noteq> 0 then 1 else 0)))"

definition LWIP_TCP_OPT_LENGTH :: "u8_t \<Rightarrow> u16_t" where
  "LWIP_TCP_OPT_LENGTH f = (if f AND TF_SEG_OPTS_MSS \<noteq> 0 then 4 else 0)"

text \<open>The sequence number of a segment on a send queue.\<close>

definition seg_seqno :: "heap \<Rightarrow> tcp_seg \<Rightarrow> u32_t outcome" where
  "seg_seqno h sg = bnd (load32 h (tcphdr sg) 4) (\<lambda>w. Inr (lwip_ntohl w))"

section \<open>Segments\<close>

text \<open>\<^verbatim>\<open>memp_malloc(MEMP_TCP_SEG)\<close>.\<close>

definition tcp_seg_malloc :: "heap \<Rightarrow> bool \<times> heap" where
  "tcp_seg_malloc h = (\<not> oom h (nextid h), h\<lparr>nextid := Suc (nextid h)\<rparr>)"

definition tcp_seg_free :: "heap \<Rightarrow> tcp_seg \<Rightarrow> heap outcome" where
  "tcp_seg_free h sg = (if seg_p sg \<noteq> None then bnd (pbuf_free h (seg_p sg)) (\<lambda>(_, h). Inr h) else Inr h)"

fun tcp_segs_free :: "heap \<Rightarrow> tcp_seg list \<Rightarrow> heap outcome" where
  "tcp_segs_free h [] = Inr h"
| "tcp_segs_free h (sg # sgs) = bnd (tcp_seg_free h sg) (\<lambda>h. tcp_segs_free h sgs)"

definition tcp_seg_copy :: "heap \<Rightarrow> tcp_seg \<Rightarrow> (tcp_seg option \<times> heap) outcome" where
  "tcp_seg_copy h sg = (case tcp_seg_malloc h of (ok, h) \<Rightarrow>
     if \<not> ok then Inr (None, h) else bnd (pbuf_ref h (seg_p sg)) (\<lambda>h. Inr (Some sg, h)))"

definition tcp_create_segment :: "heap \<Rightarrow> tcp_pcb \<Rightarrow> pptr \<Rightarrow> u8_t \<Rightarrow> u32_t \<Rightarrow> u8_t \<Rightarrow> (tcp_seg option \<times> heap) outcome" where
  "tcp_create_segment h c p hdrflags seqno' optflags =
     lwip_assert (p \<noteq> None) (
     let optlen = LWIP_TCP_OPT_LENGTH optflags in
     case tcp_seg_malloc h of (ok, h) \<Rightarrow>
     if \<not> ok then bnd (pbuf_free h p) (\<lambda>(_, h). Inr (None, h))
     else
       bnd (pget h p) (\<lambda>b. lwip_assert (p_tot_len b \<ge> optlen) (
       let sg = \<lparr>seg_p = p, seg_len = p_tot_len b - optlen, oversize_left = 0, seg_chksum = 0, chksum_swapped = False,
             seg_flags = optflags, tcphdr = None\<rparr>
       in lwip_assert (optflags AND TF_SEG_DATA_CHECKSUMMED = 0) (
          bnd (pbuf_add_header h p TCP_HLEN) (\<lambda>(err, h).
          if err \<noteq> 0 then bnd (tcp_seg_free h sg) (\<lambda>h. Inr (None, h))
          else
            bnd (pget h p) (\<lambda>b.
            let hdr = p_payload b in
            bnd (store16 h hdr 0 (lwip_htons (t_local_port c))) (\<lambda>h.
            bnd (store16 h hdr 2 (lwip_htons (t_remote_port c))) (\<lambda>h.
            bnd (store32 h hdr 4 (lwip_htonl seqno')) (\<lambda>h.
            bnd (TCPH_HDRLEN_FLAGS_SET h hdr (5 + optlen div 4) hdrflags) (\<lambda>h.
            bnd (store16 h hdr 18 0) (\<lambda>h.
            Inr (Some (sg\<lparr>tcphdr := hdr\<rparr>), h))))))))))))"

text \<open>The result is the pbuf and \<^verbatim>\<open>*oversize\<close>.\<close>

definition tcp_pbuf_prealloc :: "heap \<Rightarrow> tcp_pcb \<Rightarrow> pbuf_layer \<Rightarrow> u16_t \<Rightarrow> u16_t \<Rightarrow> u8_t \<Rightarrow> bool \<Rightarrow> (pptr \<times> u16_t \<times> heap) outcome" where
  "tcp_pbuf_prealloc h c layer len max_length apiflags first_seg =
     (let alloc = (if len < max_length \<and> (apiflags AND 0x02 \<noteq> 0
             \<or> t_flags c AND TF_NODELAY = 0 \<and> (\<not> first_seg \<or> unsent c \<noteq> [] \<or> unacked c \<noteq> []))
           then of_nat (min (unat max_length) (unat len + unat TCP_MSS)) else len)
      in bnd (pbuf_alloc h layer alloc PBUF_RAM) (\<lambda>(p, h).
         if p = None then Inr (None, 0, h)
         else bnd (pget h p) (\<lambda>b. lwip_assert (p_next b = None) (
              Inr (p, p_len b - len, pset h p (b\<lparr>p_len := len, p_tot_len := len\<rparr>))))))"

definition tcp_seg_add_chksum :: "u16_t \<Rightarrow> u16_t \<Rightarrow> u16_t \<times> bool \<Rightarrow> u16_t \<times> bool" where
  "tcp_seg_add_chksum chksum len acc = (case acc of (seg_ck, swapped) \<Rightarrow>
     let ck = ucast (FOLD_U32T (ucast chksum + ucast seg_ck)) :: u16_t
     in if len AND 1 \<noteq> 0 then (ucast (SWAP_BYTES_IN_WORD (ucast ck)), \<not> swapped) else (ck, swapped))"

section \<open>Writing data\<close>

definition tcp_write_checks :: "tcp_pcb \<Rightarrow> u16_t \<Rightarrow> (err_t \<times> tcp_pcb) outcome" where
  "tcp_write_checks c len =
     (if t_state c \<notin> {ESTABLISHED, CLOSE_WAIT, SYN_SENT, SYN_RCVD} then Inr (ERR_CONN, c)
      else if len = 0 then Inr (ERR_OK, c)
      else if len > snd_buf c then Inr (ERR_MEM, tcp_set_flags c TF_NAGLEMEMERR)
      else if snd_queuelen c \<ge> TCP_SND_QUEUELEN then Inr (ERR_MEM, tcp_set_flags c TF_NAGLEMEMERR)
      else if snd_queuelen c \<noteq> 0 then lwip_assert (unacked c \<noteq> [] \<or> unsent c \<noteq> []) (Inr (ERR_OK, c))
      else lwip_assert (unacked c = [] \<and> unsent c = []) (Inr (ERR_OK, c)))"

text \<open>\<^verbatim>\<open>LWIP_CHKSUM_COPY\<close> between two addresses: copies and returns the checksum of what was copied.\<close>

definition chksum_copy :: "(ptr \<Rightarrow> bool) \<Rightarrow> heap \<Rightarrow> ptr \<Rightarrow> nat \<Rightarrow> ptr \<Rightarrow> nat \<Rightarrow> nat \<Rightarrow> (u16_t \<times> heap) outcome" where
  "chksum_copy od h dst dst_off src src_off len =
     bnd (mem_read h src src_off len) (\<lambda>bs.
     bnd (mem_write h dst dst_off bs) (\<lambda>h. Inr (LWIP_CHKSUM (od (ptr_add dst (int dst_off))) bs, h)))"

text \<open>The last pbuf of a chain.\<close>

fun last_pbuf :: "nat \<Rightarrow> heap \<Rightarrow> pptr \<Rightarrow> pptr outcome" where
  "last_pbuf 0 h p = Inl Diverge"
| "last_pbuf (Suc n) h p = bnd (pget h p) (\<lambda>b. if p_next b = None then Inr p else last_pbuf n h (p_next b))"

text \<open>
  Second phase of \<^verbatim>\<open>tcp_write\<close>: the rest of the last unsent segment. The result is the pbuf to concatenate, if any, by how much
  the last pbuf is extended, the room left in the new pbuf, the sum of the data and how many bytes were added.
\<close>

record write_tail =
  concat_p :: pptr
  extendlen :: u16_t
  w_oversize :: u16_t
  w_oversize_used :: u16_t
  w_oversize_add :: u16_t
  w_chksum :: "u16_t \<times> bool"
  w_pos :: u16_t
  w_queuelen :: u16_t
  w_chksummed :: u16_t

definition tcp_write_concat ::
  "(ptr \<Rightarrow> bool) \<Rightarrow> heap \<Rightarrow> tcp_pcb \<Rightarrow> tcp_seg \<Rightarrow> ptr \<Rightarrow> u16_t \<Rightarrow> u16_t \<Rightarrow> u8_t \<Rightarrow> write_tail \<Rightarrow> (write_tail option \<times> heap) outcome" where
  "tcp_write_concat od h c last_unsent arg space len apiflags w =
     (let seglen = min space (len - w_pos w) in
      if apiflags AND 0x01 \<noteq> 0 then
        bnd (tcp_pbuf_prealloc h c PBUF_RAW seglen space apiflags True) (\<lambda>(q, ov, h).
        if q = None then Inr (None, h)
        else
          bnd (pget h q) (\<lambda>b.
          bnd (chksum_copy od h (p_payload b) 0 arg (unat (w_pos w)) (unat seglen)) (\<lambda>(ck, h).
          bnd (pbuf_clen h q) (\<lambda>cl.
          Inr (Some (w\<lparr>concat_p := q, w_oversize := ov, w_oversize_add := ov,
                  w_chksum := tcp_seg_add_chksum ck seglen (w_chksum w), w_chksummed := w_chksummed w + seglen,
                  w_queuelen := w_queuelen w + cl, w_pos := w_pos w + seglen\<rparr>), h)))))
      else
        bnd (last_pbuf (fuel h) h (seg_p last_unsent)) (\<lambda>p.
        bnd (pget h p) (\<lambda>b.
        bnd (if p_type_internal b AND (PBUF_TYPE_FLAG_STRUCT_DATA_CONTIGUOUS OR PBUF_TYPE_FLAG_DATA_VOLATILE) = 0
                \<and> ptr_add (p_payload b) (int (unat (p_len b))) = arg
             then lwip_assert (w_pos w = 0) (Inr (Some (w\<lparr>extendlen := seglen\<rparr>), h))
             else
               bnd (pbuf_alloc h PBUF_RAW seglen PBUF_ROM) (\<lambda>(q, h).
               if q = None then Inr (None, h)
               else
                 bnd (pupd h q (\<lambda>b. b\<lparr>p_payload := ptr_add arg (int (unat (w_pos w)))\<rparr>)) (\<lambda>h.
                 bnd (pbuf_clen h q) (\<lambda>cl. Inr (Some (w\<lparr>concat_p := q, w_queuelen := w_queuelen w + cl\<rparr>), h))))) (\<lambda>(r, h).
        case r of None \<Rightarrow> Inr (None, h)
        | Some w \<Rightarrow>
            bnd (mem_read h arg (unat (w_pos w)) (unat seglen)) (\<lambda>bs.
            Inr (Some (w\<lparr>w_chksum := tcp_seg_add_chksum (NOT (inet_chksum (od (ptr_add arg (int (unat (w_pos w))))) bs)) seglen (w_chksum w),
                   w_chksummed := w_chksummed w + seglen, w_pos := w_pos w + seglen\<rparr>), h))))))"

text \<open>
  Third phase: new segments. \<open>sgs\<close> are those made so far, the state keeps position, length of the queue and room in the last
  pbuf; \<open>None\<close> as the first result is \<^verbatim>\<open>memerr\<close>. Every round puts a pbuf on the queue, whose length is bounded by
  \<^verbatim>\<open>TCP_SND_QUEUELEN\<close>: two more rounds than that are never made.
\<close>

definition tcp_write_new_pbuf ::
  "(ptr \<Rightarrow> bool) \<Rightarrow> heap \<Rightarrow> tcp_pcb \<Rightarrow> ptr \<Rightarrow> u16_t \<Rightarrow> u16_t \<Rightarrow> u16_t \<Rightarrow> u16_t \<Rightarrow> u8_t \<Rightarrow> bool
     \<Rightarrow> ((pptr \<times> u16_t \<times> u16_t \<times> bool) option \<times> heap) outcome" where
  "tcp_write_new_pbuf od h c arg pos seglen mss_local oversize apiflags first =
     (if apiflags AND 0x01 \<noteq> 0 then
        bnd (tcp_pbuf_prealloc h c PBUF_TRANSPORT seglen mss_local apiflags first) (\<lambda>(p, ov, h).
        if p = None then Inr (None, h)
        else
          bnd (pget h p) (\<lambda>b. lwip_assert (p_len b \<ge> seglen) (
          bnd (chksum_copy od h (p_payload b) 0 arg (unat pos) (unat seglen)) (\<lambda>(ck, h).
          case tcp_seg_add_chksum ck seglen (0, False) of (ck, sw) \<Rightarrow> Inr (Some (p, ov, ck, sw), h)))))
      else
        lwip_assert (oversize = 0) (
        bnd (pbuf_alloc h PBUF_TRANSPORT seglen PBUF_ROM) (\<lambda>(p2, h).
        if p2 = None then Inr (None, h)
        else
          bnd (mem_read h arg (unat pos) (unat seglen)) (\<lambda>bs.
          let ck = NOT (inet_chksum (od (ptr_add arg (int (unat pos)))) bs);
              (ck, sw) = (if seglen AND 1 \<noteq> 0 then (ucast (SWAP_BYTES_IN_WORD (ucast ck)), True) else (ck, False))
          in bnd (pupd h p2 (\<lambda>b. b\<lparr>p_payload := ptr_add arg (int (unat pos))\<rparr>)) (\<lambda>h.
             bnd (pbuf_alloc h PBUF_TRANSPORT 0 PBUF_RAM) (\<lambda>(p, h).
             if p = None then bnd (pbuf_free h p2) (\<lambda>(_, h). Inr (None, h))
             else bnd (pbuf_cat h p p2) (\<lambda>h. Inr (Some (p, oversize, ck, sw), h))))))))"

fun tcp_write_loop ::
  "nat \<Rightarrow> (ptr \<Rightarrow> bool) \<Rightarrow> heap \<Rightarrow> tcp_pcb \<Rightarrow> ptr \<Rightarrow> u16_t \<Rightarrow> u16_t \<Rightarrow> u8_t \<Rightarrow> u16_t \<Rightarrow> u16_t \<Rightarrow> u16_t \<Rightarrow> tcp_seg list
     \<Rightarrow> ((u16_t \<times> u16_t) option \<times> tcp_seg list \<times> heap) outcome" where
  "tcp_write_loop 0 od h c arg len mss_local apiflags pos queuelen oversize sgs =
     (if pos < len then Inl Diverge else Inr (Some (queuelen, oversize), sgs, h))"
| "tcp_write_loop (Suc n) od h c arg len mss_local apiflags pos queuelen oversize sgs =
     (if pos < len then
        let seglen = min (len - pos) mss_local in
        bnd (tcp_write_new_pbuf od h c arg pos seglen mss_local oversize apiflags (sgs = [])) (\<lambda>(r, h).
        case r of None \<Rightarrow> Inr (None, sgs, h)
        | Some (p, ov, ck, sw) \<Rightarrow>
            bnd (pbuf_clen h p) (\<lambda>cl.
            let queuelen = queuelen + cl in
            if queuelen > TCP_SND_QUEUELEN then bnd (pbuf_free h p) (\<lambda>(_, h). Inr (None, sgs, h))
            else
              bnd (tcp_create_segment h c p 0 (snd_lbb c + ucast pos) 0) (\<lambda>(sg, h).
              case sg of None \<Rightarrow> Inr (None, sgs, h)
              | Some sg \<Rightarrow>
                  tcp_write_loop n od h c arg len mss_local apiflags (pos + seglen) queuelen ov
                    (sgs @ [sg\<lparr>oversize_left := ov, seg_chksum := ck, chksum_swapped := sw,
                               seg_flags := seg_flags sg OR TF_SEG_DATA_CHECKSUMMED\<rparr>]))))
      else Inr (Some (queuelen, oversize), sgs, h))"

text \<open>The loops that lengthen the pbufs of the last unsent segment; \<open>data\<close> goes behind the data of the last pbuf.\<close>

fun tcp_write_extend :: "nat \<Rightarrow> heap \<Rightarrow> pptr \<Rightarrow> u16_t \<Rightarrow> heap outcome" where
  "tcp_write_extend 0 h p n = Inl Diverge"
| "tcp_write_extend (Suc k) h p n =
     bnd (pget h p) (\<lambda>b.
     if p_next b = None then Inr (pset h p (b\<lparr>p_tot_len := p_tot_len b + n, p_len := p_len b + n\<rparr>))
     else tcp_write_extend k (pset h p (b\<lparr>p_tot_len := p_tot_len b + n\<rparr>)) (p_next b) n)"


text \<open>Fourth phase: everything is allocated, the queue of the pcb is changed. \<open>pushed\<close> says that the last unsent segment got data.\<close>

definition tcp_write_oversize :: "(ptr \<Rightarrow> bool) \<Rightarrow> heap \<Rightarrow> tcp_seg \<Rightarrow> ptr \<Rightarrow> u16_t \<Rightarrow> (tcp_seg \<times> heap) outcome" where
  "tcp_write_oversize od h sg arg used =
     (if used > 0 then
        bnd (last_pbuf (fuel h) h (seg_p sg)) (\<lambda>p.
        bnd (pget h p) (\<lambda>b.
        bnd (chksum_copy od h (p_payload b) (unat (p_len b)) arg 0 (unat used)) (\<lambda>(ck, h).
        bnd (tcp_write_extend (fuel h) h (seg_p sg) used) (\<lambda>h.
        case tcp_seg_add_chksum ck used (seg_chksum sg, chksum_swapped sg) of (ck, sw) \<Rightarrow>
        lwip_assert (oversize_left sg \<ge> used) (
        Inr (sg\<lparr>seg_len := seg_len sg + used, oversize_left := oversize_left sg - used, seg_chksum := ck, chksum_swapped := sw,
               seg_flags := seg_flags sg OR TF_SEG_DATA_CHECKSUMMED\<rparr>, h))))))
      else Inr (sg, h))"

definition tcp_write_last :: "(ptr \<Rightarrow> bool) \<Rightarrow> heap \<Rightarrow> tcp_seg \<Rightarrow> ptr \<Rightarrow> write_tail \<Rightarrow> (tcp_seg \<times> heap) outcome" where
  "tcp_write_last od h sg arg w =
     bnd (tcp_write_oversize od h (sg\<lparr>oversize_left := oversize_left sg + w_oversize_add w\<rparr>) arg (w_oversize_used w)) (\<lambda>(sg, h).
     bnd (if concat_p w \<noteq> None then
            bnd (pbuf_cat h (seg_p sg) (concat_p w)) (\<lambda>h.
            bnd (pget h (concat_p w)) (\<lambda>b. Inr (sg\<lparr>seg_len := seg_len sg + p_tot_len b\<rparr>, h)))
          else if extendlen w > 0 then
            bnd (tcp_write_extend (fuel h) h (seg_p sg) (extendlen w)) (\<lambda>h. Inr (sg\<lparr>seg_len := seg_len sg + extendlen w\<rparr>, h))
          else Inr (sg, h)) (\<lambda>(sg, h).
     if w_chksummed w \<noteq> 0 then
       lwip_assert (concat_p w \<noteq> None \<or> extendlen w > 0) (
       let ck = (if snd (w_chksum w) then ucast (SWAP_BYTES_IN_WORD (ucast (fst (w_chksum w)))) else fst (w_chksum w));
           (ck, sw) = tcp_seg_add_chksum ck (w_chksummed w) (seg_chksum sg, chksum_swapped sg)
       in Inr (sg\<lparr>seg_chksum := ck, chksum_swapped := sw, seg_flags := seg_flags sg OR TF_SEG_DATA_CHECKSUMMED\<rparr>, h))
     else Inr (sg, h)))"

definition tcp_write_commit ::
  "(ptr \<Rightarrow> bool) \<Rightarrow> heap \<Rightarrow> tcp_pcb \<Rightarrow> ptr \<Rightarrow> u16_t \<Rightarrow> u8_t \<Rightarrow> write_tail \<Rightarrow> bool \<Rightarrow> u16_t \<Rightarrow> u16_t \<Rightarrow> tcp_seg list \<Rightarrow> (err_t \<times> tcp_pcb \<times> heap) outcome" where
  "tcp_write_commit od h c arg len apiflags w pushed queuelen oversize sgs =
     bnd (if unsent c = [] then Inr ([], h)
          else bnd (tcp_write_last od h (last (unsent c)) arg w) (\<lambda>(sg, h). Inr (butlast (unsent c) @ [sg], h))) (\<lambda>(us, h).
     let c = c\<lparr>unsent_oversize := oversize, unsent := us @ sgs, snd_lbb := snd_lbb c + ucast len, snd_buf := snd_buf c - len, snd_queuelen := queuelen\<rparr> in
     lwip_assert (snd_queuelen c \<noteq> 0 \<longrightarrow> unacked c \<noteq> [] \<or> unsent c \<noteq> []) (
     bnd (if (sgs \<noteq> [] \<or> pushed) \<and> tcphdr (last (unsent c)) \<noteq> None \<and> apiflags AND 0x02 = 0
          then TCPH_SET_FLAG h (tcphdr (last (unsent c))) TCP_PSH else Inr h) (\<lambda>h.
     Inr (ERR_OK, c, h))))"

text \<open>First phase, then the others.\<close>

definition tcp_write :: "(ptr \<Rightarrow> bool) \<Rightarrow> heap \<Rightarrow> tcp_pcb \<Rightarrow> ptr \<Rightarrow> u16_t \<Rightarrow> u8_t \<Rightarrow> (err_t \<times> tcp_pcb \<times> heap) outcome" where
  "tcp_write od h c arg len apiflags =
     (let mss_local = min (mss c) (snd_wnd_max c div 2);
          mss_local = (if mss_local \<noteq> 0 then mss_local else mss c);
          memerr = (\<lambda>c concat sgs h.
            bnd (if concat \<noteq> None then bnd (pbuf_free h concat) (\<lambda>(_, h). Inr h) else Inr h) (\<lambda>h.
            bnd (tcp_segs_free h sgs) (\<lambda>h.
            lwip_assert (snd_queuelen c \<noteq> 0 \<longrightarrow> unacked c \<noteq> [] \<or> unsent c \<noteq> []) (
            Inr (ERR_MEM, tcp_set_flags c TF_NAGLEMEMERR, h)))))
      in lwip_assert (arg \<noteq> None) (
         bnd (tcp_write_checks c len) (\<lambda>(err, c).
         if err \<noteq> ERR_OK then Inr (err, c, h)
         else
           let w = \<lparr>concat_p = None, extendlen = 0, w_oversize = 0, w_oversize_used = 0, w_oversize_add = 0, w_chksum = (0, False),
                    w_pos = 0, w_queuelen = snd_queuelen c, w_chksummed = 0\<rparr>
           in bnd (if unsent c = [] then lwip_assert (unsent_oversize c = 0) (Inr (Some (w, False), h))
                   else
                     let lst = last (unsent c); used_space = unat (seg_len lst) + unat (LWIP_TCP_OPT_LENGTH (seg_flags lst)) in
                     lwip_assert (unat mss_local \<ge> used_space) (
                     let space = mss_local - (seg_len lst + LWIP_TCP_OPT_LENGTH (seg_flags lst)); oversize = unsent_oversize c in
                     lwip_assert (oversize = oversize_left lst \<and> oversize \<le> space) (
                     let used = min space (min oversize len);
                         w = w\<lparr>w_oversize_used := used, w_pos := used, w_oversize := oversize - used\<rparr>;
                         space = space - used
                     in lwip_assert (w_oversize w = 0 \<or> w_pos w = len) (
                        if w_pos w < len \<and> space > 0 \<and> seg_len lst > 0 then
                          bnd (tcp_write_concat od h c lst arg space len apiflags w) (\<lambda>(r, h).
                          Inr (case r of None \<Rightarrow> None | Some w \<Rightarrow> Some (w, True), h))
                        else Inr (Some (w, oversize > 0), h))))) (\<lambda>(r, h).
              case r of None \<Rightarrow> memerr c None [] h
              | Some (w, pushed) \<Rightarrow>
                  bnd (tcp_write_loop (unat TCP_SND_QUEUELEN + 2) od h c arg len mss_local apiflags (w_pos w) (w_queuelen w) (w_oversize w) []) (\<lambda>(r, sgs, h).
                  case r of None \<Rightarrow> memerr c (concat_p w) sgs h
                  | Some (queuelen, oversize) \<Rightarrow> tcp_write_commit od h c arg len apiflags w pushed queuelen oversize sgs)))))"

section \<open>Control segments\<close>

definition tcp_enqueue_flags :: "heap \<Rightarrow> tcp_pcb \<Rightarrow> u8_t \<Rightarrow> (err_t \<times> tcp_pcb \<times> heap) outcome" where
  "tcp_enqueue_flags h c flags =
     lwip_assert (flags AND (TCP_SYN OR TCP_FIN) \<noteq> 0) (
     let optflags = (if flags AND TCP_SYN \<noteq> 0 then TF_SEG_OPTS_MSS else 0); optlen = LWIP_TCP_OPT_LENGTH optflags in
     bnd (pbuf_alloc h PBUF_TRANSPORT optlen PBUF_RAM) (\<lambda>(p, h).
     if p = None then Inr (ERR_MEM, tcp_set_flags c TF_NAGLEMEMERR, h)
     else
       bnd (pget h p) (\<lambda>b. lwip_assert (p_len b \<ge> optlen) (
       bnd (tcp_create_segment h c p flags (snd_lbb c) optflags) (\<lambda>(sg, h).
       case sg of None \<Rightarrow> Inr (ERR_MEM, tcp_set_flags c TF_NAGLEMEMERR, h)
       | Some sg \<Rightarrow> lwip_assert (seg_len sg = 0) (
           let c = c\<lparr>unsent := unsent c @ [sg], unsent_oversize := 0, snd_lbb := snd_lbb c + 1\<rparr>;
               c = (if flags AND TCP_FIN \<noteq> 0 then tcp_set_flags c TF_FIN else c)
           in bnd (pbuf_clen h (seg_p sg)) (\<lambda>cl. Inr (ERR_OK, c\<lparr>snd_queuelen := snd_queuelen c + cl\<rparr>, h))))))))"

definition tcp_send_fin :: "heap \<Rightarrow> tcp_pcb \<Rightarrow> (err_t \<times> tcp_pcb \<times> heap) outcome" where
  "tcp_send_fin h c =
     (if unsent c \<noteq> [] then
        bnd (tcph_flags h (tcphdr (last (unsent c)))) (\<lambda>f.
        if f AND (TCP_SYN OR TCP_FIN OR TCP_RST) = 0 then
          bnd (TCPH_SET_FLAG h (tcphdr (last (unsent c))) TCP_FIN) (\<lambda>h. Inr (ERR_OK, tcp_set_flags c TF_FIN, h))
        else tcp_enqueue_flags h c TCP_FIN)
      else tcp_enqueue_flags h c TCP_FIN)"

definition tcp_output_alloc_header_common ::
  "heap \<Rightarrow> u32_t \<Rightarrow> u16_t \<Rightarrow> u16_t \<Rightarrow> u32_t \<Rightarrow> u16_t \<Rightarrow> u16_t \<Rightarrow> u8_t \<Rightarrow> u16_t \<Rightarrow> (pptr \<times> heap) outcome" where
  "tcp_output_alloc_header_common h ackno' optlen datalen seqno_be src_port dst_port flags wnd =
     bnd (pbuf_alloc h PBUF_IP (of_nat TCP_HLEN + optlen + datalen) PBUF_RAM) (\<lambda>(p, h).
     if p = None then Inr (None, h)
     else
       bnd (pget h p) (\<lambda>b. lwip_assert (unat (p_len b) \<ge> TCP_HLEN + unat optlen) (
       let hdr = p_payload b in
       bnd (store16 h hdr 0 (lwip_htons src_port)) (\<lambda>h.
       bnd (store16 h hdr 2 (lwip_htons dst_port)) (\<lambda>h.
       bnd (store32 h hdr 4 seqno_be) (\<lambda>h.
       bnd (store32 h hdr 8 (lwip_htonl ackno')) (\<lambda>h.
       bnd (TCPH_HDRLEN_FLAGS_SET h hdr (5 + optlen div 4) flags) (\<lambda>h.
       bnd (store16 h hdr 14 (lwip_htons wnd)) (\<lambda>h.
       bnd (store16 h hdr 16 0) (\<lambda>h.
       bnd (store16 h hdr 18 0) (\<lambda>h. Inr (p, h))))))))))))"

definition tcp_output_alloc_header :: "heap \<Rightarrow> tcp_pcb \<Rightarrow> u16_t \<Rightarrow> u16_t \<Rightarrow> u32_t \<Rightarrow> (pptr \<times> tcp_pcb \<times> heap) outcome" where
  "tcp_output_alloc_header h c optlen datalen seqno_be =
     bnd (tcp_output_alloc_header_common h (rcv_nxt c) optlen datalen seqno_be (t_local_port c) (t_remote_port c) TCP_ACK (rcv_ann_wnd c)) (\<lambda>(p, h).
     Inr (p, if p \<noteq> None then c\<lparr>rcv_ann_right_edge := rcv_nxt c + ucast (rcv_ann_wnd c)\<rparr> else c, h))"

text \<open>What the functions on a pcb read of the globals: the interfaces, the ticks, and whether it is \<^verbatim>\<open>tcp_input_pcb\<close>.\<close>

record tcp_cx =
  cx_netifs :: "netif list"
  cx_ticks :: u32_t
  cx_input :: bool

definition tcp_ip_route :: "tcp_env \<Rightarrow> netif list \<Rightarrow> ip_addr_t \<Rightarrow> ip_addr_t \<Rightarrow> netif option" where
  "tcp_ip_route e nifs src dst = (if IP_IS_V6 dst then t_route6 e src dst else ip4_route nifs (ip_2_ip4 dst))"

definition tcp_ip_output_if :: "tcp_env \<Rightarrow> heap \<Rightarrow> pptr \<Rightarrow> ip_addr_t \<Rightarrow> ip_addr_t \<Rightarrow> u8_t \<Rightarrow> u8_t \<Rightarrow> netif \<Rightarrow> (err_t \<times> heap) outcome" where
  "tcp_ip_output_if e h p src dst ttl' tos' nif =
     (if IP_IS_V6 dst then t_output6 e h p src dst ttl' tos' IP_PROTO_TCP nif
      else ip4_output_if (t_odd e) h p (Some (ip_2_ip4 src)) (Some (ip_2_ip4 dst)) ttl' tos' IP_PROTO_TCP nif)"

text \<open>\<open>pcb\<close> is the interface index, the time to live and the type of service of a pcb of either kind, if there is one.\<close>

definition tcp_route :: "tcp_env \<Rightarrow> netif list \<Rightarrow> (u8_t \<times> u8_t \<times> u8_t) option \<Rightarrow> ip_addr_t \<Rightarrow> ip_addr_t \<Rightarrow> netif option" where
  "tcp_route e nifs pcb src dst = (case pcb of
     Some (idx, _) \<Rightarrow> if idx \<noteq> NETIF_NO_INDEX then netif_get_by_index nifs idx else tcp_ip_route e nifs src dst
   | None \<Rightarrow> tcp_ip_route e nifs src dst)"

definition ip_pcb :: "tcp_pcb \<Rightarrow> (u8_t \<times> u8_t \<times> u8_t) option" where
  "ip_pcb c = Some (t_netif_idx c, t_ttl c, t_tos c)"

definition tcp_output_control_segment ::
  "tcp_env \<Rightarrow> netif list \<Rightarrow> heap \<Rightarrow> (u8_t \<times> u8_t \<times> u8_t) option \<Rightarrow> pptr \<Rightarrow> ip_addr_t \<Rightarrow> ip_addr_t \<Rightarrow> (err_t \<times> heap) outcome" where
  "tcp_output_control_segment e nifs h pcb p src dst =
     lwip_assert (p \<noteq> None) (
     bnd (case tcp_route e nifs pcb src dst of None \<Rightarrow> Inr (ERR_RTE, h)
          | Some nif \<Rightarrow>
              bnd (pget h p) (\<lambda>b.
              bnd (ip_chksum_pseudo (t_odd e) h p IP_PROTO_TCP (p_tot_len b) src dst) (\<lambda>ck.
              bnd (store16 h (p_payload b) 16 ck) (\<lambda>h.
              let (ttl', tos') = (case pcb of Some (_, a, b) \<Rightarrow> (a, b) | None \<Rightarrow> (TCP_TTL, 0))
              in tcp_ip_output_if e h p src dst ttl' tos' nif)))) (\<lambda>(err, h).
     bnd (pbuf_free h p) (\<lambda>(_, h). Inr (err, h))))"

definition tcp_rst ::
  "tcp_env \<Rightarrow> netif list \<Rightarrow> heap \<Rightarrow> (u8_t \<times> u8_t \<times> u8_t) option \<Rightarrow> u32_t \<Rightarrow> u32_t \<Rightarrow> ip_addr_t \<Rightarrow> ip_addr_t \<Rightarrow> u16_t \<Rightarrow> u16_t \<Rightarrow> heap outcome" where
  "tcp_rst e nifs h pcb seqno' ackno' local_ip' remote_ip' local_port' remote_port' =
     bnd (tcp_output_alloc_header_common h ackno' 0 0 (lwip_htonl seqno') local_port' remote_port' (TCP_RST OR TCP_ACK) (lwip_htons TCP_WND)) (\<lambda>(p, h).
     if p = None then Inr h
     else bnd (tcp_output_control_segment e nifs h pcb p local_ip' remote_ip') (\<lambda>(_, h). Inr h))"

definition tcp_send_empty_ack :: "tcp_env \<Rightarrow> tcp_cx \<Rightarrow> heap \<Rightarrow> tcp_pcb \<Rightarrow> (err_t \<times> tcp_pcb \<times> heap) outcome" where
  "tcp_send_empty_ack e cx h c =
     bnd (tcp_output_alloc_header h c 0 0 (lwip_htonl (snd_nxt c))) (\<lambda>(p, c, h).
     if p = None then Inr (ERR_BUF, tcp_set_flags c (TF_ACK_DELAY OR TF_ACK_NOW), h)
     else
       bnd (tcp_output_control_segment e (cx_netifs cx) h (ip_pcb c) p (t_local_ip c) (t_remote_ip c)) (\<lambda>(err, h).
       Inr (err, if err \<noteq> ERR_OK then tcp_set_flags c (TF_ACK_DELAY OR TF_ACK_NOW) else tcp_clear_flags c (TF_ACK_DELAY OR TF_ACK_NOW), h)))"

definition tcp_keepalive :: "tcp_env \<Rightarrow> tcp_cx \<Rightarrow> heap \<Rightarrow> tcp_pcb \<Rightarrow> (err_t \<times> tcp_pcb \<times> heap) outcome" where
  "tcp_keepalive e cx h c =
     bnd (tcp_output_alloc_header h c 0 0 (lwip_htonl (snd_nxt c - 1))) (\<lambda>(p, c, h).
     if p = None then Inr (ERR_MEM, c, h)
     else bnd (tcp_output_control_segment e (cx_netifs cx) h (ip_pcb c) p (t_local_ip c) (t_remote_ip c)) (\<lambda>(err, h). Inr (err, c, h)))"

definition tcp_zero_window_probe :: "tcp_env \<Rightarrow> tcp_cx \<Rightarrow> heap \<Rightarrow> tcp_pcb \<Rightarrow> (err_t \<times> tcp_pcb \<times> heap) outcome" where
  "tcp_zero_window_probe e cx h c = (case unsent c of [] \<Rightarrow> Inr (ERR_OK, c, h)
     | sg # _ \<Rightarrow>
         let c = (if persist_probe c < 0xff then c\<lparr>persist_probe := persist_probe c + 1\<rparr> else c) in
         bnd (tcph_flags h (tcphdr sg)) (\<lambda>f.
         bnd (load32 h (tcphdr sg) 4) (\<lambda>seqno_be.
         let is_fin = (f AND TCP_FIN \<noteq> 0 \<and> seg_len sg = 0) in
         bnd (tcp_output_alloc_header h c 0 (if is_fin then 0 else 1) seqno_be) (\<lambda>(p, c, h).
         if p = None then Inr (ERR_MEM, c, h)
         else
           bnd (pget h p) (\<lambda>b.
           bnd (if is_fin then TCPH_FLAGS_SET h (p_payload b) (TCP_ACK OR TCP_FIN)
                else
                  bnd (pget h (seg_p sg)) (\<lambda>sb.
                  bnd (mem_read h (p_payload b) TCP_HLEN 1) (\<lambda>d.
                  bnd (pbuf_copy_partial h (seg_p sg) (Some d) 1 (p_tot_len sb - seg_len sg)) (\<lambda>(_, d).
                  mem_write h (p_payload b) TCP_HLEN d)))) (\<lambda>h.
           let nxt = lwip_ntohl seqno_be + 1;
               c = (if TCP_SEQ_LT (snd_nxt c) nxt then c\<lparr>snd_nxt := nxt\<rparr> else c)
           in bnd (tcp_output_control_segment e (cx_netifs cx) h (ip_pcb c) p (t_local_ip c) (t_remote_ip c)) (\<lambda>(err, h).
              Inr (err, c, h))))))))"


section \<open>Splitting a segment\<close>

text \<open>The loop that finds the pbuf where the data of a segment start, and the one that sums the data from there.\<close>

fun data_start_loop :: "nat \<Rightarrow> heap \<Rightarrow> pptr \<Rightarrow> u16_t \<Rightarrow> (pptr \<times> u16_t) outcome" where
  "data_start_loop 0 h q off = Inl Diverge"
| "data_start_loop (Suc n) h q off = (if q = None then Inr (q, off)
     else bnd (pget h q) (\<lambda>b. if off > p_len b then data_start_loop n h (p_next b) (off - p_len b) else Inr (q, off)))"

fun split_chksum_loop :: "nat \<Rightarrow> (ptr \<Rightarrow> bool) \<Rightarrow> heap \<Rightarrow> pptr \<Rightarrow> u16_t \<Rightarrow> u16_t \<times> bool \<Rightarrow> (u16_t \<times> bool) outcome" where
  "split_chksum_loop 0 od h q off acc = Inl Diverge"
| "split_chksum_loop (Suc n) od h q off acc = (if q = None then Inr acc
     else bnd (pget h q) (\<lambda>b.
       bnd (mem_read h (p_payload b) (unat off) (unat (p_len b - off))) (\<lambda>bs.
       split_chksum_loop n od h (p_next b) 0
         (tcp_seg_add_chksum (NOT (inet_chksum (od (ptr_add (p_payload b) (int (unat off)))) bs)) (p_len b - off) acc))))"

text \<open>The changes to the split segment itself: it keeps the first \<open>split\<close> bytes.\<close>

definition tcp_split_useg :: "(ptr \<Rightarrow> bool) \<Rightarrow> heap \<Rightarrow> tcp_pcb \<Rightarrow> tcp_seg \<Rightarrow> u16_t \<Rightarrow> u8_t \<Rightarrow> (tcp_seg \<times> tcp_pcb \<times> heap) outcome" where
  "tcp_split_useg od h c useg remainder split_flags =
     bnd (pbuf_clen h (seg_p useg)) (\<lambda>cl.
     let c = c\<lparr>snd_queuelen := snd_queuelen c - cl\<rparr> in
     bnd (pget h (seg_p useg)) (\<lambda>b.
     bnd (pbuf_realloc h (seg_p useg) (p_tot_len b - remainder)) (\<lambda>h.
     let useg = useg\<lparr>seg_len := seg_len useg - remainder\<rparr> in
     bnd (TCPH_SET_FLAG h (tcphdr useg) split_flags) (\<lambda>h.
     bnd (pbuf_clen h (seg_p useg)) (\<lambda>cl.
     let c = c\<lparr>snd_queuelen := snd_queuelen c + cl\<rparr> in
     bnd (pget h (seg_p useg)) (\<lambda>b.
     bnd (data_start_loop (fuel h) h (seg_p useg) (p_tot_len b - seg_len useg)) (\<lambda>(q, off).
     lwip_assert (q \<noteq> None) (
     bnd (split_chksum_loop (fuel h) od h q off (0, False)) (\<lambda>(ck, sw).
     Inr (useg\<lparr>oversize_left := 0, seg_chksum := ck, chksum_swapped := sw\<rparr>, c, h))))))))))"

definition tcp_split_unsent_seg :: "(ptr \<Rightarrow> bool) \<Rightarrow> heap \<Rightarrow> tcp_pcb \<Rightarrow> u16_t \<Rightarrow> (err_t \<times> tcp_pcb \<times> heap) outcome" where
  "tcp_split_unsent_seg od h c split = (case unsent c of [] \<Rightarrow> Inr (ERR_MEM, c, h)
     | useg # sgs \<Rightarrow> lwip_assert (split \<noteq> 0) (
         if seg_len useg \<le> split then Inr (ERR_OK, c, h)
         else lwip_assert (split \<le> mss c) (
           let optflags = seg_flags useg AND NOT TF_SEG_DATA_CHECKSUMMED; optlen = LWIP_TCP_OPT_LENGTH optflags; remainder = seg_len useg - split in
           bnd (pbuf_alloc h PBUF_TRANSPORT (remainder + optlen) PBUF_RAM) (\<lambda>(p, h).
           if p = None then Inr (ERR_MEM, c, h)
           else
             bnd (pget h p) (\<lambda>b.
             bnd (pget h (seg_p useg)) (\<lambda>ub.
             bnd (mem_read h (p_payload b) (unat optlen) (unat remainder)) (\<lambda>d.
             bnd (pbuf_copy_partial h (seg_p useg) (Some d) remainder (p_tot_len ub - seg_len useg + split)) (\<lambda>(n, d).
             bnd (mem_write h (p_payload b) (unat optlen) d) (\<lambda>h.
             if n \<noteq> remainder then bnd (pbuf_free h p) (\<lambda>(_, h). Inr (ERR_MEM, c, h))
             else
               let (ck, sw) = tcp_seg_add_chksum (NOT (inet_chksum (od (ptr_add (p_payload b) (int (unat optlen)))) d)) remainder (0, False) in
               bnd (tcph_flags h (tcphdr useg)) (\<lambda>f.
               bnd (seg_seqno h useg) (\<lambda>sq.
               let remainder_flags = f AND (TCP_PSH OR TCP_FIN); split_flags = f AND NOT (TCP_PSH OR TCP_FIN) in
               bnd (tcp_create_segment h c p remainder_flags (sq + ucast split) optflags) (\<lambda>(sg, h).
               case sg of None \<Rightarrow> bnd (pbuf_free h p) (\<lambda>(_, h). Inr (ERR_MEM, c, h))
               | Some sg \<Rightarrow>
                   bnd (tcp_split_useg od h c useg remainder split_flags) (\<lambda>(useg, c, h).
                   bnd (pbuf_clen h (seg_p sg)) (\<lambda>cl.
                   let sg = sg\<lparr>seg_chksum := ck, chksum_swapped := sw, seg_flags := seg_flags sg OR TF_SEG_DATA_CHECKSUMMED\<rparr> in
                   Inr (ERR_OK, c\<lparr>snd_queuelen := snd_queuelen c + cl, unsent := useg # sg # sgs,
                          unsent_oversize := (if sgs = [] then 0 else unsent_oversize c)\<rparr>, h)))))))))))))))"

section \<open>Sending\<close>

definition tcp_do_output_nagle :: "tcp_pcb \<Rightarrow> bool" where
  "tcp_do_output_nagle c \<longleftrightarrow> unacked c = [] \<or> t_flags c AND (TF_NODELAY OR TF_INFR) \<noteq> 0
     \<or> (case unsent c of [] \<Rightarrow> False | sg # sgs \<Rightarrow> sgs \<noteq> [] \<or> seg_len sg \<ge> mss c)
     \<or> snd_buf c = 0 \<or> snd_queuelen c \<ge> TCP_SND_QUEUELEN"

definition tcp_output_segment_busy :: "heap \<Rightarrow> tcp_seg \<Rightarrow> bool outcome" where
  "tcp_output_segment_busy h sg = bnd (pget h (seg_p sg)) (\<lambda>b. Inr (p_ref b \<noteq> 1))"

text \<open>The part of \<^verbatim>\<open>tcp_output_segment\<close> that moves \<^verbatim>\<open>payload\<close> to the TCP header.\<close>

definition seg_to_tcphdr :: "heap \<Rightarrow> tcp_seg \<Rightarrow> heap outcome" where
  "seg_to_tcphdr h sg = bnd (pget h (seg_p sg)) (\<lambda>b. case (tcphdr sg, p_payload b) of
     (Some (k, i), Some (k', j)) \<Rightarrow>
       if k = k' then (let len = word_of_int (i - j) in
         Inr (pset h (seg_p sg) (b\<lparr>p_len := p_len b - len, p_tot_len := p_tot_len b - len, p_payload := tcphdr sg\<rparr>)))
       else Inl Fault
   | _ \<Rightarrow> Inl Fault)"

text \<open>The checksum is put together from that of the header and the one the data were given when they were copied.\<close>

definition tcp_seg_chksum :: "tcp_env \<Rightarrow> heap \<Rightarrow> tcp_pcb \<Rightarrow> tcp_seg \<Rightarrow> heap outcome" where
  "tcp_seg_chksum e h c sg =
     bnd (store16 h (tcphdr sg) 16 0) (\<lambda>h.
     bnd (load16 h (tcphdr sg) 12) (\<lambda>w.
     bnd (pget h (seg_p sg)) (\<lambda>b.
     let hdrlen = ucast (TCPH_HDRLEN_BYTES w) in
     lwip_assert (seg_flags sg AND TF_SEG_DATA_CHECKSUMMED = 0 \<longrightarrow> p_tot_len b = hdrlen) (
     bnd (ip_chksum_pseudo_partial (t_odd e) h (seg_p sg) IP_PROTO_TCP (p_tot_len b) hdrlen (t_local_ip c) (t_remote_ip c)) (\<lambda>acc.
     let ck = (if chksum_swapped sg then ucast (SWAP_BYTES_IN_WORD (ucast (seg_chksum sg))) else seg_chksum sg) :: u16_t;
         acc = ucast (NOT acc) + ucast ck :: u32_t
     in store16 h (tcphdr sg) 16 (NOT (ucast (FOLD_U32T acc))))))))"

definition tcp_output_segment :: "tcp_env \<Rightarrow> tcp_cx \<Rightarrow> heap \<Rightarrow> tcp_pcb \<Rightarrow> tcp_seg \<Rightarrow> netif \<Rightarrow> (err_t \<times> tcp_pcb \<times> heap) outcome" where
  "tcp_output_segment e cx h c sg nif =
     bnd (tcp_output_segment_busy h sg) (\<lambda>busy.
     if busy then Inr (ERR_OK, c, h)
     else
       bnd (store32 h (tcphdr sg) 8 (lwip_htonl (rcv_nxt c))) (\<lambda>h.
       bnd (store16 h (tcphdr sg) 14 (lwip_htons (rcv_ann_wnd c))) (\<lambda>h.
       let c = c\<lparr>rcv_ann_right_edge := rcv_nxt c + ucast (rcv_ann_wnd c)\<rparr> in
       bnd (if seg_flags sg AND TF_SEG_OPTS_MSS \<noteq> 0
            then store32 h (tcphdr sg) TCP_HLEN (lwip_htonl (0x02040000 OR ucast (tcp_eff_send_mss_netif e TCP_MSS (Some nif) (t_remote_ip c))))
            else Inr h) (\<lambda>h.
       bnd (seg_seqno h sg) (\<lambda>sq.
       let c = (if sint (rtime c) < 0 then c\<lparr>rtime := 0\<rparr> else c);
           c = (if rttest c = 0 then c\<lparr>rttest := cx_ticks cx, rtseq := sq\<rparr> else c)
       in bnd (seg_to_tcphdr h sg) (\<lambda>h.
          bnd (tcp_seg_chksum e h c sg) (\<lambda>h.
          bnd (tcp_ip_output_if e h (seg_p sg) (t_local_ip c) (t_remote_ip c) (t_ttl c) (t_tos c) nif) (\<lambda>(err, h).
          Inr (err, c, h)))))))))"

text \<open>Insertion into a queue in the order of sequence numbers.\<close>

fun seg_insert :: "heap \<Rightarrow> u32_t \<Rightarrow> tcp_seg \<Rightarrow> tcp_seg list \<Rightarrow> tcp_seg list outcome" where
  "seg_insert h sq sg [] = Inr [sg]"
| "seg_insert h sq sg (x # xs) = bnd (seg_seqno h x) (\<lambda>xq.
     if TCP_SEQ_LT xq sq then bnd (seg_insert h sq sg xs) (\<lambda>ys. Inr (x # ys)) else Inr (sg # x # xs))"

definition tcp_put_unacked :: "heap \<Rightarrow> tcp_pcb \<Rightarrow> tcp_seg \<Rightarrow> u32_t \<Rightarrow> tcp_pcb outcome" where
  "tcp_put_unacked h c sg sq =
     (if unacked c = [] then Inr (c\<lparr>unacked := [sg]\<rparr>)
      else bnd (seg_seqno h (last (unacked c))) (\<lambda>uq.
        if TCP_SEQ_LT sq uq then bnd (seg_insert h sq sg (unacked c)) (\<lambda>xs. Inr (c\<lparr>unacked := xs\<rparr>))
        else Inr (c\<lparr>unacked := unacked c @ [sg]\<rparr>)))"

text \<open>The loop of \<^verbatim>\<open>tcp_output\<close>; the list is \<^verbatim>\<open>unsent\<close>.\<close>

fun tcp_output_loop :: "tcp_env \<Rightarrow> tcp_cx \<Rightarrow> netif \<Rightarrow> u32_t \<Rightarrow> heap \<Rightarrow> tcp_pcb \<Rightarrow> tcp_seg list \<Rightarrow> (err_t \<times> tcp_pcb \<times> heap) outcome" where
  "tcp_output_loop e cx nif wnd h c [] = Inr (ERR_OK, c, h)"
| "tcp_output_loop e cx nif wnd h c (sg # sgs) =
     bnd (seg_seqno h sg) (\<lambda>sq.
     if sq - lastack c + ucast (seg_len sg) \<le> wnd then
       bnd (tcph_flags h (tcphdr sg)) (\<lambda>f. lwip_assert (f AND TCP_RST = 0) (
       if \<not> tcp_do_output_nagle c \<and> t_flags c AND (TF_NAGLEMEMERR OR TF_FIN) = 0 then Inr (ERR_OK, c, h)
       else
         bnd (if t_state c \<noteq> SYN_SENT then TCPH_SET_FLAG h (tcphdr sg) TCP_ACK else Inr h) (\<lambda>h.
         bnd (tcp_output_segment e cx h c sg nif) (\<lambda>(err, c, h).
         if err \<noteq> ERR_OK then Inr (err, tcp_set_flags c TF_NAGLEMEMERR, h)
         else
           let sg = sg\<lparr>oversize_left := 0\<rparr>; c = c\<lparr>unsent := sgs\<rparr>;
               c = (if t_state c \<noteq> SYN_SENT then tcp_clear_flags c (TF_ACK_DELAY OR TF_ACK_NOW) else c)
           in bnd (TCP_TCPLEN h sg) (\<lambda>tl.
              let c = (if TCP_SEQ_LT (snd_nxt c) (sq + tl) then c\<lparr>snd_nxt := sq + tl\<rparr> else c) in
              bnd (if tl > 0 then bnd (tcp_put_unacked h c sg sq) (\<lambda>c. Inr (c, h))
                   else bnd (tcp_seg_free h sg) (\<lambda>h. Inr (c, h))) (\<lambda>(c, h).
              tcp_output_loop e cx nif wnd h c sgs))))))
     else Inr (ERR_OK, c, h))"

definition tcp_output_done :: "heap \<Rightarrow> tcp_pcb \<Rightarrow> (err_t \<times> tcp_pcb \<times> heap) outcome" where
  "tcp_output_done h c = Inr (ERR_OK, tcp_clear_flags c TF_NAGLEMEMERR, h)"

definition tcp_netif_local_ip :: "tcp_env \<Rightarrow> netif \<Rightarrow> ip_addr_t \<Rightarrow> ip_addr_t option" where
  "tcp_netif_local_ip e nif dst = (if IP_IS_V6 dst then t_local_ip6 e nif dst else Some (ip4_netif_get_local_ip nif))"

definition tcp_output :: "tcp_env \<Rightarrow> tcp_cx \<Rightarrow> heap \<Rightarrow> tcp_pcb \<Rightarrow> (err_t \<times> tcp_pcb \<times> heap) outcome" where
  "tcp_output e cx h c =
     lwip_assert (t_state c \<noteq> LISTEN) (
     if cx_input cx then Inr (ERR_OK, c, h)
     else let wnd = ucast (min (snd_wnd c) (cwnd c)) in
       case unsent c of
         [] \<Rightarrow> if t_flags c AND TF_ACK_NOW \<noteq> 0 then tcp_send_empty_ack e cx h c else tcp_output_done h c
       | sg # _ \<Rightarrow>
           (case tcp_route e (cx_netifs cx) (ip_pcb c) (t_local_ip c) (t_remote_ip c) of None \<Rightarrow> Inr (ERR_RTE, c, h)
            | Some nif \<Rightarrow>
                (case (if ip_addr_isany (t_local_ip c) then tcp_netif_local_ip e nif (t_remote_ip c) else Some (t_local_ip c)) of
                   None \<Rightarrow> Inr (ERR_RTE, c, h)
                 | Some lip \<Rightarrow>
                     let c = (if ip_addr_isany (t_local_ip c) then c\<lparr>t_local_ip := ip_addr_set lip\<rparr> else c) in
                     bnd (seg_seqno h sg) (\<lambda>sq.
                     if sq - lastack c + ucast (seg_len sg) > wnd then
                       let c = (if wnd = ucast (snd_wnd c) \<and> unacked c = [] \<and> persist_backoff c = 0
                             then c\<lparr>persist_cnt := 0, persist_backoff := 1, persist_probe := 0\<rparr> else c)
                       in if t_flags c AND TF_ACK_NOW \<noteq> 0 then tcp_send_empty_ack e cx h c else tcp_output_done h c
                     else
                       bnd (tcp_output_loop e cx nif wnd h (c\<lparr>persist_backoff := 0\<rparr>) (unsent c)) (\<lambda>(err, c, h).
                       if err \<noteq> ERR_OK then Inr (err, c, h)
                       else tcp_output_done h (if unsent c = [] then c\<lparr>unsent_oversize := 0\<rparr> else c))))))"

section \<open>Retransmission\<close>

fun any_busy :: "heap \<Rightarrow> tcp_seg list \<Rightarrow> bool outcome" where
  "any_busy h [] = Inr False"
| "any_busy h (sg # sgs) = bnd (tcp_output_segment_busy h sg) (\<lambda>busy. if busy then Inr True else any_busy h sgs)"

definition tcp_rexmit_rto_prepare :: "heap \<Rightarrow> tcp_pcb \<Rightarrow> (err_t \<times> tcp_pcb) outcome" where
  "tcp_rexmit_rto_prepare h c =
     (if unacked c = [] then Inr (ERR_VAL, c)
      else bnd (any_busy h (unacked c)) (\<lambda>busy.
        if busy then Inr (ERR_VAL, c)
        else
          let lst = last (unacked c) in
          bnd (seg_seqno h lst) (\<lambda>sq.
          bnd (TCP_TCPLEN h lst) (\<lambda>tl.
          Inr (ERR_OK, (tcp_set_flags c TF_RTO)\<lparr>unsent_oversize := (if unsent c = [] then oversize_left lst else unsent_oversize c),
                 unsent := unacked c @ unsent c, unacked := [], rto_end := sq + tl, rttest := 0\<rparr>)))))"

definition tcp_rexmit_rto_commit :: "tcp_env \<Rightarrow> tcp_cx \<Rightarrow> heap \<Rightarrow> tcp_pcb \<Rightarrow> (tcp_pcb \<times> heap) outcome" where
  "tcp_rexmit_rto_commit e cx h c =
     bnd (tcp_output e cx h (if nrtx c < 0xff then c\<lparr>nrtx := nrtx c + 1\<rparr> else c)) (\<lambda>(_, c, h). Inr (c, h))"

definition tcp_rexmit_rto :: "tcp_env \<Rightarrow> tcp_cx \<Rightarrow> heap \<Rightarrow> tcp_pcb \<Rightarrow> (tcp_pcb \<times> heap) outcome" where
  "tcp_rexmit_rto e cx h c = bnd (tcp_rexmit_rto_prepare h c) (\<lambda>(err, c).
     if err = ERR_OK then tcp_rexmit_rto_commit e cx h c else Inr (c, h))"

definition tcp_rexmit :: "heap \<Rightarrow> tcp_pcb \<Rightarrow> (err_t \<times> tcp_pcb) outcome" where
  "tcp_rexmit h c = (case unacked c of [] \<Rightarrow> Inr (ERR_VAL, c)
     | sg # sgs \<Rightarrow>
         bnd (tcp_output_segment_busy h sg) (\<lambda>busy.
         if busy then Inr (ERR_VAL, c)
         else
           bnd (seg_seqno h sg) (\<lambda>sq.
           bnd (seg_insert h sq sg (unsent c)) (\<lambda>xs.
           Inr (ERR_OK, c\<lparr>unacked := sgs, unsent := xs, unsent_oversize := (if xs = unsent c @ [sg] then 0 else unsent_oversize c),
                  nrtx := (if nrtx c < 0xff then nrtx c + 1 else nrtx c), rttest := 0\<rparr>)))))"

definition tcp_rexmit_fast :: "heap \<Rightarrow> tcp_pcb \<Rightarrow> tcp_pcb outcome" where
  "tcp_rexmit_fast h c =
     (if unacked c \<noteq> [] \<and> t_flags c AND TF_INFR = 0 then
        bnd (tcp_rexmit h c) (\<lambda>(err, c).
        if err = ERR_OK then
          let th = min (cwnd c) (snd_wnd c) div 2;
              th = (if unat th < 2 * unat (mss c) then 2 * mss c else th)
          in Inr ((tcp_set_flags c TF_INFR)\<lparr>ssthresh := th, cwnd := th + 3 * mss c, rtime := 0\<rparr>)
        else Inr c)
      else Inr c)"

end
