(* ===== verification/Tcp_C.thy ===== *)
theory Tcp_C
  imports Tcp_Out
begin

text \<open>
  \<^verbatim>\<open>core/tcp.c\<close>, continued: closing, aborting and connecting, allocation of pcbs, and the timers. The callbacks of the
  application get and return the whole state of TCP.
\<close>

section \<open>Pcbs in the global state\<close>

definition cx_of :: "tcp_globals \<Rightarrow> nat \<Rightarrow> tcp_cx" where
  "cx_of s i = \<lparr>cx_netifs = t_netifs s, cx_ticks = tcp_ticks s, cx_input = (tcp_input_pcb s = Some i)\<rparr>"

text \<open>A function on one pcb and the heap, applied to a pcb of the global state.\<close>

definition on_pcb :: "tcp_globals \<Rightarrow> nat \<Rightarrow> (tcp_cx \<Rightarrow> heap \<Rightarrow> tcp_pcb \<Rightarrow> ('a \<times> tcp_pcb \<times> heap) outcome) \<Rightarrow> ('a \<times> tcp_globals) outcome" where
  "on_pcb s i f = bnd (get_tcp s i) (\<lambda>c. bnd (f (cx_of s i) (theap s) c) (\<lambda>(r, c, h). Inr (r, (set_tcp s i c)\<lparr>theap := h\<rparr>)))"

definition upd_pcb :: "tcp_globals \<Rightarrow> nat \<Rightarrow> (tcp_pcb \<Rightarrow> tcp_pcb) \<Rightarrow> tcp_globals outcome" where
  "upd_pcb s i f = bnd (get_tcp s i) (\<lambda>c. Inr (set_tcp s i (f c)))"

definition send_rst :: "tcp_env \<Rightarrow> tcp_globals \<Rightarrow> tcp_pcb \<Rightarrow> u32_t \<Rightarrow> u32_t \<Rightarrow> tcp_globals outcome" where
  "send_rst e s c seqno' ackno' =
     bnd (tcp_rst e (t_netifs s) (theap s) (ip_pcb c) seqno' ackno' (t_local_ip c) (t_remote_ip c) (t_local_port c) (t_remote_port c)) (\<lambda>h.
     Inr (s\<lparr>theap := h\<rparr>))"

section \<open>Purging and removing\<close>

definition tcp_free_ooseq :: "heap \<Rightarrow> tcp_pcb \<Rightarrow> (tcp_pcb \<times> heap) outcome" where
  "tcp_free_ooseq h c = (if ooseq c \<noteq> [] then bnd (tcp_segs_free h (ooseq c)) (\<lambda>h. Inr (c\<lparr>ooseq := []\<rparr>, h)) else Inr (c, h))"

definition tcp_pcb_purge :: "heap \<Rightarrow> tcp_pcb \<Rightarrow> (tcp_pcb \<times> heap) outcome" where
  "tcp_pcb_purge h c =
     (if t_state c \<notin> {CLOSED, TIME_WAIT, LISTEN} then
        bnd (if refused_data c \<noteq> None then bnd (pbuf_free h (refused_data c)) (\<lambda>(_, h). Inr (c\<lparr>refused_data := None\<rparr>, h)) else Inr (c, h)) (\<lambda>(c, h).
        bnd (tcp_free_ooseq h c) (\<lambda>(c, h).
        bnd (tcp_segs_free h (unsent c)) (\<lambda>h.
        bnd (tcp_segs_free h (unacked c)) (\<lambda>h.
        Inr (c\<lparr>rtime := - 1, unacked := [], unsent := [], unsent_oversize := 0\<rparr>, h)))))
      else Inr (c, h))"

text \<open>\<^verbatim>\<open>tcp_pcb_remove\<close> of a pcb that does not listen, and of one that does.\<close>

definition tcp_pcb_remove :: "tcp_env \<Rightarrow> tcp_list \<Rightarrow> tcp_globals \<Rightarrow> nat \<Rightarrow> tcp_globals outcome" where
  "tcp_pcb_remove e l s i =
     bnd (on_pcb (TCP_RMV l s i) i (\<lambda>cx h c.
       bnd (tcp_pcb_purge h c) (\<lambda>(c, h).
       bnd (if t_state c \<notin> {TIME_WAIT, LISTEN} \<and> t_flags c AND TF_ACK_DELAY \<noteq> 0
            then bnd (tcp_output e cx h (tcp_ack_now c)) (\<lambda>(_, c, h). Inr (c, h)) else Inr (c, h)) (\<lambda>(c, h).
       lwip_assert (t_state c \<noteq> LISTEN \<longrightarrow> unsent c = [] \<and> unacked c = [] \<and> ooseq c = []) (
       Inr ((), c\<lparr>t_state := CLOSED, t_local_port := 0\<rparr>, h)))))) (\<lambda>(_, s).
     lwip_assert (tcp_pcbs_sane s) (Inr s))"

definition tcp_pcb_remove_listen :: "tcp_globals \<Rightarrow> nat \<Rightarrow> tcp_globals outcome" where
  "tcp_pcb_remove_listen s i =
     bnd (get_lpcb s i) (\<lambda>l.
     let s = set_lpcb (TCP_RMV L_listen s i) i (l\<lparr>l_state := CLOSED, l_local_port := 0\<rparr>)
     in lwip_assert (tcp_pcbs_sane s) (Inr s))"

definition TCP_PCB_REMOVE_ACTIVE :: "tcp_env \<Rightarrow> tcp_globals \<Rightarrow> nat \<Rightarrow> tcp_globals outcome" where
  "TCP_PCB_REMOVE_ACTIVE e s i = bnd (tcp_pcb_remove e L_active s i) (\<lambda>s. Inr (s\<lparr>tcp_active_pcbs_changed := True\<rparr>))"

fun tcp_remove_listener :: "tcp_globals \<Rightarrow> nat list \<Rightarrow> nat \<Rightarrow> tcp_globals outcome" where
  "tcp_remove_listener s [] lpcb = Inr s"
| "tcp_remove_listener s (i # is) lpcb =
     bnd (upd_pcb s i (\<lambda>c. if listener c = Some lpcb then c\<lparr>listener := None\<rparr> else c)) (\<lambda>s. tcp_remove_listener s is lpcb)"

definition tcp_listen_closed :: "tcp_globals \<Rightarrow> nat \<Rightarrow> tcp_globals outcome" where
  "tcp_listen_closed s i = bnd (get_lpcb s i) (\<lambda>l. lwip_assert (l_state l = LISTEN) (
     bnd (tcp_remove_listener s (tcp_bound_pcbs s) i) (\<lambda>s.
     bnd (tcp_remove_listener s (tcp_active_pcbs s) i) (\<lambda>s.
     tcp_remove_listener s (tcp_tw_pcbs s) i))))"

section \<open>Closing\<close>

abbreviation (input) TF_CLOSED :: u8_t where "TF_CLOSED \<equiv> 0x10"

definition tcp_trigger_input_pcb_close :: "tcp_globals \<Rightarrow> tcp_globals" where
  "tcp_trigger_input_pcb_close s = s\<lparr>t_in := (t_in s)\<lparr>recv_flags := recv_flags (t_in s) OR TF_CLOSED\<rparr>\<rparr>"

definition tcp_close_shutdown_fin :: "tcp_env \<Rightarrow> tcp_globals \<Rightarrow> nat \<Rightarrow> (err_t \<times> tcp_globals) outcome" where
  "tcp_close_shutdown_fin e s i =
     on_pcb s i (\<lambda>cx h c.
       if t_state c \<in> {SYN_RCVD, ESTABLISHED, CLOSE_WAIT} then
         bnd (tcp_send_fin h c) (\<lambda>(err, c, h).
         if err = ERR_OK then
           bnd (tcp_output e cx h (c\<lparr>t_state := (if t_state c = CLOSE_WAIT then LAST_ACK else FIN_WAIT_1)\<rparr>)) (\<lambda>(_, c, h). Inr (ERR_OK, c, h))
         else if err = ERR_MEM then Inr (ERR_OK, tcp_set_flags c TF_CLOSEPEND, h)
         else Inr (err, c, h))
       else Inr (ERR_OK, c, h))"

definition tcp_close_shutdown :: "tcp_env \<Rightarrow> tcp_globals \<Rightarrow> nat \<Rightarrow> bool \<Rightarrow> (err_t \<times> tcp_globals) outcome" where
  "tcp_close_shutdown e s i rst_on_unacked_data =
     bnd (pcb_state s i) (\<lambda>st.
     if st = LISTEN then
       bnd (tcp_listen_closed s i) (\<lambda>s.
       bnd (tcp_pcb_remove_listen s i) (\<lambda>s.
       bnd (tcp_free_listen s i) (\<lambda>s. Inr (ERR_OK, s))))
     else
       bnd (get_tcp s i) (\<lambda>c.
       if rst_on_unacked_data \<and> st \<in> {ESTABLISHED, CLOSE_WAIT} \<and> (refused_data c \<noteq> None \<or> rcv_wnd c \<noteq> TCP_WND) then
         lwip_assert (t_flags c AND TF_RXCLOSED \<noteq> 0) (
         bnd (send_rst e s c (snd_nxt c) (rcv_nxt c)) (\<lambda>s.
         bnd (on_pcb s i (\<lambda>cx h c. bnd (tcp_pcb_purge h c) (\<lambda>(c, h). Inr ((), c, h)))) (\<lambda>(_, s).
         let s = TCP_RMV_ACTIVE s i in
         bnd (if tcp_input_pcb s = Some i then Inr (tcp_trigger_input_pcb_close s) else tcp_free s i) (\<lambda>s. Inr (ERR_OK, s)))))
       else if st = CLOSED then
         bnd (tcp_free (if t_local_port c \<noteq> 0 then TCP_RMV L_bound s i else s) i) (\<lambda>s. Inr (ERR_OK, s))
       else if st = SYN_SENT then
         bnd (TCP_PCB_REMOVE_ACTIVE e s i) (\<lambda>s. bnd (tcp_free s i) (\<lambda>s. Inr (ERR_OK, s)))
       else tcp_close_shutdown_fin e s i))"

definition tcp_close :: "tcp_env \<Rightarrow> tcp_globals \<Rightarrow> nat option \<Rightarrow> (err_t \<times> tcp_globals) outcome" where
  "tcp_close e s pcb = (case pcb of None \<Rightarrow> Inl Abort
     | Some i \<Rightarrow> bnd (pcb_state s i) (\<lambda>st.
         bnd (if st \<noteq> LISTEN then upd_pcb s i (\<lambda>c. tcp_set_flags c TF_RXCLOSED) else Inr s) (\<lambda>s.
         tcp_close_shutdown e s i True)))"

definition tcp_shutdown :: "tcp_env \<Rightarrow> tcp_globals \<Rightarrow> nat option \<Rightarrow> bool \<Rightarrow> bool \<Rightarrow> (err_t \<times> tcp_globals) outcome" where
  "tcp_shutdown e s pcb shut_rx shut_tx = (case pcb of None \<Rightarrow> Inl Abort
     | Some i \<Rightarrow> bnd (pcb_state s i) (\<lambda>st.
         if st = LISTEN then Inr (ERR_CONN, s)
         else
           bnd (if shut_rx then upd_pcb s i (\<lambda>c. tcp_set_flags c TF_RXCLOSED) else Inr s) (\<lambda>s.
           if shut_rx \<and> shut_tx then tcp_close_shutdown e s i True
           else
             bnd (if shut_rx then on_pcb s i (\<lambda>cx h c.
                    if refused_data c \<noteq> None then bnd (pbuf_free h (refused_data c)) (\<lambda>(_, h). Inr ((), c\<lparr>refused_data := None\<rparr>, h))
                    else Inr ((), c, h))
                  else Inr ((), s)) (\<lambda>(_, s).
             if shut_tx then
               if st \<in> {SYN_RCVD, ESTABLISHED, CLOSE_WAIT} then tcp_close_shutdown e s i shut_rx else Inr (ERR_CONN, s)
             else Inr (ERR_OK, s)))))"

definition TCP_EVENT_ERR :: "tcp_env \<Rightarrow> tcp_globals \<Rightarrow> nat option \<Rightarrow> nat \<Rightarrow> err_t \<Rightarrow> tcp_globals outcome" where
  "TCP_EVENT_ERR e s errf arg err = (case errf of None \<Rightarrow> Inr s | Some f \<Rightarrow> app_err e f arg err s)"

definition tcp_abandon :: "tcp_env \<Rightarrow> tcp_globals \<Rightarrow> nat option \<Rightarrow> bool \<Rightarrow> tcp_globals outcome" where
  "tcp_abandon e s pcb reset = (case pcb of None \<Rightarrow> Inl Abort
     | Some i \<Rightarrow>
         bnd (pcb_state s i) (\<lambda>st. lwip_assert (st \<noteq> LISTEN) (
         bnd (get_tcp s i) (\<lambda>c.
         if st = TIME_WAIT then bnd (tcp_pcb_remove e L_tw s i) (\<lambda>s. tcp_free s i)
         else
           bnd (if st = CLOSED then Inr (if t_local_port c \<noteq> 0 then TCP_RMV L_bound s i else s) else TCP_PCB_REMOVE_ACTIVE e s i) (\<lambda>s.
           bnd (on_pcb s i (\<lambda>cx h c.
             bnd (tcp_segs_free h (unacked c)) (\<lambda>h.
             bnd (tcp_segs_free h (unsent c)) (\<lambda>h.
             bnd (tcp_segs_free h (ooseq c)) (\<lambda>h. Inr ((), c, h)))))) (\<lambda>(_, s).
           bnd (if st \<noteq> CLOSED \<and> reset then send_rst e s c (snd_nxt c) (rcv_nxt c) else Inr s) (\<lambda>s.
           bnd (tcp_free s i) (\<lambda>s. TCP_EVENT_ERR e s (t_errf c) (t_callback_arg c) ERR_ABRT))))))))"

definition tcp_abort :: "tcp_env \<Rightarrow> tcp_globals \<Rightarrow> nat option \<Rightarrow> tcp_globals outcome" where
  "tcp_abort e s pcb = tcp_abandon e s pcb True"


section \<open>Receiving and the callbacks\<close>

definition tcp_recved :: "tcp_env \<Rightarrow> tcp_globals \<Rightarrow> nat option \<Rightarrow> u16_t \<Rightarrow> tcp_globals outcome" where
  "tcp_recved e s pcb len = (case pcb of None \<Rightarrow> Inl Abort
     | Some i \<Rightarrow> bnd (pcb_state s i) (\<lambda>st. lwip_assert (st \<noteq> LISTEN) (
         bnd (on_pcb s i (\<lambda>cx h c.
           let w = rcv_wnd c + len; c = c\<lparr>rcv_wnd := (if w > TCP_WND \<or> w < rcv_wnd c then TCP_WND else w)\<rparr> in
           bnd (tcp_update_rcv_ann_wnd c) (\<lambda>(wnd_inflation, c).
           if wnd_inflation \<ge> TCP_WND_UPDATE_THRESHOLD
           then bnd (tcp_output e cx h (tcp_ack_now c)) (\<lambda>(_, c, h). Inr ((), c, h)) else Inr ((), c, h)))) (\<lambda>(_, s). Inr s))))"

definition tcp_recv_null :: "tcp_env \<Rightarrow> tcp_globals \<Rightarrow> nat \<Rightarrow> pptr \<Rightarrow> err_t \<Rightarrow> (err_t \<times> tcp_globals) outcome" where
  "tcp_recv_null e s i p err =
     (if p \<noteq> None then
        bnd (pget (theap s) p) (\<lambda>b.
        bnd (tcp_recved e s (Some i) (p_tot_len b)) (\<lambda>s.
        bnd (pbuf_free (theap s) p) (\<lambda>(_, h). Inr (ERR_OK, s\<lparr>theap := h\<rparr>))))
      else if err = ERR_OK then tcp_close e s (Some i)
      else Inr (ERR_OK, s))"

definition tcp_accept_null :: "tcp_env \<Rightarrow> tcp_globals \<Rightarrow> nat option \<Rightarrow> (err_t \<times> tcp_globals) outcome" where
  "tcp_accept_null e s pcb = lwip_assert (pcb \<noteq> None) (bnd (tcp_abort e s pcb) (\<lambda>s. Inr (ERR_ABRT, s)))"

definition call_recv :: "tcp_env \<Rightarrow> tcp_globals \<Rightarrow> tcp_recv_fn \<Rightarrow> nat \<Rightarrow> nat \<Rightarrow> pptr \<Rightarrow> err_t \<Rightarrow> (err_t \<times> tcp_globals) outcome" where
  "call_recv e s f arg i p err = (case f of Tcp_recv_null \<Rightarrow> tcp_recv_null e s i p err | App_recv n \<Rightarrow> app_recv e n arg i p err s)"

definition TCP_EVENT_RECV :: "tcp_env \<Rightarrow> tcp_globals \<Rightarrow> nat \<Rightarrow> pptr \<Rightarrow> err_t \<Rightarrow> (err_t \<times> tcp_globals) outcome" where
  "TCP_EVENT_RECV e s i p err = bnd (get_tcp s i) (\<lambda>c. case t_recv c of
     Some f \<Rightarrow> call_recv e s f (t_callback_arg c) i p err | None \<Rightarrow> tcp_recv_null e s i p err)"

definition TCP_EVENT_CLOSED :: "tcp_env \<Rightarrow> tcp_globals \<Rightarrow> nat \<Rightarrow> (err_t \<times> tcp_globals) outcome" where
  "TCP_EVENT_CLOSED e s i = bnd (get_tcp s i) (\<lambda>c. case t_recv c of
     Some f \<Rightarrow> call_recv e s f (t_callback_arg c) i None ERR_OK | None \<Rightarrow> Inr (ERR_OK, s))"

definition TCP_EVENT_ACCEPT :: "tcp_env \<Rightarrow> tcp_globals \<Rightarrow> nat \<Rightarrow> nat option \<Rightarrow> nat \<Rightarrow> err_t \<Rightarrow> (err_t \<times> tcp_globals) outcome" where
  "TCP_EVENT_ACCEPT e s lpcb pcb arg err = bnd (get_lpcb s lpcb) (\<lambda>l. case l_accept l of
     None \<Rightarrow> Inr (ERR_ARG, s)
   | Some Tcp_accept_null \<Rightarrow> tcp_accept_null e s pcb
   | Some (App_accept n) \<Rightarrow> app_accept e n arg pcb err s)"

definition TCP_EVENT_SENT :: "tcp_env \<Rightarrow> tcp_globals \<Rightarrow> nat \<Rightarrow> u16_t \<Rightarrow> (err_t \<times> tcp_globals) outcome" where
  "TCP_EVENT_SENT e s i space = bnd (get_tcp s i) (\<lambda>c. case t_sent c of
     None \<Rightarrow> Inr (ERR_OK, s) | Some n \<Rightarrow> app_sent e n (t_callback_arg c) i space s)"

definition TCP_EVENT_CONNECTED :: "tcp_env \<Rightarrow> tcp_globals \<Rightarrow> nat \<Rightarrow> err_t \<Rightarrow> (err_t \<times> tcp_globals) outcome" where
  "TCP_EVENT_CONNECTED e s i err = bnd (get_tcp s i) (\<lambda>c. case t_connected c of
     None \<Rightarrow> Inr (ERR_OK, s) | Some n \<Rightarrow> app_connected e n (t_callback_arg c) i err s)"

definition TCP_EVENT_POLL :: "tcp_env \<Rightarrow> tcp_globals \<Rightarrow> nat \<Rightarrow> (err_t \<times> tcp_globals) outcome" where
  "TCP_EVENT_POLL e s i = bnd (get_tcp s i) (\<lambda>c. case t_poll c of
     None \<Rightarrow> Inr (ERR_OK, s) | Some n \<Rightarrow> app_poll e n (t_callback_arg c) i s)"

abbreviation (input) PBUF_FLAG_TCP_FIN :: u8_t where "PBUF_FLAG_TCP_FIN \<equiv> 0x20"

text \<open>The window grows by one when a FIN is given to the application.\<close>

definition tcp_fin_delivered :: "tcp_pcb \<Rightarrow> tcp_pcb" where
  "tcp_fin_delivered c = (if rcv_wnd c \<noteq> TCP_WND then c\<lparr>rcv_wnd := rcv_wnd c + 1\<rparr> else c)"

definition tcp_process_refused_data :: "tcp_env \<Rightarrow> tcp_globals \<Rightarrow> nat option \<Rightarrow> (err_t \<times> tcp_globals) outcome" where
  "tcp_process_refused_data e s pcb = (case pcb of None \<Rightarrow> Inl Abort
     | Some i \<Rightarrow>
         bnd (get_tcp s i) (\<lambda>c.
         bnd (pget (theap s) (refused_data c)) (\<lambda>b.
         bnd (TCP_EVENT_RECV e (set_tcp s i (c\<lparr>refused_data := None\<rparr>)) i (refused_data c) ERR_OK) (\<lambda>(err, s).
         if err = ERR_OK then
           if p_flags b AND PBUF_FLAG_TCP_FIN \<noteq> 0 then
             bnd (upd_pcb s i tcp_fin_delivered) (\<lambda>s.
             bnd (TCP_EVENT_CLOSED e s i) (\<lambda>(err, s). Inr (if err = ERR_ABRT then ERR_ABRT else ERR_OK, s)))
           else Inr (ERR_OK, s)
         else if err = ERR_ABRT then Inr (ERR_ABRT, s)
         else bnd (upd_pcb s i (\<lambda>d. d\<lparr>refused_data := refused_data c\<rparr>)) (\<lambda>s. Inr (ERR_INPROGRESS, s))))))"

section \<open>Allocation\<close>

text \<open>The pcb of the list that was not used for the longest time; \<open>pick\<close> selects the candidates.\<close>

fun oldest_loop :: "tcp_globals \<Rightarrow> (tcp_pcb \<Rightarrow> bool) \<Rightarrow> nat list \<Rightarrow> u32_t \<Rightarrow> nat option \<Rightarrow> nat option outcome" where
  "oldest_loop s pick [] inactivity inactive = Inr inactive"
| "oldest_loop s pick (i # is) inactivity inactive = bnd (get_tcp s i) (\<lambda>c.
     if pick c \<and> tcp_ticks s - tmr c \<ge> inactivity then oldest_loop s pick is (tcp_ticks s - tmr c) (Some i)
     else oldest_loop s pick is inactivity inactive)"

fun kill_prio_loop :: "tcp_globals \<Rightarrow> nat list \<Rightarrow> u8_t \<Rightarrow> u32_t \<Rightarrow> nat option \<Rightarrow> nat option outcome" where
  "kill_prio_loop s [] mprio inactivity inactive = Inr inactive"
| "kill_prio_loop s (i # is) mprio inactivity inactive = bnd (get_tcp s i) (\<lambda>c.
     if t_prio c < mprio \<or> t_prio c = mprio \<and> tcp_ticks s - tmr c \<ge> inactivity
     then kill_prio_loop s is (t_prio c) (tcp_ticks s - tmr c) (Some i)
     else kill_prio_loop s is mprio inactivity inactive)"

definition tcp_kill_prio :: "tcp_env \<Rightarrow> tcp_globals \<Rightarrow> u8_t \<Rightarrow> tcp_globals outcome" where
  "tcp_kill_prio e s prio =
     (let mprio = min TCP_PRIO_MAX prio in
      if mprio = 0 then Inr s
      else bnd (kill_prio_loop s (tcp_active_pcbs s) (mprio - 1) 0 None) (\<lambda>inactive.
        if inactive \<noteq> None then tcp_abort e s inactive else Inr s))"

definition tcp_kill_state :: "tcp_env \<Rightarrow> tcp_globals \<Rightarrow> tcp_state \<Rightarrow> tcp_globals outcome" where
  "tcp_kill_state e s st = lwip_assert (st = CLOSING \<or> st = LAST_ACK) (
     bnd (oldest_loop s (\<lambda>c. t_state c = st) (tcp_active_pcbs s) 0 None) (\<lambda>inactive.
     if inactive \<noteq> None then tcp_abandon e s inactive False else Inr s))"

definition tcp_kill_timewait :: "tcp_env \<Rightarrow> tcp_globals \<Rightarrow> tcp_globals outcome" where
  "tcp_kill_timewait e s =
     bnd (oldest_loop s (\<lambda>_. True) (tcp_tw_pcbs s) 0 None) (\<lambda>inactive.
     if inactive \<noteq> None then tcp_abort e s inactive else Inr s)"

text \<open>The list is \<^verbatim>\<open>tcp_active_pcbs\<close>, which the loop does not change.\<close>

fun tcp_handle_closepend :: "tcp_env \<Rightarrow> tcp_globals \<Rightarrow> nat list \<Rightarrow> tcp_globals outcome" where
  "tcp_handle_closepend e s [] = Inr s"
| "tcp_handle_closepend e s (i # is) = bnd (get_tcp s i) (\<lambda>c.
     bnd (if t_flags c AND TF_CLOSEPEND \<noteq> 0
          then bnd (tcp_close_shutdown_fin e (set_tcp s i (tcp_clear_flags c TF_CLOSEPEND)) i) (\<lambda>(_, s). Inr s)
          else Inr s) (\<lambda>s.
     tcp_handle_closepend e s is))"

definition new_pcb :: "tcp_globals \<Rightarrow> u8_t \<Rightarrow> tcp_pcb" where
  "new_pcb s prio = \<lparr>t_local_ip = IP4_ADDR_ANY, t_remote_ip = IP4_ADDR_ANY, t_netif_idx = 0, t_so_options = 0, t_tos = 0, t_ttl = TCP_TTL,
     t_callback_arg = 0, t_state = CLOSED, t_prio = prio, t_local_port = 0, t_remote_port = 0, t_flags = 0, polltmr = 0, pollinterval = 0,
     last_timer = tcp_timer_ctr s, tmr = tcp_ticks s, rcv_nxt = 0, rcv_wnd = TCP_WND, rcv_ann_wnd = TCP_WND, rcv_ann_right_edge = 0,
     rtime = - 1, mss = INITIAL_MSS, rttest = 0, rtseq = 0, sa = 0, sv = 6, rto = 6, nrtx = 0, dupacks = 0, lastack = 0, cwnd = 1,
     ssthresh = TCP_SND_BUF, rto_end = 0, snd_nxt = 0, snd_wl1 = 0, snd_wl2 = 0, snd_lbb = 0, snd_wnd = 0, snd_wnd_max = 0,
     snd_buf = TCP_SND_BUF, snd_queuelen = 0, unsent_oversize = 0, bytes_acked = 0, unsent = [], unacked = [], ooseq = [],
     refused_data = None, listener = None, t_sent = None, t_recv = Some Tcp_recv_null, t_connected = None, t_poll = None, t_errf = None,
     keep_idle = 7200000, persist_cnt = 0, persist_backoff = 0, persist_probe = 0, keep_cnt_sent = 0\<rparr>"

text \<open>Each step frees other pcbs and tries the allocation again.\<close>

definition tcp_alloc_retry :: "(tcp_globals \<Rightarrow> tcp_globals outcome) \<Rightarrow> nat option \<times> tcp_globals \<Rightarrow> (nat option \<times> tcp_globals) outcome" where
  "tcp_alloc_retry kill r = (case r of (Some i, s) \<Rightarrow> Inr (Some i, s)
     | (None, s) \<Rightarrow> bnd (kill s) (\<lambda>s. Inr (tcp_pcb_malloc s)))"

definition tcp_alloc :: "tcp_env \<Rightarrow> tcp_globals \<Rightarrow> u8_t \<Rightarrow> (nat option \<times> tcp_globals) outcome" where
  "tcp_alloc e s prio =
     bnd (tcp_alloc_retry (\<lambda>s. bnd (tcp_handle_closepend e s (tcp_active_pcbs s)) (tcp_kill_timewait e)) (tcp_pcb_malloc s)) (\<lambda>r.
     bnd (tcp_alloc_retry (\<lambda>s. tcp_kill_state e s LAST_ACK) r) (\<lambda>r.
     bnd (tcp_alloc_retry (\<lambda>s. tcp_kill_state e s CLOSING) r) (\<lambda>r.
     bnd (tcp_alloc_retry (\<lambda>s. tcp_kill_prio e s prio) r) (\<lambda>r.
     case r of (None, s) \<Rightarrow> Inr (None, s) | (Some i, s) \<Rightarrow> Inr (Some i, set_tcp s i (new_pcb s prio))))))"

definition tcp_new :: "tcp_env \<Rightarrow> tcp_globals \<Rightarrow> (nat option \<times> tcp_globals) outcome" where
  "tcp_new e s = tcp_alloc e s TCP_PRIO_NORMAL"

definition tcp_new_ip_type :: "tcp_env \<Rightarrow> tcp_globals \<Rightarrow> u8_t \<Rightarrow> (nat option \<times> tcp_globals) outcome" where
  "tcp_new_ip_type e s ty = bnd (tcp_alloc e s TCP_PRIO_NORMAL) (\<lambda>(pcb, s). case pcb of None \<Rightarrow> Inr (None, s)
     | Some i \<Rightarrow> bnd (upd_pcb s i (\<lambda>c. c\<lparr>t_local_ip := (t_local_ip c)\<lparr>ip_type := ty\<rparr>, t_remote_ip := (t_remote_ip c)\<lparr>ip_type := ty\<rparr>\<rparr>)) (\<lambda>s.
         Inr (Some i, s)))"

section \<open>Connecting\<close>

text \<open>The addresses of the pcb: \<open>None\<close> if there is no route.\<close>

definition tcp_connect_addrs :: "tcp_env \<Rightarrow> tcp_globals \<Rightarrow> tcp_pcb \<Rightarrow> ip_addr_t \<Rightarrow> u16_t \<Rightarrow> (tcp_pcb \<times> netif option)" where
  "tcp_connect_addrs e s c ipaddr port =
     (let c = c\<lparr>t_remote_ip := ip_addr_set ipaddr, t_remote_port := port\<rparr>
      in case (if t_netif_idx c \<noteq> NETIF_NO_INDEX then netif_get_by_index (t_netifs s) (t_netif_idx c)
               else tcp_ip_route e (t_netifs s) (t_local_ip c) (t_remote_ip c)) of
           None \<Rightarrow> (c, None)
         | Some nif \<Rightarrow>
             (case (if ip_addr_isany (t_local_ip c) then tcp_netif_local_ip e nif ipaddr else Some (t_local_ip c)) of
                None \<Rightarrow> (c, None)
              | Some lip \<Rightarrow>
                  (let c = (if ip_addr_isany (t_local_ip c) then c\<lparr>t_local_ip := ip_addr_set lip\<rparr> else c);
                       r = t_remote_ip c
                   in (if IP_IS_V6 r \<and> ip6_addr_lacks_zone r
                       then c\<lparr>t_remote_ip := r\<lparr>ip_zone := (if ip6_addr_has_scope r then netif_get_index nif else 0)\<rparr>\<rparr> else c, Some nif))))"

definition tcp_connect :: "tcp_env \<Rightarrow> tcp_globals \<Rightarrow> nat option \<Rightarrow> ip_addr_t option \<Rightarrow> u16_t \<Rightarrow> nat option \<Rightarrow> (err_t \<times> tcp_globals) outcome" where
  "tcp_connect e s pcb ipaddr port connected = (case (pcb, ipaddr) of
     (Some i, Some a) \<Rightarrow>
       bnd (pcb_state s i) (\<lambda>st. lwip_assert (st = CLOSED) (
       bnd (get_tcp s i) (\<lambda>c.
       case tcp_connect_addrs e s c a port of
         (c, None) \<Rightarrow> Inr (ERR_RTE, set_tcp s i c)
       | (c, Some nif) \<Rightarrow>
           let old_local_port = t_local_port c;
               (lport, s) = (if t_local_port c = 0 then tcp_new_port s else (t_local_port c, s))
           in if lport = 0 then Inr (ERR_BUF, set_tcp s i (c\<lparr>t_local_port := 0\<rparr>))
              else
                let (iss, s) = tcp_next_iss s;
                    c = c\<lparr>t_local_port := lport, rcv_nxt := 0, snd_nxt := iss, lastack := iss - 1, snd_wl2 := iss - 1, snd_lbb := iss - 1,
                          rcv_wnd := TCP_WND, rcv_ann_wnd := TCP_WND, rcv_ann_right_edge := 0, snd_wnd := TCP_WND,
                          mss := tcp_eff_send_mss_netif e INITIAL_MSS (Some nif) (t_remote_ip c), cwnd := 1, t_connected := connected\<rparr>
                in bnd (on_pcb (set_tcp s i c) i (\<lambda>cx h c. tcp_enqueue_flags h c TCP_SYN)) (\<lambda>(ret, s).
                   if ret = ERR_OK then
                     bnd (upd_pcb s i (\<lambda>c. c\<lparr>t_state := SYN_SENT\<rparr>)) (\<lambda>s.
                     bnd (TCP_REG_ACTIVE (if old_local_port \<noteq> 0 then TCP_RMV L_bound s i else s) i) (\<lambda>s.
                     bnd (on_pcb s i (tcp_output e)) (\<lambda>(_, s). Inr (ERR_OK, s))))
                   else Inr (ret, s)))))
   | _ \<Rightarrow> Inl Abort)"


section \<open>Timers\<close>

definition tcp_backoff :: "nat list" where
  "tcp_backoff = [1, 2, 3, 4, 5, 6, 7, 7, 7, 7, 7, 7, 7]"

definition tcp_persist_backoff :: "u8_t list" where
  "tcp_persist_backoff = [3, 6, 12, 24, 48, 96, 120]"

abbreviation (input) TCP_MAXRTX :: u8_t where "TCP_MAXRTX \<equiv> 12"
abbreviation (input) TCP_SYNMAXRTX :: u8_t where "TCP_SYNMAXRTX \<equiv> 6"
abbreviation (input) TCP_MSL_TICKS :: u32_t where "TCP_MSL_TICKS \<equiv> 240"
abbreviation (input) SOF_KEEPALIVE :: u8_t where "SOF_KEEPALIVE \<equiv> 0x08"

text \<open>The persist timer; \<open>True\<close> for \<^verbatim>\<open>++pcb_remove\<close>.\<close>

definition slowtmr_persist :: "tcp_env \<Rightarrow> tcp_cx \<Rightarrow> heap \<Rightarrow> tcp_pcb \<Rightarrow> (bool \<times> tcp_pcb \<times> heap) outcome" where
  "slowtmr_persist e cx h c =
     lwip_assert (unacked c = [] \<and> unsent c \<noteq> []) (
     if persist_probe c \<ge> TCP_MAXRTX then Inr (True, c, h)
     else
       bnd (buf_get tcp_persist_backoff (unat (persist_backoff c - 1))) (\<lambda>backoff_cnt.
       let c = (if persist_cnt c < backoff_cnt then c\<lparr>persist_cnt := persist_cnt c + 1\<rparr> else c) in
       if persist_cnt c \<ge> backoff_cnt then
         bnd (if snd_wnd c = 0 then bnd (tcp_zero_window_probe e cx h c) (\<lambda>(err, c, h). Inr (err = ERR_OK, c, h))
              else
                bnd (tcp_split_unsent_seg (t_odd e) h c (snd_wnd c)) (\<lambda>(err, c, h).
                if err = ERR_OK then bnd (tcp_output e cx h c) (\<lambda>(err, c, h). Inr (err \<noteq> ERR_OK, c, h))
                else Inr (True, c, h))) (\<lambda>(next_slot, c, h).
         Inr (False, if next_slot then c\<lparr>persist_cnt := 0, persist_backoff := (if persist_backoff c < 7 then persist_backoff c + 1 else persist_backoff c)\<rparr>
                else c, h))
       else Inr (False, c, h)))"

text \<open>The retransmission timer.\<close>

definition slowtmr_rexmit :: "tcp_env \<Rightarrow> tcp_cx \<Rightarrow> heap \<Rightarrow> tcp_pcb \<Rightarrow> (tcp_pcb \<times> heap) outcome" where
  "slowtmr_rexmit e cx h c =
     (let c = (if 0 \<le> sint (rtime c) \<and> sint (rtime c) < 0x7fff then c\<lparr>rtime := rtime c + 1\<rparr> else c) in
      if sint (rtime c) \<ge> sint (rto c) then
        bnd (tcp_rexmit_rto_prepare h c) (\<lambda>(err, c).
        if err = ERR_OK \<or> unacked c = [] \<and> unsent c \<noteq> [] then
          let c = (if t_state c \<noteq> SYN_SENT then
                c\<lparr>rto := word_of_int (min ((sint (sa c) div 8 + sint (sv c)) * 2 ^ (tcp_backoff ! min (unat (nrtx c)) 12)) 0x7fff)\<rparr> else c);
              eff_wnd = min (cwnd c) (snd_wnd c);
              c = c\<lparr>rtime := 0, ssthresh := (if drop_bit 1 eff_wnd < push_bit 1 (mss c) then push_bit 1 (mss c) else drop_bit 1 eff_wnd),
                    cwnd := mss c, bytes_acked := 0\<rparr>
          in tcp_rexmit_rto_commit e cx h c
        else Inr (c, h))
      else Inr (c, h))"

text \<open>Keepalive; the results are \<^verbatim>\<open>pcb_remove\<close> with \<^verbatim>\<open>pcb_reset\<close>.\<close>

definition slowtmr_keepalive :: "tcp_env \<Rightarrow> tcp_cx \<Rightarrow> heap \<Rightarrow> tcp_pcb \<Rightarrow> (bool \<times> tcp_pcb \<times> heap) outcome" where
  "slowtmr_keepalive e cx h c =
     (if t_so_options c AND SOF_KEEPALIVE \<noteq> 0 \<and> t_state c \<in> {ESTABLISHED, CLOSE_WAIT} then
        if cx_ticks cx - tmr c > (keep_idle c + 675000) div TCP_SLOW_INTERVAL then Inr (True, c, h)
        else if cx_ticks cx - tmr c > (keep_idle c + ucast (keep_cnt_sent c) * 75000) div TCP_SLOW_INTERVAL then
          bnd (tcp_keepalive e cx h c) (\<lambda>(err, c, h).
          Inr (False, if err = ERR_OK then c\<lparr>keep_cnt_sent := keep_cnt_sent c + 1\<rparr> else c, h))
        else Inr (False, c, h)
      else Inr (False, c, h))"

text \<open>What the slow timer does to one active pcb, and whether the pcb is to be removed and to be reset.\<close>

definition slowtmr_pcb :: "tcp_env \<Rightarrow> tcp_cx \<Rightarrow> heap \<Rightarrow> tcp_pcb \<Rightarrow> ((bool \<times> bool) \<times> tcp_pcb \<times> heap) outcome" where
  "slowtmr_pcb e cx h c =
     bnd (if t_state c = SYN_SENT \<and> nrtx c \<ge> TCP_SYNMAXRTX then Inr (True, c, h)
          else if nrtx c \<ge> TCP_MAXRTX then Inr (True, c, h)
          else if persist_backoff c > 0 then slowtmr_persist e cx h c
          else bnd (slowtmr_rexmit e cx h c) (\<lambda>(c, h). Inr (False, c, h))) (\<lambda>(rem1, c, h).
     let idle = (\<lambda>c. cx_ticks cx - tmr c);
         rem2 = (t_state c = FIN_WAIT_2 \<and> t_flags c AND TF_RXCLOSED \<noteq> 0 \<and> idle c > 40) in
     bnd (slowtmr_keepalive e cx h c) (\<lambda>(rem3, c, h).
     bnd (if ooseq c \<noteq> [] \<and> idle c \<ge> scast (rto c) * 6 then tcp_free_ooseq h c else Inr (c, h)) (\<lambda>(c, h).
     let rem4 = (t_state c = SYN_RCVD \<and> idle c > 40); rem5 = (t_state c = LAST_ACK \<and> idle c > TCP_MSL_TICKS)
     in Inr ((rem1 \<or> rem2 \<or> rem3 \<or> rem4 \<or> rem5, rem3), c, h))))"

text \<open>
  The walk over the active pcbs; the list holds those that follow. It starts again when a callback changed the list; a pcb is
  not processed twice, since \<^verbatim>\<open>last_timer\<close> marks it.
\<close>

fun tcp_slowtmr_loop :: "nat \<Rightarrow> tcp_env \<Rightarrow> tcp_globals \<Rightarrow> nat list \<Rightarrow> tcp_globals outcome" where
  "tcp_slowtmr_loop 0 e s is = Inl Diverge"
| "tcp_slowtmr_loop (Suc n) e s [] = Inr s"
| "tcp_slowtmr_loop (Suc n) e s (i # is) =
     bnd (get_tcp s i) (\<lambda>c. lwip_assert (t_state c \<notin> {CLOSED, LISTEN, TIME_WAIT}) (
     if last_timer c = tcp_timer_ctr s then tcp_slowtmr_loop n e s is
     else
       bnd (on_pcb (set_tcp s i (c\<lparr>last_timer := tcp_timer_ctr s\<rparr>)) i (slowtmr_pcb e)) (\<lambda>((pcb_remove, pcb_reset), s).
       if pcb_remove then
         bnd (on_pcb s i (\<lambda>cx h c. bnd (tcp_pcb_purge h c) (\<lambda>(c, h). Inr ((), c, h)))) (\<lambda>(_, s).
         bnd (get_tcp s i) (\<lambda>c.
         let s = TCP_RMV L_active s i in
         bnd (if pcb_reset then send_rst e s c (snd_nxt c) (rcv_nxt c) else Inr s) (\<lambda>s.
         bnd (tcp_free s i) (\<lambda>s.
         bnd (TCP_EVENT_ERR e (s\<lparr>tcp_active_pcbs_changed := False\<rparr>) (t_errf c) (t_callback_arg c) ERR_ABRT) (\<lambda>s.
         tcp_slowtmr_loop n e s (if tcp_active_pcbs_changed s then tcp_active_pcbs s else is))))))
       else
         bnd (upd_pcb s i (\<lambda>c. c\<lparr>polltmr := polltmr c + 1\<rparr>)) (\<lambda>s.
         bnd (get_tcp s i) (\<lambda>c.
         if polltmr c \<ge> pollinterval c then
           bnd (TCP_EVENT_POLL e ((set_tcp s i (c\<lparr>polltmr := 0\<rparr>))\<lparr>tcp_active_pcbs_changed := False\<rparr>) i) (\<lambda>(err, s).
           if tcp_active_pcbs_changed s then tcp_slowtmr_loop n e s (tcp_active_pcbs s)
           else
             bnd (if err = ERR_OK then bnd (on_pcb s i (tcp_output e)) (\<lambda>(_, s). Inr s) else Inr s) (\<lambda>s.
             tcp_slowtmr_loop n e s is))
         else tcp_slowtmr_loop n e s is)))))"

text \<open>The walk over the pcbs in \<^verbatim>\<open>TIME-WAIT\<close>.\<close>

fun tcp_slowtmr_tw :: "tcp_globals \<Rightarrow> nat list \<Rightarrow> tcp_globals outcome" where
  "tcp_slowtmr_tw s [] = Inr s"
| "tcp_slowtmr_tw s (i # is) =
     bnd (get_tcp s i) (\<lambda>c. lwip_assert (t_state c = TIME_WAIT) (
     if tcp_ticks s - tmr c > TCP_MSL_TICKS then
       bnd (on_pcb s i (\<lambda>cx h c. bnd (tcp_pcb_purge h c) (\<lambda>(c, h). Inr ((), c, h)))) (\<lambda>(_, s).
       bnd (tcp_free (TCP_RMV L_tw s i) i) (\<lambda>s. tcp_slowtmr_tw s is))
     else tcp_slowtmr_tw s is))"

definition tcp_slowtmr :: "nat \<Rightarrow> tcp_env \<Rightarrow> tcp_globals \<Rightarrow> tcp_globals outcome" where
  "tcp_slowtmr n e s =
     (let s = s\<lparr>tcp_ticks := tcp_ticks s + 1, tcp_timer_ctr := tcp_timer_ctr s + 1\<rparr>
      in bnd (tcp_slowtmr_loop n e s (tcp_active_pcbs s)) (\<lambda>s. tcp_slowtmr_tw s (tcp_tw_pcbs s)))"

fun tcp_fasttmr_loop :: "nat \<Rightarrow> tcp_env \<Rightarrow> tcp_globals \<Rightarrow> nat list \<Rightarrow> tcp_globals outcome" where
  "tcp_fasttmr_loop 0 e s is = Inl Diverge"
| "tcp_fasttmr_loop (Suc n) e s [] = Inr s"
| "tcp_fasttmr_loop (Suc n) e s (i # is) =
     bnd (get_tcp s i) (\<lambda>c.
     if last_timer c \<noteq> tcp_timer_ctr s then
       let c = c\<lparr>last_timer := tcp_timer_ctr s\<rparr> in
       bnd (on_pcb (set_tcp s i c) i (\<lambda>cx h c.
         if t_flags c AND TF_ACK_DELAY \<noteq> 0 then
           bnd (tcp_output e cx h (tcp_ack_now c)) (\<lambda>(_, c, h). Inr ((), tcp_clear_flags c (TF_ACK_DELAY OR TF_ACK_NOW), h))
         else Inr ((), c, h))) (\<lambda>(_, s).
       bnd (get_tcp s i) (\<lambda>c.
       bnd (if t_flags c AND TF_CLOSEPEND \<noteq> 0
            then bnd (tcp_close_shutdown_fin e (set_tcp s i (tcp_clear_flags c TF_CLOSEPEND)) i) (\<lambda>(_, s). Inr s) else Inr s) (\<lambda>s.
       bnd (get_tcp s i) (\<lambda>c.
       if refused_data c \<noteq> None then
         bnd (tcp_process_refused_data e (s\<lparr>tcp_active_pcbs_changed := False\<rparr>) (Some i)) (\<lambda>(_, s).
         tcp_fasttmr_loop n e s (if tcp_active_pcbs_changed s then tcp_active_pcbs s else is))
       else tcp_fasttmr_loop n e s is))))
     else tcp_fasttmr_loop n e s is)"

definition tcp_fasttmr :: "nat \<Rightarrow> tcp_env \<Rightarrow> tcp_globals \<Rightarrow> tcp_globals outcome" where
  "tcp_fasttmr n e s = (let s = s\<lparr>tcp_timer_ctr := tcp_timer_ctr s + 1\<rparr> in tcp_fasttmr_loop n e s (tcp_active_pcbs s))"

definition tcp_tmr :: "nat \<Rightarrow> tcp_env \<Rightarrow> tcp_globals \<Rightarrow> tcp_globals outcome" where
  "tcp_tmr n e s = bnd (tcp_fasttmr n e s) (\<lambda>s.
     let s = s\<lparr>tcp_timer := tcp_timer s + 1\<rparr> in if tcp_timer s AND 1 \<noteq> 0 then tcp_slowtmr n e s else Inr s)"

section \<open>The rest\<close>

fun tcp_txnow_loop :: "tcp_env \<Rightarrow> tcp_globals \<Rightarrow> nat list \<Rightarrow> tcp_globals outcome" where
  "tcp_txnow_loop e s [] = Inr s"
| "tcp_txnow_loop e s (i # is) = bnd (get_tcp s i) (\<lambda>c.
     bnd (if t_flags c AND TF_NAGLEMEMERR \<noteq> 0 then bnd (on_pcb s i (tcp_output e)) (\<lambda>(_, s). Inr s) else Inr s) (\<lambda>s. tcp_txnow_loop e s is))"

definition tcp_txnow :: "tcp_env \<Rightarrow> tcp_globals \<Rightarrow> tcp_globals outcome" where
  "tcp_txnow e s = tcp_txnow_loop e s (tcp_active_pcbs s)"

text \<open>The successor is read before the pcb is aborted; a callback that changes the list behind it is not foreseen by the code.\<close>

fun tcp_netif_ip_addr_changed_pcblist :: "tcp_env \<Rightarrow> tcp_globals \<Rightarrow> ip_addr_t \<Rightarrow> nat list \<Rightarrow> tcp_globals outcome" where
  "tcp_netif_ip_addr_changed_pcblist e s old_addr [] = Inr s"
| "tcp_netif_ip_addr_changed_pcblist e s old_addr (i # is) = bnd (get_tcp s i) (\<lambda>c.
     bnd (if ip_addr_cmp (t_local_ip c) old_addr then tcp_abort e s (Some i) else Inr s) (\<lambda>s.
     tcp_netif_ip_addr_changed_pcblist e s old_addr is))"

fun tcp_listen_ip_changed :: "tcp_globals \<Rightarrow> ip_addr_t \<Rightarrow> ip_addr_t \<Rightarrow> nat list \<Rightarrow> tcp_globals outcome" where
  "tcp_listen_ip_changed s old_addr new_addr [] = Inr s"
| "tcp_listen_ip_changed s old_addr new_addr (i # is) = bnd (get_lpcb s i) (\<lambda>l.
     tcp_listen_ip_changed (if ip_addr_cmp (l_local_ip l) old_addr then set_lpcb s i (l\<lparr>l_local_ip := ip_addr_set new_addr\<rparr>) else s)
       old_addr new_addr is)"

definition tcp_netif_ip_addr_changed :: "tcp_env \<Rightarrow> tcp_globals \<Rightarrow> ip_addr_t \<Rightarrow> ip_addr_t \<Rightarrow> tcp_globals outcome" where
  "tcp_netif_ip_addr_changed e s old_addr new_addr =
     (if \<not> ip_addr_isany old_addr then
        bnd (tcp_netif_ip_addr_changed_pcblist e s old_addr (tcp_active_pcbs s)) (\<lambda>s.
        bnd (tcp_netif_ip_addr_changed_pcblist e s old_addr (tcp_bound_pcbs s)) (\<lambda>s.
        if \<not> ip_addr_isany new_addr then tcp_listen_ip_changed s old_addr new_addr (tcp_listen_pcbs s) else Inr s))
      else Inr s)"

text \<open>\<^verbatim>\<open>pbuf_free_ooseq\<close> of \<^verbatim>\<open>core/pbuf.c\<close>: the out-of-sequence data of the first pcb that has any.\<close>

fun pbuf_free_ooseq_loop :: "tcp_globals \<Rightarrow> nat list \<Rightarrow> tcp_globals outcome" where
  "pbuf_free_ooseq_loop s [] = Inr s"
| "pbuf_free_ooseq_loop s (i # is) = bnd (get_tcp s i) (\<lambda>c.
     if ooseq c \<noteq> [] then bnd (on_pcb s i (\<lambda>cx h c. bnd (tcp_free_ooseq h c) (\<lambda>(c, h). Inr ((), c, h)))) (\<lambda>(_, s). Inr s)
     else pbuf_free_ooseq_loop s is)"

definition pbuf_free_ooseq :: "tcp_globals \<Rightarrow> tcp_globals outcome" where
  "pbuf_free_ooseq s = pbuf_free_ooseq_loop (s\<lparr>theap := (theap s)\<lparr>pbuf_free_ooseq_pending := 0\<rparr>\<rparr>) (tcp_active_pcbs s)"

end
