(* ===== verification/Tcp_In.thy ===== *)
theory Tcp_In
  imports Tcp_C
begin

text \<open>
  \<^verbatim>\<open>core/tcp_in.c\<close>: the way of a segment from IP to a connection. \<open>tcp_receive\<close> and what it calls work on one pcb, the heap and the
  variables of the module.
\<close>

abbreviation (input) TF_RESET :: u8_t where "TF_RESET \<equiv> 0x08"
abbreviation (input) TF_GOT_FIN :: u8_t where "TF_GOT_FIN \<equiv> 0x20"
abbreviation (input) PBUF_FLAG_PUSH :: u8_t where "PBUF_FLAG_PUSH \<equiv> 0x01"
abbreviation (input) SOF_INHERITED :: u8_t where "SOF_INHERITED \<equiv> 0x0c"

section \<open>Options\<close>

text \<open>The byte of the options at \<open>optidx\<close>, which lie behind the header or, from \<^verbatim>\<open>tcphdr_opt1len\<close> on, in the second pbuf.\<close>

definition tcp_get_next_optbyte :: "heap \<Rightarrow> tcp_in \<Rightarrow> u16_t \<Rightarrow> u8_t outcome" where
  "tcp_get_next_optbyte h t optidx =
     (if tcphdr_opt2 t = None \<or> optidx < tcphdr_opt1len t
      then bnd (mem_read h (i_tcphdr t) (TCP_HLEN + unat optidx) 1) (\<lambda>bs. Inr (bs ! 0))
      else bnd (mem_read h (tcphdr_opt2 t) (unat (ucast (optidx - tcphdr_opt1len t) :: u8_t)) 1) (\<lambda>bs. Inr (bs ! 0)))"

text \<open>The loop of \<^verbatim>\<open>tcp_parseopt\<close>; \<open>m\<close> is \<^verbatim>\<open>pcb->mss\<close>. Every round moves the index on; the fuel is the number of bytes.\<close>

fun parseopt_loop :: "nat \<Rightarrow> heap \<Rightarrow> tcp_in \<Rightarrow> u16_t \<Rightarrow> u16_t \<Rightarrow> u16_t outcome" where
  "parseopt_loop 0 h t optidx m = (if optidx < tcphdr_optlen t then Inl Diverge else Inr m)"
| "parseopt_loop (Suc n) h t optidx m =
     (if optidx < tcphdr_optlen t then
        bnd (tcp_get_next_optbyte h t optidx) (\<lambda>opt.
        if opt = 0 then Inr m
        else if opt = 1 then parseopt_loop n h t (optidx + 1) m
        else
          bnd (tcp_get_next_optbyte h t (optidx + 1)) (\<lambda>len.
          if opt = 2 then
            if len \<noteq> 4 \<or> unat optidx + 4 > unat (tcphdr_optlen t) then Inr m
            else
              bnd (tcp_get_next_optbyte h t (optidx + 2)) (\<lambda>a.
              bnd (tcp_get_next_optbyte h t (optidx + 3)) (\<lambda>b.
              let v = push_bit 8 (ucast a) OR ucast b
              in parseopt_loop n h t (optidx + 4) (if v > TCP_MSS \<or> v = 0 then TCP_MSS else v)))
          else if len < 2 then Inr m
          else parseopt_loop n h t (optidx + 2 + ucast (len - 2)) m))
      else Inr m)"

definition tcp_parseopt :: "heap \<Rightarrow> tcp_in \<Rightarrow> tcp_pcb \<Rightarrow> tcp_pcb outcome" where
  "tcp_parseopt h t c = (if tcphdr_optlen t \<noteq> 0
     then bnd (parseopt_loop (unat (tcphdr_optlen t)) h t 0 (mss c)) (\<lambda>m. Inr (c\<lparr>mss := m\<rparr>)) else Inr c)"

section \<open>Acknowledgements\<close>

text \<open>\<open>other\<close> is the other queue, which only the assertion reads.\<close>

fun tcp_free_acked_segments ::
  "heap \<Rightarrow> tcp_in \<Rightarrow> tcp_pcb \<Rightarrow> tcp_seg list \<Rightarrow> tcp_seg list \<Rightarrow> (tcp_seg list \<times> tcp_in \<times> tcp_pcb \<times> heap) outcome" where
  "tcp_free_acked_segments h t c [] other = Inr ([], t, c, h)"
| "tcp_free_acked_segments h t c (sg # sgs) other =
     bnd (seg_seqno h sg) (\<lambda>sq.
     bnd (TCP_TCPLEN h sg) (\<lambda>tl.
     if TCP_SEQ_LEQ (sq + tl) (ackno t) then
       bnd (pbuf_clen h (seg_p sg)) (\<lambda>clen. lwip_assert (snd_queuelen c \<ge> clen) (
       let c = c\<lparr>snd_queuelen := snd_queuelen c - clen\<rparr>; t = t\<lparr>recv_acked := recv_acked t + seg_len sg\<rparr> in
       bnd (tcp_seg_free h sg) (\<lambda>h.
       lwip_assert (snd_queuelen c \<noteq> 0 \<longrightarrow> sgs \<noteq> [] \<or> other \<noteq> []) (
       tcp_free_acked_segments h t c sgs other))))
     else Inr (sg # sgs, t, c, h)))"

definition TCP_WND_INC :: "u16_t \<Rightarrow> u16_t \<Rightarrow> u16_t" where
  "TCP_WND_INC wnd inc = (if wnd + inc \<ge> wnd then wnd + inc else - 1)"

definition wnd_update :: "tcp_in \<Rightarrow> u16_t \<Rightarrow> tcp_pcb \<Rightarrow> tcp_pcb" where
  "wnd_update t wnd c =
     (if TCP_SEQ_LT (snd_wl1 c) (seqno t) \<or> snd_wl1 c = seqno t \<and> TCP_SEQ_LT (snd_wl2 c) (ackno t)
         \<or> snd_wl2 c = ackno t \<and> wnd > snd_wnd c
      then c\<lparr>snd_wnd := wnd, snd_wnd_max := (if snd_wnd_max c < wnd then wnd else snd_wnd_max c), snd_wl1 := seqno t, snd_wl2 := ackno t\<rparr>
      else c)"

text \<open>A duplicate ACK, or one that is older than the last.\<close>

definition tcp_dupack :: "heap \<Rightarrow> tcp_in \<Rightarrow> u32_t \<Rightarrow> tcp_pcb \<Rightarrow> tcp_pcb outcome" where
  "tcp_dupack h t right_wnd_edge c =
     (if tcplen t = 0 \<and> snd_wl2 c + ucast (snd_wnd c) = right_wnd_edge \<and> sint (rtime c) \<ge> 0 \<and> lastack c = ackno t then
        let c = (if dupacks c + 1 > dupacks c then c\<lparr>dupacks := dupacks c + 1\<rparr> else c);
            c = (if dupacks c > 3 then c\<lparr>cwnd := TCP_WND_INC (cwnd c) (mss c)\<rparr> else c)
        in if dupacks c \<ge> 3 then tcp_rexmit_fast h c else Inr c
      else Inr (c\<lparr>dupacks := 0\<rparr>))"

definition tcp_grow_cwnd :: "u16_t \<Rightarrow> tcp_pcb \<Rightarrow> tcp_pcb" where
  "tcp_grow_cwnd acked c =
     (if t_state c \<ge> ESTABLISHED then
        if cwnd c < ssthresh c then
          c\<lparr>cwnd := TCP_WND_INC (cwnd c) (min acked (if t_flags c AND TF_RTO \<noteq> 0 then mss c else 2 * mss c))\<rparr>
        else
          let c = c\<lparr>bytes_acked := TCP_WND_INC (bytes_acked c) acked\<rparr>
          in if bytes_acked c \<ge> cwnd c then c\<lparr>bytes_acked := bytes_acked c - cwnd c, cwnd := TCP_WND_INC (cwnd c) (mss c)\<rparr> else c
      else c)"

text \<open>The end of a retransmission after a timeout.\<close>

definition tcp_rto_done :: "heap \<Rightarrow> tcp_pcb \<Rightarrow> tcp_pcb outcome" where
  "tcp_rto_done h c =
     (if t_flags c AND TF_RTO \<noteq> 0 then
        (case unacked c @ unsent c of [] \<Rightarrow> Inr (tcp_clear_flags c TF_RTO)
         | sg # _ \<Rightarrow> bnd (seg_seqno h sg) (\<lambda>sq. Inr (if TCP_SEQ_LEQ (rto_end c) sq then tcp_clear_flags c TF_RTO else c)))
      else Inr c)"

text \<open>An ACK for data that was not acknowledged before.\<close>

definition tcp_new_ack :: "heap \<Rightarrow> tcp_in \<Rightarrow> tcp_pcb \<Rightarrow> (tcp_in \<times> tcp_pcb \<times> heap) outcome" where
  "tcp_new_ack h t c =
     (let c = (if t_flags c AND TF_INFR \<noteq> 0 then (tcp_clear_flags c TF_INFR)\<lparr>cwnd := ssthresh c, bytes_acked := 0\<rparr> else c);
          acked = ucast (ackno t - lastack c);
          c = c\<lparr>nrtx := 0, rto := word_of_int (sint (sa c) div 8 + sint (sv c)), dupacks := 0, lastack := ackno t\<rparr>;
          c = tcp_grow_cwnd acked c
      in bnd (tcp_free_acked_segments h t c (unacked c) (unsent c)) (\<lambda>(us, t, c, h).
         let c = c\<lparr>unacked := us\<rparr> in
         bnd (tcp_free_acked_segments h t c (unsent c) (unacked c)) (\<lambda>(us, t, c, h).
         let c = c\<lparr>unsent := us, rtime := (if unacked c = [] then - 1 else 0), polltmr := 0,
                   unsent_oversize := (if us = [] then 0 else unsent_oversize c), snd_buf := snd_buf c + recv_acked t\<rparr>
         in bnd (tcp_rto_done h c) (\<lambda>c. Inr (t, c, h)))))"

text \<open>The estimate of the round-trip time.\<close>

definition tcp_rtt_update :: "u32_t \<Rightarrow> tcp_in \<Rightarrow> tcp_pcb \<Rightarrow> tcp_pcb" where
  "tcp_rtt_update ticks' t c =
     (if rttest c \<noteq> 0 \<and> TCP_SEQ_LT (rtseq c) (ackno t) then
        let m = ucast (ticks' - rttest c) :: s16_t;
            m = m - word_of_int (sint (sa c) div 8);
            sa' = sa c + m;
            m = (if sint m < 0 then - m else m);
            m = m - word_of_int (sint (sv c) div 4);
            sv' = sv c + m
        in c\<lparr>sa := sa', sv := sv', rto := word_of_int (sint sa' div 8 + sint sv'), rttest := 0\<rparr>
      else c)"

definition tcp_receive_ack :: "tcp_env \<Rightarrow> tcp_cx \<Rightarrow> heap \<Rightarrow> tcp_in \<Rightarrow> tcp_pcb \<Rightarrow> (tcp_in \<times> tcp_pcb \<times> heap) outcome" where
  "tcp_receive_ack e cx h t c =
     (let right_wnd_edge = ucast (snd_wnd c) + snd_wl2 c in
      bnd (load16 h (i_tcphdr t) 14) (\<lambda>wnd.
      let c = wnd_update t wnd c in
      bnd (if TCP_SEQ_LEQ (ackno t) (lastack c) then bnd (tcp_dupack h t right_wnd_edge c) (\<lambda>c. Inr (t, c, h))
           else if TCP_SEQ_BETWEEN (ackno t) (lastack c + 1) (snd_nxt c) then tcp_new_ack h t c
           else bnd (tcp_send_empty_ack e cx h c) (\<lambda>(_, c, h). Inr (t, c, h))) (\<lambda>(t, c, h).
      Inr (t, tcp_rtt_update (cx_ticks cx) t c, h))))"

section \<open>Data\<close>

text \<open>The sequence number of a segment on \<^verbatim>\<open>ooseq\<close>, whose header \<^verbatim>\<open>tcp_input\<close> has brought into host order.\<close>

definition oos_seqno :: "heap \<Rightarrow> tcp_seg \<Rightarrow> u32_t outcome" where
  "oos_seqno h sg = load32 h (tcphdr sg) 4"

text \<open>The loop that drops the segments \<open>cseg\<close> covers, and the trimming of \<open>cseg\<close> against the first that stays.\<close>

fun oos_covered :: "heap \<Rightarrow> u32_t \<Rightarrow> tcp_seg \<Rightarrow> tcp_seg list \<Rightarrow> (tcp_seg list \<times> heap) outcome" where
  "oos_covered h sq cseg [] = Inr ([], h)"
| "oos_covered h sq cseg (x # xs) = bnd (oos_seqno h x) (\<lambda>xq.
     if TCP_SEQ_GEQ (sq + ucast (seg_len cseg)) (xq + ucast (seg_len x)) then
       bnd (tcph_flags h (tcphdr x)) (\<lambda>f.
       bnd (if f AND TCP_FIN \<noteq> 0 then TCPH_SET_FLAG h (tcphdr cseg) TCP_FIN else Inr h) (\<lambda>h.
       bnd (tcp_seg_free h x) (\<lambda>h. oos_covered h sq cseg xs)))
     else Inr (x # xs, h))"

text \<open>The result is the queue from \<open>cseg\<close> on.\<close>

definition tcp_oos_insert_segment :: "heap \<Rightarrow> u32_t \<Rightarrow> tcp_seg \<Rightarrow> tcp_seg list \<Rightarrow> (tcp_seg list \<times> heap) outcome" where
  "tcp_oos_insert_segment h sq cseg nxt =
     bnd (tcph_flags h (tcphdr cseg)) (\<lambda>f.
     if f AND TCP_FIN \<noteq> 0 then bnd (tcp_segs_free h nxt) (\<lambda>h. Inr ([cseg], h))
     else
       bnd (oos_covered h sq cseg nxt) (\<lambda>(nxt, h). case nxt of
         [] \<Rightarrow> Inr ([cseg], h)
       | x # xs \<Rightarrow>
           bnd (oos_seqno h x) (\<lambda>xq.
           if TCP_SEQ_GT (sq + ucast (seg_len cseg)) xq then
             let cseg = cseg\<lparr>seg_len := ucast (xq - sq)\<rparr> in
             bnd (pbuf_realloc h (seg_p cseg) (seg_len cseg)) (\<lambda>h. Inr (cseg # x # xs, h))
           else Inr (cseg # x # xs, h))))"

text \<open>The front of the segment, which was received before, is cut off.\<close>

fun trim_front_loop :: "nat \<Rightarrow> heap \<Rightarrow> pptr \<Rightarrow> u16_t \<Rightarrow> u16_t \<Rightarrow> (pptr \<times> u16_t \<times> heap) outcome" where
  "trim_front_loop 0 h p off new_tot_len = Inl Diverge"
| "trim_front_loop (Suc n) h p off new_tot_len = bnd (pget h p) (\<lambda>b.
     if p_len b < off
     then trim_front_loop n (pset h p (b\<lparr>p_tot_len := new_tot_len, p_len := 0\<rparr>)) (p_next b) (off - p_len b) new_tot_len
     else Inr (p, off, h))"

definition tcp_trim_front :: "heap \<Rightarrow> tcp_in \<Rightarrow> tcp_pcb \<Rightarrow> (tcp_in \<times> tcp_pcb \<times> heap) outcome" where
  "tcp_trim_front h t c =
     (if TCP_SEQ_BETWEEN (rcv_nxt c) (seqno t + 1) (seqno t + ucast (tcplen t) - 1) then
        let sg = inseg t; off32 = rcv_nxt c - seqno t; off = ucast off32 in
        lwip_assert (seg_p sg \<noteq> None) (
        lwip_assert (off32 < 0xffff) (
        bnd (pget h (seg_p sg)) (\<lambda>b.
        lwip_assert (p_tot_len b \<ge> off) (
        bnd (trim_front_loop (fuel h) h (seg_p sg) off (p_tot_len b - off)) (\<lambda>(p, off', h).
        bnd (pbuf_remove_header h p (unat off')) (\<lambda>(_, h).
        bnd (store32 h (tcphdr sg) 4 (rcv_nxt c)) (\<lambda>h.
        Inr (t\<lparr>seqno := rcv_nxt c, inseg := sg\<lparr>seg_len := seg_len sg - off\<rparr>\<rparr>, c, h))))))))
      else Inr (t, if TCP_SEQ_LT (seqno t) (rcv_nxt c) then tcp_ack_now c else c, h))"

text \<open>Cutting the received segment to \<open>len\<close> bytes of sequence space: \<^verbatim>\<open>seqno + tcplen\<close> is \<open>right_edge\<close> afterwards.\<close>

definition tcp_cut_inseg :: "heap \<Rightarrow> tcp_in \<Rightarrow> u16_t \<Rightarrow> u32_t \<Rightarrow> (tcp_in \<times> heap) outcome" where
  "tcp_cut_inseg h t len right_edge =
     bnd (tcph_flags h (tcphdr (inseg t))) (\<lambda>f.
     let len = (if f AND TCP_SYN \<noteq> 0 then len - 1 else len); sg = (inseg t)\<lparr>seg_len := len\<rparr> in
     bnd (pbuf_realloc h (seg_p sg) len) (\<lambda>h.
     bnd (TCP_TCPLEN h sg) (\<lambda>tl.
     let t = t\<lparr>inseg := sg, tcplen := ucast tl\<rparr> in
     lwip_assert (seqno t + ucast (tcplen t) = right_edge) (Inr (t, h)))))"

definition tcp_trim_wnd :: "heap \<Rightarrow> tcp_in \<Rightarrow> tcp_pcb \<Rightarrow> (tcp_in \<times> heap) outcome" where
  "tcp_trim_wnd h t c =
     bnd (TCP_TCPLEN h (inseg t)) (\<lambda>tl.
     let t = t\<lparr>tcplen := ucast tl\<rparr> in
     if tcplen t > rcv_wnd c then
       bnd (tcph_flags h (tcphdr (inseg t))) (\<lambda>f.
       bnd (if f AND TCP_FIN \<noteq> 0 then TCPH_FLAGS_SET h (tcphdr (inseg t)) (f AND NOT TCP_FIN) else Inr h) (\<lambda>h.
       tcp_cut_inseg h t (rcv_wnd c) (rcv_nxt c + ucast (rcv_wnd c))))
     else Inr (t, h))"

text \<open>The segments out of sequence that the new one covers are dropped; a FIN they carry passes to it.\<close>

fun oos_drop_covered :: "heap \<Rightarrow> tcp_in \<Rightarrow> tcp_seg list \<Rightarrow> (tcp_seg list \<times> tcp_in \<times> heap) outcome" where
  "oos_drop_covered h t [] = Inr ([], t, h)"
| "oos_drop_covered h t (x # xs) = bnd (oos_seqno h x) (\<lambda>xq.
     if TCP_SEQ_GEQ (seqno t + ucast (tcplen t)) (xq + ucast (seg_len x)) then
       bnd (tcph_flags h (tcphdr x)) (\<lambda>xf.
       bnd (tcph_flags h (tcphdr (inseg t))) (\<lambda>f.
       bnd (if xf AND TCP_FIN \<noteq> 0 \<and> f AND TCP_SYN = 0 then
              bnd (TCPH_SET_FLAG h (tcphdr (inseg t)) TCP_FIN) (\<lambda>h.
              bnd (TCP_TCPLEN h (inseg t)) (\<lambda>tl. Inr (t\<lparr>tcplen := ucast tl\<rparr>, h)))
            else Inr (t, h)) (\<lambda>(t, h).
       bnd (tcp_seg_free h x) (\<lambda>h. oos_drop_covered h t xs))))
     else Inr (x # xs, t, h))"

definition tcp_trim_ooseq :: "heap \<Rightarrow> tcp_in \<Rightarrow> tcp_pcb \<Rightarrow> (tcp_in \<times> tcp_pcb \<times> heap) outcome" where
  "tcp_trim_ooseq h t c =
     (if ooseq c = [] then Inr (t, c, h)
      else
        bnd (tcph_flags h (tcphdr (inseg t))) (\<lambda>f.
        if f AND TCP_FIN \<noteq> 0 then bnd (tcp_segs_free h (ooseq c)) (\<lambda>h. Inr (t, c\<lparr>ooseq := []\<rparr>, h))
        else
          bnd (oos_drop_covered h t (ooseq c)) (\<lambda>(nxt, t, h).
          bnd (case nxt of [] \<Rightarrow> Inr (t, h)
               | x # _ \<Rightarrow> bnd (oos_seqno h x) (\<lambda>xq.
                   if TCP_SEQ_GT (seqno t + ucast (tcplen t)) xq then tcp_cut_inseg h t (ucast (xq - seqno t)) xq else Inr (t, h))) (\<lambda>(t, h).
          Inr (t, c\<lparr>ooseq := nxt\<rparr>, h)))))"

text \<open>The segments that follow without a gap. A FIN among them closes an established connection.\<close>

fun oos_deliver :: "heap \<Rightarrow> tcp_in \<Rightarrow> tcp_pcb \<Rightarrow> tcp_seg list \<Rightarrow> (tcp_in \<times> tcp_pcb \<times> heap) outcome" where
  "oos_deliver h t c [] = Inr (t, c\<lparr>ooseq := []\<rparr>, h)"
| "oos_deliver h t c (cseg # xs) = bnd (oos_seqno h cseg) (\<lambda>sq.
     if sq = rcv_nxt c then
       bnd (TCP_TCPLEN h cseg) (\<lambda>tl.
       lwip_assert (ucast (rcv_wnd c) \<ge> tl) (
       bnd (tcp_update_rcv_ann_wnd (c\<lparr>rcv_nxt := rcv_nxt c + tl, rcv_wnd := rcv_wnd c - ucast tl\<rparr>)) (\<lambda>(_, c).
       bnd (pget h (seg_p cseg)) (\<lambda>b.
       bnd (if p_tot_len b > 0 then
              if recv_data t \<noteq> None then bnd (pbuf_cat h (recv_data t) (seg_p cseg)) (\<lambda>h. Inr (t, cseg\<lparr>seg_p := None\<rparr>, h))
              else Inr (t\<lparr>recv_data := seg_p cseg\<rparr>, cseg\<lparr>seg_p := None\<rparr>, h)
            else Inr (t, cseg, h)) (\<lambda>(t, cseg, h).
       bnd (tcph_flags h (tcphdr cseg)) (\<lambda>f.
       let (t, c) = (if f AND TCP_FIN \<noteq> 0
             then (t\<lparr>recv_flags := recv_flags t OR TF_GOT_FIN\<rparr>, if t_state c = ESTABLISHED then c\<lparr>t_state := CLOSE_WAIT\<rparr> else c) else (t, c))
       in bnd (tcp_seg_free h cseg) (\<lambda>h. oos_deliver h (t\<lparr>seqno := sq\<rparr>) c xs)))))))
     else Inr (t, c\<lparr>ooseq := cseg # xs\<rparr>, h))"

text \<open>The segment that is expected next.\<close>

definition tcp_receive_in_order :: "heap \<Rightarrow> tcp_in \<Rightarrow> tcp_pcb \<Rightarrow> (tcp_in \<times> tcp_pcb \<times> heap) outcome" where
  "tcp_receive_in_order h t c =
     bnd (tcp_trim_wnd h t c) (\<lambda>(t, h).
     bnd (tcp_trim_ooseq h t c) (\<lambda>(t, c, h).
     let c = c\<lparr>rcv_nxt := seqno t + ucast (tcplen t)\<rparr> in
     lwip_assert (rcv_wnd c \<ge> tcplen t) (
     bnd (tcp_update_rcv_ann_wnd (c\<lparr>rcv_wnd := rcv_wnd c - tcplen t\<rparr>)) (\<lambda>(_, c).
     bnd (pget h (seg_p (inseg t))) (\<lambda>b.
     let t = (if p_tot_len b > 0 then t\<lparr>recv_data := seg_p (inseg t), inseg := (inseg t)\<lparr>seg_p := None\<rparr>\<rparr> else t) in
     bnd (tcph_flags h (tcphdr (inseg t))) (\<lambda>f.
     let t = (if f AND TCP_FIN \<noteq> 0 then t\<lparr>recv_flags := recv_flags t OR TF_GOT_FIN\<rparr> else t) in
     bnd (oos_deliver h t c (ooseq c)) (\<lambda>(t, c, h). Inr (t, tcp_ack c, h))))))))"

text \<open>
  A segment out of sequence. \<open>pre\<close> are the segments the loop has passed, the last of which is \<^verbatim>\<open>prev\<close>; the result is the new queue.
\<close>

definition oos_append :: "heap \<Rightarrow> tcp_in \<Rightarrow> tcp_pcb \<Rightarrow> tcp_seg \<Rightarrow> u32_t \<Rightarrow> (tcp_seg list \<times> tcp_in \<times> heap) outcome" where
  "oos_append h t c x xq =
     bnd (tcph_flags h (tcphdr x)) (\<lambda>xf.
     if xf AND TCP_FIN \<noteq> 0 then Inr ([x], t, h)
     else
       bnd (tcp_seg_copy h (inseg t)) (\<lambda>(r, h). case r of
         None \<Rightarrow> Inr ([x], t, h)
       | Some cseg \<Rightarrow>
           bnd (if TCP_SEQ_GT (xq + ucast (seg_len x)) (seqno t) then
                  let x = x\<lparr>seg_len := ucast (seqno t - xq)\<rparr> in bnd (pbuf_realloc h (seg_p x) (seg_len x)) (\<lambda>h. Inr (x, h))
                else Inr (x, h)) (\<lambda>(x, h).
           if TCP_SEQ_GT (ucast (tcplen t) + seqno t) (rcv_nxt c + ucast (rcv_wnd c)) then
             bnd (tcph_flags h (tcphdr cseg)) (\<lambda>f.
             bnd (if f AND TCP_FIN \<noteq> 0 then TCPH_FLAGS_SET h (tcphdr cseg) (f AND NOT TCP_FIN) else Inr h) (\<lambda>h.
             let cseg = cseg\<lparr>seg_len := ucast (rcv_nxt c + ucast (rcv_wnd c) - seqno t)\<rparr> in
             bnd (pbuf_realloc h (seg_p cseg) (seg_len cseg)) (\<lambda>h.
             bnd (TCP_TCPLEN h cseg) (\<lambda>tl.
             let t = t\<lparr>tcplen := ucast tl\<rparr> in
             lwip_assert (seqno t + ucast (tcplen t) = rcv_nxt c + ucast (rcv_wnd c)) (
             Inr ([x, cseg], t, h))))))
           else Inr ([x, cseg], t, h))))"

fun oos_insert_loop ::
  "heap \<Rightarrow> tcp_in \<Rightarrow> tcp_pcb \<Rightarrow> tcp_seg list \<Rightarrow> tcp_seg list \<Rightarrow> (tcp_seg list \<times> tcp_in \<times> heap) outcome" where
  "oos_insert_loop h t c pre [] = Inr (pre, t, h)"
| "oos_insert_loop h t c pre (x # xs) =
     bnd (oos_seqno h x) (\<lambda>xq.
     if seqno t = xq then
       if seg_len (inseg t) > seg_len x then
         bnd (tcp_seg_copy h (inseg t)) (\<lambda>(r, h). case r of
           None \<Rightarrow> Inr (pre @ x # xs, t, h)
         | Some cseg \<Rightarrow> bnd (tcp_oos_insert_segment h (seqno t) cseg (x # xs)) (\<lambda>(q, h). Inr (pre @ q, t, h)))
       else Inr (pre @ x # xs, t, h)
     else
       bnd (if pre = [] then Inr (TCP_SEQ_LT (seqno t) xq)
            else bnd (oos_seqno h (last pre)) (\<lambda>pq. Inr (TCP_SEQ_BETWEEN (seqno t) (pq + 1) (xq - 1)))) (\<lambda>here.
       if here then
         bnd (tcp_seg_copy h (inseg t)) (\<lambda>(r, h). case r of
           None \<Rightarrow> Inr (pre @ x # xs, t, h)
         | Some cseg \<Rightarrow>
             bnd (if pre = [] then Inr (pre, h)
                  else
                    let prev = last pre in
                    bnd (oos_seqno h prev) (\<lambda>pq.
                    if TCP_SEQ_GT (pq + ucast (seg_len prev)) (seqno t) then
                      let prev = prev\<lparr>seg_len := ucast (seqno t - pq)\<rparr> in
                      bnd (pbuf_realloc h (seg_p prev) (seg_len prev)) (\<lambda>h. Inr (butlast pre @ [prev], h))
                    else Inr (pre, h))) (\<lambda>(pre, h).
             bnd (tcp_oos_insert_segment h (seqno t) cseg (x # xs)) (\<lambda>(q, h). Inr (pre @ q, t, h))))
       else if xs = [] \<and> TCP_SEQ_GT (seqno t) xq then
         bnd (oos_append h t c x xq) (\<lambda>(q, t, h). Inr (pre @ q, t, h))
       else oos_insert_loop h t c (pre @ [x]) xs))"

definition tcp_receive_ooseq :: "heap \<Rightarrow> tcp_in \<Rightarrow> tcp_pcb \<Rightarrow> (tcp_in \<times> tcp_pcb \<times> heap) outcome" where
  "tcp_receive_ooseq h t c =
     (if ooseq c = [] then bnd (tcp_seg_copy h (inseg t)) (\<lambda>(r, h). Inr (t, c\<lparr>ooseq := (case r of None \<Rightarrow> [] | Some sg \<Rightarrow> [sg])\<rparr>, h))
      else bnd (oos_insert_loop h t c [] (ooseq c)) (\<lambda>(q, t, h). Inr (t, c\<lparr>ooseq := q\<rparr>, h)))"

definition tcp_receive_data :: "tcp_env \<Rightarrow> tcp_cx \<Rightarrow> heap \<Rightarrow> tcp_in \<Rightarrow> tcp_pcb \<Rightarrow> (tcp_in \<times> tcp_pcb \<times> heap) outcome" where
  "tcp_receive_data e cx h t c =
     (let in_wnd = (\<lambda>t c. TCP_SEQ_BETWEEN (seqno t) (rcv_nxt c) (rcv_nxt c + ucast (rcv_wnd c) - 1)) in
      if tcplen t > 0 \<and> t_state c < CLOSE_WAIT then
        bnd (tcp_trim_front h t c) (\<lambda>(t, c, h).
        if in_wnd t c \<and> rcv_nxt c = seqno t then tcp_receive_in_order h t c
        else
          bnd (if in_wnd t c then tcp_receive_ooseq h t c else Inr (t, c, h)) (\<lambda>(t, c, h).
          bnd (tcp_send_empty_ack e cx h c) (\<lambda>(_, c, h). Inr (t, c, h))))
      else Inr (t, if in_wnd t c then c else tcp_ack_now c, h))"

definition tcp_receive :: "tcp_env \<Rightarrow> tcp_cx \<Rightarrow> heap \<Rightarrow> tcp_in \<Rightarrow> tcp_pcb \<Rightarrow> (tcp_in \<times> tcp_pcb \<times> heap) outcome" where
  "tcp_receive e cx h t c =
     lwip_assert (t_state c \<ge> ESTABLISHED) (
     bnd (if i_flags t AND TCP_ACK \<noteq> 0 then tcp_receive_ack e cx h t c else Inr (t, c, h)) (\<lambda>(t, c, h).
     tcp_receive_data e cx h t c))"

section \<open>The state machine\<close>

text \<open>\<^verbatim>\<open>tcp_receive\<close> on a pcb of the global state.\<close>

definition receive_on :: "tcp_env \<Rightarrow> tcp_globals \<Rightarrow> nat \<Rightarrow> tcp_globals outcome" where
  "receive_on e s i = bnd (get_tcp s i) (\<lambda>c. bnd (tcp_receive e (cx_of s i) (theap s) (t_in s) c) (\<lambda>(t, c, h).
     Inr ((set_tcp s i c)\<lparr>theap := h, t_in := t\<rparr>)))"

text \<open>The reset that answers the segment at hand.\<close>

definition input_rst :: "tcp_env \<Rightarrow> ip_globals \<Rightarrow> tcp_globals \<Rightarrow> (u8_t \<times> u8_t \<times> u8_t) option \<Rightarrow> tcp_globals outcome" where
  "input_rst e g s pcb =
     (let t = t_in s in
      bnd (load16 (theap s) (i_tcphdr t) 2) (\<lambda>dest.
      bnd (load16 (theap s) (i_tcphdr t) 0) (\<lambda>src.
      bnd (tcp_rst e (t_netifs s) (theap s) pcb (ackno t) (seqno t + ucast (tcplen t)) (current_iphdr_dest g) (current_iphdr_src g) dest src) (\<lambda>h.
      Inr (s\<lparr>theap := h\<rparr>)))))"

definition tcp_eff_send_mss :: "tcp_env \<Rightarrow> tcp_globals \<Rightarrow> u16_t \<Rightarrow> ip_addr_t \<Rightarrow> ip_addr_t \<Rightarrow> u16_t" where
  "tcp_eff_send_mss e s sendmss src dest = tcp_eff_send_mss_netif e sendmss (tcp_ip_route e (t_netifs s) src dest) dest"

definition LWIP_TCP_CALC_INITIAL_CWND :: "u16_t \<Rightarrow> u16_t" where
  "LWIP_TCP_CALC_INITIAL_CWND m = (ucast (min (4 * ucast m) (max (2 * ucast m) 4380 :: u32_t)))"

definition process_rst :: "tcp_in \<Rightarrow> tcp_pcb \<Rightarrow> (err_t \<times> tcp_in \<times> tcp_pcb) outcome" where
  "process_rst t c =
     (let acceptable = (if t_state c = SYN_SENT then ackno t = snd_nxt c else seqno t = rcv_nxt c);
          c = (if t_state c \<noteq> SYN_SENT \<and> seqno t \<noteq> rcv_nxt c \<and> TCP_SEQ_BETWEEN (seqno t) (rcv_nxt c) (rcv_nxt c + ucast (rcv_wnd c))
               then tcp_ack_now c else c)
      in if acceptable then lwip_assert (t_state c \<noteq> CLOSED) (
           Inr (ERR_RST, t\<lparr>recv_flags := recv_flags t OR TF_RESET\<rparr>, tcp_clear_flags c TF_ACK_DELAY))
         else Inr (ERR_OK, t, c))"

text \<open>The SYN that was acknowledged leaves the queue.\<close>

definition syn_acked :: "heap \<Rightarrow> tcp_pcb \<Rightarrow> (tcp_pcb \<times> heap) outcome" where
  "syn_acked h c =
     lwip_assert (snd_queuelen c > 0) (
     let c = c\<lparr>snd_queuelen := snd_queuelen c - 1\<rparr> in
     bnd (case unacked c of
            rseg # us \<Rightarrow> Inr (rseg, c\<lparr>unacked := us\<rparr>)
          | [] \<Rightarrow> (case unsent c of rseg # us \<Rightarrow> Inr (rseg, c\<lparr>unsent := us\<rparr>) | [] \<Rightarrow> Inl Abort)) (\<lambda>(rseg, c).
     bnd (tcp_seg_free h rseg) (\<lambda>h.
     Inr (if unacked c = [] then c\<lparr>rtime := - 1\<rparr> else c\<lparr>rtime := 0, nrtx := 0\<rparr>, h))))"

definition process_syn_sent :: "tcp_env \<Rightarrow> ip_globals \<Rightarrow> tcp_globals \<Rightarrow> nat \<Rightarrow> (err_t \<times> tcp_globals) outcome" where
  "process_syn_sent e g s i =
     bnd (get_tcp s i) (\<lambda>c.
     let t = t_in s in
     if i_flags t AND TCP_ACK \<noteq> 0 \<and> i_flags t AND TCP_SYN \<noteq> 0 \<and> ackno t = lastack c + 1 then
       bnd (load16 (theap s) (i_tcphdr t) 14) (\<lambda>wnd.
       let m = tcp_eff_send_mss e s (mss c) (t_local_ip c) (t_remote_ip c);
           c = c\<lparr>rcv_nxt := seqno t + 1, rcv_ann_right_edge := seqno t + 1, lastack := ackno t, snd_wnd := wnd, snd_wnd_max := wnd,
                 snd_wl1 := seqno t - 1, t_state := ESTABLISHED, mss := m, cwnd := LWIP_TCP_CALC_INITIAL_CWND m\<rparr>
       in bnd (on_pcb (set_tcp s i c) i (\<lambda>cx h c. bnd (syn_acked h c) (\<lambda>(c, h). Inr ((), c, h)))) (\<lambda>(_, s).
          bnd (TCP_EVENT_CONNECTED e s i ERR_OK) (\<lambda>(err, s).
          if err = ERR_ABRT then Inr (ERR_ABRT, s)
          else bnd (upd_pcb s i tcp_ack_now) (\<lambda>s. Inr (ERR_OK, s)))))
     else if i_flags t AND TCP_ACK \<noteq> 0 then
       bnd (input_rst e g s (ip_pcb c)) (\<lambda>s.
       if nrtx c < TCP_SYNMAXRTX then
         bnd (on_pcb (set_tcp s i (c\<lparr>rtime := 0\<rparr>)) i (\<lambda>cx h c. bnd (tcp_rexmit_rto e cx h c) (\<lambda>(c, h). Inr ((), c, h)))) (\<lambda>(_, s).
         Inr (ERR_OK, s))
       else Inr (ERR_OK, s))
     else Inr (ERR_OK, s))"

definition got_fin :: "tcp_globals \<Rightarrow> bool" where
  "got_fin s \<longleftrightarrow> recv_flags (t_in s) AND TF_GOT_FIN \<noteq> 0"

definition to_close_wait :: "tcp_globals \<Rightarrow> nat \<Rightarrow> tcp_globals outcome" where
  "to_close_wait s i = (if got_fin s then upd_pcb s i (\<lambda>c. (tcp_ack_now c)\<lparr>t_state := CLOSE_WAIT\<rparr>) else Inr s)"

definition process_syn_rcvd :: "tcp_env \<Rightarrow> ip_globals \<Rightarrow> tcp_globals \<Rightarrow> nat \<Rightarrow> (err_t \<times> tcp_globals) outcome" where
  "process_syn_rcvd e g s i =
     bnd (get_tcp s i) (\<lambda>c.
     let t = t_in s in
     if i_flags t AND TCP_ACK \<noteq> 0 then
       if TCP_SEQ_BETWEEN (ackno t) (lastack c + 1) (snd_nxt c) then
         let s = set_tcp s i (c\<lparr>t_state := ESTABLISHED\<rparr>) in
         bnd (case listener c of None \<Rightarrow> Inr (ERR_VAL, s)
              | Some l \<Rightarrow> bnd (get_lpcb s l) (\<lambda>lp. lwip_assert (l_accept lp \<noteq> None) (
                  TCP_EVENT_ACCEPT e s l (Some i) (t_callback_arg c) ERR_OK))) (\<lambda>(err, s).
         if err \<noteq> ERR_OK then
           bnd (if err \<noteq> ERR_ABRT then tcp_abort e s (Some i) else Inr s) (\<lambda>s. Inr (ERR_ABRT, s))
         else
           bnd (receive_on e s i) (\<lambda>s.
           let t = t_in s; s = s\<lparr>t_in := (if recv_acked t \<noteq> 0 then t\<lparr>recv_acked := recv_acked t - 1\<rparr> else t)\<rparr> in
           bnd (upd_pcb s i (\<lambda>c. c\<lparr>cwnd := LWIP_TCP_CALC_INITIAL_CWND (mss c)\<rparr>)) (\<lambda>s.
           bnd (to_close_wait s i) (\<lambda>s. Inr (ERR_OK, s)))))
       else bnd (input_rst e g s (ip_pcb c)) (\<lambda>s. Inr (ERR_OK, s))
     else if i_flags t AND TCP_SYN \<noteq> 0 \<and> seqno t = rcv_nxt c - 1 then
       bnd (tcp_rexmit (theap s) c) (\<lambda>(_, c). Inr (ERR_OK, set_tcp s i c))
     else Inr (ERR_OK, s))"

text \<open>The entry of \<^verbatim>\<open>TIME-WAIT\<close>.\<close>

definition to_time_wait :: "tcp_globals \<Rightarrow> nat \<Rightarrow> tcp_globals outcome" where
  "to_time_wait s i =
     bnd (on_pcb s i (\<lambda>cx h c. bnd (tcp_pcb_purge h c) (\<lambda>(c, h). Inr ((), c, h)))) (\<lambda>(_, s).
     bnd (upd_pcb (TCP_RMV_ACTIVE s i) i (\<lambda>c. c\<lparr>t_state := TIME_WAIT\<rparr>)) (\<lambda>s. TCP_REG L_tw s i))"

text \<open>Everything that was sent, the FIN included, is acknowledged.\<close>

definition all_acked :: "tcp_in \<Rightarrow> tcp_pcb \<Rightarrow> bool" where
  "all_acked t c \<longleftrightarrow> i_flags t AND TCP_ACK \<noteq> 0 \<and> ackno t = snd_nxt c \<and> unsent c = []"

definition process_fin_wait_1 :: "tcp_globals \<Rightarrow> nat \<Rightarrow> tcp_globals outcome" where
  "process_fin_wait_1 s i = bnd (get_tcp s i) (\<lambda>c.
     if got_fin s then
       if all_acked (t_in s) c then to_time_wait (set_tcp s i (tcp_ack_now c)) i
       else Inr (set_tcp s i ((tcp_ack_now c)\<lparr>t_state := CLOSING\<rparr>))
     else if all_acked (t_in s) c then Inr (set_tcp s i (c\<lparr>t_state := FIN_WAIT_2\<rparr>))
     else Inr s)"

definition process_fin_wait_2 :: "tcp_globals \<Rightarrow> nat \<Rightarrow> tcp_globals outcome" where
  "process_fin_wait_2 s i = (if got_fin s then bnd (upd_pcb s i tcp_ack_now) (\<lambda>s. to_time_wait s i) else Inr s)"

definition process_closing :: "tcp_globals \<Rightarrow> nat \<Rightarrow> tcp_globals outcome" where
  "process_closing s i = bnd (get_tcp s i) (\<lambda>c. if all_acked (t_in s) c then to_time_wait s i else Inr s)"

definition process_last_ack :: "tcp_globals \<Rightarrow> nat \<Rightarrow> tcp_globals outcome" where
  "process_last_ack s i = bnd (get_tcp s i) (\<lambda>c.
     Inr (if all_acked (t_in s) c then tcp_trigger_input_pcb_close s else s))"

definition tcp_process_state :: "tcp_env \<Rightarrow> ip_globals \<Rightarrow> tcp_globals \<Rightarrow> nat \<Rightarrow> tcp_state \<Rightarrow> (err_t \<times> tcp_globals) outcome" where
  "tcp_process_state e g s i st = (case st of
     SYN_SENT \<Rightarrow> process_syn_sent e g s i
   | SYN_RCVD \<Rightarrow> process_syn_rcvd e g s i
   | CLOSE_WAIT \<Rightarrow> bnd (receive_on e s i) (\<lambda>s. bnd (to_close_wait s i) (\<lambda>s. Inr (ERR_OK, s)))
   | ESTABLISHED \<Rightarrow> bnd (receive_on e s i) (\<lambda>s. bnd (to_close_wait s i) (\<lambda>s. Inr (ERR_OK, s)))
   | FIN_WAIT_1 \<Rightarrow> bnd (receive_on e s i) (\<lambda>s. bnd (process_fin_wait_1 s i) (\<lambda>s. Inr (ERR_OK, s)))
   | FIN_WAIT_2 \<Rightarrow> bnd (receive_on e s i) (\<lambda>s. bnd (process_fin_wait_2 s i) (\<lambda>s. Inr (ERR_OK, s)))
   | CLOSING \<Rightarrow> bnd (receive_on e s i) (\<lambda>s. bnd (process_closing s i) (\<lambda>s. Inr (ERR_OK, s)))
   | LAST_ACK \<Rightarrow> bnd (receive_on e s i) (\<lambda>s. bnd (process_last_ack s i) (\<lambda>s. Inr (ERR_OK, s)))
   | _ \<Rightarrow> Inr (ERR_OK, s))"

definition tcp_process :: "tcp_env \<Rightarrow> ip_globals \<Rightarrow> tcp_globals \<Rightarrow> nat \<Rightarrow> (err_t \<times> tcp_globals) outcome" where
  "tcp_process e g s i =
     bnd (get_tcp s i) (\<lambda>c.
     let t = t_in s in
     if i_flags t AND TCP_RST \<noteq> 0 then
       bnd (process_rst t c) (\<lambda>(err, t, c). Inr (err, (set_tcp s i c)\<lparr>t_in := t\<rparr>))
     else if i_flags t AND TCP_SYN \<noteq> 0 \<and> t_state c \<noteq> SYN_SENT \<and> t_state c \<noteq> SYN_RCVD then
       Inr (ERR_OK, set_tcp s i (tcp_ack_now c))
     else
       let c = (if t_flags c AND TF_RXCLOSED = 0 then c\<lparr>tmr := tcp_ticks s\<rparr> else c) in
       bnd (tcp_parseopt (theap s) t (c\<lparr>keep_cnt_sent := 0, persist_probe := 0\<rparr>)) (\<lambda>c.
       tcp_process_state e g (set_tcp s i c) i (t_state c)))"

section \<open>Segments for other pcbs\<close>

definition tcp_timewait_input :: "tcp_env \<Rightarrow> ip_globals \<Rightarrow> tcp_globals \<Rightarrow> nat \<Rightarrow> tcp_globals outcome" where
  "tcp_timewait_input e g s i =
     (let t = t_in s in
      if i_flags t AND TCP_RST \<noteq> 0 then Inr s
      else
        bnd (get_tcp s i) (\<lambda>c.
        if i_flags t AND TCP_SYN \<noteq> 0 \<and> TCP_SEQ_BETWEEN (seqno t) (rcv_nxt c) (rcv_nxt c + ucast (rcv_wnd c)) then input_rst e g s (ip_pcb c)
        else
          let c = (if i_flags t AND TCP_SYN = 0 \<and> i_flags t AND TCP_FIN \<noteq> 0 then c\<lparr>tmr := tcp_ticks s\<rparr> else c); s = set_tcp s i c
          in if tcplen t > 0 then bnd (on_pcb (set_tcp s i (tcp_ack_now c)) i (tcp_output e)) (\<lambda>(_, s). Inr s) else Inr s))"

text \<open>The pcb of a connection that a SYN opens; with \<^verbatim>\<open>TUN2SOCKS\<close> its port is the one the segment was sent to.\<close>

definition listen_pcb :: "ip_globals \<Rightarrow> tcp_in \<Rightarrow> nat \<Rightarrow> tcp_pcb_listen \<Rightarrow> u16_t \<Rightarrow> u16_t \<Rightarrow> u32_t \<Rightarrow> tcp_pcb \<Rightarrow> tcp_pcb" where
  "listen_pcb g t l lp src dest iss c = c\<lparr>t_local_ip := current_iphdr_dest g, t_remote_ip := current_iphdr_src g, t_local_port := dest,
     t_remote_port := src, t_state := SYN_RCVD, rcv_nxt := seqno t + 1, rcv_ann_right_edge := seqno t + 1, snd_wl2 := iss, snd_nxt := iss,
     lastack := iss, snd_lbb := iss, snd_wl1 := seqno t - 1, t_callback_arg := l_callback_arg lp, listener := Some l,
     t_so_options := l_so_options lp AND SOF_INHERITED, t_netif_idx := l_netif_idx lp\<rparr>"

definition tcp_listen_input :: "tcp_env \<Rightarrow> ip_globals \<Rightarrow> tcp_globals \<Rightarrow> nat \<Rightarrow> tcp_globals outcome" where
  "tcp_listen_input e g s l =
     (let t = t_in s in
      if i_flags t AND TCP_RST \<noteq> 0 then Inr s
      else
        bnd (get_lpcb s l) (\<lambda>lp.
        if i_flags t AND TCP_ACK \<noteq> 0 then input_rst e g s (Some (l_netif_idx lp, l_ttl lp, l_tos lp))
        else if i_flags t AND TCP_SYN \<noteq> 0 then
          bnd (tcp_alloc e s (l_prio lp)) (\<lambda>(npcb, s).
          bnd (get_lpcb s l) (\<lambda>lp.
          case npcb of
            None \<Rightarrow> bnd (TCP_EVENT_ACCEPT e s l None (l_callback_arg lp) ERR_MEM) (\<lambda>(_, s). Inr s)
          | Some i \<Rightarrow>
              bnd (load16 (theap s) (i_tcphdr t) 2) (\<lambda>dest.
              bnd (load16 (theap s) (i_tcphdr t) 0) (\<lambda>src.
              bnd (load16 (theap s) (i_tcphdr t) 14) (\<lambda>wnd.
              let (iss, s) = tcp_next_iss s in
              bnd (upd_pcb s i (listen_pcb g t l lp src dest iss)) (\<lambda>s.
              bnd (TCP_REG_ACTIVE s i) (\<lambda>s.
              bnd (get_tcp s i) (\<lambda>c.
              bnd (tcp_parseopt (theap s) t c) (\<lambda>c.
              let c = c\<lparr>snd_wnd := wnd, snd_wnd_max := wnd, mss := tcp_eff_send_mss e s (mss c) (t_local_ip c) (t_remote_ip c)\<rparr> in
              bnd (on_pcb (set_tcp s i c) i (\<lambda>cx h c. tcp_enqueue_flags h c (TCP_SYN OR TCP_ACK))) (\<lambda>(rc, s).
              if rc \<noteq> ERR_OK then tcp_abandon e s (Some i) False
              else bnd (on_pcb s i (tcp_output e)) (\<lambda>(_, s). Inr s)))))))))))
        else Inr s))"

section \<open>Input\<close>

definition tcp_input_delayed_close :: "tcp_env \<Rightarrow> tcp_globals \<Rightarrow> nat \<Rightarrow> (bool \<times> tcp_globals) outcome" where
  "tcp_input_delayed_close e s i =
     (if recv_flags (t_in s) AND TF_CLOSED \<noteq> 0 then
        bnd (get_tcp s i) (\<lambda>c.
        bnd (if t_flags c AND TF_RXCLOSED = 0 then TCP_EVENT_ERR e s (t_errf c) (t_callback_arg c) ERR_CLSD else Inr s) (\<lambda>s.
        bnd (tcp_pcb_remove e L_active s i) (\<lambda>s.
        bnd (tcp_free s i) (\<lambda>s. Inr (True, s)))))
      else Inr (False, s))"

text \<open>The four functions that follow are the events after \<^verbatim>\<open>tcp_process\<close>; \<open>True\<close> stands for \<^verbatim>\<open>goto aborted\<close>.\<close>

definition input_event_sent :: "tcp_env \<Rightarrow> tcp_globals \<Rightarrow> nat \<Rightarrow> (bool \<times> tcp_globals) outcome" where
  "input_event_sent e s i =
     (if recv_acked (t_in s) > 0 then
        bnd (TCP_EVENT_SENT e s i (recv_acked (t_in s))) (\<lambda>(err, s).
        if err = ERR_ABRT then Inr (True, s) else Inr (False, s\<lparr>t_in := (t_in s)\<lparr>recv_acked := 0\<rparr>\<rparr>))
      else Inr (False, s))"

definition input_event_recv :: "tcp_env \<Rightarrow> tcp_globals \<Rightarrow> nat \<Rightarrow> (bool \<times> tcp_globals) outcome" where
  "input_event_recv e s i =
     (let d = recv_data (t_in s) in
      if d \<noteq> None then
        bnd (get_tcp s i) (\<lambda>c.
        lwip_assert (refused_data c = None) (
        if t_flags c AND TF_RXCLOSED \<noteq> 0 then
          bnd (pbuf_free (theap s) d) (\<lambda>(_, h). bnd (tcp_abort e (s\<lparr>theap := h\<rparr>) (Some i)) (\<lambda>s. Inr (True, s)))
        else
          bnd (TCP_EVENT_RECV e s i d ERR_OK) (\<lambda>(err, s).
          if err = ERR_ABRT then Inr (True, s)
          else if err \<noteq> ERR_OK then bnd (upd_pcb s i (\<lambda>c. c\<lparr>refused_data := d\<rparr>)) (\<lambda>s. Inr (False, s))
          else Inr (False, s))))
      else Inr (False, s))"

definition input_event_fin :: "tcp_env \<Rightarrow> tcp_globals \<Rightarrow> nat \<Rightarrow> (bool \<times> tcp_globals) outcome" where
  "input_event_fin e s i =
     (if got_fin s then
        bnd (get_tcp s i) (\<lambda>c.
        if refused_data c \<noteq> None then
          bnd (pupd (theap s) (refused_data c) (\<lambda>b. b\<lparr>p_flags := p_flags b OR PBUF_FLAG_TCP_FIN\<rparr>)) (\<lambda>h. Inr (False, s\<lparr>theap := h\<rparr>))
        else bnd (TCP_EVENT_CLOSED e (set_tcp s i (tcp_fin_delivered c)) i) (\<lambda>(err, s). Inr (err = ERR_ABRT, s)))
      else Inr (False, s))"

definition unless_aborted :: "(bool \<times> tcp_globals) outcome \<Rightarrow> (tcp_globals \<Rightarrow> tcp_globals outcome) \<Rightarrow> tcp_globals outcome" where
  "unless_aborted m f = bnd m (\<lambda>(ab, s). if ab then Inr s else f s)"

definition input_events :: "tcp_env \<Rightarrow> tcp_globals \<Rightarrow> nat \<Rightarrow> tcp_globals outcome" where
  "input_events e s i =
     (if recv_flags (t_in s) AND TF_RESET \<noteq> 0 then
        bnd (get_tcp s i) (\<lambda>c.
        bnd (TCP_EVENT_ERR e s (t_errf c) (t_callback_arg c) ERR_RST) (\<lambda>s.
        bnd (tcp_pcb_remove e L_active s i) (\<lambda>s. tcp_free s i)))
      else
        unless_aborted (input_event_sent e s i) (\<lambda>s.
        unless_aborted (tcp_input_delayed_close e s i) (\<lambda>s.
        unless_aborted (input_event_recv e s i) (\<lambda>s.
        unless_aborted (input_event_fin e s i) (\<lambda>s.
        unless_aborted (tcp_input_delayed_close e (s\<lparr>tcp_input_pcb := None\<rparr>) i) (\<lambda>s.
        bnd (on_pcb s i (tcp_output e)) (\<lambda>(_, s). Inr s)))))))"

text \<open>Refused data are offered again first; \<open>True\<close> if the segment is given up.\<close>

definition input_refused :: "tcp_env \<Rightarrow> tcp_globals \<Rightarrow> nat \<Rightarrow> (bool \<times> tcp_globals) outcome" where
  "input_refused e s i =
     bnd (get_tcp s i) (\<lambda>c.
     if refused_data c \<noteq> None then
       bnd (tcp_process_refused_data e s (Some i)) (\<lambda>(err, s).
       bnd (if err = ERR_ABRT then Inr True else bnd (get_tcp s i) (\<lambda>c. Inr (refused_data c \<noteq> None \<and> tcplen (t_in s) > 0))) (\<lambda>giveup.
       if giveup then
         bnd (get_tcp s i) (\<lambda>c.
         if rcv_ann_wnd c = 0 then bnd (on_pcb s i (tcp_send_empty_ack e)) (\<lambda>(_, s). Inr (True, s)) else Inr (True, s))
       else Inr (False, s)))
     else Inr (False, s))"

definition tcp_input_pcb_found :: "tcp_env \<Rightarrow> ip_globals \<Rightarrow> tcp_globals \<Rightarrow> nat \<Rightarrow> pptr \<Rightarrow> tcp_globals outcome" where
  "tcp_input_pcb_found e g s i p =
     bnd (pget (theap s) p) (\<lambda>b.
     let t = t_in s;
         t = t\<lparr>inseg := (inseg t)\<lparr>seg_len := p_tot_len b, seg_p := p, tcphdr := i_tcphdr t\<rparr>, recv_data := None, recv_flags := 0, recv_acked := 0\<rparr>;
         h = (if i_flags t AND TCP_PSH \<noteq> 0 then pset (theap s) p (b\<lparr>p_flags := p_flags b OR PBUF_FLAG_PUSH\<rparr>) else theap s)
     in bnd (unless_aborted (input_refused e (s\<lparr>theap := h, t_in := t\<rparr>) i) (\<lambda>s.
          bnd (tcp_process e g (s\<lparr>tcp_input_pcb := Some i\<rparr>) i) (\<lambda>(err, s).
          if err \<noteq> ERR_ABRT then input_events e s i else Inr s))) (\<lambda>s.
        bnd (if seg_p (inseg (t_in s)) \<noteq> None
             then bnd (pbuf_free (theap s) (seg_p (inseg (t_in s)))) (\<lambda>(_, h). Inr h) else Inr (theap s)) (\<lambda>h.
        Inr (s\<lparr>tcp_input_pcb := None, theap := h, t_in := (t_in s)\<lparr>recv_data := None, inseg := (inseg (t_in s))\<lparr>seg_p := None\<rparr>\<rparr>\<rparr>))))"

text \<open>
  The header: the places of the options, then the fields in host order. \<open>False\<close> stands for \<^verbatim>\<open>goto dropped\<close>.
\<close>

definition tcp_input_options :: "heap \<Rightarrow> tcp_in \<Rightarrow> pptr \<Rightarrow> u8_t \<Rightarrow> (bool \<times> tcp_in \<times> heap) outcome" where
  "tcp_input_options h t p hdrlen_bytes =
     bnd (pget h p) (\<lambda>b.
     let t = t\<lparr>tcphdr_optlen := ucast hdrlen_bytes - of_nat TCP_HLEN, tcphdr_opt2 := None\<rparr> in
     if p_len b \<ge> ucast hdrlen_bytes then
       bnd (pbuf_remove_header h p (unat hdrlen_bytes)) (\<lambda>(_, h). Inr (True, t\<lparr>tcphdr_opt1len := tcphdr_optlen t\<rparr>, h))
     else
       lwip_assert (p_next b \<noteq> None) (
       bnd (pbuf_remove_header h p TCP_HLEN) (\<lambda>(_, h).
       bnd (pget h p) (\<lambda>b.
       let t = t\<lparr>tcphdr_opt1len := p_len b\<rparr>; opt2len = tcphdr_optlen t - p_len b in
       bnd (pbuf_remove_header h p (unat (p_len b))) (\<lambda>(_, h).
       bnd (pget h (p_next b)) (\<lambda>b2.
       if opt2len > p_len b2 then Inr (False, t, h)
       else
         let t = t\<lparr>tcphdr_opt2 := p_payload b2\<rparr> in
         bnd (pbuf_remove_header h (p_next b) (unat opt2len)) (\<lambda>(_, h).
         bnd (pupd h p (\<lambda>b. b\<lparr>p_tot_len := p_tot_len b - opt2len\<rparr>)) (\<lambda>h.
         bnd (pget h p) (\<lambda>b.
         bnd (pget h (p_next b)) (\<lambda>b2.
         lwip_assert (p_len b = 0) (lwip_assert (p_tot_len b = p_tot_len b2) (Inr (True, t, h)))))))))))))"

definition tcp_input_header :: "heap \<Rightarrow> tcp_in \<Rightarrow> pptr \<Rightarrow> (bool \<times> tcp_in \<times> heap) outcome" where
  "tcp_input_header h t p =
     (let hdr = i_tcphdr t in
      bnd (load16 h hdr 0) (\<lambda>src. bnd (store16 h hdr 0 (lwip_ntohs src)) (\<lambda>h.
      bnd (load16 h hdr 2) (\<lambda>dest. bnd (store16 h hdr 2 (lwip_ntohs dest)) (\<lambda>h.
      bnd (load32 h hdr 4) (\<lambda>sq. bnd (store32 h hdr 4 (lwip_ntohl sq)) (\<lambda>h.
      bnd (load32 h hdr 8) (\<lambda>ak. bnd (store32 h hdr 8 (lwip_ntohl ak)) (\<lambda>h.
      bnd (load16 h hdr 14) (\<lambda>wnd. bnd (store16 h hdr 14 (lwip_ntohs wnd)) (\<lambda>h.
      bnd (tcph_flags h hdr) (\<lambda>f.
      bnd (pget h p) (\<lambda>b.
      let syn_fin = f AND (TCP_FIN OR TCP_SYN) \<noteq> 0;
          t = t\<lparr>seqno := lwip_ntohl sq, ackno := lwip_ntohl ak, i_flags := f, tcplen := (if syn_fin then p_tot_len b + 1 else p_tot_len b)\<rparr>
      in Inr (\<not> (syn_fin \<and> tcplen t < p_tot_len b), t, h))))))))))))))"

definition tcp_match :: "ip_globals \<Rightarrow> netif \<Rightarrow> u16_t \<Rightarrow> u16_t \<Rightarrow> tcp_pcb \<Rightarrow> bool" where
  "tcp_match g inp src dest c \<longleftrightarrow> (t_netif_idx c = NETIF_NO_INDEX \<or> t_netif_idx c = netif_get_index inp)
     \<and> t_remote_port c = src \<and> t_local_port c = dest
     \<and> ip_addr_cmp (t_remote_ip c) (current_iphdr_src g) \<and> ip_addr_cmp (t_local_ip c) (current_iphdr_dest g)"

fun tcp_find :: "(tcp_state \<Rightarrow> bool) \<Rightarrow> (tcp_pcb \<Rightarrow> bool) \<Rightarrow> tcp_globals \<Rightarrow> nat list \<Rightarrow> nat option outcome" where
  "tcp_find st m s [] = Inr None"
| "tcp_find st m s (i # is) = bnd (get_tcp s i) (\<lambda>c. lwip_assert (st (t_state c)) (if m c then Inr (Some i) else tcp_find st m s is))"

text \<open>
  The search. The active pcb that is found moves to the front of its list. With \<^verbatim>\<open>TUN2SOCKS\<close> the first listening pcb takes
  every other segment. The list of an unknown connection ends in the reset.
\<close>

definition tcp_input_demux :: "tcp_env \<Rightarrow> ip_globals \<Rightarrow> tcp_globals \<Rightarrow> pptr \<Rightarrow> netif \<Rightarrow> tcp_globals outcome" where
  "tcp_input_demux e g s p inp =
     (let free_p = (\<lambda>s. bnd (pbuf_free (theap s) p) (\<lambda>(_, h). Inr (s\<lparr>theap := h\<rparr>))) in
      bnd (load16 (theap s) (i_tcphdr (t_in s)) 0) (\<lambda>src.
      bnd (load16 (theap s) (i_tcphdr (t_in s)) 2) (\<lambda>dest.
      bnd (tcp_find (\<lambda>st. st \<notin> {CLOSED, TIME_WAIT, LISTEN}) (tcp_match g inp src dest) s (tcp_active_pcbs s)) (\<lambda>pcb. case pcb of
        Some i \<Rightarrow>
          bnd (tcp_input_pcb_found e g (s\<lparr>tcp_active_pcbs := i # remove1 i (tcp_active_pcbs s)\<rparr>) i p) (\<lambda>s.
          lwip_assert (tcp_pcbs_sane s) (Inr s))
      | None \<Rightarrow>
          bnd (tcp_find (\<lambda>st. st = TIME_WAIT) (tcp_match g inp src dest) s (tcp_tw_pcbs s)) (\<lambda>pcb. case pcb of
            Some i \<Rightarrow> bnd (tcp_timewait_input e g s i) free_p
          | None \<Rightarrow> (case tcp_listen_pcbs s of
              l # _ \<Rightarrow> bnd (tcp_listen_input e g s l) free_p
            | [] \<Rightarrow>
                bnd (if i_flags (t_in s) AND TCP_RST = 0 then input_rst e g s None else Inr s) (\<lambda>s.
                bnd (free_p s) (\<lambda>s. lwip_assert (tcp_pcbs_sane s) (Inr s)))))))))"

definition tcp_input :: "tcp_env \<Rightarrow> ip_globals \<Rightarrow> tcp_globals \<Rightarrow> pptr \<Rightarrow> netif \<Rightarrow> tcp_globals outcome" where
  "tcp_input e g s p inp =
     lwip_assert (p \<noteq> None) (
     bnd (pget (theap s) p) (\<lambda>b.
     let dropped = (\<lambda>s. bnd (pbuf_free (theap s) p) (\<lambda>(_, h). Inr (s\<lparr>theap := h\<rparr>)));
         t = (t_in s)\<lparr>i_tcphdr := p_payload b\<rparr>; s = s\<lparr>t_in := t\<rparr>
     in if unat (p_len b) < TCP_HLEN then dropped s
        else if ip_addr_isbroadcast (current_iphdr_dest g) (current_netif g) \<or> ip_addr_ismulticast (current_iphdr_dest g) then dropped s
        else
          bnd (load16 (theap s) (i_tcphdr t) 12) (\<lambda>w.
          let hdrlen_bytes = TCPH_HDRLEN_BYTES w in
          if unat hdrlen_bytes < TCP_HLEN \<or> ucast hdrlen_bytes > p_tot_len b then dropped s
          else
            bnd (tcp_input_options (theap s) t p hdrlen_bytes) (\<lambda>(ok, t, h).
            if \<not> ok then dropped (s\<lparr>theap := h, t_in := t\<rparr>)
            else
              bnd (tcp_input_header h t p) (\<lambda>(ok, t, h).
              let s = s\<lparr>theap := h, t_in := t\<rparr> in
              if ok then tcp_input_demux e g s p inp else dropped s)))))"

end
