(* ===== verification/Ip4_In.thy ===== *)
theory Ip4_In
  imports Raw_C Reass_Timeout Tcp_In
begin

text \<open>
  The way of a packet into the stack: \<^verbatim>\<open>core/input.go\<close>, \<^verbatim>\<open>ip_input\<close> of \<^verbatim>\<open>core/ip.c\<close> and \<^verbatim>\<open>ip4_input\<close> of \<^verbatim>\<open>core/ipv4/ip4.c\<close>, which
  call reassembly, the raw pcbs, UDP, TCP and ICMP. IPv6 input, the callbacks of the application and the parity of
  addresses are parameters.
\<close>

section \<open>State\<close>

text \<open>The variable \<^verbatim>\<open>ip_data\<close>.\<close>

record ip_data_t =
  d_netif :: "netif option"
  d_input_netif :: "netif option"
  d_ip4_header :: ptr
  d_ip_header_tot_len :: u16_t
  d_iphdr_src :: ip_addr_t
  d_iphdr_dest :: ip_addr_t

text \<open>The modules' variables together. Memory and the interfaces are those of the field \<open>l_udp\<close>; \<open>tcp_of\<close> lends them to TCP.\<close>

record lwip =
  l_udp :: udp_globals
  l_reass :: reass
  l_raw :: raw_globals
  l_tcp :: tcp_globals
  l_ip :: ip_data_t

abbreviation (input) lheap :: "lwip \<Rightarrow> heap" where "lheap s \<equiv> uheap (l_udp s)"

abbreviation (input) netifs :: "lwip \<Rightarrow> netif list" where "netifs s \<equiv> netif_list (l_udp s)"

definition with_heap :: "lwip \<Rightarrow> heap \<Rightarrow> lwip" where
  "with_heap s h = s\<lparr>l_udp := (l_udp s)\<lparr>uheap := h\<rparr>\<rparr>"

definition tcp_of :: "lwip \<Rightarrow> tcp_globals" where
  "tcp_of s = (l_tcp s)\<lparr>theap := lheap s, t_netifs := netifs s\<rparr>"

definition with_tcp :: "lwip \<Rightarrow> tcp_globals \<Rightarrow> lwip" where
  "with_tcp s t = with_heap (s\<lparr>l_tcp := t\<rparr>) (theap t)"

record ip_env =
  i_odd :: "ptr \<Rightarrow> bool"
  i_udp_recv :: "nat \<Rightarrow> nat \<Rightarrow> nat \<Rightarrow> pptr \<Rightarrow> ip_addr_t \<Rightarrow> u16_t \<Rightarrow> ip_addr_t \<Rightarrow> u16_t \<Rightarrow> udp_globals \<Rightarrow> udp_globals outcome"
  i_raw :: raw_env
  i_tcp :: tcp_env
  i_ip6_input :: "lwip \<Rightarrow> pptr \<Rightarrow> netif \<Rightarrow> (err_t \<times> lwip) outcome"
  i_ip6_output :: "heap \<Rightarrow> pptr \<Rightarrow> ip_addr_t \<Rightarrow> ip_addr_t \<Rightarrow> u8_t \<Rightarrow> u8_t \<Rightarrow> u8_t \<Rightarrow> netif \<Rightarrow> (err_t \<times> heap) outcome"
  i_icmp6_port_unreach :: "heap \<Rightarrow> pptr \<Rightarrow> heap outcome"

text \<open>What UDP finds around it: routing, output and errors of IPv4 as modelled.\<close>

definition udp_env_of :: "ip_env \<Rightarrow> netif list \<Rightarrow> udp_env" where
  "udp_env_of e nifs = \<lparr>
     ip4_route_src = \<lambda>src dest. ip4_route nifs dest,
     ip6_route = raw_route6 (i_raw e),
     ip_output_if_src = \<lambda>h p src dst ttl' tos' proto n. if IP_IS_V6 dst then i_ip6_output e h p src dst ttl' tos' proto n
       else ip4_output_if_src (i_odd e) h p (Some (ip_2_ip4 src)) (Some (ip_2_ip4 dst)) ttl' tos' proto n,
     icmp_port_unreach = \<lambda>v6 h p. if v6 then i_icmp6_port_unreach e h p else icmp_dest_unreach (i_odd e) nifs h p ICMP_DUR_PORT,
     recv_fn = i_udp_recv e,
     addr_odd = i_odd e\<rparr>"

section \<open>IPv4 input\<close>

definition ip4_drop :: "lwip \<Rightarrow> pptr \<Rightarrow> (err_t \<times> lwip) outcome" where
  "ip4_drop s p = bnd (pbuf_free (lheap s) p) (\<lambda>(_, h). Inr (ERR_OK, with_heap s h))"

definition v4_addr :: "u32_t \<Rightarrow> ip_addr_t" where
  "v4_addr a = \<lparr>u_addr = [a, 0, 0, 0], ip_zone = 0, ip_type = IPADDR_TYPE_V4\<rparr>"

text \<open>With \<^verbatim>\<open>TUN2SOCKS\<close> every interface accepts every packet.\<close>

definition ip4_input_accept :: "netif \<Rightarrow> bool" where
  "ip4_input_accept nif = True"

definition ip4_addr_isloopback :: "u32_t \<Rightarrow> bool" where
  "ip4_addr_isloopback a \<longleftrightarrow> a AND lwip_htonl 0xff000000 = lwip_htonl (push_bit 24 127)"

definition ip4_input_netif :: "netif list \<Rightarrow> netif \<Rightarrow> u32_t \<Rightarrow> netif option" where
  "ip4_input_netif nifs inp dest =
     (if ip4_addr_ismulticast dest then
        (if n_flags inp AND NETIF_FLAG_UP \<noteq> 0 \<and> n_ip_addr inp \<noteq> IPADDR_ANY then Some inp else None)
      else if ip4_input_accept inp then Some inp
      else if \<not> ip4_addr_isloopback dest then find (\<lambda>nif. nif \<noteq> inp \<and> ip4_input_accept nif) nifs
      else None)"

text \<open>The protocols; \<open>raw_status\<close> is the result of \<^verbatim>\<open>raw_input\<close>.\<close>

definition ip4_input_proto ::
  "ip_env \<Rightarrow> ip_globals \<Rightarrow> lwip \<Rightarrow> pptr \<Rightarrow> ptr \<Rightarrow> u16_t \<Rightarrow> raw_input_state \<Rightarrow> u8_t \<Rightarrow> netif \<Rightarrow> lwip outcome" where
  "ip4_input_proto e g s p iphdr' iphdr_hlen raw_status proto inp =
     (if proto = IP_PROTO_UDP then
        bnd (udp_input (udp_env_of e (netifs s)) g (l_udp s) p (Some inp)) (\<lambda>u. Inr (s\<lparr>l_udp := u\<rparr>))
      else if proto = IP_PROTO_TCP then bnd (tcp_input (i_tcp e) g (tcp_of s) p inp) (\<lambda>t. Inr (with_tcp s t))
      else if proto = IP_PROTO_ICMP then
        bnd (icmp_input (i_odd e) g iphdr' (lheap s) p inp) (\<lambda>h. Inr (with_heap s h))
      else
        bnd (if raw_status \<noteq> RAW_INPUT_DELIVERED \<and> \<not> ip4_addr_isbroadcast_u32 (ip_2_ip4 (current_iphdr_dest g)) (current_netif g)
                 \<and> \<not> ip4_addr_ismulticast (ip_2_ip4 (current_iphdr_dest g))
             then bnd (pbuf_header_force (lheap s) p iphdr_hlen) (\<lambda>(_, h).
                  icmp_dest_unreach (i_odd e) (netifs s) h p ICMP_DUR_PROTO)
             else Inr (lheap s)) (\<lambda>h.
        bnd (pbuf_free h p) (\<lambda>(_, h). Inr (with_heap s h))))"

text \<open>The part of \<^verbatim>\<open>ip4_input\<close> from \<open>send to upper layers\<close> on.\<close>

definition ip4_input_upper :: "ip_env \<Rightarrow> lwip \<Rightarrow> pptr \<Rightarrow> u16_t \<Rightarrow> netif \<Rightarrow> netif \<Rightarrow> (err_t \<times> lwip) outcome" where
  "ip4_input_upper e s p iphdr_hlen nif inp =
     bnd (pget (lheap s) p) (\<lambda>b.
     let iphdr' = p_payload b in
     bnd (mem_read (lheap s) iphdr' 0 1) (\<lambda>v_hl.
     let d = (l_ip s)\<lparr>d_netif := Some nif, d_input_netif := Some inp, d_ip4_header := iphdr',
               d_ip_header_tot_len := ucast (IPH_HL_BYTES v_hl)\<rparr>;
         s = s\<lparr>l_ip := d\<rparr>;
         g = \<lparr>current_netif = nif, current_is_v6 = False, current_ip_header_tot_len = d_ip_header_tot_len d,
              current_iphdr_src = d_iphdr_src d, current_iphdr_dest = d_iphdr_dest d\<rparr>
     in bnd (raw_input (i_raw e) g inp (l_raw s) (lheap s) p) (\<lambda>(raw_status, r, h).
        let s = with_heap (s\<lparr>l_raw := r\<rparr>) h in
        bnd (if raw_status \<noteq> RAW_INPUT_EATEN then
               bnd (pbuf_remove_header (lheap s) p (unat iphdr_hlen)) (\<lambda>(_, h).
               bnd (mem_read h iphdr' 9 1) (\<lambda>proto.
               ip4_input_proto e g (with_heap s h) p iphdr' iphdr_hlen raw_status (proto ! 0) inp))
             else Inr s) (\<lambda>s.
        Inr (ERR_OK, s\<lparr>l_ip := (l_ip s)\<lparr>d_netif := None, d_input_netif := None, d_ip4_header := None, d_ip_header_tot_len := 0,
               d_iphdr_src := v4_addr 0, d_iphdr_dest := v4_addr 0\<rparr>\<rparr>)))))"

text \<open>The part behind the length checks; \<open>hdr\<close> is the header without options.\<close>

definition ip4_input_checked :: "ip_env \<Rightarrow> lwip \<Rightarrow> pptr \<Rightarrow> u16_t \<Rightarrow> bytes \<Rightarrow> netif \<Rightarrow> (err_t \<times> lwip) outcome" where
  "ip4_input_checked e s p iphdr_hlen hdr inp =
     (let src = le32 (hdr ! 12) (hdr ! 13) (hdr ! 14) (hdr ! 15); dest = le32 (hdr ! 16) (hdr ! 17) (hdr ! 18) (hdr ! 19);
          s = s\<lparr>l_ip := (l_ip s)\<lparr>d_iphdr_dest := v4_addr dest, d_iphdr_src := v4_addr src\<rparr>\<rparr>;
          nif = ip4_input_netif (netifs s) inp dest
      in if ip4_addr_isbroadcast_u32 src inp \<or> ip4_addr_ismulticast src then ip4_drop s p
         else case nif of None \<Rightarrow> ip4_drop s p
         | Some n \<Rightarrow>
             if IPH_OFFSET hdr AND lwip_htons 0x3fff \<noteq> 0 then
               (case p of None \<Rightarrow> Inl Fault
                | Some a \<Rightarrow> bnd (ip4_reass (lwip_env (i_odd e) (netifs s)) ((l_reass s)\<lparr>rheap := lheap s\<rparr>) a) (\<lambda>(q, t).
                    let s = with_heap (s\<lparr>l_reass := t\<rparr>) (rheap t)
                    in if q = None then Inr (ERR_OK, s) else ip4_input_upper e s q iphdr_hlen n inp))
             else ip4_input_upper e s p iphdr_hlen n inp)"

definition ip4_input :: "ip_env \<Rightarrow> lwip \<Rightarrow> pptr \<Rightarrow> netif \<Rightarrow> (err_t \<times> lwip) outcome" where
  "ip4_input e s p inp =
     bnd (pget (lheap s) p) (\<lambda>b.
     bnd (mem_read (lheap s) (p_payload b) 0 1) (\<lambda>v_hl.
     if drop_bit 4 (v_hl ! 0) \<noteq> 4 then ip4_drop s p
     else
       let iphdr_hlen = ucast (IPH_HL_BYTES v_hl) in
       bnd (load16 (lheap s) (p_payload b) 2) (\<lambda>len.
       let iphdr_len = lwip_ntohs len in
       bnd (if iphdr_len < p_tot_len b then pbuf_realloc (lheap s) p iphdr_len else Inr (lheap s)) (\<lambda>h.
       let s = with_heap s h in
       bnd (pget h p) (\<lambda>b.
       if iphdr_hlen > p_len b \<or> iphdr_len > p_tot_len b \<or> unat iphdr_hlen < IP_HLEN then ip4_drop s p
       else bnd (mem_read h (p_payload b) 0 IP_HLEN) (\<lambda>hdr. ip4_input_checked e s p iphdr_hlen hdr inp))))))"

definition ip_input :: "ip_env \<Rightarrow> lwip \<Rightarrow> pptr \<Rightarrow> netif \<Rightarrow> (err_t \<times> lwip) outcome" where
  "ip_input e s p inp =
     (if p \<noteq> None then
        bnd (pget (lheap s) p) (\<lambda>b.
        bnd (mem_read (lheap s) (p_payload b) 0 1) (\<lambda>v.
        if drop_bit 4 (v ! 0) = 6 then i_ip6_input e s p inp else ip4_input e s p inp))
      else Inr (ERR_VAL, s))"

section \<open>Packets from the application\<close>

text \<open>
  \<^verbatim>\<open>core/input.go\<close>. An index out of range is a panic, \<open>Abort\<close> here; an error value is \<open>Inl\<close> of its text in the inner sum.
\<close>

definition go_index :: "bytes \<Rightarrow> nat \<Rightarrow> byte outcome" where
  "go_index p i = (if i < length p then Inr (p ! i) else Inl Abort)"

definition peekIPVer :: "bytes \<Rightarrow> (string + u8_t)" where
  "peekIPVer p = (if length p < 1 then Inl ''short IP packet'' else Inr (drop_bit 4 (p ! 0 AND 0xf0)))"

definition moreFrags :: "u8_t \<Rightarrow> bytes \<Rightarrow> bool outcome" where
  "moreFrags ipv p = (if ipv = 4 then bnd (go_index p 6) (\<lambda>x. Inr (x AND 0x20 > 0)) else if ipv = 6 then Inr True else Inr False)"

definition fragOffset :: "u8_t \<Rightarrow> bytes \<Rightarrow> u16_t outcome" where
  "fragOffset ipv p = (if ipv = 4 then bnd (go_index p 6) (\<lambda>x. bnd (go_index p 7) (\<lambda>y. Inr (lwip_ntohs (le16 x y) AND 0x1fff)))
     else if ipv = 6 then Inr 1 else Inr 0)"

definition peekNextProto :: "u8_t \<Rightarrow> bytes \<Rightarrow> (string + u8_t) outcome" where
  "peekNextProto ipv p =
     (if ipv = 4 then if length p < 9 then Inr (Inl ''short IPv4 packet'') else bnd (go_index p 9) (\<lambda>x. Inr (Inr x))
      else if ipv = 6 then if length p < 6 then Inr (Inl ''short IPv6 packet'') else bnd (go_index p 6) (\<lambda>x. Inr (Inr x))
      else Inr (Inl ''unknown IP version''))"

text \<open>The slice of the application, which a pbuf refers to.\<close>

definition go_slice :: "heap \<Rightarrow> bytes \<Rightarrow> ptr \<times> heap" where
  "go_slice h pkt = (Some (nextid h, 0), h\<lparr>mem := (mem h)(nextid h \<mapsto> pkt), nextid := Suc (nextid h)\<rparr>)"

definition input_pbuf :: "heap \<Rightarrow> u8_t \<Rightarrow> u8_t \<Rightarrow> bytes \<Rightarrow> (pptr \<times> heap) outcome" where
  "input_pbuf h ipv nextProto pkt =
     bnd (if nextProto = 17 then bnd (moreFrags ipv pkt) (\<lambda>m. if m then Inr False else bnd (fragOffset ipv pkt) (\<lambda>off. Inr (\<not> off > 0)))
          else Inr False) (\<lambda>whole_udp.
     if whole_udp then
       (let (d, h) = go_slice h pkt in pbuf_alloc_reference h d (of_nat (length pkt)) PBUF_REF)
     else
       bnd (pbuf_alloc h PBUF_RAW (of_nat (length pkt)) PBUF_POOL) (\<lambda>(buf, h).
       bnd (pbuf_take h buf (Some pkt) (of_nat (length pkt))) (\<lambda>(_, h). Inr (buf, h))))"

definition go_input :: "ip_env \<Rightarrow> lwip \<Rightarrow> bytes \<Rightarrow> (nat \<times> string option \<times> lwip) outcome" where
  "go_input e s pkt =
     (if length pkt = 0 then Inr (0, None, s)
      else case peekIPVer pkt of Inl err \<Rightarrow> Inr (0, Some err, s)
      | Inr ipv \<Rightarrow> bnd (peekNextProto ipv pkt) (\<lambda>x. case x of Inl err \<Rightarrow> Inr (0, Some err, s)
      | Inr nextProto \<Rightarrow>
          bnd (input_pbuf (lheap s) ipv nextProto pkt) (\<lambda>(buf, h).
          (case netifs s of [] \<Rightarrow> Inl Fault
           | nif # _ \<Rightarrow>
               bnd (ip_input e (with_heap s h) buf nif) (\<lambda>(ierr, s).
               if ierr \<noteq> ERR_OK then bnd (pbuf_free (lheap s) buf) (\<lambda>(_, h). Inr (0, Some ''packet not handled'', with_heap s h))
               else Inr (length pkt, None, s))))))"

section \<open>Packets\<close>

text \<open>A packet nothing else refers to.\<close>

definition packet :: "heap \<Rightarrow> nat \<Rightarrow> nat list \<Rightarrow> bool" where
  "packet h a qs \<longleftrightarrow> heap_ok h \<and> chain_ok h (Some a) (a # qs) \<and> (\<forall>q\<in>set (a # qs). freeable h q \<and> once h q) \<and> independent h (a # qs)"

lemma packetE:
  assumes "packet h a qs"
  obtains b where "pbufs h a = Some b" "payload_ok h a" "length (seg h a) = unat (p_len b)"
    "unat (p_tot_len b) = length (chain_data h (a # qs))" "heap_ok h" "chain_ok h (Some a) (a # qs)" "unat (p_len b) \<le> length (chain_data h (a # qs))"
proof -
  have p: "heap_ok h" "chain_ok h (Some a) (a # qs)" using assms by (auto simp: packet_def)
  then obtain b where b: "pbufs h a = Some b" "payload_ok h a" by (auto simp: chain_ok_Cons)
  show thesis using that [of b] b p chain_ok_tot_len [OF p(2)] length_seg [OF b(2)] by simp
qed

lemma packet_read:
  assumes "packet h a qs" and "pbufs h a = Some b" and "off + n \<le> unat (p_len b)"
  shows "mem_read h (p_payload b) off n = Inr (take n (drop off (chain_data h (a # qs))))"
proof -
  have b: "payload_ok h a" "length (seg h a) = unat (p_len b)" by (rule packetE [OF assms(1)]; use assms(2) in simp)+
  then show ?thesis using mem_read_seg [OF b(1), of off n] assms(2,3) by simp
qed

lemma mem_read_pbufs [simp]: "mem_read (h\<lparr>pbufs := x\<rparr>) d off n = mem_read h d off n"
  by (simp add: mem_read_def split: option.split prod.split)

lemma packet_free:
  assumes "packet h a qs"
  shows "pbuf_free h (Some a) = Inr (of_nat (length (a # qs)), drop_objs (set (a # qs)) h)"
proof -
  have p: "heap_ok h" "path h (Some a) (a # qs)" "\<forall>q\<in>set (a # qs). freeable h q" "\<forall>q\<in>set (a # qs). once h q"
    using assms chain_ok_path [of h "Some a" "a # qs"] unfolding packet_def by blast+
  show ?thesis by (rule pbuf_free_all [OF p])
qed

lemma packet_remove_hdr:
  assumes "packet h a qs" and "pbufs h a = Some b" and "n \<le> unat (p_len b)" and "h' = h\<lparr>pbufs := (pbufs h)(a \<mapsto> remove_hdr n b)\<rparr>"
  shows "pbuf_remove_header h (Some a) n = Inr (0, h')" and "packet h' a qs" and "chain_data h' (a # qs) = drop n (chain_data h (a # qs))"
    and "unat (p_len (pb h' a)) = unat (p_len b) - n"
proof -
  have p: "heap_ok h" "chain_ok h (Some a) (a # qs)" "payload_ok h a" "independent h (a # qs)" using assms(1) by (auto simp: packet_def chain_ok_Cons)
  have n: "n \<le> 65535" using assms(3) unat_lt_16 [of "p_len b"] by linarith
  show "pbuf_remove_header h (Some a) n = Inr (0, h')" using pbuf_remove_header_correct [OF assms(2), of n] assms(3,4) n by simp
  note c = chain_remove_hdr [OF p(2) assms(2,3,4)]
  have "block h' u = Some v \<Longrightarrow> block h u = Some v" for u v
    using assms(2,3,4) n unat_of_nat_16 [OF n] by (cases "u = a") (auto simp: block_def remove_hdr_def ptr_add_def pb_def split: if_splits option.splits)
  then have "independent h' (a # qs)" using p(4) unfolding independent_def by blast
  moreover have "heap_ok h'" unfolding assms(4) by (rule heap_ok_upd [OF p(1) assms(2)])
  moreover have "\<forall>q\<in>set (a # qs). freeable h' q \<and> once h' q" using freeable_remove_hdr [OF assms(2)] assms(1,4) by (auto simp: packet_def)
  ultimately show "packet h' a qs" using c(1) by (simp only: packet_def)
  show "chain_data h' (a # qs) = drop n (chain_data h (a # qs))" by (rule c(2))
  show "unat (p_len (pb h' a)) = unat (p_len b) - n" using seg_remove_hdr(3) [OF assms(2) p(3) assms(3)] assms(4) by simp
qed

section \<open>What \<open>ip4_input\<close> does with a packet\<close>

lemma with_heap_simps [simp]:
  "lheap (with_heap s h) = h" "l_reass (with_heap s h) = l_reass s" "l_raw (with_heap s h) = l_raw s" "l_ip (with_heap s h) = l_ip s"
  "netifs (with_heap s h) = netifs s" "with_heap (with_heap s h) h' = with_heap s h'" "l_udp (with_heap s h) = (l_udp s)\<lparr>uheap := h\<rparr>"
  "with_heap s (lheap s) = s" "with_heap (s\<lparr>l_ip := d\<rparr>) h = (with_heap s h)\<lparr>l_ip := d\<rparr>"
  by (simp_all add: with_heap_def)

text \<open>The fields of a header that the checks look at.\<close>

definition hdr_dest :: "bytes \<Rightarrow> u32_t" where
  "hdr_dest bs = le32 (bs ! 16) (bs ! 17) (bs ! 18) (bs ! 19)"

definition hlen_of :: "bytes \<Rightarrow> nat" where
  "hlen_of bs = unat (IPH_HL_BYTES bs)"

definition total_len :: "bytes \<Rightarrow> nat" where
  "total_len bs = unat (lwip_ntohs (IPH_LEN bs))"

text \<open>Cutting off the bytes behind the length that the header gives.\<close>

definition cut_to :: "heap \<Rightarrow> nat \<Rightarrow> nat list \<Rightarrow> nat \<Rightarrow> heap \<Rightarrow> nat list \<Rightarrow> bool" where
  "cut_to h a qs n h' us \<longleftrightarrow> packet h' a us \<and> chain_data h' (a # us) = take n (chain_data h (a # qs)) \<and> set us \<subseteq> set qs
     \<and> net h' = net h \<and> nextid h' = nextid h \<and> oom h' = oom h \<and> p_payload (pb h' a) = p_payload (pb h a)
     \<and> p_type_internal (pb h' a) = p_type_internal (pb h a) \<and> p_len (pb h' a) \<le> p_len (pb h a) \<and> (\<forall>q. q \<notin> set qs - set us \<longrightarrow> mem h' q = mem h q)
     \<and> (\<forall>q\<in>set qs - set us. pbufs h' q = None \<and> mem h' q = None) \<and> (\<forall>q. q \<notin> set (a # qs) \<longrightarrow> pbufs h' q = pbufs h q)"

lemma cut_to_self: "packet h a qs \<Longrightarrow> length (chain_data h (a # qs)) \<le> n \<Longrightarrow> cut_to h a qs n h qs"
  by (simp add: cut_to_def)

lemma pbuf_realloc_cut:
  assumes "packet h a qs" and "unat len < length (chain_data h (a # qs))"
  shows "\<exists>h' us. pbuf_realloc h (Some a) len = Inr h' \<and> cut_to h a qs (unat len) h' us"
proof -
  have p: "heap_ok h" "chain_ok h (Some a) (a # qs)" "\<forall>q\<in>set (a # qs). freeable h q \<and> once h q" "independent h (a # qs)"
    using assms(1) by (auto simp only: packet_def)
  obtain h' ws vs where r: "a # qs = ws @ vs" "ws \<noteq> []" "pbuf_realloc h (Some a) len = Inr h'" "heap_ok h'" "chain_ok h' (Some a) ws"
    "chain_data h' ws = take (unat len) (chain_data h (a # qs))" "net h' = net h" "nextid h' = nextid h" "oom h' = oom h"
    "\<forall>q. q \<notin> set vs \<longrightarrow> mem h' q = mem h q" "\<forall>q. q \<notin> set (a # qs) \<longrightarrow> pbufs h' q = pbufs h q"
    "\<forall>q\<in>set vs. pbufs h' q = None \<and> mem h' q = None"
    and kept: "\<forall>q\<in>set ws. \<exists>b b'. pbufs h q = Some b \<and> pbufs h' q = Some b' \<and> p_payload b' = p_payload b \<and> p_ref b' = p_ref b
          \<and> p_type_internal b' = p_type_internal b \<and> p_flags b' = p_flags b \<and> p_len b' \<le> p_len b"
    using pbuf_realloc_packet [OF p assms(2)] by blast
  obtain us where ws: "ws = a # us" using r(1,2) by (cases ws) auto
  have dist: "distinct (a # qs)" by (rule path_distinct [OF chain_ok_path [OF p(2)]])
  have vs: "set vs = set qs - set us" "set us \<subseteq> set qs" using r(1) dist by (auto simp: ws)
  have fr: "freeable h' q \<and> once h' q" if q: "q \<in> set (a # us)" for q
  proof -
    obtain b b' where b: "pbufs h q = Some b" "pbufs h' q = Some b'" "p_ref b' = p_ref b" "p_type_internal b' = p_type_internal b" "p_flags b' = p_flags b"
      using kept q ws by blast
    have "freeable h q" "once h q" "q \<notin> set vs" using p(3) q r(1) dist by (auto simp: ws)
    then show ?thesis using b r(10) by (simp add: freeable_iff once_def pbuf_get_allocsrc_def)
  qed
  have "block h u = Some v" if u: "u \<in> set (a # us)" "block h' u = Some v" for u v
  proof -
    obtain b b' where "pbufs h u = Some b" "pbufs h' u = Some b'" "p_payload b' = p_payload b" "p_len b' \<le> p_len b" using kept u ws by blast
    then show ?thesis using u(2) by (auto simp: block_def word_le_nat_alt unat_eq_zero split: if_splits)
  qed
  then have "independent h' (a # us)" using p(4) r(1) unfolding independent_def ws by (metis UnI1 set_append)
  then have "packet h' a us" using r(4,5) fr unfolding packet_def ws by blast
  moreover obtain b b' where "pbufs h a = Some b" "pbufs h' a = Some b'" "p_payload b' = p_payload b" "p_type_internal b' = p_type_internal b"
      "p_len b' \<le> p_len b" using kept ws by (meson list.set_intros(1))
  ultimately show ?thesis using r(3,6-12) vs ws by (intro exI [of _ h'] exI [of _ us]) (simp add: cut_to_def)
qed

lemma packet_start:
  assumes "packet h a qs" and "4 \<le> unat (p_len (pb h a))" and "d = chain_data h (a # qs)" and "pbufs h a = Some b"
  shows "mem_read h (p_payload b) 0 1 = Inr (take 1 d)" and "load16 h (p_payload b) 2 = Inr (IPH_LEN d)" and "4 \<le> length d"
proof -
  note rd = packet_read [OF assms(1,4), folded assms(3)]
  show "mem_read h (p_payload b) 0 1 = Inr (take 1 d)" using rd [of 0 1] assms(2,4) by simp
  show l: "4 \<le> length d" by (rule packetE [OF assms(1)]) (use assms(2-4) in simp)
  have "take 2 (drop 2 d) = [d ! 2, d ! 3]" using l by (auto simp: numeral_eq_Suc Suc_le_length_iff)
  then show "load16 h (p_payload b) 2 = Inr (IPH_LEN d)" using rd [of 2 2] assms(2,4) by (simp add: load16_def IPH_LEN_def)
qed

lemma ucast_hlen: "(ucast (IPH_HL_BYTES d) :: u16_t) = of_nat (hlen_of d)" "unat (of_nat (hlen_of d) :: u16_t) = hlen_of d"
  using unat_IPH_HL_BYTES [of d] by (simp_all add: hlen_of_def word_unat_eq_iff unat_of_nat_16)

text \<open>What is left of a packet when the version and the length have been looked at.\<close>

definition kept_len :: "bytes \<Rightarrow> nat" where
  "kept_len d = (if drop_bit 4 (d ! 0) = 4 then total_len d else length d)"

definition hdr_bad :: "bytes \<Rightarrow> nat \<Rightarrow> bool" where
  "hdr_bad d n \<longleftrightarrow> drop_bit 4 (d ! 0) \<noteq> 4 \<or> hlen_of d > n \<or> total_len d > length d \<or> hlen_of d < 20"

lemma ip4_input_starts:
  assumes "packet (lheap s) a qs" and "4 \<le> unat (p_len (pb (lheap s) a))" and "d = chain_data (lheap s) (a # qs)"
  obtains h' us where "cut_to (lheap s) a qs (kept_len d) h' us"
    and "ip4_input e s (Some a) inp = (if hdr_bad d (unat (p_len (pb h' a))) then ip4_drop (with_heap s h') (Some a)
     else ip4_input_checked e (with_heap s h') (Some a) (of_nat (hlen_of d)) (take 20 d) inp)"
proof -
  let ?h = "lheap s" and ?len = "lwip_ntohs (IPH_LEN d)"
  obtain b where b: "pbufs ?h a = Some b" "unat (p_tot_len b) = length d" by (rule packetE [OF assms(1)]) (simp only: assms(3))
  note st = packet_start [OF assms b(1)]
  have n0: "take 1 d ! 0 = d ! 0" and hl: "IPH_HL_BYTES (take 1 d) = IPH_HL_BYTES d" by (simp_all add: IPH_HL_BYTES_def)
  show thesis
  proof (cases "drop_bit 4 (d ! 0) = 4")
    case False
    have "ip4_input e s (Some a) inp = ip4_drop s (Some a)" using False b(1) st(1) n0 by (simp add: ip4_input_def)
    then show thesis using that [of ?h qs] cut_to_self [OF assms(1), of "length d"] False assms(3) by (simp add: hdr_bad_def kept_len_def)
  next
    case True
    obtain h' us where h': "(if ?len < p_tot_len b then pbuf_realloc ?h (Some a) ?len else Inr ?h) = Inr h'" "cut_to ?h a qs (total_len d) h' us"
    proof (cases "?len < p_tot_len b")
      case lt: True
      then have "unat ?len < length (chain_data ?h (a # qs))" using b(2) assms(3) by (simp add: word_less_nat_alt)
      then show ?thesis using pbuf_realloc_cut [OF assms(1)] that lt by (auto simp: total_len_def)
    next
      case ge: False
      then have "length d \<le> total_len d" using b(2) by (simp add: word_less_nat_alt total_len_def)
      then show ?thesis using that [of ?h qs] cut_to_self [OF assms(1)] assms(3) ge by simp
    qed
    have p': "packet h' a us" "chain_data h' (a # us) = take (total_len d) d" using h'(2) assms(3) by (simp_all add: cut_to_def)
    obtain b' where b': "pbufs h' a = Some b'" "unat (p_tot_len b') = min (total_len d) (length d)" "unat (p_len b') \<le> min (total_len d) (length d)"
    proof -
      have l: "length (chain_data h' (a # us)) = min (total_len d) (length d)" unfolding p'(2) by (simp add: min.commute)
      obtain b' where "pbufs h' a = Some b'" "unat (p_tot_len b') = length (chain_data h' (a # us))" "unat (p_len b') \<le> length (chain_data h' (a # us))"
        by (rule packetE [OF p'(1)])
      then show ?thesis using that unfolding l by blast
    qed
    have tot: "?len > p_tot_len b' \<longleftrightarrow> total_len d > length d" using b'(2) by (auto simp: word_less_nat_alt total_len_def)
    have "mem_read h' (p_payload b') 0 20 = Inr (take 20 d)" if "20 \<le> unat (p_len b')"
    proof -
      have "20 \<le> total_len d" using that b'(3) by simp
      then show ?thesis using packet_read [OF p'(1) b'(1), of 0 20] that unfolding p'(2) by (simp add: min_absorb1)
    qed
    moreover have "of_nat (hlen_of d) > p_len b' \<longleftrightarrow> hlen_of d > unat (p_len b')" using ucast_hlen(2) [of d] by (simp add: word_less_nat_alt)
    ultimately have "ip4_input e s (Some a) inp = (if hdr_bad d (unat (p_len b')) then ip4_drop (with_heap s h') (Some a)
        else ip4_input_checked e (with_heap s h') (Some a) (of_nat (hlen_of d)) (take 20 d) inp)"
      using True b(1) st n0 hl h'(1) b'(1) tot ucast_hlen [of d] by (simp add: ip4_input_def Let_def hdr_bad_def)
    then show thesis using that [of h' us] h'(2) True b'(1) by (simp add: kept_len_def)
  qed
qed

section \<open>Packets that are dropped\<close>

lemma ip4_drop_packet:
  assumes "packet (lheap s) a qs"
  shows "ip4_drop s (Some a) = Inr (ERR_OK, with_heap s (drop_objs (set (a # qs)) (lheap s)))"
  using packet_free [OF assms] by (simp add: ip4_drop_def)

lemma cut_then_drop:
  assumes "packet h a qs" and "cut_to h a qs n h' us" and "h'' = drop_objs (set (a # us)) h'"
  shows "heap_ok h'' \<and> net h'' = net h \<and> (\<forall>q. if q \<in> set (a # qs) then pbufs h'' q = None \<and> mem h'' q = None
      else pbufs h'' q = pbufs h q \<and> mem h'' q = mem h q)"
proof -
  have c: "set us \<subseteq> set qs" "net h' = net h" "\<forall>q. q \<notin> set qs - set us \<longrightarrow> mem h' q = mem h q" "heap_ok h'"
    "\<forall>q\<in>set qs - set us. pbufs h' q = None \<and> mem h' q = None" "\<forall>q. q \<notin> set (a # qs) \<longrightarrow> pbufs h' q = pbufs h q"
    using assms(2) unfolding cut_to_def packet_def by blast+
  have "net h'' = net h" unfolding assms(3) using c(2) by (simp add: drop_objs_def)
  moreover have "heap_ok h''" unfolding assms(3) by (rule heap_ok_drop [OF c(4)])
  moreover have "if q \<in> set (a # qs) then pbufs h'' q = None \<and> mem h'' q = None
      else pbufs h'' q = pbufs h q \<and> mem h'' q = mem h q" for q
    using c(1,3,5,6) unfolding assms(3) by (auto simp: restrict_map_def)
  ultimately show ?thesis by blast
qed

text \<open>The reasons to drop a packet: its header, or its addresses.\<close>

definition ip4_reject :: "netif list \<Rightarrow> netif \<Rightarrow> nat \<Rightarrow> bytes \<Rightarrow> bool" where
  "ip4_reject nifs inp n d \<longleftrightarrow> hdr_bad d n \<or> hlen_of d > total_len d \<or> ip4_addr_isbroadcast_u32 (hdr_src d) inp \<or> ip4_addr_ismulticast (hdr_src d)
     \<or> ip4_input_netif nifs inp (hdr_dest d) = None"

lemma nth_take20: "i < 20 \<Longrightarrow> take 20 d ! i = d ! i" by simp

text \<open>
  C25: A packet whose version is not 4, whose header is too short or does not fit into its first pbuf, which is shorter than its
  header says, whose source is a broadcast or multicast address, or that no interface takes, is freed with all its
  pbufs; nothing is sent and nothing else changes but the addresses in \<^verbatim>\<open>ip_data\<close>.
\<close>

theorem ip4_input_rejects:
  assumes "packet (lheap s) a qs" and "4 \<le> unat (p_len (pb (lheap s) a))" and "d = chain_data (lheap s) (a # qs)"
    and "ip4_reject (netifs s) inp (unat (p_len (pb (lheap s) a))) d"
  shows "\<exists>h x. ip4_input e s (Some a) inp = Inr (ERR_OK, (with_heap s h)\<lparr>l_ip := x\<rparr>) \<and> heap_ok h \<and> net h = net (lheap s)
    \<and> (\<forall>q. if q \<in> set (a # qs) then pbufs h q = None \<and> mem h q = None
           else pbufs h q = pbufs (lheap s) q \<and> mem h q = mem (lheap s) q)"
proof -
  obtain h' us where st: "cut_to (lheap s) a qs (kept_len d) h' us"
    "ip4_input e s (Some a) inp = (if hdr_bad d (unat (p_len (pb h' a))) then ip4_drop (with_heap s h') (Some a)
     else ip4_input_checked e (with_heap s h') (Some a) (of_nat (hlen_of d)) (take 20 d) inp)"
    by (rule ip4_input_starts [OF assms(1-3)])
  let ?h = "drop_objs (set (a # us)) h'"
  have p': "packet h' a us" using st(1) by (simp add: cut_to_def)
  have drop: "ip4_drop ((with_heap s h')\<lparr>l_ip := x\<rparr>) (Some a) = Inr (ERR_OK, (with_heap s ?h)\<lparr>l_ip := x\<rparr>)" for x
    using ip4_drop_packet [of "(with_heap s h')\<lparr>l_ip := x\<rparr>" a us] p' by (simp add: with_heap_def)
  have "\<exists>x. ip4_input e s (Some a) inp = Inr (ERR_OK, (with_heap s ?h)\<lparr>l_ip := x\<rparr>)"
  proof (cases "hdr_bad d (unat (p_len (pb h' a)))")
    case True
    then show ?thesis using st(2) drop [of "l_ip s"] by (intro exI [of _ "l_ip s"]) (simp add: with_heap_def)
  next
    case False
    have "unat (p_len (pb h' a)) \<le> unat (p_len (pb (lheap s) a))" using st(1) by (simp add: cut_to_def word_le_nat_alt)
    moreover have "unat (p_len (pb h' a)) \<le> total_len d"
    proof (rule packetE [OF p'])
      fix b assume "pbufs h' a = Some b" "unat (p_len b) \<le> length (chain_data h' (a # us))"
      moreover have "chain_data h' (a # us) = take (total_len d) d" using st(1) False assms(3) by (simp add: cut_to_def kept_len_def hdr_bad_def)
      ultimately show ?thesis by (simp del: chain_data_Cons)
    qed
    ultimately have "ip4_addr_isbroadcast_u32 (hdr_src d) inp \<or> ip4_addr_ismulticast (hdr_src d) \<or> ip4_input_netif (netifs s) inp (hdr_dest d) = None"
      using assms(4) False by (auto simp: ip4_reject_def hdr_bad_def)
    then have "\<exists>x. ip4_input_checked e (with_heap s h') (Some a) (of_nat (hlen_of d)) (take 20 d) inp = Inr (ERR_OK, (with_heap s ?h)\<lparr>l_ip := x\<rparr>)"
      by (auto simp: ip4_input_checked_def Let_def drop hdr_src_def hdr_dest_def)
    then show ?thesis using st(2) False by simp
  qed
  then show ?thesis using cut_then_drop [OF assms(1) st(1) refl] by blast
qed

section \<open>Packets that are passed on\<close>

text \<open>A whole datagram for this stack; there are no raw pcbs, since nothing in the program creates one.\<close>

definition ip4_good :: "lwip \<Rightarrow> netif \<Rightarrow> nat \<Rightarrow> bytes \<Rightarrow> bool" where
  "ip4_good s inp n d \<longleftrightarrow> \<not> ip4_reject (netifs s) inp n d \<and> IPH_OFFSET d AND lwip_htons 0x3fff = 0 \<and> raw_pcbs (l_raw s) = []"

definition globals_of :: "netif \<Rightarrow> bytes \<Rightarrow> ip_globals" where
  "globals_of nif d = \<lparr>current_netif = nif, current_is_v6 = False, current_ip_header_tot_len = of_nat (hlen_of d),
     current_iphdr_src = v4_addr (hdr_src d), current_iphdr_dest = v4_addr (hdr_dest d)\<rparr>"

definition ip_data_of :: "netif \<Rightarrow> netif \<Rightarrow> ptr \<Rightarrow> bytes \<Rightarrow> ip_data_t" where
  "ip_data_of nif inp p d = \<lparr>d_netif = Some nif, d_input_netif = Some inp, d_ip4_header = p, d_ip_header_tot_len = of_nat (hlen_of d),
     d_iphdr_src = v4_addr (hdr_src d), d_iphdr_dest = v4_addr (hdr_dest d)\<rparr>"

definition clear_ip :: "lwip \<Rightarrow> lwip" where
  "clear_ip s = s\<lparr>l_ip := (l_ip s)\<lparr>d_netif := None, d_input_netif := None, d_ip4_header := None, d_ip_header_tot_len := 0,
     d_iphdr_src := v4_addr 0, d_iphdr_dest := v4_addr 0\<rparr>\<rparr>"

lemma ip_data_set:
  "x\<lparr>d_iphdr_dest := v4_addr (hdr_dest d), d_iphdr_src := v4_addr (hdr_src d), d_netif := Some nif, d_input_netif := Some inp, d_ip4_header := p,
     d_ip_header_tot_len := of_nat (hlen_of d)\<rparr> = ip_data_of nif inp p d"
  by (cases x) (simp add: ip_data_of_def)

lemma ip4_input_upper_eq:
  assumes "packet (lheap s) a qs" and "pbufs (lheap s) a = Some b" and "20 \<le> unat (p_len b)" and "hlen_of d \<le> unat (p_len b)"
    and "take 20 (chain_data (lheap s) (a # qs)) = take 20 d" and "drop_bit 4 (d ! 0) = 4" and "raw_pcbs (l_raw s) = []"
    and "l_ip s = x\<lparr>d_iphdr_dest := v4_addr (hdr_dest d), d_iphdr_src := v4_addr (hdr_src d)\<rparr>"
    and "h = (lheap s)\<lparr>pbufs := (pbufs (lheap s))(a \<mapsto> remove_hdr (hlen_of d) b)\<rparr>"
  shows "ip4_input_upper e s (Some a) (of_nat (hlen_of d)) nif inp = bnd (ip4_input_proto e (globals_of nif d)
        ((with_heap s h)\<lparr>l_ip := ip_data_of nif inp (p_payload b) d\<rparr>) (Some a) (p_payload b) (of_nat (hlen_of d)) RAW_INPUT_NONE (d ! 9) inp)
        (\<lambda>s. Inr (ERR_OK, clear_ip s))"
proof -
  let ?h = "lheap s" and ?c = "chain_data (lheap s) (a # qs)"
  note rd = packet_read [OF assms(1,2)]
  have l: "20 \<le> length ?c" by (rule packetE [OF assms(1)]) (use assms(2,3) in simp)
  have c: "?c ! i = d ! i" if "i < 20" for i using arg_cong [OF assms(5), of "\<lambda>xs. xs ! i"] that by (simp del: chain_data_Cons)
  have one: "mem_read ?h (p_payload b) i 1 = Inr [d ! i]" if "i < 20" for i
  proof -
    have "take 1 (drop i ?c) = [?c ! i]" using l that by (simp add: take_Suc_conv_app_nth del: chain_data_Cons)
    then show ?thesis using rd [of i 1] assms(3) that c by simp
  qed
  have raw: "raw_input (i_raw e) g inp (l_raw s) ?h (Some a) = Inr (RAW_INPUT_NONE, l_raw s, ?h)" for g
    using one [of 0] one [of 9] assms(2,6,7) by (simp add: raw_input_def)
  have hl: "(ucast (IPH_HL_BYTES [d ! 0]) :: u16_t) = of_nat (hlen_of d)" using ucast_hlen(1) [of d] by (simp add: IPH_HL_BYTES_def)
  have rm: "pbuf_remove_header ?h (Some a) (hlen_of d) = Inr (0, h)" by (rule packet_remove_hdr(1) [OF assms(1,2,4,9)])
  have nine: "mem_read h (p_payload b) 9 1 = Inr [d ! 9]" using one [of 9] by (simp add: assms(9))
  show ?thesis using assms(2) one [of 0] raw hl rm nine ucast_hlen(2) [of d]
    by (simp add: ip4_input_upper_def Let_def assms(8) ip_data_set globals_of_def clear_ip_def)
qed

text \<open>The heap when the header has been taken off.\<close>

definition stripped :: "heap \<Rightarrow> nat \<Rightarrow> bytes \<Rightarrow> heap \<Rightarrow> bool" where
  "stripped h a d h' \<longleftrightarrow> packet h' a [] \<and> chain_data h' [a] = drop (hlen_of d) (take (total_len d) d) \<and> net h' = net h
     \<and> mem_read h' (p_payload (pb h a)) 0 (hlen_of d) = Inr (take (hlen_of d) d)
     \<and> p_payload (pb h' a) = ptr_add (p_payload (pb h a)) (int (hlen_of d)) \<and> p_type_internal (pb h' a) = p_type_internal (pb h a)
     \<and> mem h' = mem h \<and> nextid h' = nextid h \<and> oom h' = oom h \<and> (\<forall>q. q \<noteq> a \<longrightarrow> pbufs h' q = pbufs h q)"

lemma ip4_input_passes:
  assumes "packet (lheap s) a []" and "4 \<le> unat (p_len (pb (lheap s) a))" and "d = chain_data (lheap s) [a]"
    and "ip4_good s inp (unat (p_len (pb (lheap s) a))) d"
    and "P = p_payload (pb (lheap s) a)"
  obtains h nif where "stripped (lheap s) a d h" and "ip4_input_netif (netifs s) inp (hdr_dest d) = Some nif"
    and "ip4_input e s (Some a) inp = bnd (ip4_input_proto e (globals_of nif d)
        ((with_heap s h)\<lparr>l_ip := ip_data_of nif inp P d\<rparr>) (Some a) P (of_nat (hlen_of d)) RAW_INPUT_NONE (d ! 9) inp)
        (\<lambda>s. Inr (ERR_OK, clear_ip s))"
proof -
  obtain h' us where st: "cut_to (lheap s) a [] (kept_len d) h' us"
    "ip4_input e s (Some a) inp = (if hdr_bad d (unat (p_len (pb h' a))) then ip4_drop (with_heap s h') (Some a)
     else ip4_input_checked e (with_heap s h') (Some a) (of_nat (hlen_of d)) (take 20 d) inp)"
    by (rule ip4_input_starts [OF assms(1-3)])
  have us: "us = []" using st(1) by (simp add: cut_to_def)
  have g: "\<not> ip4_reject (netifs s) inp (unat (p_len (pb (lheap s) a))) d" "IPH_OFFSET d AND lwip_htons 0x3fff = 0" "raw_pcbs (l_raw s) = []"
    using assms(4) by (simp_all add: ip4_good_def)
  then obtain nif where nif: "ip4_input_netif (netifs s) inp (hdr_dest d) = Some nif" by (auto simp: ip4_reject_def)
  have v: "drop_bit 4 (d ! 0) = 4" "20 \<le> hlen_of d" "hlen_of d \<le> total_len d" "total_len d \<le> length d"
    using g(1) by (auto simp: ip4_reject_def hdr_bad_def)
  have p': "packet h' a []" "chain_data h' [a] = take (total_len d) d" using st(1) us v(1) assms(3) by (simp_all add: cut_to_def kept_len_def)
  obtain b' where b': "pbufs h' a = Some b'" "unat (p_len b') = total_len d"
    by (rule packetE [OF p'(1)]) (use p'(2) v(4) in simp)
  have ok: "\<not> hdr_bad d (unat (p_len (pb h' a)))" using g(1) v b' by (auto simp: ip4_reject_def hdr_bad_def)
  let ?s = "(with_heap s h')\<lparr>l_ip := (l_ip s)\<lparr>d_iphdr_dest := v4_addr (hdr_dest d), d_iphdr_src := v4_addr (hdr_src d)\<rparr>\<rparr>"
  have eq: "ip4_input e s (Some a) inp = ip4_input_upper e ?s (Some a) (of_nat (hlen_of d)) nif inp"
    using st(2) ok g v nif by (simp add: ip4_input_checked_def Let_def ip4_reject_def hdr_src_def hdr_dest_def IPH_OFFSET_def)
  let ?h = "h'\<lparr>pbufs := (pbufs h')(a \<mapsto> remove_hdr (hlen_of d) b')\<rparr>"
  have h': "net h' = net (lheap s)" "nextid h' = nextid (lheap s)" "oom h' = oom (lheap s)" "mem h' = mem (lheap s)"
    "p_payload b' = p_payload (pb (lheap s) a)" "p_type_internal b' = p_type_internal (pb (lheap s) a)"
    "\<And>q. q \<noteq> a \<Longrightarrow> pbufs h' q = pbufs (lheap s) q"
    using st(1) us b'(1) by (auto simp: cut_to_def)
  obtain b where b: "pbufs (lheap s) a = Some b" by (rule packetE [OF assms(1)])
  have "take 20 (take (total_len d) d) = take 20 d" using v by (simp add: min_absorb1)
  then have run: "ip4_input e s (Some a) inp = bnd (ip4_input_proto e (globals_of nif d)
        ((with_heap s ?h)\<lparr>l_ip := ip_data_of nif inp (p_payload b) d\<rparr>) (Some a) (p_payload b) (of_nat (hlen_of d)) RAW_INPUT_NONE (d ! 9) inp)
        (\<lambda>s. Inr (ERR_OK, clear_ip s))"
    using ip4_input_upper_eq [of ?s a "[]" b' d "l_ip s" ?h e nif inp] p' b' v g(3) h'(5) b eq by (simp add: with_heap_def del: chain_data_Cons)
  note rm = packet_remove_hdr [OF p'(1) b'(1) _ refl, of "hlen_of d"]
  have rd: "mem_read ?h (p_payload b) 0 (hlen_of d) = Inr (take (hlen_of d) d)"
    using packet_read [OF p'(1) b'(1), of 0 "hlen_of d"] p'(2) b' v h'(5) b by (simp add: min_absorb1 del: chain_data_Cons)
  have "stripped (lheap s) a d ?h" using rm p'(2) b' v h' b rd by (auto simp: stripped_def remove_hdr_def simp del: chain_data_Cons)
  then show thesis by (rule that) (use nif run assms(5) b in simp_all)
qed

end
