(* ===== verification/Outcome_Rules.thy ===== *)
theory Outcome_Rules
  imports Lwip_Prelude
begin

text \<open>
  Rules for sequences of operations that may fail: what holds of the result if there is one.
\<close>

text \<open>\<open>post m Q\<close>: if \<open>m\<close> returns, the result satisfies \<open>Q\<close>. The equations compute weakest preconditions.\<close>

definition post :: "'a outcome \<Rightarrow> ('a \<Rightarrow> bool) \<Rightarrow> bool" where
  "post m Q \<longleftrightarrow> (\<forall>x. m = Inr x \<longrightarrow> Q x)"

lemma post_simps [simp]:
  "post (Inr x) Q = Q x" "post (Inl f) Q" "post (bnd m k) Q = post m (\<lambda>x. post (k x) Q)"
  "post (lwip_assert b n) Q = (b \<longrightarrow> post n Q)" "post m (\<lambda>x. True)"
  by (auto simp: post_def bnd_eq_Inr_iff lwip_assert_def)

lemma post_split [simp]:
  "post (if b then m else n) Q = ((b \<longrightarrow> post m Q) \<and> (\<not> b \<longrightarrow> post n Q))"
  "post (case v of None \<Rightarrow> m | Some y \<Rightarrow> g y) Q = ((v = None \<longrightarrow> post m Q) \<and> (\<forall>y. v = Some y \<longrightarrow> post (g y) Q))"
  "post (case xs of [] \<Rightarrow> m | y # ys \<Rightarrow> f y ys) Q = ((xs = [] \<longrightarrow> post m Q) \<and> (\<forall>y ys. xs = y # ys \<longrightarrow> post (f y ys) Q))"
  "post (case p of (u, w) \<Rightarrow> k u w) Q = (\<forall>u w. p = (u, w) \<longrightarrow> post (k u w) Q)"
  by (auto split: option.split list.split prod.split)

lemma post_any: "(\<And>x. Q x) \<Longrightarrow> post m Q"
  by (simp add: post_def)

lemma post_mono: "post m P \<Longrightarrow> (\<And>x. P x \<Longrightarrow> Q x) \<Longrightarrow> post m Q"
  by (simp add: post_def)

lemma post_bnd: "post m P \<Longrightarrow> (\<And>x. P x \<Longrightarrow> post (f x) Q) \<Longrightarrow> post (bnd m f) Q"
  by (simp add: post_mono)

lemma postD: "post m Q \<Longrightarrow> m = Inr x \<Longrightarrow> Q x"
  by (simp add: post_def)

text \<open>The rules a proof tries, after those of the operations called: the last one forgets the result.\<close>

lemmas post_rules = conjI impI allI post_any

end
