(* ===== verification/Tcp_Frames.thy ===== *)
theory Tcp_Frames
  imports Tcp_In Outcome_Rules
begin

text \<open>
  What the functions on one pcb leave alone. Sending and retransmitting touch neither the state of a connection nor its
  identity nor the receive side; receiving moves the receive window.
\<close>

section \<open>Sending\<close>

text \<open>The fields that sending does not change.\<close>

definition core :: "tcp_pcb \<Rightarrow> _" where
  "core c = (t_state c, (t_remote_ip c, t_local_port c, t_remote_port c, t_netif_idx c, t_so_options c, t_prio c, listener c),
     (rcv_nxt c, rcv_wnd c, rcv_ann_wnd c, ooseq c, refused_data c), mss c, tmr c,
     (t_callback_arg c, t_recv c, t_sent c, t_errf c, t_connected c, t_poll c))"

definition sends :: "tcp_pcb \<Rightarrow> tcp_pcb \<Rightarrow> bool" where
  "sends c c' \<longleftrightarrow> core c' = core c \<and> (persist_backoff c' \<le> 1 \<or> persist_backoff c' = persist_backoff c)"

lemma sends_refl [simp]: "sends c c"
  by (simp add: sends_def)

lemma sends_trans [trans]: "sends a b \<Longrightarrow> sends b c \<Longrightarrow> sends a c"
  by (auto simp: sends_def)

lemma core_upd [simp]:
  "core (c\<lparr>t_flags := x1\<rparr>) = core c" "core (c\<lparr>t_local_ip := x2\<rparr>) = core c" "core (c\<lparr>rtime := x3\<rparr>) = core c"
  "core (c\<lparr>rttest := x4\<rparr>) = core c" "core (c\<lparr>rtseq := x5\<rparr>) = core c" "core (c\<lparr>rto := x6\<rparr>) = core c"
  "core (c\<lparr>nrtx := x7\<rparr>) = core c" "core (c\<lparr>dupacks := x7\<rparr>) = core c" "core (c\<lparr>cwnd := x8\<rparr>) = core c"
  "core (c\<lparr>ssthresh := x8\<rparr>) = core c" "core (c\<lparr>rto_end := x9\<rparr>) = core c" "core (c\<lparr>snd_nxt := x9\<rparr>) = core c"
  "core (c\<lparr>snd_lbb := x9\<rparr>) = core c" "core (c\<lparr>snd_buf := x8\<rparr>) = core c" "core (c\<lparr>snd_queuelen := x8\<rparr>) = core c"
  "core (c\<lparr>unsent_oversize := x8\<rparr>) = core c" "core (c\<lparr>bytes_acked := x8\<rparr>) = core c" "core (c\<lparr>unsent := x10\<rparr>) = core c"
  "core (c\<lparr>unacked := x10\<rparr>) = core c" "core (c\<lparr>persist_cnt := x7\<rparr>) = core c" "core (c\<lparr>persist_backoff := x7\<rparr>) = core c"
  "core (c\<lparr>persist_probe := x7\<rparr>) = core c" "core (c\<lparr>keep_cnt_sent := x7\<rparr>) = core c" "core (c\<lparr>rcv_ann_right_edge := x9\<rparr>) = core c"
  "core (c\<lparr>polltmr := x7\<rparr>) = core c" "core (c\<lparr>last_timer := x7\<rparr>) = core c" "core (c\<lparr>snd_wnd := x8\<rparr>) = core c"
  "core (c\<lparr>snd_wnd_max := x8\<rparr>) = core c" "core (c\<lparr>snd_wl1 := x9\<rparr>) = core c" "core (c\<lparr>snd_wl2 := x9\<rparr>) = core c"
  "core (c\<lparr>sa := x3\<rparr>) = core c" "core (c\<lparr>sv := x3\<rparr>) = core c" "core (c\<lparr>lastack := x9\<rparr>) = core c"
  by (simp_all add: core_def)

lemma core_flags [simp]: "core (tcp_set_flags c f) = core c" "core (tcp_clear_flags c f) = core c" "core (tcp_ack_now c) = core c" "core (tcp_ack c) = core c"
  by (simp_all add: tcp_set_flags_def tcp_clear_flags_def tcp_ack_now_def tcp_ack_def)

lemma backoff_flags [simp]:
  "persist_backoff (tcp_set_flags c f) = persist_backoff c" "persist_backoff (tcp_clear_flags c f) = persist_backoff c"
  "persist_backoff (tcp_ack_now c) = persist_backoff c" "persist_backoff (tcp_ack c) = persist_backoff c"
  by (simp_all add: tcp_set_flags_def tcp_clear_flags_def tcp_ack_now_def tcp_ack_def)

lemma core_eqD:
  assumes "core c' = core c"
  shows "t_state c' = t_state c" "t_remote_ip c' = t_remote_ip c" "t_local_port c' = t_local_port c" "t_remote_port c' = t_remote_port c"
    "rcv_nxt c' = rcv_nxt c" "rcv_wnd c' = rcv_wnd c" "rcv_ann_wnd c' = rcv_ann_wnd c" "ooseq c' = ooseq c" "refused_data c' = refused_data c"
    "mss c' = mss c" "tmr c' = tmr c" "listener c' = listener c" "t_errf c' = t_errf c" "t_callback_arg c' = t_callback_arg c"
  using assms by (auto simp: core_def)

lemma sendsD:
  assumes "sends c c'"
  shows "core c' = core c" "persist_backoff c \<le> 7 \<Longrightarrow> persist_backoff c' \<le> 7"
proof -
  show "core c' = core c" using assms by (simp add: sends_def)
  assume "persist_backoff c \<le> 7"
  then show "persist_backoff c' \<le> 7" using assms by (auto simp: sends_def intro: order_trans)
qed

lemma sends_step: "sends a b \<Longrightarrow> core c = core b \<Longrightarrow> persist_backoff c \<le> 1 \<or> persist_backoff c = persist_backoff b \<Longrightarrow> sends a c"
  by (auto simp: sends_def)

lemma tcp_write_checks_sends: "post (tcp_write_checks c len) (\<lambda>(err, c'). sends c c')"
  by (simp add: tcp_write_checks_def sends_def)

lemma tcp_enqueue_flags_sends: "post (tcp_enqueue_flags h c f) (\<lambda>(err, c', h'). sends c c')"
  by (simp add: tcp_enqueue_flags_def Let_def) ((rule post_rules | clarsimp | simp add: sends_def)+)

lemma tcp_send_fin_sends: "post (tcp_send_fin h c) (\<lambda>(err, c', h'). sends c c')"
  by (simp add: tcp_send_fin_def) ((rule tcp_enqueue_flags_sends post_rules | clarsimp | simp add: sends_def)+)

lemma tcp_output_alloc_header_sends: "post (tcp_output_alloc_header h c ol dl sq) (\<lambda>(p, c', h'). sends c c')"
  by (simp add: tcp_output_alloc_header_def) ((rule post_rules | clarsimp | simp add: sends_def)+)

lemma tcp_send_empty_ack_sends: "post (tcp_send_empty_ack e cx h c) (\<lambda>(err, c', h'). sends c c')"
  by (simp add: tcp_send_empty_ack_def) ((rule tcp_output_alloc_header_sends [THEN post_mono] post_rules | clarsimp | simp add: sends_def)+)

lemma tcp_output_segment_sends: "post (tcp_output_segment e cx h c sg nif) (\<lambda>(err, c', h'). sends c c')"
  by (simp add: tcp_output_segment_def Let_def) ((rule post_rules | clarsimp | simp add: sends_def)+)

lemma tcp_put_unacked_sends: "post (tcp_put_unacked h c sg sq) (sends c)"
  by (simp add: tcp_put_unacked_def) ((rule post_rules | clarsimp | simp add: sends_def)+)

lemma tcp_output_loop_sends: "post (tcp_output_loop e cx nif wnd h c sgs) (\<lambda>(err, c', h'). sends c c')"
proof (induction sgs arbitrary: c h)
  case (Cons sg sgs)
  show ?case
    by (simp add: Let_def)
      ((rule tcp_output_segment_sends [THEN post_mono] tcp_put_unacked_sends [THEN post_mono] Cons.IH [THEN post_mono] post_rules
        | clarsimp | simp add: sends_def)+)
qed simp

lemma tcp_output_sends: "post (tcp_output e cx h c) (\<lambda>(err, c', h'). sends c c')"
  by (simp add: tcp_output_def tcp_output_done_def Let_def)
    ((rule tcp_send_empty_ack_sends [THEN post_mono] tcp_output_loop_sends [THEN post_mono] post_rules | clarsimp | simp add: sends_def)+)

lemma tcp_rexmit_rto_prepare_sends: "post (tcp_rexmit_rto_prepare h c) (\<lambda>(err, c'). sends c c')"
  by (simp add: tcp_rexmit_rto_prepare_def Let_def) ((rule post_rules | clarsimp | simp add: sends_def)+)

lemma tcp_rexmit_rto_commit_sends: "post (tcp_rexmit_rto_commit e cx h c) (\<lambda>(c', h'). sends c c')"
  by (simp add: tcp_rexmit_rto_commit_def) ((rule tcp_output_sends [THEN post_mono] post_rules | clarsimp | simp add: sends_def)+)

lemma tcp_rexmit_rto_sends: "post (tcp_rexmit_rto e cx h c) (\<lambda>(c', h'). sends c c')"
  by (simp add: tcp_rexmit_rto_def)
    ((rule tcp_rexmit_rto_prepare_sends [THEN post_mono] tcp_rexmit_rto_commit_sends [THEN post_mono] post_rules | clarsimp | simp add: sends_def)+)

lemma tcp_rexmit_sends: "post (tcp_rexmit h c) (\<lambda>(err, c'). sends c c')"
  by (simp add: tcp_rexmit_def Let_def) ((rule post_rules | clarsimp | simp add: sends_def)+)

lemma tcp_rexmit_fast_sends: "post (tcp_rexmit_fast h c) (sends c)"
  by (simp add: tcp_rexmit_fast_def Let_def) ((rule tcp_rexmit_sends [THEN post_mono] post_rules | clarsimp | simp add: sends_def)+)

section \<open>Acknowledgements\<close>

text \<open>What the input functions leave alone of the variables of the module.\<close>

definition in_core :: "tcp_in \<Rightarrow> _" where
  "in_core t = (i_tcphdr t, ackno t, i_flags t)"

lemma in_core_upd [simp]:
  "in_core (t\<lparr>recv_acked := x1\<rparr>) = in_core t" "in_core (t\<lparr>seqno := x2\<rparr>) = in_core t" "in_core (t\<lparr>inseg := x3\<rparr>) = in_core t"
  "in_core (t\<lparr>tcplen := x4\<rparr>) = in_core t" "in_core (t\<lparr>recv_data := x5\<rparr>) = in_core t" "in_core (t\<lparr>recv_flags := x6\<rparr>) = in_core t"
  by (simp_all add: in_core_def)

lemma in_core_eqD: "in_core t' = in_core t \<Longrightarrow> i_tcphdr t' = i_tcphdr t \<and> ackno t' = ackno t \<and> i_flags t' = i_flags t"
  by (simp add: in_core_def)

definition acks :: "tcp_in \<times> tcp_pcb \<Rightarrow> tcp_in \<times> tcp_pcb \<Rightarrow> bool" where
  "acks = (\<lambda>(t, c) (t', c'). sends c c' \<and> in_core t' = in_core t \<and> recv_flags t' = recv_flags t \<and> seqno t' = seqno t)"

lemma acks_self [simp]: "acks (t, c) (t, c') = sends c c'"
  by (simp add: acks_def)

lemma tcp_free_acked_acks: "post (tcp_free_acked_segments h t c sgs other) (\<lambda>(us, t', c', h'). acks (t, c) (t', c'))"
proof (induction sgs arbitrary: h t c)
  case (Cons sg sgs)
  show ?case
    by (simp add: Let_def) ((rule Cons.IH [THEN post_mono] post_rules | clarsimp | simp add: acks_def sends_def)+)
qed simp

lemma tcp_rto_done_sends: "post (tcp_rto_done h c) (sends c)"
  by (simp add: tcp_rto_done_def) ((rule post_rules | clarsimp | simp add: sends_def)+)

lemma tcp_grow_cwnd_core [simp]: "core (tcp_grow_cwnd a c) = core c" "persist_backoff (tcp_grow_cwnd a c) = persist_backoff c"
  by (simp_all add: tcp_grow_cwnd_def Let_def)

lemma wnd_update_core [simp]: "core (wnd_update t w c) = core c" "persist_backoff (wnd_update t w c) = persist_backoff c"
  by (simp_all add: wnd_update_def)

lemma tcp_rtt_update_core [simp]: "core (tcp_rtt_update n t c) = core c" "persist_backoff (tcp_rtt_update n t c) = persist_backoff c"
  by (simp_all add: tcp_rtt_update_def Let_def)

lemma tcp_new_ack_acks: "post (tcp_new_ack h t c) (\<lambda>(t', c', h'). acks (t, c) (t', c'))"
  by (simp add: tcp_new_ack_def Let_def)
    ((rule tcp_free_acked_acks [THEN post_mono] tcp_rto_done_sends [THEN post_mono] post_rules | clarsimp | simp add: acks_def sends_def)+)

lemma tcp_dupack_sends: "post (tcp_dupack h t r c) (sends c)"
  by (simp add: tcp_dupack_def Let_def) ((rule tcp_rexmit_fast_sends [THEN post_mono] post_rules | clarsimp | simp add: sends_def)+)

lemma tcp_receive_ack_acks: "post (tcp_receive_ack e cx h t c) (\<lambda>(t', c', h'). acks (t, c) (t', c'))"
  by (simp add: tcp_receive_ack_def Let_def)
    ((rule tcp_new_ack_acks [THEN post_mono] tcp_dupack_sends [THEN post_mono] tcp_send_empty_ack_sends [THEN post_mono] post_rules
      | clarsimp | simp add: acks_def sends_def)+)

section \<open>Data\<close>

text \<open>
  Received data move the left edge of the window to the right and leave the right edge where it is; a FIN among them may close
  an established connection.
\<close>

definition conn :: "tcp_pcb \<Rightarrow> _" where
  "conn c = ((t_remote_ip c, t_local_port c, t_remote_port c, t_netif_idx c, t_so_options c, t_prio c, listener c), refused_data c, mss c, tmr c,
     (t_callback_arg c, t_recv c, t_sent c, t_errf c, t_connected c, t_poll c))"

definition right_edge :: "tcp_pcb \<Rightarrow> u32_t" where
  "right_edge c = rcv_nxt c + ucast (rcv_wnd c)"

definition fin_seen :: "tcp_in \<Rightarrow> bool" where
  "fin_seen t \<longleftrightarrow> recv_flags t AND TF_GOT_FIN \<noteq> 0"

definition receives :: "tcp_in \<times> tcp_pcb \<Rightarrow> tcp_in \<times> tcp_pcb \<Rightarrow> bool" where
  "receives = (\<lambda>(t, c) (t', c').
     conn c' = conn c \<and> (persist_backoff c' \<le> 1 \<or> persist_backoff c' = persist_backoff c)
   \<and> right_edge c' = right_edge c \<and> rcv_wnd c' \<le> rcv_wnd c
   \<and> (t_state c' = t_state c \<or> t_state c = ESTABLISHED \<and> t_state c' = CLOSE_WAIT \<and> fin_seen t')
   \<and> in_core t' = in_core t \<and> (recv_flags t' = recv_flags t \<or> recv_flags t' = recv_flags t OR TF_GOT_FIN))"

lemma core_conn: "core c' = core c \<Longrightarrow> conn c' = conn c"
  by (simp add: core_def conn_def)

lemma sends_receives: "sends c c' \<Longrightarrow> in_core t' = in_core t \<Longrightarrow> recv_flags t' = recv_flags t \<Longrightarrow> receives (t, c) (t', c')"
  using core_eqD [of c' c] core_conn [of c' c] by (auto simp: receives_def sends_def right_edge_def)

lemma or_fin [simp]: "(x OR TF_GOT_FIN) AND TF_GOT_FIN = TF_GOT_FIN"
  by (simp add: bit_simps bit_eq_iff)

lemma fin_seen_mono: "recv_flags t' = recv_flags t \<or> recv_flags t' = recv_flags t OR TF_GOT_FIN \<Longrightarrow> fin_seen t \<Longrightarrow> fin_seen t'"
  by (auto simp: fin_seen_def)

lemma receives_refl [simp]: "receives x x"
  by (cases x) (simp add: sends_receives)

lemma receives_trans [trans]:
  assumes "receives x y" and "receives y z"
  shows "receives x z"
proof -
  obtain t c t1 c1 t2 c2 where e: "x = (t, c)" "y = (t1, c1)" "z = (t2, c2)" by (meson surj_pair)
  have "recv_flags t2 = recv_flags t \<or> recv_flags t2 = recv_flags t OR TF_GOT_FIN"
    using assms by (auto simp: receives_def e)
  moreover have "fin_seen t1 \<Longrightarrow> fin_seen t2"
    using assms(2) fin_seen_mono [of t2 t1] by (auto simp: receives_def e)
  ultimately show ?thesis using assms by (auto simp: receives_def e)
qed

lemma window_split:
  fixes w :: u16_t and n :: u32_t
  assumes "n \<le> ucast w"
  shows "n + ucast (w - ucast n) = ucast w" and "w - ucast n \<le> w"
proof -
  have n: "unat n \<le> unat w" using assms by (simp add: word_le_nat_alt)
  have w: "unat w < 65536" by (rule unat_lt_16)
  have u: "unat (ucast n :: u16_t) = unat n" using n w by (simp add: word_nat del: unat_lt_16)
  have le: "(ucast n :: u16_t) \<le> w" using n u by (simp add: word_le_nat_alt)
  have d: "unat (w - ucast n) = unat w - unat n" using unat_sub_word [OF le] u by simp
  then show "w - ucast n \<le> w" by (simp add: word_le_nat_alt)
  show "n + ucast (w - ucast n) = ucast w"
    by (rule word_unat_eq_iff [THEN iffD2]) (use n w d in \<open>simp add: unat_word_ariths del: unat_lt_16\<close>)
qed

lemma tcp_update_rcv_ann_wnd_only: "post (tcp_update_rcv_ann_wnd c) (\<lambda>(n, c'). \<exists>w. c' = c\<lparr>rcv_ann_wnd := w\<rparr>)"
  by (auto simp: tcp_update_rcv_ann_wnd_def Let_def)

lemma receives_ooseq [simp]: "receives (t, c) (t', c'\<lparr>ooseq := q\<rparr>) = receives (t, c) (t', c')"
  by (simp add: receives_def conn_def right_edge_def)

lemmas receives_step = receives_def conn_def right_edge_def fin_seen_def window_split add.assoc

lemma oos_deliver_receives: "post (oos_deliver h t c sgs) (\<lambda>(t', c', h'). receives (t, c) (t', c'))"
proof (induction sgs arbitrary: h t c)
  case Nil
  show ?case by simp
next
  case (Cons cseg sgs)
  show ?case
    by (simp add: Let_def)
      ((rule tcp_update_rcv_ann_wnd_only [THEN post_mono] Cons.IH [THEN post_mono] post_rules | clarsimp
        | (erule receives_trans [rotated], simp add: receives_step))+)
qed

text \<open>The functions that cut the segment to what is new and fits change the segment at hand only.\<close>

definition cuts :: "tcp_in \<Rightarrow> tcp_in \<Rightarrow> bool" where
  "cuts t t' \<longleftrightarrow> in_core t' = in_core t \<and> recv_flags t' = recv_flags t \<and> seqno t' = seqno t \<and> recv_data t' = recv_data t"

lemma tcp_cut_inseg_cuts: "post (tcp_cut_inseg h t n r) (\<lambda>(t', h'). cuts t t')"
  by (simp add: tcp_cut_inseg_def Let_def) ((rule post_rules | clarsimp simp: cuts_def)+)

lemma tcp_trim_wnd_cuts: "post (tcp_trim_wnd h t c) (\<lambda>(t', h'). cuts t t')"
  by (simp add: tcp_trim_wnd_def Let_def)
    ((rule tcp_cut_inseg_cuts [THEN post_mono] post_rules | clarsimp | simp add: cuts_def)+)

lemma oos_drop_covered_cuts: "post (oos_drop_covered h t sgs) (\<lambda>(q, t', h'). cuts t t')"
proof (induction sgs arbitrary: h t)
  case (Cons x xs)
  show ?case by (simp add: Let_def) ((rule Cons.IH [THEN post_mono] post_rules | clarsimp | simp add: cuts_def)+)
qed (simp add: cuts_def)

lemma tcp_trim_ooseq_cuts: "post (tcp_trim_ooseq h t c) (\<lambda>(t', c', h'). cuts t t' \<and> c'\<lparr>ooseq := []\<rparr> = c\<lparr>ooseq := []\<rparr>)"
  by (simp add: tcp_trim_ooseq_def Let_def)
    ((rule oos_drop_covered_cuts [THEN post_mono] tcp_cut_inseg_cuts [THEN post_mono] post_rules | clarsimp | simp add: cuts_def)+)

lemma ooseq_only:
  assumes "c'\<lparr>ooseq := []\<rparr> = c\<lparr>ooseq := []\<rparr>"
  shows "conn c' = conn c" "rcv_nxt c' = rcv_nxt c" "rcv_wnd c' = rcv_wnd c" "t_state c' = t_state c" "persist_backoff c' = persist_backoff c"
proof -
  have f: "conn (x\<lparr>ooseq := []\<rparr>) = conn x" "rcv_nxt (x\<lparr>ooseq := []\<rparr>) = rcv_nxt x" "rcv_wnd (x\<lparr>ooseq := []\<rparr>) = rcv_wnd x"
    "t_state (x\<lparr>ooseq := []\<rparr>) = t_state x" "persist_backoff (x\<lparr>ooseq := []\<rparr>) = persist_backoff x" for x
    by (simp_all add: conn_def)
  show "conn c' = conn c" using f(1) [of c] f(1) [of c'] assms by simp
  show "rcv_nxt c' = rcv_nxt c" using f(2) [of c] f(2) [of c'] assms by simp
  show "rcv_wnd c' = rcv_wnd c" using f(3) [of c] f(3) [of c'] assms by simp
  show "t_state c' = t_state c" using f(4) [of c] f(4) [of c'] assms by simp
  show "persist_backoff c' = persist_backoff c" using f(5) [of c] f(5) [of c'] assms by simp
qed

lemma receives_in_order:
  assumes "cuts t0 t" and "c\<lparr>ooseq := []\<rparr> = c0\<lparr>ooseq := []\<rparr>" and "rcv_nxt c0 = seqno t0" and "n \<le> rcv_wnd c"
    and "in_core t' = in_core t" and "recv_flags t' = recv_flags t \<or> recv_flags t' = recv_flags t OR TF_GOT_FIN"
  shows "receives (t0, c0) (t', c\<lparr>rcv_nxt := seqno t + ucast n, rcv_wnd := rcv_wnd c - n, rcv_ann_wnd := w\<rparr>)"
proof -
  have n: "ucast n \<le> (ucast (rcv_wnd c) :: u32_t)" using assms(4) by (simp add: word_le_nat_alt)
  have "ucast (ucast n :: u32_t) = n" by (simp add: word_unat_eq_iff word_nat)
  then show ?thesis using assms ooseq_only [OF assms(2)] window_split [OF n]
    by (auto simp: receives_def conn_def right_edge_def cuts_def add.assoc)
qed

lemma cuts_trans: "cuts a b \<Longrightarrow> cuts b c \<Longrightarrow> cuts a c"
  by (simp add: cuts_def)

lemma conn_flags [simp]: "conn (c\<lparr>t_flags := f\<rparr>) = conn c" "right_edge (c\<lparr>t_flags := f\<rparr>) = right_edge c"
  by (simp_all add: conn_def right_edge_def)

lemma receives_flags [simp]:
  "receives x (t', c'\<lparr>t_flags := f\<rparr>) = receives x (t', c')" "receives x (t', tcp_ack c') = receives x (t', c')"
  "receives x (t', tcp_ack_now c') = receives x (t', c')"
proof -
  show *: "receives x (t', c'\<lparr>t_flags := f\<rparr>) = receives x (t', c')" for f c' by (cases x) (simp add: receives_def)
  show "receives x (t', tcp_ack c') = receives x (t', c')" "receives x (t', tcp_ack_now c') = receives x (t', c')"
    by (simp_all add: tcp_ack_def tcp_ack_now_def tcp_set_flags_def tcp_clear_flags_def *)
qed

lemma tcp_receive_in_order_receives:
  assumes "rcv_nxt c = seqno t"
  shows "post (tcp_receive_in_order h t c) (\<lambda>(t', c', h'). receives (t, c) (t', c'))"
  by (simp add: tcp_receive_in_order_def Let_def)
    ((rule tcp_trim_wnd_cuts [THEN post_mono] tcp_trim_ooseq_cuts [THEN post_mono] tcp_update_rcv_ann_wnd_only [THEN post_mono]
     oos_deliver_receives [THEN post_mono] post_rules | clarsimp
     | (erule receives_trans [rotated], rule receives_in_order, erule (1) cuts_trans, assumption, rule assms, assumption, simp, simp))+)

lemma receives_sends: "receives x (t, c) \<Longrightarrow> sends c c' \<Longrightarrow> receives x (t, c')"
  by (erule receives_trans) (simp add: sends_receives)

lemma tcp_trim_front_receives: "post (tcp_trim_front h t c) (\<lambda>(t', c', h'). receives (t, c) (t', c'))"
  by (simp add: tcp_trim_front_def Let_def sends_receives sends_def post_any)

lemma oos_append_cuts: "post (oos_append h t c x xq) (\<lambda>(q, t', h'). cuts t t')"
  by (simp add: oos_append_def Let_def) ((rule post_rules | clarsimp | simp add: cuts_def)+)

lemma oos_insert_loop_cuts: "post (oos_insert_loop h t c pre sgs) (\<lambda>(q, t', h'). cuts t t')"
proof (induction sgs arbitrary: pre)
  case (Cons x xs)
  show ?case by (simp add: Let_def) ((rule oos_append_cuts [THEN post_mono] Cons.IH post_rules | clarsimp | simp add: cuts_def)+)
qed (simp add: cuts_def)

lemma tcp_receive_ooseq_receives: "post (tcp_receive_ooseq h t c) (\<lambda>(t', c', h'). receives (t, c) (t', c'))"
  by (simp add: tcp_receive_ooseq_def)
    ((rule oos_insert_loop_cuts [THEN post_mono] post_rules | clarsimp | simp add: cuts_def sends_receives)+)

lemma tcp_receive_data_receives: "post (tcp_receive_data e cx h t c) (\<lambda>(t', c', h'). receives (t, c) (t', c'))"
  by (simp add: tcp_receive_data_def Let_def)
    ((rule tcp_trim_front_receives [THEN post_mono] tcp_receive_in_order_receives [THEN post_mono] tcp_receive_ooseq_receives [THEN post_mono]
      tcp_send_empty_ack_sends [THEN post_mono] post_rules | clarsimp
      | erule (1) receives_trans | (rule receives_sends [rotated], assumption, erule (1) receives_trans) | erule (1) receives_sends)+)

lemma tcp_receive_receives: "post (tcp_receive e cx h t c) (\<lambda>(t', c', h'). receives (t, c) (t', c'))"
  by (simp add: tcp_receive_def)
    ((rule tcp_receive_ack_acks [THEN post_mono] tcp_receive_data_receives [THEN post_mono] post_rules | clarsimp
      | (erule receives_trans [rotated], simp add: acks_def sends_receives))+)

end
