(* ===== verification/Tcp_Rules.thy ===== *)
theory Tcp_Rules
  imports Tcp_Frames
begin

text \<open>
  What single operations of TCP promise: the search for a port, the parser of options, the announced window, the receive window and
  the end of \<^verbatim>\<open>TIME-WAIT\<close>.
\<close>

section \<open>Ports\<close>

text \<open>
  C39: A local port for a connection comes from the range 0xc000 to 0xfffe, is not the port of a pcb in any list, and the
  search fails only if every port of the range is in use.
\<close>

theorem tcp_new_port_free:
  assumes "in_range 0x3fff (tcp_port s)"
  shows "\<exists>port x. tcp_new_port s = (port, s\<lparr>tcp_port := x\<rparr>) \<and> in_range 0x3fff x
    \<and> (if \<forall>q. in_range 0x3fff q \<longrightarrow> tcp_port_used s q then port = 0 else port = x \<and> \<not> tcp_port_used s port)"
  using tcp_ports.search [OF assms] by (simp add: tcp_new_port_def)

text \<open>
  C40: \<^verbatim>\<open>tcp_init\<close> can leave 0xffff, which is outside this range: the next search then returns 0, no port, although none is in use.
\<close>

theorem tcp_new_port_after_init:
  assumes "r AND 0x3fff = 0x3fff" and "tcp_pcb_lists s = [[], [], [], []]"
  shows "tcp_port (tcp_init (Some r) s) = 0xffff \<and> fst (tcp_new_port (tcp_init (Some r) s)) = 0"
proof -
  have "tcp_port (tcp_init (Some r) s) = 0xffff" by (simp add: tcp_init_def assms(1))
  then show ?thesis using assms(2)
    by (simp add: tcp_new_port_def tcp_new_port_loop.simps tcp_next_port_def Let_def tcp_port_used_def tcp_init_def)
qed

section \<open>Options\<close>

definition clamp_mss :: "u16_t \<Rightarrow> u16_t" where
  "clamp_mss v = (if v > TCP_MSS \<or> v = 0 then TCP_MSS else v)"

text \<open>The MSS that a list of option bytes announces, \<open>m\<close> if it announces none. A malformed option ends the list.\<close>

fun options_mss :: "u8_t list \<Rightarrow> u16_t \<Rightarrow> u16_t" where
  "options_mss [] m = m"
| "options_mss (k # bs) m =
     (if k = 0 then m else if k = 1 then options_mss bs m
      else case bs of [] \<Rightarrow> m
      | len # ds \<Rightarrow>
          if k = 2 then
            if len = 4 \<and> 2 \<le> length ds then
              options_mss (drop 2 ds) (clamp_mss (push_bit 8 (ucast (ds ! 0)) OR ucast (ds ! 1)))
            else m
          else if len < 2 then m else options_mss (drop (unat len - 2) ds) m)"

text \<open>The bytes the parser can read: the options \<open>bs\<close> and one byte \<open>z\<close> behind them.\<close>

definition optbytes :: "heap \<Rightarrow> tcp_in \<Rightarrow> u8_t list \<Rightarrow> u8_t \<Rightarrow> bool" where
  "optbytes h t bs z \<longleftrightarrow> length bs = unat (tcphdr_optlen t) \<and> length bs \<le> 40
     \<and> (\<forall>k\<le>length bs. tcp_get_next_optbyte h t (of_nat k) = Inr ((bs @ [z]) ! k))"

lemma parseopt_past:
  assumes "optbytes h t bs z" and "length bs \<le> j" and "j < 65536"
  shows "parseopt_loop n h t (of_nat j) m = Inr m"
proof -
  have "\<not> of_nat j < tcphdr_optlen t" using assms by (simp add: optbytes_def word_less_nat_alt unat_of_nat)
  then show ?thesis by (cases n) auto
qed

lemma optbyte_at:
  assumes "optbytes h t bs z" and "k \<le> length bs"
  shows "tcp_get_next_optbyte h t (of_nat k) = Inr ((bs @ [z]) ! k)"
  using assms by (simp add: optbytes_def)

lemma parseopt_loop_list:
  assumes ob: "optbytes h t bs z" and "j < 400" and "length bs \<le> j + n"
  shows "parseopt_loop n h t (of_nat j) m = Inr (options_mss (drop j bs) m)"
  using assms(2,3)
proof (induction n arbitrary: j m)
  case 0
  then show ?case using parseopt_past [OF ob, of j 0 m] by simp
next
  case (Suc n)
  show ?case
  proof (cases "j < length bs")
    case False
    then show ?thesis using parseopt_past [OF ob, of j "Suc n" m] Suc.prems by simp
  next
    case j: True
    have lt: "of_nat j < tcphdr_optlen t" using j ob by (simp add: optbytes_def word_less_nat_alt unat_of_nat)
    have le: "length bs \<le> 40" "unat (tcphdr_optlen t) = length bs" using ob by (simp_all add: optbytes_def)
    obtain k where k: "bs ! j = k" by simp
    have b0: "tcp_get_next_optbyte h t (of_nat j) = Inr k" using optbyte_at [OF ob, of j] j k by (simp add: nth_append)
    have b1: "tcp_get_next_optbyte h t (of_nat j + 1) = Inr ((bs @ [z]) ! Suc j)" using optbyte_at [OF ob, of "Suc j"] j by (simp add: add.commute)
    have d: "drop j bs = k # drop (Suc j) bs" using Cons_nth_drop_Suc [OF j] k by simp
    have unat_j: "unat (of_nat j :: u16_t) = j" using j le by (simp add: unat_of_nat)
    have one: "parseopt_loop n h t (of_nat j + 1) m = Inr (options_mss (drop (Suc j) bs) m)"
      using Suc.IH [of "Suc j" m] Suc.prems j le by (simp add: add.commute)
    have skip: "parseopt_loop n h t (of_nat j + 2 + ucast (len - 2)) m = Inr (options_mss (drop (unat len - 2) (drop (j + 2) bs)) m)"
      if "\<not> len < 2" for len :: u8_t
    proof -
      have u: "unat (len - 2) = unat len - 2" "2 \<le> unat len" using that by (simp_all add: unat_sub_word word_le_nat_alt not_less)
      then have e: "unat len = unat (len - 2) + 2" by simp
      have w: "of_nat j + 2 + ucast (len - 2) = (of_nat j + ucast len :: u16_t)"
        using arg_cong [OF e, of "of_nat :: nat \<Rightarrow> u16_t"] by (simp add: add.commute)
      have dd: "drop (unat len - 2) (drop (j + 2) bs) = drop (j + unat len) bs" using u(2) by (auto intro: arg_cong [where f = "\<lambda>k. drop k bs"])
      show ?thesis using Suc.IH [of "j + unat len" m] Suc.prems j le u(2) unat_lt_8 [of len] unfolding w dd by (simp del: unat_lt_8)
    qed
    show ?thesis
    proof (cases "drop (Suc j) bs")
      case Nil
      then have l: "length bs = Suc j" using j by simp
      show ?thesis using one skip by (simp add: lt b0 b1 d unat_j le Nil l)
    next
      case (Cons len ds)
      have sj: "Suc j < length bs" using Cons by (metis drop_all linorder_not_less list.distinct(1))
      then have len: "(bs @ [z]) ! Suc j = len" and ds: "drop (j + 2) bs = ds"
        using Cons_nth_drop_Suc [OF sj] Cons by (simp_all add: nth_append)
      have dl: "length bs = j + 2 + length ds" using arg_cong [OF ds, of length] sj by simp
      consider "k = 0 \<or> k = 1" | (mss) "k = 2" "len = 4" "2 \<le> length ds" | (bad) "k = 2" "\<not> (len = 4 \<and> 2 \<le> length ds)"
        | (other) "k \<noteq> 0" "k \<noteq> 1" "k \<noteq> 2" by blast
      then show ?thesis
      proof cases
        case mss
        have "tcp_get_next_optbyte h t (of_nat j + 2) = Inr (ds ! 0)" "tcp_get_next_optbyte h t (of_nat j + 3) = Inr (ds ! 1)"
          using optbyte_at [OF ob, of "j + 2"] optbyte_at [OF ob, of "j + 3"] mss(3) dl nth_drop [of "j + 2" bs 0] nth_drop [of "j + 2" bs 1]
          unfolding ds by (auto simp: nth_append add.commute numeral_3_eq_3)
        moreover have "drop (j + 4) bs = drop 2 ds" unfolding ds [symmetric] by (simp add: numeral_eq_Suc)
        then have "parseopt_loop n h t (of_nat j + 4) v = Inr (options_mss (drop 2 ds) v)" for v
          using Suc.IH [of "j + 4" v] Suc.prems dl le by (simp add: add.commute)
        ultimately show ?thesis using mss dl by (simp add: lt b0 b1 d unat_j le Cons len Let_def clamp_mss_def del: options_mss.simps(1))
      qed (use one skip [of len, unfolded ds] dl in \<open>auto simp: lt b0 b1 d unat_j le Cons len ds simp del: drop_drop\<close>)
    qed
  qed
qed

definition mss_valid :: "u16_t \<Rightarrow> bool" where
  "mss_valid m \<longleftrightarrow> 1 \<le> m \<and> m \<le> TCP_MSS"

lemma clamped_valid: "mss_valid (clamp_mss v)"
proof -
  have "1 \<le> v" if "v \<noteq> 0" using that by (simp add: word_le_nat_alt Suc_le_eq unat_gt_0)
  then show ?thesis by (auto simp: mss_valid_def clamp_mss_def not_less)
qed

lemma options_mss_valid: "options_mss bs m = m \<or> mss_valid (options_mss bs m)"
proof (induction "length bs" arbitrary: bs m rule: less_induct)
  case less
  show ?case
  proof (cases bs)
    case (Cons k ds)
    then have one: "options_mss ds m = m \<or> mss_valid (options_mss ds m)" using less by simp
    show ?thesis
    proof (cases ds)
      case (Cons len vs)
      have rest: "options_mss (drop j vs) v = v \<or> mss_valid (options_mss (drop j vs) v)" for j v
        using less [of "drop j vs"] \<open>bs = k # ds\<close> Cons by simp
      have "mss_valid (options_mss (drop 2 vs) (clamp_mss w))" for w
        using rest [of 2 "clamp_mss w"] clamped_valid [of w] by (elim disjE) simp_all
      moreover have "options_mss bs m = (if k = 0 then m else if k = 1 then options_mss ds m
          else if k = 2 then if len = 4 \<and> 2 \<le> length vs then options_mss (drop 2 vs) (clamp_mss (push_bit 8 (ucast (vs ! 0)) OR ucast (vs ! 1))) else m
          else if len < 2 then m else options_mss (drop (unat len - 2) vs) m)"
        by (simp add: \<open>bs = k # ds\<close> Cons)
      ultimately show ?thesis using one rest by (simp del: options_mss.simps)
    qed (use Cons in simp)
  qed simp
qed

text \<open>
  C15: The parser of TCP options reads the options as a list and one byte behind them, which has no influence. It always returns, and the
  MSS it leaves is the old one or between 1 and 1460.
\<close>

theorem tcp_parseopt_correct:
  assumes "optbytes h t bs z"
  shows "tcp_parseopt h t c = Inr (c\<lparr>mss := options_mss bs (mss c)\<rparr>)
    \<and> (options_mss bs (mss c) = mss c \<or> mss_valid (options_mss bs (mss c)))"
proof (cases "tcphdr_optlen t = 0")
  case True
  then have "bs = []" using assms by (simp add: optbytes_def)
  then show ?thesis using True by (simp add: tcp_parseopt_def)
next
  case False
  have "parseopt_loop (unat (tcphdr_optlen t)) h t 0 (mss c) = Inr (options_mss bs (mss c))"
    using parseopt_loop_list [OF assms, of 0 "unat (tcphdr_optlen t)" "mss c"] assms by (simp add: optbytes_def)
  then show ?thesis using False options_mss_valid by (simp add: tcp_parseopt_def)
qed

section \<open>The announced window\<close>

text \<open>Differences of sequence numbers are small integers.\<close>

lemma sint_of_int: "- (2 ^ 31) \<le> z \<Longrightarrow> z < 2 ^ 31 \<Longrightarrow> sint (word_of_int z :: u32_t) = z"
  by (simp add: sint_sbintrunc' signed_take_bit_int_eq_self)

text \<open>
  C38: The announced window. Let the right edge announced last be \<open>k\<close> bytes beyond the next byte expected, at most 65535 in either
  direction. If the receive window reaches beyond that edge by at least half of the maximal window or the maximal segment size,
  \<^verbatim>\<open>tcp_update_rcv_ann_wnd\<close> announces the whole receive window and returns the gain; otherwise it returns 0 and leaves the edge where it
  is, or announces 0 if the peer has sent beyond the edge. So an announced edge is never taken back, and the assertion holds.
\<close>

theorem tcp_update_rcv_ann_wnd_correct:
  assumes "rcv_ann_right_edge c = rcv_nxt c + word_of_int k" and "\<bar>k\<bar> \<le> 65535"
  shows "\<exists>n c'. tcp_update_rcv_ann_wnd c = Inr (n, c') \<and> c' = c\<lparr>rcv_ann_wnd := rcv_ann_wnd c'\<rparr> \<and> k \<le> uint (rcv_ann_wnd c')
    \<and> (if uint (rcv_wnd c) - k \<ge> min 0x4000 (uint (mss c)) then uint n = uint (rcv_wnd c) - k \<and> rcv_ann_wnd c' = rcv_wnd c
       else n = 0 \<and> uint (rcv_ann_wnd c') = max 0 k)"
proof -
  define w where "w = uint (rcv_wnd c)"
  define m where "m = min 0x4000 (uint (mss c))"
  have w: "ucast (rcv_wnd c) = (word_of_int w :: u32_t)" "0 \<le> w" "w \<le> 65535" using uint_bounded [of "rcv_wnd c"] by (simp_all add: w_def)
  have m: "ucast (min 0x4000 (mss c)) = (word_of_int m :: u32_t)" "0 \<le> m" "m \<le> 0x4000" by (simp_all add: m_def min_def word_le_def)
  have s: "sint (word_of_int w - word_of_int k :: u32_t) = w - k" "sint (word_of_int w - (word_of_int k + word_of_int m) :: u32_t) = w - k - m"
    "sint (- word_of_int k :: u32_t) = - k"
    using w(2,3) m(2,3) assms(2) sint_of_int [of "w - k"] sint_of_int [of "w - k - m"] sint_of_int [of "- k"] by (simp_all add: algebra_simps)
  have cmp: "TCP_SEQ_GEQ (rcv_nxt c + word_of_int w) (rcv_nxt c + word_of_int k + word_of_int m) \<longleftrightarrow> m \<le> w - k"
    "TCP_SEQ_GT (rcv_nxt c) (rcv_nxt c + word_of_int k) \<longleftrightarrow> k < 0"
    using s by (simp_all add: TCP_SEQ_GEQ_def TCP_SEQ_GT_def add.assoc)
  have k: "(word_of_int k :: u32_t) \<le> 0xffff" "uint (ucast (word_of_int k :: u32_t) :: u16_t) = k" if "0 \<le> k"
    using that assms(2) by (simp_all add: word_le_def uint_word_of_int unsigned_ucast_eq unsigned_take_bit_eq take_bit_int_eq_self)
  have n: "uint (word_of_int w - word_of_int k :: u32_t) = w - k" if "m \<le> w - k"
    using that w(3) m(2) assms(2) by (simp add: uint_word_of_int flip: of_int_diff)
  have "tcp_update_rcv_ann_wnd c = (if m \<le> w - k then Inr (word_of_int w - word_of_int k, c\<lparr>rcv_ann_wnd := rcv_wnd c\<rparr>)
      else if k < 0 then Inr (0, c\<lparr>rcv_ann_wnd := 0\<rparr>) else Inr (0, c\<lparr>rcv_ann_wnd := ucast (word_of_int k :: u32_t)\<rparr>))"
    using k(1) by (simp add: tcp_update_rcv_ann_wnd_def Let_def assms(1) w(1) m(1) cmp)
  moreover have "m \<le> w - k \<Longrightarrow> k \<le> w" using m(2) by simp
  ultimately show ?thesis using n k(2) unfolding w_def [symmetric] m_def [symmetric] by (auto simp: w_def)
qed

section \<open>The end of TIME-WAIT\<close>

definition tw_ok :: "tcp_globals \<Rightarrow> bool" where
  "tw_ok s \<longleftrightarrow> distinct (tcp_tw_pcbs s) \<and> list_all (\<lambda>i. case tcp_at s i of None \<Rightarrow> False | Some c \<Rightarrow> t_state c = TIME_WAIT) (tcp_tw_pcbs s)"

definition tw_age :: "tcp_globals \<Rightarrow> nat \<Rightarrow> nat" where
  "tw_age s i = unat (tcp_ticks s - tmr (the (tcp_at s i)))"

definition tw_expire :: "nat list \<Rightarrow> tcp_globals \<Rightarrow> tcp_globals" where
  "tw_expire is s = s\<lparr>tcp_tw_pcbs := filter (\<lambda>i. i \<in> set is \<longrightarrow> tw_age s i \<le> 240) (tcp_tw_pcbs s),
     tcp_at := (\<lambda>i. if i \<in> set is \<and> tw_age s i > 240 then None else tcp_at s i)\<rparr>"

lemma tcp_slowtmr_tw_expire:
  assumes "list_all (\<lambda>i. case tcp_at s i of None \<Rightarrow> False | Some c \<Rightarrow> t_state c = TIME_WAIT) is" and "distinct is" and "distinct (tcp_tw_pcbs s)"
  shows "tcp_slowtmr_tw s is = Inr (tw_expire is s)"
  using assms
proof (induction "is" arbitrary: s)
  case (Cons i "is")
  obtain c where c: "tcp_at s i = Some c" "t_state c = TIME_WAIT" using Cons.prems(1) by (auto split: option.splits)
  have old: "tcp_ticks s - tmr c > TCP_MSL_TICKS \<longleftrightarrow> tw_age s i > 240" by (simp add: tw_age_def c word_less_nat_alt)
  show ?case
  proof (cases "tw_age s i > 240")
    case False
    then have "tw_expire is s = tw_expire (i # is) s"
      by (auto simp: tw_expire_def fun_eq_iff intro!: tcp_globals.equality filter_cong)
    then show ?thesis using Cons False by (simp add: get_tcp_def c old)
  next
    case True
    let ?s = "s\<lparr>tcp_tw_pcbs := remove1 i (tcp_tw_pcbs s), tcp_at := (tcp_at s)(i := None)\<rparr>"
    have "tcp_slowtmr_tw s (i # is) = tcp_slowtmr_tw ?s is"
      using True c by (simp add: get_tcp_def old on_pcb_def tcp_pcb_purge_def set_tcp_def tcp_free_def TCP_RMV_def)
    also have "\<dots> = Inr (tw_expire is ?s)"
      using Cons.prems by (intro Cons.IH) (auto simp: list_all_iff)
    also have "tw_expire is ?s = tw_expire (i # is) s"
      using True Cons.prems by (auto simp: tw_expire_def tw_age_def fun_eq_iff distinct_remove1_removeAll removeAll_filter_not_eq
        intro!: tcp_globals.equality filter_cong)
    finally show ?thesis .
  qed
qed (simp add: tw_expire_def)

text \<open>The slow timer as it runs every 500 ms; \<open>k\<close> times.\<close>

fun slow_ticks :: "nat \<Rightarrow> nat \<Rightarrow> tcp_env \<Rightarrow> tcp_globals \<Rightarrow> tcp_globals outcome" where
  "slow_ticks 0 n e s = Inr s"
| "slow_ticks (Suc k) n e s = bnd (tcp_slowtmr n e s) (slow_ticks k n e)"

lemma slow_tick_idle:
  assumes "tcp_active_pcbs s = []" and "tw_ok s" and "list_all (\<lambda>i. tw_age s i \<le> 240) (tcp_tw_pcbs s)" and "n > 0"
  shows "\<exists>s'. tcp_slowtmr n e s = Inr s' \<and> tcp_active_pcbs s' = [] \<and> tw_ok s'
    \<and> tcp_tw_pcbs s' = filter (\<lambda>i. tw_age s i + 1 \<le> 240) (tcp_tw_pcbs s)
    \<and> (\<forall>i. tcp_at s' i = (if i \<in> set (tcp_tw_pcbs s) \<and> tw_age s i + 1 > 240 then None else tcp_at s i))
    \<and> (\<forall>i\<in>set (tcp_tw_pcbs s'). tw_age s' i = tw_age s i + 1)"
proof -
  let ?s = "s\<lparr>tcp_ticks := tcp_ticks s + 1, tcp_timer_ctr := tcp_timer_ctr s + 1\<rparr>"
  have age: "tw_age ?s i = tw_age s i + 1" if "i \<in> set (tcp_tw_pcbs s)" for i
  proof -
    have "tw_age s i \<le> 240" using assms(3) that by (simp add: list_all_iff)
    then show ?thesis using unat_Suc_word [of "tcp_ticks s - tmr (the (tcp_at s i))" "0xffffffff"]
      by (simp add: tw_age_def diff_add_eq word_less_nat_alt)
  qed
  have "tcp_slowtmr_tw ?s (tcp_tw_pcbs s) = Inr (tw_expire (tcp_tw_pcbs s) ?s)"
    using assms(2) by (intro tcp_slowtmr_tw_expire) (simp_all add: tw_ok_def)
  then have "tcp_slowtmr n e s = Inr (tw_expire (tcp_tw_pcbs s) ?s)"
    using assms(1,4) by (cases n) (simp_all add: tcp_slowtmr_def Let_def)
  moreover have tw: "tcp_tw_pcbs (tw_expire (tcp_tw_pcbs s) ?s) = filter (\<lambda>i. tw_age s i + 1 \<le> 240) (tcp_tw_pcbs s)"
    by (auto simp: tw_expire_def age intro!: filter_cong)
  moreover have at: "tcp_at (tw_expire (tcp_tw_pcbs s) ?s) i = (if i \<in> set (tcp_tw_pcbs s) \<and> tw_age s i + 1 > 240 then None else tcp_at s i)" for i
    by (auto simp: tw_expire_def age)
  moreover have "tw_ok (tw_expire (tcp_tw_pcbs s) ?s)"
    using assms(2) by (auto simp: tw_ok_def tw at list_all_iff split: option.splits)
  moreover have "tw_age (tw_expire (tcp_tw_pcbs s) ?s) i = tw_age s i + 1" if "i \<in> set (tcp_tw_pcbs (tw_expire (tcp_tw_pcbs s) ?s))" for i
    using that age [of i] by (simp add: tw at tw_age_def) (simp add: tw_expire_def)
  moreover have "tcp_active_pcbs (tw_expire (tcp_tw_pcbs s) ?s) = []" using assms(1) by (simp add: tw_expire_def)
  ultimately show ?thesis by blast
qed

text \<open>
  C16: \<^verbatim>\<open>TIME-WAIT\<close> ends: with no active connection, after \<open>k\<close> runs of the slow timer exactly the pcbs that have waited for more than 240
  half seconds, two segment lifetimes, are unlinked and freed.
\<close>

theorem tcp_time_wait_ends:
  assumes "tcp_active_pcbs s = []" and "tw_ok s" and "list_all (\<lambda>i. tw_age s i \<le> 240) (tcp_tw_pcbs s)" and "n > 0"
  shows "\<exists>s'. slow_ticks k n e s = Inr s' \<and> tcp_tw_pcbs s' = filter (\<lambda>i. tw_age s i + k \<le> 240) (tcp_tw_pcbs s)
    \<and> (\<forall>i. tcp_at s' i = (if i \<in> set (tcp_tw_pcbs s) \<and> tw_age s i + k > 240 then None else tcp_at s i))"
  using assms
proof (induction k arbitrary: s)
  case 0
  then have "filter (\<lambda>i. tw_age s i \<le> 240) (tcp_tw_pcbs s) = tcp_tw_pcbs s" by (simp add: list_all_iff filter_id_conv)
  then show ?case using 0 by (auto simp: list_all_iff)
next
  case (Suc k)
  obtain s1 where s1: "tcp_slowtmr n e s = Inr s1" "tcp_active_pcbs s1 = []" "tw_ok s1"
    "tcp_tw_pcbs s1 = filter (\<lambda>i. tw_age s i + 1 \<le> 240) (tcp_tw_pcbs s)"
    "\<And>i. tcp_at s1 i = (if i \<in> set (tcp_tw_pcbs s) \<and> tw_age s i + 1 > 240 then None else tcp_at s i)"
    "\<And>i. i \<in> set (tcp_tw_pcbs s1) \<Longrightarrow> tw_age s1 i = tw_age s i + 1"
    using slow_tick_idle [OF Suc.prems, of e] by blast
  obtain s' where s': "slow_ticks k n e s1 = Inr s'" "tcp_tw_pcbs s' = filter (\<lambda>i. tw_age s1 i + k \<le> 240) (tcp_tw_pcbs s1)"
    "\<And>i. tcp_at s' i = (if i \<in> set (tcp_tw_pcbs s1) \<and> tw_age s1 i + k > 240 then None else tcp_at s1 i)"
    using Suc.IH [OF s1(2,3) _ Suc.prems(4)] s1(4,6) by (auto simp: list_all_iff)
  have "tcp_tw_pcbs s' = filter (\<lambda>i. tw_age s i + Suc k \<le> 240) (tcp_tw_pcbs s)"
    unfolding s'(2) using s1(6) by (auto simp: s1(4) intro!: filter_cong)
  moreover have "tcp_at s' i = (if i \<in> set (tcp_tw_pcbs s) \<and> tw_age s i + Suc k > 240 then None else tcp_at s i)" for i
    unfolding s'(3) using s1(6) [of i] by (auto simp: s1(4,5))
  ultimately show ?case using s1(1) s'(1) by simp
qed

section \<open>The receive window\<close>

text \<open>
  C9: A segment moves the left edge of the receive window, never the right one: what the window loses is what \<^verbatim>\<open>rcv_nxt\<close> gains. Its
  processing changes neither end point of the connection, and the state only to \<^verbatim>\<open>CLOSE-WAIT\<close>, on a FIN.
\<close>

theorem tcp_receive_window:
  assumes "tcp_receive e cx h t c = Inr (t', c', h')"
  shows "rcv_nxt c' + ucast (rcv_wnd c') = rcv_nxt c + ucast (rcv_wnd c) \<and> rcv_wnd c' \<le> rcv_wnd c
    \<and> (t_remote_ip c', t_local_port c', t_remote_port c') = (t_remote_ip c, t_local_port c, t_remote_port c)
    \<and> (t_state c' = t_state c \<or> t_state c = ESTABLISHED \<and> t_state c' = CLOSE_WAIT \<and> recv_flags t' AND TF_GOT_FIN \<noteq> 0)"
  using postD [OF tcp_receive_receives assms] by (simp add: receives_def right_edge_def conn_def fin_seen_def)

section \<open>Witnesses\<close>

text \<open>A segment with an MSS option and three bytes, and the connection it belongs to. The application refuses nothing.\<close>

definition sample_seg_heap :: heap where
  "sample_seg_heap = sample\<lparr>
     pbufs := (\<lambda>_. None)(0 \<mapsto> sample_pbuf None 0 24 3 3),
     mem := (\<lambda>_. None)(0 \<mapsto> [0x50, 0, 0, 0xc0, 100, 0, 0, 0, 51, 0, 0, 0, 0x60, 0x18, 0, 0x10, 0, 0, 0, 0, 2, 4, 5, 0xb4, 7, 8, 9])\<rparr>"

definition sample_tcp_in :: tcp_in where
  "sample_tcp_in = \<lparr>inseg = \<lparr>seg_p = Some 0, seg_len = 3, oversize_left = 0, seg_chksum = 0, chksum_swapped = False, seg_flags = 0, tcphdr = Some (0, 0)\<rparr>,
     i_tcphdr = Some (0, 0), tcphdr_optlen = 4, tcphdr_opt1len = 4, tcphdr_opt2 = None, seqno = 100, ackno = 51, recv_acked = 0, tcplen = 3,
     i_flags = 0x18, recv_flags = 0, recv_data = None\<rparr>"

definition sample_tcp_timers :: "unit timers" where
  "sample_tcp_timers = \<lparr>next_timeout = [], current_timeout_due_time = 0, tcpip_tcp_timer_active = False, rest = (), clock = (\<lambda>_. 0), ticks = 0,
     memp_fails = (\<lambda>_. False), allocs = 0\<rparr>"

definition sample_tcp_start :: tcp_globals where
  "sample_tcp_start = \<lparr>theap = sample_seg_heap, t_netifs = [sample_out_netif], t_timers = sample_tcp_timers, tcp_at = (\<lambda>_. None), lpcb_at = (\<lambda>_. None),
     tcp_listen_pcbs = [], tcp_bound_pcbs = [], tcp_active_pcbs = [], tcp_tw_pcbs = [], next_tcp = 0, tcp_oom = (\<lambda>_. False), tcp_port = 0xc000,
     tcp_ticks = 1000, tcp_timer = 0, tcp_timer_ctr = 0, tcp_active_pcbs_changed = False, tcp_iss = 6510, tcp_input_pcb = None, t_in = sample_tcp_in\<rparr>"

definition sample_tcp_pcb :: tcp_pcb where
  "sample_tcp_pcb = (new_pcb sample_tcp_start 64)\<lparr>t_local_port := 0xc000, t_remote_port := 80, t_state := ESTABLISHED, rcv_nxt := 100,
     rcv_ann_right_edge := 100 + 0x8000, snd_nxt := 51, lastack := 51, snd_lbb := 51, snd_wl1 := 99, snd_wl2 := 51, snd_wnd := 4096, snd_wnd_max := 4096\<rparr>"

definition sample_tcp_env :: tcp_env where
  "sample_tcp_env = \<lparr>t_odd = (\<lambda>_. False), t_route6 = (\<lambda>_ _. None), t_local_ip6 = (\<lambda>_ _. None), t_output6 = (\<lambda>h p s d a b c n. Inr (ERR_OK, h)),
     t_mtu6 = (\<lambda>_ _. 1500), app_accept = (\<lambda>_ _ _ _ s. Inr (ERR_OK, s)), app_recv = (\<lambda>_ _ _ _ _ s. Inr (ERR_OK, s)),
     app_sent = (\<lambda>_ _ _ _ s. Inr (ERR_OK, s)), app_connected = (\<lambda>_ _ _ _ s. Inr (ERR_OK, s)), app_poll = (\<lambda>_ _ _ s. Inr (ERR_OK, s)),
     app_err = (\<lambda>_ _ _ s. Inr s)\<rparr>"

lemma sample_receive:
  "bnd (tcp_receive sample_tcp_env \<lparr>cx_netifs = [], cx_ticks = 0, cx_input = True\<rparr> sample_seg_heap sample_tcp_in sample_tcp_pcb)
     (\<lambda>(t, c, h). Inr (rcv_nxt c, rcv_wnd c, recv_data t)) = Inr (103, 0x7ffd, Some 0)"
  by code_simp

theorem tcp_receive_window_witness:
  "\<exists>t' c' h'. tcp_receive sample_tcp_env \<lparr>cx_netifs = [], cx_ticks = 0, cx_input = True\<rparr> sample_seg_heap sample_tcp_in sample_tcp_pcb = Inr (t', c', h')
     \<and> rcv_nxt c' = 103 \<and> recv_data t' = Some 0 \<and> rcv_nxt c' + ucast (rcv_wnd c') = 100 + 0x8000"
proof -
  obtain t' c' h' where r: "tcp_receive sample_tcp_env \<lparr>cx_netifs = [], cx_ticks = 0, cx_input = True\<rparr> sample_seg_heap sample_tcp_in sample_tcp_pcb
      = Inr (t', c', h')" "rcv_nxt c' = 103" "recv_data t' = Some 0"
    using sample_receive by (auto simp: bnd_eq_Inr_iff)
  moreover have "rcv_nxt sample_tcp_pcb = 100" "rcv_wnd sample_tcp_pcb = 0x8000" by (simp_all add: sample_tcp_pcb_def new_pcb_def)
  ultimately show ?thesis using tcp_receive_window [OF r(1)] by simp
qed

theorem tcp_new_port_free_witness:
  "\<exists>port x. tcp_new_port sample_tcp_start = (port, sample_tcp_start\<lparr>tcp_port := x\<rparr>) \<and> in_range 0x3fff port \<and> \<not> tcp_port_used sample_tcp_start port"
proof -
  have "in_range 0x3fff (tcp_port sample_tcp_start)" "\<not> tcp_port_used sample_tcp_start q" "in_range 0x3fff 0xc000" for q
    by (simp_all add: sample_tcp_start_def in_range_def tcp_port_used_def tcp_pcb_lists_def)
  then show ?thesis using tcp_new_port_free [of sample_tcp_start] by metis
qed

theorem tcp_new_port_after_init_witness:
  "fst (tcp_new_port (tcp_init (Some 0x7fff) sample_tcp_start)) = 0"
  using tcp_new_port_after_init [of "0x7fff" sample_tcp_start] by (simp add: sample_tcp_start_def tcp_pcb_lists_def)

lemma sample_optbytes:
  "map (\<lambda>k. tcp_get_next_optbyte sample_seg_heap sample_tcp_in (of_nat k)) [0..<5] = map Inr [2, 4, 5, 0xb4, 7]"
  by code_simp

lemma sample_options: "optbytes sample_seg_heap sample_tcp_in [2, 4, 5, 0xb4] 7"
proof -
  have "tcp_get_next_optbyte sample_seg_heap sample_tcp_in (of_nat k) = Inr (([2, 4, 5, 0xb4] @ [7]) ! k)" if "k \<le> 4" for k
    using arg_cong [OF sample_optbytes, of "\<lambda>xs. xs ! k"] that nth_map [of k "[2, 4, 5, 0xb4, 7]" Inr] by (simp del: upt_Suc upt.simps upt_rec_numeral)
  then show ?thesis by (simp add: optbytes_def sample_tcp_in_def)
qed

theorem tcp_parseopt_correct_witness:
  "tcp_parseopt sample_seg_heap sample_tcp_in sample_tcp_pcb = Inr (sample_tcp_pcb\<lparr>mss := 1460\<rparr>)"
proof -
  have "options_mss [2, 4, 5, 0xb4] m = 1460" for m by (simp add: clamp_mss_def)
  then show ?thesis using tcp_parseopt_correct [OF sample_options, of sample_tcp_pcb] by simp
qed

theorem tcp_update_rcv_ann_wnd_correct_witness:
  "(\<exists>n c'. tcp_update_rcv_ann_wnd (sample_tcp_pcb\<lparr>rcv_wnd := 0x7ff0\<rparr>) = Inr (n, c') \<and> n = 0 \<and> uint (rcv_ann_wnd c') = 0x8000)
   \<and> (\<exists>n c'. tcp_update_rcv_ann_wnd (sample_tcp_pcb\<lparr>rcv_wnd := 0xf000\<rparr>) = Inr (n, c') \<and> uint n = 0x7000 \<and> rcv_ann_wnd c' = 0xf000)"
proof -
  have f: "rcv_ann_right_edge sample_tcp_pcb = rcv_nxt sample_tcp_pcb + 0x8000" "uint (mss sample_tcp_pcb) = 536" by code_simp+
  show ?thesis
    using tcp_update_rcv_ann_wnd_correct [of "sample_tcp_pcb\<lparr>rcv_wnd := 0x7ff0\<rparr>" "0x8000"]
      tcp_update_rcv_ann_wnd_correct [of "sample_tcp_pcb\<lparr>rcv_wnd := 0xf000\<rparr>" "0x8000"] by (auto simp: f)
qed

theorem tcp_time_wait_ends_witness:
  "\<exists>s'. slow_ticks 240 1 sample_tcp_env (sample_tcp_start\<lparr>tcp_at := (\<lambda>_. None)(3 \<mapsto> sample_tcp_pcb\<lparr>t_state := TIME_WAIT, tmr := 990\<rparr>,
      4 \<mapsto> sample_tcp_pcb\<lparr>t_state := TIME_WAIT, tmr := 1000\<rparr>), tcp_tw_pcbs := [4, 3]\<rparr>) = Inr s' \<and> tcp_tw_pcbs s' = [4] \<and> tcp_at s' 3 = None"
  using tcp_time_wait_ends [of "sample_tcp_start\<lparr>tcp_at := (\<lambda>_. None)(3 \<mapsto> sample_tcp_pcb\<lparr>t_state := TIME_WAIT, tmr := 990\<rparr>,
      4 \<mapsto> sample_tcp_pcb\<lparr>t_state := TIME_WAIT, tmr := 1000\<rparr>), tcp_tw_pcbs := [4, 3]\<rparr>" 1 240 sample_tcp_env]
  by (auto simp: sample_tcp_start_def tw_ok_def tw_age_def)

end
