(* ===== verification/Ip4_Receive.thy ===== *)
theory Ip4_Receive
  imports Ip4_In Tcp_Rules
begin

text \<open>
  From the bytes the application writes to what comes out of the stack: the packets that \<^verbatim>\<open>input\<close> makes of the bytes, echo
  requests, UDP datagrams, and packets of a protocol the stack does not have.
\<close>

section \<open>The packets that \<open>input\<close> makes\<close>

definition pool_heap :: "heap \<Rightarrow> bytes \<Rightarrow> heap" where
  "pool_heap h pkt = (with_pbuf h 1514 (pool_pbuf (nextid h) 0 (of_nat (length pkt)) (of_nat (length pkt))))
     \<lparr>mem := (mem h)(nextid h \<mapsto> pkt @ drop (length pkt) (map (junk h) [0..<1514]))\<rparr>"

lemma input_pbuf_pool:
  assumes "heap_ok h" and "\<not> oom h (nextid h)" and "nextProto \<noteq> 17" and "0 < length pkt" and "length pkt \<le> 1514"
  shows "input_pbuf h ipv nextProto pkt = Inr (Some (nextid h), pool_heap h pkt)"
proof -
  let ?len = "of_nat (length pkt) :: u16_t" and ?a = "nextid h"
  let ?h1 = "with_pbuf h 1514 (pool_pbuf ?a 0 ?len ?len)"
  have u: "unat ?len = length pkt" using assms(5) by (simp add: unat_of_nat_16)
  have m: "min ?len 1514 = ?len" using u assms(5) by (simp add: min_def word_le_nat_alt)
  have "pbuf_alloc h PBUF_RAW ?len PBUF_POOL = Inr (Some ?a, ?h1)"
    using pool_step [of h 0 None "[]" None "unat ?len" ?len] assms(1,2) m by (simp add: pbuf_alloc_def link_last_def)
  moreover have "pbuf_take ?h1 (Some ?a) (Some pkt) ?len = Inr (ERR_OK, pool_heap h pkt)"
  proof -
    have "?len \<noteq> 0" using u assms(4) by (metis unat_0 less_irrefl)
    moreover have "mem_write ?h1 (Some (?a, 0)) 0 pkt = Inr (pool_heap h pkt)"
      using assms(4,5) by (simp add: mem_write_def patch_def pool_heap_def)
    ultimately show ?thesis using u assms(4) by (simp add: pbuf_take_def fuel_def pool_pbuf_def)
  qed
  ultimately show ?thesis using assms(3) by (simp add: input_pbuf_def)
qed

lemma pool_heap_packet:
  assumes "heap_ok h" and "0 < length pkt" and "length pkt \<le> 1514" and "a = nextid h"
  shows "packet (pool_heap h pkt) a []" and "chain_data (pool_heap h pkt) [a] = pkt"
    and "pbufs (pool_heap h pkt) a = Some (pool_pbuf a 0 (of_nat (length pkt)) (of_nat (length pkt)))"
    and "net (pool_heap h pkt) = net h" and "oom (pool_heap h pkt) = oom h" and "nextid (pool_heap h pkt) = Suc a"
    and "q \<noteq> a \<Longrightarrow> pbufs (pool_heap h pkt) q = pbufs h q" and "q \<noteq> a \<Longrightarrow> mem (pool_heap h pkt) q = mem h q"
proof -
  let ?h = "pool_heap h pkt" and ?len = "of_nat (length pkt) :: u16_t"
  have u: "unat ?len = length pkt" "?len \<noteq> 0" using assms(2,3) by (simp_all add: unat_of_nat_16 word_unat_eq_iff)
  show pb: "pbufs ?h a = Some (pool_pbuf a 0 ?len ?len)" by (simp add: pool_heap_def assms(4))
  show "net ?h = net h" "oom ?h = oom h" "nextid ?h = Suc a" by (simp_all add: pool_heap_def assms(4) with_pbuf_def)
  show "q \<noteq> a \<Longrightarrow> pbufs ?h q = pbufs h q" "q \<noteq> a \<Longrightarrow> mem ?h q = mem h q" by (simp_all add: pool_heap_def assms(4))
  have m: "mem ?h a = Some (pkt @ drop (length pkt) (map (junk h) [0..<1514]))" by (simp add: pool_heap_def assms(4))
  show d: "chain_data ?h [a] = pkt" using pb m u by (simp add: seg_def pool_pbuf_def)
  have "heap_ok ?h" using assms(1) by (auto simp: pool_heap_def heap_ok_def less_Suc_eq)
  moreover have "chain_ok ?h (Some a) [a]" using pb m u assms(3) by (simp add: chain_ok_Cons payload_ok_def pool_pbuf_def)
  moreover have "freeable ?h a" "once ?h a" using pb m by (simp_all add: freeable_iff once_def pool_pbuf_def pbuf_get_allocsrc_def)
  ultimately show "packet ?h a []" by (simp add: packet_def independent_def)
qed

section \<open>Bytes of the header\<close>

lemma version_byte: "drop_bit 4 (x AND 0xf0) = drop_bit 4 (x :: u8_t)"
proof -
  have "drop_bit 4 (x AND NOT (mask 4)) = drop_bit 4 x" by (rule bit_word_eqI) (auto simp add: bit_simps dest: bit_imp_le_length simp del: mask_numeral mask_Suc_0)
  moreover have "NOT (mask 4) = (0xf0 :: u8_t)" by (simp add: mask_eq_exp_minus_1)
  ultimately show ?thesis by simp
qed

lemma ip_2_ip4_v4 [simp]: "ip_2_ip4 (v4_addr x) = x" by (simp add: ip_2_ip4_def v4_addr_def)

text \<open>A datagram in the bytes of a packet, perhaps with padding behind it; \<open>nif\<close> is the interface it comes in at.\<close>

definition good_pkt :: "lwip \<Rightarrow> netif \<Rightarrow> bytes \<Rightarrow> bool" where
  "good_pkt s nif pkt \<longleftrightarrow> ip4_good s nif (length pkt) pkt"

lemma good_pktD:
  assumes "good_pkt s nif pkt"
  shows "drop_bit 4 (pkt ! 0) = 4" and "20 \<le> hlen_of pkt" and "hlen_of pkt \<le> total_len pkt" and "total_len pkt \<le> length pkt" and "20 \<le> length pkt"
  using assms by (auto simp: good_pkt_def ip4_good_def ip4_reject_def hdr_bad_def)

lemma go_input_pool:
  assumes "heap_ok (lheap s)" and "\<not> oom (lheap s) (nextid (lheap s))" and "good_pkt s nif pkt" and "pkt ! 9 \<noteq> 17" and "length pkt \<le> 1514"
    and "netifs s = nif # ns"
  shows "go_input e s pkt = bnd (ip4_input e (with_heap s (pool_heap (lheap s) pkt)) (Some (nextid (lheap s))) nif) (\<lambda>(ierr, s').
     if ierr \<noteq> ERR_OK then bnd (pbuf_free (lheap s') (Some (nextid (lheap s)))) (\<lambda>(_, h). Inr (0, Some ''packet not handled'', with_heap s' h))
     else Inr (length pkt, None, s'))"
proof -
  note g = good_pktD [OF assms(3)]
  have l: "0 < length pkt" "10 \<le> length pkt" "pkt \<noteq> []" using g(5) by auto
  have ver: "peekIPVer pkt = Inr 4" using l g(1) by (simp add: peekIPVer_def version_byte Suc_le_eq)
  have nxt: "peekNextProto 4 pkt = Inr (Inr (pkt ! 9))" using l by (simp add: peekNextProto_def go_index_def)
  note pool = pool_heap_packet [OF assms(1) l(1) assms(5) refl]
  have "mem_read (pool_heap (lheap s) pkt) (p_payload (pool_pbuf (nextid (lheap s)) 0 (of_nat (length pkt)) (of_nat (length pkt)))) 0 1 = Inr (take 1 pkt)"
    using packet_read [OF pool(1,3), of 0 1] pool(2) l assms(5) by (simp add: pool_pbuf_def unat_of_nat_16)
  then have "ip_input e (with_heap s (pool_heap (lheap s) pkt)) (Some (nextid (lheap s))) nif
      = ip4_input e (with_heap s (pool_heap (lheap s) pkt)) (Some (nextid (lheap s))) nif"
    using pool(3) g(1) l by (simp add: ip_input_def)
  then show ?thesis using input_pbuf_pool [OF assms(1,2,4) l(1) assms(5), of 4] ver nxt l assms(6) by (simp add: go_input_def)
qed


lemma good_pkt_passes:
  assumes "packet (lheap s) a []" and "d = chain_data (lheap s) [a]" and "good_pkt s inp d" and "P = p_payload (pb (lheap s) a)"
  obtains h nif where "stripped (lheap s) a d h" and "ip4_input_netif (netifs s) inp (hdr_dest d) = Some nif"
    and "ip4_input e s (Some a) inp = bnd (ip4_input_proto e (globals_of nif d)
        ((with_heap s h)\<lparr>l_ip := ip_data_of nif inp P d\<rparr>) (Some a) P (of_nat (hlen_of d)) RAW_INPUT_NONE (d ! 9) inp)
        (\<lambda>s. Inr (ERR_OK, clear_ip s))"
proof -
  have lb: "unat (p_len (pb (lheap s) a)) = length d" by (rule packetE [OF assms(1)]) (use assms(2) in simp)
  have "4 \<le> unat (p_len (pb (lheap s) a))" "ip4_good s inp (unat (p_len (pb (lheap s) a))) d"
    using lb good_pktD [OF assms(3)] assms(3) by (simp_all add: good_pkt_def)
  then show thesis by (rule ip4_input_passes [OF assms(1) _ assms(2) _ assms(4), where e = e]) (rule that)
qed

section \<open>Echo\<close>

text \<open>An echo request in a good packet, for an address other than a broadcast or multicast address, from another host.\<close>

definition ping :: "netif \<Rightarrow> bytes \<Rightarrow> bytes \<Rightarrow> bool" where
  "ping nif pkt msg \<longleftrightarrow> pkt ! 9 = 1 \<and> msg = drop (hlen_of pkt) (take (total_len pkt) pkt) \<and> 8 \<le> length msg \<and> msg ! 0 = 8
     \<and> \<not> ip4_addr_ismulticast (hdr_dest pkt) \<and> \<not> ip4_addr_isbroadcast_u32 (hdr_dest pkt) nif \<and> hdr_src pkt \<noteq> n_ip_addr nif
     \<and> (n_mtu nif = 0 \<or> total_len pkt \<le> unat (n_mtu nif))"

lemma single_request:
  assumes "packet h a []" and "pbufs h a = Some b" and "p_payload b = Some (a, int n)" and "p_type_internal b = 0x82"
    and "mem_read h d 0 n = Inr hdr" and "length hdr = n" and "n = unat (IPH_HL_BYTES hdr)" and "20 \<le> n"
  shows "request h [a] d hdr"
proof -
  have "contiguous_at h a b n" using assms(2-4) by (simp add: contiguous_at_def)
  then have "pbuf_add_header h (Some a) (n + 14) = Inr (1, h)" by (simp add: pbuf_add_header_contiguous)
  then show ?thesis using assms by (auto simp: request_def packet_def solid_def)
qed

lemma ip4_input_ping:
  assumes "packet (lheap s) a []" and "pkt = chain_data (lheap s) [a]" and "pbufs (lheap s) a = Some b" and "p_payload b = Some (a, 0)"
    and "p_type_internal b = 0x82" and "good_pkt s nif pkt" and "ping nif pkt msg" and "length pkt \<le> 1514"
    and "rhdr = echo_hdr (take (hlen_of pkt) pkt) (hdr_dest pkt) (hdr_src pkt)" and "rmsg = echo_msg msg"
  shows "\<exists>s'. ip4_input e s (Some a) nif = Inr (ERR_OK, s')
    \<and> net (lheap s') = (if oom (lheap s) (nextid (lheap s)) then net (lheap s) else (net (lheap s))\<lparr>sent := sent (net (lheap s)) @ [rhdr @ rmsg]\<rparr>)
    \<and> (\<forall>q. if q = a \<or> nextid (lheap s) \<le> q then pbufs (lheap s') q = None \<and> mem (lheap s') q = None
           else pbufs (lheap s') q = pbufs (lheap s) q \<and> mem (lheap s') q = mem (lheap s) q)
    \<and> rmsg ! 0 = 0 \<and> drop 4 rmsg = drop 4 msg \<and> inet_chksum x rhdr = 0 \<and> (inet_chksum x msg = 0 \<longrightarrow> inet_chksum x rmsg = 0)"
proof -
  note g = good_pktD [OF assms(6)]
  have pg: "pkt ! 9 = 1" "msg = drop (hlen_of pkt) (take (total_len pkt) pkt)" "8 \<le> length msg" "msg ! 0 = 8" "hdr_src pkt \<noteq> n_ip_addr nif"
    "\<not> ip4_addr_ismulticast (hdr_dest pkt)" "\<not> ip4_addr_isbroadcast_u32 (hdr_dest pkt) nif" "n_mtu nif = 0 \<or> total_len pkt \<le> unat (n_mtu nif)"
    using assms(7) by (auto simp: ping_def)
  let ?P = "p_payload (pb (lheap s) a)" and ?hdr = "take (hlen_of pkt) pkt"
  obtain h n where p: "stripped (lheap s) a pkt h" "ip4_input_netif (netifs s) nif (hdr_dest pkt) = Some n"
    "ip4_input e s (Some a) nif = bnd (ip4_input_proto e (globals_of n pkt)
        ((with_heap s h)\<lparr>l_ip := ip_data_of n nif ?P pkt\<rparr>) (Some a) ?P (of_nat (hlen_of pkt)) RAW_INPUT_NONE (pkt ! 9) nif)
        (\<lambda>s. Inr (ERR_OK, clear_ip s))" by (rule good_pkt_passes [OF assms(1,2,6) refl])
  have n: "n = nif" using p(2) pg(6) by (simp add: ip4_input_netif_def ip4_input_accept_def)
  obtain b' where b': "pbufs h a = Some b'" using p(1) by (auto simp: stripped_def elim: packetE)
  have l: "length ?hdr = hlen_of pkt" "length ?hdr = unat (IPH_HL_BYTES ?hdr)" using g by (simp_all add: hlen_of_def IPH_HL_BYTES_def)
  have rq: "request h [a] ?P ?hdr"
    by (rule single_request [of h a b' "hlen_of pkt"]) (use p(1) b' assms(3-5) l g in \<open>simp_all add: stripped_def ptr_add_def\<close>)
  have d: "chain_data h [a] = msg" using p(1) pg(2) by (simp add: stripped_def)
  have lm: "length msg = total_len pkt - hlen_of pkt" "unat (p_len (pb h a)) = length msg"
  proof -
    show "length msg = total_len pkt - hlen_of pkt" using pg(2) g by simp
    show "unat (p_len (pb h a)) = length msg" using p(1) unfolding d [symmetric] stripped_def by (auto elim: packetE)
  qed
  have eq: "echo_request (globals_of n pkt) (chain_data h [a])" using pg n unfolding d by (simp add: echo_request_def globals_of_def)
  have "4 \<le> unat (p_len (pb h (hd [a])))" "ip_2_ip4 (current_iphdr_src (globals_of n pkt)) \<noteq> n_ip_addr nif" using lm pg by (simp_all add: globals_of_def)
  moreover have "14 + length ?hdr + length (chain_data h [a]) \<le> 65535" "n_mtu nif = 0 \<or> length ?hdr + length (chain_data h [a]) \<le> unat (n_mtu nif)"
    unfolding d using lm(1) l(1) g assms(8) pg(8) by auto
  ultimately obtain h' where h': "icmp_input (i_odd e) (globals_of n pkt) ?P h (Some a) nif = Inr h'"
    "net h' = (if oom h (nextid h) then net h else (net h)\<lparr>sent := sent (net h) @ [rhdr @ rmsg]\<rparr>)"
    "\<forall>q. if q \<in> set [a] \<or> nextid h \<le> q then pbufs h' q = None \<and> mem h' q = None else pbufs h' q = pbufs h q \<and> mem h' q = mem h q"
    "rmsg ! 0 = 0" "drop 4 rmsg = drop 4 (chain_data h [a])" "inet_chksum x rhdr = 0" "inet_chksum x (chain_data h [a]) = 0 \<longrightarrow> inet_chksum x rmsg = 0"
    using icmp_echo_answered [OF rq _ eq, of nif rhdr rmsg "i_odd e" x] assms(9,10) d by (auto simp: globals_of_def)
  have "ip4_input e s (Some a) nif = Inr (ERR_OK, clear_ip ((with_heap s h')\<lparr>l_ip := ip_data_of n nif ?P pkt\<rparr>))"
    using p(3) h'(1) pg(1) by (simp add: ip4_input_proto_def)
  then show ?thesis using h'(2-) p(1) d by (intro exI conjI) (auto simp: clear_ip_def stripped_def simp del: chain_data_Cons)
qed


text \<open>
  C1: The stack answers a ping. The bytes of an IPv4 packet with an echo request, with or without options and padding, are
  written to the stack: it takes all of them and hands one packet to \<^verbatim>\<open>OutputFn\<close>, from the address the request was sent to
  to its source, with an echo reply that carries the data of the request and correct checksums; no memory is left
  allocated. If there is no memory for the reply none is sent.
\<close>

theorem ping_answered:
  assumes "heap_ok (lheap s)" and "netifs s = nif # ns" and "\<not> oom (lheap s) (nextid (lheap s))"
    and "good_pkt s nif pkt" and "ping nif pkt msg" and "length pkt \<le> 1514"
    and "rhdr = echo_hdr (take (hlen_of pkt) pkt) (hdr_dest pkt) (hdr_src pkt)" and "rmsg = echo_msg msg"
  shows "\<exists>s'. go_input e s pkt = Inr (length pkt, None, s')
    \<and> sent (net (lheap s')) = (if oom (lheap s) (Suc (nextid (lheap s))) then sent (net (lheap s)) else sent (net (lheap s)) @ [rhdr @ rmsg])
    \<and> pbufs (lheap s') = pbufs (lheap s) \<and> mem (lheap s') = mem (lheap s)
    \<and> rmsg ! 0 = 0 \<and> drop 4 rmsg = drop 4 msg \<and> inet_chksum x rhdr = 0 \<and> (inet_chksum x msg = 0 \<longrightarrow> inet_chksum x rmsg = 0)"
proof -
  let ?h = "lheap s" and ?a = "nextid (lheap s)" and ?s = "with_heap s (pool_heap (lheap s) pkt)"
  have l: "0 < length pkt" using good_pktD(5) [OF assms(4)] by linarith
  note pool = pool_heap_packet [OF assms(1) l assms(6) refl]
  have g: "good_pkt ?s nif pkt" using assms(4) by (simp add: good_pkt_def ip4_good_def with_heap_def)
  obtain s' where s': "ip4_input e ?s (Some ?a) nif = Inr (ERR_OK, s')"
    "net (lheap s') = (if oom ?h (Suc ?a) then net ?h else (net ?h)\<lparr>sent := sent (net ?h) @ [rhdr @ rmsg]\<rparr>)"
    "\<forall>q. if q = ?a \<or> Suc ?a \<le> q then pbufs (lheap s') q = None \<and> mem (lheap s') q = None
         else pbufs (lheap s') q = pbufs (pool_heap ?h pkt) q \<and> mem (lheap s') q = mem (pool_heap ?h pkt) q"
    and m: "rmsg ! 0 = 0 \<and> drop 4 rmsg = drop 4 msg \<and> inet_chksum x rhdr = 0 \<and> (inet_chksum x msg = 0 \<longrightarrow> inet_chksum x rmsg = 0)"
    using ip4_input_ping [of ?s ?a pkt _ nif msg rhdr rmsg e x, OF _ _ _ _ _ g assms(5,6,7,8)] pool by (auto simp: pool_pbuf_def)
  have "pbufs (lheap s') q = pbufs ?h q \<and> mem (lheap s') q = mem ?h q" for q
  proof (cases "?a \<le> q")
    case True
    then have "pbufs ?h q = None" "mem ?h q = None" using assms(1) by (auto simp: heap_ok_def)
    then show ?thesis using s'(3) True by (metis le_neq_implies_less Suc_leI)
  next
    case False
    then show ?thesis using s'(3) pool(7,8) by simp
  qed
  moreover have "go_input e s pkt = Inr (length pkt, None, s')"
    using go_input_pool [OF assms(1,3,4) _ assms(6,2), of e] s'(1) assms(5) by (simp add: ping_def)
  ultimately show ?thesis using s'(2) m by (intro exI [of _ s']) (auto simp: fun_eq_iff)
qed

section \<open>UDP\<close>

lemma htons_and: "lwip_htons (a AND b) = lwip_htons a AND lwip_htons b"
  by (rule bit_word_eqI) (auto simp: lwip_htons_eq bit_simps dest: bit_imp_le_length)

lemma whole_datagram:
  assumes "IPH_OFFSET d AND lwip_htons 0x3fff = 0" and "8 \<le> length d"
  shows "moreFrags 4 d = Inr False" and "fragOffset 4 d = Inr 0"
proof -
  define w where "w = lwip_ntohs (le16 (d ! 6) (d ! 7))"
  have "lwip_htons (w AND 0x3fff) = 0" using assms(1) by (simp add: w_def htons_and IPH_OFFSET_def)
  then have "w AND 0x3fff = 0" using lwip_htons_htons [of "w AND 0x3fff"] by (simp add: lwip_htons_def)
  moreover have m: "(0x3fff :: u16_t) = mask 14" "(0x1fff :: u16_t) = mask 13" "(0x20 :: u8_t) = mask 6 AND 0x20"
    by (simp_all add: mask_eq_exp_minus_1)
  ultimately have t: "take_bit 14 w = 0" by (simp add: take_bit_eq_mask)
  then have u: "unat w mod 16384 = 0" using unsigned_take_bit_eq [of 14 w, where ?'a = nat] by (simp add: take_bit_eq_mod)
  have w: "unat w = 256 * unat (d ! 6) + unat (d ! 7)" by (simp add: w_def unat_htons_le16)
  have "unat w div 256 = unat (d ! 6)" using unat_lt_8 [of "d ! 7"] by (simp add: w)
  then have "unat (d ! 6) mod 64 = 0" using u mod_mult2_eq [of "unat w" 256 64] by simp
  then have "take_bit 6 (d ! 6) = 0" using unsigned_take_bit_eq [of 6 "d ! 6", where ?'a = nat] by (simp add: take_bit_eq_mod word_unat_eq_iff)
  moreover have "d ! 6 AND 0x20 = take_bit 6 (d ! 6) AND 0x20" by (simp only: take_bit_eq_mask and.assoc m(3) [symmetric])
  ultimately have "d ! 6 AND 0x20 = 0" by simp
  then show "moreFrags 4 d = Inr False" using assms(2) by (simp add: moreFrags_def go_index_def)
  have "w AND 0x1fff = take_bit 13 (take_bit 14 w)" unfolding m(2) by (simp add: take_bit_eq_mask [symmetric] min_def)
  then have "w AND 0x1fff = 0" unfolding t by simp
  then show "fragOffset 4 d = Inr 0" using assms(2) by (simp add: fragOffset_def go_index_def w_def)
qed


text \<open>The slice \<open>k\<close> and the pbuf that refers to it.\<close>

definition ref_pbuf :: "nat \<Rightarrow> u16_t \<Rightarrow> pbuf" where
  "ref_pbuf k len = \<lparr>p_next = None, p_payload = Some (k, 0), p_tot_len = len, p_len = len, p_type_internal = 0x41, p_flags = 0, p_ref = 1, p_if_idx = 0\<rparr>"

definition ref_heap :: "heap \<Rightarrow> bytes \<Rightarrow> heap" where
  "ref_heap h pkt = (let k = nextid h in h\<lparr>nextid := Suc (Suc k), mem := (mem h)(k \<mapsto> pkt, Suc k \<mapsto> []),
     pbufs := (pbufs h)(Suc k \<mapsto> ref_pbuf k (of_nat (length pkt)))\<rparr>)"

lemma input_pbuf_ref:
  assumes "\<not> oom h (Suc (nextid h))" and "IPH_OFFSET pkt AND lwip_htons 0x3fff = 0" and "8 \<le> length pkt"
  shows "input_pbuf h 4 17 pkt = Inr (Some (Suc (nextid h)), ref_heap h pkt)"
  using assms whole_datagram [OF assms(2,3)]
  by (simp add: input_pbuf_def go_slice_def pbuf_alloc_reference_def memp_malloc_def mem_malloc_eq pbuf_init_alloced_pbuf_def
      ref_heap_def ref_pbuf_def Let_def)

lemma ref_heap_packet:
  assumes "heap_ok h" and "0 < length pkt" and "length pkt \<le> 65535" and "k = nextid h" and "a = Suc k"
  shows "packet (ref_heap h pkt) a []" and "chain_data (ref_heap h pkt) [a] = pkt"
    and "pbufs (ref_heap h pkt) a = Some (ref_pbuf k (of_nat (length pkt)))"
proof -
  let ?h = "ref_heap h pkt" and ?len = "of_nat (length pkt) :: u16_t"
  have u: "unat ?len = length pkt" "?len \<noteq> 0" using assms(2,3) by (simp_all add: unat_of_nat_16 word_unat_eq_iff)
  show pb: "pbufs ?h a = Some (ref_pbuf k ?len)" by (simp add: ref_heap_def assms(4,5) Let_def)
  have m: "mem ?h k = Some pkt" "mem ?h a = Some []" by (simp_all add: ref_heap_def assms(4,5) Let_def)
  show "chain_data ?h [a] = pkt" using pb m u by (simp add: seg_def ref_pbuf_def)
  have "heap_ok ?h" using assms(1) by (auto simp: ref_heap_def heap_ok_def less_Suc_eq Let_def)
  moreover have "chain_ok ?h (Some a) [a]" using pb m u by (simp add: chain_ok_Cons payload_ok_def ref_pbuf_def)
  moreover have "freeable ?h a" "once ?h a" using pb m by (simp_all add: freeable_iff once_def ref_pbuf_def pbuf_get_allocsrc_def)
  ultimately show "packet ?h a []" by (simp add: packet_def independent_def)
qed

lemma ref_heap_simps [simp]:
  "net (ref_heap h pkt) = net h" "oom (ref_heap h pkt) = oom h" "nextid (ref_heap h pkt) = Suc (Suc (nextid h))"
  by (simp_all add: ref_heap_def Let_def)

definition no_ip :: ip_data_t where
  "no_ip = \<lparr>d_netif = None, d_input_netif = None, d_ip4_header = None, d_ip_header_tot_len = 0, d_iphdr_src = v4_addr 0, d_iphdr_dest = v4_addr 0\<rparr>"

lemma clear_ip_eq: "clear_ip s = s\<lparr>l_ip := no_ip\<rparr>"
  by (cases "l_ip s") (simp add: clear_ip_def no_ip_def)

lemma clear_ip_udp: "clear_ip (((with_heap s h)\<lparr>l_ip := x\<rparr>)\<lparr>l_udp := u\<rparr>) = s\<lparr>l_udp := u, l_ip := no_ip\<rparr>"
  by (cases s) (simp add: clear_ip_eq with_heap_def)

lemma go_input_ref:
  assumes "heap_ok (lheap s)" and "\<not> oom (lheap s) (Suc (nextid (lheap s)))" and "good_pkt s nif pkt" and "pkt ! 9 = 17" and "length pkt \<le> 65535"
    and "netifs s = nif # ns"
  shows "go_input e s pkt = bnd (ip4_input e (with_heap s (ref_heap (lheap s) pkt)) (Some (Suc (nextid (lheap s)))) nif) (\<lambda>(ierr, s').
     if ierr \<noteq> ERR_OK then bnd (pbuf_free (lheap s') (Some (Suc (nextid (lheap s))))) (\<lambda>(_, h). Inr (0, Some ''packet not handled'', with_heap s' h))
     else Inr (length pkt, None, s'))"
proof -
  note g = good_pktD [OF assms(3)]
  have off: "IPH_OFFSET pkt AND lwip_htons 0x3fff = 0" using assms(3) by (simp add: good_pkt_def ip4_good_def)
  have l: "0 < length pkt" "10 \<le> length pkt" "8 \<le> length pkt" "pkt \<noteq> []" using g(5) by auto
  have ver: "peekIPVer pkt = Inr 4" using l g(1) by (simp add: peekIPVer_def version_byte Suc_le_eq)
  have nxt: "peekNextProto 4 pkt = Inr (Inr 17)" using l assms(4) by (simp add: peekNextProto_def go_index_def)
  note ref = ref_heap_packet [OF assms(1) l(1) assms(5) refl refl]
  have "mem_read (ref_heap (lheap s) pkt) (p_payload (ref_pbuf (nextid (lheap s)) (of_nat (length pkt)))) 0 1 = Inr (take 1 pkt)"
    using packet_read [OF ref(1,3), of 0 1] ref(2) l assms(5) by (simp add: ref_pbuf_def unat_of_nat_16)
  then have "ip_input e (with_heap s (ref_heap (lheap s) pkt)) (Some (Suc (nextid (lheap s)))) nif
      = ip4_input e (with_heap s (ref_heap (lheap s) pkt)) (Some (Suc (nextid (lheap s)))) nif"
    using ref(3) g(1) l by (simp add: ip_input_def)
  then show ?thesis using input_pbuf_ref [OF assms(2) off l(3)] ver nxt l assms(6) by (simp add: go_input_def)
qed

text \<open>
  C2: A UDP datagram that the application writes to the stack as an IPv4 packet comes out at the callback of the first UDP pcb,
  whatever its destination: with the payload of the datagram, without padding, its ports and the addresses of the
  packet; and what the callback returns is the state the stack goes on with.
\<close>

theorem udp_packet_delivered:
  assumes "heap_ok (lheap s)" and "netifs s = nif # ns" and "\<not> oom (lheap s) (Suc (nextid (lheap s)))"
    and "good_pkt s nif pkt" and "pkt ! 9 = 17" and "length pkt \<le> 65535"
    and "drop (hlen_of pkt) (take (total_len pkt) pkt) = be16 sport @ be16 dport @ be16 len @ be16 chksum @ payload"
    and "udp_pcbs (l_udp s) = i # js" and "pcb_at (l_udp s) i = Some c" and "recv c = Some f"
  shows "\<exists>h a. go_input e s pkt
      = bnd (i_udp_recv e f (recv_arg c) i (Some a) (v4_addr (hdr_src pkt)) sport (v4_addr (hdr_dest pkt)) dport ((l_udp s)\<lparr>uheap := h\<rparr>))
          (\<lambda>u. Inr (length pkt, None, s\<lparr>l_udp := u, l_ip := no_ip\<rparr>))
    \<and> chain_ok h (Some a) [a] \<and> chain_data h [a] = payload"
proof -
  let ?h = "lheap s" and ?a = "Suc (nextid (lheap s))" and ?s = "with_heap s (ref_heap (lheap s) pkt)"
  have l: "0 < length pkt" using good_pktD(5) [OF assms(4)] by linarith
  note ref = ref_heap_packet [OF assms(1) l assms(6) refl refl]
  have g: "good_pkt ?s nif pkt" using assms(4) by (simp add: good_pkt_def ip4_good_def with_heap_def)
  let ?P = "p_payload (pb (lheap ?s) ?a)" and ?d = "be16 sport @ be16 dport @ be16 len @ be16 chksum @ payload"
  obtain h n where p: "stripped (lheap ?s) ?a pkt h"
    "ip4_input e ?s (Some ?a) nif = bnd (ip4_input_proto e (globals_of n pkt)
        ((with_heap ?s h)\<lparr>l_ip := ip_data_of n nif ?P pkt\<rparr>) (Some ?a) ?P (of_nat (hlen_of pkt)) RAW_INPUT_NONE (pkt ! 9) nif)
        (\<lambda>s. Inr (ERR_OK, clear_ip s))" by (rule good_pkt_passes [of ?s ?a pkt nif ?P e]) (use ref g in simp_all)
  have h: "packet h ?a []" "chain_data h [?a] = ?d" using p(1) assms(7) by (simp_all add: stripped_def)
  have "8 \<le> unat (p_len (pb h ?a))" by (rule packetE [OF h(1)]) (use h(2) in \<open>simp add: be16_def\<close>)
  moreover have "chain_ok h (Some ?a) [?a]" using h(1) by (simp add: packet_def)
  ultimately obtain h' where h': "udp_input (udp_env_of e (netifs s)) (globals_of n pkt) ((l_udp s)\<lparr>uheap := h\<rparr>) (Some ?a) (Some nif)
      = i_udp_recv e f (recv_arg c) i (Some ?a) (v4_addr (hdr_src pkt)) sport (v4_addr (hdr_dest pkt)) dport ((l_udp s)\<lparr>uheap := h'\<rparr>)"
    "chain_ok h' (Some ?a) [?a]" "chain_data h' [?a] = payload"
    using udp_input_delivered [of "(l_udp s)\<lparr>uheap := h\<rparr>" ?a "[]" sport dport "be16 len @ be16 chksum @ payload" i js c f "udp_env_of e (netifs s)" "globals_of n pkt" nif]
      h(2) assms(8-10) by (auto simp: udp_env_of_def globals_of_def be16_def)
  show ?thesis
  proof (intro exI conjI)
    show "go_input e s pkt = bnd (i_udp_recv e f (recv_arg c) i (Some ?a) (v4_addr (hdr_src pkt)) sport (v4_addr (hdr_dest pkt)) dport ((l_udp s)\<lparr>uheap := h'\<rparr>))
          (\<lambda>u. Inr (length pkt, None, s\<lparr>l_udp := u, l_ip := no_ip\<rparr>))"
    proof -
      let ?call = "i_udp_recv e f (recv_arg c) i (Some ?a) (v4_addr (hdr_src pkt)) sport (v4_addr (hdr_dest pkt)) dport ((l_udp s)\<lparr>uheap := h'\<rparr>)"
      have "ip4_input e ?s (Some ?a) nif = bnd ?call (\<lambda>u. Inr (ERR_OK, clear_ip (((with_heap s h)\<lparr>l_ip := ip_data_of n nif ?P pkt\<rparr>)\<lparr>l_udp := u\<rparr>)))"
        using p(2) h'(1) assms(5) by (simp add: ip4_input_proto_def bnd_assoc)
      then have "ip4_input e ?s (Some ?a) nif = bnd ?call (\<lambda>u. Inr (ERR_OK, s\<lparr>l_udp := u, l_ip := no_ip\<rparr>))" by (simp only: clear_ip_udp)
      then show ?thesis using go_input_ref [OF assms(1,3-6,2), of e] by (cases ?call) simp_all
    qed
  qed (rule h'(2,3))+
qed


section \<open>Unknown protocols\<close>

lemma header_force_contiguous:
  assumes "contiguous_at h a b room" and "n \<le> room" and "0 < n" and "n \<le> 32767" and "n + unat (p_tot_len b) \<le> 65535"
  shows "pbuf_header_force h (Some a) (of_nat n) = Inr (0, h\<lparr>pbufs := (pbufs h)(a \<mapsto> add_hdr n b)\<rparr>)"
proof -
  have "sint (of_nat n :: u16_t) = int n" using assms(4) by (simp add: signed_of_nat signed_take_bit_int_eq_self)
  then have "pbuf_header_force h (Some a) (of_nat n) = pbuf_add_header h (Some a) n"
    using assms(1) by (simp add: pbuf_header_force_def pbuf_header_impl_def pbuf_add_header_def pbuf_add_header_impl_def contiguous_at_def Let_def)
  then show ?thesis using pbuf_add_header_contiguous [OF assms(1), of n] assms(2,5) by simp
qed

lemma packet_cong:
  assumes "packet h a []" and "heap_ok h'" and "pbufs h' = pbufs h" and "mem h' = mem h"
  shows "packet h' a []" and "chain_data h' [a] = chain_data h [a]"
proof -
  have "chain_ok h' (Some a) [a] = chain_ok h (Some a) [a]" and c: "chain_data h' [a] = chain_data h [a]"
    using chain_cong [of "[a]" h' h] assms(3,4) by simp_all
  moreover have "freeable h' a = freeable h a" "once h' a = once h a" "block h' a = block h a"
    using assms(3,4) by (simp_all add: freeable_iff once_def block_def pb_def)
  ultimately show "packet h' a []" using assms(1,2) by (simp add: packet_def independent_def)
  show "chain_data h' [a] = chain_data h [a]" by (rule c)
qed

lemma stripped_restored:
  assumes "stripped h0 a d h" and "p_payload (pb h0 a) = Some (a, 0)" and "p_type_internal (pb h0 a) = 0x82" and "total_len d \<le> length d"
    and "hlen_of d \<le> total_len d" and "20 \<le> hlen_of d" and "length d \<le> 65535"
  shows "\<exists>h1. pbuf_header_force h (Some a) (of_nat (hlen_of d)) = Inr (0, h1) \<and> packet h1 a [] \<and> chain_data h1 [a] = take (total_len d) d
    \<and> net h1 = net h0 \<and> mem h1 = mem h0 \<and> nextid h1 = nextid h0 \<and> oom h1 = oom h0 \<and> (\<forall>q. q \<noteq> a \<longrightarrow> pbufs h1 q = pbufs h0 q)"
proof -
  let ?n = "hlen_of d"
  have st: "packet h a []" "chain_data h [a] = drop ?n (take (total_len d) d)" "mem_read h (Some (a, 0)) 0 ?n = Inr (take ?n d)"
    "net h = net h0" "mem h = mem h0" "nextid h = nextid h0" "oom h = oom h0" "\<forall>q. q \<noteq> a \<longrightarrow> pbufs h q = pbufs h0 q"
    using assms(1,2) by (simp_all add: stripped_def)
  obtain b where b: "pbufs h a = Some b" "heap_ok h" "chain_ok h (Some a) [a]" "unat (p_tot_len b) = length (chain_data h [a])"
    "unat (p_len b) \<le> length (chain_data h [a])" by (rule packetE [OF st(1)])
  have pl: "p_payload b = Some (a, int ?n)" "p_type_internal b = 0x82" using assms(1-3) b(1) by (simp_all add: stripped_def ptr_add_def)
  have c: "contiguous_at h a b ?n" using b(1) pl by (simp add: contiguous_at_def)
  have n: "?n \<le> 60" using unat_IPH_HL_BYTES [of d] by (simp add: hlen_of_def)
  obtain bs where bs: "mem h a = Some bs" "take ?n bs = take ?n d" "?n \<le> length bs"
    using st(3) assms(6) by (auto simp: mem_read_def split: if_splits option.splits)
  have room: "?n + unat (p_len b) \<le> length bs"
    using b(1,3) pl bs(1,3) by (auto simp: chain_ok_Cons payload_ok_def)
  have len: "?n + length (chain_data h [a]) \<le> 65535" unfolding st(2) using assms(4,5,7) by simp
  let ?h = "h\<lparr>pbufs := (pbufs h)(a \<mapsto> add_hdr ?n b)\<rparr>"
  note r = chain_add_hdr [OF b(3) c bs(1) room le_refl len refl]
  have "pbuf_header_force h (Some a) (of_nat ?n) = Inr (0, ?h)"
    by (rule header_force_contiguous [OF c]) (use n assms(6) len b(4) in auto)
  moreover have "chain_data ?h [a] = take (total_len d) d"
    using r(2) bs(2) st(2) assms(5) by (simp add: take_drop [symmetric] del: chain_data_Cons) (metis append_take_drop_id min.absorb1 take_take)
  moreover have "packet ?h a []"
    using r(1) heap_ok_upd [OF b(2,1)] st(1) b(1) by (auto simp: packet_def independent_def freeable_iff once_def add_hdr_def pbuf_get_allocsrc_def)
  ultimately show ?thesis using st by auto
qed


text \<open>A datagram of a protocol other than ICMP, TCP and UDP from another host, at least eight bytes long, for a unicast address.\<close>

definition unknown_proto :: "netif \<Rightarrow> bytes \<Rightarrow> bool" where
  "unknown_proto nif pkt \<longleftrightarrow> pkt ! 9 \<notin> {1, 6, 17} \<and> 28 \<le> total_len pkt \<and> hdr_src pkt \<noteq> n_ip_addr nif
     \<and> \<not> ip4_addr_ismulticast (hdr_dest pkt) \<and> \<not> ip4_addr_isbroadcast_u32 (hdr_dest pkt) nif \<and> (n_mtu nif = 0 \<or> 56 \<le> unat (n_mtu nif))"

lemma ip4_input_unknown:
  assumes "packet (lheap s) a []" and "pkt = chain_data (lheap s) [a]" and "p_payload (pb (lheap s) a) = Some (a, 0)"
    and "p_type_internal (pb (lheap s) a) = 0x82" and "good_pkt s nif pkt" and "unknown_proto nif pkt" and "length pkt \<le> 1514" and "netifs s = nif # ns"
    and "err = ip4_packet 0 (ip_id (net (lheap s))) 64 1 (n_ip_addr nif) (hdr_src pkt) (icmp_error 3 2 (take 28 pkt))"
  shows "\<exists>s'. ip4_input e s (Some a) nif = Inr (ERR_OK, s')
    \<and> net (lheap s') = (if oom (lheap s) (nextid (lheap s)) then net (lheap s)
        else (net (lheap s))\<lparr>ip_id := ip_id (net (lheap s)) + 1, sent := sent (net (lheap s)) @ [err]\<rparr>)
    \<and> (\<forall>q. if q = a then pbufs (lheap s') q = None \<and> mem (lheap s') q = None
           else pbufs (lheap s') q = pbufs (lheap s) q \<and> mem (lheap s') q = mem (lheap s) q)"
proof -
  note g = good_pktD [OF assms(5)]
  have k: "pkt ! 9 \<noteq> 1" "pkt ! 9 \<noteq> 6" "pkt ! 9 \<noteq> 17" "28 \<le> total_len pkt" "hdr_src pkt \<noteq> n_ip_addr nif" "\<not> ip4_addr_ismulticast (hdr_dest pkt)"
    "\<not> ip4_addr_isbroadcast_u32 (hdr_dest pkt) nif" "n_mtu nif = 0 \<or> 56 \<le> unat (n_mtu nif)" using assms(6) by (auto simp: unknown_proto_def)
  let ?P = "p_payload (pb (lheap s) a)"
  obtain h n where p: "stripped (lheap s) a pkt h" "ip4_input_netif (netifs s) nif (hdr_dest pkt) = Some n"
    "ip4_input e s (Some a) nif = bnd (ip4_input_proto e (globals_of n pkt)
        ((with_heap s h)\<lparr>l_ip := ip_data_of n nif ?P pkt\<rparr>) (Some a) ?P (of_nat (hlen_of pkt)) RAW_INPUT_NONE (pkt ! 9) nif)
        (\<lambda>s. Inr (ERR_OK, clear_ip s))" by (rule good_pkt_passes [OF assms(1,2,5) refl])
  have n: "n = nif" using p(2) k(6) by (simp add: ip4_input_netif_def ip4_input_accept_def)
  have l65: "length pkt \<le> 65535" using assms(7) by simp
  from stripped_restored [OF p(1) assms(3,4) g(4,3,2) l65] obtain h1 where h1:
    "pbuf_header_force h (Some a) (of_nat (hlen_of pkt)) = Inr (0, h1)" "packet h1 a []" "chain_data h1 [a] = take (total_len pkt) pkt"
    "net h1 = net (lheap s)" "mem h1 = mem (lheap s)" "nextid h1 = nextid (lheap s)" "oom h1 = oom (lheap s)" "\<forall>q. q \<noteq> a \<longrightarrow> pbufs h1 q = pbufs (lheap s) q"
    by blast
  have ok: "heap_ok h1" "chain_ok h1 (Some a) [a]" using h1(2) by (simp_all add: packet_def)
  have src: "hdr_src (chain_data h1 [a]) = hdr_src pkt" "take 28 (chain_data h1 [a]) = take 28 pkt"
    unfolding h1(3) using k(4) by (simp_all add: hdr_src_def)
  have l28: "28 \<le> unat (p_len (pb h1 a))" by (rule packetE [OF h1(2)]) (use h1(3) k(4) g(4) in simp)
  have ne: "hdr_src (chain_data h1 [a]) \<noteq> n_ip_addr nif" unfolding src by (rule k(5))
  have "err = ip4_packet 0 (ip_id (net h1)) 64 1 (n_ip_addr nif) (hdr_src (chain_data h1 [a])) (icmp_error 3 2 (take 28 (chain_data h1 [a])))"
    unfolding src h1(4) by (rule assms(9))
  from icmp_error_result [OF ok l28 ne k(8) refl this, of "i_odd e" ns] obtain h2 where h2:
    "icmp_send_response (i_odd e) (nif # ns) h1 (Some a) 3 2 = Inr h2" "heap_ok h2" "pbufs h2 = pbufs h1" "mem h2 = mem h1"
    "net h2 = (if oom h1 (nextid h1) then net h1 else (net h1)\<lparr>ip_id := ip_id (net h1) + 1, sent := sent (net h1) @ [err]\<rparr>)"
    by blast
  note f = packet_free [OF packet_cong(1) [OF h1(2) h2(2-4)]]
  let ?h = "drop_objs {a} h2"
  have "ip4_input e s (Some a) nif = Inr (ERR_OK, clear_ip ((with_heap s ?h)\<lparr>l_ip := ip_data_of n nif ?P pkt\<rparr>))"
    using p(3) k h1(1) h2(1) f n assms(8) by (simp add: ip4_input_proto_def globals_of_def icmp_dest_unreach_def)
  moreover have "net ?h = net h2" by (simp add: drop_objs_def)
  ultimately show ?thesis using h2 h1(4-8) by (intro exI conjI) (auto simp: clear_ip_def restrict_map_def)
qed

text \<open>
  C27: A packet of a transport protocol the stack does not have is answered with the ICMP message that says so, which holds the
  packet's header and first eight bytes; no memory is left allocated.
\<close>

theorem unknown_protocol_reported:
  assumes "heap_ok (lheap s)" and "netifs s = nif # ns" and "\<not> oom (lheap s) (nextid (lheap s))"
    and "good_pkt s nif pkt" and "unknown_proto nif pkt" and "length pkt \<le> 1514"
  shows "\<exists>s'. go_input e s pkt = Inr (length pkt, None, s')
    \<and> sent (net (lheap s')) = sent (net (lheap s)) @ (if oom (lheap s) (Suc (nextid (lheap s))) then []
        else [ip4_packet 0 (ip_id (net (lheap s))) 64 1 (n_ip_addr nif) (hdr_src pkt) (icmp_error 3 2 (take 28 pkt))])
    \<and> pbufs (lheap s') = pbufs (lheap s) \<and> mem (lheap s') = mem (lheap s)"
proof -
  let ?h = "lheap s" and ?a = "nextid (lheap s)" and ?s = "with_heap s (pool_heap (lheap s) pkt)"
  have l: "0 < length pkt" using good_pktD(5) [OF assms(4)] by linarith
  note pool = pool_heap_packet [OF assms(1) l assms(6) refl]
  have g: "good_pkt ?s nif pkt" using assms(4) by (simp add: good_pkt_def ip4_good_def with_heap_def)
  let ?err = "ip4_packet 0 (ip_id (net ?h)) 64 1 (n_ip_addr nif) (hdr_src pkt) (icmp_error 3 2 (take 28 pkt))"
  obtain s' where s': "ip4_input e ?s (Some ?a) nif = Inr (ERR_OK, s')"
    "net (lheap s') = (if oom ?h (Suc ?a) then net ?h else (net ?h)\<lparr>ip_id := ip_id (net ?h) + 1, sent := sent (net ?h) @ [?err]\<rparr>)"
    "\<forall>q. if q = ?a then pbufs (lheap s') q = None \<and> mem (lheap s') q = None
         else pbufs (lheap s') q = pbufs (pool_heap ?h pkt) q \<and> mem (lheap s') q = mem (pool_heap ?h pkt) q"
    using ip4_input_unknown [of ?s ?a pkt nif ns ?err e, OF _ _ _ _ g assms(5,6)] pool assms(2) by (auto simp: pool_pbuf_def)
  have "pbufs (lheap s') q = pbufs ?h q \<and> mem (lheap s') q = mem ?h q" for q
    using s'(3) pool(7,8) assms(1) by (cases "q = ?a") simp_all
  moreover have "go_input e s pkt = Inr (length pkt, None, s')"
    using go_input_pool [OF assms(1,3,4) _ assms(6,2), of e] s'(1) assms(5) by (simp add: unknown_proto_def)
  ultimately show ?thesis using s'(2) by (intro exI [of _ s']) (auto simp: fun_eq_iff)
qed


section \<open>Unreachable ports\<close>

text \<open>The headers of a datagram in a slice come back into view: the pbuf refers to the whole packet again, less its padding.\<close>

lemma ref_restored:
  assumes "stripped (ref_heap h0 pkt) a pkt h" and "a = Suc (nextid h0)" and "pbufs h a = Some b" and "length pkt \<le> 65535"
    and "hlen_of pkt + 8 \<le> total_len pkt" and "total_len pkt \<le> length pkt" and "hlen_of pkt \<le> 60" and "heap_ok h0"
  defines "n \<equiv> hlen_of pkt + 8" and "h1 \<equiv> h\<lparr>pbufs := (pbufs h)(a \<mapsto> remove_hdr 8 b)\<rparr>"
  shows "\<exists>h2. pbuf_header_force h1 (Some a) (of_nat n) = Inr (0, h2) \<and> packet h2 a [] \<and> chain_data h2 [a] = take (total_len pkt) pkt
    \<and> net h2 = net h0 \<and> mem h2 = mem h \<and> nextid h2 = nextid h \<and> oom h2 = oom h0 \<and> (\<forall>q. q \<noteq> a \<longrightarrow> pbufs h2 q = pbufs h q)"
proof -
  let ?k = "nextid h0" and ?t = "total_len pkt"
  have pk: "packet h a []" "chain_data h [a] = drop (hlen_of pkt) (take ?t pkt)" "net h = net h0" "mem h = mem (ref_heap h0 pkt)" "oom h = oom h0"
    "p_payload b = Some (?k, int (hlen_of pkt))" "p_type_internal b = 0x41"
    using assms(1-3) by (simp_all add: stripped_def ref_heap_def ref_pbuf_def Let_def ptr_add_def)
  have m: "mem h ?k = Some pkt" "mem h a = Some []" using pk(4) assms(2) by (simp_all add: ref_heap_def Let_def)
  obtain b' where b': "pbufs h a = Some b'" "length (seg h a) = unat (p_len b')" "unat (p_tot_len b') = length (chain_data h [a])" "heap_ok h" "chain_ok h (Some a) [a]"
    by (rule packetE [OF pk(1)])
  have len: "unat (p_len b) = ?t - hlen_of pkt" "unat (p_tot_len b) = ?t - hlen_of pkt" "p_next b = None"
    using b' assms(3,6) pk(2) by (auto simp: chain_ok_Cons)
  let ?b = "b\<lparr>p_payload := Some (?k, 0), p_len := of_nat ?t, p_tot_len := of_nat ?t\<rparr>"
  let ?h = "h\<lparr>pbufs := (pbufs h)(a \<mapsto> ?b)\<rparr>"
  have of: "x = of_nat (?t - n) + 8" if "unat x = ?t - hlen_of pkt" for x :: u16_t
  proof -
    have "unat x = (?t - n) + 8" using that assms(5) by (simp add: n_def)
    then have "of_nat (unat x) = (of_nat ((?t - n) + 8) :: u16_t)" by (rule arg_cong)
    then show ?thesis by (simp del: of_nat_diff)
  qed
  note w = of [OF len(1)] of [OF len(2)]
  have t: "of_nat (?t - n) + of_nat n = (of_nat ?t :: u16_t)" "of_nat n + of_nat (?t - n) = (of_nat ?t :: u16_t)"
    using assms(5) unfolding n_def [symmetric] by (simp_all del: of_nat_diff flip: of_nat_add)
  have n: "n \<le> 68" "0 < n" using assms(7) by (simp_all add: n_def)
  then have "sint (of_nat n :: u16_t) = int n" by (simp add: signed_of_nat signed_take_bit_int_eq_self)
  moreover have "\<not> (of_nat ?t :: u16_t) < of_nat n" using n assms(4-6) unfolding n_def [symmetric] by (simp add: word_less_nat_alt unat_of_nat_16)
  ultimately have "pbuf_header_force h1 (Some a) (of_nat n) = Inr (0, ?h)"
    using pk(6,7) n t by (simp add: h1_def pbuf_header_force_def pbuf_header_impl_def pbuf_add_header_impl_def remove_hdr_def ptr_add_def w Let_def
        del: of_nat_add of_nat_diff) (simp add: n_def)
  moreover have "chain_data ?h [a] = take ?t pkt" using m assms(4-6) by (simp add: seg_def unat_of_nat_16 word_unat_eq_iff)
  moreover have "packet ?h a []"
  proof -
    have "heap_ok ?h" by (rule heap_ok_upd [OF b'(4) assms(3)])
    moreover have "chain_ok ?h (Some a) [a]" using m len(3) assms(4-6) by (simp add: chain_ok_Cons payload_ok_def unat_of_nat_16 n_def word_unat_eq_iff)
    moreover have "freeable ?h a" "once ?h a" using pk(1) assms(3) by (auto simp: packet_def freeable_iff once_def pbuf_get_allocsrc_def)
    ultimately show ?thesis by (simp add: packet_def independent_def)
  qed
  ultimately show ?thesis using pk by auto
qed

text \<open>
  A UDP datagram from another host for the unicast address of the interface, with a whole UDP header.
\<close>

definition udp_for_us :: "netif \<Rightarrow> bytes \<Rightarrow> bool" where
  "udp_for_us nif pkt \<longleftrightarrow> pkt ! 9 = 17 \<and> hlen_of pkt + 8 \<le> total_len pkt \<and> hdr_dest pkt = n_ip_addr nif \<and> hdr_src pkt \<noteq> n_ip_addr nif
     \<and> \<not> ip4_addr_ismulticast (hdr_dest pkt) \<and> \<not> ip4_addr_isbroadcast_u32 (hdr_dest pkt) nif \<and> (n_mtu nif = 0 \<or> 56 \<le> unat (n_mtu nif))"

lemma udp_input_unreachable:
  assumes "stripped (ref_heap h0 pkt) a pkt h" and "a = Suc (nextid h0)" and "heap_ok h0" and "length pkt \<le> 65535" and "total_len pkt \<le> length pkt"
    and "udp_for_us nif pkt" and "udp_pcbs u = []" and "uheap u = h" and "netif_list u = nif # ns" and "20 \<le> hlen_of pkt"
    and "err = ip4_packet 0 (ip_id (net h0)) 64 1 (n_ip_addr nif) (hdr_src pkt) (icmp_error 3 3 (take 28 pkt))"
  shows "\<exists>h'. udp_input (udp_env_of e (nif # ns)) (globals_of nif pkt) u (Some a) (Some nif) = Inr (u\<lparr>uheap := h'\<rparr>)
    \<and> net h' = (if oom h0 (nextid h) then net h0 else (net h0)\<lparr>ip_id := ip_id (net h0) + 1, sent := sent (net h0) @ [err]\<rparr>)
    \<and> (\<forall>q. if q = a then pbufs h' q = None \<and> mem h' q = None else pbufs h' q = pbufs h q \<and> mem h' q = mem h q)"
proof -
  have k: "hlen_of pkt + 8 \<le> total_len pkt" "hdr_dest pkt = n_ip_addr nif" "hdr_src pkt \<noteq> n_ip_addr nif" "\<not> ip4_addr_ismulticast (hdr_dest pkt)"
    "\<not> ip4_addr_isbroadcast_u32 (hdr_dest pkt) nif" "n_mtu nif = 0 \<or> 56 \<le> unat (n_mtu nif)" using assms(6) unfolding udp_for_us_def by blast+
  have pk: "packet h a []" "chain_data h [a] = drop (hlen_of pkt) (take (total_len pkt) pkt)" using assms(1) by (simp_all add: stripped_def)
  obtain b where b: "pbufs h a = Some b" "length (seg h a) = unat (p_len b)" "heap_ok h" "chain_ok h (Some a) [a]" by (rule packetE [OF pk(1)])
  have b8: "8 \<le> unat (p_len b)" using b(2) pk(2) k(1) assms(5) by simp
  have "4 \<le> length (chain_data h [a])" unfolding pk(2) using k(1) assms(5) by simp
  then obtain sport dport ds where d: "chain_data h [a] = be16 sport @ be16 dport @ ds" by (rule ports_cases)
  let ?h1 = "h\<lparr>pbufs := (pbufs h)(a \<mapsto> remove_hdr 8 b)\<rparr>"
  have n: "hlen_of pkt \<le> 60" using unat_IPH_HL_BYTES [of pkt] by (simp add: hlen_of_def)
  obtain h2 where h2: "pbuf_header_force ?h1 (Some a) (of_nat (hlen_of pkt + 8)) = Inr (0, h2)" "packet h2 a []" "chain_data h2 [a] = take (total_len pkt) pkt"
    "net h2 = net h0" "mem h2 = mem h" "nextid h2 = nextid h" "oom h2 = oom h0" "\<forall>q. q \<noteq> a \<longrightarrow> pbufs h2 q = pbufs h q"
    using ref_restored [OF assms(1,2) b(1) assms(4) k(1) assms(5) n assms(3)] by blast
  have src: "hdr_src (chain_data h2 [a]) = hdr_src pkt" "take 28 (chain_data h2 [a]) = take 28 pkt"
    unfolding h2(3) using k(1) assms(10) by (simp_all add: hdr_src_def)
  have l28: "28 \<le> unat (p_len (pb h2 a))" by (rule packetE [OF h2(2)]) (use h2(3) k(1) assms(5,10) in simp)
  have ok: "heap_ok h2" "chain_ok h2 (Some a) [a]" using h2(2) by (simp_all add: packet_def)
  have ne: "hdr_src (chain_data h2 [a]) \<noteq> n_ip_addr nif" unfolding src by (rule k(3))
  have "err = ip4_packet 0 (ip_id (net h2)) 64 1 (n_ip_addr nif) (hdr_src (chain_data h2 [a])) (icmp_error 3 3 (take 28 (chain_data h2 [a])))"
    unfolding src h2(4) by (rule assms(11))
  from icmp_error_result [OF ok l28 ne k(6) refl this, of "i_odd e" ns] obtain h3 where h3:
    "icmp_send_response (i_odd e) (nif # ns) h2 (Some a) 3 3 = Inr h3" "heap_ok h3" "pbufs h3 = pbufs h2" "mem h3 = mem h2"
    "net h3 = (if oom h2 (nextid h2) then net h2 else (net h2)\<lparr>ip_id := ip_id (net h2) + 1, sent := sent (net h2) @ [err]\<rparr>)"
    by blast
  note f = packet_free [OF packet_cong(1) [OF h2(2) h3(2-4)]]
  have v6: "\<not> IP_IS_V6 (v4_addr x)" for x by (simp add: IP_IS_V6_def v4_addr_def IPADDR_TYPE_V4_def IPADDR_TYPE_V6_def)
  have "udp_input (udp_env_of e (nif # ns)) (globals_of nif pkt) u (Some a) (Some nif) = Inr (u\<lparr>uheap := drop_objs {a} h3\<rparr>)"
    using load_ports [OF b(4,1) b8 d] pbuf_remove_header_correct [OF b(1), of 8] b b8 k h2(1) h3(1) f v6 assms(7,8)
    by (simp add: udp_input_def udp_input_pcb_def udp_deliver_def udp_free_def udp_env_of_def globals_of_def ip_addr_isbroadcast_def ip_addr_ismulticast_def
        icmp_dest_unreach_def Let_def)
  moreover have "net (drop_objs {a} h3) = net h3" by (simp add: drop_objs_def)
  ultimately show ?thesis using h3 h2(4-8) by (intro exI conjI) (auto simp: restrict_map_def)
qed

text \<open>
  C28: A UDP datagram for the unicast address of the interface, when no UDP pcb exists, is answered with the ICMP message that the port cannot be
  reached, which holds the packet's header and first eight bytes. Nothing else is sent, no pbuf is left and no other memory is changed:
  \<^verbatim>\<open>nextid\<close> names the slice of Go that holds the packet.
\<close>

theorem udp_port_unreachable_reported:
  assumes "heap_ok (lheap s)" and "netifs s = nif # ns" and "\<not> oom (lheap s) (Suc (nextid (lheap s)))"
    and "good_pkt s nif pkt" and "udp_for_us nif pkt" and "length pkt \<le> 65535" and "udp_pcbs (l_udp s) = []"
  shows "\<exists>s'. go_input e s pkt = Inr (length pkt, None, s')
    \<and> sent (net (lheap s')) = sent (net (lheap s)) @ (if oom (lheap s) (Suc (Suc (nextid (lheap s)))) then []
        else [ip4_packet 0 (ip_id (net (lheap s))) 64 1 (n_ip_addr nif) (hdr_src pkt) (icmp_error 3 3 (take 28 pkt))])
    \<and> pbufs (lheap s') = pbufs (lheap s) \<and> (\<forall>q. q \<noteq> nextid (lheap s) \<longrightarrow> mem (lheap s') q = mem (lheap s) q)"
proof -
  let ?h = "lheap s" and ?a = "Suc (nextid (lheap s))" and ?s = "with_heap s (ref_heap (lheap s) pkt)"
  note g = good_pktD [OF assms(4)]
  have l: "0 < length pkt" using g(5) by linarith
  note ref = ref_heap_packet [OF assms(1) l assms(6) refl refl]
  have gp: "good_pkt ?s nif pkt" using assms(4) by (simp add: good_pkt_def ip4_good_def with_heap_def)
  let ?P = "p_payload (pb (lheap ?s) ?a)"
  obtain h n where p: "stripped (lheap ?s) ?a pkt h" "ip4_input_netif (netifs ?s) nif (hdr_dest pkt) = Some n"
    "ip4_input e ?s (Some ?a) nif = bnd (ip4_input_proto e (globals_of n pkt)
        ((with_heap ?s h)\<lparr>l_ip := ip_data_of n nif ?P pkt\<rparr>) (Some ?a) ?P (of_nat (hlen_of pkt)) RAW_INPUT_NONE (pkt ! 9) nif)
        (\<lambda>s. Inr (ERR_OK, clear_ip s))" by (rule good_pkt_passes [of ?s ?a pkt nif ?P e]) (use ref gp in simp_all)
  have n: "n = nif" using p(2) assms(5) by (auto simp: ip4_input_netif_def ip4_input_accept_def udp_for_us_def)
  have st: "stripped (ref_heap ?h pkt) ?a pkt h" "nextid h = Suc (Suc (nextid ?h))" using p(1) by (simp_all add: stripped_def)
  let ?u = "(l_udp s)\<lparr>uheap := h\<rparr>"
  obtain h' where h': "udp_input (udp_env_of e (nif # ns)) (globals_of nif pkt) ?u (Some ?a) (Some nif) = Inr (?u\<lparr>uheap := h'\<rparr>)"
    "net h' = (if oom ?h (Suc ?a) then net ?h else (net ?h)\<lparr>ip_id := ip_id (net ?h) + 1, sent := sent (net ?h)
        @ [ip4_packet 0 (ip_id (net ?h)) 64 1 (n_ip_addr nif) (hdr_src pkt) (icmp_error 3 3 (take 28 pkt))]\<rparr>)"
    "\<forall>q. if q = ?a then pbufs h' q = None \<and> mem h' q = None else pbufs h' q = pbufs h q \<and> mem h' q = mem h q"
    using udp_input_unreachable [OF st(1) refl assms(1,6) g(4) assms(5), of ?u ns _ e, OF _ _ _ g(2) refl] assms(2,7) st(2) by auto
  have fresh: "pbufs ?h ?a = None \<and> mem ?h ?a = None" by (rule ccontr) (use assms(1) in \<open>auto simp: heap_ok_def\<close>)
  have "pbufs h q = pbufs ?h q \<and> (q = nextid ?h \<or> mem h q = mem ?h q)" if "q \<noteq> ?a" for q
    using st(1) that by (simp add: stripped_def ref_heap_def Let_def)
  then have e: "pbufs h' q = pbufs ?h q \<and> (q = nextid ?h \<or> mem h' q = mem ?h q)" for q
    using h'(3) fresh by (cases "q = ?a") auto
  let ?s' = "clear_ip (((with_heap ?s h)\<lparr>l_ip := ip_data_of n nif ?P pkt\<rparr>)\<lparr>l_udp := ?u\<lparr>uheap := h'\<rparr>\<rparr>)"
  have "ip4_input e ?s (Some ?a) nif = Inr (ERR_OK, ?s')"
    using p(3) h'(1) assms(2,5) n by (simp add: ip4_input_proto_def udp_for_us_def)
  moreover have "pkt ! 9 = 17" using assms(5) by (simp add: udp_for_us_def)
  ultimately have "go_input e s pkt = Inr (length pkt, None, ?s')" using go_input_ref [OF assms(1,3,4) _ assms(6,2), of e] by simp
  moreover have "lheap ?s' = h'" by (simp add: clear_ip_def)
  ultimately show ?thesis using h'(2) e by (intro exI [of _ ?s']) (auto simp: fun_eq_iff)
qed

section \<open>Short packets\<close>

text \<open>
  The tests of \<^verbatim>\<open>peekNextProto\<close> let a packet of 9 bytes (IPv6: 6 bytes) pass, and then the byte behind its end is read.
\<close>

lemma short_packet_panics:
  assumes "length pkt = 9 \<and> drop_bit 4 (pkt ! 0) = 4 \<or> length pkt = 6 \<and> drop_bit 4 (pkt ! 0) = 6"
  shows "go_input e s pkt = Inl Abort"
  using assms by (auto simp: go_input_def peekIPVer_def version_byte peekNextProto_def go_index_def)

section \<open>Samples\<close>

text \<open>The stack with a UDP pcb and its callback, which notes a port; the interface has the address 127.0.0.1.\<close>

definition sample_lwip :: lwip where
  "sample_lwip = \<lparr>
     l_udp = (set_pcb sample_udp 0 ((upcb sample_udp 0)\<lparr>recv := Some 7\<rparr>))
       \<lparr>uheap := sample\<lparr>pbufs := Map.empty, mem := Map.empty\<rparr>, netif_list := [sample_out_netif]\<rparr>,
     l_reass = \<lparr>rheap = sample, helper = Map.empty, ipr_at = Map.empty, reassdatagrams = [], ip_reass_pbufcount = 0, next_ipr = 0, ipr_oom = \<lambda>_. False\<rparr>,
     l_raw = sample_raw0, l_tcp = sample_tcp_start, l_ip = no_ip\<rparr>"

definition sample_ip_env :: ip_env where
  "sample_ip_env = \<lparr>i_odd = \<lambda>_. False, i_udp_recv = \<lambda>_ _ _ _ _ _ _ dport u. Inr (u\<lparr>udp_port := dport\<rparr>), i_raw = sample_raw_env,
     i_tcp = sample_tcp_env, i_ip6_input = \<lambda>s _ _. Inr (ERR_OK, s), i_ip6_output = \<lambda>h _ _ _ _ _ _ _. Inr (ERR_OK, h),
     i_icmp6_port_unreach = \<lambda>h _. Inr h\<rparr>"

lemma sample_lwip_sel [simp]:
  "lheap sample_lwip = sample\<lparr>pbufs := Map.empty, mem := Map.empty\<rparr>" "netifs sample_lwip = [sample_out_netif]" "l_raw sample_lwip = sample_raw0"
  "udp_pcbs (l_udp sample_lwip) = [0]" "pcb_at (l_udp sample_lwip) 0 = Some ((upcb sample_udp 0)\<lparr>recv := Some 7\<rparr>)"
  by (simp_all add: sample_lwip_def)

lemma sample_lwip_heap: "heap_ok (lheap sample_lwip)" "nextid (lheap sample_lwip) = 3" "oom (lheap sample_lwip) = (\<lambda>_. False)"
  "sent (net (lheap sample_lwip)) = []" "ip_id (net (lheap sample_lwip)) = 0"
  by (simp_all add: heap_ok_def sample_def init_net_def)

lemma sample_net [simp]: "net sample = init_net" "sent init_net = []"
  by (simp_all add: sample_def init_net_def)

text \<open>A packet from 10.0.0.1 to 10.0.0.2 with the protocol \<open>pr\<close>, 8 bytes of data and two bytes of padding.\<close>

definition sample_pkt :: "u8_t \<Rightarrow> bytes \<Rightarrow> bytes" where
  "sample_pkt pr body = [0x45, 0, 0, 28, 0, 7, 0, 0, 64, pr, 0, 0, 10, 0, 0, 1, 10, 0, 0, 2] @ body @ [0, 0]"

lemma sample_pkt_hdr: "hlen_of (sample_pkt pr body) = 20" "total_len (sample_pkt pr body) = 28" "hdr_src (sample_pkt pr body) = 0x0100000a"
  "hdr_dest (sample_pkt pr body) = 0x0200000a" "sample_pkt pr body ! 9 = pr" "length (sample_pkt pr body) = 22 + length body"
  by (simp_all add: sample_pkt_def hlen_of_def IPH_HL_BYTES_def total_len_def IPH_LEN_def hdr_src_def hdr_dest_def le32_def le16_def lwip_htons_def)

lemma sample_addrs: "\<not> ip4_addr_isbroadcast_u32 0x0100000a sample_out_netif" "\<not> ip4_addr_ismulticast 0x0100000a"
  "\<not> ip4_addr_isbroadcast_u32 0x0200000a sample_out_netif" "\<not> ip4_addr_ismulticast 0x0200000a"
  by (simp_all add: ip4_addr_isbroadcast_u32_def ip4_addr_ismulticast_def sample_out_netif_def lwip_htonl_def)

lemma sample_pkt_good:
  assumes "length body = 8"
  shows "good_pkt sample_lwip sample_out_netif (sample_pkt pr body)"
proof -
  have "drop_bit 4 (sample_pkt pr body ! 0) = 4" "IPH_OFFSET (sample_pkt pr body) = 0"
    by (simp_all add: sample_pkt_def IPH_OFFSET_def le16_def)
  then show ?thesis using assms sample_addrs
    by (simp add: good_pkt_def ip4_good_def ip4_reject_def hdr_bad_def sample_pkt_hdr ip4_input_netif_def ip4_input_accept_def sample_raw0_def)
qed

theorem ping_answered_witness:
  "\<exists>s'. go_input sample_ip_env sample_lwip (sample_pkt 1 sample_echo) = Inr (30, None, s')
    \<and> sent (net (lheap s')) = [[0x45, 0, 0, 28, 0, 7, 0, 0, 64, 1, 0x66, 0xd8, 10, 0, 0, 2, 10, 0, 0, 1, 0, 0, 0xff, 0xfc, 0, 1, 0, 2]]
    \<and> pbufs (lheap s') = Map.empty"
proof -
  have b: "length sample_echo = 8" by (simp add: sample_echo_def)
  have t: "take 20 (sample_pkt 1 sample_echo) = sample_echo_hdr" "drop 20 (take 28 (sample_pkt 1 sample_echo)) = sample_echo"
    by (simp_all add: sample_pkt_def sample_echo_hdr_def sample_echo_def)
  have "ping sample_out_netif (sample_pkt 1 sample_echo) sample_echo"
    using sample_addrs b t by (simp add: ping_def sample_pkt_hdr sample_out_netif_def) (simp add: sample_echo_def)
  from ping_answered [OF sample_lwip_heap(1) sample_lwip_sel(2) _ sample_pkt_good [OF b] this _ refl refl, of sample_ip_env False]
  show ?thesis using b by (auto simp: sample_lwip_heap(2-4) sample_pkt_hdr t sample_echo_reply)
qed

theorem udp_packet_delivered_witness:
  "\<exists>s'. go_input sample_ip_env sample_lwip (sample_pkt 17 [0, 53, 0, 99, 0, 8, 0, 0]) = Inr (30, None, s') \<and> udp_port (l_udp s') = 99"
proof -
  let ?pkt = "sample_pkt 17 [0, 53, 0, 99, 0, 8, 0, 0]"
  have b: "length [0, 53, 0, 99, 0, 8, 0, 0 :: byte] = 8" by simp
  have d: "drop (hlen_of ?pkt) (take (total_len ?pkt) ?pkt) = be16 53 @ be16 99 @ be16 8 @ be16 0 @ []"
    unfolding sample_pkt_hdr by (simp add: sample_pkt_def be16_def)
  show ?thesis
    using udp_packet_delivered [OF sample_lwip_heap(1) sample_lwip_sel(2) _ sample_pkt_good [OF b] _ _ d sample_lwip_sel(4,5), of 7 sample_ip_env]
    by (auto simp: sample_lwip_heap(2,3) sample_pkt_hdr sample_ip_env_def)
qed

theorem unknown_protocol_reported_witness:
  "\<exists>s'. go_input sample_ip_env sample_lwip (sample_pkt 2 sample_echo) = Inr (30, None, s') \<and> length (sent (net (lheap s'))) = 1
    \<and> pbufs (lheap s') = Map.empty"
proof -
  have b: "length sample_echo = 8" by (simp add: sample_echo_def)
  have "unknown_proto sample_out_netif (sample_pkt 2 sample_echo)"
    using sample_addrs by (simp add: unknown_proto_def sample_pkt_hdr sample_out_netif_def)
  from unknown_protocol_reported [OF sample_lwip_heap(1) sample_lwip_sel(2) _ sample_pkt_good [OF b] this, of sample_ip_env]
  show ?thesis using b by (auto simp: sample_lwip_heap(2-4) sample_pkt_hdr)
qed

text \<open>A datagram from port 53 of 10.0.0.1 to port 99 of the interface, on which no UDP pcb is left.\<close>

definition sample_own_pkt :: bytes where
  "sample_own_pkt = [0x45, 0, 0, 28, 0, 7, 0, 0, 64, 17, 0, 0, 10, 0, 0, 1, 127, 0, 0, 1, 0, 53, 0, 99, 0, 8, 0, 0]"

definition sample_no_udp :: lwip where
  "sample_no_udp = sample_lwip\<lparr>l_udp := (l_udp sample_lwip)\<lparr>udp_pcbs := []\<rparr>\<rparr>"

theorem udp_port_unreachable_reported_witness:
  "\<exists>s'. go_input sample_ip_env sample_no_udp sample_own_pkt = Inr (28, None, s') \<and> length (sent (net (lheap s'))) = 1
    \<and> pbufs (lheap s') = Map.empty"
proof -
  have f: "lheap sample_no_udp = lheap sample_lwip" "netifs sample_no_udp = [sample_out_netif]" "udp_pcbs (l_udp sample_no_udp) = []" "l_raw sample_no_udp = sample_raw0"
    by (simp_all add: sample_no_udp_def)
  have p: "hlen_of sample_own_pkt = 20" "total_len sample_own_pkt = 28" "hdr_src sample_own_pkt = 0x0100000a" "hdr_dest sample_own_pkt = n_ip_addr sample_out_netif"
    "sample_own_pkt ! 9 = 17" "length sample_own_pkt = 28" "drop_bit 4 (sample_own_pkt ! 0) = 4" "IPH_OFFSET sample_own_pkt = 0"
    "\<not> ip4_addr_ismulticast (hdr_dest sample_own_pkt)" "\<not> ip4_addr_isbroadcast_u32 (hdr_dest sample_own_pkt) sample_out_netif"
    "0x0100000a \<noteq> n_ip_addr sample_out_netif" "n_mtu sample_out_netif = 0 \<or> 56 \<le> unat (n_mtu sample_out_netif)" by code_simp+
  have "good_pkt sample_no_udp sample_out_netif sample_own_pkt"
    using p sample_addrs f by (simp add: good_pkt_def ip4_good_def ip4_reject_def hdr_bad_def ip4_input_netif_def ip4_input_accept_def sample_raw0_def)
  moreover have "udp_for_us sample_out_netif sample_own_pkt" using p by (simp add: udp_for_us_def)
  ultimately show ?thesis
    using udp_port_unreachable_reported [of sample_no_udp sample_out_netif "[]" sample_own_pkt sample_ip_env] f p(6) sample_lwip_heap by auto
qed

theorem ip4_input_rejects_witness:
  "\<exists>h x. ip4_input sample_ip_env (with_heap sample_lwip (pool_heap (lheap sample_lwip) [0x65, 0, 0, 20])) (Some 3) sample_out_netif
      = Inr (ERR_OK, (with_heap sample_lwip h)\<lparr>l_ip := x\<rparr>) \<and> pbufs h 3 = None \<and> sent (net h) = []"
proof -
  let ?s = "with_heap sample_lwip (pool_heap (lheap sample_lwip) [0x65, 0, 0, 20])"
  note pool = pool_heap_packet [OF sample_lwip_heap(1), of "[0x65, 0, 0, 20]" 3, unfolded sample_lwip_heap(2)]
  have "packet (lheap ?s) 3 []" "chain_data (lheap ?s) [3] = [0x65, 0, 0, 20]" "4 \<le> unat (p_len (pb (lheap ?s) 3))"
    using pool(1-3) by (simp_all add: pool_pbuf_def)
  moreover have "ip4_reject nifs nif n [0x65, 0, 0, 20]" for nifs nif n by (simp add: ip4_reject_def hdr_bad_def)
  ultimately obtain h x where r: "ip4_input sample_ip_env ?s (Some 3) sample_out_netif = Inr (ERR_OK, (with_heap ?s h)\<lparr>l_ip := x\<rparr>)"
    "net h = net (lheap ?s)" "\<forall>q. if q \<in> set [3] then pbufs h q = None \<and> mem h q = None else pbufs h q = pbufs (lheap ?s) q \<and> mem h q = mem (lheap ?s) q"
    using ip4_input_rejects [of ?s 3 "[]" "[0x65, 0, 0, 20]" sample_out_netif sample_ip_env] by auto
  moreover have "sent (net h) = []" using r(2) pool(4) by simp
  moreover have "pbufs h 3 = None" using r(3) by (metis list.set_intros(1))
  ultimately show ?thesis by (intro exI [of _ h] exI [of _ x]) simp
qed

end
