(* ===== verification/Tcp_Inv.thy ===== *)
theory Tcp_Inv
  imports Tcp_Frames
begin

text \<open>
  The pcb lists. In every state that calls of the application, segments and timers can produce, the list of active pcbs holds
  connections that are neither closed nor in \<^verbatim>\<open>TIME-WAIT\<close>, \<^verbatim>\<open>tcp_tw_pcbs\<close> those in \<^verbatim>\<open>TIME-WAIT\<close>, \<^verbatim>\<open>tcp_bound_pcbs\<close> closed ones with a
  port, and \<^verbatim>\<open>tcp_listen_pcbs\<close> listening ones, each once.
\<close>

section \<open>Functions on one pcb\<close>

definition live :: "tcp_pcb \<Rightarrow> bool" where
  "live c \<longleftrightarrow> t_state c \<notin> {CLOSED, LISTEN, TIME_WAIT}"

text \<open>The ranges of fields that the code relies on: the index into \<^verbatim>\<open>tcp_persist_backoff\<close> and the receive window.\<close>

definition pcb_ok :: "tcp_pcb \<Rightarrow> bool" where
  "pcb_ok c \<longleftrightarrow> persist_backoff c \<le> 7 \<and> rcv_wnd c \<le> TCP_WND"

definition keeps_pcb :: "tcp_pcb \<Rightarrow> tcp_pcb \<Rightarrow> bool" where
  "keeps_pcb c c' \<longleftrightarrow> t_state c' = t_state c \<and> t_local_port c' = t_local_port c \<and> (pcb_ok c \<longrightarrow> pcb_ok c')"

lemma sends_keeps: "sends c c' \<Longrightarrow> keeps_pcb c c'"
  using sendsD [of c c'] core_eqD [of c' c] by (auto simp: keeps_pcb_def pcb_ok_def)

lemma keeps_refl [simp]: "keeps_pcb c c"
  by (simp add: keeps_pcb_def)

lemma keeps_pcb_trans: "keeps_pcb a b \<Longrightarrow> keeps_pcb b c \<Longrightarrow> keeps_pcb a c"
  by (simp add: keeps_pcb_def)

lemma tcp_free_ooseq_keeps: "post (tcp_free_ooseq h c) (\<lambda>(c', h'). keeps_pcb c c')"
  by (simp add: tcp_free_ooseq_def) ((rule post_rules | clarsimp | simp add: keeps_pcb_def pcb_ok_def)+)

lemma tcp_pcb_purge_keeps: "post (tcp_pcb_purge h c) (\<lambda>(c', h'). keeps_pcb c c')"
  by (simp add: tcp_pcb_purge_def)
    ((rule tcp_free_ooseq_keeps [THEN post_mono] post_rules | clarsimp | simp add: keeps_pcb_def pcb_ok_def)+)

lemma tcp_zero_window_probe_sends: "post (tcp_zero_window_probe e cx h c) (\<lambda>(err, c', h'). sends c c')"
  by (simp add: tcp_zero_window_probe_def Let_def)
    ((rule tcp_output_alloc_header_sends [THEN post_mono] post_rules | clarsimp | simp add: sends_def)+)

lemma tcp_keepalive_sends: "post (tcp_keepalive e cx h c) (\<lambda>(err, c', h'). sends c c')"
  by (simp add: tcp_keepalive_def Let_def)
    ((rule tcp_output_alloc_header_sends [THEN post_mono] post_rules | clarsimp | simp add: sends_def)+)

lemma tcp_split_useg_sends: "post (tcp_split_useg od h c sg r f) (\<lambda>(sg', c', h'). sends c c')"
  by (simp add: tcp_split_useg_def Let_def) ((rule post_rules | clarsimp | simp add: sends_def)+)

lemma tcp_split_unsent_seg_sends: "post (tcp_split_unsent_seg od h c n) (\<lambda>(err, c', h'). sends c c')"
  by (simp add: tcp_split_unsent_seg_def Let_def)
    ((rule tcp_split_useg_sends [THEN post_mono] post_rules | clarsimp | simp add: sends_def)+)

lemma keeps_step:
  "keeps_pcb a b \<Longrightarrow> t_state c = t_state b \<Longrightarrow> t_local_port c = t_local_port b \<Longrightarrow> rcv_wnd c = rcv_wnd b
     \<Longrightarrow> persist_backoff c = persist_backoff b \<Longrightarrow> keeps_pcb a c"
  by (simp add: keeps_pcb_def pcb_ok_def)

lemma flags_keep [simp]:
  "t_state (tcp_set_flags c f) = t_state c" "t_local_port (tcp_set_flags c f) = t_local_port c" "rcv_wnd (tcp_set_flags c f) = rcv_wnd c"
  "t_state (tcp_clear_flags c f) = t_state c" "t_local_port (tcp_clear_flags c f) = t_local_port c" "rcv_wnd (tcp_clear_flags c f) = rcv_wnd c"
  "t_state (tcp_ack_now c) = t_state c" "t_local_port (tcp_ack_now c) = t_local_port c" "rcv_wnd (tcp_ack_now c) = rcv_wnd c"
  by (simp_all add: tcp_set_flags_def tcp_clear_flags_def tcp_ack_now_def)

lemma next_backoff: "(x :: u8_t) < 7 \<Longrightarrow> x + 1 \<le> 7"
  using unat_Suc_word [of x 7] by (simp add: word_le_nat_alt word_less_nat_alt)

lemma slowtmr_persist_keeps: "post (slowtmr_persist e cx h c) (\<lambda>(r, c', h'). keeps_pcb c c')"
  by (simp add: slowtmr_persist_def Let_def)
    ((rule tcp_zero_window_probe_sends [THEN post_mono] tcp_split_unsent_seg_sends [THEN post_mono] tcp_output_sends [THEN post_mono] post_rules
      | clarsimp | ((drule sends_keeps)+, simp add: keeps_pcb_def pcb_ok_def next_backoff) | simp add: keeps_pcb_def pcb_ok_def)+)

lemma slowtmr_rexmit_keeps: "post (slowtmr_rexmit e cx h c) (\<lambda>(c', h'). keeps_pcb c c')"
  by (simp add: slowtmr_rexmit_def Let_def)
    ((rule tcp_rexmit_rto_prepare_sends [THEN post_mono] tcp_rexmit_rto_commit_sends [THEN post_mono] post_rules
      | clarsimp | ((drule sends_keeps)+, simp add: keeps_pcb_def pcb_ok_def) | simp add: keeps_pcb_def pcb_ok_def)+)

lemma slowtmr_keepalive_keeps: "post (slowtmr_keepalive e cx h c) (\<lambda>(r, c', h'). keeps_pcb c c')"
  by (simp add: slowtmr_keepalive_def)
    ((rule tcp_keepalive_sends [THEN post_mono] post_rules
      | clarsimp | ((drule sends_keeps)+, simp add: keeps_pcb_def pcb_ok_def) | simp add: keeps_pcb_def pcb_ok_def)+)

lemma slowtmr_pcb_keeps: "post (slowtmr_pcb e cx h c) (\<lambda>(r, c', h'). keeps_pcb c c')"
  by (simp add: slowtmr_pcb_def Let_def)
    ((rule slowtmr_persist_keeps [THEN post_mono] slowtmr_rexmit_keeps [THEN post_mono] slowtmr_keepalive_keeps [THEN post_mono]
        tcp_free_ooseq_keeps [THEN post_mono] post_rules
      | clarsimp | simp add: keeps_pcb_def pcb_ok_def)+)

lemma tcp_write_commit_sends: "post (tcp_write_commit od h c arg len f w pu q ov sgs) (\<lambda>(err, c', h'). sends c c')"
  by (simp add: tcp_write_commit_def Let_def) ((rule post_rules | clarsimp | simp add: sends_def)+)

lemma tcp_write_sends: "post (tcp_write od h c arg len f) (\<lambda>(err, c', h'). sends c c')"
  by (simp add: tcp_write_def Let_def)
    ((rule tcp_write_checks_sends [THEN post_mono] tcp_write_commit_sends [THEN post_mono] post_rules | clarsimp | simp add: sends_def)+)

section \<open>The invariant\<close>

text \<open>\<open>tcp_holds s i P\<close>: the pcb \<open>i\<close> exists and has the property \<open>P\<close>.\<close>

definition tcp_holds :: "tcp_globals \<Rightarrow> (tcp_pcb \<Rightarrow> bool) \<Rightarrow> nat \<Rightarrow> bool" where
  "tcp_holds s P i \<longleftrightarrow> (case tcp_at s i of None \<Rightarrow> False | Some c \<Rightarrow> P c)"

definition lists_ok :: "tcp_globals \<Rightarrow> bool" where
  "lists_ok s \<longleftrightarrow>
     list_all (tcp_holds s live) (tcp_active_pcbs s)
   \<and> list_all (tcp_holds s (\<lambda>c. t_state c = TIME_WAIT)) (tcp_tw_pcbs s)
   \<and> list_all (tcp_holds s (\<lambda>c. t_state c = CLOSED \<and> t_local_port c \<noteq> 0)) (tcp_bound_pcbs s)
   \<and> list_all (\<lambda>l. case lpcb_at s l of None \<Rightarrow> False | Some lp \<Rightarrow> l_state lp = LISTEN) (tcp_listen_pcbs s)
   \<and> distinct (tcp_active_pcbs s) \<and> distinct (tcp_tw_pcbs s) \<and> distinct (tcp_bound_pcbs s) \<and> distinct (tcp_listen_pcbs s)"

definition pcbs_ok :: "tcp_globals \<Rightarrow> bool" where
  "pcbs_ok s \<longleftrightarrow> (\<forall>i c. tcp_at s i = Some c \<longrightarrow> i < next_tcp s \<and> t_state c \<noteq> LISTEN \<and> pcb_ok c \<and> lpcb_at s i = None)
     \<and> (\<forall>l lp. lpcb_at s l = Some lp \<longrightarrow> l < next_tcp s)"

definition tcp_inv :: "tcp_globals \<Rightarrow> bool" where
  "tcp_inv s \<longleftrightarrow> lists_ok s \<and> pcbs_ok s"

text \<open>
  What the code relies on in callbacks: a connection may be freed but is not closed behind its back, nor moved to \<^verbatim>\<open>TIME-WAIT\<close>.
\<close>

definition rely :: "tcp_globals \<Rightarrow> tcp_globals \<Rightarrow> bool" where
  "rely s s' \<longleftrightarrow> next_tcp s \<le> next_tcp s' \<and> (\<forall>i c'. i < next_tcp s \<longrightarrow> tcp_at s' i = Some c' \<longrightarrow>
     (\<exists>c. tcp_at s i = Some c \<and> (live c \<longrightarrow> live c') \<and> (t_state c = TIME_WAIT \<longrightarrow> t_state c' = TIME_WAIT)))"

definition good :: "tcp_globals \<Rightarrow> tcp_globals \<Rightarrow> bool" where
  "good s s' \<longleftrightarrow> tcp_inv s' \<and> rely s s'"

lemma rely_refl [simp]: "rely s s"
  by (simp add: rely_def)

lemma rely_trans: "rely a b \<Longrightarrow> rely b c \<Longrightarrow> rely a c"
  unfolding rely_def by (metis (no_types, lifting) order_trans order_less_le_trans)

lemma good_refl: "good s s = tcp_inv s"
  by (simp add: good_def)

lemma good_trans: "good a b \<Longrightarrow> good b c \<Longrightarrow> good a c"
  by (auto simp: good_def intro: rely_trans)

lemma good_inv: "good a b \<Longrightarrow> tcp_inv b"
  by (simp add: good_def)

lemma get_tcp_post [simp]: "post (get_tcp s i) Q = (\<forall>c. tcp_at s i = Some c \<longrightarrow> Q c)"
  by (simp add: get_tcp_def post_def split: option.split)

lemma get_lpcb_post [simp]: "post (get_lpcb s i) Q = (\<forall>l. lpcb_at s i = Some l \<longrightarrow> Q l)"
  by (simp add: get_lpcb_def post_def split: option.split)

lemma pcb_state_post [simp]:
  "post (pcb_state s i) Q = ((\<forall>c. tcp_at s i = Some c \<longrightarrow> Q (t_state c)) \<and> (\<forall>l. tcp_at s i = None \<longrightarrow> lpcb_at s i = Some l \<longrightarrow> Q (l_state l)))"
  by (simp add: pcb_state_def post_def split: option.split)

text \<open>Changes of fields that the invariant does not mention.\<close>

definition view :: "tcp_globals \<Rightarrow> _" where
  "view s = (tcp_at s, lpcb_at s, tcp_listen_pcbs s, tcp_bound_pcbs s, tcp_active_pcbs s, tcp_tw_pcbs s, next_tcp s)"

lemma view_upd [simp]:
  "view (s\<lparr>theap := h\<rparr>) = view s" "view (s\<lparr>t_timers := tm\<rparr>) = view s" "view (s\<lparr>t_in := t\<rparr>) = view s" "view (s\<lparr>tcp_port := pt\<rparr>) = view s"
  "view (s\<lparr>tcp_ticks := k\<rparr>) = view s" "view (s\<lparr>tcp_timer := b\<rparr>) = view s" "view (s\<lparr>tcp_timer_ctr := b\<rparr>) = view s"
  "view (s\<lparr>tcp_active_pcbs_changed := f\<rparr>) = view s" "view (s\<lparr>tcp_iss := k\<rparr>) = view s" "view (s\<lparr>tcp_input_pcb := ip\<rparr>) = view s"
  "view (s\<lparr>t_netifs := nf\<rparr>) = view s"
  by (simp_all add: view_def)

lemma view_eqD:
  assumes "view s' = view s"
  shows "tcp_inv s' = tcp_inv s" "rely x s' = rely x s" "rely s' y = rely s y" "tcp_at s' = tcp_at s" "tcp_active_pcbs s' = tcp_active_pcbs s"
  using assms by (auto simp: view_def tcp_inv_def lists_ok_def pcbs_ok_def rely_def tcp_holds_def [abs_def])

lemma good_view: "good a b \<Longrightarrow> view b' = view b \<Longrightarrow> good a b'"
  using view_eqD [of b' b] by (simp add: good_def)

section \<open>Steps\<close>

text \<open>A pcb is changed and stays what it was as far as the lists are concerned.\<close>

definition fits :: "tcp_pcb \<Rightarrow> tcp_pcb \<Rightarrow> bool" where
  "fits c c' \<longleftrightarrow> (live c' \<longleftrightarrow> live c) \<and> (t_state c' = TIME_WAIT \<longleftrightarrow> t_state c = TIME_WAIT) \<and> (t_state c' = CLOSED \<longleftrightarrow> t_state c = CLOSED)
     \<and> (t_local_port c \<noteq> 0 \<longrightarrow> t_local_port c' \<noteq> 0) \<and> (pcb_ok c \<longrightarrow> pcb_ok c')"

lemma keeps_fits: "keeps_pcb c c' \<Longrightarrow> fits c c'"
  by (simp add: keeps_pcb_def fits_def live_def)

lemma inv_pcb: "tcp_inv s \<Longrightarrow> tcp_at s i = Some c \<Longrightarrow> t_state c \<noteq> LISTEN \<and> pcb_ok c \<and> i < next_tcp s"
  by (simp add: tcp_inv_def pcbs_ok_def)

lemma not_listen: "t_state c \<noteq> LISTEN \<Longrightarrow> fits c c' \<Longrightarrow> t_state c' \<noteq> LISTEN"
  by (auto simp: fits_def live_def)

lemma tcp_holds_upd: "tcp_holds (s\<lparr>tcp_at := m\<rparr>) P i \<longleftrightarrow> (case m i of None \<Rightarrow> False | Some c \<Rightarrow> P c)"
  by (simp add: tcp_holds_def)

lemma set_tcp_fields [simp]:
  "tcp_active_pcbs (set_tcp s i c) = tcp_active_pcbs s" "tcp_tw_pcbs (set_tcp s i c) = tcp_tw_pcbs s"
  "tcp_bound_pcbs (set_tcp s i c) = tcp_bound_pcbs s" "tcp_listen_pcbs (set_tcp s i c) = tcp_listen_pcbs s"
  "lpcb_at (set_tcp s i c) = lpcb_at s" "next_tcp (set_tcp s i c) = next_tcp s" "tcp_at (set_tcp s i c) = (tcp_at s)(i \<mapsto> c)"
  "theap (set_tcp s i c) = theap s" "t_in (set_tcp s i c) = t_in s" "t_netifs (set_tcp s i c) = t_netifs s"
  by (simp_all add: set_tcp_def)

lemma set_good:
  assumes "tcp_inv s" and "tcp_at s i = Some c" and "fits c c'"
  shows "good s (set_tcp s i c')"
proof -
  have h: "tcp_holds s P j \<Longrightarrow> (P c \<Longrightarrow> P c') \<Longrightarrow> tcp_holds (set_tcp s i c') P j" for P j
    using assms(2) by (auto simp: tcp_holds_def set_tcp_def split: if_splits option.splits)
  have "lists_ok (set_tcp s i c')"
    using assms by (auto simp: tcp_inv_def lists_ok_def fits_def list_all_iff intro!: h)
  moreover have "pcbs_ok (set_tcp s i c')"
    using assms inv_pcb [OF assms(1,2)] not_listen [OF _ assms(3)] by (auto simp: tcp_inv_def pcbs_ok_def set_tcp_def fits_def)
  moreover have "rely s (set_tcp s i c')"
    using assms by (auto simp: rely_def set_tcp_def fits_def)
  ultimately show ?thesis by (simp add: good_def tcp_inv_def)
qed

lemma on_pcb_good:
  assumes "tcp_inv s" and "\<And>cx h c. tcp_at s i = Some c \<Longrightarrow> post (f cx h c) (\<lambda>(r, c', h'). fits c c')"
  shows "post (on_pcb s i f) (\<lambda>(r, s'). good s s')"
proof -
  have "good s ((set_tcp s i c')\<lparr>theap := h'\<rparr>)" if "tcp_at s i = Some c" "fits c c'" for c c' h'
    by (rule good_view [OF set_good [OF assms(1) that]]) simp
  then show ?thesis
    by (auto simp: on_pcb_def intro!: assms(2) [THEN post_mono])
qed

lemma upd_pcb_good:
  assumes "tcp_inv s" and "\<And>c. tcp_at s i = Some c \<Longrightarrow> fits c (f c)"
  shows "post (upd_pcb s i f) (good s)"
  using set_good [OF assms(1)] assms(2) by (auto simp: upd_pcb_def)

lemma rmv_fields [simp]:
  "tcp_at (TCP_RMV l s i) = tcp_at s" "lpcb_at (TCP_RMV l s i) = lpcb_at s" "next_tcp (TCP_RMV l s i) = next_tcp s"
  "theap (TCP_RMV l s i) = theap s" "t_in (TCP_RMV l s i) = t_in s"
  by (cases l; simp add: TCP_RMV_def)+

lemma rmv_good: "tcp_inv s \<Longrightarrow> good s (TCP_RMV l s i)"
proof -
  assume inv: "tcp_inv s"
  have "lists_ok (TCP_RMV l s i)"
    using inv by (cases l) (auto simp: TCP_RMV_def tcp_inv_def lists_ok_def list_all_iff tcp_holds_def dest: notin_set_remove1)
  then show ?thesis using inv by (auto simp: good_def tcp_inv_def pcbs_ok_def rely_def)
qed

definition unlisted :: "nat \<Rightarrow> tcp_globals \<Rightarrow> bool" where
  "unlisted i s \<longleftrightarrow> i \<notin> set (tcp_active_pcbs s) \<and> i \<notin> set (tcp_tw_pcbs s) \<and> i \<notin> set (tcp_bound_pcbs s)"

definition without :: "nat \<Rightarrow> tcp_globals \<Rightarrow> tcp_globals" where
  "without i s = s\<lparr>tcp_at := (tcp_at s)(i := None)\<rparr>"

text \<open>A pcb is about to be freed: nothing is promised of it any more, except that it is on no list.\<close>

definition good_but :: "nat \<Rightarrow> tcp_globals \<Rightarrow> tcp_globals \<Rightarrow> bool" where
  "good_but i s s' \<longleftrightarrow> tcp_inv s' \<and> unlisted i s' \<and> rely s (without i s')"

lemma without_inv: "tcp_inv s \<Longrightarrow> unlisted i s \<Longrightarrow> tcp_inv (without i s)"
  by (auto simp: tcp_inv_def lists_ok_def pcbs_ok_def unlisted_def without_def list_all_iff tcp_holds_def split: if_splits)

lemma without_rely: "rely s s' \<Longrightarrow> rely s (without i s')"
  by (auto simp: rely_def without_def)

lemma good_good_but: "good s s' \<Longrightarrow> unlisted i s' \<Longrightarrow> good_but i s s'"
  by (simp add: good_def good_but_def without_rely)

lemma tcp_free_good: "good_but i s s' \<Longrightarrow> post (tcp_free s' i) (good s)"
  using without_inv [of s' i] by (simp add: tcp_free_def good_but_def good_def flip: without_def)

lemma good_but_set:
  assumes "good_but i s s'" and "tcp_at s' i = Some c" and "pcb_ok c'" and "t_state c' \<noteq> LISTEN"
  shows "good_but i s (set_tcp s' i c')"
proof -
  have "tcp_inv (set_tcp s' i c')"
    using assms by (auto simp: good_but_def tcp_inv_def lists_ok_def pcbs_ok_def unlisted_def list_all_iff tcp_holds_def)
  then show ?thesis using assms(1) by (auto simp: good_but_def unlisted_def without_def set_tcp_def)
qed

lemma view_without: "view b' = view b \<Longrightarrow> view (without i b') = view (without i b)"
  by (simp add: view_def without_def)

lemma good_but_view:
  assumes "good_but i a b" and "view b' = view b"
  shows "good_but i a b'"
  using assms(1) view_eqD(1) [OF assms(2)] view_eqD(2) [OF view_without [OF assms(2)]] assms(2)
  by (simp add: good_but_def unlisted_def view_def)

lemma live_unlisted: "tcp_inv s \<Longrightarrow> tcp_at s i = Some c \<Longrightarrow> live c \<Longrightarrow> unlisted i (TCP_RMV L_active s i)"
  by (auto simp: tcp_inv_def lists_ok_def unlisted_def TCP_RMV_def list_all_iff tcp_holds_def live_def)

lemma tw_unlisted: "tcp_inv s \<Longrightarrow> tcp_at s i = Some c \<Longrightarrow> t_state c = TIME_WAIT \<Longrightarrow> unlisted i (TCP_RMV L_tw s i)"
  by (auto simp: tcp_inv_def lists_ok_def unlisted_def TCP_RMV_def list_all_iff tcp_holds_def live_def)

lemma closed_unlisted:
  "tcp_inv s \<Longrightarrow> tcp_at s i = Some c \<Longrightarrow> t_state c = CLOSED \<Longrightarrow> unlisted i (if t_local_port c \<noteq> 0 then TCP_RMV L_bound s i else s)"
  by (auto simp: tcp_inv_def lists_ok_def unlisted_def TCP_RMV_def list_all_iff tcp_holds_def live_def)

text \<open>\<^verbatim>\<open>tcp_pcb_remove\<close> ends with the assertion \<^verbatim>\<open>tcp_pcbs_sane\<close>, so that the closed pcb is not on either list.\<close>

lemma tcp_pcb_remove_good:
  assumes inv: "tcp_inv s" and at: "tcp_at s i = Some c" and st: "t_state c \<noteq> CLOSED"
  shows "post (tcp_pcb_remove e l s i) (\<lambda>s'. good_but i s s' \<and> (\<exists>c'. tcp_at s' i = Some c' \<and> t_state c' = CLOSED))"
proof -
  let ?r = "TCP_RMV l s i"
  have r: "tcp_inv ?r" "rely s ?r" using rmv_good [OF inv, of l i] by (simp_all add: good_def)
  have b: "i \<notin> set (tcp_bound_pcbs ?r)" using inv at st
    by (cases l) (auto simp: tcp_inv_def lists_ok_def TCP_RMV_def list_all_iff tcp_holds_def)
  let ?s = "\<lambda>c' h. (set_tcp ?r i (c'\<lparr>t_state := CLOSED, t_local_port := 0\<rparr>))\<lparr>theap := h\<rparr>"
  have main: "good_but i s (?s c' h)" if k: "keeps_pcb c c'" and sane: "tcp_pcbs_sane (?s c' h)" for c' h
  proof -
    have "i \<notin> set (tcp_active_pcbs ?r)" "i \<notin> set (tcp_tw_pcbs ?r)"
      using sane by (auto simp: tcp_pcbs_sane_def list_all_iff)
    then have "good_but i s ?r" using r b by (simp add: good_but_def unlisted_def without_rely)
    then have "good_but i s (set_tcp ?r i (c'\<lparr>t_state := CLOSED, t_local_port := 0\<rparr>))"
      by (rule good_but_set) (use at inv_pcb [OF inv at] k in \<open>auto simp: keeps_pcb_def pcb_ok_def\<close>)
    then show ?thesis by (rule good_but_view) simp
  qed
  show ?thesis
    by (simp add: tcp_pcb_remove_def on_pcb_def at)
      ((rule tcp_pcb_purge_keeps [THEN post_mono] tcp_output_sends [THEN post_mono] post_rules | clarsimp
        | (rule main, (drule sends_keeps)?, simp add: keeps_pcb_def pcb_ok_def, assumption))+)
qed

end
