(* ===== verification/Tcp_Lists.thy ===== *)
theory Tcp_Lists
  imports Tcp_Inv Tcp_Rules
begin

text \<open>
  The operations of \<^verbatim>\<open>core/tcp.c\<close> that move pcbs between the lists or free them keep the invariant: registering and removing,
  closing, aborting and allocating, with the callbacks that they make.
\<close>

section \<open>Closing and callbacks\<close>

lemma good_iff: "view b' = view b \<Longrightarrow> good a b' = good a b"
  using view_eqD [of b' b] by (simp add: good_def)

lemma trigger_view [simp]: "view (tcp_trigger_input_pcb_close s) = view s"
  by (simp add: tcp_trigger_input_pcb_close_def)

lemma good_upd_fields [simp]:
  "good a (s\<lparr>theap := h\<rparr>) = good a s" "good a (s\<lparr>t_timers := tm\<rparr>) = good a s" "good a (s\<lparr>t_in := t\<rparr>) = good a s" "good a (s\<lparr>tcp_port := pt\<rparr>) = good a s"
  "good a (s\<lparr>tcp_ticks := k\<rparr>) = good a s" "good a (s\<lparr>tcp_timer := b\<rparr>) = good a s" "good a (s\<lparr>tcp_timer_ctr := b\<rparr>) = good a s"
  "good a (s\<lparr>tcp_active_pcbs_changed := f\<rparr>) = good a s" "good a (s\<lparr>tcp_iss := k\<rparr>) = good a s" "good a (s\<lparr>tcp_input_pcb := ip\<rparr>) = good a s"
  "good a (tcp_trigger_input_pcb_close s) = good a s"
  by (rule good_iff, simp)+

definition callbacks_ok :: "tcp_env \<Rightarrow> bool" where
  "callbacks_ok e \<longleftrightarrow> (\<forall>s. tcp_inv s \<longrightarrow>
     (\<forall>f arg p err. post (app_accept e f arg p err s) (\<lambda>(r, s'). good s s'))
   \<and> (\<forall>f arg i p err. post (app_recv e f arg i p err s) (\<lambda>(r, s'). good s s'))
   \<and> (\<forall>f arg i n. post (app_sent e f arg i n s) (\<lambda>(r, s'). good s s'))
   \<and> (\<forall>f arg i err. post (app_connected e f arg i err s) (\<lambda>(r, s'). good s s'))
   \<and> (\<forall>f arg i. post (app_poll e f arg i s) (\<lambda>(r, s'). good s s'))
   \<and> (\<forall>f arg err. post (app_err e f arg err s) (good s)))"

lemma TCP_EVENT_ERR_good: "callbacks_ok e \<Longrightarrow> tcp_inv s \<Longrightarrow> post (TCP_EVENT_ERR e s f arg err) (good s)"
  by (simp add: TCP_EVENT_ERR_def callbacks_ok_def good_refl)

lemma TCP_EVENT_SENT_good: "callbacks_ok e \<Longrightarrow> tcp_inv s \<Longrightarrow> post (TCP_EVENT_SENT e s i n) (\<lambda>(r, s'). good s s')"
  by (simp add: TCP_EVENT_SENT_def callbacks_ok_def good_refl)

lemma TCP_EVENT_CONNECTED_good: "callbacks_ok e \<Longrightarrow> tcp_inv s \<Longrightarrow> post (TCP_EVENT_CONNECTED e s i n) (\<lambda>(r, s'). good s s')"
  by (simp add: TCP_EVENT_CONNECTED_def callbacks_ok_def good_refl)

lemma TCP_EVENT_POLL_good: "callbacks_ok e \<Longrightarrow> tcp_inv s \<Longrightarrow> post (TCP_EVENT_POLL e s i) (\<lambda>(r, s'). good s s')"
  by (simp add: TCP_EVENT_POLL_def callbacks_ok_def good_refl)

text \<open>Sending changes the heap, or one pcb in the way \<open>sends\<close> says.\<close>

lemma send_rst_view: "post (send_rst e s c sq ak) (\<lambda>s'. view s' = view s)"
  by (simp add: send_rst_def post_any)

lemma on_pcb_sends:
  assumes "tcp_inv s" and "\<And>cx h c. post (f cx h c) (\<lambda>(r, c', h'). sends c c')"
  shows "post (on_pcb s i f) (\<lambda>(r, s'). good s s')"
  by (rule on_pcb_good [OF assms(1)]) (auto intro!: post_mono [OF assms(2)] keeps_fits sends_keeps)

lemmas on_pcb_output = on_pcb_sends [where f = "tcp_output e" for e, OF _ tcp_output_sends]

lemma purge_fits: "post (bnd (tcp_pcb_purge h c) (\<lambda>(c, h). Inr ((), c, h))) (\<lambda>(r, c', h'). fits c c')"
  by simp (rule tcp_pcb_purge_keeps [THEN post_mono], auto intro: keeps_fits)

lemma on_pcb_purge:
  "tcp_inv s \<Longrightarrow> post (on_pcb s i (\<lambda>cx h c. bnd (tcp_pcb_purge h c) (\<lambda>(c, h). Inr ((), c, h)))) (\<lambda>(r, s'). good s s')"
  by (erule on_pcb_good) (rule purge_fits)

lemma fin_fits:
  assumes "t_state c \<in> {SYN_RCVD, ESTABLISHED, CLOSE_WAIT}" and "sends c c1" and "sends (c1\<lparr>t_state := st\<rparr>) c'" and "st \<in> {LAST_ACK, FIN_WAIT_1}"
  shows "fits c c'"
  using assms sends_keeps [OF assms(2)] sends_keeps [OF assms(3)] by (auto simp: fits_def keeps_pcb_def live_def pcb_ok_def)

lemma tcp_close_shutdown_fin_good: "tcp_inv s \<Longrightarrow> post (tcp_close_shutdown_fin e s i) (\<lambda>(r, s'). good s s')"
  unfolding tcp_close_shutdown_fin_def
  by (erule on_pcb_good, simp)
    ((rule tcp_send_fin_sends [THEN post_mono] tcp_output_sends [THEN post_mono] post_rules | clarsimp
      | (rule fin_fits, simp, assumption, assumption, simp) | (rule keeps_fits, rule sends_keeps, simp add: sends_def) | simp add: fits_def)+)

lemma tcp_remove_listener_good: "tcp_inv s \<Longrightarrow> post (tcp_remove_listener s is l) (good s)"
proof (induction "is" arbitrary: s)
  case (Cons i "is")
  have "post (upd_pcb s i (\<lambda>c. if listener c = Some l then c\<lparr>listener := None\<rparr> else c)) (good s)"
    by (rule upd_pcb_good [OF Cons.prems]) (auto intro!: keeps_fits simp: keeps_pcb_def pcb_ok_def)
  then show ?case by (simp) (erule post_mono, rule post_mono, rule Cons.IH, erule good_inv, erule (1) good_trans)
qed (simp add: good_refl)

lemma lpcb_good:
  assumes "tcp_inv s" and "lpcb_at s l = Some lp" and "l \<in> set (tcp_listen_pcbs s) \<longrightarrow> l_state lp' = LISTEN"
  shows "good s (set_lpcb s l lp')"
proof -
  have "tcp_at s l = None" using assms(1,2) by (cases "tcp_at s l") (auto simp: tcp_inv_def pcbs_ok_def)
  then show ?thesis
    using assms by (auto simp: good_def tcp_inv_def lists_ok_def pcbs_ok_def rely_def set_lpcb_def list_all_iff tcp_holds_def)
qed

lemma tcp_pcb_remove_listen_good:
  assumes "tcp_inv s"
  shows "post (tcp_pcb_remove_listen s i) (\<lambda>s'. good s s' \<and> i \<notin> set (tcp_listen_pcbs s'))"
proof -
  have r: "good s (TCP_RMV L_listen s i)" by (rule rmv_good [OF assms])
  have n: "i \<notin> set (tcp_listen_pcbs (TCP_RMV L_listen s i))"
    using assms by (auto simp: TCP_RMV_def tcp_inv_def lists_ok_def)
  have "good s (set_lpcb (TCP_RMV L_listen s i) i lp)" if "lpcb_at s i = Some lp'" for lp lp'
    by (rule good_trans [OF r], rule lpcb_good [OF good_inv [OF r]]) (use n that in auto)
  moreover have "tcp_listen_pcbs (set_lpcb s' i lp) = tcp_listen_pcbs s'" for s' lp by (simp add: set_lpcb_def)
  ultimately show ?thesis using n by (simp add: tcp_pcb_remove_listen_def Let_def)
qed

lemma tcp_free_listen_good:
  "good s s' \<Longrightarrow> i \<notin> set (tcp_listen_pcbs s') \<Longrightarrow> post (tcp_free_listen s' i) (good s)"
  by (auto simp: tcp_free_listen_def good_def tcp_inv_def lists_ok_def pcbs_ok_def rely_def list_all_iff tcp_holds_def)


text \<open>Sequences: what is good from the start on.\<close>

lemma good_ext: "post m (good s) \<Longrightarrow> good s0 s \<Longrightarrow> post m (good s0)"
  by (erule post_mono) (erule (1) good_trans)

lemma good_ext2: "post m (\<lambda>(r, s'). good s s') \<Longrightarrow> good s0 s \<Longrightarrow> post m (\<lambda>(r, s'). good s0 s')"
  by (erule post_mono) (auto intro: good_trans)

lemma good_rst: "good s0 s \<Longrightarrow> post (send_rst e s c sq ak) (good s0)"
  by (rule send_rst_view [THEN post_mono]) (erule good_view)

lemma good_upd: "good s0 s \<Longrightarrow> (\<And>c. tcp_at s i = Some c \<Longrightarrow> fits c (f c)) \<Longrightarrow> post (upd_pcb s i f) (good s0)"
  by (rule good_ext [OF upd_pcb_good]) (auto dest: good_inv)

lemma tcp_listen_closed_good: "tcp_inv s \<Longrightarrow> post (tcp_listen_closed s i) (good s)"
proof -
  assume "tcp_inv s"
  then have "good s s" by (simp add: good_refl)
  then show ?thesis
    by (simp add: tcp_listen_closed_def)
      ((rule tcp_remove_listener_good [THEN good_ext, THEN post_mono] post_rules | erule good_inv | assumption | clarsimp)+)
qed

lemma tcp_close_listen_good:
  assumes "tcp_inv s"
  shows "post (bnd (tcp_listen_closed s i) (\<lambda>s. bnd (tcp_pcb_remove_listen s i) (\<lambda>s. bnd (tcp_free_listen s i) (\<lambda>s. Inr (ERR_OK, s)))))
      (\<lambda>(err, s'). good s s')"
proof -
  have "post (bnd (tcp_pcb_remove_listen s1 i) (\<lambda>s. bnd (tcp_free_listen s i) (\<lambda>s. Inr (ERR_OK, s)))) (\<lambda>(err, s'). good s s')"
    if g: "good s s1" for s1
    by simp (rule post_mono [OF tcp_pcb_remove_listen_good [OF good_inv [OF g]]], elim conjE,
      rule post_mono [OF tcp_free_listen_good], erule good_trans [OF g], assumption, assumption)
  then show ?thesis by (rule post_bnd [OF tcp_listen_closed_good [OF assms]])
qed

text \<open>What is known of a pcb across a callback.\<close>

definition live_at :: "tcp_globals \<Rightarrow> nat \<Rightarrow> bool" where
  "live_at s i \<longleftrightarrow> i < next_tcp s \<and> (\<forall>c. tcp_at s i = Some c \<longrightarrow> live c)"

definition open_at :: "tcp_globals \<Rightarrow> nat \<Rightarrow> bool" where
  "open_at s i \<longleftrightarrow> i < next_tcp s \<and> (\<forall>c. tcp_at s i = Some c \<longrightarrow> t_state c \<noteq> CLOSED)"

lemma live_atI: "good s0 s \<Longrightarrow> tcp_at s i = Some c \<Longrightarrow> live c \<Longrightarrow> live_at s i"
  using inv_pcb [OF good_inv] by (simp add: live_at_def)

lemma open_atI: "good s0 s \<Longrightarrow> tcp_at s i = Some c \<Longrightarrow> t_state c \<noteq> CLOSED \<Longrightarrow> open_at s i"
  using inv_pcb [OF good_inv] by (simp add: open_at_def)

lemma live_open: "live_at s i \<Longrightarrow> open_at s i"
  by (auto simp: live_at_def open_at_def live_def)

lemma good_live: "live_at s i \<Longrightarrow> good s s' \<Longrightarrow> live_at s' i"
  by (fastforce simp: live_at_def good_def rely_def)

lemma good_open: "open_at s i \<Longrightarrow> tcp_inv s \<Longrightarrow> good s s' \<Longrightarrow> open_at s' i"
proof -
  assume o: "open_at s i" and inv: "tcp_inv s" and g: "good s s'"
  have "t_state c' \<noteq> CLOSED" if c': "tcp_at s' i = Some c'" for c'
  proof -
    obtain c where c: "tcp_at s i = Some c" "live c \<longrightarrow> live c'" "t_state c = TIME_WAIT \<longrightarrow> t_state c' = TIME_WAIT"
      using g o c' unfolding good_def rely_def open_at_def by blast
    have "t_state c \<noteq> CLOSED" "t_state c \<noteq> LISTEN" using o inv_pcb [OF inv c(1)] c(1) by (auto simp: open_at_def)
    then show ?thesis using c by (cases "t_state c") (auto simp: live_def)
  qed
  then show ?thesis using o g by (auto simp: open_at_def good_def rely_def)
qed

lemma view_at: "view s' = view s \<Longrightarrow> live_at s' i = live_at s i" "view s' = view s \<Longrightarrow> open_at s' i = open_at s i"
  by (simp_all add: view_def live_at_def open_at_def)

lemma good_but_ext: "good_but i s s' \<Longrightarrow> good s0 s \<Longrightarrow> good_but i s0 s'"
  by (auto simp: good_but_def good_def intro: rely_trans)

lemma rmv_active_good: "good s0 s \<Longrightarrow> good s0 (TCP_RMV_ACTIVE s i)"
proof -
  assume g: "good s0 s"
  have "good s0 (TCP_RMV L_active s i)" by (rule good_trans [OF g rmv_good [OF good_inv [OF g]]])
  then show ?thesis unfolding TCP_RMV_ACTIVE_def by (rule good_view) simp
qed

lemma none_unlisted: "tcp_inv s \<Longrightarrow> tcp_at s i = None \<Longrightarrow> unlisted i s"
  by (auto simp: tcp_inv_def lists_ok_def unlisted_def list_all_iff tcp_holds_def)

lemma rmv_active_but:
  assumes "good s0 s" and "live_at s i"
  shows "good_but i s0 (TCP_RMV L_active s i)" "good_but i s0 (TCP_RMV_ACTIVE s i)"
proof -
  have inv: "tcp_inv s" and g: "good s0 (TCP_RMV L_active s i)"
    using assms(1) good_trans [OF assms(1) rmv_good] good_inv by blast+
  have "unlisted i (TCP_RMV L_active s i)"
    using none_unlisted [OF good_inv [OF g], of i] live_unlisted [OF inv, of i] assms(2) by (cases "tcp_at s i") (auto simp: live_at_def)
  then show b: "good_but i s0 (TCP_RMV L_active s i)" by (rule good_good_but [OF g])
  show "good_but i s0 (TCP_RMV_ACTIVE s i)" unfolding TCP_RMV_ACTIVE_def by (rule good_but_view [OF b]) simp
qed

lemma rmv_tw_but:
  assumes "good s0 s" and "tcp_at s i = Some c" and "t_state c = TIME_WAIT"
  shows "good_but i s0 (TCP_RMV L_tw s i)"
proof (rule good_good_but)
  show "good s0 (TCP_RMV L_tw s i)" by (rule good_trans [OF assms(1) rmv_good [OF good_inv [OF assms(1)]]])
qed (rule tw_unlisted [OF good_inv [OF assms(1)] assms(2,3)])

lemma closed_but:
  assumes "good s0 s" and "tcp_at s i = Some c" and "t_state c = CLOSED"
  shows "t_local_port c = 0 \<Longrightarrow> good_but i s0 s" "t_local_port c \<noteq> 0 \<Longrightarrow> good_but i s0 (TCP_RMV L_bound s i)"
  using closed_unlisted [OF good_inv [OF assms(1)] assms(2,3)] assms(1) good_trans [OF assms(1) rmv_good [OF good_inv [OF assms(1)]]]
  by (simp_all add: good_good_but)

lemma tcp_pcb_remove_but: "good s0 s \<Longrightarrow> open_at s i \<Longrightarrow> post (tcp_pcb_remove e l s i) (good_but i s0)"
proof (cases "tcp_at s i")
  case None
  then show ?thesis by (simp add: tcp_pcb_remove_def on_pcb_def)
next
  case (Some c)
  assume "good s0 s" "open_at s i"
  then show ?thesis
    using tcp_pcb_remove_good [OF good_inv Some, of s0 e l] Some good_but_ext by (fastforce simp: open_at_def elim: post_mono)
qed

lemma remove_active_but: "good s0 s \<Longrightarrow> open_at s i \<Longrightarrow> post (TCP_PCB_REMOVE_ACTIVE e s i) (good_but i s0)"
  by (simp add: TCP_PCB_REMOVE_ACTIVE_def) (rule post_mono [OF tcp_pcb_remove_but], assumption, assumption, erule good_but_view, simp)

lemma tcp_close_shutdown_good:
  assumes inv: "tcp_inv s"
  shows "post (tcp_close_shutdown e s i r) (\<lambda>(err, s'). good s s')"
proof -
  have g: "good s s" using inv by (simp add: good_refl)
  have reset: "post (bnd (send_rst e s c sq ak) (\<lambda>s.
        bnd (on_pcb s i (\<lambda>cx h c. bnd (tcp_pcb_purge h c) (\<lambda>(c, h). Inr ((), c, h)))) (\<lambda>(_, s).
        let s = TCP_RMV_ACTIVE s i in
        bnd (if tcp_input_pcb s = Some i then Inr (tcp_trigger_input_pcb_close s) else tcp_free s i) (\<lambda>s. Inr (ERR_OK, s)))))
      (\<lambda>(err, s'). good s s')" if "live_at s i" for c sq ak
    using g by (simp add: Let_def)
      ((rule good_rst [THEN post_mono] on_pcb_purge [THEN good_ext2, THEN post_mono] tcp_free_good rmv_active_but rmv_active_good post_rules
        | assumption | erule good_inv | (rule good_live [OF that], assumption) | clarsimp)+)
  have closed: "post (bnd (tcp_free (if t_local_port c \<noteq> 0 then TCP_RMV L_bound s i else s) i) (\<lambda>s. Inr (ERR_OK, s))) (\<lambda>(err, s'). good s s')"
    if "tcp_at s i = Some c" "t_state c = CLOSED" for c
    using closed_but [OF g that] by (simp add: tcp_free_good)
  have syn: "post (bnd (TCP_PCB_REMOVE_ACTIVE e s i) (\<lambda>s. bnd (tcp_free s i) (\<lambda>s. Inr (ERR_OK, s)))) (\<lambda>(err, s'). good s s')" if "open_at s i"
    by simp (rule remove_active_but [OF g that, THEN post_mono], erule tcp_free_good)
  show ?thesis
    unfolding tcp_close_shutdown_def
    apply (rule post_bnd [where P = "\<lambda>st. \<forall>c. tcp_at s i = Some c \<longrightarrow> st = t_state c"], simp)
    apply (simp only: post_split(1), intro conjI impI)
     apply (rule tcp_close_listen_good [OF inv])
    apply (rule post_bnd [where P = "\<lambda>c. tcp_at s i = Some c"], simp)
    apply (simp only: post_split(1) post_simps(4), intro conjI impI)
       apply (rule reset, rule live_atI [OF g], assumption, force simp: live_def)
      apply (rule closed, assumption, simp)
     apply (rule syn, rule open_atI [OF g], assumption, simp)
    apply (rule tcp_close_shutdown_fin_good [OF inv])
    done
qed

lemma fits_upd [simp]:
  "fits c (tcp_set_flags c f)" "fits c (tcp_clear_flags c f)" "fits c (c\<lparr>refused_data := r\<rparr>)" "fits c c" "fits c (c\<lparr>tmr := x\<rparr>)"
  "fits c (c\<lparr>last_timer := b\<rparr>)" "fits c (c\<lparr>polltmr := b\<rparr>)" "fits c (tcp_ack_now c)"
  by (simp_all add: fits_def live_def pcb_ok_def tcp_set_flags_def tcp_clear_flags_def tcp_ack_now_def)

lemma good_set: "good s0 s \<Longrightarrow> tcp_at s i = Some c \<Longrightarrow> fits c c' \<Longrightarrow> good s0 (set_tcp s i c')"
  by (rule good_trans, assumption, rule set_good) (auto dest: good_inv)

text \<open>Rules for proofs that carry \<open>good s0 s\<close> from one operation to the next.\<close>

lemma carry1: "(tcp_inv s \<Longrightarrow> post m (good s)) \<Longrightarrow> good s0 s \<Longrightarrow> post m (good s0)"
  using good_ext good_inv by blast

lemma carry2: "(tcp_inv s \<Longrightarrow> post m (\<lambda>(r, s'). good s s')) \<Longrightarrow> good s0 s \<Longrightarrow> post m (\<lambda>(r, s'). good s0 s')"
  using good_ext2 good_inv by blast

lemmas shutdown_carry = carry2 [OF tcp_close_shutdown_good]

lemma on_pcb_carry:
  "good s0 s \<Longrightarrow> (\<And>cx h c. tcp_at s i = Some c \<Longrightarrow> post (f cx h c) (\<lambda>(r, c', h'). fits c c')) \<Longrightarrow> post (on_pcb s i f) (\<lambda>(r, s'). good s0 s')"
  by (rule carry2) (rule on_pcb_good)

lemma tcp_close_good: "good s0 s \<Longrightarrow> post (tcp_close e s pcb) (\<lambda>(err, s'). good s0 s')"
  by (simp add: tcp_close_def)
    ((assumption | rule conjI impI allI good_upd [THEN post_mono] shutdown_carry fits_upd | clarsimp)+)

lemma tcp_shutdown_good: "good s0 s \<Longrightarrow> post (tcp_shutdown e s pcb rx tx) (\<lambda>(err, s'). good s0 s')"
  by (simp add: tcp_shutdown_def)
    ((assumption | rule conjI impI allI good_upd [THEN post_mono] shutdown_carry on_pcb_carry [THEN post_mono] fits_upd | clarsimp | rule post_any)+)

lemma on_pcb_same:
  assumes "\<And>cx h c. post (f cx h c) (\<lambda>(r, c', h'). c' = c)"
  shows "post (on_pcb s i f) (\<lambda>(r, s'). view s' = view s)"
  by (auto simp: on_pcb_def view_def fun_upd_idem intro!: post_mono [OF assms])

text \<open>The last part of \<^verbatim>\<open>tcp_abandon\<close>, for a pcb that is on no list any more.\<close>

lemma abandon_free_good:
  assumes cb: "callbacks_ok e" and "good_but i s0 s"
  shows "post (bnd (on_pcb s i (\<lambda>cx h c. bnd (tcp_segs_free h (unacked c)) (\<lambda>h. bnd (tcp_segs_free h (unsent c)) (\<lambda>h.
      bnd (tcp_segs_free h (ooseq c)) (\<lambda>h. Inr ((), c, h)))))) (\<lambda>(_, s).
      bnd (if b then send_rst e s c sq ak else Inr s) (\<lambda>s. bnd (tcp_free s i) (\<lambda>s. TCP_EVENT_ERR e s f arg err)))) (good s0)"
proof (rule post_bnd)
  show "post (on_pcb s i (\<lambda>cx h c. bnd (tcp_segs_free h (unacked c)) (\<lambda>h. bnd (tcp_segs_free h (unsent c)) (\<lambda>h.
      bnd (tcp_segs_free h (ooseq c)) (\<lambda>h. Inr ((), c, h)))))) (\<lambda>(r, s'). good_but i s0 s')"
    by (rule post_mono [OF on_pcb_same]) (use assms(2) in \<open>auto intro: good_but_view post_any\<close>)
  have fin: "post (bnd (tcp_free s i) (\<lambda>s. TCP_EVENT_ERR e s f arg err)) (good s0)" if "good_but i s0 s" for s
    by (rule post_bnd [OF tcp_free_good [OF that]], rule carry1 [OF TCP_EVENT_ERR_good [OF cb]])
  show "post (case x of (_, s) \<Rightarrow> bnd (if b then send_rst e s c sq ak else Inr s) (\<lambda>s. bnd (tcp_free s i) (\<lambda>s. TCP_EVENT_ERR e s f arg err))) (good s0)"
    if x: "case x of (r, s') \<Rightarrow> good_but i s0 s'" for x
  proof -
    obtain r s where [simp]: "x = (r, s)" by (cases x)
    have "post (if b then send_rst e s c sq ak else Inr s) (good_but i s0)"
      using x by (auto intro!: post_mono [OF send_rst_view] elim: good_but_view)
    then show ?thesis unfolding \<open>x = (r, s)\<close> prod.case by (rule post_bnd) (rule fin)
  qed
qed

lemma pcb_state_bnd:
  "(\<And>st. (\<And>c. tcp_at s i = Some c \<Longrightarrow> st = t_state c) \<Longrightarrow> post (f st) Q) \<Longrightarrow> post (bnd (pcb_state s i) f) Q"
  by auto

lemma get_tcp_bnd: "(\<And>c. tcp_at s i = Some c \<Longrightarrow> post (f c) Q) \<Longrightarrow> post (bnd (get_tcp s i) f) Q"
  by simp

lemma if_post: "(b \<Longrightarrow> post m Q) \<Longrightarrow> (\<not> b \<Longrightarrow> post n Q) \<Longrightarrow> post (if b then m else n) Q"
  by simp

lemma assert_post: "(b \<Longrightarrow> post m Q) \<Longrightarrow> post (lwip_assert b m) Q"
  by simp

lemma some_post: "(\<And>i. v = Some i \<Longrightarrow> post (f i) Q) \<Longrightarrow> post (case v of None \<Rightarrow> Inl x | Some i \<Rightarrow> f i) Q"
  by simp

text \<open>Rules that take a goal apart without simplification.\<close>

lemmas steps = pcb_state_bnd get_tcp_bnd if_post assert_post some_post

lemma tcp_abandon_good: "callbacks_ok e \<Longrightarrow> good s0 s \<Longrightarrow> post (tcp_abandon e s pcb r) (good s0)"
proof -
  assume cb: "callbacks_ok e" and g: "good s0 s"
  have tw: "post (bnd (tcp_pcb_remove e L_tw s i) (\<lambda>s. tcp_free s i)) (good s0)" if "open_at s i" for i
    by (rule post_bnd [OF tcp_pcb_remove_but [OF g that]]) (rule tcp_free_good)
  have unlist: "post (if st = CLOSED then Inr (if t_local_port c \<noteq> 0 then TCP_RMV L_bound s i else s) else TCP_PCB_REMOVE_ACTIVE e s i) (good_but i s0)"
    if "tcp_at s i = Some c" "st = t_state c" for i c st
    using closed_but [OF g that(1)] remove_active_but [OF g open_atI [OF g that(1)]] that(2) by simp
  show ?thesis
    unfolding tcp_abandon_def
    by (intro steps, rule tw, rule open_atI [OF g], assumption, force)
      (rule post_bnd, rule unlist, assumption, blast, rule abandon_free_good [OF cb], assumption)
qed

lemma recved_fits:
  "post (let w = rcv_wnd c + len; c = c\<lparr>rcv_wnd := (if w > TCP_WND \<or> w < rcv_wnd c then TCP_WND else w)\<rparr> in
      bnd (tcp_update_rcv_ann_wnd c) (\<lambda>(wnd_inflation, c).
      if wnd_inflation \<ge> TCP_WND_UPDATE_THRESHOLD
      then bnd (tcp_output e cx h (tcp_ack_now c)) (\<lambda>(_, c, h). Inr ((), c, h)) else Inr ((), c, h))) (\<lambda>(r, c', h'). fits c c')"
proof -
  obtain w where w: "(if rcv_wnd c + len > TCP_WND \<or> rcv_wnd c + len < rcv_wnd c then TCP_WND else rcv_wnd c + len) = w" "w \<le> TCP_WND"
    by (auto simp: not_less)
  have f: "fits c c1" if "keeps_pcb (c\<lparr>rcv_wnd := w, rcv_ann_wnd := a\<rparr>) c1" for a c1
    using that w(2) by (auto simp: fits_def keeps_pcb_def pcb_ok_def live_def)
  have ack: "sends (tcp_ack_now c1) c2 \<Longrightarrow> keeps_pcb c1 c2" for c1 c2
    by (drule sends_keeps) (simp add: keeps_pcb_def pcb_ok_def tcp_ack_now_def tcp_set_flags_def)
  show ?thesis
    unfolding Let_def w(1)
    by simp ((rule conjI impI allI tcp_update_rcv_ann_wnd_only [THEN post_mono] tcp_output_sends [THEN post_mono] | clarsimp
      | rule f | erule ack | rule keeps_refl)+)
qed

lemma tcp_recved_good: "good s0 s \<Longrightarrow> post (tcp_recved e s pcb n) (good s0)"
  unfolding tcp_recved_def
  by (intro steps, rule post_bnd, rule on_pcb_carry, assumption, rule recved_fits) auto

lemma tcp_abort_good: "callbacks_ok e \<Longrightarrow> good s0 s \<Longrightarrow> post (tcp_abort e s pcb) (good s0)"
  unfolding tcp_abort_def by (rule tcp_abandon_good)

lemma tcp_recv_null_good: "good s0 s \<Longrightarrow> post (tcp_recv_null e s i p err) (\<lambda>(r, s'). good s0 s')"
  by (simp add: tcp_recv_null_def)
    ((assumption | rule conjI impI allI tcp_recved_good [THEN post_mono] tcp_close_good | clarsimp | rule post_any)+)

lemma app_recv_good: "callbacks_ok e \<Longrightarrow> good s0 s \<Longrightarrow> post (app_recv e f arg i p err s) (\<lambda>(r, s'). good s0 s')"
  by (rule carry2) (simp_all add: callbacks_ok_def)

lemma call_recv_good: "callbacks_ok e \<Longrightarrow> good s0 s \<Longrightarrow> post (call_recv e s f arg i p err) (\<lambda>(r, s'). good s0 s')"
  by (cases f) (simp_all add: call_recv_def tcp_recv_null_good app_recv_good)

lemma TCP_EVENT_RECV_good: "callbacks_ok e \<Longrightarrow> good s0 s \<Longrightarrow> post (TCP_EVENT_RECV e s i p err) (\<lambda>(r, s'). good s0 s')"
  by (simp add: TCP_EVENT_RECV_def call_recv_good tcp_recv_null_good)

lemma TCP_EVENT_CLOSED_good: "callbacks_ok e \<Longrightarrow> good s0 s \<Longrightarrow> post (TCP_EVENT_CLOSED e s i) (\<lambda>(r, s'). good s0 s')"
  by (simp add: TCP_EVENT_CLOSED_def call_recv_good)

lemma tcp_accept_null_good: "callbacks_ok e \<Longrightarrow> good s0 s \<Longrightarrow> post (tcp_accept_null e s pcb) (\<lambda>(r, s'). good s0 s')"
  by (simp add: tcp_accept_null_def tcp_abort_good)

lemma app_accept_good: "callbacks_ok e \<Longrightarrow> good s0 s \<Longrightarrow> post (app_accept e f arg p err s) (\<lambda>(r, s'). good s0 s')"
  by (rule carry2) (simp_all add: callbacks_ok_def)

lemma TCP_EVENT_ACCEPT_good: "callbacks_ok e \<Longrightarrow> good s0 s \<Longrightarrow> post (TCP_EVENT_ACCEPT e s l p arg err) (\<lambda>(r, s'). good s0 s')"
  unfolding TCP_EVENT_ACCEPT_def by (auto simp: tcp_accept_null_good app_accept_good split: tcp_accept_fn.split)

lemma fin_delivered_fits: "fits c (tcp_fin_delivered c)"
proof -
  have "rcv_wnd c + 1 \<le> TCP_WND" if "rcv_wnd c \<le> TCP_WND" "rcv_wnd c \<noteq> TCP_WND"
    using that unat_Suc_word [of "rcv_wnd c" "TCP_WND"] by (simp add: word_le_nat_alt word_less_nat_alt word_unat_eq_iff)
  then show ?thesis by (auto simp: tcp_fin_delivered_def fits_def live_def pcb_ok_def)
qed

lemma tcp_process_refused_data_good:
  "callbacks_ok e \<Longrightarrow> good s0 s \<Longrightarrow> post (tcp_process_refused_data e s pcb) (\<lambda>(r, s'). good s0 s')"
  by (simp add: tcp_process_refused_data_def)
    ((assumption | rule conjI impI allI TCP_EVENT_RECV_good [THEN post_mono] TCP_EVENT_CLOSED_good [THEN post_mono] good_upd [THEN post_mono]
       good_set fits_upd fin_delivered_fits | clarsimp | rule post_any)+)

section \<open>Allocation\<close>

lemma tcp_kill_good:
  assumes "callbacks_ok e" and "good s0 s"
  shows "post (tcp_kill_prio e s prio) (good s0)" "post (tcp_kill_state e s st) (good s0)" "post (tcp_kill_timewait e s) (good s0)"
  using assms by (simp_all add: tcp_kill_prio_def tcp_kill_state_def tcp_kill_timewait_def tcp_abort_good tcp_abandon_good Let_def post_any)

lemma need_timer_view: "post (need_timer s) (\<lambda>s'. view s' = view s)"
  by (simp add: need_timer_def post_any)

lemma fin_carry: "good s0 s \<Longrightarrow> post (tcp_close_shutdown_fin e s i) (\<lambda>(r, s'). good s0 s')"
  by (rule carry2) (rule tcp_close_shutdown_fin_good)

lemma tcp_handle_closepend_good: "good s0 s \<Longrightarrow> post (tcp_handle_closepend e s is) (good s0)"
proof (induction "is" arbitrary: s)
  case (Cons i "is")
  show ?case using Cons.prems
    by simp ((assumption | rule conjI impI allI fin_carry [THEN post_mono] Cons.IH good_set fits_upd | clarsimp)+)
qed simp

text \<open>A number that names no pcb yet.\<close>

definition fresh :: "tcp_globals \<Rightarrow> tcp_globals \<Rightarrow> nat option \<Rightarrow> bool" where
  "fresh s0 s r \<longleftrightarrow> (\<forall>i. r = Some i \<longrightarrow> tcp_at s i = None \<and> lpcb_at s i = None \<and> next_tcp s0 \<le> i \<and> i < next_tcp s)"

lemma inv_next: "tcp_inv s \<Longrightarrow> tcp_at s (next_tcp s) = None \<and> lpcb_at s (next_tcp s) = None"
  by (cases "tcp_at s (next_tcp s)"; cases "lpcb_at s (next_tcp s)") (auto simp: tcp_inv_def pcbs_ok_def)

lemma tcp_pcb_malloc_good:
  assumes "good s0 s" and "tcp_pcb_malloc s = (r, s')"
  shows "good s0 s' \<and> fresh s0 s' r"
proof -
  have s': "s' = s\<lparr>next_tcp := Suc (next_tcp s)\<rparr>" using assms(2) by (auto simp: tcp_pcb_malloc_def Let_def)
  have inv: "tcp_inv s" and le: "next_tcp s0 \<le> next_tcp s" using assms(1) by (auto simp: good_def rely_def)
  have "lists_ok s' = lists_ok s" by (simp add: s' lists_ok_def tcp_holds_def [abs_def])
  then have "good s s'" using inv by (auto simp: good_def tcp_inv_def s' pcbs_ok_def rely_def less_Suc_eq)
  then show ?thesis using good_trans [OF assms(1)] inv_next [OF inv] assms(2) le
    by (auto simp: fresh_def tcp_pcb_malloc_def Let_def split: if_splits)
qed

lemma set_new_good:
  assumes "good s0 s" and "fresh s0 s (Some i)" and "pcb_ok c" and "t_state c \<noteq> LISTEN"
  shows "good s0 (set_tcp s i c)"
proof -
  have "lists_ok (set_tcp s i c)" using assms(1,2) by (auto simp: good_def tcp_inv_def lists_ok_def fresh_def list_all_iff tcp_holds_def)
  moreover have "pcbs_ok (set_tcp s i c)" using assms by (auto simp: good_def tcp_inv_def pcbs_ok_def fresh_def)
  ultimately show ?thesis using assms(1,2) by (auto simp: good_def tcp_inv_def rely_def fresh_def)
qed

lemma tcp_alloc_retry_good:
  assumes "\<And>s. good s0 s \<Longrightarrow> post (kill s) (good s0)" and "case r of (i, s) \<Rightarrow> good s0 s \<and> fresh s0 s i"
  shows "post (tcp_alloc_retry kill r) (\<lambda>(i, s'). good s0 s' \<and> fresh s0 s' i)"
  using assms(2) by (auto simp: tcp_alloc_retry_def tcp_pcb_malloc_good intro!: post_mono [OF assms(1)] split: option.split prod.split)

definition new_at :: "tcp_globals \<Rightarrow> tcp_globals \<Rightarrow> nat option \<Rightarrow> bool" where
  "new_at s0 s r \<longleftrightarrow> (\<forall>i. r = Some i \<longrightarrow> next_tcp s0 \<le> i \<and> (\<exists>c. tcp_at s i = Some c \<and> t_state c = CLOSED \<and> t_local_port c = 0))"

lemma tcp_alloc_good:
  assumes cb: "callbacks_ok e" and g: "good s0 s"
  shows "post (tcp_alloc e s prio) (\<lambda>(i, s'). good s0 s' \<and> new_at s0 s' i)"
proof -
  note retry = tcp_alloc_retry_good [where ?s0.0 = s0, THEN post_bnd]
  have kill: "post (bnd (tcp_handle_closepend e s (tcp_active_pcbs s)) (tcp_kill_timewait e)) (good s0)" if "good s0 s" for s
    by (rule post_bnd [OF tcp_handle_closepend_good [OF that]]) (rule tcp_kill_good [OF cb])
  have fin: "post (case r of (None, s) \<Rightarrow> Inr (None, s) | (Some i, s) \<Rightarrow> Inr (Some i, set_tcp s i (new_pcb s prio)))
      (\<lambda>(i, s'). good s0 s' \<and> new_at s0 s' i)" if "case r of (i, s) \<Rightarrow> good s0 s \<and> fresh s0 s i" for r
    using that by (auto simp: new_at_def pcb_ok_def new_pcb_def intro!: set_new_good split: option.split) (auto simp: fresh_def)
  show ?thesis
    unfolding tcp_alloc_def
    by (rule retry, erule kill, use tcp_pcb_malloc_good [OF g] in force, rule retry, erule tcp_kill_good [OF cb], assumption,
       rule retry, erule tcp_kill_good [OF cb], assumption, rule retry, erule tcp_kill_good [OF cb], assumption, rule fin)
qed

end
