(* ===== verification/Tcp_Calls.thy ===== *)
theory Tcp_Calls
  imports Tcp_Lists
begin

text \<open>The calls of the application and the timers keep the invariant: settings, binding, listening, connecting, writing, and \<^verbatim>\<open>tcp_tmr\<close>.\<close>

lemma tcp_configure_good: "good s0 s \<Longrightarrow> (\<And>c. fits c (f c)) \<Longrightarrow> post (tcp_configure f s pcb) (good s0)"
  by (simp add: tcp_configure_def) ((assumption | rule conjI impI allI good_set | clarsimp | simp)+)

lemma fits_set [simp]:
  "fits c (c\<lparr>t_recv := x1\<rparr>)" "fits c (c\<lparr>t_sent := x2\<rparr>)" "fits c (c\<lparr>t_errf := x3\<rparr>)" "fits c (c\<lparr>t_poll := x2, pollinterval := b\<rparr>)"
  "fits c (c\<lparr>t_callback_arg := n\<rparr>)" "fits c (c\<lparr>t_prio := b\<rparr>)" "fits c (c\<lparr>t_netif_idx := b\<rparr>)"
  "fits c (c\<lparr>t_local_ip := a, t_remote_ip := a'\<rparr>)"
  by (simp_all add: fits_def live_def pcb_ok_def)

lemma good_lpcb:
  assumes "good s0 s" and "lpcb_at s l = Some lp" and "l_state lp' = l_state lp"
  shows "good s0 (set_lpcb s l lp')"
proof -
  have "l \<in> set (tcp_listen_pcbs s) \<longrightarrow> l_state lp' = LISTEN"
    using assms by (auto simp: good_def tcp_inv_def lists_ok_def list_all_iff)
  then show ?thesis using good_trans [OF assms(1) lpcb_good [OF good_inv [OF assms(1)] assms(2)]] by blast
qed

lemma tcp_settings_good:
  assumes "good s0 s"
  shows "post (tcp_recv s pcb rf) (good s0)" "post (tcp_sent s pcb sf) (good s0)" "post (tcp_err s pcb ef) (good s0)"
    "post (tcp_poll s pcb pf n) (good s0)" "post (tcp_accept s pcb af) (good s0)" "post (tcp_arg s pcb arg) (good s0)"
    "post (tcp_setprio s pcb prio) (good s0)" "post (tcp_bind_netif s i nif) (good s0)"
  using assms
  by (simp_all add: tcp_recv_def tcp_sent_def tcp_err_def tcp_poll_def tcp_accept_def tcp_arg_def tcp_setprio_def tcp_bind_netif_def
    tcp_configure_good good_set good_lpcb Let_def)

lemma tcp_new_port_view: "view (snd (tcp_new_port s)) = view s"
proof -
  have "view (snd (tcp_new_port_loop s n)) = view s" for n
    by (induction s n rule: tcp_new_port_loop.induct) (subst tcp_new_port_loop.simps, auto simp: Let_def)
  then show ?thesis by (simp add: tcp_new_port_def)
qed

lemma tcp_next_iss_view: "view (snd (tcp_next_iss s)) = view s"
  by (simp add: tcp_next_iss_def Let_def)

lemma new_port_good: "good s0 s \<Longrightarrow> tcp_new_port s = (p, s') \<Longrightarrow> good s0 s' \<and> view s' = view s"
  using tcp_new_port_view [of s] by (auto intro: good_view)

lemma viewD:
  "view s' = view s \<Longrightarrow> tcp_at s' = tcp_at s \<and> lpcb_at s' = lpcb_at s \<and> tcp_bound_pcbs s' = tcp_bound_pcbs s \<and> tcp_active_pcbs s' = tcp_active_pcbs s
    \<and> tcp_tw_pcbs s' = tcp_tw_pcbs s \<and> tcp_listen_pcbs s' = tcp_listen_pcbs s"
  by (simp add: view_def)

lemma reg_good: "good s0 (set_pcb_list l (i # pcb_list l s) s) \<Longrightarrow> post (TCP_REG l s i) (good s0)"
  unfolding TCP_REG_def by (rule if_post, simp, rule post_mono [OF need_timer_view]) (erule good_view)

lemma reg_bound_good:
  assumes "good s0 s" and "tcp_at s i = Some c" and "t_state c = CLOSED" and "t_local_port c = 0" and "fits c c'" and "t_local_port c' \<noteq> 0"
  shows "post (TCP_REG L_bound (set_tcp s i c') i) (good s0)"
proof (rule reg_good)
  let ?s = "set_tcp s i c'"
  have g: "good s0 ?s" by (rule good_set [OF assms(1,2,5)])
  have "i \<notin> set (tcp_bound_pcbs s)" using closed_unlisted [OF good_inv [OF assms(1)] assms(2,3)] assms(4) by (simp add: unlisted_def)
  moreover have "tcp_holds ?s (\<lambda>c. t_state c = CLOSED \<and> t_local_port c \<noteq> 0) i" using assms(3,5,6) by (simp add: tcp_holds_def fits_def)
  ultimately have "lists_ok (set_pcb_list L_bound (i # pcb_list L_bound ?s) ?s)"
    using g by (auto simp: good_def tcp_inv_def lists_ok_def list_all_iff tcp_holds_def)
  then show "good s0 (set_pcb_list L_bound (i # pcb_list L_bound ?s) ?s)"
    using g by (simp add: good_def tcp_inv_def pcbs_ok_def rely_def)
qed

lemma tcp_bind_good:
  assumes g: "good s0 s" and unbound: "\<And>c. tcp_at s i = Some c \<Longrightarrow> t_local_port c = 0"
  shows "post (tcp_bind e s (Some i) ipaddr port) (\<lambda>(err, s'). good s0 s')"
proof -
  obtain q s1 where q: "(if port = 0 then tcp_new_port s else (port, s)) = (q, s1)" by (cases "if port = 0 then tcp_new_port s else (port, s)")
  then have g1: "good s0 s1" and v: "view s1 = view s" using new_port_good [OF g, of q s1] g by (auto split: if_splits)
  note at = viewD [OF v]
  have pq: "port \<noteq> 0 \<Longrightarrow> q \<noteq> 0" using q by auto
  have reg: "post (TCP_REG L_bound (set_tcp s1 i (c\<lparr>t_local_ip := a, t_local_port := q\<rparr>)) i) (good s0)"
    if "tcp_at s1 i = Some c" "t_state c = CLOSED" "q \<noteq> 0" for c a
    by (rule reg_bound_good [OF g1]) (use that at unbound in \<open>auto simp: fits_def live_def pcb_ok_def\<close>)
  show ?thesis
    unfolding tcp_bind_def Let_def option.case q prod.case
    by (intro steps, simp add: g1, simp add: g1, rule post_bnd, rule reg, assumption, use at in force, use pq in blast) simp
qed

lemma but_without: "good_but i s0 s \<Longrightarrow> good s0 (without i s)"
  by (simp add: good_but_def good_def without_inv)

lemma listen_reg_good:
  assumes "good s0 s" and "fresh s0 s (Some l)" and "l_state lp = LISTEN"
  shows "post (TCP_REG L_listen (set_lpcb s l lp) l) (good s0)"
proof (rule reg_good)
  have "l \<notin> set (tcp_listen_pcbs s)" using assms(1,2) by (auto simp: good_def tcp_inv_def lists_ok_def fresh_def list_all_iff)
  then show "good s0 (set_pcb_list L_listen (l # pcb_list L_listen (set_lpcb s l lp)) (set_lpcb s l lp))"
    using assms by (auto simp: good_def tcp_inv_def lists_ok_def pcbs_ok_def rely_def fresh_def set_lpcb_def list_all_iff tcp_holds_def)
qed

lemma tcp_listen_good:
  assumes g: "good s0 s"
  shows "post (tcp_listen_with_backlog_and_err s pcb) (\<lambda>(err, l, s'). good s0 s')"
proof -
  obtain r s1 where m: "tcp_pcb_malloc s = (r, s1)" by (cases "tcp_pcb_malloc s")
  have g1: "good s0 s1" and fr: "fresh s0 s1 r" using tcp_pcb_malloc_good [OF g m] by simp_all
  have at: "tcp_at s1 = tcp_at s" using m by (auto simp: tcp_pcb_malloc_def Let_def)
  have reg: "post (bnd (tcp_free (if t_local_port c \<noteq> 0 then TCP_RMV L_bound s1 i else s1) i) (\<lambda>s. bnd (TCP_REG L_listen (set_lpcb s l lp) l) (\<lambda>s. Inr (ERR_OK, Some l, s))))
      (\<lambda>(err, l, s'). good s0 s')" if c: "tcp_at s i = Some c" "t_state c = CLOSED" and l: "r = Some l" "l_state lp = LISTEN" for i c l lp
  proof -
    let ?s = "if t_local_port c \<noteq> 0 then TCP_RMV L_bound s1 i else s1"
    have "good_but i s0 ?s" using closed_but [OF g1, of i c] c at by auto
    then have w: "good s0 (without i ?s)" by (rule but_without)
    have "fresh s0 (without i ?s) (Some l)" using fr l by (auto simp: fresh_def without_def)
    then show ?thesis using listen_reg_good [OF w _ l(2)] c at
      by (simp add: tcp_free_def flip: without_def)
  qed
  show ?thesis
    unfolding tcp_listen_with_backlog_and_err_def m prod.case
    apply (intro steps)
    apply (cases r)
     apply (simp add: g1)
    apply (simp only: option.case, rule reg, assumption)
    apply (force, assumption, simp)
    done
qed

lemma tcp_listen_backlog_good: "good s0 s \<Longrightarrow> post (tcp_listen_with_backlog s pcb) (\<lambda>(l, s'). good s0 s')"
  unfolding tcp_listen_with_backlog_def by (rule post_bnd [OF tcp_listen_good]) auto

section \<open>Connecting\<close>

lemma tcp_connect_addrs_keeps: "tcp_connect_addrs e s c a port = (c', nif) \<Longrightarrow> keeps_pcb c c'"
  by (auto simp: tcp_connect_addrs_def Let_def keeps_pcb_def pcb_ok_def split: option.splits if_splits)

text \<open>A closed pcb that is on no list becomes active.\<close>

lemma activate_good:
  assumes "good s0 s" and "tcp_at s i = Some c" and "t_state c = CLOSED" and "unlisted i s" and "live c'" and "pcb_ok c'"
  shows "post (TCP_REG_ACTIVE (set_tcp s i c') i) (good s0)"
proof -
  let ?s = "set_tcp s i c'"
  let ?t = "set_pcb_list L_active (i # pcb_list L_active ?s) ?s"
  have "lists_ok ?t" using assms(1,4,5) by (auto simp: good_def tcp_inv_def lists_ok_def unlisted_def list_all_iff tcp_holds_def)
  moreover have "pcbs_ok ?t" using assms by (auto simp: good_def tcp_inv_def pcbs_ok_def live_def)
  moreover have "rely s0 ?t"
    using assms(1,2,3,5) by (force simp: good_def rely_def live_def)
  ultimately have "good s0 ?t" by (simp add: good_def tcp_inv_def)
  then show ?thesis unfolding TCP_REG_ACTIVE_def by (auto intro!: post_mono [OF reg_good])
qed

lemma rmv_set: "TCP_RMV l (set_tcp s i c) i = set_tcp (TCP_RMV l s i) i c"
  by (cases l) (simp_all add: TCP_RMV_def set_tcp_def)

lemma connect_reg_good:
  assumes g: "good s0 s" and at: "tcp_at s i = Some c" "t_state c = CLOSED" and b: "\<not> b \<Longrightarrow> i \<notin> set (tcp_bound_pcbs s)"
  shows "post (bnd (upd_pcb s i (\<lambda>c. c\<lparr>t_state := SYN_SENT\<rparr>)) (\<lambda>s. TCP_REG_ACTIVE (if b then TCP_RMV L_bound s i else s) i)) (good s0)"
proof -
  let ?r = "if b then TCP_RMV L_bound s i else s"
  have inv: "tcp_inv s" by (rule good_inv [OF g])
  have gr: "good s0 ?r" using g good_trans [OF g rmv_good [OF inv]] by simp
  have "unlisted i ?r" using inv at b
    by (auto simp: unlisted_def TCP_RMV_def tcp_inv_def lists_ok_def list_all_iff tcp_holds_def live_def)
  then have "post (TCP_REG_ACTIVE (set_tcp ?r i (c\<lparr>t_state := SYN_SENT\<rparr>)) i) (good s0)"
    using inv_pcb [OF inv at(1)] at by (intro activate_good [OF gr]) (auto simp: live_def pcb_ok_def)
  then show ?thesis using at by (auto simp: upd_pcb_def rmv_set)
qed

lemma on_pcb_lists: "post (on_pcb s i f) (\<lambda>(r, s'). tcp_bound_pcbs s' = tcp_bound_pcbs s)"
  by (simp add: on_pcb_def post_any)

lemma post_and: "post m P \<Longrightarrow> post m Q \<Longrightarrow> post m (\<lambda>x. P x \<and> Q x)"
  by (simp add: post_def)

lemma connect_syn_good:
  assumes g: "good s0 s" and at: "tcp_at s i = Some c" "t_state c = CLOSED" and b: "\<not> b \<Longrightarrow> i \<notin> set (tcp_bound_pcbs s)"
  shows "post (bnd (on_pcb s i (\<lambda>cx h c. tcp_enqueue_flags h c TCP_SYN)) (\<lambda>(ret, s).
     if ret = ERR_OK then
       bnd (upd_pcb s i (\<lambda>c. c\<lparr>t_state := SYN_SENT\<rparr>)) (\<lambda>s.
       bnd (TCP_REG_ACTIVE (if b then TCP_RMV L_bound s i else s) i) (\<lambda>s.
       bnd (on_pcb s i (tcp_output e)) (\<lambda>(_, s). Inr (ERR_OK, s))))
     else Inr (ret, s))) (\<lambda>(err, s'). good s0 s')"
proof -
  have enq: "post (on_pcb s i (\<lambda>cx h c. tcp_enqueue_flags h c TCP_SYN))
     (\<lambda>(r, s'). good s0 s' \<and> tcp_bound_pcbs s' = tcp_bound_pcbs s \<and> (\<exists>c. tcp_at s' i = Some c \<and> t_state c = CLOSED))"
  proof (rule post_mono [OF post_and [OF on_pcb_lists]])
    show "post (on_pcb s i (\<lambda>cx h c. tcp_enqueue_flags h c TCP_SYN)) (\<lambda>(r, s'). good s0 s' \<and> (\<exists>c. tcp_at s' i = Some c \<and> t_state c = CLOSED))"
      using at by (auto simp: on_pcb_def intro!: post_mono [OF tcp_enqueue_flags_sends] good_set [OF g] dest!: sends_keeps intro: keeps_fits)
        (auto simp: keeps_pcb_def)
  qed auto
  have reg: "post (bnd (upd_pcb s1 i (\<lambda>c. c\<lparr>t_state := SYN_SENT\<rparr>)) (\<lambda>s. bnd (TCP_REG_ACTIVE (if b then TCP_RMV L_bound s i else s) i) (\<lambda>s.
       bnd (on_pcb s i (tcp_output e)) (\<lambda>(_, s). Inr (ERR_OK, s))))) (\<lambda>(err, s'). good s0 s')"
    if "good s0 s1" "tcp_bound_pcbs s1 = tcp_bound_pcbs s" "tcp_at s1 i = Some c1" "t_state c1 = CLOSED" for s1 c1
    unfolding bnd_assoc [symmetric]
    by (rule post_bnd, rule post_bnd, rule connect_reg_good [OF that(1,3,4)], simp add: that(2) b) (rule carry2, rule on_pcb_output, auto)
  show ?thesis
    by (rule post_bnd [OF enq], clarify, rule if_post, rule reg) auto
qed

lemma tcp_connect_good: "good s0 s \<Longrightarrow> post (tcp_connect e s pcb ipaddr port f) (\<lambda>(err, s'). good s0 s')"
proof (cases "\<exists>i a. pcb = Some i \<and> ipaddr = Some a")
  case True
  assume g: "good s0 s"
  obtain i a where [simp]: "pcb = Some i" "ipaddr = Some a" using True by blast
  show ?thesis
    unfolding tcp_connect_def \<open>pcb = Some i\<close> \<open>ipaddr = Some a\<close> prod.case option.case
    apply (intro pcb_state_bnd assert_post get_tcp_bnd)
    subgoal premises p for st c
  proof -
    have c: "tcp_at s i = Some c" "t_state c = CLOSED" using p by auto
    obtain c1 nif where a: "tcp_connect_addrs e s c a port = (c1, nif)" by (cases "tcp_connect_addrs e s c a port")
    obtain q s1 where q: "(if t_local_port c1 = 0 then tcp_new_port s else (t_local_port c1, s)) = (q, s1)" by fastforce
    obtain iss s2 where iss: "tcp_next_iss s1 = (iss, s2)" by fastforce
    have g1: "good s0 s1" and v1: "view s1 = view s" using new_port_good [OF g, of q s1] q g by (auto split: if_splits)
    have g2: "good s0 s2" and v2: "view s2 = view s" using tcp_next_iss_view [of s1] g1 v1 iss by (auto intro: good_view)
    have k: "keeps_pcb c c1" by (rule tcp_connect_addrs_keeps [OF a])
    have nb: "i \<notin> set (tcp_bound_pcbs s2)" if "t_local_port c1 = 0"
      using closed_unlisted [OF good_inv [OF g] c] that k viewD [OF v2] by (simp add: unlisted_def keeps_pcb_def)
    have syn: "good s0 (set_tcp s2 i c')" "tcp_at (set_tcp s2 i c') i = Some c'" "t_state c' = CLOSED" if "fits c c'" for c'
      using good_set [OF g2 _ that] c that viewD [OF v2] by (auto simp: fits_def)
    have f: "fits c (c1\<lparr>t_local_port := 0\<rparr>)" if "q = 0"
      using k that q by (auto simp: fits_def keeps_pcb_def live_def pcb_ok_def split: if_splits)
    have f': "fits c (c1\<lparr>t_local_port := q, rcv_nxt := 0, snd_nxt := x1, lastack := x2, snd_wl2 := x2, snd_lbb := x2, rcv_wnd := TCP_WND,
        rcv_ann_wnd := x3, rcv_ann_right_edge := 0, snd_wnd := x3, mss := x4, cwnd := 1, t_connected := f\<rparr>)" if "q \<noteq> 0" for x1 x2 x3 x4
      using k that by (auto simp: fits_def keeps_pcb_def live_def pcb_ok_def)
    show ?thesis
      unfolding a prod.case Let_def q iss
      by (cases nif, simp add: good_set [OF g c(1)] keeps_fits [OF k], simp only: option.case, rule if_post,
          simp add: good_set [OF g1] c(1) viewD [OF v1] f, rule connect_syn_good, (erule f' [THEN syn(1)] f' [THEN syn(2)] f' [THEN syn(3)])+) (simp add: nb)
  qed
  done
qed (auto simp: tcp_connect_def split: option.split)

lemma tcp_new_good:
  assumes "callbacks_ok e" and "good s0 s"
  shows "post (tcp_new e s) (\<lambda>(i, s'). good s0 s')" "post (tcp_new_ip_type e s ty) (\<lambda>(i, s'). good s0 s')"
  unfolding tcp_new_def tcp_new_ip_type_def using assms
  by simp_all ((assumption | rule conjI impI allI tcp_alloc_good [THEN post_mono] good_upd [THEN post_mono] fits_set | clarsimp)+)

text \<open>\<^verbatim>\<open>tcp_write\<close> and \<^verbatim>\<open>tcp_output\<close> as calls on a pcb of the global state.\<close>

definition app_write :: "tcp_env \<Rightarrow> tcp_globals \<Rightarrow> nat \<Rightarrow> ptr \<Rightarrow> u16_t \<Rightarrow> u8_t \<Rightarrow> (err_t \<times> tcp_globals) outcome" where
  "app_write e s i arg len f = on_pcb s i (\<lambda>cx h c. tcp_write (t_odd e) h c arg len f)"

definition app_output :: "tcp_env \<Rightarrow> tcp_globals \<Rightarrow> nat \<Rightarrow> (err_t \<times> tcp_globals) outcome" where
  "app_output e s i = on_pcb s i (tcp_output e)"

lemma app_output_good: "good s0 s \<Longrightarrow> post (app_output e s i) (\<lambda>(r, s'). good s0 s')"
  unfolding app_output_def by (rule carry2) (rule on_pcb_output)

lemma app_write_good: "good s0 s \<Longrightarrow> post (app_write e s i arg len f) (\<lambda>(r, s'). good s0 s')"
  unfolding app_write_def by (rule carry2) (rule on_pcb_sends, assumption, rule tcp_write_sends)

section \<open>Timers\<close>

lemma slowtmr_pcb_carry: "good s0 s \<Longrightarrow> post (on_pcb s i (slowtmr_pcb e)) (\<lambda>(r, s'). good s0 s')"
  by (erule on_pcb_carry) (rule post_mono [OF slowtmr_pcb_keeps], auto intro: keeps_fits)

lemma purge_carry: "good s0 s \<Longrightarrow> post (on_pcb s i (\<lambda>cx h c. bnd (tcp_pcb_purge h c) (\<lambda>(c, h). Inr ((), c, h)))) (\<lambda>(r, s'). good s0 s')"
  by (rule carry2) (rule on_pcb_purge)

lemma output_carry: "good s0 s \<Longrightarrow> post (on_pcb s i (tcp_output e)) (\<lambda>(r, s'). good s0 s')"
  by (rule carry2) (rule on_pcb_output)

lemma poll_carry: "callbacks_ok e \<Longrightarrow> good s0 s \<Longrightarrow> post (TCP_EVENT_POLL e s i) (\<lambda>(r, s'). good s0 s')"
  by (rule carry2) (rule TCP_EVENT_POLL_good)

lemma err_carry: "callbacks_ok e \<Longrightarrow> good s0 s \<Longrightarrow> post (TCP_EVENT_ERR e s f arg err) (good s0)"
  by (rule carry1) (rule TCP_EVENT_ERR_good)

lemma bnd2: "post m (\<lambda>(r, s'). P s') \<Longrightarrow> (\<And>r s'. P s' \<Longrightarrow> post (f r s') Q) \<Longrightarrow> post (bnd m (\<lambda>(r, s'). f r s')) Q"
  by (simp, erule post_mono) auto

lemma bnd3: "post m (\<lambda>(r, s'). P s') \<Longrightarrow> (\<And>a b s'. P s' \<Longrightarrow> post (f a b s') Q) \<Longrightarrow> post (bnd m (\<lambda>((a, b), s'). f a b s')) Q"
  by (simp, erule post_mono) auto

lemma slowtmr_remove_good:
  assumes cb: "callbacks_ok e" and g: "good s0 s" and l: "live_at s i" and k: "\<And>s. good s0 s \<Longrightarrow> post (k s) Q"
  shows "post (bnd (on_pcb s i (\<lambda>cx h c. bnd (tcp_pcb_purge h c) (\<lambda>(c, h). Inr ((), c, h)))) (\<lambda>(_, s).
         bnd (get_tcp s i) (\<lambda>c.
         let s = TCP_RMV L_active s i in
         bnd (if b then send_rst e s c (snd_nxt c) (rcv_nxt c) else Inr s) (\<lambda>s.
         bnd (tcp_free s i) (\<lambda>s.
         bnd (TCP_EVENT_ERR e (s\<lparr>tcp_active_pcbs_changed := False\<rparr>) (t_errf c) (t_callback_arg c) ERR_ABRT) k))))) Q"
proof -
  have rst: "post (if b then send_rst e s c sq ak else Inr s) (good_but i s0)" if "good_but i s0 s" for s c sq ak
    using that by (auto intro!: post_mono [OF send_rst_view] elim: good_but_view)
  have fin: "post (bnd (tcp_free s i) (\<lambda>s. bnd (TCP_EVENT_ERR e (s\<lparr>tcp_active_pcbs_changed := False\<rparr>) f arg err) k)) Q" if "good_but i s0 s" for s f arg err
    by (rule post_bnd [OF tcp_free_good [OF that]], rule post_bnd [OF err_carry [OF cb]], simp, erule k)
  show ?thesis
    unfolding Let_def
    by (rule post_bnd [OF on_pcb_purge [OF good_inv [OF g]]], clarify, rule get_tcp_bnd, rule post_bnd, rule rst, rule rmv_active_but,
      erule good_trans [OF g], erule good_live [OF l], rule fin)
qed

lemma tcp_slowtmr_loop_good: "callbacks_ok e \<Longrightarrow> tcp_inv s \<Longrightarrow> post (tcp_slowtmr_loop n e s is) (good s)"
proof (induction n arbitrary: s "is")
  case (Suc n)
  note cb = Suc.prems(1)
  show ?case
  proof (cases "is")
    case Nil
    then show ?thesis using Suc.prems by (simp add: good_refl)
  next
    case (Cons i js)
    have g: "good s s" using Suc.prems by (simp add: good_refl)
    have loop: "post (tcp_slowtmr_loop n e s1 is1) (good s)" if "good s s1" for s1 is1
      by (rule good_ext [OF Suc.IH [OF cb good_inv [OF that]] that])
    have rm: "live_at s1 i" if "tcp_at s i = Some c" "live c" "good s s1" for c s1
      by (rule good_live [OF live_atI [OF g that(1,2)] that(3)])
    show ?thesis
      unfolding Cons tcp_slowtmr_loop.simps
      apply (rule get_tcp_bnd, rule assert_post, rule if_post, rule loop [OF g])
      apply (rule bnd3, rule slowtmr_pcb_carry, rule good_set [OF g], assumption, simp, rule if_post)
       apply (rule slowtmr_remove_good [OF cb], assumption, erule rm, simp add: live_def, assumption, erule loop)
      apply (rule post_bnd, erule good_upd, simp, rule get_tcp_bnd, rule if_post)
       apply (rule bnd2, rule poll_carry [OF cb], simp, erule good_set, assumption, simp, rule if_post, erule loop)
       apply (rule post_bnd [where P = "good s"], rule if_post, rule bnd2, erule output_carry, simp, simp, erule loop)
      apply (erule loop)
      done
  qed
qed simp

lemma tcp_slowtmr_tw_good: "tcp_inv s \<Longrightarrow> post (tcp_slowtmr_tw s is) (good s)"
proof (induction "is" arbitrary: s)
  case (Cons i js)
  have g: "good s s" using Cons.prems by (simp add: good_refl)
  have loop: "post (tcp_slowtmr_tw s1 js) (good s)" if "good s s1" for s1
    by (rule good_ext [OF Cons.IH [OF good_inv [OF that]] that])
  have tw: "post (tcp_free (TCP_RMV L_tw s1 i) i) (good s)" if "good s s1" "tcp_at s i = Some c" "t_state c = TIME_WAIT" for s1 c
  proof (cases "tcp_at s1 i")
    case (Some c1)
    then have "t_state c1 = TIME_WAIT" using that inv_pcb [OF Cons.prems that(2)] by (fastforce simp: good_def rely_def)
    then show ?thesis by (intro tcp_free_good rmv_tw_but [OF that(1) Some])
  qed (simp add: tcp_free_def)
  show ?case
    unfolding tcp_slowtmr_tw.simps
    by (rule get_tcp_bnd, rule assert_post, rule if_post, rule bnd2, rule purge_carry [OF g], rule post_bnd, erule tw, assumption, assumption, erule loop)
      (rule loop [OF g])
qed (simp add: good_refl)

lemma tcp_slowtmr_good: "callbacks_ok e \<Longrightarrow> good s0 s \<Longrightarrow> post (tcp_slowtmr n e s) (good s0)"
  unfolding tcp_slowtmr_def Let_def
  by (rule post_bnd, rule carry1, erule tcp_slowtmr_loop_good, assumption, simp) (rule carry1, erule tcp_slowtmr_tw_good)

lemma delayed_ack_fits:
  "post (if t_flags c AND TF_ACK_DELAY \<noteq> 0 then
           bnd (tcp_output e cx h (tcp_ack_now c)) (\<lambda>(_, c, h). Inr ((), tcp_clear_flags c (TF_ACK_DELAY OR TF_ACK_NOW), h))
         else Inr ((), c, h)) (\<lambda>(r, c', h'). fits c c')"
  by simp (auto intro!: post_mono [OF tcp_output_sends] keeps_fits dest!: sends_keeps simp: keeps_pcb_def pcb_ok_def tcp_clear_flags_def tcp_ack_now_def tcp_set_flags_def)

lemma tcp_fasttmr_loop_good: "callbacks_ok e \<Longrightarrow> good s0 s \<Longrightarrow> post (tcp_fasttmr_loop n e s is) (good s0)"
proof (induction n arbitrary: s "is")
  case (Suc n)
  note cb = Suc.prems(1) and loop = Suc.IH [OF Suc.prems(1)]
  show ?case
  proof (cases "is")
    case (Cons i js)
    show ?thesis
      unfolding Cons tcp_fasttmr_loop.simps Let_def
      apply (rule get_tcp_bnd, rule if_post)
      apply (rule bnd2, rule on_pcb_carry, rule good_set [OF Suc.prems(2)], assumption, simp, rule delayed_ack_fits)
      apply (rule get_tcp_bnd, rule post_bnd [where P = "good s0"], rule if_post, rule bnd2, rule fin_carry, erule good_set, assumption, simp)
      apply (simp, simp, rule get_tcp_bnd, rule if_post, rule bnd2, rule tcp_process_refused_data_good [OF cb], simp, erule loop, erule loop)
      apply (rule loop [OF Suc.prems(2)])
      done
  qed (use Suc.prems in simp)
qed simp

lemma tcp_fasttmr_good: "callbacks_ok e \<Longrightarrow> good s0 s \<Longrightarrow> post (tcp_fasttmr n e s) (good s0)"
  by (simp add: tcp_fasttmr_def Let_def tcp_fasttmr_loop_good)

lemma tcp_tmr_good: "callbacks_ok e \<Longrightarrow> good s0 s \<Longrightarrow> post (tcp_tmr n e s) (good s0)"
  unfolding tcp_tmr_def Let_def by (rule post_bnd, erule tcp_fasttmr_good, assumption) (simp add: tcp_slowtmr_good)

section \<open>The rest\<close>

lemma tcp_txnow_good: "good s0 s \<Longrightarrow> post (tcp_txnow e s) (good s0)"
proof -
  have "good s0 s \<Longrightarrow> post (tcp_txnow_loop e s is) (good s0)" for "is"
  proof (induction "is" arbitrary: s)
    case (Cons i js)
    show ?case
      unfolding tcp_txnow_loop.simps
      by (rule get_tcp_bnd, rule post_bnd [where P = "good s0"], rule if_post, rule bnd2, rule output_carry [OF Cons.prems], simp_all add: Cons)
  qed simp
  then show "good s0 s \<Longrightarrow> ?thesis" by (simp add: tcp_txnow_def)
qed

lemma changed_pcblist_good: "callbacks_ok e \<Longrightarrow> good s0 s \<Longrightarrow> post (tcp_netif_ip_addr_changed_pcblist e s a is) (good s0)"
proof (induction "is" arbitrary: s)
  case (Cons i js)
  show ?case
    unfolding tcp_netif_ip_addr_changed_pcblist.simps
    by (rule get_tcp_bnd, rule post_bnd [where P = "good s0"], rule if_post, rule tcp_abort_good [OF Cons.prems]) (simp_all add: Cons)
qed simp

lemma listen_changed_good: "good s0 s \<Longrightarrow> post (tcp_listen_ip_changed s a b is) (good s0)"
proof (induction "is" arbitrary: s)
  case (Cons i js)
  then show ?case by (auto intro!: Cons.IH good_lpcb)
qed simp

lemma tcp_netif_ip_addr_changed_good: "callbacks_ok e \<Longrightarrow> good s0 s \<Longrightarrow> post (tcp_netif_ip_addr_changed e s a b) (good s0)"
  unfolding tcp_netif_ip_addr_changed_def
  by (rule if_post, rule post_bnd, erule changed_pcblist_good, assumption, rule post_bnd, erule changed_pcblist_good, assumption)
    (simp_all add: listen_changed_good)

lemma pbuf_free_ooseq_good: "good s0 s \<Longrightarrow> post (pbuf_free_ooseq s) (good s0)"
proof -
  have "good s0 s \<Longrightarrow> post (pbuf_free_ooseq_loop s is) (good s0)" for s "is"
  proof (induction "is")
    case (Cons i js)
    show ?case
      unfolding pbuf_free_ooseq_loop.simps
      by (rule get_tcp_bnd, rule if_post, rule bnd2, rule on_pcb_carry [OF Cons.prems], simp)
        (auto intro!: post_mono [OF tcp_free_ooseq_keeps] keeps_fits simp: Cons)
  qed simp
  then show "good s0 s \<Longrightarrow> ?thesis" by (simp add: pbuf_free_ooseq_def)
qed

end
