(* ===== verification/Tcp_Segments.thy ===== *)
theory Tcp_Segments
  imports Tcp_Calls
begin

text \<open>
  Segments keep the invariant: \<^verbatim>\<open>tcp_input\<close> with the search for the pcb, \<^verbatim>\<open>tcp_process\<close>, and the events that follow. In between a
  callback may have freed the pcb at hand, which the predicates below say.
\<close>

section \<open>What is known of the pcb at hand\<close>

definition busy :: "nat \<Rightarrow> tcp_globals \<Rightarrow> bool" where
  "busy i s \<longleftrightarrow> tcp_inv s \<and> live_at s i"

definition ready :: "nat \<Rightarrow> tcp_globals \<Rightarrow> bool" where
  "ready i s \<longleftrightarrow> tcp_inv s \<and> open_at s i"

lemma busy_ready: "busy i s \<Longrightarrow> ready i s"
  by (simp add: busy_def ready_def live_open)

lemma busy_good: "busy i s \<Longrightarrow> good s s' \<Longrightarrow> busy i s'"
  using good_live good_inv by (auto simp: busy_def)

lemma ready_good: "ready i s \<Longrightarrow> good s s' \<Longrightarrow> ready i s'"
  using good_open good_inv by (auto simp: ready_def)

lemma busy_view: "busy i s \<Longrightarrow> view s' = view s \<Longrightarrow> busy i s'"
  using view_eqD [of s' s] view_at [of s' s i] by (simp add: busy_def)

lemma ready_view: "ready i s \<Longrightarrow> view s' = view s \<Longrightarrow> ready i s'"
  using view_eqD [of s' s] view_at [of s' s i] by (simp add: ready_def)

lemma busy_self: "busy i s \<Longrightarrow> good s s"
  by (simp add: busy_def good_refl)

lemma ready_self: "ready i s \<Longrightarrow> good s s"
  by (simp add: ready_def good_refl)

lemma busy_carry1: "(good s s \<Longrightarrow> post m (good s)) \<Longrightarrow> busy i s \<Longrightarrow> post m (busy i)"
  using post_mono [of m "good s" "busy i"] busy_good [of i s] busy_self [of i s] by simp

lemma busy_carry2: "(good s s \<Longrightarrow> post m (\<lambda>(r, s'). good s s')) \<Longrightarrow> busy i s \<Longrightarrow> post m (\<lambda>(r, s'). busy i s')"
  using post_mono [of m "\<lambda>(r, s'). good s s'" "\<lambda>(r, s'). busy i s'"] busy_good [of i s] busy_self [of i s] by (simp add: split_beta)

lemma ready_carry1: "(good s s \<Longrightarrow> post m (good s)) \<Longrightarrow> ready i s \<Longrightarrow> post m (ready i)"
  using post_mono [of m "good s" "ready i"] ready_good [of i s] ready_self [of i s] by simp

lemma ready_carry2: "(good s s \<Longrightarrow> post m (\<lambda>(r, s'). good s s')) \<Longrightarrow> ready i s \<Longrightarrow> post m (\<lambda>(r, s'). ready i s')"
  using post_mono [of m "\<lambda>(r, s'). good s s'" "\<lambda>(r, s'). ready i s'"] ready_good [of i s] ready_self [of i s] by (simp add: split_beta)

lemma busy_set: "busy i s \<Longrightarrow> tcp_at s i = Some c \<Longrightarrow> fits c c' \<Longrightarrow> busy i (set_tcp s i c')"
  using good_set [OF busy_self] busy_good by blast

section \<open>The state machine\<close>

lemma receives_fits: "receives (t, c) (t', c') \<Longrightarrow> fits c c'"
  by (auto simp: receives_def fits_def live_def pcb_ok_def conn_def elim: order_trans)

lemma receive_on_busy: "busy i s \<Longrightarrow> post (receive_on e s i) (busy i)"
  unfolding receive_on_def
proof (rule get_tcp_bnd, rule post_bnd, rule tcp_receive_receives, clarify)
  fix c t' c' h'
  assume "busy i s" "tcp_at s i = Some c" "receives (t_in s, c) (t', c')"
  then have "busy i (set_tcp s i c')" by (blast intro: busy_set receives_fits)
  then show "post (Inr (set_tcp s i c'\<lparr>theap := h', t_in := t'\<rparr>)) (busy i)" by (simp add: busy_view)
qed

lemma busy_upd: "busy i s \<Longrightarrow> (\<And>c. tcp_at s i = Some c \<Longrightarrow> live c \<Longrightarrow> fits c (f c)) \<Longrightarrow> post (upd_pcb s i f) (busy i)"
  using busy_set [of i s] by (auto simp: upd_pcb_def busy_def live_at_def)

lemma live_state: "live c \<Longrightarrow> st \<notin> {CLOSED, LISTEN, TIME_WAIT} \<Longrightarrow> fits c (c\<lparr>t_state := st\<rparr>)"
  by (auto simp: fits_def live_def pcb_ok_def)

lemma to_close_wait_busy: "busy i s \<Longrightarrow> post (to_close_wait s i) (busy i)"
  unfolding to_close_wait_def by (rule if_post, erule busy_upd) (auto simp: fits_def live_def pcb_ok_def tcp_ack_now_def tcp_set_flags_def)

lemma to_time_wait_ready: "busy i s \<Longrightarrow> post (to_time_wait s i) (ready i)"
proof -
  assume b: "busy i s"
  have "post (bnd (upd_pcb (TCP_RMV_ACTIVE s i) i (\<lambda>c. c\<lparr>t_state := TIME_WAIT\<rparr>)) (\<lambda>s. TCP_REG L_tw s i)) (ready i)" if b: "busy i s" for s
  proof -
    let ?s = "\<lambda>c. set_tcp (TCP_RMV_ACTIVE s i) i (c\<lparr>t_state := TIME_WAIT\<rparr>)"
    have "ready i (set_pcb_list L_tw (i # pcb_list L_tw (?s c)) (?s c))" if c: "tcp_at s i = Some c" for c
    proof -
      have inv: "tcp_inv s" and l: "live c" using b c by (auto simp: busy_def live_at_def)
      have "lists_ok (set_pcb_list L_tw (i # pcb_list L_tw (?s c)) (?s c))"
        using inv l c by (auto simp: tcp_inv_def lists_ok_def TCP_RMV_ACTIVE_def TCP_RMV_def list_all_iff tcp_holds_def live_def)
      moreover have "pcbs_ok (set_pcb_list L_tw (i # pcb_list L_tw (?s c)) (?s c))"
        using inv c by (auto simp: tcp_inv_def pcbs_ok_def TCP_RMV_ACTIVE_def TCP_RMV_def pcb_ok_def)
      ultimately show ?thesis using inv_pcb [OF inv c] by (simp add: ready_def tcp_inv_def open_at_def TCP_RMV_ACTIVE_def TCP_RMV_def)
    qed
    then show ?thesis
      by (auto simp: upd_pcb_def TCP_REG_def TCP_RMV_ACTIVE_def intro!: post_mono [OF need_timer_view] elim: ready_view)
  qed
  then show ?thesis
    unfolding to_time_wait_def by (rule_tac bnd2 [OF busy_carry2 [OF purge_carry b]]) auto
qed

lemma input_rst_view: "post (input_rst e g s p) (\<lambda>s'. view s' = view s)"
  by (simp add: input_rst_def Let_def post_any)

lemma input_rst_busy: "busy i s \<Longrightarrow> post (input_rst e g s p) (busy i)"
  by (rule post_mono [OF input_rst_view]) (erule busy_view)

lemma input_rst_good: "good s0 s \<Longrightarrow> post (input_rst e g s p) (good s0)"
  by (rule post_mono [OF input_rst_view]) (erule good_view)

lemma tcp_parseopt_only: "post (tcp_parseopt h t c) (\<lambda>c'. \<exists>m. c' = c\<lparr>mss := m\<rparr>)"
  by (auto simp: tcp_parseopt_def intro: post_any exI [of _ "mss c"])

lemma syn_acked_keeps: "post (syn_acked h c) (\<lambda>(c', h'). keeps_pcb c c')"
  by (simp add: syn_acked_def Let_def) ((rule post_rules | clarsimp | simp add: keeps_pcb_def pcb_ok_def)+)

lemma busy_live: "busy i s \<Longrightarrow> tcp_at s i = Some c \<Longrightarrow> live c"
  by (simp add: busy_def live_at_def)

lemma busy_on_pcb:
  "busy i s \<Longrightarrow> (\<And>cx h c. tcp_at s i = Some c \<Longrightarrow> post (f cx h c) (\<lambda>(r, c', h'). fits c c')) \<Longrightarrow> post (on_pcb s i f) (\<lambda>(r, s'). busy i s')"
  by (rule busy_carry2) (rule on_pcb_carry)

lemma connected_carry: "callbacks_ok e \<Longrightarrow> good s0 s \<Longrightarrow> post (TCP_EVENT_CONNECTED e s i err) (\<lambda>(r, s'). good s0 s')"
  by (rule carry2) (rule TCP_EVENT_CONNECTED_good)

lemma connected_busy: "callbacks_ok e \<Longrightarrow> busy i s \<Longrightarrow> post (TCP_EVENT_CONNECTED e s i err) (\<lambda>(r, s'). busy i s')"
  by (rule busy_carry2) (rule connected_carry)

lemma accept_busy: "callbacks_ok e \<Longrightarrow> busy i s \<Longrightarrow> post (TCP_EVENT_ACCEPT e s l p arg err) (\<lambda>(r, s'). busy i s')"
  by (rule busy_carry2) (rule TCP_EVENT_ACCEPT_good)

lemma abort_busy: "callbacks_ok e \<Longrightarrow> busy i s \<Longrightarrow> post (tcp_abort e s p) (busy i)"
  by (rule busy_carry1) (rule tcp_abort_good)

lemma process_syn_sent_busy: "callbacks_ok e \<Longrightarrow> busy i s \<Longrightarrow> post (process_syn_sent e g s i) (\<lambda>(err, s'). busy i s')"
proof -
  assume cb: "callbacks_ok e" and b: "busy i s"
  have rexmit: "post (bnd (tcp_rexmit_rto e cx h c) (\<lambda>(c, h). Inr ((), c, h))) (\<lambda>(r, c', h'). fits c c')" for cx h c
    by simp (auto intro!: post_mono [OF tcp_rexmit_rto_sends] keeps_fits sends_keeps)
  have ack: "post (bnd (syn_acked h c) (\<lambda>(c, h). Inr ((), c, h))) (\<lambda>(r, c', h'). fits c c')" for h c
    by simp (auto intro!: post_mono [OF syn_acked_keeps] keeps_fits)
  have est: "busy i (set_tcp s i (c\<lparr>rcv_nxt := x1, rcv_ann_right_edge := x2, lastack := x3, snd_wnd := x4, snd_wnd_max := x5,
      snd_wl1 := x6, t_state := ESTABLISHED, mss := x7, cwnd := x8\<rparr>))" if "tcp_at s i = Some c" for c x1 x2 x3 x4 x5 x6 x7 x8
    by (rule busy_set [OF b that]) (use busy_live [OF b that] in \<open>auto simp: fits_def live_def pcb_ok_def\<close>)
  have rt: "busy i (set_tcp s1 i (c\<lparr>rtime := 0\<rparr>))" if "busy i s1" "tcp_at s i = Some c" "view s1 = view s" for s1 c
    by (rule busy_set [OF that(1)]) (use that viewD [OF that(3)] in \<open>auto simp: fits_def live_def pcb_ok_def\<close>)
  show ?thesis
    unfolding process_syn_sent_def Let_def
    apply (rule get_tcp_bnd, rule if_post, rule post_bnd [where P = "\<lambda>_. True"], simp)
     apply (rule bnd2, rule busy_on_pcb, erule est, rule ack, rule bnd2, erule connected_busy [OF cb], rule if_post, simp)
     apply (rule post_bnd, erule busy_upd, simp, simp)
    apply (rule if_post, rule post_bnd, rule post_and [OF input_rst_busy [OF b] input_rst_view])
     apply (rule if_post, rule bnd2, rule busy_on_pcb, erule conjE, erule rt, assumption, assumption, rule rexmit)
     apply (simp_all add: b)
    done
qed

lemma tcp_rexmit_fits: "post (tcp_rexmit h c) (\<lambda>(err, c'). fits c c')"
  using tcp_rexmit_sends [of h c] by (rule post_mono) (auto intro: keeps_fits sends_keeps)

lemma process_syn_rcvd_busy: "callbacks_ok e \<Longrightarrow> busy i s \<Longrightarrow> post (process_syn_rcvd e g s i) (\<lambda>(err, s'). busy i s')"
proof -
  assume cb: "callbacks_ok e" and b: "busy i s"
  have est: "busy i (set_tcp s i (c\<lparr>t_state := ESTABLISHED\<rparr>))" if "tcp_at s i = Some c" for c
    by (rule busy_set [OF b that]) (use busy_live [OF b that] in \<open>auto simp: fits_def live_def pcb_ok_def\<close>)
  have accept: "post (case listener c of None \<Rightarrow> Inr (ERR_VAL, s1)
       | Some l \<Rightarrow> bnd (get_lpcb s1 l) (\<lambda>lp. lwip_assert (l_accept lp \<noteq> None) (TCP_EVENT_ACCEPT e s1 l (Some i) arg err))) (\<lambda>(r, s'). busy i s')"
    if "busy i s1" for c s1 arg err
    using that by (simp add: accept_busy [OF cb])
  have cwnd: "fits c (c\<lparr>cwnd := x\<rparr>)" for c x by (simp add: fits_def live_def pcb_ok_def)
  show ?thesis
    unfolding process_syn_rcvd_def Let_def
    apply (rule get_tcp_bnd, rule if_post, rule if_post)
      apply (rule bnd2, rule accept, erule est, rule if_post)
       apply (rule post_bnd [where P = "busy i"], rule if_post, erule abort_busy [OF cb], simp, simp)
      apply (rule post_bnd, erule receive_on_busy, rule post_bnd, rule busy_upd, erule busy_view, simp, rule cwnd)
      apply (rule post_bnd, erule to_close_wait_busy, simp)
     apply (rule post_bnd, rule input_rst_busy [OF b], simp)
    apply (rule if_post, rule post_bnd, rule tcp_rexmit_fits)
     apply (auto simp: b intro: busy_set)
    done
qed

lemma receive_then:
  assumes "busy i s" and "\<And>s. busy i s \<Longrightarrow> post (f s) (ready i)"
  shows "post (bnd (receive_on e s i) (\<lambda>s. bnd (f s) (\<lambda>s. Inr (ERR_OK, s)))) (\<lambda>(err, s'). ready i s')"
  by (rule post_bnd, rule receive_on_busy [OF assms(1)], rule post_bnd, erule assms(2)) simp

lemma process_states_ready:
  assumes "busy i s"
  shows "post (process_fin_wait_1 s i) (ready i)" "post (process_fin_wait_2 s i) (ready i)" "post (process_closing s i) (ready i)"
    "post (process_last_ack s i) (ready i)" "post (to_close_wait s i) (ready i)"
proof -
  have st: "busy i (set_tcp s i (c\<lparr>t_state := CLOSING\<rparr>))" "busy i (set_tcp s i ((tcp_ack_now c)\<lparr>t_state := CLOSING\<rparr>))" "busy i (set_tcp s i (c\<lparr>t_state := FIN_WAIT_2\<rparr>))"
    if "tcp_at s i = Some c" for c
    using busy_live [OF assms that] by (auto intro!: busy_set [OF assms that] simp: fits_def live_def pcb_ok_def tcp_ack_now_def tcp_set_flags_def)
  show "post (process_fin_wait_1 s i) (ready i)" unfolding process_fin_wait_1_def
    by (intro get_tcp_bnd if_post to_time_wait_ready busy_set [OF assms]) (auto simp: busy_ready assms st)
  show "post (process_fin_wait_2 s i) (ready i)" unfolding process_fin_wait_2_def
    by (rule if_post, rule post_bnd, rule busy_upd [OF assms], simp, erule to_time_wait_ready) (simp add: busy_ready assms)
  show "post (process_closing s i) (ready i)" unfolding process_closing_def
    by (intro get_tcp_bnd if_post to_time_wait_ready assms) (simp add: busy_ready assms)
  show "post (process_last_ack s i) (ready i)" unfolding process_last_ack_def
    using ready_view [OF busy_ready [OF assms], of "tcp_trigger_input_pcb_close s"] by (simp add: busy_ready assms)
  show "post (to_close_wait s i) (ready i)" by (rule post_mono [OF to_close_wait_busy [OF assms] busy_ready])
qed

lemma busy2_ready2: "post m (\<lambda>(r, s'). busy i s') \<Longrightarrow> post m (\<lambda>(r, s'). ready i s')"
  by (erule post_mono) (auto intro: busy_ready)

lemma tcp_process_state_ready: "callbacks_ok e \<Longrightarrow> busy i s \<Longrightarrow> post (tcp_process_state e g s i st) (\<lambda>(err, s'). ready i s')"
  by (cases st; unfold tcp_process_state_def tcp_state.case)
    (auto simp del: post_simps(3) intro!: receive_then process_states_ready busy2_ready2 [OF process_syn_sent_busy] busy2_ready2 [OF process_syn_rcvd_busy] simp: busy_ready)

lemma process_rst_fits: "post (process_rst t c) (\<lambda>(err, t', c'). fits c c')"
  by (auto simp: process_rst_def Let_def tcp_ack_now_def tcp_set_flags_def tcp_clear_flags_def fits_def live_def pcb_ok_def)

lemma tcp_process_ready: "callbacks_ok e \<Longrightarrow> busy i s \<Longrightarrow> post (tcp_process e g s i) (\<lambda>(err, s'). ready i s')"
proof -
  assume cb: "callbacks_ok e" and b: "busy i s"
  have set: "busy i (set_tcp s i c')" if "tcp_at s i = Some c" "fits c c'" for c c' by (rule busy_set [OF b that])
  have rst: "post (bnd (process_rst t c) (\<lambda>(err, t, c). Inr (err, (set_tcp s i c)\<lparr>t_in := t\<rparr>))) (\<lambda>(err, s'). ready i s')" if "tcp_at s i = Some c" for t c
    by (rule post_bnd [OF process_rst_fits]) (auto intro!: busy_ready busy_view [OF set [OF that]])
  have opt: "post (tcp_parseopt h t ((if P then c\<lparr>tmr := x\<rparr> else c)\<lparr>keep_cnt_sent := 0, persist_probe := 0\<rparr>)) (\<lambda>c'. fits c c')" for h t P c x
    by (rule post_mono [OF tcp_parseopt_only], cases P) (auto simp: fits_def live_def pcb_ok_def)
  show ?thesis
    unfolding tcp_process_def Let_def
    by (rule get_tcp_bnd, rule if_post, erule rst, rule if_post, simp add: busy_ready set, rule post_bnd, rule opt)
      (blast intro: tcp_process_state_ready [OF cb] set)
qed

section \<open>Other pcbs\<close>

lemma tcp_timewait_input_good: "good s0 s \<Longrightarrow> post (tcp_timewait_input e g s i) (good s0)"
proof -
  assume g: "good s0 s"
  have set: "good s0 (set_tcp s i (tcp_ack_now c))" "good s0 (set_tcp s i (c\<lparr>tmr := x\<rparr>))" "good s0 (set_tcp s i (tcp_ack_now (c\<lparr>tmr := x\<rparr>)))"
    if "tcp_at s i = Some c" for c x
    by (auto intro!: good_set [OF g that] simp: fits_def live_def pcb_ok_def tcp_ack_now_def tcp_set_flags_def)
  have twice: "set_tcp (set_tcp s i c) i c' = set_tcp s i c'" for c c' by (simp add: set_tcp_def)
  show ?thesis
    unfolding tcp_timewait_input_def Let_def
    by (intro if_post get_tcp_bnd input_rst_good g, simp add: g, rule bnd2, rule output_carry)
      (auto simp: g set twice good_set [OF g])
qed

lemma bndP: "post m (\<lambda>(r, s'). P r s') \<Longrightarrow> (\<And>r s'. P r s' \<Longrightarrow> post (f r s') Q) \<Longrightarrow> post (bnd m (\<lambda>(r, s'). f r s')) Q"
  by (simp, erule post_mono) auto

lemma get_lpcb_bnd: "(\<And>l. lpcb_at s i = Some l \<Longrightarrow> post (f l) Q) \<Longrightarrow> post (bnd (get_lpcb s i) f) Q"
  by simp

lemma opt_post: "(v = None \<Longrightarrow> post m Q) \<Longrightarrow> (\<And>y. v = Some y \<Longrightarrow> post (f y) Q) \<Longrightarrow> post (case v of None \<Rightarrow> m | Some y \<Rightarrow> f y) Q"
  by simp

lemma pair_post: "(\<And>a b. p = (a, b) \<Longrightarrow> post (f a b) Q) \<Longrightarrow> post (case p of (a, b) \<Rightarrow> f a b) Q"
  by simp

lemma any_bnd: "(\<And>x. post (f x) Q) \<Longrightarrow> post (bnd m f) Q"
  by (simp add: post_any)

lemma tcp_listen_input_good:
  assumes cb: "callbacks_ok e" and g: "good s0 s"
  shows "post (tcp_listen_input e g' s l) (good s0)"
proof -
  have reg: "post (bnd (upd_pcb s i (listen_pcb g' t l lp src dest iss)) (\<lambda>s. bnd (TCP_REG_ACTIVE s i) k)) Q"
    if "good s0 s" "tcp_at s i = Some c" "t_state c = CLOSED" "t_local_port c = 0" "\<And>s. good s0 s \<Longrightarrow> post (k s) Q" for s i c t lp src dest iss k Q
    unfolding bnd_assoc [symmetric]
    by (rule post_bnd [where P = "good s0"]) (use activate_good [OF that(1-3), of "listen_pcb g' t l lp src dest iss c"] closed_unlisted [OF good_inv [OF that(1)] that(2,3)] that(4)
      inv_pcb [OF good_inv [OF that(1)] that(2)] that(2,5) in \<open>simp_all add: upd_pcb_def listen_pcb_def live_def pcb_ok_def\<close>)
  have iss: "good s0 s1 \<and> tcp_at s1 i = Some c" if "tcp_next_iss s = (n, s1)" "good s0 s" "tcp_at s i = Some c" for s n s1 i c
    using tcp_next_iss_view [of s] viewD [of s1 s] that by (auto intro: good_view)
  have opt: "post (tcp_parseopt h t c) (\<lambda>c'. \<forall>w m. fits c (c'\<lparr>snd_wnd := w, snd_wnd_max := w, mss := m\<rparr>))" for h t c
    by (rule post_mono [OF tcp_parseopt_only]) (auto simp: fits_def live_def pcb_ok_def)
  have enq: "post (tcp_enqueue_flags h c f) (\<lambda>(r, c', h'). fits c c')" for h c f
    by (rule post_mono [OF tcp_enqueue_flags_sends]) (auto intro: keeps_fits sends_keeps)
  show ?thesis
    unfolding tcp_listen_input_def Let_def
    apply (rule if_post, simp add: g, rule get_lpcb_bnd, rule if_post, rule input_rst_good [OF g])
    apply (rule if_post, rule bndP, rule tcp_alloc_good [OF cb g], rule get_lpcb_bnd, rule opt_post)
      apply (rule bnd2, rule TCP_EVENT_ACCEPT_good [OF cb], erule conjunct1, simp)
     apply (rule any_bnd, rule any_bnd, rule any_bnd, rule pair_post, clarsimp simp: new_at_def simp del: post_simps post_split)
     apply (drule iss, assumption, assumption, rule reg, erule conjunct1, erule conjunct2, assumption, assumption)
     apply (rule get_tcp_bnd, rule post_bnd, rule opt, rule bnd2, rule on_pcb_carry, erule good_set, assumption, simp, rule enq)
     apply (rule if_post, rule tcp_abandon_good [OF cb], assumption, rule bnd2, erule output_carry)
     apply (simp_all add: g)
    done
qed

section \<open>Events\<close>

lemma sent_ready: "callbacks_ok e \<Longrightarrow> ready i s \<Longrightarrow> post (TCP_EVENT_SENT e s i n) (\<lambda>(r, s'). ready i s')"
  by (rule ready_carry2) (rule carry2, rule TCP_EVENT_SENT_good)

lemma err_ready: "callbacks_ok e \<Longrightarrow> ready i s \<Longrightarrow> post (TCP_EVENT_ERR e s f arg err) (ready i)"
  by (rule ready_carry1) (rule err_carry)

lemma recv_ready: "callbacks_ok e \<Longrightarrow> ready i s \<Longrightarrow> post (TCP_EVENT_RECV e s i p err) (\<lambda>(r, s'). ready i s')"
  by (rule ready_carry2) (rule TCP_EVENT_RECV_good)

lemma closed_ready: "callbacks_ok e \<Longrightarrow> ready i s \<Longrightarrow> post (TCP_EVENT_CLOSED e s i) (\<lambda>(r, s'). ready i s')"
  by (rule ready_carry2) (rule TCP_EVENT_CLOSED_good)

lemma abort_ready: "callbacks_ok e \<Longrightarrow> ready i s \<Longrightarrow> post (tcp_abort e s p) (ready i)"
  by (rule ready_carry1) (rule tcp_abort_good)

lemma ready_set: "ready i s \<Longrightarrow> tcp_at s i = Some c \<Longrightarrow> fits c c' \<Longrightarrow> ready i (set_tcp s i c')"
  using good_set [OF ready_self] ready_good by blast

lemma ready_inv: "ready i s \<Longrightarrow> tcp_inv s"
  by (simp add: ready_def)

text \<open>The pcb is removed and freed.\<close>

lemma remove_free_inv: "ready i s \<Longrightarrow> post (bnd (tcp_pcb_remove e L_active s i) (\<lambda>s. tcp_free s i)) tcp_inv"
  by (rule post_bnd, rule tcp_pcb_remove_but [OF ready_self], assumption, simp add: ready_def, rule post_mono, erule tcp_free_good, erule good_inv)

definition going :: "nat \<Rightarrow> bool \<times> tcp_globals \<Rightarrow> bool" where
  "going i = (\<lambda>(aborted, s). if aborted then tcp_inv s else ready i s)"

lemma unless_inv: "post m (going i) \<Longrightarrow> (\<And>s. ready i s \<Longrightarrow> post (f s) tcp_inv) \<Longrightarrow> post (unless_aborted m f) tcp_inv"
  unfolding unless_aborted_def by (rule post_bnd, assumption) (auto simp: going_def split: if_splits)

lemma inv_upd [simp]: "tcp_inv (s\<lparr>t_in := t\<rparr>) = tcp_inv s" "tcp_inv (s\<lparr>theap := h\<rparr>) = tcp_inv s" "tcp_inv (s\<lparr>tcp_input_pcb := p\<rparr>) = tcp_inv s"
  by (rule view_eqD(1), simp)+

lemma ready_upd [simp]:
  "ready i (s\<lparr>t_in := t\<rparr>) = ready i s" "ready i (s\<lparr>theap := h\<rparr>) = ready i s" "ready i (s\<lparr>tcp_input_pcb := p\<rparr>) = ready i s"
  "busy i (s\<lparr>t_in := t\<rparr>) = busy i s" "busy i (s\<lparr>theap := h\<rparr>) = busy i s" "busy i (s\<lparr>tcp_input_pcb := p\<rparr>) = busy i s"
  by (simp_all add: ready_def open_at_def busy_def live_at_def)

lemma tcp_input_delayed_close_going: "callbacks_ok e \<Longrightarrow> ready i s \<Longrightarrow> post (tcp_input_delayed_close e s i) (going i)"
  unfolding tcp_input_delayed_close_def
  apply (rule if_post, rule get_tcp_bnd, rule post_bnd [where P = "ready i"], rule if_post, erule err_ready, assumption, simp)
  by (subst bnd_assoc [symmetric], rule post_bnd, erule remove_free_inv) (simp_all add: going_def)

lemma input_event_sent_going: "callbacks_ok e \<Longrightarrow> ready i s \<Longrightarrow> post (input_event_sent e s i) (going i)"
  unfolding input_event_sent_def by (rule if_post, rule bnd2, erule sent_ready, assumption) (auto simp: going_def ready_inv)

lemma input_event_recv_going: "callbacks_ok e \<Longrightarrow> ready i s \<Longrightarrow> post (input_event_recv e s i) (going i)"
proof -
  assume cb: "callbacks_ok e" and r: "ready i s"
  have ab: "post (bnd (pbuf_free (theap s) d) (\<lambda>(_, h). bnd (tcp_abort e (s\<lparr>theap := h\<rparr>) (Some i)) (\<lambda>s. Inr (True, s)))) (going i)" for d
    by (rule any_bnd, rule pair_post, rule post_bnd, rule abort_ready [OF cb, where i = i], simp add: r) (simp add: going_def ready_inv)
  have refuse: "post (upd_pcb s i (\<lambda>c. c\<lparr>refused_data := d\<rparr>)) (ready i)" if "ready i s" for s d
    using that by (auto simp: upd_pcb_def intro!: ready_set)
  show ?thesis
    unfolding input_event_recv_def Let_def
    apply (rule if_post, rule get_tcp_bnd, rule assert_post, rule if_post, rule ab)
     apply (rule bnd2, rule recv_ready [OF cb r], rule if_post, simp add: going_def ready_inv)
     apply (rule if_post, rule post_bnd, erule refuse)
     apply (simp_all add: going_def r)
    done
qed

lemma input_event_fin_going: "callbacks_ok e \<Longrightarrow> ready i s \<Longrightarrow> post (input_event_fin e s i) (going i)"
  unfolding input_event_fin_def
  by (rule if_post, rule get_tcp_bnd, rule if_post, rule any_bnd, simp add: going_def, rule bnd2, erule closed_ready,
      erule ready_set, assumption, rule fin_delivered_fits) (simp_all add: going_def ready_inv)

lemma input_events_inv: "callbacks_ok e \<Longrightarrow> ready i s \<Longrightarrow> post (input_events e s i) tcp_inv"
proof -
  assume cb: "callbacks_ok e" and r: "ready i s"
  have out: "post (bnd (on_pcb s i (tcp_output e)) (\<lambda>(_, s). Inr s)) tcp_inv" if "ready i s" for s
    by (rule bnd2, rule output_carry [OF ready_self [OF that]]) (simp add: good_inv)
  show ?thesis
    unfolding input_events_def
    by (rule if_post, rule get_tcp_bnd, rule post_bnd, rule err_ready [OF cb r], erule remove_free_inv)
      (rule unless_inv, rule input_event_sent_going [OF cb r], rule unless_inv, erule tcp_input_delayed_close_going [OF cb],
       rule unless_inv, erule input_event_recv_going [OF cb], rule unless_inv, erule input_event_fin_going [OF cb],
       rule unless_inv, rule tcp_input_delayed_close_going [OF cb], simp, erule out)
qed

section \<open>Input\<close>

text \<open>Refused data, while the connection is live.\<close>

definition going_live :: "nat \<Rightarrow> bool \<times> tcp_globals \<Rightarrow> bool" where
  "going_live i = (\<lambda>(aborted, s). if aborted then tcp_inv s else busy i s)"

lemma busy_inv: "busy i s \<Longrightarrow> tcp_inv s"
  by (simp add: busy_def)

lemma refused_busy: "callbacks_ok e \<Longrightarrow> busy i s \<Longrightarrow> post (tcp_process_refused_data e s p) (\<lambda>(r, s'). busy i s')"
  by (rule busy_carry2) (rule tcp_process_refused_data_good)

lemma input_refused_going: "callbacks_ok e \<Longrightarrow> busy i s \<Longrightarrow> post (input_refused e s i) (going_live i)"
proof -
  assume cb: "callbacks_ok e" and b: "busy i s"
  have ack: "post (bnd (on_pcb s i (tcp_send_empty_ack e)) (\<lambda>(_, s). Inr (True, s))) (going_live i)" if "busy i s" for s
    by (rule bnd2, rule busy_on_pcb [OF that], rule post_mono [OF tcp_send_empty_ack_sends])
      (auto intro: keeps_fits sends_keeps simp: going_live_def busy_inv)
  show ?thesis
    unfolding input_refused_def
    by (rule get_tcp_bnd, rule if_post, rule bnd2, rule refused_busy [OF cb b], rule any_bnd, rule if_post, rule get_tcp_bnd, rule if_post,
        erule ack) (simp_all add: going_live_def busy_inv b)
qed

lemma tcp_input_pcb_found_inv: "callbacks_ok e \<Longrightarrow> busy i s \<Longrightarrow> post (tcp_input_pcb_found e g s i p) tcp_inv"
proof -
  assume cb: "callbacks_ok e" and b: "busy i s"
  have proc: "post (bnd (tcp_process e g (s\<lparr>tcp_input_pcb := Some i\<rparr>) i) (\<lambda>(err, s). if err \<noteq> ERR_ABRT then input_events e s i else Inr s)) tcp_inv"
    if "busy i s" for s
    by (rule bnd2, rule tcp_process_ready [OF cb], simp add: that, rule if_post, erule input_events_inv [OF cb]) (simp add: ready_inv)
  have main: "post (unless_aborted (input_refused e (s\<lparr>theap := h, t_in := t\<rparr>) i) (\<lambda>s.
      bnd (tcp_process e g (s\<lparr>tcp_input_pcb := Some i\<rparr>) i) (\<lambda>(err, s). if err \<noteq> ERR_ABRT then input_events e s i else Inr s))) tcp_inv" for h t
    unfolding unless_aborted_def
    by (rule bndP [where P = "\<lambda>a s. going_live i (a, s)"], rule post_mono, rule input_refused_going [OF cb, where i = i], simp add: b, simp add: split_beta,
        rule if_post, simp add: going_live_def, rule proc) (simp add: going_live_def)
  show ?thesis
    unfolding tcp_input_pcb_found_def Let_def
    by (rule any_bnd, rule post_bnd, rule main, rule any_bnd) simp
qed

lemma tcp_find_in: "post (tcp_find st m s is) (\<lambda>r. \<forall>i. r = Some i \<longrightarrow> i \<in> set is)"
  by (induction "is") (auto elim: post_mono)

lemma to_front_busy:
  assumes "tcp_inv s" and "i \<in> set (tcp_active_pcbs s)"
  shows "busy i (s\<lparr>tcp_active_pcbs := i # remove1 i (tcp_active_pcbs s)\<rparr>)"
proof -
  obtain c where "tcp_at s i = Some c" "live c" using assms by (auto simp: tcp_inv_def lists_ok_def list_all_iff tcp_holds_def split: option.splits)
  moreover have "set (i # remove1 i (tcp_active_pcbs s)) = set (tcp_active_pcbs s)" "distinct (i # remove1 i (tcp_active_pcbs s))"
    using assms by (auto simp: tcp_inv_def lists_ok_def)
  ultimately show ?thesis
    using assms inv_pcb [OF assms(1)] by (auto simp: busy_def live_at_def tcp_inv_def lists_ok_def pcbs_ok_def list_all_iff tcp_holds_def)
qed

lemma tcp_input_demux_inv: "callbacks_ok e \<Longrightarrow> tcp_inv s \<Longrightarrow> post (tcp_input_demux e g s p inp) tcp_inv"
proof -
  assume cb: "callbacks_ok e" and inv: "tcp_inv s"
  then have g0: "good s s" by (simp add: good_refl)
  have free: "post (bnd m (\<lambda>s. bnd (pbuf_free (theap s) p) (\<lambda>(_, h). Inr (s\<lparr>theap := h\<rparr>)))) tcp_inv" if "post m (good s)" for m
    by (rule post_bnd [OF that], rule any_bnd) (auto simp: good_inv)
  show ?thesis
    unfolding tcp_input_demux_def Let_def
    apply (rule any_bnd, rule any_bnd, rule post_bnd, rule tcp_find_in, rule opt_post)
     apply (rule any_bnd, rule opt_post)
      apply (cases "tcp_listen_pcbs s")
       apply (simp only: list.case, rule post_bnd [where P = tcp_inv], rule if_post, rule post_mono, rule input_rst_good [OF g0], erule good_inv)
        apply (simp add: inv)
       apply (rule post_bnd [where P = tcp_inv], rule any_bnd, auto)[1]
      apply (simp only: list.case, rule free, rule tcp_listen_input_good [OF cb g0])
     apply (rule free, rule tcp_timewait_input_good [OF g0])
    apply (rule post_bnd, rule tcp_input_pcb_found_inv [OF cb], rule to_front_busy [OF inv], simp, simp)
    done
qed

lemma tcp_input_inv: "callbacks_ok e \<Longrightarrow> tcp_inv s \<Longrightarrow> post (tcp_input e g s p inp) tcp_inv"
proof -
  assume cb: "callbacks_ok e" and inv: "tcp_inv s"
  show ?thesis
    unfolding tcp_input_def Let_def
    apply (rule assert_post, rule any_bnd, rule if_post, simp add: inv post_any)
    apply (rule if_post, simp add: inv post_any, rule any_bnd, rule if_post, simp add: inv post_any)
    apply (rule any_bnd, rule pair_post, rule pair_post, rule if_post, simp add: inv post_any)
    apply (rule any_bnd, rule pair_post, rule pair_post, rule if_post, rule tcp_input_demux_inv [OF cb], simp add: inv)
    apply (simp add: inv post_any)
    done
qed

end
