(* ===== verification/Tcp_States.thy ===== *)
theory Tcp_States
  imports Tcp_Segments
begin

text \<open>
  The state machine of a connection: the state a segment leads to is the one of the diagram of RFC 793.
\<close>

text \<open>
  The diagram: the next state if our SYN is acknowledged (\<open>syn\<close>), if the FIN of the peer has been reached in the sequence
  (\<open>fin\<close>) and if everything we sent, our FIN included, is acknowledged (\<open>ack\<close>).
\<close>

definition rfc793 :: "bool \<Rightarrow> bool \<Rightarrow> bool \<Rightarrow> tcp_state \<Rightarrow> tcp_state" where
  "rfc793 syn fin ack st = (case st of
     SYN_SENT \<Rightarrow> if syn then ESTABLISHED else SYN_SENT
   | SYN_RCVD \<Rightarrow> if syn then if fin then CLOSE_WAIT else ESTABLISHED else SYN_RCVD
   | ESTABLISHED \<Rightarrow> if fin then CLOSE_WAIT else ESTABLISHED
   | FIN_WAIT_1 \<Rightarrow> if fin then if ack then TIME_WAIT else CLOSING else if ack then FIN_WAIT_2 else FIN_WAIT_1
   | FIN_WAIT_2 \<Rightarrow> if fin then TIME_WAIT else FIN_WAIT_2
   | CLOSING \<Rightarrow> if ack then TIME_WAIT else CLOSING
   | LAST_ACK \<Rightarrow> if ack then CLOSED else LAST_ACK
   | _ \<Rightarrow> st)"

text \<open>The segment \<open>t\<close> acknowledges the SYN of \<open>c\<close>: to a SYN alone the answer is exactly one SYN with an ACK.\<close>

definition acks_syn :: "tcp_in \<Rightarrow> tcp_pcb \<Rightarrow> bool" where
  "acks_syn t c \<longleftrightarrow> i_flags t AND TCP_ACK \<noteq> 0
     \<and> (if t_state c = SYN_SENT then i_flags t AND TCP_SYN \<noteq> 0 \<and> ackno t = lastack c + 1
        else TCP_SEQ_BETWEEN (ackno t) (lastack c + 1) (snd_nxt c))"

text \<open>The state after the options and \<^verbatim>\<open>tcp_receive\<close>; there, the segment acknowledges all that was sent and nothing waits to be sent.\<close>

definition received :: "tcp_env \<Rightarrow> tcp_globals \<Rightarrow> nat \<Rightarrow> tcp_pcb \<Rightarrow> tcp_globals outcome" where
  "received e s i c =
     bnd (tcp_parseopt (theap s) (t_in s)
       (c\<lparr>tmr := (if t_flags c AND TF_RXCLOSED = 0 then tcp_ticks s else tmr c), keep_cnt_sent := 0, persist_probe := 0\<rparr>)) (\<lambda>c.
     receive_on e (set_tcp s i c) i)"

definition acks_fin :: "tcp_env \<Rightarrow> tcp_globals \<Rightarrow> nat \<Rightarrow> tcp_pcb \<Rightarrow> bool" where
  "acks_fin e s i c \<longleftrightarrow> i_flags (t_in s) AND TCP_ACK \<noteq> 0
     \<and> (case received e s i c of Inl _ \<Rightarrow> False
        | Inr s1 \<Rightarrow> (case tcp_at s1 i of None \<Rightarrow> False | Some c1 \<Rightarrow> ackno (t_in s) = snd_nxt c1 \<and> unsent c1 = []))"

text \<open>A reset that is to be believed.\<close>

definition rst_valid :: "tcp_in \<Rightarrow> tcp_pcb \<Rightarrow> bool" where
  "rst_valid t c \<longleftrightarrow> (if t_state c = SYN_SENT then ackno t = snd_nxt c else seqno t = rcv_nxt c)"

definition state_at :: "nat \<Rightarrow> tcp_globals \<Rightarrow> tcp_state option" where
  "state_at i s = map_option t_state (tcp_at s i)"

text \<open>Callbacks that do not close connections, unless they say so by \<^verbatim>\<open>ERR_ABRT\<close>.\<close>

definition keeps_states :: "tcp_env \<Rightarrow> bool" where
  "keeps_states e \<longleftrightarrow>
     (\<forall>f arg p err s. post (app_accept e f arg p err s) (\<lambda>(r, s'). r \<noteq> ERR_ABRT \<longrightarrow> (\<forall>i. state_at i s' = state_at i s)))
   \<and> (\<forall>f arg i err s. post (app_connected e f arg i err s) (\<lambda>(r, s'). r \<noteq> ERR_ABRT \<longrightarrow> (\<forall>i. state_at i s' = state_at i s)))"

lemma state_set [simp]: "state_at i (set_tcp s i c) = Some (t_state c)"
  by (simp add: state_at_def)

lemma state_upd [simp]:
  "state_at i (s\<lparr>t_in := t\<rparr>) = state_at i s" "state_at i (s\<lparr>theap := h\<rparr>) = state_at i s" "state_at i (tcp_trigger_input_pcb_close s) = state_at i s"
  by (simp_all add: state_at_def tcp_trigger_input_pcb_close_def)

lemma state_view: "view s' = view s \<Longrightarrow> state_at i s' = state_at i s"
  by (simp add: view_def state_at_def)

lemma on_pcb_state:
  assumes "\<And>cx h c. post (f cx h c) (\<lambda>(r, c', h'). keeps_pcb c c')"
  shows "post (on_pcb s i f) (\<lambda>(r, s'). state_at i s' = state_at i s \<and> t_in s' = t_in s)"
  unfolding on_pcb_def
  by (rule get_tcp_bnd, rule post_bnd, rule assms) (auto simp: keeps_pcb_def state_at_def)

text \<open>What \<^verbatim>\<open>tcp_receive\<close> does to the state: nothing, or the move to \<^verbatim>\<open>CLOSE-WAIT\<close>.\<close>

lemma receive_on_state:
  "post (receive_on e s i) (\<lambda>s'. (state_at i s' = state_at i s \<or> state_at i s = Some ESTABLISHED \<and> state_at i s' = Some CLOSE_WAIT \<and> got_fin s')
     \<and> i_flags (t_in s') = i_flags (t_in s) \<and> ackno (t_in s') = ackno (t_in s)
     \<and> recv_flags (t_in s') \<in> {recv_flags (t_in s), recv_flags (t_in s) OR TF_GOT_FIN})"
  unfolding receive_on_def
  by (rule get_tcp_bnd, rule post_bnd, rule tcp_receive_receives)
    (auto simp: receives_def state_at_def got_fin_def fin_seen_def dest: in_core_eqD)

lemma to_time_wait_state: "post (to_time_wait s i) (\<lambda>s'. state_at i s' = Some TIME_WAIT \<and> t_in s' = t_in s)"
proof -
  have purge: "post (bnd (tcp_pcb_purge h c) (\<lambda>(c, h). Inr ((), c, h))) (\<lambda>(r, c', h'). keeps_pcb c c')" for h c
    by simp (rule post_mono [OF tcp_pcb_purge_keeps], auto)
  have reg: "post (TCP_REG l s i) (\<lambda>s'. state_at i s' = state_at i s \<and> t_in s' = t_in s)" for l s
    by (cases l) (simp_all add: TCP_REG_def need_timer_def state_at_def post_any)
  show ?thesis
    unfolding to_time_wait_def
    by (rule bndP, rule on_pcb_state, rule purge, rule post_bnd [where P = "\<lambda>s'. state_at i s' = Some TIME_WAIT \<and> t_in s' = t_in s"])
      (auto simp: upd_pcb_def TCP_RMV_ACTIVE_def intro!: post_mono [OF reg])
qed

lemma fin_set [simp]: "t_in (set_tcp s i c) = t_in s"
  by (simp add: set_tcp_def)

lemma got_fin_in: "t_in s' = t_in s \<Longrightarrow> got_fin s' = got_fin s"
  by (simp add: got_fin_def)

text \<open>
  The state \<open>s'\<close> is the one the diagram gives for the state \<open>st\<close>, where \<open>fin\<close> is what \<^verbatim>\<open>tcp_receive\<close> has found; a connection in
  \<^verbatim>\<open>LAST-ACK\<close> is marked for its end and ends later.
\<close>

definition next_ok :: "nat \<Rightarrow> bool \<Rightarrow> bool \<Rightarrow> tcp_state \<Rightarrow> tcp_globals \<Rightarrow> bool" where
  "next_ok i syn ack st s' \<longleftrightarrow> (\<exists>st'. state_at i s' = Some st'
     \<and> (if st = LAST_ACK \<and> recv_flags (t_in s') AND TF_CLOSED \<noteq> 0 then CLOSED else st') = rfc793 syn (got_fin s') ack st)"

lemma next_okI:
  "state_at i s' = Some (rfc793 syn (got_fin s') ack st) \<Longrightarrow> st \<noteq> LAST_ACK \<Longrightarrow> next_ok i syn ack st s'"
  by (simp add: next_ok_def)

lemma to_close_wait_state:
  "post (to_close_wait s i) (\<lambda>s'. got_fin s' = got_fin s \<and> state_at i s' = (if got_fin s then Some CLOSE_WAIT else state_at i s))"
  by (auto simp: to_close_wait_def upd_pcb_def got_fin_def)

lemma to_close_wait_next:
  assumes "state_at i s = Some st \<or> st = ESTABLISHED \<and> state_at i s = Some CLOSE_WAIT \<and> got_fin s" and "st \<in> {ESTABLISHED, CLOSE_WAIT}"
  shows "post (to_close_wait s i) (next_ok i syn ack st)"
  by (rule post_mono [OF to_close_wait_state], rule next_okI) (use assms in \<open>auto simp: rfc793_def\<close>)

lemma to_time_wait_next:
  assumes "rfc793 syn (got_fin s) ack st = TIME_WAIT" and "st \<noteq> LAST_ACK"
  shows "post (to_time_wait s i) (next_ok i syn ack st)"
  by (rule post_mono [OF to_time_wait_state], rule next_okI) (use assms in \<open>auto dest!: got_fin_in\<close>)

lemma process_fin_wait_1_next:
  assumes "tcp_at s i = Some c" and "t_state c = FIN_WAIT_1"
  shows "post (process_fin_wait_1 s i) (next_ok i syn (all_acked (t_in s) c) FIN_WAIT_1)"
proof -
  have gt: "get_tcp s i = Inr c" using assms(1) by (simp add: get_tcp_def)
  show ?thesis unfolding process_fin_wait_1_def gt bnd_Inr
    by (intro if_post to_time_wait_next) (use assms in \<open>auto simp: next_ok_def rfc793_def got_fin_def state_at_def\<close>)
qed

lemma process_fin_wait_2_next:
  assumes "state_at i s = Some FIN_WAIT_2"
  shows "post (process_fin_wait_2 s i) (next_ok i syn ack FIN_WAIT_2)"
  unfolding process_fin_wait_2_def
  by (rule if_post, rule post_bnd [where P = "\<lambda>s'. t_in s' = t_in s"], simp add: upd_pcb_def, rule to_time_wait_next)
    (use assms in \<open>auto simp: next_ok_def rfc793_def dest!: got_fin_in\<close>)

lemma process_closing_next:
  assumes "tcp_at s i = Some c" and "t_state c = CLOSING"
  shows "post (process_closing s i) (next_ok i syn (all_acked (t_in s) c) CLOSING)"
proof -
  have gt: "get_tcp s i = Inr c" using assms(1) by (simp add: get_tcp_def)
  show ?thesis unfolding process_closing_def gt bnd_Inr
    by (intro if_post to_time_wait_next) (use assms in \<open>auto simp: next_ok_def rfc793_def state_at_def\<close>)
qed

lemma process_last_ack_next:
  assumes "tcp_at s i = Some c" and "t_state c = LAST_ACK" and "recv_flags (t_in s) \<in> {0, TF_GOT_FIN}"
  shows "post (process_last_ack s i) (next_ok i syn (all_acked (t_in s) c) LAST_ACK)"
  using assms by (auto simp: process_last_ack_def get_tcp_def next_ok_def rfc793_def state_at_def tcp_trigger_input_pcb_close_def)

text \<open>The states in which only \<^verbatim>\<open>tcp_receive\<close> and the move that follows it matter.\<close>

lemma receive_next:
  assumes "st \<in> {ESTABLISHED, CLOSE_WAIT, FIN_WAIT_1, FIN_WAIT_2, CLOSING, LAST_ACK}" and "state_at i s = Some st" and "recv_flags (t_in s) = 0"
    and "receive_on e s i = Inr s1" and "tcp_at s1 i = Some c1" and "tcp_process_state e g s i st = Inr (err, s')"
  shows "next_ok i syn (all_acked (t_in s1) c1) st s'"
proof -
  note r = postD [OF receive_on_state assms(4)]
  have st: "state_at i s1 = Some st \<or> st = ESTABLISHED \<and> state_at i s1 = Some CLOSE_WAIT \<and> got_fin s1" using r assms(2) by auto
  then have c1: "t_state c1 = st \<or> st = ESTABLISHED" using assms(5) by (auto simp: state_at_def)
  have fl: "recv_flags (t_in s1) \<in> {0, TF_GOT_FIN}" using r assms(3) by auto
  have "post (tcp_process_state e g s i st) (\<lambda>(err, s'). next_ok i syn (all_acked (t_in s1) c1) st s')"
    using assms(1) st c1 fl assms(4,5) unfolding tcp_process_state_def
    by (auto simp del: post_simps(3) intro!: post_bnd [OF to_close_wait_next] post_bnd [OF process_fin_wait_1_next] post_bnd [OF process_fin_wait_2_next]
        post_bnd [OF process_closing_next] post_bnd [OF process_last_ack_next])
  from postD [OF this assms(6)] show ?thesis by simp
qed

lemma app_states:
  assumes "keeps_states e"
  shows "post (app_accept e f arg p err s) (\<lambda>(r, s'). r \<noteq> ERR_ABRT \<longrightarrow> state_at j s' = state_at j s)"
    "post (app_connected e f arg i err s) (\<lambda>(r, s'). r \<noteq> ERR_ABRT \<longrightarrow> state_at j s' = state_at j s)"
  by (rule post_mono [of _ "\<lambda>(r, s'). r \<noteq> ERR_ABRT \<longrightarrow> (\<forall>i. state_at i s' = state_at i s)"]; use assms in \<open>auto simp: keeps_states_def\<close>)+

lemma connected_state: "keeps_states e \<Longrightarrow> post (TCP_EVENT_CONNECTED e s i err) (\<lambda>(r, s'). r \<noteq> ERR_ABRT \<longrightarrow> state_at j s' = state_at j s)"
  by (simp add: TCP_EVENT_CONNECTED_def app_states)

lemma accept_state: "keeps_states e \<Longrightarrow> post (TCP_EVENT_ACCEPT e s l p arg err) (\<lambda>(r, s'). r \<noteq> ERR_ABRT \<longrightarrow> state_at j s' = state_at j s)"
  unfolding TCP_EVENT_ACCEPT_def
  by (rule get_lpcb_bnd) (auto simp: tcp_accept_null_def post_any app_states split: option.split tcp_accept_fn.split)

lemma process_syn_sent_next:
  assumes "keeps_states e" and "tcp_at s i = Some c" and "t_state c = SYN_SENT"
  shows "post (process_syn_sent e g s i) (\<lambda>(err, s'). err \<noteq> ERR_ABRT \<longrightarrow> next_ok i (acks_syn (t_in s) c) ack SYN_SENT s')"
proof -
  have rexmit: "post (bnd (tcp_rexmit_rto e cx h c) (\<lambda>(c, h). Inr ((), c, h))) (\<lambda>(r, c', h'). keeps_pcb c c')" for cx h c
    by simp (auto intro!: post_mono [OF tcp_rexmit_rto_sends] sends_keeps)
  have acked: "post (bnd (syn_acked h c) (\<lambda>(c, h). Inr ((), c, h))) (\<lambda>(r, c', h'). keeps_pcb c c')" for h c
    by simp (auto intro!: post_mono [OF syn_acked_keeps])
  have now: "post (upd_pcb s1 i tcp_ack_now) (\<lambda>s'. state_at i s' = state_at i s1)" for s1
    by (auto simp: upd_pcb_def state_at_def)
  have gt: "get_tcp s i = Inr c" and st: "state_at i s = Some SYN_SENT" using assms(2,3) by (simp_all add: get_tcp_def state_at_def)
  show ?thesis
    unfolding process_syn_sent_def Let_def gt bnd_Inr
    apply (rule if_post, rule any_bnd)
     apply (rule bndP, rule on_pcb_state, rule acked, rule bndP, rule connected_state [OF assms(1), where j = i], rule if_post, simp)
     apply (rule post_bnd [OF now])
     apply (use assms(3) in \<open>auto simp: acks_syn_def next_ok_def rfc793_def\<close>)[1]
    apply (rule if_post, rule post_bnd [OF input_rst_view], drule state_view [where i = i], rule if_post, rule bndP, rule on_pcb_state, rule rexmit)
    apply (use assms(3) st in \<open>auto simp: acks_syn_def next_ok_def rfc793_def\<close>)
    done
qed

lemma process_syn_rcvd_next:
  assumes "keeps_states e" and "tcp_at s i = Some c" and "t_state c = SYN_RCVD"
  shows "post (process_syn_rcvd e g s i) (\<lambda>(err, s'). err \<noteq> ERR_ABRT \<longrightarrow> next_ok i (acks_syn (t_in s) c) ack SYN_RCVD s')"
proof -
  have accept: "post (case listener c of None \<Rightarrow> Inr (ERR_VAL, s1)
       | Some l \<Rightarrow> bnd (get_lpcb s1 l) (\<lambda>lp. lwip_assert (l_accept lp \<noteq> None) (TCP_EVENT_ACCEPT e s1 l (Some i) arg err)))
      (\<lambda>(r, s'). r = ERR_OK \<longrightarrow> state_at i s' = state_at i s1)" for c s1 arg err
    by (simp, intro allI impI, rule post_mono [OF accept_state [OF assms(1)]]) auto
  have rexmit: "post (tcp_rexmit h c) (\<lambda>(err, c'). t_state c' = t_state c)" for h c
    by (rule post_mono [OF tcp_rexmit_sends]) (auto dest!: sends_keeps simp: keeps_pcb_def)
  have fin: "post (bnd (upd_pcb s1 i (\<lambda>c. c\<lparr>cwnd := LWIP_TCP_CALC_INITIAL_CWND (mss c)\<rparr>)) (\<lambda>s. bnd (to_close_wait s i) (\<lambda>s. Inr (ERR_OK, s))))
      (\<lambda>(err, s'). err \<noteq> ERR_ABRT \<longrightarrow> next_ok i (acks_syn (t_in s) c) ack SYN_RCVD s')"
    if "state_at i s1 = Some ESTABLISHED \<or> state_at i s1 = Some CLOSE_WAIT \<and> got_fin s1" "acks_syn (t_in s) c" for s1
    by (rule post_bnd [where P = "\<lambda>s'. state_at i s' = state_at i s1 \<and> got_fin s' = got_fin s1"], simp add: upd_pcb_def state_at_def got_fin_def,
        rule post_bnd [OF to_close_wait_state]) (use that in \<open>auto simp: rfc793_def intro!: next_okI\<close>)
  have gt: "get_tcp s i = Inr c" and st: "state_at i s = Some SYN_RCVD" using assms(2,3) by (simp_all add: get_tcp_def state_at_def)
  show ?thesis
    unfolding process_syn_rcvd_def Let_def gt bnd_Inr
    apply (rule if_post, rule if_post)
      apply (rule bndP, rule accept, rule if_post, rule any_bnd, simp)
      apply (rule post_bnd [OF receive_on_state], rule fin)
       apply (auto simp: got_fin_def)[1]
      apply (use assms(3) in \<open>simp add: acks_syn_def\<close>)
     apply (rule post_bnd [OF input_rst_view], drule state_view [where i = i])
     apply (use assms(3) st in \<open>simp add: acks_syn_def next_ok_def rfc793_def\<close>)
    apply (rule if_post, rule post_bnd [OF rexmit])
     apply (use assms(3) st in \<open>auto simp: acks_syn_def next_ok_def rfc793_def\<close>)
    done
qed

lemma tcp_process_state_next:
  assumes "keeps_states e" and "tcp_at s i = Some c" and "recv_flags (t_in s) = 0" and "tcp_process_state e g s i (t_state c) = Inr (err, s')"
    and "err \<noteq> ERR_ABRT"
  shows "next_ok i (acks_syn (t_in s) c) (case receive_on e s i of Inl _ \<Rightarrow> False
    | Inr s1 \<Rightarrow> (case tcp_at s1 i of None \<Rightarrow> False | Some c1 \<Rightarrow> all_acked (t_in s1) c1)) (t_state c) s'" (is "next_ok i _ ?ack _ _")
proof -
  have st: "state_at i s = Some (t_state c)" using assms(2) by (simp add: state_at_def)
  consider (rcv) "t_state c \<in> {ESTABLISHED, CLOSE_WAIT, FIN_WAIT_1, FIN_WAIT_2, CLOSING, LAST_ACK}" | (syn_sent) "t_state c = SYN_SENT"
    | (syn_rcvd) "t_state c = SYN_RCVD" | (other) "t_state c \<in> {CLOSED, LISTEN, TIME_WAIT}" by (cases "t_state c") auto
  then show ?thesis
  proof cases
    case rcv
    then obtain s1 where s1: "receive_on e s i = Inr s1" using assms(4) by (auto simp: tcp_process_state_def bnd_eq_Inr_iff)
    then obtain c1 where "tcp_at s1 i = Some c1" using postD [OF receive_on_state s1] st by (auto simp: state_at_def)
    then show ?thesis using receive_next [OF rcv st assms(3) s1 _ assms(4)] s1 by simp
  next
    case syn_sent
    then show ?thesis using postD [OF process_syn_sent_next [OF assms(1,2)]] assms(4,5) by (fastforce simp: tcp_process_state_def)
  next
    case syn_rcvd
    then show ?thesis using postD [OF process_syn_rcvd_next [OF assms(1,2)]] assms(4,5) by (fastforce simp: tcp_process_state_def)
  next
    case other
    then show ?thesis using assms(4) st by (auto simp: tcp_process_state_def next_ok_def rfc793_def)
  qed
qed

text \<open>
  C6: The state machine of RFC 793. If the callbacks do not close connections behind the back of \<^verbatim>\<open>tcp_process\<close>, the pcb that a segment is
  processed for still exists afterwards, and its state is the one of the diagram: \<^verbatim>\<open>SYN-SENT\<close> and \<^verbatim>\<open>SYN-RECEIVED\<close> are left exactly when the
  acknowledgement number acknowledges our SYN, \<^verbatim>\<open>FIN-WAIT-1\<close>, \<^verbatim>\<open>CLOSING\<close> and \<^verbatim>\<open>LAST-ACK\<close> exactly when it acknowledges all that was
  sent, our FIN included, and nothing is left to send, or when the FIN of the peer is reached. A segment with RST, and one with SYN for a
  connection that has seen a SYN, changes no state; the reset is believed (\<^verbatim>\<open>ERR_RST\<close>, and the connection is marked for its end) exactly if
  its sequence number is the next one expected, in \<^verbatim>\<open>SYN-SENT\<close> if it acknowledges all that was sent.
\<close>

theorem tcp_process_rfc793:
  assumes "keeps_states e" and "tcp_at s i = Some c" and "recv_flags (t_in s) = 0"
    and "tcp_process e g s i = Inr (err, s')" and "err \<noteq> ERR_ABRT"
  shows "\<exists>c'. tcp_at s' i = Some c'
    \<and> (if i_flags (t_in s) AND TCP_RST \<noteq> 0 then t_state c' = t_state c
         \<and> err = (if rst_valid (t_in s) c then ERR_RST else ERR_OK) \<and> recv_flags (t_in s') = (if rst_valid (t_in s) c then TF_RESET else 0)
       else if i_flags (t_in s) AND TCP_SYN \<noteq> 0 \<and> t_state c \<notin> {SYN_SENT, SYN_RCVD} then t_state c' = t_state c
       else (if t_state c = LAST_ACK \<and> recv_flags (t_in s') AND TF_CLOSED \<noteq> 0 then CLOSED else t_state c')
         = rfc793 (acks_syn (t_in s) c) (got_fin s') (acks_fin e s i c) (t_state c))"
proof -
  let ?c = "c\<lparr>tmr := (if t_flags c AND TF_RXCLOSED = 0 then tcp_ticks s else tmr c), keep_cnt_sent := 0, persist_probe := 0\<rparr>"
  have gt: "get_tcp s i = Inr c" using assms(2) by (simp add: get_tcp_def)
  have eq: "(if t_flags c AND TF_RXCLOSED = 0 then c\<lparr>tmr := tcp_ticks s\<rparr> else c)\<lparr>keep_cnt_sent := 0, persist_probe := 0\<rparr> = ?c" by simp
  show ?thesis
  proof (cases "i_flags (t_in s) AND TCP_RST \<noteq> 0 \<or> i_flags (t_in s) AND TCP_SYN \<noteq> 0 \<and> t_state c \<notin> {SYN_SENT, SYN_RCVD}")
    case True
    then show ?thesis using assms(3,4) gt
      by (auto simp: tcp_process_def process_rst_def rst_valid_def Let_def bnd_eq_Inr_iff lwip_assert_def split: if_splits)
  next
    case False
    then obtain c2 where c2: "tcp_parseopt (theap s) (t_in s) ?c = Inr c2" "tcp_process_state e g (set_tcp s i c2) i (t_state c2) = Inr (err, s')"
      using assms(4) unfolding tcp_process_def gt bnd_Inr Let_def eq by (auto simp: bnd_eq_Inr_iff)
    obtain m where "c2 = ?c\<lparr>mss := m\<rparr>" using postD [OF tcp_parseopt_only c2(1)] by blast
    then have k: "t_state c2 = t_state c" "acks_syn t c2 = acks_syn t c" for t by (simp_all add: acks_syn_def)
    have ack: "acks_fin e s i c = (case receive_on e (set_tcp s i c2) i of Inl _ \<Rightarrow> False
      | Inr s1 \<Rightarrow> (case tcp_at s1 i of None \<Rightarrow> False | Some c1 \<Rightarrow> all_acked (t_in s1) c1))"
      using c2(1) postD [OF receive_on_state [of e "set_tcp s i c2" i]]
      by (auto simp: acks_fin_def received_def all_acked_def split: sum.split option.split)
    show ?thesis using False tcp_process_state_next [OF assms(1) _ _ c2(2) assms(5)] assms(3) unfolding ack
      by (auto simp: next_ok_def k state_at_def)
  qed
qed

text \<open>An established connection, and the segment with three bytes and a FIN that closes it.\<close>

definition sample_fin :: tcp_globals where
  "sample_fin = sample_tcp_start\<lparr>
     theap := sample_seg_heap\<lparr>mem := (\<lambda>_. None)(0 \<mapsto>
       [0x50, 0, 0, 0xc0, 100, 0, 0, 0, 51, 0, 0, 0, 0x60, 0x19, 0, 0x10, 0, 0, 0, 0, 2, 4, 5, 0xb4, 7, 8, 9])\<rparr>,
     tcp_at := (\<lambda>_. None)(3 \<mapsto> sample_tcp_pcb), tcp_active_pcbs := [3], next_tcp := 4,
     t_in := sample_tcp_in\<lparr>i_flags := 0x19, tcplen := 4\<rparr>\<rparr>"

definition sample_fin_ip :: ip_globals where
  "sample_fin_ip = \<lparr>current_netif = sample_out_netif, current_is_v6 = False, current_ip_header_tot_len = 20,
     current_iphdr_src = IP4_ADDR_ANY, current_iphdr_dest = IP4_ADDR_ANY\<rparr>"

lemma sample_fin_run:
  "bnd (tcp_process sample_tcp_env sample_fin_ip sample_fin 3) (\<lambda>(err, s). Inr (err = ERR_OK, state_at 3 s)) = Inr (True, Some CLOSE_WAIT)"
  by code_simp

theorem tcp_process_rfc793_witness:
  "\<exists>s' c'. tcp_process sample_tcp_env sample_fin_ip sample_fin 3 = Inr (ERR_OK, s') \<and> tcp_at s' 3 = Some c' \<and> t_state c' = CLOSE_WAIT
     \<and> t_state c' = rfc793 (acks_syn (t_in sample_fin) sample_tcp_pcb) (got_fin s') (acks_fin sample_tcp_env sample_fin 3 sample_tcp_pcb) ESTABLISHED"
proof -
  have ks: "keeps_states sample_tcp_env" by (simp add: keeps_states_def sample_tcp_env_def)
  obtain s' where s': "tcp_process sample_tcp_env sample_fin_ip sample_fin 3 = Inr (ERR_OK, s')" "state_at 3 s' = Some CLOSE_WAIT"
    using sample_fin_run by (auto simp: bnd_eq_Inr_iff)
  have c: "tcp_at sample_fin 3 = Some sample_tcp_pcb" "t_state sample_tcp_pcb = ESTABLISHED" "i_flags (t_in sample_fin) = 0x19"
    "recv_flags (t_in sample_fin) = 0"
    by (simp_all add: sample_fin_def sample_tcp_pcb_def sample_tcp_in_def)
  show ?thesis using tcp_process_rfc793 [OF ks c(1,4) s'(1)] s' c by (auto simp: state_at_def)
qed

end
