(* ===== verification/Tcp_Replies.thy ===== *)
theory Tcp_Replies
  imports Tcp_Rules Udp_Packets Icmp_C
begin

text \<open>
  The segments that TCP answers with on its own account: a header without data, an ACK or a reset. What leaves through
  \<^verbatim>\<open>netif->output\<close> is given byte by byte.
\<close>

section \<open>Segments without data\<close>

definition tcp_header :: "u16_t \<Rightarrow> u16_t \<Rightarrow> u32_t \<Rightarrow> u32_t \<Rightarrow> u8_t \<Rightarrow> u16_t \<Rightarrow> u16_t \<Rightarrow> bytes" where
  "tcp_header src dest seqn ackn fl wnd chksum = be16 src @ be16 dest @ u32_bytes (lwip_htonl seqn) @ u32_bytes (lwip_htonl ackn)
     @ [0x50, fl] @ be16 wnd @ u16_bytes chksum @ [0, 0]"

definition tcp_control :: "ip_addr_t \<Rightarrow> ip_addr_t \<Rightarrow> u16_t \<Rightarrow> u16_t \<Rightarrow> u32_t \<Rightarrow> u32_t \<Rightarrow> u8_t \<Rightarrow> u16_t \<Rightarrow> bytes" where
  "tcp_control saddr daddr src dest seqn ackn fl wnd =
     tcp_header src dest seqn ackn fl wnd (internet_checksum (pseudo_of saddr daddr 6 20 @ tcp_header src dest seqn ackn fl wnd 0))"

lemma length_tcp_header [simp]:
  "length (tcp_header src dest seqn ackn fl wnd chksum) = 20" "length (tcp_control saddr daddr src dest seqn ackn fl wnd) = 20"
  by (simp_all add: tcp_header_def tcp_control_def)

lemma internet_checksum_stored:
  assumes "even (length pre)" and "c = internet_checksum (pre @ 0 # 0 # suf)"
  shows "internet_checksum (pre @ u16_bytes c @ suf) = 0"
proof -
  let ?n = "lsum pre + lsum suf"
  have "unat c = 65535 - ocnorm ?n" unfolding assms(2) unat_internet_checksum using assms(1) by (simp add: lsum_append)
  moreover have "lsum (pre @ u16_bytes c @ suf) = ?n + unat c" using assms(1) by (simp add: lsum_append lsum_u16_bytes)
  ultimately have "unat (internet_checksum (pre @ u16_bytes c @ suf)) = 0" unfolding unat_internet_checksum using ocnorm_complement [of ?n] by simp
  then show ?thesis by (simp only: unat_eq_zero)
qed

text \<open>The checksum of such a segment is correct.\<close>

lemma tcp_control_verifies: "internet_checksum (pseudo_of saddr daddr 6 20 @ tcp_control saddr daddr src dest seqn ackn fl wnd) = 0"
proof -
  let ?pre = "pseudo_of saddr daddr 6 20 @ be16 src @ be16 dest @ u32_bytes (lwip_htonl seqn) @ u32_bytes (lwip_htonl ackn) @ [0x50, fl] @ be16 wnd"
  have e: "pseudo_of saddr daddr 6 20 @ tcp_header src dest seqn ackn fl wnd c = ?pre @ u16_bytes c @ [0, 0]" for c by (simp add: tcp_header_def)
  have "u16_bytes 0 = [0, 0]" "even (length ?pre)" by (simp_all add: u16_bytes_def)
  then show ?thesis unfolding tcp_control_def e by (intro internet_checksum_stored) simp_all
qed

lemma hdrlen_flags: "u16_bytes (lwip_htons (push_bit 12 5 OR ucast fl)) = [0x50, fl :: u8_t]"
proof -
  have "drop_bit 8 (push_bit 12 5 OR ucast fl) = (0x50 :: u16_t)"
  proof -
    have "drop_bit 8 (ucast fl :: u16_t) = 0" by (rule bit_word_eqI) (auto simp: bit_simps dest: bit_imp_le_length)
    then show ?thesis by simp
  qed
  moreover have "ucast (push_bit 12 5 OR ucast fl :: u16_t) = fl"
  proof (rule bit_word_eqI)
    fix n assume "n < LENGTH(8)"
    then show "bit (ucast (push_bit 12 5 OR ucast fl :: u16_t) :: u8_t) n = bit fl n" by (auto simp: bit_simps simp del: push_bit_numeral)
  qed
  ultimately show ?thesis by (simp add: u16_bytes_htons be16_def)
qed

lemma tcp_output_alloc_header_common_eq:
  assumes "\<not> oom h (nextid h)"
  obtains pre hdr where "length pre = 34" and "length hdr = 20"
    and "tcp_output_alloc_header_common h ackn 0 0 (lwip_htonl seqn) src dest fl wnd
      = Inr (Some (nextid h), with_ram (h\<lparr>nextid := Suc (nextid h)\<rparr>) (nextid h) (pre @ hdr) (tcp_header src dest seqn ackn fl wnd 0))"
proof -
  let ?a = "nextid h" and ?h = "h\<lparr>nextid := Suc (nextid h)\<rparr>"
  obtain pre hdr d where al: "pbuf_alloc h PBUF_IP 20 PBUF_RAM = Inr (Some ?a, with_ram ?h ?a (pre @ hdr) d)"
    "length pre = 34" "length hdr = 20" "length d = 20"
  proof
    show "pbuf_alloc h PBUF_IP 20 PBUF_RAM = Inr (Some ?a, with_ram ?h ?a (take 34 (map (junk h) [0..<54]) @ drop 34 (map (junk h) [0..<54]))
      (map (junk h) [54..<74]))" using ram_alloc [of 54 20 h] assms(1) by simp
  qed simp_all
  have d: "uint (of_nat (length (pre @ hdr)) :: u16_t) = 54" using uint_of_nat_16 [of "length (pre @ hdr)"] al(2,3) by simp
  define hh where "hh x = with_ram ?h ?a (pre @ hdr) (x @ drop (length x) d)" for x
  have w: "mem_write (hh xs) (Some (?a, 54)) n zs = Inr (hh (xs @ zs))" if "length xs + length zs \<le> 20" "n = length xs" for xs zs n
    using ram_write [of "pre @ hdr" "xs @ drop (length xs) d" "length xs" zs ?h ?a, unfolded d] that al(2-4) by (simp add: hh_def patch_def add.commute)
  have b: "pbuf_alloc h PBUF_IP 20 PBUF_RAM = Inr (Some ?a, hh [])" "pget (hh []) (Some ?a) = Inr (ram_pbuf ?a 54 20)"
    using al by (simp_all add: hh_def)
  let ?x2 = "u16_bytes (lwip_htons src) @ u16_bytes (lwip_htons dest)"
  let ?x4 = "?x2 @ u32_bytes (lwip_htonl seqn) @ u32_bytes (lwip_htonl ackn)"
  let ?x6 = "?x4 @ [0x50, fl] @ u16_bytes (lwip_htons wnd)"
  let ?x8 = "?x6 @ u16_bytes 0 @ u16_bytes 0"
  have e: "hh ?x8 = with_ram ?h ?a (pre @ hdr) (tcp_header src dest seqn ackn fl wnd 0)"
    using al(4) unfolding hh_def by (simp add: tcp_header_def u16_bytes_htons) (simp add: u16_bytes_def)
  have "tcp_output_alloc_header_common h ackn 0 0 (lwip_htonl seqn) src dest fl wnd = Inr (Some ?a, hh ?x8)"
    using b by (simp add: tcp_output_alloc_header_common_def store16_def store32_def TCPH_HDRLEN_FLAGS_SET_def hdrlen_flags [simplified] w)
  then show thesis using that [OF al(2,3)] unfolding e by blast
qed


text \<open>The address a segment comes from, and the parameters of its IP header.\<close>

definition ttl_tos :: "(u8_t \<times> u8_t \<times> u8_t) option \<Rightarrow> u8_t \<times> u8_t" where
  "ttl_tos pcb = (case pcb of None \<Rightarrow> (TCP_TTL, 0) | Some (_, ttl', tos') \<Rightarrow> (ttl', tos'))"

definition sent_also :: "heap \<Rightarrow> bytes \<Rightarrow> net_state" where
  "sent_also h pkt = (net h)\<lparr>ip_id := ip_id (net h) + 1, sent := sent (net h) @ [pkt]\<rparr>"

lemma tcp_output_control_segment_eq:
  assumes "heap_ok h" and "a < nextid h" and "length pre = 34" and "length hdr = 20"
    and "tcp_route e nifs pcb saddr daddr = Some nif" and "\<not> IP_IS_V6 daddr" and "ip_2_ip4 saddr \<noteq> 0" and "ip_2_ip4 daddr \<noteq> n_ip_addr nif"
    and "n_mtu nif = 0 \<or> 40 \<le> unat (n_mtu nif)" and "length (u_addr saddr) = 4" and "length (u_addr daddr) = 4"
    and "pkt = ip4_packet (snd (ttl_tos pcb)) (ip_id (net h)) (fst (ttl_tos pcb)) 6 (ip_2_ip4 saddr) (ip_2_ip4 daddr)
           (tcp_control saddr daddr src dest seqn ackn fl wnd)"
  shows "tcp_output_control_segment e nifs (with_ram h a (pre @ hdr) (tcp_header src dest seqn ackn fl wnd 0)) pcb (Some a) saddr daddr
    = Inr (ERR_OK, drop_objs {a} (h\<lparr>net := sent_also h pkt\<rparr>))"
proof -
  let ?d = "tcp_header src dest seqn ackn fl wnd 0" and ?c = "tcp_control saddr daddr src dest seqn ackn fl wnd"
  let ?h = "\<lambda>x. with_ram h a (pre @ hdr) x" and ?p = "Some (a, uint (of_nat (length (pre @ hdr)) :: u16_t))"
  have l: "length (pre @ hdr) + length ?d \<le> 65535" using assms(3,4) by simp
  note ch = ram_chain(1,2) [OF l, of h a]
  have ck: "ip_chksum_pseudo od (?h ?d) (Some a) 6 20 saddr daddr = Inr (internet_checksum (pseudo_of saddr daddr 6 20 @ ?d))" for od
    using ip_chksum_pseudo_of [OF ram_heap_ok [OF assms(1,2)] ch(1) assms(10,11)] unfolding ch(2) .
  have z: "u16_bytes 0 = [0, 0]" by (simp add: u16_bytes_def)
  have "patch ?d 16 (u16_bytes w) = tcp_header src dest seqn ackn fl wnd w" for w
    by (simp add: patch_def tcp_header_def be16_def u16_bytes_def u32_bytes_def)
  then have st: "store16 (?h ?d) ?p 16 w = Inr (?h (tcp_header src dest seqn ackn fl wnd w))" for w
    using ram_write [OF l, of 16 "u16_bytes w" h a] by (simp add: store16_def)
  have out: "ip4_output_if (t_odd e) (?h ?c) (Some a) (Some (ip_2_ip4 saddr)) (Some (ip_2_ip4 daddr)) (fst (ttl_tos pcb)) (snd (ttl_tos pcb)) 6 nif
      = Inr (ERR_OK, with_ram (h\<lparr>net := sent_also h pkt\<rparr>) a pre pkt)"
    using ram_output [of pre ?c hdr "ip_2_ip4 daddr" nif "t_odd e" h a "ip_2_ip4 saddr"] assms by (simp add: ip4_output_if_def sent_also_def)
  have free: "pbuf_free (with_ram (h\<lparr>net := n\<rparr>) a pre pkt) (Some a) = Inr (1, drop_objs {a} (h\<lparr>net := n\<rparr>))" for n
    using ram_free [of "h\<lparr>net := n\<rparr>" a pre pkt] assms(1,2) by simp
  show ?thesis using ck st out free assms(5,6)
    by (auto simp: tcp_output_control_segment_def Let_def tcp_ip_output_if_def ttl_tos_def tcp_control_def split: option.splits)
qed


text \<open>Where the segments of this section go: an IPv4 address of another host that there is a way to.\<close>

definition peer_at :: "tcp_env \<Rightarrow> netif list \<Rightarrow> (u8_t \<times> u8_t \<times> u8_t) option \<Rightarrow> ip_addr_t \<Rightarrow> ip_addr_t \<Rightarrow> bool" where
  "peer_at e nifs pcb saddr daddr \<longleftrightarrow> length (u_addr saddr) = 4 \<and> length (u_addr daddr) = 4 \<and> \<not> IP_IS_V6 daddr \<and> ip_2_ip4 saddr \<noteq> 0
     \<and> (case tcp_route e nifs pcb saddr daddr of None \<Rightarrow> False
        | Some nif \<Rightarrow> ip_2_ip4 daddr \<noteq> n_ip_addr nif \<and> (n_mtu nif = 0 \<or> 40 \<le> unat (n_mtu nif)))"

definition tcp_reply :: "(u8_t \<times> u8_t \<times> u8_t) option \<Rightarrow> u16_t \<Rightarrow> ip_addr_t \<Rightarrow> ip_addr_t \<Rightarrow> bytes \<Rightarrow> bytes" where
  "tcp_reply pcb ident saddr daddr sg = ip4_packet (snd (ttl_tos pcb)) ident (fst (ttl_tos pcb)) 6 (ip_2_ip4 saddr) (ip_2_ip4 daddr) sg"

text \<open>The heap behind an answer: nothing stays allocated, and if there was memory for it one packet has left.\<close>

definition answered :: "heap \<Rightarrow> bytes \<Rightarrow> heap" where
  "answered h pkt = (if oom h (nextid h) then h\<lparr>nextid := Suc (nextid h)\<rparr>
     else drop_objs {nextid h} (h\<lparr>nextid := Suc (nextid h), net := sent_also h pkt\<rparr>))"

lemma answered_keeps:
  assumes "heap_ok h"
  shows "pbufs (answered h pkt) = pbufs h" and "mem (answered h pkt) = mem h" and "heap_ok (answered h pkt)"
    and "sent (net (answered h pkt)) = sent (net h) @ (if oom h (nextid h) then [] else [pkt])"
proof -
  have "pbufs h (nextid h) = None" "mem h (nextid h) = None" using fresh [OF assms] by auto
  then show "pbufs (answered h pkt) = pbufs h" "mem (answered h pkt) = mem h"
    by (auto simp: answered_def drop_objs_def restrict_map_def fun_eq_iff)
  show "heap_ok (answered h pkt)" using heap_ok_Suc [OF assms] heap_ok_drop by (simp add: answered_def)
  show "sent (net (answered h pkt)) = sent (net h) @ (if oom h (nextid h) then [] else [pkt])"
    by (simp add: answered_def drop_objs_def sent_also_def)
qed

lemma control_answered:
  assumes "heap_ok h" and "peer_at e nifs pcb saddr daddr" and "sg = tcp_control saddr daddr src dest seqn ackn fl wnd"
  shows "oom h (nextid h) \<Longrightarrow> tcp_output_alloc_header_common h ackn 0 0 (lwip_htonl seqn) src dest fl wnd
      = Inr (None, answered h (tcp_reply pcb (ip_id (net h)) saddr daddr sg))"
    and "\<not> oom h (nextid h) \<Longrightarrow> \<exists>h1. tcp_output_alloc_header_common h ackn 0 0 (lwip_htonl seqn) src dest fl wnd = Inr (Some (nextid h), h1)
      \<and> tcp_output_control_segment e nifs h1 pcb (Some (nextid h)) saddr daddr
        = Inr (ERR_OK, answered h (tcp_reply pcb (ip_id (net h)) saddr daddr sg))"
proof -
  let ?pkt = "tcp_reply pcb (ip_id (net h)) saddr daddr sg" and ?a = "nextid h" and ?h = "h\<lparr>nextid := Suc (nextid h)\<rparr>"
  show "tcp_output_alloc_header_common h ackn 0 0 (lwip_htonl seqn) src dest fl wnd = Inr (None, answered h ?pkt)" if "oom h ?a"
    using that pbuf_alloc_ram_eq [of h 54 20] by (simp add: tcp_output_alloc_header_common_def answered_def)
  assume m: "\<not> oom h ?a"
  obtain pre hdr where al: "length pre = 34" "length hdr = 20" "tcp_output_alloc_header_common h ackn 0 0 (lwip_htonl seqn) src dest fl wnd
      = Inr (Some ?a, with_ram ?h ?a (pre @ hdr) (tcp_header src dest seqn ackn fl wnd 0))"
    by (rule tcp_output_alloc_header_common_eq [OF m])
  obtain nif where n: "tcp_route e nifs pcb saddr daddr = Some nif" "ip_2_ip4 daddr \<noteq> n_ip_addr nif" "n_mtu nif = 0 \<or> 40 \<le> unat (n_mtu nif)"
    using assms(2) by (auto simp: peer_at_def split: option.splits)
  have eq: "drop_objs {?a} (?h\<lparr>net := sent_also ?h ?pkt\<rparr>) = answered h ?pkt" using m by (simp add: answered_def sent_also_def)
  have "tcp_output_control_segment e nifs (with_ram ?h ?a (pre @ hdr) (tcp_header src dest seqn ackn fl wnd 0)) pcb (Some ?a) saddr daddr
      = Inr (ERR_OK, drop_objs {?a} (?h\<lparr>net := sent_also ?h ?pkt\<rparr>))"
    by (rule tcp_output_control_segment_eq [OF heap_ok_Suc [OF assms(1)] _ al(1,2) n(1) _ _ n(2,3)])
      (use assms(2,3) in \<open>simp_all add: peer_at_def tcp_reply_def\<close>)
  then show "\<exists>h1. tcp_output_alloc_header_common h ackn 0 0 (lwip_htonl seqn) src dest fl wnd = Inr (Some ?a, h1)
      \<and> tcp_output_control_segment e nifs h1 pcb (Some ?a) saddr daddr = Inr (ERR_OK, answered h ?pkt)"
    unfolding eq using al(3) by blast
qed

lemma tcp_rst_eq:
  assumes "heap_ok h" and "peer_at e nifs pcb saddr daddr"
  shows "tcp_rst e nifs h pcb seqn ackn saddr daddr src dest = Inr (answered h (tcp_reply pcb (ip_id (net h)) saddr daddr
      (tcp_control saddr daddr src dest seqn ackn (TCP_RST OR TCP_ACK) (lwip_htons TCP_WND))))"
  using control_answered [OF assms refl, of ackn seqn src dest "TCP_RST OR TCP_ACK" "lwip_htons TCP_WND"]
  by (cases "oom h (nextid h)") (auto simp: tcp_rst_def simp del: or_numerals)

section \<open>Properties\<close>

text \<open>
  C21: \<^verbatim>\<open>tcp_rst\<close> for an IPv4 connection hands exactly one packet to the interface, or none if there is no memory for it, and leaves nothing
  allocated. The packet is a TCP header with the given ports and numbers, the flags RST and ACK, and checksums that are correct. Its window
  is 128: \<^verbatim>\<open>tcp_rst\<close> swaps the bytes of \<^verbatim>\<open>TCP_WND\<close>, which \<^verbatim>\<open>tcp_output_alloc_header_common\<close> swaps again.
\<close>

theorem tcp_rst_sent:
  assumes "heap_ok h" and "peer_at e nifs pcb saddr daddr" and "sg = tcp_control saddr daddr src dest seqn ackn 0x14 128"
  shows "\<exists>h'. tcp_rst e nifs h pcb seqn ackn saddr daddr src dest = Inr h' \<and> pbufs h' = pbufs h \<and> mem h' = mem h
    \<and> sent (net h') = sent (net h) @ (if oom h (nextid h) then [] else [tcp_reply pcb (ip_id (net h)) saddr daddr sg])
    \<and> internet_checksum (pseudo_of saddr daddr 6 20 @ sg) = 0"
proof -
  have "lwip_htons TCP_WND = 128" by (simp add: lwip_htons_def)
  then show ?thesis using tcp_rst_eq [OF assms(1,2), of seqn ackn src dest] answered_keeps [OF assms(1)] tcp_control_verifies assms(3) by simp
qed

text \<open>
  C22: \<^verbatim>\<open>tcp_send_empty_ack\<close> acknowledges everything up to \<^verbatim>\<open>rcv_nxt\<close> and announces the window \<^verbatim>\<open>rcv_ann_wnd\<close>, whose right edge it records; the
  pending acknowledgements are done with. Without memory nothing is sent and both stay pending.
\<close>

theorem tcp_send_empty_ack_sent:
  assumes "heap_ok h" and "peer_at e (cx_netifs cx) (ip_pcb c) (t_local_ip c) (t_remote_ip c)"
    and "sg = tcp_control (t_local_ip c) (t_remote_ip c) (t_local_port c) (t_remote_port c) (snd_nxt c) (rcv_nxt c) 0x10 (rcv_ann_wnd c)"
  shows "\<exists>h' err c'. tcp_send_empty_ack e cx h c = Inr (err, c', h') \<and> pbufs h' = pbufs h \<and> mem h' = mem h
    \<and> sent (net h') = sent (net h) @ (if oom h (nextid h) then [] else [tcp_reply (ip_pcb c) (ip_id (net h)) (t_local_ip c) (t_remote_ip c) sg])
    \<and> internet_checksum (pseudo_of (t_local_ip c) (t_remote_ip c) 6 20 @ sg) = 0
    \<and> err = (if oom h (nextid h) then ERR_BUF else ERR_OK)
    \<and> c' = (if oom h (nextid h) then tcp_set_flags c (TF_ACK_DELAY OR TF_ACK_NOW)
        else tcp_clear_flags (c\<lparr>rcv_ann_right_edge := rcv_nxt c + ucast (rcv_ann_wnd c)\<rparr>) (TF_ACK_DELAY OR TF_ACK_NOW))"
proof -
  have ip: "ip_pcb (c\<lparr>rcv_ann_right_edge := x\<rparr>) = ip_pcb c" for x by (simp add: ip_pcb_def)
  note ans = control_answered [OF assms, folded assms(3)]
  have k: "internet_checksum (pseudo_of (t_local_ip c) (t_remote_ip c) 6 20 @ sg) = 0" unfolding assms(3) by (rule tcp_control_verifies)
  show ?thesis
    using ans answered_keeps [OF assms(1)] k ip
    by (cases "oom h (nextid h)") (auto simp: tcp_send_empty_ack_def tcp_output_alloc_header_def)
qed

section \<open>Instances\<close>

text \<open>A reset and an acknowledgement from 10.0.0.2 to 10.0.0.1.\<close>

definition sample_host :: "u32_t \<Rightarrow> ip_addr_t" where
  "sample_host a = \<lparr>u_addr = [a, 0, 0, 0], ip_zone = 0, ip_type = 0\<rparr>"

lemma sample_peer:
  "peer_at sample_tcp_env [sample_out_netif] None (sample_host 0x0200000a) (sample_host 0x0100000a)"
  "peer_at sample_tcp_env [sample_out_netif] (Some (0, 64, 0)) (sample_host 0x0200000a) (sample_host 0x0100000a)"
  by code_simp+

lemma sample_seg_heap_ok: "heap_ok sample_seg_heap" "\<not> oom sample_seg_heap (nextid sample_seg_heap)" "sent (net sample_seg_heap) = []"
  by (simp_all add: sample_seg_heap_def heap_ok_def sample_def init_net_def)

theorem tcp_rst_sent_witness:
  "\<exists>h'. tcp_rst sample_tcp_env [sample_out_netif] sample_seg_heap None 7 9 (sample_host 0x0200000a) (sample_host 0x0100000a) 80 1000 = Inr h'
     \<and> pbufs h' = pbufs sample_seg_heap \<and> length (sent (net h')) = 1"
  using tcp_rst_sent [OF sample_seg_heap_ok(1) sample_peer(1) refl, of 7 9 80 1000] sample_seg_heap_ok by auto

theorem tcp_send_empty_ack_sent_witness:
  "\<exists>h' c'. tcp_send_empty_ack sample_tcp_env \<lparr>cx_netifs = [sample_out_netif], cx_ticks = 0, cx_input = False\<rparr> sample_seg_heap
      (sample_tcp_pcb\<lparr>t_local_ip := sample_host 0x0200000a, t_remote_ip := sample_host 0x0100000a, t_ttl := 64, t_tos := 0, t_netif_idx := 0\<rparr>)
      = Inr (ERR_OK, c', h') \<and> length (sent (net h')) = 1 \<and> rcv_ann_right_edge c' = 100 + 0x8000"
proof -
  let ?c = "sample_tcp_pcb\<lparr>t_local_ip := sample_host 0x0200000a, t_remote_ip := sample_host 0x0100000a, t_ttl := 64, t_tos := 0, t_netif_idx := 0\<rparr>"
    and ?cx = "\<lparr>cx_netifs = [sample_out_netif], cx_ticks = 0, cx_input = False\<rparr>"
  have "peer_at sample_tcp_env (cx_netifs ?cx) (ip_pcb ?c) (t_local_ip ?c) (t_remote_ip ?c)" using sample_peer(2) by (simp add: ip_pcb_def)
  moreover have "rcv_nxt ?c = 100" "rcv_ann_wnd ?c = 0x8000" by (simp_all add: sample_tcp_pcb_def new_pcb_def)
  ultimately show ?thesis
    using tcp_send_empty_ack_sent [OF sample_seg_heap_ok(1), of sample_tcp_env ?cx ?c] sample_seg_heap_ok by (auto simp: tcp_clear_flags_def)
qed

end
