(* ===== verification/Tcp_System.thy ===== *)
theory Tcp_System
  imports Tcp_Segments
begin

text \<open>
  TCP as a transition system: what the application, IP, the timers and the rest of the stack can do to the state of the module, and
  what holds in every state that they reach.
\<close>

section \<open>Steps\<close>

text \<open>\<^verbatim>\<open>tcp_bind\<close> is used on a pcb without a port only: it does not refuse a second call, which would make a ring of \<^verbatim>\<open>tcp_bound_pcbs\<close>.\<close>

inductive tcp_step :: "tcp_env \<Rightarrow> tcp_globals \<Rightarrow> tcp_globals \<Rightarrow> bool" for e where
  new: "tcp_new e s = Inr (r, s') \<Longrightarrow> tcp_step e s s'"
| new_type: "tcp_new_ip_type e s ty = Inr (r, s') \<Longrightarrow> tcp_step e s s'"
| bind: "tcp_at s i = Some c \<Longrightarrow> t_local_port c = 0 \<Longrightarrow> tcp_bind e s (Some i) a port = Inr (err, s') \<Longrightarrow> tcp_step e s s'"
| bind_netif: "tcp_bind_netif s i nif = Inr s' \<Longrightarrow> tcp_step e s s'"
| listen: "tcp_listen_with_backlog s pcb = Inr (l, s') \<Longrightarrow> tcp_step e s s'"
| connect: "tcp_connect e s pcb a port f = Inr (err, s') \<Longrightarrow> tcp_step e s s'"
| set_recv: "tcp_recv s pcb rf = Inr s' \<Longrightarrow> tcp_step e s s'"
| set_sent: "tcp_sent s pcb sf = Inr s' \<Longrightarrow> tcp_step e s s'"
| set_err: "tcp_err s pcb ef = Inr s' \<Longrightarrow> tcp_step e s s'"
| set_poll: "tcp_poll s pcb pf k = Inr s' \<Longrightarrow> tcp_step e s s'"
| set_accept: "tcp_accept s pcb af = Inr s' \<Longrightarrow> tcp_step e s s'"
| set_arg: "tcp_arg s pcb arg = Inr s' \<Longrightarrow> tcp_step e s s'"
| set_prio: "tcp_setprio s pcb prio = Inr s' \<Longrightarrow> tcp_step e s s'"
| recved: "tcp_recved e s pcb len = Inr s' \<Longrightarrow> tcp_step e s s'"
| enqueue: "app_write e s i data len fl = Inr (err, s') \<Longrightarrow> tcp_step e s s'"
| send: "app_output e s i = Inr (err, s') \<Longrightarrow> tcp_step e s s'"
| close: "tcp_close e s pcb = Inr (err, s') \<Longrightarrow> tcp_step e s s'"
| shutdown: "tcp_shutdown e s pcb rx tx = Inr (err, s') \<Longrightarrow> tcp_step e s s'"
| abort: "tcp_abort e s pcb = Inr s' \<Longrightarrow> tcp_step e s s'"
| input: "tcp_input e g s p inp = Inr s' \<Longrightarrow> tcp_step e s s'"
| timer: "tcp_tmr n e s = Inr s' \<Longrightarrow> tcp_step e s s'"
| txnow: "tcp_txnow e s = Inr s' \<Longrightarrow> tcp_step e s s'"
| netif: "tcp_netif_ip_addr_changed e s old_addr new_addr = Inr s' \<Longrightarrow> tcp_step e s s'"
| ooseq: "pbuf_free_ooseq s = Inr s' \<Longrightarrow> tcp_step e s s'"
| stack: "tcp_step e s (s\<lparr>theap := h, t_netifs := nifs, t_timers := tm\<rparr>)"

text \<open>The module before its first use.\<close>

definition tcp_idle :: "tcp_globals \<Rightarrow> bool" where
  "tcp_idle s \<longleftrightarrow> tcp_listen_pcbs s = [] \<and> tcp_bound_pcbs s = [] \<and> tcp_active_pcbs s = [] \<and> tcp_tw_pcbs s = []
     \<and> tcp_at s = (\<lambda>_. None) \<and> lpcb_at s = (\<lambda>_. None)"

inductive tcp_reach :: "tcp_env \<Rightarrow> tcp_globals \<Rightarrow> bool" for e where
  start: "tcp_idle s \<Longrightarrow> tcp_reach e (tcp_init rand s)"
| step: "tcp_reach e s \<Longrightarrow> tcp_step e s s' \<Longrightarrow> tcp_reach e s'"

lemma idle_inv: "tcp_idle s \<Longrightarrow> tcp_inv (tcp_init rand s)"
  by (simp add: tcp_idle_def tcp_init_def tcp_inv_def lists_ok_def pcbs_ok_def split: option.split)

lemma stack_inv: "tcp_inv s \<Longrightarrow> tcp_inv (s\<lparr>theap := h, t_netifs := nifs, t_timers := tm\<rparr>)"
  by (rule view_eqD(1) [THEN iffD2]) simp_all

lemmas call_good = tcp_settings_good tcp_recved_good tcp_txnow_good pbuf_free_ooseq_good
lemmas call_good2 = tcp_listen_backlog_good tcp_connect_good app_write_good app_output_good tcp_close_good tcp_shutdown_good

lemma good_result: "tcp_inv s \<Longrightarrow> (good s s \<Longrightarrow> post m (good s)) \<Longrightarrow> m = Inr s' \<Longrightarrow> tcp_inv s'"
  by (auto simp: good_refl dest: postD good_inv)

lemma good_result2: "tcp_inv s \<Longrightarrow> (good s s \<Longrightarrow> post m (\<lambda>(r, s'). good s s')) \<Longrightarrow> m = Inr (r, s') \<Longrightarrow> tcp_inv s'"
  by (auto simp: good_refl dest: postD good_inv)

lemma tcp_step_inv:
  assumes "tcp_step e s s'" and cb: "callbacks_ok e" and inv: "tcp_inv s"
  shows "tcp_inv s'"
  using assms(1)
proof cases
  case (bind i c a port err)
  have "post (tcp_bind e s (Some i) a port) (\<lambda>(r, s'). good s s')" by (rule tcp_bind_good) (use inv bind in \<open>auto simp: good_refl\<close>)
  then show ?thesis by (rule good_result2 [OF inv _ bind(3)])
next
  case (input g p inp)
  then show ?thesis using postD [OF tcp_input_inv [OF cb inv]] by blast
next
  case (stack h nifs tm)
  then show ?thesis using stack_inv [OF inv] by simp
qed (auto intro: good_result [OF inv] good_result2 [OF inv] call_good call_good2 tcp_new_good [OF cb] tcp_abort_good [OF cb] tcp_tmr_good [OF cb]
   tcp_netif_ip_addr_changed_good [OF cb])

lemma tcp_reach_inv: "tcp_reach e s \<Longrightarrow> callbacks_ok e \<Longrightarrow> tcp_inv s"
  by (induction rule: tcp_reach.induct) (auto intro: idle_inv tcp_step_inv)

lemma lists_ok_sane: "lists_ok s \<Longrightarrow> tcp_pcbs_sane s"
  by (auto simp: lists_ok_def tcp_pcbs_sane_def list_all_iff tcp_holds_def live_def split: option.splits)

section \<open>An execution\<close>

text \<open>An application that takes data as \<^verbatim>\<open>tcp_recv_null\<close> does.\<close>

definition sample_app :: tcp_env where
  "sample_app = sample_tcp_env\<lparr>app_recv := (\<lambda>_ _ i p err s. tcp_recv_null sample_tcp_env s i p err)\<rparr>"

lemma sample_app_ok: "callbacks_ok sample_app"
  by (simp add: callbacks_ok_def sample_app_def sample_tcp_env_def good_refl tcp_recv_null_good)

text \<open>A server on port 80, a second pcb that gets a port of the dynamic range, and a tick of the timer.\<close>

definition sample_listen :: "tcp_globals outcome" where
  "sample_listen =
     bnd (tcp_new sample_app (tcp_init None sample_tcp_start)) (\<lambda>(_, s).
     bnd (tcp_bind sample_app s (Some 0) None 80) (\<lambda>(_, s).
     bnd (tcp_listen_with_backlog s (Some 0)) (\<lambda>(_, s).
     bnd (tcp_new sample_app s) (\<lambda>(_, s). Inr s))))"

definition sample_run :: "tcp_globals outcome" where
  "sample_run = bnd sample_listen (\<lambda>s. bnd (tcp_bind sample_app s (Some 2) None 0) (\<lambda>(_, s). tcp_tmr 1 sample_app s))"

lemma sample_evals:
  "bnd (tcp_new sample_app (tcp_init None sample_tcp_start)) (\<lambda>(_, s). Inr (map_option t_local_port (tcp_at s 0))) = Inr (Some 0)"
  "bnd sample_listen (\<lambda>s. Inr (map_option t_local_port (tcp_at s 2))) = Inr (Some 0)"
  "bnd sample_run (\<lambda>s. Inr (tcp_listen_pcbs s, tcp_bound_pcbs s, map_option t_local_port (tcp_at s 2))) = Inr ([1], [2], Some 0xc001)"
  by code_simp+

lemma sample_reach:
  obtains s where "tcp_reach sample_app s" and "tcp_listen_pcbs s = [1]" and "tcp_bound_pcbs s = [2]" and "map_option t_local_port (tcp_at s 2) = Some 0xc001"
proof -
  have r0: "tcp_reach sample_app (tcp_init None sample_tcp_start)"
    by (rule tcp_reach.start) (simp add: tcp_idle_def sample_tcp_start_def)
  obtain s5 where s5: "sample_run = Inr s5" "tcp_listen_pcbs s5 = [1]" "tcp_bound_pcbs s5 = [2]" "map_option t_local_port (tcp_at s5 2) = Some 0xc001"
    using sample_evals(3) by (auto simp: bnd_eq_Inr_iff)
  obtain s3 x s4 where s3: "sample_listen = Inr s3" "tcp_bind sample_app s3 (Some 2) None 0 = Inr (x, s4)" "tcp_tmr 1 sample_app s4 = Inr s5"
    using s5(1) unfolding sample_run_def bnd_eq_Inr_iff by auto
  obtain x1 s1 x2 s2 x3 s2' x4 where s1: "tcp_new sample_app (tcp_init None sample_tcp_start) = Inr (x1, s1)"
    "tcp_bind sample_app s1 (Some 0) None 80 = Inr (x2, s2)" "tcp_listen_with_backlog s2 (Some 0) = Inr (x3, s2')" "tcp_new sample_app s2' = Inr (x4, s3)"
    using s3(1) unfolding sample_listen_def bnd_eq_Inr_iff by (auto simp: bnd_eq_Inr_iff)
  obtain c where c: "tcp_at s1 0 = Some c" "t_local_port c = 0" using sample_evals(1) by (auto simp: s1(1))
  obtain c' where c': "tcp_at s3 2 = Some c'" "t_local_port c' = 0" using sample_evals(2) by (auto simp: s3(1))
  note r1 = tcp_reach.step [OF r0 tcp_step.new [OF s1(1)]]
  note r2 = tcp_reach.step [OF r1 tcp_step.bind [OF c s1(2)]]
  note r3 = tcp_reach.step [OF r2 tcp_step.listen [OF s1(3)]]
  note r4 = tcp_reach.step [OF r3 tcp_step.new [OF s1(4)]]
  note r5 = tcp_reach.step [OF r4 tcp_step.bind [OF c' s3(2)]]
  show thesis using that [OF tcp_reach.step [OF r5 tcp_step.timer [OF s3(3)]]] s5(2-4) by blast
qed

section \<open>Properties\<close>

text \<open>
  C4: In every state that calls of the application, segments and timers reach, each of the four lists holds a pcb at most once, the
  active list only connections that are neither closed nor listening nor in \<^verbatim>\<open>TIME-WAIT\<close>, the list \<^verbatim>\<open>tcp_tw_pcbs\<close> only ones in
  \<^verbatim>\<open>TIME-WAIT\<close>, the list \<^verbatim>\<open>tcp_bound_pcbs\<close> only closed ones with a port, no freed pcb is on a list, and the assertion
  \<^verbatim>\<open>tcp_pcbs_sane\<close> holds.
\<close>

theorem tcp_lists_invariant:
  assumes "tcp_reach e s" and "callbacks_ok e"
  shows "lists_ok s \<and> tcp_pcbs_sane s"
proof -
  have "lists_ok s" using tcp_reach_inv [OF assms] by (simp add: tcp_inv_def)
  then show ?thesis by (simp add: lists_ok_sane)
qed

theorem tcp_lists_invariant_witness:
  "\<exists>s. tcp_reach sample_app s \<and> lists_ok s \<and> tcp_pcbs_sane s \<and> tcp_listen_pcbs s = [1] \<and> tcp_bound_pcbs s = [2]"
proof (rule sample_reach)
  fix s
  assume "tcp_reach sample_app s" "tcp_listen_pcbs s = [1]" "tcp_bound_pcbs s = [2]"
  then show ?thesis using tcp_lists_invariant [OF _ sample_app_ok] by blast
qed

text \<open>
  C20: The fields of a pcb stay in their ranges: a connection never listens, the index of the persist timer is inside the table
  \<^verbatim>\<open>tcp_persist_backoff\<close>, the receive window is not larger than \<^verbatim>\<open>TCP_WND\<close>, and no listening pcb has the same name.
\<close>

theorem tcp_pcb_well_typed:
  assumes "tcp_reach e s" and "callbacks_ok e" and "tcp_at s i = Some c"
  shows "t_state c \<noteq> LISTEN \<and> unat (persist_backoff c) \<le> length tcp_persist_backoff \<and> rcv_wnd c \<le> TCP_WND \<and> lpcb_at s i = None"
proof -
  have "pcbs_ok s" using tcp_reach_inv [OF assms(1,2)] by (simp add: tcp_inv_def)
  then have "t_state c \<noteq> LISTEN" "pcb_ok c" "lpcb_at s i = None" using assms(3) by (auto simp: pcbs_ok_def)
  then show ?thesis by (simp add: pcb_ok_def tcp_persist_backoff_def word_le_nat_alt)
qed

theorem tcp_pcb_well_typed_witness:
  "\<exists>s c. tcp_reach sample_app s \<and> tcp_at s 2 = Some c \<and> t_local_port c = 0xc001 \<and> rcv_wnd c \<le> TCP_WND"
proof (rule sample_reach)
  fix s
  assume "tcp_reach sample_app s" "map_option t_local_port (tcp_at s 2) = Some 0xc001"
  then show ?thesis using tcp_pcb_well_typed [OF _ sample_app_ok, of s 2] by auto
qed

end
