(* ===== verification/Tcp_Packets.thy ===== *)
theory Tcp_Packets
  imports Tcp_Replies Tcp_System Ip4_Receive
begin

text \<open>
  TCP segments in packets that the application writes to the stack: from \<^verbatim>\<open>core/input.go\<close> through IPv4 to \<^verbatim>\<open>tcp_input\<close> and back out.
\<close>

section \<open>Fields of a segment\<close>

definition wire_src :: "bytes \<Rightarrow> u16_t" where
  "wire_src sg = lwip_ntohs (le16 (sg ! 0) (sg ! 1))"

definition wire_dest :: "bytes \<Rightarrow> u16_t" where
  "wire_dest sg = lwip_ntohs (le16 (sg ! 2) (sg ! 3))"

definition wire_seq :: "bytes \<Rightarrow> u32_t" where
  "wire_seq sg = lwip_ntohl (le32 (sg ! 4) (sg ! 5) (sg ! 6) (sg ! 7))"

definition wire_ack :: "bytes \<Rightarrow> u32_t" where
  "wire_ack sg = lwip_ntohl (le32 (sg ! 8) (sg ! 9) (sg ! 10) (sg ! 11))"

definition wire_hlen :: "bytes \<Rightarrow> nat" where
  "wire_hlen sg = unat (TCPH_HDRLEN_BYTES (le16 (sg ! 12) (sg ! 13)))"

definition wire_flags :: "bytes \<Rightarrow> u8_t" where
  "wire_flags sg = TCPH_FLAGS (le16 (sg ! 12) (sg ! 13))"

text \<open>The length in sequence numbers: a SYN and a FIN count.\<close>

definition wire_len :: "bytes \<Rightarrow> nat" where
  "wire_len sg = length sg - wire_hlen sg + (if wire_flags sg AND (TCP_FIN OR TCP_SYN) \<noteq> 0 then 1 else 0)"

section \<open>A packet in one block of memory\<close>

text \<open>The pbuf \<open>a\<close> with its bytes \<open>sg\<close> behind \<open>n\<close> others, as \<^verbatim>\<open>ip4_input\<close> leaves it.\<close>

definition in_block :: "heap \<Rightarrow> nat \<Rightarrow> nat \<Rightarrow> bytes \<Rightarrow> bool" where
  "in_block h a n sg \<longleftrightarrow> packet h a [] \<and> chain_data h [a] = sg \<and> p_payload (pb h a) = Some (a, int n)"

lemma in_blockE:
  assumes "in_block h a n sg" and "sg \<noteq> []"
  obtains b xs zs where "pbufs h a = Some b" "p_payload b = Some (a, int n)" "p_len b = p_tot_len b" "unat (p_len b) = length sg"
    "mem h a = Some (xs @ sg @ zs)" "length xs = n" "packet h a []"
proof -
  have p: "packet h a []" "chain_data h [a] = sg" using assms(1) by (simp_all add: in_block_def)
  obtain b where b: "pbufs h a = Some b" "payload_ok h a" "length (seg h a) = unat (p_len b)" "unat (p_tot_len b) = length (chain_data h [a])"
    by (rule packetE [OF p(1)])
  have pl: "p_payload b = Some (a, int n)" using assms(1) b(1) by (simp add: in_block_def)
  have sg: "seg h a = sg" using p(2) by simp
  obtain bs where bs: "mem h a = Some bs" "n + unat (p_len b) \<le> length bs"
    using b(2) b(1) pl assms(2) sg b(3) by (auto simp: payload_ok_def unat_eq_zero split: option.splits)
  have "sg = take (unat (p_len b)) (drop n bs)" using sg b(1) pl bs assms(2) by (auto simp: seg_def)
  then have "bs = take n bs @ sg @ drop (n + unat (p_len b)) bs" by (metis append_take_drop_id drop_drop add.commute)
  moreover have "length (take n bs) = n" using bs(2) by simp
  moreover have "p_len b = p_tot_len b" using b(3,4) p(2) sg by (simp add: word_unat_eq_iff)
  ultimately show thesis using that [OF b(1) pl _ _ _ _ p(1)] b(3) sg bs(1) by metis
qed

lemma packet_bytes:
  assumes "packet h a []" and "mem h a = Some bs" and "length bs' = length bs"
  shows "packet (h\<lparr>mem := (mem h)(a \<mapsto> bs')\<rparr>) a []"
proof -
  let ?h = "h\<lparr>mem := (mem h)(a \<mapsto> bs')\<rparr>"
  have "heap_ok ?h" using assms(1,2) by (auto simp: packet_def heap_ok_def)
  moreover have "chain_ok ?h (Some a) [a]" using assms by (auto simp: packet_def chain_ok_Cons payload_ok_def pb_def split: option.splits)
  moreover have "freeable ?h a" "once ?h a" "independent ?h [a]"
    using assms(1,2) by (auto simp: packet_def freeable_iff once_def independent_def block_def pb_def)
  ultimately show ?thesis by (simp add: packet_def)
qed

text \<open>Reading and writing fields behind the first \<open>n\<close> bytes of a block.\<close>

lemma block_load:
  assumes "mem h a = Some (xs @ ys)" and "length xs = n"
  shows "off + 2 \<le> length ys \<Longrightarrow> load16 h (Some (a, int n)) off = Inr (le16 (ys ! off) (ys ! Suc off))"
    and "off + 4 \<le> length ys \<Longrightarrow> load32 h (Some (a, int n)) off = Inr (le32 (ys ! off) (ys ! Suc off) (ys ! Suc (Suc off)) (ys ! (off + 3)))"
  using assms by (simp_all add: load16_def load32_def mem_read_def nat_int_add)

lemma block_store:
  assumes "mem h a = Some (xs @ ys)" and "length xs = n"
  shows "off + 2 \<le> length ys \<Longrightarrow> store16 h (Some (a, int n)) off w = Inr (h\<lparr>mem := (mem h)(a \<mapsto> xs @ patch ys off (u16_bytes w))\<rparr>)"
    and "off + 4 \<le> length ys \<Longrightarrow> store32 h (Some (a, int n)) off v = Inr (h\<lparr>mem := (mem h)(a \<mapsto> xs @ patch ys off (u32_bytes v))\<rparr>)"
  using assms by (simp_all add: store16_def store32_def mem_write_def nat_int_add patch_def u16_bytes_def u32_bytes_def eval_nat_numeral)

text \<open>\<^verbatim>\<open>tcp_input\<close> turns the fields of the header into host order where they are, and keeps the numbers and the flags aside.\<close>

lemma tcp_input_header_eq:
  assumes "mem h a = Some (xs @ sg @ zs)" and "length xs = n" and "i_tcphdr t = Some (a, int n)" and "20 \<le> length sg" and "pbufs h a = Some b"
    and "syn_fin \<longleftrightarrow> wire_flags sg AND (TCP_FIN OR TCP_SYN) \<noteq> 0" and "len = (if syn_fin then p_tot_len b + 1 else p_tot_len b)"
  shows "\<exists>sg'. length sg' = length sg \<and> le16 (sg' ! 0) (sg' ! Suc 0) = wire_src sg \<and> le16 (sg' ! 2) (sg' ! 3) = wire_dest sg
    \<and> tcp_input_header h t (Some a) = Inr (\<not> (syn_fin \<and> len < p_tot_len b),
        t\<lparr>seqno := wire_seq sg, ackno := wire_ack sg, i_flags := wire_flags sg, tcplen := len\<rparr>, h\<lparr>mem := (mem h)(a \<mapsto> xs @ sg' @ zs)\<rparr>)"
proof -
  let ?d = "Some (a, int n)"
  define hh where "hh us = h\<lparr>mem := (mem h)(a \<mapsto> xs @ us @ zs)\<rparr>" for us
  have l16: "off + 2 \<le> length us \<Longrightarrow> load16 (hh us) ?d off = Inr (le16 (us ! off) (us ! Suc off))" for us off
    using block_load(1) [of "hh us" a xs "us @ zs" n off] assms(2) by (simp add: hh_def nth_append)
  have l32: "off + 4 \<le> length us \<Longrightarrow> load32 (hh us) ?d off = Inr (le32 (us ! off) (us ! Suc off) (us ! Suc (Suc off)) (us ! (off + 3)))" for us off
    using block_load(2) [of "hh us" a xs "us @ zs" n off] assms(2) by (simp add: hh_def nth_append)
  have s16: "off + 2 \<le> length us \<Longrightarrow> store16 (hh us) ?d off w = Inr (hh (patch us off (u16_bytes w)))" for us off w
    using block_store(1) [of "hh us" a xs "us @ zs" n off w] assms(2) by (simp add: hh_def patch_def)
  have s32: "off + 4 \<le> length us \<Longrightarrow> store32 (hh us) ?d off w = Inr (hh (patch us off (u32_bytes w)))" for us off w
    using block_store(2) [of "hh us" a xs "us @ zs" n off w] assms(2) by (simp add: hh_def patch_def)
  have h: "h = hh sg" using assms(1) by (cases h) (simp add: hh_def fun_upd_idem)
  have b: "pget (hh us) (Some a) = Inr b" for us using assms(5) by (simp add: hh_def)
  let ?sg = "patch (patch (patch (patch (patch sg 0 (u16_bytes (wire_src sg))) 2 (u16_bytes (wire_dest sg))) 4 (u32_bytes (wire_seq sg)))
     8 (u32_bytes (wire_ack sg))) 14 (u16_bytes (lwip_ntohs (le16 (sg ! 14) (sg ! 15))))"
  have r: "tcp_input_header (hh sg) t (Some a) = Inr (\<not> (syn_fin \<and> len < p_tot_len b),
        t\<lparr>seqno := wire_seq sg, ackno := wire_ack sg, i_flags := wire_flags sg, tcplen := len\<rparr>, hh ?sg)"
    using assms(4) by (simp add: tcp_input_header_def assms(3) l16 l32 s16 s32 length_patch nth_patch Let_def tcph_flags_def b assms(6,7)
        wire_src_def wire_dest_def wire_seq_def wire_ack_def wire_flags_def)
  have l: "length ?sg = length sg" using assms(4) by (simp add: length_patch)
  have ports: "?sg ! i = (u16_bytes (wire_src sg) @ u16_bytes (wire_dest sg)) ! i" if "i < 4" for i
    using assms(4) that by (simp add: length_patch nth_patch nth_append)
  have p: "le16 (?sg ! 0) (?sg ! Suc 0) = wire_src sg" "le16 (?sg ! 2) (?sg ! 3) = wire_dest sg"
    using ports [of 0] ports [of "Suc 0"] ports [of 2] ports [of 3] by (simp_all add: u16_bytes_def)
  show ?thesis using l p r [folded h, unfolded hh_def] by blast
qed


section \<open>From \<open>tcp_input\<close> to the search for the pcb\<close>

definition good_seg :: "bytes \<Rightarrow> bool" where
  "good_seg sg \<longleftrightarrow> 20 \<le> length sg \<and> 20 \<le> wire_hlen sg \<and> wire_hlen sg \<le> length sg"

text \<open>What the search finds in the variables of \<^verbatim>\<open>tcp_input\<close>.\<close>

definition parsed :: "heap \<Rightarrow> tcp_in \<Rightarrow> nat \<Rightarrow> bytes \<Rightarrow> heap \<Rightarrow> bool" where
  "parsed h t a sg h0 \<longleftrightarrow> packet h a [] \<and> load16 h (i_tcphdr t) 0 = Inr (wire_src sg) \<and> load16 h (i_tcphdr t) 2 = Inr (wire_dest sg)
     \<and> seqno t = wire_seq sg \<and> ackno t = wire_ack sg \<and> i_flags t = wire_flags sg \<and> tcplen t = of_nat (wire_len sg)
     \<and> net h = net h0 \<and> nextid h = nextid h0 \<and> oom h = oom h0 \<and> (\<forall>q. q \<noteq> a \<longrightarrow> pbufs h q = pbufs h0 q \<and> mem h q = mem h0 q)"

lemma tcp_input_parsed:
  assumes "in_block (theap s) a n sg" and "good_seg sg" and "length sg < 65535"
    and "\<not> ip_addr_isbroadcast (current_iphdr_dest g) (current_netif g)" and "\<not> ip_addr_ismulticast (current_iphdr_dest g)"
  shows "\<exists>h t. tcp_input e g s (Some a) inp = tcp_input_demux e g (s\<lparr>theap := h, t_in := t\<rparr>) (Some a) inp \<and> parsed h t a sg (theap s)"
proof -
  have g: "20 \<le> length sg" "20 \<le> wire_hlen sg" "wire_hlen sg \<le> length sg" "sg \<noteq> []" using assms(2) by (auto simp: good_seg_def)
  obtain b xs zs where b: "pbufs (theap s) a = Some b" "p_payload b = Some (a, int n)" "p_len b = p_tot_len b" "unat (p_len b) = length sg"
    "mem (theap s) a = Some (xs @ sg @ zs)" "length xs = n" "packet (theap s) a []"
    by (rule in_blockE [OF assms(1) g(4)])
  let ?h = "theap s" and ?w = "le16 (sg ! 12) (sg ! 13)" and ?m = "wire_hlen sg"
  let ?h1 = "?h\<lparr>pbufs := (pbufs ?h)(a \<mapsto> remove_hdr ?m b)\<rparr>"
  have l12: "load16 ?h (Some (a, int n)) 12 = Inr ?w"
    using block_load(1) [OF b(5,6), of 12] g(1) by (simp add: nth_append)
  have hl: "unat (TCPH_HDRLEN_BYTES ?w) = ?m" by (simp add: wire_hlen_def)
  have hl16: "unat (ucast (TCPH_HDRLEN_BYTES ?w) :: u16_t) = ?m" using hl by simp
  have m: "?m \<le> unat (p_len b)" using g(3) b(4) by simp
  note rm = packet_remove_hdr [OF b(7,1) m refl]
  let ?t = "(t_in s)\<lparr>i_tcphdr := Some (a, int n), tcphdr_optlen := ucast (TCPH_HDRLEN_BYTES ?w) - of_nat TCP_HLEN, tcphdr_opt2 := None,
      tcphdr_opt1len := ucast (TCPH_HDRLEN_BYTES ?w) - of_nat TCP_HLEN\<rparr>"
  have opt: "tcp_input_options ?h ((t_in s)\<lparr>i_tcphdr := Some (a, int n)\<rparr>) (Some a) (TCPH_HDRLEN_BYTES ?w) = Inr (True, ?t, ?h1)"
    using b(1) rm(1) m hl hl16 by (simp add: tcp_input_options_def Let_def word_le_nat_alt)
  let ?b = "remove_hdr ?m b" and ?sf = "wire_flags sg AND (TCP_FIN OR TCP_SYN) \<noteq> 0"
  let ?len = "if ?sf then p_tot_len ?b + 1 else p_tot_len ?b"
  have tot: "p_tot_len ?b = of_nat (length sg - ?m)" 
  proof -
    have "length sg - ?m = unat (p_tot_len ?b)" using rm(4) b(3,4) by (simp add: remove_hdr_def)
    then show ?thesis by (simp only:) simp
  qed
  have len: "?len = of_nat (wire_len sg)" "\<not> (?sf \<and> ?len < p_tot_len ?b)"
    using assms(3) unat_of_nat_16 [of "Suc (length sg - ?m)"] unat_of_nat_16 [of "length sg - ?m"]
    by (simp_all add: tot wire_len_def word_less_nat_alt add.commute)
  obtain sg' where sg': "length sg' = length sg" "le16 (sg' ! 0) (sg' ! Suc 0) = wire_src sg" "le16 (sg' ! 2) (sg' ! 3) = wire_dest sg"
    "tcp_input_header ?h1 ?t (Some a) = Inr (True, ?t\<lparr>seqno := wire_seq sg, ackno := wire_ack sg, i_flags := wire_flags sg, tcplen := ?len\<rparr>,
        ?h1\<lparr>mem := (mem ?h)(a \<mapsto> xs @ sg' @ zs)\<rparr>)"
    using tcp_input_header_eq [of ?h1 a xs sg zs n ?t ?b ?sf ?len] b(5,6) g(1) len(2) by auto
  let ?h2 = "?h1\<lparr>mem := (mem ?h)(a \<mapsto> xs @ sg' @ zs)\<rparr>" and ?t2 = "?t\<lparr>seqno := wire_seq sg, ackno := wire_ack sg, i_flags := wire_flags sg, tcplen := ?len\<rparr>"
  have "packet ?h2 a []" using packet_bytes [OF rm(2), of "xs @ sg @ zs" "xs @ sg' @ zs"] b(5) sg'(1) by simp
  moreover have "load16 ?h2 (Some (a, int n)) 0 = Inr (wire_src sg)" "load16 ?h2 (Some (a, int n)) 2 = Inr (wire_dest sg)"
    using block_load(1) [of ?h2 a xs "sg' @ zs" n] b(6) sg'(1-3) g(1,4) by (simp_all add: nth_append)
  ultimately have "parsed ?h2 ?t2 a sg ?h" using len(1) by (simp add: parsed_def)
  moreover have "tcp_input e g s (Some a) inp = tcp_input_demux e g (s\<lparr>theap := ?h2, t_in := ?t2\<rparr>) (Some a) inp"
    using b(1,2,4) l12 hl hl16 opt sg'(4) g assms(4,5) b(3) by (simp add: tcp_input_def Let_def word_less_nat_alt)
  ultimately show ?thesis by blast
qed


section \<open>Segments of no connection\<close>

definition no_match :: "tcp_globals \<Rightarrow> ip_globals \<Rightarrow> netif \<Rightarrow> u16_t \<Rightarrow> u16_t \<Rightarrow> bool" where
  "no_match s g inp src dest \<longleftrightarrow> list_all (\<lambda>i. case tcp_at s i of None \<Rightarrow> True | Some c \<Rightarrow> \<not> tcp_match g inp src dest c) (tcp_active_pcbs s @ tcp_tw_pcbs s)
     \<and> tcp_listen_pcbs s = []"

lemma tcp_find_None:
  assumes "list_all (tcp_holds s (\<lambda>c. st (t_state c))) is" and "list_all (\<lambda>i. case tcp_at s i of None \<Rightarrow> True | Some c \<Rightarrow> \<not> m c) is"
  shows "tcp_find st m s is = Inr None"
  using assms by (induction "is") (auto simp: tcp_holds_def get_tcp_def split: option.splits)

lemma tcp_input_unmatched:
  assumes "lists_ok s" and "no_match s g inp (wire_src sg) (wire_dest sg)" and "parsed h t a sg h0" and "length sg < 65535"
  shows "tcp_input_demux e g (s\<lparr>theap := h, t_in := t\<rparr>) (Some a) inp =
    bnd (if wire_flags sg AND TCP_RST = 0
         then tcp_rst e (t_netifs s) h None (wire_ack sg) (wire_seq sg + of_nat (wire_len sg)) (current_iphdr_dest g) (current_iphdr_src g) (wire_dest sg) (wire_src sg)
         else Inr h) (\<lambda>h. bnd (pbuf_free h (Some a)) (\<lambda>(_, h). Inr (s\<lparr>theap := h, t_in := t\<rparr>)))"
proof -
  let ?s = "s\<lparr>theap := h, t_in := t\<rparr>"
  have h: "tcp_holds ?s P i = tcp_holds s P i" "tcp_pcbs_sane (s\<lparr>theap := h', t_in := t\<rparr>) = tcp_pcbs_sane s"
    "s\<lparr>t_in := t, theap := h'\<rparr> = s\<lparr>theap := h', t_in := t\<rparr>" for P i h' by (simp_all add: tcp_holds_def tcp_pcbs_sane_def)
  have "tcp_find (\<lambda>st. st \<notin> {CLOSED, TIME_WAIT, LISTEN}) (tcp_match g inp (wire_src sg) (wire_dest sg)) ?s (tcp_active_pcbs s) = Inr None"
    "tcp_find (\<lambda>st. st = TIME_WAIT) (tcp_match g inp (wire_src sg) (wire_dest sg)) ?s (tcp_tw_pcbs s) = Inr None"
    by (rule tcp_find_None; use assms(1,2) in \<open>auto simp: h lists_ok_def no_match_def live_def list_all_iff tcp_holds_def split: option.splits\<close>)+
  moreover have "tcp_listen_pcbs s = []" "tcp_pcbs_sane s" using assms(1,2) by (simp_all add: no_match_def lists_ok_sane)
  moreover have "ucast (of_nat (wire_len sg) :: u16_t) = (of_nat (wire_len sg) :: u32_t)"
  proof -
    have "wire_len sg \<le> 65535" using assms(4) by (simp add: wire_len_def) linarith
    then show ?thesis by (simp add: word_unat_eq_iff unat_of_nat_16 unat_of_nat)
  qed
  ultimately show ?thesis using assms(3)
    by (cases "wire_flags sg AND TCP_RST = 0") (simp_all add: tcp_input_demux_def Let_def parsed_def input_rst_def h bnd_assoc split_def)
qed


section \<open>From the bytes to the segment\<close>

text \<open>A TCP segment in a good packet from another host, for a unicast address.\<close>

definition tcp_pkt :: "netif \<Rightarrow> bytes \<Rightarrow> bytes \<Rightarrow> bool" where
  "tcp_pkt nif pkt sg \<longleftrightarrow> pkt ! 9 = 6 \<and> sg = drop (hlen_of pkt) (take (total_len pkt) pkt) \<and> hdr_src pkt \<noteq> n_ip_addr nif \<and> hdr_dest pkt \<noteq> 0
     \<and> \<not> ip4_addr_ismulticast (hdr_dest pkt) \<and> \<not> ip4_addr_isbroadcast_u32 (hdr_dest pkt) nif \<and> (n_mtu nif = 0 \<or> 40 \<le> unat (n_mtu nif))"

text \<open>The heap in which \<^verbatim>\<open>tcp_input\<close> gets the segment.\<close>

definition arrived :: "heap \<Rightarrow> nat \<Rightarrow> nat \<Rightarrow> bytes \<Rightarrow> heap \<Rightarrow> bool" where
  "arrived h a n sg h0 \<longleftrightarrow> in_block h a n sg \<and> net h = net h0 \<and> nextid h = Suc a \<and> oom h = oom h0
     \<and> (\<forall>q. q \<noteq> a \<longrightarrow> pbufs h q = pbufs h0 q \<and> mem h q = mem h0 q)"

lemma tcp_packet_in:
  assumes "heap_ok (lheap s)" and "netifs s = nif # ns" and "\<not> oom (lheap s) (nextid (lheap s))"
    and "good_pkt s nif pkt" and "tcp_pkt nif pkt sg" and "length pkt \<le> 1514" and "a = nextid (lheap s)"
  shows "\<exists>h x. arrived h a (hlen_of pkt) sg (lheap s)
    \<and> go_input e s pkt = bnd (tcp_input (i_tcp e) (globals_of nif pkt) ((tcp_of s)\<lparr>theap := h\<rparr>) (Some a) nif)
        (\<lambda>t. Inr (length pkt, None, clear_ip (with_tcp ((with_heap s h)\<lparr>l_ip := x\<rparr>) t)))"
proof -
  let ?s = "with_heap s (pool_heap (lheap s) pkt)"
  have l: "0 < length pkt" using good_pktD(5) [OF assms(4)] by linarith
  note pool = pool_heap_packet [OF assms(1) l assms(6,7)]
  have g: "good_pkt ?s nif pkt" using assms(4) by (simp add: good_pkt_def ip4_good_def with_heap_def)
  have k: "pkt ! 9 = 6" "\<not> ip4_addr_ismulticast (hdr_dest pkt)" "sg = drop (hlen_of pkt) (take (total_len pkt) pkt)" using assms(5) by (auto simp: tcp_pkt_def)
  have pay: "p_payload (pb (lheap ?s) a) = Some (a, 0)" using pool(3) by (simp add: pool_pbuf_def)
  obtain h n where p: "stripped (lheap ?s) a pkt h" "ip4_input_netif (netifs ?s) nif (hdr_dest pkt) = Some n"
    "ip4_input e ?s (Some a) nif = bnd (ip4_input_proto e (globals_of n pkt)
        ((with_heap ?s h)\<lparr>l_ip := ip_data_of n nif (Some (a, 0)) pkt\<rparr>) (Some a) (Some (a, 0)) (of_nat (hlen_of pkt)) RAW_INPUT_NONE (pkt ! 9) nif)
        (\<lambda>s. Inr (ERR_OK, clear_ip s))"
    by (rule good_pkt_passes [of ?s a pkt nif "Some (a, 0)"]) (use pool g pay in auto)
  have n: "n = nif" using p(2) k(2) by (simp add: ip4_input_netif_def ip4_input_accept_def)
  have "arrived h a (hlen_of pkt) sg (lheap s)"
    using p(1) pool pay k(3) by (auto simp: arrived_def in_block_def stripped_def ptr_add_def)
  moreover have "tcp_of ((with_heap ?s h)\<lparr>l_ip := ip_data_of n nif (Some (a, 0)) pkt\<rparr>) = (tcp_of s)\<lparr>theap := h\<rparr>"
    by (simp add: tcp_of_def with_heap_def)
  then have "go_input e s pkt = bnd (tcp_input (i_tcp e) (globals_of nif pkt) ((tcp_of s)\<lparr>theap := h\<rparr>) (Some a) nif)
        (\<lambda>t. Inr (length pkt, None, clear_ip (with_tcp ((with_heap s h)\<lparr>l_ip := ip_data_of n nif (Some (a, 0)) pkt\<rparr>) t)))"
    using go_input_pool [OF assms(1,3,4) _ assms(6,2), of e] p(3) k(1) n assms(7) by (simp add: ip4_input_proto_def bnd_assoc)
  ultimately show ?thesis by blast
qed


text \<open>The rest of the module when a segment has been looked at only.\<close>

lemma tcp_result:
  assumes "s' = clear_ip (with_tcp ((with_heap s h)\<lparr>l_ip := x\<rparr>) ((tcp_of s)\<lparr>theap := h', t_in := t\<rparr>))"
  shows "lheap s' = h'" and "l_tcp s' = (tcp_of s)\<lparr>theap := h', t_in := t\<rparr>"
  by (simp_all add: assms clear_ip_def with_tcp_def) (simp add: with_heap_def)

lemma packet_gone:
  assumes "packet h a []" and "\<forall>q. q \<noteq> a \<longrightarrow> pbufs h q = pbufs h0 q \<and> mem h q = mem h0 q" and "heap_ok h0" and "a = nextid h0"
  shows "\<exists>h'. pbuf_free h (Some a) = Inr (1, h') \<and> pbufs h' = pbufs h0 \<and> mem h' = mem h0 \<and> net h' = net h"
proof -
  have "pbufs h0 a = None" "mem h0 a = None" using fresh [OF assms(3)] assms(4) by auto
  then have "pbufs (drop_objs {a} h) = pbufs h0" "mem (drop_objs {a} h) = mem h0" using assms(2) by (auto simp: drop_objs_def restrict_map_def fun_eq_iff)
  then show ?thesis using packet_free [OF assms(1)] by (simp add: drop_objs_def)
qed

lemma v4_addr_simps [simp]: "\<not> IP_IS_V6 (v4_addr x)" "length (u_addr (v4_addr x)) = 4"
  by (simp_all add: v4_addr_def IP_IS_V6_def IPADDR_TYPE_V4_def IPADDR_TYPE_V6_def)

lemma v4_peer:
  assumes "netifs s = nif # ns" and "tcp_pkt nif pkt sg"
  shows "peer_at e (netifs s) None (v4_addr (hdr_dest pkt)) (v4_addr (hdr_src pkt))"
  using assms by (auto simp: peer_at_def tcp_pkt_def tcp_route_def tcp_ip_route_def ip4_route_def)

section \<open>The answer to a segment of no connection\<close>

lemma l_tcp_simps [simp]: "l_tcp (with_heap s h) = l_tcp s" "l_tcp (clear_ip s) = l_tcp s" "l_tcp (with_tcp s t) = t"
  by (simp_all add: with_heap_def clear_ip_def with_tcp_def)

lemma unknown_reset:
  assumes "heap_ok (lheap s)" and "netifs s = nif # ns" and "\<not> oom (lheap s) (nextid (lheap s))"
    and "good_pkt s nif pkt" and "tcp_pkt nif pkt sg" and "length pkt \<le> 1514" and "good_seg sg"
    and "lists_ok (l_tcp s)" and "no_match (l_tcp s) (globals_of nif pkt) nif (wire_src sg) (wire_dest sg)"
    and "rst = tcp_control (v4_addr (hdr_dest pkt)) (v4_addr (hdr_src pkt)) (wire_dest sg) (wire_src sg)
          (wire_ack sg) (wire_seq sg + of_nat (wire_len sg)) 0x14 128"
  shows "\<exists>s'. go_input e s pkt = Inr (length pkt, None, s')
    \<and> sent (net (lheap s')) = sent (net (lheap s)) @ (if wire_flags sg AND TCP_RST \<noteq> 0 \<or> oom (lheap s) (Suc (nextid (lheap s))) then []
        else [ip4_packet 0 (ip_id (net (lheap s))) TCP_TTL 6 (hdr_dest pkt) (hdr_src pkt) rst])
    \<and> pbufs (lheap s') = pbufs (lheap s) \<and> mem (lheap s') = mem (lheap s)
    \<and> tcp_at (l_tcp s') = tcp_at (l_tcp s) \<and> tcp_active_pcbs (l_tcp s') = tcp_active_pcbs (l_tcp s)"
proof -
  let ?a = "nextid (lheap s)" and ?g = "globals_of nif pkt" and ?src = "v4_addr (hdr_dest pkt)" and ?dst = "v4_addr (hdr_src pkt)"
  obtain h x where h: "arrived h ?a (hlen_of pkt) sg (lheap s)"
    "go_input e s pkt = bnd (tcp_input (i_tcp e) ?g ((tcp_of s)\<lparr>theap := h\<rparr>) (Some ?a) nif)
        (\<lambda>t. Inr (length pkt, None, clear_ip (with_tcp ((with_heap s h)\<lparr>l_ip := x\<rparr>) t)))"
    using tcp_packet_in [OF assms(1-6) refl] by blast
  have len: "length sg < 65535" using assms(5,6) by (auto simp: tcp_pkt_def)
  have addr: "\<not> ip_addr_isbroadcast (current_iphdr_dest ?g) (current_netif ?g)" "\<not> ip_addr_ismulticast (current_iphdr_dest ?g)"
    using assms(5) by (simp_all add: globals_of_def tcp_pkt_def ip_addr_isbroadcast_def ip_addr_ismulticast_def)
  obtain h1 t where t: "tcp_input (i_tcp e) ?g ((tcp_of s)\<lparr>theap := h\<rparr>) (Some ?a) nif
      = tcp_input_demux (i_tcp e) ?g ((tcp_of s)\<lparr>theap := h1, t_in := t\<rparr>) (Some ?a) nif" "parsed h1 t ?a sg h"
    using tcp_input_parsed [of "(tcp_of s)\<lparr>theap := h\<rparr>" ?a "hlen_of pkt" sg ?g "i_tcp e" nif] h(1) assms(7) len addr by (auto simp: arrived_def)
  have ok: "lists_ok (tcp_of s)" "no_match (tcp_of s) ?g nif (wire_src sg) (wire_dest sg)"
    using assms(8,9) by (simp_all add: tcp_of_def lists_ok_def no_match_def tcp_holds_def [abs_def])
  note dm = tcp_input_unmatched [OF ok t(2) len, of "i_tcp e"]
  have gd: "current_iphdr_dest ?g = ?src" "current_iphdr_src ?g = ?dst" by (simp_all add: globals_of_def)
  have h1: "packet h1 ?a []" "heap_ok h1" "net h1 = net (lheap s)" "nextid h1 = Suc ?a" "oom h1 = oom (lheap s)"
    "\<forall>q. q \<noteq> ?a \<longrightarrow> pbufs h1 q = pbufs (lheap s) q \<and> mem h1 q = mem (lheap s) q"
    using t(2) h(1) by (auto simp: parsed_def arrived_def packet_def)
  let ?pkt = "ip4_packet 0 (ip_id (net (lheap s))) TCP_TTL 6 (hdr_dest pkt) (hdr_src pkt) rst"
  obtain h2 where h2: "(if wire_flags sg AND TCP_RST = 0
         then tcp_rst (i_tcp e) (t_netifs (tcp_of s)) h1 None (wire_ack sg) (wire_seq sg + of_nat (wire_len sg)) ?src ?dst (wire_dest sg) (wire_src sg)
         else Inr h1) = Inr h2" "heap_ok h2" "pbufs h2 = pbufs h1" "mem h2 = mem h1"
    "sent (net h2) = sent (net (lheap s)) @ (if wire_flags sg AND TCP_RST \<noteq> 0 \<or> oom (lheap s) (Suc ?a) then [] else [?pkt])"
  proof (cases "wire_flags sg AND TCP_RST = 0")
    case True
    have w: "lwip_htons TCP_WND = 128" by (simp add: lwip_htons_def)
    have "?pkt = tcp_reply None (ip_id (net h1)) ?src ?dst rst" by (simp add: tcp_reply_def ttl_tos_def h1(3))
    then show thesis
      using that [of "answered h1 ?pkt"] True tcp_rst_eq [OF h1(2) v4_peer [OF assms(2,5)], of "i_tcp e"] answered_keeps [OF h1(2), of ?pkt] h1(3-5) assms(10) w
      by (simp add: tcp_of_def)
  next
    case False
    then show thesis using that [of h1] h1(2,3) by simp
  qed
  obtain h3 where h3: "pbuf_free h2 (Some ?a) = Inr (1, h3)" "pbufs h3 = pbufs (lheap s)" "mem h3 = mem (lheap s)" "net h3 = net h2"
    using packet_gone [OF packet_cong(1) [OF h1(1) h2(2-4)] _ assms(1) refl] h1(6) h2(3,4) by auto
  have "tcp_input (i_tcp e) ?g ((tcp_of s)\<lparr>theap := h\<rparr>) (Some ?a) nif = Inr ((tcp_of s)\<lparr>theap := h3, t_in := t\<rparr>)"
    by (simp only: t(1) dm gd h2(1)) (simp add: h3(1))
  then show ?thesis using h(2) tcp_result [OF refl] h2(5) h3(2-4) by (simp add: tcp_of_def)
qed


section \<open>Properties\<close>

text \<open>
  C3: A packet with a TCP segment of no connection, when nothing listens, is answered with a reset: the sequence number is the acknowledgement
  number of the segment, and the reset acknowledges all of the segment, a SYN and a FIN included. A reset itself is not answered. In
  both cases all the bytes are taken, the connections stay as they are, and no memory is left allocated.
\<close>

theorem tcp_unknown_reset:
  assumes "heap_ok (lheap s)" and "netifs s = nif # ns" and "\<not> oom (lheap s) (nextid (lheap s))"
    and "good_pkt s nif pkt" and "tcp_pkt nif pkt sg" and "length pkt \<le> 1514" and "good_seg sg"
    and "lists_ok (l_tcp s)" and "no_match (l_tcp s) (globals_of nif pkt) nif (wire_src sg) (wire_dest sg)"
    and "rst = tcp_control (v4_addr (hdr_dest pkt)) (v4_addr (hdr_src pkt)) (wire_dest sg) (wire_src sg)
          (wire_ack sg) (wire_seq sg + of_nat (wire_len sg)) 0x14 128"
  shows "\<exists>s'. go_input e s pkt = Inr (length pkt, None, s')
    \<and> sent (net (lheap s')) = sent (net (lheap s)) @ (if wire_flags sg AND TCP_RST \<noteq> 0 \<or> oom (lheap s) (Suc (nextid (lheap s))) then []
        else [ip4_packet 0 (ip_id (net (lheap s))) TCP_TTL 6 (hdr_dest pkt) (hdr_src pkt) rst])
    \<and> pbufs (lheap s') = pbufs (lheap s) \<and> mem (lheap s') = mem (lheap s)
    \<and> tcp_at (l_tcp s') = tcp_at (l_tcp s) \<and> tcp_active_pcbs (l_tcp s') = tcp_active_pcbs (l_tcp s)"
  using unknown_reset [OF assms] .

text \<open>
  C26: A packet whose TCP segment is shorter than a header, or whose data offset is less than 20 bytes or beyond the end of the segment, is
  dropped without an answer: the connections stay as they are and no memory is left allocated.
\<close>

theorem tcp_bad_segment_dropped:
  assumes "heap_ok (lheap s)" and "netifs s = nif # ns" and "\<not> oom (lheap s) (nextid (lheap s))"
    and "good_pkt s nif pkt" and "tcp_pkt nif pkt sg" and "length pkt \<le> 1514" and "\<not> good_seg sg"
  shows "\<exists>s'. go_input e s pkt = Inr (length pkt, None, s') \<and> net (lheap s') = net (lheap s)
    \<and> pbufs (lheap s') = pbufs (lheap s) \<and> mem (lheap s') = mem (lheap s)
    \<and> tcp_at (l_tcp s') = tcp_at (l_tcp s) \<and> tcp_active_pcbs (l_tcp s') = tcp_active_pcbs (l_tcp s)"
proof -
  let ?a = "nextid (lheap s)" and ?g = "globals_of nif pkt" and ?p = "Some (nextid (lheap s), int (hlen_of pkt))"
  obtain h x where h: "arrived h ?a (hlen_of pkt) sg (lheap s)"
    "go_input e s pkt = bnd (tcp_input (i_tcp e) ?g ((tcp_of s)\<lparr>theap := h\<rparr>) (Some ?a) nif)
        (\<lambda>t. Inr (length pkt, None, clear_ip (with_tcp ((with_heap s h)\<lparr>l_ip := x\<rparr>) t)))"
    using tcp_packet_in [OF assms(1-6) refl] by blast
  have p: "packet h ?a []" "chain_data h [?a] = sg" "p_payload (pb h ?a) = ?p" "in_block h ?a (hlen_of pkt) sg" using h(1) by (simp_all add: arrived_def in_block_def)
  obtain b where b: "pbufs h ?a = Some b" "unat (p_tot_len b) = length sg" "unat (p_len b) = length sg" "p_payload b = ?p"
    by (rule packetE [OF p(1)]) (use p(2,3) in simp)
  have len: "length sg < 65535" using assms(5,6) by (auto simp: tcp_pkt_def)
  have w: "load16 h ?p 12 = Inr (le16 (sg ! 12) (sg ! 13))" if "20 \<le> length sg"
  proof -
    have "sg \<noteq> []" using that by auto
    from in_blockE [OF p(4) this] obtain xs zs where "mem h ?a = Some (xs @ sg @ zs)" "length xs = hlen_of pkt" by metis
    from block_load(1) [OF this, of 12] that show ?thesis by (simp add: nth_append)
  qed
  obtain h' where h': "pbuf_free h (Some ?a) = Inr (1, h')" "pbufs h' = pbufs (lheap s)" "mem h' = mem (lheap s)" "net h' = net (lheap s)"
    using packet_gone [OF p(1) _ assms(1) refl] h(1) by (auto simp: arrived_def)
  have hl: "unat (ucast (TCPH_HDRLEN_BYTES (le16 (sg ! 12) (sg ! 13))) :: u16_t) = wire_hlen sg" by (simp add: wire_hlen_def)
  have "tcp_input (i_tcp e) ?g ((tcp_of s)\<lparr>theap := h\<rparr>) (Some ?a) nif = Inr ((tcp_of s)\<lparr>theap := h', t_in := (t_in (tcp_of s))\<lparr>i_tcphdr := ?p\<rparr>\<rparr>)"
    using b h'(1) w hl assms(7) by (auto simp: tcp_input_def good_seg_def wire_hlen_def word_less_nat_alt Let_def)
  then show ?thesis using h(2) tcp_result [OF refl] h'(2-4) by (simp add: tcp_of_def)
qed


section \<open>Instances\<close>

text \<open>A SYN from port 1000 of 10.0.0.1 to port 80 of 10.0.0.2; \<open>off\<close> is the byte with the data offset.\<close>

definition sample_syn :: "u8_t \<Rightarrow> bytes" where
  "sample_syn off = [0x45, 0, 0, 40, 0, 7, 0, 0, 64, 6, 0, 0, 10, 0, 0, 1, 10, 0, 0, 2]
     @ [3, 0xe8, 0, 80, 0, 0, 0, 7, 0, 0, 0, 0, off, 2, 0x10, 0, 0, 0, 0, 0]"

lemma sample_syn_good:
  "good_pkt sample_lwip sample_out_netif (sample_syn off)" "tcp_pkt sample_out_netif (sample_syn off) (drop 20 (sample_syn off))"
  "good_seg (drop 20 (sample_syn 0x50))" "\<not> good_seg (drop 20 (sample_syn 0x40))" "wire_flags (drop 20 (sample_syn 0x50)) = 2" "length (sample_syn off) = 40"
proof -
  have h: "hlen_of (sample_syn off) = 20" "total_len (sample_syn off) = 40" "hdr_src (sample_syn off) = 0x0100000a" "hdr_dest (sample_syn off) = 0x0200000a"
    "sample_syn off ! 9 = 6" "length (sample_syn off) = 40" "drop_bit 4 (sample_syn off ! 0) = 4" "IPH_OFFSET (sample_syn off) = 0"
    by (simp_all add: sample_syn_def hlen_of_def IPH_HL_BYTES_def total_len_def IPH_LEN_def hdr_src_def hdr_dest_def le32_def le16_def lwip_htons_def IPH_OFFSET_def)
  show "good_pkt sample_lwip sample_out_netif (sample_syn off)"
    using h sample_addrs by (simp add: good_pkt_def ip4_good_def ip4_reject_def hdr_bad_def ip4_input_netif_def ip4_input_accept_def sample_raw0_def)
  show "tcp_pkt sample_out_netif (sample_syn off) (drop 20 (sample_syn off))"
    using h sample_addrs by (simp add: tcp_pkt_def sample_out_netif_def)
  show "good_seg (drop 20 (sample_syn 0x50))" "\<not> good_seg (drop 20 (sample_syn 0x40))" "wire_flags (drop 20 (sample_syn 0x50)) = 2" by code_simp+
  show "length (sample_syn off) = 40" by (rule h)
qed

theorem tcp_unknown_reset_witness:
  "\<exists>s'. go_input sample_ip_env sample_lwip (sample_syn 0x50) = Inr (40, None, s') \<and> length (sent (net (lheap s'))) = 1 \<and> pbufs (lheap s') = pbufs (lheap sample_lwip)"
proof -
  let ?sg = "drop 20 (sample_syn 0x50)"
  have "lists_ok (l_tcp sample_lwip)" "no_match (l_tcp sample_lwip) (globals_of sample_out_netif (sample_syn 0x50)) sample_out_netif (wire_src ?sg) (wire_dest ?sg)"
    by (simp_all add: sample_lwip_def sample_tcp_start_def lists_ok_def no_match_def)
  from tcp_unknown_reset [OF sample_lwip_heap(1) sample_lwip_sel(2) _ sample_syn_good(1,2) _ sample_syn_good(3) this refl, of sample_ip_env]
  show ?thesis by (auto simp: sample_lwip_heap(2-4) sample_syn_good(5,6))
qed

theorem tcp_bad_segment_dropped_witness:
  "\<exists>s'. go_input sample_ip_env sample_lwip (sample_syn 0x40) = Inr (40, None, s') \<and> sent (net (lheap s')) = [] \<and> pbufs (lheap s') = pbufs (lheap sample_lwip)"
  using tcp_bad_segment_dropped [OF sample_lwip_heap(1) sample_lwip_sel(2) _ sample_syn_good(1,2) _ sample_syn_good(4), of sample_ip_env]
  by (auto simp: sample_lwip_heap(2-4) sample_syn_good(6))

end
