(* ===== verification/Spec2Isabelle.thy ===== *)
theory Spec2Isabelle
  imports Timeouts_C Udp_Packets Ip4_Receive Tcp_States Tcp_Packets
begin

text \<open>
  A verification of the C core of tun2proxylib: the lwIP TCP/IP stack under \<^verbatim>\<open>src/lwipcore/core/c\<close>, as the library compiles
  it (\<^verbatim>\<open>custom/lwipopts.h\<close>: IPv4 and IPv6, TCP and UDP, no threads, heap and pools mapped to the C library, a little-endian host).
  All paths below are relative to that directory.

  \<^bold>\<open>The program.\<close> A tunnel device delivers IP packets. \<^verbatim>\<open>input.go\<close> copies each into a packet buffer (\<^verbatim>\<open>core/pbuf.c\<close>) and
  hands it to IP (\<^verbatim>\<open>core/ip.c\<close>, \<^verbatim>\<open>core/ipv4/ip4.c\<close>), which checks it, reassembles fragments (\<^verbatim>\<open>core/ipv4/ip4_frag.c\<close>), offers it
  to the raw pcbs (\<^verbatim>\<open>core/raw.c\<close>) and gives it to UDP (\<^verbatim>\<open>core/udp.c\<close>), to TCP or to ICMP (\<^verbatim>\<open>core/ipv4/icmp.c\<close>).
  TCP is \<^verbatim>\<open>core/tcp.c\<close> (pcbs, closing, timers), \<^verbatim>\<open>core/tcp_in.c\<close> (segments that arrive) and \<^verbatim>\<open>core/tcp_out.c\<close> (segments that leave).
  This fork lets the first UDP pcb take every datagram and the first listening TCP pcb every SYN, whatever the destination, so that
  the proxy sees all of them.
  Replies go the other way: headers are put in front of the packet, checksums are computed (\<^verbatim>\<open>core/inet_chksum.c\<close>), and the
  packet leaves through \<^verbatim>\<open>netif->output\<close>, which is \<^verbatim>\<open>output_export.go\<close>. Timers (\<^verbatim>\<open>core/timeouts.c\<close>) are polled.

  \<^bold>\<open>How it is modelled.\<close> A C function is a HOL function that takes the state it reads and returns the state it changes. The
  result is an \<open>outcome\<close> (theory \<open>Lwip_Prelude\<close>): \<open>Inr\<close> with the value, or \<open>Inl Fault\<close> for an access to memory that is
  not there, \<open>Inl Abort\<close> for a failing \<^verbatim>\<open>LWIP_ASSERT\<close> or \<^verbatim>\<open>LWIP_ERROR\<close>, which both end the program here, and \<open>Inl Diverge\<close> for a
  loop that has used up its fuel, and for the registration of a TCP pcb on the list that it is on, which makes a ring of the list. Integers keep their width (\<^verbatim>\<open>u16_t\<close> is a 16 bit word and wraps around). Objects are named
  by numbers; following a pointer to a freed object is a \<open>Fault\<close>. Fuel for loops over linked structures is one more than the
  number of objects ever allocated, which a chain without cycles cannot exhaust; the theorems on such loops include that they end.
  Functions a module calls through a pointer or that another module provides are fields of an environment record, which the
  theory that has both fills (\<open>lwip_env\<close>, \<open>udp_env_of\<close>). What stays a parameter in the end: the functions of IPv6, the
  callbacks of the application, and which addresses are odd, on which the checksum code branches. Theorems on states that callbacks
  take part in ask for what the code relies on: \<open>callbacks_ok\<close> (a callback keeps the invariant of TCP; it may free a connection, but leaves
  none that is open in the state \<^verbatim>\<open>CLOSED\<close> or \<^verbatim>\<open>TIME-WAIT\<close>), \<open>keeps_states\<close> (it changes no state unless it answers \<^verbatim>\<open>ERR_ABRT\<close>). Packets that leave are recorded
  in the field \<open>net\<close> of the heap, together with \<^verbatim>\<open>ip_id\<close> and the packets queued for the interface's own address.

  \<^bold>\<open>The theories.\<close>

  \<^item> \<open>Lwip_Prelude\<close>: outcomes, machine integers, error codes, shared lemmas on words and lists.
  \<^item> \<open>Def_C\<close> (\<^verbatim>\<open>core/def.c\<close>): byte order, \<^verbatim>\<open>lwip_itoa\<close>, \<^verbatim>\<open>lwip_strnstr\<close>, \<^verbatim>\<open>lwip_stricmp\<close>, each shown equal to what it should
    compute, with the bounds of its buffers.
  \<^item> \<open>Inet_Chksum\<close>, \<open>Chksum_Pbuf\<close> (\<^verbatim>\<open>core/inet_chksum.c\<close>): the three checksum algorithms agree with the sum of RFC 1071; the
    checksum of a chain, with or without pseudo header, is that of its bytes, for every cutting into pbufs (odd lengths
    included); a stored checksum verifies.
  \<^item> \<open>Pbuf_Heap\<close>, \<open>Pbuf_C\<close> (\<^verbatim>\<open>core/pbuf.c\<close>): the heap and every operation on packet buffers. \<open>Pbuf_Data\<close>, \<open>Pbuf_Life\<close>,
    \<open>Pbuf_Alloc\<close>, \<open>Pbuf_Chain\<close>, \<open>Pbuf_Copy\<close> prove the operations against \<open>chain_data\<close>, the bytes a chain
    stands for, and \<open>chain_ok\<close>, the invariant of \<^verbatim>\<open>tot_len\<close>. \<open>Pbuf_Contract\<close> states what clients rely on.
  \<^item> \<open>Timeouts_C\<close> (\<^verbatim>\<open>core/timeouts.c\<close>): the sorted list of timeouts under wrap-around of the clock; \<^verbatim>\<open>sys_check_timeouts\<close> ends
    and loses no cyclic timer.
  \<^item> \<open>Netif_H\<close>, \<open>Ip4_Addr\<close>, \<open>Ip_Addr\<close>: interfaces as far as UDP reads them, addresses of both versions, parsing and printing of
    IPv4 addresses.
  \<^item> \<open>Wire\<close>: 16 bit fields of a header in network order; the locale of a readable and writable header and its interpretation
    on the first pbuf of a chain.
  \<^item> \<open>Udp_C\<close>, \<open>Udp_Packets\<close> (\<^verbatim>\<open>core/udp.c\<close>): all functions of the file. The states that any sequence of calls and of changes of
    addresses can reach, and which bindings they have; exactly when \<^verbatim>\<open>udp_bind\<close> refuses and when a changed address brings pcbs into conflict; what \<^verbatim>\<open>udp_input\<close> delivers and drops; the datagrams \<^verbatim>\<open>udp_sendto\<close> builds and the errors it answers.
  \<^item> \<open>Ip4_Frag\<close> (\<^verbatim>\<open>core/ipv4/ip4_frag.c\<close>): all functions of the file. \<open>Reass_Queue\<close>: the queue of fragments, threaded through
    the pbufs, refines an ordered list of disjoint intervals. \<open>Reass_Datagram\<close>: the fragment that completes a datagram makes
    \<^verbatim>\<open>ip4_reass\<close> return all bytes in order behind a correct header. \<open>Reass_Timer\<close>: the states any interleaving of fragments and
    ticks can reach, and their bounds. \<open>Reass_Timeout\<close>: fragments that are never completed are all freed by the timer.
  \<^item> \<open>Pbuf_Ram\<close>: shared lemmas on packets in one block of memory. \<open>Ip4_Out\<close> (\<^verbatim>\<open>ip4_output_if\<close> and its variants, routing,
    \<^verbatim>\<open>netif_loop_output\<close>, \<^verbatim>\<open>output_export.go\<close>): the packet that leaves has a correct header. \<open>Icmp_C\<close> (\<^verbatim>\<open>core/ipv4/icmp.c\<close>): all
    functions of the file; the echo reply and the error messages.
  \<^item> \<open>Raw_C\<close> (\<^verbatim>\<open>core/raw.c\<close>): all functions of the file; the invariant of the list of pcbs; who sees a packet.
  \<^item> \<open>Ip4_In\<close> (\<^verbatim>\<open>ip_input\<close>, \<^verbatim>\<open>ip4_input\<close>, \<^verbatim>\<open>input.go\<close>): the state \<open>lwip\<close> of all modules together; what is rejected.
    \<open>Ip4_Receive\<close>: from the bytes of a packet to the answer to a ping, to the callback of a UDP pcb, and to the ICMP errors for
    an unknown protocol and for a UDP port that nobody has.
  \<^item> \<open>Port_Search\<close>: the locale of a search for a free port, interpreted on UDP and on TCP.
  \<^item> \<open>Tcp_Pcb\<close>, \<open>Tcp_Out\<close>, \<open>Tcp_C\<close>, \<open>Tcp_In\<close> (\<^verbatim>\<open>core/tcp.c\<close>, \<^verbatim>\<open>core/tcp_out.c\<close>, \<^verbatim>\<open>core/tcp_in.c\<close>): all functions of the three files. The
    state is the record \<open>tcp_globals\<close>: the pcbs by name, the four lists, the timer and the variables of \<^verbatim>\<open>tcp_input\<close>. A pcb
    carries its queues of segments as lists. The timers walk over lists that callbacks change, and start again when they have
    changed; the fuel of \<open>tcp_tmr\<close> is the number of pcbs that it looks at, those it comes across again included.
  \<^item> \<open>Outcome_Rules\<close>, \<open>Tcp_Frames\<close>: what holds of the result of an operation, if there is one; what sending, retransmitting and
    receiving leave alone in a pcb. \<open>Tcp_Rules\<close>: ports, the parser of options, the announced window, the receive window, and the end of
    \<^verbatim>\<open>TIME-WAIT\<close>.
  \<^item> \<open>Tcp_Inv\<close>, \<open>Tcp_Lists\<close>, \<open>Tcp_Calls\<close>, \<open>Tcp_Segments\<close>: every operation keeps the invariant of the lists and of the pcbs.
    \<open>Tcp_System\<close>: the step relation of the module, and what holds in every state it reaches. \<open>Tcp_States\<close>: the state \<^verbatim>\<open>tcp_process\<close> leads
    to is the one of the diagram of RFC 793, with the tests of the acknowledgement numbers.
  \<^item> \<open>Tcp_Replies\<close>: resets and acknowledgements, byte by byte. \<open>Tcp_Packets\<close>: from the bytes of a packet through IPv4 to TCP;
    the reset for a segment of no connection, and segments that are dropped.
  \<^item> This theory: what one application sends with UDP is what the other receives.

  \<^bold>\<open>Bounds.\<close> Statements on chains ask for lengths below 65536, since \<^verbatim>\<open>tot_len\<close> is a \<^verbatim>\<open>u16_t\<close>; where the code checks this
  the statement says what happens beyond.

  \<^bold>\<open>What the statements on TCP leave open.\<close> The invariants and the state machine are about the results of operations: they do not
  exclude that an operation ends in \<open>Abort\<close>, as the code does when one of its own assertions fails. The statements on
  the parser, the timer, the ports, resets, acknowledgements and dropped segments include that the operation returns.

  \<^bold>\<open>Not modelled.\<close> The IPv6 side of IP and ICMP, IPv6 reassembly and neighbour discovery, the text form of IPv6 addresses, and the
  setup of interfaces. Of the Go side only the functions that pass packets in and out are modelled: the connections are built on
  goroutines and locks around the callbacks, which are parameters here. Modules the configuration switches off (DNS, DHCP, AutoIP, ARP,
  SNMP, sockets) are not part of the program.
\<close>

section \<open>From application to application\<close>

lemma udp_header_ports: "udp_header sport dport len ck @ d = be16 sport @ be16 dport @ (be16 len @ u16_bytes ck) @ d"
  by (simp add: udp_header_def)

text \<open>
  C5: What one application gives to \<^verbatim>\<open>udp_sendto\<close> is what the receiving application gets: if the datagram that leaves the sender
  reaches a stack whose first pcb has a callback, then \<^verbatim>\<open>udp_input\<close> there calls it with exactly the bytes that were sent and
  with the source and destination port of the sender.
\<close>

theorem udp_send_receive:
  assumes "sendable (uheap s) a qs" and "8 + length (chain_data (uheap s) (a # qs)) \<le> 65535"
    and "pcb_at s i = Some c" and "local_port c \<noteq> 0"
    and "IP_ADDR_PCB_VERSION_MATCH c src" and "IP_ADDR_PCB_VERSION_MATCH c dst" and "udp_route e s c dst = Some n"
    and "length (u_addr src) = 4" and "length (u_addr dst) = 4" and "\<not> oom (uheap s) (nextid (uheap s))"
  shows "\<exists>q rs h'. udp_sendto e s (Some i) (Some a) (Some dst) dport (Some src) sport
         = bnd (ip_output_if_src e h' (Some q) src dst (ttl c) (tos c) 17 n) (\<lambda>(err, h).
           bnd (if q \<noteq> a then bnd (pbuf_free h (Some q)) (\<lambda>(_, h). Inr h) else Inr h) (\<lambda>h. Inr (err, s\<lparr>uheap := h\<rparr>)))
       \<and> (\<forall>e' g t j js d f nif. uheap t = h' \<and> udp_pcbs t = j # js \<and> pcb_at t j = Some d \<and> recv d = Some f \<longrightarrow>
            (\<exists>h''. udp_input e' g t (Some q) (Some nif)
               = recv_fn e' f (recv_arg d) j (Some q) (current_iphdr_src g) sport (current_iphdr_dest g) dport (t\<lparr>uheap := h''\<rparr>)
             \<and> chain_ok h'' (Some q) (q # rs) \<and> chain_data h'' (q # rs) = chain_data (uheap s) (a # qs)))"
proof -
  define d where "d = chain_data (uheap s) (a # qs)"
  obtain q rs h' len ck where send: "udp_sendto e s (Some i) (Some a) (Some dst) dport (Some src) sport
         = bnd (ip_output_if_src e h' (Some q) src dst (ttl c) (tos c) 17 n) (\<lambda>(err, h).
           bnd (if q \<noteq> a then bnd (pbuf_free h (Some q)) (\<lambda>(_, h). Inr h) else Inr h) (\<lambda>h. Inr (err, s\<lparr>uheap := h\<rparr>)))"
    and h': "chain_ok h' (Some q) (q # rs)" "8 \<le> unat (p_len (pb h' q))"
    "chain_data h' (q # rs) = udp_header sport dport len ck @ d"
    using udp_sendto_ok [OF assms(1-9) d_def refl refl, of dport sport] assms(10) by blast
  have dl: "\<exists>h''. udp_input e' g t (Some q) (Some nif)
      = recv_fn e' f (recv_arg k) j (Some q) (current_iphdr_src g) sport (current_iphdr_dest g) dport (t\<lparr>uheap := h''\<rparr>)
    \<and> chain_ok h'' (Some q) (q # rs) \<and> chain_data h'' (q # rs) = d"
    if "uheap t = h'" "udp_pcbs t = j # js" "pcb_at t j = Some k" "recv k = Some f" for e' g t j js k f nif
  proof -
    have "chain_data (uheap t) (q # rs) = be16 sport @ be16 dport @ (be16 len @ u16_bytes ck) @ d"
      using h'(3) that(1) by (simp only: udp_header_ports)
    moreover have "drop 4 ((be16 len @ u16_bytes ck) @ d) = d" by simp
    ultimately show ?thesis using udp_input_delivered [of t q rs sport dport "(be16 len @ u16_bytes ck) @ d" j js k f e' g nif] h' that by simp
  qed
  show ?thesis using send dl unfolding d_def [symmetric] by blast
qed

theorem udp_send_receive_witness:
  "\<exists>q rs h'. udp_sendto sample_udp_env sample_udp (Some 0) (Some 0) (Some (sample_addr 2)) 99 (Some (sample_addr 1)) 53
      = bnd (if q \<noteq> 0 then bnd (pbuf_free h' (Some q)) (\<lambda>(_, h). Inr h) else Inr h') (\<lambda>h. Inr (ERR_OK, sample_udp\<lparr>uheap := h\<rparr>))
    \<and> (\<exists>h''. udp_input sample_udp_env (sample_ip 1 2) (set_pcb sample_udp 0 ((upcb sample_udp 0)\<lparr>recv := Some 7\<rparr>)\<lparr>uheap := h'\<rparr>)
          (Some q) (Some sample_netif)
        = Inr (set_pcb sample_udp 0 ((upcb sample_udp 0)\<lparr>recv := Some 7\<rparr>)\<lparr>uheap := h''\<rparr>)
      \<and> chain_data h'' (q # rs) = [10, 20, 30, 40, 50])"
proof -
  let ?t = "\<lambda>h. set_pcb sample_udp 0 ((upcb sample_udp 0)\<lparr>recv := Some 7\<rparr>)\<lparr>uheap := h\<rparr>"
  have out: "ip_output_if_src sample_udp_env = (\<lambda>h _ _ _ _ _ _ _. Inr (ERR_OK, h))" "recv_fn sample_udp_env = (\<lambda>_ _ _ _ _ _ _ _. Inr)"
    by (simp_all add: sample_udp_env_def)
  obtain q rs h' where s: "udp_sendto sample_udp_env sample_udp (Some 0) (Some 0) (Some (sample_addr 2)) 99 (Some (sample_addr 1)) 53
      = bnd (if q \<noteq> 0 then bnd (pbuf_free h' (Some q)) (\<lambda>(_, h). Inr h) else Inr h') (\<lambda>h. Inr (ERR_OK, sample_udp\<lparr>uheap := h\<rparr>))"
    and r: "\<And>e' g t j js d f nif. uheap t = h' \<and> udp_pcbs t = j # js \<and> pcb_at t j = Some d \<and> recv d = Some f \<Longrightarrow>
            \<exists>h''. udp_input e' g t (Some q) (Some nif)
               = recv_fn e' f (recv_arg d) j (Some q) (current_iphdr_src g) 53 (current_iphdr_dest g) 99 (t\<lparr>uheap := h''\<rparr>)
             \<and> chain_ok h'' (Some q) (q # rs) \<and> chain_data h'' (q # rs) = [10, 20, 30, 40, 50]"
    using udp_send_receive [OF _ _ sample_udp_pcb, of 0 "[Suc 0]" "sample_addr 1" "sample_addr 2" sample_udp_env sample_netif 99 53]
    by (simp add: out split del: if_split) blast
  have "\<exists>h''. udp_input sample_udp_env (sample_ip 1 2) (?t h') (Some q) (Some sample_netif)
        = Inr ((?t h')\<lparr>uheap := h''\<rparr>) \<and> chain_data h'' (q # rs) = [10, 20, 30, 40, 50]"
    using r [of "?t h'" 0 "[]" "(upcb sample_udp 0)\<lparr>recv := Some 7\<rparr>" 7 sample_udp_env "sample_ip 1 2" sample_netif]
    by (auto simp: out)
  then show ?thesis using s by (intro exI [of _ q] exI [of _ rs] exI [of _ h']) (simp add: set_pcb_def)
qed

end
